(* ===== verification/Prelude.thy ===== *)
theory Prelude
  imports Complex_Main "HOL-Library.Word" "HOL-Library.Monad_Syntax"
begin

text \<open>
  What the component theories share: the C conventions of the gateway sources (NUL-free
  strings, bounded copies, hashes on machine words), and the list lemmas that carry the
  component proofs.

  C strings are HOL strings without a NUL character, so \<open>strcmp(a, b) == 0\<close> is \<open>a = b\<close>. A
  \<open>const char*\<close> that may be NULL is a \<open>string option\<close>. Time is an argument of every operation
  that reads a clock.
\<close>

section \<open>Named collections\<close>

named_theorems cstr_simps \<open>facts on bounded C strings\<close>
named_theorems frame_simps \<open>what an operation leaves unchanged\<close>
named_theorems inv_intros \<open>an operation preserves the invariant of its component\<close>

section \<open>C strings\<close>

text \<open>\<open>snprintf(dst, n, "%s", src)\<close> and the bounded \<open>strncpy\<close> of the sources keep at most
  \<open>n - 1\<close> characters.\<close>

definition cstr_copy :: "nat \<Rightarrow> string \<Rightarrow> string" where
  "cstr_copy n s = take (n - 1) s"

lemma cstr_copy_short [simp, cstr_simps]: "length s < n \<Longrightarrow> cstr_copy n s = s"
  by (simp add: cstr_copy_def)

lemma cstr_copy_Nil [simp, cstr_simps]: "cstr_copy n [] = []"
  by (simp add: cstr_copy_def)

lemma length_cstr_copy [cstr_simps]: "0 < n \<Longrightarrow> length (cstr_copy n s) < n"
  by (auto simp: cstr_copy_def min_def)

lemma cstr_copy_long [cstr_simps]: "0 < n \<Longrightarrow> n \<le> length s \<Longrightarrow> cstr_copy n s \<noteq> s"
  using length_cstr_copy [of n s] by auto

text \<open>\<open>p ? p : ""\<close>\<close>

definition cstr_or_empty :: "string option \<Rightarrow> string" where
  "cstr_or_empty p = (case p of None \<Rightarrow> [] | Some s \<Rightarrow> s)"

lemma cstr_or_empty_simps [simp]:
  "cstr_or_empty None = []" "cstr_or_empty (Some s) = s"
  by (simp_all add: cstr_or_empty_def)

text \<open>\<open>strstr(q + pos, pref)\<close>, as an index into \<open>q\<close>.\<close>

definition strstr_from :: "string \<Rightarrow> string \<Rightarrow> nat \<Rightarrow> nat option" where
  "strstr_from q pref pos = find (\<lambda>i. take (length pref) (drop i q) = pref) [pos..<Suc (length q)]"

lemma strstr_from_ge: "strstr_from q pref pos = Some i \<Longrightarrow> pos \<le> i \<and> i \<le> length q"
  unfolding strstr_from_def find_Some_iff by (metis atLeastLessThan_iff less_Suc_eq_le nth_mem set_upt)

text \<open>\<^verbatim>\<open>isspace\<close> and \<^verbatim>\<open>tolower\<close> of the C locale.\<close>

definition is_space :: "char \<Rightarrow> bool" where
  "is_space c \<longleftrightarrow> (let n = (of_char c :: nat) in n = 32 \<or> (9 \<le> n \<and> n \<le> 13))"

definition to_lower :: "char \<Rightarrow> char" where
  "to_lower c = (if 65 \<le> (of_char c :: nat) \<and> (of_char c :: nat) \<le> 90 then char_of ((of_char c :: nat) + 32) else c)"

text \<open>A digit of \<open>%x\<close>.\<close>

definition hex_digit :: "nat \<Rightarrow> char" where
  "hex_digit n = ''0123456789abcdef'' ! n"

text \<open>\<open>%02x\<close>\<close>

definition hex2 :: "8 word \<Rightarrow> string" where
  "hex2 b = [hex_digit (unat b div 16), hex_digit (unat b mod 16)]"

section \<open>Growing buffers\<close>

text \<open>Writing \<open>s\<close> behind \<open>out\<close> in a buffer of \<open>cap\<close> bytes, and what a function that fills one can end
  with: a write outside of it, a reallocation that fails, or a result.\<close>

datatype 'a buf_result = Buf_Overrun | Buf_Oom | Buf_Done 'a

definition buf_write :: "nat \<Rightarrow> string \<Rightarrow> string \<Rightarrow> string option" where
  "buf_write cap out s = (if length out + length s \<le> cap then Some (out @ s) else None)"

section \<open>Rounding up to a power of two\<close>

text \<open>The loop \<open>while (p < n) p <<= 1;\<close> shared by the hash tables of the sources.\<close>

function pow2_from :: "nat \<Rightarrow> nat \<Rightarrow> nat" where
  "pow2_from p n = (if 0 < p \<and> p < n then pow2_from (2 * p) n else p)"
  by pat_completeness auto
termination
  by (relation "measure (\<lambda>(p, n). n - p)") auto

declare pow2_from.simps [simp del]

lemma pow2_from_ge: "0 < p \<Longrightarrow> n \<le> pow2_from p n \<and> p \<le> pow2_from p n"
proof (induction p n rule: pow2_from.induct)
  case (1 p n)
  show ?case
  proof (cases "p < n")
    case True
    with 1 have "n \<le> pow2_from (2 * p) n \<and> 2 * p \<le> pow2_from (2 * p) n" by simp
    with True 1(2) show ?thesis by (subst (1 2) pow2_from.simps) auto
  next
    case False
    then show ?thesis by (subst (1 2) pow2_from.simps) auto
  qed
qed

lemma pow2_from_power: "\<exists>k. pow2_from (2 ^ a) n = 2 ^ k"
proof (induction "2 ^ a :: nat" n arbitrary: a rule: pow2_from.induct)
  case (1 n)
  show ?case
  proof (cases "2 ^ a < n")
    case True
    with 1 [of "Suc a"] obtain k where "pow2_from (2 * 2 ^ a) n = 2 ^ k" by auto
    with True show ?thesis by (subst pow2_from.simps) auto
  next
    case False
    then show ?thesis by (subst pow2_from.simps) auto
  qed
qed

section \<open>Searching and updating lists\<close>

text \<open>The index of the first element with a property: the result of a search loop.\<close>

fun find_idx :: "('a \<Rightarrow> bool) \<Rightarrow> 'a list \<Rightarrow> nat option" where
  "find_idx P [] = None"
| "find_idx P (x # xs) = (if P x then Some 0 else map_option Suc (find_idx P xs))"

lemma find_idx_Some:
  "find_idx P xs = Some i \<Longrightarrow> i < length xs \<and> P (xs ! i) \<and> (\<forall>j<i. \<not> P (xs ! j))"
proof (induction xs arbitrary: i)
  case Nil
  then show ?case by simp
next
  case (Cons x xs)
  show ?case
  proof (cases "P x")
    case True
    with Cons.prems show ?thesis by simp
  next
    case False
    with Cons.prems obtain k where k: "find_idx P xs = Some k" "i = Suc k" by auto
    with Cons.IH [OF k(1)] False show ?thesis
      by (auto simp: less_Suc_eq_0_disj)
  qed
qed

lemma find_idx_None: "find_idx P xs = None \<longleftrightarrow> (\<forall>x \<in> set xs. \<not> P x)"
  by (induction xs) auto

lemma find_idx_in_range [simp]: "find_idx P xs = Some i \<Longrightarrow> i < length xs"
  using find_idx_Some by blast

lemma find_idx_holds: "find_idx P xs = Some i \<Longrightarrow> P (xs ! i)"
  using find_idx_Some by blast

lemma find_idx_mem: "find_idx P xs = Some i \<Longrightarrow> xs ! i \<in> set xs"
  by simp

lemma set_list_update_le: "set (xs[i := v]) \<subseteq> insert v (set xs)"
  by (rule set_update_subset_insert)

lemma ball_list_update:
  "(\<forall>x \<in> set xs. P x) \<Longrightarrow> P v \<Longrightarrow> \<forall>x \<in> set (xs[i := v]). P x"
  using set_update_subset_insert by fastforce

section \<open>Hashes\<close>

text \<open>djb2: \<open>h = ((h << 5) + h) + byte\<close> on a 32-bit unsigned.\<close>

definition djb2_step :: "32 word \<Rightarrow> char \<Rightarrow> 32 word" where
  "djb2_step h c = (push_bit 5 h + h) + of_nat (of_char c)"

definition djb2 :: "32 word \<Rightarrow> string \<Rightarrow> 32 word" where
  "djb2 h s = foldl djb2_step h s"

text \<open>A hash reduced modulo the number of buckets is a bucket index.\<close>

lemma unat_mod_less [simp]: "0 < n \<Longrightarrow> unat w mod n < (n::nat)"
  by simp

end
