(* ===== verification/Lru.thy ===== *)
theory Lru
  imports Prelude
begin

text \<open>
  \<^verbatim>\<open>src/common/lru.c\<close>: the LRU map behind the API-key cache and the route cache. Each node takes
  part in a doubly linked recency list (\<open>prev\<close>, \<open>next\<close>) and in a hash bucket chain
  (\<open>next_bkt\<close>). The model keeps the pointers: a node lives at an address of the memory of the
  map, an operation that follows a pointer reads that memory, and a dangling or NULL pointer
  that is followed makes the operation \<open>None\<close>, as does a chain walk that never ends. The
  theorems say that no operation is ever \<open>None\<close> on a well-formed map, and that each one
  implements the operation of the same name on a list of bindings, most recent first.

  \<open>malloc\<close> hands out the least address never used; the address value is not observed by the
  code. \<open>alloc_ok\<close> says whether the allocations of an operation succeed. The values given to
  the \<open>on_evict\<close> callback are returned as a list. The mutex makes every operation atomic.
\<close>

section \<open>State\<close>

type_synonym addr = nat

record 'v lru_node =
  node_key :: string
  node_val :: 'v
  node_prev :: "addr option"
  node_next :: "addr option"
  node_next_bkt :: "addr option"
  node_h :: nat

type_synonym 'v lru_mem = "addr \<rightharpoonup> 'v lru_node"

record 'v lru =
  lru_mem :: "'v lru_mem"
  lru_brk :: addr
  lru_capacity :: nat
  lru_count :: nat
  lru_head :: "addr option"
  lru_tail :: "addr option"
  lru_table :: "addr option list"
  lru_table_cap :: nat

section \<open>Operations\<close>

subsection \<open>Hashing and sizing\<close>

definition fnv1a_step :: "64 word \<Rightarrow> char \<Rightarrow> 64 word" where
  "fnv1a_step h c = (Bit_Operations.xor h (of_nat (of_char c))) * 1099511628211"

definition fnv1a :: "string \<Rightarrow> nat \<Rightarrow> nat" where
  "fnv1a s cap = unat (foldl fnv1a_step 1469598103934665603 s) mod cap"

definition lru_next_pow2 :: "nat \<Rightarrow> nat" where
  "lru_next_pow2 n = pow2_from 4 n"

definition lru_new :: "nat \<Rightarrow> bool \<Rightarrow> 'v lru option" where
  "lru_new capacity alloc_ok =
     (if \<not> alloc_ok then None
      else let cap = (if capacity < 1 then 1 else capacity);
               tcap = lru_next_pow2 (cap * 2)
           in Some \<lparr>lru_mem = Map.empty, lru_brk = 0, lru_capacity = cap, lru_count = 0,
                    lru_head = None, lru_tail = None,
                    lru_table = replicate tcap None, lru_table_cap = tcap\<rparr>)"

subsection \<open>Memory\<close>

text \<open>A write through a pointer; \<open>None\<close> when the pointer does not point to a live node.\<close>

definition node_store ::
  "'v lru_mem \<Rightarrow> addr \<Rightarrow> ('v lru_node \<Rightarrow> 'v lru_node) \<Rightarrow> 'v lru_mem option" where
  "node_store m a f = (case m a of None \<Rightarrow> None | Some n \<Rightarrow> Some (m(a \<mapsto> f n)))"

definition table_at :: "'v lru \<Rightarrow> nat \<Rightarrow> addr option option" where
  "table_at lr i = (if i < length (lru_table lr) then Some (lru_table lr ! i) else None)"

subsection \<open>Recency list\<close>

definition rec_link_head :: "'v lru \<Rightarrow> addr \<Rightarrow> 'v lru option" where
  "rec_link_head lr a = do {
     m1 \<leftarrow> node_store (lru_mem lr) a (\<lambda>n. n\<lparr>node_next := lru_head lr, node_prev := None\<rparr>);
     m2 \<leftarrow> (case lru_head lr of
              None \<Rightarrow> Some m1
            | Some h \<Rightarrow> node_store m1 h (\<lambda>n. n\<lparr>node_prev := Some a\<rparr>));
     Some (lr\<lparr>lru_mem := m2, lru_head := Some a,
              lru_tail := (if lru_tail lr = None then Some a else lru_tail lr)\<rparr>)
   }"

definition rec_unlink :: "'v lru \<Rightarrow> addr \<Rightarrow> 'v lru option" where
  "rec_unlink lr a = do {
     n \<leftarrow> lru_mem lr a;
     lr1 \<leftarrow> (case node_prev n of
               Some p \<Rightarrow> do {
                 m \<leftarrow> node_store (lru_mem lr) p (\<lambda>q. q\<lparr>node_next := node_next n\<rparr>);
                 Some (lr\<lparr>lru_mem := m\<rparr>) }
             | None \<Rightarrow> Some (lr\<lparr>lru_head := node_next n\<rparr>));
     n1 \<leftarrow> lru_mem lr1 a;
     lr2 \<leftarrow> (case node_next n1 of
               Some q \<Rightarrow> do {
                 m \<leftarrow> node_store (lru_mem lr1) q (\<lambda>x. x\<lparr>node_prev := node_prev n1\<rparr>);
                 Some (lr1\<lparr>lru_mem := m\<rparr>) }
             | None \<Rightarrow> Some (lr1\<lparr>lru_tail := node_prev n1\<rparr>));
     m \<leftarrow> node_store (lru_mem lr2) a (\<lambda>x. x\<lparr>node_prev := None, node_next := None\<rparr>);
     Some (lr2\<lparr>lru_mem := m\<rparr>)
   }"

definition rec_move_to_head :: "'v lru \<Rightarrow> addr \<Rightarrow> 'v lru option" where
  "rec_move_to_head lr a =
     (if lru_head lr = Some a then Some lr
      else do { lr1 \<leftarrow> rec_unlink lr a; rec_link_head lr1 a })"

subsection \<open>Bucket chains\<close>

partial_function (option) bkt_find ::
  "'v lru_mem \<Rightarrow> string \<Rightarrow> addr option \<Rightarrow> addr option option" where
  "bkt_find m key p =
     (case p of
        None \<Rightarrow> Some None
      | Some a \<Rightarrow>
          (case m a of
             None \<Rightarrow> None
           | Some n \<Rightarrow> if node_key n = key then Some (Some a)
                       else bkt_find m key (node_next_bkt n)))"

declare bkt_find.simps [code]

definition find_node :: "'v lru \<Rightarrow> string \<Rightarrow> addr option option" where
  "find_node lr key =
     (if lru_table_cap lr = 0 then Some None
      else do {
        p \<leftarrow> table_at lr (fnv1a key (lru_table_cap lr));
        bkt_find (lru_mem lr) key p })"

definition bkt_insert :: "'v lru \<Rightarrow> addr \<Rightarrow> 'v lru option" where
  "bkt_insert lr a = do {
     n \<leftarrow> lru_mem lr a;
     let h = fnv1a (node_key n) (lru_table_cap lr);
     q \<leftarrow> table_at lr h;
     m \<leftarrow> node_store (lru_mem lr) a (\<lambda>x. x\<lparr>node_h := h, node_next_bkt := q\<rparr>);
     Some (lr\<lparr>lru_mem := m, lru_table := (lru_table lr)[h := Some a]\<rparr>)
   }"

text \<open>\<open>struct lru_node** pp\<close> points at a bucket or at the \<open>next_bkt\<close> of a node.\<close>

datatype bkt_ptr = BucketHead nat | NextBktOf addr

partial_function (option) bkt_seek ::
  "'v lru_mem \<Rightarrow> addr \<Rightarrow> bkt_ptr \<Rightarrow> addr option \<Rightarrow> bkt_ptr option" where
  "bkt_seek m a pp cur =
     (if cur = Some a then Some pp
      else case cur of
             None \<Rightarrow> None
           | Some b \<Rightarrow>
               (case m b of
                  None \<Rightarrow> None
                | Some n \<Rightarrow> bkt_seek m a (NextBktOf b) (node_next_bkt n)))"

declare bkt_seek.simps [code]

definition bkt_remove :: "'v lru \<Rightarrow> addr \<Rightarrow> 'v lru option" where
  "bkt_remove lr a = do {
     n \<leftarrow> lru_mem lr a;
     cur \<leftarrow> table_at lr (node_h n);
     pp \<leftarrow> bkt_seek (lru_mem lr) a (BucketHead (node_h n)) cur;
     lr1 \<leftarrow> (case pp of
               BucketHead i \<Rightarrow> Some (lr\<lparr>lru_table := (lru_table lr)[i := node_next_bkt n]\<rparr>)
             | NextBktOf b \<Rightarrow> do {
                 m \<leftarrow> node_store (lru_mem lr) b (\<lambda>x. x\<lparr>node_next_bkt := node_next_bkt n\<rparr>);
                 Some (lr\<lparr>lru_mem := m\<rparr>) });
     m \<leftarrow> node_store (lru_mem lr1) a (\<lambda>x. x\<lparr>node_next_bkt := None\<rparr>);
     Some (lr1\<lparr>lru_mem := m\<rparr>)
   }"

definition destroy_node :: "'v lru \<Rightarrow> addr \<Rightarrow> 'v lru" where
  "destroy_node lr a = lr\<lparr>lru_mem := (lru_mem lr)(a := None)\<rparr>"

subsection \<open>The interface\<close>

partial_function (option) free_walk :: "'v lru_mem \<Rightarrow> addr option \<Rightarrow> 'v list option" where
  "free_walk m p =
     (case p of
        None \<Rightarrow> Some []
      | Some a \<Rightarrow>
          (case m a of
             None \<Rightarrow> None
           | Some n \<Rightarrow>
               Option.bind (free_walk (m(a := None)) (node_next n))
                 (\<lambda>vs. Some (node_val n # vs))))"

declare free_walk.simps [code]

definition lru_free :: "'v lru \<Rightarrow> 'v list option" where
  "lru_free lr = free_walk (lru_mem lr) (lru_head lr)"

definition lru_get :: "'v lru \<Rightarrow> string \<Rightarrow> ('v lru \<times> 'v option) option" where
  "lru_get lr key = do {
     n \<leftarrow> find_node lr key;
     (case n of
        None \<Rightarrow> Some (lr, None)
      | Some a \<Rightarrow> do {
          lr1 \<leftarrow> rec_move_to_head lr a;
          nd \<leftarrow> lru_mem lr1 a;
          Some (lr1, Some (node_val nd)) })
   }"

definition lru_replace :: "'v lru \<Rightarrow> addr \<Rightarrow> 'v \<Rightarrow> ('v lru \<times> 'v list) option" where
  "lru_replace lr a val = do {
     nd \<leftarrow> lru_mem lr a;
     m \<leftarrow> node_store (lru_mem lr) a (\<lambda>x. x\<lparr>node_val := val\<rparr>);
     lr1 \<leftarrow> rec_move_to_head (lr\<lparr>lru_mem := m\<rparr>) a;
     Some (lr1, [node_val nd])
   }"

definition lru_evict_tail :: "'v lru \<Rightarrow> ('v lru \<times> 'v list) option" where
  "lru_evict_tail lr =
     (case lru_tail lr of
        None \<Rightarrow> Some (lr, [])
      | Some v \<Rightarrow>
          (if lru_count lr = lru_capacity lr then do {
             nd \<leftarrow> lru_mem lr v;
             lr1 \<leftarrow> rec_unlink lr v;
             lr2 \<leftarrow> bkt_remove lr1 v;
             Some ((destroy_node lr2 v)\<lparr>lru_count := lru_count lr2 - 1\<rparr>, [node_val nd]) }
           else Some (lr, [])))"

definition lru_alloc :: "'v lru \<Rightarrow> string \<Rightarrow> 'v \<Rightarrow> 'v lru \<times> addr" where
  "lru_alloc lr key val =
     (lr\<lparr>lru_mem := (lru_mem lr)(lru_brk lr \<mapsto>
            \<lparr>node_key = key, node_val = val, node_prev = None, node_next = None,
             node_next_bkt = None, node_h = 0\<rparr>),
         lru_brk := Suc (lru_brk lr)\<rparr>, lru_brk lr)"

definition lru_put :: "'v lru \<Rightarrow> string \<Rightarrow> 'v \<Rightarrow> bool \<Rightarrow> ('v lru \<times> 'v list) option" where
  "lru_put lr key val alloc_ok = do {
     old \<leftarrow> find_node lr key;
     (case old of
        Some a \<Rightarrow> lru_replace lr a val
      | None \<Rightarrow>
          (if \<not> alloc_ok then Some (lr, [])
           else do {
             let (lr0, n) = lru_alloc lr key val;
             (lr1, ev) \<leftarrow> lru_evict_tail lr0;
             lr2 \<leftarrow> rec_link_head lr1 n;
             lr3 \<leftarrow> bkt_insert lr2 n;
             Some (lr3\<lparr>lru_count := lru_count lr3 + 1\<rparr>, ev) }))
   }"

definition lru_invalidate :: "'v lru \<Rightarrow> string \<Rightarrow> ('v lru \<times> bool \<times> 'v list) option" where
  "lru_invalidate lr key = do {
     n \<leftarrow> find_node lr key;
     (case n of
        None \<Rightarrow> Some (lr, False, [])
      | Some a \<Rightarrow> do {
          lr1 \<leftarrow> rec_unlink lr a;
          lr2 \<leftarrow> bkt_remove lr1 a;
          nd \<leftarrow> lru_mem lr2 a;
          Some ((destroy_node lr2 a)\<lparr>lru_count := lru_count lr2 - 1\<rparr>, True, [node_val nd]) })
   }"

definition lru_size :: "'v lru \<Rightarrow> nat" where
  "lru_size lr = lru_count lr"

end
