(* ===== verification/Lru_Refine.thy ===== *)
theory Lru_Refine
  imports Lru
begin

text \<open>
  The pointer map of \<^verbatim>\<open>src/common/lru.c\<close> implements a list of bindings, most recent first.
  The memory of a map is looked at through three views: the recency links, the bucket links and
  the data. A primitive changes one view and leaves the others, so the two list shapes are
  proved apart and put together in \<open>lru_ok\<close>.
\<close>

section \<open>The abstract map\<close>

definition al_keys :: "(string \<times> 'v) list \<Rightarrow> string list" where
  "al_keys xs = map fst xs"

definition al_del :: "string \<Rightarrow> (string \<times> 'v) list \<Rightarrow> (string \<times> 'v) list" where
  "al_del k xs = filter (\<lambda>b. fst b \<noteq> k) xs"

definition al_touch :: "string \<Rightarrow> (string \<times> 'v) list \<Rightarrow> (string \<times> 'v) list" where
  "al_touch k xs = (case map_of xs k of None \<Rightarrow> xs | Some v \<Rightarrow> (k, v) # al_del k xs)"

definition al_put :: "nat \<Rightarrow> string \<Rightarrow> 'v \<Rightarrow> (string \<times> 'v) list \<Rightarrow> (string \<times> 'v) list \<times> 'v list" where
  "al_put cap k v xs =
     (case map_of xs k of
        Some old \<Rightarrow> ((k, v) # al_del k xs, [old])
      | None \<Rightarrow> if length xs = cap then ((k, v) # butlast xs, [snd (last xs)])
                else ((k, v) # xs, []))"

section \<open>Doubly linked lists\<close>

fun first_or :: "addr list \<Rightarrow> addr option \<Rightarrow> addr option" where
  "first_or [] d = d"
| "first_or (p # ps) d = Some p"

fun last_or :: "addr list \<Rightarrow> addr option \<Rightarrow> addr option" where
  "last_or [] d = d"
| "last_or (p # ps) d = last_or ps (Some p)"

type_synonym links = "addr \<Rightarrow> (addr option \<times> addr option) option"

fun dseg :: "links \<Rightarrow> addr option \<Rightarrow> addr list \<Rightarrow> addr option \<Rightarrow> bool" where
  "dseg R prv [] nxt \<longleftrightarrow> True"
| "dseg R prv (p # ps) nxt \<longleftrightarrow> R p = Some (prv, first_or ps nxt) \<and> dseg R (Some p) ps nxt"

lemma first_or_app [simp]: "first_or (xs @ ys) d = first_or xs (first_or ys d)"
  by (cases xs) auto

lemma last_or_app [simp]: "last_or (xs @ ys) d = last_or ys (last_or xs d)"
  by (induction xs arbitrary: d) auto

lemma dseg_app [simp]:
  "dseg R prv (xs @ ys) nxt \<longleftrightarrow> dseg R prv xs (first_or ys nxt) \<and> dseg R (last_or xs prv) ys nxt"
  by (induction xs arbitrary: prv) auto

lemma dseg_cong: "(\<And>p. p \<in> set ps \<Longrightarrow> R' p = R p) \<Longrightarrow> dseg R' prv ps nxt = dseg R prv ps nxt"
  by (induction ps arbitrary: prv) auto

lemma dseg_upd [simp]: "a \<notin> set ps \<Longrightarrow> dseg (R(a := x)) prv ps nxt = dseg R prv ps nxt"
  by (rule dseg_cong) auto

lemma first_or_None [simp]: "first_or xs d = None \<longleftrightarrow> xs = [] \<and> d = None"
  by (cases xs) auto

lemma last_or_snoc: "xs \<noteq> [] \<Longrightarrow> last_or xs d = Some (last xs)"
  by (induction xs arbitrary: d) auto

lemma last_or_None [simp]: "last_or xs d = None \<longleftrightarrow> xs = [] \<and> d = None"
  by (cases "xs = []") (auto simp: last_or_snoc)

definition rec_ok :: "links \<Rightarrow> addr option \<Rightarrow> addr option \<Rightarrow> addr list \<Rightarrow> bool" where
  "rec_ok R h t ps \<longleftrightarrow>
     dseg R None ps None \<and> distinct ps \<and> h = first_or ps None \<and> t = last_or ps None"

section \<open>Views of the memory\<close>

definition rec_view :: "'v lru_mem \<Rightarrow> links" where
  "rec_view m = (\<lambda>a. map_option (\<lambda>n. (node_prev n, node_next n)) (m a))"

definition tab_view :: "'v lru_mem \<Rightarrow> addr \<Rightarrow> (string \<times> addr option \<times> nat) option" where
  "tab_view m = (\<lambda>a. map_option (\<lambda>n. (node_key n, node_next_bkt n, node_h n)) (m a))"

definition dat_view :: "'v lru_mem \<Rightarrow> addr \<Rightarrow> (string \<times> 'v) option" where
  "dat_view m = (\<lambda>a. map_option (\<lambda>n. (node_key n, node_val n)) (m a))"

lemma views_upd [simp]:
  "rec_view (m(a \<mapsto> n)) = (rec_view m)(a \<mapsto> (node_prev n, node_next n))"
  "tab_view (m(a \<mapsto> n)) = (tab_view m)(a \<mapsto> (node_key n, node_next_bkt n, node_h n))"
  "dat_view (m(a \<mapsto> n)) = (dat_view m)(a \<mapsto> (node_key n, node_val n))"
  "rec_view (m(a := None)) = (rec_view m)(a := None)"
  "tab_view (m(a := None)) = (tab_view m)(a := None)"
  "dat_view (m(a := None)) = (dat_view m)(a := None)"
  by (auto simp: rec_view_def tab_view_def dat_view_def)

lemma rec_viewD: "rec_view m a = Some (p, q) \<Longrightarrow> \<exists>n. m a = Some n \<and> node_prev n = p \<and> node_next n = q"
  by (auto simp: rec_view_def)

lemma tab_viewD: "tab_view m a = Some (k, b, h) \<Longrightarrow>
    \<exists>n. m a = Some n \<and> node_key n = k \<and> node_next_bkt n = b \<and> node_h n = h"
  by (auto simp: tab_view_def)

lemma dat_viewD: "dat_view m a = Some (k, v) \<Longrightarrow> \<exists>n. m a = Some n \<and> node_key n = k \<and> node_val n = v"
  by (auto simp: dat_view_def)

lemma view_same [simp]:
  "m a = Some n \<Longrightarrow> (tab_view m)(a \<mapsto> (node_key n, node_next_bkt n, node_h n)) = tab_view m"
  "m a = Some n \<Longrightarrow> (dat_view m)(a \<mapsto> (node_key n, node_val n)) = dat_view m"
  "m a = Some n \<Longrightarrow> (rec_view m)(a \<mapsto> (node_prev n, node_next n)) = rec_view m"
  by (auto simp: tab_view_def dat_view_def rec_view_def)

text \<open>Same map up to the recency list.\<close>

definition same_but_rec :: "'v lru \<Rightarrow> 'v lru \<Rightarrow> bool" where
  "same_but_rec lr lr' \<longleftrightarrow>
     tab_view (lru_mem lr') = tab_view (lru_mem lr) \<and>
     dat_view (lru_mem lr') = dat_view (lru_mem lr) \<and>
     lru_brk lr' = lru_brk lr \<and> lru_capacity lr' = lru_capacity lr \<and>
     lru_count lr' = lru_count lr \<and> lru_table lr' = lru_table lr \<and>
     lru_table_cap lr' = lru_table_cap lr"

lemma same_but_rec_refl [simp]: "same_but_rec lr lr"
  by (simp add: same_but_rec_def)

lemma same_but_rec_trans: "same_but_rec a b \<Longrightarrow> same_but_rec b c \<Longrightarrow> same_but_rec a c"
  by (simp add: same_but_rec_def)

abbreviation lru_rec_ok :: "'v lru \<Rightarrow> addr list \<Rightarrow> bool" where
  "lru_rec_ok lr ps \<equiv> rec_ok (rec_view (lru_mem lr)) (lru_head lr) (lru_tail lr) ps"

section \<open>The recency list primitives\<close>

lemma rec_link_head_ok:
  assumes ok: "lru_rec_ok lr ps" and a: "lru_mem lr a = Some n" and new: "a \<notin> set ps"
  shows "\<exists>lr'. rec_link_head lr a = Some lr' \<and> lru_rec_ok lr' (a # ps) \<and> same_but_rec lr lr'"
proof (cases ps)
  case Nil
  with ok a show ?thesis
    by (auto simp: rec_ok_def rec_link_head_def node_store_def same_but_rec_def)
next
  case (Cons h qs)
  with ok have "rec_view (lru_mem lr) h = Some (None, first_or qs None)" by (simp add: rec_ok_def)
  from rec_viewD [OF this] obtain nh
    where nh: "lru_mem lr h = Some nh" "node_next nh = first_or qs None" by auto
  from ok Cons new have ne: "h \<noteq> a" "h \<notin> set qs" "a \<notin> set qs" "lru_head lr = Some h"
    "lru_tail lr \<noteq> None"
    by (auto simp: rec_ok_def)
  with ok a nh Cons show ?thesis
    by (auto simp: rec_ok_def rec_link_head_def node_store_def same_but_rec_def)
qed

lemma rec_unlink_ok:
  assumes ok: "lru_rec_ok lr (xs @ a # ys)"
  shows "\<exists>lr'. rec_unlink lr a = Some lr' \<and> lru_rec_ok lr' (xs @ ys) \<and> same_but_rec lr lr'"
proof -
  from ok have "rec_view (lru_mem lr) a = Some (last_or xs None, first_or ys None)"
    by (simp add: rec_ok_def)
  from rec_viewD [OF this] obtain n
    where n: "lru_mem lr a = Some n" "node_prev n = last_or xs None" "node_next n = first_or ys None"
    by auto
  show ?thesis
  proof (cases xs rule: rev_cases)
    case Nil
    show ?thesis
    proof (cases ys)
      case (Cons q qs)
      with ok Nil have "rec_view (lru_mem lr) q = Some (Some a, first_or qs None)"
        by (simp add: rec_ok_def)
      from rec_viewD [OF this] obtain nq where nq: "lru_mem lr q = Some nq"
        "node_next nq = first_or qs None" by auto
      from ok Nil Cons n nq show ?thesis
        by (auto simp: rec_ok_def rec_unlink_def node_store_def same_but_rec_def)
    next
      case Nil
      with \<open>xs = []\<close> ok n show ?thesis
        by (auto simp: rec_ok_def rec_unlink_def node_store_def same_but_rec_def)
    qed
  next
    case (snoc xs0 p)
    with ok have "rec_view (lru_mem lr) p = Some (last_or xs0 None, Some a)"
      by (simp add: rec_ok_def)
    from rec_viewD [OF this] obtain np where np: "lru_mem lr p = Some np"
      "node_prev np = last_or xs0 None" by auto
    show ?thesis
    proof (cases ys)
      case (Cons q qs)
      with ok snoc have "rec_view (lru_mem lr) q = Some (Some a, first_or qs None)"
        by (simp add: rec_ok_def)
      from rec_viewD [OF this] obtain nq where nq: "lru_mem lr q = Some nq"
        "node_next nq = first_or qs None" by auto
      from ok snoc Cons n np nq show ?thesis
        by (auto simp: rec_ok_def rec_unlink_def node_store_def same_but_rec_def)
    next
      case Nil
      with ok snoc n np show ?thesis
        by (auto simp: rec_ok_def rec_unlink_def node_store_def same_but_rec_def)
    qed
  qed
qed

section \<open>Bucket chains\<close>

type_synonym tabs = "addr \<Rightarrow> (string \<times> addr option \<times> nat) option"

fun bseg :: "tabs \<Rightarrow> addr option \<Rightarrow> addr list \<Rightarrow> addr option \<Rightarrow> bool" where
  "bseg T q [] r \<longleftrightarrow> q = r"
| "bseg T q (p # ps) r \<longleftrightarrow> q = Some p \<and> (\<exists>k b h. T p = Some (k, b, h) \<and> bseg T b ps r)"

lemma bseg_app: "bseg T q (xs @ ys) r \<longleftrightarrow> (\<exists>s. bseg T q xs s \<and> bseg T s ys r)"
  by (induction xs arbitrary: q) auto

lemma bseg_cong: "(\<And>p. p \<in> set ps \<Longrightarrow> T' p = T p) \<Longrightarrow> bseg T' q ps r = bseg T q ps r"
  by (induction ps arbitrary: q) auto

lemma bseg_upd [simp]: "a \<notin> set ps \<Longrightarrow> bseg (T(a := x)) q ps r = bseg T q ps r"
  by (rule bseg_cong) auto

definition node_has_key :: "tabs \<Rightarrow> string \<Rightarrow> addr \<Rightarrow> bool" where
  "node_has_key T key p \<longleftrightarrow> (\<exists>b h. T p = Some (key, b, h))"

lemma bkt_find_bseg:
  "bseg (tab_view m) q ps None \<Longrightarrow>
   bkt_find m key q = Some (List.find (node_has_key (tab_view m) key) ps)"
proof (induction ps arbitrary: q)
  case Nil
  then show ?case by (simp add: bkt_find.simps)
next
  case (Cons p ps)
  then obtain k b h where T: "tab_view m p = Some (k, b, h)" and rest: "bseg (tab_view m) b ps None"
    and q: "q = Some p" by auto
  from tab_viewD [OF T] obtain n where "m p = Some n" "node_key n = k" "node_next_bkt n = b" by auto
  with T q Cons.IH [OF rest] show ?case
    by (simp add: bkt_find.simps [of m key "Some p"] node_has_key_def)
qed

lemma bkt_seek_bseg:
  "bseg (tab_view m) q (xs @ a # ys) None \<Longrightarrow> a \<notin> set xs \<Longrightarrow>
   bkt_seek m a pp q = Some (if xs = [] then pp else NextBktOf (last xs))"
proof (induction xs arbitrary: q pp)
  case Nil
  then show ?case by (auto simp: bkt_seek.simps)
next
  case (Cons p xs)
  then obtain k b h where T: "tab_view m p = Some (k, b, h)"
    and rest: "bseg (tab_view m) b (xs @ a # ys) None" and q: "q = Some p" by auto
  from tab_viewD [OF T] obtain n where "m p = Some n" "node_next_bkt n = b" by auto
  with q Cons.prems Cons.IH [OF rest] show ?case
    by (auto simp: bkt_seek.simps [of m a pp "Some p"])
qed

definition tab_ok :: "tabs \<Rightarrow> addr option list \<Rightarrow> nat \<Rightarrow> addr set \<Rightarrow> addr list list \<Rightarrow> bool" where
  "tab_ok T table cap S bs \<longleftrightarrow>
     0 < cap \<and> length table = cap \<and> length bs = cap \<and>
     (\<forall>i<cap. bseg T (table ! i) (bs ! i) None \<and> distinct (bs ! i) \<and>
              set (bs ! i) = {p \<in> S. \<exists>k b h. T p = Some (k, b, h) \<and> fnv1a k cap = i}) \<and>
     (\<forall>p \<in> S. \<exists>k b. T p = Some (k, b, fnv1a k cap))"

abbreviation lru_tab_ok :: "'v lru \<Rightarrow> addr set \<Rightarrow> addr list list \<Rightarrow> bool" where
  "lru_tab_ok lr S bs \<equiv> tab_ok (tab_view (lru_mem lr)) (lru_table lr) (lru_table_cap lr) S bs"

lemma fnv1a_less [simp]: "0 < cap \<Longrightarrow> fnv1a s cap < cap"
  by (simp add: fnv1a_def)

lemma find_Some_mem: "List.find P xs = Some x \<Longrightarrow> x \<in> set xs \<and> P x"
  by (induction xs) (auto split: if_splits)

lemma find_None_iff_ball: "List.find P xs = None \<longleftrightarrow> (\<forall>x \<in> set xs. \<not> P x)"
  by (induction xs) auto

lemma find_node_ok:
  assumes "lru_tab_ok lr S bs"
  shows "\<exists>r. find_node lr key = Some r \<and>
     (case r of None \<Rightarrow> \<forall>p \<in> S. \<not> node_has_key (tab_view (lru_mem lr)) key p
              | Some a \<Rightarrow> a \<in> S \<and> node_has_key (tab_view (lru_mem lr)) key a)"
proof -
  let ?T = "tab_view (lru_mem lr)" and ?c = "lru_table_cap lr"
  let ?i = "fnv1a key ?c"
  let ?r = "List.find (node_has_key ?T key) (bs ! ?i)"
  from assms have c: "0 < ?c" and i: "?i < ?c" and len: "length (lru_table lr) = ?c"
    and seg: "bseg ?T (lru_table lr ! ?i) (bs ! ?i) None"
    and st: "set (bs ! ?i) = {p \<in> S. \<exists>k b h. ?T p = Some (k, b, h) \<and> fnv1a k ?c = ?i}"
    by (auto simp: tab_ok_def)
  from c i len bkt_find_bseg [OF seg] have "find_node lr key = Some ?r"
    by (simp add: find_node_def table_at_def)
  moreover have "case ?r of None \<Rightarrow> \<forall>p \<in> S. \<not> node_has_key ?T key p
      | Some a \<Rightarrow> a \<in> S \<and> node_has_key ?T key a"
  proof (cases ?r)
    case None
    then have "\<forall>p \<in> set (bs ! ?i). \<not> node_has_key ?T key p" by (simp add: find_None_iff_ball)
    with st None show ?thesis by (auto simp: node_has_key_def)
  next
    case (Some a)
    with find_Some_mem [OF Some] st show ?thesis by auto
  qed
  ultimately show ?thesis by blast
qed

text \<open>Same map up to the bucket chains.\<close>

definition same_but_tab :: "'v lru \<Rightarrow> 'v lru \<Rightarrow> bool" where
  "same_but_tab lr lr' \<longleftrightarrow>
     rec_view (lru_mem lr') = rec_view (lru_mem lr) \<and>
     dat_view (lru_mem lr') = dat_view (lru_mem lr) \<and>
     lru_brk lr' = lru_brk lr \<and> lru_capacity lr' = lru_capacity lr \<and>
     lru_count lr' = lru_count lr \<and> lru_head lr' = lru_head lr \<and> lru_tail lr' = lru_tail lr \<and>
     lru_table_cap lr' = lru_table_cap lr"

lemma bkt_insert_ok:
  assumes ok: "lru_tab_ok lr S bs" and a: "lru_mem lr a = Some n" and new: "a \<notin> S"
  shows "\<exists>lr' bs'. bkt_insert lr a = Some lr' \<and> lru_tab_ok lr' (insert a S) bs' \<and> same_but_tab lr lr'"
proof -
  let ?T = "tab_view (lru_mem lr)" and ?c = "lru_table_cap lr"
  let ?i = "fnv1a (node_key n) ?c"
  let ?T' = "?T(a \<mapsto> (node_key n, lru_table lr ! ?i, ?i))"
  let ?bs = "bs[?i := a # (bs ! ?i)]" and ?tb = "(lru_table lr)[?i := Some a]"
  from ok have c: "0 < ?c" and len: "length (lru_table lr) = ?c" "length bs = ?c"
    and seg: "\<And>j. j < ?c \<Longrightarrow> bseg ?T (lru_table lr ! j) (bs ! j) None"
    and di: "\<And>j. j < ?c \<Longrightarrow> distinct (bs ! j)"
    and st: "\<And>j. j < ?c \<Longrightarrow> set (bs ! j) = {p \<in> S. \<exists>k b h. ?T p = Some (k, b, h) \<and> fnv1a k ?c = j}"
    and hs: "\<And>p. p \<in> S \<Longrightarrow> \<exists>k b. ?T p = Some (k, b, fnv1a k ?c)"
    by (auto simp: tab_ok_def)
  from st new have na: "\<And>j. j < ?c \<Longrightarrow> a \<notin> set (bs ! j)" by blast
  have "tab_ok ?T' ?tb ?c (insert a S) ?bs"
    unfolding tab_ok_def
  proof (intro conjI allI impI ballI)
    fix j assume j: "j < ?c"
    show "bseg ?T' (?tb ! j) (?bs ! j) None"
      using j len na [OF j] seg [OF j] by (cases "j = ?i") auto
    show "distinct (?bs ! j)"
      using j len na [OF j] di [OF j] by (cases "j = ?i") auto
    show "set (?bs ! j) = {p \<in> insert a S. \<exists>k b h. ?T' p = Some (k, b, h) \<and> fnv1a k ?c = j}"
      using j len new st [OF j] by (cases "j = ?i") (auto split: if_splits)
  next
    fix p assume "p \<in> insert a S"
    then show "\<exists>k b. ?T' p = Some (k, b, fnv1a k ?c)" using hs by auto
  qed (use c len in simp_all)
  with a c len show ?thesis
    by (auto simp: bkt_insert_def table_at_def node_store_def same_but_tab_def Let_def)
qed

lemma tab_key_same:
  fixes T T' :: tabs
  assumes "map_option fst (T' p) = map_option fst (T p)"
  shows "(\<exists>k b h. T' p = Some (k, b, h) \<and> P k) = (\<exists>k b h. T p = Some (k, b, h) \<and> P k)"
  using assms by (cases "T' p"; cases "T p") auto

lemma tab_ok_seg: "tab_ok T table cap S bs \<Longrightarrow> j < cap \<Longrightarrow> bseg T (table ! j) (bs ! j) None"
  and tab_ok_distinct: "tab_ok T table cap S bs \<Longrightarrow> j < cap \<Longrightarrow> distinct (bs ! j)"
  and tab_ok_set: "tab_ok T table cap S bs \<Longrightarrow> j < cap \<Longrightarrow>
        set (bs ! j) = {p \<in> S. \<exists>k b h. T p = Some (k, b, h) \<and> fnv1a k cap = j}"
  and tab_ok_hash: "tab_ok T table cap S bs \<Longrightarrow> p \<in> S \<Longrightarrow> \<exists>k b. T p = Some (k, b, fnv1a k cap)"
  and tab_ok_len: "tab_ok T table cap S bs \<Longrightarrow> 0 < cap \<and> length table = cap \<and> length bs = cap"
  by (auto simp: tab_ok_def)

lemma tab_ok_disjoint:
  "tab_ok T table cap S bs \<Longrightarrow> i < cap \<Longrightarrow> j < cap \<Longrightarrow> i \<noteq> j \<Longrightarrow> set (bs ! i) \<inter> set (bs ! j) = {}"
  using tab_ok_set by fastforce

text \<open>Taking \<open>a\<close> out of its chain leaves a well-formed table.\<close>

lemma tab_ok_drop:
  assumes ok: "tab_ok T table cap S bs" and i: "i < cap" and xy: "bs ! i = xs @ a # ys"
    and keys: "\<And>p. p \<noteq> a \<Longrightarrow> map_option fst (T' p) = map_option fst (T p)"
    and hash: "\<And>p. p \<in> S - {a} \<Longrightarrow> \<exists>k b. T' p = Some (k, b, fnv1a k cap)"
    and off: "\<And>p. p \<notin> set (bs ! i) \<Longrightarrow> T' p = T p"
    and tb: "length tb = cap" "\<And>j. j < cap \<Longrightarrow> j \<noteq> i \<Longrightarrow> tb ! j = table ! j"
    and seg: "bseg T' (tb ! i) (xs @ ys) None"
  shows "tab_ok T' tb cap (S - {a}) (bs[i := xs @ ys])"
  unfolding tab_ok_def
proof (intro conjI allI impI ballI)
  from tab_ok_len [OF ok] show "0 < cap" "length tb = cap" "length (bs[i := xs @ ys]) = cap"
    using tb by auto
next
  fix j assume j: "j < cap"
  from tab_ok_len [OF ok] i have len: "i < length bs" by simp
  from tab_ok_distinct [OF ok i] xy have da: "a \<notin> set xs" "a \<notin> set ys" "distinct (xs @ ys)" by auto
  show "bseg T' (tb ! j) (bs[i := xs @ ys] ! j) None"
  proof (cases "j = i")
    case True
    with seg len show ?thesis by simp
  next
    case False
    with tab_ok_disjoint [OF ok j i] have "\<And>p. p \<in> set (bs ! j) \<Longrightarrow> T' p = T p" using off by blast
    with False tab_ok_seg [OF ok j] tb j show ?thesis by (simp add: bseg_cong [of "bs ! j" T' T])
  qed
  show "distinct (bs[i := xs @ ys] ! j)"
    using da tab_ok_distinct [OF ok j] len by (cases "j = i") auto
  have "{p \<in> S - {a}. \<exists>k b h. T' p = Some (k, b, h) \<and> fnv1a k cap = j} = set (bs ! j) - {a}"
  proof -
    have "\<And>p. p \<noteq> a \<Longrightarrow> (\<exists>k b h. T' p = Some (k, b, h) \<and> fnv1a k cap = j) =
        (\<exists>k b h. T p = Some (k, b, h) \<and> fnv1a k cap = j)"
      using keys by (rule tab_key_same)
    then have "{p \<in> S - {a}. \<exists>k b h. T' p = Some (k, b, h) \<and> fnv1a k cap = j} =
        {p \<in> S. \<exists>k b h. T p = Some (k, b, h) \<and> fnv1a k cap = j} - {a}"
      by blast
    then show ?thesis by (simp only: tab_ok_set [OF ok j])
  qed
  also have "\<dots> = set (bs[i := xs @ ys] ! j)"
    using tab_ok_disjoint [OF ok j i] xy da len by (cases "j = i") auto
  finally show "set (bs[i := xs @ ys] ! j) =
      {p \<in> S - {a}. \<exists>k b h. T' p = Some (k, b, h) \<and> fnv1a k cap = j}" by simp
next
  fix p assume "p \<in> S - {a}"
  then show "\<exists>k b. T' p = Some (k, b, fnv1a k cap)" by (rule hash)
qed

lemma bkt_remove_ok:
  assumes ok: "lru_tab_ok lr S bs" and a: "a \<in> S"
  shows "\<exists>lr' bs'. bkt_remove lr a = Some lr' \<and> lru_tab_ok lr' (S - {a}) bs' \<and> same_but_tab lr lr'"
proof -
  let ?T = "tab_view (lru_mem lr)" and ?c = "lru_table_cap lr" and ?tb = "lru_table lr"
  from tab_ok_hash [OF ok a] obtain k b where Ta: "?T a = Some (k, b, fnv1a k ?c)" by auto
  let ?i = "fnv1a k ?c"
  from tab_ok_len [OF ok] have i: "?i < ?c" and len: "length ?tb = ?c" by auto
  from tab_viewD [OF Ta] obtain n where n: "lru_mem lr a = Some n" "node_key n = k"
    "node_next_bkt n = b" "node_h n = ?i" by auto
  from tab_ok_set [OF ok i] Ta a have "a \<in> set (bs ! ?i)" by auto
  then obtain xs ys where xy: "bs ! ?i = xs @ a # ys" by (auto simp: in_set_conv_decomp)
  with tab_ok_distinct [OF ok i] have nin: "a \<notin> set xs" "a \<notin> set ys" "distinct (xs @ ys)" by auto
  from tab_ok_seg [OF ok i] have sega: "bseg ?T (?tb ! ?i) (xs @ a # ys) None" by (simp add: xy)
  then have segx: "bseg ?T (?tb ! ?i) xs (Some a)" and segy: "bseg ?T b ys None"
    using Ta by (auto simp: bseg_app)
  note seek = bkt_seek_bseg [OF sega nin(1), of "BucketHead ?i"]
  note hs = tab_ok_hash [OF ok]
  show ?thesis
  proof (cases xs rule: rev_cases)
    case Nil
    let ?T' = "?T(a \<mapsto> (k, None, ?i))" and ?tb' = "?tb[?i := b]"
    have "tab_ok ?T' ?tb' ?c (S - {a}) (bs[?i := xs @ ys])"
      by (rule tab_ok_drop [OF ok i xy]) (use hs xy len i nin segy Nil in auto)
    with n i len seek Nil show ?thesis
      by (auto simp: bkt_remove_def table_at_def node_store_def same_but_tab_def)
  next
    case (snoc xs0 p)
    from segx snoc obtain kp hp where Tp: "?T p = Some (kp, Some a, hp)" by (auto simp: bseg_app)
    from tab_viewD [OF Tp] obtain np where np: "lru_mem lr p = Some np" "node_key np = kp" "node_h np = hp"
      by auto
    let ?T' = "?T(p \<mapsto> (kp, b, hp), a \<mapsto> (k, None, ?i))"
    from snoc nin have p: "p \<noteq> a" "p \<notin> set xs0" "p \<notin> set ys" by auto
    have pS: "p \<in> S" using tab_ok_set [OF ok i] xy snoc by auto
    have seg': "bseg ?T' (?tb ! ?i) (xs @ ys) None"
      using segx segy snoc p nin by (auto simp: bseg_app)
    have "tab_ok ?T' ?tb ?c (S - {a}) (bs[?i := xs @ ys])"
      by (rule tab_ok_drop [OF ok i xy]) (use hs [OF pS] hs xy len seg' Tp snoc in auto)
    moreover from n i len seek snoc p np have "bkt_remove lr a =
      Some (lr\<lparr>lru_mem := (lru_mem lr)(p \<mapsto> np\<lparr>node_next_bkt := b\<rparr>, a \<mapsto> n\<lparr>node_next_bkt := None\<rparr>)\<rparr>)"
      by (auto simp: bkt_remove_def table_at_def node_store_def)
    ultimately show ?thesis using n np p
      by (auto simp: same_but_tab_def fun_upd_twist rec_view_def dat_view_def)
  qed
qed

section \<open>The shape of a map\<close>

definition binds :: "'v lru_mem \<Rightarrow> addr list \<Rightarrow> (string \<times> 'v) list" where
  "binds m ps = map (\<lambda>p. the (dat_view m p)) ps"

definition lru_shape :: "'v lru \<Rightarrow> addr list \<Rightarrow> bool" where
  "lru_shape lr ps \<longleftrightarrow>
     lru_rec_ok lr ps \<and> (\<exists>bs. lru_tab_ok lr (set ps) bs) \<and>
     (\<forall>p \<in> set ps. lru_mem lr p \<noteq> None \<and> p < lru_brk lr) \<and>
     distinct (map fst (binds (lru_mem lr) ps))"

definition lru_ok :: "'v lru \<Rightarrow> addr list \<Rightarrow> bool" where
  "lru_ok lr ps \<longleftrightarrow>
     lru_shape lr ps \<and> dom (lru_mem lr) = set ps \<and> lru_count lr = length ps \<and>
     lru_count lr \<le> lru_capacity lr \<and> 1 \<le> lru_capacity lr"

definition lru_inv :: "'v lru \<Rightarrow> bool" where
  "lru_inv lr \<longleftrightarrow> (\<exists>ps. lru_ok lr ps)"

text \<open>The bindings of a map, read along \<open>next\<close> from the head.\<close>

partial_function (option) lru_walk ::
  "'v lru_mem \<Rightarrow> addr option \<Rightarrow> (string \<times> 'v) list option" where
  "lru_walk m p =
     (case p of
        None \<Rightarrow> Some []
      | Some a \<Rightarrow>
          (case m a of
             None \<Rightarrow> None
           | Some n \<Rightarrow>
               Option.bind (lru_walk m (node_next n))
                 (\<lambda>xs. Some ((node_key n, node_val n) # xs))))"

declare lru_walk.simps [code]

definition lru_abs :: "'v lru \<Rightarrow> (string \<times> 'v) list" where
  "lru_abs lr = (case lru_walk (lru_mem lr) (lru_head lr) of None \<Rightarrow> [] | Some xs \<Rightarrow> xs)"

lemma lru_walk_dseg:
  "dseg (rec_view m) prv ps None \<Longrightarrow> lru_walk m (first_or ps None) = Some (binds m ps)"
proof (induction ps arbitrary: prv)
  case Nil
  then show ?case by (simp add: lru_walk.simps binds_def)
next
  case (Cons p ps)
  then have R: "rec_view m p = Some (prv, first_or ps None)" and rest: "dseg (rec_view m) (Some p) ps None"
    by auto
  from rec_viewD [OF R] obtain n where "m p = Some n" "node_next n = first_or ps None" by auto
  with Cons.IH [OF rest] show ?case
    by (simp add: lru_walk.simps [of m "Some p"] binds_def dat_view_def)
qed

lemma lru_shape_abs: "lru_shape lr ps \<Longrightarrow> lru_abs lr = binds (lru_mem lr) ps"
  by (auto simp: lru_shape_def rec_ok_def lru_abs_def dest: lru_walk_dseg)

lemma lru_ok_abs: "lru_ok lr ps \<Longrightarrow> lru_abs lr = binds (lru_mem lr) ps"
  by (simp add: lru_ok_def lru_shape_abs)

lemma binds_app [simp]: "binds m (xs @ ys) = binds m xs @ binds m ys"
  and binds_Cons [simp]: "binds m (p # ps) = the (dat_view m p) # binds m ps"
  and binds_Nil [simp]: "binds m [] = []"
  and length_binds [simp]: "length (binds m ps) = length ps"
  by (simp_all add: binds_def)

lemma binds_cong: "(\<And>p. p \<in> set ps \<Longrightarrow> dat_view m' p = dat_view m p) \<Longrightarrow> binds m' ps = binds m ps"
  by (simp add: binds_def)

lemma key_view: "node_has_key (tab_view m) k p \<longleftrightarrow> (\<exists>v. dat_view m p = Some (k, v))"
  by (auto simp: node_has_key_def tab_view_def dat_view_def)

lemma al_del_notin: "k \<notin> fst ` set xs \<Longrightarrow> al_del k xs = xs"
  by (auto simp: al_del_def filter_id_conv)

lemma al_del_app [simp]: "al_del k (xs @ ys) = al_del k xs @ al_del k ys"
  and al_del_Cons [simp]: "al_del k (b # xs) = (if fst b = k then al_del k xs else b # al_del k xs)"
  and al_del_Nil [simp]: "al_del k [] = []"
  by (simp_all add: al_del_def)

text \<open>Looking a key up in the list and in the memory agree.\<close>

lemma shape_lookup_Some:
  assumes sh: "lru_shape lr ps" and a: "a \<in> set ps" and k: "node_has_key (tab_view (lru_mem lr)) k a"
  shows "\<exists>v xs ys. ps = xs @ a # ys \<and> dat_view (lru_mem lr) a = Some (k, v) \<and>
     map_of (lru_abs lr) k = Some v \<and> al_del k (lru_abs lr) = binds (lru_mem lr) (xs @ ys)"
proof -
  from k obtain v where v: "dat_view (lru_mem lr) a = Some (k, v)" by (auto simp: key_view)
  from a obtain xs ys where ps: "ps = xs @ a # ys" by (auto simp: in_set_conv_decomp)
  from sh ps v have di: "k \<notin> fst ` set (binds (lru_mem lr) xs)" "k \<notin> fst ` set (binds (lru_mem lr) ys)"
    by (auto simp: lru_shape_def)
  then have "map_of (binds (lru_mem lr) xs) k = None" by (simp add: map_of_eq_None_iff)
  with di v ps lru_shape_abs [OF sh] show ?thesis
    by (auto simp: al_del_notin map_add_def)
qed

lemma shape_lookup_None:
  assumes sh: "lru_shape lr ps" and no: "\<forall>p \<in> set ps. \<not> node_has_key (tab_view (lru_mem lr)) k p"
  shows "map_of (lru_abs lr) k = None"
proof -
  have "k \<notin> fst ` set (binds (lru_mem lr) ps)"
  proof
    assume "k \<in> fst ` set (binds (lru_mem lr) ps)"
    then obtain p where p: "p \<in> set ps" "k = fst (the (dat_view (lru_mem lr) p))"
      by (auto simp: binds_def)
    with sh have "dat_view (lru_mem lr) p \<noteq> None" by (auto simp: lru_shape_def dat_view_def)
    with p no show False by (auto simp: key_view)
  qed
  with lru_shape_abs [OF sh] show ?thesis by (simp add: map_of_eq_None_iff)
qed

section \<open>Compound steps on a shape\<close>

definition same_frame :: "'v lru \<Rightarrow> 'v lru \<Rightarrow> bool" where
  "same_frame lr lr' \<longleftrightarrow>
     dat_view (lru_mem lr') = dat_view (lru_mem lr) \<and> lru_brk lr' = lru_brk lr \<and>
     lru_capacity lr' = lru_capacity lr \<and> lru_count lr' = lru_count lr"

lemma dom_dat_view: "dom (dat_view m) = dom m"
  by (auto simp: dat_view_def dom_def)

lemma dat_view_dom: "dat_view m' = dat_view m \<Longrightarrow> dom m' = dom m"
  by (metis dom_dat_view)

lemma dat_view_live: "dat_view m' = dat_view m \<Longrightarrow> m p \<noteq> None \<Longrightarrow> m' p \<noteq> None"
  using dat_view_dom [of m' m] by (auto simp: dom_def)

lemma binds_view: "dat_view m' = dat_view m \<Longrightarrow> binds m' ps = binds m ps"
  by (simp add: binds_def)

lemma same_but_rec_frame: "same_but_rec lr lr' \<Longrightarrow> same_frame lr lr'"
  by (simp add: same_but_rec_def same_frame_def)

lemma same_but_tab_frame: "same_but_tab lr lr' \<Longrightarrow> same_frame lr lr'"
  by (simp add: same_but_tab_def same_frame_def)

lemma same_frame_trans: "same_frame a b \<Longrightarrow> same_frame b c \<Longrightarrow> same_frame a c"
  by (simp add: same_frame_def)

lemma move_to_head_ok:
  assumes sh: "lru_shape lr (xs @ a # ys)"
  shows "\<exists>lr'. rec_move_to_head lr a = Some lr' \<and> lru_shape lr' (a # xs @ ys) \<and> same_frame lr lr'"
proof -
  from sh have ok: "lru_rec_ok lr (xs @ a # ys)" by (simp add: lru_shape_def)
  have "\<exists>lr'. rec_move_to_head lr a = Some lr' \<and> lru_rec_ok lr' (a # xs @ ys) \<and> same_but_rec lr lr'"
  proof (cases "lru_head lr = Some a")
    case True
    with ok have "xs = []" by (cases xs) (auto simp: rec_ok_def)
    with True ok show ?thesis by (simp add: rec_move_to_head_def)
  next
    case False
    from rec_unlink_ok [OF ok] obtain lr1 where 1: "rec_unlink lr a = Some lr1"
      "lru_rec_ok lr1 (xs @ ys)" "same_but_rec lr lr1" by blast
    from 1(3) sh dat_view_live [of "lru_mem lr1" "lru_mem lr" a] obtain n where n: "lru_mem lr1 a = Some n"
      by (auto simp: same_but_rec_def lru_shape_def)
    from ok have "a \<notin> set (xs @ ys)" by (auto simp: rec_ok_def)
    from rec_link_head_ok [OF 1(2) n this] 1 False show ?thesis
      by (auto simp: rec_move_to_head_def dest: same_but_rec_trans)
  qed
  then obtain lr' where 2: "rec_move_to_head lr a = Some lr'" "lru_rec_ok lr' (a # xs @ ys)"
    "same_but_rec lr lr'" by blast
  from 2(3) sh have "lru_shape lr' (a # xs @ ys)"
    using 2(2) dat_view_live [of "lru_mem lr'" "lru_mem lr"] binds_view [of "lru_mem lr'" "lru_mem lr"]
    by (auto simp: lru_shape_def same_but_rec_def insert_commute)
  with 2 same_but_rec_frame show ?thesis by blast
qed

lemma detach_ok:
  assumes sh: "lru_shape lr (xs @ a # ys)"
  shows "\<exists>lr1 lr2. rec_unlink lr a = Some lr1 \<and> bkt_remove lr1 a = Some lr2 \<and>
     lru_shape lr2 (xs @ ys) \<and> same_frame lr lr2"
proof -
  from sh have ok: "lru_rec_ok lr (xs @ a # ys)" by (simp add: lru_shape_def)
  from sh obtain bs where tb: "lru_tab_ok lr (set (xs @ a # ys)) bs" by (auto simp: lru_shape_def)
  from rec_unlink_ok [OF ok] obtain lr1 where 1: "rec_unlink lr a = Some lr1"
    "lru_rec_ok lr1 (xs @ ys)" "same_but_rec lr lr1" by blast
  with tb have tb1: "lru_tab_ok lr1 (set (xs @ a # ys)) bs" by (simp add: same_but_rec_def)
  from bkt_remove_ok [OF tb1, of a] obtain lr2 bs2 where 2: "bkt_remove lr1 a = Some lr2"
    "lru_tab_ok lr2 (set (xs @ a # ys) - {a}) bs2" "same_but_tab lr1 lr2" by auto
  from ok have "set (xs @ a # ys) - {a} = set (xs @ ys)" by (auto simp: rec_ok_def)
  with 1 2 have "lru_rec_ok lr2 (xs @ ys)" "\<exists>bs. lru_tab_ok lr2 (set (xs @ ys)) bs"
    by (auto simp: same_but_tab_def)
  moreover from same_but_rec_frame [OF 1(3)] same_but_tab_frame [OF 2(3)] have fr: "same_frame lr lr2"
    by (rule same_frame_trans)
  ultimately have "lru_shape lr2 (xs @ ys)"
    using sh dat_view_live [of "lru_mem lr2" "lru_mem lr"] binds_view [of "lru_mem lr2" "lru_mem lr"]
    by (auto simp: lru_shape_def same_frame_def)
  with 1 2 fr show ?thesis by blast
qed

section \<open>The operations implement the abstract map\<close>

lemma find_node_shape:
  assumes sh: "lru_shape lr ps"
  shows "(find_node lr k = Some None \<and> map_of (lru_abs lr) k = None) \<or>
    (\<exists>a v xs ys. find_node lr k = Some (Some a) \<and> ps = xs @ a # ys \<and>
       dat_view (lru_mem lr) a = Some (k, v) \<and> map_of (lru_abs lr) k = Some v \<and>
       al_del k (lru_abs lr) = binds (lru_mem lr) (xs @ ys))"
proof -
  from sh obtain bs where "lru_tab_ok lr (set ps) bs" by (auto simp: lru_shape_def)
  from find_node_ok [OF this, of k] obtain r where r: "find_node lr k = Some r"
    "case r of None \<Rightarrow> \<forall>p \<in> set ps. \<not> node_has_key (tab_view (lru_mem lr)) k p
             | Some a \<Rightarrow> a \<in> set ps \<and> node_has_key (tab_view (lru_mem lr)) k a" by blast
  show ?thesis
  proof (cases r)
    case None
    with r shape_lookup_None [OF sh] show ?thesis by auto
  next
    case (Some a)
    with r have "a \<in> set ps" "node_has_key (tab_view (lru_mem lr)) k a" by auto
    from shape_lookup_Some [OF sh this] r Some show ?thesis by auto
  qed
qed

lemma lru_okI:
  assumes "lru_shape lr' ps'" and "same_frame lr lr'" and "lru_ok lr ps"
    and "set ps' = set ps" and "length ps' = length ps"
  shows "lru_ok lr' ps'"
  using assms dat_view_dom [of "lru_mem lr'" "lru_mem lr"] by (auto simp: lru_ok_def same_frame_def)

lemma lru_next_pow2_pos: "0 < lru_next_pow2 n"
  using pow2_from_ge [of 4 n] by (simp add: lru_next_pow2_def)

lemma lru_new_refines:
  "lru_new cap True = Some lr \<Longrightarrow> lru_inv lr \<and> lru_abs lr = [] \<and> lru_capacity lr = max 1 cap"
proof -
  assume new: "lru_new cap True = Some lr"
  let ?c = "lru_next_pow2 ((if cap < 1 then 1 else cap) * 2)"
  have "0 < ?c" by (rule lru_next_pow2_pos)
  with new have "lru_tab_ok lr {} (replicate ?c [])"
    by (auto simp: lru_new_def Let_def tab_ok_def)
  with new have "lru_ok lr []"
    by (auto simp: lru_ok_def lru_shape_def lru_new_def Let_def rec_ok_def)
  moreover from this have "lru_abs lr = []" by (simp add: lru_ok_abs)
  moreover from new have "lru_capacity lr = max 1 cap" by (auto simp: lru_new_def Let_def)
  ultimately show ?thesis by (auto simp: lru_inv_def)
qed

lemma lru_get_refines:
  assumes "lru_inv lr"
  shows "\<exists>lr'. lru_get lr k = Some (lr', map_of (lru_abs lr) k) \<and> lru_inv lr' \<and>
     lru_abs lr' = al_touch k (lru_abs lr) \<and> lru_capacity lr' = lru_capacity lr"
proof -
  from assms obtain ps where ok: "lru_ok lr ps" by (auto simp: lru_inv_def)
  then have sh: "lru_shape lr ps" by (simp add: lru_ok_def)
  from find_node_shape [OF sh, of k] show ?thesis
  proof (elim disjE exE conjE)
    assume "find_node lr k = Some None" "map_of (lru_abs lr) k = None"
    with assms show ?thesis by (auto simp: lru_get_def al_touch_def)
  next
    fix a v xs ys
    assume f: "find_node lr k = Some (Some a)" and ps: "ps = xs @ a # ys"
      and v: "dat_view (lru_mem lr) a = Some (k, v)" "map_of (lru_abs lr) k = Some v"
      and del: "al_del k (lru_abs lr) = binds (lru_mem lr) (xs @ ys)"
    from move_to_head_ok [of lr xs a ys] sh ps obtain lr' where lr': "rec_move_to_head lr a = Some lr'"
      "lru_shape lr' (a # xs @ ys)" "same_frame lr lr'" by auto
    from lr'(3) have dv: "dat_view (lru_mem lr') = dat_view (lru_mem lr)" by (simp add: same_frame_def)
    from dat_viewD [of "lru_mem lr'" a k v] dv v obtain n where "lru_mem lr' a = Some n" "node_val n = v"
      by auto
    moreover have "lru_ok lr' (a # xs @ ys)" by (rule lru_okI [OF lr'(2,3) ok]) (auto simp: ps)
    moreover have "lru_abs lr' = (k, v) # al_del k (lru_abs lr)"
      using lru_shape_abs [OF lr'(2)] dv v del binds_view [OF dv] by simp
    ultimately show ?thesis using f lr' v
      by (auto simp: lru_get_def al_touch_def lru_inv_def same_frame_def)
  qed
qed

lemma detach_destroy_ok:
  assumes ok: "lru_shape lr (xs @ a # ys)"
  shows "\<exists>lr1 lr2. rec_unlink lr a = Some lr1 \<and> bkt_remove lr1 a = Some lr2 \<and>
     lru_shape (destroy_node lr2 a) (xs @ ys) \<and> same_frame lr lr2 \<and>
     binds (lru_mem (destroy_node lr2 a)) (xs @ ys) = binds (lru_mem lr) (xs @ ys)"
proof -
  from detach_ok [OF ok] obtain lr1 lr2 where 1: "rec_unlink lr a = Some lr1" "bkt_remove lr1 a = Some lr2"
    and sh: "lru_shape lr2 (xs @ ys)" and fr: "same_frame lr lr2" by blast
  from ok have a: "a \<notin> set (xs @ ys)" by (auto simp: lru_shape_def rec_ok_def)
  have b: "binds (lru_mem (destroy_node lr2 a)) (xs @ ys) = binds (lru_mem lr2) (xs @ ys)"
    by (rule binds_cong) (use a in \<open>auto simp: destroy_node_def\<close>)
  from sh obtain bs where tb: "lru_tab_ok lr2 (set (xs @ ys)) bs" by (auto simp: lru_shape_def)
  have "tab_ok ((tab_view (lru_mem lr2))(a := None)) (lru_table lr2) (lru_table_cap lr2) (set (xs @ ys)) bs"
    unfolding tab_ok_def
  proof (intro conjI allI impI ballI)
    fix j assume j: "j < lru_table_cap lr2"
    from tab_ok_set [OF tb j] a have "a \<notin> set (bs ! j)" by auto
    with tab_ok_seg [OF tb j]
    show "bseg ((tab_view (lru_mem lr2))(a := None)) (lru_table lr2 ! j) (bs ! j) None" by simp
    show "set (bs ! j) = {p \<in> set (xs @ ys). \<exists>k b h. ((tab_view (lru_mem lr2))(a := None)) p = Some (k, b, h)
        \<and> fnv1a k (lru_table_cap lr2) = j}"
      using tab_ok_set [OF tb j] a by auto
    show "distinct (bs ! j)" by (rule tab_ok_distinct [OF tb j])
  next
    fix p assume "p \<in> set (xs @ ys)"
    with tab_ok_hash [OF tb this] a
    show "\<exists>k b. ((tab_view (lru_mem lr2))(a := None)) p = Some (k, b, fnv1a k (lru_table_cap lr2))" by auto
  qed (use tab_ok_len [OF tb] in auto)
  with sh a b have "lru_shape (destroy_node lr2 a) (xs @ ys)"
    by (auto simp: lru_shape_def destroy_node_def rec_ok_def)
  with 1 fr b binds_view [of "lru_mem lr2" "lru_mem lr"] show ?thesis
    by (auto simp: same_frame_def)
qed

lemma lru_invalidate_refines:
  assumes "lru_inv lr"
  shows "\<exists>lr'. lru_invalidate lr k =
      Some (lr', map_of (lru_abs lr) k \<noteq> None,
            case map_of (lru_abs lr) k of None \<Rightarrow> [] | Some v \<Rightarrow> [v]) \<and>
     lru_inv lr' \<and> lru_abs lr' = al_del k (lru_abs lr) \<and> lru_capacity lr' = lru_capacity lr"
proof -
  from assms obtain ps where ok: "lru_ok lr ps" by (auto simp: lru_inv_def)
  then have sh: "lru_shape lr ps" by (simp add: lru_ok_def)
  from find_node_shape [OF sh, of k] show ?thesis
  proof (elim disjE exE conjE)
    assume f: "find_node lr k = Some None" "map_of (lru_abs lr) k = None"
    then have "al_del k (lru_abs lr) = lru_abs lr" by (simp add: al_del_notin map_of_eq_None_iff)
    with f assms show ?thesis by (auto simp: lru_invalidate_def)
  next
    fix a v xs ys
    assume f: "find_node lr k = Some (Some a)" and ps: "ps = xs @ a # ys"
      and v: "dat_view (lru_mem lr) a = Some (k, v)" "map_of (lru_abs lr) k = Some v"
      and del: "al_del k (lru_abs lr) = binds (lru_mem lr) (xs @ ys)"
    from sh ps have "lru_shape lr (xs @ a # ys)" by simp
    from detach_destroy_ok [OF this] obtain lr1 lr2 where 1: "rec_unlink lr a = Some lr1"
      "bkt_remove lr1 a = Some lr2" "lru_shape (destroy_node lr2 a) (xs @ ys)" "same_frame lr lr2"
      "binds (lru_mem (destroy_node lr2 a)) (xs @ ys) = binds (lru_mem lr) (xs @ ys)" by blast
    let ?lr = "(destroy_node lr2 a)\<lparr>lru_count := lru_count lr2 - 1\<rparr>"
    from 1(4) v dat_viewD [of "lru_mem lr2" a k v] obtain n where n: "lru_mem lr2 a = Some n" "node_val n = v"
      by (auto simp: same_frame_def)
    from 1(3) have sh': "lru_shape ?lr (xs @ ys)" by (simp add: lru_shape_def)
    from sh ps have na: "a \<notin> set (xs @ ys)" by (auto simp: lru_shape_def rec_ok_def)
    have "dom (lru_mem lr2) = dom (lru_mem lr)" using 1(4) by (intro dat_view_dom) (simp add: same_frame_def)
    with sh' ok ps 1(4) na have "lru_ok ?lr (xs @ ys)"
      by (auto simp: lru_ok_def same_frame_def destroy_node_def)
    moreover from lru_shape_abs [OF sh'] 1(5) del have "lru_abs ?lr = al_del k (lru_abs lr)" by simp
    moreover have "lru_capacity ?lr = lru_capacity lr" using 1(4) by (simp add: same_frame_def destroy_node_def)
    ultimately show ?thesis using f 1 n v by (auto simp: lru_invalidate_def lru_inv_def)
  qed
qed

lemma attach_ok:
  assumes sh: "lru_shape lr ps" and n: "lru_mem lr a = Some n" "a < lru_brk lr" and new: "a \<notin> set ps"
    and key: "node_key n \<notin> fst ` set (binds (lru_mem lr) ps)"
  shows "\<exists>lr1 lr2. rec_link_head lr a = Some lr1 \<and> bkt_insert lr1 a = Some lr2 \<and>
     lru_shape lr2 (a # ps) \<and> same_frame lr lr2"
proof -
  from sh obtain bs where ok: "lru_rec_ok lr ps" and tb: "lru_tab_ok lr (set ps) bs"
    by (auto simp: lru_shape_def)
  from rec_link_head_ok [OF ok n(1) new] obtain lr1 where 1: "rec_link_head lr a = Some lr1"
    "lru_rec_ok lr1 (a # ps)" "same_but_rec lr lr1" by blast
  with tb have tb1: "lru_tab_ok lr1 (set ps) bs" by (simp add: same_but_rec_def)
  from 1(3) n dat_view_live [of "lru_mem lr1" "lru_mem lr" a] obtain n1 where n1: "lru_mem lr1 a = Some n1"
    by (auto simp: same_but_rec_def)
  from bkt_insert_ok [OF tb1 n1 new] obtain lr2 bs2 where 2: "bkt_insert lr1 a = Some lr2"
    "lru_tab_ok lr2 (insert a (set ps)) bs2" "same_but_tab lr1 lr2" by blast
  from same_but_rec_frame [OF 1(3)] same_but_tab_frame [OF 2(3)] have fr: "same_frame lr lr2"
    by (rule same_frame_trans)
  then have dv: "dat_view (lru_mem lr2) = dat_view (lru_mem lr)" by (simp add: same_frame_def)
  have "lru_rec_ok lr2 (a # ps)" using 1(2) 2(3) by (simp add: same_but_tab_def)
  moreover have "dat_view (lru_mem lr2) a = Some (node_key n, node_val n)"
    using dv n by (simp add: dat_view_def)
  moreover have "\<forall>p \<in> set (a # ps). lru_mem lr2 p \<noteq> None \<and> p < lru_brk lr2"
    using sh n fr dat_view_live [OF dv] by (auto simp: lru_shape_def same_frame_def)
  ultimately have "lru_shape lr2 (a # ps)"
    using sh 2(2) key binds_view [OF dv, of ps] by (auto simp: lru_shape_def)
  with 1 2 fr show ?thesis by blast
qed

lemma alloc_shape:
  assumes ok: "lru_ok lr ps" and al: "lru_alloc lr k v = (lr0, a)"
  shows "lru_shape lr0 ps \<and> a \<notin> set ps \<and> a < lru_brk lr0 \<and>
     (\<exists>n. lru_mem lr0 a = Some n \<and> node_key n = k \<and> node_val n = v) \<and>
     binds (lru_mem lr0) ps = binds (lru_mem lr) ps \<and> dom (lru_mem lr0) = insert a (set ps) \<and>
     lru_capacity lr0 = lru_capacity lr \<and> lru_count lr0 = lru_count lr \<and>
     lru_tail lr0 = lru_tail lr"
proof -
  from ok have sh: "lru_shape lr ps" and a: "a \<notin> set ps"
    using al by (auto simp: lru_ok_def lru_shape_def lru_alloc_def)
  from al have m: "lru_mem lr0 = (lru_mem lr)(a \<mapsto> \<lparr>node_key = k, node_val = v, node_prev = None,
      node_next = None, node_next_bkt = None, node_h = 0\<rparr>)"
    and f: "lru_head lr0 = lru_head lr" "lru_tail lr0 = lru_tail lr" "lru_table lr0 = lru_table lr"
      "lru_table_cap lr0 = lru_table_cap lr" "lru_brk lr0 = Suc (lru_brk lr)" "a = lru_brk lr"
      "lru_capacity lr0 = lru_capacity lr" "lru_count lr0 = lru_count lr"
    by (auto simp: lru_alloc_def)
  have b: "binds (lru_mem lr0) ps = binds (lru_mem lr) ps"
    by (rule binds_cong) (use a m in auto)
  from sh obtain bs where tb: "lru_tab_ok lr (set ps) bs" by (auto simp: lru_shape_def)
  have "tab_ok (tab_view (lru_mem lr0)) (lru_table lr0) (lru_table_cap lr0) (set ps) bs"
    unfolding tab_ok_def
  proof (intro conjI allI impI ballI)
    fix j assume j: "j < lru_table_cap lr0"
    then have j': "j < lru_table_cap lr" by (simp add: f)
    from tab_ok_set [OF tb j'] a have "a \<notin> set (bs ! j)" by auto
    with tab_ok_seg [OF tb j'] show "bseg (tab_view (lru_mem lr0)) (lru_table lr0 ! j) (bs ! j) None"
      by (simp add: m f)
    show "set (bs ! j) = {p \<in> set ps. \<exists>k b h. tab_view (lru_mem lr0) p = Some (k, b, h)
        \<and> fnv1a k (lru_table_cap lr0) = j}"
      using tab_ok_set [OF tb j'] a by (auto simp: m f)
    show "distinct (bs ! j)" by (rule tab_ok_distinct [OF tb j'])
  next
    fix p assume "p \<in> set ps"
    with tab_ok_hash [OF tb this] a
    show "\<exists>k b. tab_view (lru_mem lr0) p = Some (k, b, fnv1a k (lru_table_cap lr0))" by (auto simp: m f)
  qed (use tab_ok_len [OF tb] f in auto)
  then have "lru_shape lr0 ps" using sh a b by (auto simp: lru_shape_def m f rec_ok_def)
  with a b ok show ?thesis by (auto simp: m f lru_ok_def)
qed

text \<open>Making room, then attaching a node that is in memory but not yet in the map.\<close>

lemma evict_attach:
  assumes sh: "lru_shape lr ps" and a: "a \<notin> set ps" "a < lru_brk lr"
    and n: "lru_mem lr a = Some n" "node_key n = k" "node_val n = v"
    and dm: "dom (lru_mem lr) = insert a (set ps)" and cnt: "lru_count lr = length ps"
    and cap: "length ps \<le> lru_capacity lr" "1 \<le> lru_capacity lr"
    and key: "k \<notin> fst ` set (binds (lru_mem lr) ps)"
  shows "\<exists>lr1 ev lr2 lr3. lru_evict_tail lr = Some (lr1, ev) \<and> rec_link_head lr1 a = Some lr2 \<and>
     bkt_insert lr2 a = Some lr3 \<and> lru_inv (lr3\<lparr>lru_count := lru_count lr3 + 1\<rparr>) \<and>
     (lru_abs (lr3\<lparr>lru_count := lru_count lr3 + 1\<rparr>), ev) =
       (if length ps = lru_capacity lr
        then ((k, v) # butlast (binds (lru_mem lr) ps), [snd (last (binds (lru_mem lr) ps))])
        else ((k, v) # binds (lru_mem lr) ps, [])) \<and> lru_capacity lr3 = lru_capacity lr"
proof (cases "length ps = lru_capacity lr")
  case False
  then have ev: "lru_evict_tail lr = Some (lr, [])"
    by (auto simp: lru_evict_tail_def cnt split: option.splits)
  from attach_ok [OF sh n(1) a(2,1)] n key obtain lr2 lr3 where 1: "rec_link_head lr a = Some lr2"
    "bkt_insert lr2 a = Some lr3" "lru_shape lr3 (a # ps)" "same_frame lr lr3" by auto
  then have dv: "dat_view (lru_mem lr3) = dat_view (lru_mem lr)" by (simp add: same_frame_def)
  let ?lr = "lr3\<lparr>lru_count := lru_count lr3 + 1\<rparr>"
  from 1(3) have sh3: "lru_shape ?lr (a # ps)" by (simp add: lru_shape_def)
  have "lru_ok ?lr (a # ps)"
    using sh3 dm cnt cap False 1(4) dat_view_dom [OF dv] by (auto simp: lru_ok_def same_frame_def)
  moreover have "dat_view (lru_mem lr3) a = Some (k, v)"
    unfolding dv using n by (simp add: dat_view_def)
  with lru_shape_abs [OF sh3] binds_view [OF dv]
  have "lru_abs ?lr = (k, v) # binds (lru_mem lr) ps" by simp
  ultimately show ?thesis using ev 1 False by (auto simp: lru_inv_def same_frame_def)
next
  case True
  with cap obtain qs w where ps: "ps = qs @ [w]" by (cases ps rule: rev_cases) auto
  with sh have tl: "lru_tail lr = Some w" by (auto simp: lru_shape_def rec_ok_def)
  from sh ps have "lru_shape lr (qs @ w # [])" by simp
  from detach_destroy_ok [OF this] obtain l1 l2 where 1: "rec_unlink lr w = Some l1"
    "bkt_remove l1 w = Some l2" "lru_shape (destroy_node l2 w) qs" "same_frame lr l2"
    "binds (lru_mem (destroy_node l2 w)) qs = binds (lru_mem lr) qs" by auto
  let ?l = "(destroy_node l2 w)\<lparr>lru_count := lru_count l2 - 1\<rparr>"
  from sh ps obtain nw where nw: "lru_mem lr w = Some nw" by (auto simp: lru_shape_def)
  with tl 1 True cnt have ev: "lru_evict_tail lr = Some (?l, [node_val nw])"
    by (simp add: lru_evict_tail_def)
  from a ps have aw: "a \<noteq> w" "a \<notin> set qs" by auto
  from 1(4) have dv2: "dat_view (lru_mem l2) = dat_view (lru_mem lr)" by (simp add: same_frame_def)
  have "dat_view (lru_mem l2) a = Some (k, v)" unfolding dv2 using n by (simp add: dat_view_def)
  then have "dat_view (lru_mem ?l) a = Some (k, v)" using aw by (simp add: destroy_node_def)
  then obtain m where m: "lru_mem ?l a = Some m" "node_key m = k" "node_val m = v" by (auto dest: dat_viewD)
  from 1(3) have shl: "lru_shape ?l qs" by (simp add: lru_shape_def)
  have key': "node_key m \<notin> fst ` set (binds (lru_mem ?l) qs)" using key m 1(5) ps by auto
  have "a < lru_brk ?l" using a 1(4) by (simp add: destroy_node_def same_frame_def)
  from attach_ok [OF shl m(1) this aw(2) key'] obtain lr2 lr3 where 2: "rec_link_head ?l a = Some lr2"
    "bkt_insert lr2 a = Some lr3" "lru_shape lr3 (a # qs)" "same_frame ?l lr3" by auto
  then have dv: "dat_view (lru_mem lr3) = dat_view (lru_mem ?l)" by (simp add: same_frame_def)
  let ?lr = "lr3\<lparr>lru_count := lru_count lr3 + 1\<rparr>"
  from 2(3) have sh3: "lru_shape ?lr (a # qs)" by (simp add: lru_shape_def)
  have "w \<notin> set qs" using sh ps by (auto simp: lru_shape_def rec_ok_def)
  then have "dom (lru_mem ?lr) = insert a (set qs)"
    using dat_view_dom [OF dv] dat_view_dom [OF dv2] dm ps aw by (auto simp: destroy_node_def)
  then have "lru_ok ?lr (a # qs)"
    using sh3 cnt cap True 1(4) 2(4) ps by (auto simp: lru_ok_def same_frame_def destroy_node_def)
  moreover have "dat_view (lru_mem lr3) a = Some (k, v)"
    unfolding dv using m by (simp add: dat_view_def)
  with lru_shape_abs [OF sh3] binds_view [OF dv] 1(5)
  have "lru_abs ?lr = (k, v) # binds (lru_mem lr) qs" by simp
  moreover have "binds (lru_mem lr) ps = binds (lru_mem lr) qs @ [(node_key nw, node_val nw)]"
    using ps nw by (simp add: dat_view_def)
  ultimately show ?thesis using ev 2 1(4) True by (auto simp: lru_inv_def same_frame_def destroy_node_def)
qed

lemma replace_ok:
  assumes ok: "lru_ok lr ps" and ps: "ps = xs @ a # ys" and old: "dat_view (lru_mem lr) a = Some (k, old)"
    and del: "al_del k (lru_abs lr) = binds (lru_mem lr) (xs @ ys)"
  shows "\<exists>lr'. lru_replace lr a v = Some (lr', [old]) \<and> lru_inv lr' \<and>
     lru_abs lr' = (k, v) # al_del k (lru_abs lr) \<and> lru_capacity lr' = lru_capacity lr"
proof -
  from dat_viewD [OF old] obtain n where n: "lru_mem lr a = Some n" "node_key n = k" "node_val n = old"
    by auto
  let ?l = "lr\<lparr>lru_mem := (lru_mem lr)(a \<mapsto> n\<lparr>node_val := v\<rparr>)\<rparr>"
  from ok have sh: "lru_shape lr ps" by (simp add: lru_ok_def)
  from sh ps have na: "a \<notin> set (xs @ ys)" by (auto simp: lru_shape_def rec_ok_def)
  have b: "binds (lru_mem ?l) (xs @ ys) = binds (lru_mem lr) (xs @ ys)"
    by (rule binds_cong) (use na in auto)
  have "tab_view (lru_mem ?l) = tab_view (lru_mem lr)" "rec_view (lru_mem ?l) = rec_view (lru_mem lr)"
    using n by (auto simp: tab_view_def rec_view_def)
  with sh ps n b have "lru_shape ?l (xs @ a # ys)" by (auto simp: lru_shape_def dat_view_def)
  from move_to_head_ok [OF this] obtain lr' where lr': "rec_move_to_head ?l a = Some lr'"
    "lru_shape lr' (a # xs @ ys)" "same_frame ?l lr'" by auto
  have "lru_ok lr' (a # xs @ ys)"
    using lr' ok ps n dat_view_dom [of "lru_mem lr'" "lru_mem ?l"]
    by (auto simp: lru_ok_def same_frame_def)
  moreover have "lru_abs lr' = (k, v) # al_del k (lru_abs lr)"
    using lru_shape_abs [OF lr'(2)] lr'(3) n b del binds_view [of "lru_mem lr'" "lru_mem ?l"]
    by (simp add: same_frame_def)
  ultimately show ?thesis using lr' n
    by (auto simp: lru_replace_def node_store_def lru_inv_def same_frame_def)
qed

lemma lru_put_refines:
  assumes "lru_inv lr"
  shows "\<exists>lr'. lru_put lr k v alloc_ok =
      Some (lr', if alloc_ok \<or> map_of (lru_abs lr) k \<noteq> None
                 then snd (al_put (lru_capacity lr) k v (lru_abs lr)) else []) \<and>
     lru_inv lr' \<and> lru_capacity lr' = lru_capacity lr \<and>
     lru_abs lr' = (if alloc_ok \<or> map_of (lru_abs lr) k \<noteq> None
                    then fst (al_put (lru_capacity lr) k v (lru_abs lr)) else lru_abs lr)"
proof -
  from assms obtain ps where ok: "lru_ok lr ps" by (auto simp: lru_inv_def)
  then have sh: "lru_shape lr ps" by (simp add: lru_ok_def)
  from find_node_shape [OF sh, of k] show ?thesis
  proof (elim disjE exE conjE)
    fix a old xs ys
    assume f: "find_node lr k = Some (Some a)" and ps: "ps = xs @ a # ys"
      and old: "dat_view (lru_mem lr) a = Some (k, old)" "map_of (lru_abs lr) k = Some old"
      and del: "al_del k (lru_abs lr) = binds (lru_mem lr) (xs @ ys)"
    from replace_ok [OF ok ps old(1) del] f old show ?thesis
      by (auto simp: lru_put_def al_put_def)
  next
    assume f: "find_node lr k = Some None" "map_of (lru_abs lr) k = None"
    show ?thesis
    proof (cases alloc_ok)
      case False
      with f assms show ?thesis by (auto simp: lru_put_def)
    next
      case True
      obtain lr0 a where al: "lru_alloc lr k v = (lr0, a)" by (cases "lru_alloc lr k v")
      from alloc_shape [OF ok al] obtain n where 0: "lru_shape lr0 ps" "a \<notin> set ps" "a < lru_brk lr0"
        "lru_mem lr0 a = Some n" "node_key n = k" "node_val n = v"
        "dom (lru_mem lr0) = insert a (set ps)" "lru_capacity lr0 = lru_capacity lr"
        "lru_count lr0 = lru_count lr" and b: "binds (lru_mem lr0) ps = lru_abs lr"
        using lru_ok_abs [OF ok] by auto
      have key: "k \<notin> fst ` set (binds (lru_mem lr0) ps)" using f b by (simp add: map_of_eq_None_iff)
      have len: "lru_count lr0 = length ps" "length ps \<le> lru_capacity lr0" "1 \<le> lru_capacity lr0"
        "length ps = length (lru_abs lr)"
        using ok 0 b length_binds [of "lru_mem lr0" ps] by (auto simp: lru_ok_def)
      from evict_attach [OF 0(1-7) len(1-3) key] show ?thesis
        using f al 0 b len by (auto simp: lru_put_def al_put_def True split: if_splits)
    qed
  qed
qed

lemma free_walk_dseg:
  "dseg (rec_view m) prv ps None \<Longrightarrow> distinct ps \<Longrightarrow>
   free_walk m (first_or ps None) = Some (map snd (binds m ps))"
proof (induction ps arbitrary: prv m)
  case Nil
  then show ?case by (simp add: free_walk.simps)
next
  case (Cons p ps)
  then have R: "rec_view m p = Some (prv, first_or ps None)" and rest: "dseg (rec_view m) (Some p) ps None"
    and np: "p \<notin> set ps" by auto
  from rec_viewD [OF R] obtain n where n: "m p = Some n" "node_next n = first_or ps None" by auto
  have "dseg (rec_view (m(p := None))) (Some p) ps None" using rest np by simp
  then have "free_walk (m(p := None)) (first_or ps None) = Some (map snd (binds (m(p := None)) ps))"
    by (rule Cons.IH) (use Cons.prems in simp)
  moreover have "binds (m(p := None)) ps = binds m ps" by (rule binds_cong) (use np in auto)
  ultimately show ?case using n
    by (simp add: free_walk.simps [of m "Some p"] dat_view_def)
qed

lemma lru_free_refines: "lru_inv lr \<Longrightarrow> lru_free lr = Some (map snd (lru_abs lr))"
proof -
  assume "lru_inv lr"
  then obtain ps where ok: "lru_ok lr ps" by (auto simp: lru_inv_def)
  then have "dseg (rec_view (lru_mem lr)) None ps None" "distinct ps" "lru_head lr = first_or ps None"
    by (auto simp: lru_ok_def lru_shape_def rec_ok_def)
  with free_walk_dseg lru_ok_abs [OF ok] show ?thesis by (simp add: lru_free_def)
qed

lemma lru_size_refines: "lru_inv lr \<Longrightarrow> lru_size lr = length (lru_abs lr) \<and> lru_size lr \<le> lru_capacity lr"
  by (auto simp: lru_inv_def lru_ok_abs lru_size_def) (auto simp: lru_ok_def)

lemma lru_abs_distinct: "lru_inv lr \<Longrightarrow> distinct (map fst (lru_abs lr))"
  by (auto simp: lru_inv_def lru_ok_abs) (auto simp: lru_ok_def lru_shape_def)

lemma lru_abs_bound: "lru_inv lr \<Longrightarrow> length (lru_abs lr) \<le> lru_capacity lr \<and> 1 \<le> lru_capacity lr"
  by (auto simp: lru_inv_def lru_ok_abs) (auto simp: lru_ok_def)

end
