(* ===== verification/Lru_Cache.thy ===== *)
theory Lru_Cache
  imports Lru_Refine "HOL-Library.Multiset"
begin

text \<open>
  The contract of the LRU map that its clients (the API-key cache and the alias cache) rely on,
  as a locale over the operations, interpreted on the pointer-level model of
  \<^verbatim>\<open>src/common/lru.c\<close>; and the properties of runs of operations: the run refines a run on lists,
  every stored value is handed back exactly once, and a key used recently enough is still there.
\<close>

section \<open>The contract\<close>

locale lru_cache =
  fixes inv :: "'c \<Rightarrow> bool"
    and cap :: "'c \<Rightarrow> nat"
    and entries :: "'c \<Rightarrow> (string \<times> 'v) list"
    and cget :: "'c \<Rightarrow> string \<Rightarrow> ('c \<times> 'v option) option"
    and cput :: "'c \<Rightarrow> string \<Rightarrow> 'v \<Rightarrow> bool \<Rightarrow> ('c \<times> 'v list) option"
    and cinval :: "'c \<Rightarrow> string \<Rightarrow> ('c \<times> bool \<times> 'v list) option"
  assumes distinct_law: "inv c \<Longrightarrow> distinct (map fst (entries c))"
    and bound_law: "inv c \<Longrightarrow> length (entries c) \<le> cap c \<and> 1 \<le> cap c"
    and get_law: "inv c \<Longrightarrow> \<exists>c'. cget c k = Some (c', map_of (entries c) k) \<and> inv c' \<and>
      entries c' = al_touch k (entries c) \<and> cap c' = cap c"
    and put_law: "inv c \<Longrightarrow> \<exists>c'. cput c k v ok =
        Some (c', if ok \<or> map_of (entries c) k \<noteq> None then snd (al_put (cap c) k v (entries c)) else []) \<and>
      inv c' \<and> cap c' = cap c \<and>
      entries c' = (if ok \<or> map_of (entries c) k \<noteq> None then fst (al_put (cap c) k v (entries c)) else entries c)"
    and inval_law: "inv c \<Longrightarrow> \<exists>c'. cinval c k =
        Some (c', map_of (entries c) k \<noteq> None, case map_of (entries c) k of None \<Rightarrow> [] | Some v \<Rightarrow> [v]) \<and>
      inv c' \<and> entries c' = al_del k (entries c) \<and> cap c' = cap c"

text \<open>Facts on the lists of bindings.\<close>

lemma al_del_set: "set (al_del k xs) = {b \<in> set xs. fst b \<noteq> k}"
  by (simp add: al_del_def)

lemma al_del_map_of: "map_of (al_del k xs) = (map_of xs)(k := None)"
  by (induction xs) (auto simp: al_del_def)

lemma al_touch_map_of [simp]: "map_of (al_touch k xs) = map_of xs"
  by (cases "map_of xs k") (auto simp: al_touch_def al_del_map_of fun_upd_idem)

lemma al_touch_subset: "set (al_touch k xs) \<subseteq> set xs"
  using map_of_SomeD by (fastforce simp: al_touch_def al_del_set split: option.splits)

lemma al_put_subset: "set (fst (al_put n k v xs)) \<subseteq> insert (k, v) (set xs)"
  by (auto simp: al_put_def al_del_set dest: in_set_butlastD split: option.splits)

lemma al_put_hit [simp]: "map_of (fst (al_put n k v xs)) k = Some v"
  by (simp add: al_put_def split: option.splits)

lemma al_put_evicted: "set (snd (al_put n k v xs)) \<subseteq> snd ` set xs \<or> xs = []"
  by (cases "xs = []")
     (auto simp: al_put_def dest: map_of_SomeD intro: rev_image_eqI split: option.splits)

context lru_cache
begin

lemma get_total: "inv c \<Longrightarrow> \<exists>c'. cget c k = Some (c', map_of (entries c) k) \<and> inv c' \<and>
    set (entries c') \<subseteq> set (entries c) \<and> map_of (entries c') = map_of (entries c) \<and> cap c' = cap c"
  using get_law [of c k] al_touch_subset [of k "entries c"] by auto

lemma get_after_put:
  assumes "inv c" and "cput c k v True = Some (c', ev)"
  shows "\<exists>c''. cget c' k = Some (c'', Some v) \<and> inv c''"
proof -
  from put_law [OF assms(1), of k v True] assms(2)
  have "inv c'" "map_of (entries c') k = Some v" by auto
  with get_law [of c' k] show ?thesis by auto
qed

lemma miss_after_inval:
  assumes "inv c" and "cinval c k = Some (c', b, ev)"
  shows "\<exists>c''. cget c' k = Some (c'', None) \<and> inv c''"
proof -
  from inval_law [OF assms(1), of k] assms(2)
  have "inv c'" "map_of (entries c') k = None" by (auto simp: al_del_map_of)
  with get_law [of c' k] show ?thesis by auto
qed

text \<open>A fact about all cached bindings survives every operation, if a new binding satisfies it.\<close>

lemma put_pred:
  assumes "inv c" "\<forall>b \<in> set (entries c). P b" "P (k, v)"
  shows "\<exists>c' ev. cput c k v ok = Some (c', ev) \<and> inv c' \<and> cap c' = cap c \<and> (\<forall>b \<in> set (entries c'). P b)"
  using put_law [OF assms(1), of k v ok] al_put_subset [of "cap c" k v "entries c"] assms(2,3) by fastforce

lemma inval_pred:
  assumes "inv c" "\<forall>b \<in> set (entries c). P b"
  shows "\<exists>c' b ev. cinval c k = Some (c', b, ev) \<and> inv c' \<and> cap c' = cap c \<and>
    (\<forall>b \<in> set (entries c'). P b \<and> fst b \<noteq> k)"
  using inval_law [OF assms(1), of k] assms(2) by (auto simp: al_del_set)

end

interpretation lru: lru_cache lru_inv lru_capacity lru_abs lru_get lru_put lru_invalidate
  by unfold_locales
     (fact lru_abs_distinct lru_abs_bound lru_get_refines lru_put_refines lru_invalidate_refines)+

section \<open>Runs of operations\<close>

datatype 'v lru_op = LGet string | LPut string 'v bool | LInval string

text \<open>A step gives the new map, the result of a lookup, and the values handed to \<open>on_evict\<close>.\<close>

fun lru_step :: "'v lru \<Rightarrow> 'v lru_op \<Rightarrow> ('v lru \<times> 'v option \<times> 'v list) option" where
  "lru_step lr (LGet k) = map_option (\<lambda>(lr', r). (lr', r, [])) (lru_get lr k)"
| "lru_step lr (LPut k v ok) = map_option (\<lambda>(lr', ev). (lr', None, ev)) (lru_put lr k v ok)"
| "lru_step lr (LInval k) = map_option (\<lambda>(lr', b, ev). (lr', None, ev)) (lru_invalidate lr k)"

fun lru_run :: "'v lru \<Rightarrow> 'v lru_op list \<Rightarrow> ('v lru \<times> ('v option \<times> 'v list) list) option" where
  "lru_run lr [] = Some (lr, [])"
| "lru_run lr (oper # ops) =
     (case lru_step lr oper of
        None \<Rightarrow> None
      | Some (lr', out) \<Rightarrow> map_option (\<lambda>(l, outs). (l, out # outs)) (lru_run lr' ops))"

text \<open>The specification on the list of bindings.\<close>

fun al_step :: "nat \<Rightarrow> (string \<times> 'v) list \<Rightarrow> 'v lru_op \<Rightarrow> (string \<times> 'v) list \<times> 'v option \<times> 'v list" where
  "al_step n xs (LGet k) = (al_touch k xs, map_of xs k, [])"
| "al_step n xs (LPut k v ok) =
     (if ok \<or> map_of xs k \<noteq> None then (fst (al_put n k v xs), None, snd (al_put n k v xs)) else (xs, None, []))"
| "al_step n xs (LInval k) =
     (al_del k xs, None, case map_of xs k of None \<Rightarrow> [] | Some v \<Rightarrow> [v])"

fun al_run :: "nat \<Rightarrow> (string \<times> 'v) list \<Rightarrow> 'v lru_op list \<Rightarrow> (string \<times> 'v) list \<times> ('v option \<times> 'v list) list" where
  "al_run n xs [] = (xs, [])"
| "al_run n xs (oper # ops) =
     (case al_step n xs oper of (xs', out) \<Rightarrow>
        case al_run n xs' ops of (ys, outs) \<Rightarrow> (ys, out # outs))"

lemma lru_step_refines:
  assumes "lru_inv lr"
  shows "\<exists>lr'. lru_step lr oper = Some (lr', snd (al_step (lru_capacity lr) (lru_abs lr) oper)) \<and>
    lru_inv lr' \<and> lru_capacity lr' = lru_capacity lr \<and>
    lru_abs lr' = fst (al_step (lru_capacity lr) (lru_abs lr) oper)"
proof (cases oper)
  case (LGet k)
  from lru.get_law [OF assms, of k] LGet show ?thesis by auto
next
  case (LPut k v ok)
  from lru.put_law [OF assms, of k v ok] LPut show ?thesis by auto
next
  case (LInval k)
  from lru.inval_law [OF assms, of k] LInval show ?thesis by auto
qed

lemma lru_run_refines:
  assumes "lru_inv lr"
  shows "\<exists>lr'. lru_run lr ops = Some (lr', snd (al_run (lru_capacity lr) (lru_abs lr) ops)) \<and>
    lru_inv lr' \<and> lru_capacity lr' = lru_capacity lr \<and>
    lru_abs lr' = fst (al_run (lru_capacity lr) (lru_abs lr) ops)"
  using assms
proof (induction ops arbitrary: lr)
  case Nil
  then show ?case by simp
next
  case (Cons oper ops)
  from lru_step_refines [OF Cons.prems, of oper] obtain lr1 where 1:
    "lru_step lr oper = Some (lr1, snd (al_step (lru_capacity lr) (lru_abs lr) oper))" "lru_inv lr1"
    "lru_capacity lr1 = lru_capacity lr" "lru_abs lr1 = fst (al_step (lru_capacity lr) (lru_abs lr) oper)"
    by blast
  from Cons.IH [OF 1(2)] 1 show ?case by (auto split: prod.splits)
qed

text \<open>C6. A new LRU map answers every sequence of lookups, insertions (with any allocation
  failures) and invalidations as the list of bindings ordered by last use does: no operation
  follows a dangling pointer or fails to return, and results, evicted values and remaining
  bindings are those of the list.\<close>

theorem lru_implements_list:
  assumes "lru_new c True = Some lr"
  shows "\<exists>lr'. lru_run lr ops = Some (lr', snd (al_run (max 1 c) [] ops)) \<and>
    lru_abs lr' = fst (al_run (max 1 c) [] ops) \<and> lru_size lr' \<le> max 1 c"
proof -
  from lru_new_refines [OF assms] have "lru_inv lr" "lru_abs lr = []" "lru_capacity lr = max 1 c" by auto
  with lru_run_refines [of lr ops] lru_size_refines show ?thesis by fastforce
qed

theorem lru_implements_list_witness:
  "\<exists>lr'. lru_run (the (lru_new 2 True)) [LPut ''a'' (1 :: nat) True, LPut ''b'' 2 True, LGet ''a'', LPut ''c'' 3 True, LGet ''b''] =
      Some (lr', [(None, []), (None, []), (Some 1, []), (None, [2]), (None, [])]) \<and>
    lru_abs lr' = [(''c'', 3), (''a'', 1)] \<and> lru_size lr' \<le> 2"
proof -
  have "lru_new 2 True = Some (the (lru_new 2 True) :: nat lru)" by (simp add: lru_new_def Let_def)
  moreover have "al_run 2 [] [LPut ''a'' (1 :: nat) True, LPut ''b'' 2 True, LGet ''a'', LPut ''c'' 3 True, LGet ''b''] =
      ([(''c'', 3), (''a'', 1)], [(None, []), (None, []), (Some 1, []), (None, [2]), (None, [])])"
    by (simp add: al_put_def al_touch_def al_del_def)
  moreover have "max 1 2 = (2 :: nat)" by simp
  ultimately show ?thesis
    using lru_implements_list [of 2 "the (lru_new 2 True)"
        "[LPut ''a'' (1 :: nat) True, LPut ''b'' 2 True, LGet ''a'', LPut ''c'' 3 True, LGet ''b'']"]
    by (metis fst_conv snd_conv)
qed

section \<open>Ownership of the values\<close>

text \<open>The values a run stores: every insertion whose node could be allocated or whose key is present.\<close>

fun al_stored :: "nat \<Rightarrow> (string \<times> 'v) list \<Rightarrow> 'v lru_op list \<Rightarrow> 'v list" where
  "al_stored n xs [] = []"
| "al_stored n xs (oper # ops) =
     (case oper of LPut k v ok \<Rightarrow> (if ok \<or> map_of xs k \<noteq> None then [v] else []) | _ \<Rightarrow> [])
     @ al_stored n (fst (al_step n xs oper)) ops"

lemma al_del_mset:
  "distinct (map fst xs) \<Longrightarrow> map_of xs k = Some v \<Longrightarrow>
   add_mset v (mset (map snd (al_del k xs))) = mset (map snd xs)"
proof (induction xs)
  case Nil
  then show ?case by simp
next
  case (Cons b xs)
  show ?case
  proof (cases "fst b = k")
    case True
    with Cons.prems have "al_del k xs = xs" by (intro al_del_notin) auto
    with True Cons.prems show ?thesis by (cases b) (auto simp: al_del_def)
  next
    case False
    with Cons show ?thesis by (cases b) (auto simp: al_del_def add_mset_commute)
  qed
qed

lemma al_put_mset:
  assumes "distinct (map fst xs)" "1 \<le> n"
  shows "mset (map snd (fst (al_put n k v xs))) + mset (snd (al_put n k v xs)) = add_mset v (mset (map snd xs))"
proof (cases "map_of xs k")
  case (Some old)
  with al_del_mset [OF assms(1) Some] show ?thesis by (simp add: al_put_def add_mset_commute)
next
  case None
  show ?thesis
  proof (cases "length xs = n")
    case True
    with assms(2) obtain ys b where xs: "xs = ys @ [b]" by (cases xs rule: rev_cases) auto
    from None True have "al_put n k v xs = ((k, v) # butlast xs, [snd (last xs)])" by (simp add: al_put_def)
    then show ?thesis by (simp add: xs add_mset_commute)
  next
    case False
    with None show ?thesis by (simp add: al_put_def)
  qed
qed

lemma al_step_mset:
  assumes "distinct (map fst xs)" "1 \<le> n"
  shows "mset (map snd (fst (al_step n xs oper))) + mset (snd (snd (al_step n xs oper))) =
    mset (map snd xs) + mset (al_stored n xs [oper])"
proof (cases oper)
  case (LGet k)
  with al_del_mset [OF assms(1), of k] show ?thesis by (auto simp: al_touch_def split: option.splits)
next
  case (LPut k v ok)
  with al_put_mset [OF assms, of k v] show ?thesis by auto
next
  case (LInval k)
  with al_del_mset [OF assms(1), of k] show ?thesis
    by (auto simp: al_del_notin map_of_eq_None_iff split: option.splits)
qed

lemma mset_chain:
  assumes "a1 + e1 = x + s1" and "a2 + e2 = a1 + (s2 :: 'b multiset)"
  shows "a2 + (e1 + e2) = x + (s1 + s2)"
proof -
  have "a2 + (e1 + e2) = (a2 + e2) + e1" by (simp add: ac_simps)
  also have "\<dots> = (a1 + e1) + s2" by (simp add: assms(2) ac_simps)
  finally show ?thesis by (simp add: assms(1) ac_simps)
qed

lemma al_run_mset:
  assumes "lru_inv lr"
  shows "mset (map snd (fst (al_run (lru_capacity lr) (lru_abs lr) ops))) +
      mset (concat (map snd (snd (al_run (lru_capacity lr) (lru_abs lr) ops)))) =
    mset (map snd (lru_abs lr)) + mset (al_stored (lru_capacity lr) (lru_abs lr) ops)"
  using assms
proof (induction ops arbitrary: lr)
  case Nil
  then show ?case by simp
next
  case (Cons oper ops)
  from lru_step_refines [OF Cons.prems, of oper] obtain lr1 where 1: "lru_inv lr1"
    "lru_capacity lr1 = lru_capacity lr" "lru_abs lr1 = fst (al_step (lru_capacity lr) (lru_abs lr) oper)" by blast
  note step = al_step_mset [OF lru_abs_distinct [OF Cons.prems], of "lru_capacity lr" oper]
  let ?ys = "fst (al_step (lru_capacity lr) (lru_abs lr) oper)"
  have st: "al_stored (lru_capacity lr) (lru_abs lr) (oper # ops) =
      al_stored (lru_capacity lr) (lru_abs lr) [oper] @ al_stored (lru_capacity lr) ?ys ops" by simp
  have run: "al_run (lru_capacity lr) (lru_abs lr) (oper # ops) =
      (fst (al_run (lru_capacity lr) ?ys ops),
       snd (al_step (lru_capacity lr) (lru_abs lr) oper) # snd (al_run (lru_capacity lr) ?ys ops))"
    by (simp split: prod.splits)
  from mset_chain [OF step Cons.IH [OF 1(1), unfolded 1(2,3)]] lru_abs_bound [OF Cons.prems]
  show ?case unfolding run st by (simp del: al_stored.simps add: case_prod_unfold)
qed

text \<open>From creation to destruction, the values handed to \<open>on_evict\<close>, by replacement,
  eviction, invalidation and the final free, are exactly the values that were stored, each once:
  none is leaked and none is released twice.\<close>

theorem lru_values_released_once:
  assumes "lru_new c True = Some lr" and "lru_run lr ops = Some (lr', outs)"
  shows "\<exists>vs. lru_free lr' = Some vs \<and>
    mset (concat (map snd outs)) + mset vs = mset (al_stored (max 1 c) [] ops)"
proof -
  from lru_new_refines [OF assms(1)] have 1: "lru_inv lr" "lru_abs lr = []" "lru_capacity lr = max 1 c" by auto
  from lru_run_refines [OF 1(1), of ops] 1 assms(2) have 2: "lru_inv lr'"
    "lru_abs lr' = fst (al_run (max 1 c) [] ops)" "outs = snd (al_run (max 1 c) [] ops)" by auto
  from al_run_mset [OF 1(1), of ops] 1 2 lru_free_refines [OF 2(1)] show ?thesis
    by (simp add: add.commute)
qed


theorem lru_values_released_once_witness:
  "\<exists>lr' outs vs. lru_run (the (lru_new 1 True)) [LPut ''a'' (7 :: nat) True, LPut ''b'' 8 True, LInval ''a''] = Some (lr', outs) \<and>
    lru_free lr' = Some vs \<and> mset (concat (map snd outs)) + mset vs = {#7, 8#}"
proof -
  have new: "lru_new 1 True = Some (the (lru_new 1 True) :: nat lru)" by (simp add: lru_new_def Let_def)
  let ?ops = "[LPut ''a'' (7 :: nat) True, LPut ''b'' 8 True, LInval ''a'']"
  from lru_run_refines [of "the (lru_new 1 True)" ?ops] lru_new_refines [OF new]
  obtain lr' outs where run: "lru_run (the (lru_new 1 True)) ?ops = Some (lr', outs)" by blast
  have "mset (al_stored (max 1 1) [] ?ops) = {#7, 8#}" by (simp add: al_put_def)
  with lru_values_released_once [OF new run] run show ?thesis by metis
qed

section \<open>Recency\<close>

text \<open>How many bindings are in front of a key.\<close>

definition al_before :: "string \<Rightarrow> (string \<times> 'v) list \<Rightarrow> string set" where
  "al_before k xs = fst ` set (takeWhile (\<lambda>b. fst b \<noteq> k) xs)"

fun lru_op_key :: "'v lru_op \<Rightarrow> string" where
  "lru_op_key (LGet k) = k"
| "lru_op_key (LPut k v ok) = k"
| "lru_op_key (LInval k) = k"

lemma al_before_Cons: "al_before k ((k', v) # xs) = (if k' = k then {} else insert k' (al_before k xs))"
  by (cases "k' = k") (auto simp: al_before_def image_iff)

lemma al_before_del: "k' \<noteq> k \<Longrightarrow> al_before k (al_del k' xs) \<subseteq> al_before k xs"
proof (induction xs)
  case (Cons b xs)
  then show ?case by (cases b) (auto simp: al_del_def al_before_Cons split: if_splits)
qed (simp add: al_del_def)

lemma takeWhile_butlast_mem:
  "x \<in> set (butlast xs) \<Longrightarrow> \<not> P x \<Longrightarrow> takeWhile P (butlast xs) = takeWhile P xs"
  by (induction xs) auto

lemma al_before_butlast: "k \<in> fst ` set (butlast xs) \<Longrightarrow> al_before k (butlast xs) = al_before k xs"
  using takeWhile_butlast_mem [of _ xs "\<lambda>b. fst b \<noteq> k"] by (fastforce simp: al_before_def)

lemma al_before_last:
  assumes "distinct (map fst xs)" "map_of xs k \<noteq> None" "k \<notin> fst ` set (butlast xs)"
  shows "card (al_before k xs) + 1 = length xs"
proof -
  from assms(2) obtain ys b where xs: "xs = ys @ [b]" by (cases xs rule: rev_cases) auto
  with assms have k: "fst b = k" "k \<notin> fst ` set ys"
    by (auto simp: map_of_eq_None_iff image_Un)
  then have "\<forall>x \<in> set ys. fst x \<noteq> k" by (metis image_eqI)
  with k(1) have "takeWhile (\<lambda>b. fst b \<noteq> k) xs = ys"
    unfolding xs by (simp add: takeWhile_append)
  with assms(1) xs show ?thesis
    by (simp add: al_before_def distinct_card [of "map fst ys", simplified])
qed

text \<open>An operation on another key keeps a binding, if fewer than \<open>n - 1\<close> others are in front.\<close>

lemma al_step_keeps:
  assumes "distinct (map fst xs)" "map_of xs k = Some v" "lru_op_key oper \<noteq> k"
    and "card (insert (lru_op_key oper) (al_before k xs)) < n"
  shows "map_of (fst (al_step n xs oper)) k = Some v \<and>
    al_before k (fst (al_step n xs oper)) \<subseteq> insert (lru_op_key oper) (al_before k xs)"
proof (cases oper)
  case (LGet k')
  with assms(3) al_before_del [of k' k xs] assms(2) show ?thesis
    by (auto simp: al_touch_def al_before_Cons al_del_map_of split: option.splits)
next
  case (LInval k')
  with assms(2,3) al_before_del [of k' k xs] show ?thesis by (auto simp: al_del_map_of)
next
  case (LPut k' v' ok)
  show ?thesis
  proof (cases "map_of xs k' = None \<and> length xs = n")
    case True
    have "k' \<notin> al_before k xs"
      using True set_takeWhileD by (fastforce simp: al_before_def map_of_eq_None_iff)
    moreover have "finite (al_before k xs)" by (simp add: al_before_def)
    ultimately have "card (al_before k xs) + 1 < length xs" using assms(4) LPut True by simp
    with al_before_last [OF assms(1), of k] assms(2) have in': "k \<in> fst ` set (butlast xs)" by auto
    have d: "distinct (map fst (butlast xs))" using assms(1) by (simp add: map_butlast distinct_butlast)
    from in' obtain w where "(k, w) \<in> set (butlast xs)" by auto
    with d have "map_of (butlast xs) k = Some w" by simp
    moreover from \<open>(k, w) \<in> set (butlast xs)\<close> have "(k, w) \<in> set xs" by (rule in_set_butlastD)
    ultimately have "map_of (butlast xs) k = Some v" using assms(1,2) by simp
    with True LPut assms(2,3) al_before_butlast [OF in'] show ?thesis
      by (auto simp: al_put_def al_before_Cons)
  next
    case False
    with LPut assms(2,3) al_before_del [of k' k xs] show ?thesis
      by (auto simp: al_put_def al_before_Cons al_del_map_of split: option.splits)
  qed
qed

lemma al_run_keeps:
  assumes "lru_inv lr" "map_of (lru_abs lr) k = Some v" "\<forall>oper \<in> set ops. lru_op_key oper \<noteq> k"
    and "card (lru_op_key ` set ops \<union> al_before k (lru_abs lr)) < lru_capacity lr"
  shows "map_of (fst (al_run (lru_capacity lr) (lru_abs lr) ops)) k = Some v"
  using assms
proof (induction ops arbitrary: lr)
  case Nil
  then show ?case by simp
next
  case (Cons oper ops)
  let ?B = "al_before k (lru_abs lr)" and ?K = "lru_op_key ` set ops"
  from lru_step_refines [OF Cons.prems(1), of oper] obtain lr1 where 1: "lru_inv lr1"
    "lru_capacity lr1 = lru_capacity lr" "lru_abs lr1 = fst (al_step (lru_capacity lr) (lru_abs lr) oper)" by blast
  have fin: "finite ?B" by (simp add: al_before_def)
  have "card (insert (lru_op_key oper) ?B) \<le> card (lru_op_key ` set (oper # ops) \<union> ?B)"
    using fin by (intro card_mono) auto
  with al_step_keeps [OF lru_abs_distinct [OF Cons.prems(1)] Cons.prems(2)] Cons.prems(3,4)
  have k: "map_of (lru_abs lr1) k = Some v" "al_before k (lru_abs lr1) \<subseteq> insert (lru_op_key oper) ?B"
    by (auto simp: 1)
  have "card (?K \<union> al_before k (lru_abs lr1)) \<le> card (lru_op_key ` set (oper # ops) \<union> ?B)"
    using fin k(2) by (intro card_mono) auto
  with Cons.IH [OF 1(1) k(1)] Cons.prems(3,4) 1 show ?case by (simp add: case_prod_unfold)
qed

text \<open>A value is still found as long as fewer than the capacity other keys have been used
  since it was stored: eviction only takes keys that \<open>capacity\<close> others have overtaken.\<close>

theorem lru_recent_survives:
  assumes "lru_inv lr" and "lru_put lr k v True = Some (lr1, ev)"
    and "\<forall>oper \<in> set ops. lru_op_key oper \<noteq> k" and "card (lru_op_key ` set ops) < lru_capacity lr"
    and "lru_run lr1 ops = Some (lr2, outs)"
  shows "\<exists>lr3. lru_get lr2 k = Some (lr3, Some v)"
proof -
  from lru.put_law [OF assms(1), of k v True] assms(2) have 1: "lru_inv lr1"
    "lru_capacity lr1 = lru_capacity lr" "lru_abs lr1 = fst (al_put (lru_capacity lr) k v (lru_abs lr))" by auto
  then have "map_of (lru_abs lr1) k = Some v" "al_before k (lru_abs lr1) = {}"
    by (auto simp: al_put_def al_before_Cons split: option.splits)
  with al_run_keeps [OF 1(1), of k v ops] assms(3,4) 1(2)
  have "map_of (fst (al_run (lru_capacity lr1) (lru_abs lr1) ops)) k = Some v" by simp
  with lru_run_refines [OF 1(1), of ops] assms(5) lru.get_law [of lr2 k] show ?thesis by auto
qed

theorem lru_recent_survives_witness:
  "\<exists>lr1 ev lr2 outs lr3. lru_put (the (lru_new 2 True)) ''a'' (1 :: nat) True = Some (lr1, ev) \<and>
    lru_run lr1 [LPut ''b'' 2 True, LInval ''b'', LGet ''b''] = Some (lr2, outs) \<and>
    lru_get lr2 ''a'' = Some (lr3, Some 1)"
proof -
  let ?ops = "[LPut ''b'' (2 :: nat) True, LInval ''b'', LGet ''b'']"
  have "lru_new 2 True = Some (the (lru_new 2 True) :: nat lru)" by (simp add: lru_new_def Let_def)
  from lru_new_refines [OF this] have new: "lru_inv (the (lru_new 2 True) :: nat lru)"
    "lru_capacity (the (lru_new 2 True) :: nat lru) = 2" by auto
  from lru.put_law [OF new(1), of "''a''" 1 True] obtain lr1 ev where
    1: "lru_put (the (lru_new 2 True)) ''a'' (1 :: nat) True = Some (lr1, ev)" "lru_inv lr1" by blast
  from lru_run_refines [OF 1(2), of ?ops] obtain lr2 outs where
    2: "lru_run lr1 ?ops = Some (lr2, outs)" by blast
  from lru_recent_survives [OF new(1) 1(1) _ _ 2] new(2) 1 2 show ?thesis by auto
qed

end
