(* ===== verification/Circuit_Breaker.thy ===== *)
theory Circuit_Breaker
  imports Prelude
begin

text \<open>
  \<^verbatim>\<open>src/policy/circuit_breaker.c\<close>: the per-endpoint breaker. An entry is found by model and
  endpoint in one of 64 bucket chains; a chain is the list of its entries, newest first, and a
  pointer to an entry is the pair of its bucket and its position there.

  Parameters stand for what the code asks of others: \<open>now\<close> is the value of the clock,
  \<open>alloc_ok\<close> says whether \<open>calloc\<close> succeeds, and a value of \<open>cb_redis\<close> is the shared
  Redis script (its integer pair reply, \<open>None\<close> for every error or malformed reply). The
  events given to the event bus are appended to \<open>cb_published\<close>. Millisecond samples are
  naturals (the code compares them and sums at most 128 of them in 64 bits), the violation
  ratio is a real number. The mutex makes every local section atomic; log lines are dropped.
\<close>

section \<open>State\<close>

datatype cb_state = CB_CLOSED | CB_OPEN | CB_HALF_OPEN | CB_SLA_DEGRADED

record sla_sample =
  ss_ttft_ms :: nat
  ss_latency_ms :: nat

record model_sla_cfg =
  sc_model :: string
  sc_ttft_max_ms :: nat
  sc_p95_max_ms :: nat
  sc_window_size :: nat
  sc_violation_ratio :: real
  sc_fallback_model :: string
  sc_consecutive_recover_need :: int

record cb_entry =
  ce_model :: string
  ce_endpoint :: string
  ce_state :: cb_state
  ce_consecutive_failures :: int
  ce_open_until :: int
  ce_half_open_probe_active :: bool
  ce_samples :: "sla_sample list"
  ce_sample_count :: nat
  ce_sample_head :: nat
  ce_consecutive_sla_normal :: int
  ce_manual_override :: bool

record cb_event =
  cev_provider :: string
  cev_model :: string
  cev_old :: string
  cev_new :: string
  cev_reason :: string

record circuit_breaker =
  cb_failure_threshold :: int
  cb_cooloff_sec :: int
  cb_pool :: bool
  cb_fail_open :: bool
  cb_eb :: bool
  cb_buckets :: "cb_entry list list"
  cb_sla_configs :: "model_sla_cfg list"
  cb_published :: "cb_event list"

definition CB_BUCKETS :: nat where "CB_BUCKETS = 64"
definition CB_MAX_SLA_SAMPLES :: nat where "CB_MAX_SLA_SAMPLES = 128"

datatype cb_action = RAllow | RSuccess | RFail

type_synonym cb_redis = "cb_action \<Rightarrow> string \<Rightarrow> int \<Rightarrow> int \<Rightarrow> (int \<times> int) option"

type_synonym cb_loc = "nat \<times> nat"

section \<open>Entries\<close>

definition cb_hash_key :: "string option \<Rightarrow> string option \<Rightarrow> nat" where
  "cb_hash_key model endpoint =
     (let h0 = (5381 :: 32 word);
          h1 = (case model of None \<Rightarrow> h0 | Some m \<Rightarrow> djb2 h0 m);
          h2 = djb2_step h1 (CHR '':'');
          h3 = (case endpoint of None \<Rightarrow> h2 | Some e \<Rightarrow> djb2 h2 e)
      in unat h3 mod CB_BUCKETS)"

definition cb_find_sla_cfg :: "circuit_breaker \<Rightarrow> string \<Rightarrow> nat option" where
  "cb_find_sla_cfg cb model = find_idx (\<lambda>c. sc_model c = model) (cb_sla_configs cb)"

definition cb_find_entry ::
  "circuit_breaker \<Rightarrow> string option \<Rightarrow> string option \<Rightarrow> cb_loc option" where
  "cb_find_entry cb model endpoint =
     (let m = cstr_or_empty model; ep = cstr_or_empty endpoint;
          idx = cb_hash_key (Some m) (Some ep)
      in map_option (\<lambda>i. (idx, i))
           (find_idx (\<lambda>e. ce_model e = m \<and> ce_endpoint e = ep) (cb_buckets cb ! idx)))"

definition cb_new_entry :: "string option \<Rightarrow> string option \<Rightarrow> cb_entry" where
  "cb_new_entry model endpoint =
     \<lparr>ce_model = cstr_copy 128 (cstr_or_empty model),
      ce_endpoint = cstr_copy 512 (cstr_or_empty endpoint),
      ce_state = CB_CLOSED, ce_consecutive_failures = 0, ce_open_until = 0,
      ce_half_open_probe_active = False,
      ce_samples = replicate CB_MAX_SLA_SAMPLES \<lparr>ss_ttft_ms = 0, ss_latency_ms = 0\<rparr>,
      ce_sample_count = 0, ce_sample_head = 0, ce_consecutive_sla_normal = 0,
      ce_manual_override = False\<rparr>"

definition cb_get_or_create ::
  "circuit_breaker \<Rightarrow> bool \<Rightarrow> string option \<Rightarrow> string option \<Rightarrow> (circuit_breaker \<times> cb_loc) option" where
  "cb_get_or_create cb alloc_ok model endpoint =
     (case cb_find_entry cb model endpoint of
        Some loc \<Rightarrow> Some (cb, loc)
      | None \<Rightarrow>
          if \<not> alloc_ok then None
          else let idx = cb_hash_key model endpoint in
               Some (cb\<lparr>cb_buckets := (cb_buckets cb)
                          [idx := cb_new_entry model endpoint # (cb_buckets cb ! idx)]\<rparr>, (idx, 0)))"

definition cb_entry_at :: "circuit_breaker \<Rightarrow> cb_loc \<Rightarrow> cb_entry" where
  "cb_entry_at cb loc = cb_buckets cb ! fst loc ! snd loc"

definition cb_put_entry :: "circuit_breaker \<Rightarrow> cb_loc \<Rightarrow> cb_entry \<Rightarrow> circuit_breaker" where
  "cb_put_entry cb loc e =
     cb\<lparr>cb_buckets := (cb_buckets cb)[fst loc := (cb_buckets cb ! fst loc)[snd loc := e]]\<rparr>"

definition cb_publish ::
  "cb_entry \<Rightarrow> string \<Rightarrow> string \<Rightarrow> string \<Rightarrow> circuit_breaker \<Rightarrow> circuit_breaker" where
  "cb_publish e old new reason cb =
     (if cb_eb cb
      then cb\<lparr>cb_published := cb_published cb @
             [\<lparr>cev_provider = ce_endpoint e, cev_model = ce_model e,
               cev_old = old, cev_new = new, cev_reason = reason\<rparr>]\<rparr>
      else cb)"

definition cb_cooloff_expired :: "cb_entry \<Rightarrow> int \<Rightarrow> bool" where
  "cb_cooloff_expired e now \<longleftrightarrow> ce_state e = CB_OPEN \<and> ce_open_until e \<le> now"

definition cb_advance :: "cb_entry \<Rightarrow> int \<Rightarrow> cb_entry" where
  "cb_advance e now =
     (if cb_cooloff_expired e now
      then e\<lparr>ce_state := CB_HALF_OPEN, ce_half_open_probe_active := False\<rparr> else e)"

text \<open>\<open>update_state_on_time_locked\<close>\<close>

definition cb_update_state_on_time :: "circuit_breaker \<Rightarrow> cb_loc \<Rightarrow> int \<Rightarrow> circuit_breaker" where
  "cb_update_state_on_time cb loc now =
     (let e = cb_entry_at cb loc in
      if cb_cooloff_expired e now
      then cb_publish e ''OPEN'' ''HALF_OPEN'' ''cooloff expired''
             (cb_put_entry cb loc (cb_advance e now))
      else cb)"

section \<open>Instance management\<close>

definition cb_create :: "bool \<Rightarrow> circuit_breaker option" where
  "cb_create alloc_ok =
     (if \<not> alloc_ok then None
      else Some \<lparr>cb_failure_threshold = 3, cb_cooloff_sec = 30, cb_pool = False,
                 cb_fail_open = True, cb_eb = False, cb_buckets = replicate CB_BUCKETS [],
                 cb_sla_configs = [], cb_published = []\<rparr>)"

definition cb_reset :: "circuit_breaker \<Rightarrow> circuit_breaker" where
  "cb_reset cb = cb\<lparr>cb_buckets := replicate CB_BUCKETS [], cb_sla_configs := []\<rparr>"

definition cb_set_params :: "circuit_breaker \<Rightarrow> int \<Rightarrow> int \<Rightarrow> circuit_breaker" where
  "cb_set_params cb failure_threshold cooloff_sec =
     (let cb1 = (if failure_threshold > 0
                 then cb\<lparr>cb_failure_threshold := failure_threshold\<rparr> else cb)
      in if cooloff_sec \<ge> 0 then cb1\<lparr>cb_cooloff_sec := cooloff_sec\<rparr> else cb1)"

definition cb_set_event_bus :: "circuit_breaker \<Rightarrow> bool \<Rightarrow> circuit_breaker" where
  "cb_set_event_bus cb eb = cb\<lparr>cb_eb := eb\<rparr>"

definition cb_set_redis_pool :: "circuit_breaker \<Rightarrow> bool \<Rightarrow> circuit_breaker" where
  "cb_set_redis_pool cb pool = cb\<lparr>cb_pool := pool\<rparr>"

definition cb_set_fail_open :: "circuit_breaker \<Rightarrow> int \<Rightarrow> circuit_breaker" where
  "cb_set_fail_open cb fail_open = cb\<lparr>cb_fail_open := (fail_open \<noteq> 0)\<rparr>"

section \<open>Queries\<close>

definition cb_get_state ::
  "circuit_breaker \<Rightarrow> int \<Rightarrow> string option \<Rightarrow> string option \<Rightarrow> circuit_breaker \<times> cb_state" where
  "cb_get_state cb now model endpoint =
     (if model = None \<or> endpoint = None then (cb, CB_CLOSED)
      else case cb_find_entry cb model endpoint of
        None \<Rightarrow> (cb, CB_CLOSED)
      | Some loc \<Rightarrow> let cb1 = cb_update_state_on_time cb loc now in (cb1, ce_state (cb_entry_at cb1 loc)))"

definition cb_get_open_until ::
  "circuit_breaker \<Rightarrow> int \<Rightarrow> string option \<Rightarrow> string option \<Rightarrow> circuit_breaker \<times> int" where
  "cb_get_open_until cb now model endpoint =
     (if model = None \<or> endpoint = None then (cb, 0)
      else case cb_find_entry cb model endpoint of
        None \<Rightarrow> (cb, 0)
      | Some loc \<Rightarrow>
          let cb1 = cb_update_state_on_time cb loc now; e = cb_entry_at cb1 loc
          in (cb1, if ce_state e = CB_OPEN then ce_open_until e else 0))"

section \<open>The distributed breaker\<close>

text \<open>\<open>%08x\<close>\<close>

definition hex8 :: "nat \<Rightarrow> string" where
  "hex8 n = map (\<lambda>i. hex_digit (n div 16 ^ i mod 16)) [7, 6, 5, 4, 3, 2, 1, 0]"

definition cb_redis_key :: "string \<Rightarrow> string \<Rightarrow> string" where
  "cb_redis_key model endpoint = ''aigate:cb:'' @ hex8 (cb_hash_key (Some model) (Some endpoint))"

definition redis_cb_call ::
  "circuit_breaker \<Rightarrow> cb_redis \<Rightarrow> cb_action \<Rightarrow> string \<Rightarrow> (int \<times> int) option" where
  "redis_cb_call cb redis action key =
     redis action key (cb_failure_threshold cb) (cb_cooloff_sec cb * 1000)"

section \<open>Requests\<close>

definition cb_allow_entry :: "cb_entry \<Rightarrow> bool \<times> cb_entry" where
  "cb_allow_entry e =
     (case ce_state e of
        CB_CLOSED \<Rightarrow> (True, e)
      | CB_SLA_DEGRADED \<Rightarrow> (True, e)
      | CB_HALF_OPEN \<Rightarrow>
          (if \<not> ce_half_open_probe_active e
           then (True, e\<lparr>ce_half_open_probe_active := True\<rparr>) else (False, e))
      | CB_OPEN \<Rightarrow> (False, e))"

definition cb_allow_local ::
  "circuit_breaker \<Rightarrow> int \<Rightarrow> bool \<Rightarrow> string \<Rightarrow> string \<Rightarrow> circuit_breaker \<times> bool" where
  "cb_allow_local cb now alloc_ok model endpoint =
     (case cb_get_or_create cb alloc_ok (Some model) (Some endpoint) of
        None \<Rightarrow> (cb, True)
      | Some (cb1, loc) \<Rightarrow>
          let cb2 = cb_update_state_on_time cb1 loc now;
              (allowed, e) = cb_allow_entry (cb_entry_at cb2 loc)
          in (cb_put_entry cb2 loc e, allowed))"

definition cb_allow_request ::
  "circuit_breaker \<Rightarrow> cb_redis \<Rightarrow> int \<Rightarrow> bool \<Rightarrow> string option \<Rightarrow> string option \<Rightarrow>
   circuit_breaker \<times> bool" where
  "cb_allow_request cb redis now alloc_ok model endpoint =
     (case (model, endpoint) of
        (Some m, Some ep) \<Rightarrow>
          if cb_pool cb then
            (case redis_cb_call cb redis RAllow (cb_redis_key m ep) of
               None \<Rightarrow> if cb_fail_open cb then cb_allow_local cb now alloc_ok m ep else (cb, False)
             | Some (allowed, _) \<Rightarrow> (cb, allowed = 1))
          else cb_allow_local cb now alloc_ok m ep
      | _ \<Rightarrow> (cb, True))"

definition cb_success_entry :: "cb_entry \<Rightarrow> cb_entry" where
  "cb_success_entry e =
     (let e1 = (if ce_state e = CB_HALF_OPEN then e\<lparr>ce_state := CB_CLOSED\<rparr> else e)
      in e1\<lparr>ce_consecutive_failures := 0, ce_open_until := 0, ce_half_open_probe_active := False\<rparr>)"

definition cb_record_success ::
  "circuit_breaker \<Rightarrow> string option \<Rightarrow> string option \<Rightarrow> circuit_breaker" where
  "cb_record_success cb model endpoint =
     (if model = None \<or> endpoint = None then cb
      else case cb_find_entry cb model endpoint of
        None \<Rightarrow> cb
      | Some loc \<Rightarrow>
          let e = cb_entry_at cb loc;
              cb1 = (if \<not> cb_pool cb \<and> ce_state e = CB_HALF_OPEN
                     then cb_publish e ''HALF_OPEN'' ''CLOSED'' ''probe succeeded'' cb else cb)
          in cb_put_entry cb1 loc (cb_success_entry e))"

text \<open>Statuses that count against the endpoint: transport errors (at most 0), 429 and 5xx.\<close>

definition cb_counts_status :: "int \<Rightarrow> bool" where
  "cb_counts_status st \<longleftrightarrow> \<not> (st > 0 \<and> st \<noteq> 429 \<and> (st < 500 \<or> st > 599))"

definition cb_failure_entry :: "int \<Rightarrow> int \<Rightarrow> int \<Rightarrow> cb_entry \<Rightarrow> cb_entry" where
  "cb_failure_entry threshold cooloff now e =
     (if ce_state e = CB_HALF_OPEN
      then e\<lparr>ce_state := CB_OPEN, ce_open_until := now + cooloff, ce_half_open_probe_active := False\<rparr>
      else if ce_state e = CB_CLOSED \<or> ce_state e = CB_SLA_DEGRADED
      then let n = ce_consecutive_failures e + 1; e1 = e\<lparr>ce_consecutive_failures := n\<rparr>
           in if n \<ge> threshold
              then e1\<lparr>ce_state := CB_OPEN, ce_open_until := now + cooloff,
                      ce_half_open_probe_active := False\<rparr>
              else e1
      else e)"

definition cb_failure_event :: "cb_entry \<Rightarrow> cb_entry \<Rightarrow> circuit_breaker \<Rightarrow> circuit_breaker" where
  "cb_failure_event e e' cb =
     (if ce_state e = CB_HALF_OPEN then cb_publish e ''HALF_OPEN'' ''OPEN'' ''probe failed'' cb
      else if (ce_state e = CB_CLOSED \<or> ce_state e = CB_SLA_DEGRADED) \<and> ce_state e' = CB_OPEN
      then cb_publish e (if ce_state e = CB_SLA_DEGRADED then ''SLA_DEGRADED'' else ''CLOSED'')
             ''OPEN'' ''failures reached threshold'' cb
      else cb)"

definition cb_record_failure ::
  "circuit_breaker \<Rightarrow> int \<Rightarrow> bool \<Rightarrow> string option \<Rightarrow> string option \<Rightarrow> int \<Rightarrow> circuit_breaker" where
  "cb_record_failure cb now alloc_ok model endpoint http_status =
     (if model = None \<or> endpoint = None then cb
      else if \<not> cb_counts_status http_status then cb
      else case cb_get_or_create cb alloc_ok model endpoint of
        None \<Rightarrow> cb
      | Some (cb1, loc) \<Rightarrow>
          let cb2 = cb_update_state_on_time cb1 loc now;
              e = cb_entry_at cb2 loc;
              e' = cb_failure_entry (cb_failure_threshold cb2) (cb_cooloff_sec cb2) now e;
              cb3 = (if cb_pool cb then cb2 else cb_failure_event e e' cb2)
          in cb_put_entry cb3 loc e')"

definition cb_state_to_str :: "cb_state \<Rightarrow> string" where
  "cb_state_to_str st =
     (case st of CB_CLOSED \<Rightarrow> ''closed'' | CB_OPEN \<Rightarrow> ''open''
      | CB_HALF_OPEN \<Rightarrow> ''half_open'' | CB_SLA_DEGRADED \<Rightarrow> ''sla_degraded'')"

section \<open>SLA degradation\<close>

definition cb_sla_fill :: "nat \<Rightarrow> nat \<Rightarrow> nat \<Rightarrow> real \<Rightarrow> string option \<Rightarrow> model_sla_cfg \<Rightarrow> model_sla_cfg" where
  "cb_sla_fill ttft_max_ms p95_max_ms window_size violation_ratio fallback c =
     (let w = (if window_size > 0 then window_size else 10)
      in c\<lparr>sc_ttft_max_ms := ttft_max_ms, sc_p95_max_ms := p95_max_ms,
           sc_window_size := (if w > CB_MAX_SLA_SAMPLES then CB_MAX_SLA_SAMPLES else w),
           sc_violation_ratio := violation_ratio,
           sc_fallback_model := cstr_copy 128 (cstr_or_empty fallback),
           sc_consecutive_recover_need := 2\<rparr>)"

definition cb_configure_sla ::
  "circuit_breaker \<Rightarrow> bool \<Rightarrow> string option \<Rightarrow> nat \<Rightarrow> nat \<Rightarrow> nat \<Rightarrow> real \<Rightarrow> string option \<Rightarrow>
   circuit_breaker" where
  "cb_configure_sla cb alloc_ok model ttft_max_ms p95_max_ms window_size violation_ratio fallback =
     (case model of
        None \<Rightarrow> cb
      | Some m \<Rightarrow>
          let fill = cb_sla_fill ttft_max_ms p95_max_ms window_size violation_ratio fallback
          in case cb_find_sla_cfg cb m of
               Some i \<Rightarrow> cb\<lparr>cb_sla_configs := (cb_sla_configs cb)[i := fill (cb_sla_configs cb ! i)]\<rparr>
             | None \<Rightarrow>
                 if \<not> alloc_ok then cb
                 else cb\<lparr>cb_sla_configs :=
                        fill \<lparr>sc_model = cstr_copy 128 m, sc_ttft_max_ms = 0, sc_p95_max_ms = 0,
                              sc_window_size = 0, sc_violation_ratio = 0, sc_fallback_model = [],
                              sc_consecutive_recover_need = 0\<rparr> # cb_sla_configs cb\<rparr>)"

definition sla_violates :: "model_sla_cfg \<Rightarrow> sla_sample \<Rightarrow> bool" where
  "sla_violates cfg s \<longleftrightarrow>
     (sc_ttft_max_ms cfg > 0 \<and> ss_ttft_ms s > sc_ttft_max_ms cfg) \<or>
     (sc_p95_max_ms cfg > 0 \<and> ss_latency_ms s > sc_p95_max_ms cfg)"

text \<open>The new sample in the ring, and the count of consecutive normal samples.\<close>

definition sla_push :: "model_sla_cfg \<Rightarrow> sla_sample \<Rightarrow> cb_entry \<Rightarrow> cb_entry" where
  "sla_push cfg s e =
     e\<lparr>ce_samples := (ce_samples e)[ce_sample_head e := s],
       ce_sample_head := (ce_sample_head e + 1) mod sc_window_size cfg,
       ce_sample_count := (if ce_sample_count e < sc_window_size cfg
                           then ce_sample_count e + 1 else ce_sample_count e),
       ce_consecutive_sla_normal :=
         (if sla_violates cfg s then 0 else ce_consecutive_sla_normal e + 1)\<rparr>"

definition sla_violations :: "model_sla_cfg \<Rightarrow> cb_entry \<Rightarrow> nat" where
  "sla_violations cfg e = length (filter (sla_violates cfg) (take (ce_sample_count e) (ce_samples e)))"

definition sla_ratio_exceeded :: "model_sla_cfg \<Rightarrow> cb_entry \<Rightarrow> bool" where
  "sla_ratio_exceeded cfg e \<longleftrightarrow>
     real (sla_violations cfg e) / real (ce_sample_count e) \<ge> sc_violation_ratio cfg - 1 / 10000"

definition sla_decide :: "model_sla_cfg \<Rightarrow> cb_entry \<Rightarrow> cb_entry" where
  "sla_decide cfg e =
     (if ce_state e = CB_CLOSED then
        (if ce_sample_count e \<ge> sc_window_size cfg \<and> sla_ratio_exceeded cfg e
         then e\<lparr>ce_state := CB_SLA_DEGRADED, ce_consecutive_sla_normal := 0\<rparr> else e)
      else if ce_state e = CB_SLA_DEGRADED then
        (if ce_consecutive_sla_normal e \<ge> sc_consecutive_recover_need cfg
         then e\<lparr>ce_state := CB_CLOSED, ce_sample_count := 0, ce_sample_head := 0,
                ce_consecutive_sla_normal := 0\<rparr> else e)
      else e)"

definition sla_event :: "cb_entry \<Rightarrow> cb_entry \<Rightarrow> circuit_breaker \<Rightarrow> circuit_breaker" where
  "sla_event e e' cb =
     (if ce_state e = CB_CLOSED \<and> ce_state e' = CB_SLA_DEGRADED
      then cb_publish e ''CLOSED'' ''SLA_DEGRADED'' ''SLA violation threshold exceeded'' cb
      else if ce_state e = CB_SLA_DEGRADED \<and> ce_state e' = CB_CLOSED
      then cb_publish e ''SLA_DEGRADED'' ''CLOSED'' ''SLA probe recovered'' cb
      else cb)"

definition cb_record_sla_sample ::
  "circuit_breaker \<Rightarrow> int \<Rightarrow> bool \<Rightarrow> string option \<Rightarrow> string option \<Rightarrow> nat \<Rightarrow> nat \<Rightarrow> circuit_breaker" where
  "cb_record_sla_sample cb now alloc_ok model endpoint ttft_ms latency_ms =
     (case model of
        None \<Rightarrow> cb
      | Some m \<Rightarrow>
          (case cb_find_sla_cfg cb m of
             None \<Rightarrow> cb
           | Some i \<Rightarrow>
               (case cb_get_or_create cb alloc_ok model (Some (cstr_or_empty endpoint)) of
                  None \<Rightarrow> cb
                | Some (cb1, loc) \<Rightarrow>
                    let cfg = cb_sla_configs cb ! i;
                        cb2 = cb_update_state_on_time cb1 loc now;
                        s = \<lparr>ss_ttft_ms = ttft_ms, ss_latency_ms = latency_ms\<rparr>;
                        e = sla_push cfg s (cb_entry_at cb2 loc);
                        e' = sla_decide cfg e
                    in cb_put_entry (sla_event e e' cb2) loc e')))"

text \<open>\<open>fallback_size = 0\<close> stands for a NULL output buffer too: nothing is written.\<close>

definition cb_get_sla_state ::
  "circuit_breaker \<Rightarrow> int \<Rightarrow> string option \<Rightarrow> string option \<Rightarrow> nat \<Rightarrow>
   circuit_breaker \<times> cb_state \<times> string option" where
  "cb_get_sla_state cb now model endpoint fallback_size =
     (case model of
        None \<Rightarrow> (cb, CB_CLOSED, None)
      | Some m \<Rightarrow>
          let fb = (if fallback_size > 0 then
                      Some (case cb_find_sla_cfg cb m of
                              Some i \<Rightarrow> cstr_copy fallback_size (sc_fallback_model (cb_sla_configs cb ! i))
                            | None \<Rightarrow> [])
                    else None)
          in case cb_find_entry cb model (Some (cstr_or_empty endpoint)) of
               None \<Rightarrow> (cb, CB_CLOSED, fb)
             | Some loc \<Rightarrow>
                 let cb1 = cb_update_state_on_time cb loc now
                 in (cb1, ce_state (cb_entry_at cb1 loc), fb))"

definition cb_override_entry :: "int \<Rightarrow> int \<Rightarrow> cb_state \<Rightarrow> cb_entry \<Rightarrow> cb_entry" where
  "cb_override_entry cooloff now new_state e =
     (let e1 = e\<lparr>ce_state := new_state, ce_manual_override := True\<rparr>
      in case new_state of
           CB_CLOSED \<Rightarrow> e1\<lparr>ce_consecutive_failures := 0, ce_open_until := 0,
                           ce_half_open_probe_active := False, ce_sample_count := 0,
                           ce_consecutive_sla_normal := 0\<rparr>
         | CB_OPEN \<Rightarrow> e1\<lparr>ce_open_until := now + cooloff, ce_half_open_probe_active := False\<rparr>
         | CB_SLA_DEGRADED \<Rightarrow> e1\<lparr>ce_consecutive_sla_normal := 0\<rparr>
         | CB_HALF_OPEN \<Rightarrow> e1)"

definition cb_override_state ::
  "circuit_breaker \<Rightarrow> int \<Rightarrow> bool \<Rightarrow> string option \<Rightarrow> string option \<Rightarrow> cb_state \<Rightarrow>
   circuit_breaker \<times> bool" where
  "cb_override_state cb now alloc_ok model endpoint new_state =
     (case model of
        None \<Rightarrow> (cb, False)
      | Some m \<Rightarrow>
          (case cb_get_or_create cb alloc_ok model (Some (cstr_or_empty endpoint)) of
             None \<Rightarrow> (cb, False)
           | Some (cb1, loc) \<Rightarrow>
               (cb_put_entry cb1 loc
                  (cb_override_entry (cb_cooloff_sec cb1) now new_state (cb_entry_at cb1 loc)), True)))"

definition cb_get_sla_avg_ttft :: "circuit_breaker \<Rightarrow> string option \<Rightarrow> string option \<Rightarrow> nat" where
  "cb_get_sla_avg_ttft cb model endpoint =
     (case model of
        None \<Rightarrow> 0
      | Some m \<Rightarrow>
          (case cb_find_entry cb model (Some (cstr_or_empty endpoint)) of
             None \<Rightarrow> 0
           | Some loc \<Rightarrow>
               let e = cb_entry_at cb loc in
               if ce_sample_count e = 0 then 0
               else sum_list (map ss_ttft_ms (take (ce_sample_count e) (ce_samples e)))
                    div ce_sample_count e))"

end
