(* ===== verification/Entry_Table.thy ===== *)
theory Entry_Table
  imports Prelude
begin

text \<open>
  The interface the gateway's keyed tables share (breaker entries, rate-limit buckets, spend
  nodes, latency entries): a find-or-create operation that yields the place of the entry of a
  key, reading and overwriting the entry at a place. The view of a table is a partial map.
  Clients touch a key, read its entry, and put a changed entry back; the lemmas say that this
  is a function update of the view at that key.
\<close>

locale entry_table =
  fixes tinv :: "'s \<Rightarrow> bool"
    and tview :: "'s \<Rightarrow> 'k \<Rightarrow> 'e option"
    and ttouch :: "'s \<Rightarrow> 'k \<Rightarrow> ('s \<times> 'l) option"
    and tplace :: "'s \<Rightarrow> 'k \<Rightarrow> 'l \<Rightarrow> bool"
    and tat :: "'s \<Rightarrow> 'l \<Rightarrow> 'e"
    and tput :: "'s \<Rightarrow> 'l \<Rightarrow> 'e \<Rightarrow> 's"
    and tfresh :: "'k \<Rightarrow> 'e"
    and tkey :: "'k \<Rightarrow> bool"
    and tlike :: "'e \<Rightarrow> 'e \<Rightarrow> bool"
  assumes touch_law: "tinv s \<Longrightarrow> tkey k \<Longrightarrow> ttouch s k = Some (s', l) \<Longrightarrow>
      tinv s' \<and> tplace s' k l \<and>
      tview s' = (tview s)(k \<mapsto> (case tview s k of None \<Rightarrow> tfresh k | Some e \<Rightarrow> e))"
    and at_law: "tinv s \<Longrightarrow> tplace s k l \<Longrightarrow> tview s k = Some (tat s l)"
    and put_law: "tinv s \<Longrightarrow> tplace s k l \<Longrightarrow> tlike (tat s l) e \<Longrightarrow>
      tinv (tput s l e) \<and> tplace (tput s l e) k l \<and> tview (tput s l e) = (tview s)(k \<mapsto> e)"
begin

lemma touch_inv: "tinv s \<Longrightarrow> tkey k \<Longrightarrow> ttouch s k = Some (s', l) \<Longrightarrow> tinv s'"
  using touch_law by blast

lemma touch_at:
  assumes "tinv s" "tkey k" "ttouch s k = Some (s', l)"
  shows "tat s' l = (case tview s k of None \<Rightarrow> tfresh k | Some e \<Rightarrow> e)"
  using touch_law [OF assms] at_law [of s' k l] by auto

text \<open>Touching a key and changing its entry by \<open>f\<close>.\<close>

lemma touch_update:
  assumes "tinv s" "tkey k" "ttouch s k = Some (s', l)" "tlike (tat s' l) (f (tat s' l))"
  shows "tinv (tput s' l (f (tat s' l))) \<and>
    tview (tput s' l (f (tat s' l))) =
      (tview s)(k \<mapsto> f (case tview s k of None \<Rightarrow> tfresh k | Some e \<Rightarrow> e))"
proof -
  from touch_law [OF assms(1-3)] have 1: "tinv s'" "tplace s' k l"
    "tview s' = (tview s)(k \<mapsto> (case tview s k of None \<Rightarrow> tfresh k | Some e \<Rightarrow> e))" by auto
  from put_law [OF 1(1,2) assms(4)] touch_at [OF assms(1-3)] 1(3) show ?thesis by simp
qed

text \<open>Changing the entry at a place twice is one update with the last entry.\<close>

lemma put_twice:
  assumes "tinv s" "tplace s k l" "tlike (tat s l) e" "tlike e e'"
  shows "tinv (tput (tput s l e) l e') \<and> tview (tput (tput s l e) l e') = (tview s)(k \<mapsto> e')"
proof -
  from put_law [OF assms(1-3)] have 1: "tinv (tput s l e)" "tplace (tput s l e) k l"
    "tview (tput s l e) = (tview s)(k \<mapsto> e)" by auto
  from at_law [OF 1(1,2)] 1(3) have "tat (tput s l e) l = e" by simp
  with put_law [OF 1(1,2), of e'] 1(3) assms(4) show ?thesis by simp
qed

text \<open>An update at one key leaves the entries of the other keys alone.\<close>

lemma touch_other:
  assumes "tinv s" "tkey k" "ttouch s k = Some (s', l)" "tlike (tat s' l) (f (tat s' l))" "k' \<noteq> k"
  shows "tview (tput s' l (f (tat s' l))) k' = tview s k'"
  using touch_update [where f = f, OF assms(1-4)] assms(5) by simp

end

end
