(* ===== verification/Breaker_Laws.thy ===== *)
theory Breaker_Laws
  imports Circuit_Breaker Entry_Table
begin

text \<open>
  What the breaker of \<^verbatim>\<open>src/policy/circuit_breaker.c\<close> promises. The bucket table is read
  through \<open>cb_lookup\<close>, a map from model and endpoint to entries. Every operation changes the
  entry it names by one function on entries and leaves the other entries alone, so the promises
  are proved on entries and carried to the table.
\<close>

section \<open>Well-formed tables\<close>

definition cb_entry_ok :: "cb_entry \<Rightarrow> bool" where
  "cb_entry_ok e \<longleftrightarrow>
     length (ce_samples e) = CB_MAX_SLA_SAMPLES \<and> ce_sample_head e < CB_MAX_SLA_SAMPLES \<and>
     ce_sample_count e \<le> CB_MAX_SLA_SAMPLES \<and>
     length (ce_model e) < 128 \<and> length (ce_endpoint e) < 512"

definition sla_cfg_ok :: "model_sla_cfg \<Rightarrow> bool" where
  "sla_cfg_ok c \<longleftrightarrow> 0 < sc_window_size c \<and> sc_window_size c \<le> CB_MAX_SLA_SAMPLES \<and>
     length (sc_model c) < 128 \<and> length (sc_fallback_model c) < 128"

definition cb_inv :: "circuit_breaker \<Rightarrow> bool" where
  "cb_inv cb \<longleftrightarrow>
     length (cb_buckets cb) = CB_BUCKETS \<and>
     (\<forall>b \<in> set (cb_buckets cb). \<forall>e \<in> set b. cb_entry_ok e) \<and>
     (\<forall>c \<in> set (cb_sla_configs cb). sla_cfg_ok c) \<and>
     0 < cb_failure_threshold cb \<and> 0 \<le> cb_cooloff_sec cb"

definition cb_loc_ok :: "circuit_breaker \<Rightarrow> cb_loc \<Rightarrow> bool" where
  "cb_loc_ok cb loc \<longleftrightarrow> fst loc < length (cb_buckets cb) \<and> snd loc < length (cb_buckets cb ! fst loc)"

lemma cb_hash_key_less [simp]: "cb_hash_key m e < CB_BUCKETS"
  by (simp add: cb_hash_key_def CB_BUCKETS_def Let_def)

lemma cb_hash_key_null [simp]:
  "cb_hash_key (Some (cstr_or_empty m)) (Some (cstr_or_empty e)) = cb_hash_key m e"
  by (cases m; cases e) (simp_all add: cb_hash_key_def djb2_def)

lemma cb_find_entry_SomeD:
  assumes "cb_inv cb" and "cb_find_entry cb m ep = Some loc"
  shows "cb_loc_ok cb loc \<and> fst loc = cb_hash_key m ep \<and>
     ce_model (cb_entry_at cb loc) = cstr_or_empty m \<and>
     ce_endpoint (cb_entry_at cb loc) = cstr_or_empty ep"
  using assms find_idx_holds
  by (fastforce simp: cb_find_entry_def Let_def cb_loc_ok_def cb_entry_at_def cb_inv_def)

lemma cb_new_entry_ok: "cb_entry_ok (cb_new_entry m e)"
  using length_cstr_copy [of 128] length_cstr_copy [of 512]
  by (simp add: cb_entry_ok_def cb_new_entry_def CB_MAX_SLA_SAMPLES_def)

lemma cb_get_or_create_inv:
  assumes inv: "cb_inv cb" and go: "cb_get_or_create cb al m ep = Some (cb1, loc)"
  shows "cb_inv cb1 \<and> cb_loc_ok cb1 loc"
proof (cases "cb_find_entry cb m ep")
  case (Some l)
  with go cb_find_entry_SomeD [OF inv Some] inv show ?thesis by (simp add: cb_get_or_create_def)
next
  case None
  let ?i = "cb_hash_key m ep"
  let ?b = "cb_new_entry m ep # (cb_buckets cb ! ?i)"
  from inv have len: "length (cb_buckets cb) = CB_BUCKETS" by (simp add: cb_inv_def)
  from None go have cb1: "cb1 = cb\<lparr>cb_buckets := (cb_buckets cb)[?i := ?b]\<rparr>" "loc = (?i, 0)"
    by (auto simp: cb_get_or_create_def Let_def split: if_splits)
  have "\<forall>e \<in> set ?b. cb_entry_ok e"
    using inv len nth_mem [of ?i "cb_buckets cb"] by (auto simp: cb_inv_def cb_new_entry_ok)
  then have "\<forall>b \<in> set (cb_buckets cb1). \<forall>e \<in> set b. cb_entry_ok e"
    unfolding cb1 using inv by (auto simp: cb_inv_def dest!: set_update_subset_insert [THEN subsetD])
  with cb1 inv len show ?thesis by (simp add: cb_inv_def cb_loc_ok_def)
qed

lemma cb_entry_at_ok: "cb_inv cb \<Longrightarrow> cb_loc_ok cb loc \<Longrightarrow> cb_entry_ok (cb_entry_at cb loc)"
  unfolding cb_inv_def cb_loc_ok_def cb_entry_at_def by (metis nth_mem)

lemma cb_put_entry_inv:
  assumes "cb_inv cb" "cb_loc_ok cb loc" "cb_entry_ok e"
  shows "cb_inv (cb_put_entry cb loc e) \<and> cb_loc_ok (cb_put_entry cb loc e) loc"
proof -
  let ?b = "(cb_buckets cb ! fst loc)[snd loc := e]"
  from assms have "\<forall>x \<in> set ?b. cb_entry_ok x"
    by (intro ball_list_update) (auto simp: cb_inv_def cb_loc_ok_def)
  then have "\<forall>b \<in> set ((cb_buckets cb)[fst loc := ?b]). \<forall>x \<in> set b. cb_entry_ok x"
    by (rule ball_list_update [rotated]) (use assms(1) in \<open>simp add: cb_inv_def\<close>)
  then show ?thesis using assms
    unfolding cb_inv_def cb_put_entry_def cb_loc_ok_def by simp
qed

lemma cb_publish_same [simp, frame_simps]:
  "cb_buckets (cb_publish e a b c cb) = cb_buckets cb"
  "cb_sla_configs (cb_publish e a b c cb) = cb_sla_configs cb"
  "cb_failure_threshold (cb_publish e a b c cb) = cb_failure_threshold cb"
  "cb_cooloff_sec (cb_publish e a b c cb) = cb_cooloff_sec cb"
  "cb_pool (cb_publish e a b c cb) = cb_pool cb"
  "cb_inv (cb_publish e a b c cb) = cb_inv cb"
  "cb_loc_ok (cb_publish e a b c cb) loc = cb_loc_ok cb loc"
  "cb_entry_at (cb_publish e a b c cb) loc = cb_entry_at cb loc"
  by (simp_all add: cb_publish_def cb_inv_def cb_loc_ok_def cb_entry_at_def)

lemma cb_entry_at_put [simp]: "cb_loc_ok cb loc \<Longrightarrow> cb_entry_at (cb_put_entry cb loc e) loc = e"
  by (simp add: cb_entry_at_def cb_put_entry_def cb_loc_ok_def)

lemma cb_put_same [simp]: "cb_loc_ok cb loc \<Longrightarrow> cb_put_entry cb loc (cb_entry_at cb loc) = cb"
  by (simp add: cb_entry_at_def cb_put_entry_def cb_loc_ok_def)

lemma cb_put_put [simp]:
  "cb_loc_ok cb loc \<Longrightarrow> cb_put_entry (cb_put_entry cb loc e) loc e' = cb_put_entry cb loc e'"
  by (simp add: cb_put_entry_def cb_loc_ok_def)

lemma cb_advance_ok: "cb_entry_ok e \<Longrightarrow> cb_entry_ok (cb_advance e now)"
  by (simp add: cb_advance_def cb_entry_ok_def)

lemma cb_update_state_on_time_inv:
  "cb_inv cb \<Longrightarrow> cb_loc_ok cb loc \<Longrightarrow>
   cb_inv (cb_update_state_on_time cb loc now) \<and> cb_loc_ok (cb_update_state_on_time cb loc now) loc"
  using cb_put_entry_inv [of cb loc "cb_advance (cb_entry_at cb loc) now"] cb_advance_ok [OF cb_entry_at_ok]
  by (simp add: cb_update_state_on_time_def Let_def)

section \<open>The table as a map\<close>

definition cb_view :: "circuit_breaker \<Rightarrow> string \<times> string \<Rightarrow> cb_entry option" where
  "cb_view cb k =
     map_option (cb_entry_at cb) (cb_find_entry cb (Some (fst k)) (Some (snd k)))"

definition cb_short :: "string \<times> string \<Rightarrow> bool" where
  "cb_short k \<longleftrightarrow> length (fst k) < 128 \<and> length (snd k) < 512"

definition cb_touch :: "circuit_breaker \<Rightarrow> string \<times> string \<Rightarrow> (circuit_breaker \<times> cb_loc) option" where
  "cb_touch cb k = cb_get_or_create cb True (Some (fst k)) (Some (snd k))"

definition cb_place :: "circuit_breaker \<Rightarrow> string \<times> string \<Rightarrow> cb_loc \<Rightarrow> bool" where
  "cb_place cb k loc \<longleftrightarrow> cb_find_entry cb (Some (fst k)) (Some (snd k)) = Some loc"

definition cb_fresh :: "string \<times> string \<Rightarrow> cb_entry" where
  "cb_fresh k = cb_new_entry (Some (fst k)) (Some (snd k))"

text \<open>\<open>e'\<close> may stand where \<open>e\<close> stood: the same names, and well formed if \<open>e\<close> was.\<close>

definition cb_like :: "cb_entry \<Rightarrow> cb_entry \<Rightarrow> bool" where
  "cb_like e e' \<longleftrightarrow> ce_model e' = ce_model e \<and> ce_endpoint e' = ce_endpoint e \<and>
     (cb_entry_ok e \<longrightarrow> cb_entry_ok e')"

lemma find_idx_update:
  "i < length xs \<Longrightarrow> P v = P (xs ! i) \<Longrightarrow> find_idx P (xs[i := v]) = find_idx P xs"
proof (induction xs arbitrary: i)
  case Nil
  then show ?case by simp
next
  case (Cons x xs)
  then show ?case by (cases i) auto
qed

lemma cb_find_entry_put:
  assumes "cb_loc_ok cb loc" "ce_model e = ce_model (cb_entry_at cb loc)"
    "ce_endpoint e = ce_endpoint (cb_entry_at cb loc)"
  shows "cb_find_entry (cb_put_entry cb loc e) m ep = cb_find_entry cb m ep"
  using assms
  by (cases "fst loc = cb_hash_key m ep")
     (auto simp: cb_find_entry_def Let_def cb_put_entry_def cb_loc_ok_def cb_entry_at_def find_idx_update)

lemma cb_entry_at_put_other:
  "cb_loc_ok cb loc \<Longrightarrow> loc' \<noteq> loc \<Longrightarrow> cb_entry_at (cb_put_entry cb loc e) loc' = cb_entry_at cb loc'"
  by (cases loc; cases loc')
     (auto simp: cb_entry_at_def cb_put_entry_def cb_loc_ok_def nth_list_update)

lemma cb_put_view:
  assumes inv: "cb_inv cb" and pl: "cb_place cb k loc" and like: "cb_like (cb_entry_at cb loc) e"
  shows "cb_inv (cb_put_entry cb loc e) \<and> cb_place (cb_put_entry cb loc e) k loc \<and>
     cb_view (cb_put_entry cb loc e) = (cb_view cb)(k \<mapsto> e)"
proof -
  from cb_find_entry_SomeD [OF inv] pl have loc: "cb_loc_ok cb loc"
    and nm: "ce_model (cb_entry_at cb loc) = fst k" "ce_endpoint (cb_entry_at cb loc) = snd k"
    by (auto simp: cb_place_def)
  from cb_find_entry_put [OF loc] like
  have fe: "\<And>m ep. cb_find_entry (cb_put_entry cb loc e) m ep = cb_find_entry cb m ep"
    by (simp add: cb_like_def)
  have "cb_view (cb_put_entry cb loc e) k' = ((cb_view cb)(k \<mapsto> e)) k'" for k'
  proof (cases "k' = k")
    case True
    with pl loc fe show ?thesis by (simp add: cb_view_def cb_place_def)
  next
    case False
    show ?thesis
    proof (cases "cb_find_entry cb (Some (fst k')) (Some (snd k'))")
      case None
      with False fe show ?thesis by (simp add: cb_view_def)
    next
      case (Some loc')
      from cb_find_entry_SomeD [OF inv Some] nm False have "loc' \<noteq> loc" by (cases k; cases k') auto
      with Some False fe loc show ?thesis by (simp add: cb_view_def cb_entry_at_put_other)
    qed
  qed
  moreover have "cb_inv (cb_put_entry cb loc e)"
    using cb_put_entry_inv [OF inv loc] like cb_entry_at_ok [OF inv loc] by (simp add: cb_like_def)
  ultimately show ?thesis using pl fe by (auto simp: cb_place_def)
qed

lemma cb_touch_view:
  assumes inv: "cb_inv cb" and sh: "cb_short k" and to: "cb_touch cb k = Some (cb1, loc)"
  shows "cb_inv cb1 \<and> cb_place cb1 k loc \<and>
     cb_view cb1 = (cb_view cb)(k \<mapsto> (case cb_view cb k of None \<Rightarrow> cb_fresh k | Some e \<Rightarrow> e))"
proof (cases "cb_find_entry cb (Some (fst k)) (Some (snd k))")
  case (Some l)
  with to have "cb1 = cb" "loc = l" by (auto simp: cb_touch_def cb_get_or_create_def)
  moreover have "cb_view cb k = Some (cb_entry_at cb l)" using Some by (simp add: cb_view_def)
  ultimately show ?thesis using Some inv by (simp add: cb_place_def fun_upd_idem)
next
  case None
  let ?i = "cb_hash_key (Some (fst k)) (Some (snd k))"
  from inv have len: "length (cb_buckets cb) = CB_BUCKETS" by (simp add: cb_inv_def)
  from None to have cb1: "loc = (?i, 0)" "cb1 = cb\<lparr>cb_buckets := (cb_buckets cb)
      [?i := cb_fresh k # (cb_buckets cb ! ?i)]\<rparr>"
    by (auto simp: cb_touch_def cb_get_or_create_def Let_def cb_fresh_def)
  have nm: "ce_model (cb_fresh k) = fst k" "ce_endpoint (cb_fresh k) = snd k"
    using sh by (auto simp: cb_short_def cb_fresh_def cb_new_entry_def)
  have pl: "cb_place cb1 k loc"
    using len nm by (simp add: cb_place_def cb_find_entry_def cb1 Let_def)
  have "cb_view cb1 k' = ((cb_view cb)(k \<mapsto> cb_fresh k)) k'" for k'
  proof (cases "k' = k")
    case True
    with pl show ?thesis using len by (simp add: cb_view_def cb_place_def cb_entry_at_def cb1)
  next
    case False
    let ?j = "cb_hash_key (Some (fst k')) (Some (snd k'))"
    let ?P = "\<lambda>e. ce_model e = fst k' \<and> ce_endpoint e = snd k'"
    from False nm have "\<not> ?P (cb_fresh k)" by (cases k; cases k') auto
    then have "cb_find_entry cb1 (Some (fst k')) (Some (snd k')) =
      map_option (\<lambda>l. if fst l = ?i then (?i, Suc (snd l)) else l)
        (cb_find_entry cb (Some (fst k')) (Some (snd k')))"
      using len by (cases "?j = ?i")
        (auto simp: cb_find_entry_def Let_def cb1 option.map_comp comp_def)
    with False show ?thesis
      using len by (cases "cb_find_entry cb (Some (fst k')) (Some (snd k'))")
        (auto simp: cb_view_def cb1 cb_entry_at_def)
  qed
  moreover have "cb_view cb k = None" using None by (simp add: cb_view_def)
  ultimately show ?thesis
    using pl cb_get_or_create_inv [OF inv] to by (auto simp: cb_touch_def fun_eq_iff)
qed

interpretation cbt: entry_table cb_inv cb_view cb_touch cb_place cb_entry_at cb_put_entry
  cb_fresh cb_short cb_like
proof unfold_locales
  fix s k s' l
  assume "cb_inv s" "cb_short k" "cb_touch s k = Some (s', l)"
  then show "cb_inv s' \<and> cb_place s' k l \<and>
      cb_view s' = (cb_view s)(k \<mapsto> case cb_view s k of None \<Rightarrow> cb_fresh k | Some e \<Rightarrow> e)"
    by (rule cb_touch_view)
next
  fix s k l
  assume "cb_inv s" "cb_place s k l"
  then show "cb_view s k = Some (cb_entry_at s l)" by (simp add: cb_view_def cb_place_def)
next
  fix s k l e
  assume "cb_inv s" "cb_place s k l" "cb_like (cb_entry_at s l) e"
  then show "cb_inv (cb_put_entry s l e) \<and> cb_place (cb_put_entry s l e) k l \<and>
      cb_view (cb_put_entry s l e) = (cb_view s)(k \<mapsto> e)"
    by (rule cb_put_view)
qed

section \<open>Operations as updates of the view\<close>

text \<open>The entry an operation on key \<open>k\<close> at time \<open>now\<close> works on.\<close>

definition cb_eff :: "circuit_breaker \<Rightarrow> string \<times> string \<Rightarrow> int \<Rightarrow> cb_entry" where
  "cb_eff cb k now = cb_advance (case cb_view cb k of None \<Rightarrow> cb_fresh k | Some e \<Rightarrow> e) now"

lemma cb_find_entry_publish [simp]:
  "cb_find_entry (cb_publish e a b c cb) m ep = cb_find_entry cb m ep"
  by (simp add: cb_find_entry_def)

lemma cb_view_publish [simp]: "cb_view (cb_publish e a b c cb) = cb_view cb"
proof -
  have "cb_entry_at (cb_publish e a b c cb) = cb_entry_at cb" by (rule ext) simp
  then show ?thesis by (intro ext) (simp only: cb_view_def cb_find_entry_publish)
qed

lemma cb_place_publish [simp]: "cb_place (cb_publish e a b c cb) k l = cb_place cb k l"
  by (simp add: cb_place_def)

lemma cb_put_publish: "cb_put_entry (cb_publish e a b c cb) l x = cb_publish e a b c (cb_put_entry cb l x)"
  by (simp add: cb_put_entry_def cb_publish_def)

definition cb_params_eq :: "circuit_breaker \<Rightarrow> circuit_breaker \<Rightarrow> bool" where
  "cb_params_eq a b \<longleftrightarrow>
     cb_failure_threshold b = cb_failure_threshold a \<and> cb_cooloff_sec b = cb_cooloff_sec a \<and>
     cb_pool b = cb_pool a \<and> cb_fail_open b = cb_fail_open a \<and> cb_eb b = cb_eb a \<and>
     cb_sla_configs b = cb_sla_configs a"

lemma cb_params_eq_simps [simp]:
  "cb_params_eq cb cb"
  "cb_params_eq a (cb_put_entry b l e) = cb_params_eq a b"
  "cb_params_eq a (cb_publish e x y z b) = cb_params_eq a b"
  by (auto simp: cb_params_eq_def cb_put_entry_def cb_publish_def)

lemma cb_events_same [simp]:
  "cb_view (cb_failure_event e e' cb) = cb_view cb" "cb_view (sla_event e e' cb) = cb_view cb"
  "cb_inv (cb_failure_event e e' cb) = cb_inv cb" "cb_inv (sla_event e e' cb) = cb_inv cb"
  "cb_params_eq a (cb_failure_event e e' cb) = cb_params_eq a cb"
  "cb_params_eq a (sla_event e e' cb) = cb_params_eq a cb"
  "cb_put_entry (cb_failure_event e e' cb) l x = cb_failure_event e e' (cb_put_entry cb l x)"
  "cb_put_entry (sla_event e e' cb) l x = sla_event e e' (cb_put_entry cb l x)"
  by (auto simp: cb_failure_event_def sla_event_def cb_put_publish)

lemma cb_params_eqD:
  "cb_params_eq a b \<Longrightarrow> cb_failure_threshold b = cb_failure_threshold a"
  "cb_params_eq a b \<Longrightarrow> cb_cooloff_sec b = cb_cooloff_sec a"
  "cb_params_eq a b \<Longrightarrow> cb_pool b = cb_pool a"
  "cb_params_eq a b \<Longrightarrow> cb_sla_configs b = cb_sla_configs a"
  by (simp_all add: cb_params_eq_def)

lemma cb_params_eq_update [simp]:
  "cb_params_eq a (cb_update_state_on_time b l now) = cb_params_eq a b"
  by (simp add: cb_update_state_on_time_def Let_def)

lemma cb_get_or_create_params: "cb_get_or_create cb al m ep = Some (cb1, l) \<Longrightarrow> cb_params_eq cb cb1"
  by (auto simp: cb_get_or_create_def Let_def cb_params_eq_def split: option.splits if_splits)

lemma cb_like_refl [simp]: "cb_like e e"
  by (simp add: cb_like_def)

lemma cb_like_trans: "cb_like a b \<Longrightarrow> cb_like b c \<Longrightarrow> cb_like a c"
  by (simp add: cb_like_def)

lemma cb_like_advance [simp]: "cb_like e (cb_advance e now)"
  by (simp add: cb_like_def cb_advance_def cb_entry_ok_def)

lemma cb_like_allow [simp]: "cb_like e (snd (cb_allow_entry e))"
  by (cases "ce_state e") (auto simp: cb_like_def cb_allow_entry_def cb_entry_ok_def)

lemma cb_like_success [simp]: "cb_like e (cb_success_entry e)"
  by (simp add: cb_like_def cb_success_entry_def cb_entry_ok_def Let_def)

lemma cb_like_failure [simp]: "cb_like e (cb_failure_entry t c now e)"
  by (simp add: cb_like_def cb_failure_entry_def cb_entry_ok_def Let_def)

lemma cb_like_override [simp]: "cb_like e (cb_override_entry c now st e)"
  by (cases st) (auto simp: cb_like_def cb_override_entry_def cb_entry_ok_def Let_def)

lemma cb_like_sla [simp]: "sla_cfg_ok cfg \<Longrightarrow> cb_like e (sla_decide cfg (sla_push cfg s e))"
proof -
  assume "sla_cfg_ok cfg"
  then have "(ce_sample_head e + 1) mod sc_window_size cfg < CB_MAX_SLA_SAMPLES"
    by (meson mod_less_divisor order_less_le_trans sla_cfg_ok_def)
  with \<open>sla_cfg_ok cfg\<close> show ?thesis
    by (auto simp: cb_like_def sla_decide_def sla_push_def cb_entry_ok_def sla_cfg_ok_def)
qed

text \<open>The time-driven advance at the place of a key.\<close>

lemma cb_update_view:
  assumes inv: "cb_inv cb" and pl: "cb_place cb k l"
  shows "cb_inv (cb_update_state_on_time cb l now) \<and> cb_place (cb_update_state_on_time cb l now) k l \<and>
     cb_view (cb_update_state_on_time cb l now) =
       (cb_view cb)(k \<mapsto> cb_advance (cb_entry_at cb l) now)"
proof (cases "cb_cooloff_expired (cb_entry_at cb l) now")
  case True
  with cbt.put_law [OF inv pl, of "cb_advance (cb_entry_at cb l) now"] show ?thesis
    by (simp add: cb_update_state_on_time_def Let_def)
next
  case False
  with cbt.at_law [OF inv pl] inv pl show ?thesis
    by (auto simp: cb_update_state_on_time_def Let_def cb_advance_def fun_upd_idem)
qed

text \<open>Find or create, advance, then overwrite: the shape of every operation that may create.\<close>

lemma cb_touch_advance_put:
  fixes now :: int
  assumes inv: "cb_inv cb" and sh: "cb_short k"
    and to: "cb_get_or_create cb al (Some (fst k)) (Some (snd k)) = Some (cb1, l)"
  defines "cb2 \<equiv> cb_update_state_on_time cb1 l now"
  shows "cb_entry_at cb2 l = cb_eff cb k now \<and> cb_params_eq cb cb2 \<and>
    (cb_like (cb_eff cb k now) e \<longrightarrow>
       cb_inv (cb_put_entry cb2 l e) \<and> cb_view (cb_put_entry cb2 l e) = (cb_view cb)(k \<mapsto> e))"
proof -
  from to have to': "cb_touch cb k = Some (cb1, l)"
    by (auto simp: cb_touch_def cb_get_or_create_def split: option.splits if_splits)
  note 1 = cbt.touch_law [OF inv sh to'] and at1 = cbt.touch_at [OF inv sh to']
  then have 2: "cb_inv cb2" "cb_place cb2 k l"
    "cb_view cb2 = (cb_view cb1)(k \<mapsto> cb_advance (cb_entry_at cb1 l) now)"
    using cb_update_view [of cb1 k l now] by (auto simp: cb2_def)
  from cbt.at_law [OF 2(1,2)] 2(3) at1 have at2: "cb_entry_at cb2 l = cb_eff cb k now"
    by (simp add: cb_eff_def)
  with cbt.put_law [OF 2(1,2), of e] 2(3) 1 cb_get_or_create_params [OF to] show ?thesis
    by (auto simp: cb2_def)
qed

lemma cb_allow_local_view:
  assumes "cb_inv cb" and "cb_short (m, ep)"
    and "cb_get_or_create cb al (Some m) (Some ep) \<noteq> None"
  shows "\<exists>cb'. cb_allow_local cb now al m ep = (cb', fst (cb_allow_entry (cb_eff cb (m, ep) now))) \<and>
     cb_inv cb' \<and> cb_params_eq cb cb' \<and>
     cb_view cb' = (cb_view cb)((m, ep) \<mapsto> snd (cb_allow_entry (cb_eff cb (m, ep) now)))"
proof -
  from assms(3) obtain cb1 l where to: "cb_get_or_create cb al (Some m) (Some ep) = Some (cb1, l)" by auto
  from cb_touch_advance_put [of cb "(m, ep)" al cb1 l now "snd (cb_allow_entry (cb_eff cb (m, ep) now))"]
    assms to show ?thesis
    by (auto simp: cb_allow_local_def Let_def split: prod.splits)
qed

lemma cb_record_failure_view:
  fixes now :: int
  assumes "cb_inv cb" and "cb_short (m, ep)" and "cb_counts_status st"
    and "cb_get_or_create cb al (Some m) (Some ep) \<noteq> None"
  defines "cb' \<equiv> cb_record_failure cb now al (Some m) (Some ep) st"
  shows "cb_inv cb' \<and> cb_params_eq cb cb' \<and>
     cb_view cb' = (cb_view cb)((m, ep) \<mapsto>
       cb_failure_entry (cb_failure_threshold cb) (cb_cooloff_sec cb) now (cb_eff cb (m, ep) now))"
proof -
  let ?e = "cb_failure_entry (cb_failure_threshold cb) (cb_cooloff_sec cb) now (cb_eff cb (m, ep) now)"
  from assms(4) obtain cb1 l where to: "cb_get_or_create cb al (Some m) (Some ep) = Some (cb1, l)" by auto
  let ?cb2 = "cb_update_state_on_time cb1 l now"
  from cb_touch_advance_put [of cb "(m, ep)" al cb1 l now ?e] assms(1,2) to
  have 2: "cb_entry_at ?cb2 l = cb_eff cb (m, ep) now" "cb_params_eq cb ?cb2"
    "cb_inv (cb_put_entry ?cb2 l ?e)" "cb_view (cb_put_entry ?cb2 l ?e) = (cb_view cb)((m, ep) \<mapsto> ?e)"
    by auto
  from to assms(3) 2(1) cb_params_eqD [OF 2(2)] have "cb' =
      (if cb_pool cb then cb_put_entry ?cb2 l ?e
       else cb_failure_event (cb_eff cb (m, ep) now) ?e (cb_put_entry ?cb2 l ?e))"
    by (simp add: cb'_def cb_record_failure_def Let_def)
  with 2 show ?thesis by simp
qed

lemma cb_record_sla_sample_view:
  fixes now :: int and tt la :: nat
  assumes "cb_inv cb" and "cb_short (m, ep)" and "cb_find_sla_cfg cb m = Some i"
    and "cb_get_or_create cb al (Some m) (Some ep) \<noteq> None"
  defines "cb' \<equiv> cb_record_sla_sample cb now al (Some m) (Some ep) tt la"
    and "cfg \<equiv> cb_sla_configs cb ! i"
  shows "cb_inv cb' \<and> cb_params_eq cb cb' \<and> sla_cfg_ok cfg \<and>
     cb_view cb' = (cb_view cb)((m, ep) \<mapsto> sla_decide cfg
       (sla_push cfg \<lparr>ss_ttft_ms = tt, ss_latency_ms = la\<rparr> (cb_eff cb (m, ep) now)))"
proof -
  let ?e = "sla_decide cfg (sla_push cfg \<lparr>ss_ttft_ms = tt, ss_latency_ms = la\<rparr> (cb_eff cb (m, ep) now))"
  from assms(3) have "cfg \<in> set (cb_sla_configs cb)"
    by (auto simp: cb_find_sla_cfg_def cfg_def)
  with assms(1) have ok: "sla_cfg_ok cfg" by (simp add: cb_inv_def)
  from assms(4) obtain cb1 l where to: "cb_get_or_create cb al (Some m) (Some ep) = Some (cb1, l)" by auto
  with cb_get_or_create_params have cs: "cb_sla_configs cb1 = cb_sla_configs cb"
    by (auto simp: cb_params_eqD)
  from cb_touch_advance_put [of cb "(m, ep)" al cb1 l now ?e] assms(1-3) to ok cs show ?thesis
    by (simp add: cb_record_sla_sample_def Let_def cb'_def cfg_def)
qed

lemma cb_override_state_view:
  assumes "cb_inv cb" and "cb_short (m, ep)"
    and "cb_get_or_create cb al (Some m) (Some ep) \<noteq> None"
  shows "\<exists>cb'. cb_override_state cb now al (Some m) (Some ep) st = (cb', True) \<and>
     cb_inv cb' \<and> cb_params_eq cb cb' \<and> cb_view cb' = (cb_view cb)((m, ep) \<mapsto>
       cb_override_entry (cb_cooloff_sec cb) now st
         (case cb_view cb (m, ep) of None \<Rightarrow> cb_fresh (m, ep) | Some e \<Rightarrow> e))"
proof -
  from assms(3) obtain cb1 l where to: "cb_get_or_create cb al (Some m) (Some ep) = Some (cb1, l)" by auto
  then have to': "cb_touch cb (m, ep) = Some (cb1, l)"
    by (auto simp: cb_touch_def cb_get_or_create_def split: option.splits if_splits)
  from cbt.touch_update [OF assms(1,2) to', of "cb_override_entry (cb_cooloff_sec cb1) now st"]
    cb_get_or_create_params [OF to] to show ?thesis
    by (simp add: cb_override_state_def cb_params_eqD)
qed

lemma cb_existing_view:
  assumes "cb_inv cb" and "cb_view cb (m, ep) = Some e"
  shows "\<exists>l. cb_find_entry cb (Some m) (Some ep) = Some l \<and> cb_place cb (m, ep) l \<and>
     cb_entry_at cb l = e \<and> cb_loc_ok cb l \<and> cb_get_or_create cb al (Some m) (Some ep) = Some (cb, l)"
  using assms cb_find_entry_SomeD [OF assms(1)]
  by (auto simp: cb_view_def cb_place_def cb_get_or_create_def)

lemma cb_record_success_view:
  fixes m ep :: string
  assumes inv: "cb_inv cb" and e: "cb_view cb (m, ep) = Some e"
  defines "cb' \<equiv> cb_record_success cb (Some m) (Some ep)"
  shows "cb_inv cb' \<and> cb_params_eq cb cb' \<and> cb_view cb' = (cb_view cb)((m, ep) \<mapsto> cb_success_entry e)"
proof -
  from cb_existing_view [OF inv e] obtain l where l: "cb_find_entry cb (Some m) (Some ep) = Some l"
    "cb_place cb (m, ep) l" "cb_entry_at cb l = e" by blast
  from cbt.put_law [OF inv l(2), of "cb_success_entry e"] l show ?thesis
    by (simp add: cb'_def cb_record_success_def Let_def cb_put_publish)
qed

end
