(* ===== verification/Breaker_Props.thy ===== *)
theory Breaker_Props
  imports Breaker_Laws
begin

text \<open>
  The promises of the circuit breaker over runs of operations: what an open breaker refuses,
  how many probes a half-open one admits, when it trips, what closes it again, and where the
  fixed-size names and the Redis key break it.
\<close>

section \<open>Runs of operations\<close>

datatype cb_op =
    OpAllow int bool string string
  | OpSuccess string string
  | OpFailure int bool string string int
  | OpSla int bool string string nat nat
  | OpOverride int bool string string cb_state
  | OpQuery int string string
  | OpConfigureSla bool string nat nat nat real "string option"
  | OpSetParams int int
  | OpReset

fun cb_do :: "cb_redis \<Rightarrow> circuit_breaker \<Rightarrow> cb_op \<Rightarrow> circuit_breaker" where
  "cb_do r cb (OpAllow now al m ep) = fst (cb_allow_request cb r now al (Some m) (Some ep))"
| "cb_do r cb (OpSuccess m ep) = cb_record_success cb (Some m) (Some ep)"
| "cb_do r cb (OpFailure now al m ep st) = cb_record_failure cb now al (Some m) (Some ep) st"
| "cb_do r cb (OpSla now al m ep tt la) = cb_record_sla_sample cb now al (Some m) (Some ep) tt la"
| "cb_do r cb (OpOverride now al m ep st) = fst (cb_override_state cb now al (Some m) (Some ep) st)"
| "cb_do r cb (OpQuery now m ep) = fst (cb_get_state cb now (Some m) (Some ep))"
| "cb_do r cb (OpConfigureSla al m tt p w v fb) = cb_configure_sla cb al (Some m) tt p w v fb"
| "cb_do r cb (OpSetParams t c) = cb_set_params cb t c"
| "cb_do r cb OpReset = cb_reset cb"

fun cb_op_key :: "cb_op \<Rightarrow> (string \<times> string) option" where
  "cb_op_key (OpAllow now al m ep) = Some (m, ep)"
| "cb_op_key (OpSuccess m ep) = Some (m, ep)"
| "cb_op_key (OpFailure now al m ep st) = Some (m, ep)"
| "cb_op_key (OpSla now al m ep tt la) = Some (m, ep)"
| "cb_op_key (OpOverride now al m ep st) = Some (m, ep)"
| "cb_op_key (OpQuery now m ep) = Some (m, ep)"
| "cb_op_key _ = None"

inductive cb_reachable :: "cb_redis \<Rightarrow> circuit_breaker \<Rightarrow> bool" for r where
  cb_init: "cb_create True = Some cb \<Longrightarrow> cb_reachable r cb"
| cb_step: "cb_reachable r cb \<Longrightarrow> cb_reachable r (cb_do r cb oper)"

fun cb_allow_run ::
  "cb_redis \<Rightarrow> circuit_breaker \<Rightarrow> string \<Rightarrow> string \<Rightarrow> int list \<Rightarrow> bool list" where
  "cb_allow_run r cb m ep [] = []"
| "cb_allow_run r cb m ep (t # ts) =
     (let (cb', b) = cb_allow_request cb r t True (Some m) (Some ep)
      in b # cb_allow_run r cb' m ep ts)"

definition cb_fail_run ::
  "circuit_breaker \<Rightarrow> string \<Rightarrow> string \<Rightarrow> (int \<times> int) list \<Rightarrow> circuit_breaker" where
  "cb_fail_run cb m ep xs =
     foldl (\<lambda>c (t, st). cb_record_failure c t True (Some m) (Some ep) st) cb xs"

section \<open>The invariant of every reachable breaker\<close>

lemma cb_touched_put_inv:
  assumes inv: "cb_inv cb" and go: "cb_get_or_create cb al m ep = Some (cb1, l)"
    and like: "\<And>e. cb_entry_ok e \<Longrightarrow> cb_entry_ok (f e)"
  shows "cb_inv (cb_put_entry (cb_update_state_on_time cb1 l now) l
           (f (cb_entry_at (cb_update_state_on_time cb1 l now) l))) \<and>
         cb_inv (cb_put_entry cb1 l (f (cb_entry_at cb1 l)))"
proof -
  from cb_get_or_create_inv [OF inv go] have 1: "cb_inv cb1" "cb_loc_ok cb1 l" by auto
  from cb_update_state_on_time_inv [OF this] have 2: "cb_inv (cb_update_state_on_time cb1 l now)"
    "cb_loc_ok (cb_update_state_on_time cb1 l now) l" by auto
  from cb_put_entry_inv [OF 1 like] cb_put_entry_inv [OF 2 like] cb_entry_at_ok [OF 1] cb_entry_at_ok [OF 2]
  show ?thesis by blast
qed

lemma cb_likeD: "cb_like e e' \<Longrightarrow> cb_entry_ok e \<Longrightarrow> cb_entry_ok e'"
  by (simp add: cb_like_def)

lemma cb_allow_local_inv [inv_intros]: "cb_inv cb \<Longrightarrow> cb_inv (fst (cb_allow_local cb now al m ep))"
proof -
  assume inv: "cb_inv cb"
  have "cb_entry_ok e \<Longrightarrow> cb_entry_ok (snd (cb_allow_entry e))" for e by (rule cb_likeD) simp_all
  with cb_touched_put_inv [OF inv, of al "Some m" "Some ep" _ _ "\<lambda>e. snd (cb_allow_entry e)" now] inv
  show ?thesis by (auto simp: cb_allow_local_def Let_def split: option.splits prod.splits)
qed

lemma cb_allow_request_inv [inv_intros]:
  "cb_inv cb \<Longrightarrow> cb_inv (fst (cb_allow_request cb r now al m ep))"
  by (auto simp: cb_allow_request_def inv_intros split: option.splits)

lemma cb_record_success_inv [inv_intros]: "cb_inv cb \<Longrightarrow> cb_inv (cb_record_success cb m ep)"
proof (cases "cb_find_entry cb m ep")
  case (Some l)
  assume inv: "cb_inv cb"
  from cb_find_entry_SomeD [OF inv Some] have l: "cb_loc_ok cb l" by simp
  with cb_put_entry_inv [OF inv l cb_likeD [OF cb_like_success cb_entry_at_ok [OF inv l]]] inv Some
  show ?thesis by (auto simp: cb_record_success_def Let_def cb_put_publish)
qed (simp add: cb_record_success_def)

lemma cb_record_failure_inv [inv_intros]:
  assumes inv: "cb_inv cb"
  shows "cb_inv (cb_record_failure cb now al m ep st)"
proof (cases "cb_get_or_create cb al m ep")
  case None
  with inv show ?thesis by (simp add: cb_record_failure_def)
next
  case (Some r)
  then obtain cb1 l where go: "cb_get_or_create cb al m ep = Some (cb1, l)" by (cases r) auto
  let ?cb2 = "cb_update_state_on_time cb1 l now"
  have "cb_inv (cb_put_entry ?cb2 l (cb_failure_entry (cb_failure_threshold ?cb2) (cb_cooloff_sec ?cb2)
      now (cb_entry_at ?cb2 l)))"
    using cb_touched_put_inv [OF inv go, of "cb_failure_entry (cb_failure_threshold ?cb2) (cb_cooloff_sec ?cb2) now" now]
      cb_likeD [OF cb_like_failure] by blast
  with inv go show ?thesis by (simp add: cb_record_failure_def Let_def)
qed

lemma cb_record_sla_sample_inv [inv_intros]:
  assumes inv: "cb_inv cb"
  shows "cb_inv (cb_record_sla_sample cb now al m ep tt la)"
proof (cases m)
  case (Some mm)
  show ?thesis
  proof (cases "cb_find_sla_cfg cb mm")
    case None
    with inv Some show ?thesis by (simp add: cb_record_sla_sample_def)
  next
    case i: (Some i)
    then have "cb_sla_configs cb ! i \<in> set (cb_sla_configs cb)" by (simp add: cb_find_sla_cfg_def)
    with inv have ok: "sla_cfg_ok (cb_sla_configs cb ! i)" by (simp add: cb_inv_def)
    show ?thesis
    proof (cases "cb_get_or_create cb al m (Some (cstr_or_empty ep))")
      case None
      with inv i Some show ?thesis by (simp add: cb_record_sla_sample_def)
    next
      case go: (Some r)
      then obtain cb1 l where go: "cb_get_or_create cb al m (Some (cstr_or_empty ep)) = Some (cb1, l)"
        by (cases r) auto
      have cs: "cb_sla_configs cb1 = cb_sla_configs cb"
        using cb_get_or_create_params [OF go] by (simp add: cb_params_eqD)
      let ?f = "\<lambda>e. sla_decide (cb_sla_configs cb ! i)
        (sla_push (cb_sla_configs cb ! i) \<lparr>ss_ttft_ms = tt, ss_latency_ms = la\<rparr> e)"
      from cb_touched_put_inv [OF inv go, of ?f now] cb_likeD [OF cb_like_sla [OF ok]]
      show ?thesis using Some i go cs by (simp add: cb_record_sla_sample_def Let_def)
    qed
  qed
qed (use inv in \<open>simp add: cb_record_sla_sample_def\<close>)

lemma cb_override_state_inv [inv_intros]:
  assumes inv: "cb_inv cb"
  shows "cb_inv (fst (cb_override_state cb now al m ep st))"
proof (cases "cb_get_or_create cb al m (Some (cstr_or_empty ep))")
  case None
  with inv show ?thesis by (auto simp: cb_override_state_def split: option.splits)
next
  case (Some r)
  then obtain cb1 l where go: "cb_get_or_create cb al m (Some (cstr_or_empty ep)) = Some (cb1, l)"
    by (cases r) auto
  from cb_touched_put_inv [OF inv go, of "cb_override_entry (cb_cooloff_sec cb1) now st" now]
    cb_likeD [OF cb_like_override] inv go show ?thesis
    by (auto simp: cb_override_state_def split: option.splits)
qed

lemma cb_get_state_inv [inv_intros]: "cb_inv cb \<Longrightarrow> cb_inv (fst (cb_get_state cb now m ep))"
  using cb_find_entry_SomeD [of cb m ep] cb_update_state_on_time_inv [of cb _ now]
  by (auto simp: cb_get_state_def Let_def split: option.splits)

lemma cb_sla_fill_ok: "length (sc_model c) < 128 \<Longrightarrow> sla_cfg_ok (cb_sla_fill tt p w v fb c)"
  using length_cstr_copy [of 128] by (simp add: sla_cfg_ok_def cb_sla_fill_def CB_MAX_SLA_SAMPLES_def Let_def)

lemma cb_configure_sla_inv [inv_intros]: "cb_inv cb \<Longrightarrow> cb_inv (cb_configure_sla cb al m tt p w v fb)"
proof -
  assume inv: "cb_inv cb"
  show ?thesis
  proof (cases m)
    case (Some mm)
    show ?thesis
    proof (cases "cb_find_sla_cfg cb mm")
      case None
      have "length (cstr_copy 128 mm) < 128" by (rule length_cstr_copy) simp
      with None Some inv show ?thesis
        by (simp add: cb_configure_sla_def cb_inv_def cb_sla_fill_ok)
    next
      case i: (Some i)
      then have "cb_sla_configs cb ! i \<in> set (cb_sla_configs cb)" by (simp add: cb_find_sla_cfg_def)
      with inv have "sla_cfg_ok (cb_sla_fill tt p w v fb (cb_sla_configs cb ! i))"
        by (intro cb_sla_fill_ok) (simp add: cb_inv_def sla_cfg_ok_def)
      with inv have "\<forall>c \<in> set ((cb_sla_configs cb)[i := cb_sla_fill tt p w v fb (cb_sla_configs cb ! i)]). sla_cfg_ok c"
        by (intro ball_list_update) (simp_all add: cb_inv_def)
      with Some i inv show ?thesis by (simp add: cb_configure_sla_def cb_inv_def)
    qed
  qed (use inv in \<open>simp add: cb_configure_sla_def\<close>)
qed

lemma cb_do_inv: "cb_inv cb \<Longrightarrow> cb_inv (cb_do r cb oper)"
proof (cases oper)
  case (OpSetParams t c)
  assume "cb_inv cb"
  with OpSetParams show ?thesis by (simp add: cb_set_params_def cb_inv_def Let_def)
next
  case OpReset
  assume "cb_inv cb"
  with OpReset show ?thesis by (simp add: cb_reset_def cb_inv_def)
qed (simp_all add: inv_intros)

lemma cb_create_inv: "cb_create al = Some cb \<Longrightarrow> cb_inv cb"
  by (auto simp: cb_create_def cb_inv_def split: if_splits)

lemma cb_get_or_create_ok: "cb_get_or_create cb True m ep \<noteq> None"
  by (auto simp: cb_get_or_create_def Let_def split: option.splits)

section \<open>A breaker for the witnesses\<close>

text \<open>A new breaker whose one entry has been set to a state by the admin override at time 100.\<close>

definition cb_demo :: "cb_state \<Rightarrow> circuit_breaker" where
  "cb_demo st = fst (cb_override_state (the (cb_create True)) 100 True (Some ''gpt'') (Some ''eu'') st)"

lemma cb_created:
  "cb_inv (the (cb_create True))" "cb_pool (the (cb_create True)) = False"
  "cb_failure_threshold (the (cb_create True)) = 3" "cb_cooloff_sec (the (cb_create True)) = 30"
  "cb_view (the (cb_create True)) k = None" "cb_sla_configs (the (cb_create True)) = []"
  using cb_hash_key_less [of "Some (fst k)" "Some (snd k)"]
  by (simp_all add: cb_create_def cb_inv_def cb_view_def cb_find_entry_def Let_def)

lemma cb_demo_facts:
  "cb_inv (cb_demo st)" "cb_pool (cb_demo st) = False" "cb_failure_threshold (cb_demo st) = 3"
  "cb_cooloff_sec (cb_demo st) = 30"
  "cb_view (cb_demo st) (''gpt'', ''eu'') = Some (cb_override_entry 30 100 st (cb_fresh (''gpt'', ''eu'')))"
proof -
  have "cb_short (''gpt'', ''eu'')" by (simp add: cb_short_def)
  from cb_override_state_view [OF cb_created(1) this cb_get_or_create_ok, of 100 st]
  obtain c where c: "cb_override_state (the (cb_create True)) 100 True (Some ''gpt'') (Some ''eu'') st = (c, True)"
    "cb_inv c" "cb_params_eq (the (cb_create True)) c"
    "cb_view c (''gpt'', ''eu'') = Some (cb_override_entry 30 100 st (cb_fresh (''gpt'', ''eu'')))"
    by (auto simp: cb_created)
  then show "cb_inv (cb_demo st)" "cb_pool (cb_demo st) = False" "cb_failure_threshold (cb_demo st) = 3"
    "cb_cooloff_sec (cb_demo st) = 30"
    "cb_view (cb_demo st) (''gpt'', ''eu'') = Some (cb_override_entry 30 100 st (cb_fresh (''gpt'', ''eu'')))"
    by (auto simp: cb_demo_def cb_params_eq_def cb_created)
qed

lemma cb_demo_sla: "cb_sla_configs (cb_demo st) = []"
proof -
  obtain c1 l where go: "cb_get_or_create (the (cb_create True)) True (Some ''gpt'') (Some ''eu'') = Some (c1, l)"
    using cb_get_or_create_ok by fastforce
  from cb_get_or_create_params [OF go] go show ?thesis
    by (simp add: cb_demo_def cb_override_state_def cb_params_eq_def cb_put_entry_def cb_created)
qed

lemmas cb_demo_eval = cb_override_entry_def cb_fresh_def cb_new_entry_def

section \<open>Open, half-open, closed\<close>

lemma cb_eff_Some [simp]: "cb_view cb k = Some e \<Longrightarrow> cb_eff cb k now = cb_advance e now"
  by (simp add: cb_eff_def)

lemma cb_allow_known:
  assumes "cb_inv cb" "\<not> cb_pool cb" "cb_short (m, ep)" "cb_view cb (m, ep) = Some e"
  shows "\<exists>cb'. cb_allow_request cb r now al (Some m) (Some ep) =
      (cb', fst (cb_allow_entry (cb_advance e now))) \<and> cb_inv cb' \<and> cb_params_eq cb cb' \<and>
      cb_view cb' = (cb_view cb)((m, ep) \<mapsto> snd (cb_allow_entry (cb_advance e now)))"
proof -
  from cb_existing_view [OF assms(1,4), of al] have "cb_get_or_create cb al (Some m) (Some ep) \<noteq> None" by auto
  from cb_allow_local_view [OF assms(1,3) this, of now] assms show ?thesis
    by (simp add: cb_allow_request_def)
qed

lemma cb_view_short: "cb_inv cb \<Longrightarrow> cb_view cb (m, ep) = Some e \<Longrightarrow> cb_short (m, ep)"
proof -
  assume 1: "cb_inv cb" "cb_view cb (m, ep) = Some e"
  from cb_existing_view [OF this] obtain l where "cb_find_entry cb (Some m) (Some ep) = Some l"
    "cb_entry_at cb l = e" "cb_loc_ok cb l" by blast
  with cb_find_entry_SomeD [OF 1(1)] cb_entry_at_ok [OF 1(1)] show ?thesis
    by (fastforce simp: cb_short_def cb_entry_ok_def)
qed

lemma cb_existing_quiet:
  assumes inv: "cb_inv cb" and e: "cb_view cb (m, ep) = Some e"
    and op: "ce_state e = CB_OPEN" "now < ce_open_until e"
  shows "\<exists>l. cb_get_or_create cb al (Some m) (Some ep) = Some (cb, l) \<and> cb_loc_ok cb l \<and>
     cb_entry_at cb l = e \<and> cb_update_state_on_time cb l now = cb"
proof -
  from cb_existing_view [OF inv e] obtain l where "cb_entry_at cb l = e" "cb_loc_ok cb l"
    "cb_get_or_create cb al (Some m) (Some ep) = Some (cb, l)" by blast
  with op show ?thesis by (auto simp: cb_update_state_on_time_def cb_cooloff_expired_def)
qed

lemma breaker_open_step:
  assumes "cb_inv cb" "\<not> cb_pool cb" "cb_view cb (m, ep) = Some e"
    and "ce_state e = CB_OPEN" "now < ce_open_until e"
  shows "cb_allow_request cb r now al (Some m) (Some ep) = (cb, False)"
proof -
  from cb_existing_quiet [OF assms(1,3-5)] obtain l where
    "cb_get_or_create cb al (Some m) (Some ep) = Some (cb, l)" "cb_loc_ok cb l"
    "cb_entry_at cb l = e" "cb_update_state_on_time cb l now = cb" by blast
  with assms show ?thesis
    by (auto simp: cb_allow_request_def cb_allow_local_def cb_allow_entry_def)
qed

text \<open>C2. While an entry is OPEN and its cool-off has not passed, a request to that endpoint is
  refused and the breaker does not change.\<close>

theorem breaker_open_rejects:
  assumes "cb_inv cb" and "\<not> cb_pool cb" and "cb_view cb (m, ep) = Some e"
    and "ce_state e = CB_OPEN" and "now < ce_open_until e"
  shows "cb_allow_request cb r now al (Some m) (Some ep) = (cb, False)"
  using assms by (rule breaker_open_step)

theorem breaker_open_rejects_witness:
  "cb_allow_request (cb_demo CB_OPEN) (\<lambda>_ _ _ _. None) 129 True (Some ''gpt'') (Some ''eu'') = (cb_demo CB_OPEN, False)"
  by (rule breaker_open_rejects [OF cb_demo_facts(1) _ cb_demo_facts(5)])
     (simp_all add: cb_demo_facts cb_demo_eval)

lemma cb_run_probing:
  assumes "cb_inv cb" "\<not> cb_pool cb" "cb_view cb (m, ep) = Some e"
    and "ce_state e = CB_HALF_OPEN" "ce_half_open_probe_active e"
  shows "cb_allow_run r cb m ep ts = replicate (length ts) False"
  using assms(1-3)
proof (induction ts arbitrary: cb)
  case Nil
  then show ?case by simp
next
  case (Cons t ts)
  from cb_allow_known [OF Cons.prems(1,2) cb_view_short [OF Cons.prems(1,3)] Cons.prems(3), of r t True]
    assms(4,5) obtain cb' where "cb_allow_request cb r t True (Some m) (Some ep) = (cb', False)"
    "cb_inv cb'" "cb_params_eq cb cb'" "cb_view cb' (m, ep) = Some e"
    by (auto simp: cb_advance_def cb_cooloff_expired_def cb_allow_entry_def)
  with Cons.IH [of cb'] Cons.prems(2) show ?case by (simp add: cb_params_eqD)
qed

text \<open>C3. Once the cool-off has passed, exactly one request, the first, is let through as the
  probe; every later one, at any time, is refused until the probe's outcome is recorded.\<close>

theorem breaker_single_probe:
  assumes "cb_inv cb" and "\<not> cb_pool cb" and "cb_view cb (m, ep) = Some e"
    and "ce_state e = CB_OPEN" and "ce_open_until e \<le> t"
  shows "cb_allow_run r cb m ep (t # ts) = True # replicate (length ts) False"
proof -
  let ?e = "e\<lparr>ce_state := CB_HALF_OPEN, ce_half_open_probe_active := True\<rparr>"
  from cb_allow_known [OF assms(1,2) cb_view_short [OF assms(1,3)] assms(3), of r t True] assms(4,5)
  obtain cb' where "cb_allow_request cb r t True (Some m) (Some ep) = (cb', True)"
    "cb_inv cb'" "cb_params_eq cb cb'" "cb_view cb' (m, ep) = Some ?e"
    by (auto simp: cb_advance_def cb_cooloff_expired_def cb_allow_entry_def)
  with cb_run_probing [of cb' m ep ?e r ts] assms(2) show ?thesis by (simp add: cb_params_eqD)
qed

theorem breaker_single_probe_witness:
  "cb_allow_run (\<lambda>_ _ _ _. None) (cb_demo CB_OPEN) ''gpt'' ''eu'' [130, 130, 200, 1000] = [True, False, False, False]"
  using breaker_single_probe [OF cb_demo_facts(1) _ cb_demo_facts(5), of CB_OPEN 130 "\<lambda>_ _ _ _. None" "[130, 200, 1000]"]
  by (simp add: cb_demo_facts cb_demo_eval)

text \<open>A failure reported while the breaker is open does not extend the cool-off: the breaker
  is unchanged.\<close>

theorem breaker_open_not_extended:
  assumes "cb_inv cb" and "cb_view cb (m, ep) = Some e"
    and "ce_state e = CB_OPEN" and "now < ce_open_until e"
  shows "cb_record_failure cb now al (Some m) (Some ep) st = cb"
proof -
  from cb_existing_quiet [OF assms] obtain l where
    "cb_get_or_create cb al (Some m) (Some ep) = Some (cb, l)" "cb_loc_ok cb l"
    "cb_entry_at cb l = e" "cb_update_state_on_time cb l now = cb" by blast
  with assms show ?thesis
    by (auto simp: cb_record_failure_def cb_failure_entry_def cb_failure_event_def Let_def)
qed

theorem breaker_open_not_extended_witness:
  "cb_record_failure (cb_demo CB_OPEN) 129 True (Some ''gpt'') (Some ''eu'') 500 = cb_demo CB_OPEN"
  by (rule breaker_open_not_extended [OF cb_demo_facts(1) cb_demo_facts(5)])
     (simp_all add: cb_demo_eval)

section \<open>Tripping and recovering\<close>

lemma cb_fail_run_snoc [simp]:
  "cb_fail_run cb m ep [] = cb"
  "cb_fail_run cb m ep (xs @ [(t, st)]) =
     cb_record_failure (cb_fail_run cb m ep xs) t True (Some m) (Some ep) st"
  by (simp_all add: cb_fail_run_def)

lemma cb_fail_step:
  assumes "cb_inv cb" "cb_short (m, ep)" "cb_counts_status st"
    "ce_state (cb_eff cb (m, ep) t) = CB_CLOSED"
  shows "cb_inv (cb_record_failure cb t True (Some m) (Some ep) st) \<and>
    cb_params_eq cb (cb_record_failure cb t True (Some m) (Some ep) st) \<and>
    (\<exists>e. cb_view (cb_record_failure cb t True (Some m) (Some ep) st) (m, ep) = Some e \<and>
       ce_consecutive_failures e = ce_consecutive_failures (cb_eff cb (m, ep) t) + 1 \<and>
       (if ce_consecutive_failures e < cb_failure_threshold cb then ce_state e = CB_CLOSED
        else ce_state e = CB_OPEN \<and> ce_open_until e = t + cb_cooloff_sec cb))"
  using cb_record_failure_view [OF assms(1-3) cb_get_or_create_ok, of t] assms(4)
  by (simp add: cb_failure_entry_def Let_def)

lemma cb_fail_run_closed:
  assumes "cb_inv cb" "cb_short (m, ep)" "\<forall>(t, st) \<in> set xs. cb_counts_status st"
    and "\<And>t. ce_state (cb_eff cb (m, ep) t) = CB_CLOSED \<and> ce_consecutive_failures (cb_eff cb (m, ep) t) = 0"
    and "int (length xs) < cb_failure_threshold cb"
  shows "cb_inv (cb_fail_run cb m ep xs) \<and> cb_params_eq cb (cb_fail_run cb m ep xs) \<and>
    (\<forall>t. ce_state (cb_eff (cb_fail_run cb m ep xs) (m, ep) t) = CB_CLOSED \<and>
      ce_consecutive_failures (cb_eff (cb_fail_run cb m ep xs) (m, ep) t) = int (length xs))"
  using assms(3,5)
proof (induction xs rule: rev_induct)
  case Nil
  with assms show ?case by simp
next
  case (snoc x xs)
  obtain t st where x: "x = (t, st)" by (cases x)
  let ?c = "cb_fail_run cb m ep xs"
  from snoc have ih: "cb_inv ?c" "cb_params_eq cb ?c"
    "ce_state (cb_eff ?c (m, ep) t) = CB_CLOSED"
    "ce_consecutive_failures (cb_eff ?c (m, ep) t) = int (length xs)" by auto
  from snoc.prems x have "cb_counts_status st" "int (length xs) + 1 < cb_failure_threshold ?c"
    using ih(2) by (auto simp: cb_params_eqD)
  with cb_fail_step [OF ih(1) assms(2) _ ih(3)] ih(2,4) x show ?case
    by (fastforce simp: cb_params_eq_def cb_advance_def cb_cooloff_expired_def)
qed

text \<open>C29. An endpoint that is closed with no failures, or new, stays closed and counts every
  failure while they are fewer than the threshold, and the failure that reaches the threshold
  opens it until the cool-off after that failure.\<close>

theorem breaker_trips_at_threshold:
  assumes "cb_inv cb" and "cb_short (m, ep)"
    and "case cb_view cb (m, ep) of None \<Rightarrow> True
         | Some e \<Rightarrow> ce_state e = CB_CLOSED \<and> ce_consecutive_failures e = 0"
    and "\<forall>(t, st) \<in> set xs. cb_counts_status st" and "cb_counts_status st"
    and "int (length xs) < cb_failure_threshold cb"
  shows "\<exists>e. cb_view (cb_fail_run cb m ep (xs @ [(t, st)])) (m, ep) = Some e \<and>
    (if int (length xs) + 1 < cb_failure_threshold cb
     then ce_state e = CB_CLOSED \<and> ce_consecutive_failures e = int (length xs) + 1
     else ce_state e = CB_OPEN \<and> ce_open_until e = t + cb_cooloff_sec cb)"
proof -
  have "ce_state (cb_eff cb (m, ep) t') = CB_CLOSED \<and> ce_consecutive_failures (cb_eff cb (m, ep) t') = 0" for t'
    using assms(3) by (auto simp: cb_eff_def cb_advance_def cb_cooloff_expired_def cb_fresh_def
        cb_new_entry_def split: option.splits)
  from cb_fail_run_closed [OF assms(1,2,4) this assms(6)]
  have *: "cb_inv (cb_fail_run cb m ep xs)" "cb_params_eq cb (cb_fail_run cb m ep xs)"
    "ce_state (cb_eff (cb_fail_run cb m ep xs) (m, ep) t) = CB_CLOSED"
    "ce_consecutive_failures (cb_eff (cb_fail_run cb m ep xs) (m, ep) t) = int (length xs)" by auto
  from cb_fail_step [OF *(1) assms(2,5) *(3)] *(2,4) show ?thesis
    by (auto simp: cb_params_eqD)
qed

theorem breaker_trips_at_threshold_witness:
  "\<exists>e. cb_view (cb_fail_run (cb_demo CB_CLOSED) ''gpt'' ''eu'' [(101, 500), (102, 429), (105, 0)]) (''gpt'', ''eu'') = Some e \<and>
    ce_state e = CB_OPEN \<and> ce_open_until e = 135"
  using breaker_trips_at_threshold [OF cb_demo_facts(1), of "''gpt''" "''eu''" CB_CLOSED "[(101, 500), (102, 429)]" 0 105]
  by (simp add: cb_demo_facts cb_demo_eval cb_short_def cb_counts_status_def)

lemma cb_success_probe:
  "ce_state e = CB_HALF_OPEN \<Longrightarrow>
   ce_state (cb_success_entry e) = CB_CLOSED \<and> ce_consecutive_failures (cb_success_entry e) = 0"
  by (simp add: cb_success_entry_def Let_def)

lemma cb_run_closed:
  assumes "cb_inv cb" "\<not> cb_pool cb" "cb_view cb (m, ep) = Some e" "ce_state e = CB_CLOSED"
  shows "cb_allow_run r cb m ep ts = replicate (length ts) True"
  using assms(1-3)
proof (induction ts arbitrary: cb)
  case Nil
  then show ?case by simp
next
  case (Cons t ts)
  from cb_allow_known [OF Cons.prems(1,2) cb_view_short [OF Cons.prems(1,3)] Cons.prems(3), of r t True]
    assms(4) obtain cb' where "cb_allow_request cb r t True (Some m) (Some ep) = (cb', True)"
    "cb_inv cb'" "cb_params_eq cb cb'" "cb_view cb' (m, ep) = Some e"
    by (auto simp: cb_advance_def cb_cooloff_expired_def cb_allow_entry_def)
  with Cons.IH [of cb'] Cons.prems(2) show ?case by (simp add: cb_params_eqD)
qed

text \<open>The probe decides: after a success reported for a half-open endpoint every request is
  let through again, and after a failure at time \<open>t\<close> every request before \<open>t\<close> plus the cool-off
  is refused.\<close>

theorem breaker_probe_decides:
  assumes "cb_inv cb" and "\<not> cb_pool cb" and "cb_view cb (m, ep) = Some e"
    and "ce_state e = CB_HALF_OPEN" and "cb_counts_status st"
    and "\<forall>x \<in> set ts. x < t + cb_cooloff_sec cb"
  shows "cb_allow_run r (cb_record_success cb (Some m) (Some ep)) m ep us = replicate (length us) True \<and>
    cb_allow_run r (cb_record_failure cb t al (Some m) (Some ep) st) m ep ts = replicate (length ts) False"
proof
  let ?s = "cb_record_success cb (Some m) (Some ep)"
  from cb_record_success_view [OF assms(1,3)] assms(2)
  have "cb_inv ?s" "\<not> cb_pool ?s" "cb_view ?s (m, ep) = Some (cb_success_entry e)"
    by (auto simp: cb_params_eq_def)
  with cb_success_probe [OF assms(4)] show "cb_allow_run r ?s m ep us = replicate (length us) True"
    using cb_run_closed by blast
next
  let ?c = "cb_record_failure cb t al (Some m) (Some ep) st"
  have "cb_get_or_create cb al (Some m) (Some ep) \<noteq> None"
    using cb_existing_view [OF assms(1,3), of al] by auto
  from cb_record_failure_view [OF assms(1) cb_view_short [OF assms(1,3)] assms(5) this, of t] assms(3,4)
  obtain e' where c: "cb_inv ?c" "cb_params_eq cb ?c" "cb_view ?c (m, ep) = Some e'"
    "ce_state e' = CB_OPEN" "ce_open_until e' = t + cb_cooloff_sec cb"
    by (auto simp: cb_advance_def cb_cooloff_expired_def cb_failure_entry_def)
  from assms(6) show "cb_allow_run r ?c m ep ts = replicate (length ts) False"
  proof (induction ts)
    case (Cons x xs)
    with breaker_open_step [OF c(1) _ c(3,4), of x r True] c(2,5) assms(2) show ?case
      by (simp add: cb_params_eqD)
  qed simp
qed

theorem breaker_probe_decides_witness:
  "cb_allow_run (\<lambda>_ _ _ _. None) (cb_record_success (cb_demo CB_HALF_OPEN) (Some ''gpt'') (Some ''eu'')) ''gpt'' ''eu'' [200, 201]
     = [True, True] \<and>
   cb_allow_run (\<lambda>_ _ _ _. None) (cb_record_failure (cb_demo CB_HALF_OPEN) 200 True (Some ''gpt'') (Some ''eu'') 503) ''gpt'' ''eu''
     [201, 229] = [False, False]"
  using breaker_probe_decides [OF cb_demo_facts(1) _ cb_demo_facts(5), of CB_HALF_OPEN 503 "[201, 229]" 200 "\<lambda>_ _ _ _. None" "[200, 201]" True]
  by (simp add: cb_demo_facts cb_demo_eval cb_counts_status_def numeral_2_eq_2)

section \<open>Isolation and reachability\<close>

lemma cb_none_created: "cb_get_or_create cb al (Some m) (Some ep) = None \<Longrightarrow> cb_find_entry cb (Some m) (Some ep) = None"
  by (simp add: cb_get_or_create_def split: option.splits)

lemma cb_view_other_get_state:
  assumes "cb_inv cb" "k \<noteq> (m, ep)"
  shows "cb_view (fst (cb_get_state cb now (Some m) (Some ep))) k = cb_view cb k"
proof (cases "cb_find_entry cb (Some m) (Some ep)")
  case (Some l)
  then have "cb_place cb (m, ep) l" by (simp add: cb_place_def)
  from cb_update_view [OF assms(1) this, of now] assms(2) Some show ?thesis
    by (simp add: cb_get_state_def Let_def)
qed (simp add: cb_get_state_def)

lemma cb_view_cong: "cb_buckets a = cb_buckets b \<Longrightarrow> cb_view a k = cb_view b k"
proof -
  assume 1: "cb_buckets a = cb_buckets b"
  then have "cb_entry_at a = cb_entry_at b" "cb_find_entry a = cb_find_entry b"
    by (intro ext, simp add: cb_entry_at_def cb_find_entry_def)+
  then show ?thesis by (simp add: cb_view_def)
qed

lemma cb_configure_sla_buckets [simp]: "cb_buckets (cb_configure_sla cb al m tt p w v fb) = cb_buckets cb"
  by (simp add: cb_configure_sla_def Let_def split: option.splits)

text \<open>Operations on one endpoint, and changes of the configuration, leave the entry of every
  other endpoint as it was.\<close>

theorem breaker_isolation:
  assumes inv: "cb_inv cb" and key: "\<forall>k'. cb_op_key oper = Some k' \<longrightarrow> cb_short k' \<and> k' \<noteq> k"
    and "oper \<noteq> OpReset"
  shows "cb_view (cb_do r cb oper) k = cb_view cb k"
proof (cases oper)
  case (OpAllow now al m ep)
  with key have k: "cb_short (m, ep)" "k \<noteq> (m, ep)" by auto
  have "cb_view (fst (cb_allow_local cb now al m ep)) k = cb_view cb k"
    using cb_allow_local_view [OF inv k(1), of al now] k(2)
    by (cases "cb_get_or_create cb al (Some m) (Some ep)") (auto simp: cb_allow_local_def)
  with OpAllow show ?thesis by (auto simp: cb_allow_request_def split: option.splits)
next
  case (OpSuccess m ep)
  with key have k: "k \<noteq> (m, ep)" by auto
  show ?thesis
  proof (cases "cb_view cb (m, ep)")
    case None
    with OpSuccess show ?thesis by (auto simp: cb_view_def cb_record_success_def)
  next
    case (Some e)
    from cb_record_success_view [OF inv Some] k OpSuccess show ?thesis by simp
  qed
next
  case (OpFailure now al m ep st)
  with key have k: "cb_short (m, ep)" "k \<noteq> (m, ep)" by auto
  show ?thesis
    using cb_record_failure_view [OF inv k(1), of st al now] k(2) OpFailure
    by (cases "cb_get_or_create cb al (Some m) (Some ep)"; cases "cb_counts_status st")
       (auto simp: cb_record_failure_def)
next
  case (OpSla now al m ep tt la)
  with key have k: "cb_short (m, ep)" "k \<noteq> (m, ep)" by auto
  show ?thesis
    using cb_record_sla_sample_view [OF inv k(1), of _ al now tt la] k(2) OpSla
    by (cases "cb_get_or_create cb al (Some m) (Some ep)"; cases "cb_find_sla_cfg cb m")
       (auto simp: cb_record_sla_sample_def)
next
  case (OpOverride now al m ep st)
  with key have k: "cb_short (m, ep)" "k \<noteq> (m, ep)" by auto
  show ?thesis
    using cb_override_state_view [OF inv k(1), of al now st] k(2) OpOverride
    by (cases "cb_get_or_create cb al (Some m) (Some ep)") (auto simp: cb_override_state_def)
next
  case (OpQuery now m ep)
  with key cb_view_other_get_state [OF inv, of k m ep now] show ?thesis by auto
next
  case (OpConfigureSla al m tt p w v fb)
  then show ?thesis by (simp add: cb_view_cong [of "cb_configure_sla cb al (Some m) tt p w v fb" cb])
next
  case (OpSetParams t c)
  moreover have "cb_buckets (cb_set_params cb t c) = cb_buckets cb" by (simp add: cb_set_params_def Let_def)
  ultimately show ?thesis by (simp add: cb_view_cong [of "cb_set_params cb t c" cb])
qed (use assms in simp)

theorem breaker_isolation_witness:
  "cb_view (cb_do (\<lambda>_ _ _ _. None) (cb_demo CB_OPEN) (OpFailure 101 True ''gpt'' ''us'' 500)) (''gpt'', ''eu'')
     = cb_view (cb_demo CB_OPEN) (''gpt'', ''eu'')"
  by (rule breaker_isolation [OF cb_demo_facts(1)]) (auto simp: cb_short_def)

text \<open>Every state a breaker can reach from its creation, by any operations at any times with
  any allocation failures, is well formed: 64 buckets, sample rings of 128 slots with their head
  and count in range, windows between 1 and 128, names within their buffers, a positive
  threshold.\<close>

theorem breaker_reachable_inv:
  assumes "cb_reachable r cb"
  shows "cb_inv cb"
  using assms by (induction rule: cb_reachable.induct) (auto intro: cb_do_inv cb_create_inv)

theorem breaker_reachable_inv_witness: "cb_inv (cb_do (\<lambda>_ _ _ _. None) (the (cb_create True)) OpReset)"
  by (rule breaker_reachable_inv, rule cb_step, rule cb_init) (simp add: cb_create_def)

section \<open>Names longer than their buffers\<close>

definition cb_entry_count :: "circuit_breaker \<Rightarrow> nat" where
  "cb_entry_count cb = sum_list (map length (cb_buckets cb))"

lemma cb_find_long:
  assumes "cb_inv cb" "128 \<le> length m"
  shows "cb_find_entry cb (Some m) ep = None"
proof (rule ccontr)
  assume "cb_find_entry cb (Some m) ep \<noteq> None"
  then obtain l where l: "cb_find_entry cb (Some m) ep = Some l" by auto
  from cb_find_entry_SomeD [OF assms(1) l] cb_entry_at_ok [OF assms(1), of l] have
    "length m < 128" by (simp add: cb_entry_ok_def)
  with assms(2) show False by simp
qed

lemma cb_fail_run_inv: "cb_inv cb \<Longrightarrow> cb_inv (cb_fail_run cb m ep xs)"
  by (induction xs rule: rev_induct) (auto intro: inv_intros)

lemma cb_record_failure_params [simp]: "cb_params_eq cb (cb_record_failure cb t al m ep st)"
proof (cases "cb_get_or_create cb al m ep")
  case (Some x)
  then obtain cb1 l where "cb_get_or_create cb al m ep = Some (cb1, l)" by (cases x) auto
  with cb_get_or_create_params [OF this] show ?thesis by (simp add: cb_record_failure_def Let_def)
qed (simp add: cb_record_failure_def)

lemma cb_fail_run_pool [simp]: "cb_pool (cb_fail_run cb m ep xs) = cb_pool cb"
proof (induction xs rule: rev_induct)
  case (snoc x xs)
  obtain t st where "x = (t, st)" by (cases x)
  with snoc cb_params_eqD(3) [OF cb_record_failure_params] show ?case by simp
qed simp

lemma cb_allow_local_long:
  assumes inv: "cb_inv cb" and long: "128 \<le> length m"
  shows "\<exists>cb'. cb_allow_local cb now True m ep = (cb', True) \<and> cb_entry_count cb' = cb_entry_count cb + 1"
proof -
  let ?i = "cb_hash_key (Some m) (Some ep)"
  let ?n = "cb_new_entry (Some m) (Some ep)"
  from inv have i: "?i < length (cb_buckets cb)" by (simp add: cb_inv_def)
  let ?c = "cb\<lparr>cb_buckets := (cb_buckets cb)[?i := ?n # cb_buckets cb ! ?i]\<rparr>"
  have go: "cb_get_or_create cb True (Some m) (Some ep) = Some (?c, (?i, 0))"
    using cb_find_long [OF inv long, of "Some ep"] by (simp add: cb_get_or_create_def Let_def)
  have at: "cb_entry_at ?c (?i, 0) = ?n" using i by (simp add: cb_entry_at_def)
  then have "cb_allow_local cb now True m ep = (cb_put_entry ?c (?i, 0) ?n, True)"
    using go by (simp add: cb_allow_local_def cb_update_state_on_time_def cb_cooloff_expired_def
      cb_allow_entry_def cb_new_entry_def)
  moreover have "cb_put_entry ?c (?i, 0) ?n = ?c"
    using i by (simp add: cb_put_entry_def)
  moreover have "cb_entry_count ?c = cb_entry_count cb + 1"
    using i by (simp add: cb_entry_count_def map_update sum_list_update)
  ultimately show ?thesis by simp
qed

text \<open>The breaker never trips for a model whose name has 128 characters or more: the entry
  keeps 127 of them and no later search finds it, so after any number of failures every request
  is let through, and each call leaves one more entry behind.\<close>

theorem breaker_long_model_never_trips:
  assumes "cb_inv cb" and "\<not> cb_pool cb" and "128 \<le> length m"
  shows "\<exists>cb'. cb_allow_request (cb_fail_run cb m ep xs) r now True (Some m) (Some ep) = (cb', True) \<and>
    cb_entry_count cb' = cb_entry_count (cb_fail_run cb m ep xs) + 1"
  using cb_allow_local_long [OF cb_fail_run_inv [OF assms(1)] assms(3), of m ep xs now ep] assms(2)
  by (auto simp: cb_allow_request_def)

theorem breaker_long_model_never_trips_witness:
  "\<exists>cb'. cb_allow_request (cb_fail_run (cb_demo CB_CLOSED) (replicate 128 CHR ''m'') ''eu'' (replicate 1000 (101, 500)))
       (\<lambda>_ _ _ _. None) 102 True (Some (replicate 128 CHR ''m'')) (Some ''eu'') = (cb', True) \<and>
    cb_entry_count cb' = cb_entry_count (cb_fail_run (cb_demo CB_CLOSED) (replicate 128 CHR ''m'') ''eu'' (replicate 1000 (101, 500))) + 1"
  by (rule breaker_long_model_never_trips [OF cb_demo_facts(1)]) (simp_all add: cb_demo_facts)

section \<open>The shared breaker\<close>

text \<open>The Redis key is the hash reduced to a bucket index, so there are 64 keys for all
  endpoints of all models: among any 65 endpoints two share one distributed breaker, and with the
  Redis pool they get the same answer from it.\<close>

theorem breaker_redis_keys_collide:
  assumes "distinct ks" and "64 < length ks" and "cb_pool cb"
    and "\<And>key. r RAllow key (cb_failure_threshold cb) (cb_cooloff_sec cb * 1000) \<noteq> None"
  shows "\<exists>k1 \<in> set ks. \<exists>k2 \<in> set ks. k1 \<noteq> k2 \<and>
    cb_redis_key (fst k1) (snd k1) = cb_redis_key (fst k2) (snd k2) \<and>
    cb_allow_request cb r now al (Some (fst k1)) (Some (snd k1)) =
    cb_allow_request cb r now al (Some (fst k2)) (Some (snd k2))"
proof -
  let ?h = "\<lambda>k. cb_hash_key (Some (fst k)) (Some (snd k))"
  have "card (?h ` set ks) \<le> card {..<CB_BUCKETS}" by (rule card_mono) auto
  with assms(1,2) have "card (?h ` set ks) < card (set ks)"
    by (simp add: CB_BUCKETS_def distinct_card)
  then have "\<not> inj_on ?h (set ks)" by (metis card_image less_irrefl)
  then obtain k1 k2 where k: "k1 \<in> set ks" "k2 \<in> set ks" "k1 \<noteq> k2" "?h k1 = ?h k2"
    by (auto simp: inj_on_def)
  then have key: "cb_redis_key (fst k1) (snd k1) = cb_redis_key (fst k2) (snd k2)"
    by (simp add: cb_redis_key_def)
  obtain a b where "r RAllow (cb_redis_key (fst k2) (snd k2)) (cb_failure_threshold cb) (cb_cooloff_sec cb * 1000)
      = Some (a, b)" using assms(4) by fastforce
  with key assms(3) have "cb_allow_request cb r now al (Some (fst k1)) (Some (snd k1)) =
      cb_allow_request cb r now al (Some (fst k2)) (Some (snd k2))"
    by (simp add: cb_allow_request_def redis_cb_call_def)
  with k key show ?thesis by blast
qed

theorem breaker_redis_keys_collide_witness:
  "\<exists>k1 \<in> set (map (\<lambda>i. (''gpt'', replicate i CHR ''e'')) [0..<65]). \<exists>k2 \<in> set (map (\<lambda>i. (''gpt'', replicate i CHR ''e'')) [0..<65]).
    k1 \<noteq> k2 \<and> cb_redis_key (fst k1) (snd k1) = cb_redis_key (fst k2) (snd k2) \<and>
    cb_allow_request (cb_set_redis_pool (cb_demo CB_OPEN) True) (\<lambda>_ _ _ _. Some (0, 1)) 7 True (Some (fst k1)) (Some (snd k1)) =
    cb_allow_request (cb_set_redis_pool (cb_demo CB_OPEN) True) (\<lambda>_ _ _ _. Some (0, 1)) 7 True (Some (fst k2)) (Some (snd k2))"
proof (rule breaker_redis_keys_collide)
  have "inj_on (\<lambda>i. (''gpt'', replicate i CHR ''e'')) (set [0..<65])"
    by (rule inj_onI) (metis length_replicate snd_conv)
  then show "distinct (map (\<lambda>i. (''gpt'', replicate i CHR ''e'')) [0..<65])"
    by (simp add: distinct_map)
qed (simp_all add: cb_set_redis_pool_def)

end
