(* ===== verification/Ring.thy ===== *)
theory Ring
  imports Prelude
begin

text \<open>
  The sample rings of the sources (SLA samples of the breaker, latency samples): an array, a
  write index and a count that stops at the window size. The contents are read oldest first;
  writing a sample appends it and, once the window is full, drops the oldest.
\<close>

definition ring_contents :: "'a list \<Rightarrow> nat \<Rightarrow> nat \<Rightarrow> 'a list" where
  "ring_contents slots head cnt = drop head (take cnt slots) @ take head slots"

definition ring_ok :: "nat \<Rightarrow> 'a list \<Rightarrow> nat \<Rightarrow> nat \<Rightarrow> bool" where
  "ring_ok w slots head cnt \<longleftrightarrow>
     0 < w \<and> w \<le> length slots \<and> head < w \<and> cnt \<le> w \<and> (cnt < w \<longrightarrow> head = cnt)"

text \<open>The last \<open>n\<close> elements of a list.\<close>

definition last_n :: "nat \<Rightarrow> 'a list \<Rightarrow> 'a list" where
  "last_n n xs = drop (length xs - n) xs"

lemma last_n_all [simp]: "length xs \<le> n \<Longrightarrow> last_n n xs = xs"
  by (simp add: last_n_def)

lemma length_last_n [simp]: "length (last_n n xs) = min n (length xs)"
  by (simp add: last_n_def min_def)

lemma last_n_snoc: "0 < n \<Longrightarrow> last_n n (last_n n xs @ [x]) = last_n n (xs @ [x])"
proof (cases "length xs \<le> n")
  case False
  then have "length xs - n < length xs" if "0 < n" using that by simp
  with False show "0 < n \<Longrightarrow> ?thesis" by (simp add: last_n_def Suc_diff_le drop_Suc [of 0, simplified] drop_drop Suc_diff_le)
qed simp

lemma last_n_full: "0 < length ys \<Longrightarrow> last_n (length ys) (ys @ [x]) = tl (ys @ [x])"
  by (cases ys) (simp_all add: last_n_def)

lemma ring_init: "0 < w \<Longrightarrow> w \<le> length slots \<Longrightarrow> ring_ok w slots 0 0 \<and> ring_contents slots 0 0 = []"
  by (simp add: ring_ok_def ring_contents_def)

lemma length_ring_contents: "ring_ok w slots head cnt \<Longrightarrow> length (ring_contents slots head cnt) = cnt"
  by (auto simp: ring_ok_def ring_contents_def min_def)

text \<open>The contents are the first \<open>cnt\<close> slots, rotated.\<close>

lemma mset_ring_contents:
  "ring_ok w slots head cnt \<Longrightarrow> length (filter P (ring_contents slots head cnt)) = length (filter P (take cnt slots))"
proof -
  assume ok: "ring_ok w slots head cnt"
  then have "head \<le> cnt" by (auto simp: ring_ok_def)
  then have "take cnt slots = take head slots @ drop head (take cnt slots)"
    by (metis append_take_drop_id min.absorb1 take_take)
  then have "length (filter P (take cnt slots)) =
    length (filter P (take head slots)) + length (filter P (drop head (take cnt slots)))"
    by (metis filter_append length_append)
  then show ?thesis by (simp add: ring_contents_def)
qed

lemma take_update_snoc: "n < length xs \<Longrightarrow> take (Suc n) (xs[n := x]) = take n xs @ [x]"
  by (simp add: take_Suc_conv_app_nth)

lemma ring_push:
  fixes x :: 'a
  assumes ok: "ring_ok w slots head cnt"
  defines "slots' \<equiv> slots[head := x]" and "head' \<equiv> (head + 1) mod w"
    and "cnt' \<equiv> (if cnt < w then cnt + 1 else cnt)"
  shows "ring_ok w slots' head' cnt' \<and>
    ring_contents slots' head' cnt' = last_n w (ring_contents slots head cnt @ [x])"
proof -
  from ok have len: "head < length slots" by (simp add: ring_ok_def)
  have ok': "ring_ok w slots' head' cnt'"
    using ok by (auto simp: ring_ok_def slots'_def head'_def cnt'_def mod_Suc)
  have c: "length (ring_contents slots head cnt) = cnt" by (rule length_ring_contents [OF ok])
  show ?thesis
  proof (cases "cnt < w")
    case True
    with ok have h: "head = cnt" by (simp add: ring_ok_def)
    then have old: "ring_contents slots head cnt = take cnt slots" by (simp add: ring_contents_def)
    have "ring_contents slots' head' cnt' = take cnt slots @ [x]"
      using True h len take_update_snoc [of cnt slots x] ok
      by (cases "Suc cnt = w") (auto simp: ring_contents_def slots'_def head'_def cnt'_def ring_ok_def)
    with ok' old True c show ?thesis by simp
  next
    case False
    with ok have cw: "cnt = w" by (auto simp: ring_ok_def)
    have tl: "last_n w (ring_contents slots head cnt @ [x]) = tl (ring_contents slots head cnt @ [x])"
      using last_n_full [of "ring_contents slots head cnt" x] c cw ok
      by (cases "ring_contents slots head cnt") (simp_all add: ring_ok_def)
    have d: "drop head (take w slots) = slots ! head # drop (Suc head) (take w slots)"
      using ok by (subst Cons_nth_drop_Suc [symmetric]) (auto simp: ring_ok_def)
    have old: "tl (ring_contents slots head cnt @ [x]) = drop (Suc head) (take w slots) @ take head slots @ [x]"
      using d cw by (simp add: ring_contents_def)
    have "ring_contents slots' head' cnt' = drop (Suc head) (take w slots) @ take head slots @ [x]"
    proof (cases "Suc head = w")
      case True
      then show ?thesis using cw len take_update_snoc [of head slots x]
        by (simp add: ring_contents_def slots'_def head'_def cnt'_def)
    next
      case False
      with ok have "head' = Suc head" by (auto simp: head'_def ring_ok_def)
      then show ?thesis using cw len take_update_snoc [of head slots x]
        by (simp add: ring_contents_def slots'_def cnt'_def take_update_swap drop_update_cancel)
    qed
    with ok' tl old show ?thesis by simp
  qed
qed

section \<open>Logs in a ring\<close>

text \<open>The newest \<open>k\<close> elements, newest first, as the snapshot caches list them.\<close>

definition ring_latest :: "'a list \<Rightarrow> nat \<Rightarrow> nat \<Rightarrow> nat \<Rightarrow> 'a list" where
  "ring_latest slots head cnt k = map (\<lambda>i. slots ! ((head + length slots - 1 - i) mod length slots)) [0..<min cnt k]"

lemma ring_latest_contents:
  assumes "ring_ok (length slots) slots head cnt"
  shows "ring_latest slots head cnt k = take k (rev (ring_contents slots head cnt))"
proof (rule nth_equalityI)
  have len: "length (ring_contents slots head cnt) = cnt" by (rule length_ring_contents [OF assms])
  then show "length (ring_latest slots head cnt k) = length (take k (rev (ring_contents slots head cnt)))" by (simp add: ring_latest_def)
  fix i assume "i < length (ring_latest slots head cnt k)"
  then have i: "i < cnt" "i < k" by (simp_all add: ring_latest_def)
  have b: "cnt \<le> length slots" "head < length slots" "cnt < length slots \<longrightarrow> head = cnt" using assms by (auto simp: ring_ok_def)
  have "ring_contents slots head cnt ! (cnt - Suc i) = slots ! ((head + length slots - 1 - i) mod length slots)"
  proof (cases "i < head")
    case True
    have "head + length slots - 1 - i = (head - 1 - i) + length slots" using True by simp
    then have "(head + length slots - 1 - i) mod length slots = (head - 1 - i) mod length slots" by (simp only: mod_add_self2)
    also have "\<dots> = head - 1 - i" using b by (intro mod_less) linarith
    finally have m: "(head + length slots - 1 - i) mod length slots = head - 1 - i" .
    have l: "length (drop head (take cnt slots)) = cnt - head" using b by simp
    have "head \<le> cnt" using b by (cases "cnt < length slots") auto
    then have "\<not> cnt - Suc i < cnt - head" "cnt - Suc i - (cnt - head) = head - 1 - i" using True i by linarith+
    then show ?thesis using True l m by (simp add: ring_contents_def nth_append)
  next
    case False
    with i b have full: "cnt = length slots" by (metis le_neq_implies_less leI order.strict_trans2)
    with False i b have "(head + length slots - 1 - i) mod length slots = head + length slots - 1 - i" by simp
    with False i b full show ?thesis by (simp add: ring_contents_def nth_append)
  qed
  with i len show "ring_latest slots head cnt k ! i = take k (rev (ring_contents slots head cnt)) ! i"
    by (simp add: ring_latest_def rev_nth)
qed

text \<open>A log that keeps its newest entries in such a ring.\<close>

locale ring_log =
  fixes record_entry :: "'s \<Rightarrow> 'a \<Rightarrow> 's" and items :: "'s \<Rightarrow> 'a list" and pos :: "'s \<Rightarrow> nat" and cnt :: "'s \<Rightarrow> nat"
  assumes record_items: "items (record_entry s x) = (items s)[pos s := x]"
    and record_pos: "pos (record_entry s x) = (pos s + 1) mod length (items s)"
    and record_cnt: "cnt (record_entry s x) = (if cnt s < length (items s) then cnt s + 1 else cnt s)"
begin

definition contents :: "'s \<Rightarrow> 'a list" where
  "contents s = ring_contents (items s) (pos s) (cnt s)"

lemma record_contents:
  assumes "ring_ok (length (items s)) (items s) (pos s) (cnt s)"
  shows "length (items (record_entry s x)) = length (items s)"
    and "ring_ok (length (items s)) (items (record_entry s x)) (pos (record_entry s x)) (cnt (record_entry s x))"
    and "contents (record_entry s x) = last_n (length (items s)) (contents s @ [x])"
  using ring_push [OF assms, of x] by (simp_all add: record_items record_pos record_cnt contents_def)

lemma run_contents:
  "ring_ok (length (items s)) (items s) (pos s) (cnt s) \<Longrightarrow> length (items (foldl record_entry s xs)) = length (items s) \<and>
     ring_ok (length (items s)) (items (foldl record_entry s xs)) (pos (foldl record_entry s xs)) (cnt (foldl record_entry s xs)) \<and>
     contents (foldl record_entry s xs) = last_n (length (items s)) (contents s @ xs)"
proof (induction xs rule: rev_induct)
  case Nil
  then have "length (contents s) \<le> length (items s)" using length_ring_contents [OF Nil] by (simp add: contents_def ring_ok_def)
  with Nil show ?case by simp
next
  case (snoc x xs)
  then have n: "0 < length (items s)" by (simp add: ring_ok_def)
  let ?s = "foldl record_entry s xs"
  from snoc have "ring_ok (length (items ?s)) (items ?s) (pos ?s) (cnt ?s)" by simp
  note r = record_contents [OF this, of x]
  from snoc have h: "length (items ?s) = length (items s)" "contents ?s = last_n (length (items s)) (contents s @ xs)" by simp_all
  from r(3) h have "contents (foldl record_entry s (xs @ [x])) = last_n (length (items s)) (last_n (length (items s)) (contents s @ xs) @ [x])"
    by simp
  with r h n show ?case by (simp add: last_n_snoc)
qed

lemma latest_of_run:
  assumes "items s = replicate n x0" "0 < n" "pos s = 0" "cnt s = 0"
  shows "ring_latest (items (foldl record_entry s xs)) (pos (foldl record_entry s xs)) (cnt (foldl record_entry s xs)) k =
    take k (rev (last_n n xs))"
proof -
  have ok: "ring_ok (length (items s)) (items s) (pos s) (cnt s)" using assms by (simp add: ring_ok_def)
  have "contents s = []" using assms by (simp add: contents_def ring_contents_def)
  with run_contents [OF ok, of xs] have "ring_ok n (items (foldl record_entry s xs)) (pos (foldl record_entry s xs)) (cnt (foldl record_entry s xs))"
    "contents (foldl record_entry s xs) = last_n n xs" "length (items (foldl record_entry s xs)) = n" using assms by simp_all
  with ring_latest_contents [of "items (foldl record_entry s xs)"] show ?thesis by (simp add: contents_def)
qed

end

section \<open>Queues in a ring\<close>

text \<open>A bounded queue: the array, the index of the oldest element and their number; the next
  element goes to the index after the newest, modulo the length of the array.\<close>

definition queue_contents :: "'a list \<Rightarrow> nat \<Rightarrow> nat \<Rightarrow> 'a list" where
  "queue_contents slots head cnt = map (\<lambda>i. slots ! ((head + i) mod length slots)) [0..<cnt]"

lemma length_queue_contents [simp]: "length (queue_contents slots head cnt) = cnt"
  by (simp add: queue_contents_def)

lemma queue_contents_0 [simp]: "queue_contents slots head 0 = []"
  by (simp add: queue_contents_def)

lemma queue_push:
  assumes "cnt < length slots"
  shows "queue_contents (slots[(head + cnt) mod length slots := x]) head (Suc cnt) =
    queue_contents slots head cnt @ [x]"
proof -
  have "(head + i) mod length slots \<noteq> (head + cnt) mod length slots" if "i < cnt" for i
  proof
    assume "(head + i) mod length slots = (head + cnt) mod length slots"
    then have "length slots dvd (head + cnt) - (head + i)"
      using that by (subst mod_eq_dvd_iff_nat [symmetric]) auto
    then have "length slots dvd cnt - i" by simp
    with that assms show False by (auto dest: dvd_imp_le)
  qed
  moreover have "(head + cnt) mod length slots < length slots"
    using assms by (intro mod_less_divisor) linarith
  ultimately show ?thesis
    by (simp add: queue_contents_def) (metis atLeastLessThan_iff nth_list_update_neq)
qed

lemma queue_pop:
  "queue_contents slots head (Suc cnt) =
    slots ! (head mod length slots) # queue_contents slots ((head + 1) mod length slots) cnt"
  by (simp add: queue_contents_def upt_conv_Cons map_Suc_upt [symmetric] mod_simps del: upt_Suc)

text \<open>Writing over the oldest element of a full queue.\<close>

lemma queue_overwrite:
  assumes "head < length slots"
  shows "queue_contents (slots[head := x]) ((head + 1) mod length slots) (length slots) =
    tl (queue_contents slots head (length slots)) @ [x]"
proof -
  obtain n where n: "length slots = Suc n" using assms by (cases "length slots") auto
  define h where "h = (head + 1) mod length slots"
  have "(h + n) mod length slots = (head + Suc n) mod length slots" by (simp add: h_def mod_simps)
  then have e: "(h + n) mod length slots = head" using assms n by (metis mod_add_self2 mod_less)
  have "queue_contents (slots[head := x]) h (Suc n) = queue_contents slots h n @ [x]"
    using queue_push [of n slots h x] n e by simp
  moreover have "tl (queue_contents slots head (Suc n)) = queue_contents slots h n"
    by (simp add: queue_pop h_def)
  ultimately show ?thesis by (simp add: n h_def)
qed

end
