(* ===== verification/Breaker_Sla.thy ===== *)
theory Breaker_Sla
  imports Breaker_Props Ring
begin

text \<open>
  SLA degradation of the breaker: the sample ring of an entry holds the last samples of its
  window, an entry is degraded exactly when their violation ratio is reached, and it recovers
  after a run of normal samples.
\<close>

definition cb_sla_run ::
  "circuit_breaker \<Rightarrow> string \<Rightarrow> string \<Rightarrow> (int \<times> nat \<times> nat) list \<Rightarrow> circuit_breaker" where
  "cb_sla_run cb m ep xs =
     foldl (\<lambda>c (now, tt, la). cb_record_sla_sample c now True (Some m) (Some ep) tt la) cb xs"

definition sample_of :: "int \<times> nat \<times> nat \<Rightarrow> sla_sample" where
  "sample_of x = (case x of (now, tt, la) \<Rightarrow> \<lparr>ss_ttft_ms = tt, ss_latency_ms = la\<rparr>)"

text \<open>The specification: a full window of samples whose violation ratio is reached.\<close>

definition window_bad :: "model_sla_cfg \<Rightarrow> sla_sample list \<Rightarrow> bool" where
  "window_bad cfg xs \<longleftrightarrow> sc_window_size cfg \<le> length xs \<and>
     real (length (filter (sla_violates cfg) (last_n (sc_window_size cfg) xs))) / real (sc_window_size cfg)
       \<ge> sc_violation_ratio cfg - 1 / 10000"

lemma cb_sla_run_snoc [simp]:
  "cb_sla_run cb m ep [] = cb"
  "cb_sla_run cb m ep (xs @ [(now, tt, la)]) =
     cb_record_sla_sample (cb_sla_run cb m ep xs) now True (Some m) (Some ep) tt la"
  by (simp_all add: cb_sla_run_def)

lemma cb_find_sla_cfg_cong:
  "cb_params_eq a b \<Longrightarrow> cb_find_sla_cfg b m = cb_find_sla_cfg a m"
  by (simp add: cb_find_sla_cfg_def cb_params_eq_def)

text \<open>An entry that is closed and holds the last samples of \<open>xs\<close>.\<close>

definition sla_tracks :: "model_sla_cfg \<Rightarrow> sla_sample list \<Rightarrow> cb_entry \<Rightarrow> bool" where
  "sla_tracks cfg xs e \<longleftrightarrow>
     ring_ok (sc_window_size cfg) (ce_samples e) (ce_sample_head e) (ce_sample_count e) \<and>
     ring_contents (ce_samples e) (ce_sample_head e) (ce_sample_count e) = last_n (sc_window_size cfg) xs"

lemma sla_tracks_push:
  assumes "sla_tracks cfg xs e" "0 < sc_window_size cfg"
  shows "sla_tracks cfg (xs @ [s]) (sla_push cfg s e)"
  using ring_push [of "sc_window_size cfg" "ce_samples e" "ce_sample_head e" "ce_sample_count e" s] assms
    last_n_snoc [of "sc_window_size cfg" xs s]
  by (simp add: sla_tracks_def sla_push_def)

lemma sla_tracks_bad:
  assumes "sla_tracks cfg xs e"
  shows "(ce_sample_count e \<ge> sc_window_size cfg \<and> sla_ratio_exceeded cfg e) \<longleftrightarrow> window_bad cfg xs"
proof -
  note 1 = assms [unfolded sla_tracks_def]
  from 1 length_ring_contents have c: "ce_sample_count e = min (sc_window_size cfg) (length xs)"
    by (metis length_last_n)
  from 1 mset_ring_contents have "sla_violations cfg e =
    length (filter (sla_violates cfg) (last_n (sc_window_size cfg) xs))"
    by (metis sla_violations_def)
  with c show ?thesis by (auto simp: window_bad_def sla_ratio_exceeded_def min_def split: if_splits)
qed

lemma sla_step_closed:
  fixes s :: sla_sample
  assumes "sla_tracks cfg xs e" "0 < sc_window_size cfg" "ce_state e = CB_CLOSED"
  defines "e' \<equiv> sla_decide cfg (sla_push cfg s e)"
  shows "sla_tracks cfg (xs @ [s]) e' \<and>
    ce_state e' = (if window_bad cfg (xs @ [s]) then CB_SLA_DEGRADED else CB_CLOSED)"
proof -
  let ?p = "sla_push cfg s e"
  note 1 = sla_tracks_push [OF assms(1,2), of s]
  have st: "ce_state ?p = CB_CLOSED" using assms(3) by (simp add: sla_push_def)
  have e': "e' = (if window_bad cfg (xs @ [s])
      then ?p\<lparr>ce_state := CB_SLA_DEGRADED, ce_consecutive_sla_normal := 0\<rparr> else ?p)"
    using st sla_tracks_bad [OF 1] by (simp add: e'_def sla_decide_def)
  with 1 st show ?thesis by (simp add: sla_tracks_def)
qed

lemma cb_sla_step:
  assumes "cb_inv cb" "cb_short (m, ep)" "cb_find_sla_cfg cb m = Some i"
    and "cfg = cb_sla_configs cb ! i" and "x = (now, tt, la)"
  shows "\<exists>cb'. cb' = cb_sla_run cb m ep [x] \<and> cb_inv cb' \<and> cb_params_eq cb cb' \<and> sla_cfg_ok cfg \<and>
    cb_view cb' (m, ep) = Some (sla_decide cfg (sla_push cfg (sample_of x) (cb_eff cb (m, ep) now)))"
  using cb_record_sla_sample_view [OF assms(1-3) cb_get_or_create_ok, of now tt la] assms(4,5)
  by (simp add: cb_sla_run_def sample_of_def)

lemma cb_sla_run_append: "cb_sla_run cb m ep (xs @ [x]) = cb_sla_run (cb_sla_run cb m ep xs) m ep [x]"
  by (simp add: cb_sla_run_def)

lemma cb_sla_run_closed:
  assumes "cb_inv cb" "cb_short (m, ep)" "cb_find_sla_cfg cb m = Some i" "cfg = cb_sla_configs cb ! i"
    and "\<And>t. ce_state (cb_eff cb (m, ep) t) = CB_CLOSED \<and> sla_tracks cfg [] (cb_eff cb (m, ep) t)"
    and "\<forall>n \<le> length xs. \<not> window_bad cfg (take n (map sample_of xs))"
  shows "cb_inv (cb_sla_run cb m ep xs) \<and> cb_params_eq cb (cb_sla_run cb m ep xs) \<and>
    (\<forall>t. ce_state (cb_eff (cb_sla_run cb m ep xs) (m, ep) t) = CB_CLOSED \<and>
         sla_tracks cfg (map sample_of xs) (cb_eff (cb_sla_run cb m ep xs) (m, ep) t))"
  using assms(6)
proof (induction xs rule: rev_induct)
  case Nil
  with assms show ?case by simp
next
  case (snoc x xs)
  let ?c = "cb_sla_run cb m ep xs"
  obtain now tt la where x: "x = (now, tt, la)" by (cases x)
  have "\<forall>n \<le> length xs. \<not> window_bad cfg (take n (map sample_of xs))"
  proof (intro allI impI)
    fix n
    assume "n \<le> length xs"
    with snoc.prems [THEN spec, of n] show "\<not> window_bad cfg (take n (map sample_of xs))" by simp
  qed
  from snoc.IH [OF this] have ih: "cb_inv ?c" "cb_params_eq cb ?c"
    "ce_state (cb_eff ?c (m, ep) now) = CB_CLOSED" "sla_tracks cfg (map sample_of xs) (cb_eff ?c (m, ep) now)"
    by auto
  from cb_find_sla_cfg_cong [OF ih(2)] assms(3) have i: "cb_find_sla_cfg ?c m = Some i" by simp
  have cfg: "cfg = cb_sla_configs ?c ! i" using assms(4) ih(2) by (simp add: cb_params_eq_def)
  obtain c' where c': "c' = cb_sla_run ?c m ep [x]" "cb_inv c'" "cb_params_eq ?c c'" "sla_cfg_ok cfg"
    "cb_view c' (m, ep) = Some (sla_decide cfg (sla_push cfg (sample_of x) (cb_eff ?c (m, ep) now)))"
    using cb_sla_step [OF ih(1) assms(2) i cfg x] by blast
  have nb: "\<not> window_bad cfg (map sample_of xs @ [sample_of x])"
    using snoc.prems [THEN spec, of "length xs + 1"] by simp
  from sla_step_closed [OF ih(4) _ ih(3), of "sample_of x"] c'(4) nb
  have "ce_state (the (cb_view c' (m, ep))) = CB_CLOSED"
    "sla_tracks cfg (map sample_of xs @ [sample_of x]) (the (cb_view c' (m, ep)))"
    using c'(5) by (auto simp: sla_cfg_ok_def)
  moreover have "cb_params_eq cb c'" using ih(2) c'(3) by (simp add: cb_params_eq_def)
  ultimately show ?case
    using c'(1,2,5) cb_sla_run_append [of cb m ep xs x]
    by (simp add: cb_advance_def cb_cooloff_expired_def)
qed

text \<open>An endpoint of a model with an SLA that starts closed and without samples stays closed
  until the window is full, and the sample after which the last window of samples first reaches
  the configured violation ratio degrades it.\<close>

theorem breaker_sla_degrades_exactly:
  assumes "cb_inv cb" and "cb_short (m, ep)" and "cb_find_sla_cfg cb m = Some i"
    and "cb_view cb (m, ep) = None"
    and "\<forall>n \<le> length xs. \<not> window_bad (cb_sla_configs cb ! i) (take n (map sample_of xs))"
  shows "\<exists>e. cb_view (cb_sla_run cb m ep (xs @ [x])) (m, ep) = Some e \<and>
    ce_state e = (if window_bad (cb_sla_configs cb ! i) (map sample_of (xs @ [x]))
                  then CB_SLA_DEGRADED else CB_CLOSED)"
proof -
  let ?cfg = "cb_sla_configs cb ! i" and ?c = "cb_sla_run cb m ep xs"
  obtain now tt la where x: "x = (now, tt, la)" by (cases x)
  from assms(1,3) have ok: "sla_cfg_ok ?cfg"
    by (auto simp: cb_inv_def cb_find_sla_cfg_def)
  have "ce_state (cb_eff cb (m, ep) t) = CB_CLOSED \<and> sla_tracks ?cfg [] (cb_eff cb (m, ep) t)" for t
    using assms(4) ok ring_init [of "sc_window_size ?cfg" "replicate CB_MAX_SLA_SAMPLES \<lparr>ss_ttft_ms = 0, ss_latency_ms = 0\<rparr>"]
    by (simp add: cb_eff_def cb_advance_def cb_cooloff_expired_def cb_fresh_def cb_new_entry_def
        sla_tracks_def sla_cfg_ok_def)
  from cb_sla_run_closed [OF assms(1-3) refl this assms(5)]
  have *: "cb_inv ?c" "cb_params_eq cb ?c" "ce_state (cb_eff ?c (m, ep) now) = CB_CLOSED"
    "sla_tracks ?cfg (map sample_of xs) (cb_eff ?c (m, ep) now)" by auto
  from cb_find_sla_cfg_cong [OF *(2)] assms(3) have i: "cb_find_sla_cfg ?c m = Some i" by simp
  have cfg: "?cfg = cb_sla_configs ?c ! i" using *(2) by (simp add: cb_params_eq_def)
  from cb_sla_step [OF *(1) assms(2) i cfg x] sla_step_closed [OF *(4) _ *(3), of "sample_of x"] ok
    cb_sla_run_append [of cb m ep xs x] show ?thesis by (auto simp: sla_cfg_ok_def)
qed


text \<open>An SLA with a window of two samples and a limit of 100 ms to the first token.\<close>

definition cb_sla_demo :: "nat \<Rightarrow> circuit_breaker" where
  "cb_sla_demo w = cb_configure_sla (the (cb_create True)) True (Some ''gpt'') 100 0 w (1 / 2) (Some ''mini'')"

lemma cb_sla_demo_facts:
  "cb_inv (cb_sla_demo w)" "cb_find_sla_cfg (cb_sla_demo w) ''gpt'' = Some 0"
  "cb_view (cb_sla_demo w) k = None"
  "cb_sla_configs (cb_sla_demo w) ! 0 = cb_sla_fill 100 0 w (1 / 2) (Some ''mini'')
     \<lparr>sc_model = ''gpt'', sc_ttft_max_ms = 0, sc_p95_max_ms = 0, sc_window_size = 0,
      sc_violation_ratio = 0, sc_fallback_model = [], sc_consecutive_recover_need = 0\<rparr>"
proof -
  have 1: "cb_find_sla_cfg (the (cb_create True)) ''gpt'' = None"
    by (simp add: cb_find_sla_cfg_def cb_created)
  show "cb_inv (cb_sla_demo w)" by (simp add: cb_sla_demo_def cb_configure_sla_inv cb_created)
  show "cb_view (cb_sla_demo w) k = None"
    using cb_view_cong [of "cb_sla_demo w" "the (cb_create True)"] by (simp add: cb_sla_demo_def cb_created)
  show "cb_find_sla_cfg (cb_sla_demo w) ''gpt'' = Some 0"
    "cb_sla_configs (cb_sla_demo w) ! 0 = cb_sla_fill 100 0 w (1 / 2) (Some ''mini'')
     \<lparr>sc_model = ''gpt'', sc_ttft_max_ms = 0, sc_p95_max_ms = 0, sc_window_size = 0,
      sc_violation_ratio = 0, sc_fallback_model = [], sc_consecutive_recover_need = 0\<rparr>"
    using 1 by (simp_all add: cb_sla_demo_def cb_configure_sla_def cb_find_sla_cfg_def cb_sla_fill_def Let_def)
qed

lemmas sla_demo_eval = cb_sla_fill_def window_bad_def last_n_def sample_of_def sla_violates_def CB_MAX_SLA_SAMPLES_def

theorem breaker_sla_degrades_exactly_witness:
  "\<exists>e. cb_view (cb_sla_run (cb_sla_demo 2) ''gpt'' ''eu'' [(1, 20, 0), (2, 101, 0)]) (''gpt'', ''eu'') = Some e \<and>
    ce_state e = CB_SLA_DEGRADED"
proof -
  have "\<forall>n \<le> length [(1 :: int, 20 :: nat, 0 :: nat)].
      \<not> window_bad (cb_sla_configs (cb_sla_demo 2) ! 0) (take n (map sample_of [(1, 20, 0)]))"
    by (auto simp: cb_sla_demo_facts sla_demo_eval)
  from breaker_sla_degrades_exactly [OF cb_sla_demo_facts(1) _ cb_sla_demo_facts(2,3) this, of "''eu''" "(2, 101, 0)"]
  show ?thesis by (simp add: cb_sla_demo_facts sla_demo_eval cb_short_def)
qed

text \<open>The same breaker after one slow sample: an entry whose window of two has one sample.\<close>

lemma cb_sla_demo_sampled:
  "\<exists>c e. c = cb_sla_run (cb_sla_demo 2) ''gpt'' ''eu'' [(1, 500, 0)] \<and> cb_inv c \<and>
     cb_params_eq (cb_sla_demo 2) c \<and> cb_view c (''gpt'', ''eu'') = Some e \<and>
     ce_sample_head e = 1 \<and> ce_samples e ! 0 = \<lparr>ss_ttft_ms = 500, ss_latency_ms = 0\<rparr>"
proof -
  have "cb_short (''gpt'', ''eu'')" by (simp add: cb_short_def)
  from cb_sla_step [OF cb_sla_demo_facts(1) this cb_sla_demo_facts(2) refl refl, of 2 1 500 0]
  obtain c where c: "c = cb_sla_run (cb_sla_demo 2) ''gpt'' ''eu'' [(1, 500, 0)]" "cb_inv c"
    "cb_params_eq (cb_sla_demo 2) c"
    "cb_view c (''gpt'', ''eu'') = Some (sla_decide (cb_sla_configs (cb_sla_demo 2) ! 0)
      (sla_push (cb_sla_configs (cb_sla_demo 2) ! 0) (sample_of (1, 500, 0)) (cb_eff (cb_sla_demo 2) (''gpt'', ''eu'') 1)))"
    by blast
  have "ce_sample_head (sla_decide cfg (sla_push cfg s' e)) = (if ce_state e = CB_SLA_DEGRADED \<and>
      ce_state (sla_decide cfg (sla_push cfg s' e)) = CB_CLOSED then 0 else (ce_sample_head e + 1) mod sc_window_size cfg)"
    "ce_samples (sla_decide cfg (sla_push cfg s' e)) = (ce_samples e)[ce_sample_head e := s']" for cfg s' e
    by (auto simp: sla_decide_def sla_push_def)
  with c show ?thesis
    by (auto simp: cb_sla_demo_facts sla_demo_eval cb_eff_def cb_advance_def cb_cooloff_expired_def cb_demo_eval)
qed

section \<open>Recovery\<close>

lemma sla_step_normal:
  assumes "ce_state e = CB_SLA_DEGRADED" "\<not> sla_violates cfg s"
  shows "sla_decide cfg (sla_push cfg s e) =
    (if ce_consecutive_sla_normal e + 1 \<ge> sc_consecutive_recover_need cfg
     then (sla_push cfg s e)\<lparr>ce_state := CB_CLOSED, ce_sample_count := 0, ce_sample_head := 0,
            ce_consecutive_sla_normal := 0\<rparr>
     else sla_push cfg s e)"
  using assms by (simp add: sla_decide_def sla_push_def)

text \<open>A degraded endpoint stays degraded until it has seen the configured number of normal
  samples in a row; the sample that completes the row closes it with an empty window, and a
  violating sample starts the row again.\<close>

theorem breaker_sla_recovers:
  assumes "cb_inv cb" and "cb_find_sla_cfg cb m = Some i" and "cb_view cb (m, ep) = Some e"
    and "ce_state e = CB_SLA_DEGRADED"
  shows "\<exists>e'. cb_view (cb_record_sla_sample cb now al (Some m) (Some ep) tt la) (m, ep) = Some e' \<and>
    (let cfg = cb_sla_configs cb ! i;
         row = (if sla_violates cfg (sample_of (now, tt, la)) then 0 else ce_consecutive_sla_normal e + 1)
     in if row \<ge> sc_consecutive_recover_need cfg
        then ce_state e' = CB_CLOSED \<and> ce_sample_count e' = 0 \<and> ce_sample_head e' = 0 \<and> ce_consecutive_sla_normal e' = 0
        else ce_state e' = CB_SLA_DEGRADED \<and> ce_consecutive_sla_normal e' = row)"
proof -
  from cb_existing_view [OF assms(1,3), of al] have "cb_get_or_create cb al (Some m) (Some ep) \<noteq> None" by auto
  from cb_record_sla_sample_view [OF assms(1) cb_view_short [OF assms(1,3)] assms(2) this, of now tt la] assms(3,4)
  show ?thesis
    by (simp add: cb_advance_def cb_cooloff_expired_def sla_decide_def sla_push_def sample_of_def Let_def)
qed

theorem breaker_sla_recovers_witness:
  "\<exists>e'. cb_view (cb_record_sla_sample (cb_configure_sla (cb_demo CB_SLA_DEGRADED) True (Some ''gpt'') 100 0 2 (1 / 2) None)
       200 True (Some ''gpt'') (Some ''eu'') 20 0) (''gpt'', ''eu'') = Some e' \<and>
    ce_state e' = CB_SLA_DEGRADED \<and> ce_consecutive_sla_normal e' = 1"
proof -
  let ?c = "cb_configure_sla (cb_demo CB_SLA_DEGRADED) True (Some ''gpt'') 100 0 2 (1 / 2) None"
  let ?f = "cb_sla_fill 100 0 2 (1 / 2) None \<lparr>sc_model = ''gpt'', sc_ttft_max_ms = 0, sc_p95_max_ms = 0,
      sc_window_size = 0, sc_violation_ratio = 0, sc_fallback_model = [], sc_consecutive_recover_need = 0\<rparr>"
  have "cb_sla_configs (cb_demo CB_SLA_DEGRADED) = []" using cb_demo_sla by simp
  then have cs: "cb_sla_configs ?c = [?f]" by (simp add: cb_configure_sla_def cb_find_sla_cfg_def)
  have i: "cb_find_sla_cfg ?c ''gpt'' = Some 0" by (simp add: cb_find_sla_cfg_def cs cb_sla_fill_def Let_def)
  have "cb_view ?c (''gpt'', ''eu'') = Some (cb_override_entry 30 100 CB_SLA_DEGRADED (cb_fresh (''gpt'', ''eu'')))"
    using cb_view_cong [of ?c "cb_demo CB_SLA_DEGRADED"] by (simp add: cb_demo_facts)
  from breaker_sla_recovers [OF cb_configure_sla_inv [OF cb_demo_facts(1)] i this, where now = 200 and tt = 20 and la = 0 and al = True] show ?thesis
    by (simp add: cs sla_demo_eval cb_demo_eval)
qed

section \<open>Override and stale samples\<close>

text \<open>The admin override to CLOSED empties the window but leaves the write index, so the
  average that is read after the next sample is the one of an old sample in slot 0, not of the
  sample just recorded.\<close>

theorem breaker_override_stale_average:
  assumes "cb_inv cb" and "cb_find_sla_cfg cb m = Some i" and "cb_view cb (m, ep) = Some e"
    and "0 < ce_sample_head e"
  shows "cb_get_sla_avg_ttft
      (cb_record_sla_sample (fst (cb_override_state cb t al (Some m) (Some ep) CB_CLOSED))
         now al (Some m) (Some ep) tt la) (Some m) (Some ep)
    = ss_ttft_ms (ce_samples e ! 0)"
proof -
  let ?o = "cb_override_entry (cb_cooloff_sec cb) t CB_CLOSED e"
  let ?cfg = "cb_sla_configs cb ! i"
  let ?e = "sla_decide ?cfg (sla_push ?cfg \<lparr>ss_ttft_ms = tt, ss_latency_ms = la\<rparr> ?o)"
  note sh = cb_view_short [OF assms(1,3)]
  from cb_existing_view [OF assms(1,3), of al] have "cb_get_or_create cb al (Some m) (Some ep) \<noteq> None" by auto
  from cb_override_state_view [OF assms(1) sh this, of t CB_CLOSED] assms(3) obtain c where c:
    "cb_override_state cb t al (Some m) (Some ep) CB_CLOSED = (c, True)" "cb_inv c" "cb_params_eq cb c"
    "cb_view c (m, ep) = Some ?o" by auto
  from cb_find_sla_cfg_cong [OF c(3)] assms(2) have i: "cb_find_sla_cfg c m = Some i" by simp
  from cb_existing_view [OF c(2,4), of al] have "cb_get_or_create c al (Some m) (Some ep) \<noteq> None" by auto
  from cb_record_sla_sample_view [OF c(2) sh i this, of now tt la] c(3,4)
  have v: "cb_inv (cb_record_sla_sample c now al (Some m) (Some ep) tt la)"
    "cb_view (cb_record_sla_sample c now al (Some m) (Some ep) tt la) (m, ep) = Some ?e" "sla_cfg_ok ?cfg"
    by (auto simp: cb_params_eq_def cb_advance_def cb_cooloff_expired_def cb_override_entry_def Let_def)
  from assms(1,3) have "length (ce_samples e) = 128"
    using cb_existing_view [OF assms(1,3), of al] cb_entry_at_ok [OF assms(1)]
    by (auto simp: cb_entry_ok_def CB_MAX_SLA_SAMPLES_def)
  then have "take 1 (ce_samples e) = [ce_samples e ! 0]" by (cases "ce_samples e") auto
  then have "ce_sample_count ?e = 1" "take 1 (ce_samples ?e) = [ce_samples e ! 0]"
    using v(3) assms(4) by (auto simp: sla_decide_def sla_push_def cb_override_entry_def sla_cfg_ok_def)
  moreover obtain l where "cb_find_entry (cb_record_sla_sample c now al (Some m) (Some ep) tt la) (Some m) (Some ep) = Some l"
    "cb_entry_at (cb_record_sla_sample c now al (Some m) (Some ep) tt la) l = ?e"
    using cb_existing_view [OF v(1,2)] by blast
  ultimately show ?thesis using c(1) by (simp add: cb_get_sla_avg_ttft_def)
qed

theorem breaker_override_stale_average_witness:
  "cb_get_sla_avg_ttft
      (cb_record_sla_sample (fst (cb_override_state (cb_sla_run (cb_sla_demo 2) ''gpt'' ''eu'' [(1, 500, 0)])
           5 True (Some ''gpt'') (Some ''eu'') CB_CLOSED))
         6 True (Some ''gpt'') (Some ''eu'') 20 0) (Some ''gpt'') (Some ''eu'') = 500"
proof -
  from cb_sla_demo_sampled obtain c e where c: "c = cb_sla_run (cb_sla_demo 2) ''gpt'' ''eu'' [(1, 500, 0)]"
    "cb_inv c" "cb_params_eq (cb_sla_demo 2) c" "cb_view c (''gpt'', ''eu'') = Some e"
    "ce_sample_head e = 1" "ce_samples e ! 0 = \<lparr>ss_ttft_ms = 500, ss_latency_ms = 0\<rparr>" by blast
  with breaker_override_stale_average [OF c(2) _ c(4), where i = 0 and t = 5 and now = 6 and al = True and tt = 20 and la = 0]
    cb_find_sla_cfg_cong [OF c(3)] show ?thesis by (simp add: cb_sla_demo_facts)
qed

end
