(* ===== verification/Decimal.thy ===== *)
theory Decimal
  imports Prelude
begin

text \<open>
  Numerals as \<open>printf\<close> writes them (\<open>%ld\<close>, \<open>%d\<close>, \<open>%llu\<close>, \<open>%.2f\<close>) and \<open>strtol(s, NULL, 10)\<close>
  reads them, for the Redis keys and arguments the sources build.
\<close>

definition digit_char :: "nat \<Rightarrow> char" where
  "digit_char d = ''0123456789'' ! d"

fun nat_str :: "nat \<Rightarrow> string" where
  "nat_str n = (if n < 10 then [digit_char n] else nat_str (n div 10) @ [digit_char (n mod 10)])"

declare nat_str.simps [simp del]

definition int_str :: "int \<Rightarrow> string" where
  "int_str i = (if i < 0 then CHR ''-'' # nat_str (nat (- i)) else nat_str (nat i))"

definition is_digit :: "char \<Rightarrow> bool" where
  "is_digit c \<longleftrightarrow> 48 \<le> (of_char c :: nat) \<and> (of_char c :: nat) \<le> 57"

definition digit_val :: "char \<Rightarrow> nat" where
  "digit_val c = of_char c - 48"

definition digits_val :: "string \<Rightarrow> nat" where
  "digits_val s = foldl (\<lambda>n c. 10 * n + digit_val c) 0 (takeWhile is_digit s)"

text \<open>\<open>strtol\<close> without leading blanks; no digits give 0. Overflow is not modelled.\<close>

definition strtol10 :: "string \<Rightarrow> int" where
  "strtol10 s = (case s of
      CHR ''-'' # r \<Rightarrow> - int (digits_val r)
    | CHR ''+'' # r \<Rightarrow> int (digits_val r)
    | _ \<Rightarrow> int (digits_val s))"

lemma less_10_cases: "d < 10 \<Longrightarrow> d \<in> {0, 1, 2, 3, 4, 5, 6, 7, 8, 9 :: nat}"
  by auto

lemma digit_char_facts:
  "d < 10 \<Longrightarrow> is_digit (digit_char d) \<and> digit_val (digit_char d) = d \<and> digit_char d \<noteq> CHR ''-'' \<and>
    digit_char d \<noteq> CHR ''+''"
  by (drule less_10_cases) (auto simp: digit_char_def is_digit_def digit_val_def)

lemma nat_str_digits: "list_all is_digit (nat_str n)"
  by (induction n rule: nat_str.induct)
     (subst nat_str.simps, auto simp: digit_char_facts)

lemma takeWhile_digits: "list_all P xs \<Longrightarrow> takeWhile P xs = xs"
  by (induction xs) auto

lemma foldl_nat_str: "foldl (\<lambda>n c. 10 * n + digit_val c) 0 (nat_str n) = n"
proof (induction n rule: nat_str.induct)
  case (1 n)
  then show ?case by (subst nat_str.simps) (auto simp: digit_char_facts)
qed

lemma digits_val_nat_str [simp]: "digits_val (nat_str n) = n"
  by (simp add: digits_val_def takeWhile_digits [OF nat_str_digits] foldl_nat_str)

lemma nat_str_inj: "nat_str a = nat_str b \<Longrightarrow> a = b"
  by (metis digits_val_nat_str)

lemma length_nat_str: "n < 10 ^ k \<Longrightarrow> 0 < k \<Longrightarrow> length (nat_str n) \<le> k"
proof (induction k arbitrary: n)
  case (Suc k)
  show ?case
  proof (cases "n < 10")
    case False
    then have "n div 10 < 10 ^ k" "0 < k" using Suc.prems(1) by (auto intro: ccontr)
    from Suc.IH [OF this] show ?thesis using False by (subst nat_str.simps) simp
  qed (subst nat_str.simps, simp)
qed simp

lemma nat_str_hd: "nat_str n = c # r \<Longrightarrow> is_digit c"
  using nat_str_digits [of n] by simp

lemma not_digit_sign: "\<not> is_digit CHR ''-''" "\<not> is_digit CHR ''+''"
  by (simp_all add: is_digit_def)

lemma nat_str_not_Nil [simp]: "nat_str n \<noteq> []"
  by (subst nat_str.simps) simp

lemma strtol10_nonneg: "is_digit c \<Longrightarrow> strtol10 (c # r) = int (digits_val (c # r))"
  using not_digit_sign by (auto simp: strtol10_def split: char.splits bool.splits)

text \<open>Reading back what was printed gives the number.\<close>

lemma strtol10_int_str [simp]: "strtol10 (int_str i) = i"
proof (cases "i < 0")
  case True
  then show ?thesis by (simp add: int_str_def strtol10_def)
next
  case False
  obtain c r where s: "nat_str (nat i) = c # r" by (cases "nat_str (nat i)") auto
  from digits_val_nat_str [of "nat i"] have "digits_val (c # r) = nat i" unfolding s .
  moreover from False s have "int_str i = c # r" by (simp add: int_str_def)
  ultimately show ?thesis using strtol10_nonneg [OF nat_str_hd [OF s], of r] False by simp
qed

lemma int_str_inj [simp]: "int_str a = int_str b \<longleftrightarrow> a = b"
  by (metis strtol10_int_str)

lemma int_str_digits: "c \<in> set (int_str i) \<Longrightarrow> is_digit c \<or> c = CHR ''-''"
  using nat_str_digits by (auto simp: int_str_def list_all_iff split: if_splits)

text \<open>A separator that no numeral contains splits the text at one place.\<close>

lemma append_sep_inj:
  assumes "c \<notin> set a" "c \<notin> set a'"
  shows "a @ c # b = a' @ c # b' \<longleftrightarrow> a = a' \<and> b = b'"
proof
  assume "a @ c # b = a' @ c # b'"
  then have "takeWhile (\<lambda>x. x \<noteq> c) (a @ c # b) = takeWhile (\<lambda>x. x \<noteq> c) (a' @ c # b')" by simp
  moreover have "takeWhile (\<lambda>x. x \<noteq> c) (a @ c # b) = a" "takeWhile (\<lambda>x. x \<noteq> c) (a' @ c # b') = a'"
    using assms by (auto simp: takeWhile_append)
  ultimately have "a = a'" by simp
  with \<open>a @ c # b = a' @ c # b'\<close> show "a = a' \<and> b = b'" by simp
qed simp

section \<open>Fixed-point numerals\<close>

text \<open>\<open>%.kf\<close>: rounded to the nearest multiple of \<open>10\<^sup>-\<^sup>k\<close>, ties to the even one.\<close>

definition round_even :: "real \<Rightarrow> int" where
  "round_even x =
     (let f = \<lfloor>x\<rfloor>; d = x - real_of_int f
      in if d < 1 / 2 then f else if d > 1 / 2 then f + 1 else if even f then f else f + 1)"

definition pad_left :: "nat \<Rightarrow> string \<Rightarrow> string" where
  "pad_left k s = replicate (k - length s) (CHR ''0'') @ s"

definition fixed_str :: "nat \<Rightarrow> real \<Rightarrow> string" where
  "fixed_str k x =
     (let n = nat (round_even (\<bar>x\<bar> * 10 ^ k))
      in (if x < 0 then ''-'' else '''') @ nat_str (n div 10 ^ k) @ CHR ''.'' # pad_left k (nat_str (n mod 10 ^ k)))"

end
