(* ===== verification/Rate_Limit.thy ===== *)
theory Rate_Limit
  imports Decimal
begin

unbundle bit_operations_syntax

text \<open>
  \<^verbatim>\<open>src/policy/ratelimit.c\<close>: the per-key limiter. Buckets live in an open-addressed table with
  linear probing whose capacity is a power of two; a pointer to a bucket is its index.

  The two clocks are arguments: \<open>mono_ns\<close> is the 64-bit \<open>CLOCK_MONOTONIC\<close> reading in
  nanoseconds, \<open>wall\<close> the seconds of \<open>CLOCK_REALTIME\<close>. Token amounts (\<open>double\<close>) are real
  numbers; token counts (\<open>long\<close>) are integers. The outer option of a result is \<open>None\<close> when a
  probe loop does not return or leaves the array; a NULL pointer is an inner \<open>None\<close>. A Redis
  script is a function from its key and arguments to the pair of integers of a well-formed
  reply, \<open>None\<close> standing for a failed connection, an error and any other reply.
\<close>

section \<open>State\<close>

record rl_bucket =
  rb_key :: int
  rb_in_use :: bool
  rb_tokens :: real
  rb_capacity :: real
  rb_last_refill :: "64 word"
  rb_daily_used :: int
  rb_daily_reasoning :: int
  rb_day :: int

record ratelimit =
  rl_b :: "rl_bucket list"
  rl_cap :: nat
  rl_count :: nat
  rl_pool :: bool
  rl_fail_open :: bool

type_synonym redis_eval = "string \<Rightarrow> string list \<Rightarrow> (int \<times> int) option"

definition rb_zero :: rl_bucket where
  "rb_zero = \<lparr>rb_key = 0, rb_in_use = False, rb_tokens = 0, rb_capacity = 0, rb_last_refill = 0,
              rb_daily_used = 0, rb_daily_reasoning = 0, rb_day = 0\<rparr>"

text \<open>\<open>gmtime_r\<close>, zero the time of day, \<open>timegm\<close>\<close>

definition utc_midnight :: "int \<Rightarrow> int" where
  "utc_midnight t = t - t mod 86400"

definition rl_next_pow2 :: "nat \<Rightarrow> nat" where
  "rl_next_pow2 n = pow2_from 16 n"

definition hash_id :: "int \<Rightarrow> nat" where
  "hash_id key =
     (let x0 = (word_of_int key :: 64 word);
          x1 = x0 XOR drop_bit 16 x0;
          x2 = x1 * 0x45d9f3b;
          x3 = x2 XOR drop_bit 16 x2
      in unat x3)"

definition ratelimit_new :: "bool \<Rightarrow> ratelimit option" where
  "ratelimit_new alloc_ok =
     (if \<not> alloc_ok then None
      else Some \<lparr>rl_b = replicate (rl_next_pow2 16) rb_zero, rl_cap = rl_next_pow2 16, rl_count = 0,
                 rl_pool = False, rl_fail_open = True\<rparr>)"

definition ratelimit_set_redis_pool :: "ratelimit \<Rightarrow> bool \<Rightarrow> ratelimit" where
  "ratelimit_set_redis_pool rl pool = rl\<lparr>rl_pool := pool\<rparr>"

definition ratelimit_set_fail_open :: "ratelimit \<Rightarrow> int \<Rightarrow> ratelimit" where
  "ratelimit_set_fail_open rl fail_open = rl\<lparr>rl_fail_open := (fail_open \<noteq> 0)\<rparr>"

section \<open>The bucket table\<close>

text \<open>Both probe loops: from slot \<open>i\<close> on, the first slot that satisfies \<open>P\<close>.\<close>

partial_function (option) rl_seek ::
  "(rl_bucket \<Rightarrow> bool) \<Rightarrow> rl_bucket list \<Rightarrow> nat \<Rightarrow> nat \<Rightarrow> nat option" where
  "rl_seek P b cap i =
     (if \<not> i < length b then None
      else if P (b ! i) then Some i
      else rl_seek P b cap ((i + 1) AND (cap - 1)))"

declare rl_seek.simps [code]

definition rl_reinsert :: "nat \<Rightarrow> rl_bucket \<Rightarrow> rl_bucket list \<Rightarrow> rl_bucket list option" where
  "rl_reinsert ncap x nb =
     (if \<not> rb_in_use x then Some nb
      else map_option (\<lambda>j. nb[j := x])
             (rl_seek (\<lambda>y. \<not> rb_in_use y) nb ncap (hash_id (rb_key x) AND (ncap - 1))))"

fun rl_rehash :: "nat \<Rightarrow> rl_bucket list \<Rightarrow> rl_bucket list \<Rightarrow> rl_bucket list option" where
  "rl_rehash ncap [] nb = Some nb"
| "rl_rehash ncap (x # xs) nb = Option.bind (rl_reinsert ncap x nb) (rl_rehash ncap xs)"

partial_function (option) rl_find_or_make ::
  "ratelimit \<Rightarrow> bool \<Rightarrow> int \<Rightarrow> (ratelimit \<times> nat option) option" where
  "rl_find_or_make rl alloc_ok key =
     Option.bind (rl_seek (\<lambda>x. \<not> rb_in_use x \<or> rb_key x = key) (rl_b rl) (rl_cap rl)
                    (hash_id key AND (rl_cap rl - 1)))
       (\<lambda>i. if rb_in_use (rl_b rl ! i) then Some (rl, Some i)
            else if rl_count rl \<ge> rl_cap rl * 3 div 4 then
              (if \<not> alloc_ok then Some (rl, None)
               else Option.bind
                      (rl_rehash (rl_cap rl * 2) (rl_b rl) (replicate (rl_cap rl * 2) rb_zero))
                      (\<lambda>nb. rl_find_or_make (rl\<lparr>rl_b := nb, rl_cap := rl_cap rl * 2\<rparr>) alloc_ok key))
            else Some (rl\<lparr>rl_b := (rl_b rl)[i := rb_zero\<lparr>rb_in_use := True, rb_key := key\<rparr>],
                          rl_count := rl_count rl + 1\<rparr>, Some i))"

declare rl_find_or_make.simps [code]

definition rl_at :: "ratelimit \<Rightarrow> nat \<Rightarrow> rl_bucket" where
  "rl_at rl i = rl_b rl ! i"

definition rl_set :: "ratelimit \<Rightarrow> nat \<Rightarrow> rl_bucket \<Rightarrow> ratelimit" where
  "rl_set rl i x = rl\<lparr>rl_b := (rl_b rl)[i := x]\<rparr>"

section \<open>Requests per second\<close>

definition rb_refill :: "int \<Rightarrow> 64 word \<Rightarrow> rl_bucket \<Rightarrow> rl_bucket" where
  "rb_refill qps now x =
     (if rb_capacity x = 0 \<or> rb_last_refill x = 0
      then x\<lparr>rb_capacity := real_of_int qps, rb_tokens := real_of_int qps, rb_last_refill := now\<rparr>
      else let t = rb_tokens x + real (unat (now - rb_last_refill x)) / 1000000000 * real_of_int qps
           in x\<lparr>rb_tokens := (if t > rb_capacity x then rb_capacity x else t), rb_last_refill := now\<rparr>)"

text \<open>The return code (0 or -1), the value written to \<open>*retry_ms\<close> if any, the bucket.\<close>

definition rb_take :: "int \<Rightarrow> rl_bucket \<Rightarrow> int \<times> int option \<times> rl_bucket" where
  "rb_take qps x =
     (if rb_tokens x \<ge> 1 then (0, None, x\<lparr>rb_tokens := rb_tokens x - 1\<rparr>)
      else let need = (1 - rb_tokens x) / real_of_int qps;
               ms = \<lfloor>need * 1000\<rfloor> + 1
           in (-1, Some (if ms < 1 then 1 else ms), x))"

definition rb_allow :: "int \<Rightarrow> 64 word \<Rightarrow> rl_bucket \<Rightarrow> int \<times> int option \<times> rl_bucket" where
  "rb_allow qps now x =
     (if qps \<le> 0 then (0, None, x\<lparr>rb_capacity := 0, rb_tokens := 0\<rparr>)
      else rb_take qps (rb_refill qps now x))"

definition rl_allow_request_local ::
  "ratelimit \<Rightarrow> bool \<Rightarrow> 64 word \<Rightarrow> int \<Rightarrow> int \<Rightarrow> (ratelimit \<times> int \<times> int option) option" where
  "rl_allow_request_local rl alloc_ok mono_ns key qps =
     Option.bind (rl_find_or_make rl alloc_ok key)
       (\<lambda>(rl1, bt). case bt of
            None \<Rightarrow> Some (rl1, -1, None)
          | Some i \<Rightarrow> (let (rc, retry, x) = rb_allow qps mono_ns (rl_at rl1 i)
                      in Some (rl_set rl1 i x, rc, retry)))"

definition qps_key :: "int \<Rightarrow> string" where
  "qps_key key = ''aigate:rl:qps:'' @ int_str key"

definition rl_allow_request ::
  "ratelimit option \<Rightarrow> redis_eval \<Rightarrow> bool \<Rightarrow> 64 word \<Rightarrow> nat \<Rightarrow> int \<Rightarrow> int \<Rightarrow>
   (ratelimit option \<times> int \<times> int option) option" where
  "rl_allow_request rlo eval alloc_ok mono_ns wall_ms key qps =
     (case rlo of
        None \<Rightarrow> Some (None, -1, Some (-1))
      | Some rl \<Rightarrow>
          if rl_pool rl then
            (if qps \<le> 0 then Some (Some rl, 0, None)
             else case eval (qps_key key) [nat_str wall_ms, int_str qps, int_str qps, ''3''] of
                    None \<Rightarrow>
                      if rl_fail_open rl
                      then map_option (\<lambda>(r, x). (Some r, x)) (rl_allow_request_local rl alloc_ok mono_ns key qps)
                      else Some (Some rl, -1, Some (-1))
                  | Some (status, wait_ms) \<Rightarrow>
                      if status = 1 then Some (Some rl, 0, None) else Some (Some rl, -1, Some wait_ms))
          else map_option (\<lambda>(r, x). (Some r, x)) (rl_allow_request_local rl alloc_ok mono_ns key qps))"

section \<open>Daily quotas\<close>

text \<open>The two quotas (all tokens, reasoning tokens) have the same code over different fields.\<close>

definition rl_reserve_tokens_local ::
  "ratelimit \<Rightarrow> bool \<Rightarrow> int \<Rightarrow> int \<Rightarrow> int \<Rightarrow> (ratelimit \<times> int) option" where
  "rl_reserve_tokens_local rl alloc_ok key daily_quota tokens =
     Option.bind (rl_find_or_make rl alloc_ok key)
       (\<lambda>(rl1, bt). case bt of
            None \<Rightarrow> Some (rl1, -1)
          | Some i \<Rightarrow>
              (let x = rl_at rl1 i; used = rb_daily_used x + tokens
               in Some (rl_set rl1 i (x\<lparr>rb_daily_used := used\<rparr>),
                        if daily_quota > 0 \<and> used > daily_quota then -1 else 0)))"

definition rl_reserve_reasoning_tokens_local ::
  "ratelimit \<Rightarrow> bool \<Rightarrow> int \<Rightarrow> int \<Rightarrow> int \<Rightarrow> (ratelimit \<times> int) option" where
  "rl_reserve_reasoning_tokens_local rl alloc_ok key daily_quota tokens =
     Option.bind (rl_find_or_make rl alloc_ok key)
       (\<lambda>(rl1, bt). case bt of
            None \<Rightarrow> Some (rl1, -1)
          | Some i \<Rightarrow>
              (let x = rl_at rl1 i; used = rb_daily_reasoning x + tokens
               in Some (rl_set rl1 i (x\<lparr>rb_daily_reasoning := used\<rparr>),
                        if daily_quota > 0 \<and> used > daily_quota then -1 else 0)))"

definition day_epoch :: "int \<Rightarrow> int" where
  "day_epoch wall = wall - wall mod 86400"

definition quota_key :: "int \<Rightarrow> int \<Rightarrow> string" where
  "quota_key key wall = ''aigate:quota:'' @ int_str key @ '':'' @ int_str (day_epoch wall)"

definition quota_reasoning_key :: "int \<Rightarrow> int \<Rightarrow> string" where
  "quota_reasoning_key key wall = ''aigate:quota_reasoning:'' @ int_str key @ '':'' @ int_str (day_epoch wall)"

definition rl_reserve_tokens ::
  "ratelimit option \<Rightarrow> redis_eval \<Rightarrow> bool \<Rightarrow> int \<Rightarrow> int \<Rightarrow> int \<Rightarrow> int \<Rightarrow> (ratelimit option \<times> int) option" where
  "rl_reserve_tokens rlo eval alloc_ok wall key daily_quota tokens =
     (case rlo of
        None \<Rightarrow> Some (None, -1)
      | Some rl \<Rightarrow>
          if rl_pool rl then
            (if daily_quota \<le> 0 \<and> tokens \<le> 0 then Some (Some rl, 0)
             else case eval (quota_key key wall) [int_str tokens, int_str daily_quota, ''172800''] of
                    None \<Rightarrow>
                      if rl_fail_open rl
                      then map_option (\<lambda>(r, x). (Some r, x)) (rl_reserve_tokens_local rl alloc_ok key daily_quota tokens)
                      else Some (Some rl, -1)
                  | Some (status, _) \<Rightarrow> Some (Some rl, if status = 0 then 0 else -1))
          else map_option (\<lambda>(r, x). (Some r, x)) (rl_reserve_tokens_local rl alloc_ok key daily_quota tokens))"

definition rl_reserve_reasoning_tokens ::
  "ratelimit option \<Rightarrow> redis_eval \<Rightarrow> bool \<Rightarrow> int \<Rightarrow> int \<Rightarrow> int \<Rightarrow> int \<Rightarrow> (ratelimit option \<times> int) option" where
  "rl_reserve_reasoning_tokens rlo eval alloc_ok wall key daily_quota tokens =
     (case rlo of
        None \<Rightarrow> Some (None, -1)
      | Some rl \<Rightarrow>
          if rl_pool rl then
            (if daily_quota \<le> 0 \<and> tokens \<le> 0 then Some (Some rl, 0)
             else case eval (quota_reasoning_key key wall) [int_str tokens, int_str daily_quota, ''90000''] of
                    None \<Rightarrow>
                      if rl_fail_open rl
                      then map_option (\<lambda>(r, x). (Some r, x))
                             (rl_reserve_reasoning_tokens_local rl alloc_ok key daily_quota tokens)
                      else Some (Some rl, -1)
                  | Some (status, _) \<Rightarrow> Some (Some rl, if status = 0 then 0 else -1))
          else map_option (\<lambda>(r, x). (Some r, x))
                 (rl_reserve_reasoning_tokens_local rl alloc_ok key daily_quota tokens))"

definition LONG_MAX :: int where "LONG_MAX = 9223372036854775807"
definition LONG_MIN :: int where "LONG_MIN = -9223372036854775808"

definition rl_remaining_daily_local ::
  "ratelimit \<Rightarrow> bool \<Rightarrow> int \<Rightarrow> int \<Rightarrow> (ratelimit \<times> int) option" where
  "rl_remaining_daily_local rl alloc_ok key daily_quota =
     map_option
       (\<lambda>(rl1, bt). case bt of
            None \<Rightarrow> (rl1, LONG_MAX)
          | Some i \<Rightarrow> (rl1, if daily_quota \<le> 0 then LONG_MAX else daily_quota - rb_daily_used (rl_at rl1 i)))
       (rl_find_or_make rl alloc_ok key)"

definition rl_remaining_daily_reasoning_local ::
  "ratelimit \<Rightarrow> bool \<Rightarrow> int \<Rightarrow> int \<Rightarrow> (ratelimit \<times> int) option" where
  "rl_remaining_daily_reasoning_local rl alloc_ok key daily_quota =
     map_option
       (\<lambda>(rl1, bt). case bt of
            None \<Rightarrow> (rl1, LONG_MAX)
          | Some i \<Rightarrow> (rl1, if daily_quota \<le> 0 then LONG_MAX else daily_quota - rb_daily_reasoning (rl_at rl1 i)))
       (rl_find_or_make rl alloc_ok key)"

text \<open>
  The reply to \<open>GET\<close>: \<open>None\<close> is a failed connection or an error, \<open>Some None\<close> a reply that is
  not a string (no such key), \<open>Some (Some s)\<close> a string.
\<close>

type_synonym redis_get = "string \<Rightarrow> string option option"

definition rl_remaining_daily ::
  "ratelimit option \<Rightarrow> redis_get \<Rightarrow> bool \<Rightarrow> int \<Rightarrow> int \<Rightarrow> int \<Rightarrow> (ratelimit option \<times> int) option" where
  "rl_remaining_daily rlo rget alloc_ok wall key daily_quota =
     (case rlo of
        None \<Rightarrow> Some (None, LONG_MIN)
      | Some rl \<Rightarrow>
          if rl_pool rl then
            (if daily_quota \<le> 0 then Some (Some rl, LONG_MAX)
             else case rget (quota_key key wall) of
                    None \<Rightarrow>
                      if rl_fail_open rl
                      then map_option (\<lambda>(r, x). (Some r, x)) (rl_remaining_daily_local rl alloc_ok key daily_quota)
                      else Some (Some rl, LONG_MIN)
                  | Some None \<Rightarrow> Some (Some rl, daily_quota)
                  | Some (Some s) \<Rightarrow> Some (Some rl, daily_quota - strtol10 s))
          else map_option (\<lambda>(r, x). (Some r, x)) (rl_remaining_daily_local rl alloc_ok key daily_quota))"

definition rl_remaining_daily_reasoning ::
  "ratelimit option \<Rightarrow> redis_get \<Rightarrow> bool \<Rightarrow> int \<Rightarrow> int \<Rightarrow> int \<Rightarrow> (ratelimit option \<times> int) option" where
  "rl_remaining_daily_reasoning rlo rget alloc_ok wall key daily_quota =
     (case rlo of
        None \<Rightarrow> Some (None, LONG_MIN)
      | Some rl \<Rightarrow>
          if rl_pool rl then
            (if daily_quota \<le> 0 then Some (Some rl, LONG_MAX)
             else case rget (quota_reasoning_key key wall) of
                    None \<Rightarrow>
                      if rl_fail_open rl
                      then map_option (\<lambda>(r, x). (Some r, x))
                             (rl_remaining_daily_reasoning_local rl alloc_ok key daily_quota)
                      else Some (Some rl, LONG_MIN)
                  | Some None \<Rightarrow> Some (Some rl, daily_quota)
                  | Some (Some s) \<Rightarrow> Some (Some rl, daily_quota - strtol10 s))
          else map_option (\<lambda>(r, x). (Some r, x))
                 (rl_remaining_daily_reasoning_local rl alloc_ok key daily_quota))"

definition rb_reset_day :: "int \<Rightarrow> rl_bucket \<Rightarrow> rl_bucket" where
  "rb_reset_day mid x =
     (if rb_in_use x \<and> rb_day x \<noteq> mid
      then x\<lparr>rb_day := mid, rb_daily_used := 0, rb_daily_reasoning := 0\<rparr> else x)"

definition rl_reset_day :: "ratelimit \<Rightarrow> int \<Rightarrow> ratelimit" where
  "rl_reset_day rl now = rl\<lparr>rl_b := map (rb_reset_day (utc_midnight now)) (rl_b rl)\<rparr>"

end
