(* ===== verification/Rate_Table.thy ===== *)
theory Rate_Table
  imports Rate_Limit Entry_Table
begin

text \<open>
  The bucket table of \<^verbatim>\<open>src/policy/ratelimit.c\<close> is a map from keys to buckets: linear probing
  finds every bucket, the load limit keeps a free slot so that every probe ends, and doubling
  the table keeps every bucket.
\<close>

section \<open>Probing\<close>

lemma and_pow2: "cap = 2 ^ n \<Longrightarrow> (x :: nat) AND (cap - 1) = x mod cap"
  by (metis mask_eq_exp_minus_1 take_bit_eq_mask take_bit_eq_mod)

lemma rl_seek_path:
  assumes "length b = cap" "cap = 2 ^ n" "h < cap"
    and "\<forall>e<d. \<not> P (b ! ((h + e) mod cap))" "P (b ! ((h + d) mod cap))"
  shows "rl_seek P b cap h = Some ((h + d) mod cap)"
  using assms
proof (induction d arbitrary: h)
  case 0
  then show ?case by (subst rl_seek.simps) simp
next
  case (Suc d)
  have sh: "((h + 1) mod cap + e) mod cap = (h + Suc e) mod cap" for e
    by (metis add_Suc_right add_Suc_shift mod_add_left_eq Suc_eq_plus1)
  from Suc.prems(4) have "\<not> P (b ! ((h + 0) mod cap))" by blast
  with Suc.prems(3) have no: "\<not> P (b ! h)" by simp
  have "rl_seek P b cap ((h + 1) mod cap) = Some (((h + 1) mod cap + d) mod cap)"
  proof (rule Suc.IH [OF Suc.prems(1,2)])
    show "(h + 1) mod cap < cap" using Suc.prems(3) by simp
    show "\<forall>e<d. \<not> P (b ! (((h + 1) mod cap + e) mod cap))" unfolding sh using Suc.prems(4) by blast
    show "P (b ! (((h + 1) mod cap + d) mod cap))" unfolding sh using Suc.prems(5) .
  qed
  then have "rl_seek P b cap ((h + 1) AND (cap - 1)) = Some ((h + Suc d) mod cap)"
    unfolding and_pow2 [OF Suc.prems(2)] sh .
  moreover have "h < length b" using Suc.prems(1,3) by simp
  ultimately show ?case using no by (subst rl_seek.simps) simp
qed

lemma rl_path_ex:
  assumes "i < cap" "h < cap" "P (b ! i)"
  shows "\<exists>d. (\<forall>e<d. \<not> P (b ! ((h + e) mod cap))) \<and> P (b ! ((h + d) mod cap))"
proof -
  have "(h + (i + cap - h)) mod cap = i" using assms(1,2) by simp
  with assms(3) have ex: "P (b ! ((h + (i + cap - h)) mod cap))" by simp
  let ?d = "LEAST d. P (b ! ((h + d) mod cap))"
  from ex have "P (b ! ((h + ?d) mod cap))" by (rule LeastI)
  moreover have "\<forall>e<?d. \<not> P (b ! ((h + e) mod cap))" using not_less_Least by blast
  ultimately show ?thesis by blast
qed

section \<open>Well-formed tables\<close>

definition rl_home :: "nat \<Rightarrow> int \<Rightarrow> nat" where
  "rl_home cap key = hash_id key mod cap"

text \<open>Slot \<open>i\<close> is where the probe for \<open>key\<close> stops, past slots of other keys.\<close>

definition rl_reach :: "rl_bucket list \<Rightarrow> int \<Rightarrow> nat \<Rightarrow> bool" where
  "rl_reach b key i \<longleftrightarrow> (\<exists>d. i = (rl_home (length b) key + d) mod length b \<and>
     (\<forall>e<d. rb_in_use (b ! ((rl_home (length b) key + e) mod length b)) \<and>
            rb_key (b ! ((rl_home (length b) key + e) mod length b)) \<noteq> key))"

definition tab_wf :: "rl_bucket list \<Rightarrow> bool" where
  "tab_wf b \<longleftrightarrow> (\<exists>n. length b = 2 ^ n) \<and>
     (\<forall>i<length b. rb_in_use (b ! i) \<longrightarrow> rl_reach b (rb_key (b ! i)) i)"

definition rl_stop :: "int \<Rightarrow> rl_bucket \<Rightarrow> bool" where
  "rl_stop key x \<longleftrightarrow> \<not> rb_in_use x \<or> rb_key x = key"

lemma tab_wf_pos: "tab_wf b \<Longrightarrow> 0 < length b"
  by (auto simp: tab_wf_def)

lemma rl_seek_reach:
  assumes "tab_wf b" "rl_reach b key i" "rl_stop key (b ! i)"
  shows "rl_seek (rl_stop key) b (length b) (rl_home (length b) key) = Some i"
proof -
  from assms(1) obtain n where "length b = 2 ^ n" by (auto simp: tab_wf_def)
  moreover from this have "rl_home (length b) key < length b" by (simp add: rl_home_def)
  ultimately show ?thesis
    using assms(2,3) rl_seek_path [of b "length b" n "rl_home (length b) key" _ "rl_stop key"]
    by (auto simp: rl_reach_def rl_stop_def)
qed

lemma rl_seek_free:
  assumes "tab_wf b" "j < length b" "\<not> rb_in_use (b ! j)" "\<forall>x \<in> set b. rb_in_use x \<longrightarrow> rb_key x \<noteq> key"
  shows "\<exists>i<length b. rl_seek (rl_stop key) b (length b) (rl_home (length b) key) = Some i \<and>
    rl_seek (\<lambda>y. \<not> rb_in_use y) b (length b) (rl_home (length b) key) = Some i \<and>
    \<not> rb_in_use (b ! i) \<and> rl_reach b key i"
proof -
  let ?h = "rl_home (length b) key" and ?P = "\<lambda>y. \<not> rb_in_use y"
  from assms(1) obtain n where n: "length b = 2 ^ n" by (auto simp: tab_wf_def)
  then have h: "?h < length b" by (simp add: rl_home_def)
  from rl_path_ex [of j "length b" ?h ?P b] assms(2,3) h obtain d where
    d: "\<forall>e<d. \<not> ?P (b ! ((?h + e) mod length b))" "?P (b ! ((?h + d) mod length b))" by blast
  have lt: "(?h + e) mod length b < length b" for e by (rule mod_less_divisor [OF tab_wf_pos [OF assms(1)]])
  with d assms(4) have d': "\<forall>e<d. rb_in_use (b ! ((?h + e) mod length b)) \<and> rb_key (b ! ((?h + e) mod length b)) \<noteq> key"
    by (metis nth_mem)
  from rl_seek_path [OF refl n h d] rl_seek_path [OF refl n h, of d "rl_stop key"] d d' h
  show ?thesis by (intro exI [of _ "(?h + d) mod length b"]) (auto simp: rl_stop_def rl_reach_def lt)
qed

lemma tab_wf_unique:
  assumes "tab_wf b" "i < length b" "j < length b" "rb_in_use (b ! i)" "rb_in_use (b ! j)"
    "rb_key (b ! i) = rb_key (b ! j)"
  shows "i = j"
proof -
  have "rl_seek (rl_stop k) b (length b) (rl_home (length b) k) = Some i'"
    if "i' < length b" "rb_in_use (b ! i')" "rb_key (b ! i') = k" for i' k
  proof (rule rl_seek_reach [OF assms(1)])
    show "rl_reach b k i'" using assms(1) that by (auto simp: tab_wf_def)
    show "rl_stop k (b ! i')" using that by (simp add: rl_stop_def)
  qed
  from this [OF assms(2,4) refl] this [OF assms(3,5) refl] assms(6) show ?thesis
    by (metis option.inject)
qed

lemma tab_wf_insert:
  assumes wf: "tab_wf b" and j: "j < length b" "\<not> rb_in_use (b ! j)"
    and x: "rl_reach b (rb_key x) j"
  shows "tab_wf (b[j := x])"
proof -
  have keep: "rl_reach (b[j := x]) k i" if "rl_reach b k i" for k i
    using that j unfolding rl_reach_def by (metis length_list_update nth_list_update_neq)
  have "rl_reach (b[j := x]) (rb_key (b[j := x] ! i)) i" if "i < length b" "rb_in_use (b[j := x] ! i)" for i
    using wf keep x j that by (cases "i = j") (auto simp: tab_wf_def)
  with wf show ?thesis by (simp add: tab_wf_def)
qed

lemma tab_wf_change:
  assumes wf: "tab_wf b" and j: "j < length b" "rb_in_use (b ! j)"
    and x: "rb_key x = rb_key (b ! j)" "rb_in_use x"
  shows "tab_wf (b[j := x])"
proof -
  have keep: "rl_reach (b[j := x]) k i" if "rl_reach b k i" for k i
    using that j x unfolding rl_reach_def by (metis length_list_update nth_list_update_eq nth_list_update_neq)
  have "rl_reach (b[j := x]) (rb_key (b[j := x] ! i)) i" if "i < length b" "rb_in_use (b[j := x] ! i)" for i
    using wf keep x j that by (cases "i = j") (auto simp: tab_wf_def)
  with wf show ?thesis by (simp add: tab_wf_def)
qed

lemma tab_wf_empty: "tab_wf (replicate (2 ^ n) rb_zero)"
  by (auto simp: tab_wf_def rb_zero_def)

section \<open>Buckets in use\<close>

definition rl_used :: "rl_bucket list \<Rightarrow> rl_bucket set" where
  "rl_used b = {x \<in> set b. rb_in_use x}"

definition used_count :: "rl_bucket list \<Rightarrow> nat" where
  "used_count b = length (filter rb_in_use b)"

lemma used_count_insert:
  "j < length b \<Longrightarrow> \<not> rb_in_use (b ! j) \<Longrightarrow> rb_in_use x \<Longrightarrow> used_count (b[j := x]) = used_count b + 1"
proof (induction b arbitrary: j)
  case (Cons y b)
  then show ?case by (cases j) (auto simp: used_count_def)
qed simp

lemma used_count_change:
  "j < length b \<Longrightarrow> rb_in_use (b ! j) \<Longrightarrow> rb_in_use x \<Longrightarrow> used_count (b[j := x]) = used_count b"
proof (induction b arbitrary: j)
  case (Cons y b)
  then show ?case by (cases j) (auto simp: used_count_def)
qed simp

lemma rl_used_insert:
  "j < length b \<Longrightarrow> \<not> rb_in_use (b ! j) \<Longrightarrow> rb_in_use x \<Longrightarrow> rl_used (b[j := x]) = insert x (rl_used b)"
proof (induction b arbitrary: j)
  case (Cons y b)
  then show ?case by (cases j) (auto simp: rl_used_def)
qed simp

lemma free_slot:
  assumes "used_count b < length b"
  shows "\<exists>j<length b. \<not> rb_in_use (b ! j)"
proof (rule ccontr)
  assume "\<not> ?thesis"
  then have "\<forall>x \<in> set b. rb_in_use x" by (metis in_set_conv_nth)
  then have "filter rb_in_use b = b" by (simp add: filter_id_conv)
  with assms show False by (simp add: used_count_def)
qed

fun uniq_keys :: "rl_bucket list \<Rightarrow> bool" where
  "uniq_keys [] \<longleftrightarrow> True"
| "uniq_keys (x # xs) \<longleftrightarrow> (rb_in_use x \<longrightarrow> (\<forall>y \<in> rl_used xs. rb_key y \<noteq> rb_key x)) \<and> uniq_keys xs"

lemma uniq_keys_nth:
  "(\<And>i j. i < length b \<Longrightarrow> j < length b \<Longrightarrow> rb_in_use (b ! i) \<Longrightarrow> rb_in_use (b ! j) \<Longrightarrow>
      rb_key (b ! i) = rb_key (b ! j) \<Longrightarrow> i = j) \<Longrightarrow> uniq_keys b"
proof (induction b)
  case (Cons x xs)
  have "uniq_keys xs"
  proof (rule Cons.IH)
    fix i j
    assume "i < length xs" "j < length xs" "rb_in_use (xs ! i)" "rb_in_use (xs ! j)" "rb_key (xs ! i) = rb_key (xs ! j)"
    with Cons.prems [of "Suc i" "Suc j"] show "i = j" by simp
  qed
  moreover have "rb_key y \<noteq> rb_key x" if "rb_in_use x" "y \<in> rl_used xs" for y
  proof -
    from that obtain j where "j < length xs" "xs ! j = y" "rb_in_use y" by (auto simp: rl_used_def in_set_conv_nth)
    with Cons.prems [of 0 "Suc j"] that(1) show ?thesis by auto
  qed
  ultimately show ?case by simp
qed simp

lemma tab_wf_uniq: "tab_wf b \<Longrightarrow> uniq_keys b"
  by (rule uniq_keys_nth) (rule tab_wf_unique)

text \<open>Putting one bucket into the new table.\<close>

lemma rl_reinsert_ok:
  assumes "tab_wf nb" "used_count nb < length nb" "rb_in_use x" "\<forall>y \<in> rl_used nb. rb_key y \<noteq> rb_key x"
  shows "\<exists>nb'. rl_reinsert (length nb) x nb = Some nb' \<and> tab_wf nb' \<and> length nb' = length nb \<and>
    rl_used nb' = insert x (rl_used nb) \<and> used_count nb' = used_count nb + 1"
proof -
  from assms(1) obtain n where n: "length nb = 2 ^ n" by (auto simp: tab_wf_def)
  from free_slot [OF assms(2)] obtain j where "j < length nb" "\<not> rb_in_use (nb ! j)" by blast
  from rl_seek_free [OF assms(1) this, of "rb_key x"] assms(4) obtain i where i: "i < length nb"
    "rl_seek (\<lambda>y. \<not> rb_in_use y) nb (length nb) (rl_home (length nb) (rb_key x)) = Some i"
    "\<not> rb_in_use (nb ! i)" "rl_reach nb (rb_key x) i"
    by (auto simp: rl_used_def)
  have "hash_id (rb_key x) AND (length nb - 1) = rl_home (length nb) (rb_key x)"
    using and_pow2 [OF n] by (simp add: rl_home_def)
  with i assms(3) have "rl_reinsert (length nb) x nb = Some (nb[i := x])"
    by (simp add: rl_reinsert_def)
  with tab_wf_insert [OF assms(1) i(1,3,4)] rl_used_insert [OF i(1,3) assms(3)] used_count_insert [OF i(1,3) assms(3)]
  show ?thesis by simp
qed

lemma rl_rehash_ok:
  assumes "tab_wf nb" "used_count nb + used_count xs < length nb" "uniq_keys xs"
    and "\<forall>x \<in> rl_used xs. \<forall>y \<in> rl_used nb. rb_key y \<noteq> rb_key x"
  shows "\<exists>nb'. rl_rehash (length nb) xs nb = Some nb' \<and> tab_wf nb' \<and> length nb' = length nb \<and>
    rl_used nb' = rl_used nb \<union> rl_used xs \<and> used_count nb' = used_count nb + used_count xs"
  using assms
proof (induction xs arbitrary: nb)
  case Nil
  then show ?case by (simp add: rl_used_def used_count_def)
next
  case (Cons x xs)
  show ?case
  proof (cases "rb_in_use x")
    case False
    with Cons.prems have "used_count nb + used_count xs < length nb"
      "\<forall>x \<in> rl_used xs. \<forall>y \<in> rl_used nb. rb_key y \<noteq> rb_key x"
      by (auto simp: used_count_def rl_used_def)
    with Cons.IH [OF Cons.prems(1)] Cons.prems(3) False show ?thesis
      by (auto simp: rl_reinsert_def used_count_def rl_used_def)
  next
    case True
    have "x \<in> rl_used (x # xs)" using True by (simp add: rl_used_def)
    with Cons.prems(4) have "\<forall>y \<in> rl_used nb. rb_key y \<noteq> rb_key x" by blast
    moreover have uc: "used_count (x # xs) = used_count xs + 1" using True by (simp add: used_count_def)
    ultimately obtain nb1 where 1: "rl_reinsert (length nb) x nb = Some nb1" "tab_wf nb1"
      "length nb1 = length nb" "rl_used nb1 = insert x (rl_used nb)" "used_count nb1 = used_count nb + 1"
      using rl_reinsert_ok [OF Cons.prems(1) _ True] Cons.prems(2) by fastforce
    have "rl_used xs \<subseteq> rl_used (x # xs)" by (auto simp: rl_used_def)
    with Cons.prems(3,4) True have "\<forall>z \<in> rl_used xs. \<forall>y \<in> rl_used nb1. rb_key y \<noteq> rb_key z"
      unfolding 1(4) by fastforce
    with Cons.IH [OF 1(2)] 1 Cons.prems(2,3) uc obtain nb' where
      "rl_rehash (length nb1) xs nb1 = Some nb'" "tab_wf nb'" "length nb' = length nb1"
      "rl_used nb' = rl_used nb1 \<union> rl_used xs" "used_count nb' = used_count nb1 + used_count xs" by auto
    moreover have "rl_used (x # xs) = insert x (rl_used xs)" using True by (auto simp: rl_used_def)
    ultimately show ?thesis using 1 uc by simp
  qed
qed

section \<open>The limiter as a map\<close>

definition rl_inv :: "ratelimit \<Rightarrow> bool" where
  "rl_inv rl \<longleftrightarrow> tab_wf (rl_b rl) \<and> length (rl_b rl) = rl_cap rl \<and> 16 \<le> rl_cap rl \<and>
     rl_count rl = used_count (rl_b rl) \<and> rl_count rl \<le> rl_cap rl * 3 div 4"

definition rl_view :: "ratelimit \<Rightarrow> int \<Rightarrow> rl_bucket option" where
  "rl_view rl key = find (\<lambda>x. rb_in_use x \<and> rb_key x = key) (rl_b rl)"

definition rl_fresh :: "int \<Rightarrow> rl_bucket" where
  "rl_fresh key = rb_zero\<lparr>rb_in_use := True, rb_key := key\<rparr>"

definition rl_place :: "ratelimit \<Rightarrow> int \<Rightarrow> nat \<Rightarrow> bool" where
  "rl_place rl key i \<longleftrightarrow> i < rl_cap rl \<and> rb_in_use (rl_at rl i) \<and> rb_key (rl_at rl i) = key"

definition rl_like :: "rl_bucket \<Rightarrow> rl_bucket \<Rightarrow> bool" where
  "rl_like x y \<longleftrightarrow> rb_key y = rb_key x \<and> rb_in_use y = rb_in_use x"

definition rl_conf_eq :: "ratelimit \<Rightarrow> ratelimit \<Rightarrow> bool" where
  "rl_conf_eq a b \<longleftrightarrow> rl_pool b = rl_pool a \<and> rl_fail_open b = rl_fail_open a"

lemma rl_view_used:
  assumes "tab_wf (rl_b rl)"
  shows "rl_view rl key = Some x \<longleftrightarrow> x \<in> rl_used (rl_b rl) \<and> rb_key x = key"
proof
  assume "rl_view rl key = Some x"
  then show "x \<in> rl_used (rl_b rl) \<and> rb_key x = key"
    by (auto simp: rl_view_def rl_used_def find_Some_iff)
next
  assume r: "x \<in> rl_used (rl_b rl) \<and> rb_key x = key"
  then obtain y where y: "rl_view rl key = Some y"
    by (cases "rl_view rl key") (auto simp: rl_view_def rl_used_def find_None_iff)
  then have "y \<in> rl_used (rl_b rl)" "rb_key y = key" by (auto simp: rl_view_def rl_used_def find_Some_iff)
  with r tab_wf_unique [OF assms] have "x = y" by (auto simp: rl_used_def in_set_conv_nth)
  with y show "rl_view rl key = Some x" by simp
qed

lemma rl_view_none:
  "tab_wf (rl_b rl) \<Longrightarrow> rl_view rl key = None \<longleftrightarrow> (\<forall>x \<in> set (rl_b rl). rb_in_use x \<longrightarrow> rb_key x \<noteq> key)"
  by (auto simp: rl_view_def find_None_iff)

lemma rl_view_eqI:
  assumes "tab_wf (rl_b a)" "tab_wf (rl_b b)" "rl_used (rl_b a) = rl_used (rl_b b)"
  shows "rl_view a = rl_view b"
proof
  fix key
  show "rl_view a key = rl_view b key"
    using rl_view_used [OF assms(1), of key] rl_view_used [OF assms(2), of key] assms(3)
    by (cases "rl_view a key"; cases "rl_view b key") auto
qed

lemma rl_view_insert:
  assumes "tab_wf (rl_b a)" "tab_wf (rl_b b)" "rl_used (rl_b b) = insert x (rl_used (rl_b a))"
    and "rl_view a (rb_key x) = None"
  shows "rl_view b = (rl_view a)(rb_key x \<mapsto> x)"
proof
  fix key
  show "rl_view b key = ((rl_view a)(rb_key x \<mapsto> x)) key"
  proof (cases "key = rb_key x")
    case True
    then show ?thesis using rl_view_used [OF assms(2)] assms(3) by simp
  next
    case False
    then have "rl_view b key = Some y \<longleftrightarrow> rl_view a key = Some y" for y
      using rl_view_used [OF assms(1)] rl_view_used [OF assms(2)] assms(3) by auto
    with False show ?thesis by (cases "rl_view a key"; cases "rl_view b key") auto
  qed
qed

lemma rl_home_and: "rl_inv rl \<Longrightarrow> hash_id key AND (rl_cap rl - 1) = rl_home (length (rl_b rl)) key"
  unfolding rl_inv_def tab_wf_def rl_home_def by (metis and_pow2)

text \<open>The search finds the bucket of a known key.\<close>

lemma rl_find_known:
  assumes inv: "rl_inv rl" and v: "rl_view rl key = Some x"
  shows "\<exists>i. rl_find_or_make rl al key = Some (rl, Some i) \<and> rl_place rl key i \<and> rl_at rl i = x"
proof -
  from inv have wf: "tab_wf (rl_b rl)" and len: "length (rl_b rl) = rl_cap rl" by (auto simp: rl_inv_def)
  from v rl_view_used [OF wf] obtain i where i: "i < length (rl_b rl)" "rl_b rl ! i = x" "rb_in_use x" "rb_key x = key"
    by (auto simp: rl_used_def in_set_conv_nth)
  then have "rl_reach (rl_b rl) key i" using wf by (auto simp: tab_wf_def)
  from rl_seek_reach [OF wf this] i have "rl_seek (rl_stop key) (rl_b rl) (rl_cap rl) (hash_id key AND (rl_cap rl - 1)) = Some i"
    using rl_home_and [OF inv] len by (simp add: rl_stop_def)
  then show ?thesis using i len
    by (subst rl_find_or_make.simps) (simp add: rl_stop_def [abs_def] rl_place_def rl_at_def)
qed

lemma rl_make_new:
  assumes inv: "rl_inv rl" and v: "rl_view rl key = None" and room: "rl_count rl < rl_cap rl * 3 div 4"
  shows "\<exists>i rl'. rl_find_or_make rl al key = Some (rl', Some i) \<and> rl_inv rl' \<and> rl_place rl' key i \<and>
    rl_conf_eq rl rl' \<and> rl_view rl' = (rl_view rl)(key \<mapsto> rl_fresh key) \<and>
    rl_count rl' = rl_count rl + 1 \<and> rl_cap rl' = rl_cap rl"
proof -
  from inv have wf: "tab_wf (rl_b rl)" and len: "length (rl_b rl) = rl_cap rl" by (auto simp: rl_inv_def)
  from inv room have "used_count (rl_b rl) < length (rl_b rl)" by (auto simp: rl_inv_def)
  from free_slot [OF this] obtain j where "j < length (rl_b rl)" "\<not> rb_in_use (rl_b rl ! j)" by blast
  from rl_seek_free [OF wf this] rl_view_none [OF wf] v obtain i where i: "i < length (rl_b rl)"
    "rl_seek (rl_stop key) (rl_b rl) (length (rl_b rl)) (rl_home (length (rl_b rl)) key) = Some i"
    "\<not> rb_in_use (rl_b rl ! i)" "rl_reach (rl_b rl) key i" by metis
  let ?rl = "rl\<lparr>rl_b := (rl_b rl)[i := rl_fresh key], rl_count := rl_count rl + 1\<rparr>"
  have fr: "rb_key (rl_fresh key) = key" "rb_in_use (rl_fresh key)" by (simp_all add: rl_fresh_def)
  have wf': "tab_wf (rl_b ?rl)" using tab_wf_insert [OF wf i(1,3)] i(4) fr by simp
  have inv': "rl_inv ?rl"
    using inv wf' used_count_insert [OF i(1,3) fr(2)] room by (simp add: rl_inv_def)
  have "rl_view ?rl = (rl_view rl)(key \<mapsto> rl_fresh key)"
    using rl_view_insert [OF wf wf', of "rl_fresh key"] rl_used_insert [OF i(1,3) fr(2)] fr v by simp
  moreover have "rl_find_or_make rl al key = Some (?rl, Some i)"
    using i room rl_home_and [OF inv] len
    by (subst rl_find_or_make.simps) (simp add: rl_stop_def [abs_def] rl_fresh_def)
  moreover have "rl_place ?rl key i" using i len fr by (simp add: rl_place_def rl_at_def)
  ultimately show ?thesis using inv' by (fastforce simp: rl_conf_eq_def)
qed

text \<open>Doubling keeps the map and makes room.\<close>

lemma rl_double:
  assumes inv: "rl_inv rl"
  shows "\<exists>nb. rl_rehash (rl_cap rl * 2) (rl_b rl) (replicate (rl_cap rl * 2) rb_zero) = Some nb \<and>
    (let rl' = rl\<lparr>rl_b := nb, rl_cap := rl_cap rl * 2\<rparr>
     in rl_inv rl' \<and> rl_view rl' = rl_view rl \<and> rl_count rl' < rl_cap rl' * 3 div 4)"
proof -
  let ?e = "replicate (rl_cap rl * 2) rb_zero"
  from inv have wf: "tab_wf (rl_b rl)" and len: "length (rl_b rl) = rl_cap rl"
    and cnt: "rl_count rl = used_count (rl_b rl)" "rl_count rl \<le> rl_cap rl * 3 div 4" "16 \<le> rl_cap rl"
    by (auto simp: rl_inv_def)
  from wf len obtain n where "rl_cap rl * 2 = 2 ^ Suc n" by (auto simp: tab_wf_def)
  with tab_wf_empty have "tab_wf ?e" by metis
  moreover have e: "used_count ?e = 0" "rl_used ?e = {}" by (simp_all add: used_count_def rl_used_def rb_zero_def)
  ultimately obtain nb where nb: "rl_rehash (length ?e) (rl_b rl) ?e = Some nb" "tab_wf nb" "length nb = length ?e"
    "rl_used nb = rl_used (rl_b rl)" "used_count nb = used_count (rl_b rl)"
    using rl_rehash_ok [of ?e "rl_b rl"] tab_wf_uniq [OF wf] cnt by fastforce
  let ?rl = "rl\<lparr>rl_b := nb, rl_cap := rl_cap rl * 2\<rparr>"
  have "rl_view ?rl = rl_view rl" using rl_view_eqI [of ?rl rl] nb(2,4) wf by simp
  moreover have "rl_inv ?rl" "rl_count ?rl < rl_cap ?rl * 3 div 4"
    using nb cnt by (auto simp: rl_inv_def)
  ultimately show ?thesis using nb(1) by simp
qed

lemma rl_find_or_make_ok:
  assumes inv: "rl_inv rl"
  shows "\<exists>rl' bt. rl_find_or_make rl al key = Some (rl', bt) \<and> rl_inv rl' \<and> rl_conf_eq rl rl' \<and>
    (case bt of
       None \<Rightarrow> \<not> al \<and> rl' = rl \<and> rl_view rl key = None \<and> \<not> rl_count rl < rl_cap rl * 3 div 4
     | Some i \<Rightarrow> rl_place rl' key i \<and> rl_view rl' =
         (rl_view rl)(key \<mapsto> (case rl_view rl key of None \<Rightarrow> rl_fresh key | Some x \<Rightarrow> x)) \<and>
         rl_count rl' = rl_count rl + (if rl_view rl key = None then 1 else 0) \<and>
         (if rl_view rl key \<noteq> None \<or> rl_count rl < rl_cap rl * 3 div 4 then rl_cap rl' = rl_cap rl
          else al \<and> rl_cap rl' = rl_cap rl * 2))"
proof (cases "rl_view rl key")
  case (Some x)
  with rl_find_known [OF inv Some, of al] inv show ?thesis by (auto simp: rl_conf_eq_def fun_upd_idem)
next
  case None
  show ?thesis
  proof (cases "rl_count rl < rl_cap rl * 3 div 4")
    case True
    with rl_make_new [OF inv None True, of al] None show ?thesis by fastforce
  next
    case False
    from inv have wf: "tab_wf (rl_b rl)" and len: "length (rl_b rl) = rl_cap rl" by (auto simp: rl_inv_def)
    from inv have "used_count (rl_b rl) < length (rl_b rl)" by (auto simp: rl_inv_def)
    from free_slot [OF this] obtain j where "j < length (rl_b rl)" "\<not> rb_in_use (rl_b rl ! j)" by blast
    from rl_seek_free [OF wf this] rl_view_none [OF wf] None obtain i where i: "i < length (rl_b rl)"
      "rl_seek (rl_stop key) (rl_b rl) (length (rl_b rl)) (rl_home (length (rl_b rl)) key) = Some i"
      "\<not> rb_in_use (rl_b rl ! i)" by metis
    then have seek: "rl_seek (\<lambda>x. \<not> rb_in_use x \<or> rb_key x = key) (rl_b rl) (rl_cap rl)
        (hash_id key AND (rl_cap rl - 1)) = Some i"
      using rl_home_and [OF inv] len by (simp add: rl_stop_def [abs_def])
    show ?thesis
    proof (cases al)
      case False
      with seek i(3) None \<open>\<not> rl_count rl < _\<close> inv show ?thesis
        by (subst rl_find_or_make.simps) (simp add: rl_conf_eq_def)
    next
      case True
      from rl_double [OF inv] obtain nb where nb:
        "rl_rehash (rl_cap rl * 2) (rl_b rl) (replicate (rl_cap rl * 2) rb_zero) = Some nb"
        "rl_inv (rl\<lparr>rl_b := nb, rl_cap := rl_cap rl * 2\<rparr>)"
        "rl_view (rl\<lparr>rl_b := nb, rl_cap := rl_cap rl * 2\<rparr>) = rl_view rl"
        "rl_count rl < rl_cap rl * 2 * 3 div 4" by (auto simp: Let_def)
      let ?rl = "rl\<lparr>rl_b := nb, rl_cap := rl_cap rl * 2\<rparr>"
      from rl_make_new [OF nb(2), of key al] nb(3,4) None obtain i' rl' where
        "rl_find_or_make ?rl al key = Some (rl', Some i')" "rl_inv rl'" "rl_place rl' key i'"
        "rl_conf_eq ?rl rl'" "rl_view rl' = (rl_view rl)(key \<mapsto> rl_fresh key)"
        "rl_count rl' = rl_count rl + 1" "rl_cap rl' = rl_cap rl * 2" by auto
      moreover have "rl_find_or_make rl al key = rl_find_or_make ?rl al key"
        using seek i(3) \<open>\<not> rl_count rl < _\<close> nb(1) True by (subst rl_find_or_make.simps) simp
      ultimately show ?thesis using None True \<open>\<not> rl_count rl < _\<close> by (auto simp: rl_conf_eq_def)
    qed
  qed
qed

definition rl_touch :: "ratelimit \<Rightarrow> int \<Rightarrow> (ratelimit \<times> nat) option" where
  "rl_touch rl key = (case rl_find_or_make rl True key of Some (rl', Some i) \<Rightarrow> Some (rl', i) | _ \<Rightarrow> None)"

lemma rl_set_ok:
  assumes inv: "rl_inv rl" and pl: "rl_place rl key i" and like: "rl_like (rl_at rl i) x"
  shows "rl_inv (rl_set rl i x) \<and> rl_place (rl_set rl i x) key i \<and> rl_view (rl_set rl i x) = (rl_view rl)(key \<mapsto> x)"
proof -
  from inv have wf: "tab_wf (rl_b rl)" and len: "length (rl_b rl) = rl_cap rl" by (auto simp: rl_inv_def)
  from pl like have i: "i < length (rl_b rl)" "rb_in_use (rl_b rl ! i)" "rb_key (rl_b rl ! i) = key"
    "rb_key x = key" "rb_in_use x"
    by (auto simp: rl_place_def rl_at_def rl_like_def len)
  have wf': "tab_wf (rl_b (rl_set rl i x))" using tab_wf_change [OF wf i(1,2)] i by (simp add: rl_set_def)
  have inv': "rl_inv (rl_set rl i x)"
    using inv wf' used_count_change [OF i(1,2,5)] by (simp add: rl_inv_def rl_set_def)
  have mem: "y \<in> rl_used (rl_b (rl_set rl i x)) \<longleftrightarrow> y = x \<or> (y \<in> rl_used (rl_b rl) \<and> rb_key y \<noteq> key)" for y
  proof
    assume "y \<in> rl_used (rl_b (rl_set rl i x))"
    then obtain j where j: "j < length (rl_b rl)" "(rl_b rl)[i := x] ! j = y" "rb_in_use y"
      by (auto simp: rl_used_def rl_set_def in_set_conv_nth)
    with tab_wf_unique [OF wf, of i j] i show "y = x \<or> (y \<in> rl_used (rl_b rl) \<and> rb_key y \<noteq> key)"
      by (cases "j = i") (auto simp: rl_used_def)
  next
    assume y: "y = x \<or> (y \<in> rl_used (rl_b rl) \<and> rb_key y \<noteq> key)"
    show "y \<in> rl_used (rl_b (rl_set rl i x))"
    proof (cases "y = x")
      case True
      with i show ?thesis by (simp add: rl_used_def rl_set_def set_update_memI)
    next
      case False
      with y obtain j where "j < length (rl_b rl)" "rl_b rl ! j = y" "rb_in_use y" "rb_key y \<noteq> key"
        by (auto simp: rl_used_def in_set_conv_nth)
      moreover from this i have "j \<noteq> i" by auto
      ultimately have "(rl_b rl)[i := x] ! j = y" "j < length ((rl_b rl)[i := x])" "rb_in_use y" by auto
      then have "y \<in> set ((rl_b rl)[i := x])" by (metis nth_mem)
      with \<open>rb_in_use y\<close> show ?thesis by (simp add: rl_used_def rl_set_def)
    qed
  qed
  have "rl_view (rl_set rl i x) k = ((rl_view rl)(key \<mapsto> x)) k" for k
  proof (cases "k = key")
    case True
    with rl_view_used [OF wf', of k] mem i show ?thesis by simp
  next
    case False
    then have "rl_view (rl_set rl i x) k = Some y \<longleftrightarrow> rl_view rl k = Some y" for y
      using rl_view_used [OF wf', of k] rl_view_used [OF wf, of k] mem i(4) by auto
    with False show ?thesis by (cases "rl_view rl k"; cases "rl_view (rl_set rl i x) k") auto
  qed
  with inv' i len show ?thesis by (auto simp: rl_place_def rl_at_def rl_set_def)
qed

interpretation rlt: entry_table rl_inv rl_view rl_touch rl_place rl_at rl_set rl_fresh "\<lambda>_. True" rl_like
proof unfold_locales
  fix s k s' l
  assume "rl_inv s" "rl_touch s k = Some (s', l)"
  with rl_find_or_make_ok [OF this(1), of True k] show "rl_inv s' \<and> rl_place s' k l \<and>
      rl_view s' = (rl_view s)(k \<mapsto> case rl_view s k of None \<Rightarrow> rl_fresh k | Some e \<Rightarrow> e)"
    by (auto simp: rl_touch_def split: option.splits)
next
  fix s k l
  assume "rl_inv s" "rl_place s k l"
  then show "rl_view s k = Some (rl_at s l)"
    by (auto simp: rl_view_used rl_inv_def rl_place_def rl_at_def rl_used_def)
next
  fix s k l e
  assume "rl_inv s" "rl_place s k l" "rl_like (rl_at s l) e"
  then show "rl_inv (rl_set s l e) \<and> rl_place (rl_set s l e) k l \<and> rl_view (rl_set s l e) = (rl_view s)(k \<mapsto> e)"
    by (rule rl_set_ok)
qed

end
