(* ===== verification/Rate_Props.thy ===== *)
theory Rate_Props
  imports Rate_Table
begin

text \<open>
  What the limiter of \<^verbatim>\<open>src/policy/ratelimit.c\<close> promises: every operation returns and acts on a
  map of buckets, the bucket admits at most its capacity plus the refill, the retry hint is long
  enough, and the daily counters add up.
\<close>

section \<open>Operations on the view\<close>

definition rl_eff :: "ratelimit \<Rightarrow> int \<Rightarrow> rl_bucket" where
  "rl_eff rl key = (case rl_view rl key of None \<Rightarrow> rl_fresh key | Some x \<Rightarrow> x)"

lemma rl_found:
  assumes "rl_inv rl"
  shows "(\<exists>rl' i. rl_find_or_make rl al key = Some (rl', Some i) \<and> rl_inv rl' \<and> rl_conf_eq rl rl' \<and>
      rl_at rl' i = rl_eff rl key \<and>
      rl_view rl' = (rl_view rl)(key \<mapsto> rl_eff rl key) \<and>
      (\<forall>x. rl_like (rl_eff rl key) x \<longrightarrow> rl_inv (rl_set rl' i x) \<and>
         rl_view (rl_set rl' i x) = (rl_view rl)(key \<mapsto> x))) \<or>
    (\<not> al \<and> rl_find_or_make rl al key = Some (rl, None))"
proof -
  from rl_find_or_make_ok [OF assms, of al key] obtain rl' bt where
    1: "rl_find_or_make rl al key = Some (rl', bt)" "rl_inv rl'" "rl_conf_eq rl rl'"
    and 2: "case bt of None \<Rightarrow> \<not> al \<and> rl' = rl \<and> rl_view rl key = None \<and> \<not> rl_count rl < rl_cap rl * 3 div 4
       | Some i \<Rightarrow> rl_place rl' key i \<and> rl_view rl' =
           (rl_view rl)(key \<mapsto> (case rl_view rl key of None \<Rightarrow> rl_fresh key | Some x \<Rightarrow> x)) \<and>
           rl_count rl' = rl_count rl + (if rl_view rl key = None then 1 else 0) \<and>
           (if rl_view rl key \<noteq> None \<or> rl_count rl < rl_cap rl * 3 div 4 then rl_cap rl' = rl_cap rl
            else al \<and> rl_cap rl' = rl_cap rl * 2)"
    by (elim exE conjE) (rule that)
  show ?thesis
  proof (cases bt)
    case None
    with 1 2 show ?thesis by simp
  next
    case (Some i)
    with 2 have pl: "rl_place rl' key i" and v: "rl_view rl' = (rl_view rl)(key \<mapsto> rl_eff rl key)"
      by (auto simp: rl_eff_def)
    from rlt.at_law [OF 1(2) pl] v have "rl_at rl' i = rl_eff rl key" by simp
    with Some 1 pl v rlt.put_law [OF 1(2) pl] show ?thesis by auto
  qed
qed

lemma rl_like_allow [simp]: "rl_like x (snd (snd (rb_allow qps now x)))"
  by (simp add: rl_like_def rb_allow_def rb_take_def rb_refill_def Let_def)

lemma rl_like_used [simp]:
  "rl_like x (x\<lparr>rb_daily_used := n\<rparr>)" "rl_like x (x\<lparr>rb_daily_reasoning := n\<rparr>)" "rl_like x x"
  by (simp_all add: rl_like_def)

lemma rl_allow_view:
  assumes "rl_inv rl"
  shows "(\<exists>rl'. rl_allow_request_local rl al now key qps =
      Some (rl', fst (rb_allow qps now (rl_eff rl key)), fst (snd (rb_allow qps now (rl_eff rl key)))) \<and>
      rl_inv rl' \<and> rl_view rl' = (rl_view rl)(key \<mapsto> snd (snd (rb_allow qps now (rl_eff rl key))))) \<or>
    (\<not> al \<and> rl_allow_request_local rl al now key qps = Some (rl, -1, None))"
  using rl_found [OF assms, of al key]
  by (auto simp: rl_allow_request_local_def case_prod_unfold Let_def)

definition quota_rc :: "int \<Rightarrow> int \<Rightarrow> int" where
  "quota_rc quota used = (if quota > 0 \<and> used > quota then -1 else 0)"

lemma rl_reserve_view:
  fixes key :: int
  assumes "rl_inv rl"
  defines "x \<equiv> rl_eff rl key"
  shows "(\<exists>rl'. rl_reserve_tokens_local rl al key quota n = Some (rl', quota_rc quota (rb_daily_used x + n)) \<and>
      rl_inv rl' \<and> rl_view rl' = (rl_view rl)(key \<mapsto> x\<lparr>rb_daily_used := rb_daily_used x + n\<rparr>)) \<or>
    (\<not> al \<and> rl_reserve_tokens_local rl al key quota n = Some (rl, -1))"
  using rl_found [OF assms(1), of al key]
  by (auto simp: rl_reserve_tokens_local_def x_def Let_def quota_rc_def)

lemma rl_reserve_reasoning_view:
  fixes key :: int
  assumes "rl_inv rl"
  defines "x \<equiv> rl_eff rl key"
  shows "(\<exists>rl'. rl_reserve_reasoning_tokens_local rl al key quota n =
        Some (rl', quota_rc quota (rb_daily_reasoning x + n)) \<and>
      rl_inv rl' \<and> rl_view rl' = (rl_view rl)(key \<mapsto> x\<lparr>rb_daily_reasoning := rb_daily_reasoning x + n\<rparr>)) \<or>
    (\<not> al \<and> rl_reserve_reasoning_tokens_local rl al key quota n = Some (rl, -1))"
  using rl_found [OF assms(1), of al key]
  by (auto simp: rl_reserve_reasoning_tokens_local_def x_def Let_def quota_rc_def)

lemma rl_remaining_view:
  assumes "rl_inv rl"
  shows "(\<exists>rl'. rl_remaining_daily_local rl al key quota =
        Some (rl', if quota \<le> 0 then LONG_MAX else quota - rb_daily_used (rl_eff rl key)) \<and>
      rl_inv rl' \<and> rl_view rl' = (rl_view rl)(key \<mapsto> rl_eff rl key)) \<or>
    (\<not> al \<and> rl_remaining_daily_local rl al key quota = Some (rl, LONG_MAX))"
  using rl_found [OF assms(1), of al key]
  by (auto simp: rl_remaining_daily_local_def)

lemma rb_reset_day_same [simp]:
  "rb_in_use (rb_reset_day d x) = rb_in_use x" "rb_key (rb_reset_day d x) = rb_key x"
  by (simp_all add: rb_reset_day_def)

lemma rl_reset_view:
  assumes "rl_inv rl"
  shows "rl_inv (rl_reset_day rl now) \<and>
    rl_view (rl_reset_day rl now) = (\<lambda>k. map_option (rb_reset_day (utc_midnight now)) (rl_view rl k))"
proof
  let ?b = "map (rb_reset_day (utc_midnight now)) (rl_b rl)"
  have reach: "rl_reach ?b k i" if "rl_reach (rl_b rl) k i" "0 < length (rl_b rl)" for k i
    using that by (auto simp: rl_reach_def)
  from assms have "tab_wf (rl_b rl)" "0 < length (rl_b rl)" by (auto simp: rl_inv_def tab_wf_pos)
  then have "tab_wf ?b" using reach by (auto simp: tab_wf_def)
  moreover have "used_count ?b = used_count (rl_b rl)" by (simp add: used_count_def filter_map o_def)
  ultimately show "rl_inv (rl_reset_day rl now)" using assms by (simp add: rl_inv_def rl_reset_day_def)
  have "find P (map f xs) = map_option f (find (P \<circ> f) xs)" for P and f :: "rl_bucket \<Rightarrow> rl_bucket" and xs
    by (induction xs) auto
  then show "rl_view (rl_reset_day rl now) = (\<lambda>k. map_option (rb_reset_day (utc_midnight now)) (rl_view rl k))"
    by (simp add: rl_view_def rl_reset_day_def o_def fun_eq_iff)
qed

section \<open>Runs of operations\<close>

text \<open>
  The operations on the local buckets while memory lasts, which the bounds below are about. The
  public entry points, with Redis and failing allocations, are in \<open>Rate_Calls\<close>.
\<close>

datatype rl_op =
    RlAllow "64 word" int int
  | RlReserve int int int
  | RlReasoning int int int
  | RlRemaining int int
  | RlResetDay int

text \<open>A step with its result (the return code or the remaining quota).\<close>

fun rl_do :: "bool \<Rightarrow> ratelimit \<Rightarrow> rl_op \<Rightarrow> (ratelimit \<times> int) option" where
  "rl_do al rl (RlAllow now key qps) = map_option (\<lambda>(r, rc, _). (r, rc)) (rl_allow_request_local rl al now key qps)"
| "rl_do al rl (RlReserve key quota n) = rl_reserve_tokens_local rl al key quota n"
| "rl_do al rl (RlReasoning key quota n) = rl_reserve_reasoning_tokens_local rl al key quota n"
| "rl_do al rl (RlRemaining key quota) = rl_remaining_daily_local rl al key quota"
| "rl_do al rl (RlResetDay now) = Some (rl_reset_day rl now, 0)"

fun rl_run :: "ratelimit \<Rightarrow> rl_op list \<Rightarrow> (ratelimit \<times> int list) option" where
  "rl_run rl [] = Some (rl, [])"
| "rl_run rl (oper # ops) =
     (case rl_do True rl oper of
        None \<Rightarrow> None
      | Some (rl', rc) \<Rightarrow> map_option (\<lambda>(r, rcs). (r, rc # rcs)) (rl_run rl' ops))"

text \<open>The specification: a map from keys to buckets, a missing key being a zero bucket.\<close>

definition spec_bucket :: "(int \<Rightarrow> rl_bucket option) \<Rightarrow> int \<Rightarrow> rl_bucket" where
  "spec_bucket m key = (case m key of None \<Rightarrow> rl_fresh key | Some x \<Rightarrow> x)"

fun rl_spec :: "(int \<Rightarrow> rl_bucket option) \<Rightarrow> rl_op \<Rightarrow> (int \<Rightarrow> rl_bucket option) \<times> int" where
  "rl_spec m (RlAllow now key qps) =
     (m(key \<mapsto> snd (snd (rb_allow qps now (spec_bucket m key)))), fst (rb_allow qps now (spec_bucket m key)))"
| "rl_spec m (RlReserve key quota n) =
     (let x = spec_bucket m key; u = rb_daily_used x + n in (m(key \<mapsto> x\<lparr>rb_daily_used := u\<rparr>), quota_rc quota u))"
| "rl_spec m (RlReasoning key quota n) =
     (let x = spec_bucket m key; u = rb_daily_reasoning x + n
      in (m(key \<mapsto> x\<lparr>rb_daily_reasoning := u\<rparr>), quota_rc quota u))"
| "rl_spec m (RlRemaining key quota) =
     (m(key \<mapsto> spec_bucket m key), if quota \<le> 0 then LONG_MAX else quota - rb_daily_used (spec_bucket m key))"
| "rl_spec m (RlResetDay now) = ((\<lambda>k. map_option (rb_reset_day (utc_midnight now)) (m k)), 0)"

fun rl_spec_run :: "(int \<Rightarrow> rl_bucket option) \<Rightarrow> rl_op list \<Rightarrow> (int \<Rightarrow> rl_bucket option) \<times> int list" where
  "rl_spec_run m [] = (m, [])"
| "rl_spec_run m (oper # ops) =
     (let (m', rc) = rl_spec m oper; (m'', rcs) = rl_spec_run m' ops in (m'', rc # rcs))"

lemma rl_do_spec:
  assumes "rl_inv rl"
  shows "\<exists>rl'. rl_do True rl oper = Some (rl', snd (rl_spec (rl_view rl) oper)) \<and> rl_inv rl' \<and>
    rl_view rl' = fst (rl_spec (rl_view rl) oper)"
proof (cases oper)
  case (RlAllow now key qps)
  with rl_allow_view [OF assms, of True now key qps] show ?thesis by (auto simp: spec_bucket_def rl_eff_def)
next
  case (RlReserve key quota n)
  with rl_reserve_view [OF assms, of True key quota n] show ?thesis by (auto simp: spec_bucket_def rl_eff_def Let_def)
next
  case (RlReasoning key quota n)
  with rl_reserve_reasoning_view [OF assms, of True key quota n] show ?thesis
    by (auto simp: spec_bucket_def rl_eff_def Let_def)
next
  case (RlRemaining key quota)
  with rl_remaining_view [OF assms, of True key quota] show ?thesis by (auto simp: spec_bucket_def rl_eff_def)
next
  case (RlResetDay now)
  with rl_reset_view [OF assms, of now] show ?thesis by simp
qed

lemma rl_run_spec:
  assumes "rl_inv rl"
  shows "\<exists>rl'. rl_run rl ops = Some (rl', snd (rl_spec_run (rl_view rl) ops)) \<and> rl_inv rl' \<and>
    rl_view rl' = fst (rl_spec_run (rl_view rl) ops)"
  using assms
proof (induction ops arbitrary: rl)
  case (Cons oper ops)
  from rl_do_spec [OF Cons.prems, of oper] obtain rl1 where 1:
    "rl_do True rl oper = Some (rl1, snd (rl_spec (rl_view rl) oper))" "rl_inv rl1"
    "rl_view rl1 = fst (rl_spec (rl_view rl) oper)" by blast
  from Cons.IH [OF 1(2)] 1 show ?case by (auto simp: case_prod_unfold Let_def)
qed simp

lemma ratelimit_new_ok:
  assumes "ratelimit_new True = Some rl"
  shows "rl_inv rl \<and> rl_view rl = (\<lambda>_. None) \<and> rl_pool rl = False"
proof -
  have "rl_next_pow2 16 = 16" by (simp add: rl_next_pow2_def pow2_from.simps)
  with assms have rl: "rl = \<lparr>rl_b = replicate (2 ^ 4) rb_zero, rl_cap = 16, rl_count = 0, rl_pool = False, rl_fail_open = True\<rparr>"
    by (simp add: ratelimit_new_def)
  have "find P (replicate n rb_zero) = None" if "\<not> P rb_zero" for P n
    using that by (simp add: find_None_iff)
  then show ?thesis
    using tab_wf_empty [of 4]
    by (simp only: rl) (simp add: rl_inv_def used_count_def rl_view_def rb_zero_def fun_eq_iff)
qed

section \<open>The token bucket\<close>

text \<open>Requests of one key at the given times; the list of return codes.\<close>

definition rl_requests :: "ratelimit \<Rightarrow> int \<Rightarrow> int \<Rightarrow> 64 word list \<Rightarrow> (ratelimit \<times> int list) option" where
  "rl_requests rl key qps ts = rl_run rl (map (\<lambda>t. RlAllow t key qps) ts)"

fun rb_run :: "int \<Rightarrow> rl_bucket \<Rightarrow> 64 word list \<Rightarrow> int list" where
  "rb_run qps x [] = []"
| "rb_run qps x (t # ts) = fst (rb_allow qps t x) # rb_run qps (snd (snd (rb_allow qps t x))) ts"

lemma rl_requests_run:
  assumes "rl_inv rl"
  shows "\<exists>rl'. rl_requests rl key qps ts = Some (rl', rb_run qps (rl_eff rl key) ts)"
proof -
  have "snd (rl_spec_run m (map (\<lambda>t. RlAllow t key qps) ts)) = rb_run qps (spec_bucket m key) ts" for m
    by (induction ts arbitrary: m) (simp_all add: spec_bucket_def case_prod_unfold Let_def)
  with rl_run_spec [OF assms, of "map (\<lambda>t. RlAllow t key qps) ts"] show ?thesis
    by (auto simp: rl_requests_def rl_eff_def spec_bucket_def)
qed

definition admitted :: "int list \<Rightarrow> nat" where
  "admitted rcs = length (filter (\<lambda>rc. rc = 0) rcs)"

text \<open>Seconds between two clock readings.\<close>

definition secs :: "64 word \<Rightarrow> 64 word \<Rightarrow> real" where
  "secs a b = (real (unat b) - real (unat a)) / 1000000000"

lemma unat_diff: "unat a \<le> unat b \<Longrightarrow> real (unat (b - a)) / 1000000000 = secs a b"
  by (simp add: secs_def unat_sub word_le_nat_alt of_nat_diff)

lemma secs_nonneg: "unat a \<le> unat b \<Longrightarrow> 0 \<le> secs a b"
proof -
  assume "unat a \<le> unat b"
  then have "real (unat a) \<le> real (unat b)" by (rule of_nat_mono)
  then show ?thesis unfolding secs_def by (intro divide_nonneg_pos) linarith+
qed

lemma rb_refill_eval:
  assumes "rb_capacity x \<noteq> 0" "rb_last_refill x \<noteq> 0" "unat (rb_last_refill x) \<le> unat t"
  shows "rb_refill qps t x = x\<lparr>rb_tokens := min (rb_capacity x)
      (rb_tokens x + secs (rb_last_refill x) t * real_of_int qps), rb_last_refill := t\<rparr>"
  using assms(1,2) unfolding rb_refill_def Let_def unat_diff [OF assms(3)] by (simp add: min_def)

definition retry_ms :: "int \<Rightarrow> rl_bucket \<Rightarrow> int" where
  "retry_ms qps x = \<lfloor>(1 - rb_tokens x) / real_of_int qps * 1000\<rfloor> + 1"

lemma rb_take_reject:
  "fst (rb_take qps x) = -1 \<Longrightarrow> rb_tokens x < 1 \<and>
    rb_take qps x = (-1, Some (if retry_ms qps x < 1 then 1 else retry_ms qps x), x)"
proof (cases "rb_tokens x \<ge> 1")
  case True
  then show "fst (rb_take qps x) = -1 \<Longrightarrow> ?thesis" by (simp add: rb_take_def)
next
  case False
  then have "rb_take qps x = (-1, Some (if retry_ms qps x < 1 then 1 else retry_ms qps x), x)"
    unfolding rb_take_def Let_def retry_ms_def by (simp only: if_False)
  with False show ?thesis by simp
qed

lemma secs_add: "secs a b + secs b c = secs a c"
  by (simp add: secs_def diff_divide_distrib)

lemma rb_take_tokens:
  assumes "0 \<le> rb_tokens x"
  shows "rb_tokens (snd (snd (rb_take qps x))) + (if fst (rb_take qps x) = 0 then 1 else 0) = rb_tokens x \<and>
    0 \<le> rb_tokens (snd (snd (rb_take qps x))) \<and>
    rb_capacity (snd (snd (rb_take qps x))) = rb_capacity x \<and>
    rb_last_refill (snd (snd (rb_take qps x))) = rb_last_refill x"
  using assms by (auto simp: rb_take_def Let_def)

lemma rb_run_bound:
  assumes "0 < qps" "rb_capacity x \<noteq> 0" "0 \<le> rb_capacity x" "rb_last_refill x \<noteq> 0"
    and "0 \<le> rb_tokens x" "sorted (map unat (rb_last_refill x # ts))"
  shows "real (admitted (rb_run qps x ts)) \<le> rb_tokens x + secs (rb_last_refill x) (last (rb_last_refill x # ts)) * real_of_int qps"
  using assms
proof (induction ts arbitrary: x)
  case Nil
  then show ?case by (simp add: admitted_def secs_def)
next
  case (Cons t ts)
  let ?r = "rb_refill qps t x"
  let ?y = "snd (snd (rb_take qps ?r))"
  from Cons.prems(6) have le: "unat (rb_last_refill x) \<le> unat t" by simp
  then have e: "0 \<le> secs (rb_last_refill x) t * real_of_int qps"
    using Cons.prems(1) secs_nonneg by simp
  with Cons.prems le have r: "0 \<le> rb_tokens ?r" "rb_tokens ?r \<le> rb_tokens x + secs (rb_last_refill x) t * real_of_int qps"
    "rb_capacity ?r = rb_capacity x" "rb_last_refill ?r = t"
    by (auto simp: rb_refill_eval)
  from rb_take_tokens [OF r(1), of qps] r have y: "rb_capacity ?y = rb_capacity x" "rb_last_refill ?y = t" "0 \<le> rb_tokens ?y"
    "rb_tokens ?y + (if fst (rb_take qps ?r) = 0 then 1 else 0) = rb_tokens ?r" by auto
  have "t \<noteq> 0" using le Cons.prems(4) by (metis le_zero_eq unat_0 unat_eq_0)
  with Cons.IH [of ?y] Cons.prems y have ih: "real (admitted (rb_run qps ?y ts)) \<le>
      rb_tokens ?y + secs t (last (t # ts)) * real_of_int qps" by simp
  have al: "rb_allow qps t x = rb_take qps ?r" using Cons.prems(1) by (simp add: rb_allow_def)
  have "real (admitted (rb_run qps x (t # ts))) =
      (if fst (rb_take qps ?r) = 0 then 1 else 0) + real (admitted (rb_run qps ?y ts))"
    by (simp add: admitted_def al)
  also have "\<dots> \<le> rb_tokens ?r + secs t (last (t # ts)) * real_of_int qps" using ih y(4) by simp
  also have "\<dots> \<le> rb_tokens x + (secs (rb_last_refill x) t + secs t (last (t # ts))) * real_of_int qps"
    using r(2) by (simp add: distrib_right)
  also have "secs (rb_last_refill x) t + secs t (last (t # ts)) = secs (rb_last_refill x) (last (rb_last_refill x # t # ts))"
    by (simp add: secs_add)
  finally show ?case .
qed

text \<open>C30. A key seen for the first time is never admitted more often than its QPS (the burst) plus
  QPS times the seconds between the first and the last request, whatever the times between.\<close>

theorem ratelimit_admission_bound:
  assumes "rl_inv rl" and "rl_view rl key = None" and "0 < qps"
    and "sorted (map unat (t # ts))" and "t \<noteq> 0"
  shows "\<exists>rl' rcs. rl_requests rl key qps (t # ts) = Some (rl', rcs) \<and>
    real (admitted rcs) \<le> real_of_int qps + secs t (last (t # ts)) * real_of_int qps"
proof -
  let ?x = "rl_fresh key"
  let ?y = "snd (snd (rb_take qps (rb_refill qps t ?x)))"
  have r: "rb_tokens (rb_refill qps t ?x) = real_of_int qps" "rb_capacity (rb_refill qps t ?x) = real_of_int qps"
    "rb_last_refill (rb_refill qps t ?x) = t"
    by (simp_all add: rb_refill_def rl_fresh_def rb_zero_def)
  with rb_take_tokens [of "rb_refill qps t ?x" qps] assms(3)
  have y: "rb_tokens ?y + (if fst (rb_take qps (rb_refill qps t ?x)) = 0 then 1 else 0) = real_of_int qps"
    "0 \<le> rb_tokens ?y" "rb_capacity ?y = real_of_int qps" "rb_last_refill ?y = t" by auto
  from rb_run_bound [of qps ?y ts] y assms(3-5)
  have "real (admitted (rb_run qps ?y ts)) \<le> rb_tokens ?y + secs t (last (t # ts)) * real_of_int qps" by simp
  moreover have "real (admitted (rb_run qps ?x (t # ts))) =
      (if fst (rb_take qps (rb_refill qps t ?x)) = 0 then 1 else 0) + real (admitted (rb_run qps ?y ts))"
    using assms(3) by (simp add: admitted_def rb_allow_def)
  ultimately have "real (admitted (rb_run qps ?x (t # ts))) \<le> real_of_int qps + secs t (last (t # ts)) * real_of_int qps"
    using y(1) by simp
  with rl_requests_run [OF assms(1), of key qps "t # ts"] assms(2) show ?thesis
    by (auto simp: rl_eff_def)
qed

lemma rl_new_facts: "rl_inv (the (ratelimit_new True))" "rl_view (the (ratelimit_new True)) key = None"
  using ratelimit_new_ok [of "the (ratelimit_new True)"] by (simp_all add: ratelimit_new_def)

theorem ratelimit_admission_bound_witness:
  "\<exists>rl' rcs. rl_requests (the (ratelimit_new True)) 42 5 [1, 1, 500000001, 2000000001] = Some (rl', rcs) \<and>
    real (admitted rcs) \<le> 15"
  using ratelimit_admission_bound [OF rl_new_facts, of 5 1 "[1, 500000001, 2000000001]" 42]
  by (simp add: secs_def)

text \<open>The retry hint is long enough: a rejected caller that comes back \<open>retry_ms\<close> milliseconds
  later, with no request of that key in between, is admitted.\<close>

theorem ratelimit_retry_hint_suffices:
  assumes "rl_inv rl" and "0 < qps" and "rl_allow_request_local rl True t1 key qps = Some (rl1, -1, Some ms)"
    and "case rl_view rl key of None \<Rightarrow> True | Some x \<Rightarrow> rb_capacity x = 0 \<or> 1 \<le> rb_capacity x"
    and "unat t1 + nat ms * 1000000 \<le> unat t2"
  shows "\<exists>rl2. rl_allow_request_local rl1 True t2 key qps = Some (rl2, 0, None)"
proof -
  let ?x = "rl_eff rl key"
  let ?r = "rb_refill qps t1 ?x"
  from rl_allow_view [OF assms(1), of True t1 key qps] assms(2,3) have
    1: "rb_take qps ?r = (-1, Some ms, snd (snd (rb_take qps ?r)))" "rl_inv rl1"
      "rl_view rl1 key = Some (snd (snd (rb_take qps ?r)))"
    by (auto simp: rb_allow_def)
  from 1(1) have out: "fst (rb_take qps ?r) = -1" "fst (snd (rb_take qps ?r)) = Some ms" by (metis fst_conv snd_conv)+
  with rb_take_reject [of qps ?r] have tok: "rb_tokens ?r < 1" and rr: "snd (snd (rb_take qps ?r)) = ?r"
    and ms: "ms = (if retry_ms qps ?r < 1 then 1 else retry_ms qps ?r)" by simp_all
  have old: "rb_capacity ?x \<noteq> 0" "rb_last_refill ?x \<noteq> 0" using tok assms(2) by (auto simp: rb_refill_def split: if_splits)
  then have r: "rb_last_refill ?r = t1" "rb_capacity ?r = rb_capacity ?x" "1 \<le> rb_capacity ?r"
    using assms(4) by (auto simp: rb_refill_def Let_def rl_eff_def rl_fresh_def rb_zero_def split: option.splits)
  have "(1 - rb_tokens ?r) / real_of_int qps * 1000 < real_of_int (retry_ms qps ?r)"
    unfolding retry_ms_def by linarith
  then have need: "(1 - rb_tokens ?r) / real_of_int qps * 1000 \<le> real_of_int ms" "1 \<le> ms"
    unfolding ms by (auto split: if_splits)
  have "rb_tokens (rb_refill qps t2 ?r) \<ge> 1"
  proof (cases "t1 = 0")
    case True
    then show ?thesis using r assms(2) by (simp add: rb_refill_def)
  next
    case False
    have le: "unat t1 \<le> unat t2" using assms(5) by simp
    have "real (unat t1 + nat ms * 1000000) \<le> real (unat t2)" using assms(5) by (rule of_nat_mono)
    moreover have "real (nat ms) = real_of_int ms" using need(2) by simp
    ultimately have "real (unat t1) + real_of_int ms * 1000000 \<le> real (unat t2)"
      by (simp only: of_nat_add of_nat_mult of_nat_numeral)
    then have "real_of_int ms / 1000 \<le> secs t1 t2" by (simp add: secs_def field_simps)
    moreover have "y * 1000 \<le> m \<Longrightarrow> m / 1000 \<le> s \<Longrightarrow> y \<le> s" for y m s :: real by linarith
    ultimately have "(1 - rb_tokens ?r) / real_of_int qps \<le> secs t1 t2" using need(1) by blast
    then have "1 - rb_tokens ?r \<le> secs t1 t2 * real_of_int qps" using assms(2) by (simp add: pos_divide_le_eq)
    with r False le show ?thesis by (simp add: rb_refill_eval)
  qed
  then have al: "fst (rb_allow qps t2 ?r) = 0" "fst (snd (rb_allow qps t2 ?r)) = None"
    using assms(2) by (simp_all add: rb_allow_def rb_take_def)
  have eff1: "rl_eff rl1 key = ?r" using 1(3) rr unfolding rl_eff_def [of rl1] by simp
  from rl_allow_view [OF 1(2), of True t2 key qps, unfolded eff1] al show ?thesis by auto
qed


text \<open>Two requests at one instant with a QPS of 1: the second is rejected with a hint of 1001 ms.\<close>

lemma rl_two_requests:
  "\<exists>rl1 rl2. rl_allow_request_local (the (ratelimit_new True)) True 5 42 1 = Some (rl1, 0, None) \<and> rl_inv rl1 \<and>
     rl_allow_request_local rl1 True 5 42 1 = Some (rl2, -1, Some 1001) \<and>
     (\<exists>x. rl_view rl1 42 = Some x \<and> rb_capacity x = 1)"
proof -
  let ?x = "\<lparr>rb_key = 42, rb_in_use = True, rb_tokens = 0, rb_capacity = 1, rb_last_refill = 5,
             rb_daily_used = 0, rb_daily_reasoning = 0, rb_day = 0\<rparr> :: rl_bucket"
  have new: "rl_inv (the (ratelimit_new True))" "rl_eff (the (ratelimit_new True)) 42 = rl_fresh 42"
    using rl_new_facts(1) rl_new_facts(2) [of 42] by (simp_all add: rl_eff_def)
  have "rb_allow 1 5 (rl_fresh 42) = (0, None, ?x)"
    by (simp add: rb_allow_def rb_refill_def rb_take_def rl_fresh_def rb_zero_def)
  with rl_allow_view [OF new(1), of True 5 42 1] obtain rl1 where 1:
    "rl_allow_request_local (the (ratelimit_new True)) True 5 42 1 = Some (rl1, 0, None)" "rl_inv rl1"
    "rl_view rl1 = (rl_view (the (ratelimit_new True)))(42 \<mapsto> ?x)" by (auto simp: new(2))
  have "rb_allow 1 5 ?x = (-1, Some 1001, ?x)"
    by (simp add: rb_allow_def rb_refill_def rb_take_def Let_def)
  with rl_allow_view [OF 1(2), of True 5 42 1] 1(3) obtain rl2 where
    "rl_allow_request_local rl1 True 5 42 1 = Some (rl2, -1, Some 1001)" by (auto simp: rl_eff_def)
  with 1 show ?thesis by auto
qed

theorem ratelimit_retry_hint_suffices_witness:
  "\<exists>rl1 rl2 rl3. rl_allow_request_local (the (ratelimit_new True)) True 5 42 1 = Some (rl1, 0, None) \<and>
     rl_allow_request_local rl1 True 5 42 1 = Some (rl2, -1, Some 1001) \<and>
     rl_allow_request_local rl2 True 1001000005 42 1 = Some (rl3, 0, None)"
proof -
  from rl_two_requests obtain rl1 rl2 x where
    1: "rl_allow_request_local (the (ratelimit_new True)) True 5 42 1 = Some (rl1, 0, None)" "rl_inv rl1"
     "rl_allow_request_local rl1 True 5 42 1 = Some (rl2, -1, Some 1001)"
     "rl_view rl1 42 = Some x" "rb_capacity x = 1" by blast
  from ratelimit_retry_hint_suffices [OF 1(2) _ 1(3), of 1001000005] 1 show ?thesis by auto
qed

section \<open>Daily quotas\<close>

fun prefix_sums :: "int \<Rightarrow> int list \<Rightarrow> int list" where
  "prefix_sums s [] = []"
| "prefix_sums s (n # ns) = (s + n) # prefix_sums (s + n) ns"

text \<open>Reservations are recorded first: after any reservations for a key, each was refused
  exactly when the running total of the day exceeded the quota, refused ones count too, and what
  remains is the quota minus the total.\<close>

theorem ratelimit_quota_accounts:
  assumes "rl_inv rl" and "0 < quota"
  shows "\<exists>rl'. rl_run rl (map (RlReserve key quota) ns @ [RlRemaining key quota]) = Some (rl',
      map (\<lambda>s. if s > quota then -1 else 0) (prefix_sums (rb_daily_used (rl_eff rl key)) ns)
      @ [quota - (rb_daily_used (rl_eff rl key) + sum_list ns)])"
proof -
  have "snd (rl_spec_run m (map (RlReserve key quota) ns @ [RlRemaining key quota])) =
      map (\<lambda>s. if s > quota then -1 else 0) (prefix_sums (rb_daily_used (spec_bucket m key)) ns)
      @ [quota - (rb_daily_used (spec_bucket m key) + sum_list ns)]" for m
    using assms(2) by (induction ns arbitrary: m)
      (simp_all add: spec_bucket_def quota_rc_def Let_def case_prod_unfold)
  with rl_run_spec [OF assms(1), of "map (RlReserve key quota) ns @ [RlRemaining key quota]"] show ?thesis
    by (auto simp: rl_eff_def spec_bucket_def)
qed

theorem ratelimit_quota_accounts_witness:
  "\<exists>rl'. rl_run (the (ratelimit_new True)) [RlReserve 42 100 60, RlReserve 42 100 50, RlRemaining 42 100] =
     Some (rl', [0, -1, -10])"
  using ratelimit_quota_accounts [OF rl_new_facts(1), of 100 42 "[60, 50]"] rl_new_facts(2) [of 42]
  by (simp add: rl_eff_def rl_fresh_def rb_zero_def)

text \<open>Raising a key's QPS does not raise its burst: the capacity set by the first request stays,
  so requests at one instant are admitted at most as often as that capacity, however large the
  QPS they come with.\<close>

theorem ratelimit_capacity_is_first_qps:
  assumes "rl_inv rl" and "rl_view rl key = Some x" and "rb_capacity x \<noteq> 0" and "rb_last_refill x \<noteq> 0"
    and "0 < qps" and "unat (rb_last_refill x) \<le> unat t" and "0 \<le> rb_tokens x" "rb_tokens x \<le> rb_capacity x"
  shows "\<exists>rl' rcs. rl_requests rl key qps (replicate n t) = Some (rl', rcs) \<and> real (admitted rcs) \<le> rb_capacity x"
proof (cases n)
  case 0
  with rl_requests_run [OF assms(1), of key qps "[]"] assms(7,8) show ?thesis by (auto simp: admitted_def)
next
  case (Suc k)
  have r: "rb_refill qps t x = x\<lparr>rb_tokens := min (rb_capacity x)
      (rb_tokens x + secs (rb_last_refill x) t * real_of_int qps), rb_last_refill := t\<rparr>"
    by (rule rb_refill_eval) (use assms in auto)
  let ?y = "snd (snd (rb_take qps (rb_refill qps t x)))"
  have "0 \<le> secs (rb_last_refill x) t * real_of_int qps" using secs_nonneg [OF assms(6)] assms(5) by simp
  then have "0 \<le> rb_tokens (rb_refill qps t x)" "rb_tokens (rb_refill qps t x) \<le> rb_capacity x"
    using assms(7,8) by (auto simp: r)
  with rb_take_tokens [of "rb_refill qps t x" qps] have
    y: "rb_tokens ?y + (if fst (rb_take qps (rb_refill qps t x)) = 0 then 1 else 0) \<le> rb_capacity x"
      "0 \<le> rb_tokens ?y" "rb_capacity ?y = rb_capacity x" "rb_last_refill ?y = t" by (auto simp: r)
  have "t \<noteq> 0" using assms(4,6) by (metis le_zero_eq unat_0 unat_eq_0)
  then have "real (admitted (rb_run qps ?y (replicate k t))) \<le> rb_tokens ?y + secs t (last (t # replicate k t)) * real_of_int qps"
    using rb_run_bound [of qps ?y "replicate k t"] y(2-4) assms(3,5,7,8) by (simp add: sorted_replicate)
  moreover have "last (t # replicate k t) = t" by (cases k) auto
  moreover have "real (admitted (rb_run qps x (replicate (Suc k) t))) =
      (if fst (rb_take qps (rb_refill qps t x)) = 0 then 1 else 0) + real (admitted (rb_run qps ?y (replicate k t)))"
    using assms(5) by (simp add: admitted_def rb_allow_def)
  ultimately have "real (admitted (rb_run qps x (replicate n t))) \<le> rb_capacity x"
    using y(1) Suc by (simp add: secs_def)
  with rl_requests_run [OF assms(1), of key qps "replicate n t"] assms(2) show ?thesis by (auto simp: rl_eff_def)
qed

theorem ratelimit_capacity_is_first_qps_witness:
  "\<exists>rl1 rl' rcs. rl_allow_request_local (the (ratelimit_new True)) True 5 42 1 = Some (rl1, 0, None) \<and>
     rl_requests rl1 42 1000 (replicate 50 3600000000000) = Some (rl', rcs) \<and> admitted rcs \<le> 1"
proof -
  let ?x = "\<lparr>rb_key = 42, rb_in_use = True, rb_tokens = 0, rb_capacity = 1, rb_last_refill = 5,
             rb_daily_used = 0, rb_daily_reasoning = 0, rb_day = 0\<rparr> :: rl_bucket"
  have eff: "rl_eff (the (ratelimit_new True)) 42 = rl_fresh 42"
    using rl_new_facts(1) rl_new_facts(2) [of 42] by (simp add: rl_eff_def)
  have "rb_allow 1 5 (rl_fresh 42) = (0, None, ?x)"
    by (simp add: rb_allow_def rb_refill_def rb_take_def rl_fresh_def rb_zero_def)
  with rl_allow_view [OF rl_new_facts(1), of True 5 42 1] eff obtain rl1 where 1:
    "rl_allow_request_local (the (ratelimit_new True)) True 5 42 1 = Some (rl1, 0, None)" "rl_inv rl1"
    "rl_view rl1 42 = Some ?x" by auto
  from ratelimit_capacity_is_first_qps [OF 1(2,3), of 1000 3600000000000 50] 1(1) show ?thesis by simp
qed

text \<open>The first daily rollover wipes tokens of the same day: a bucket is created without a day,
  so whatever was reserved for a new key is dropped by a rollover to the current day.\<close>

theorem ratelimit_first_rollover_wipes:
  assumes "rl_inv rl" and "rl_view rl key = None" and "86400 \<le> now" and "0 < quota"
  shows "\<exists>rl'. rl_run rl [RlReserve key quota n, RlResetDay now, RlRemaining key quota] =
    Some (rl', [if n > quota then -1 else 0, 0, quota])"
proof -
  have "utc_midnight now \<noteq> 0" using assms(3) pos_mod_bound [of 86400 now] unfolding utc_midnight_def by linarith
  then have "snd (rl_spec_run (rl_view rl) [RlReserve key quota n, RlResetDay now, RlRemaining key quota]) =
      [if n > quota then -1 else 0, 0, quota]"
    using assms(2,4)
    by (simp add: spec_bucket_def quota_rc_def Let_def rl_fresh_def rb_zero_def rb_reset_day_def)
  with rl_run_spec [OF assms(1), of "[RlReserve key quota n, RlResetDay now, RlRemaining key quota]"] show ?thesis
    by auto
qed

theorem ratelimit_first_rollover_wipes_witness:
  "\<exists>rl'. rl_run (the (ratelimit_new True)) [RlReserve 42 100 90, RlResetDay 1700000000, RlRemaining 42 100] =
     Some (rl', [0, 0, 100])"
  using ratelimit_first_rollover_wipes [OF rl_new_facts, of 1700000000 100 42 90] by simp

section \<open>Keys in Redis\<close>

text \<open>The Redis counters of different keys or different UTC days have different names, and so have
  the counters of all tokens and of reasoning tokens.\<close>

theorem ratelimit_redis_keys_distinct:
  "(quota_key k w = quota_key k' w' \<longleftrightarrow> k = k' \<and> day_epoch w = day_epoch w') \<and>
   (quota_reasoning_key k w = quota_reasoning_key k' w' \<longleftrightarrow> k = k' \<and> day_epoch w = day_epoch w') \<and>
   (qps_key k = qps_key k' \<longleftrightarrow> k = k') \<and> quota_key k w \<noteq> quota_reasoning_key k' w'"
proof -
  have colon: "CHR '':'' \<notin> set (int_str i)" for i
    using int_str_digits [of "CHR '':''" i] by (auto simp: is_digit_def)
  show ?thesis
    by (auto simp: quota_key_def quota_reasoning_key_def qps_key_def append_sep_inj [OF colon colon])
qed

end
