(* ===== verification/Rate_Calls.thy ===== *)
theory Rate_Calls
  imports Rate_Props
begin

text \<open>
  Every entry point of \<^verbatim>\<open>src/policy/ratelimit.c\<close>, with and without a Redis pool, against a map of
  buckets. The environment of a call travels with it: the reply of the Redis script or of
  \<open>GET\<close>, whether \<open>calloc\<close> succeeds, the clocks. So a run may mix failing connections, failing
  allocations and changes of the configuration in any way.
\<close>

section \<open>Runs of calls\<close>

datatype rl_call =
    RlCallAllow redis_eval bool "64 word" nat int int
  | RlCallReserve redis_eval bool int int int int
  | RlCallReasoning redis_eval bool int int int int
  | RlCallRemaining redis_get bool int int int
  | RlCallRemainingReasoning redis_get bool int int int
  | RlCallResetDay int
  | RlCallSetPool bool
  | RlCallSetFailOpen int

text \<open>A call returns its result code or the remaining quota, and the value written to \<open>*retry_ms\<close>.\<close>

type_synonym rl_answer = "int \<times> int option"

definition no_retry :: "('s \<times> int) option \<Rightarrow> ('s \<times> rl_answer) option" where
  "no_retry r = map_option (\<lambda>(s, rc). (s, rc, None)) r"

fun rl_serve :: "ratelimit option \<Rightarrow> rl_call \<Rightarrow> (ratelimit option \<times> rl_answer) option" where
  "rl_serve rl (RlCallAllow eval al mono_ns wall_ms key qps) = rl_allow_request rl eval al mono_ns wall_ms key qps"
| "rl_serve rl (RlCallReserve eval al wall key quota n) = no_retry (rl_reserve_tokens rl eval al wall key quota n)"
| "rl_serve rl (RlCallReasoning eval al wall key quota n) =
     no_retry (rl_reserve_reasoning_tokens rl eval al wall key quota n)"
| "rl_serve rl (RlCallRemaining rget al wall key quota) = no_retry (rl_remaining_daily rl rget al wall key quota)"
| "rl_serve rl (RlCallRemainingReasoning rget al wall key quota) =
     no_retry (rl_remaining_daily_reasoning rl rget al wall key quota)"
| "rl_serve rl (RlCallResetDay now) = Some (map_option (\<lambda>r. rl_reset_day r now) rl, 0, None)"
| "rl_serve rl (RlCallSetPool p) = Some (map_option (\<lambda>r. ratelimit_set_redis_pool r p) rl, 0, None)"
| "rl_serve rl (RlCallSetFailOpen n) = Some (map_option (\<lambda>r. ratelimit_set_fail_open r n) rl, 0, None)"

fun rl_calls :: "ratelimit option \<Rightarrow> rl_call list \<Rightarrow> (ratelimit option \<times> rl_answer list) option" where
  "rl_calls rl [] = Some (rl, [])"
| "rl_calls rl (c # cs) =
     (case rl_serve rl c of
        None \<Rightarrow> None
      | Some (rl', a) \<Rightarrow> map_option (\<lambda>(r, as). (r, a # as)) (rl_calls rl' cs))"

section \<open>The specification\<close>

text \<open>
  A map from keys to buckets. The number of known keys and the capacity are part of it because
  they decide when a new key needs an allocation, and so which calls a failing \<open>calloc\<close> reaches.
\<close>

record lim_spec =
  ls_map :: "int \<Rightarrow> rl_bucket option"
  ls_count :: nat
  ls_cap :: nat
  ls_pool :: bool
  ls_open :: bool

definition lim_empty :: lim_spec where
  "lim_empty = \<lparr>ls_map = \<lambda>_. None, ls_count = 0, ls_cap = 16, ls_pool = False, ls_open = True\<rparr>"

text \<open>The bucket of a key, made when it is missing; \<open>None\<close> when that takes memory there is not.\<close>

definition spec_slot :: "bool \<Rightarrow> int \<Rightarrow> lim_spec \<Rightarrow> lim_spec option" where
  "spec_slot al key s =
     (if ls_map s key \<noteq> None then Some s
      else let s' = s\<lparr>ls_map := (ls_map s)(key \<mapsto> rl_fresh key), ls_count := ls_count s + 1\<rparr>
           in if ls_count s < ls_cap s * 3 div 4 then Some s'
              else if al then Some (s'\<lparr>ls_cap := ls_cap s * 2\<rparr>) else None)"

text \<open>A call on the local buckets: the operation on the bucket of the key, or the failure answer.\<close>

definition spec_local ::
  "bool \<Rightarrow> int \<Rightarrow> (rl_bucket \<Rightarrow> rl_answer \<times> rl_bucket) \<Rightarrow> rl_answer \<Rightarrow> lim_spec \<Rightarrow> lim_spec \<times> rl_answer" where
  "spec_local al key f failed s =
     (case spec_slot al key s of
        None \<Rightarrow> (s, failed)
      | Some s' \<Rightarrow> (let (a, x) = f (spec_bucket (ls_map s') key) in (s'\<lparr>ls_map := (ls_map s')(key \<mapsto> x)\<rparr>, a)))"

text \<open>
  With a pool the answer is Redis's and the buckets stay as they are; without a usable reply it is
  the local answer of a limiter that fails open, and \<open>shut\<close> otherwise. \<open>trivial\<close> is the answer of
  a call that needs no Redis at all.
\<close>

definition spec_remote ::
  "rl_answer option \<Rightarrow> rl_answer option \<Rightarrow> rl_answer \<Rightarrow> (lim_spec \<Rightarrow> lim_spec \<times> rl_answer) \<Rightarrow>
   lim_spec \<Rightarrow> lim_spec \<times> rl_answer" where
  "spec_remote trivial reply shut loc s =
     (if \<not> ls_pool s then loc s
      else case (trivial, reply) of
             (Some a, _) \<Rightarrow> (s, a)
           | (None, Some a) \<Rightarrow> (s, a)
           | (None, None) \<Rightarrow> if ls_open s then loc s else (s, shut))"

definition allow_bucket :: "int \<Rightarrow> 64 word \<Rightarrow> rl_bucket \<Rightarrow> rl_answer \<times> rl_bucket" where
  "allow_bucket qps now x = (let (rc, retry, y) = rb_allow qps now x in ((rc, retry), y))"

definition reserve_bucket :: "int \<Rightarrow> int \<Rightarrow> rl_bucket \<Rightarrow> rl_answer \<times> rl_bucket" where
  "reserve_bucket quota n x =
     (let u = rb_daily_used x + n in ((quota_rc quota u, None), x\<lparr>rb_daily_used := u\<rparr>))"

definition reasoning_bucket :: "int \<Rightarrow> int \<Rightarrow> rl_bucket \<Rightarrow> rl_answer \<times> rl_bucket" where
  "reasoning_bucket quota n x =
     (let u = rb_daily_reasoning x + n in ((quota_rc quota u, None), x\<lparr>rb_daily_reasoning := u\<rparr>))"

definition left_of :: "(rl_bucket \<Rightarrow> int) \<Rightarrow> int \<Rightarrow> rl_bucket \<Rightarrow> rl_answer \<times> rl_bucket" where
  "left_of used quota x = ((if quota \<le> 0 then LONG_MAX else quota - used x, None), x)"

definition reserve_reply :: "(int \<times> int) option \<Rightarrow> rl_answer option" where
  "reserve_reply r = map_option (\<lambda>(status, _). (if status = 0 then 0 else -1, None)) r"

definition allow_reply :: "(int \<times> int) option \<Rightarrow> rl_answer option" where
  "allow_reply r = map_option (\<lambda>(status, wait). if status = 1 then (0, None) else (-1, Some wait)) r"

definition get_reply :: "int \<Rightarrow> string option option \<Rightarrow> rl_answer option" where
  "get_reply quota r = map_option (\<lambda>v. (case v of None \<Rightarrow> quota | Some t \<Rightarrow> quota - strtol10 t, None)) r"

fun lim_do :: "lim_spec \<Rightarrow> rl_call \<Rightarrow> lim_spec \<times> rl_answer" where
  "lim_do s (RlCallAllow eval al mono_ns wall_ms key qps) =
     spec_remote (if qps \<le> 0 then Some (0, None) else None)
       (allow_reply (eval (qps_key key) [nat_str wall_ms, int_str qps, int_str qps, ''3'']))
       (-1, Some (-1)) (spec_local al key (allow_bucket qps mono_ns) (-1, None)) s"
| "lim_do s (RlCallReserve eval al wall key quota n) =
     spec_remote (if quota \<le> 0 \<and> n \<le> 0 then Some (0, None) else None)
       (reserve_reply (eval (quota_key key wall) [int_str n, int_str quota, ''172800'']))
       (-1, None) (spec_local al key (reserve_bucket quota n) (-1, None)) s"
| "lim_do s (RlCallReasoning eval al wall key quota n) =
     spec_remote (if quota \<le> 0 \<and> n \<le> 0 then Some (0, None) else None)
       (reserve_reply (eval (quota_reasoning_key key wall) [int_str n, int_str quota, ''90000'']))
       (-1, None) (spec_local al key (reasoning_bucket quota n) (-1, None)) s"
| "lim_do s (RlCallRemaining rget al wall key quota) =
     spec_remote (if quota \<le> 0 then Some (LONG_MAX, None) else None)
       (get_reply quota (rget (quota_key key wall)))
       (LONG_MIN, None) (spec_local al key (left_of rb_daily_used quota) (LONG_MAX, None)) s"
| "lim_do s (RlCallRemainingReasoning rget al wall key quota) =
     spec_remote (if quota \<le> 0 then Some (LONG_MAX, None) else None)
       (get_reply quota (rget (quota_reasoning_key key wall)))
       (LONG_MIN, None) (spec_local al key (left_of rb_daily_reasoning quota) (LONG_MAX, None)) s"
| "lim_do s (RlCallResetDay now) =
     (s\<lparr>ls_map := \<lambda>k. map_option (rb_reset_day (utc_midnight now)) (ls_map s k)\<rparr>, 0, None)"
| "lim_do s (RlCallSetPool p) = (s\<lparr>ls_pool := p\<rparr>, 0, None)"
| "lim_do s (RlCallSetFailOpen n) = (s\<lparr>ls_open := (n \<noteq> 0)\<rparr>, 0, None)"

fun lim_run :: "lim_spec \<Rightarrow> rl_call list \<Rightarrow> lim_spec \<times> rl_answer list" where
  "lim_run s [] = (s, [])"
| "lim_run s (c # cs) = (let (s1, a) = lim_do s c; (s2, as) = lim_run s1 cs in (s2, a # as))"

section \<open>The limiter does what the specification says\<close>

definition lim_of :: "ratelimit \<Rightarrow> lim_spec" where
  "lim_of rl = \<lparr>ls_map = rl_view rl, ls_count = rl_count rl, ls_cap = rl_cap rl, ls_pool = rl_pool rl,
                ls_open = rl_fail_open rl\<rparr>"

lemma lim_of_sel [simp]:
  "ls_map (lim_of rl) = rl_view rl" "ls_count (lim_of rl) = rl_count rl" "ls_cap (lim_of rl) = rl_cap rl"
  "ls_pool (lim_of rl) = rl_pool rl" "ls_open (lim_of rl) = rl_fail_open rl"
  by (simp_all add: lim_of_def)

lemma rl_set_conf [simp]:
  "rl_count (rl_set rl i x) = rl_count rl" "rl_cap (rl_set rl i x) = rl_cap rl"
  "rl_pool (rl_set rl i x) = rl_pool rl" "rl_fail_open (rl_set rl i x) = rl_fail_open rl"
  by (simp_all add: rl_set_def)

text \<open>The one place where the table enters.\<close>

lemma rl_slot:
  assumes "rl_inv rl"
  shows "case spec_slot al key (lim_of rl) of
      None \<Rightarrow> rl_find_or_make rl al key = Some (rl, None)
    | Some s \<Rightarrow> \<exists>rl' i. rl_find_or_make rl al key = Some (rl', Some i) \<and> rl_inv rl' \<and> rl_place rl' key i \<and>
        lim_of rl' = s \<and> rl_at rl' i = spec_bucket (ls_map s) key"
proof -
  from rl_find_or_make_ok [OF assms, of al key] obtain rl' bt where
    1: "rl_find_or_make rl al key = Some (rl', bt)" "rl_inv rl'" "rl_conf_eq rl rl'"
    and 2: "case bt of None \<Rightarrow> \<not> al \<and> rl' = rl \<and> rl_view rl key = None \<and> \<not> rl_count rl < rl_cap rl * 3 div 4
       | Some i \<Rightarrow> rl_place rl' key i \<and> rl_view rl' =
           (rl_view rl)(key \<mapsto> (case rl_view rl key of None \<Rightarrow> rl_fresh key | Some x \<Rightarrow> x)) \<and>
           rl_count rl' = rl_count rl + (if rl_view rl key = None then 1 else 0) \<and>
           (if rl_view rl key \<noteq> None \<or> rl_count rl < rl_cap rl * 3 div 4 then rl_cap rl' = rl_cap rl
            else al \<and> rl_cap rl' = rl_cap rl * 2)"
    by (elim exE conjE) (rule that)
  show ?thesis
  proof (cases bt)
    case None
    with 1 2 show ?thesis by (simp add: spec_slot_def)
  next
    case (Some i)
    with 2 have pl: "rl_place rl' key i" by simp
    from rlt.at_law [OF 1(2) pl] have at: "rl_at rl' i = spec_bucket (rl_view rl') key" by (simp add: spec_bucket_def)
    from Some 2 1(3) have "spec_slot al key (lim_of rl) = Some (lim_of rl')"
      by (cases "rl_view rl key") (auto simp: spec_slot_def lim_of_def rl_conf_eq_def Let_def fun_upd_idem split: if_splits)
    with Some 1 pl at show ?thesis by auto
  qed
qed

text \<open>What a limiter does on its local buckets, in terms of the specification.\<close>

definition serves :: "(ratelimit \<times> rl_answer) option \<Rightarrow> lim_spec \<times> rl_answer \<Rightarrow> bool" where
  "serves r sa \<longleftrightarrow> (\<exists>rl'. r = Some (rl', snd sa) \<and> rl_inv rl' \<and> lim_of rl' = fst sa)"

lemma rl_local_serves:
  assumes "rl_inv rl" and "\<And>x. rl_like x (snd (f x))"
    and "r = Option.bind (rl_find_or_make rl al key)
      (\<lambda>(rl1, bt). case bt of None \<Rightarrow> Some (rl1, failed)
        | Some i \<Rightarrow> Some (rl_set rl1 i (snd (f (rl_at rl1 i))), fst (f (rl_at rl1 i))))"
  shows "serves r (spec_local al key f failed (lim_of rl))"
proof (cases "spec_slot al key (lim_of rl)")
  case None
  with rl_slot [OF assms(1), of al key] assms(1,3) show ?thesis by (simp add: serves_def spec_local_def)
next
  case (Some s)
  with rl_slot [OF assms(1), of al key] obtain rl' i where
    1: "rl_find_or_make rl al key = Some (rl', Some i)" "rl_inv rl'" "rl_place rl' key i"
      "lim_of rl' = s" "rl_at rl' i = spec_bucket (ls_map s) key" by auto
  let ?x = "snd (f (rl_at rl' i))"
  from rlt.put_law [OF 1(2,3)] assms(2) have
    "rl_inv (rl_set rl' i ?x)" "rl_view (rl_set rl' i ?x) = (rl_view rl')(key \<mapsto> ?x)" by auto
  then have "rl_inv (rl_set rl' i ?x)" "lim_of (rl_set rl' i ?x) = s\<lparr>ls_map := (ls_map s)(key \<mapsto> ?x)\<rparr>"
    using 1(4) by (auto simp: lim_of_def)
  with 1(1,5) Some assms(3) show ?thesis by (simp add: serves_def spec_local_def case_prod_unfold Let_def)
qed

lemma rl_allow_serves:
  assumes "rl_inv rl"
  shows "serves (rl_allow_request_local rl al now key qps)
    (spec_local al key (allow_bucket qps now) (-1, None) (lim_of rl))"
  by (rule rl_local_serves [OF assms])
    (simp_all add: allow_bucket_def rl_allow_request_local_def case_prod_unfold Let_def cong: option.case_cong)

lemma rl_reserve_serves:
  assumes "rl_inv rl"
  shows "serves (no_retry (rl_reserve_tokens_local rl al key quota n))
    (spec_local al key (reserve_bucket quota n) (-1, None) (lim_of rl))"
  by (rule rl_local_serves [OF assms])
    (simp_all add: reserve_bucket_def rl_reserve_tokens_local_def no_retry_def quota_rc_def Let_def
      split: bind_split option.split)

lemma rl_reasoning_serves:
  assumes "rl_inv rl"
  shows "serves (no_retry (rl_reserve_reasoning_tokens_local rl al key quota n))
    (spec_local al key (reasoning_bucket quota n) (-1, None) (lim_of rl))"
  by (rule rl_local_serves [OF assms])
    (simp_all add: reasoning_bucket_def rl_reserve_reasoning_tokens_local_def no_retry_def quota_rc_def Let_def
      split: bind_split option.split)

lemma rl_set_at [simp]: "rl_set rl i (rl_at rl i) = rl"
  by (simp add: rl_set_def rl_at_def)

lemma rl_remaining_serves:
  assumes "rl_inv rl"
  shows "serves (no_retry (rl_remaining_daily_local rl al key quota))
      (spec_local al key (left_of rb_daily_used quota) (LONG_MAX, None) (lim_of rl)) \<and>
    serves (no_retry (rl_remaining_daily_reasoning_local rl al key quota))
      (spec_local al key (left_of rb_daily_reasoning quota) (LONG_MAX, None) (lim_of rl))"
  by (intro conjI rl_local_serves [OF assms])
    (simp_all add: left_of_def rl_remaining_daily_local_def rl_remaining_daily_reasoning_local_def no_retry_def
      split: bind_split option.split)

text \<open>The public entry point over the local one, with or without Redis.\<close>

lemma serves_remote:
  assumes "rl_inv rl" and "serves loc sa" and "\<And>s. s = lim_of rl \<Longrightarrow> lf s = sa"
    and "r = (if rl_pool rl
      then (case trivial of Some a \<Rightarrow> Some (Some rl, a)
            | None \<Rightarrow> (case reply of Some a \<Rightarrow> Some (Some rl, a)
                | None \<Rightarrow> if rl_fail_open rl then map_option (\<lambda>(r, a). (Some r, a)) loc else Some (Some rl, shut)))
      else map_option (\<lambda>(r, a). (Some r, a)) loc)"
  shows "\<exists>rl'. r = Some (Some rl', snd (spec_remote trivial reply shut lf (lim_of rl))) \<and> rl_inv rl' \<and>
    lim_of rl' = fst (spec_remote trivial reply shut lf (lim_of rl))"
proof -
  obtain s a where "sa = (s, a)" by (cases sa)
  with assms show ?thesis by (cases a) (auto simp: serves_def spec_remote_def split: option.split)
qed

lemma no_retry_remote [simp]:
  "no_retry (map_option (\<lambda>(r, x). (Some r, x)) y) = map_option (\<lambda>(r, a). (Some r, a)) (no_retry y)"
  "no_retry (Some (s, rc)) = Some (s, rc, None)"
  by (simp_all add: no_retry_def option.map_comp o_def case_prod_unfold)

lemma rl_reset_lim:
  assumes "rl_inv rl"
  shows "rl_inv (rl_reset_day rl now) \<and> lim_of (rl_reset_day rl now) = fst (lim_do (lim_of rl) (RlCallResetDay now))"
  using rl_reset_view [OF assms, of now] by (simp add: lim_of_def rl_reset_day_def)

lemma rl_view_conf [simp]:
  "rl_view (ratelimit_set_redis_pool rl p) = rl_view rl" "rl_view (ratelimit_set_fail_open rl n) = rl_view rl"
  by (simp_all add: fun_eq_iff rl_view_def ratelimit_set_redis_pool_def ratelimit_set_fail_open_def)

lemma rl_conf_sel [simp]:
  "rl_count (ratelimit_set_redis_pool rl p) = rl_count rl" "rl_cap (ratelimit_set_redis_pool rl p) = rl_cap rl"
  "rl_pool (ratelimit_set_redis_pool rl p) = p" "rl_fail_open (ratelimit_set_redis_pool rl p) = rl_fail_open rl"
  "rl_count (ratelimit_set_fail_open rl n) = rl_count rl" "rl_cap (ratelimit_set_fail_open rl n) = rl_cap rl"
  "rl_pool (ratelimit_set_fail_open rl n) = rl_pool rl" "rl_fail_open (ratelimit_set_fail_open rl n) = (n \<noteq> 0)"
  by (simp_all add: ratelimit_set_redis_pool_def ratelimit_set_fail_open_def)

lemma rl_conf_inv:
  "rl_inv rl \<Longrightarrow> rl_inv (ratelimit_set_redis_pool rl p) \<and> rl_inv (ratelimit_set_fail_open rl n)"
  by (simp add: rl_inv_def ratelimit_set_redis_pool_def ratelimit_set_fail_open_def)

lemma rl_serve_spec:
  assumes "rl_inv rl"
  shows "\<exists>rl'. rl_serve (Some rl) c = Some (Some rl', snd (lim_do (lim_of rl) c)) \<and> rl_inv rl' \<and>
    lim_of rl' = fst (lim_do (lim_of rl) c)"
proof (cases c)
  case (RlCallAllow eval al mono_ns wall_ms key qps)
  show ?thesis unfolding RlCallAllow lim_do.simps rl_serve.simps
    by (rule serves_remote [OF assms rl_allow_serves [OF assms]])
      (auto simp: rl_allow_request_def allow_reply_def split: option.split)
next
  case (RlCallReserve eval al wall key quota n)
  show ?thesis unfolding RlCallReserve lim_do.simps rl_serve.simps
    by (rule serves_remote [OF assms rl_reserve_serves [OF assms]])
      (auto simp: rl_reserve_tokens_def reserve_reply_def split: option.split)
next
  case (RlCallReasoning eval al wall key quota n)
  show ?thesis unfolding RlCallReasoning lim_do.simps rl_serve.simps
    by (rule serves_remote [OF assms rl_reasoning_serves [OF assms]])
      (auto simp: rl_reserve_reasoning_tokens_def reserve_reply_def split: option.split)
next
  case (RlCallRemaining rget al wall key quota)
  show ?thesis unfolding RlCallRemaining lim_do.simps rl_serve.simps
    by (rule serves_remote [OF assms conjunct1 [OF rl_remaining_serves [OF assms]]])
      (auto simp: rl_remaining_daily_def get_reply_def split: option.split)
next
  case (RlCallRemainingReasoning rget al wall key quota)
  show ?thesis unfolding RlCallRemainingReasoning lim_do.simps rl_serve.simps
    by (rule serves_remote [OF assms conjunct2 [OF rl_remaining_serves [OF assms]]])
      (auto simp: rl_remaining_daily_reasoning_def get_reply_def split: option.split)
next
  case (RlCallResetDay now)
  then show ?thesis using rl_reset_lim [OF assms, of now] by simp
next
  case (RlCallSetPool p)
  then show ?thesis using rl_conf_inv [OF assms]
    by (simp add: lim_of_def)
next
  case (RlCallSetFailOpen n)
  then show ?thesis using rl_conf_inv [OF assms]
    by (simp add: lim_of_def)
qed

lemma rl_calls_spec:
  assumes "rl_inv rl"
  shows "\<exists>rl'. rl_calls (Some rl) cs = Some (Some rl', snd (lim_run (lim_of rl) cs)) \<and> rl_inv rl' \<and>
    lim_of rl' = fst (lim_run (lim_of rl) cs)"
  using assms
proof (induction cs arbitrary: rl)
  case (Cons c cs)
  from rl_serve_spec [OF Cons.prems, of c] obtain rl1 where 1:
    "rl_serve (Some rl) c = Some (Some rl1, snd (lim_do (lim_of rl) c))" "rl_inv rl1"
    "lim_of rl1 = fst (lim_do (lim_of rl) c)" by blast
  from Cons.IH [OF 1(2)] 1 show ?case by (auto simp: case_prod_unfold Let_def)
qed simp

lemma ratelimit_new_lim:
  assumes "ratelimit_new True = Some rl"
  shows "rl_inv rl \<and> lim_of rl = lim_empty"
  using ratelimit_new_ok [OF assms] assms
  by (auto simp: lim_of_def lim_empty_def ratelimit_new_def rl_next_pow2_def pow2_from.simps)

text \<open>C7. From a new limiter every sequence of calls of the entry points (a request, the two
  reservations, the two questions for what is left, the midnight reset, and the two settings)
  on any keys returns: no probe loop spins, also across doublings of the table. The
  answers, the retry hints included, are those of a map from keys to buckets, and the buckets left
  are those of that map, whatever Redis replies, whichever allocations fail and whenever the pool
  or the fail-open setting changes.\<close>

theorem ratelimit_implements_map:
  assumes "ratelimit_new True = Some rl"
  shows "\<exists>rl'. rl_calls (Some rl) cs = Some (Some rl', snd (lim_run lim_empty cs)) \<and>
    rl_view rl' = ls_map (fst (lim_run lim_empty cs))"
proof -
  from ratelimit_new_lim [OF assms] rl_calls_spec [of rl cs] obtain rl' where
    "rl_calls (Some rl) cs = Some (Some rl', snd (lim_run lim_empty cs))"
    "lim_of rl' = fst (lim_run lim_empty cs)" by auto
  then show ?thesis by (metis lim_of_sel(1))
qed

text \<open>
  Local requests up to the burst, a limiter that fails closed behind a dead Redis, one that falls
  back on the same buckets, a reply of Redis, and a new key for which there is no memory once
  twelve keys are known.
\<close>

definition sample_calls :: "rl_call list" where
  "sample_calls =
     [RlCallAllow (\<lambda>_ _. None) False 5 0 42 1, RlCallAllow (\<lambda>_ _. None) False 5 0 42 1,
      RlCallReasoning (\<lambda>_ _. None) False 0 42 100 30,
      RlCallSetPool True, RlCallSetFailOpen 0, RlCallRemainingReasoning (\<lambda>_. None) False 0 42 100,
      RlCallSetFailOpen 1, RlCallRemainingReasoning (\<lambda>_. None) False 0 42 100,
      RlCallReserve (\<lambda>_ _. Some (1, 0)) False 0 42 100 7, RlCallSetPool False] @
     map (\<lambda>k. RlCallReserve (\<lambda>_ _. None) False 0 k 5 7) [0, 1, 2, 3, 4, 5, 6, 7, 8, 9, 10, 11]"

theorem ratelimit_implements_map_witness:
  "\<exists>rl'. rl_calls (ratelimit_new True) sample_calls =
    Some (Some rl', [(0, None), (-1, Some 1001), (0, None), (0, None), (0, None), (LONG_MIN, None),
      (0, None), (70, None), (-1, None), (0, None)] @ map (\<lambda>_. (-1, None)) [0, 1, 2, 3, 4, 5, 6, 7, 8, 9, 10, 11 :: int]) \<and>
    rl_view rl' 10 \<noteq> None \<and> rl_view rl' 11 = None"
proof -
  have new: "ratelimit_new True = Some (the (ratelimit_new True))" by (simp add: ratelimit_new_def)
  have "snd (lim_run lim_empty sample_calls) =
      [(0, None), (-1, Some 1001), (0, None), (0, None), (0, None), (LONG_MIN, None),
      (0, None), (70, None), (-1, None), (0, None)] @ map (\<lambda>_. (-1, None)) [0, 1, 2, 3, 4, 5, 6, 7, 8, 9, 10, 11 :: int] \<and>
    ls_map (fst (lim_run lim_empty sample_calls)) 10 \<noteq> None \<and>
    ls_map (fst (lim_run lim_empty sample_calls)) 11 = None"
    by (simp add: sample_calls_def lim_empty_def spec_remote_def spec_local_def spec_slot_def spec_bucket_def
      allow_bucket_def rb_allow_def rb_take_def rb_refill_def reserve_bucket_def reasoning_bucket_def left_of_def
      reserve_reply_def get_reply_def quota_rc_def rl_fresh_def rb_zero_def allow_reply_def)
  with ratelimit_implements_map [OF new, of sample_calls] new show ?thesis by auto
qed

end
