(* ===== verification/Redis_Scripts.thy ===== *)
theory Redis_Scripts
  imports Circuit_Breaker Rate_Limit
begin

text \<open>
  The Lua scripts of \<^verbatim>\<open>src/store/redis_scripts.h\<close>, which Redis runs atomically, as functions on
  the value of their one key: the new value, the time to live that \<open>EXPIRE\<close> sets (\<open>None\<close> when the
  script does not call it) and the two integers of the reply. A hash is a map from field names to
  numbers; a missing key is the empty map. Lua numbers that stay integral are integers, token
  amounts are real.
\<close>

section \<open>Token bucket\<close>

record qps_hash =
  qh_tokens :: real
  qh_last_ms :: int

definition SCRIPT_QPS_TOKEN_BUCKET ::
  "qps_hash option \<Rightarrow> int \<Rightarrow> int \<Rightarrow> int \<Rightarrow> int \<Rightarrow> qps_hash \<times> int \<times> (int \<times> int)" where
  "SCRIPT_QPS_TOKEN_BUCKET data now qps capacity ttl =
     (let tokens = (case data of
             None \<Rightarrow> real_of_int capacity
           | Some d \<Rightarrow> let delta = max 0 (now - qh_last_ms d)
                       in min (real_of_int capacity)
                              (qh_tokens d + real_of_int delta * (real_of_int qps / 1000)))
      in if tokens \<ge> 1
         then (\<lparr>qh_tokens = tokens - 1, qh_last_ms = now\<rparr>, ttl, (1, 0))
         else (\<lparr>qh_tokens = tokens, qh_last_ms = now\<rparr>, ttl,
               (0, \<lceil>(1 - tokens) * 1000 / real_of_int qps\<rceil>)))"

section \<open>Daily quota\<close>

definition SCRIPT_DAILY_QUOTA_CONSUME ::
  "int option \<Rightarrow> int \<Rightarrow> int \<Rightarrow> int \<Rightarrow> int \<times> int option \<times> (int \<times> int)" where
  "SCRIPT_DAILY_QUOTA_CONSUME st consumed quota ttl =
     (let total = (case st of None \<Rightarrow> 0 | Some v \<Rightarrow> v) + consumed
      in (total, if total = consumed then Some ttl else None,
          if quota > 0 \<and> total > quota then (-1, total) else (0, total)))"

section \<open>Admin lockout\<close>

definition SCRIPT_ADMIN_LOCKOUT :: "int option \<Rightarrow> int \<Rightarrow> int \<Rightarrow> int \<times> int option \<times> (int \<times> int)" where
  "SCRIPT_ADMIN_LOCKOUT st max_fails window_s =
     (let fails = (case st of None \<Rightarrow> 0 | Some v \<Rightarrow> v) + 1
      in (fails, if fails = 1 then Some window_s else None,
          if fails \<ge> max_fails then (1, fails) else (0, fails)))"

section \<open>Circuit breaker\<close>

type_synonym cb_hash = "string \<Rightarrow> int option"

definition hget0 :: "cb_hash \<Rightarrow> string \<Rightarrow> int" where
  "hget0 h f = (case h f of None \<Rightarrow> 0 | Some v \<Rightarrow> v)"

definition SCRIPT_CIRCUIT_BREAKER_SYNC ::
  "cb_hash \<Rightarrow> cb_action \<Rightarrow> int \<Rightarrow> int \<Rightarrow> int \<Rightarrow> cb_hash \<times> int option \<times> (int \<times> int)" where
  "SCRIPT_CIRCUIT_BREAKER_SYNC h action now_ms max_fails cooldown_ms =
     (let state = hget0 h ''state''; fails = hget0 h ''fails'';
          open_until = hget0 h ''open_until''; probe = hget0 h ''probe_active''
      in case action of
           RAllow \<Rightarrow>
             (if state = 2 then
                (if now_ms \<ge> open_until
                 then (h(''state'' \<mapsto> 1, ''fails'' \<mapsto> fails, ''probe_active'' \<mapsto> 1), Some 86400, (1, 1))
                 else (h, None, (0, 2)))
              else if state = 1 then
                (if probe = 0 then (h(''probe_active'' \<mapsto> 1), Some 86400, (1, 1)) else (h, None, (0, 1)))
              else (h, None, (1, 0)))
         | RSuccess \<Rightarrow>
             (if state = 1 \<or> fails > 0 \<or> state = 2
              then (h(''state'' \<mapsto> 0, ''fails'' \<mapsto> 0, ''open_until'' \<mapsto> 0, ''probe_active'' \<mapsto> 0),
                    Some 86400, (1, 0))
              else (h, None, (1, 0)))
         | RFail \<Rightarrow>
             (if state = 1
              then (h(''state'' \<mapsto> 2, ''open_until'' \<mapsto> now_ms + cooldown_ms, ''probe_active'' \<mapsto> 0),
                    Some 86400, (0, 2))
              else if fails + 1 \<ge> max_fails
              then (h(''state'' \<mapsto> 2, ''fails'' \<mapsto> fails + 1, ''open_until'' \<mapsto> now_ms + cooldown_ms,
                      ''probe_active'' \<mapsto> 0), Some 86400, (0, 2))
              else (h(''fails'' \<mapsto> fails + 1), Some 86400, (1, 0))))"

section \<open>Runs over the cluster\<close>

text \<open>Calls that gateways of the cluster make to one key, in the order Redis runs them.\<close>

fun cb_script_run :: "int \<Rightarrow> int \<Rightarrow> cb_hash \<Rightarrow> (cb_action \<times> int) list \<Rightarrow> cb_hash \<times> int list" where
  "cb_script_run mf cd h [] = (h, [])"
| "cb_script_run mf cd h ((a, t) # xs) =
     (case SCRIPT_CIRCUIT_BREAKER_SYNC h a t mf cd of (h', ttl, (allowed, st)) \<Rightarrow>
        case cb_script_run mf cd h' xs of (h'', rs) \<Rightarrow> (h'', allowed # rs))"

fun qps_script_run :: "int \<Rightarrow> qps_hash option \<Rightarrow> int list \<Rightarrow> int list" where
  "qps_script_run qps d [] = []"
| "qps_script_run qps d (t # ts) =
     (case SCRIPT_QPS_TOKEN_BUCKET d t qps qps 3 of (d', ttl, (status, w)) \<Rightarrow>
        status # qps_script_run qps (Some d') ts)"

lemma cb_script_probing:
  "hget0 h ''state'' = 1 \<Longrightarrow> hget0 h ''probe_active'' \<noteq> 0 \<Longrightarrow>
   snd (cb_script_run mf cd h (map (Pair RAllow) ts)) = replicate (length ts) 0"
  by (induction ts) (simp_all add: SCRIPT_CIRCUIT_BREAKER_SYNC_def case_prod_unfold)

text \<open>Over the whole cluster, once the cool-off of a distributed breaker has passed exactly one
  call, the first, is allowed through as the probe; all later ones are refused until an outcome
  is reported.\<close>

theorem cluster_single_probe:
  assumes "hget0 h ''state'' = 2" and "hget0 h ''open_until'' \<le> t"
  shows "snd (cb_script_run mf cd h (map (Pair RAllow) (t # ts))) = 1 # replicate (length ts) 0"
  using assms cb_script_probing [of "h(''state'' \<mapsto> 1, ''fails'' \<mapsto> hget0 h ''fails'', ''probe_active'' \<mapsto> 1)" mf cd ts]
  by (simp add: SCRIPT_CIRCUIT_BREAKER_SYNC_def case_prod_unfold) (simp add: hget0_def)

theorem cluster_single_probe_witness:
  "snd (cb_script_run 1 5000 (\<lambda>_. None) ((RFail, 100) # map (Pair RAllow) [5100, 5100, 9000])) = [0, 1, 0, 0]"
proof -
  let ?h = "(\<lambda>_. None) (''state'' \<mapsto> 2, ''fails'' \<mapsto> 1, ''open_until'' \<mapsto> 5100, ''probe_active'' \<mapsto> 0)"
  have "SCRIPT_CIRCUIT_BREAKER_SYNC (\<lambda>_. None) RFail 100 1 5000 = (?h, Some 86400, (0, 2))"
    by (simp add: SCRIPT_CIRCUIT_BREAKER_SYNC_def hget0_def)
  moreover have "snd (cb_script_run 1 5000 ?h (map (Pair RAllow) (5100 # [5100, 9000]))) = 1 # replicate (length [5100 :: int, 9000]) 0"
    by (rule cluster_single_probe) (simp_all add: hget0_def)
  ultimately show ?thesis by (simp add: case_prod_unfold)
qed

text \<open>Unlike the local breaker, the distributed one extends its cool-off: a failure reported
  while it is open (a request let through earlier, say) moves the deadline to the time of that
  failure plus the cool-off, so the calls up to there are refused.\<close>

theorem cluster_late_failure_extends:
  assumes "hget0 h ''state'' = 2" and "mf \<le> hget0 h ''fails'' + 1" and "\<forall>x \<in> set ts. x < t + cd"
  shows "snd (cb_script_run mf cd h ((RFail, t) # map (Pair RAllow) ts)) = 0 # replicate (length ts) 0"
proof -
  let ?h = "h(''state'' \<mapsto> 2, ''fails'' \<mapsto> hget0 h ''fails'' + 1, ''open_until'' \<mapsto> t + cd, ''probe_active'' \<mapsto> 0)"
  have "snd (cb_script_run mf cd ?h (map (Pair RAllow) ts)) = replicate (length ts) 0" using assms(3)
    by (induction ts) (simp_all add: SCRIPT_CIRCUIT_BREAKER_SYNC_def hget0_def case_prod_unfold)
  with assms(1,2) show ?thesis by (simp add: SCRIPT_CIRCUIT_BREAKER_SYNC_def case_prod_unfold)
qed

theorem cluster_late_failure_extends_witness:
  "snd (cb_script_run 3 30000 [''state'' \<mapsto> 2, ''fails'' \<mapsto> 3, ''open_until'' \<mapsto> 30000]
      ((RFail, 29000) # map (Pair RAllow) [30000, 58999])) = [0, 0, 0]"
  using cluster_late_failure_extends [of "[''state'' \<mapsto> 2, ''fails'' \<mapsto> 3, ''open_until'' \<mapsto> 30000]" 3 "[30000, 58999]" 29000 30000]
  by (simp add: hget0_def numeral_2_eq_2)

section \<open>The token bucket over the cluster\<close>

text \<open>The time to live of the bucket is not observable: for a QPS of at least 1 a bucket that has
  been idle for the three seconds of its time to live answers as if it did not exist.\<close>

theorem cluster_qps_expiry_unobservable:
  assumes "1 \<le> qps" and "0 \<le> qh_tokens d" and "qh_last_ms d + 3000 \<le> now"
  shows "SCRIPT_QPS_TOKEN_BUCKET (Some d) now qps qps 3 = SCRIPT_QPS_TOKEN_BUCKET None now qps qps 3"
proof -
  have "3000 * (real_of_int qps / 1000) \<le> real_of_int (now - qh_last_ms d) * (real_of_int qps / 1000)"
    using assms(1,3) by (intro mult_right_mono) auto
  with assms(1,2) have "real_of_int qps \<le> qh_tokens d + real_of_int (now - qh_last_ms d) * (real_of_int qps / 1000)"
    by linarith
  moreover have "max 0 (now - qh_last_ms d) = now - qh_last_ms d" using assms(3) by simp
  ultimately show ?thesis by (simp add: SCRIPT_QPS_TOKEN_BUCKET_def min_def)
qed

theorem cluster_qps_expiry_unobservable_witness:
  "SCRIPT_QPS_TOKEN_BUCKET (Some \<lparr>qh_tokens = 0, qh_last_ms = 7000\<rparr>) 10000 2 2 3 =
   SCRIPT_QPS_TOKEN_BUCKET None 10000 2 2 3"
  by (rule cluster_qps_expiry_unobservable) simp_all

text \<open>The bucket relies on the clocks of the gateways: the script stores the caller's clock even
  when it is behind the stored one, so two gateways whose clocks differ by a second and that call
  in turn refill the bucket on every round, and every call of the faster one is admitted, with no
  time passing.\<close>

theorem cluster_qps_skew_unbounded:
  assumes "1 \<le> qps"
  shows "\<forall>i < n. qps_script_run qps None (concat (replicate n [t, t + 1000])) ! (2 * i + 1) = 1"
proof -
  have step: "fst (snd (snd (SCRIPT_QPS_TOKEN_BUCKET (Some d) (t + 1000) qps qps 3))) = 1 \<and>
      0 \<le> qh_tokens (fst (SCRIPT_QPS_TOKEN_BUCKET (Some d) (t + 1000) qps qps 3))"
    if "0 \<le> qh_tokens d" "qh_last_ms d = t" for d
    using that assms by (auto simp: SCRIPT_QPS_TOKEN_BUCKET_def)
  have slow: "0 \<le> qh_tokens (fst (SCRIPT_QPS_TOKEN_BUCKET d t qps qps 3)) \<and>
      qh_last_ms (fst (SCRIPT_QPS_TOKEN_BUCKET d t qps qps 3)) = t"
    if "case d of None \<Rightarrow> True | Some x \<Rightarrow> 0 \<le> qh_tokens x" for d
    using that assms by (auto simp: SCRIPT_QPS_TOKEN_BUCKET_def Let_def split: option.splits)
  have "\<forall>i < n. qps_script_run qps d (concat (replicate n [t, t + 1000])) ! (2 * i + 1) = 1"
    if "case d of None \<Rightarrow> True | Some x \<Rightarrow> 0 \<le> qh_tokens x" for d
    using that
  proof (induction n arbitrary: d)
    case (Suc n)
    let ?d1 = "fst (SCRIPT_QPS_TOKEN_BUCKET d t qps qps 3)"
    let ?d2 = "fst (SCRIPT_QPS_TOKEN_BUCKET (Some ?d1) (t + 1000) qps qps 3)"
    note 1 = slow [OF Suc.prems]
    from Suc.IH [of "Some ?d2"] step [OF conjunct1 [OF 1] conjunct2 [OF 1]]
    show ?case by (auto simp: case_prod_unfold less_Suc_eq_0_disj)
  qed simp
  from this [of None] show ?thesis by simp
qed

theorem cluster_qps_skew_unbounded_witness:
  "qps_script_run 1 None (concat (replicate 40 [0, 1000])) ! 79 = 1"
  using cluster_qps_skew_unbounded [of 1 40 0] by (auto dest: spec [of _ 39])

end
