(* ===== verification/Chain_Table.thy ===== *)
theory Chain_Table
  imports Prelude
begin

text \<open>
  Chained hash tables as the sources use them (spend nodes, banned addresses): an array of
  chains, new entries in front, search by walking the chain of the key's bucket. The locale
  turns a table into a partial map, once for all of them.
\<close>

section \<open>Operations\<close>

fun upd_first :: "('e \<Rightarrow> bool) \<Rightarrow> ('e \<Rightarrow> 'e) \<Rightarrow> 'e list \<Rightarrow> 'e list" where
  "upd_first P f [] = []"
| "upd_first P f (x # xs) = (if P x then f x # xs else x # upd_first P f xs)"

fun del_first :: "('e \<Rightarrow> bool) \<Rightarrow> 'e list \<Rightarrow> 'e list" where
  "del_first P [] = []"
| "del_first P (x # xs) = (if P x then xs else x # del_first P xs)"

definition ct_find :: "('e \<Rightarrow> 'k) \<Rightarrow> ('k \<Rightarrow> nat) \<Rightarrow> 'e list list \<Rightarrow> 'k \<Rightarrow> 'e option" where
  "ct_find keyof h b k = find (\<lambda>e. keyof e = k) (b ! h k)"

definition ct_update :: "('e \<Rightarrow> 'k) \<Rightarrow> ('k \<Rightarrow> nat) \<Rightarrow> ('e \<Rightarrow> 'e) \<Rightarrow> 'e list list \<Rightarrow> 'k \<Rightarrow> 'e list list" where
  "ct_update keyof h f b k = b[h k := upd_first (\<lambda>e. keyof e = k) f (b ! h k)]"

definition ct_insert :: "('k \<Rightarrow> nat) \<Rightarrow> 'e list list \<Rightarrow> 'k \<Rightarrow> 'e \<Rightarrow> 'e list list" where
  "ct_insert h b k e = b[h k := e # (b ! h k)]"

definition ct_delete :: "('e \<Rightarrow> 'k) \<Rightarrow> ('k \<Rightarrow> nat) \<Rightarrow> 'e list list \<Rightarrow> 'k \<Rightarrow> 'e list list" where
  "ct_delete keyof h b k = b[h k := del_first (\<lambda>e. keyof e = k) (b ! h k)]"

lemma find_upd_first:
  "find (\<lambda>e. keyof e = k') (upd_first (\<lambda>e. keyof e = k) f xs) =
   (if k' = k then map_option f (find (\<lambda>e. keyof e = k) xs) else find (\<lambda>e. keyof e = k') xs)"
  if "\<And>e. keyof e = k \<Longrightarrow> keyof (f e) = k"
  using that by (induction xs) auto

lemma map_upd_first: "(\<And>e. keyof e = k \<Longrightarrow> keyof (f e) = k) \<Longrightarrow>
    map keyof (upd_first (\<lambda>e. keyof e = k) f xs) = map keyof xs"
  by (induction xs) auto

lemma set_del_first: "set (del_first P xs) \<subseteq> set xs"
  by (induction xs) auto

lemma del_first_distinct:
  "distinct (map keyof xs) \<Longrightarrow> distinct (map keyof (del_first P xs))"
  by (induction xs) (use set_del_first in fastforce)+

lemma find_del_first:
  "distinct (map keyof xs) \<Longrightarrow> find (\<lambda>e. keyof e = k') (del_first (\<lambda>e. keyof e = k) xs) =
     (if k' = k then None else find (\<lambda>e. keyof e = k') xs)"
proof (induction xs)
  case (Cons x xs)
  then have "\<forall>e \<in> set xs. keyof e \<noteq> keyof x" by (auto simp: image_iff)
  with Cons show ?case by (auto simp: find_None_iff)
qed simp

section \<open>Tables as maps\<close>

definition ct_ok :: "('e \<Rightarrow> 'k) \<Rightarrow> ('k \<Rightarrow> nat) \<Rightarrow> nat \<Rightarrow> 'e list list \<Rightarrow> bool" where
  "ct_ok keyof h n b \<longleftrightarrow> length b = n \<and>
     (\<forall>i<n. distinct (map keyof (b ! i)) \<and> (\<forall>e \<in> set (b ! i). h (keyof e) = i))"

locale chain_table =
  fixes keyof :: "'e \<Rightarrow> 'k" and h :: "'k \<Rightarrow> nat" and n :: nat
  assumes hash_less: "h k < n"
begin

lemma empty_ok: "ct_ok keyof h n (replicate n []) \<and> ct_find keyof h (replicate n []) = (\<lambda>_. None)"
  using hash_less by (simp add: ct_ok_def ct_find_def fun_eq_iff)

lemma find_key: "ct_find keyof h b k = Some e \<Longrightarrow> keyof e = k"
  by (auto simp: ct_find_def find_Some_iff)

lemma update_view:
  assumes "ct_ok keyof h n b" and "ct_find keyof h b k = Some e" and "\<And>e. keyof (f e) = keyof e"
  shows "ct_ok keyof h n (ct_update keyof h f b k) \<and>
    ct_find keyof h (ct_update keyof h f b k) = (ct_find keyof h b)(k \<mapsto> f e)"
proof
  have len: "length b = n" using assms(1) by (simp add: ct_ok_def)
  have m: "map keyof (upd_first (\<lambda>e. keyof e = k) f (b ! h k)) = map keyof (b ! h k)"
    using assms(3) by (intro map_upd_first) simp
  have ok: "ct_ok keyof h n x \<longleftrightarrow> length x = n \<and>
      (\<forall>i<n. distinct (map keyof (x ! i)) \<and> (\<forall>y \<in> set (map keyof (x ! i)). h y = i))" for x
    by (simp add: ct_ok_def)
  show "ct_ok keyof h n (ct_update keyof h f b k)"
    using assms(1) hash_less [of k] unfolding ok ct_update_def
    by (simp add: nth_list_update m del: set_map)
  show "ct_find keyof h (ct_update keyof h f b k) = (ct_find keyof h b)(k \<mapsto> f e)"
  proof
    fix k'
    show "ct_find keyof h (ct_update keyof h f b k) k' = ((ct_find keyof h b)(k \<mapsto> f e)) k'"
      using find_upd_first [of keyof k f k' "b ! h k"] assms(2,3) hash_less [of k] len
      by (cases "h k' = h k") (auto simp: ct_find_def ct_update_def)
  qed
qed

lemma insert_view:
  assumes "ct_ok keyof h n b" and "ct_find keyof h b k = None" and "keyof e = k"
  shows "ct_ok keyof h n (ct_insert h b k e) \<and>
    ct_find keyof h (ct_insert h b k e) = (ct_find keyof h b)(k \<mapsto> e)"
proof
  have len: "length b = n" using assms(1) by (simp add: ct_ok_def)
  from assms(2) have "k \<notin> keyof ` set (b ! h k)" by (auto simp: ct_find_def find_None_iff)
  with assms(1,3) hash_less [of k] show "ct_ok keyof h n (ct_insert h b k e)"
    by (auto simp: ct_ok_def ct_insert_def nth_list_update)
  show "ct_find keyof h (ct_insert h b k e) = (ct_find keyof h b)(k \<mapsto> e)"
  proof
    fix k'
    show "ct_find keyof h (ct_insert h b k e) k' = ((ct_find keyof h b)(k \<mapsto> e)) k'"
      using assms(3) hash_less [of k] len
      by (cases "h k' = h k") (auto simp: ct_find_def ct_insert_def)
  qed
qed

lemma delete_view:
  assumes "ct_ok keyof h n b"
  shows "ct_ok keyof h n (ct_delete keyof h b k) \<and>
    ct_find keyof h (ct_delete keyof h b k) = (ct_find keyof h b)(k := None)"
proof
  have len: "length b = n" using assms by (simp add: ct_ok_def)
  have dist: "distinct (map keyof (b ! h k))" using assms hash_less [of k] by (simp add: ct_ok_def)
  show "ct_ok keyof h n (ct_delete keyof h b k)"
    using assms hash_less [of k] del_first_distinct [OF dist] set_del_first [of _ "b ! h k"]
    by (fastforce simp: ct_ok_def ct_delete_def nth_list_update)
  show "ct_find keyof h (ct_delete keyof h b k) = (ct_find keyof h b)(k := None)"
  proof
    fix k'
    show "ct_find keyof h (ct_delete keyof h b k) k' = ((ct_find keyof h b)(k := None)) k'"
      using find_del_first [OF dist, of k' k] hash_less [of k] len
      by (cases "h k' = h k") (auto simp: ct_find_def ct_delete_def)
  qed
qed

end

end
