(* ===== verification/Ip_Ban.thy ===== *)
theory Ip_Ban
  imports Chain_Table
begin

text \<open>
  \<^verbatim>\<open>src/policy/ip_ban_table.c\<close>: banned client addresses with an expiry time. \<open>now\<close> is \<open>time(NULL)\<close>,
  \<open>ip\<close> may be NULL, \<open>alloc_ok\<close> says whether \<open>calloc\<close> succeeds. A NULL table handle makes every
  operation return at once and is left out.
\<close>

section \<open>State and operations\<close>

record ip_ban_info =
  ib_ip :: string
  ib_expires_at :: int
  ib_reason :: string
  ib_hit_count :: "32 word"

record ip_ban_table =
  ibt_buckets :: "ip_ban_info list list"
  ibt_count :: nat

definition IP_BAN_BUCKETS :: nat where "IP_BAN_BUCKETS = 4096"

definition ip_hash :: "string \<Rightarrow> nat" where
  "ip_hash ip = unat (djb2 5381 ip) mod IP_BAN_BUCKETS"

definition ip_ban_table_create :: "bool \<Rightarrow> ip_ban_table option" where
  "ip_ban_table_create alloc_ok =
     (if alloc_ok then Some \<lparr>ibt_buckets = replicate IP_BAN_BUCKETS [], ibt_count = 0\<rparr> else None)"

text \<open>The result and, when a reason buffer of \<open>cap\<close> bytes is given, what is written to it.\<close>

definition ip_ban_table_is_banned ::
  "ip_ban_table \<Rightarrow> int \<Rightarrow> string option \<Rightarrow> nat \<Rightarrow> ip_ban_table \<times> bool \<times> string option" where
  "ip_ban_table_is_banned tbl now ip cap =
     (case ip of
        None \<Rightarrow> (tbl, False, None)
      | Some a \<Rightarrow>
          if a = [] then (tbl, False, None)
          else case ct_find ib_ip ip_hash (ibt_buckets tbl) a of
                 None \<Rightarrow> (tbl, False, None)
               | Some e \<Rightarrow>
                   if ib_expires_at e \<le> now then (tbl, False, None)
                   else (tbl\<lparr>ibt_buckets := ct_update ib_ip ip_hash
                               (\<lambda>e. e\<lparr>ib_hit_count := ib_hit_count e + 1\<rparr>) (ibt_buckets tbl) a\<rparr>,
                         True, if cap > 0 then Some (cstr_copy cap (ib_reason e)) else None))"

definition ip_ban_table_ban ::
  "ip_ban_table \<Rightarrow> int \<Rightarrow> bool \<Rightarrow> string option \<Rightarrow> int \<Rightarrow> string option \<Rightarrow> ip_ban_table \<times> int" where
  "ip_ban_table_ban tbl now alloc_ok ip ttl_sec reason =
     (case ip of
        None \<Rightarrow> (tbl, -1)
      | Some a \<Rightarrow>
          if a = [] then (tbl, -1)
          else let expires_at = now + (if ttl_sec \<le> 0 then 3600 else ttl_sec) in
            (case ct_find ib_ip ip_hash (ibt_buckets tbl) a of
               Some _ \<Rightarrow>
                 (tbl\<lparr>ibt_buckets := ct_update ib_ip ip_hash
                        (\<lambda>e. e\<lparr>ib_expires_at := expires_at,
                               ib_reason := (case reason of Some r \<Rightarrow> cstr_copy 64 r | None \<Rightarrow> ib_reason e)\<rparr>)
                        (ibt_buckets tbl) a\<rparr>, 0)
             | None \<Rightarrow>
                 if \<not> alloc_ok then (tbl, -1)
                 else (tbl\<lparr>ibt_buckets := ct_insert ip_hash (ibt_buckets tbl) a
                             \<lparr>ib_ip = cstr_copy 48 a, ib_expires_at = expires_at,
                              ib_reason = (case reason of Some r \<Rightarrow> cstr_copy 64 r | None \<Rightarrow> []),
                              ib_hit_count = 0\<rparr>,
                           ibt_count := ibt_count tbl + 1\<rparr>, 0)))"

definition ip_ban_table_unban :: "ip_ban_table \<Rightarrow> string option \<Rightarrow> ip_ban_table \<times> int" where
  "ip_ban_table_unban tbl ip =
     (case ip of
        None \<Rightarrow> (tbl, -1)
      | Some a \<Rightarrow>
          if a = [] then (tbl, -1)
          else case ct_find ib_ip ip_hash (ibt_buckets tbl) a of
                 None \<Rightarrow> (tbl, -1)
               | Some _ \<Rightarrow> (tbl\<lparr>ibt_buckets := ct_delete ib_ip ip_hash (ibt_buckets tbl) a,
                               ibt_count := ibt_count tbl - 1\<rparr>, 0))"

definition ip_ban_table_list :: "ip_ban_table \<Rightarrow> int \<Rightarrow> nat \<Rightarrow> ip_ban_info list" where
  "ip_ban_table_list tbl now max_count =
     take max_count (filter (\<lambda>e. ib_expires_at e > now) (concat (ibt_buckets tbl)))"

section \<open>The table as a map\<close>

lemma ip_hash_less: "ip_hash ip < IP_BAN_BUCKETS"
  by (simp add: ip_hash_def IP_BAN_BUCKETS_def)

interpretation ipt: chain_table "ib_ip :: ip_ban_info \<Rightarrow> string" ip_hash IP_BAN_BUCKETS
  by unfold_locales (rule ip_hash_less)

definition ipt_ok :: "ip_ban_table \<Rightarrow> bool" where
  "ipt_ok tbl \<longleftrightarrow> ct_ok ib_ip ip_hash IP_BAN_BUCKETS (ibt_buckets tbl)"

definition ipt_view :: "ip_ban_table \<Rightarrow> string \<Rightarrow> ip_ban_info option" where
  "ipt_view tbl = ct_find ib_ip ip_hash (ibt_buckets tbl)"

definition ip_short :: "string \<Rightarrow> bool" where
  "ip_short a \<longleftrightarrow> a \<noteq> [] \<and> length a < 48"

lemma ban_view:
  assumes ok: "ipt_ok tbl" and a: "ip_short a" and al: "al \<or> ipt_view tbl a \<noteq> None"
  shows "\<exists>tbl' e. ip_ban_table_ban tbl now al (Some a) ttl reason = (tbl', 0) \<and> ipt_ok tbl' \<and>
    ipt_view tbl' = (ipt_view tbl)(a \<mapsto> e) \<and> ib_expires_at e = now + (if ttl \<le> 0 then 3600 else ttl)"
proof (cases "ipt_view tbl a")
  case None
  let ?e = "\<lparr>ib_ip = a, ib_expires_at = now + (if ttl \<le> 0 then 3600 else ttl),
             ib_reason = (case reason of Some r \<Rightarrow> cstr_copy 64 r | None \<Rightarrow> []), ib_hit_count = 0\<rparr>"
  from ipt.insert_view [of "ibt_buckets tbl" a ?e] ok None
  have "ct_ok ib_ip ip_hash IP_BAN_BUCKETS (ct_insert ip_hash (ibt_buckets tbl) a ?e)"
    "ct_find ib_ip ip_hash (ct_insert ip_hash (ibt_buckets tbl) a ?e) = (ipt_view tbl)(a \<mapsto> ?e)"
    by (auto simp: ipt_ok_def ipt_view_def)
  with None a al show ?thesis
    by (auto simp: ip_ban_table_ban_def ipt_view_def ipt_ok_def ip_short_def Let_def)
next
  case (Some e)
  let ?f = "\<lambda>e. e\<lparr>ib_expires_at := now + (if ttl \<le> 0 then 3600 else ttl),
      ib_reason := (case reason of Some r \<Rightarrow> cstr_copy 64 r | None \<Rightarrow> ib_reason e)\<rparr>"
  from ipt.update_view [of "ibt_buckets tbl" a e ?f] ok Some
  have "ct_ok ib_ip ip_hash IP_BAN_BUCKETS (ct_update ib_ip ip_hash ?f (ibt_buckets tbl) a)"
    "ct_find ib_ip ip_hash (ct_update ib_ip ip_hash ?f (ibt_buckets tbl) a) = (ipt_view tbl)(a \<mapsto> ?f e)"
    by (auto simp: ipt_ok_def ipt_view_def)
  with Some a show ?thesis
    by (auto simp: ip_ban_table_ban_def ipt_view_def ipt_ok_def ip_short_def Let_def)
qed

lemma is_banned_view:
  fixes now :: int
  assumes ok: "ipt_ok tbl" and a: "a \<noteq> []"
  defines "b \<equiv> (case ipt_view tbl a of None \<Rightarrow> False | Some e \<Rightarrow> now < ib_expires_at e)"
  shows "\<exists>tbl' r. ip_ban_table_is_banned tbl now (Some a) cap = (tbl', b, r) \<and> ipt_ok tbl' \<and>
    (\<forall>x. map_option ib_expires_at (ipt_view tbl' x) = map_option ib_expires_at (ipt_view tbl x))"
proof (cases "ipt_view tbl a")
  case None
  with ok a show ?thesis by (auto simp: ip_ban_table_is_banned_def ipt_view_def b_def)
next
  case (Some e)
  let ?f = "\<lambda>e. e\<lparr>ib_hit_count := ib_hit_count e + 1\<rparr>"
  from ipt.update_view [of "ibt_buckets tbl" a e ?f] ok Some
  have "ct_ok ib_ip ip_hash IP_BAN_BUCKETS (ct_update ib_ip ip_hash ?f (ibt_buckets tbl) a)"
    "ct_find ib_ip ip_hash (ct_update ib_ip ip_hash ?f (ibt_buckets tbl) a) = (ipt_view tbl)(a \<mapsto> ?f e)"
    by (auto simp: ipt_ok_def ipt_view_def)
  with Some a ok show ?thesis
    by (auto simp: ip_ban_table_is_banned_def ipt_view_def ipt_ok_def b_def)
qed

lemma unban_view:
  assumes ok: "ipt_ok tbl" and a: "a \<noteq> []"
  shows "ipt_ok (fst (ip_ban_table_unban tbl (Some a))) \<and>
    ipt_view (fst (ip_ban_table_unban tbl (Some a))) = (ipt_view tbl)(a := None) \<and>
    snd (ip_ban_table_unban tbl (Some a)) = (if ipt_view tbl a = None then -1 else 0)"
  using ipt.delete_view [of "ibt_buckets tbl" a] ok a
  by (cases "ipt_view tbl a") (auto simp: ip_ban_table_unban_def ipt_ok_def ipt_view_def fun_upd_idem)

section \<open>Promises\<close>

text \<open>What a sequence of operations does to a table.\<close>

datatype ip_op = IpBan int string int "string option" | IpUnban string | IpCheck int string

fun ip_do :: "ip_ban_table \<Rightarrow> ip_op \<Rightarrow> ip_ban_table" where
  "ip_do tbl (IpBan now a ttl r) = fst (ip_ban_table_ban tbl now True (Some a) ttl r)"
| "ip_do tbl (IpUnban a) = fst (ip_ban_table_unban tbl (Some a))"
| "ip_do tbl (IpCheck now a) = fst (ip_ban_table_is_banned tbl now (Some a) 64)"

fun ip_op_addr :: "ip_op \<Rightarrow> string" where
  "ip_op_addr (IpBan now a ttl r) = a"
| "ip_op_addr (IpUnban a) = a"
| "ip_op_addr (IpCheck now a) = a"

fun ip_op_changes :: "ip_op \<Rightarrow> string \<Rightarrow> bool" where
  "ip_op_changes (IpBan now a ttl r) b \<longleftrightarrow> a = b"
| "ip_op_changes (IpUnban a) b \<longleftrightarrow> a = b"
| "ip_op_changes (IpCheck now a) b \<longleftrightarrow> False"

lemma ip_do_keeps:
  assumes "ipt_ok tbl" "ip_short (ip_op_addr oper)" "\<not> ip_op_changes oper b"
  shows "ipt_ok (ip_do tbl oper) \<and>
    map_option ib_expires_at (ipt_view (ip_do tbl oper) b) = map_option ib_expires_at (ipt_view tbl b)"
proof (cases oper)
  case (IpBan now a ttl r)
  with ban_view [OF assms(1), of a True now ttl r] assms(2,3) show ?thesis by auto
next
  case (IpUnban a)
  with unban_view [OF assms(1), of a] assms(2,3) show ?thesis by (auto simp: ip_short_def)
next
  case (IpCheck now a)
  with is_banned_view [OF assms(1), of a now 64] assms(2) show ?thesis by (fastforce simp: ip_short_def)
qed

lemma ip_run_keeps:
  assumes "ipt_ok tbl" "\<forall>oper \<in> set ops. ip_short (ip_op_addr oper) \<and> \<not> ip_op_changes oper b"
  shows "ipt_ok (foldl ip_do tbl ops) \<and>
    map_option ib_expires_at (ipt_view (foldl ip_do tbl ops) b) = map_option ib_expires_at (ipt_view tbl b)"
  using assms
proof (induction ops arbitrary: tbl)
  case (Cons oper ops)
  with ip_do_keeps [of tbl oper b] show ?case by simp
qed simp

text \<open>A ban holds exactly until it expires, whatever bans, unbans and checks of other addresses
  and checks of this one come in between: a non-positive time to live means one hour.\<close>

theorem ip_ban_holds_until_expiry:
  assumes "ipt_ok tbl" and "ip_short a"
    and "\<forall>oper \<in> set ops. ip_short (ip_op_addr oper) \<and> \<not> ip_op_changes oper a"
  shows "fst (snd (ip_ban_table_is_banned (foldl ip_do tbl (IpBan t a ttl reason # ops)) now (Some a) cap))
    \<longleftrightarrow> now < t + (if ttl \<le> 0 then 3600 else ttl)"
proof -
  from ban_view [OF assms(1,2), of True t ttl reason] obtain tbl1 e where
    1: "ip_do tbl (IpBan t a ttl reason) = tbl1" "ipt_ok tbl1"
      "ipt_view tbl1 a = Some e" "ib_expires_at e = t + (if ttl \<le> 0 then 3600 else ttl)" by auto
  from ip_run_keeps [OF 1(2) assms(3)] 1 obtain e' where
    "ipt_ok (foldl ip_do tbl1 ops)" "ipt_view (foldl ip_do tbl1 ops) a = Some e'" "ib_expires_at e' = ib_expires_at e"
    by auto
  with is_banned_view [of "foldl ip_do tbl1 ops" a now cap] assms(2) 1 show ?thesis
    by (auto simp: ip_short_def)
qed

lemma ip_table_created: "ipt_ok (the (ip_ban_table_create True))"
  using ipt.empty_ok by (simp add: ip_ban_table_create_def ipt_ok_def)

theorem ip_ban_holds_until_expiry_witness:
  "fst (snd (ip_ban_table_is_banned (foldl ip_do (the (ip_ban_table_create True))
      [IpBan 100 ''10.0.0.1'' 0 None, IpUnban ''10.0.0.2'', IpCheck 200 ''10.0.0.1'']) 3699 (Some ''10.0.0.1'') 64))"
  using ip_ban_holds_until_expiry [OF ip_table_created, of "''10.0.0.1''" "[IpUnban ''10.0.0.2'', IpCheck 200 ''10.0.0.1'']" 100 0 None 3699 64]
  by (simp add: ip_short_def)

end
