(* ===== verification/Threat_Whitelist.thy ===== *)
theory Threat_Whitelist
  imports Prelude
begin

text \<open>
  \<^verbatim>\<open>src/policy/threat_whitelist.c\<close>: an ordered array of bypass rules for the guardrails. The
  list is the used part of the array, \<open>tw_capacity\<close> the allocated length. \<open>now\<close> is \<open>time(NULL)\<close>.
  A NULL handle makes every operation return at once and is left out.
\<close>

record threat_rule =
  tr_rule_id :: int
  tr_name :: string
  tr_match_key_id :: "64 word"
  tr_match_model :: string
  tr_bypass_rule_tag :: string
  tr_reason :: string
  tr_expires_at :: int
  tr_enabled :: bool

record threat_whitelist =
  tw_rules :: "threat_rule list"
  tw_capacity :: nat

definition THREAT_WHITELIST_INITIAL_CAP :: nat where "THREAT_WHITELIST_INITIAL_CAP = 64"

definition threat_whitelist_create :: "bool \<Rightarrow> threat_whitelist option" where
  "threat_whitelist_create alloc_ok =
     (if alloc_ok then Some \<lparr>tw_rules = [], tw_capacity = THREAT_WHITELIST_INITIAL_CAP\<rparr> else None)"

definition threat_whitelist_add :: "threat_whitelist \<Rightarrow> bool \<Rightarrow> threat_rule option \<Rightarrow> threat_whitelist \<times> int" where
  "threat_whitelist_add tw alloc_ok rec =
     (case rec of
        None \<Rightarrow> (tw, -1)
      | Some r \<Rightarrow>
          (case find_idx (\<lambda>x. tr_rule_id x = tr_rule_id r) (tw_rules tw) of
             Some i \<Rightarrow> (tw\<lparr>tw_rules := (tw_rules tw)[i := r]\<rparr>, 0)
           | None \<Rightarrow>
               if length (tw_rules tw) \<ge> tw_capacity tw then
                 (let new_cap = tw_capacity tw * 2;
                      new_cap = (if new_cap < THREAT_WHITELIST_INITIAL_CAP
                                 then THREAT_WHITELIST_INITIAL_CAP else new_cap)
                  in if \<not> alloc_ok then (tw, -1)
                     else (tw\<lparr>tw_rules := tw_rules tw @ [r], tw_capacity := new_cap\<rparr>, 0))
               else (tw\<lparr>tw_rules := tw_rules tw @ [r]\<rparr>, 0)))"

definition threat_whitelist_remove :: "threat_whitelist \<Rightarrow> int \<Rightarrow> threat_whitelist \<times> int" where
  "threat_whitelist_remove tw rule_id =
     (case find_idx (\<lambda>x. tr_rule_id x = rule_id) (tw_rules tw) of
        Some i \<Rightarrow> (tw\<lparr>tw_rules := take i (tw_rules tw) @ drop (Suc i) (tw_rules tw)\<rparr>, 0)
      | None \<Rightarrow> (tw, -1))"

text \<open>\<open>rules\<close> is the array of \<open>count\<close> rules.\<close>

definition threat_whitelist_load :: "threat_whitelist \<Rightarrow> bool \<Rightarrow> threat_rule list \<Rightarrow> threat_whitelist \<times> int" where
  "threat_whitelist_load tw alloc_ok rules =
     (if \<not> alloc_ok then (tw, -1)
      else (\<lparr>tw_rules = rules,
             tw_capacity = (if length rules > THREAT_WHITELIST_INITIAL_CAP
                            then length rules else THREAT_WHITELIST_INITIAL_CAP)\<rparr>, 0))"

definition tr_matches :: "int \<Rightarrow> 64 word \<Rightarrow> string option \<Rightarrow> string option \<Rightarrow> threat_rule \<Rightarrow> bool" where
  "tr_matches now key_id model rule_tag r \<longleftrightarrow>
     \<not> (\<not> tr_enabled r) \<and>
     \<not> (tr_expires_at r > 0 \<and> tr_expires_at r \<le> now) \<and>
     \<not> (tr_match_key_id r \<noteq> 0 \<and> tr_match_key_id r \<noteq> key_id) \<and>
     \<not> (tr_match_model r \<noteq> [] \<and> tr_match_model r \<noteq> ''*'' \<and> model \<noteq> Some (tr_match_model r)) \<and>
     \<not> (tr_bypass_rule_tag r \<noteq> [] \<and> tr_bypass_rule_tag r \<noteq> ''*'' \<and> rule_tag \<noteq> Some (tr_bypass_rule_tag r))"

text \<open>The result, and the id written to \<open>*matched_rule_id\<close>.\<close>

definition threat_whitelist_is_bypassed ::
  "threat_whitelist \<Rightarrow> int \<Rightarrow> 64 word \<Rightarrow> string option \<Rightarrow> string option \<Rightarrow> bool \<times> int option" where
  "threat_whitelist_is_bypassed tw now key_id model rule_tag =
     (case find_idx (tr_matches now key_id model rule_tag) (tw_rules tw) of
        Some i \<Rightarrow> (True, Some (tr_rule_id (tw_rules tw ! i)))
      | None \<Rightarrow> (False, None))"

definition threat_whitelist_list :: "threat_whitelist \<Rightarrow> int \<Rightarrow> threat_rule list option" where
  "threat_whitelist_list tw cap =
     (if cap \<le> 0 then None
      else let to_copy = (if int (length (tw_rules tw)) < cap then int (length (tw_rules tw)) else cap)
           in Some (take (nat to_copy) (tw_rules tw)))"

section \<open>Promises\<close>

definition tw_ok :: "threat_whitelist \<Rightarrow> bool" where
  "tw_ok tw \<longleftrightarrow> distinct (map tr_rule_id (tw_rules tw)) \<and> length (tw_rules tw) \<le> tw_capacity tw"

lemma map_update_same: "i < length xs \<Longrightarrow> f v = f (xs ! i) \<Longrightarrow> map f (xs[i := v]) = map f xs"
  by (metis list_update_id map_update)

lemma set_update_first:
  assumes "distinct (map f xs)" "i < length xs" "f v = f (xs ! i)"
  shows "set (xs[i := v]) = insert v {x \<in> set xs. f x \<noteq> f v}"
proof -
  have "x \<in> set (xs[i := v]) \<longleftrightarrow> x = v \<or> (\<exists>j<length xs. j \<noteq> i \<and> x = xs ! j)" for x
    using assms(2) by (auto simp: in_set_conv_nth nth_list_update intro: exI [of _ i])
  moreover have "(\<exists>j<length xs. j \<noteq> i \<and> x = xs ! j) \<longleftrightarrow> x \<in> set xs \<and> f x \<noteq> f v" for x
  proof -
    have "f (xs ! j) \<noteq> f v" if "j < length xs" "j \<noteq> i" for j
      using assms that by (auto simp: distinct_conv_nth)
    with assms(2,3) show ?thesis by (auto simp: in_set_conv_nth)
  qed
  ultimately show ?thesis by blast
qed

lemma tw_add_set:
  assumes "tw_ok tw"
  shows "tw_ok (fst (threat_whitelist_add tw True (Some r))) \<and>
    set (tw_rules (fst (threat_whitelist_add tw True (Some r)))) =
      insert r {x \<in> set (tw_rules tw). tr_rule_id x \<noteq> tr_rule_id r}"
proof (cases "find_idx (\<lambda>x. tr_rule_id x = tr_rule_id r) (tw_rules tw)")
  case (Some i)
  with find_idx_Some [OF Some] assms set_update_first [of tr_rule_id "tw_rules tw" i r]
  show ?thesis by (simp add: threat_whitelist_add_def tw_ok_def map_update_same)
next
  case None
  then have "\<forall>x \<in> set (tw_rules tw). tr_rule_id x \<noteq> tr_rule_id r" by (simp add: find_idx_None)
  with None assms show ?thesis
    by (auto simp: threat_whitelist_add_def tw_ok_def THREAT_WHITELIST_INITIAL_CAP_def Let_def)
qed

lemma tw_remove_set:
  assumes "tw_ok tw"
  shows "tw_ok (fst (threat_whitelist_remove tw k)) \<and>
    set (tw_rules (fst (threat_whitelist_remove tw k))) = {x \<in> set (tw_rules tw). tr_rule_id x \<noteq> k}"
proof (cases "find_idx (\<lambda>x. tr_rule_id x = k) (tw_rules tw)")
  case (Some i)
  from find_idx_Some [OF Some] have i: "i < length (tw_rules tw)" "tr_rule_id (tw_rules tw ! i) = k" by auto
  then obtain ys x zs where e: "tw_rules tw = ys @ x # zs" "take i (tw_rules tw) = ys" "drop (Suc i) (tw_rules tw) = zs"
    "tr_rule_id x = k" using id_take_nth_drop [OF i(1)] by blast
  then have del: "fst (threat_whitelist_remove tw k) = tw\<lparr>tw_rules := ys @ zs\<rparr>"
    using Some by (simp add: threat_whitelist_remove_def)
  from assms have d: "distinct (map tr_rule_id (ys @ x # zs))" "length (ys @ x # zs) \<le> tw_capacity tw"
    unfolding tw_ok_def e(1) by auto
  have "\<forall>y \<in> set (ys @ zs). tr_rule_id y \<noteq> k"
    using d(1) unfolding e(4) [symmetric] by (auto simp: image_iff)
  then have "set (ys @ zs) = {y \<in> set (ys @ x # zs). tr_rule_id y \<noteq> k}"
    using e(4) by auto
  with d(1,2) show ?thesis unfolding del e(1) by (auto simp: tw_ok_def)
next
  case None
  then have "\<forall>x \<in> set (tw_rules tw). tr_rule_id x \<noteq> k" by (simp add: find_idx_None)
  with None assms show ?thesis by (auto simp: threat_whitelist_remove_def)
qed

datatype tw_op = TwAdd threat_rule | TwRemove int

fun tw_do :: "threat_whitelist \<Rightarrow> tw_op \<Rightarrow> threat_whitelist" where
  "tw_do tw (TwAdd r) = fst (threat_whitelist_add tw True (Some r))"
| "tw_do tw (TwRemove k) = fst (threat_whitelist_remove tw k)"

text \<open>The rules in force after a sequence of additions and removals: the last addition of an id.\<close>

fun tw_spec :: "(int \<Rightarrow> threat_rule option) \<Rightarrow> tw_op \<Rightarrow> (int \<Rightarrow> threat_rule option)" where
  "tw_spec m (TwAdd r) = m(tr_rule_id r \<mapsto> r)"
| "tw_spec m (TwRemove k) = m(k := None)"

lemma tw_run_spec:
  assumes "tw_ok tw" "\<And>k r. m k = Some r \<longleftrightarrow> r \<in> set (tw_rules tw) \<and> tr_rule_id r = k"
  shows "foldl tw_spec m ops k = Some r \<longleftrightarrow> r \<in> set (tw_rules (foldl tw_do tw ops)) \<and> tr_rule_id r = k"
  using assms
proof (induction ops arbitrary: tw m)
  case (Cons oper ops)
  have "tw_ok (tw_do tw oper)"
    using tw_add_set [OF Cons.prems(1)] tw_remove_set [OF Cons.prems(1)] by (cases oper) auto
  moreover have "tw_spec m oper k = Some r \<longleftrightarrow> r \<in> set (tw_rules (tw_do tw oper)) \<and> tr_rule_id r = k" for k r
    using tw_add_set [OF Cons.prems(1)] tw_remove_set [OF Cons.prems(1)] Cons.prems(2) by (cases oper) auto
  ultimately show ?case using Cons.IH [of "tw_do tw oper" "tw_spec m oper"] by simp
qed simp

text \<open>After any additions and removals on a new list, a request is let past the guardrails
  exactly when some rule in force (the last one added under its id and not removed since) is
  enabled, not expired, and matches its key, model and rule tag; the id reported is of such a
  rule.\<close>

theorem whitelist_bypass_exact:
  assumes "threat_whitelist_create True = Some tw"
  shows "case threat_whitelist_is_bypassed (foldl tw_do tw ops) now key model tag of
      (b, matched) \<Rightarrow>
        (b \<longleftrightarrow> (\<exists>k r. foldl tw_spec (\<lambda>_. None) ops k = Some r \<and> tr_matches now key model tag r)) \<and>
        (\<forall>k. matched = Some k \<longrightarrow>
          (\<exists>r. foldl tw_spec (\<lambda>_. None) ops k = Some r \<and> tr_matches now key model tag r))"
proof -
  from assms have "tw_ok tw" "tw_rules tw = []"
    by (auto simp: threat_whitelist_create_def tw_ok_def split: if_splits)
  from tw_run_spec [OF this(1), of "\<lambda>_. None" ops] this(2)
  have in_force: "foldl tw_spec (\<lambda>_. None) ops k = Some r \<longleftrightarrow>
      r \<in> set (tw_rules (foldl tw_do tw ops)) \<and> tr_rule_id r = k" for k r by simp
  show ?thesis
  proof (cases "find_idx (tr_matches now key model tag) (tw_rules (foldl tw_do tw ops))")
    case None
    then have "threat_whitelist_is_bypassed (foldl tw_do tw ops) now key model tag = (False, None)"
      by (simp add: threat_whitelist_is_bypassed_def)
    moreover from None have "\<forall>x \<in> set (tw_rules (foldl tw_do tw ops)). \<not> tr_matches now key model tag x"
      by (simp add: find_idx_None)
    ultimately show ?thesis using in_force by simp
  next
    case (Some i)
    let ?r = "tw_rules (foldl tw_do tw ops) ! i"
    from Some have "threat_whitelist_is_bypassed (foldl tw_do tw ops) now key model tag = (True, Some (tr_rule_id ?r))"
      by (simp add: threat_whitelist_is_bypassed_def)
    moreover from find_idx_Some [OF Some] have "?r \<in> set (tw_rules (foldl tw_do tw ops))" "tr_matches now key model tag ?r"
      by auto
    ultimately show ?thesis using in_force by auto
  qed
qed

theorem whitelist_bypass_exact_witness:
  "fst (threat_whitelist_is_bypassed (foldl tw_do (the (threat_whitelist_create True))
      [TwAdd \<lparr>tr_rule_id = 7, tr_name = ''a'', tr_match_key_id = 0, tr_match_model = ''*'', tr_bypass_rule_tag = ''pii'',
              tr_reason = [], tr_expires_at = 500, tr_enabled = True\<rparr>]) 499 3 (Some ''gpt'') (Some ''pii'')) \<and>
   \<not> fst (threat_whitelist_is_bypassed (foldl tw_do (the (threat_whitelist_create True))
      [TwAdd \<lparr>tr_rule_id = 7, tr_name = ''a'', tr_match_key_id = 0, tr_match_model = ''*'', tr_bypass_rule_tag = ''pii'',
              tr_reason = [], tr_expires_at = 500, tr_enabled = True\<rparr>]) 500 3 (Some ''gpt'') (Some ''pii''))"
  using whitelist_bypass_exact [of "the (threat_whitelist_create True)"
      "[TwAdd \<lparr>tr_rule_id = 7, tr_name = ''a'', tr_match_key_id = 0, tr_match_model = ''*'', tr_bypass_rule_tag = ''pii'',
              tr_reason = [], tr_expires_at = 500, tr_enabled = True\<rparr>]" 499 3 "Some ''gpt''" "Some ''pii''"]
    whitelist_bypass_exact [of "the (threat_whitelist_create True)"
      "[TwAdd \<lparr>tr_rule_id = 7, tr_name = ''a'', tr_match_key_id = 0, tr_match_model = ''*'', tr_bypass_rule_tag = ''pii'',
              tr_reason = [], tr_expires_at = 500, tr_enabled = True\<rparr>]" 500 3 "Some ''gpt''" "Some ''pii''"]
  by (auto simp: threat_whitelist_create_def tr_matches_def case_prod_unfold split: if_splits)

end
