(* ===== verification/Budget.thy ===== *)
theory Budget
  imports Chain_Table
begin

text \<open>
  \<^verbatim>\<open>src/policy/budget_enforce.c\<close>: monthly spend per API key and per group, in two chained tables.
  \<open>now\<close> is \<open>time(NULL)\<close>; \<open>alloc_ok\<close> says whether \<open>calloc\<close> succeeds; amounts of money
  (\<open>double\<close>) are real numbers. The text of an error message is replaced by the limit it reports.
  The Redis pool of the instance is stored and never used. The tables of the persistent store are
  parameters: the replies to its \<open>list_groups\<close> and \<open>query_cost\<close> operations, \<open>None\<close> standing for a
  missing operation or an error.
\<close>

section \<open>State\<close>

record key_spend =
  ks_key_id :: int
  ks_spent_cost :: real
  ks_spent_tokens :: int

record group_spend =
  gs_group_id :: int
  gs_spent_cost :: real
  gs_budget_usd :: real
  gs_daily_reasoning_quota :: int

record budget_event =
  be_scope :: string
  be_id :: int
  be_spent :: real
  be_limit :: real

record budget_mgr =
  bm_store :: bool
  bm_current_ym :: int
  bm_eb :: bool
  bm_keys :: "key_spend list list"
  bm_groups :: "group_spend list list"
  bm_published :: "budget_event list"

definition BUCKET_COUNT :: nat where "BUCKET_COUNT = 1024"

datatype budget_error = KeyCostExceeded real real | KeyTokensExceeded int int | GroupCostExceeded real int real

text \<open>\<open>gmtime_r\<close>: year, month and day of month of a time in seconds.\<close>

definition civil :: "int \<Rightarrow> int \<times> int \<times> int" where
  "civil now =
     (let z = now div 86400 + 719468; era = z div 146097; doe = z mod 146097;
          yoe = (doe - doe div 1460 + doe div 36524 - doe div 146096) div 365;
          doy = doe - (365 * yoe + yoe div 4 - yoe div 100); mp = (5 * doy + 2) div 153;
          mon = (if mp < 10 then mp + 3 else mp - 9)
      in (yoe + era * 400 + (if mon \<le> 2 then 1 else 0), mon, doy - (153 * mp + 2) div 5 + 1))"

definition get_current_year_month :: "int \<Rightarrow> int" where
  "get_current_year_month now = (case civil now of (y, mon, d) \<Rightarrow> y * 100 + mon)"

definition budget_hash_id :: "int \<Rightarrow> nat" where
  "budget_hash_id i =
     (let x0 = (word_of_int i :: 64 word);
          x1 = (xor x0 (drop_bit 30 x0)) * 0xbf58476d1ce4e5b9;
          x2 = (xor x1 (drop_bit 27 x1)) * 0x94d049bb133111eb;
          x3 = xor x2 (drop_bit 31 x2)
      in unat x3 mod BUCKET_COUNT)"

section \<open>Operations\<close>

definition clear_buckets :: "budget_mgr \<Rightarrow> budget_mgr" where
  "clear_buckets mgr = mgr\<lparr>bm_keys := replicate BUCKET_COUNT [], bm_groups := replicate BUCKET_COUNT []\<rparr>"

definition budget_enforce_create :: "bool \<Rightarrow> bool \<Rightarrow> int \<Rightarrow> budget_mgr option" where
  "budget_enforce_create alloc_ok store now =
     (if \<not> alloc_ok then None
      else Some \<lparr>bm_store = store, bm_current_ym = get_current_year_month now, bm_eb = False,
                 bm_keys = replicate BUCKET_COUNT [], bm_groups = replicate BUCKET_COUNT [], bm_published = []\<rparr>)"

definition budget_enforce_reset :: "budget_mgr \<Rightarrow> int \<Rightarrow> budget_mgr" where
  "budget_enforce_reset mgr now = (clear_buckets mgr)\<lparr>bm_current_ym := get_current_year_month now\<rparr>"

definition budget_set_event_bus :: "budget_mgr \<Rightarrow> bool \<Rightarrow> budget_mgr" where
  "budget_set_event_bus mgr eb = mgr\<lparr>bm_eb := eb\<rparr>"

definition budget_rollover :: "budget_mgr \<Rightarrow> int \<Rightarrow> budget_mgr" where
  "budget_rollover mgr now =
     (let now_ym = get_current_year_month now
      in if now_ym \<noteq> bm_current_ym mgr then (clear_buckets mgr)\<lparr>bm_current_ym := now_ym\<rparr> else mgr)"

definition budget_publish :: "string \<Rightarrow> int \<Rightarrow> real \<Rightarrow> real \<Rightarrow> budget_mgr \<Rightarrow> budget_mgr" where
  "budget_publish scope i spent limit mgr =
     (if bm_eb mgr
      then mgr\<lparr>bm_published := bm_published mgr @
             [\<lparr>be_scope = scope, be_id = i, be_spent = spent, be_limit = limit\<rparr>]\<rparr>
      else mgr)"

definition budget_check_key :: "key_spend option \<Rightarrow> real \<Rightarrow> int \<Rightarrow> budget_error option" where
  "budget_check_key cur key_cost_budget key_token_budget =
     (case cur of
        None \<Rightarrow> None
      | Some k \<Rightarrow>
          if key_cost_budget > 0 \<and> ks_spent_cost k \<ge> key_cost_budget
          then Some (KeyCostExceeded key_cost_budget (ks_spent_cost k))
          else if key_token_budget > 0 \<and> ks_spent_tokens k \<ge> key_token_budget
          then Some (KeyTokensExceeded key_token_budget (ks_spent_tokens k))
          else None)"

definition budget_check_group :: "group_spend option \<Rightarrow> int \<Rightarrow> real \<Rightarrow> budget_error option" where
  "budget_check_group cur group_id group_cost_budget =
     (case cur of
        None \<Rightarrow> None
      | Some g \<Rightarrow>
          let effective_budget = (if group_cost_budget > 0 then group_cost_budget else gs_budget_usd g)
          in if effective_budget > 0 \<and> gs_spent_cost g \<ge> effective_budget
             then Some (GroupCostExceeded effective_budget group_id (gs_spent_cost g)) else None)"

fun budget_event_of :: "int \<Rightarrow> int \<Rightarrow> budget_error \<Rightarrow> budget_mgr \<Rightarrow> budget_mgr" where
  "budget_event_of key_id group_id (KeyCostExceeded b s) mgr = budget_publish ''key'' key_id s b mgr"
| "budget_event_of key_id group_id (KeyTokensExceeded b s) mgr =
     budget_publish ''key'' key_id (real_of_int s) (real_of_int b) mgr"
| "budget_event_of key_id group_id (GroupCostExceeded b g s) mgr = budget_publish ''group'' group_id s b mgr"

text \<open>\<open>None\<close> is the return value 0, an error is -1 with its message.\<close>

definition budget_enforce_check ::
  "budget_mgr \<Rightarrow> int \<Rightarrow> int \<Rightarrow> int \<Rightarrow> real \<Rightarrow> int \<Rightarrow> real \<Rightarrow> budget_mgr \<times> budget_error option" where
  "budget_enforce_check mgr now key_id group_id key_cost_budget key_token_budget group_cost_budget =
     (let mgr1 = budget_rollover mgr now;
          key_err = (if key_id > 0 \<and> (key_cost_budget > 0 \<or> key_token_budget > 0)
                     then budget_check_key (ct_find ks_key_id budget_hash_id (bm_keys mgr1) key_id)
                            key_cost_budget key_token_budget
                     else None);
          group_err = (if group_id > 0
                       then budget_check_group (ct_find gs_group_id budget_hash_id (bm_groups mgr1) group_id)
                              group_id group_cost_budget
                       else None);
          err = (case key_err of Some e \<Rightarrow> Some e | None \<Rightarrow> group_err)
      in (case err of None \<Rightarrow> mgr1 | Some e \<Rightarrow> budget_event_of key_id group_id e mgr1, err))"

definition budget_touch_key :: "budget_mgr \<Rightarrow> bool \<Rightarrow> int \<Rightarrow> (key_spend \<Rightarrow> key_spend) \<Rightarrow> budget_mgr" where
  "budget_touch_key mgr alloc_ok key_id f =
     (case ct_find ks_key_id budget_hash_id (bm_keys mgr) key_id of
        Some _ \<Rightarrow> mgr\<lparr>bm_keys := ct_update ks_key_id budget_hash_id f (bm_keys mgr) key_id\<rparr>
      | None \<Rightarrow>
          if \<not> alloc_ok then mgr
          else mgr\<lparr>bm_keys := ct_insert budget_hash_id (bm_keys mgr) key_id
                 (f \<lparr>ks_key_id = key_id, ks_spent_cost = 0, ks_spent_tokens = 0\<rparr>)\<rparr>)"

definition budget_touch_group :: "budget_mgr \<Rightarrow> bool \<Rightarrow> int \<Rightarrow> (group_spend \<Rightarrow> group_spend) \<Rightarrow> budget_mgr" where
  "budget_touch_group mgr alloc_ok group_id f =
     (case ct_find gs_group_id budget_hash_id (bm_groups mgr) group_id of
        Some _ \<Rightarrow> mgr\<lparr>bm_groups := ct_update gs_group_id budget_hash_id f (bm_groups mgr) group_id\<rparr>
      | None \<Rightarrow>
          if \<not> alloc_ok then mgr
          else mgr\<lparr>bm_groups := ct_insert budget_hash_id (bm_groups mgr) group_id
                 (f \<lparr>gs_group_id = group_id, gs_spent_cost = 0, gs_budget_usd = 0,
                     gs_daily_reasoning_quota = 0\<rparr>)\<rparr>)"

definition budget_enforce_record :: "budget_mgr \<Rightarrow> int \<Rightarrow> bool \<Rightarrow> int \<Rightarrow> int \<Rightarrow> real \<Rightarrow> int \<Rightarrow> budget_mgr" where
  "budget_enforce_record mgr now alloc_ok key_id group_id cost_usd tokens =
     (let mgr1 = budget_rollover mgr now;
          mgr2 = (if key_id > 0
                  then budget_touch_key mgr1 alloc_ok key_id
                         (\<lambda>k. k\<lparr>ks_spent_cost := ks_spent_cost k + cost_usd,
                                ks_spent_tokens := ks_spent_tokens k + tokens\<rparr>)
                  else mgr1)
      in if group_id > 0
         then budget_touch_group mgr2 alloc_ok group_id (\<lambda>g. g\<lparr>gs_spent_cost := gs_spent_cost g + cost_usd\<rparr>)
         else mgr2)"

definition budget_enforce_get_key_usage :: "budget_mgr \<Rightarrow> int \<Rightarrow> (real \<times> int) option" where
  "budget_enforce_get_key_usage mgr key_id =
     (if key_id \<le> 0 then None
      else case ct_find ks_key_id budget_hash_id (bm_keys mgr) key_id of
             Some k \<Rightarrow> Some (ks_spent_cost k, ks_spent_tokens k)
           | None \<Rightarrow> Some (0, 0))"

definition budget_enforce_get_group_usage :: "budget_mgr \<Rightarrow> int \<Rightarrow> real option" where
  "budget_enforce_get_group_usage mgr group_id =
     (if group_id \<le> 0 then None
      else case ct_find gs_group_id budget_hash_id (bm_groups mgr) group_id of
             Some g \<Rightarrow> Some (gs_spent_cost g)
           | None \<Rightarrow> Some 0)"

definition budget_enforce_set_group_budget :: "budget_mgr \<Rightarrow> bool \<Rightarrow> int \<Rightarrow> real \<Rightarrow> budget_mgr" where
  "budget_enforce_set_group_budget mgr alloc_ok group_id budget_usd =
     (if group_id \<le> 0 then mgr
      else budget_touch_group mgr alloc_ok group_id (\<lambda>g. g\<lparr>gs_budget_usd := budget_usd\<rparr>))"

definition budget_enforce_set_group_reasoning_quota :: "budget_mgr \<Rightarrow> bool \<Rightarrow> int \<Rightarrow> int \<Rightarrow> budget_mgr" where
  "budget_enforce_set_group_reasoning_quota mgr alloc_ok group_id quota =
     (if group_id \<le> 0 then mgr
      else budget_touch_group mgr alloc_ok group_id (\<lambda>g. g\<lparr>gs_daily_reasoning_quota := quota\<rparr>))"

definition budget_enforce_get_group_reasoning_quota :: "budget_mgr \<Rightarrow> int \<Rightarrow> int" where
  "budget_enforce_get_group_reasoning_quota mgr group_id =
     (if group_id \<le> 0 then 0
      else case ct_find gs_group_id budget_hash_id (bm_groups mgr) group_id of
             Some g \<Rightarrow> gs_daily_reasoning_quota g
           | None \<Rightarrow> 0)"

text \<open>The columns of the store's rows that are read here.\<close>

record group_row =
  gr_id :: int
  gr_monthly_budget_usd :: real
  gr_daily_reasoning_quota :: int

record cost_row =
  cr_group_id :: int
  cr_prompt :: int
  cr_completion :: int

definition month_start :: "int \<Rightarrow> int" where
  "month_start now = (case civil now of (y, mon, d) \<Rightarrow> now - now mod 86400 - (d - 1) * 86400)"

text \<open>The clock is read again for every row recorded: \<open>clock i\<close> is the reading for row \<open>i\<close>.\<close>

definition budget_enforce_init_from_db ::
  "budget_mgr \<Rightarrow> bool \<Rightarrow> int \<Rightarrow> (nat \<Rightarrow> int) \<Rightarrow> group_row list option \<Rightarrow>
   (int \<Rightarrow> int \<Rightarrow> cost_row list option) option \<Rightarrow> budget_mgr" where
  "budget_enforce_init_from_db mgr alloc_ok now clock list_groups query_cost =
     (if \<not> bm_store mgr then mgr
      else
        let mgr1 = (case list_groups of
              None \<Rightarrow> mgr
            | Some gs \<Rightarrow>
                foldl (\<lambda>m g. budget_enforce_set_group_reasoning_quota
                         (budget_enforce_set_group_budget m alloc_ok (gr_id g) (gr_monthly_budget_usd g))
                         alloc_ok (gr_id g) (gr_daily_reasoning_quota g)) mgr (take 256 gs))
        in case query_cost of
             None \<Rightarrow> mgr1
           | Some q \<Rightarrow>
               (case q (month_start now) (now + 86400) of
                  None \<Rightarrow> mgr1
                | Some rows \<Rightarrow>
                    foldl (\<lambda>m (i, r). budget_enforce_record m (clock i) alloc_ok 0 (cr_group_id r) 0
                             (cr_prompt r + cr_completion r)) mgr1 (enumerate 0 (take 256 rows))))"

end
