(* ===== verification/Budget_Props.thy ===== *)
theory Budget_Props
  imports Budget
begin

text \<open>
  What the budget enforcer promises: it refuses exactly when the recorded spend of the month has
  reached a limit; and where it forgets: group limits at the change of month, the spend of the
  month at start-up.
\<close>

section \<open>The tables as maps\<close>

lemma budget_hash_less: "budget_hash_id i < BUCKET_COUNT"
  by (simp add: budget_hash_id_def BUCKET_COUNT_def Let_def)

interpretation kst: chain_table "ks_key_id :: key_spend \<Rightarrow> int" budget_hash_id BUCKET_COUNT
  by unfold_locales (rule budget_hash_less)

interpretation gst: chain_table "gs_group_id :: group_spend \<Rightarrow> int" budget_hash_id BUCKET_COUNT
  by unfold_locales (rule budget_hash_less)

definition bm_ok :: "budget_mgr \<Rightarrow> bool" where
  "bm_ok mgr \<longleftrightarrow> ct_ok ks_key_id budget_hash_id BUCKET_COUNT (bm_keys mgr) \<and>
     ct_ok gs_group_id budget_hash_id BUCKET_COUNT (bm_groups mgr)"

definition key_view :: "budget_mgr \<Rightarrow> int \<Rightarrow> key_spend option" where
  "key_view mgr = ct_find ks_key_id budget_hash_id (bm_keys mgr)"

definition group_view :: "budget_mgr \<Rightarrow> int \<Rightarrow> group_spend option" where
  "group_view mgr = ct_find gs_group_id budget_hash_id (bm_groups mgr)"

definition key_entry :: "budget_mgr \<Rightarrow> int \<Rightarrow> key_spend" where
  "key_entry mgr k = (case key_view mgr k of Some e \<Rightarrow> e
     | None \<Rightarrow> \<lparr>ks_key_id = k, ks_spent_cost = 0, ks_spent_tokens = 0\<rparr>)"

definition group_entry :: "budget_mgr \<Rightarrow> int \<Rightarrow> group_spend" where
  "group_entry mgr g = (case group_view mgr g of Some e \<Rightarrow> e
     | None \<Rightarrow> \<lparr>gs_group_id = g, gs_spent_cost = 0, gs_budget_usd = 0, gs_daily_reasoning_quota = 0\<rparr>)"

lemma bm_empty:
  "bm_ok (clear_buckets mgr)" "key_view (clear_buckets mgr) = (\<lambda>_. None)"
  "group_view (clear_buckets mgr) = (\<lambda>_. None)"
  using kst.empty_ok gst.empty_ok
  by (auto simp: bm_ok_def clear_buckets_def key_view_def group_view_def)

lemma bm_ok_ym [simp]: "bm_ok (mgr\<lparr>bm_current_ym := y\<rparr>) = bm_ok mgr"
  "key_view (mgr\<lparr>bm_current_ym := y\<rparr>) = key_view mgr" "group_view (mgr\<lparr>bm_current_ym := y\<rparr>) = group_view mgr"
  by (simp_all add: bm_ok_def key_view_def group_view_def)

lemma rollover_ok [simp]: "bm_ok mgr \<Longrightarrow> bm_ok (budget_rollover mgr now)"
  by (simp add: budget_rollover_def Let_def bm_empty)

lemma rollover_same: "get_current_year_month now = bm_current_ym mgr \<Longrightarrow> budget_rollover mgr now = mgr"
  by (simp add: budget_rollover_def Let_def)

lemma touch_key_view:
  assumes "bm_ok mgr" and "\<And>e. ks_key_id (f e) = ks_key_id e"
  shows "bm_ok (budget_touch_key mgr True k f) \<and>
    key_view (budget_touch_key mgr True k f) = (key_view mgr)(k \<mapsto> f (key_entry mgr k)) \<and>
    group_view (budget_touch_key mgr True k f) = group_view mgr \<and>
    bm_current_ym (budget_touch_key mgr True k f) = bm_current_ym mgr"
proof (cases "key_view mgr k")
  case None
  with kst.insert_view [of "bm_keys mgr" k "f \<lparr>ks_key_id = k, ks_spent_cost = 0, ks_spent_tokens = 0\<rparr>"] assms
  show ?thesis by (auto simp: budget_touch_key_def key_view_def group_view_def key_entry_def bm_ok_def)
next
  case (Some e)
  with kst.update_view [of "bm_keys mgr" k e f] assms
  show ?thesis by (auto simp: budget_touch_key_def key_view_def group_view_def key_entry_def bm_ok_def)
qed

lemma touch_group_view:
  assumes "bm_ok mgr" and "\<And>e. gs_group_id (f e) = gs_group_id e"
  shows "bm_ok (budget_touch_group mgr True g f) \<and>
    group_view (budget_touch_group mgr True g f) = (group_view mgr)(g \<mapsto> f (group_entry mgr g)) \<and>
    key_view (budget_touch_group mgr True g f) = key_view mgr \<and>
    bm_current_ym (budget_touch_group mgr True g f) = bm_current_ym mgr"
proof (cases "group_view mgr g")
  case None
  with gst.insert_view [of "bm_groups mgr" g "f \<lparr>gs_group_id = g, gs_spent_cost = 0, gs_budget_usd = 0,
      gs_daily_reasoning_quota = 0\<rparr>"] assms
  show ?thesis by (auto simp: budget_touch_group_def key_view_def group_view_def group_entry_def bm_ok_def)
next
  case (Some e)
  with gst.update_view [of "bm_groups mgr" g e f] assms
  show ?thesis by (auto simp: budget_touch_group_def key_view_def group_view_def group_entry_def bm_ok_def)
qed

lemma record_view:
  assumes "bm_ok mgr" "get_current_year_month now = bm_current_ym mgr"
  shows "bm_ok (budget_enforce_record mgr now True k g c t) \<and>
    bm_current_ym (budget_enforce_record mgr now True k g c t) = bm_current_ym mgr \<and>
    (\<forall>k'. key_entry (budget_enforce_record mgr now True k g c t) k' =
       (if k' = k \<and> 0 < k then (key_entry mgr k)\<lparr>ks_spent_cost := ks_spent_cost (key_entry mgr k) + c,
          ks_spent_tokens := ks_spent_tokens (key_entry mgr k) + t\<rparr> else key_entry mgr k')) \<and>
    (\<forall>g'. group_entry (budget_enforce_record mgr now True k g c t) g' =
       (if g' = g \<and> 0 < g then (group_entry mgr g)\<lparr>gs_spent_cost := gs_spent_cost (group_entry mgr g) + c\<rparr>
        else group_entry mgr g'))"
proof -
  let ?f = "\<lambda>e. e\<lparr>ks_spent_cost := ks_spent_cost e + c, ks_spent_tokens := ks_spent_tokens e + t\<rparr>"
  let ?m = "if k > 0 then budget_touch_key mgr True k ?f else mgr"
  let ?h = "\<lambda>e. e\<lparr>gs_spent_cost := gs_spent_cost e + c\<rparr>"
  from touch_key_view [OF assms(1), of ?f k] assms(1) have m: "bm_ok ?m" "group_view ?m = group_view mgr"
    "bm_current_ym ?m = bm_current_ym mgr"
    "\<forall>k'. key_entry ?m k' = (if k' = k \<and> 0 < k then ?f (key_entry mgr k) else key_entry mgr k')"
    by (auto simp: key_entry_def)
  have rec: "budget_enforce_record mgr now True k g c t = (if g > 0 then budget_touch_group ?m True g ?h else ?m)"
    using rollover_same [OF assms(2)] by (simp add: budget_enforce_record_def Let_def)
  from touch_group_view [OF m(1), of ?h g] m show ?thesis
    unfolding rec by (auto simp: key_entry_def group_entry_def)
qed

section \<open>Enforcement\<close>

text \<open>Spend records of one month: key, group, cost, tokens, time.\<close>

type_synonym spend = "int \<times> int \<times> real \<times> int \<times> int"

definition budget_run :: "budget_mgr \<Rightarrow> spend list \<Rightarrow> budget_mgr" where
  "budget_run mgr xs = foldl (\<lambda>m (k, g, c, t, now). budget_enforce_record m now True k g c t) mgr xs"

definition key_cost :: "spend list \<Rightarrow> int \<Rightarrow> real" where
  "key_cost xs k = sum_list (map (\<lambda>(k', g, c, t, now). if k' = k then c else 0) xs)"

definition key_tokens :: "spend list \<Rightarrow> int \<Rightarrow> int" where
  "key_tokens xs k = sum_list (map (\<lambda>(k', g, c, t, now). if k' = k then t else 0) xs)"

definition group_cost :: "spend list \<Rightarrow> int \<Rightarrow> real" where
  "group_cost xs g = sum_list (map (\<lambda>(k, g', c, t, now). if g' = g then c else 0) xs)"

lemma budget_run_view:
  assumes "bm_ok mgr" "\<forall>(k, g, c, t, now) \<in> set xs. get_current_year_month now = bm_current_ym mgr"
  shows "bm_ok (budget_run mgr xs) \<and> bm_current_ym (budget_run mgr xs) = bm_current_ym mgr \<and>
    (\<forall>k > 0. ks_spent_cost (key_entry (budget_run mgr xs) k) = ks_spent_cost (key_entry mgr k) + key_cost xs k \<and>
       ks_spent_tokens (key_entry (budget_run mgr xs) k) = ks_spent_tokens (key_entry mgr k) + key_tokens xs k) \<and>
    (\<forall>g > 0. gs_spent_cost (group_entry (budget_run mgr xs) g) = gs_spent_cost (group_entry mgr g) + group_cost xs g \<and>
       gs_budget_usd (group_entry (budget_run mgr xs) g) = gs_budget_usd (group_entry mgr g))"
  using assms
proof (induction xs arbitrary: mgr)
  case Nil
  then show ?case by (simp add: budget_run_def key_cost_def key_tokens_def group_cost_def)
next
  case (Cons x xs)
  obtain k g c t now where x: "x = (k, g, c, t, now)" by (cases x)
  let ?m = "budget_enforce_record mgr now True k g c t"
  from Cons.prems x have ym: "get_current_year_month now = bm_current_ym mgr" by simp
  note r = record_view [OF Cons.prems(1) ym, of k g c t]
  have run: "budget_run mgr (x # xs) = budget_run ?m xs" by (simp add: budget_run_def x)
  from r Cons.prems(2) have "\<forall>(k, g, c, t, now) \<in> set xs. get_current_year_month now = bm_current_ym ?m" by auto
  with Cons.IH [of ?m] r show ?case unfolding run
    by (auto simp: key_cost_def key_tokens_def group_cost_def x)
qed

lemma check_exact:
  assumes "get_current_year_month now = bm_current_ym mgr" "0 < k" "0 < g"
  shows "snd (budget_enforce_check mgr now k g kcb ktb gcb) = None \<longleftrightarrow>
     \<not> (kcb > 0 \<and> ks_spent_cost (key_entry mgr k) \<ge> kcb) \<and>
     \<not> (ktb > 0 \<and> ks_spent_tokens (key_entry mgr k) \<ge> ktb) \<and>
     \<not> (let b = (if gcb > 0 then gcb else gs_budget_usd (group_entry mgr g))
        in b > 0 \<and> gs_spent_cost (group_entry mgr g) \<ge> b)"
  using rollover_same [OF assms(1)] assms(2,3)
  by (cases "key_view mgr k"; cases "group_view mgr g")
     (auto simp: budget_enforce_check_def Let_def budget_check_key_def budget_check_group_def
       key_entry_def group_entry_def key_view_def group_view_def)

text \<open>Within a month a request is refused exactly when the cost or the tokens recorded for its
  key, or the cost recorded for its group, have reached the limit: every record counts once, for
  its own key and group only, and a limit of zero means none.\<close>

theorem budget_check_exact:
  assumes "budget_enforce_create True store t0 = Some mgr" and "0 < k" and "0 < g"
    and "\<forall>(k, g, c, t, now) \<in> set xs. get_current_year_month now = get_current_year_month t0"
    and "get_current_year_month now = get_current_year_month t0"
  shows "snd (budget_enforce_check (budget_run mgr xs) now k g kcb ktb gcb) = None \<longleftrightarrow>
     \<not> (kcb > 0 \<and> key_cost xs k \<ge> kcb) \<and> \<not> (ktb > 0 \<and> key_tokens xs k \<ge> ktb) \<and>
     \<not> (gcb > 0 \<and> group_cost xs g \<ge> gcb)"
proof -
  from assms(1) have mgr: "bm_ok mgr" "bm_current_ym mgr = get_current_year_month t0"
    "key_view mgr = (\<lambda>_. None)" "group_view mgr = (\<lambda>_. None)"
    using kst.empty_ok gst.empty_ok
    by (auto simp: budget_enforce_create_def bm_ok_def key_view_def group_view_def)
  from budget_run_view [OF mgr(1), of xs] mgr assms(2-5) check_exact [of now "budget_run mgr xs" k g kcb ktb gcb]
  show ?thesis by (auto simp: key_entry_def group_entry_def Let_def)
qed

lemma one_month: "get_current_year_month 1700000100 = get_current_year_month 1700000000"
  "get_current_year_month 1701500000 \<noteq> get_current_year_month 1700000000"
  by code_simp+

theorem budget_check_exact_witness:
  "snd (budget_enforce_check (budget_run (the (budget_enforce_create True False 1700000000))
      [(7, 3, 2, 100, 1700000100), (8, 3, 4, 100, 1700000100), (7, 3, 3, 10, 1700000000)]) 1700000100 7 3 5 0 0) \<noteq> None \<and>
   snd (budget_enforce_check (budget_run (the (budget_enforce_create True False 1700000000))
      [(7, 3, 2, 100, 1700000100), (8, 3, 4, 100, 1700000100), (7, 3, 3, 10, 1700000000)]) 1700000100 8 3 5 101 10) = None"
proof -
  let ?xs = "[(7, 3, 2, 100, 1700000100), (8, 3, 4, 100, 1700000100), (7, 3, 3, 10, 1700000000)] :: spend list"
  have c: "budget_enforce_create True False 1700000000 = Some (the (budget_enforce_create True False 1700000000))"
    by (simp add: budget_enforce_create_def)
  have m: "\<forall>(k, g, c, t, now) \<in> set ?xs. get_current_year_month now = get_current_year_month 1700000000"
    using one_month by simp
  have s: "key_cost ?xs 7 = 5" "key_cost ?xs 8 = 4" "key_tokens ?xs 8 = 100" "group_cost ?xs 3 = 9"
    by (simp_all add: key_cost_def key_tokens_def group_cost_def)
  from budget_check_exact [OF c _ _ m one_month(1), of 7 3 5 0 0]
    budget_check_exact [OF c _ _ m one_month(1), of 8 3 5 101 10] show ?thesis by (simp add: s)
qed

section \<open>What is forgotten\<close>

text \<open>The change of month drops the limits of the groups with the spend: whatever budgets were
  set before, in the new month a group is never refused by a limit of its own (the request
  carrying none), however much it spends.\<close>

theorem budget_rollover_drops_group_limits:
  assumes "bm_ok mgr" and "get_current_year_month t1 \<noteq> bm_current_ym mgr" and "0 < g"
    and "\<forall>(k, g, c, t, now) \<in> set xs. get_current_year_month now = get_current_year_month t1"
    and "get_current_year_month now = get_current_year_month t1"
  shows "snd (budget_enforce_check
     (budget_run (budget_enforce_record (budget_enforce_set_group_budget mgr True g b) t1 True 0 g c n) xs)
     now 0 g 0 0 0) = None"
proof -
  let ?m0 = "budget_enforce_set_group_budget mgr True g b"
  have ym0: "bm_current_ym ?m0 = bm_current_ym mgr"
    using touch_group_view [OF assms(1), of "\<lambda>e. e\<lparr>gs_budget_usd := b\<rparr>" g] by (simp add: budget_enforce_set_group_budget_def)
  let ?m1 = "(clear_buckets ?m0)\<lparr>bm_current_ym := get_current_year_month t1\<rparr>"
  have ro: "budget_rollover ?m0 t1 = ?m1" using assms(2) ym0 by (simp add: budget_rollover_def Let_def)
  then have rec: "budget_enforce_record ?m0 t1 True 0 g c n = budget_enforce_record ?m1 t1 True 0 g c n"
    using rollover_same [of t1 ?m1] by (simp add: budget_enforce_record_def)
  have m1: "bm_ok ?m1" "group_view ?m1 = (\<lambda>_. None)" by (simp_all add: bm_empty)
  let ?m2 = "budget_enforce_record ?m1 t1 True 0 g c n"
  from record_view [OF m1(1), of t1 0 g c n] m1(2) have m2: "bm_ok ?m2"
    "bm_current_ym ?m2 = get_current_year_month t1" "gs_budget_usd (group_entry ?m2 g) = 0"
    using assms(3) by (auto simp: group_entry_def)
  let ?m3 = "budget_run ?m2 xs"
  from budget_run_view [OF m2(1), of xs] m2 assms(3,4) have m3: "bm_current_ym ?m3 = get_current_year_month t1"
    "gs_budget_usd (group_entry ?m3 g) = 0" by auto
  have "budget_check_group (group_view ?m3 g) g 0 = None"
    using m3(2) by (cases "group_view ?m3 g") (auto simp: budget_check_group_def group_entry_def)
  with m3(1) assms(3,5) rollover_same [of now ?m3] show ?thesis
    unfolding rec by (simp add: budget_enforce_check_def Let_def group_view_def)
qed

theorem budget_rollover_drops_group_limits_witness:
  "snd (budget_enforce_check
     (budget_run (budget_enforce_record (budget_enforce_set_group_budget
        (the (budget_enforce_create True False 1700000000)) True 3 10) 1701500000 True 0 3 1000 0)
        [(7, 3, 5000, 100, 1701500000)]) 1701500000 0 3 0 0 0) = None"
proof (rule budget_rollover_drops_group_limits)
  show "bm_ok (the (budget_enforce_create True False 1700000000))"
    using kst.empty_ok gst.empty_ok by (simp add: budget_enforce_create_def bm_ok_def)
qed (use one_month in \<open>simp_all add: budget_enforce_create_def\<close>)

lemma foldl_keeps: "P m \<Longrightarrow> (\<And>m x. P m \<Longrightarrow> P (f m x)) \<Longrightarrow> P (foldl f m xs)"
  by (induction xs arbitrary: m) auto

definition no_spend :: "budget_mgr \<Rightarrow> bool" where
  "no_spend m \<longleftrightarrow> bm_ok m \<and> (\<forall>k. key_view m k = None) \<and> (\<forall>g. gs_spent_cost (group_entry m g) = 0)"

lemma no_spend_group:
  assumes "no_spend m" "\<And>e. gs_group_id (f e) = gs_group_id e" "\<And>e. gs_spent_cost e = 0 \<Longrightarrow> gs_spent_cost (f e) = 0"
  shows "no_spend (budget_touch_group m True g f)"
  using touch_group_view [of m f g] assms by (auto simp: no_spend_def group_entry_def)

lemma no_spend_rollover: "no_spend m \<Longrightarrow> no_spend (budget_rollover m now)"
  by (auto simp: budget_rollover_def Let_def no_spend_def bm_empty group_entry_def)

text \<open>Loading the month from the store at start-up restores no spend: whatever cost rows it
  returns, afterwards every key's usage and every group's spend is zero, so a month's spend is
  forgotten at every restart.\<close>

theorem budget_init_restores_no_spend:
  assumes "budget_enforce_create True True t0 = Some mgr"
    and "m = budget_enforce_init_from_db mgr True now clock groups costs"
  shows "(k > 0 \<longrightarrow> budget_enforce_get_key_usage m k = Some (0, 0)) \<and>
    (g > 0 \<longrightarrow> budget_enforce_get_group_usage m g = Some 0)"
proof -
  have 0: "no_spend mgr"
    using assms(1) kst.empty_ok gst.empty_ok
    by (auto simp: budget_enforce_create_def no_spend_def bm_ok_def key_view_def group_view_def group_entry_def)
  let ?set = "\<lambda>m g. budget_enforce_set_group_reasoning_quota
      (budget_enforce_set_group_budget m True (gr_id g) (gr_monthly_budget_usd g)) True (gr_id g) (gr_daily_reasoning_quota g)"
  let ?rec = "\<lambda>m (i, r). budget_enforce_record m (clock i) True 0 (cr_group_id r) 0 (cr_prompt r + cr_completion r)"
  have set1: "no_spend (?set m g)" if "no_spend m" for m g
    unfolding budget_enforce_set_group_reasoning_quota_def budget_enforce_set_group_budget_def
    using that by (auto intro!: no_spend_group)
  have rec1: "no_spend (budget_enforce_record m t True 0 g' 0 n)" if "no_spend m" for m t g' n
    using no_spend_rollover [OF that]
    by (auto simp: budget_enforce_record_def Let_def intro!: no_spend_group)
  have "no_spend (foldl ?set mgr gs)" for gs by (rule foldl_keeps [where P = no_spend, OF 0]) (rule set1)
  moreover have "no_spend m' \<Longrightarrow> no_spend (foldl ?rec m' rows)" for m' rows
    by (rule foldl_keeps [where P = no_spend]) (auto intro: rec1)
  ultimately have "no_spend m"
    using 0 unfolding assms(2) budget_enforce_init_from_db_def Let_def by (auto split: option.splits)
  then have "key_view m k = None" "gs_spent_cost (group_entry m g) = 0" by (auto simp: no_spend_def)
  then show ?thesis
    by (auto simp: budget_enforce_get_key_usage_def budget_enforce_get_group_usage_def key_view_def
        group_entry_def group_view_def split: option.splits)
qed

theorem budget_init_restores_no_spend_witness:
  "budget_enforce_get_group_usage (budget_enforce_init_from_db (the (budget_enforce_create True True 0)) True 100
      (\<lambda>i. 100) (Some [\<lparr>gr_id = 3, gr_monthly_budget_usd = 10, gr_daily_reasoning_quota = 0\<rparr>])
      (Some (\<lambda>a b. Some [\<lparr>cr_group_id = 3, cr_prompt = 1000000, cr_completion = 500000\<rparr>]))) 3 = Some 0"
  using budget_init_restores_no_spend [of 0 "the (budget_enforce_create True True 0)", OF _ refl, where g = 3]
  by (simp add: budget_enforce_create_def)

end
