(* ===== verification/Exchange_Sort.thy ===== *)
theory Exchange_Sort
  imports "HOL-Library.Multiset"
begin

text \<open>
  The sort the sources write as two nested loops: for every position \<open>i\<close>, each later element that is
  better than the one at \<open>i\<close> is exchanged with it. The comparison is an argument.
\<close>

text \<open>The inner loop: the element left at \<open>i\<close>, and the later ones.\<close>

fun ex_swap :: "('a \<Rightarrow> 'a \<Rightarrow> bool) \<Rightarrow> 'a \<Rightarrow> 'a list \<Rightarrow> 'a \<times> 'a list" where
  "ex_swap better x [] = (x, [])"
| "ex_swap better x (y # ys) =
     (if better y x then (let (m, r) = ex_swap better y ys in (m, x # r))
      else (let (m, r) = ex_swap better x ys in (m, y # r)))"

lemma ex_swap_length [simp]: "length (snd (ex_swap better x ys)) = length ys"
  by (induction ys arbitrary: x) (auto simp: case_prod_unfold Let_def)

function ex_sort :: "('a \<Rightarrow> 'a \<Rightarrow> bool) \<Rightarrow> 'a list \<Rightarrow> 'a list" where
  "ex_sort better [] = []"
| "ex_sort better (x # xs) = (case ex_swap better x xs of (m, r) \<Rightarrow> m # ex_sort better r)"
  by pat_completeness auto
termination
proof (relation "measure (length \<circ> snd)")
  fix better :: "'a \<Rightarrow> 'a \<Rightarrow> bool" and x xs m r
  assume "(m, r) = ex_swap better x xs"
  then have "length r = length xs" by (metis snd_conv ex_swap_length)
  then show "((better, r), (better, x # xs)) \<in> measure (length \<circ> snd)" by simp
qed simp

lemma ex_swap_mset: "add_mset (fst (ex_swap better x ys)) (mset (snd (ex_swap better x ys))) = add_mset x (mset ys)"
proof (induction ys arbitrary: x)
  case (Cons y ys)
  show ?case using Cons [of x] Cons [of y] by (simp add: case_prod_unfold Let_def add_mset_commute)
qed simp

lemma ex_sort_mset [simp]: "mset (ex_sort better xs) = mset xs"
proof (induction better xs rule: ex_sort.induct)
  case (2 better x xs)
  obtain m r where s: "ex_swap better x xs = (m, r)" by (cases "ex_swap better x xs")
  with 2 [OF s [symmetric]] ex_swap_mset [of better x xs] show ?case by simp
qed simp

lemma ex_sort_set [simp]: "set (ex_sort better xs) = set xs"
  by (metis ex_sort_mset set_mset_mset)

lemma ex_sort_length [simp]: "length (ex_sort better xs) = length xs"
  by (metis ex_sort_mset size_mset)

lemma ex_sort_distinct [simp]: "distinct (ex_sort better xs) = distinct xs"
  by (metis ex_sort_mset mset_eq_imp_distinct_iff)

text \<open>When the comparison is that of a key in a linear order, the result is sorted by the key.\<close>

lemma ex_swap_min:
  assumes "\<And>a b. better a b \<longleftrightarrow> f a < (f b :: 'k :: linorder)"
  shows "f (fst (ex_swap better x ys)) \<le> f x \<and> (\<forall>z \<in> set (snd (ex_swap better x ys)). f (fst (ex_swap better x ys)) \<le> f z)"
proof (induction ys arbitrary: x)
  case (Cons y ys)
  show ?case using Cons [of x] Cons [of y] assms [of y x]
    by (auto simp: case_prod_unfold Let_def)
qed simp

lemma ex_sort_sorted:
  fixes f :: "'a \<Rightarrow> 'k :: linorder"
  assumes "\<And>a b. better a b \<longleftrightarrow> f a < f b"
  shows "sorted (map f (ex_sort better xs))"
  using assms
proof (induction better xs rule: ex_sort.induct)
  case (2 better x xs)
  obtain m r where s: "ex_swap better x xs = (m, r)" by (cases "ex_swap better x xs")
  have "\<forall>z \<in> set r. f m \<le> f z" using ex_swap_min [of better f x xs, OF 2(2)] s by simp
  with 2(1) [OF s [symmetric] 2(2)] s show ?case by simp
qed simp

lemma ex_sort_is_sort: "ex_sort (<) xs = sort (xs :: 'a :: linorder list)"
proof -
  have "sorted (ex_sort (<) xs)" using ex_sort_sorted [of "(<)" "\<lambda>x. x" xs] by simp
  then show ?thesis by (metis ex_sort_mset properties_for_sort)
qed

end
