(* ===== verification/Latency_Tracker.thy ===== *)
theory Latency_Tracker
  imports Ring Entry_Table Exchange_Sort
begin

text \<open>
  \<^verbatim>\<open>src/policy/latency_tracker.c\<close>: recent latencies per model and endpoint, their 95th percentile
  and moving average, and the budget of hedged requests. The table is the used part of the fixed
  array of 512 entries; a pointer to an entry is its index. Averages (\<open>double\<close>) are real numbers;
  \<open>uint32_t\<close> milliseconds are 32-bit words, the 64-bit request counters natural numbers. The
  locks make every operation atomic; a NULL handle is left out.
\<close>

section \<open>State\<close>

record latency_entry =
  le_model :: string
  le_endpoint :: string
  le_samples :: "32 word list"
  le_head :: "32 word"
  le_count :: nat
  le_cached_p95 :: "32 word"
  le_ewma :: real
  le_total :: nat
  le_hedged :: nat

type_synonym latency_tracker = "latency_entry list"

definition LT_WINDOW :: nat where "LT_WINDOW = 64"
definition LT_MAX_ENTRIES :: nat where "LT_MAX_ENTRIES = 512"

definition latency_tracker_create :: "bool \<Rightarrow> latency_tracker option" where
  "latency_tracker_create alloc_ok = (if alloc_ok then Some [] else None)"

section \<open>Percentile\<close>

text \<open>\<open>(size_t)(n * 0.95)\<close>\<close>

definition p95_idx :: "nat \<Rightarrow> nat" where
  "p95_idx n = nat \<lfloor>real n * (95 / 100)\<rfloor>"

definition calc_p95 :: "32 word list \<Rightarrow> nat \<Rightarrow> 32 word" where
  "calc_p95 samples n =
     (if n = 0 then 1000
      else let copy = ex_sort (<) (take n samples);
               idx = p95_idx n
           in copy ! (if idx \<ge> n then n - 1 else idx))"

section \<open>Entries\<close>

definition lt_find :: "latency_tracker \<Rightarrow> string \<Rightarrow> string \<Rightarrow> nat option" where
  "lt_find lt model endpoint = find_idx (\<lambda>e. le_model e = model \<and> le_endpoint e = endpoint) lt"

text \<open>A slot of the array keeps its old samples; they are not read while the count is 0.\<close>

definition lt_new_entry :: "string \<Rightarrow> string \<Rightarrow> latency_entry" where
  "lt_new_entry model endpoint =
     \<lparr>le_model = cstr_copy 64 model, le_endpoint = cstr_copy 256 endpoint,
      le_samples = replicate LT_WINDOW 0, le_head = 0, le_count = 0, le_cached_p95 = 1000,
      le_ewma = 1000, le_total = 0, le_hedged = 0\<rparr>"

definition lt_get_or_create ::
  "latency_tracker \<Rightarrow> string option \<Rightarrow> string option \<Rightarrow> (latency_tracker \<times> nat) option" where
  "lt_get_or_create lt model endpoint =
     (case (model, endpoint) of
        (Some m, Some ep) \<Rightarrow>
          (case lt_find lt m ep of
             Some i \<Rightarrow> Some (lt, i)
           | None \<Rightarrow>
               if length lt \<ge> LT_MAX_ENTRIES then None
               else Some (lt @ [lt_new_entry m ep], length lt))
      | _ \<Rightarrow> None)"

definition le_record :: "32 word \<Rightarrow> latency_entry \<Rightarrow> latency_entry" where
  "le_record ms e =
     (let samples = (le_samples e)[unat (le_head e) mod LT_WINDOW := ms];
          count = (if le_count e < LT_WINDOW then le_count e + 1 else le_count e)
      in e\<lparr>le_ewma := (if le_count e = 0 then real (unat ms)
                       else 0.2 * real (unat ms) + 0.8 * le_ewma e),
           le_samples := samples, le_head := le_head e + 1, le_count := count,
           le_cached_p95 := calc_p95 samples count\<rparr>)"

definition ms_of_ns :: "64 word \<Rightarrow> 32 word" where
  "ms_of_ns latency_ns = (let ms = ucast (latency_ns div 1000000) in if ms = 0 then 1 else ms)"

definition latency_tracker_record ::
  "latency_tracker \<Rightarrow> string option \<Rightarrow> string option \<Rightarrow> 64 word \<Rightarrow> latency_tracker" where
  "latency_tracker_record lt model endpoint latency_ns =
     (case lt_get_or_create lt model endpoint of
        None \<Rightarrow> lt
      | Some (lt1, i) \<Rightarrow> lt1[i := le_record (ms_of_ns latency_ns) (lt1 ! i)])"

definition latency_tracker_get_p95_ms :: "latency_tracker \<Rightarrow> string option \<Rightarrow> string option \<Rightarrow> 32 word" where
  "latency_tracker_get_p95_ms lt model endpoint =
     (case (model, endpoint) of
        (Some m, Some ep) \<Rightarrow> (case lt_find lt m ep of Some i \<Rightarrow> le_cached_p95 (lt ! i) | None \<Rightarrow> 1000)
      | _ \<Rightarrow> 1000)"

definition latency_tracker_get_ewma_ms :: "latency_tracker \<Rightarrow> string option \<Rightarrow> string option \<Rightarrow> 32 word" where
  "latency_tracker_get_ewma_ms lt model endpoint =
     (case (model, endpoint) of
        (Some m, Some ep) \<Rightarrow> (case lt_find lt m ep of Some i \<Rightarrow> word_of_int \<lfloor>le_ewma (lt ! i)\<rfloor> | None \<Rightarrow> 1000)
      | _ \<Rightarrow> 1000)"

definition latency_tracker_record_request :: "latency_tracker \<Rightarrow> string option \<Rightarrow> latency_tracker" where
  "latency_tracker_record_request lt model =
     (case lt_get_or_create lt model (Some ''*'') of
        None \<Rightarrow> lt
      | Some (lt1, i) \<Rightarrow> lt1[i := (lt1 ! i)\<lparr>le_total := le_total (lt1 ! i) + 1\<rparr>])"

definition latency_tracker_record_hedge :: "latency_tracker \<Rightarrow> string option \<Rightarrow> latency_tracker" where
  "latency_tracker_record_hedge lt model =
     (case lt_get_or_create lt model (Some ''*'') of
        None \<Rightarrow> lt
      | Some (lt1, i) \<Rightarrow> lt1[i := (lt1 ! i)\<lparr>le_hedged := le_hedged (lt1 ! i) + 1\<rparr>])"

definition latency_tracker_hedge_admitted ::
  "latency_tracker \<Rightarrow> string option \<Rightarrow> int \<Rightarrow> latency_tracker \<times> bool" where
  "latency_tracker_hedge_admitted lt model budget_pct =
     (if budget_pct \<le> 0 then (lt, False)
      else case lt_get_or_create lt model (Some ''*'') of
             None \<Rightarrow> (lt, False)
           | Some (lt1, i) \<Rightarrow>
               (lt1, (le_hedged (lt1 ! i) * 100) div (le_total (lt1 ! i) + 1) \<le> nat budget_pct))"

definition latency_tracker_reset :: "latency_tracker \<Rightarrow> latency_tracker" where
  "latency_tracker_reset lt = []"

section \<open>The table as a map\<close>

definition le_ok :: "latency_entry \<Rightarrow> bool" where
  "le_ok e \<longleftrightarrow> length (le_samples e) = LT_WINDOW \<and> length (le_model e) < 64 \<and> length (le_endpoint e) < 256"

definition lt_inv :: "latency_tracker \<Rightarrow> bool" where
  "lt_inv lt \<longleftrightarrow> length lt \<le> LT_MAX_ENTRIES \<and> (\<forall>e \<in> set lt. le_ok e)"

definition lt_view :: "latency_tracker \<Rightarrow> string \<times> string \<Rightarrow> latency_entry option" where
  "lt_view lt k = map_option (\<lambda>i. lt ! i) (lt_find lt (fst k) (snd k))"

definition lt_touch :: "latency_tracker \<Rightarrow> string \<times> string \<Rightarrow> (latency_tracker \<times> nat) option" where
  "lt_touch lt k = lt_get_or_create lt (Some (fst k)) (Some (snd k))"

definition lt_place :: "latency_tracker \<Rightarrow> string \<times> string \<Rightarrow> nat \<Rightarrow> bool" where
  "lt_place lt k i \<longleftrightarrow> lt_find lt (fst k) (snd k) = Some i"

definition lt_at :: "latency_tracker \<Rightarrow> nat \<Rightarrow> latency_entry" where "lt_at lt i = lt ! i"

definition lt_put :: "latency_tracker \<Rightarrow> nat \<Rightarrow> latency_entry \<Rightarrow> latency_tracker" where
  "lt_put lt i e = lt[i := e]"

definition lt_fresh :: "string \<times> string \<Rightarrow> latency_entry" where
  "lt_fresh k = lt_new_entry (fst k) (snd k)"

definition lt_short :: "string \<times> string \<Rightarrow> bool" where
  "lt_short k \<longleftrightarrow> length (fst k) < 64 \<and> length (snd k) < 256"

definition lt_like :: "latency_entry \<Rightarrow> latency_entry \<Rightarrow> bool" where
  "lt_like e e' \<longleftrightarrow> le_model e' = le_model e \<and> le_endpoint e' = le_endpoint e \<and> (le_ok e \<longrightarrow> le_ok e')"

lemma find_idx_append:
  "find_idx P (xs @ ys) = (case find_idx P xs of Some i \<Rightarrow> Some i | None \<Rightarrow> map_option (\<lambda>i. length xs + i) (find_idx P ys))"
  by (cases "find_idx P ys"; induction xs) (auto split: option.splits)

lemma find_idx_upd:
  "i < length xs \<Longrightarrow> P v = P (xs ! i) \<Longrightarrow> find_idx P (xs[i := v]) = find_idx P xs"
proof (induction xs arbitrary: i)
  case (Cons x xs)
  then show ?case by (cases i) auto
qed simp

lemma lt_touch_view:
  assumes inv: "lt_inv lt" and sh: "lt_short k" and to: "lt_touch lt k = Some (lt', i)"
  shows "lt_inv lt' \<and> lt_place lt' k i \<and>
    lt_view lt' = (lt_view lt)(k \<mapsto> case lt_view lt k of None \<Rightarrow> lt_fresh k | Some e \<Rightarrow> e)"
proof (cases "lt_find lt (fst k) (snd k)")
  case (Some j)
  with to have "lt' = lt" "i = j" by (auto simp: lt_touch_def lt_get_or_create_def)
  moreover have "lt_view lt k = Some (lt ! j)" using Some by (simp add: lt_view_def)
  ultimately show ?thesis using Some inv by (simp add: lt_place_def fun_upd_idem)
next
  case None
  with to have new: "lt' = lt @ [lt_fresh k]" "i = length lt" "length lt < LT_MAX_ENTRIES"
    by (auto simp: lt_touch_def lt_get_or_create_def lt_fresh_def split: if_splits)
  have nm: "le_model (lt_fresh k) = fst k" "le_endpoint (lt_fresh k) = snd k" "le_ok (lt_fresh k)"
    using sh by (simp_all add: lt_short_def lt_fresh_def lt_new_entry_def le_ok_def)
  then have inv': "lt_inv lt'" using inv new by (simp add: lt_inv_def)
  have pl: "lt_place lt' k i" using None nm new by (simp add: lt_place_def lt_find_def find_idx_append)
  have "lt_view lt' k' = ((lt_view lt)(k \<mapsto> lt_fresh k)) k'" for k'
  proof (cases "k' = k")
    case True
    with pl new show ?thesis by (simp add: lt_view_def lt_place_def)
  next
    case False
    with nm have "\<not> (le_model (lt_fresh k) = fst k' \<and> le_endpoint (lt_fresh k) = snd k')" by (cases k; cases k') auto
    with False new show ?thesis
      by (cases "lt_find lt (fst k') (snd k')")
         (auto simp: lt_view_def lt_find_def find_idx_append nth_append dest: find_idx_in_range)
  qed
  moreover have "lt_view lt k = None" using None by (simp add: lt_view_def)
  ultimately show ?thesis using inv' pl by (auto simp: fun_eq_iff)
qed

lemma lt_put_view:
  assumes inv: "lt_inv lt" and pl: "lt_place lt k i" and like: "lt_like (lt_at lt i) e"
  shows "lt_inv (lt_put lt i e) \<and> lt_place (lt_put lt i e) k i \<and> lt_view (lt_put lt i e) = (lt_view lt)(k \<mapsto> e)"
proof -
  from pl find_idx_Some have i: "i < length lt" "le_model (lt ! i) = fst k" "le_endpoint (lt ! i) = snd k"
    by (fastforce simp: lt_place_def lt_find_def)+
  have fe: "lt_find (lt_put lt i e) m ep = lt_find lt m ep" for m ep
    using i(1) like by (simp add: lt_find_def lt_put_def lt_at_def lt_like_def find_idx_upd)
  have "le_ok e" using inv i(1) like by (simp add: lt_inv_def lt_like_def lt_at_def)
  then have "\<forall>x \<in> set (lt[i := e]). le_ok x" using inv by (intro ball_list_update) (auto simp: lt_inv_def)
  then have inv': "lt_inv (lt_put lt i e)" using inv by (simp add: lt_inv_def lt_put_def)
  have "lt_view (lt_put lt i e) k' = ((lt_view lt)(k \<mapsto> e)) k'" for k'
  proof (cases "k' = k")
    case True
    with pl i(1) fe show ?thesis by (simp add: lt_view_def lt_place_def lt_put_def)
  next
    case False
    show ?thesis
    proof (cases "lt_find lt (fst k') (snd k')")
      case None
      with fe False show ?thesis by (simp add: lt_view_def)
    next
      case (Some j)
      with find_idx_Some have "le_model (lt ! j) = fst k'" "le_endpoint (lt ! j) = snd k'"
        by (fastforce simp: lt_find_def)+
      with i False have "j \<noteq> i" by (cases k; cases k') auto
      with Some fe False show ?thesis by (simp add: lt_view_def lt_put_def)
    qed
  qed
  with inv' pl fe show ?thesis by (auto simp: lt_place_def)
qed

interpretation ltt: entry_table lt_inv lt_view lt_touch lt_place lt_at lt_put lt_fresh lt_short lt_like
proof unfold_locales
  fix s k l
  assume "lt_inv s" "lt_place s k l"
  then show "lt_view s k = Some (lt_at s l)" by (simp add: lt_view_def lt_place_def lt_at_def)
qed (use lt_touch_view lt_put_view in auto)


section \<open>The percentile\<close>

text \<open>The samples recorded for a key, newest last; the specification of the percentile.\<close>

definition p95_spec :: "32 word list \<Rightarrow> 32 word" where
  "p95_spec xs = sort xs ! p95_idx (length xs)"

definition le_tracks :: "32 word list \<Rightarrow> latency_entry \<Rightarrow> bool" where
  "le_tracks xs e \<longleftrightarrow>
     ring_ok LT_WINDOW (le_samples e) (unat (le_head e) mod LT_WINDOW) (le_count e) \<and>
     ring_contents (le_samples e) (unat (le_head e) mod LT_WINDOW) (le_count e) = last_n LT_WINDOW xs"

lemma mset_eq_ring:
  assumes "ring_ok w slots hd' cnt"
  shows "mset (ring_contents slots hd' cnt) = mset (take cnt slots)"
proof -
  from assms have "hd' \<le> cnt" by (auto simp: ring_ok_def)
  then have "take cnt slots = take hd' slots @ drop hd' (take cnt slots)"
    by (metis append_take_drop_id min.absorb1 take_take)
  then have "mset (take cnt slots) = mset (take hd' slots) + mset (drop hd' (take cnt slots))"
    by (metis mset_append)
  then show ?thesis by (simp add: ring_contents_def)
qed

lemma head_step: "(unat ((h :: 32 word) + 1)) mod LT_WINDOW = (unat h mod LT_WINDOW + 1) mod LT_WINDOW"
proof -
  have "unat (h + 1) = (unat h + 1) mod 2 ^ 32" by (simp add: unat_word_ariths)
  moreover have "(a mod 2 ^ 32) mod 64 = a mod 64" for a :: nat
    by (rule mod_mod_cancel) simp
  ultimately show ?thesis by (simp add: LT_WINDOW_def mod_simps)
qed

lemma p95_index: "0 < n \<Longrightarrow> p95_idx n < n"
proof -
  assume "0 < n"
  then have "real n * (95 / 100) < real n" by simp
  then have "\<lfloor>real n * (95 / 100)\<rfloor> < int n" by (simp only: floor_less_iff of_int_of_nat_eq)
  with \<open>0 < n\<close> show ?thesis by (simp only: p95_idx_def nat_less_iff)
qed

lemma le_record_tracks:
  assumes "le_tracks xs e"
  shows "le_tracks (xs @ [ms]) (le_record ms e) \<and>
    le_cached_p95 (le_record ms e) = p95_spec (last_n LT_WINDOW (xs @ [ms]))"
proof
  have w: "0 < LT_WINDOW" by (simp add: LT_WINDOW_def)
  from ring_push [of LT_WINDOW "le_samples e" "unat (le_head e) mod LT_WINDOW" "le_count e" ms] assms
    last_n_snoc [OF w, of xs ms]
  show t: "le_tracks (xs @ [ms]) (le_record ms e)"
    by (simp add: le_tracks_def le_record_def Let_def head_step)
  let ?e = "le_record ms e"
  from t have ok: "ring_ok LT_WINDOW (le_samples ?e) (unat (le_head ?e) mod LT_WINDOW) (le_count ?e)"
    and c: "ring_contents (le_samples ?e) (unat (le_head ?e) mod LT_WINDOW) (le_count ?e) = last_n LT_WINDOW (xs @ [ms])"
    by (auto simp: le_tracks_def)
  from length_ring_contents [OF ok] c have n: "le_count ?e = length (last_n LT_WINDOW (xs @ [ms]))" by simp
  then have pos: "0 < le_count ?e" using w by simp
  from mset_eq_ring [OF ok] c have "sort (take (le_count ?e) (le_samples ?e)) = sort (last_n LT_WINDOW (xs @ [ms]))"
    by (metis sorted_list_of_multiset_mset)
  moreover have "le_cached_p95 ?e = calc_p95 (le_samples ?e) (le_count ?e)"
    by (simp add: le_record_def Let_def)
  ultimately show "le_cached_p95 ?e = p95_spec (last_n LT_WINDOW (xs @ [ms]))"
    using p95_index [OF pos] pos unfolding p95_spec_def n [symmetric]
    by (simp add: calc_p95_def ex_sort_is_sort Let_def)
qed

lemma lt_touch_some:
  assumes "length lt < LT_MAX_ENTRIES \<or> lt_view lt k \<noteq> None"
  shows "\<exists>lt1 i. lt_touch lt k = Some (lt1, i)"
  using assms by (cases "lt_find lt (fst k) (snd k)") (auto simp: lt_touch_def lt_get_or_create_def lt_view_def)

definition lt_run :: "latency_tracker \<Rightarrow> string \<Rightarrow> string \<Rightarrow> 64 word list \<Rightarrow> latency_tracker" where
  "lt_run lt m ep ns = foldl (\<lambda>t n. latency_tracker_record t (Some m) (Some ep) n) lt ns"

lemma lt_record_view:
  assumes "lt_inv lt" "lt_short (m, ep)" "length lt < LT_MAX_ENTRIES \<or> lt_view lt (m, ep) \<noteq> None"
  shows "lt_inv (latency_tracker_record lt (Some m) (Some ep) n) \<and>
    lt_view (latency_tracker_record lt (Some m) (Some ep) n) = (lt_view lt)((m, ep) \<mapsto>
      le_record (ms_of_ns n) (case lt_view lt (m, ep) of None \<Rightarrow> lt_fresh (m, ep) | Some e \<Rightarrow> e))"
proof -
  from lt_touch_some [OF assms(3)] obtain lt1 i where to: "lt_touch lt (m, ep) = Some (lt1, i)" by blast
  have "lt_like e (le_record ms e)" for ms e
    by (simp add: lt_like_def le_ok_def le_record_def Let_def)
  from ltt.touch_update [OF assms(1,2) to, of "le_record (ms_of_ns n)", OF this] to show ?thesis
    by (simp add: latency_tracker_record_def lt_touch_def lt_put_def lt_at_def)
qed

text \<open>After any latencies recorded for a new endpoint, the cached percentile is the one of the
  sorted last 64 of them (in milliseconds, at least 1): element \<open>floor(0.95 n)\<close>.\<close>

theorem latency_p95_of_window:
  assumes "lt_inv lt" and "lt_short (m, ep)" and "lt_view lt (m, ep) = None" and "length lt < LT_MAX_ENTRIES"
    and "ns \<noteq> []"
  shows "latency_tracker_get_p95_ms (lt_run lt m ep ns) (Some m) (Some ep) =
    p95_spec (last_n LT_WINDOW (map ms_of_ns ns))"
proof -
  have fresh: "le_tracks [] (lt_fresh (m, ep))"
    using ring_init [of LT_WINDOW "replicate LT_WINDOW (0 :: 32 word)"]
    by (simp add: le_tracks_def lt_fresh_def lt_new_entry_def LT_WINDOW_def)
  have "lt_inv (lt_run lt m ep ns) \<and> (ns \<noteq> [] \<longrightarrow> (\<exists>e. lt_view (lt_run lt m ep ns) (m, ep) = Some e \<and>
      le_tracks (map ms_of_ns ns) e \<and> le_cached_p95 e = p95_spec (last_n LT_WINDOW (map ms_of_ns ns))))"
  proof (induction ns rule: rev_induct)
    case Nil
    with assms(1) show ?case by (simp add: lt_run_def)
  next
    case (snoc n ns)
    let ?t = "lt_run lt m ep ns"
    have run: "lt_run lt m ep (ns @ [n]) = latency_tracker_record ?t (Some m) (Some ep) n" by (simp add: lt_run_def)
    let ?e = "case lt_view ?t (m, ep) of None \<Rightarrow> lt_fresh (m, ep) | Some e \<Rightarrow> e"
    have room: "length ?t < LT_MAX_ENTRIES \<or> lt_view ?t (m, ep) \<noteq> None"
      using snoc assms(4) by (cases "ns = []") (auto simp: lt_run_def)
    have tr: "le_tracks (map ms_of_ns ns) ?e"
      using snoc fresh assms(3) by (cases "ns = []") (auto simp: lt_run_def)
    from lt_record_view [OF _ assms(2) room, of n] snoc le_record_tracks [OF tr, of "ms_of_ns n"]
    show ?case by (simp add: run)
  qed
  with assms(5) show ?thesis
    by (auto simp: latency_tracker_get_p95_ms_def lt_view_def split: option.splits)
qed

theorem latency_p95_of_window_witness:
  "latency_tracker_get_p95_ms (lt_run [] ''gpt'' ''eu'' [5000000, 900000000, 999]) (Some ''gpt'') (Some ''eu'') = 900"
proof -
  have "lt_inv []" "lt_view [] (''gpt'', ''eu'') = None" by (simp_all add: lt_inv_def lt_view_def lt_find_def)
  moreover have "map ms_of_ns [5000000, 900000000, 999] = [5, 900, 1]" by (simp add: ms_of_ns_def Let_def)
  moreover have "sort [5, 900, 1 :: 32 word] = [1, 5, 900]" by code_simp
  then have "p95_spec [5, 900, 1] = 900" by (simp add: p95_spec_def p95_idx_def)
  ultimately show ?thesis
    using latency_p95_of_window [of "[]" "''gpt''" "''eu''" "[5000000, 900000000, 999]"]
    by (simp add: lt_short_def LT_MAX_ENTRIES_def LT_WINDOW_def)
qed

section \<open>The hedge budget\<close>

text \<open>A gateway that asks before it hedges: each request is counted, and a hedge is sent and counted
  when it wants one and it is admitted.\<close>

definition hedge_step :: "string \<Rightarrow> int \<Rightarrow> latency_tracker \<Rightarrow> bool \<Rightarrow> latency_tracker" where
  "hedge_step m pct lt wants =
     (let lt1 = latency_tracker_record_request lt (Some m);
          (lt2, ok) = latency_tracker_hedge_admitted lt1 (Some m) pct
      in if wants \<and> ok then latency_tracker_record_hedge lt2 (Some m) else lt2)"

definition hedge_counts :: "latency_tracker \<Rightarrow> string \<Rightarrow> nat \<times> nat" where
  "hedge_counts lt m = (case lt_view lt (m, ''*'') of None \<Rightarrow> (0, 0) | Some e \<Rightarrow> (le_total e, le_hedged e))"

lemma lt_star:
  assumes "lt_inv lt" "length m < 64" "length lt < LT_MAX_ENTRIES \<or> lt_view lt (m, ''*'') \<noteq> None"
  shows "\<exists>lt1 i. lt_get_or_create lt (Some m) (Some ''*'') = Some (lt1, i) \<and> lt_inv lt1 \<and>
    lt_view lt1 (m, ''*'') = Some (lt1 ! i) \<and> (le_total (lt1 ! i), le_hedged (lt1 ! i)) = hedge_counts lt m \<and>
    (\<forall>e. lt_like (lt1 ! i) e \<longrightarrow> lt_inv (lt1[i := e]) \<and> lt_view (lt1[i := e]) (m, ''*'') = Some e)"
proof -
  have k: "lt_short (m, ''*'')" using assms(2) by (simp add: lt_short_def)
  from lt_touch_some [OF assms(3)] obtain lt1 i where to: "lt_touch lt (m, ''*'') = Some (lt1, i)" by blast
  from ltt.touch_law [OF assms(1) k to] have 1: "lt_inv lt1" "lt_place lt1 (m, ''*'') i" by auto
  from ltt.at_law [OF 1] ltt.touch_at [OF assms(1) k to] ltt.put_law [OF 1] to 1(1) show ?thesis
    by (auto simp: lt_touch_def lt_at_def lt_put_def hedge_counts_def lt_fresh_def lt_new_entry_def split: option.splits)
qed

lemma lt_count_like [simp]: "lt_like e (e\<lparr>le_total := n\<rparr>)" "lt_like e (e\<lparr>le_hedged := n\<rparr>)"
  by (simp_all add: lt_like_def le_ok_def)

lemma hedge_step_counts:
  assumes "lt_inv lt" "length m < 64" "length lt < LT_MAX_ENTRIES \<or> lt_view lt (m, ''*'') \<noteq> None"
    and "hedge_counts lt m = (t, h)" "0 < pct"
  shows "lt_inv (hedge_step m pct lt w) \<and> lt_view (hedge_step m pct lt w) (m, ''*'') \<noteq> None \<and>
    hedge_counts (hedge_step m pct lt w) m = (t + 1, if w \<and> h * 100 div (t + 2) \<le> nat pct then h + 1 else h)"
proof -
  from lt_star [OF assms(1-3)] assms(4) obtain lt1 i where
    1: "lt_get_or_create lt (Some m) (Some ''*'') = Some (lt1, i)" "le_total (lt1 ! i) = t" "le_hedged (lt1 ! i) = h"
    "\<And>e. lt_like (lt1 ! i) e \<Longrightarrow> lt_inv (lt1[i := e]) \<and> lt_view (lt1[i := e]) (m, ''*'') = Some e" by auto
  let ?a = "lt1[i := (lt1 ! i)\<lparr>le_total := t + 1\<rparr>]"
  from 1(4) [OF lt_count_like(1)] have a: "lt_inv ?a" "lt_view ?a (m, ''*'') = Some ((lt1 ! i)\<lparr>le_total := t + 1\<rparr>)" by auto
  have ra: "latency_tracker_record_request lt (Some m) = ?a" using 1 by (simp add: latency_tracker_record_request_def)
  have "hedge_counts ?a m = (t + 1, h)" using a(2) 1(3) by (simp add: hedge_counts_def)
  with lt_star [OF a(1) assms(2)] a(2) obtain lt2 j where
    2: "lt_get_or_create ?a (Some m) (Some ''*'') = Some (lt2, j)" "lt_inv lt2" "lt_view lt2 (m, ''*'') = Some (lt2 ! j)"
      "le_total (lt2 ! j) = t + 1" "le_hedged (lt2 ! j) = h" by auto
  have adm: "latency_tracker_hedge_admitted ?a (Some m) pct = (lt2, h * 100 div (t + 2) \<le> nat pct)"
    using 2 assms(5) by (simp add: latency_tracker_hedge_admitted_def)
  have c2: "hedge_counts lt2 m = (t + 1, h)" using 2 by (simp add: hedge_counts_def)
  with lt_star [OF 2(2) assms(2)] 2(3) obtain lt3 l where
    3: "lt_get_or_create lt2 (Some m) (Some ''*'') = Some (lt3, l)" "le_total (lt3 ! l) = t + 1" "le_hedged (lt3 ! l) = h"
    "\<And>e. lt_like (lt3 ! l) e \<Longrightarrow> lt_inv (lt3[l := e]) \<and> lt_view (lt3[l := e]) (m, ''*'') = Some e" by auto
  have rh: "latency_tracker_record_hedge lt2 (Some m) = lt3[l := (lt3 ! l)\<lparr>le_hedged := h + 1\<rparr>]"
    using 3 by (simp add: latency_tracker_record_hedge_def)
  from 3(4) [OF lt_count_like(2), of "h + 1"] 3(2) 2 c2 ra adm rh show ?thesis
    by (auto simp: hedge_step_def Let_def hedge_counts_def)
qed

text \<open>The hedge budget holds: a gateway that asks before it hedges never has sent more hedges
  than \<open>pct + 1\<close> percent of the requests so far, plus two.\<close>

theorem hedge_budget_bound:
  assumes "length m < 64" and "0 < pct"
  shows "case hedge_counts (foldl (hedge_step m pct) [] ws) m of
    (reqs, hedged) \<Rightarrow> reqs = length ws \<and> 100 * hedged \<le> (nat pct + 1) * (reqs + 1) + 200"
proof -
  have "lt_inv (foldl (hedge_step m pct) [] ws) \<and>
    (ws = [] \<or> lt_view (foldl (hedge_step m pct) [] ws) (m, ''*'') \<noteq> None) \<and>
    (\<exists>h. hedge_counts (foldl (hedge_step m pct) [] ws) m = (length ws, h) \<and>
       100 * h \<le> (nat pct + 1) * (length ws + 1) + 200)"
  proof (induction ws rule: rev_induct)
    case Nil
    then show ?case by (simp add: lt_inv_def hedge_counts_def lt_view_def lt_find_def)
  next
    case (snoc w ws)
    let ?t = "foldl (hedge_step m pct) [] ws" and ?n = "length ws"
    from snoc obtain h where h: "lt_inv ?t" "hedge_counts ?t m = (?n, h)"
      "100 * h \<le> (nat pct + 1) * (?n + 1) + 200" by auto
    have room: "length ?t < LT_MAX_ENTRIES \<or> lt_view ?t (m, ''*'') \<noteq> None"
      using snoc by (cases "ws = []") (auto simp: LT_MAX_ENTRIES_def)
    note st = hedge_step_counts [OF h(1) assms(1) room h(2) assms(2), of w]
    have b: "100 * (h + 1) \<le> (nat pct + 1) * (?n + 2) + 200" if "h * 100 div (?n + 2) \<le> nat pct"
    proof -
      have "h * 100 < (nat pct + 1) * (?n + 2)"
        using that by (metis Suc_eq_plus1 add_2_eq_Suc' less_Suc_eq_le div_less_iff_less_mult zero_less_Suc)
      then show ?thesis by simp
    qed
    have "(nat pct + 1) * (?n + 1) \<le> (nat pct + 1) * (?n + 2)" by simp
    with h(3) have "100 * h \<le> (nat pct + 1) * (?n + 2) + 200" by linarith
    with st b show ?case by auto
  qed
  then show ?thesis by (auto split: prod.splits)
qed

theorem hedge_budget_bound_witness:
  "snd (hedge_counts (foldl (hedge_step ''gpt'' 5) [] (replicate 999 True)) ''gpt'') \<le> 62"
  using hedge_budget_bound [of "''gpt''" 5 "replicate 999 True"] by (simp add: case_prod_unfold)

end
