(* ===== verification/Auth_Key.thy ===== *)
theory Auth_Key
  imports Lru_Cache
begin

text \<open>
  \<^verbatim>\<open>src/policy/auth_key.c\<close>: resolution of client keys through a positive LRU cache of records and
  a negative one of unknown hashes, and extraction of the credential from a request.

  The SHA-256 hex digest (\<open>sha\<close>, \<open>None\<close> on failure) and the store's \<open>get_key_by_hash\<close> are
  parameters. Allocations are flags: \<open>dup_ok\<close> for the deep copy handed out, \<open>copy_ok\<close> for the
  record that is cached, \<open>put_ok\<close> and \<open>neg_ok\<close> for the nodes of the two caches. The outer option
  of a result is \<open>None\<close> when the code has undefined behaviour.
\<close>

section \<open>State\<close>

record key_rec =
  kr_key_id :: int
  kr_key_hash :: string
  kr_name :: string
  kr_allowed_models :: "string list"
  kr_rate_qps :: int
  kr_daily_token_quota :: int
  kr_expires_at :: int
  kr_has_expiry :: bool
  kr_revoked :: bool
  kr_group_id :: int
  kr_guardrails_enabled :: bool
  kr_monthly_cost_budget :: real
  kr_monthly_token_budget :: int
  kr_system_prompt :: string
  kr_prompt_mode :: int
  kr_watermark_enabled :: bool
  kr_is_canary :: bool
  kr_daily_reasoning_quota :: int

datatype key_lookup = KeyHit key_rec | KeyMiss | KeyStorageError

record auth_cache =
  ac_recs :: "key_rec lru"
  ac_neg :: "unit lru option"

definition auth_key_init :: "bool \<Rightarrow> bool \<Rightarrow> auth_cache option" where
  "auth_key_init recs_ok neg_ok =
     map_option (\<lambda>r. \<lparr>ac_recs = r, ac_neg = lru_new 256 neg_ok\<rparr>) (lru_new 4096 recs_ok)"

section \<open>Resolving a key\<close>

text \<open>The outcome for a record at a time: 0, canary -4, revoked -2, expired -3.\<close>

definition key_outcome :: "key_rec \<Rightarrow> int \<Rightarrow> int" where
  "key_outcome r now =
     (if kr_is_canary r then -4
      else if kr_revoked r then -2
      else if kr_has_expiry r \<and> kr_expires_at r < now then -3
      else 0)"

definition neg_get :: "unit lru option \<Rightarrow> string \<Rightarrow> (unit lru option \<times> bool) option" where
  "neg_get neg hash =
     (case neg of
        None \<Rightarrow> Some (None, False)
      | Some l \<Rightarrow> map_option (\<lambda>(l', v). (Some l', v \<noteq> None)) (lru_get l hash))"

definition neg_put :: "unit lru option \<Rightarrow> string \<Rightarrow> bool \<Rightarrow> unit lru option option" where
  "neg_put neg hash ok =
     (case neg of None \<Rightarrow> Some None | Some l \<Rightarrow> map_option (\<lambda>(l', ev). Some l') (lru_put l hash () ok))"

text \<open>After a miss in the positive cache: ask the negative cache, then the store.\<close>

definition auth_key_load ::
  "auth_cache \<Rightarrow> string \<Rightarrow> (string \<Rightarrow> key_lookup) \<Rightarrow> int \<Rightarrow> bool \<Rightarrow> bool \<Rightarrow> bool \<Rightarrow> bool \<Rightarrow>
   (auth_cache \<times> int \<times> key_rec option) option" where
  "auth_key_load akc hash store now dup_ok copy_ok put_ok neg_ok = do {
     (neg, known) \<leftarrow> neg_get (ac_neg akc) hash;
     let akc1 = akc\<lparr>ac_neg := neg\<rparr>;
     if known then Some (akc1, -1, None)
     else (case store hash of
         KeyMiss \<Rightarrow> map_option (\<lambda>n. (akc1\<lparr>ac_neg := n\<rparr>, -1, None)) (neg_put neg hash neg_ok)
       | KeyStorageError \<Rightarrow> Some (akc1, -1, None)
       | KeyHit fresh \<Rightarrow>
           (if \<not> copy_ok then Some (akc1, -1, None)
            else let result = key_outcome fresh now in
              if result = 0 \<or> result = -4 then
                (if \<not> dup_ok then Some (akc1, -1, None)
                 else map_option (\<lambda>(l, ev). (akc1\<lparr>ac_recs := l\<rparr>, result, Some fresh))
                        (lru_put (ac_recs akc1) hash fresh put_ok))
              else Some (akc1, result, None)))
   }"

definition auth_key_resolve ::
  "auth_cache \<Rightarrow> (string \<Rightarrow> string option) \<Rightarrow> (string \<Rightarrow> key_lookup) \<Rightarrow> int \<Rightarrow> bool \<Rightarrow> bool \<Rightarrow> bool \<Rightarrow> bool \<Rightarrow>
   string option \<Rightarrow> (auth_cache \<times> int \<times> key_rec option) option" where
  "auth_key_resolve akc sha store now dup_ok copy_ok put_ok neg_ok bearer =
     (case bearer of
        None \<Rightarrow> Some (akc, -1, None)
      | Some b \<Rightarrow>
          if b = [] then Some (akc, -1, None)
          else case sha b of
                 None \<Rightarrow> Some (akc, -1, None)
               | Some hash \<Rightarrow> do {
                   (recs, cached) \<leftarrow> lru_get (ac_recs akc) hash;
                   let akc0 = akc\<lparr>ac_recs := recs\<rparr>;
                   (case cached of
                      Some r \<Rightarrow> if \<not> dup_ok then Some (akc0, -1, None)
                                else Some (akc0, key_outcome r now, Some r)
                    | None \<Rightarrow> auth_key_load akc0 hash store now dup_ok copy_ok put_ok neg_ok)
                 })"

definition auth_key_invalidate :: "auth_cache \<Rightarrow> string \<Rightarrow> auth_cache option" where
  "auth_key_invalidate akc key_hash = do {
     (recs, found, ev) \<leftarrow> lru_invalidate (ac_recs akc) key_hash;
     neg \<leftarrow> (case ac_neg akc of
              None \<Rightarrow> Some None
            | Some l \<Rightarrow> map_option (\<lambda>(l', f, e). Some l') (lru_invalidate l key_hash));
     Some (akc\<lparr>ac_recs := recs, ac_neg := neg\<rparr>)
   }"

definition key_allows_model :: "key_rec option \<Rightarrow> string option \<Rightarrow> bool" where
  "key_allows_model k model =
     (case k of
        None \<Rightarrow> False
      | Some r \<Rightarrow>
          (case model of
             None \<Rightarrow> True
           | Some m \<Rightarrow> if kr_allowed_models r = [] then True else m \<in> set (kr_allowed_models r)))"

section \<open>Extracting the credential\<close>

text \<open>The loop over the occurrences of one prefix; \<open>None\<close> when it searches past the terminator.\<close>

function scan_query :: "string \<Rightarrow> string \<Rightarrow> nat \<Rightarrow> string option option" where
  "scan_query q pref pos =
     (if pos > length q then None
      else case strstr_from q pref pos of
             None \<Rightarrow> Some None
           | Some i \<Rightarrow>
               if i = 0 \<or> q ! (i - 1) = CHR ''&'' \<or> q ! (i - 1) = CHR ''?'' then
                 (let p = i + length pref;
                      v = take 255 (takeWhile (\<lambda>c. c \<noteq> CHR ''&'') (drop p q))
                  in if v \<noteq> [] then Some (Some v) else scan_query q pref (p + 1))
               else scan_query q pref (i + 1))"
  by pat_completeness auto
termination
  by (relation "measure (\<lambda>(q, pref, pos). Suc (length q) - pos)")
     (auto dest: strstr_from_ge)

declare scan_query.simps [simp del]

definition nonempty :: "string option \<Rightarrow> bool" where
  "nonempty p \<longleftrightarrow> p \<noteq> None \<and> p \<noteq> Some []"

definition query_credential :: "string \<Rightarrow> string option" where
  "query_credential q =
     (case scan_query q ''key='' 0 of
        None \<Rightarrow> None
      | Some (Some v) \<Rightarrow> Some v
      | Some None \<Rightarrow> map_option cstr_or_empty (scan_query q ''token='' 0))"

definition later_credential :: "string option \<Rightarrow> string option \<Rightarrow> string option \<Rightarrow> string option" where
  "later_credential x_api_key x_goog_api_key query_string =
     (if nonempty x_api_key then x_api_key
      else if nonempty x_goog_api_key then x_goog_api_key
      else if nonempty query_string then query_credential (the query_string)
      else Some [])"

definition extract_credential_from_headers ::
  "string option \<Rightarrow> string option \<Rightarrow> string option \<Rightarrow> string option \<Rightarrow> string option" where
  "extract_credential_from_headers auth_header x_api_key x_goog_api_key query_string =
     (if nonempty auth_header then
        (let h = the auth_header in
         if take 7 h = ''Bearer '' then
           (let p = dropWhile (\<lambda>c. c = CHR '' '') (drop 7 h)
            in if p \<noteq> [] then Some p else later_credential x_api_key x_goog_api_key query_string)
         else Some h)
      else later_credential x_api_key x_goog_api_key query_string)"

section \<open>The invariant of the caches\<close>

definition ac_inv :: "auth_cache \<Rightarrow> bool" where
  "ac_inv akc \<longleftrightarrow> lru_inv (ac_recs akc) \<and> (case ac_neg akc of None \<Rightarrow> True | Some l \<Rightarrow> lru_inv l)"

definition neg_known :: "auth_cache \<Rightarrow> string \<Rightarrow> bool" where
  "neg_known akc hash \<longleftrightarrow> (case ac_neg akc of None \<Rightarrow> False | Some l \<Rightarrow> map_of (lru_abs l) hash \<noteq> None)"

definition pos_known :: "auth_cache \<Rightarrow> string \<Rightarrow> key_rec option" where
  "pos_known akc hash = map_of (lru_abs (ac_recs akc)) hash"

lemma auth_key_init_inv:
  "auth_key_init True neg_ok = Some akc \<Longrightarrow> ac_inv akc \<and> (\<forall>h. pos_known akc h = None \<and> \<not> neg_known akc h)"
proof -
  assume init: "auth_key_init True neg_ok = Some akc"
  then obtain r where r: "lru_new 4096 True = Some r" "akc = \<lparr>ac_recs = r, ac_neg = lru_new 256 neg_ok\<rparr>"
    by (auto simp: auth_key_init_def)
  have "lru_inv l \<and> lru_abs l = []" if "lru_new 256 neg_ok = Some l" for l :: "unit lru"
    using that lru_new_refines [of 256 l] by (cases neg_ok) (auto simp: lru_new_def)
  with r lru_new_refines [OF r(1)] show ?thesis
    by (auto simp: ac_inv_def pos_known_def neg_known_def split: option.splits)
qed

lemma neg_get_ok:
  assumes "ac_inv akc"
  shows "\<exists>n. neg_get (ac_neg akc) hash = Some (n, neg_known akc hash) \<and> ac_inv (akc\<lparr>ac_neg := n\<rparr>) \<and>
    (\<forall>h. neg_known (akc\<lparr>ac_neg := n\<rparr>) h = neg_known akc h)"
proof (cases "ac_neg akc")
  case None
  with assms show ?thesis by (auto simp: neg_get_def neg_known_def ac_inv_def)
next
  case (Some l)
  with assms have "lru_inv l" by (simp add: ac_inv_def)
  from lru.get_total [OF this, of hash] Some assms show ?thesis
    by (auto simp: neg_get_def neg_known_def ac_inv_def)
qed

lemma neg_put_ok:
  assumes "ac_inv akc"
  shows "\<exists>n. neg_put (ac_neg akc) hash ok = Some n \<and> ac_inv (akc\<lparr>ac_neg := n\<rparr>) \<and>
    (ok \<and> ac_neg akc \<noteq> None \<longrightarrow> neg_known (akc\<lparr>ac_neg := n\<rparr>) hash)"
proof (cases "ac_neg akc")
  case None
  with assms show ?thesis by (auto simp: neg_put_def ac_inv_def)
next
  case (Some l)
  with assms have "lru_inv l" by (simp add: ac_inv_def)
  from lru.put_law [OF this, of hash "()" ok] Some assms show ?thesis
    by (auto simp: neg_put_def neg_known_def ac_inv_def)
qed

text \<open>A resolution returns, keeps the caches well formed, and its effect on the positive cache.\<close>

lemma auth_key_load_ok:
  assumes inv: "ac_inv akc" and P: "\<And>r. store hash = KeyHit r \<Longrightarrow> P (hash, r)"
    and cached: "\<forall>b \<in> set (lru_abs (ac_recs akc)). P b"
  shows "\<exists>akc' rc out. auth_key_load akc hash store now d rr p n = Some (akc', rc, out) \<and> ac_inv akc' \<and>
    (\<forall>b \<in> set (lru_abs (ac_recs akc')). P b) \<and>
    (rc = 0 \<or> rc = -4 \<longrightarrow> (\<exists>r. out = Some r \<and> P (hash, r) \<and> key_outcome r now = rc)) \<and>
    (neg_known akc hash \<longrightarrow> rc = -1) \<and>
    (\<not> neg_known akc hash \<longrightarrow> d \<longrightarrow> rr \<longrightarrow>
       rc = (case store hash of KeyHit r \<Rightarrow> key_outcome r now | _ \<Rightarrow> -1)) \<and>
    (\<not> neg_known akc hash \<longrightarrow> store hash = KeyMiss \<longrightarrow> n \<longrightarrow> ac_neg akc \<noteq> None \<longrightarrow> neg_known akc' hash) \<and>
    (\<not> neg_known akc hash \<longrightarrow> store hash = KeyStorageError \<longrightarrow> \<not> neg_known akc' hash) \<and>
    (\<not> neg_known akc hash \<longrightarrow> store hash = KeyMiss \<or> store hash = KeyStorageError \<longrightarrow>
       ac_recs akc' = ac_recs akc \<and> out = None)"
proof -
  from neg_get_ok [OF inv, of hash] obtain g where g: "neg_get (ac_neg akc) hash = Some (g, neg_known akc hash)"
    "ac_inv (akc\<lparr>ac_neg := g\<rparr>)" "\<And>h. neg_known (akc\<lparr>ac_neg := g\<rparr>) h = neg_known akc h" by blast
  have gn: "ac_neg akc \<noteq> None \<Longrightarrow> g \<noteq> None" using g(1) by (auto simp: neg_get_def)
  show ?thesis
  proof (cases "neg_known akc hash")
    case True
    with g cached show ?thesis by (auto simp: auth_key_load_def)
  next
    case False
    show ?thesis
    proof (cases "store hash")
      case (KeyHit r)
      have "P (hash, r)" using P [OF KeyHit] .
      with lru.put_pred [of "ac_recs akc" P hash r p] cached inv obtain l ev where
        "lru_put (ac_recs akc) hash r p = Some (l, ev)" "lru_inv l" "\<forall>b \<in> set (lru_abs l). P b"
        by (auto simp: ac_inv_def)
      with KeyHit False g cached \<open>P (hash, r)\<close> show ?thesis
        by (auto simp: auth_key_load_def Let_def ac_inv_def)
    next
      case KeyMiss
      from neg_put_ok [OF g(2), of hash n] obtain n' where "neg_put g hash n = Some n'"
        "ac_inv (akc\<lparr>ac_neg := n'\<rparr>)" "n \<and> g \<noteq> None \<longrightarrow> neg_known (akc\<lparr>ac_neg := n'\<rparr>) hash" by auto
      with KeyMiss False g gn cached show ?thesis by (auto simp: auth_key_load_def)
    next
      case KeyStorageError
      with False g cached show ?thesis by (auto simp: auth_key_load_def)
    qed
  qed
qed

lemma auth_key_resolve_ok:
  assumes inv: "ac_inv akc" and P: "\<And>h r. store h = KeyHit r \<Longrightarrow> P (h, r)"
    and cached: "\<forall>b \<in> set (lru_abs (ac_recs akc)). P b"
  shows "\<exists>akc' rc out. auth_key_resolve akc sha store now d rr p n bearer = Some (akc', rc, out) \<and> ac_inv akc' \<and>
    (\<forall>b \<in> set (lru_abs (ac_recs akc')). P b) \<and>
    (rc = 0 \<or> rc = -4 \<longrightarrow> (\<exists>b hash r. bearer = Some b \<and> sha b = Some hash \<and> out = Some r \<and> P (hash, r) \<and>
       key_outcome r now = rc))"
proof -
  consider "bearer = None \<or> bearer = Some []" | b where "bearer = Some b" "b \<noteq> []" "sha b = None"
    | b hash where "bearer = Some b" "b \<noteq> []" "sha b = Some hash" by (cases bearer) auto
  then show ?thesis
  proof cases
    case 3
    from inv have "lru_inv (ac_recs akc)" by (simp add: ac_inv_def)
    from lru.get_total [OF this, of hash] obtain l where l: "lru_get (ac_recs akc) hash = Some (l, map_of (lru_abs (ac_recs akc)) hash)"
      "lru_inv l" "set (lru_abs l) \<subseteq> set (lru_abs (ac_recs akc))" by blast
    let ?a = "akc\<lparr>ac_recs := l\<rparr>"
    have a: "ac_inv ?a" "\<forall>b \<in> set (lru_abs (ac_recs ?a)). P b" using inv l cached by (auto simp: ac_inv_def)
    show ?thesis
    proof (cases "map_of (lru_abs (ac_recs akc)) hash")
      case None
      have "\<And>r. store hash = KeyHit r \<Longrightarrow> P (hash, r)" using P .
      from auth_key_load_ok [where P = P and store = store and hash = hash, OF a(1) this a(2), of now d rr p n]
      obtain akc' rc out where r: "auth_key_load ?a hash store now d rr p n = Some (akc', rc, out)" "ac_inv akc'"
        "\<forall>b \<in> set (lru_abs (ac_recs akc')). P b"
        "rc = 0 \<or> rc = -4 \<longrightarrow> (\<exists>r. out = Some r \<and> P (hash, r) \<and> key_outcome r now = rc)" by blast
      then have "auth_key_resolve akc sha store now d rr p n bearer = Some (akc', rc, out)"
        using 3 l None by (simp add: auth_key_resolve_def)
      with r 3 show ?thesis by auto
    next
      case (Some r)
      then have "P (hash, r)" using cached map_of_SomeD by fastforce
      with 3 l Some a show ?thesis by (cases d) (auto simp: auth_key_resolve_def Let_def)
    qed
  qed (use inv cached in \<open>auto simp: auth_key_resolve_def\<close>)
qed


lemma auth_key_invalidate_ok:
  assumes "ac_inv akc"
  shows "\<exists>akc'. auth_key_invalidate akc hash = Some akc' \<and> ac_inv akc' \<and> \<not> neg_known akc' hash \<and>
    pos_known akc' hash = None \<and> set (lru_abs (ac_recs akc')) \<subseteq> set (lru_abs (ac_recs akc))"
proof -
  from assms have "lru_inv (ac_recs akc)" by (simp add: ac_inv_def)
  from lru.inval_law [OF this, of hash] obtain l b ev where
    l: "lru_invalidate (ac_recs akc) hash = Some (l, b, ev)" "lru_inv l" "lru_abs l = al_del hash (lru_abs (ac_recs akc))" by auto
  show ?thesis
  proof (cases "ac_neg akc")
    case None
    with l show ?thesis
      by (auto simp: auth_key_invalidate_def ac_inv_def neg_known_def pos_known_def al_del_set al_del_map_of)
  next
    case (Some g)
    with assms have "lru_inv g" by (simp add: ac_inv_def)
    from lru.inval_law [OF this, of hash] Some l show ?thesis
      by (auto simp: auth_key_invalidate_def ac_inv_def neg_known_def pos_known_def al_del_set al_del_map_of)
  qed
qed

section \<open>Promises\<close>

datatype ac_step =
    AcResolve "string \<Rightarrow> key_lookup" int bool bool bool bool "string option"
  | AcInvalidate string

fun ac_do :: "(string \<Rightarrow> string option) \<Rightarrow> auth_cache \<Rightarrow> ac_step \<Rightarrow> auth_cache option" where
  "ac_do sha akc (AcResolve store now d rr p n b) = map_option fst (auth_key_resolve akc sha store now d rr p n b)"
| "ac_do sha akc (AcInvalidate h) = auth_key_invalidate akc h"

fun ac_run :: "(string \<Rightarrow> string option) \<Rightarrow> auth_cache \<Rightarrow> ac_step list \<Rightarrow> auth_cache option" where
  "ac_run sha akc [] = Some akc"
| "ac_run sha akc (x # xs) = Option.bind (ac_do sha akc x) (\<lambda>a. ac_run sha a xs)"

fun step_hits :: "ac_step \<Rightarrow> (string \<Rightarrow> key_rec \<Rightarrow> bool) \<Rightarrow> bool" where
  "step_hits (AcResolve store now d rr p n b) Q \<longleftrightarrow> (\<forall>h r. store h = KeyHit r \<longrightarrow> Q h r)"
| "step_hits (AcInvalidate h) Q \<longleftrightarrow> True"

lemma ac_do_ok:
  assumes "ac_inv akc" "\<forall>b \<in> set (lru_abs (ac_recs akc)). Q (fst b) (snd b)" "step_hits x Q"
  shows "\<exists>akc'. ac_do sha akc x = Some akc' \<and> ac_inv akc' \<and> (\<forall>b \<in> set (lru_abs (ac_recs akc')). Q (fst b) (snd b))"
proof (cases x)
  case (AcResolve store now d rr p n b)
  with auth_key_resolve_ok [of akc store "\<lambda>(h, r). Q h r" sha now d rr p n b] assms show ?thesis
    by (fastforce simp: case_prod_unfold)
next
  case (AcInvalidate h)
  with auth_key_invalidate_ok [OF assms(1), of h] assms(2) show ?thesis by auto
qed

lemma ac_run_ok:
  assumes "ac_inv akc" "\<forall>b \<in> set (lru_abs (ac_recs akc)). Q (fst b) (snd b)" "\<forall>x \<in> set xs. step_hits x Q"
  shows "\<exists>akc'. ac_run sha akc xs = Some akc' \<and> ac_inv akc' \<and> (\<forall>b \<in> set (lru_abs (ac_recs akc')). Q (fst b) (snd b))"
  using assms
proof (induction xs arbitrary: akc)
  case (Cons x xs)
  then obtain a where "ac_do sha akc x = Some a" "ac_inv a" "\<forall>b \<in> set (lru_abs (ac_recs a)). Q (fst b) (snd b)"
    using ac_do_ok [of akc Q x sha] by auto
  with Cons show ?case by simp
qed simp

text \<open>C32. No run of resolutions and invalidations, with a store that changes or fails at will and any
  allocation failures, accepts a key without cause: an accepted bearer hashes to a record the
  store has returned for that hash, and that record is not revoked, not a canary and not expired
  at this moment. Every resolution returns.\<close>

theorem auth_accepts_only_stored_keys:
  assumes "auth_key_init True neg_ok = Some akc0" and "\<forall>x \<in> set xs. step_hits x Q"
    and "\<forall>h r. store h = KeyHit r \<longrightarrow> Q h r"
  shows "\<exists>akc akc' rc out. ac_run sha akc0 xs = Some akc \<and>
    auth_key_resolve akc sha store now d rr p n bearer = Some (akc', rc, out) \<and>
    (rc = 0 \<longrightarrow> (\<exists>b hash r. bearer = Some b \<and> sha b = Some hash \<and> out = Some r \<and> Q hash r \<and>
       \<not> kr_revoked r \<and> \<not> kr_is_canary r \<and> (kr_has_expiry r \<longrightarrow> now \<le> kr_expires_at r)))"
proof -
  from auth_key_init_inv [OF assms(1)] have 0: "ac_inv akc0" by simp
  from assms(1) have "lru_abs (ac_recs akc0) = []"
    using lru_new_refines [of 4096 "ac_recs akc0"] by (auto simp: auth_key_init_def)
  with ac_run_ok [OF 0 _ assms(2), of sha] obtain akc where
    1: "ac_run sha akc0 xs = Some akc" "ac_inv akc" "\<forall>b \<in> set (lru_abs (ac_recs akc)). Q (fst b) (snd b)" by auto
  from auth_key_resolve_ok [of akc store "\<lambda>(h, r). Q h r" sha now d rr p n bearer] 1(2,3) assms(3)
  obtain akc' rc out where 2: "auth_key_resolve akc sha store now d rr p n bearer = Some (akc', rc, out)"
    "rc = 0 \<longrightarrow> (\<exists>b hash r. bearer = Some b \<and> sha b = Some hash \<and> out = Some r \<and> Q hash r \<and> key_outcome r now = 0)"
    by (fastforce simp: case_prod_unfold)
  have "key_outcome r now = 0 \<Longrightarrow> \<not> kr_revoked r \<and> \<not> kr_is_canary r \<and> (kr_has_expiry r \<longrightarrow> now \<le> kr_expires_at r)" for r
    by (auto simp: key_outcome_def split: if_splits)
  with 1(1) 2 show ?thesis by blast
qed

text \<open>C33. After an invalidation the next resolution of that key is decided by the store as it is now,
  whatever the caches held before: revoking, deleting, creating or extending a key takes effect.\<close>

theorem auth_invalidate_takes_effect:
  assumes "ac_inv akc" and "sha b = Some hash" and "b \<noteq> []"
  shows "\<exists>akc1 akc2 out. auth_key_invalidate akc hash = Some akc1 \<and>
    auth_key_resolve akc1 sha store now True True p n (Some b) =
      Some (akc2, case store hash of KeyHit r \<Rightarrow> key_outcome r now | _ \<Rightarrow> -1, out)"
proof -
  from auth_key_invalidate_ok [OF assms(1), of hash] obtain akc1 where
    1: "auth_key_invalidate akc hash = Some akc1" "ac_inv akc1" "\<not> neg_known akc1 hash" "pos_known akc1 hash = None" by blast
  then have "lru_inv (ac_recs akc1)" by (simp add: ac_inv_def)
  from lru.get_total [OF this, of hash] 1(4) obtain l where l: "lru_get (ac_recs akc1) hash = Some (l, None)" "lru_inv l"
    by (auto simp: pos_known_def)
  let ?a = "akc1\<lparr>ac_recs := l\<rparr>"
  have "ac_inv ?a" "\<not> neg_known ?a hash" using 1 l by (auto simp: ac_inv_def neg_known_def)
  with auth_key_load_ok [of ?a store hash "\<lambda>_. True" now True True p n] obtain akc2 rc out where
    "auth_key_load ?a hash store now True True p n = Some (akc2, rc, out)"
    "rc = (case store hash of KeyHit r \<Rightarrow> key_outcome r now | _ \<Rightarrow> -1)" by auto
  with 1(1) l assms(2,3) show ?thesis by (auto simp: auth_key_resolve_def)
qed

lemma auth_init_ex: "\<exists>akc. auth_key_init True True = Some akc \<and> ac_inv akc"
proof -
  obtain akc where "auth_key_init True True = Some akc"
    by (auto simp: auth_key_init_def lru_new_def Let_def)
  with auth_key_init_inv show ?thesis by blast
qed

text \<open>A key record for the witnesses.\<close>

definition demo_key :: key_rec where
  "demo_key = \<lparr>kr_key_id = 7, kr_key_hash = ''ab'', kr_name = ''team'', kr_allowed_models = [], kr_rate_qps = 5,
     kr_daily_token_quota = 0, kr_expires_at = 500, kr_has_expiry = True, kr_revoked = False, kr_group_id = 0,
     kr_guardrails_enabled = True, kr_monthly_cost_budget = 0, kr_monthly_token_budget = 0, kr_system_prompt = [],
     kr_prompt_mode = 0, kr_watermark_enabled = False, kr_is_canary = False, kr_daily_reasoning_quota = 0\<rparr>"

theorem auth_accepts_only_stored_keys_witness:
  "\<exists>akc akc' rc out. ac_run (\<lambda>b. Some (''h'' @ b)) (the (auth_key_init True True)) [AcInvalidate ''hk''] = Some akc \<and>
    auth_key_resolve akc (\<lambda>b. Some (''h'' @ b)) (\<lambda>h. if h = ''hk'' then KeyHit demo_key else KeyMiss) 500 True True True True (Some ''k'')
      = Some (akc', rc, out) \<and>
    (rc = 0 \<longrightarrow> (\<exists>b hash r. Some ''k'' = Some b \<and> Some (''h'' @ b) = Some hash \<and> out = Some r \<and> (hash = ''hk'' \<and> r = demo_key) \<and>
       \<not> kr_revoked r \<and> \<not> kr_is_canary r \<and> (kr_has_expiry r \<longrightarrow> 500 \<le> kr_expires_at r)))"
proof -
  from auth_init_ex have "auth_key_init True True = Some (the (auth_key_init True True))" by auto
  then show ?thesis
    by (rule auth_accepts_only_stored_keys [where Q = "\<lambda>h r. h = ''hk'' \<and> r = demo_key"]) (auto split: if_splits)
qed

theorem auth_invalidate_takes_effect_witness:
  "\<exists>akc akc1 akc2 out. auth_key_init True True = Some akc \<and> auth_key_invalidate akc ''hk'' = Some akc1 \<and>
    auth_key_resolve akc1 (\<lambda>b. Some (''h'' @ b)) (\<lambda>h. KeyHit demo_key) 501 True True True True (Some ''k'') = Some (akc2, -3, out)"
proof -
  from auth_init_ex obtain akc where 0: "auth_key_init True True = Some akc" "ac_inv akc" by blast
  have "key_outcome demo_key 501 = -3" by (simp add: key_outcome_def demo_key_def)
  with auth_invalidate_takes_effect [OF 0(2), of "\<lambda>b. Some (''h'' @ b)" "''k''" "''hk''" "\<lambda>h. KeyHit demo_key" 501 True True] 0(1)
  show ?thesis by auto
qed

text \<open>A definite miss is remembered: with a negative cache the next resolution of the same key is
  refused whatever the store would now say; a storage error is not: the next resolution is
  decided by the store again.\<close>

theorem auth_negative_cache_only_for_misses:
  assumes "ac_inv akc" and "pos_known akc hash = None" and "\<not> neg_known akc hash" and "ac_neg akc \<noteq> None"
    and "sha b = Some hash" and "b \<noteq> []" and "store1 hash = KeyMiss \<or> store1 hash = KeyStorageError"
  shows "\<exists>akc1 akc2 out. auth_key_resolve akc sha store1 t1 True True True True (Some b) = Some (akc1, -1, None) \<and>
    auth_key_resolve akc1 sha store2 t2 True True True True (Some b) =
      Some (akc2, if store1 hash = KeyMiss then -1
                  else case store2 hash of KeyHit r \<Rightarrow> key_outcome r t2 | _ \<Rightarrow> -1, out)"
proof -
  from assms(1) have "lru_inv (ac_recs akc)" by (simp add: ac_inv_def)
  from lru.get_total [OF this, of hash] assms(2) obtain l where l: "lru_get (ac_recs akc) hash = Some (l, None)" "lru_inv l"
    "map_of (lru_abs l) hash = None"
    by (auto simp: pos_known_def)
  let ?a = "akc\<lparr>ac_recs := l\<rparr>"
  have a: "ac_inv ?a" "\<not> neg_known ?a hash" using assms(1,3) l by (auto simp: ac_inv_def neg_known_def)
  from auth_key_load_ok [of ?a store1 hash "\<lambda>_. True" t1 True True True True, OF a(1)] a(2) assms(4,7)
  obtain akc1 rc out where
    1: "auth_key_load ?a hash store1 t1 True True True True = Some (akc1, rc, out)" "ac_inv akc1"
      "rc = (case store1 hash of KeyHit r \<Rightarrow> key_outcome r t1 | _ \<Rightarrow> -1)"
      "store1 hash = KeyMiss \<longrightarrow> neg_known akc1 hash" "store1 hash = KeyStorageError \<longrightarrow> \<not> neg_known akc1 hash"
      "ac_recs akc1 = l" "out = None" by auto
  have "rc = -1" using 1(3) assms(7) by auto
  then have r1: "auth_key_resolve akc sha store1 t1 True True True True (Some b) = Some (akc1, -1, None)"
    using 1(1,7) l assms(5,6) by (simp add: auth_key_resolve_def)
  from lru.get_total [OF l(2), of hash] l(3) obtain l2 where l2: "lru_get l hash = Some (l2, None)" "lru_inv l2" by auto
  let ?b = "akc1\<lparr>ac_recs := l2\<rparr>"
  have "ac_inv ?b" "neg_known ?b hash = neg_known akc1 hash" using 1(2) l2 by (auto simp: ac_inv_def neg_known_def)
  with auth_key_load_ok [of ?b store2 hash "\<lambda>_. True" t2 True True True True] obtain akc2 rc2 out2 where
    2: "auth_key_load ?b hash store2 t2 True True True True = Some (akc2, rc2, out2)"
    "neg_known akc1 hash \<longrightarrow> rc2 = -1"
    "\<not> neg_known akc1 hash \<longrightarrow> rc2 = (case store2 hash of KeyHit r \<Rightarrow> key_outcome r t2 | _ \<Rightarrow> -1)" by auto
  have "rc2 = (if store1 hash = KeyMiss then -1 else case store2 hash of KeyHit r \<Rightarrow> key_outcome r t2 | _ \<Rightarrow> -1)"
  proof (cases "store1 hash = KeyMiss")
    case True
    with 1(4) 2(2) show ?thesis by simp
  next
    case False
    with assms(7) 1(5) 2(3) show ?thesis by simp
  qed
  moreover have "auth_key_resolve akc1 sha store2 t2 True True True True (Some b) = Some (akc2, rc2, out2)"
    using 2(1) l2 1(6) assms(5,6) by (simp add: auth_key_resolve_def)
  ultimately show ?thesis using r1 by blast
qed

theorem auth_negative_cache_only_for_misses_witness:
  "\<exists>akc akc1 akc2 out. auth_key_init True True = Some akc \<and>
    auth_key_resolve akc (\<lambda>b. Some b) (\<lambda>h. KeyStorageError) 1 True True True True (Some ''k'') = Some (akc1, -1, None) \<and>
    auth_key_resolve akc1 (\<lambda>b. Some b) (\<lambda>h. KeyHit demo_key) 2 True True True True (Some ''k'') = Some (akc2, 0, out)"
proof -
  from auth_init_ex obtain akc where 0: "auth_key_init True True = Some akc" "ac_inv akc" by blast
  have n: "ac_neg akc \<noteq> None" using 0(1) by (auto simp: auth_key_init_def lru_new_def Let_def)
  have "key_outcome demo_key 2 = 0" by (simp add: key_outcome_def demo_key_def)
  with auth_negative_cache_only_for_misses [of akc "''k''" "\<lambda>b. Some b" "''k''" "\<lambda>h. KeyStorageError" 1 "\<lambda>h. KeyHit demo_key" 2]
    auth_key_init_inv [OF 0(1)] n 0(1) show ?thesis by auto
qed

lemma strstr_from_hit: "pos \<le> length q \<Longrightarrow> take (length pref) (drop pos q) = pref \<Longrightarrow> strstr_from q pref pos = Some pos"
  unfolding strstr_from_def by (subst upt_conv_Cons) auto

text \<open>A query string whose first parameter is an empty \<open>key=\<close> at its end makes the extraction
  search beyond the terminating NUL: undefined behaviour on input from the network.\<close>

theorem extract_credential_overruns:
  assumes "\<not> nonempty hdr" and "\<not> nonempty x_api_key" and "\<not> nonempty x_goog_api_key"
  shows "extract_credential_from_headers hdr x_api_key x_goog_api_key (Some ''key='') = None"
proof -
  have "strstr_from ''key='' ''key='' 0 = Some 0" by (rule strstr_from_hit) simp_all
  then have "scan_query ''key='' ''key='' 0 = None"
    by (subst scan_query.simps) (simp add: scan_query.simps)
  moreover have "nonempty (Some ''key='')" by (simp add: nonempty_def)
  ultimately show ?thesis using assms
    by (simp add: extract_credential_from_headers_def later_credential_def query_credential_def)
qed

theorem extract_credential_overruns_witness:
  "extract_credential_from_headers None (Some []) None (Some ''key='') = None"
  by (rule extract_credential_overruns) (simp_all add: nonempty_def)

end
