(* ===== verification/Audit_Chain.thy ===== *)
theory Audit_Chain
  imports Decimal "HOL-Library.Word" "HOL-Library.Countable"
begin

text \<open>
  \<^verbatim>\<open>src/observe/audit_hash_chain.c\<close> and the write loop of
  \<^verbatim>\<open>src/observe/audit_logger.c\<close>: each audit event gets a sequence number, the HMAC of its
  predecessor and its own HMAC, and a log file can be verified afterwards.

  The JSON library (jansson) is the parameter \<open>J\<close>, a record of the functions the code calls on a
  value; \<open>hmac key data\<close> is the 32-byte result of OpenSSL's \<open>HMAC\<close> with SHA-256. \<open>alloc_ok\<close>
  says whether \<open>malloc\<close> succeeds. Undefined behaviour (a NULL string handed to \<open>strncpy\<close>) is
  the result \<open>None\<close>.
\<close>

section \<open>The JSON library\<close>

text \<open>\<open>jn_dumps\<close> is \<open>json_dumps\<close> with \<open>JSON_SORT_KEYS | JSON_COMPACT\<close>.\<close>

record 'j jansson =
  jn_loads :: "string \<Rightarrow> 'j option"
  jn_is_object :: "'j \<Rightarrow> bool"
  jn_get :: "'j \<Rightarrow> string \<Rightarrow> 'j option"
  jn_del :: "'j \<Rightarrow> string \<Rightarrow> 'j"
  jn_set :: "'j \<Rightarrow> string \<Rightarrow> 'j \<Rightarrow> 'j"
  jn_dumps :: "'j \<Rightarrow> string option"
  jn_integer :: "int \<Rightarrow> 'j"
  jn_string :: "string \<Rightarrow> 'j"
  jn_integer_value :: "'j \<Rightarrow> int"
  jn_string_value :: "'j \<Rightarrow> string option"

section \<open>Signing\<close>

definition compute_hmac_hex :: "(string \<Rightarrow> string \<Rightarrow> 8 word list) \<Rightarrow> string \<Rightarrow> string \<Rightarrow> string" where
  "compute_hmac_hex hmac key data = concat (map hex2 (take 32 (hmac key data)))"

record audit_hash_chain_ctx =
  ah_secret_key :: string
  ah_last_hash :: string
  ah_genesis_hash :: string
  ah_current_seq :: "64 word"

definition audit_hash_chain_create ::
  "(string \<Rightarrow> string \<Rightarrow> 8 word list) \<Rightarrow> bool \<Rightarrow> string option \<Rightarrow> audit_hash_chain_ctx option" where
  "audit_hash_chain_create hmac alloc_ok secret =
     (let secret = (if secret = None \<or> secret = Some [] then ''aigate_default_audit_chain_secret_2026''
                    else the secret)
      in if \<not> alloc_ok then None
         else let key = cstr_copy 128 secret;
                  genesis = compute_hmac_hex hmac key ''AIGATE_AUDIT_GENESIS''
              in Some \<lparr>ah_secret_key = key, ah_last_hash = genesis, ah_genesis_hash = genesis,
                       ah_current_seq = 0\<rparr>)"

text \<open>\<open>snprintf(to_sign, to_sign_len, "%s:%lu:%s", ...)\<close>\<close>

definition to_sign_str :: "string \<Rightarrow> 64 word \<Rightarrow> string \<Rightarrow> string" where
  "to_sign_str prev_hash seq canonical_payload =
     cstr_copy (length prev_hash + 32 + length canonical_payload + 8)
       (prev_hash @ CHR '':'' # nat_str (unat seq) @ CHR '':'' # canonical_payload)"

definition strip_fields :: "'j jansson \<Rightarrow> 'j \<Rightarrow> 'j" where
  "strip_fields J obj = jn_del J (jn_del J (jn_del J obj ''seq'') ''prev_hash'') ''hash''"

definition embed_fields :: "'j jansson \<Rightarrow> 'j \<Rightarrow> 64 word \<Rightarrow> string \<Rightarrow> string \<Rightarrow> 'j" where
  "embed_fields J obj seq prev_hash current_hash =
     jn_set J (jn_set J (jn_set J obj ''seq'' (jn_integer J (sint seq)))
       ''prev_hash'' (jn_string J prev_hash)) ''hash'' (jn_string J current_hash)"

text \<open>\<open>None\<close> is the return value -1, \<open>Some line\<close> is 0 with the line in the output buffer.\<close>

definition audit_hash_chain_sign ::
  "'j jansson \<Rightarrow> (string \<Rightarrow> string \<Rightarrow> 8 word list) \<Rightarrow> bool \<Rightarrow> audit_hash_chain_ctx \<Rightarrow> string option \<Rightarrow> nat \<Rightarrow>
   audit_hash_chain_ctx \<times> string option" where
  "audit_hash_chain_sign J hmac alloc_ok ctx event_json out_sz =
     (case event_json of
        None \<Rightarrow> (ctx, None)
      | Some ev \<Rightarrow>
          if out_sz = 0 then (ctx, None)
          else case jn_loads J ev of
            None \<Rightarrow> (ctx, None)
          | Some obj0 \<Rightarrow>
              if \<not> jn_is_object J obj0 then (ctx, None)
              else let obj = strip_fields J obj0 in
                case jn_dumps J obj of
                  None \<Rightarrow> (ctx, None)
                | Some canonical_payload \<Rightarrow>
                    if \<not> alloc_ok then (ctx, None)
                    else let seq = ah_current_seq ctx + 1;
                             prev_hash = cstr_copy 65 (ah_last_hash ctx);
                             current_hash = compute_hmac_hex hmac (ah_secret_key ctx)
                                              (to_sign_str prev_hash seq canonical_payload);
                             ctx1 = ctx\<lparr>ah_current_seq := seq, ah_last_hash := cstr_copy 65 current_hash\<rparr>
                         in case jn_dumps J (embed_fields J obj seq prev_hash current_hash) of
                              None \<Rightarrow> (ctx1, None)
                            | Some final_json \<Rightarrow>
                                if length final_json \<ge> out_sz then (ctx1, None)
                                else (ctx1, Some (cstr_copy out_sz final_json)))"

section \<open>Verifying a file\<close>

datatype verify_msg =
    InvalidArgs | CannotOpen | MalformedJson "64 word" | MissingFields "64 word"
  | SequenceBreak "64 word" "64 word" | BrokenChain "64 word" | TamperDetected "64 word"

record verify_out =
  vo_rc :: int
  vo_verified_count :: "64 word"
  vo_broken_seq :: "64 word"
  vo_msg :: "verify_msg option"

text \<open>The lines \<open>getline\<close> returns, each with its newline.\<close>

fun getlines_from :: "string \<Rightarrow> string \<Rightarrow> string list" where
  "getlines_from acc [] = (if acc = [] then [] else [rev acc])"
| "getlines_from acc (c # s) =
     (if c = CHR 0x0A then rev (c # acc) # getlines_from [] s else getlines_from (c # acc) s)"

definition getlines :: "string \<Rightarrow> string list" where
  "getlines file = getlines_from [] file"

definition strip_line :: "string \<Rightarrow> string" where
  "strip_line line = rev (dropWhile (\<lambda>c. c = CHR 0x0A \<or> c = CHR 0x0D \<or> c = CHR '' '') (rev line))"

text \<open>What a line is to the C string functions: it ends at the first NUL.\<close>

definition c_text :: "string \<Rightarrow> string" where
  "c_text line = takeWhile (\<lambda>c. c \<noteq> CHR 0x00) line"

definition verify_fail :: "64 word \<Rightarrow> verify_msg option \<Rightarrow> verify_out" where
  "verify_fail broken msg = \<lparr>vo_rc = -1, vo_verified_count = 0, vo_broken_seq = broken, vo_msg = msg\<rparr>"

datatype line_result = LineSkip | LineNext string | LineFail verify_out | LineCrash

text \<open>The three checks on a parsed record.\<close>

definition verify_record ::
  "'j jansson \<Rightarrow> (string \<Rightarrow> string \<Rightarrow> 8 word list) \<Rightarrow> string \<Rightarrow> bool \<Rightarrow> string \<Rightarrow> 64 word \<Rightarrow>
   'j \<Rightarrow> 64 word \<Rightarrow> string \<Rightarrow> string \<Rightarrow> line_result" where
  "verify_record J hmac key alloc_ok prev_hash expected_seq obj seqno saved_prev saved_hash =
     (if seqno \<noteq> expected_seq then
        LineFail (verify_fail expected_seq (Some (SequenceBreak expected_seq seqno)))
      else if saved_prev \<noteq> prev_hash then LineFail (verify_fail seqno (Some (BrokenChain seqno)))
      else case jn_dumps J (strip_fields J obj) of
          None \<Rightarrow> LineFail (verify_fail 0 None)
        | Some canonical_payload \<Rightarrow>
            if \<not> alloc_ok then LineFail (verify_fail 0 None)
            else if compute_hmac_hex hmac key (to_sign_str saved_prev seqno canonical_payload) \<noteq> saved_hash
              then LineFail (verify_fail seqno (Some (TamperDetected seqno)))
              else LineNext (cstr_copy 65 saved_hash))"

definition verify_line ::
  "'j jansson \<Rightarrow> (string \<Rightarrow> string \<Rightarrow> 8 word list) \<Rightarrow> string \<Rightarrow> bool \<Rightarrow> string \<Rightarrow> 64 word \<Rightarrow> string \<Rightarrow> line_result" where
  "verify_line J hmac key alloc_ok prev_hash expected_seq line =
     (let l = strip_line line in
      if l = [] then LineSkip
      else case jn_loads J (c_text l) of
        None \<Rightarrow> LineFail (verify_fail expected_seq (Some (MalformedJson expected_seq)))
      | Some obj \<Rightarrow>
          if \<not> jn_is_object J obj then
            LineFail (verify_fail expected_seq (Some (MalformedJson expected_seq)))
          else case (jn_get J obj ''seq'', jn_get J obj ''prev_hash'', jn_get J obj ''hash'') of
            (Some seq_val, Some prev_hash_val, Some hash_val) \<Rightarrow>
              (case (jn_string_value J prev_hash_val, jn_string_value J hash_val) of
                 (Some sp, Some sh) \<Rightarrow>
                   verify_record J hmac key alloc_ok prev_hash expected_seq obj
                     (word_of_int (jn_integer_value J seq_val)) (cstr_copy 65 sp) (cstr_copy 65 sh)
               | _ \<Rightarrow> LineCrash)
          | _ \<Rightarrow> LineFail (verify_fail expected_seq (Some (MissingFields expected_seq))))"

text \<open>\<open>mem\<close> gives the outcome of the \<open>malloc\<close> for each line.\<close>

fun verify_lines ::
  "'j jansson \<Rightarrow> (string \<Rightarrow> string \<Rightarrow> 8 word list) \<Rightarrow> string \<Rightarrow> (nat \<Rightarrow> bool) \<Rightarrow> string \<Rightarrow> 64 word \<Rightarrow> 64 word \<Rightarrow>
   string list \<Rightarrow> verify_out option" where
  "verify_lines J hmac key mem prev_hash expected_seq verified [] =
     Some \<lparr>vo_rc = 0, vo_verified_count = verified, vo_broken_seq = 0, vo_msg = None\<rparr>"
| "verify_lines J hmac key mem prev_hash expected_seq verified (line # rest) =
     (case verify_line J hmac key (mem (length rest)) prev_hash expected_seq line of
        LineSkip \<Rightarrow> verify_lines J hmac key mem prev_hash expected_seq verified rest
      | LineNext h \<Rightarrow> verify_lines J hmac key mem h (expected_seq + 1) (verified + 1) rest
      | LineFail out \<Rightarrow> Some out
      | LineCrash \<Rightarrow> None)"

text \<open>\<open>fs\<close> gives the contents of the files that can be opened.\<close>

definition audit_hash_chain_verify_file ::
  "'j jansson \<Rightarrow> (string \<Rightarrow> string \<Rightarrow> 8 word list) \<Rightarrow> (nat \<Rightarrow> bool) \<Rightarrow> (string \<Rightarrow> string option) \<Rightarrow>
   audit_hash_chain_ctx option \<Rightarrow> string option \<Rightarrow> verify_out option" where
  "audit_hash_chain_verify_file J hmac mem fs ctx filepath =
     (case (ctx, filepath) of
        (Some c, Some path) \<Rightarrow>
          (case fs path of
             None \<Rightarrow> Some (verify_fail 0 (Some CannotOpen))
           | Some file \<Rightarrow>
               verify_lines J hmac (ah_secret_key c) mem
                 (compute_hmac_hex hmac (ah_secret_key c) ''AIGATE_AUDIT_GENESIS'') 1 0 (getlines file))
      | _ \<Rightarrow> Some (verify_fail 0 (Some InvalidArgs)))"

section \<open>The writer\<close>

text \<open>One event in the loop of the file worker of \<^verbatim>\<open>audit_logger.c\<close>: the signed line, or the event as
  it is when it cannot be signed, and a newline.\<close>

definition audit_write_event ::
  "'j jansson \<Rightarrow> (string \<Rightarrow> string \<Rightarrow> 8 word list) \<Rightarrow> audit_hash_chain_ctx option \<Rightarrow> string \<Rightarrow>
   audit_hash_chain_ctx option \<times> string" where
  "audit_write_event J hmac chain line =
     (case chain of
        None \<Rightarrow> (None, line @ [CHR 0x0A])
      | Some ctx \<Rightarrow>
          (case audit_hash_chain_sign J hmac True ctx (Some line) 4096 of
             (ctx', Some signed_buf) \<Rightarrow> (Some ctx', signed_buf @ [CHR 0x0A])
           | (ctx', None) \<Rightarrow> (Some ctx', line @ [CHR 0x0A])))"

fun audit_write_all ::
  "'j jansson \<Rightarrow> (string \<Rightarrow> string \<Rightarrow> 8 word list) \<Rightarrow> audit_hash_chain_ctx option \<Rightarrow> string list \<Rightarrow>
   audit_hash_chain_ctx option \<times> string" where
  "audit_write_all J hmac chain [] = (chain, [])"
| "audit_write_all J hmac chain (ev # evs) =
     (case audit_write_event J hmac chain ev of
        (chain', l) \<Rightarrow> (case audit_write_all J hmac chain' evs of (chain'', f) \<Rightarrow> (chain'', l @ f)))"

end
