(* ===== verification/Audit_Props.thy ===== *)
theory Audit_Props
  imports Audit_Chain
begin

text \<open>
  What the audit chain promises: a log that was signed completely verifies, the last hash of a
  log pins all its records up to an HMAC collision, and what the verification does not see
  (truncation at the end) or cannot stand (a restart, an event too large to be signed).
\<close>

section \<open>What is relied on of the JSON library\<close>

definition hex_string :: "string \<Rightarrow> bool" where
  "hex_string s \<longleftrightarrow> set s \<subseteq> set ''0123456789abcdef''"

text \<open>Equal members are written equally (the keys are sorted), and what is written of an object is
  one line that parses to an object with the same members.\<close>

definition jn_writes :: "'j jansson \<Rightarrow> bool" where
  "jn_writes J \<longleftrightarrow>
     (\<forall>a b. jn_is_object J a \<and> jn_is_object J b \<and> jn_get J a = jn_get J b \<longrightarrow> jn_dumps J a = jn_dumps J b)"

definition jn_reads :: "'j jansson \<Rightarrow> bool" where
  "jn_reads J \<longleftrightarrow>
     (\<forall>a s. jn_is_object J a \<and> jn_dumps J a = Some s \<longrightarrow>
        s \<noteq> [] \<and> last s = CHR ''}'' \<and> CHR 0x0A \<notin> set s \<and> CHR 0x00 \<notin> set s \<and>
        (\<exists>b. jn_loads J s = Some b \<and> jn_is_object J b \<and> jn_get J b = jn_get J a))"

text \<open>The members of an object behave as a map.\<close>

definition jn_deletes :: "'j jansson \<Rightarrow> bool" where
  "jn_deletes J \<longleftrightarrow>
     (\<forall>a k. jn_is_object J a \<longrightarrow>
        jn_is_object J (jn_del J a k) \<and> jn_get J (jn_del J a k) = (jn_get J a)(k := None))"

definition jn_sets :: "'j jansson \<Rightarrow> string \<Rightarrow> 'j \<Rightarrow> bool" where
  "jn_sets J k v \<longleftrightarrow>
     (\<forall>a. jn_is_object J a \<longrightarrow>
        jn_is_object J (jn_set J a k v) \<and> jn_get J (jn_set J a k v) = (jn_get J a)(k \<mapsto> v))"

text \<open>An integer and a string of hexadecimal digits are read back as they were made.\<close>

definition jn_values :: "'j jansson \<Rightarrow> bool" where
  "jn_values J \<longleftrightarrow>
     (\<forall>i. - (2 ^ 63) \<le> i \<and> i < 2 ^ 63 \<longrightarrow> jn_integer_value J (jn_integer J i) = i) \<and>
     (\<forall>s. hex_string s \<longrightarrow> jn_string_value J (jn_string J s) = Some s)"

definition jansson_ok :: "'j jansson \<Rightarrow> bool" where
  "jansson_ok J \<longleftrightarrow>
     jn_writes J \<and> jn_reads J \<and> jn_deletes J \<and> jn_values J \<and>
     (\<forall>i. jn_sets J ''seq'' (jn_integer J i)) \<and>
     (\<forall>s. jn_sets J ''prev_hash'' (jn_string J s)) \<and> (\<forall>s. jn_sets J ''hash'' (jn_string J s))"

lemma jansson_strip:
  "jansson_ok J \<Longrightarrow> jn_is_object J a \<Longrightarrow>
     jn_is_object J (strip_fields J a) \<and>
     jn_get J (strip_fields J a) = (jn_get J a)(''seq'' := None, ''prev_hash'' := None, ''hash'' := None)"
  by (simp add: jansson_ok_def jn_deletes_def strip_fields_def)

lemma jansson_embed:
  "jansson_ok J \<Longrightarrow> jn_is_object J a \<Longrightarrow>
     jn_is_object J (embed_fields J a q p h) \<and>
     jn_get J (embed_fields J a q p h) =
       (jn_get J a)(''seq'' \<mapsto> jn_integer J (sint q), ''prev_hash'' \<mapsto> jn_string J p, ''hash'' \<mapsto> jn_string J h)"
  by (simp add: jansson_ok_def jn_sets_def embed_fields_def)

lemma jansson_write:
  "jansson_ok J \<Longrightarrow> jn_is_object J a \<Longrightarrow> jn_is_object J b \<Longrightarrow> jn_get J a = jn_get J b \<Longrightarrow>
     jn_dumps J a = jn_dumps J b"
  unfolding jansson_ok_def jn_writes_def by blast

lemma jansson_read:
  assumes "jansson_ok J" "jn_is_object J a" "jn_dumps J a = Some s"
  obtains b where "s \<noteq> []" "last s = CHR ''}''" "CHR 0x0A \<notin> set s" "CHR 0x00 \<notin> set s"
    "jn_loads J s = Some b" "jn_is_object J b" "jn_get J b = jn_get J a"
  using assms unfolding jansson_ok_def jn_reads_def by blast

lemma jansson_value:
  "jansson_ok J \<Longrightarrow> word_of_int (jn_integer_value J (jn_integer J (sint q))) = (q :: 64 word)"
  "jansson_ok J \<Longrightarrow> hex_string s \<Longrightarrow> jn_string_value J (jn_string J s) = Some s"
  using sint_greater_eq [of q] sint_less [of q] by (simp_all add: jansson_ok_def jn_values_def)

section \<open>Strings\<close>

lemma hex2_facts: "hex_string (hex2 b)" "length (hex2 b) = 2"
proof -
  have digit: "n < 16 \<Longrightarrow> hex_digit n \<in> set ''0123456789abcdef''" for n
    unfolding hex_digit_def by (rule nth_mem) simp
  have two: "x \<in> S \<Longrightarrow> y \<in> S \<Longrightarrow> set [x, y] \<subseteq> S" for x y :: char and S by simp
  have "unat b < 256" by (rule order_less_le_trans [OF unsigned_less]) simp
  then have "unat b div 16 < 16" by simp
  then show "hex_string (hex2 b)"
    unfolding hex2_def hex_string_def by (intro two digit) simp_all
qed (simp add: hex2_def)

lemma hex_string_concat: "hex_string (concat (map hex2 bs))"
  using hex2_facts(1) by (induction bs) (auto simp: hex_string_def)

lemma hmac_hex: "hex_string (compute_hmac_hex hmac key d)" "length (compute_hmac_hex hmac key d) < 65"
proof -
  have "length (concat (map hex2 bs)) = 2 * length bs" for bs
    by (induction bs) (simp_all add: hex2_facts)
  then show "length (compute_hmac_hex hmac key d) < 65" by (simp add: compute_hmac_hex_def)
qed (simp add: compute_hmac_hex_def hex_string_concat)

lemma to_sign_str_eq:
  "to_sign_str p q c = p @ CHR '':'' # nat_str (unat q) @ CHR '':'' # c"
proof -
  have "unat q < 10 ^ 20" by (rule order_less_le_trans [OF unsigned_less]) simp
  then have "length (nat_str (unat q)) \<le> 20" by (rule length_nat_str) simp
  then show ?thesis by (simp add: to_sign_str_def)
qed

lemma nat_str_no_colon: "CHR '':'' \<notin> set (nat_str n)"
  using nat_str_digits [of n] by (auto simp: list_all_iff is_digit_def)

lemma hex_no_colon: "hex_string s \<Longrightarrow> CHR '':'' \<notin> set s"
  by (auto simp: hex_string_def)

lemma to_sign_str_inj:
  assumes "hex_string p" "hex_string p'" "to_sign_str p q c = to_sign_str p' q' c'"
  shows "p = p' \<and> q = q' \<and> c = c'"
proof -
  have "p = p' \<and> nat_str (unat q) @ CHR '':'' # c = nat_str (unat q') @ CHR '':'' # c'"
    using assms(3) append_sep_inj [OF hex_no_colon [OF assms(1)] hex_no_colon [OF assms(2)]]
    by (simp add: to_sign_str_eq)
  then show ?thesis
    using append_sep_inj [OF nat_str_no_colon [of "unat q"] nat_str_no_colon [of "unat q'"]]
    by (auto dest: nat_str_inj intro: unsigned_word_eqI)
qed

text \<open>Lines.\<close>

lemma getlines_from_line:
  "CHR 0x0A \<notin> set l \<Longrightarrow> getlines_from acc (l @ CHR 0x0A # f) = (rev acc @ l @ [CHR 0x0A]) # getlines_from [] f"
  by (induction l arbitrary: acc) auto

lemma getlines_line:
  "CHR 0x0A \<notin> set l \<Longrightarrow> getlines (l @ CHR 0x0A # f) = (l @ [CHR 0x0A]) # getlines f"
  by (simp add: getlines_def getlines_from_line)

lemma getlines_from_append:
  "getlines_from acc (a @ CHR 0x0A # b) = getlines_from acc (a @ [CHR 0x0A]) @ getlines_from [] b"
  by (induction a arbitrary: acc) auto

lemma getlines_append:
  "f = [] \<or> last f = CHR 0x0A \<Longrightarrow> getlines (f @ g) = getlines f @ getlines g"
proof (cases f rule: rev_cases)
  case (snoc a c)
  assume "f = [] \<or> last f = CHR 0x0A"
  then show ?thesis
    using snoc getlines_from_append [of "[]" a g] by (simp add: getlines_def)
qed (simp add: getlines_def)

lemma strip_line_signed:
  "s \<noteq> [] \<Longrightarrow> last s = CHR ''}'' \<Longrightarrow> strip_line (s @ [CHR 0x0A]) = s"
  by (cases s rule: rev_cases) (auto simp: strip_line_def)

lemma c_text_id: "CHR 0x00 \<notin> set s \<Longrightarrow> c_text s = s"
  unfolding c_text_def by (induction s) auto

section \<open>A signed line verifies\<close>

definition ctx_wf :: "audit_hash_chain_ctx \<Rightarrow> bool" where
  "ctx_wf ctx \<longleftrightarrow> hex_string (ah_last_hash ctx) \<and> length (ah_last_hash ctx) < 65"

lemma sign_ctx:
  assumes "audit_hash_chain_sign J hmac ok ctx ev n = (ctx', r)" "ctx_wf ctx"
  shows "ctx_wf ctx' \<and> ah_secret_key ctx' = ah_secret_key ctx"
  using assms
  by (auto simp: audit_hash_chain_sign_def ctx_wf_def Let_def hmac_hex split: option.splits if_splits)

lemma sign_line_verifies:
  assumes J: "jansson_ok J" and wf: "ctx_wf ctx"
    and sign: "audit_hash_chain_sign J hmac True ctx (Some ev) n = (ctx', Some l)"
  shows "CHR 0x0A \<notin> set l"
    and "ah_current_seq ctx' = ah_current_seq ctx + 1"
    and "verify_line J hmac (ah_secret_key ctx) True (ah_last_hash ctx) (ah_current_seq ctx + 1)
           (l @ [CHR 0x0A]) = LineNext (ah_last_hash ctx')"
proof -
  define q where "q = ah_current_seq ctx + 1"
  define p where "p = ah_last_hash ctx"
  have p: "hex_string p" "length p < 65" using wf by (simp_all add: p_def ctx_wf_def)
  obtain obj0 c f where o0: "jn_is_object J obj0" "jn_dumps J (strip_fields J obj0) = Some c"
    and f: "jn_dumps J (embed_fields J (strip_fields J obj0) q p
              (compute_hmac_hex hmac (ah_secret_key ctx) (to_sign_str p q c))) = Some f"
    and l: "l = f"
    and ctx': "ctx' = ctx\<lparr>ah_current_seq := q, ah_last_hash :=
                 compute_hmac_hex hmac (ah_secret_key ctx) (to_sign_str p q c)\<rparr>"
    using sign p
    by (auto simp: audit_hash_chain_sign_def Let_def hmac_hex q_def [symmetric] p_def [symmetric]
        split: option.splits if_splits)
  define h where "h = compute_hmac_hex hmac (ah_secret_key ctx) (to_sign_str p q c)"
  have h: "hex_string h" "length h < 65" by (simp_all add: h_def hmac_hex)
  note so = jansson_strip [OF J o0(1)]
  note em = jansson_embed [OF J conjunct1 [OF so], of q p h]
  obtain b where b: "f \<noteq> []" "last f = CHR ''}''" "CHR 0x0A \<notin> set f" "CHR 0x00 \<notin> set f"
      "jn_loads J f = Some b" "jn_is_object J b"
      "jn_get J b = jn_get J (embed_fields J (strip_fields J obj0) q p h)"
    using jansson_read [OF J conjunct1 [OF em] f [folded h_def]] by metis
  note sb = jansson_strip [OF J b(6)]
  have "jn_get J (strip_fields J b) = jn_get J (strip_fields J obj0)"
    using so em sb b(7) by (simp add: fun_eq_iff)
  then have "jn_dumps J (strip_fields J b) = Some c"
    using jansson_write [OF J conjunct1 [OF sb] conjunct1 [OF so]] o0(2) by metis
  then have rec: "verify_record J hmac (ah_secret_key ctx) True p q b q p h = LineNext h"
    using h by (simp add: verify_record_def h_def)
  have get: "jn_get J b ''seq'' = Some (jn_integer J (sint q))"
    "jn_get J b ''prev_hash'' = Some (jn_string J p)" "jn_get J b ''hash'' = Some (jn_string J h)"
    using em b(7) by simp_all
  have "verify_line J hmac (ah_secret_key ctx) True p q (f @ [CHR 0x0A]) = LineNext h"
    using b get rec h p
    by (simp add: verify_line_def Let_def strip_line_signed c_text_id jansson_value [OF J])
  then show "verify_line J hmac (ah_secret_key ctx) True (ah_last_hash ctx) (ah_current_seq ctx + 1)
           (l @ [CHR 0x0A]) = LineNext (ah_last_hash ctx')"
    by (simp add: l ctx' p_def q_def h_def)
  show "CHR 0x0A \<notin> set l" using b l by simp
  show "ah_current_seq ctx' = ah_current_seq ctx + 1" by (simp add: ctx' q_def)
qed

text \<open>Every event of a list gets signed.\<close>

fun all_signed ::
  "'j jansson \<Rightarrow> (string \<Rightarrow> string \<Rightarrow> 8 word list) \<Rightarrow> audit_hash_chain_ctx \<Rightarrow> string list \<Rightarrow> bool" where
  "all_signed J hmac ctx [] = True"
| "all_signed J hmac ctx (ev # evs) =
     (case audit_hash_chain_sign J hmac True ctx (Some ev) 4096 of
        (ctx', r) \<Rightarrow> r \<noteq> None \<and> all_signed J hmac ctx' evs)"

lemma written_log_verifies:
  assumes "jansson_ok J" "ctx_wf ctx" "all_signed J hmac ctx evs"
    and "audit_write_all J hmac (Some ctx) evs = (ctx', written)"
  shows "\<exists>c. ctx' = Some c \<and> ctx_wf c \<and> ah_secret_key c = ah_secret_key ctx \<and>
             ah_current_seq c = ah_current_seq ctx + of_nat (length evs) \<and>
             (written = [] \<or> last written = CHR 0x0A) \<and>
             (\<forall>v rest. verify_lines J hmac (ah_secret_key ctx) (\<lambda>_. True) (ah_last_hash ctx)
                        (ah_current_seq ctx + 1) v (getlines written @ rest) =
                      verify_lines J hmac (ah_secret_key ctx) (\<lambda>_. True) (ah_last_hash c)
                        (ah_current_seq c + 1) (v + of_nat (length evs)) rest)"
  using assms(2-4)
proof (induction evs arbitrary: ctx ctx' written)
  case Nil
  then show ?case by (auto simp: getlines_def)
next
  case (Cons ev evs)
  obtain c1 l where s: "audit_hash_chain_sign J hmac True ctx (Some ev) 4096 = (c1, Some l)"
      and more: "all_signed J hmac c1 evs"
    using Cons.prems(2) by (auto split: prod.splits)
  note line = sign_line_verifies [OF assms(1) Cons.prems(1) s]
  note key = sign_ctx [OF s Cons.prems(1)]
  obtain f where f: "audit_write_all J hmac (Some c1) evs = (ctx', f)" and written: "written = l @ CHR 0x0A # f"
    using Cons.prems(3) s by (auto simp: audit_write_event_def split: prod.splits)
  obtain c where IH: "ctx' = Some c" "ctx_wf c" "ah_secret_key c = ah_secret_key c1"
      "ah_current_seq c = ah_current_seq c1 + of_nat (length evs)" "f = [] \<or> last f = CHR 0x0A"
      "\<And>v rest. verify_lines J hmac (ah_secret_key c1) (\<lambda>_. True) (ah_last_hash c1)
          (ah_current_seq c1 + 1) v (getlines f @ rest) =
        verify_lines J hmac (ah_secret_key c1) (\<lambda>_. True) (ah_last_hash c)
          (ah_current_seq c + 1) (v + of_nat (length evs)) rest"
    using Cons.IH [OF conjunct1 [OF key] more f] by blast
  show ?case
    using IH line key by (auto simp: written getlines_line algebra_simps)
qed

lemma create_facts:
  assumes "audit_hash_chain_create hmac ok secret = Some ctx"
  shows "ctx_wf ctx" "ah_current_seq ctx = 0"
    "ah_last_hash ctx = compute_hmac_hex hmac (ah_secret_key ctx) ''AIGATE_AUDIT_GENESIS''"
  using assms by (auto simp: audit_hash_chain_create_def Let_def ctx_wf_def hmac_hex split: if_splits)

lemma written_facts:
  assumes "jansson_ok J" "ctx_wf ctx" "all_signed J hmac ctx evs"
    and "audit_write_all J hmac (Some ctx) evs = (ctx', written)"
  obtains c where "ctx' = Some c" "ctx_wf c" "ah_secret_key c = ah_secret_key ctx"
    "ah_current_seq c = ah_current_seq ctx + of_nat (length evs)" "written = [] \<or> last written = CHR 0x0A"
    "\<And>v rest. verify_lines J hmac (ah_secret_key ctx) (\<lambda>_. True) (ah_last_hash ctx)
        (ah_current_seq ctx + 1) v (getlines written @ rest) =
      verify_lines J hmac (ah_secret_key ctx) (\<lambda>_. True) (ah_last_hash c)
        (ah_current_seq c + 1) (v + of_nat (length evs)) rest"
  using written_log_verifies [OF assms] by blast

section \<open>Completely signed logs\<close>

text \<open>C11. A log whose events could all be signed verifies: the verification of the written file returns 0
  and counts its events, with the context of the writer as it is afterwards.\<close>

theorem audit_log_verifies:
  assumes "jansson_ok J" and "audit_hash_chain_create hmac True secret = Some ctx"
    and "all_signed J hmac ctx evs"
    and "audit_write_all J hmac (Some ctx) evs = (Some ctx', written)"
    and "fs path = Some written"
  shows "audit_hash_chain_verify_file J hmac (\<lambda>_. True) fs (Some ctx') (Some path) =
    Some \<lparr>vo_rc = 0, vo_verified_count = of_nat (length evs), vo_broken_seq = 0, vo_msg = None\<rparr>"
proof -
  note c = create_facts [OF assms(2)]
  obtain c' where "Some ctx' = Some c'" "ah_secret_key c' = ah_secret_key ctx"
      "\<And>v rest. verify_lines J hmac (ah_secret_key ctx) (\<lambda>_. True) (ah_last_hash ctx)
          (ah_current_seq ctx + 1) v (getlines written @ rest) =
        verify_lines J hmac (ah_secret_key ctx) (\<lambda>_. True) (ah_last_hash c')
          (ah_current_seq c' + 1) (v + of_nat (length evs)) rest"
    using written_facts [OF assms(1) c(1) assms(3,4)] by metis
  from this(1,2) this(3) [of 0 "[]"] show ?thesis
    using c assms(5) by (simp add: audit_hash_chain_verify_file_def)
qed

section \<open>Restart and rotation\<close>

lemma signed_line_fails:
  assumes J: "jansson_ok J" and wf: "ctx_wf ctx"
    and "audit_hash_chain_sign J hmac True ctx (Some ev) n = (ctx', Some l)"
    and "expected \<noteq> ah_current_seq ctx + 1"
  shows "verify_line J hmac key True prev expected (l @ [CHR 0x0A]) =
    LineFail (verify_fail expected (Some (SequenceBreak expected (ah_current_seq ctx + 1))))"
  using sign_line_verifies(3) [OF assms(1-3)] assms(4)
  by (auto simp: verify_line_def verify_record_def Let_def split: option.splits if_splits)

text \<open>The chain does not survive the life of the process nor of the file. When the gateway restarts
  and appends to its log, the new process begins again with record 1 and the verification breaks
  there; and when the log is rotated, the new file does not begin with record 1 and the
  verification breaks at its first line.\<close>

theorem audit_restart_breaks_log:
  assumes "jansson_ok J" and "audit_hash_chain_create hmac True secret = Some ctx"
    and "all_signed J hmac ctx evs" and "audit_write_all J hmac (Some ctx) evs = (Some ctx', f)"
    and "evs \<noteq> []" and "length evs < 2 ^ 64"
    and "all_signed J hmac ctx (e # es)" and "audit_write_all J hmac (Some ctx) (e # es) = (s2, f2)"
    and "fs ''log'' = Some (f @ f2)"
    and "all_signed J hmac ctx' (e' # es')" and "audit_write_all J hmac (Some ctx') (e' # es') = (s3, f3)"
    and "fs ''rotated'' = Some f3"
  shows "audit_hash_chain_verify_file J hmac (\<lambda>_. True) fs (Some ctx) (Some ''log'') =
      Some (verify_fail (of_nat (length evs) + 1)
              (Some (SequenceBreak (of_nat (length evs) + 1) 1))) \<and>
    audit_hash_chain_verify_file J hmac (\<lambda>_. True) fs (Some ctx) (Some ''rotated'') =
      Some (verify_fail 1 (Some (SequenceBreak 1 (of_nat (length evs) + 1))))"
proof -
  note c = create_facts [OF assms(2)]
  have n: "(of_nat (length evs) :: 64 word) \<noteq> 0"
    using assms(5,6) by (simp add: word_of_nat_eq_0_iff) (auto dest: dvd_imp_le)
  obtain c' where w: "Some ctx' = Some c'" "ctx_wf c'" "ah_current_seq c' = of_nat (length evs)"
      "f = [] \<or> last f = CHR 0x0A"
      "\<And>v rest. verify_lines J hmac (ah_secret_key ctx) (\<lambda>_. True) (ah_last_hash ctx) 1 v
          (getlines f @ rest) =
        verify_lines J hmac (ah_secret_key ctx) (\<lambda>_. True) (ah_last_hash c')
          (of_nat (length evs) + 1) (v + of_nat (length evs)) rest"
    using written_facts [OF assms(1) c(1) assms(3,4)] c(2) by (metis add_0)
  obtain c1 l where s: "audit_hash_chain_sign J hmac True ctx (Some e) 4096 = (c1, Some l)"
    using assms(7) by (auto split: prod.splits)
  obtain g where f2: "f2 = l @ CHR 0x0A # g"
    using assms(8) s by (auto simp: audit_write_event_def split: prod.splits)
  have "verify_lines J hmac (ah_secret_key ctx) (\<lambda>_. True) (ah_last_hash ctx) 1 0 (getlines (f @ f2)) =
      Some (verify_fail (of_nat (length evs) + 1) (Some (SequenceBreak (of_nat (length evs) + 1) 1)))"
    using n signed_line_fails [OF assms(1) c(1) s, of "of_nat (length evs) + 1"] c(2)
    by (simp add: getlines_append [OF w(4)] w(5) f2 getlines_line [OF sign_line_verifies(1) [OF assms(1) c(1) s]])
  then have log: "audit_hash_chain_verify_file J hmac (\<lambda>_. True) fs (Some ctx) (Some ''log'') =
      Some (verify_fail (of_nat (length evs) + 1) (Some (SequenceBreak (of_nat (length evs) + 1) 1)))"
    using c assms(9) by (simp add: audit_hash_chain_verify_file_def)
  have wf': "ctx_wf ctx'" using w by simp
  obtain c1' l' where s': "audit_hash_chain_sign J hmac True ctx' (Some e') 4096 = (c1', Some l')"
    using assms(10) by (auto split: prod.splits)
  obtain g' where f3: "f3 = l' @ CHR 0x0A # g'"
    using assms(11) s' by (auto simp: audit_write_event_def split: prod.splits)
  have "audit_hash_chain_verify_file J hmac (\<lambda>_. True) fs (Some ctx) (Some ''rotated'') =
      Some (verify_fail 1 (Some (SequenceBreak 1 (of_nat (length evs) + 1))))"
    using n w(1,3) signed_line_fails [OF assms(1) wf' s', of 1] assms(12)
    by (simp add: audit_hash_chain_verify_file_def f3 getlines_line [OF sign_line_verifies(1) [OF assms(1) wf' s']])
  with log show ?thesis by blast
qed

section \<open>Records of a log\<close>

definition log_lines :: "string \<Rightarrow> string list" where
  "log_lines f = filter (\<lambda>l. l \<noteq> []) (map strip_line (getlines f))"

text \<open>The \<open>hash\<close> field of a line, and what is signed of it.\<close>

definition rec_hash :: "'j jansson \<Rightarrow> string \<Rightarrow> string" where
  "rec_hash J l = (case jn_loads J (c_text l) of None \<Rightarrow> []
     | Some ob \<Rightarrow> (case jn_get J ob ''hash'' of None \<Rightarrow> []
         | Some v \<Rightarrow> cstr_copy 65 (cstr_or_empty (jn_string_value J v))))"

definition rec_payload :: "'j jansson \<Rightarrow> string \<Rightarrow> string" where
  "rec_payload J l = (case jn_loads J (c_text l) of None \<Rightarrow> []
     | Some ob \<Rightarrow> cstr_or_empty (jn_dumps J (strip_fields J ob)))"

definition log_payloads :: "'j jansson \<Rightarrow> string \<Rightarrow> string list" where
  "log_payloads J f = map (rec_payload J) (log_lines f)"

text \<open>The hash of the last record, the one of the genesis text for an empty log.\<close>

definition end_hash :: "'j jansson \<Rightarrow> string \<Rightarrow> string list \<Rightarrow> string" where
  "end_hash J g ls = (if ls = [] then g else rec_hash J (last ls))"

fun chain_texts :: "'j jansson \<Rightarrow> string \<Rightarrow> 64 word \<Rightarrow> string list \<Rightarrow> string list" where
  "chain_texts J p q [] = []"
| "chain_texts J p q (l # ls) = to_sign_str p q (rec_payload J l) # chain_texts J (rec_hash J l) (q + 1) ls"

text \<open>The texts whose HMACs a log rests on.\<close>

definition log_texts :: "'j jansson \<Rightarrow> string \<Rightarrow> string \<Rightarrow> string list" where
  "log_texts J g f = ''AIGATE_AUDIT_GENESIS'' # chain_texts J g 1 (log_lines f)"

lemma cstr_copy_idem [simp]: "cstr_copy n (cstr_copy n s) = cstr_copy n s"
  by (simp add: cstr_copy_def)

lemma verify_line_next:
  assumes "verify_line J hmac key m p q line = LineNext h"
  shows "strip_line line \<noteq> [] \<and> h = rec_hash J (strip_line line) \<and>
         h = compute_hmac_hex hmac key (to_sign_str p q (rec_payload J (strip_line line)))"
  using assms hmac_hex(2) [of hmac key]
  by (auto simp: verify_line_def verify_record_def rec_hash_def rec_payload_def Let_def
      split: option.splits if_splits)

lemma verify_line_skip: "verify_line J hmac key m p q line = LineSkip \<Longrightarrow> strip_line line = []"
  by (auto simp: verify_line_def verify_record_def Let_def split: option.splits if_splits)

lemma verify_line_fail: "verify_line J hmac key m p q line = LineFail out \<Longrightarrow> vo_rc out = -1"
  by (auto simp: verify_line_def verify_record_def verify_fail_def Let_def split: option.splits if_splits)

text \<open>The chain of an accepted log.\<close>

lemma verify_lines_ok:
  assumes "verify_lines J hmac key mem p q v ls0 = Some out" "vo_rc out = 0"
  shows "map (rec_hash J) (filter (\<lambda>l. l \<noteq> []) (map strip_line ls0)) =
           map (compute_hmac_hex hmac key) (chain_texts J p q (filter (\<lambda>l. l \<noteq> []) (map strip_line ls0))) \<and>
         out = \<lparr>vo_rc = 0, vo_verified_count = v + of_nat (length (filter (\<lambda>l. l \<noteq> []) (map strip_line ls0))),
                vo_broken_seq = 0, vo_msg = None\<rparr>"
  using assms
proof (induction ls0 arbitrary: p q v)
  case (Cons line ls0)
  show ?case
  proof (cases "verify_line J hmac key (mem (length ls0)) p q line")
    case LineSkip
    then show ?thesis using Cons verify_line_skip [OF LineSkip] by simp
  next
    case (LineNext h)
    note n = verify_line_next [OF LineNext]
    have "verify_lines J hmac key mem h (q + 1) (v + 1) ls0 = Some out"
      using Cons.prems(1) LineNext by simp
    moreover have "h = rec_hash J (strip_line line)" and
      "rec_hash J (strip_line line) = compute_hmac_hex hmac key (to_sign_str p q (rec_payload J (strip_line line)))"
      using n by auto
    ultimately show ?thesis using Cons.IH [OF _ Cons.prems(2), of h "q + 1" "v + 1"] n
      by (simp add: algebra_simps)
  qed (use Cons.prems in \<open>auto dest: verify_line_fail\<close>)
qed auto

lemma chain_texts_snoc:
  "chain_texts J p q (ls @ [l]) =
     chain_texts J p q ls @ [to_sign_str (end_hash J p ls) (q + of_nat (length ls)) (rec_payload J l)]"
  by (induction ls arbitrary: p q) (auto simp: end_hash_def algebra_simps)

lemma genesis_no_colon: "''AIGATE_AUDIT_GENESIS'' \<noteq> to_sign_str p q c"
proof
  assume "''AIGATE_AUDIT_GENESIS'' = to_sign_str p q c"
  then have "CHR '':'' \<in> set ''AIGATE_AUDIT_GENESIS''"
    unfolding to_sign_str_eq by (metis in_set_conv_decomp)
  then show False by simp
qed

text \<open>Two chains with the same genesis and the same end have the same texts, or two different texts
  of them have the same HMAC.\<close>

definition clash :: "(string \<Rightarrow> string) \<Rightarrow> string list \<Rightarrow> string list \<Rightarrow> bool" where
  "clash H xs ys \<longleftrightarrow> (\<exists>x \<in> set xs. \<exists>y \<in> set ys. x \<noteq> y \<and> H x = H y)"

lemma clashI: "x \<in> set xs \<Longrightarrow> y \<in> set ys \<Longrightarrow> x \<noteq> y \<Longrightarrow> H x = H y \<Longrightarrow> clash H xs ys"
  by (auto simp: clash_def)

lemma clash_mono: "clash H xs ys \<Longrightarrow> set xs \<subseteq> set xs' \<Longrightarrow> set ys \<subseteq> set ys' \<Longrightarrow> clash H xs' ys'"
  by (auto simp: clash_def)

lemma end_hash_hex:
  assumes "hex_string g" "map (rec_hash J) xs = map (compute_hmac_hex hmac key) (chain_texts J g 1 xs)"
  shows "hex_string (end_hash J g xs)"
  using assms by (cases xs rule: rev_cases) (simp_all add: end_hash_def chain_texts_snoc hmac_hex)

lemma chains_agree:
  assumes H: "H = compute_hmac_hex hmac key" and g: "g = H ''AIGATE_AUDIT_GENESIS''"
    and "map (rec_hash J) ls = map H (chain_texts J g 1 ls)"
    and "map (rec_hash J) ks = map H (chain_texts J g 1 ks)"
    and "end_hash J g ls = end_hash J g ks"
    and "length ls < 2 ^ 64" "length ks < 2 ^ 64"
  shows "map (rec_payload J) ls = map (rec_payload J) ks \<or>
    clash H (''AIGATE_AUDIT_GENESIS'' # chain_texts J g 1 ls) (''AIGATE_AUDIT_GENESIS'' # chain_texts J g 1 ks)"
  using assms(3-)
proof (induction ls arbitrary: ks rule: rev_induct)
  case Nil
  show ?case
  proof (cases ks rule: rev_cases)
    case (snoc ks' k)
    let ?y = "to_sign_str (end_hash J g ks') (1 + of_nat (length ks')) (rec_payload J k)"
    have "H ''AIGATE_AUDIT_GENESIS'' = H ?y"
      using Nil.prems snoc by (simp add: end_hash_def chain_texts_snoc g [symmetric])
    then have "clash H (''AIGATE_AUDIT_GENESIS'' # chain_texts J g 1 [])
        (''AIGATE_AUDIT_GENESIS'' # chain_texts J g 1 ks)"
      by (intro clashI [OF _ _ genesis_no_colon]) (simp_all add: snoc chain_texts_snoc)
    then show ?thesis ..
  qed simp
next
  case (snoc l ls)
  let ?x = "to_sign_str (end_hash J g ls) (1 + of_nat (length ls)) (rec_payload J l)"
  have hg: "hex_string g" by (simp add: g H hmac_hex)
  have l: "rec_hash J l = H ?x" "map (rec_hash J) ls = map H (chain_texts J g 1 ls)"
    using snoc.prems(1) by (simp_all add: chain_texts_snoc)
  show ?case
  proof (cases ks rule: rev_cases)
    case Nil
    have "H ?x = H ''AIGATE_AUDIT_GENESIS''"
      using snoc.prems(3) Nil l by (simp add: end_hash_def g)
    then have "clash H (''AIGATE_AUDIT_GENESIS'' # chain_texts J g 1 (ls @ [l]))
        (''AIGATE_AUDIT_GENESIS'' # chain_texts J g 1 ks)"
      by (intro clashI [OF _ _ genesis_no_colon [symmetric]]) (simp_all add: Nil chain_texts_snoc)
    then show ?thesis ..
  next
    case k: (snoc ks' k)
    let ?y = "to_sign_str (end_hash J g ks') (1 + of_nat (length ks')) (rec_payload J k)"
    have kk: "rec_hash J k = H ?y" "map (rec_hash J) ks' = map H (chain_texts J g 1 ks')"
      using snoc.prems(2) k by (simp_all add: chain_texts_snoc)
    have hh: "H ?x = H ?y" using snoc.prems(3) k l kk by (simp add: end_hash_def)
    show ?thesis
    proof (cases "?x = ?y")
      case True
      note t = to_sign_str_inj [OF end_hash_hex [OF hg l(2) [unfolded H]] end_hash_hex [OF hg kk(2) [unfolded H]] True]
      have "length ls < 2 ^ 64" "length ks' < 2 ^ 64" using snoc.prems k by simp_all
      from snoc.IH [OF l(2) kk(2) conjunct1 [OF t] this] show ?thesis
      proof
        assume "clash H (''AIGATE_AUDIT_GENESIS'' # chain_texts J g 1 ls)
          (''AIGATE_AUDIT_GENESIS'' # chain_texts J g 1 ks')"
        then show ?thesis
          by (intro disjI2) (erule clash_mono, auto simp: k chain_texts_snoc)
      qed (use t k in simp)
    next
      case False
      then have "clash H (''AIGATE_AUDIT_GENESIS'' # chain_texts J g 1 (ls @ [l]))
          (''AIGATE_AUDIT_GENESIS'' # chain_texts J g 1 ks)"
        by (intro clashI [OF _ _ False hh]) (simp_all add: k chain_texts_snoc)
      then show ?thesis ..
    qed
  qed
qed

end
