(* ===== verification/Audit_Evidence.thy ===== *)
theory Audit_Evidence
  imports Audit_Props "HOL-Library.Code_Target_Nat"
begin

text \<open>
  What a verified audit log is evidence of, and an instance of the JSON library on which the
  properties of the chain are evaluated: objects with the four members \<open>seq\<close>, \<open>prev_hash\<close>,
  \<open>hash\<close> and \<open>body\<close>, written in a text format of their own.
\<close>

section \<open>A small JSON library\<close>

datatype flat_json = FInt int | FStr string
  | FObj "int option" "string option" "string option" "string option"

fun flat_is_object :: "flat_json \<Rightarrow> bool" where
  "flat_is_object (FObj s p h b) = True"
| "flat_is_object _ = False"

fun flat_get :: "flat_json \<Rightarrow> string \<Rightarrow> flat_json option" where
  "flat_get (FObj s p h b) k =
     (if k = ''seq'' then map_option FInt s else if k = ''prev_hash'' then map_option FStr p
      else if k = ''hash'' then map_option FStr h else if k = ''body'' then map_option FStr b else None)"
| "flat_get _ k = None"

fun flat_del :: "flat_json \<Rightarrow> string \<Rightarrow> flat_json" where
  "flat_del (FObj s p h b) k =
     FObj (if k = ''seq'' then None else s) (if k = ''prev_hash'' then None else p)
          (if k = ''hash'' then None else h) (if k = ''body'' then None else b)"
| "flat_del v k = v"

fun flat_set :: "flat_json \<Rightarrow> string \<Rightarrow> flat_json \<Rightarrow> flat_json" where
  "flat_set (FObj s p h b) k (FInt i) = FObj (if k = ''seq'' then Some i else s) p h b"
| "flat_set (FObj s p h b) k (FStr t) =
     FObj s (if k = ''prev_hash'' then Some t else p) (if k = ''hash'' then Some t else h)
          (if k = ''body'' then Some t else b)"
| "flat_set v k w = v"

definition enc_int :: "int option \<Rightarrow> string" where
  "enc_int x = (case x of None \<Rightarrow> ''n'' | Some i \<Rightarrow> CHR ''i'' # int_str i)"

definition enc_str :: "string option \<Rightarrow> string" where
  "enc_str x = (case x of None \<Rightarrow> ''n'' | Some t \<Rightarrow> CHR ''s'' # t)"

definition dec_int :: "string \<Rightarrow> int option" where
  "dec_int t = (case t of CHR ''i'' # r \<Rightarrow> Some (strtol10 r) | _ \<Rightarrow> None)"

definition dec_str :: "string \<Rightarrow> string option" where
  "dec_str t = (case t of CHR ''s'' # r \<Rightarrow> Some r | _ \<Rightarrow> None)"

definition hex_opt :: "string option \<Rightarrow> bool" where
  "hex_opt x = (case x of None \<Rightarrow> True | Some t \<Rightarrow> hex_string t)"

fun flat_dumps :: "flat_json \<Rightarrow> string option" where
  "flat_dumps (FObj s p h b) =
     (if hex_opt p \<and> hex_opt h \<and> hex_opt b then
        Some (enc_int s @ CHR '','' # enc_str p @ CHR '','' # enc_str h @ CHR '','' # enc_str b @ ''}'')
      else None)"
| "flat_dumps _ = None"

definition upto_char :: "char \<Rightarrow> string \<Rightarrow> string" where "upto_char c t = takeWhile (\<lambda>x. x \<noteq> c) t"
definition after_char :: "char \<Rightarrow> string \<Rightarrow> string" where "after_char c t = tl (dropWhile (\<lambda>x. x \<noteq> c) t)"

definition flat_loads :: "string \<Rightarrow> flat_json option" where
  "flat_loads t =
     (let r1 = after_char CHR '','' t; r2 = after_char CHR '','' r1; r3 = after_char CHR '','' r2
      in Some (FObj (dec_int (upto_char CHR '','' t)) (dec_str (upto_char CHR '','' r1))
                    (dec_str (upto_char CHR '','' r2)) (dec_str (upto_char CHR ''}'' r3))))"

fun flat_int_value :: "flat_json \<Rightarrow> int" where
  "flat_int_value (FInt i) = i" | "flat_int_value _ = 0"

fun flat_str_value :: "flat_json \<Rightarrow> string option" where
  "flat_str_value (FStr t) = Some t" | "flat_str_value _ = None"

definition flat_lib :: "flat_json jansson" where
  "flat_lib = \<lparr>jn_loads = flat_loads, jn_is_object = flat_is_object, jn_get = flat_get, jn_del = flat_del,
     jn_set = flat_set, jn_dumps = flat_dumps, jn_integer = FInt, jn_string = FStr,
     jn_integer_value = flat_int_value, jn_string_value = flat_str_value\<rparr>"

lemma upto_sep: "c \<notin> set a \<Longrightarrow> upto_char c (a @ c # b) = a"
  unfolding upto_char_def by (induction a) auto

lemma after_sep: "c \<notin> set a \<Longrightarrow> after_char c (a @ c # b) = b"
  unfolding after_char_def by (induction a) auto

definition plain_char :: "char \<Rightarrow> bool" where
  "plain_char c \<longleftrightarrow> c \<notin> {CHR '','', CHR ''}'', CHR 0x0A, CHR 0x00}"

lemma digit_plain: "is_digit c \<Longrightarrow> plain_char c"
  by (auto simp: plain_char_def is_digit_def)

lemma enc_int_plain: "list_all plain_char (enc_int x)"
proof (cases x)
  case None
  then show ?thesis by (simp add: enc_int_def plain_char_def)
next
  case (Some i)
  have "plain_char c" if "c \<in> set (int_str i)" for c
    using int_str_digits [OF that] by (auto simp: digit_plain) (simp add: plain_char_def)
  moreover have "plain_char CHR ''i''" by (simp add: plain_char_def)
  ultimately show ?thesis by (simp add: Some enc_int_def list_all_iff)
qed

lemma hex_plain: "c \<in> set ''0123456789abcdef'' \<Longrightarrow> plain_char c"
  by (auto simp: plain_char_def)

lemma enc_str_plain:
  assumes "hex_opt x"
  shows "list_all plain_char (enc_str x)"
proof (cases x)
  case None
  then show ?thesis by (simp add: enc_str_def plain_char_def)
next
  case (Some t)
  then have "set t \<subseteq> set ''0123456789abcdef''" using assms by (simp only: hex_opt_def hex_string_def option.case)
  then have "list_all plain_char t" unfolding list_all_iff using hex_plain by blast
  then show ?thesis by (simp add: Some enc_str_def plain_char_def)
qed

lemma dec_enc: "dec_int (enc_int x) = x" "dec_str (enc_str y) = y"
  by (auto simp: enc_int_def dec_int_def enc_str_def dec_str_def split: option.splits)

lemma flat_roundtrip:
  assumes "flat_dumps v = Some t"
  shows "flat_loads t = Some v"
proof -
  obtain s p h b where v: "v = FObj s p h b" and hx: "hex_opt p" "hex_opt h" "hex_opt b"
    and t: "t = enc_int s @ CHR '','' # enc_str p @ CHR '','' # enc_str h @ CHR '','' # enc_str b @ CHR ''}'' # []"
    using assms by (cases v) (auto split: if_splits)
  have "CHR '','' \<notin> set (enc_int s)" "CHR '','' \<notin> set (enc_str p)" "CHR '','' \<notin> set (enc_str h)"
    "CHR ''}'' \<notin> set (enc_str b)"
    using enc_int_plain [of s] hx [THEN enc_str_plain] by (auto simp: list_all_iff plain_char_def)
  then show ?thesis
    by (simp add: flat_loads_def t v Let_def upto_sep after_sep dec_enc)
qed

lemma flat_obj: "flat_is_object v \<Longrightarrow> \<exists>s p h b. v = FObj s p h b"
  by (cases v) auto

lemma flat_get_inj:
  assumes "flat_get (FObj s p h b) = flat_get (FObj s' p' h' b')"
  shows "s = s' \<and> p = p' \<and> h = h' \<and> b = b'"
proof -
  have inj: "map_option FInt x = map_option FInt x' \<Longrightarrow> x = x'" for x x' by (cases x; cases x') auto
  have inj': "map_option FStr y = map_option FStr y' \<Longrightarrow> y = y'" for y y' by (cases y; cases y') auto
  show ?thesis
    using fun_cong [OF assms, of "''seq''"] fun_cong [OF assms, of "''prev_hash''"]
      fun_cong [OF assms, of "''hash''"] fun_cong [OF assms, of "''body''"]
    by (auto intro: inj inj')
qed

lemma plain_no: "list_all plain_char s \<Longrightarrow> CHR 0x0A \<notin> set s \<and> CHR 0x00 \<notin> set s"
  by (induction s) (auto simp: plain_char_def)

lemma flat_lib_ok: "jansson_ok flat_lib"
proof -
  have "jn_writes flat_lib"
    unfolding jn_writes_def flat_lib_def jansson.simps
  proof (intro allI impI)
    fix a b assume ab: "flat_is_object a \<and> flat_is_object b \<and> flat_get a = flat_get b"
    from ab obtain s p h x where a: "a = FObj s p h x" using flat_obj by blast
    from ab obtain s' p' h' x' where b: "b = FObj s' p' h' x'" using flat_obj by blast
    have "s = s' \<and> p = p' \<and> h = h' \<and> x = x'"
      by (rule flat_get_inj) (use ab a b in simp)
    then show "flat_dumps a = flat_dumps b" by (simp add: a b)
  qed
  moreover have "jn_reads flat_lib"
    unfolding jn_reads_def flat_lib_def jansson.simps
  proof (intro allI impI)
    fix a t assume a: "flat_is_object a \<and> flat_dumps a = Some t"
    then obtain s p h b where v: "a = FObj s p h b" and hx: "hex_opt p" "hex_opt h" "hex_opt b"
      and t: "t = enc_int s @ CHR '','' # enc_str p @ CHR '','' # enc_str h @ CHR '','' # enc_str b @ ''}''"
      by (cases a) (auto split: if_splits)
    have plain: "list_all plain_char (enc_int s)" "list_all plain_char (enc_str p)"
      "list_all plain_char (enc_str h)" "list_all plain_char (enc_str b)"
      using enc_int_plain hx [THEN enc_str_plain] by simp_all
    have "CHR 0x0A \<notin> set t" "CHR 0x00 \<notin> set t"
      using plain [THEN plain_no] by (simp_all add: t)
    moreover have "last t = CHR ''}''" by (simp add: t)
    moreover have "flat_loads t = Some a" using a flat_roundtrip by blast
    ultimately show "t \<noteq> [] \<and> last t = CHR ''}'' \<and> CHR 0x0A \<notin> set t \<and> CHR 0x00 \<notin> set t \<and>
        (\<exists>b. flat_loads t = Some b \<and> flat_is_object b \<and> flat_get b = flat_get a)"
      using a by (intro conjI exI [of _ a]) (simp_all add: t)
  qed
  moreover have "jn_deletes flat_lib"
    unfolding jn_deletes_def flat_lib_def by (auto dest!: flat_obj)
  moreover have "jn_values flat_lib" by (simp add: jn_values_def flat_lib_def)
  moreover have "jn_sets flat_lib ''seq'' (jn_integer flat_lib i)" for i
    unfolding jn_sets_def flat_lib_def by (auto dest!: flat_obj)
  moreover have "jn_sets flat_lib ''prev_hash'' (jn_string flat_lib t)"
    "jn_sets flat_lib ''hash'' (jn_string flat_lib t)" for t
    unfolding jn_sets_def flat_lib_def by (auto dest!: flat_obj)
  ultimately show ?thesis by (simp add: jansson_ok_def)
qed

text \<open>A digest that only depends on the length, and two events.\<close>

definition weak_hmac :: "string \<Rightarrow> string \<Rightarrow> 8 word list" where
  "weak_hmac key d = replicate 32 (of_nat (length d))"

definition event_ab :: string where "event_ab = ''n,n,n,sab}''"
definition event_cd :: string where "event_cd = ''n,n,n,scd}''"

definition weak_ctx :: audit_hash_chain_ctx where
  "weak_ctx = the (audit_hash_chain_create weak_hmac True (Some ''k''))"

lemma weak_ctx: "audit_hash_chain_create weak_hmac True (Some ''k'') = Some weak_ctx"
  by (simp add: weak_ctx_def audit_hash_chain_create_def Let_def)

lemma weak_signed:
  "all_signed flat_lib weak_hmac weak_ctx [event_ab, event_cd]"
  by code_simp

text \<open>A log of one signed event.\<close>

lemma one_line_log:
  assumes "jansson_ok J" "audit_hash_chain_create hmac True secret = Some ctx"
    and "audit_hash_chain_sign J hmac True ctx (Some ev) 4096 = (c, Some l)"
  shows "audit_write_all J hmac (Some ctx) [ev] = (Some c, l @ [CHR 0x0A])"
    and "length (log_lines (l @ [CHR 0x0A])) = 1"
    and "end_hash J g (log_lines (l @ [CHR 0x0A])) = ah_last_hash c"
    and "mem 0 \<Longrightarrow> verify_lines J hmac (ah_secret_key ctx) mem
           (compute_hmac_hex hmac (ah_secret_key ctx) ''AIGATE_AUDIT_GENESIS'') 1 0 (getlines (l @ [CHR 0x0A])) =
         Some \<lparr>vo_rc = 0, vo_verified_count = 1, vo_broken_seq = 0, vo_msg = None\<rparr>"
proof -
  note c = create_facts [OF assms(2)]
  note v = sign_line_verifies [OF assms(1) c(1) assms(3)]
  note n = verify_line_next [OF v(3)]
  have g: "getlines (l @ [CHR 0x0A]) = [l @ [CHR 0x0A]]"
    using getlines_line [OF v(1), of "[]"] by (simp add: getlines_def)
  show "audit_write_all J hmac (Some ctx) [ev] = (Some c, l @ [CHR 0x0A])"
    using assms(3) by (simp add: audit_write_event_def)
  show "length (log_lines (l @ [CHR 0x0A])) = 1" "end_hash J g (log_lines (l @ [CHR 0x0A])) = ah_last_hash c"
    using n by (auto simp: log_lines_def g end_hash_def)
  show "verify_lines J hmac (ah_secret_key ctx) mem
      (compute_hmac_hex hmac (ah_secret_key ctx) ''AIGATE_AUDIT_GENESIS'') 1 0 (getlines (l @ [CHR 0x0A])) =
      Some \<lparr>vo_rc = 0, vo_verified_count = 1, vo_broken_seq = 0, vo_msg = None\<rparr>" if "mem 0"
    using v(3) that c(2,3) by (simp add: g)
qed

lemma weak_first_line:
  "\<exists>c l. audit_hash_chain_sign flat_lib weak_hmac True weak_ctx (Some event_ab) 4096 = (c, Some l)"
  using weak_signed by (auto split: prod.splits)

lemma weak_other_line:
  "\<exists>c l. audit_hash_chain_sign flat_lib weak_hmac True weak_ctx (Some event_cd) 4096 = (c, Some l)"
proof -
  have "all_signed flat_lib weak_hmac weak_ctx [event_cd]" by code_simp
  then show ?thesis by (auto split: prod.splits)
qed

lemma weak_same_hash:
  "ah_last_hash (fst (audit_hash_chain_sign flat_lib weak_hmac True weak_ctx (Some event_ab) 4096)) =
   ah_last_hash (fst (audit_hash_chain_sign flat_lib weak_hmac True weak_ctx (Some event_cd) 4096))"
  by code_simp

section \<open>What the last hash says\<close>

text \<open>C10. The last hash of a log pins the whole log. If two files verify under the same key and end in
  the same hash, they hold the same events in the same order; if they do not, two different texts
  among those the two chains sign have the same HMAC.\<close>

theorem audit_last_hash_pins_log:
  assumes "audit_hash_chain_verify_file J hmac mem fs (Some ctx) (Some p1) = Some v1" and "vo_rc v1 = 0"
    and "audit_hash_chain_verify_file J hmac mem fs (Some ctx) (Some p2) = Some v2" and "vo_rc v2 = 0"
    and "fs p1 = Some f1" and "fs p2 = Some f2"
    and "length (log_lines f1) < 2 ^ 64" and "length (log_lines f2) < 2 ^ 64"
    and "g = compute_hmac_hex hmac (ah_secret_key ctx) ''AIGATE_AUDIT_GENESIS''"
    and "end_hash J g (log_lines f1) = end_hash J g (log_lines f2)"
  shows "log_payloads J f1 = log_payloads J f2 \<or>
    clash (compute_hmac_hex hmac (ah_secret_key ctx)) (log_texts J g f1) (log_texts J g f2)"
proof -
  have "verify_lines J hmac (ah_secret_key ctx) mem g 1 0 (getlines f1) = Some v1"
    "verify_lines J hmac (ah_secret_key ctx) mem g 1 0 (getlines f2) = Some v2"
    using assms(1,3,5,6,9) by (simp_all add: audit_hash_chain_verify_file_def)
  from verify_lines_ok [OF this(1) assms(2)] verify_lines_ok [OF this(2) assms(4)] show ?thesis
    unfolding log_payloads_def log_texts_def
    by (intro chains_agree [OF refl assms(9)] assms(7,8,10)) (simp_all add: log_lines_def)
qed

theorem audit_last_hash_pins_log_witness:
  "\<exists>f1 f2. event_ab \<noteq> event_cd \<and>
     snd (audit_write_all flat_lib weak_hmac (Some weak_ctx) [event_ab]) = f1 \<and>
     snd (audit_write_all flat_lib weak_hmac (Some weak_ctx) [event_cd]) = f2 \<and>
     (log_payloads flat_lib f1 = log_payloads flat_lib f2 \<or>
      clash (compute_hmac_hex weak_hmac ''k'')
        (log_texts flat_lib (compute_hmac_hex weak_hmac ''k'' ''AIGATE_AUDIT_GENESIS'') f1)
        (log_texts flat_lib (compute_hmac_hex weak_hmac ''k'' ''AIGATE_AUDIT_GENESIS'') f2))"
proof -
  obtain c1 l1 where s1: "audit_hash_chain_sign flat_lib weak_hmac True weak_ctx (Some event_ab) 4096 = (c1, Some l1)"
    using weak_first_line by blast
  obtain c2 l2 where s2: "audit_hash_chain_sign flat_lib weak_hmac True weak_ctx (Some event_cd) 4096 = (c2, Some l2)"
    using weak_other_line by blast
  note one = one_line_log [OF flat_lib_ok weak_ctx s1] and two = one_line_log [OF flat_lib_ok weak_ctx s2]
  define fs where "fs = (\<lambda>p. if p = ''a'' then Some (l1 @ [CHR 0x0A]) else Some (l2 @ [CHR 0x0A]))"
  have k: "ah_secret_key weak_ctx = ''k''"
    by (simp add: weak_ctx_def audit_hash_chain_create_def Let_def)
  have 1: "audit_hash_chain_verify_file flat_lib weak_hmac (\<lambda>_. True) fs (Some weak_ctx) (Some ''a'') =
      Some \<lparr>vo_rc = 0, vo_verified_count = 1, vo_broken_seq = 0, vo_msg = None\<rparr>"
    using one(4) by (simp add: audit_hash_chain_verify_file_def fs_def)
  have 2: "audit_hash_chain_verify_file flat_lib weak_hmac (\<lambda>_. True) fs (Some weak_ctx) (Some ''b'') =
      Some \<lparr>vo_rc = 0, vo_verified_count = 1, vo_broken_seq = 0, vo_msg = None\<rparr>"
    using two(4) by (simp add: audit_hash_chain_verify_file_def fs_def)
  have h: "ah_last_hash c1 = ah_last_hash c2" using weak_same_hash by (simp add: s1 s2)
  let ?g = "compute_hmac_hex weak_hmac ''k'' ''AIGATE_AUDIT_GENESIS''"
  have "log_payloads flat_lib (l1 @ [CHR 0x0A]) = log_payloads flat_lib (l2 @ [CHR 0x0A]) \<or>
      clash (compute_hmac_hex weak_hmac (ah_secret_key weak_ctx))
        (log_texts flat_lib ?g (l1 @ [CHR 0x0A])) (log_texts flat_lib ?g (l2 @ [CHR 0x0A]))"
    by (rule audit_last_hash_pins_log [OF 1 _ 2]) (use one two h in \<open>simp_all add: fs_def k\<close>)
  moreover have "event_ab \<noteq> event_cd" by (simp add: event_ab_def event_cd_def)
  ultimately show ?thesis
    using one(1) two(1) by (intro exI [of _ "l1 @ [CHR 0x0A]"] exI [of _ "l2 @ [CHR 0x0A]"]) (simp del: audit_write_all.simps add: k)
qed

section \<open>Truncation\<close>

lemma verify_lines_prefix:
  "verify_lines J hmac key (\<lambda>_. True) p q v (as @ bs) = Some out \<Longrightarrow> vo_rc out = 0 \<Longrightarrow>
   \<exists>out'. verify_lines J hmac key (\<lambda>_. True) p q v as = Some out' \<and> vo_rc out' = 0"
  by (induction as arbitrary: p q v) (auto split: line_result.splits)

text \<open>What the verification does not see: cutting records off the end. Every file that ends after one
  of the lines of a log that verifies verifies too, with no broken record and no message.\<close>

theorem audit_truncation_undetected:
  assumes "audit_hash_chain_verify_file J hmac (\<lambda>_. True) fs (Some ctx) (Some path) = Some v" and "vo_rc v = 0"
    and "fs path = Some (kept @ lost)" and "kept = [] \<or> last kept = CHR 0x0A" and "fs short = Some kept"
  shows "audit_hash_chain_verify_file J hmac (\<lambda>_. True) fs (Some ctx) (Some short) =
    Some \<lparr>vo_rc = 0, vo_verified_count = of_nat (length (log_lines kept)), vo_broken_seq = 0, vo_msg = None\<rparr>"
proof -
  let ?g = "compute_hmac_hex hmac (ah_secret_key ctx) ''AIGATE_AUDIT_GENESIS''"
  have "verify_lines J hmac (ah_secret_key ctx) (\<lambda>_. True) ?g 1 0 (getlines kept @ getlines lost) = Some v"
    using assms(1,3) getlines_append [OF assms(4)] by (simp add: audit_hash_chain_verify_file_def)
  from verify_lines_prefix [OF this assms(2)] obtain w where
    w: "verify_lines J hmac (ah_secret_key ctx) (\<lambda>_. True) ?g 1 0 (getlines kept) = Some w" "vo_rc w = 0"
    by blast
  from verify_lines_ok [OF this] w(1) show ?thesis
    by (simp add: audit_hash_chain_verify_file_def assms(5) log_lines_def)
qed

theorem audit_truncation_undetected_witness:
  "\<exists>kept lost. snd (audit_write_all flat_lib weak_hmac (Some weak_ctx) [event_ab, event_cd]) = kept @ lost \<and>
     lost \<noteq> [] \<and>
     audit_hash_chain_verify_file flat_lib weak_hmac (\<lambda>_. True)
       (\<lambda>p. if p = ''cut'' then Some kept else Some (kept @ lost)) (Some weak_ctx) (Some ''cut'') =
     Some \<lparr>vo_rc = 0, vo_verified_count = 1, vo_broken_seq = 0, vo_msg = None\<rparr>"
proof -
  obtain s1 l1 where s1: "audit_hash_chain_sign flat_lib weak_hmac True weak_ctx (Some event_ab) 4096 = (s1, Some l1)"
    using weak_first_line by blast
  note one = one_line_log [OF flat_lib_ok weak_ctx s1]
  obtain c1 kept where k: "audit_write_all flat_lib weak_hmac (Some weak_ctx) [event_ab] = (c1, kept)"
    and kept: "kept = l1 @ [CHR 0x0A]"
    using one(1) by metis
  obtain c2 lost where l: "audit_write_all flat_lib weak_hmac c1 [event_cd] = (c2, lost)"
    by (metis surj_pair)
  have w: "audit_write_all flat_lib weak_hmac (Some weak_ctx) [event_ab, event_cd] = (c2, kept @ lost)"
    using k l by (auto split: prod.splits)
  define fs where "fs = (\<lambda>p. if p = ''cut'' then Some kept else Some (kept @ lost))"
  have g: "ah_secret_key weak_ctx = ''k''" "ah_last_hash weak_ctx = compute_hmac_hex weak_hmac ''k'' ''AIGATE_AUDIT_GENESIS''"
      "ah_current_seq weak_ctx = 0"
    by (simp_all add: weak_ctx_def audit_hash_chain_create_def Let_def)
  have "verify_lines flat_lib weak_hmac (ah_secret_key weak_ctx) (\<lambda>_. True) (ah_last_hash weak_ctx)
      (ah_current_seq weak_ctx + 1) 0 (getlines (kept @ lost) @ []) =
      Some \<lparr>vo_rc = 0, vo_verified_count = 2, vo_broken_seq = 0, vo_msg = None\<rparr>"
  proof (rule written_facts [OF flat_lib_ok create_facts(1) [OF weak_ctx] weak_signed w])
    fix c
    assume v: "\<And>v rest. verify_lines flat_lib weak_hmac (ah_secret_key weak_ctx) (\<lambda>_. True) (ah_last_hash weak_ctx)
        (ah_current_seq weak_ctx + 1) v (getlines (kept @ lost) @ rest) =
      verify_lines flat_lib weak_hmac (ah_secret_key weak_ctx) (\<lambda>_. True) (ah_last_hash c)
        (ah_current_seq c + 1) (v + of_nat (length [event_ab, event_cd])) rest"
    show ?thesis unfolding v by simp
  qed
  then have 1: "audit_hash_chain_verify_file flat_lib weak_hmac (\<lambda>_. True) fs (Some weak_ctx) (Some ''log'') =
      Some \<lparr>vo_rc = 0, vo_verified_count = 2, vo_broken_seq = 0, vo_msg = None\<rparr>"
    by (simp add: fs_def audit_hash_chain_verify_file_def g)
  have "length (log_lines kept) = 1" "last kept = CHR 0x0A" using one(2) by (simp_all add: kept)
  moreover have "lost \<noteq> []" using l by (cases c1) (auto simp: audit_write_event_def split: prod.splits option.splits)
  ultimately have 2: "snd (audit_write_all flat_lib weak_hmac (Some weak_ctx) [event_ab, event_cd]) = kept @ lost \<and>
      lost \<noteq> [] \<and> last kept = CHR 0x0A \<and> length (log_lines kept) = 1"
    unfolding w by simp
  have "audit_hash_chain_verify_file flat_lib weak_hmac (\<lambda>_. True) fs (Some weak_ctx) (Some ''cut'') =
      Some \<lparr>vo_rc = 0, vo_verified_count = of_nat (length (log_lines kept)), vo_broken_seq = 0, vo_msg = None\<rparr>"
    by (rule audit_truncation_undetected [OF 1]) (use 2 in \<open>simp_all add: fs_def\<close>)
  with 2 show ?thesis by (intro exI [of _ kept] exI [of _ lost]) (simp add: fs_def)
qed

section \<open>Instances for the signed log\<close>

theorem audit_log_verifies_witness:
  "\<exists>ctx' written. audit_write_all flat_lib weak_hmac (Some weak_ctx) [event_ab, event_cd] = (Some ctx', written) \<and>
     audit_hash_chain_verify_file flat_lib weak_hmac (\<lambda>_. True) (\<lambda>_. Some written) (Some ctx') (Some ''log'') =
     Some \<lparr>vo_rc = 0, vo_verified_count = 2, vo_broken_seq = 0, vo_msg = None\<rparr>"
proof -
  obtain c' f where w: "audit_write_all flat_lib weak_hmac (Some weak_ctx) [event_ab, event_cd] = (Some c', f)"
    using written_facts [OF flat_lib_ok create_facts(1) [OF weak_ctx] weak_signed] by (metis surj_pair)
  show ?thesis
    using audit_log_verifies [OF flat_lib_ok weak_ctx weak_signed w, of "\<lambda>_. Some f" "''log''"] w by simp
qed

theorem audit_restart_breaks_log_witness:
  "\<exists>ctx' f f2 f3. audit_write_all flat_lib weak_hmac (Some weak_ctx) [event_ab, event_cd] = (Some ctx', f) \<and>
     audit_hash_chain_verify_file flat_lib weak_hmac (\<lambda>_. True)
       (\<lambda>p. if p = ''log'' then Some (f @ f2) else Some f3) (Some weak_ctx) (Some ''log'') =
       Some (verify_fail 3 (Some (SequenceBreak 3 1))) \<and>
     audit_hash_chain_verify_file flat_lib weak_hmac (\<lambda>_. True)
       (\<lambda>p. if p = ''log'' then Some (f @ f2) else Some f3) (Some weak_ctx) (Some ''rotated'') =
       Some (verify_fail 1 (Some (SequenceBreak 1 3)))"
proof -
  obtain c' f where w: "audit_write_all flat_lib weak_hmac (Some weak_ctx) [event_ab, event_cd] = (Some c', f)"
    using written_facts [OF flat_lib_ok create_facts(1) [OF weak_ctx] weak_signed] by (metis surj_pair)
  have one: "all_signed flat_lib weak_hmac weak_ctx [event_ab]" by code_simp
  have "all_signed flat_lib weak_hmac (the (fst (audit_write_all flat_lib weak_hmac (Some weak_ctx)
          [event_ab, event_cd]))) [event_cd]" by code_simp
  then have two: "all_signed flat_lib weak_hmac c' [event_cd]" unfolding w by (simp only: fst_conv option.sel)
  obtain s2 f2 where w2: "audit_write_all flat_lib weak_hmac (Some weak_ctx) [event_ab] = (s2, f2)"
    by (metis surj_pair)
  obtain s3 f3 where w3: "audit_write_all flat_lib weak_hmac (Some c') [event_cd] = (s3, f3)"
    by (metis surj_pair)
  have "audit_hash_chain_verify_file flat_lib weak_hmac (\<lambda>_. True)
      (\<lambda>p. if p = ''log'' then Some (f @ f2) else Some f3) (Some weak_ctx) (Some ''log'') =
      Some (verify_fail (of_nat (length [event_ab, event_cd]) + 1)
        (Some (SequenceBreak (of_nat (length [event_ab, event_cd]) + 1) 1))) \<and>
    audit_hash_chain_verify_file flat_lib weak_hmac (\<lambda>_. True)
      (\<lambda>p. if p = ''log'' then Some (f @ f2) else Some f3) (Some weak_ctx) (Some ''rotated'') =
      Some (verify_fail 1 (Some (SequenceBreak 1 (of_nat (length [event_ab, event_cd]) + 1))))"
    by (rule audit_restart_breaks_log [OF flat_lib_ok weak_ctx weak_signed w _ _ one w2 _ two w3]) simp_all
  with w show ?thesis by (intro exI [of _ c'] exI [of _ f] exI [of _ f2] exI [of _ f3]) (simp del: audit_write_all.simps)
qed

end
