(* ===== verification/Event_Bus.thy ===== *)
theory Event_Bus
  imports Ring Decimal Complex_Main
begin

text \<open>
  \<^verbatim>\<open>src/observe/event_bus.c\<close>: a table of eight subscribers, each with a bounded queue of events.
  One lock makes every operation atomic, except that a pop on an empty queue waits on a condition
  variable with the lock released: it is two steps, the call and the wake-up, between which other
  operations run. \<open>now\<close> is \<open>time(NULL)\<close>; \<open>cond_ok\<close> says whether \<open>pthread_cond_init\<close>
  succeeds. A NULL bus makes every operation return at once and is left out.
\<close>

section \<open>State\<close>

datatype event_type =
  EVENT_NONE | EVENT_REQUEST | EVENT_CIRCUIT_BREAKER | EVENT_HEALTH_PROBE | EVENT_BUDGET_ALERT | EVENT_PING

record event_item =
  ei_type :: event_type
  ei_event_name :: string
  ei_payload :: string
  ei_ts :: int

record event_sub =
  es_queue :: "event_item list"
  es_head :: nat
  es_tail :: nat
  es_count :: nat
  es_dropped_count :: int
  es_active :: bool
  es_id :: int

record event_bus =
  eb_subscribers :: "event_sub list"
  eb_n_subscribers :: int
  eb_next_sub_id :: int
  eb_destroyed :: bool

definition EVENT_MAX_PAYLOAD :: nat where "EVENT_MAX_PAYLOAD = 1024"
definition EVENT_QUEUE_CAPACITY :: nat where "EVENT_QUEUE_CAPACITY = 64"
definition MAX_EVENT_SUBSCRIBERS :: nat where "MAX_EVENT_SUBSCRIBERS = 8"

definition item_zero :: event_item where
  "item_zero = \<lparr>ei_type = EVENT_NONE, ei_event_name = [], ei_payload = [], ei_ts = 0\<rparr>"

text \<open>A subscriber after \<open>memset\<close>.\<close>

definition sub_zero :: event_sub where
  "sub_zero = \<lparr>es_queue = replicate EVENT_QUEUE_CAPACITY item_zero, es_head = 0, es_tail = 0, es_count = 0,
     es_dropped_count = 0, es_active = False, es_id = 0\<rparr>"

definition event_bus_new :: "bool \<Rightarrow> bool \<Rightarrow> event_bus option" where
  "event_bus_new alloc_ok mutex_ok =
     (if alloc_ok \<and> mutex_ok
      then Some \<lparr>eb_subscribers = replicate MAX_EVENT_SUBSCRIBERS sub_zero, eb_n_subscribers = 0,
                 eb_next_sub_id = 100, eb_destroyed = False\<rparr>
      else None)"

text \<open>What the waiting subscribers see of the destruction, before the memory is released.\<close>

definition event_bus_free :: "event_bus \<Rightarrow> event_bus" where
  "event_bus_free eb = eb\<lparr>eb_destroyed := True,
     eb_subscribers := map (\<lambda>s. if es_active s then s\<lparr>es_active := False\<rparr> else s) (eb_subscribers eb)\<rparr>"

section \<open>Subscribing\<close>

definition event_bus_subscribe :: "event_bus \<Rightarrow> bool \<Rightarrow> event_bus \<times> int" where
  "event_bus_subscribe eb cond_ok =
     (if eb_destroyed eb \<or> eb_n_subscribers eb \<ge> int MAX_EVENT_SUBSCRIBERS then (eb, -1)
      else case find_idx (\<lambda>s. \<not> es_active s) (eb_subscribers eb) of
             None \<Rightarrow> (eb, -1)
           | Some slot \<Rightarrow>
               (let i = eb_next_sub_id eb + 1;
                    sub = sub_zero\<lparr>es_id := i\<rparr>
                in if \<not> cond_ok
                   then (eb\<lparr>eb_next_sub_id := i, eb_subscribers := (eb_subscribers eb)[slot := sub]\<rparr>, -1)
                   else (eb\<lparr>eb_next_sub_id := i,
                            eb_subscribers := (eb_subscribers eb)[slot := sub\<lparr>es_active := True\<rparr>],
                            eb_n_subscribers := eb_n_subscribers eb + 1\<rparr>, i)))"

definition find_sub :: "event_bus \<Rightarrow> int \<Rightarrow> nat option" where
  "find_sub eb sub_id = find_idx (\<lambda>s. es_active s \<and> es_id s = sub_id) (eb_subscribers eb)"

definition event_bus_unsubscribe :: "event_bus \<Rightarrow> int \<Rightarrow> event_bus" where
  "event_bus_unsubscribe eb sub_id =
     (if sub_id \<le> 0 then eb
      else case find_sub eb sub_id of
             None \<Rightarrow> eb
           | Some i \<Rightarrow> eb\<lparr>eb_subscribers := (eb_subscribers eb)[i := (eb_subscribers eb ! i)\<lparr>es_active := False\<rparr>],
                         eb_n_subscribers := eb_n_subscribers eb - 1\<rparr>)"

section \<open>Receiving\<close>

datatype pop_result = PopError | PopTimeout | PopItem event_item | PopWait nat

text \<open>After the loop: the oldest item of slot \<open>i\<close>.\<close>

definition pop_take :: "event_bus \<Rightarrow> nat \<Rightarrow> event_bus \<times> pop_result" where
  "pop_take eb i =
     (let sub = eb_subscribers eb ! i
      in if \<not> es_active sub \<or> eb_destroyed eb then (eb, PopError)
         else (eb\<lparr>eb_subscribers := (eb_subscribers eb)[i :=
                   sub\<lparr>es_head := (es_head sub + 1) mod EVENT_QUEUE_CAPACITY, es_count := es_count sub - 1\<rparr>]\<rparr>,
               PopItem (es_queue sub ! es_head sub)))"

text \<open>The test of the loop and its body up to the wait.\<close>

definition pop_loop :: "event_bus \<Rightarrow> nat \<Rightarrow> int \<Rightarrow> event_bus \<times> pop_result" where
  "pop_loop eb i timeout_ms =
     (let sub = eb_subscribers eb ! i
      in if es_count sub = 0 then
           (if eb_destroyed eb \<or> \<not> es_active sub then (eb, PopError)
            else if timeout_ms \<le> 0 then (eb, PopTimeout)
            else (eb, PopWait i))
         else pop_take eb i)"

definition event_bus_pop :: "event_bus \<Rightarrow> int \<Rightarrow> int \<Rightarrow> event_bus \<times> pop_result" where
  "event_bus_pop eb sub_id timeout_ms =
     (if sub_id \<le> 0 then (eb, PopError)
      else case find_sub eb sub_id of
             None \<Rightarrow> (eb, PopError)
           | Some i \<Rightarrow> if eb_destroyed eb then (eb, PopError) else pop_loop eb i timeout_ms)"

text \<open>The wake-up of a pop that waits on slot \<open>i\<close>.\<close>

definition event_bus_pop_wake :: "event_bus \<Rightarrow> nat \<Rightarrow> int \<Rightarrow> bool \<Rightarrow> event_bus \<times> pop_result" where
  "event_bus_pop_wake eb i timeout_ms timed_out =
     (if timed_out \<and> es_count (eb_subscribers eb ! i) = 0 then (eb, PopTimeout)
      else pop_loop eb i timeout_ms)"

section \<open>Publishing\<close>

definition sub_push :: "event_item \<Rightarrow> event_sub \<Rightarrow> event_sub" where
  "sub_push item sub =
     (if \<not> es_active sub then sub
      else let s1 = (if es_count sub = EVENT_QUEUE_CAPACITY
                     then sub\<lparr>es_head := (es_head sub + 1) mod EVENT_QUEUE_CAPACITY,
                              es_count := es_count sub - 1, es_dropped_count := es_dropped_count sub + 1\<rparr>
                     else sub)
           in s1\<lparr>es_queue := (es_queue s1)[es_tail s1 := item],
                 es_tail := (es_tail s1 + 1) mod EVENT_QUEUE_CAPACITY, es_count := es_count s1 + 1\<rparr>)"

definition make_item :: "event_type \<Rightarrow> string option \<Rightarrow> string option \<Rightarrow> int \<Rightarrow> event_item" where
  "make_item ty event_name json_payload now =
     \<lparr>ei_type = ty, ei_event_name = cstr_copy 32 (cstr_or_empty event_name),
      ei_payload = cstr_copy EVENT_MAX_PAYLOAD (case json_payload of None \<Rightarrow> ''{}'' | Some p \<Rightarrow> p), ei_ts = now\<rparr>"

definition event_bus_publish ::
  "event_bus \<Rightarrow> event_type \<Rightarrow> string option \<Rightarrow> string option \<Rightarrow> int \<Rightarrow> event_bus \<times> int" where
  "event_bus_publish eb ty event_name json_payload now =
     (if eb_destroyed eb then (eb, -1)
      else (eb\<lparr>eb_subscribers := map (sub_push (make_item ty event_name json_payload now)) (eb_subscribers eb)\<rparr>, 0))"

section \<open>Payloads\<close>

text \<open>The escaping loop: \<open>out\<close> is what has been written.\<close>

fun json_escape_from :: "nat \<Rightarrow> string \<Rightarrow> string \<Rightarrow> string" where
  "json_escape_from cap out [] = out"
| "json_escape_from cap out (c # cs) =
     (if length out + 2 < cap then
        (if c = CHR 0x22 \<or> c = CHR 0x5C then json_escape_from cap (out @ [CHR 0x5C, c]) cs
         else if (of_char c :: nat) < 32 then json_escape_from cap (out @ '' '') cs
         else json_escape_from cap (out @ [c]) cs)
      else out)"

text \<open>\<open>cap\<close> is the size of the buffer, at least 1.\<close>

definition json_escape_str :: "string option \<Rightarrow> nat \<Rightarrow> string" where
  "json_escape_str inp cap = (case inp of None \<Rightarrow> [] | Some s \<Rightarrow> json_escape_from cap [] s)"

text \<open>\<open>"name":\<close> and \<open>"name":"text"\<close>\<close>

definition jkey :: "string \<Rightarrow> string" where
  "jkey k = CHR 0x22 # k @ [CHR 0x22, CHR '':'']"

definition jtext :: "string \<Rightarrow> string \<Rightarrow> string" where
  "jtext k v = jkey k @ CHR 0x22 # v @ [CHR 0x22]"

definition event_bus_publish_request ::
  "event_bus \<Rightarrow> int \<Rightarrow> string option \<Rightarrow> string option \<Rightarrow> int \<Rightarrow> nat \<Rightarrow> int \<Rightarrow> int \<Rightarrow> real \<Rightarrow> string option \<Rightarrow>
   int \<Rightarrow> event_bus" where
  "event_bus_publish_request eb key_id model provider status latency_ns prompt_tokens completion_tokens cost
     guardrail_act now =
     (let safe_model = json_escape_str model 128; safe_provider = json_escape_str provider 64;
          safe_gr = json_escape_str guardrail_act 32;
          lat_ms = int (latency_ns div 1000000);
          buf = cstr_copy EVENT_MAX_PAYLOAD
            (CHR ''{'' # jkey ''ts'' @ int_str now @ '','' @ jkey ''key_id'' @ int_str key_id @ '','' @
             jtext ''model'' safe_model @ '','' @ jtext ''provider'' safe_provider @ '','' @
             jkey ''status'' @ int_str status @ '','' @ jkey ''latency_ms'' @ int_str lat_ms @ '','' @
             jkey ''prompt_tokens'' @ int_str prompt_tokens @ '','' @
             jkey ''completion_tokens'' @ int_str completion_tokens @ '','' @
             jkey ''cost'' @ fixed_str 6 cost @ '','' @ jtext ''guardrail'' safe_gr @ '','' @
             jkey ''cached'' @ (if safe_provider = ''cache'' then ''true'' else ''false'') @ ''}'')
      in fst (event_bus_publish eb EVENT_REQUEST (Some ''request'') (Some buf) now))"

definition event_bus_publish_cb ::
  "event_bus \<Rightarrow> string option \<Rightarrow> string option \<Rightarrow> string option \<Rightarrow> string option \<Rightarrow> string option \<Rightarrow> int \<Rightarrow> event_bus" where
  "event_bus_publish_cb eb provider model old_state new_state reason now =
     (let buf = cstr_copy EVENT_MAX_PAYLOAD
            (CHR ''{'' # jkey ''ts'' @ int_str now @ '','' @ jtext ''provider'' (json_escape_str provider 64) @ '','' @
             jtext ''model'' (json_escape_str model 128) @ '','' @
             jtext ''old_state'' (cstr_or_empty old_state) @ '','' @
             jtext ''new_state'' (cstr_or_empty new_state) @ '','' @
             jtext ''reason'' (json_escape_str reason 256) @ ''}'')
      in fst (event_bus_publish eb EVENT_CIRCUIT_BREAKER (Some ''circuit_breaker'') (Some buf) now))"

definition event_bus_publish_health ::
  "event_bus \<Rightarrow> string option \<Rightarrow> string option \<Rightarrow> int \<Rightarrow> int \<Rightarrow> string option \<Rightarrow> int \<Rightarrow> event_bus" where
  "event_bus_publish_health eb provider status latency_ms http_status err now =
     (let buf = cstr_copy EVENT_MAX_PAYLOAD
            (CHR ''{'' # jkey ''ts'' @ int_str now @ '','' @ jtext ''provider'' (json_escape_str provider 64) @ '','' @
             jtext ''status'' (case status of None \<Rightarrow> ''UNKNOWN'' | Some s \<Rightarrow> s) @ '','' @
             jkey ''latency_ms'' @ int_str latency_ms @ '','' @
             jkey ''http_status'' @ int_str http_status @ '','' @
             jtext ''error'' (json_escape_str err 256) @ ''}'')
      in fst (event_bus_publish eb EVENT_HEALTH_PROBE (Some ''health_probe'') (Some buf) now))"

definition event_bus_publish_budget ::
  "event_bus \<Rightarrow> string option \<Rightarrow> int \<Rightarrow> string option \<Rightarrow> real \<Rightarrow> real \<Rightarrow> real \<Rightarrow> int \<Rightarrow> event_bus" where
  "event_bus_publish_budget eb ty i name percent current_usd budget_usd now =
     (let buf = cstr_copy EVENT_MAX_PAYLOAD
            (CHR ''{'' # jkey ''ts'' @ int_str now @ '','' @ jtext ''type'' (json_escape_str ty 32) @ '','' @
             jkey ''id'' @ int_str i @ '','' @ jtext ''name'' (json_escape_str name 128) @ '','' @
             jkey ''percent'' @ fixed_str 1 percent @ '','' @
             jkey ''current_usd'' @ fixed_str 4 current_usd @ '','' @
             jkey ''budget_usd'' @ fixed_str 4 budget_usd @ ''}'')
      in fst (event_bus_publish eb EVENT_BUDGET_ALERT (Some ''budget_alert'') (Some buf) now))"

definition event_bus_publish_ping :: "event_bus \<Rightarrow> int \<Rightarrow> event_bus" where
  "event_bus_publish_ping eb now =
     (let buf = cstr_copy 64 (CHR ''{'' # jkey ''ts'' @ int_str now @ ''}'')
      in fst (event_bus_publish eb EVENT_PING (Some ''ping'') (Some buf) now))"

end
