(* ===== verification/Slot_Table.thy ===== *)
theory Slot_Table
  imports Prelude
begin

text \<open>
  Arrays of slots with an active flag and a key, as the sources keep subscribers, pairing slots and
  concurrency counters: a slot is found as the first active one with the key, a new key takes the
  first slot that is free. As long as active keys are distinct, such an array is a map.
\<close>

definition st_find :: "('s \<Rightarrow> bool) \<Rightarrow> ('s \<Rightarrow> 'k) \<Rightarrow> 's list \<Rightarrow> 'k \<Rightarrow> nat option" where
  "st_find act key xs k = find_idx (\<lambda>s. act s \<and> key s = k) xs"

definition st_free_slot :: "('s \<Rightarrow> bool) \<Rightarrow> 's list \<Rightarrow> nat option" where
  "st_free_slot act xs = find_idx (\<lambda>s. \<not> act s) xs"

definition st_view :: "('s \<Rightarrow> bool) \<Rightarrow> ('s \<Rightarrow> 'k) \<Rightarrow> 's list \<Rightarrow> 'k \<Rightarrow> 's option" where
  "st_view act key xs k = map_option ((!) xs) (st_find act key xs k)"

definition st_ok :: "('s \<Rightarrow> bool) \<Rightarrow> ('s \<Rightarrow> 'k) \<Rightarrow> 's list \<Rightarrow> bool" where
  "st_ok act key xs \<longleftrightarrow> distinct (map key (filter act xs))"

definition st_count :: "('s \<Rightarrow> bool) \<Rightarrow> 's list \<Rightarrow> nat" where
  "st_count act xs = length (filter act xs)"

lemma find_idx_split:
  assumes "find_idx P xs = Some k"
  obtains a x b where "xs = a @ x # b" "length a = k" "P x" "xs ! k = x" "\<And>y. xs[k := y] = a @ y # b"
  using find_idx_in_range [OF assms] find_idx_holds [OF assms]
    that [of "take k xs" "xs ! k" "drop (Suc k) xs"]
  by (simp add: id_take_nth_drop [symmetric] upd_conv_take_nth_drop)

lemma st_findD:
  "st_find act key xs k = Some i \<Longrightarrow> i < length xs \<and> act (xs ! i) \<and> key (xs ! i) = k"
  unfolding st_find_def by (auto dest: find_idx_in_range find_idx_holds)

lemma st_find_iff: "st_view act key xs k = None \<longleftrightarrow> st_find act key xs k = None"
  by (simp add: st_view_def)

lemma st_view_found: "st_find act key xs k = Some i \<Longrightarrow> st_view act key xs k = Some (xs ! i)"
  by (simp add: st_view_def)

lemma st_view_key: "st_view act key xs k = Some s \<Longrightarrow> act s \<and> key s = k \<and> s \<in> set xs"
  unfolding st_view_def by (auto dest: st_findD)

text \<open>The view through the set of slots.\<close>

lemma st_view_iff:
  assumes "st_ok act key xs"
  shows "st_view act key xs k = Some s \<longleftrightarrow> s \<in> set xs \<and> act s \<and> key s = k"
proof (cases "st_find act key xs k")
  case None
  then have "find_idx (\<lambda>s. act s \<and> key s = k) xs = None" by (simp add: st_find_def)
  then have "\<forall>s \<in> set xs. \<not> (act s \<and> key s = k)" by (simp only: find_idx_None)
  moreover have "st_view act key xs k = None" by (simp add: st_view_def None)
  ultimately show ?thesis by auto
next
  case (Some i)
  note d = st_findD [OF Some]
  have "inj_on key (set (filter act xs))" using assms by (simp add: st_ok_def distinct_map)
  then have "s = xs ! i" if "s \<in> set xs" "act s" "key s = k" for s
    using that d by (auto simp: inj_on_def)
  with d show ?thesis by (auto simp: st_view_def Some)
qed

lemma option_eq_iff: "(\<And>q. a = Some q \<longleftrightarrow> b = Some q) \<Longrightarrow> a = b"
  by (cases a; cases b) auto

lemma map_eq_iff: "(\<And>k s. f k = Some s \<longleftrightarrow> g k = Some s) \<Longrightarrow> f = g"
  by (rule ext, rule option_eq_iff) blast

lemma st_view_none_iff:
  assumes "st_ok act key xs"
  shows "st_view act key xs k = None \<longleftrightarrow> (\<forall>s \<in> set xs. act s \<longrightarrow> key s \<noteq> k)"
  using st_view_iff [OF assms] by (metis not_None_eq)

lemma st_ok_Cons:
  "st_ok act key (a @ y # b) \<longleftrightarrow> st_ok act key (a @ b) \<and>
     (act y \<longrightarrow> (\<forall>s \<in> set (a @ b). act s \<longrightarrow> key s \<noteq> key y))"
  unfolding st_ok_def by (auto simp: image_iff)

lemma st_split_view:
  assumes "st_ok act key (a @ y # b)"
  shows "st_view act key (a @ y # b) =
    (if act y then (st_view act key (a @ b))(key y \<mapsto> y) else st_view act key (a @ b))"
proof (rule map_eq_iff)
  fix k s
  have ab: "st_ok act key (a @ b)" and ne: "act y \<Longrightarrow> t \<in> set (a @ b) \<Longrightarrow> act t \<Longrightarrow> key t \<noteq> key y" for t
    using assms by (auto simp: st_ok_Cons)
  show "st_view act key (a @ y # b) k = Some s \<longleftrightarrow>
      (if act y then (st_view act key (a @ b))(key y \<mapsto> y) else st_view act key (a @ b)) k = Some s"
    unfolding st_view_iff [OF assms] using st_view_iff [OF ab, of k s] ne [of s]
    by (cases "act y") auto
qed

text \<open>Changing a slot in place.\<close>

lemma st_update:
  assumes "st_ok act key xs" "st_find act key xs k = Some i" "act y" "key y = k"
  shows "st_ok act key (xs[i := y]) \<and> st_view act key (xs[i := y]) = (st_view act key xs)(k \<mapsto> y) \<and>
    st_count act (xs[i := y]) = st_count act xs"
proof -
  from assms(2) obtain a x b where x: "xs = a @ x # b" "act x \<and> key x = k" "xs[i := y] = a @ y # b"
    unfolding st_find_def by (rule find_idx_split) blast
  have ok': "st_ok act key (a @ y # b)" using assms x by (simp add: st_ok_Cons)
  show ?thesis
    using st_split_view [OF ok'] st_split_view [of act key a x b] assms x ok'
    by (simp add: st_count_def)
qed

text \<open>Giving a slot back.\<close>

lemma st_release:
  assumes "st_ok act key xs" "st_find act key xs k = Some i" "\<not> act y"
  shows "st_ok act key (xs[i := y]) \<and> st_view act key (xs[i := y]) = (st_view act key xs)(k := None) \<and>
    Suc (st_count act (xs[i := y])) = st_count act xs"
proof -
  from assms(2) obtain a x b where x: "xs = a @ x # b" "act x \<and> key x = k" "xs[i := y] = a @ y # b"
    unfolding st_find_def by (rule find_idx_split) blast
  have ok': "st_ok act key (a @ y # b)" and ab: "st_ok act key (a @ b)"
    using assms x by (simp_all add: st_ok_Cons)
  have "st_view act key (a @ b) k = None" using assms(1) x ab by (simp add: st_view_none_iff st_ok_Cons)
  then show ?thesis
    using st_split_view [OF ok'] st_split_view [of act key a x b] assms x ok'
    by (auto simp: st_count_def)
qed

text \<open>Taking a free slot for a new key.\<close>

lemma st_alloc:
  assumes "st_ok act key xs" "st_free_slot act xs = Some i" "act y" "st_view act key xs (key y) = None"
  shows "st_ok act key (xs[i := y]) \<and> st_view act key (xs[i := y]) = (st_view act key xs)(key y \<mapsto> y) \<and>
    st_count act (xs[i := y]) = Suc (st_count act xs)"
proof -
  from assms(2) obtain a x b where x: "xs = a @ x # b" "\<not> act x" "xs[i := y] = a @ y # b"
    unfolding st_free_slot_def by (rule find_idx_split) blast
  have v: "st_view act key xs = st_view act key (a @ b)"
    using st_split_view [of act key a x b] assms(1) x by simp
  have ab: "st_ok act key (a @ b)" using assms(1) x by (simp add: st_ok_Cons)
  have "st_ok act key (a @ y # b)"
    using assms(4) ab unfolding v st_view_none_iff [OF ab] by (auto simp: st_ok_Cons)
  with st_split_view [OF this] v x assms(3) show ?thesis by (simp add: st_count_def)
qed

text \<open>The slot of an active key is the one that is found.\<close>

lemma find_idx_first: "\<forall>x \<in> set a. \<not> P x \<Longrightarrow> P y \<Longrightarrow> find_idx P (a @ y # b) = Some (length a)"
  by (induction a) auto

lemma st_find_unique:
  assumes "st_ok act key xs" "i < length xs" "act (xs ! i)" "key (xs ! i) = k"
  shows "st_find act key xs k = Some i"
proof -
  have x: "xs = take i xs @ xs ! i # drop (Suc i) xs" using assms(2) by (simp add: id_take_nth_drop)
  from assms(1,3,4) have "\<forall>s \<in> set (take i xs). \<not> (act s \<and> key s = k)"
    by (subst (asm) x) (auto simp: st_ok_Cons)
  from find_idx_first [OF this, of "xs ! i" "drop (Suc i) xs"] assms(2-4) x show ?thesis
    by (simp add: st_find_def)
qed

lemma st_full: "st_free_slot act xs = None \<longleftrightarrow> st_count act xs = length xs"
proof -
  have "st_count act xs = length xs \<longleftrightarrow> (\<forall>s \<in> set xs. act s)"
    unfolding st_count_def by (metis filter_id_conv length_filter_less less_irrefl)
  then show ?thesis by (auto simp: st_free_slot_def find_idx_None)
qed

lemma st_count_le: "st_count act xs \<le> length xs"
  by (simp add: st_count_def)

end
