(* ===== verification/Event_Props.thy ===== *)
theory Event_Props
  imports Event_Bus Slot_Table
begin

text \<open>
  The event bus as a map from subscriber ids to queues of at most 64 events, the escaping of
  payload texts, and what a waiting pop may receive.
\<close>

section \<open>Invariant\<close>

definition sub_ok :: "event_sub \<Rightarrow> bool" where
  "sub_ok s \<longleftrightarrow>
     length (es_queue s) = EVENT_QUEUE_CAPACITY \<and> es_head s < EVENT_QUEUE_CAPACITY \<and>
     es_count s \<le> EVENT_QUEUE_CAPACITY \<and> es_tail s = (es_head s + es_count s) mod EVENT_QUEUE_CAPACITY"

definition bus_ok :: "event_bus \<Rightarrow> bool" where
  "bus_ok eb \<longleftrightarrow>
     length (eb_subscribers eb) = MAX_EVENT_SUBSCRIBERS \<and> list_all sub_ok (eb_subscribers eb) \<and>
     eb_n_subscribers eb = int (length (filter es_active (eb_subscribers eb))) \<and>
     (\<forall>s \<in> set (eb_subscribers eb). es_active s \<longrightarrow> 100 < es_id s \<and> es_id s \<le> eb_next_sub_id eb) \<and>
     distinct (map es_id (filter es_active (eb_subscribers eb))) \<and> 100 \<le> eb_next_sub_id eb"

definition sub_items :: "event_sub \<Rightarrow> event_item list" where
  "sub_items s = queue_contents (es_queue s) (es_head s) (es_count s)"

definition bus_view :: "event_bus \<Rightarrow> int \<Rightarrow> event_item list option" where
  "bus_view eb i = map_option (\<lambda>k. sub_items (eb_subscribers eb ! k)) (find_sub eb i)"

lemma length_sub_items [simp]: "length (sub_items s) = es_count s"
  by (simp add: sub_items_def)

lemma sub_push_keeps [simp]: "es_active (sub_push it s) = es_active s" "es_id (sub_push it s) = es_id s"
  by (auto simp: sub_push_def Let_def)

text \<open>The queue operations on a well-formed subscriber.\<close>

lemma sub_push_ok:
  assumes "sub_ok s" "es_active s"
  shows "sub_ok (sub_push it s) \<and> sub_items (sub_push it s) = last_n EVENT_QUEUE_CAPACITY (sub_items s @ [it])"
proof (cases "es_count s = EVENT_QUEUE_CAPACITY")
  case False
  then have "es_count s < length (es_queue s)" using assms by (auto simp: sub_ok_def)
  from queue_push [OF this, of "es_head s" it] False assms show ?thesis
    by (auto simp: sub_push_def sub_ok_def sub_items_def mod_simps)
next
  case True
  define h where "h = (es_head s + 1) mod EVENT_QUEUE_CAPACITY"
  have l: "length (es_queue s) = EVENT_QUEUE_CAPACITY" "es_head s < EVENT_QUEUE_CAPACITY"
    using assms by (auto simp: sub_ok_def)
  have cap: "EVENT_QUEUE_CAPACITY = Suc 63" by (simp add: EVENT_QUEUE_CAPACITY_def)
  have tail: "es_tail s = (h + 63) mod EVENT_QUEUE_CAPACITY"
    using assms True cap by (simp add: sub_ok_def h_def mod_simps)
  have old: "sub_items s = es_queue s ! es_head s # queue_contents (es_queue s) h 63"
    using queue_pop [of "es_queue s" "es_head s" 63] l True cap by (simp add: sub_items_def h_def)
  have new: "queue_contents ((es_queue s)[es_tail s := it]) h 64 = queue_contents (es_queue s) h 63 @ [it]"
    using queue_push [of 63 "es_queue s" h it] l tail cap by simp
  have "last_n EVENT_QUEUE_CAPACITY (sub_items s @ [it]) = tl (sub_items s @ [it])"
    using last_n_full [of "sub_items s" it] True cap by (simp add: sub_items_def)
  then show ?thesis
    using assms True l new old tail cap
    by (simp add: sub_push_def Let_def sub_ok_def sub_items_def h_def mod_simps)
qed

lemma pop_take_ok:
  assumes "sub_ok (eb_subscribers eb ! i)" "es_active (eb_subscribers eb ! i)" "\<not> eb_destroyed eb"
    and "es_count (eb_subscribers eb ! i) \<noteq> 0"
  obtains x q s' where "pop_take eb i = (eb\<lparr>eb_subscribers := (eb_subscribers eb)[i := s']\<rparr>, PopItem x)"
    "sub_items (eb_subscribers eb ! i) = x # q" "sub_items s' = q" "sub_ok s'" "es_active s'"
    "es_id s' = es_id (eb_subscribers eb ! i)"
proof -
  let ?s = "eb_subscribers eb ! i"
  let ?s' = "?s\<lparr>es_head := (es_head ?s + 1) mod EVENT_QUEUE_CAPACITY, es_count := es_count ?s - 1\<rparr>"
  obtain n where n: "es_count ?s = Suc n" using assms(4) by (cases "es_count ?s") auto
  have l: "length (es_queue ?s) = EVENT_QUEUE_CAPACITY" "es_head ?s < EVENT_QUEUE_CAPACITY"
    using assms(1) by (auto simp: sub_ok_def)
  have items: "sub_items ?s = es_queue ?s ! es_head ?s # sub_items ?s'"
    using queue_pop [of "es_queue ?s" "es_head ?s" n] l n by (simp add: sub_items_def)
  show thesis
    by (rule that [where s' = ?s', OF _ items refl]) (use assms n l in \<open>simp_all add: pop_take_def Let_def sub_ok_def mod_simps\<close>)
qed

section \<open>The table\<close>

lemma find_idx_map: "find_idx P (map f xs) = find_idx (\<lambda>x. P (f x)) xs"
  by (induction xs) auto

lemma find_idx_pred:
  "(\<And>x. x \<in> set xs \<Longrightarrow> P x = Q x) \<Longrightarrow> find_idx P xs = find_idx Q xs"
  by (induction xs) auto

lemma find_sub_same:
  "map (\<lambda>s. (es_active s, es_id s)) (eb_subscribers a) = map (\<lambda>s. (es_active s, es_id s)) (eb_subscribers b) \<Longrightarrow>
   find_sub a i = find_sub b i"
proof -
  assume m: "map (\<lambda>s. (es_active s, es_id s)) (eb_subscribers a) = map (\<lambda>s. (es_active s, es_id s)) (eb_subscribers b)"
  have "find_sub x i = find_idx (\<lambda>(act, j). act \<and> j = i) (map (\<lambda>s. (es_active s, es_id s)) (eb_subscribers x))" for x
    by (simp add: find_sub_def find_idx_map)
  with m show ?thesis by simp
qed

lemma find_subD:
  "find_sub eb i = Some k \<Longrightarrow>
     k < length (eb_subscribers eb) \<and> es_active (eb_subscribers eb ! k) \<and> es_id (eb_subscribers eb ! k) = i"
  unfolding find_sub_def by (auto dest: find_idx_in_range find_idx_holds)

text \<open>Replacing a subscriber by one with the same id and state leaves the other queues alone.\<close>

lemma find_sub_update:
  assumes "k < length (eb_subscribers eb)" "es_active s' = es_active (eb_subscribers eb ! k)"
    "es_id s' = es_id (eb_subscribers eb ! k)"
  shows "find_sub (eb\<lparr>eb_subscribers := (eb_subscribers eb)[k := s']\<rparr>) i = find_sub eb i"
proof (rule find_sub_same)
  let ?f = "\<lambda>s. (es_active s, es_id s)"
  have "map ?f ((eb_subscribers eb)[k := s']) = (map ?f (eb_subscribers eb))[k := ?f s']" by (rule map_update)
  also have "?f s' = map ?f (eb_subscribers eb) ! k" using assms by simp
  finally show "map ?f (eb_subscribers (eb\<lparr>eb_subscribers := (eb_subscribers eb)[k := s']\<rparr>)) =
      map ?f (eb_subscribers eb)"
    by (simp only: list_update_id) simp
qed

lemma filter_update_same:
  assumes "k < length xs" "P x = P (xs ! k)"
  shows "map f (filter P (xs[k := x])) =
    (if P x \<and> f x \<noteq> f (xs ! k) then map f (filter P (take k xs)) @ f x # map f (filter P (drop (Suc k) xs))
     else map f (filter P xs))"
proof -
  have e: "xs = take k xs @ xs ! k # drop (Suc k) xs" using assms(1) by (simp add: id_take_nth_drop)
  have u: "xs[k := x] = take k xs @ x # drop (Suc k) xs" using assms(1) by (simp add: upd_conv_take_nth_drop)
  show ?thesis using assms(2) by (subst e, subst u) simp
qed

lemma bus_ok_update:
  assumes "bus_ok eb" "k < length (eb_subscribers eb)" "es_active s' = es_active (eb_subscribers eb ! k)"
    "es_id s' = es_id (eb_subscribers eb ! k)" "sub_ok s'"
  shows "bus_ok (eb\<lparr>eb_subscribers := (eb_subscribers eb)[k := s']\<rparr>)"
proof -
  note f = filter_update_same [OF assms(2), where P = es_active and x = s' and f = es_id, OF assms(3)]
  from arg_cong [OF f, of length] have "length (filter es_active ((eb_subscribers eb)[k := s'])) =
      length (filter es_active (eb_subscribers eb))"
    using assms(4) by simp
  moreover have "100 < es_id s \<and> es_id s \<le> eb_next_sub_id eb"
    if "s \<in> set ((eb_subscribers eb)[k := s'])" "es_active s" for s
    using that assms set_update_subset_insert [of "eb_subscribers eb" k s'] by (auto simp: bus_ok_def)
  moreover have "list_all sub_ok ((eb_subscribers eb)[k := s'])"
    using assms set_update_subset_insert [of "eb_subscribers eb" k s'] by (auto simp: bus_ok_def list_all_iff)
  ultimately show ?thesis using assms(1,4) f by (simp add: bus_ok_def)
qed

lemma bus_ok_nth: "bus_ok eb \<Longrightarrow> k < length (eb_subscribers eb) \<Longrightarrow> sub_ok (eb_subscribers eb ! k)"
  by (simp add: bus_ok_def list_all_length)

lemma find_sub_unique:
  assumes "bus_ok eb" "find_sub eb i = Some k" "find_sub eb j = Some k"
  shows "i = j"
  using find_subD [OF assms(2)] find_subD [OF assms(3)] by simp

lemma find_sub_id:
  assumes "bus_ok eb" "find_sub eb i = Some k"
  shows "100 < i" "i \<le> eb_next_sub_id eb"
proof -
  note d = find_subD [OF assms(2)]
  then have "eb_subscribers eb ! k \<in> set (eb_subscribers eb)" by (intro nth_mem) simp
  with assms(1) d show "100 < i" "i \<le> eb_next_sub_id eb" by (auto simp: bus_ok_def)
qed

lemma distinct_active_nth:
  assumes "distinct (map f (filter P xs))" "i < length xs" "j < length xs" "i \<noteq> j" "P (xs ! i)" "P (xs ! j)"
  shows "f (xs ! i) \<noteq> f (xs ! j)"
  using assms
proof (induction xs arbitrary: i j)
  case (Cons x xs)
  have m: "f (xs ! k) \<in> f ` set (filter P xs)" if "k < length xs" "P (xs ! k)" for k using that by auto
  show ?case
  proof (cases i)
    case 0
    with Cons.prems m [of "j - 1"] show ?thesis by (cases j) auto
  next
    case (Suc i')
    show ?thesis
    proof (cases j)
      case 0
      with Cons.prems Suc have "f (xs ! i') \<in> f ` set (filter P xs)" "f x \<notin> f ` set (filter P xs)" by (auto intro!: m)
      with Suc 0 show ?thesis by auto
    next
      case (Suc j')
      with Cons.IH [of i' j'] Cons.prems \<open>i = Suc i'\<close> show ?thesis by (cases "P x") auto
    qed
  qed
qed simp

section \<open>The operations on the view\<close>

lemma publish_view:
  assumes "bus_ok eb" "\<not> eb_destroyed eb"
    and "event_bus_publish eb ty nm pl now = (eb', r)"
  shows "r = 0 \<and> bus_ok eb' \<and> \<not> eb_destroyed eb' \<and> eb_next_sub_id eb' = eb_next_sub_id eb \<and>
    eb_n_subscribers eb' = eb_n_subscribers eb \<and>
    bus_view eb' = (\<lambda>i. map_option (\<lambda>q. last_n EVENT_QUEUE_CAPACITY (q @ [make_item ty nm pl now])) (bus_view eb i))"
proof -
  let ?f = "sub_push (make_item ty nm pl now)"
  have eb': "eb' = eb\<lparr>eb_subscribers := map ?f (eb_subscribers eb)\<rparr>" and r: "r = 0"
    using assms(2,3) by (auto simp: event_bus_publish_def)
  have find: "find_sub eb' i = find_sub eb i" for i
    by (simp add: find_sub_def eb' find_idx_map)
  have ok: "sub_ok (?f s)" if "s \<in> set (eb_subscribers eb)" for s
    using that assms(1) sub_push_ok [of s] by (cases "es_active s") (auto simp: bus_ok_def list_all_iff sub_push_def)
  have fl: "filter es_active (map ?f xs) = map ?f (filter es_active xs)" for xs
    by (induction xs) auto
  have "bus_ok eb'"
    using assms(1) ok by (auto simp: bus_ok_def eb' list_all_iff fl o_def)
  moreover have "bus_view eb' i =
      map_option (\<lambda>q. last_n EVENT_QUEUE_CAPACITY (q @ [make_item ty nm pl now])) (bus_view eb i)" for i
  proof (cases "find_sub eb i")
    case (Some k)
    note d = find_subD [OF Some]
    show ?thesis
      using d sub_push_ok [OF bus_ok_nth [OF assms(1)]] by (simp add: bus_view_def find Some) (simp add: eb')
  qed (simp add: bus_view_def find)
  ultimately show ?thesis using r assms(2) by (auto simp: eb')
qed

lemma pop_view:
  assumes "bus_ok eb" "\<not> eb_destroyed eb" "event_bus_pop eb i 0 = (eb', r)"
  shows "bus_ok eb' \<and> \<not> eb_destroyed eb' \<and> eb_next_sub_id eb' = eb_next_sub_id eb \<and>
    eb_n_subscribers eb' = eb_n_subscribers eb \<and>
    (case bus_view eb i of
       None \<Rightarrow> r = PopError \<and> bus_view eb' = bus_view eb
     | Some [] \<Rightarrow> r = PopTimeout \<and> bus_view eb' = bus_view eb
     | Some (x # q) \<Rightarrow> r = PopItem x \<and> bus_view eb' = (bus_view eb)(i \<mapsto> q))"
proof (cases "find_sub eb i")
  case None
  then show ?thesis using assms by (auto simp: event_bus_pop_def bus_view_def split: if_splits)
next
  case (Some k)
  note d = find_subD [OF Some]
  have pos: "0 < i" using find_sub_id(1) [OF assms(1) Some] by simp
  note ok = bus_ok_nth [OF assms(1) conjunct1 [OF d]]
  show ?thesis
  proof (cases "es_count (eb_subscribers eb ! k) = 0")
    case True
    then show ?thesis
      using assms pos Some d by (auto simp: event_bus_pop_def pop_loop_def Let_def bus_view_def sub_items_def)
  next
    case False
    then obtain x q s' where t: "pop_take eb k = (eb\<lparr>eb_subscribers := (eb_subscribers eb)[k := s']\<rparr>, PopItem x)"
        "sub_items (eb_subscribers eb ! k) = x # q" "sub_items s' = q" "sub_ok s'" "es_active s'"
        "es_id s' = es_id (eb_subscribers eb ! k)"
      using pop_take_ok [OF ok _ assms(2)] d by blast
    have e: "eb' = eb\<lparr>eb_subscribers := (eb_subscribers eb)[k := s']\<rparr>" "r = PopItem x"
      using assms(2,3) pos Some False t(1) by (auto simp: event_bus_pop_def pop_loop_def Let_def)
    have find: "find_sub eb' j = find_sub eb j" for j
      unfolding e using d t by (intro find_sub_update) auto
    have "bus_view eb' j = ((bus_view eb)(i \<mapsto> q)) j" for j
    proof (cases "find_sub eb j")
      case (Some l)
      then show ?thesis
        using find_sub_unique [OF assms(1), of j l i] \<open>find_sub eb i = Some k\<close> d t(3) find_subD [OF Some]
        by (cases "l = k") (auto simp: bus_view_def find e(1) [THEN arg_cong, of eb_subscribers])
    next
      case None
      then show ?thesis using \<open>find_sub eb i = Some k\<close> by (cases "j = i") (simp_all add: bus_view_def find)
    qed
    moreover have "bus_ok eb'" unfolding e using d t by (intro bus_ok_update [OF assms(1)]) auto
    ultimately show ?thesis using t(2) Some assms(2) e by (auto simp: bus_view_def)
  qed
qed

text \<open>The view through the set of subscribers.\<close>

lemma view_iff:
  assumes "bus_ok eb"
  shows "bus_view eb i = Some q \<longleftrightarrow>
    (\<exists>s \<in> set (eb_subscribers eb). es_active s \<and> es_id s = i \<and> sub_items s = q)"
proof (cases "find_sub eb i")
  case None
  then have "find_idx (\<lambda>s. es_active s \<and> es_id s = i) (eb_subscribers eb) = None" by (simp add: find_sub_def)
  then have "\<forall>s \<in> set (eb_subscribers eb). \<not> (es_active s \<and> es_id s = i)" by (simp only: find_idx_None)
  moreover have "bus_view eb i = None" by (simp add: bus_view_def None)
  ultimately show ?thesis by auto
next
  case (Some k)
  note d = find_subD [OF Some]
  have "inj_on es_id (set (filter es_active (eb_subscribers eb)))"
    using assms by (simp add: bus_ok_def distinct_map)
  then have "s = eb_subscribers eb ! k" if "s \<in> set (eb_subscribers eb)" "es_active s" "es_id s = i" for s
    using that d by (auto simp: inj_on_def)
  with d show ?thesis by (auto simp: bus_view_def Some)
qed

lemma sub_zero_ok: "sub_ok (sub_zero\<lparr>es_id := i, es_active := b\<rparr>) \<and> sub_items (sub_zero\<lparr>es_id := i, es_active := b\<rparr>) = []"
  by (simp add: sub_ok_def sub_zero_def sub_items_def EVENT_QUEUE_CAPACITY_def)

lemma bus_has_room:
  assumes "bus_ok eb" "\<not> eb_n_subscribers eb \<ge> 8"
  shows "\<exists>k. find_idx (\<lambda>s. \<not> es_active s) (eb_subscribers eb) = Some k"
proof (rule ccontr)
  assume "\<nexists>k. find_idx (\<lambda>s. \<not> es_active s) (eb_subscribers eb) = Some k"
  then have "\<forall>s \<in> set (eb_subscribers eb). es_active s"
    by (metis find_idx_None option.exhaust)
  then have "filter es_active (eb_subscribers eb) = eb_subscribers eb" by (simp add: filter_id_conv)
  with assms show False by (simp add: bus_ok_def MAX_EVENT_SUBSCRIBERS_def)
qed

lemma subscribe_view:
  assumes "bus_ok eb" "\<not> eb_destroyed eb" "event_bus_subscribe eb True = (eb', r)"
  shows "bus_ok eb' \<and> \<not> eb_destroyed eb' \<and>
    (if eb_n_subscribers eb \<ge> 8 then eb' = eb \<and> r = -1
     else r = eb_next_sub_id eb + 1 \<and> eb_next_sub_id eb' = r \<and> eb_n_subscribers eb' = eb_n_subscribers eb + 1 \<and>
          bus_view eb' = (bus_view eb)(r \<mapsto> []))"
proof (cases "eb_n_subscribers eb \<ge> 8")
  case True
  then show ?thesis using assms by (simp add: event_bus_subscribe_def MAX_EVENT_SUBSCRIBERS_def)
next
  case False
  obtain k where k: "find_idx (\<lambda>s. \<not> es_active s) (eb_subscribers eb) = Some k"
    using bus_has_room [OF assms(1)] False by auto
  then obtain a x b where x: "eb_subscribers eb = a @ x # b" "\<not> es_active x"
      "\<And>y. (eb_subscribers eb)[k := y] = a @ y # b"
    by (rule find_idx_split) blast
  define y where "y = sub_zero\<lparr>es_id := eb_next_sub_id eb + 1, es_active := True\<rparr>"
  have y: "sub_ok y" "sub_items y = []" "es_active y" "es_id y = eb_next_sub_id eb + 1"
    using sub_zero_ok by (auto simp: y_def)
  have e: "r = eb_next_sub_id eb + 1" "eb' = eb\<lparr>eb_next_sub_id := r, eb_subscribers := a @ y # b,
      eb_n_subscribers := eb_n_subscribers eb + 1\<rparr>"
    using assms(2,3) False k x(3) by (auto simp: event_bus_subscribe_def MAX_EVENT_SUBSCRIBERS_def y_def Let_def)
  have ok: "bus_ok eb'"
    using assms(1) x y by (fastforce simp: bus_ok_def e list_all_iff)
  have "bus_view eb' i = ((bus_view eb)(r \<mapsto> [])) i" for i
  proof (rule option_eq_iff)
    fix q
    have fresh: "es_id s \<noteq> r" if "s \<in> set a \<union> set b" "es_active s" for s
      using assms(1) x(1) that e(1) by (force simp: bus_ok_def)
    show "bus_view eb' i = Some q \<longleftrightarrow> ((bus_view eb)(r \<mapsto> [])) i = Some q"
      using view_iff [OF ok, of i q] view_iff [OF assms(1), of i q] x y e fresh by auto
  qed
  then show ?thesis using ok e assms(2) False by auto
qed

lemma unsubscribe_view:
  fixes i :: int
  assumes "bus_ok eb" "\<not> eb_destroyed eb"
  defines "eb' \<equiv> event_bus_unsubscribe eb i"
  shows "bus_ok eb' \<and> \<not> eb_destroyed eb' \<and> eb_next_sub_id eb' = eb_next_sub_id eb \<and>
    eb_n_subscribers eb' = eb_n_subscribers eb - (if bus_view eb i = None then 0 else 1) \<and>
    bus_view eb' = (bus_view eb)(i := None)"
proof (cases "find_sub eb i")
  case None
  then show ?thesis using assms by (auto simp: eb'_def event_bus_unsubscribe_def bus_view_def)
next
  case (Some k)
  note d = find_subD [OF Some]
  have pos: "0 < i" using find_sub_id(1) [OF assms(1) Some] by simp
  from Some obtain a x b where x: "eb_subscribers eb = a @ x # b" "es_active x" "es_id x = i"
      "eb_subscribers eb ! k = x" "\<And>y. (eb_subscribers eb)[k := y] = a @ y # b"
    unfolding find_sub_def by (rule find_idx_split) blast
  define y where "y = x\<lparr>es_active := False\<rparr>"
  have y: "\<not> es_active y" "sub_ok y" using assms(1) x(1) by (auto simp: y_def bus_ok_def sub_ok_def)
  have e: "eb' = eb\<lparr>eb_subscribers := a @ y # b, eb_n_subscribers := eb_n_subscribers eb - 1\<rparr>"
    using Some pos x(4,5) by (simp add: eb'_def event_bus_unsubscribe_def y_def)
  have ok: "bus_ok eb'"
    using assms(1) x y by (auto simp: bus_ok_def e list_all_iff)
  have "bus_view eb' j = ((bus_view eb)(i := None)) j" for j
  proof (rule option_eq_iff)
    fix q
    have other: "es_id s \<noteq> i" if "s \<in> set a \<union> set b" "es_active s" for s
    proof -
      have "distinct (map es_id (filter es_active (a @ x # b)))"
        using assms(1) unfolding bus_ok_def x(1) by blast
      with x(2,3) that show ?thesis by (auto simp: image_iff)
    qed
    show "bus_view eb' j = Some q \<longleftrightarrow> ((bus_view eb)(i := None)) j = Some q"
    proof -
      have L: "bus_view eb' j = Some q \<longleftrightarrow>
          (\<exists>s \<in> set a \<union> set b. es_active s \<and> es_id s = j \<and> sub_items s = q)"
        unfolding view_iff [OF ok] using y by (auto simp: e)
      have R: "bus_view eb j = Some q \<longleftrightarrow>
          (\<exists>s \<in> set a \<union> set b. es_active s \<and> es_id s = j \<and> sub_items s = q) \<or> (i = j \<and> sub_items x = q)"
        unfolding view_iff [OF assms(1)] using x by auto
      show ?thesis
      proof (cases "j = i")
        case True
        then show ?thesis using L other by auto
      qed (use L R in simp)
    qed
  qed
  moreover have "bus_view eb i \<noteq> None" by (simp add: bus_view_def Some)
  ultimately show ?thesis using ok e assms(2) by auto
qed

lemma event_bus_new_ok:
  "event_bus_new True True = Some eb \<Longrightarrow>
   bus_ok eb \<and> \<not> eb_destroyed eb \<and> bus_view eb = (\<lambda>_. None) \<and> eb_next_sub_id eb = 100 \<and> eb_n_subscribers eb = 0"
proof -
  assume "event_bus_new True True = Some eb"
  then have e: "eb = \<lparr>eb_subscribers = replicate 8 sub_zero, eb_n_subscribers = 0,
      eb_next_sub_id = 100, eb_destroyed = False\<rparr>"
    by (simp add: event_bus_new_def MAX_EVENT_SUBSCRIBERS_def)
  have z: "sub_ok sub_zero" "\<not> es_active sub_zero"
    by (simp_all add: sub_ok_def sub_zero_def EVENT_QUEUE_CAPACITY_def)
  have ok: "bus_ok eb" using z by (simp add: bus_ok_def e MAX_EVENT_SUBSCRIBERS_def list_all_iff)
  have "bus_view eb i = None" for i
    using view_iff [OF ok, of i] z by (cases "bus_view eb i") (auto simp: e)
  then show ?thesis using ok by (auto simp: e)
qed

text \<open>Failing to make the condition variable uses up an id.\<close>

lemma subscribe_failed_view:
  assumes "bus_ok eb" "\<not> eb_destroyed eb" "event_bus_subscribe eb False = (eb', r)"
  shows "bus_ok eb' \<and> \<not> eb_destroyed eb' \<and> r = -1 \<and> eb_n_subscribers eb' = eb_n_subscribers eb \<and>
    bus_view eb' = bus_view eb \<and>
    eb_next_sub_id eb' = eb_next_sub_id eb + (if eb_n_subscribers eb \<ge> 8 then 0 else 1)"
proof (cases "eb_n_subscribers eb \<ge> 8")
  case True
  then show ?thesis using assms by (simp add: event_bus_subscribe_def MAX_EVENT_SUBSCRIBERS_def)
next
  case False
  obtain k where k: "find_idx (\<lambda>s. \<not> es_active s) (eb_subscribers eb) = Some k"
    using bus_has_room [OF assms(1)] False by auto
  then obtain a x b where x: "eb_subscribers eb = a @ x # b" "\<not> es_active x"
      "\<And>y. (eb_subscribers eb)[k := y] = a @ y # b"
    by (rule find_idx_split) blast
  define y where "y = sub_zero\<lparr>es_id := eb_next_sub_id eb + 1\<rparr>"
  have y: "sub_ok y" "\<not> es_active y"
    by (simp_all add: y_def sub_ok_def sub_zero_def EVENT_QUEUE_CAPACITY_def)
  have e: "r = -1" "eb' = eb\<lparr>eb_next_sub_id := eb_next_sub_id eb + 1, eb_subscribers := a @ y # b\<rparr>"
    using assms(2,3) False k x(3) by (auto simp: event_bus_subscribe_def MAX_EVENT_SUBSCRIBERS_def y_def Let_def)
  have ok: "bus_ok eb'" using assms(1) x y by (fastforce simp: bus_ok_def e list_all_iff)
  have "bus_view eb' i = bus_view eb i" for i
  proof (rule option_eq_iff)
    show "bus_view eb' i = Some q \<longleftrightarrow> bus_view eb i = Some q" for q
      using view_iff [OF ok, of i q] view_iff [OF assms(1), of i q] x y e by auto
  qed
  then show ?thesis using ok e assms(2) False by auto
qed

text \<open>Where a subscription is kept.\<close>

lemma find_sub_iff:
  assumes "bus_ok eb"
  shows "find_sub eb i = Some k \<longleftrightarrow>
    k < length (eb_subscribers eb) \<and> es_active (eb_subscribers eb ! k) \<and> es_id (eb_subscribers eb ! k) = i"
proof
  assume r: "k < length (eb_subscribers eb) \<and> es_active (eb_subscribers eb ! k) \<and> es_id (eb_subscribers eb ! k) = i"
  let ?P = "\<lambda>s. es_active s \<and> es_id s = i"
  obtain l where l: "find_sub eb i = Some l"
    using r nth_mem [of k "eb_subscribers eb"] find_idx_None [of ?P "eb_subscribers eb"]
    by (cases "find_sub eb i") (auto simp: find_sub_def)
  note d = find_subD [OF l]
  have "l = k"
  proof (rule ccontr)
    assume "l \<noteq> k"
    moreover have "distinct (map es_id (filter es_active (eb_subscribers eb)))" using assms by (simp add: bus_ok_def)
    ultimately show False
      using distinct_active_nth [of es_id es_active "eb_subscribers eb" l k] r d by auto
  qed
  with l show "find_sub eb i = Some k" by simp
qed (rule find_subD)

lemma find_sub_subscribe:
  assumes "bus_ok eb" "bus_ok (fst (event_bus_subscribe eb ok))" "find_sub eb i = Some k"
  shows "find_sub (fst (event_bus_subscribe eb ok)) i = Some k"
proof -
  note d = find_subD [OF assms(3)]
  have "es_active (eb_subscribers eb ! k) \<Longrightarrow> find_idx (\<lambda>s. \<not> es_active s) (eb_subscribers eb) \<noteq> Some k"
    using find_idx_holds by fastforce
  then show ?thesis
    unfolding find_sub_iff [OF assms(2)]
    using d by (auto simp: event_bus_subscribe_def Let_def nth_list_update split: option.splits)
qed

lemma find_sub_unsubscribe:
  assumes "bus_ok eb" "bus_ok (event_bus_unsubscribe eb j)" "find_sub eb i = Some k" "j \<noteq> i"
  shows "find_sub (event_bus_unsubscribe eb j) i = Some k"
proof -
  note d = find_subD [OF assms(3)]
  have "find_sub eb j \<noteq> Some k" using d assms(4) find_subD by blast
  then show ?thesis
    unfolding find_sub_iff [OF assms(2)]
    using d by (auto simp: event_bus_unsubscribe_def nth_list_update split: option.splits)
qed

lemma find_sub_pop:
  assumes "bus_ok eb" "event_bus_pop eb i t = (eb', r)"
  shows "find_sub eb' j = find_sub eb j"
proof -
  have take: "find_sub (fst (pop_take eb k)) j = find_sub eb j" if "k < length (eb_subscribers eb)" for k
    using that by (auto simp: pop_take_def Let_def intro!: find_sub_update)
  have "fst (event_bus_pop eb i t) = eb \<or> (\<exists>k. find_sub eb i = Some k \<and> fst (event_bus_pop eb i t) = fst (pop_take eb k))"
    by (auto simp: event_bus_pop_def pop_loop_def Let_def split: option.split)
  then show ?thesis using take find_subD assms(2) by (metis fst_conv)
qed

text \<open>A pop that may wait: on an empty queue it does, otherwise the timeout plays no role.\<close>

lemma pop_wait_view:
  assumes "bus_ok eb" "\<not> eb_destroyed eb" "0 < t"
  shows "event_bus_pop eb i t =
    (if bus_view eb i = Some [] then (eb, PopWait (the (find_sub eb i))) else event_bus_pop eb i 0)"
proof (cases "find_sub eb i")
  case None
  then show ?thesis by (simp add: event_bus_pop_def bus_view_def)
next
  case (Some k)
  have "es_count (eb_subscribers eb ! k) = 0 \<longleftrightarrow> sub_items (eb_subscribers eb ! k) = []"
    by (metis length_0_conv length_sub_items)
  with Some find_subD [OF Some] find_sub_id(1) [OF assms(1) Some] assms(2,3) show ?thesis
    by (simp add: event_bus_pop_def pop_loop_def Let_def bus_view_def)
qed

text \<open>A wake-up of a pop whose subscription still has its slot.\<close>

lemma wake_view:
  assumes "bus_ok eb" "\<not> eb_destroyed eb" "0 < t" "find_sub eb i = Some k"
  shows "event_bus_pop_wake eb k t timed_out =
    (if timed_out \<and> bus_view eb i = Some [] then (eb, PopTimeout) else event_bus_pop eb i t)"
proof -
  have "es_count (eb_subscribers eb ! k) = 0 \<longleftrightarrow> sub_items (eb_subscribers eb ! k) = []"
    by (metis length_0_conv length_sub_items)
  with find_sub_id(1) [OF assms(1,4)] assms show ?thesis
    by (simp add: event_bus_pop_wake_def event_bus_pop_def bus_view_def)
qed

section \<open>The bus is a map of queues\<close>

text \<open>
  The steps of the threads that use the bus. A pop with a timeout may wait; it goes on with a wake-up, by
  an event, a timeout, or neither. The run keeps, for every subscription, the slot and the
  timeout of the pop that waits.
\<close>

datatype eb_op = EbSubscribe bool | EbUnsubscribe int
  | EbPublish event_type "string option" "string option" int | EbPop int int | EbWake int bool

datatype eb_reply = EbId int | EbDone | EbPublished int | EbPopped pop_result | EbWaiting

type_synonym bus_run = "event_bus \<times> (int \<Rightarrow> (nat \<times> int) option)"

text \<open>How a pop of subscription \<open>i\<close> goes on.\<close>

definition popped :: "int \<Rightarrow> int \<Rightarrow> (int \<Rightarrow> (nat \<times> int) option) \<Rightarrow> event_bus \<times> pop_result \<Rightarrow> bus_run \<times> eb_reply" where
  "popped i t w p =
     (case p of
        (eb, PopWait k) \<Rightarrow> ((eb, w(i \<mapsto> (k, t))), EbWaiting)
      | (eb, r) \<Rightarrow> ((eb, w(i := None)), EbPopped r))"

fun eb_do :: "bus_run \<Rightarrow> eb_op \<Rightarrow> bus_run \<times> eb_reply" where
  "eb_do (eb, w) (EbSubscribe cond_ok) = (case event_bus_subscribe eb cond_ok of (eb', i) \<Rightarrow> ((eb', w), EbId i))"
| "eb_do (eb, w) (EbUnsubscribe i) = ((event_bus_unsubscribe eb i, w), EbDone)"
| "eb_do (eb, w) (EbPublish ty nm pl now) =
     (case event_bus_publish eb ty nm pl now of (eb', r) \<Rightarrow> ((eb', w), EbPublished r))"
| "eb_do (eb, w) (EbPop i t) = popped i t w (event_bus_pop eb i t)"
| "eb_do (eb, w) (EbWake i timed_out) =
     (case w i of
        None \<Rightarrow> ((eb, w), EbDone)
      | Some (k, t) \<Rightarrow> popped i t w (event_bus_pop_wake eb k t timed_out))"

text \<open>
  A subscription belongs to one thread, as in the server: while its pop waits it neither pops again nor
  is it cancelled.
\<close>

fun call_ok :: "bus_run \<Rightarrow> eb_op \<Rightarrow> bool" where
  "call_ok (eb, w) (EbUnsubscribe i) \<longleftrightarrow> w i = None"
| "call_ok (eb, w) (EbPop i t) \<longleftrightarrow> w i = None"
| "call_ok (eb, w) (EbWake i timed_out) \<longleftrightarrow> w i \<noteq> None"
| "call_ok _ _ \<longleftrightarrow> True"

fun calls_ok :: "bus_run \<Rightarrow> eb_op list \<Rightarrow> bool" where
  "calls_ok s [] \<longleftrightarrow> True"
| "calls_ok s (x # xs) \<longleftrightarrow> call_ok s x \<and> calls_ok (fst (eb_do s x)) xs"

text \<open>The abstract bus: the queues of the subscribers, their number, the last id given out, and the
  timeouts of the pops that wait.\<close>

type_synonym abs_bus = "((int \<Rightarrow> event_item list option) \<times> int \<times> int) \<times> (int \<Rightarrow> int option)"

fun abs_pop :: "abs_bus \<Rightarrow> int \<Rightarrow> int \<Rightarrow> bool \<Rightarrow> abs_bus \<times> eb_reply" where
  "abs_pop ((m, n, l), w) i t timed_out =
     (case m i of
        None \<Rightarrow> (((m, n, l), w(i := None)), EbPopped PopError)
      | Some [] \<Rightarrow>
          if t \<le> 0 \<or> timed_out then (((m, n, l), w(i := None)), EbPopped PopTimeout)
          else (((m, n, l), w(i \<mapsto> t)), EbWaiting)
      | Some (x # q) \<Rightarrow> (((m(i \<mapsto> q), n, l), w(i := None)), EbPopped (PopItem x)))"

fun abs_do :: "abs_bus \<Rightarrow> eb_op \<Rightarrow> abs_bus \<times> eb_reply" where
  "abs_do ((m, n, l), w) (EbSubscribe cond_ok) =
     (if n \<ge> 8 then (((m, n, l), w), EbId (-1))
      else if cond_ok then (((m(l + 1 \<mapsto> []), n + 1, l + 1), w), EbId (l + 1))
      else (((m, n, l + 1), w), EbId (-1)))"
| "abs_do ((m, n, l), w) (EbUnsubscribe i) = (((m(i := None), n - (if m i = None then 0 else 1), l), w), EbDone)"
| "abs_do ((m, n, l), w) (EbPublish ty nm pl now) =
     (((\<lambda>i. map_option (\<lambda>q. last_n 64 (q @ [make_item ty nm pl now])) (m i), n, l), w), EbPublished 0)"
| "abs_do s (EbPop i t) = abs_pop s i t False"
| "abs_do (s, w) (EbWake i timed_out) =
     (case w i of None \<Rightarrow> ((s, w), EbDone) | Some t \<Rightarrow> abs_pop (s, w) i t timed_out)"

fun run_ops :: "('s \<Rightarrow> 'o \<Rightarrow> 's \<times> 'r) \<Rightarrow> 's \<Rightarrow> 'o list \<Rightarrow> 's \<times> 'r list" where
  "run_ops f s [] = (s, [])"
| "run_ops f s (x # xs) = (case f s x of (s1, r) \<Rightarrow> case run_ops f s1 xs of (s2, rs) \<Rightarrow> (s2, r # rs))"

definition bus_abs :: "bus_run \<Rightarrow> abs_bus" where
  "bus_abs s = (case s of (eb, w) \<Rightarrow>
     ((bus_view eb, eb_n_subscribers eb, eb_next_sub_id eb), \<lambda>i. map_option snd (w i)))"

text \<open>The bus is sound, and a waiting pop waits on the slot of its subscription.\<close>

definition run_ok :: "bus_run \<Rightarrow> bool" where
  "run_ok s \<longleftrightarrow> (case s of (eb, w) \<Rightarrow>
     bus_ok eb \<and> \<not> eb_destroyed eb \<and> (\<forall>i k t. w i = Some (k, t) \<longrightarrow> find_sub eb i = Some k \<and> 0 < t))"

lemma pop_abs:
  assumes "run_ok (eb, w)" "p = event_bus_pop eb i t"
  shows "run_ok (fst (popped i t w p)) \<and>
    abs_pop (bus_abs (eb, w)) i t False = (bus_abs (fst (popped i t w p)), snd (popped i t w p))"
proof -
  have ok: "bus_ok eb" "\<not> eb_destroyed eb" and ws: "\<And>i k t. w i = Some (k, t) \<Longrightarrow> find_sub eb i = Some k \<and> 0 < t"
    using assms(1) by (auto simp: run_ok_def)
  show ?thesis
  proof (cases "0 < t \<and> bus_view eb i = Some []")
    case True
    then obtain k where k: "find_sub eb i = Some k" by (auto simp: bus_view_def)
    have "p = (eb, PopWait k)" using pop_wait_view [OF ok, of t i] True assms(2) k by simp
    with True k ok ws show ?thesis by (auto simp: popped_def run_ok_def bus_abs_def)
  next
    case False
    obtain eb' r where r: "event_bus_pop eb i 0 = (eb', r)" by fastforce
    have p: "p = (eb', r)"
    proof (cases "0 < t")
      case True
      with pop_wait_view [OF ok, of t i] False assms(2) r show ?thesis by auto
    next
      case nt: False
      then have "event_bus_pop eb i t = event_bus_pop eb i 0"
        by (simp add: event_bus_pop_def pop_loop_def Let_def split: option.split)
      with assms(2) r show ?thesis by simp
    qed
    note v = pop_view [OF ok r] and f = find_sub_pop [OF ok(1) r]
    have nw: "\<not> (\<exists>k. r = PopWait k)" using v by (auto split: option.splits list.splits)
    then have pp: "popped i t w p = ((eb', w(i := None)), EbPopped r)"
      unfolding p by (cases r) (auto simp: popped_def)
    have "run_ok (eb', w(i := None))" using v ws by (auto simp: run_ok_def f split: if_splits)
    moreover have "(\<lambda>j. map_option snd ((w(i := None)) j)) = (\<lambda>j. map_option snd (w j))(i := None)" by auto
    ultimately show ?thesis
      using v False unfolding pp by (auto simp: bus_abs_def split: option.splits list.splits)
  qed
qed

lemma eb_do_abs:
  assumes "run_ok s" "call_ok s x" "eb_do s x = (s', r)"
  shows "run_ok s' \<and> abs_do (bus_abs s) x = (bus_abs s', r)"
proof -
  obtain eb w where s: "s = (eb, w)" by (cases s)
  have ok: "bus_ok eb" "\<not> eb_destroyed eb" and ws: "\<And>i k t. w i = Some (k, t) \<Longrightarrow> find_sub eb i = Some k \<and> 0 < t"
    using assms(1) s by (auto simp: run_ok_def)
  show ?thesis
  proof (cases x)
    case (EbSubscribe cond_ok)
    obtain eb' i where e: "event_bus_subscribe eb cond_ok = (eb', i)" by fastforce
    with assms(3) EbSubscribe s have r: "s' = (eb', w)" "r = EbId i" by auto
    have v: "bus_ok eb'" "\<not> eb_destroyed eb'" "abs_do (bus_abs s) x = (bus_abs s', r)"
      using subscribe_view [OF ok, of eb' i] subscribe_failed_view [OF ok, of eb' i] e s r EbSubscribe
      by (cases cond_ok; auto simp: bus_abs_def split: if_splits)+
    have "find_sub eb' j = Some k" if "w j = Some (k, t)" for j k t
      using find_sub_subscribe [OF ok(1), of cond_ok j k] ws [OF that] v(1) e by simp
    with v ws r show ?thesis by (auto simp: run_ok_def)
  next
    case (EbUnsubscribe i)
    with assms(3) s have r: "s' = (event_bus_unsubscribe eb i, w)" "r = EbDone" by auto
    note v = unsubscribe_view [OF ok, of i]
    have "w i = None" using assms(2) s EbUnsubscribe by simp
    then have "find_sub (event_bus_unsubscribe eb i) j = Some k" if "w j = Some (k, t)" for j k t
    proof -
      have "i \<noteq> j" using \<open>w i = None\<close> that by auto
      with find_sub_unsubscribe [OF ok(1), of i j k] ws [OF that] v show ?thesis by simp
    qed
    with v ws r s EbUnsubscribe show ?thesis by (auto simp: run_ok_def bus_abs_def)
  next
    case (EbPublish ty nm pl now)
    obtain eb' c where e: "event_bus_publish eb ty nm pl now = (eb', c)" by fastforce
    with assms(3) EbPublish s have r: "s' = (eb', w)" "r = EbPublished c" by auto
    note v = publish_view [OF ok e]
    have "find_sub eb' j = find_sub eb j" for j
      using e ok(2) by (auto simp: event_bus_publish_def find_sub_def find_idx_map)
    with v ws r s EbPublish show ?thesis by (auto simp: run_ok_def bus_abs_def EVENT_QUEUE_CAPACITY_def)
  next
    case (EbPop i t)
    with pop_abs [OF assms(1) [unfolded s] refl, of i t] assms(3) s show ?thesis by simp
  next
    case (EbWake i timed_out)
    with assms(2) s obtain k t where w: "w i = Some (k, t)" by auto
    note wi = ws [OF w]
    note wk = wake_view [OF ok conjunct2 [OF wi] conjunct1 [OF wi], of timed_out]
    have aw: "abs_do (bus_abs s) x = abs_pop (bus_abs s) i t timed_out" using EbWake w s by (simp add: bus_abs_def)
    show ?thesis
    proof (cases "timed_out \<and> bus_view eb i = Some []")
      case True
      with wk assms(3) EbWake s w have r: "s' = (eb, w(i := None))" "r = EbPopped PopTimeout"
        by (auto simp: popped_def)
      have "(\<lambda>j. map_option snd ((w(i := None)) j)) = (\<lambda>j. map_option snd (w j))(i := None)" by auto
      with True ok ws r s aw show ?thesis by (auto simp: run_ok_def bus_abs_def split: if_splits)
    next
      case False
      then have d: "eb_do s x = popped i t w (event_bus_pop eb i t)" using wk EbWake s w by auto
      have "abs_pop (bus_abs s) i t timed_out = abs_pop (bus_abs s) i t False"
        using False s by (auto simp: bus_abs_def split: option.split list.split)
      with d pop_abs [OF assms(1) [unfolded s] refl, of i t] assms(3) s aw show ?thesis by simp
    qed
  qed
qed

lemma eb_run_abs:
  "run_ok s \<Longrightarrow> calls_ok s xs \<Longrightarrow> snd (run_ops eb_do s xs) = snd (run_ops abs_do (bus_abs s) xs)"
proof (induction xs arbitrary: s)
  case (Cons x xs)
  obtain s' r where d: "eb_do s x = (s', r)" by fastforce
  from Cons.prems d have c: "call_ok s x" "calls_ok s' xs" by auto
  from eb_do_abs [OF Cons.prems(1) c(1) d] Cons.IH [of s'] c(2) d show ?case by (auto split: prod.splits)
qed simp

text \<open>C18. The bus behaves as a map from ids to queues. On a new bus, any interleaving of
  subscriptions (with failing ones), cancellations, publications, pops with and without a timeout and
  the wake-ups of waiting pops returns what the abstract bus returns, in which a
  subscriber receives the events published since it subscribed, in order, of those it has not
  fetched the last 64, a pop waits exactly on an empty queue, and no operation of another subscriber
  changes its queue. This holds when a subscription is popped and cancelled by one thread, as the server
  does it: a subscription cancelled under its waiting pop is \<open>event_bus_wait_steals\<close>.\<close>

theorem event_bus_implements_queues:
  assumes "event_bus_new True True = Some eb" "calls_ok (eb, \<lambda>_. None) xs"
  shows "snd (run_ops eb_do (eb, \<lambda>_. None) xs) = snd (run_ops abs_do ((\<lambda>_. None, 0, 100), \<lambda>_. None) xs)"
  using event_bus_new_ok [OF assms(1)] eb_run_abs [of "(eb, \<lambda>_. None)" xs] assms(2) by (simp add: bus_abs_def run_ok_def)

text \<open>The pop of 101 waits while a second subscription comes and goes, and is woken by an event, once in vain.\<close>

definition waiting_calls :: "eb_op list" where
  "waiting_calls = [EbSubscribe True, EbPop 101 15000, EbSubscribe False, EbSubscribe True, EbWake 101 False,
     EbUnsubscribe 103, EbPublish EVENT_PING (Some ''a'') None 5, EbWake 101 False, EbPop 101 15000, EbWake 101 True]"

theorem event_bus_implements_queues_witness:
  "\<exists>eb. event_bus_new True True = Some eb \<and>
     snd (run_ops eb_do (eb, \<lambda>_. None) waiting_calls) =
     [EbId 101, EbWaiting, EbId (-1), EbId 103, EbWaiting, EbDone, EbPublished 0,
      EbPopped (PopItem (make_item EVENT_PING (Some ''a'') None 5)), EbWaiting, EbPopped PopTimeout]"
proof -
  obtain eb where eb: "event_bus_new True True = Some eb" by (simp add: event_bus_new_def)
  have "calls_ok (the (event_bus_new True True), \<lambda>_. None) waiting_calls" by code_simp
  then have ok: "calls_ok (eb, \<lambda>_. None) waiting_calls" using eb by simp
  show ?thesis
    by (intro exI [of _ eb] conjI eb, subst event_bus_implements_queues [OF eb ok])
      (simp add: waiting_calls_def last_n_def)
qed

section \<open>A waiting pop\<close>

text \<open>A pop that waits holds on to its slot, not to its subscription. When the subscriber is removed
  and its slot is taken by a new one before the waiting thread runs, the old call returns an
  event of the new subscriber, which never sees it.\<close>

theorem event_bus_wait_steals:
  assumes "bus_ok eb" "\<not> eb_destroyed eb" "find_sub eb i = Some 0" and "es_count (eb_subscribers eb ! 0) = 0"
    and "0 < t"
    and "event_bus_subscribe (event_bus_unsubscribe eb i) True = (eb1, j)"
    and "event_bus_publish eb1 ty nm pl now = (eb2, c)"
    and "event_bus_pop_wake eb2 0 t False = (eb3, r)"
  shows "event_bus_pop eb i t = (eb, PopWait 0) \<and> j \<noteq> i \<and> bus_view eb1 i = None \<and>
    bus_view eb2 j = Some [make_item ty nm pl now] \<and>
    r = PopItem (make_item ty nm pl now) \<and> bus_view eb3 j = Some []"
proof -
  note d = find_subD [OF assms(3)]
  have pos: "0 < i \<and> i \<le> eb_next_sub_id eb"
    using find_sub_id [OF assms(1,3)] by simp
  have wait: "event_bus_pop eb i t = (eb, PopWait 0)"
    using assms(2-5) pos d by (simp add: event_bus_pop_def pop_loop_def)
  define eb0 where "eb0 = event_bus_unsubscribe eb i"
  note u = unsubscribe_view [OF assms(1,2), of i, folded eb0_def]
  have n0: "eb_n_subscribers eb0 = eb_n_subscribers eb - 1" using u assms(3) by (simp add: bus_view_def)
  have "eb_n_subscribers eb \<le> 8"
    using assms(1) length_filter_le [of es_active "eb_subscribers eb"]
    by (simp add: bus_ok_def MAX_EVENT_SUBSCRIBERS_def)
  with n0 have room: "\<not> eb_n_subscribers eb0 \<ge> 8" by simp
  have s0: "eb_subscribers eb0 = (eb_subscribers eb)[0 := (eb_subscribers eb ! 0)\<lparr>es_active := False\<rparr>]"
    using pos assms(3) by (simp add: eb0_def event_bus_unsubscribe_def)
  then have slot: "find_idx (\<lambda>s. \<not> es_active s) (eb_subscribers eb0) = Some 0"
    using d by (cases "eb_subscribers eb") auto
  note s = subscribe_view [of eb0 eb1 j] 
  have s1: "bus_ok eb1" "\<not> eb_destroyed eb1" "j = eb_next_sub_id eb + 1" "bus_view eb1 = (bus_view eb0)(j \<mapsto> [])"
    using s u room assms(6) by (simp_all add: eb0_def [symmetric])
  have e1: "eb_subscribers eb1 = (eb_subscribers eb0)[0 := sub_zero\<lparr>es_id := j, es_active := True\<rparr>]"
    using assms(6) u room slot s1(3)
    by (auto simp: eb0_def [symmetric] event_bus_subscribe_def MAX_EVENT_SUBSCRIBERS_def Let_def)
  have len: "0 < length (eb_subscribers eb0)" using d s0 by simp
  have f1: "find_sub eb1 j = Some 0"
    using len by (cases "eb_subscribers eb0") (simp_all add: find_sub_def e1)
  note p = publish_view [OF s1(1,2) assms(7)]
  have f2: "find_sub eb2 j = Some 0"
    using assms(7) s1(2) f1 by (auto simp: event_bus_publish_def find_sub_def find_idx_map)
  have v2: "bus_view eb2 j = Some [make_item ty nm pl now]"
    using p s1(4) by (simp add: EVENT_QUEUE_CAPACITY_def)
  have i2: "sub_items (eb_subscribers eb2 ! 0) = [make_item ty nm pl now]"
    using v2 f2 by (simp add: bus_view_def)
  then have "length (sub_items (eb_subscribers eb2 ! 0)) = 1" by simp
  then have cnt: "es_count (eb_subscribers eb2 ! 0) \<noteq> 0" by (simp add: sub_items_def)
  note d2 = find_subD [OF f2]
  have j: "0 < j" "j \<noteq> i" using pos s1(3) by auto
  have same: "event_bus_pop eb2 j 0 = event_bus_pop_wake eb2 0 t False"
    using cnt j p f2 by (simp add: event_bus_pop_def event_bus_pop_wake_def pop_loop_def Let_def)
  have "event_bus_pop eb2 j 0 = (eb3, r)" using same assms(8) by simp
  from pop_view [OF _ _ this] p have "case bus_view eb2 j of
      None \<Rightarrow> r = PopError \<and> bus_view eb3 = bus_view eb2
    | Some [] \<Rightarrow> r = PopTimeout \<and> bus_view eb3 = bus_view eb2
    | Some (x # q) \<Rightarrow> r = PopItem x \<and> bus_view eb3 = (bus_view eb2)(j \<mapsto> q)" by blast
  then have "r = PopItem (make_item ty nm pl now) \<and> bus_view eb3 = (bus_view eb2)(j \<mapsto> [])"
    unfolding v2 by simp
  then show ?thesis using wait j v2 u s1(4) by simp
qed

text \<open>A bus with one idle subscriber.\<close>

definition one_sub :: event_bus where
  "one_sub = fst (event_bus_subscribe (the (event_bus_new True True)) True)"

lemma one_sub: "bus_ok one_sub \<and> \<not> eb_destroyed one_sub \<and> find_sub one_sub 101 = Some 0 \<and>
  es_count (eb_subscribers one_sub ! 0) = 0"
proof -
  obtain eb where eb: "event_bus_new True True = Some eb" by (simp add: event_bus_new_def)
  note n = event_bus_new_ok [OF eb]
  obtain eb1 j where s: "event_bus_subscribe eb True = (eb1, j)" by (metis surj_pair)
  have "bus_ok one_sub \<and> \<not> eb_destroyed one_sub"
    using subscribe_view [OF _ _ s] n s by (simp add: one_sub_def eb)
  moreover have "find_sub one_sub 101 = Some 0 \<and> es_count (eb_subscribers one_sub ! 0) = 0"
    by (simp add: one_sub_def event_bus_new_def event_bus_subscribe_def MAX_EVENT_SUBSCRIBERS_def Let_def
        sub_zero_def find_sub_def numeral_eq_Suc)
  ultimately show ?thesis by blast
qed

theorem event_bus_wait_steals_witness:
  "\<exists>eb2 eb3. event_bus_pop one_sub 101 500 = (one_sub, PopWait 0) \<and>
     event_bus_pop_wake eb2 0 500 False = (eb3, PopItem (make_item EVENT_PING (Some ''ping'') None 7)) \<and>
     bus_view eb2 102 = Some [make_item EVENT_PING (Some ''ping'') None 7] \<and> bus_view eb3 102 = Some []"
proof -
  obtain eb1 j where s: "event_bus_subscribe (event_bus_unsubscribe one_sub 101) True = (eb1, j)" by (metis surj_pair)
  obtain eb2 c where p: "event_bus_publish eb1 EVENT_PING (Some ''ping'') None 7 = (eb2, c)" by (metis surj_pair)
  obtain eb3 r where w: "event_bus_pop_wake eb2 0 500 False = (eb3, r)" by (metis surj_pair)
  have "snd (event_bus_subscribe (event_bus_unsubscribe one_sub 101) True) = 102" by code_simp
  then have j: "j = 102" by (simp add: s)
  show ?thesis
    using event_bus_wait_steals [of one_sub 101 500 eb1 j EVENT_PING "Some ''ping''" None 7 eb2 c eb3 r] one_sub s p w j
    by auto
qed

section \<open>Escaping\<close>

text \<open>Reading a JSON text: the characters it stands for, \<open>None\<close> when it holds a control character, a
  bare quote or an unfinished or unknown escape.\<close>

fun json_read :: "string \<Rightarrow> string option" where
  "json_read [] = Some []"
| "json_read (c # cs) =
     (if c = CHR 0x5C then
        (case cs of d # ds \<Rightarrow>
           if d = CHR 0x22 \<or> d = CHR 0x5C then map_option ((#) d) (json_read ds) else None
         | [] \<Rightarrow> None)
      else if c = CHR 0x22 \<or> (of_char c :: nat) < 32 then None
      else map_option ((#) c) (json_read cs))"

definition blank_control :: "char \<Rightarrow> char" where
  "blank_control c = (if (of_char c :: nat) < 32 then CHR '' '' else c)"

text \<open>The size of the escaped text.\<close>

definition escaped_size :: "string \<Rightarrow> nat" where
  "escaped_size s = sum_list (map (\<lambda>c. if c = CHR 0x22 \<or> c = CHR 0x5C then 2 else 1) s)"

definition escape_char :: "char \<Rightarrow> string" where
  "escape_char c = (if c = CHR 0x22 \<or> c = CHR 0x5C then [CHR 0x5C, c]
     else if (of_char c :: nat) < 32 then '' '' else [c])"

lemma escape_from_eq:
  "\<exists>k \<le> length s. json_escape_from cap out s = out @ concat (map escape_char (take k s)) \<and>
     (k < length s \<longrightarrow> cap \<le> length out + escaped_size (take k s) + 2)"
proof (induction s arbitrary: out)
  case (Cons c s)
  show ?case
  proof (cases "length out + 2 < cap")
    case True
    have step: "json_escape_from cap out (c # s) = json_escape_from cap (out @ escape_char c) s"
      using True by (simp add: escape_char_def)
    have len: "length (escape_char c) = (if c = CHR 0x22 \<or> c = CHR 0x5C then 2 else 1)"
      by (simp add: escape_char_def)
    from Cons.IH [of "out @ escape_char c"] obtain k where
      "k \<le> length s" "json_escape_from cap (out @ escape_char c) s =
         (out @ escape_char c) @ concat (map escape_char (take k s))"
      "k < length s \<longrightarrow> cap \<le> length (out @ escape_char c) + escaped_size (take k s) + 2" by blast
    then show ?thesis
      using step len by (intro exI [of _ "Suc k"]) (auto simp: escaped_size_def)
  next
    case False
    then show ?thesis by (intro exI [of _ 0]) (simp add: escaped_size_def)
  qed
qed simp

lemma json_read_escape:
  "json_read (concat (map escape_char s)) = Some (map blank_control s)"
proof (induction s)
  case (Cons c s)
  have "\<not> (of_char (CHR '' '') :: nat) < 32" "\<not> (of_char (CHR 0x22) :: nat) < 32" "\<not> (of_char (CHR 0x5C) :: nat) < 32"
    by simp_all
  with Cons show ?case by (auto simp: escape_char_def blank_control_def)
qed simp

text \<open>An escaped text is always a well-formed JSON text, whatever was escaped and wherever the buffer
  cut it: it reads back as a prefix of the text with its control characters blanked, and as the
  whole text when the buffer has room for it.\<close>

theorem json_escape_roundtrip:
  "\<exists>k \<le> length s. json_read (json_escape_str (Some s) cap) = Some (map blank_control (take k s)) \<and>
     (k < length s \<longrightarrow> cap \<le> escaped_size (take k s) + 2)"
proof -
  from escape_from_eq [of s cap "[]"] obtain k where
    "k \<le> length s" "json_escape_from cap [] s = concat (map escape_char (take k s))"
    "k < length s \<longrightarrow> cap \<le> escaped_size (take k s) + 2" by auto
  then show ?thesis
    by (intro exI [of _ k]) (simp add: json_escape_str_def json_read_escape)
qed

theorem json_escape_roundtrip_witness:
  "\<exists>k \<le> 2. json_read (json_escape_str (Some [CHR 0x22, CHR 0x0A]) 8) = Some (map blank_control (take k [CHR 0x22, CHR 0x0A])) \<and>
     (k < 2 \<longrightarrow> 8 \<le> escaped_size (take k [CHR 0x22, CHR 0x0A]) + 2)"
  using json_escape_roundtrip [of "[CHR 0x22, CHR 0x0A]" 8] by (simp add: numeral_2_eq_2)

end
