(* ===== verification/Shadow.thy ===== *)
theory Shadow
  imports Slot_Table Ring "HOL-Library.Word" Complex_Main
begin

text \<open>
  \<^verbatim>\<open>src/policy/shadow.c\<close>: rules that mirror or divert traffic, the bounded queue of shadow
  tasks, the circular cache of evaluations with its statistics, and the engine that pairs the
  result of a primary request with that of its shadow. \<open>roll\<close> is \<open>rand() / RAND_MAX\<close>,
  \<open>now_us\<close> the monotonic clock; \<open>double\<close> values are real numbers. Each lock makes the operations
  it guards atomic. NULL handles make every operation return at once and are left out.
\<close>

section \<open>Rules\<close>

datatype traffic_mode = TRAFFIC_MODE_SHADOW | TRAFFIC_MODE_CANARY

record shadow_rule =
  sr_id :: int
  sr_source_model :: string
  sr_target_model :: string
  sr_target_provider :: string
  sr_mode :: traffic_mode
  sr_sample_rate :: real
  sr_header_match :: string
  sr_enabled :: bool
  sr_timeout_ms :: "32 word"

definition shadow_rule_matches :: "shadow_rule \<Rightarrow> string option \<Rightarrow> string option \<Rightarrow> bool" where
  "shadow_rule_matches rule model header_str =
     (case model of
        None \<Rightarrow> False
      | Some m \<Rightarrow>
          if \<not> sr_enabled rule then False
          else if sr_source_model rule \<noteq> m then False
          else if sr_header_match rule \<noteq> [] then
            (case header_str of
               None \<Rightarrow> False
             | Some h \<Rightarrow> strstr_from h (sr_header_match rule) 0 \<noteq> None)
          else True)"

definition shadow_rule_should_sample :: "shadow_rule \<Rightarrow> real \<Rightarrow> bool" where
  "shadow_rule_should_sample rule roll =
     (if \<not> sr_enabled rule then False
      else if sr_sample_rate rule \<ge> 1 then True
      else if sr_sample_rate rule \<le> 0 then False
      else roll < sr_sample_rate rule)"

section \<open>Task queue\<close>

record shadow_task =
  tk_eval_id :: string
  tk_trace_id :: string
  tk_rule :: shadow_rule
  tk_body_copy :: "string option"
  tk_prompt_preview :: string
  tk_timestamp_us :: "64 word"

text \<open>An item of the array that has been cleared is \<open>None\<close>.\<close>

record shadow_queue =
  sq_items :: "shadow_task option list"
  sq_head :: nat
  sq_tail :: nat
  sq_count :: nat
  sq_dropped_count :: "64 word"

definition SHADOW_QUEUE_DEFAULT_CAPACITY :: nat where "SHADOW_QUEUE_DEFAULT_CAPACITY = 256"
definition SHADOW_EVAL_DEFAULT_CAPACITY :: nat where "SHADOW_EVAL_DEFAULT_CAPACITY = 200"
definition SHADOW_PAIRING_SLOTS_CAPACITY :: nat where "SHADOW_PAIRING_SLOTS_CAPACITY = 256"

definition shadow_queue_create :: "bool \<Rightarrow> bool \<Rightarrow> nat \<Rightarrow> shadow_queue option" where
  "shadow_queue_create alloc_ok items_ok capacity =
     (let capacity = (if capacity = 0 then SHADOW_QUEUE_DEFAULT_CAPACITY else capacity)
      in if \<not> alloc_ok then None
         else if \<not> items_ok then None
         else Some \<lparr>sq_items = replicate capacity None, sq_head = 0, sq_tail = 0, sq_count = 0, sq_dropped_count = 0\<rparr>)"

definition shadow_queue_push :: "shadow_queue \<Rightarrow> shadow_task option \<Rightarrow> shadow_queue \<times> bool" where
  "shadow_queue_push q task =
     (case task of
        None \<Rightarrow> (q, False)
      | Some t \<Rightarrow>
          if sq_count q \<ge> length (sq_items q)
          then (q\<lparr>sq_dropped_count := sq_dropped_count q + 1\<rparr>, False)
          else (q\<lparr>sq_items := (sq_items q)[sq_tail q := Some t],
                  sq_tail := (sq_tail q + 1) mod length (sq_items q), sq_count := sq_count q + 1\<rparr>, True))"

text \<open>On an empty queue the call waits and, if nothing arrives in time, returns false: \<open>None\<close>.\<close>

definition shadow_queue_pop :: "shadow_queue \<Rightarrow> shadow_queue \<times> shadow_task option" where
  "shadow_queue_pop q =
     (if sq_count q = 0 then (q, None)
      else (q\<lparr>sq_items := (sq_items q)[sq_head q := None],
              sq_head := (sq_head q + 1) mod length (sq_items q), sq_count := sq_count q - 1\<rparr>,
            sq_items q ! sq_head q))"

definition shadow_queue_count :: "shadow_queue \<Rightarrow> nat" where "shadow_queue_count q = sq_count q"
definition shadow_queue_dropped :: "shadow_queue \<Rightarrow> 64 word" where "shadow_queue_dropped q = sq_dropped_count q"

section \<open>Evaluation cache\<close>

record shadow_eval_item =
  ev_eval_id :: string
  ev_trace_id :: string
  ev_source_model :: string
  ev_target_model :: string
  ev_mode :: traffic_mode
  ev_primary_latency_ms :: real
  ev_shadow_latency_ms :: real
  ev_primary_ttft_ms :: real
  ev_shadow_ttft_ms :: real
  ev_primary_http_status :: int
  ev_shadow_http_status :: int
  ev_primary_tokens :: int
  ev_shadow_tokens :: int
  ev_primary_cost_usd :: real
  ev_shadow_cost_usd :: real
  ev_prompt_preview :: string
  ev_primary_resp_snippet :: string
  ev_shadow_resp_snippet :: string
  ev_timestamp_us :: "64 word"

record shadow_stats =
  ss_total_evaluated :: "64 word"
  ss_successful_shadow :: "64 word"
  ss_failed_shadow :: "64 word"
  ss_primary_cost_usd :: real
  ss_shadow_cost_usd :: real
  ss_cost_saved_usd :: real
  ss_avg_primary_lat_ms :: real
  ss_avg_shadow_lat_ms :: real
  ss_dropped_shadow_requests :: "64 word"

definition stats_zero :: shadow_stats where
  "stats_zero = \<lparr>ss_total_evaluated = 0, ss_successful_shadow = 0, ss_failed_shadow = 0,
     ss_primary_cost_usd = 0, ss_shadow_cost_usd = 0, ss_cost_saved_usd = 0, ss_avg_primary_lat_ms = 0,
     ss_avg_shadow_lat_ms = 0, ss_dropped_shadow_requests = 0\<rparr>"

record shadow_eval_cache =
  sc_items :: "shadow_eval_item option list"
  sc_head :: nat
  sc_count :: nat
  sc_stats :: shadow_stats

definition shadow_eval_cache_create :: "bool \<Rightarrow> bool \<Rightarrow> nat \<Rightarrow> shadow_eval_cache option" where
  "shadow_eval_cache_create alloc_ok items_ok capacity =
     (let capacity = (if capacity = 0 then SHADOW_EVAL_DEFAULT_CAPACITY else capacity)
      in if \<not> alloc_ok then None
         else if \<not> items_ok then None
         else Some \<lparr>sc_items = replicate capacity None, sc_head = 0, sc_count = 0, sc_stats = stats_zero\<rparr>)"

text \<open>The statistics after one more item.\<close>

definition stats_add :: "shadow_eval_item \<Rightarrow> shadow_stats \<Rightarrow> shadow_stats" where
  "stats_add item s =
     (let s1 = s\<lparr>ss_total_evaluated := ss_total_evaluated s + 1\<rparr>;
          s2 = (if ev_shadow_http_status item \<ge> 200 \<and> ev_shadow_http_status item < 400
                then s1\<lparr>ss_successful_shadow := ss_successful_shadow s1 + 1\<rparr>
                else s1\<lparr>ss_failed_shadow := ss_failed_shadow s1 + 1\<rparr>);
          s3 = s2\<lparr>ss_primary_cost_usd := ss_primary_cost_usd s2 + ev_primary_cost_usd item,
                  ss_shadow_cost_usd := ss_shadow_cost_usd s2 + ev_shadow_cost_usd item\<rparr>;
          s4 = (if ev_primary_cost_usd item > ev_shadow_cost_usd item
                then s3\<lparr>ss_cost_saved_usd := ss_cost_saved_usd s3 + (ev_primary_cost_usd item - ev_shadow_cost_usd item)\<rparr>
                else s3);
          n = ss_total_evaluated s4
      in if n = 1
         then s4\<lparr>ss_avg_primary_lat_ms := ev_primary_latency_ms item,
                 ss_avg_shadow_lat_ms := ev_shadow_latency_ms item\<rparr>
         else s4\<lparr>ss_avg_primary_lat_ms := ss_avg_primary_lat_ms s4 +
                   (ev_primary_latency_ms item - ss_avg_primary_lat_ms s4) / real (unat n),
                 ss_avg_shadow_lat_ms := ss_avg_shadow_lat_ms s4 +
                   (ev_shadow_latency_ms item - ss_avg_shadow_lat_ms s4) / real (unat n)\<rparr>)"

definition shadow_eval_cache_record :: "shadow_eval_cache \<Rightarrow> shadow_eval_item \<Rightarrow> shadow_eval_cache" where
  "shadow_eval_cache_record c item =
     (let cap = length (sc_items c);
          (write_idx, c1) =
            (if sc_count c < cap
             then ((sc_head c + sc_count c) mod cap, c\<lparr>sc_count := sc_count c + 1\<rparr>)
             else (sc_head c, c\<lparr>sc_head := (sc_head c + 1) mod cap\<rparr>))
      in c1\<lparr>sc_items := (sc_items c1)[write_idx := Some item], sc_stats := stats_add item (sc_stats c1)\<rparr>)"

definition shadow_eval_cache_get_recent :: "shadow_eval_cache \<Rightarrow> int \<Rightarrow> shadow_eval_item option list" where
  "shadow_eval_cache_get_recent c max_items =
     (if max_items \<le> 0 then []
      else let to_copy = (if int (sc_count c) > max_items then nat max_items else sc_count c)
           in map (\<lambda>i. sc_items c ! ((sc_head c + sc_count c - 1 - i) mod length (sc_items c))) [0..<to_copy])"

definition shadow_eval_cache_get_stats :: "shadow_eval_cache \<Rightarrow> shadow_stats" where
  "shadow_eval_cache_get_stats c = sc_stats c"

definition shadow_eval_cache_count :: "shadow_eval_cache \<Rightarrow> nat" where
  "shadow_eval_cache_count c = sc_count c"

section \<open>The pairing engine\<close>

record pairing_slot =
  ps_eval_id :: string
  ps_trace_id :: string
  ps_source_model :: string
  ps_target_model :: string
  ps_mode :: traffic_mode
  ps_prompt_preview :: string
  ps_active :: bool
  ps_primary_done :: bool
  ps_shadow_done :: bool
  ps_primary_latency_ms :: real
  ps_shadow_latency_ms :: real
  ps_primary_ttft_ms :: real
  ps_shadow_ttft_ms :: real
  ps_primary_http_status :: int
  ps_shadow_http_status :: int
  ps_primary_tokens :: int
  ps_shadow_tokens :: int
  ps_primary_cost_usd :: real
  ps_shadow_cost_usd :: real
  ps_primary_resp_snippet :: string
  ps_shadow_resp_snippet :: string
  ps_timestamp_us :: "64 word"

text \<open>A slot after \<open>memset\<close>.\<close>

definition slot_zero :: pairing_slot where
  "slot_zero = \<lparr>ps_eval_id = [], ps_trace_id = [], ps_source_model = [], ps_target_model = [],
     ps_mode = TRAFFIC_MODE_SHADOW, ps_prompt_preview = [], ps_active = False, ps_primary_done = False,
     ps_shadow_done = False, ps_primary_latency_ms = 0, ps_shadow_latency_ms = 0, ps_primary_ttft_ms = 0,
     ps_shadow_ttft_ms = 0, ps_primary_http_status = 0, ps_shadow_http_status = 0, ps_primary_tokens = 0,
     ps_shadow_tokens = 0, ps_primary_cost_usd = 0, ps_shadow_cost_usd = 0, ps_primary_resp_snippet = [],
     ps_shadow_resp_snippet = [], ps_timestamp_us = 0\<rparr>"

record shadow_engine =
  se_queue :: shadow_queue
  se_cache :: shadow_eval_cache
  se_pairing_slots :: "pairing_slot list"
  se_running :: bool

definition shadow_engine_create ::
  "bool \<Rightarrow> shadow_queue option \<Rightarrow> shadow_eval_cache option \<Rightarrow> shadow_engine option" where
  "shadow_engine_create alloc_ok queue cache =
     (if \<not> alloc_ok then None
      else case (queue, cache) of
             (Some q, Some c) \<Rightarrow>
               Some \<lparr>se_queue = q, se_cache = c,
                     se_pairing_slots = replicate SHADOW_PAIRING_SLOTS_CAPACITY slot_zero, se_running = False\<rparr>
           | _ \<Rightarrow> None)"

definition shadow_engine_start :: "shadow_engine \<Rightarrow> bool \<Rightarrow> shadow_engine \<times> int" where
  "shadow_engine_start eng thread_ok =
     (if se_running eng then (eng, 0)
      else if thread_ok then (eng\<lparr>se_running := True\<rparr>, 0) else (eng\<lparr>se_running := False\<rparr>, -1))"

definition shadow_engine_stop :: "shadow_engine \<Rightarrow> shadow_engine" where
  "shadow_engine_stop eng = (if se_running eng then eng\<lparr>se_running := False\<rparr> else eng)"

definition pairing_find :: "shadow_engine \<Rightarrow> string \<Rightarrow> nat option" where
  "pairing_find eng eval_id = st_find ps_active ps_eval_id (se_pairing_slots eng) eval_id"

definition shadow_engine_start_pairing ::
  "shadow_engine \<Rightarrow> string option \<Rightarrow> string option \<Rightarrow> string option \<Rightarrow> string option \<Rightarrow> traffic_mode \<Rightarrow>
   string option \<Rightarrow> 64 word \<Rightarrow> shadow_engine \<times> bool" where
  "shadow_engine_start_pairing eng eval_id trace_id source_model target_model mode prompt_preview now_us =
     (case eval_id of
        None \<Rightarrow> (eng, False)
      | Some eid \<Rightarrow>
          (case st_free_slot ps_active (se_pairing_slots eng) of
             None \<Rightarrow> (eng, False)
           | Some i \<Rightarrow>
               (let slot = slot_zero\<lparr>ps_active := True, ps_eval_id := cstr_copy 33 eid,
                             ps_trace_id := cstr_copy 33 (cstr_or_empty trace_id),
                             ps_source_model := cstr_copy 64 (cstr_or_empty source_model),
                             ps_target_model := cstr_copy 64 (cstr_or_empty target_model),
                             ps_mode := mode,
                             ps_prompt_preview := cstr_copy 256 (cstr_or_empty prompt_preview),
                             ps_timestamp_us := now_us\<rparr>
                in (eng\<lparr>se_pairing_slots := (se_pairing_slots eng)[i := slot]\<rparr>, True))))"

text \<open>The item of a slot; the buffers of both have the same sizes.\<close>

definition slot_item :: "pairing_slot \<Rightarrow> shadow_eval_item" where
  "slot_item s =
     \<lparr>ev_eval_id = cstr_copy 33 (ps_eval_id s), ev_trace_id = cstr_copy 33 (ps_trace_id s),
      ev_source_model = cstr_copy 64 (ps_source_model s), ev_target_model = cstr_copy 64 (ps_target_model s),
      ev_mode = ps_mode s,
      ev_primary_latency_ms = ps_primary_latency_ms s, ev_shadow_latency_ms = ps_shadow_latency_ms s,
      ev_primary_ttft_ms = ps_primary_ttft_ms s, ev_shadow_ttft_ms = ps_shadow_ttft_ms s,
      ev_primary_http_status = ps_primary_http_status s, ev_shadow_http_status = ps_shadow_http_status s,
      ev_primary_tokens = ps_primary_tokens s, ev_shadow_tokens = ps_shadow_tokens s,
      ev_primary_cost_usd = ps_primary_cost_usd s, ev_shadow_cost_usd = ps_shadow_cost_usd s,
      ev_prompt_preview = cstr_copy 256 (ps_prompt_preview s),
      ev_primary_resp_snippet = cstr_copy 512 (ps_primary_resp_snippet s),
      ev_shadow_resp_snippet = cstr_copy 512 (ps_shadow_resp_snippet s),
      ev_timestamp_us = ps_timestamp_us s\<rparr>"

definition commit_pairing_slot :: "shadow_engine \<Rightarrow> nat \<Rightarrow> shadow_engine" where
  "commit_pairing_slot eng i =
     (let slot = se_pairing_slots eng ! i
      in eng\<lparr>se_pairing_slots := (se_pairing_slots eng)[i := slot\<lparr>ps_active := False\<rparr>],
             se_cache := shadow_eval_cache_record (se_cache eng) (slot_item slot)\<rparr>)"

text \<open>What one side of a pair reports.\<close>

record side =
  sd_latency_ms :: real
  sd_ttft_ms :: real
  sd_http_status :: int
  sd_tokens :: int
  sd_cost_usd :: real
  sd_resp_snippet :: "string option"

definition set_primary :: "side \<Rightarrow> pairing_slot \<Rightarrow> pairing_slot" where
  "set_primary d s =
     s\<lparr>ps_primary_latency_ms := sd_latency_ms d, ps_primary_ttft_ms := sd_ttft_ms d,
       ps_primary_http_status := sd_http_status d, ps_primary_tokens := sd_tokens d,
       ps_primary_cost_usd := sd_cost_usd d,
       ps_primary_resp_snippet := (case sd_resp_snippet d of None \<Rightarrow> ps_primary_resp_snippet s
                                   | Some t \<Rightarrow> cstr_copy 512 t),
       ps_primary_done := True\<rparr>"

definition set_shadow :: "side \<Rightarrow> pairing_slot \<Rightarrow> pairing_slot" where
  "set_shadow d s =
     s\<lparr>ps_shadow_latency_ms := sd_latency_ms d, ps_shadow_ttft_ms := sd_ttft_ms d,
       ps_shadow_http_status := sd_http_status d, ps_shadow_tokens := sd_tokens d,
       ps_shadow_cost_usd := sd_cost_usd d,
       ps_shadow_resp_snippet := (case sd_resp_snippet d of None \<Rightarrow> ps_shadow_resp_snippet s
                                  | Some t \<Rightarrow> cstr_copy 512 t),
       ps_shadow_done := True\<rparr>"

definition shadow_engine_record_primary ::
  "shadow_engine \<Rightarrow> string option \<Rightarrow> side \<Rightarrow> shadow_engine \<times> bool" where
  "shadow_engine_record_primary eng eval_id d =
     (case eval_id of
        None \<Rightarrow> (eng, False)
      | Some eid \<Rightarrow>
          (case pairing_find eng eid of
             None \<Rightarrow> (eng, False)
           | Some i \<Rightarrow>
               if ps_primary_done (se_pairing_slots eng ! i) then (eng, True)
               else (let slot = set_primary d (se_pairing_slots eng ! i);
                         eng1 = eng\<lparr>se_pairing_slots := (se_pairing_slots eng)[i := slot]\<rparr>
                     in (if ps_shadow_done slot then commit_pairing_slot eng1 i else eng1, True))))"

definition shadow_engine_record_shadow ::
  "shadow_engine \<Rightarrow> string option \<Rightarrow> side \<Rightarrow> shadow_engine \<times> bool" where
  "shadow_engine_record_shadow eng eval_id d =
     (case eval_id of
        None \<Rightarrow> (eng, False)
      | Some eid \<Rightarrow>
          (case pairing_find eng eid of
             None \<Rightarrow> (eng, False)
           | Some i \<Rightarrow>
               if ps_shadow_done (se_pairing_slots eng ! i) then (eng, True)
               else (let slot = set_shadow d (se_pairing_slots eng ! i);
                         eng1 = eng\<lparr>se_pairing_slots := (se_pairing_slots eng)[i := slot]\<rparr>
                     in (if ps_primary_done slot then commit_pairing_slot eng1 i else eng1, True))))"

definition shadow_engine_eval_count :: "shadow_engine \<Rightarrow> nat" where
  "shadow_engine_eval_count eng = shadow_eval_cache_count (se_cache eng)"

definition shadow_engine_get_recent_evals :: "shadow_engine \<Rightarrow> int \<Rightarrow> shadow_eval_item option list" where
  "shadow_engine_get_recent_evals eng max_items = shadow_eval_cache_get_recent (se_cache eng) max_items"

definition shadow_engine_get_stats :: "shadow_engine \<Rightarrow> shadow_stats" where
  "shadow_engine_get_stats eng =
     (shadow_eval_cache_get_stats (se_cache eng))\<lparr>ss_dropped_shadow_requests := shadow_queue_dropped (se_queue eng)\<rparr>"

definition shadow_engine_submit_task :: "shadow_engine \<Rightarrow> shadow_task option \<Rightarrow> shadow_engine \<times> bool" where
  "shadow_engine_submit_task eng task =
     (case shadow_queue_push (se_queue eng) task of (q, r) \<Rightarrow> (eng\<lparr>se_queue := q\<rparr>, r))"

section \<open>The worker\<close>

text \<open>The result the worker reports for every task.\<close>

definition stub_side :: side where
  "stub_side = \<lparr>sd_latency_ms = 42, sd_ttft_ms = 18, sd_http_status = 200, sd_tokens = 110,
     sd_cost_usd = 6 / 10000, sd_resp_snippet = Some ''Shadow candidate response preview''\<rparr>"

text \<open>One round of the loop is two atomic steps: a task is taken and its slot looked up; then, when there
  was one, the result is recorded.\<close>

definition shadow_worker_take :: "shadow_engine \<Rightarrow> shadow_engine \<times> shadow_task option" where
  "shadow_worker_take eng =
     (case shadow_queue_pop (se_queue eng) of
        (q, None) \<Rightarrow> (eng\<lparr>se_queue := q\<rparr>, None)
      | (q, Some task) \<Rightarrow>
          (eng\<lparr>se_queue := q\<rparr>, if pairing_find eng (tk_eval_id task) \<noteq> None then Some task else None))"

definition shadow_worker_record :: "shadow_engine \<Rightarrow> shadow_task \<Rightarrow> shadow_engine" where
  "shadow_worker_record eng task = fst (shadow_engine_record_shadow eng (Some (tk_eval_id task)) stub_side)"

section \<open>Identifiers\<close>

text \<open>\<open>r\<close> gives the values of \<open>rand_r\<close>; a buffer smaller than 33 bytes is left alone.\<close>

definition shadow_generate_eval_id :: "(nat \<Rightarrow> nat) \<Rightarrow> nat \<Rightarrow> string option" where
  "shadow_generate_eval_id r out_sz =
     (if out_sz < 33 then None
      else Some (concat (map (\<lambda>i. let b = r i mod 256 in [hex_digit (b div 16), hex_digit (b mod 16)]) [0..<16])))"

end
