(* ===== verification/Shadow_Props.thy ===== *)
theory Shadow_Props
  imports Shadow
begin

text \<open>
  The evaluation cache as the list of the last evaluations, its statistics, the pairing slots as a
  map from evaluation ids to pending pairs, and how a pair is committed.
\<close>

section \<open>The evaluation cache\<close>

definition cache_ok :: "shadow_eval_cache \<Rightarrow> bool" where
  "cache_ok c \<longleftrightarrow> sc_head c < length (sc_items c) \<and> sc_count c \<le> length (sc_items c)"

definition cache_log :: "shadow_eval_cache \<Rightarrow> shadow_eval_item option list" where
  "cache_log c = queue_contents (sc_items c) (sc_head c) (sc_count c)"

lemma cache_record_log:
  assumes "cache_ok c"
  shows "cache_ok (shadow_eval_cache_record c it) \<and>
    cache_log (shadow_eval_cache_record c it) = last_n (length (sc_items c)) (cache_log c @ [Some it]) \<and>
    length (sc_items (shadow_eval_cache_record c it)) = length (sc_items c) \<and>
    sc_stats (shadow_eval_cache_record c it) = stats_add it (sc_stats c)"
proof (cases "sc_count c < length (sc_items c)")
  case True
  then show ?thesis
    using assms queue_push [OF True, of "sc_head c" "Some it"]
    by (simp add: cache_ok_def cache_log_def shadow_eval_cache_record_def Let_def)
next
  case False
  then have full: "sc_count c = length (sc_items c)" using assms by (simp add: cache_ok_def)
  have "sc_items c \<noteq> []" using assms by (auto simp: cache_ok_def)
  then show ?thesis
    using assms full queue_overwrite [of "sc_head c" "sc_items c" "Some it"]
      last_n_full [of "cache_log c" "Some it"]
    by (cases "cache_log c") (simp_all add: cache_ok_def cache_log_def shadow_eval_cache_record_def Let_def)
qed

text \<open>The recent evaluations are the log read backwards.\<close>

lemma queue_contents_nth: "i < cnt \<Longrightarrow> queue_contents xs h cnt ! i = xs ! ((h + i) mod length xs)"
  by (simp add: queue_contents_def)

lemma get_recent_log:
  "shadow_eval_cache_get_recent c n = take (nat n) (rev (cache_log c))"
proof (rule nth_equalityI)
  show "length (shadow_eval_cache_get_recent c n) = length (take (nat n) (rev (cache_log c)))"
    by (auto simp: shadow_eval_cache_get_recent_def cache_log_def Let_def)
next
  fix i assume i: "i < length (shadow_eval_cache_get_recent c n)"
  then have lt: "0 < n" "i < nat n" "i < sc_count c"
    by (auto simp: shadow_eval_cache_get_recent_def Let_def split: if_splits)
  then have "rev (cache_log c) ! i = sc_items c ! ((sc_head c + (sc_count c - 1 - i)) mod length (sc_items c))"
    by (simp add: cache_log_def rev_nth queue_contents_nth)
  also have "sc_head c + (sc_count c - 1 - i) = sc_head c + sc_count c - 1 - i" using lt by simp
  finally show "shadow_eval_cache_get_recent c n ! i = take (nat n) (rev (cache_log c)) ! i"
    using lt by (auto simp: shadow_eval_cache_get_recent_def Let_def)
qed

section \<open>Statistics\<close>

definition cache_run :: "shadow_eval_cache \<Rightarrow> shadow_eval_item list \<Rightarrow> shadow_eval_cache" where
  "cache_run c its = foldl shadow_eval_cache_record c its"

definition shadow_succeeded :: "shadow_eval_item \<Rightarrow> bool" where
  "shadow_succeeded it \<longleftrightarrow> 200 \<le> ev_shadow_http_status it \<and> ev_shadow_http_status it < 400"

lemma unat_of_nat_64: "n < 2 ^ 64 \<Longrightarrow> unat (of_nat n :: 64 word) = n"
  by (simp add: unat_of_nat take_bit_nat_eq_self)

definition stats_exact :: "shadow_stats \<Rightarrow> shadow_eval_item list \<Rightarrow> bool" where
  "stats_exact s its \<longleftrightarrow>
     ss_total_evaluated s = of_nat (length its) \<and>
     ss_successful_shadow s = of_nat (length (filter shadow_succeeded its)) \<and>
     ss_failed_shadow s = of_nat (length (filter (\<lambda>x. \<not> shadow_succeeded x) its)) \<and>
     ss_primary_cost_usd s = (\<Sum>x\<leftarrow>its. ev_primary_cost_usd x) \<and>
     ss_shadow_cost_usd s = (\<Sum>x\<leftarrow>its. ev_shadow_cost_usd x) \<and>
     ss_cost_saved_usd s = (\<Sum>x\<leftarrow>its. max 0 (ev_primary_cost_usd x - ev_shadow_cost_usd x)) \<and>
     ss_avg_primary_lat_ms s = (\<Sum>x\<leftarrow>its. ev_primary_latency_ms x) / real (length its) \<and>
     ss_avg_shadow_lat_ms s = (\<Sum>x\<leftarrow>its. ev_shadow_latency_ms x) / real (length its)"

lemma running_mean:
  fixes a t :: real
  assumes "a = t / real n" "0 < n"
  shows "a + (x - a) / real (Suc n) = (t + x) / real (Suc n)"
  using assms by (simp add: field_simps)

lemma stats_add_sel:
  "ss_total_evaluated (stats_add it s) = ss_total_evaluated s + 1"
  "ss_successful_shadow (stats_add it s) = ss_successful_shadow s + (if shadow_succeeded it then 1 else 0)"
  "ss_failed_shadow (stats_add it s) = ss_failed_shadow s + (if shadow_succeeded it then 0 else 1)"
  "ss_primary_cost_usd (stats_add it s) = ss_primary_cost_usd s + ev_primary_cost_usd it"
  "ss_shadow_cost_usd (stats_add it s) = ss_shadow_cost_usd s + ev_shadow_cost_usd it"
  "ss_cost_saved_usd (stats_add it s) =
     ss_cost_saved_usd s + max 0 (ev_primary_cost_usd it - ev_shadow_cost_usd it)"
  "ss_avg_primary_lat_ms (stats_add it s) =
     (if ss_total_evaluated s + 1 = 1 then ev_primary_latency_ms it
      else ss_avg_primary_lat_ms s +
        (ev_primary_latency_ms it - ss_avg_primary_lat_ms s) / real (unat (ss_total_evaluated s + 1)))"
  "ss_avg_shadow_lat_ms (stats_add it s) =
     (if ss_total_evaluated s + 1 = 1 then ev_shadow_latency_ms it
      else ss_avg_shadow_lat_ms s +
        (ev_shadow_latency_ms it - ss_avg_shadow_lat_ms s) / real (unat (ss_total_evaluated s + 1)))"
  by (simp_all add: stats_add_def Let_def shadow_succeeded_def)

lemma mean_step:
  fixes a :: real and its :: "'a list"
  assumes "a = (\<Sum>x\<leftarrow>its. f x) / real (length its)" "Suc (length its) < 2 ^ 64"
  shows "(if (of_nat (length its) + 1 :: 64 word) = 1 then f it
      else a + (f it - a) / real (unat (of_nat (length its) + 1 :: 64 word))) =
    (\<Sum>x\<leftarrow>its @ [it]. f x) / real (length (its @ [it]))"
proof -
  have n: "(of_nat (length its) + 1 :: 64 word) = of_nat (Suc (length its))" by simp
  note un = unat_of_nat_64 [OF assms(2)]
  have one: "(of_nat (length its) + 1 :: 64 word) = 1 \<longleftrightarrow> its = []"
  proof
    assume "(of_nat (length its) + 1 :: 64 word) = 1"
    with un n have "unat (1 :: 64 word) = Suc (length its)" by metis
    then show "its = []" by simp
  qed simp
  show ?thesis
  proof (cases "its = []")
    case False
    then have "0 < length its" by simp
    have r: "real (unat (of_nat (length its) + 1 :: 64 word)) = real (Suc (length its))"
      using un n by metis
    from running_mean [OF assms(1) \<open>0 < length its\<close>, of "f it"] show ?thesis
      unfolding r using False one by simp
  qed simp
qed

lemma stats_add_exact:
  assumes "stats_exact s its" "Suc (length its) < 2 ^ 64"
  shows "stats_exact (stats_add it s) (its @ [it])"
proof -
  note e = assms(1) [unfolded stats_exact_def]
  have t: "ss_total_evaluated s = of_nat (length its)" using e by blast
  have p: "ss_avg_primary_lat_ms s = (\<Sum>x\<leftarrow>its. ev_primary_latency_ms x) / real (length its)"
    "ss_avg_shadow_lat_ms s = (\<Sum>x\<leftarrow>its. ev_shadow_latency_ms x) / real (length its)" using e by blast+
  have "ss_avg_primary_lat_ms (stats_add it s) =
      (\<Sum>x\<leftarrow>its @ [it]. ev_primary_latency_ms x) / real (length (its @ [it]))"
    unfolding stats_add_sel t by (rule mean_step [OF p(1) assms(2)])
  moreover have "ss_avg_shadow_lat_ms (stats_add it s) =
      (\<Sum>x\<leftarrow>its @ [it]. ev_shadow_latency_ms x) / real (length (its @ [it]))"
    unfolding stats_add_sel t by (rule mean_step [OF p(2) assms(2)])
  ultimately show ?thesis using e by (simp add: stats_exact_def stats_add_sel(1-6))
qed

lemma cache_run_exact:
  assumes "cache_ok c" "sc_stats c = stats_zero" "cache_log c = []" "length its < 2 ^ 64"
  shows "cache_ok (cache_run c its) \<and> stats_exact (sc_stats (cache_run c its)) its \<and>
    cache_log (cache_run c its) = last_n (length (sc_items c)) (map Some its) \<and>
    length (sc_items (cache_run c its)) = length (sc_items c)"
  using assms(4)
proof (induction its rule: rev_induct)
  case Nil
  then show ?case using assms(1-3) by (simp add: cache_run_def stats_exact_def stats_zero_def)
next
  case (snoc it its)
  let ?c = "cache_run c its"
  have IH: "cache_ok ?c" "stats_exact (sc_stats ?c) its" "length (sc_items ?c) = length (sc_items c)"
      "cache_log ?c = last_n (length (sc_items c)) (map Some its)"
    using snoc by simp_all
  have step: "cache_run c (its @ [it]) = shadow_eval_cache_record ?c it" by (simp add: cache_run_def)
  have pos: "0 < length (sc_items c)" using assms(1) by (auto simp: cache_ok_def)
  show ?case
    using cache_record_log [OF IH(1), of it] IH stats_add_exact [OF IH(2), of it] snoc.prems
      last_n_snoc [OF pos, of "map Some its" "Some it"]
    by (simp add: step)
qed

text \<open>After any evaluations the statistics are exact: the counts of all, of the successful and of the
  failed ones, the sums of the costs and of the positive savings, and the running averages are
  the means of all latencies; and the cache returns the most recent evaluations, newest first.\<close>

theorem shadow_stats_exact:
  assumes "shadow_eval_cache_create True True cap = Some c" and "length its < 2 ^ 64"
  shows "stats_exact (shadow_eval_cache_get_stats (cache_run c its)) its \<and>
    shadow_eval_cache_get_recent (cache_run c its) n =
      take (nat n) (rev (last_n (if cap = 0 then 200 else cap) (map Some its)))"
proof -
  have c: "cache_ok c" "sc_stats c = stats_zero" "cache_log c = []"
      "length (sc_items c) = (if cap = 0 then 200 else cap)"
    using assms(1) by (auto simp: shadow_eval_cache_create_def cache_ok_def cache_log_def Let_def
        SHADOW_EVAL_DEFAULT_CAPACITY_def)
  show ?thesis
    using cache_run_exact [OF c(1-3) assms(2)] c(4)
    by (simp add: shadow_eval_cache_get_stats_def get_recent_log)
qed

theorem shadow_stats_exact_witness:
  "\<exists>c. shadow_eval_cache_create True True 2 = Some c \<and>
     stats_exact (shadow_eval_cache_get_stats (cache_run c (map slot_item [set_shadow stub_side slot_zero, slot_zero, slot_zero])))
       (map slot_item [set_shadow stub_side slot_zero, slot_zero, slot_zero]) \<and>
     shadow_eval_cache_get_recent (cache_run c (map slot_item [set_shadow stub_side slot_zero, slot_zero, slot_zero])) 1 =
       [Some (slot_item slot_zero)]"
proof -
  obtain c where c: "shadow_eval_cache_create True True 2 = Some c"
    by (simp add: shadow_eval_cache_create_def Let_def)
  show ?thesis
    using shadow_stats_exact [OF c, of "map slot_item [set_shadow stub_side slot_zero, slot_zero, slot_zero]" 1] c
    by (simp add: last_n_def)
qed

section \<open>Pending pairs\<close>

definition pend :: "shadow_engine \<Rightarrow> string \<Rightarrow> pairing_slot option" where
  "pend eng = st_view ps_active ps_eval_id (se_pairing_slots eng)"

definition evals :: "shadow_engine \<Rightarrow> shadow_eval_item option list" where
  "evals eng = cache_log (se_cache eng)"

definition eng_ok :: "shadow_engine \<Rightarrow> bool" where
  "eng_ok eng \<longleftrightarrow> st_ok ps_active ps_eval_id (se_pairing_slots eng) \<and> cache_ok (se_cache eng)"

definition cache_cap :: "shadow_engine \<Rightarrow> nat" where
  "cache_cap eng = length (sc_items (se_cache eng))"

lemma set_side_keeps [simp]:
  "ps_active (set_primary d s) = ps_active s" "ps_eval_id (set_primary d s) = ps_eval_id s"
  "ps_active (set_shadow d s) = ps_active s" "ps_eval_id (set_shadow d s) = ps_eval_id s"
  "ps_primary_done (set_primary d s)" "ps_shadow_done (set_shadow d s)"
  "ps_shadow_done (set_primary d s) = ps_shadow_done s" "ps_primary_done (set_shadow d s) = ps_primary_done s"
  by (simp_all add: set_primary_def set_shadow_def)

lemma set_sides_commute: "set_shadow d (set_primary p s) = set_primary p (set_shadow d s)"
  by (cases "sd_resp_snippet d"; cases "sd_resp_snippet p") (simp_all add: set_primary_def set_shadow_def)

lemma pend_find: "pend eng k = None \<longleftrightarrow> pairing_find eng k = None"
  "pairing_find eng k = Some i \<Longrightarrow> pend eng k = Some (se_pairing_slots eng ! i)"
  by (simp_all add: pend_def pairing_find_def st_view_def)

text \<open>Storing a side without and with a commit.\<close>

lemma side_stored:
  assumes "eng_ok eng" "pairing_find eng k = Some i" "ps_active y" "ps_eval_id y = k"
    and "eng' = eng\<lparr>se_pairing_slots := (se_pairing_slots eng)[i := y]\<rparr>"
  shows "eng_ok eng' \<and> pend eng' = (pend eng)(k \<mapsto> y) \<and> evals eng' = evals eng \<and> cache_cap eng' = cache_cap eng"
  using assms st_update [of ps_active ps_eval_id "se_pairing_slots eng" k i y]
  by (simp add: eng_ok_def pend_def evals_def cache_cap_def pairing_find_def)

lemma commit_eq:
  assumes "i < length (se_pairing_slots eng)"
  shows "commit_pairing_slot (eng\<lparr>se_pairing_slots := (se_pairing_slots eng)[i := y]\<rparr>) i =
    eng\<lparr>se_pairing_slots := (se_pairing_slots eng)[i := ps_active_update (\<lambda>_. False) y],
        se_cache := shadow_eval_cache_record (se_cache eng) (slot_item y)\<rparr>"
  using assms unfolding commit_pairing_slot_def Let_def by (cases eng) simp

lemma side_committed:
  assumes "eng_ok eng" "pairing_find eng k = Some i"
    and "eng' = commit_pairing_slot (eng\<lparr>se_pairing_slots := (se_pairing_slots eng)[i := y]\<rparr>) i"
  shows "eng_ok eng' \<and> pend eng' = (pend eng)(k := None) \<and>
    evals eng' = last_n (cache_cap eng) (evals eng @ [Some (slot_item y)]) \<and> cache_cap eng' = cache_cap eng"
proof -
  have f: "st_find ps_active ps_eval_id (se_pairing_slots eng) k = Some i"
    using assms(2) by (simp only: pairing_find_def)
  obtain z where z: "z = ps_active_update (\<lambda>_. False) y" "\<not> ps_active z" by simp
  note e = assms(3) [unfolded commit_eq [OF conjunct1 [OF st_findD [OF f]]], folded z(1)]
  have ok: "st_ok ps_active ps_eval_id (se_pairing_slots eng)" "cache_ok (se_cache eng)"
    using assms(1) by (simp_all only: eng_ok_def)
  have "se_pairing_slots eng' = (se_pairing_slots eng)[i := z]"
       "se_cache eng' = shadow_eval_cache_record (se_cache eng) (slot_item y)"
    unfolding e by simp_all
  with st_release [of ps_active ps_eval_id "se_pairing_slots eng" k i z, OF ok(1) f z(2)]
      cache_record_log [OF ok(2), of "slot_item y"]
  show ?thesis by (simp only: eng_ok_def pend_def evals_def cache_cap_def simp_thms)
qed

text \<open>What recording a side does, for either side: \<open>mine\<close> and \<open>other\<close> are the flags of the slot.\<close>

definition side_view ::
  "(pairing_slot \<Rightarrow> bool) \<Rightarrow> (pairing_slot \<Rightarrow> bool) \<Rightarrow> (pairing_slot \<Rightarrow> pairing_slot) \<Rightarrow>
   shadow_engine \<Rightarrow> string \<Rightarrow> shadow_engine \<Rightarrow> bool" where
  "side_view mine other upd eng k eng' \<longleftrightarrow>
     (case pend eng k of
       None \<Rightarrow> eng' = eng
     | Some s \<Rightarrow>
         if mine s then eng' = eng
         else if other s
         then pend eng' = (pend eng)(k := None) \<and>
              evals eng' = last_n (cache_cap eng) (evals eng @ [Some (slot_item (upd s))])
         else pend eng' = (pend eng)(k \<mapsto> upd s) \<and> evals eng' = evals eng)"

lemma record_side_view:
  assumes ok: "eng_ok eng" and f: "pairing_find eng k = Some i"
    and upd: "\<And>s. ps_active (upd s) = ps_active s" "\<And>s. ps_eval_id (upd s) = ps_eval_id s"
      "\<And>s. other (upd s) = other s"
    and e: "eng' = (if mine (se_pairing_slots eng ! i) then eng
      else if other (upd (se_pairing_slots eng ! i))
      then commit_pairing_slot (eng\<lparr>se_pairing_slots := (se_pairing_slots eng)[i := upd (se_pairing_slots eng ! i)]\<rparr>) i
      else eng\<lparr>se_pairing_slots := (se_pairing_slots eng)[i := upd (se_pairing_slots eng ! i)]\<rparr>)"
  shows "eng_ok eng' \<and> cache_cap eng' = cache_cap eng \<and> side_view mine other upd eng k eng'"
proof -
  obtain s where s: "s = se_pairing_slots eng ! i" by simp
  have d: "ps_active (upd s)" "ps_eval_id (upd s) = k"
    using st_findD [OF f [unfolded pairing_find_def]] unfolding upd s by simp_all
  have p: "pend eng k = Some s" using pend_find(2) [OF f] s by simp
  note e' = e [folded s]
  show ?thesis
  proof (cases "mine s")
    case True
    then show ?thesis using e' ok p by (simp add: side_view_def)
  next
    case m: False
    show ?thesis
    proof (cases "other s")
      case True
      with e' m have "eng' = commit_pairing_slot (eng\<lparr>se_pairing_slots := (se_pairing_slots eng)[i := upd s]\<rparr>) i"
        by (simp only: upd if_True if_False simp_thms)
      from side_committed [OF ok f this] m True p show ?thesis by (simp add: side_view_def)
    next
      case False
      with e' m have "eng' = eng\<lparr>se_pairing_slots := (se_pairing_slots eng)[i := upd s]\<rparr>"
        by (simp only: upd if_True if_False simp_thms)
      from side_stored [OF ok f d this] m False p show ?thesis by (simp add: side_view_def)
    qed
  qed
qed

lemma record_primary_view:
  assumes "eng_ok eng" "shadow_engine_record_primary eng (Some k) d = (eng', r)"
  shows "eng_ok eng' \<and> cache_cap eng' = cache_cap eng \<and> r = (pend eng k \<noteq> None) \<and>
    side_view ps_primary_done ps_shadow_done (set_primary d) eng k eng'"
proof (cases "pairing_find eng k")
  case None
  then show ?thesis using assms pend_find(1) [of eng k]
    by (simp add: shadow_engine_record_primary_def side_view_def)
next
  case (Some i)
  have "eng' = (if ps_primary_done (se_pairing_slots eng ! i) then eng
      else if ps_shadow_done (set_primary d (se_pairing_slots eng ! i))
      then commit_pairing_slot (eng\<lparr>se_pairing_slots := (se_pairing_slots eng)[i := set_primary d (se_pairing_slots eng ! i)]\<rparr>) i
      else eng\<lparr>se_pairing_slots := (se_pairing_slots eng)[i := set_primary d (se_pairing_slots eng ! i)]\<rparr>)" "r"
    using assms(2) unfolding shadow_engine_record_primary_def option.case Some Let_def
    by (cases "ps_primary_done (se_pairing_slots eng ! i)"; simp only: if_True if_False prod.inject)+
  with record_side_view [of eng k i "set_primary d" ps_shadow_done eng' ps_primary_done, OF assms(1) Some]
    pend_find(2) [OF Some]
  show ?thesis by (simp only: set_side_keeps simp_thms option.simps)
qed

lemma record_shadow_view:
  assumes "eng_ok eng" "shadow_engine_record_shadow eng (Some k) d = (eng', r)"
  shows "eng_ok eng' \<and> cache_cap eng' = cache_cap eng \<and> r = (pend eng k \<noteq> None) \<and>
    side_view ps_shadow_done ps_primary_done (set_shadow d) eng k eng'"
proof (cases "pairing_find eng k")
  case None
  then show ?thesis using assms pend_find(1) [of eng k]
    by (simp add: shadow_engine_record_shadow_def side_view_def)
next
  case (Some i)
  have "eng' = (if ps_shadow_done (se_pairing_slots eng ! i) then eng
      else if ps_primary_done (set_shadow d (se_pairing_slots eng ! i))
      then commit_pairing_slot (eng\<lparr>se_pairing_slots := (se_pairing_slots eng)[i := set_shadow d (se_pairing_slots eng ! i)]\<rparr>) i
      else eng\<lparr>se_pairing_slots := (se_pairing_slots eng)[i := set_shadow d (se_pairing_slots eng ! i)]\<rparr>)" "r"
    using assms(2) unfolding shadow_engine_record_shadow_def option.case Some Let_def
    by (cases "ps_shadow_done (se_pairing_slots eng ! i)"; simp only: if_True if_False prod.inject)+
  with record_side_view [of eng k i "set_shadow d" ps_primary_done eng' ps_shadow_done, OF assms(1) Some]
    pend_find(2) [OF Some]
  show ?thesis by (simp only: set_side_keeps simp_thms option.simps)
qed

text \<open>The slot of a new pair.\<close>

definition new_slot ::
  "string \<Rightarrow> string option \<Rightarrow> string option \<Rightarrow> string option \<Rightarrow> traffic_mode \<Rightarrow> string option \<Rightarrow> 64 word \<Rightarrow> pairing_slot" where
  "new_slot eid tr src tgt md pv now = slot_zero\<lparr>ps_active := True, ps_eval_id := eid,
     ps_trace_id := cstr_copy 33 (cstr_or_empty tr), ps_source_model := cstr_copy 64 (cstr_or_empty src),
     ps_target_model := cstr_copy 64 (cstr_or_empty tgt), ps_mode := md,
     ps_prompt_preview := cstr_copy 256 (cstr_or_empty pv), ps_timestamp_us := now\<rparr>"

lemma start_pairing_view:
  assumes "eng_ok eng" "length k < 33" "pend eng k = None"
    and "shadow_engine_start_pairing eng (Some k) tr src tgt md pv now = (eng', r)"
  shows "eng_ok eng' \<and> cache_cap eng' = cache_cap eng \<and> evals eng' = evals eng \<and>
    (if r then pend eng' = (pend eng)(k \<mapsto> new_slot k tr src tgt md pv now) else eng' = eng)"
proof (cases "st_free_slot ps_active (se_pairing_slots eng)")
  case None
  then show ?thesis using assms by (simp add: shadow_engine_start_pairing_def)
next
  case (Some i)
  let ?y = "new_slot k tr src tgt md pv now"
  have e: "eng' = eng\<lparr>se_pairing_slots := (se_pairing_slots eng)[i := ?y]\<rparr>" "r"
    using assms(2,4) Some by (simp_all add: shadow_engine_start_pairing_def new_slot_def Let_def)
  have y: "ps_active ?y" "ps_eval_id ?y = k" by (simp_all add: new_slot_def)
  show ?thesis
    using st_alloc [of ps_active ps_eval_id "se_pairing_slots eng" i ?y, OF _ Some y(1)] assms(1,3) y(2) e
    by (simp add: eng_ok_def pend_def evals_def cache_cap_def)
qed

section \<open>Runs\<close>

datatype se_op =
    SeStart string "string option" "string option" "string option" traffic_mode "string option" "64 word"
  | SePrimary string side | SeShadow string side | SeSubmit shadow_task | SeTake

fun se_do :: "shadow_engine \<Rightarrow> se_op \<Rightarrow> shadow_engine \<times> bool" where
  "se_do eng (SeStart k tr src tgt md pv now) = shadow_engine_start_pairing eng (Some k) tr src tgt md pv now"
| "se_do eng (SePrimary k d) = shadow_engine_record_primary eng (Some k) d"
| "se_do eng (SeShadow k d) = shadow_engine_record_shadow eng (Some k) d"
| "se_do eng (SeSubmit t) = shadow_engine_submit_task eng (Some t)"
| "se_do eng SeTake = (case shadow_worker_take eng of (eng', t) \<Rightarrow> (eng', t \<noteq> None))"

fun se_run :: "shadow_engine \<Rightarrow> se_op list \<Rightarrow> shadow_engine" where
  "se_run eng [] = eng"
| "se_run eng (x # xs) = se_run (fst (se_do eng x)) xs"

fun se_about :: "se_op \<Rightarrow> string \<Rightarrow> bool" where
  "se_about (SeStart k tr src tgt md pv now) j = (k = j)"
| "se_about (SePrimary k d) j = (k = j)"
| "se_about (SeShadow k d) j = (k = j)"
| "se_about _ j = False"

text \<open>Every pair started has an id that fits the buffer and is not pending.\<close>

fun fresh_starts :: "shadow_engine \<Rightarrow> se_op list \<Rightarrow> bool" where
  "fresh_starts eng [] = True"
| "fresh_starts eng (x # xs) =
     ((case x of SeStart k tr src tgt md pv now \<Rightarrow> length k < 33 \<and> pend eng k = None | _ \<Rightarrow> True) \<and>
      fresh_starts (fst (se_do eng x)) xs)"

lemma se_queue_only:
  "pend (eng\<lparr>se_queue := q\<rparr>) = pend eng" "evals (eng\<lparr>se_queue := q\<rparr>) = evals eng"
  "eng_ok (eng\<lparr>se_queue := q\<rparr>) = eng_ok eng" "cache_cap (eng\<lparr>se_queue := q\<rparr>) = cache_cap eng"
  by (simp_all add: pend_def evals_def eng_ok_def cache_cap_def)

lemma se_do_other:
  assumes "eng_ok eng" "fresh_starts eng [x]" "\<not> se_about x k"
  shows "eng_ok (fst (se_do eng x)) \<and> pend (fst (se_do eng x)) k = pend eng k \<and>
    cache_cap (fst (se_do eng x)) = cache_cap eng"
proof (cases x)
  case (SeStart j tr src tgt md pv now)
  obtain eng' r where "shadow_engine_start_pairing eng (Some j) tr src tgt md pv now = (eng', r)" by (metis surj_pair)
  with start_pairing_view [OF assms(1) _ _ this] SeStart assms show ?thesis by (cases r) auto
next
  case (SePrimary j d)
  obtain eng' r where "shadow_engine_record_primary eng (Some j) d = (eng', r)" by (metis surj_pair)
  with record_primary_view [OF assms(1) this] SePrimary assms show ?thesis
    by (cases "pend eng j") (auto simp: side_view_def split: if_splits)
next
  case (SeShadow j d)
  obtain eng' r where "shadow_engine_record_shadow eng (Some j) d = (eng', r)" by (metis surj_pair)
  with record_shadow_view [OF assms(1) this] SeShadow assms show ?thesis
    by (cases "pend eng j") (auto simp: side_view_def split: if_splits)
next
  case (SeSubmit t)
  then show ?thesis using assms(1) by (auto simp: shadow_engine_submit_task_def se_queue_only split: prod.splits)
next
  case SeTake
  then show ?thesis using assms(1)
    by (auto simp: shadow_worker_take_def se_queue_only split: prod.splits option.splits)
qed

lemma se_run_other:
  "eng_ok eng \<Longrightarrow> fresh_starts eng xs \<Longrightarrow> \<forall>x \<in> set xs. \<not> se_about x k \<Longrightarrow>
   eng_ok (se_run eng xs) \<and> pend (se_run eng xs) k = pend eng k \<and> cache_cap (se_run eng xs) = cache_cap eng"
proof (induction xs arbitrary: eng)
  case (Cons x xs)
  from se_do_other [OF Cons.prems(1), of x k] Cons.IH [of "fst (se_do eng x)"] Cons.prems show ?case by simp
qed simp

lemma se_run_append [simp]: "se_run eng (xs @ ys) = se_run (se_run eng xs) ys"
  by (induction xs arbitrary: eng) auto

lemma fresh_starts_append [simp]:
  "fresh_starts eng (xs @ ys) \<longleftrightarrow> fresh_starts eng xs \<and> fresh_starts (se_run eng xs) ys"
  by (induction xs arbitrary: eng) auto

section \<open>Every pair is committed once\<close>

definition new_engine :: "nat \<Rightarrow> nat \<Rightarrow> shadow_engine option" where
  "new_engine c1 c2 = shadow_engine_create True (shadow_queue_create True True c1) (shadow_eval_cache_create True True c2)"

lemma new_engine_ok:
  assumes "new_engine c1 c2 = Some e"
  shows "eng_ok e \<and> cache_cap e = (if c2 = 0 then 200 else c2) \<and> pend e k = None \<and>
    se_pairing_slots e = replicate 256 slot_zero"
proof -
  have z: "\<not> ps_active slot_zero" by (simp add: slot_zero_def)
  have e: "se_pairing_slots e = replicate 256 slot_zero"
      "se_cache e = \<lparr>sc_items = replicate (if c2 = 0 then 200 else c2) None, sc_head = 0, sc_count = 0, sc_stats = stats_zero\<rparr>"
    using assms by (auto simp: new_engine_def shadow_engine_create_def shadow_queue_create_def Let_def
        shadow_eval_cache_create_def SHADOW_EVAL_DEFAULT_CAPACITY_def SHADOW_PAIRING_SLOTS_CAPACITY_def)
  have ok: "st_ok ps_active ps_eval_id (replicate 256 slot_zero)" using z by (simp add: st_ok_def)
  show ?thesis
    using e ok st_view_none_iff [OF ok, of k] z
    by (simp add: eng_ok_def cache_cap_def pend_def cache_ok_def)
qed

lemma se_run_ok:
  "eng_ok eng \<Longrightarrow> fresh_starts eng xs \<Longrightarrow>
   eng_ok (se_run eng xs) \<and> cache_cap (se_run eng xs) = cache_cap eng"
proof (induction xs arbitrary: eng)
  case (Cons x xs)
  obtain k where k: "\<not> se_about x k"
  proof (cases x)
    case (SeStart j tr src tgt md pv now)
    with that [of "''x'' @ j"] show ?thesis by auto
  next
    case (SePrimary j d)
    with that [of "''x'' @ j"] show ?thesis by auto
  next
    case (SeShadow j d)
    with that [of "''x'' @ j"] show ?thesis by auto
  qed (use that in auto)
  from se_do_other [OF Cons.prems(1), of x k] k Cons.IH [of "fst (se_do eng x)"] Cons.prems show ?case by simp
qed simp

text \<open>The two reports of a pair, in either order.\<close>

definition both_reports :: "string \<Rightarrow> side \<Rightarrow> side \<Rightarrow> (se_op \<times> se_op) set" where
  "both_reports k p d = {(SePrimary k p, SeShadow k d), (SeShadow k d, SePrimary k p)}"

lemma new_slot_flags [simp]:
  "\<not> ps_primary_done (new_slot k tr src tgt md pv now)" "\<not> ps_shadow_done (new_slot k tr src tgt md pv now)"
  by (simp_all add: new_slot_def slot_zero_def)

text \<open>The first report is kept, the second one commits.\<close>

lemma first_report:
  assumes "eng_ok eng" "pend eng k = Some s" "\<not> ps_primary_done s" "\<not> ps_shadow_done s"
    "(x, y) \<in> both_reports k p d"
  shows "pend (fst (se_do eng x)) k = Some (if x = SePrimary k p then set_primary p s else set_shadow d s) \<and>
    evals (fst (se_do eng x)) = evals eng \<and> eng_ok (fst (se_do eng x))"
proof -
  obtain ep rp where p: "shadow_engine_record_primary eng (Some k) p = (ep, rp)" by (metis surj_pair)
  obtain es rs where d: "shadow_engine_record_shadow eng (Some k) d = (es, rs)" by (metis surj_pair)
  show ?thesis
    using assms(2-5) record_primary_view [OF assms(1) p] record_shadow_view [OF assms(1) d]
    by (auto simp: both_reports_def side_view_def p d)
qed

lemma second_report:
  assumes "eng_ok eng" "pend eng k = Some (if x = SePrimary k p then set_primary p s else set_shadow d s)"
    "\<not> ps_primary_done s" "\<not> ps_shadow_done s" "(x, y) \<in> both_reports k p d"
  shows "pend (fst (se_do eng y)) k = None \<and> eng_ok (fst (se_do eng y)) \<and>
    evals (fst (se_do eng y)) =
      last_n (cache_cap eng) (evals eng @ [Some (slot_item (set_shadow d (set_primary p s)))])"
proof -
  obtain ep rp where p: "shadow_engine_record_primary eng (Some k) p = (ep, rp)" by (metis surj_pair)
  obtain es rs where d: "shadow_engine_record_shadow eng (Some k) d = (es, rs)" by (metis surj_pair)
  show ?thesis
    using assms(2-5) record_primary_view [OF assms(1) p] record_shadow_view [OF assms(1) d]
    by (auto simp: both_reports_def side_view_def p d set_sides_commute)
qed

lemma late_report:
  assumes "eng_ok eng" "pend eng k = None"
  shows "se_do eng (SePrimary k p) = (eng, False) \<and> se_do eng (SeShadow k d) = (eng, False)"
proof -
  obtain ep rp where p: "shadow_engine_record_primary eng (Some k) p = (ep, rp)" by (metis surj_pair)
  obtain es rs where d: "shadow_engine_record_shadow eng (Some k) d = (es, rs)" by (metis surj_pair)
  show ?thesis
    using assms(2) record_primary_view [OF assms(1) p] record_shadow_view [OF assms(1) d]
    by (simp add: side_view_def p d)
qed

text \<open>C19. After any run of a new engine: when a pair has been started and its two results arrive, in either
  order and with any operations on other pairs, submissions and worker steps in between, the first
  leaves the cache alone; the second appends the item with the results of both sides, oldest entry
  evicted when the cache is full, and gives the slot back; after it, further results for the pair
  are refused.\<close>

theorem shadow_pair_committed_once:
  assumes "new_engine c1 c2 = Some e0"
    and "fresh_starts e0 (pre @ SeStart k tr src tgt md pv now # m1 @ x # m2)"
    and "snd (se_do (se_run e0 pre) (SeStart k tr src tgt md pv now))"
    and "\<forall>op \<in> set (m1 @ m2). \<not> se_about op k"
    and "(x, y) \<in> both_reports k p d"
    and "e1 = se_run e0 (pre @ SeStart k tr src tgt md pv now # m1)"
    and "e2 = se_run e0 (pre @ SeStart k tr src tgt md pv now # m1 @ x # m2)"
    and "e3 = fst (se_do e2 y)"
  shows "evals (fst (se_do e1 x)) = evals e1 \<and>
    evals e3 = last_n (if c2 = 0 then 200 else c2)
      (evals e2 @ [Some (slot_item (set_shadow d (set_primary p (new_slot k tr src tgt md pv now))))]) \<and>
    pend e3 k = None \<and> se_do e3 (SePrimary k p') = (e3, False) \<and> se_do e3 (SeShadow k d') = (e3, False)"
proof -
  let ?e = "se_run e0 pre" and ?s = "new_slot k tr src tgt md pv now"
  have fresh: "fresh_starts e0 pre" "length k < 33" "pend ?e k = None"
      "fresh_starts (fst (se_do ?e (SeStart k tr src tgt md pv now))) m1" "fresh_starts (fst (se_do e1 x)) m2"
    using assms(2,6) by simp_all
  have ok: "eng_ok ?e" "cache_cap ?e = (if c2 = 0 then 200 else c2)"
    using se_run_ok [OF _ fresh(1)] new_engine_ok [OF assms(1)] by simp_all
  obtain es r where st: "shadow_engine_start_pairing ?e (Some k) tr src tgt md pv now = (es, r)" by (metis surj_pair)
  then have es: "eng_ok es" "cache_cap es = cache_cap ?e" "pend es k = Some ?s"
    using start_pairing_view [OF ok(1) fresh(2,3) st] assms(3) by simp_all
  have e1: "eng_ok e1" "cache_cap e1 = cache_cap ?e" "pend e1 k = Some ?s"
    using se_run_other [OF es(1), of m1 k] es fresh(4) assms(4,6) st by auto
  note f = first_report [OF e1(1,3) _ _ assms(5), simplified]
  have cap1: "cache_cap (fst (se_do e1 x)) = cache_cap ?e"
    using se_run_ok [OF e1(1), of "[x]"] assms(2,6) e1(2) by simp
  have e2: "eng_ok e2" "cache_cap e2 = cache_cap ?e"
      "pend e2 k = Some (if x = SePrimary k p then set_primary p ?s else set_shadow d ?s)"
    using se_run_other [of "fst (se_do e1 x)" m2 k] f fresh(5) assms(4,6,7) cap1 by auto
  have e3: "pend e3 k = None" "eng_ok e3"
      "evals e3 = last_n (cache_cap e2) (evals e2 @ [Some (slot_item (set_shadow d (set_primary p ?s)))])"
    using second_report [OF e2(1,3) _ _ assms(5)] assms(8) by simp_all
  show ?thesis using f e3 e2(2) ok(2) late_report [OF e3(2,1)] by simp
qed

lemma free_slot_new: "st_free_slot ps_active (replicate 256 slot_zero) = Some 0"
proof -
  have "(256::nat) = Suc 255" by simp
  then have "replicate 256 slot_zero = slot_zero # replicate 255 slot_zero" by (metis replicate_Suc)
  then show ?thesis by (simp add: st_free_slot_def slot_zero_def)
qed

lemma new_engine_accepts:
  assumes "new_engine c1 c2 = Some e0"
  shows "snd (se_do e0 (SeStart k tr src tgt md pv now))"
  using new_engine_ok [OF assms, of k]
  by (simp add: shadow_engine_start_pairing_def free_slot_new Let_def)

theorem shadow_pair_committed_once_witness:
  "\<exists>e0 e1 e2. new_engine 1 1 = Some e0 \<and>
     evals (fst (se_do e1 (SeShadow ''a'' stub_side))) = evals e1 \<and>
     evals (fst (se_do e2 (SePrimary ''a'' stub_side))) = last_n 1 (evals e2 @
       [Some (slot_item (set_shadow stub_side (set_primary stub_side
          (new_slot ''a'' None (Some ''m'') (Some ''t'') TRAFFIC_MODE_SHADOW None 7))))])"
proof -
  obtain e0 where e0: "new_engine 1 1 = Some e0"
    by (simp add: new_engine_def shadow_engine_create_def shadow_queue_create_def shadow_eval_cache_create_def Let_def)
  have "fresh_starts e0 ([] @ SeStart ''a'' None (Some ''m'') (Some ''t'') TRAFFIC_MODE_SHADOW None 7 #
      [] @ SeShadow ''a'' stub_side # [SeTake])"
    using new_engine_ok [OF e0, of "''a''"] by simp
  note c = shadow_pair_committed_once [OF e0 this _ _ _ refl refl refl, of "SePrimary ''a'' stub_side" stub_side stub_side]
  have "snd (se_do (se_run e0 []) (SeStart ''a'' None (Some ''m'') (Some ''t'') TRAFFIC_MODE_SHADOW None 7))"
    using new_engine_accepts [OF e0] by simp
  from c [OF this] e0 show ?thesis
    by (simp add: both_reports_def del: fresh_starts.simps se_run.simps se_do.simps) blast
qed

section \<open>Slots whose task was lost\<close>

fun is_shadow_report :: "se_op \<Rightarrow> bool" where
  "is_shadow_report (SeShadow k d) = True"
| "is_shadow_report _ = False"

text \<open>The number of starts that got a slot.\<close>

fun accepted_starts :: "shadow_engine \<Rightarrow> se_op list \<Rightarrow> nat" where
  "accepted_starts eng [] = 0"
| "accepted_starts eng (x # xs) =
     (case x of SeStart k tr src tgt md pv now \<Rightarrow> if snd (se_do eng x) then 1 else 0 | _ \<Rightarrow> 0) +
     accepted_starts (fst (se_do eng x)) xs"

definition in_use :: "shadow_engine \<Rightarrow> nat" where
  "in_use eng = st_count ps_active (se_pairing_slots eng)"

definition no_shadow_done :: "shadow_engine \<Rightarrow> bool" where
  "no_shadow_done eng \<longleftrightarrow> (\<forall>k s. pend eng k = Some s \<longrightarrow> \<not> ps_shadow_done s)"

lemma start_in_use:
  assumes "eng_ok eng" "length k < 33" "pend eng k = None"
    and "shadow_engine_start_pairing eng (Some k) tr src tgt md pv now = (eng', r)"
  shows "in_use eng' = in_use eng + (if r then 1 else 0) \<and>
    r = (in_use eng < length (se_pairing_slots eng)) \<and> length (se_pairing_slots eng') = length (se_pairing_slots eng)"
proof (cases "st_free_slot ps_active (se_pairing_slots eng)")
  case None
  then show ?thesis using assms st_full [of ps_active "se_pairing_slots eng"]
    by (simp add: shadow_engine_start_pairing_def in_use_def)
next
  case (Some i)
  let ?y = "new_slot k tr src tgt md pv now"
  have e: "eng' = eng\<lparr>se_pairing_slots := (se_pairing_slots eng)[i := ?y]\<rparr>" "r"
    using assms(2,4) Some by (simp_all add: shadow_engine_start_pairing_def new_slot_def Let_def)
  have y: "ps_active ?y" "ps_eval_id ?y = k" by (simp_all add: new_slot_def)
  have "in_use eng \<noteq> length (se_pairing_slots eng)"
    using st_full [of ps_active "se_pairing_slots eng"] Some by (simp add: in_use_def)
  then have "in_use eng < length (se_pairing_slots eng)"
    using st_count_le [of ps_active "se_pairing_slots eng"] by (simp add: in_use_def)
  then show ?thesis
    using st_alloc [of ps_active ps_eval_id "se_pairing_slots eng" i ?y, OF _ Some y(1)] assms(1,3) y(2) e
    by (simp add: eng_ok_def pend_def in_use_def)
qed

lemma primary_in_use:
  assumes "eng_ok eng" "no_shadow_done eng" "shadow_engine_record_primary eng (Some k) d = (eng', r)"
  shows "in_use eng' = in_use eng \<and> length (se_pairing_slots eng') = length (se_pairing_slots eng)"
proof (cases "pairing_find eng k")
  case None
  then show ?thesis using assms(3) by (simp add: shadow_engine_record_primary_def)
next
  case (Some i)
  let ?y = "set_primary d (se_pairing_slots eng ! i)"
  note f = Some [unfolded pairing_find_def]
  have y: "ps_active ?y" "ps_eval_id ?y = k" "\<not> ps_shadow_done ?y"
    using st_findD [OF f] assms(2) pend_find(2) [OF Some] by (auto simp: no_shadow_done_def)
  have "eng' = eng \<or> eng' = eng\<lparr>se_pairing_slots := (se_pairing_slots eng)[i := ?y]\<rparr>"
    using assms(3) y(3) unfolding shadow_engine_record_primary_def option.case Some Let_def
    by (cases "ps_primary_done (se_pairing_slots eng ! i)") (simp_all only: if_True if_False prod.inject, auto)
  then show ?thesis
    using st_update [of ps_active ps_eval_id "se_pairing_slots eng" k i ?y, OF _ f y(1,2)] assms(1)
    by (auto simp: eng_ok_def in_use_def)
qed

lemma no_report_step:
  assumes "eng_ok eng" "no_shadow_done eng" "fresh_starts eng [x]" "\<not> is_shadow_report x"
  shows "no_shadow_done (fst (se_do eng x)) \<and> in_use (fst (se_do eng x)) = in_use eng + accepted_starts eng [x] \<and>
    length (se_pairing_slots (fst (se_do eng x))) = length (se_pairing_slots eng)"
proof (cases x)
  case (SeStart k tr src tgt md pv now)
  obtain eng' r where e: "shadow_engine_start_pairing eng (Some k) tr src tgt md pv now = (eng', r)" by (metis surj_pair)
  have k: "length k < 33" "pend eng k = None" using assms(3) SeStart by simp_all
  show ?thesis
    using start_in_use [OF assms(1) k e] start_pairing_view [OF assms(1) k e] assms(2) e SeStart
    by (cases r) (auto simp: no_shadow_done_def)
next
  case (SePrimary k d)
  obtain eng' r where e: "shadow_engine_record_primary eng (Some k) d = (eng', r)" by (metis surj_pair)
  show ?thesis
    using primary_in_use [OF assms(1,2) e] record_primary_view [OF assms(1) e] assms(2) e SePrimary
    by (auto simp: no_shadow_done_def side_view_def split: option.splits if_splits)
next
  case (SeSubmit t)
  then show ?thesis using assms(2)
    by (auto simp: shadow_engine_submit_task_def se_queue_only no_shadow_done_def in_use_def split: prod.splits)
next
  case SeTake
  then show ?thesis using assms(2)
    by (auto simp: shadow_worker_take_def se_queue_only no_shadow_done_def in_use_def split: prod.splits option.splits)
qed (use assms(4) in simp)

lemma no_report_run:
  "eng_ok eng \<Longrightarrow> no_shadow_done eng \<Longrightarrow> fresh_starts eng xs \<Longrightarrow> \<forall>x \<in> set xs. \<not> is_shadow_report x \<Longrightarrow>
   in_use (se_run eng xs) = in_use eng + accepted_starts eng xs \<and>
   length (se_pairing_slots (se_run eng xs)) = length (se_pairing_slots eng)"
proof (induction xs arbitrary: eng)
  case (Cons x xs)
  have "eng_ok (fst (se_do eng x))" using se_run_ok [of eng "[x]"] Cons.prems by simp
  with no_report_step [of eng x] Cons.IH [of "fst (se_do eng x)"] Cons.prems show ?case by simp
qed simp

text \<open>Nothing but the result of the shadow request gives a slot back: when the tasks are lost (a full queue,
  a stopped worker), whatever primary results, submissions and worker steps happen, every accepted
  start holds its slot; 256 are accepted in all, and from then on every start fails.\<close>

theorem shadow_lost_tasks_exhaust_slots:
  assumes "new_engine c1 c2 = Some e0" and "fresh_starts e0 xs" and "\<forall>x \<in> set xs. \<not> is_shadow_report x"
    and "length k < 33" and "pend (se_run e0 xs) k = None"
  shows "in_use (se_run e0 xs) = accepted_starts e0 xs \<and> accepted_starts e0 xs \<le> 256 \<and>
    (snd (se_do (se_run e0 xs) (SeStart k tr src tgt md pv now)) \<longleftrightarrow> accepted_starts e0 xs < 256)"
proof -
  note n = new_engine_ok [OF assms(1)]
  have z: "in_use e0 = 0" "no_shadow_done e0" "length (se_pairing_slots e0) = 256"
    using n by (simp_all add: in_use_def st_count_def slot_zero_def no_shadow_done_def)
  have r: "in_use (se_run e0 xs) = accepted_starts e0 xs" "length (se_pairing_slots (se_run e0 xs)) = 256"
    using no_report_run [OF _ z(2) assms(2,3)] n z by simp_all
  have ok: "eng_ok (se_run e0 xs)" using se_run_ok [OF _ assms(2)] n by simp
  obtain eng' b where e: "shadow_engine_start_pairing (se_run e0 xs) (Some k) tr src tgt md pv now = (eng', b)"
    by (metis surj_pair)
  show ?thesis
    using start_in_use [OF ok assms(4,5) e] r e st_count_le [of ps_active "se_pairing_slots (se_run e0 xs)"]
    by (simp add: in_use_def)
qed

theorem shadow_lost_tasks_exhaust_slots_witness:
  "\<exists>e0. new_engine 1 1 = Some e0 \<and>
     in_use (se_run e0 [SeStart ''a'' None None None TRAFFIC_MODE_SHADOW None 7, SePrimary ''a'' stub_side]) =
       accepted_starts e0 [SeStart ''a'' None None None TRAFFIC_MODE_SHADOW None 7, SePrimary ''a'' stub_side]"
proof -
  obtain e0 where e0: "new_engine 1 1 = Some e0"
    by (simp add: new_engine_def shadow_engine_create_def shadow_queue_create_def shadow_eval_cache_create_def Let_def)
  have n: "eng_ok e0" "pend e0 k = None" for k using new_engine_ok [OF e0] by simp_all
  have f: "fresh_starts e0 [SeStart ''a'' None None None TRAFFIC_MODE_SHADOW None 7, SePrimary ''a'' stub_side]"
    using n by simp
  have "pend (se_run e0 [SeStart ''a'' None None None TRAFFIC_MODE_SHADOW None 7, SePrimary ''a'' stub_side]) ''b'' = None"
    using se_run_other [OF n(1) f, of "''b''"] n(2) by simp
  from shadow_lost_tasks_exhaust_slots [OF e0 f _ _ this] e0 show ?thesis by fastforce
qed

end
