(* ===== verification/Model_Router.thy ===== *)
theory Model_Router
  imports Slot_Table Exchange_Sort Lru Circuit_Breaker Latency_Tracker Shadow
begin

text \<open>
  \<^verbatim>\<open>src/upstream/model_router.c\<close>: the table of requests in flight per endpoint, the cache of
  routes with their keys, the order in which the targets of a model are tried, canary routing and
  routing around a degraded model.

  Parameters: \<open>env\<close> is \<open>getenv\<close>, \<open>decrypt\<close> is \<open>secret_decrypt\<close> with the master key, \<open>store\<close> the store's
  \<open>get_model\<close>, \<open>clock\<close> gives the time of each call on the breaker, \<open>alloc\<close> its allocations. The
  breaker is \<open>None\<close> when there is none. Other handles, targets and output buffers are not NULL.
  \<open>int\<close> values are integers: the weights of at most 8 targets are taken to fit their sum.
\<close>

section \<open>State\<close>

definition MAX_TARGETS_PER_MODEL :: nat where "MAX_TARGETS_PER_MODEL = 8"
definition MR_MAX_CONCURRENT_TARGETS :: nat where "MR_MAX_CONCURRENT_TARGETS = 256"

record upstream_target =
  ut_provider :: string
  ut_endpoint :: string
  ut_upstream_key_ref :: string
  ut_upstream_key :: string
  ut_weight :: int
  ut_priority :: int
  ut_max_concurrent :: int

text \<open>The array of targets has 8 elements.\<close>

record model_rec =
  md_name :: string
  md_provider :: string
  md_endpoint :: string
  md_upstream_key_ref :: string
  md_default_params_json :: string
  md_enabled :: bool
  md_upstream_key :: string
  md_n_targets :: int
  md_targets :: "upstream_target list"
  md_lb_policy :: string
  md_pricing_json :: string
  md_system_prompt :: string
  md_prompt_mode :: int
  md_hedged_delay_ms :: int
  md_hedge_budget_pct :: int
  md_hedged_enabled :: bool
  md_max_concurrent :: int
  md_default_thinking_budget :: int
  md_supports_reasoning :: bool
  md_tag_emulation_default :: bool

record model_router =
  rt_routes :: "model_rec lru"
  rt_have_master :: bool

record target_slot =
  ts_endpoint :: string
  ts_in_flight :: int
  ts_in_use :: bool

text \<open>The static variables of the file.\<close>

record router_globals =
  g_target_slots :: "target_slot list"
  g_rr_counter :: "64 word"

definition model_router_new :: "bool \<Rightarrow> bool \<Rightarrow> bool \<Rightarrow> bool \<Rightarrow> model_router option" where
  "model_router_new ops_ok alloc_ok lru_ok have_master =
     (if \<not> ops_ok then None
      else if \<not> alloc_ok then None
      else case lru_new 1024 lru_ok of
             None \<Rightarrow> None
           | Some l \<Rightarrow> Some \<lparr>rt_routes = l, rt_have_master = have_master\<rparr>)"

section \<open>Requests in flight\<close>

abbreviation slot_find :: "target_slot list \<Rightarrow> string \<Rightarrow> nat option" where
  "slot_find \<equiv> st_find ts_in_use ts_endpoint"

text \<open>The search without the mutex and the one under it have the same outcome in one atomic step.\<close>

definition find_or_create_slot :: "target_slot list \<Rightarrow> string \<Rightarrow> target_slot list \<times> nat option" where
  "find_or_create_slot slots endpoint =
     (if endpoint = [] then (slots, None)
      else case slot_find slots endpoint of
             Some i \<Rightarrow> (slots, Some i)
           | None \<Rightarrow>
               (case st_free_slot ts_in_use slots of
                  Some i \<Rightarrow> (slots[i := \<lparr>ts_endpoint = cstr_copy 512 endpoint, ts_in_flight = 0, ts_in_use = True\<rparr>], Some i)
                | None \<Rightarrow> (slots, None)))"

text \<open>The compare-and-exchange loop, which ends with the value it read still in place.\<close>

definition acquire_cas :: "target_slot list \<Rightarrow> nat \<Rightarrow> int \<Rightarrow> target_slot list \<times> int" where
  "acquire_cas slots i max_concurrent =
     (let cur = ts_in_flight (slots ! i)
      in if max_concurrent > 0 \<and> cur \<ge> max_concurrent then (slots, -1)
         else (slots[i := (slots ! i)\<lparr>ts_in_flight := cur + 1\<rparr>], 0))"

definition model_router_acquire_target :: "target_slot list \<Rightarrow> upstream_target \<Rightarrow> target_slot list \<times> int" where
  "model_router_acquire_target slots target =
     (if ut_endpoint target = [] then (slots, 0)
      else case find_or_create_slot slots (ut_endpoint target) of
             (slots1, None) \<Rightarrow> (slots1, 0)
           | (slots1, Some i) \<Rightarrow> acquire_cas slots1 i (ut_max_concurrent target))"

text \<open>The two atomic steps of a release: the subtraction, which says whether a store of 0 follows, and that
  store.\<close>

definition release_sub :: "target_slot list \<Rightarrow> upstream_target \<Rightarrow> target_slot list \<times> nat option" where
  "release_sub slots target =
     (if ut_endpoint target = [] then (slots, None)
      else case slot_find slots (ut_endpoint target) of
             None \<Rightarrow> (slots, None)
           | Some i \<Rightarrow>
               let prev = ts_in_flight (slots ! i)
               in (slots[i := (slots ! i)\<lparr>ts_in_flight := prev - 1\<rparr>], if prev \<le> 1 then Some i else None))"

definition release_store :: "target_slot list \<Rightarrow> nat \<Rightarrow> target_slot list" where
  "release_store slots i = slots[i := (slots ! i)\<lparr>ts_in_flight := 0\<rparr>]"

definition model_router_release_target :: "target_slot list \<Rightarrow> upstream_target \<Rightarrow> target_slot list" where
  "model_router_release_target slots target =
     (case release_sub slots target of
        (slots1, None) \<Rightarrow> slots1
      | (slots1, Some i) \<Rightarrow> release_store slots1 i)"

definition model_router_get_in_flight :: "target_slot list \<Rightarrow> string \<Rightarrow> int" where
  "model_router_get_in_flight slots endpoint =
     (if endpoint = [] then 0
      else case slot_find slots endpoint of
             None \<Rightarrow> 0
           | Some i \<Rightarrow> let val = ts_in_flight (slots ! i) in if val > 0 then val else 0)"

definition model_router_reset_concurrency :: "target_slot list \<Rightarrow> target_slot list" where
  "model_router_reset_concurrency slots =
     map (\<lambda>s. s\<lparr>ts_in_flight := 0, ts_in_use := False, ts_endpoint := []\<rparr>) slots"

definition model_router_snapshot_in_flight :: "target_slot list \<Rightarrow> int \<Rightarrow> (string \<times> int) list" where
  "model_router_snapshot_in_flight slots cap =
     (if cap \<le> 0 then []
      else take (nat cap)
             (map (\<lambda>s. (cstr_copy 512 (ts_endpoint s), if ts_in_flight s > 0 then ts_in_flight s else 0))
               (filter ts_in_use slots)))"

section \<open>Routes and keys\<close>

definition resolve_single_key ::
  "(string \<Rightarrow> string option) \<Rightarrow> (string \<Rightarrow> string option) \<Rightarrow> bool \<Rightarrow> string \<Rightarrow> string option" where
  "resolve_single_key env decrypt have_master key_ref =
     (if key_ref = [] then Some []
      else if take 4 key_ref = ''env:'' then
        (case env (drop 4 key_ref) of
           None \<Rightarrow> None
         | Some v \<Rightarrow> if v = [] then None else Some (cstr_copy 1024 v))
      else if take 3 key_ref = ''pg:'' then
        (if \<not> have_master then None else decrypt (drop 3 key_ref))
      else Some (cstr_copy 1024 key_ref))"

text \<open>The key of one target: its own reference or else the primary one; a failure leaves it empty.\<close>

definition resolve_target_key ::
  "(string \<Rightarrow> string option) \<Rightarrow> (string \<Rightarrow> string option) \<Rightarrow> bool \<Rightarrow> string \<Rightarrow> upstream_target \<Rightarrow> upstream_target" where
  "resolve_target_key env decrypt have_master primary_ref t =
     (let ref = (if ut_upstream_key_ref t \<noteq> [] then ut_upstream_key_ref t else primary_ref)
      in if ref \<noteq> [] then
           (case resolve_single_key env decrypt have_master ref of
              None \<Rightarrow> t\<lparr>ut_upstream_key := []\<rparr>
            | Some k \<Rightarrow> t\<lparr>ut_upstream_key := k\<rparr>)
         else t\<lparr>ut_upstream_key := []\<rparr>)"

text \<open>The last part: the primary key and that of target 0 stand in for each other.\<close>

definition harmonize_keys :: "model_rec \<Rightarrow> model_rec" where
  "harmonize_keys r =
     (if md_n_targets r > 0 then
        (let t = md_targets r ! 0
         in if ut_upstream_key t \<noteq> [] \<and> md_upstream_key r = []
            then r\<lparr>md_upstream_key := cstr_copy 1024 (ut_upstream_key t)\<rparr>
            else if md_upstream_key r \<noteq> [] \<and> ut_upstream_key t = []
            then r\<lparr>md_targets := (md_targets r)[0 := t\<lparr>ut_upstream_key := cstr_copy 1024 (md_upstream_key r)\<rparr>]\<rparr>
            else r)
      else r)"

text \<open>The record with its keys and the result code; both arguments of the call are the same record.\<close>

definition resolve_key ::
  "(string \<Rightarrow> string option) \<Rightarrow> (string \<Rightarrow> string option) \<Rightarrow> bool \<Rightarrow> model_rec \<Rightarrow> model_rec \<times> int" where
  "resolve_key env decrypt have_master rec =
     (let ref = md_upstream_key_ref rec;
          (out1, rc) =
            (if ref \<noteq> [] then
               (case resolve_single_key env decrypt have_master ref of
                  None \<Rightarrow> (rec, -1)
                | Some k \<Rightarrow> (rec\<lparr>md_upstream_key := k\<rparr>, 0))
             else (rec\<lparr>md_upstream_key := []\<rparr>, 0));
          n = min (nat (md_n_targets rec)) MAX_TARGETS_PER_MODEL;
          out2 = out1\<lparr>md_targets := map (resolve_target_key env decrypt have_master ref) (take n (md_targets out1)) @
                                  drop n (md_targets out1)\<rparr>
      in (harmonize_keys out2, rc))"

text \<open>The outer option is that of the LRU map. With a result other than 0 nothing is written.\<close>

definition model_router_resolve ::
  "model_router \<Rightarrow> (string \<Rightarrow> string option) \<Rightarrow> (string \<Rightarrow> string option) \<Rightarrow> (string \<Rightarrow> model_rec option) \<Rightarrow>
   bool \<Rightarrow> bool \<Rightarrow> string \<Rightarrow> (model_router \<times> int \<times> model_rec option) option" where
  "model_router_resolve mr env decrypt store copy_ok put_ok model = do {
     (routes, cached) \<leftarrow> lru_get (rt_routes mr) model;
     let mr1 = mr\<lparr>rt_routes := routes\<rparr>;
     (case cached of
        Some r \<Rightarrow> Some (mr1, 0, Some r)
      | None \<Rightarrow>
          (case store model of
             None \<Rightarrow> Some (mr1, -1, None)
           | Some fresh \<Rightarrow>
               (case resolve_key env decrypt (rt_have_master mr) fresh of
                  (r, rc) \<Rightarrow>
                    if rc \<noteq> 0 then Some (mr1, rc, None)
                    else if \<not> copy_ok then Some (mr1, -1, None)
                    else map_option (\<lambda>(l, ev). (mr1\<lparr>rt_routes := l\<rparr>, 0, Some r))
                           (lru_put routes model r put_ok))))
   }"

definition model_router_invalidate :: "model_router \<Rightarrow> string \<Rightarrow> model_router option" where
  "model_router_invalidate mr model =
     map_option (\<lambda>(l, found, ev). mr\<lparr>rt_routes := l\<rparr>) (lru_invalidate (rt_routes mr) model)"

section \<open>Candidates\<close>

text \<open>The copies of the targets that the selection works on, with their defaults; \<open>None\<close> for a model
  that has neither targets nor an endpoint.\<close>

definition default_provider :: "model_rec \<Rightarrow> string" where
  "default_provider model = (if md_provider model \<noteq> [] then md_provider model else ''openai'')"

definition normal_target :: "model_rec \<Rightarrow> upstream_target \<Rightarrow> upstream_target" where
  "normal_target model t =
     (let t1 = (if ut_max_concurrent t \<le> 0 \<and> md_max_concurrent model > 0
                then t\<lparr>ut_max_concurrent := md_max_concurrent model\<rparr> else t);
          t2 = (if ut_provider t1 = [] then t1\<lparr>ut_provider := cstr_copy 32 (default_provider model)\<rparr> else t1);
          t3 = (if ut_weight t2 \<le> 0 then t2\<lparr>ut_weight := 1\<rparr> else t2)
      in if ut_upstream_key t3 = [] \<and> md_upstream_key model \<noteq> []
         then t3\<lparr>ut_upstream_key := cstr_copy 1024 (md_upstream_key model)\<rparr> else t3)"

definition src_targets :: "model_rec \<Rightarrow> upstream_target list option" where
  "src_targets model =
     (if md_n_targets model \<le> 0 then
        (if md_endpoint model = [] then None
         else Some [\<lparr>ut_provider = cstr_copy 32 (default_provider model), ut_endpoint = cstr_copy 512 (md_endpoint model),
                     ut_upstream_key_ref = cstr_copy 1024 (md_upstream_key_ref model),
                     ut_upstream_key = cstr_copy 1024 (md_upstream_key model), ut_weight = 1, ut_priority = 0,
                     ut_max_concurrent = md_max_concurrent model\<rparr>])
      else Some (map (normal_target model) (take (min (nat (md_n_targets model)) MAX_TARGETS_PER_MODEL) (md_targets model))))"

text \<open>The priorities, in the order of their first occurrence.\<close>

fun distinct_prios :: "int list \<Rightarrow> int list \<Rightarrow> int list" where
  "distinct_prios acc [] = acc"
| "distinct_prios acc (p # ps) = distinct_prios (if p \<in> set acc then acc else acc @ [p]) ps"

definition sorted_prios :: "upstream_target list \<Rightarrow> int list" where
  "sorted_prios srcs = ex_sort (<) (distinct_prios [] (map ut_priority srcs))"

text \<open>One call of \<open>cb_allow_request\<close> for every target.\<close>

fun breaker_snapshot ::
  "circuit_breaker option \<Rightarrow> cb_redis \<Rightarrow> (nat \<Rightarrow> int) \<Rightarrow> (nat \<Rightarrow> bool) \<Rightarrow> string \<Rightarrow> nat \<Rightarrow> upstream_target list \<Rightarrow>
   circuit_breaker option \<times> bool list" where
  "breaker_snapshot cb redis clock alloc name i [] = (cb, [])"
| "breaker_snapshot cb redis clock alloc name i (t # ts) =
     (let (cb1, ok) = (case cb of
                         None \<Rightarrow> (None, True)
                       | Some b \<Rightarrow> (case cb_allow_request b redis (clock i) (alloc i) (Some name) (Some (ut_endpoint t)) of
                                    (b', ok) \<Rightarrow> (Some b', ok)));
          (cb2, oks) = breaker_snapshot cb1 redis clock alloc name (Suc i) ts
      in (cb2, ok # oks))"

definition is_saturated :: "target_slot list \<Rightarrow> upstream_target \<Rightarrow> bool" where
  "is_saturated slots t \<longleftrightarrow>
     ut_max_concurrent t > 0 \<and> model_router_get_in_flight slots (ut_endpoint t) \<ge> ut_max_concurrent t"

text \<open>The first position whose accumulated weight exceeds \<open>pick\<close>, 0 when there is none.\<close>

text \<open>
  A sum in a C \<^verbatim>\<open>int\<close>. C leaves its overflow open; it is taken to wrap around in 32 bits. The comparison
  with the pick converts the sum to an unsigned number, so that a negative sum is above every pick.
\<close>

definition c_int :: "int \<Rightarrow> int" where
  "c_int x = sint (word_of_int x :: 32 word)"

fun roulette :: "int list \<Rightarrow> nat \<Rightarrow> int \<Rightarrow> nat \<Rightarrow> nat" where
  "roulette [] k acc pick = 0"
| "roulette (w # ws) k acc pick = (let acc' = c_int (acc + w) in if acc' < 0 \<or> acc' > int pick then k else roulette ws (Suc k) acc' pick)"

text \<open>The chosen position first, the rest sorted.\<close>

definition chosen_first :: "(nat \<Rightarrow> nat \<Rightarrow> bool) \<Rightarrow> nat list \<Rightarrow> nat \<Rightarrow> nat list" where
  "chosen_first better pool k =
     pool ! k # ex_sort better (map ((!) pool) (filter (\<lambda>j. j \<noteq> k) [0..<length pool]))"

text \<open>The roulette over given weights, at the current count.\<close>

definition wheel :: "64 word \<Rightarrow> int list \<Rightarrow> nat" where
  "wheel rr ws =
     (let total_w = c_int (sum_list ws); total_w = (if total_w \<le> 0 then int (length ws) else total_w)
      in roulette ws 0 0 (unat rr mod nat total_w))"

definition dyn_weight :: "32 word \<Rightarrow> int" where
  "dyn_weight ewma = (let w = 1000 div sint (ewma + 10) in if w < 1 then 1 else w)"

text \<open>The order of the indices \<open>pool\<close> within a tier, and the counter afterwards. \<open>junk\<close> is the content of
  the elements of \<open>dyn_weights\<close> that the loop has not set: the sort of the rest indexes that array by
  the index of the target, not by its position in the pool.\<close>

definition lb_order ::
  "latency_tracker \<Rightarrow> (nat \<Rightarrow> int) \<Rightarrow> string \<Rightarrow> string \<Rightarrow> upstream_target list \<Rightarrow> 64 word \<Rightarrow> nat list \<Rightarrow> 64 word \<times> nat list" where
  "lb_order lt junk policy name srcs rr pool =
     (let n = length pool in
      if policy = ''round_robin'' \<and> n > 1 then
        (rr + 1, map (\<lambda>k. pool ! ((unat rr mod n + k) mod n)) [0..<n])
      else if (policy = ''weighted'' \<or> policy = ''weighted_round_robin'') \<and> n > 1 then
        (let k = wheel rr (map (\<lambda>i. ut_weight (srcs ! i)) pool)
         in (rr + 1, chosen_first (\<lambda>b a. ut_weight (srcs ! b) > ut_weight (srcs ! a)) pool k))
      else if policy = ''latency_p95'' \<and> n > 1 then
        (rr, map snd (ex_sort (\<lambda>b a. fst b < fst a)
               (map (\<lambda>i. (latency_tracker_get_p95_ms lt (Some name) (Some (ut_endpoint (srcs ! i))), i)) pool)))
      else if policy = ''dynamic_weighted'' \<and> n > 1 then
        (let ws = map (\<lambda>i. dyn_weight (latency_tracker_get_ewma_ms lt (Some name) (Some (ut_endpoint (srcs ! i))))) pool;
             k = wheel rr ws;
             dyn = (\<lambda>i. if i < length ws then ws ! i else junk i)
         in (rr + 1, chosen_first (\<lambda>b a. dyn b > dyn a) pool k))
      else (rr, pool))"

text \<open>One tier: the healthy indices of priority \<open>p\<close>, unsaturated ones first, ordered by the policy.\<close>

definition tier_order ::
  "target_slot list \<Rightarrow> latency_tracker \<Rightarrow> (nat \<Rightarrow> int) \<Rightarrow> model_rec \<Rightarrow> upstream_target list \<Rightarrow> bool list \<Rightarrow> 64 word \<Rightarrow> int \<Rightarrow>
   64 word \<times> nat list" where
  "tier_order slots lt junk model srcs allowed rr p =
     (let th = filter (\<lambda>i. ut_priority (srcs ! i) = p \<and> allowed ! i) [0..<length srcs];
          sat = filter (\<lambda>i. is_saturated slots (srcs ! i)) th;
          uncon = filter (\<lambda>i. \<not> is_saturated slots (srcs ! i)) th
      in if th = [] then (rr, [])
         else if uncon \<noteq> [] \<and> sat \<noteq> [] then
           (case lb_order lt junk (md_lb_policy model) (md_name model) srcs rr uncon of (rr', xs) \<Rightarrow> (rr', xs @ sat))
         else lb_order lt junk (md_lb_policy model) (md_name model) srcs rr th)"

fun tier_loop ::
  "target_slot list \<Rightarrow> latency_tracker \<Rightarrow> (nat \<Rightarrow> int) \<Rightarrow> model_rec \<Rightarrow> upstream_target list \<Rightarrow> bool list \<Rightarrow> nat \<Rightarrow>
   64 word \<Rightarrow> nat list \<Rightarrow> int list \<Rightarrow> 64 word \<times> nat list" where
  "tier_loop slots lt junk model srcs allowed cap rr out [] = (rr, out)"
| "tier_loop slots lt junk model srcs allowed cap rr out (p # ps) =
     (if length out \<ge> cap then (rr, out)
      else case tier_order slots lt junk model srcs allowed rr p of
             (rr', xs) \<Rightarrow> tier_loop slots lt junk model srcs allowed cap rr' (out @ take (cap - length out) xs) ps)"

text \<open>The cool-off of every target, read when all are refused.\<close>

fun open_untils ::
  "circuit_breaker option \<Rightarrow> (nat \<Rightarrow> int) \<Rightarrow> string \<Rightarrow> nat \<Rightarrow> upstream_target list \<Rightarrow> circuit_breaker option \<times> int list" where
  "open_untils cb clock name i [] = (cb, [])"
| "open_untils cb clock name i (t # ts) =
     (let (cb1, u) = (case cb of
                        None \<Rightarrow> (None, 0)
                      | Some b \<Rightarrow> (case cb_get_open_until b (clock i) (Some name) (Some (ut_endpoint t)) of
                                   (b', u) \<Rightarrow> (Some b', u)));
          (cb2, us) = open_untils cb1 clock name (Suc i) ts
      in (cb2, u # us))"

definition fallback_order :: "upstream_target list \<Rightarrow> int list \<Rightarrow> nat list" where
  "fallback_order srcs us =
     map fst (ex_sort (\<lambda>b a. snd b < snd a \<or> (snd b = snd a \<and> ut_priority (srcs ! fst b) < ut_priority (srcs ! fst a)))
                (zip [0..<length srcs] us))"

text \<open>The candidates, or \<open>None\<close> for the result -1; the state of the breaker and the globals afterwards.\<close>

definition model_router_select_candidates_targeted ::
  "router_globals \<Rightarrow> circuit_breaker option \<Rightarrow> cb_redis \<Rightarrow> (nat \<Rightarrow> int) \<Rightarrow> (nat \<Rightarrow> bool) \<Rightarrow> latency_tracker \<Rightarrow> (nat \<Rightarrow> int) \<Rightarrow>
   model_rec \<Rightarrow> string option \<Rightarrow> int \<Rightarrow> router_globals \<times> circuit_breaker option \<times> upstream_target list option" where
  "model_router_select_candidates_targeted g cb redis clock alloc lt junk model target_provider cap =
     (if cap \<le> 0 then (g, cb, None)
      else case src_targets model of
        None \<Rightarrow> (g, cb, None)
      | Some srcs \<Rightarrow>
          let targeted = (case target_provider of
                            None \<Rightarrow> None
                          | Some tp \<Rightarrow> if tp = [] then None else find_idx (\<lambda>t. ut_provider t = tp) srcs)
          in case targeted of
               Some k \<Rightarrow>
                 (g, cb, Some (take (nat cap) (srcs ! k # map ((!) srcs) (filter (\<lambda>i. i \<noteq> k) [0..<length srcs]))))
             | None \<Rightarrow>
                 (case breaker_snapshot cb redis clock alloc (md_name model) 0 srcs of
                    (cb1, allowed) \<Rightarrow>
                      if True \<in> set allowed then
                        (case tier_loop (g_target_slots g) lt junk model srcs allowed (nat cap) (g_rr_counter g) []
                                (sorted_prios srcs) of
                           (rr, out) \<Rightarrow> (g\<lparr>g_rr_counter := rr\<rparr>, cb1, Some (map ((!) srcs) out)))
                      else
                        (case open_untils cb1 (\<lambda>i. clock (length srcs + i)) (md_name model) 0 srcs of
                           (cb2, us) \<Rightarrow> (g, cb2, Some (map ((!) srcs) (take (nat cap) (fallback_order srcs us)))))))"

definition model_router_select_candidates ::
  "router_globals \<Rightarrow> circuit_breaker option \<Rightarrow> cb_redis \<Rightarrow> (nat \<Rightarrow> int) \<Rightarrow> (nat \<Rightarrow> bool) \<Rightarrow> latency_tracker \<Rightarrow> (nat \<Rightarrow> int) \<Rightarrow>
   model_rec \<Rightarrow> int \<Rightarrow> router_globals \<times> circuit_breaker option \<times> upstream_target list option" where
  "model_router_select_candidates g cb redis clock alloc lt junk model cap =
     model_router_select_candidates_targeted g cb redis clock alloc lt junk model None cap"

section \<open>Canary routing\<close>

text \<open>Whether some target of the candidate is not open; the search ends at the first one.\<close>

fun has_healthy ::
  "circuit_breaker \<Rightarrow> (nat \<Rightarrow> int) \<Rightarrow> string \<Rightarrow> nat \<Rightarrow> upstream_target list \<Rightarrow> circuit_breaker \<times> bool" where
  "has_healthy cb clock name i [] = (cb, False)"
| "has_healthy cb clock name i (t # ts) =
     (case cb_get_state cb (clock i) (Some name) (Some (ut_endpoint t)) of
        (cb1, st) \<Rightarrow> if st \<noteq> CB_OPEN then (cb1, True) else has_healthy cb1 clock name (Suc i) ts)"

text \<open>The loop over the rules: the model and the id of the rule that applies. \<open>roll i\<close> and \<open>clock i\<close> belong to
  the \<open>i\<close>-th rule.\<close>

fun canary_rules ::
  "(string \<Rightarrow> string option) \<Rightarrow> (string \<Rightarrow> string option) \<Rightarrow> (string \<Rightarrow> model_rec option) \<Rightarrow> (nat \<Rightarrow> bool \<times> bool) \<Rightarrow>
   (nat \<Rightarrow> real) \<Rightarrow> (nat \<Rightarrow> nat \<Rightarrow> int) \<Rightarrow> string \<Rightarrow> string option \<Rightarrow> nat \<Rightarrow> model_router \<Rightarrow> circuit_breaker option \<Rightarrow> shadow_rule list \<Rightarrow>
   (model_router \<times> circuit_breaker option \<times> (string \<times> int) option) option" where
  "canary_rules env decrypt store alloc roll clock src hdr i mr cb [] = Some (mr, cb, None)"
| "canary_rules env decrypt store alloc roll clock src hdr i mr cb (r # rs) =
     (if sr_mode r \<noteq> TRAFFIC_MODE_CANARY \<or> \<not> sr_enabled r then
        canary_rules env decrypt store alloc roll clock src hdr (Suc i) mr cb rs
      else if \<not> shadow_rule_matches r (Some src) hdr then
        canary_rules env decrypt store alloc roll clock src hdr (Suc i) mr cb rs
      else if \<not> shadow_rule_should_sample r (roll i) then
        canary_rules env decrypt store alloc roll clock src hdr (Suc i) mr cb rs
      else
        (case model_router_resolve mr env decrypt store (fst (alloc i)) (snd (alloc i)) (sr_target_model r) of
           None \<Rightarrow> None
         | Some (mr1, rc, route) \<Rightarrow>
             (case (if rc = 0 then route else None) of
                None \<Rightarrow> canary_rules env decrypt store alloc roll clock src hdr (Suc i) mr1 cb rs
              | Some c \<Rightarrow>
                  (case cb of
                     None \<Rightarrow> Some (mr1, None, Some (sr_target_model r, sr_id r))
                   | Some b \<Rightarrow>
                       if md_n_targets c > 0 then
                         (case has_healthy b (clock i) (md_name c) 0 (take (nat (md_n_targets c)) (md_targets c)) of
                            (b1, True) \<Rightarrow> Some (mr1, Some b1, Some (sr_target_model r, sr_id r))
                          | (b1, False) \<Rightarrow> Some (mr1, Some b1, None))
                       else Some (mr1, Some b, Some (sr_target_model r, sr_id r))))))"

text \<open>The effective model, whether it is a canary and the id of its rule; -1 for an empty buffer is the
  inner \<open>None\<close>.\<close>

definition model_router_apply_canary ::
  "(string \<Rightarrow> string option) \<Rightarrow> (string \<Rightarrow> string option) \<Rightarrow> (string \<Rightarrow> model_rec option) \<Rightarrow> (nat \<Rightarrow> bool \<times> bool) \<Rightarrow>
   (nat \<Rightarrow> real) \<Rightarrow> (nat \<Rightarrow> nat \<Rightarrow> int) \<Rightarrow> model_router \<Rightarrow> circuit_breaker option \<Rightarrow> shadow_rule list \<Rightarrow> string option \<Rightarrow>
   string option \<Rightarrow> nat \<Rightarrow> (model_router \<times> circuit_breaker option \<times> (string \<times> bool \<times> int) option) option" where
  "model_router_apply_canary env decrypt store alloc roll clock mr cb rules source_model hdr out_sz =
     (if out_sz = 0 then Some (mr, cb, None)
      else case source_model of
        None \<Rightarrow> Some (mr, cb, Some ([], False, 0))
      | Some src \<Rightarrow>
          map_option
            (\<lambda>(mr', cb', hit). (mr', cb',
               case hit of
                 None \<Rightarrow> Some (cstr_copy out_sz src, False, 0)
               | Some (m, rid) \<Rightarrow> Some (cstr_copy out_sz m, True, rid)))
            (canary_rules env decrypt store alloc roll clock src hdr 0 mr cb rules))"

section \<open>Routing around a degraded model\<close>

text \<open>The breaker, the result, the routed model, whether it is the fallback, and the reason.\<close>

definition model_router_resolve_with_sla ::
  "circuit_breaker option \<Rightarrow> int \<Rightarrow> int \<Rightarrow> string option \<Rightarrow> nat \<Rightarrow> nat \<Rightarrow>
   circuit_breaker option \<times> int \<times> (string \<times> bool \<times> string) option" where
  "model_router_resolve_with_sla cb now1 now2 requested_model routed_sz reason_sz =
     (case requested_model of
        None \<Rightarrow> (cb, -1, None)
      | Some m \<Rightarrow>
          if routed_sz = 0 then (cb, -1, None)
          else (case cb of
             None \<Rightarrow> (None, 0, Some (cstr_copy routed_sz m, False, []))
           | Some b \<Rightarrow>
               (case cb_get_sla_state b now1 (Some m) None 64 of
                  (b1, st, fb) \<Rightarrow>
                    let fallback = cstr_or_empty fb in
                    if st = CB_SLA_DEGRADED \<and> fallback \<noteq> [] then
                      (case cb_get_sla_state b1 now2 (Some fallback) None 64 of
                         (b2, fb_st, second) \<Rightarrow>
                           if fb_st = CB_OPEN \<or> fb_st = CB_SLA_DEGRADED
                           then (Some b2, -1, Some (cstr_copy routed_sz m, False, []))
                           else (Some b2, 0, Some (cstr_copy routed_sz fallback, True, cstr_copy reason_sz ''SLA_TTFT_EXCEEDED'')))
                    else (Some b1, 0, Some (cstr_copy routed_sz m, False, [])))))"

end
