(* ===== verification/Router_Props.thy ===== *)
theory Router_Props
  imports Model_Router Breaker_Laws "HOL-Library.Product_Lexorder"
begin

text \<open>
  Properties of the router: the order of the candidates under every policy, fairness of the
  round robin, the count of the requests in flight and its race, and the interplay of the
  selection with the circuit breaker.
\<close>

section \<open>Load balancing permutes the pool\<close>

lemma roulette_less: "ws \<noteq> [] \<Longrightarrow> roulette ws k acc pick < k + length ws"
proof (induction ws k acc pick rule: roulette.induct)
  case (2 w ws k acc pick)
  show ?case using 2(1) [OF refl] by (cases "ws = []") (auto simp: Let_def)
qed simp

lemma wheel_less: "ws \<noteq> [] \<Longrightarrow> wheel rr ws < length ws"
  using roulette_less [of ws 0] by (simp add: wheel_def Let_def)

lemma mset_pick_rest:
  assumes "k < length xs"
  shows "add_mset (xs ! k) (image_mset ((!) xs) (mset (filter (\<lambda>j. j \<noteq> k) [0..<length xs]))) = mset xs"
proof -
  have rem: "filter (\<lambda>j. j \<noteq> k) ys = removeAll k ys" for ys :: "nat list" by (induction ys) auto
  have "filter (\<lambda>j. j \<noteq> k) [0..<length xs] = remove1 k [0..<length xs]"
    using rem [of "[0..<length xs]"] by (simp add: distinct_remove1_removeAll)
  then have "image_mset ((!) xs) (add_mset k (mset (filter (\<lambda>j. j \<noteq> k) [0..<length xs]))) =
      image_mset ((!) xs) (mset [0..<length xs])"
    using assms by (simp only: mset_remove1) simp
  then show ?thesis by (metis image_mset_add_mset map_nth mset_map)
qed

lemma chosen_first_mset: "k < length pool \<Longrightarrow> mset (chosen_first better pool k) = mset pool"
  using mset_pick_rest [of k pool] unfolding chosen_first_def mset.simps ex_sort_mset mset_map .

lemma map_mod_rotate: "map (\<lambda>k. xs ! ((s + k) mod length xs)) [0..<length xs] = rotate s xs"
  by (rule nth_equalityI) (simp_all add: nth_rotate)

lemma mset_rotate_eq: "mset (rotate s xs) = mset xs"
proof -
  have "mset (rotate s xs) = mset (drop (s mod length xs) xs) + mset (take (s mod length xs) xs)"
    by (simp add: rotate_drop_take)
  also have "\<dots> = mset xs" by (metis add.commute append_take_drop_id mset_append)
  finally show ?thesis .
qed

lemma mset_snd_if:
  "(A \<Longrightarrow> mset (snd p) = m) \<Longrightarrow> (\<not> A \<Longrightarrow> mset (snd q) = m) \<Longrightarrow> mset (snd (if A then p else q)) = m"
  by simp

lemma lb_order_mset: "mset (snd (lb_order lt junk policy name srcs rr pool)) = mset pool"
proof -
  have c: "mset (chosen_first better pool (wheel rr (map f pool))) = mset pool" if "length pool > 1" for better f
  proof (rule chosen_first_mset)
    have "map f pool \<noteq> []" using that by auto
    from wheel_less [OF this, of rr] show "wheel rr (map f pool) < length pool" by simp
  qed
  have p: "mset (map snd (ex_sort better (map (\<lambda>i. (f i, i)) pool))) = mset pool"
    for better :: "32 word \<times> nat \<Rightarrow> 32 word \<times> nat \<Rightarrow> bool" and f
    by (simp add: multiset.map_comp comp_def)
  define rrb wt la dy where "rrb \<longleftrightarrow> policy = ''round_robin''"
    and "wt \<longleftrightarrow> policy = ''weighted'' \<or> policy = ''weighted_round_robin''"
    and "la \<longleftrightarrow> policy = ''latency_p95''" and "dy \<longleftrightarrow> policy = ''dynamic_weighted''"
  show ?thesis
    unfolding lb_order_def Let_def rrb_def [symmetric] wt_def [symmetric] la_def [symmetric] dy_def [symmetric]
    by (intro mset_snd_if) (simp_all only: map_mod_rotate snd_conv c p mset_rotate_eq)
qed

lemma lb_order_set [simp]: "set (snd (lb_order lt junk policy name srcs rr pool)) = set pool"
  by (metis lb_order_mset set_mset_mset)

lemma lb_order_distinct [simp]: "distinct (snd (lb_order lt junk policy name srcs rr pool)) = distinct pool"
  by (metis lb_order_mset mset_eq_imp_distinct_iff)

section \<open>Tiers\<close>

text \<open>A tier lists the healthy indices of its priority once, the saturated ones last.\<close>

lemma tier_order_props:
  fixes slots lt junk model srcs allowed rr p
  defines "xs \<equiv> snd (tier_order slots lt junk model srcs allowed rr p)"
  shows "distinct xs \<and> set xs = {i. i < length srcs \<and> allowed ! i \<and> ut_priority (srcs ! i) = p} \<and>
    sorted_wrt (\<lambda>i j. is_saturated slots (srcs ! i) \<longrightarrow> is_saturated slots (srcs ! j)) xs"
proof -
  define Q where "Q i = is_saturated slots (srcs ! i)" for i
  define th where "th = filter (\<lambda>i. ut_priority (srcs ! i) = p \<and> allowed ! i) [0..<length srcs]"
  define lb where "lb pool = snd (lb_order lt junk (md_lb_policy model) (md_name model) srcs rr pool)" for pool
  have lb: "set (lb pool) = set pool" "distinct (lb pool) = distinct pool" for pool by (simp_all add: lb_def)
  have th: "distinct th" "set th = {i. i < length srcs \<and> allowed ! i \<and> ut_priority (srcs ! i) = p}"
    by (auto simp: th_def)
  have s: "sorted_wrt (\<lambda>i j. Q i \<longrightarrow> Q j) ys" if "(\<forall>i \<in> set ys. Q i) \<or> (\<forall>i \<in> set ys. \<not> Q i)" for ys
    using that by (auto simp: sorted_wrt_iff_nth_less)
  have x: "xs = (if th = [] then [] else
      if filter (\<lambda>i. \<not> Q i) th \<noteq> [] \<and> filter Q th \<noteq> [] then lb (filter (\<lambda>i. \<not> Q i) th) @ filter Q th else lb th)"
    unfolding xs_def tier_order_def Let_def Q_def [symmetric] th_def [symmetric] lb_def
    by (simp split: prod.splits)
  have "distinct xs \<and> set xs = set th \<and> sorted_wrt (\<lambda>i j. Q i \<longrightarrow> Q j) xs"
  proof (cases "filter (\<lambda>i. \<not> Q i) th \<noteq> [] \<and> filter Q th \<noteq> []")
    case True
    then have "xs = lb (filter (\<lambda>i. \<not> Q i) th) @ filter Q th" using x by auto
    with s [of "lb (filter (\<lambda>i. \<not> Q i) th)"] s [of "filter Q th"] th(1) lb show ?thesis
      by (auto simp: sorted_wrt_append)
  next
    case False
    then have "(\<forall>i \<in> set th. Q i) \<or> (\<forall>i \<in> set th. \<not> Q i)" by (auto simp: filter_empty_conv)
    with s [of "lb th"] False th(1) lb x show ?thesis by (cases "th = []") auto
  qed
  with th(2) show ?thesis by (simp add: Q_def)
qed

text \<open>All tiers in full, without the bound on the output.\<close>

fun all_tiers ::
  "target_slot list \<Rightarrow> latency_tracker \<Rightarrow> (nat \<Rightarrow> int) \<Rightarrow> model_rec \<Rightarrow> upstream_target list \<Rightarrow> bool list \<Rightarrow>
   64 word \<Rightarrow> int list \<Rightarrow> nat list" where
  "all_tiers slots lt junk model srcs allowed rr [] = []"
| "all_tiers slots lt junk model srcs allowed rr (p # ps) =
     (case tier_order slots lt junk model srcs allowed rr p of
        (rr', xs) \<Rightarrow> xs @ all_tiers slots lt junk model srcs allowed rr' ps)"

lemma tier_loop_all:
  "length out \<le> cap \<Longrightarrow>
   snd (tier_loop slots lt junk model srcs allowed cap rr out ps) =
     take cap (out @ all_tiers slots lt junk model srcs allowed rr ps)"
proof (induction ps arbitrary: rr out)
  case (Cons p ps)
  obtain rr' xs where t: "tier_order slots lt junk model srcs allowed rr p = (rr', xs)" by (metis surj_pair)
  have "length (out @ take (cap - length out) xs) \<le> cap" using Cons.prems by simp
  note IH = Cons.IH [OF this, of rr']
  show ?case
  proof (cases "cap \<le> length out")
    case True
    then show ?thesis using Cons.prems by simp
  next
    case False
    with IH show ?thesis by (cases "length xs \<le> cap - length out") (simp_all add: t)
  qed
qed simp

lemma all_tiers_set:
  "distinct ps \<Longrightarrow> distinct (all_tiers slots lt junk model srcs allowed rr ps) \<and>
     set (all_tiers slots lt junk model srcs allowed rr ps) =
       {i. i < length srcs \<and> allowed ! i \<and> ut_priority (srcs ! i) \<in> set ps}"
proof (induction ps arbitrary: rr)
  case (Cons p ps)
  obtain rr' xs where t: "tier_order slots lt junk model srcs allowed rr p = (rr', xs)" by (metis surj_pair)
  show ?case
    using Cons.IH [of rr'] Cons.prems tier_order_props [of slots lt junk model srcs allowed rr p] t by auto
qed simp

text \<open>The order of the candidates: by priority, and within one the saturated targets last.\<close>

definition cand_le :: "target_slot list \<Rightarrow> upstream_target list \<Rightarrow> nat \<Rightarrow> nat \<Rightarrow> bool" where
  "cand_le slots srcs i j \<longleftrightarrow>
     ut_priority (srcs ! i) < ut_priority (srcs ! j) \<or>
     ut_priority (srcs ! i) = ut_priority (srcs ! j) \<and>
       (is_saturated slots (srcs ! i) \<longrightarrow> is_saturated slots (srcs ! j))"

lemma all_tiers_sorted:
  "distinct ps \<Longrightarrow> sorted ps \<Longrightarrow> sorted_wrt (cand_le slots srcs) (all_tiers slots lt junk model srcs allowed rr ps)"
proof (induction ps arbitrary: rr)
  case (Cons p ps)
  obtain rr' xs where t: "tier_order slots lt junk model srcs allowed rr p = (rr', xs)" by (metis surj_pair)
  have x: "set xs = {i. i < length srcs \<and> allowed ! i \<and> ut_priority (srcs ! i) = p}"
      "sorted_wrt (\<lambda>i j. is_saturated slots (srcs ! i) \<longrightarrow> is_saturated slots (srcs ! j)) xs"
    using tier_order_props [of slots lt junk model srcs allowed rr p] t by auto
  have "sorted_wrt (cand_le slots srcs) xs"
    by (rule sorted_wrt_mono_rel [OF _ x(2)]) (simp add: x(1) cand_le_def)
  moreover have "cand_le slots srcs i j" if "i \<in> set xs" "j \<in> set (all_tiers slots lt junk model srcs allowed rr' ps)" for i j
  proof -
    have "ut_priority (srcs ! j) \<in> set ps" using that(2) Cons.prems by (simp add: all_tiers_set)
    then have "p < ut_priority (srcs ! j)" using Cons.prems by (metis distinct.simps(2) order_le_less sorted_simps(2))
    then show ?thesis using that(1) x(1) by (simp add: cand_le_def)
  qed
  ultimately show ?case using Cons.IH [of rr'] Cons.prems by (simp add: t sorted_wrt_append)
qed simp

lemma distinct_prios_props:
  "distinct acc \<Longrightarrow> distinct (distinct_prios acc ps) \<and> set (distinct_prios acc ps) = set acc \<union> set ps"
  by (induction acc ps rule: distinct_prios.induct) auto

lemma sorted_prios_props:
  "distinct (sorted_prios srcs) \<and> sorted (sorted_prios srcs) \<and> set (sorted_prios srcs) = ut_priority ` set srcs"
  using distinct_prios_props [of "[]" "map ut_priority srcs"] by (simp add: sorted_prios_def ex_sort_is_sort)

section \<open>The candidates\<close>

lemma breaker_snapshot_length:
  "length (snd (breaker_snapshot cb redis clock alloc name i ts)) = length ts"
  by (induction cb redis clock alloc name i ts rule: breaker_snapshot.induct)
     (auto simp: Let_def split: prod.splits option.splits)

lemma open_untils_length: "length (snd (open_untils cb clock name i ts)) = length ts"
  by (induction cb clock name i ts rule: open_untils.induct) (auto simp: Let_def split: prod.splits option.splits)

definition fallback_le :: "upstream_target list \<Rightarrow> int list \<Rightarrow> nat \<Rightarrow> nat \<Rightarrow> bool" where
  "fallback_le srcs us i j \<longleftrightarrow>
     us ! i < us ! j \<or> us ! i = us ! j \<and> ut_priority (srcs ! i) \<le> ut_priority (srcs ! j)"

lemma fallback_order_props:
  assumes "length us = length srcs"
  shows "distinct (fallback_order srcs us) \<and> set (fallback_order srcs us) = {i. i < length srcs} \<and>
    sorted_wrt (fallback_le srcs us) (fallback_order srcs us)"
proof -
  define better where "better = (\<lambda>b a :: nat \<times> int. snd b < snd a \<or>
      (snd b = snd a \<and> ut_priority (srcs ! fst b) < ut_priority (srcs ! fst a)))"
  define xs where "xs = ex_sort better (zip [0..<length srcs] us)"
  let ?f = "\<lambda>b :: nat \<times> int. (snd b, ut_priority (srcs ! fst b))"
  have f: "fallback_order srcs us = map fst xs" by (simp add: fallback_order_def xs_def better_def)
  have m: "mset (map fst xs) = mset [0..<length srcs]"
  proof -
    have "mset (map fst xs) = mset (map fst (zip [0..<length srcs] us))" by (simp only: mset_map xs_def ex_sort_mset)
    then show ?thesis using assms by simp
  qed
  have s: "us ! fst b = snd b" if "b \<in> set xs" for b
    using that assms by (auto simp: xs_def set_zip)
  have "sorted (map ?f xs)" unfolding xs_def by (rule ex_sort_sorted) (auto simp: better_def less_prod_def)
  then have "sorted_wrt (\<lambda>a b. fallback_le srcs us (fst a) (fst b)) xs"
    unfolding sorted_map
    by (rule sorted_wrt_mono_rel [rotated]) (auto simp: fallback_le_def s less_eq_prod_simp)
  moreover have "set (map fst xs) = {i. i < length srcs}"
    using arg_cong [OF m, of set_mset] unfolding set_mset_mset by auto
  ultimately show ?thesis using mset_eq_imp_distinct_iff [OF m] unfolding f sorted_wrt_map by simp
qed

lemma select_allowed:
  assumes "src_targets model = Some srcs" "0 < cap"
    and "breaker_snapshot cb redis clock alloc (md_name model) 0 srcs = (cb1, allowed)" "True \<in> set allowed"
  shows "\<exists>g'. model_router_select_candidates g cb redis clock alloc lt junk model cap =
    (g', cb1, Some (map ((!) srcs) (take (nat cap)
       (all_tiers (g_target_slots g) lt junk model srcs allowed (g_rr_counter g) (sorted_prios srcs)))))"
  using assms tier_loop_all [of "[]" "nat cap" "g_target_slots g" lt junk model srcs allowed "g_rr_counter g" "sorted_prios srcs"]
  by (auto simp: model_router_select_candidates_def model_router_select_candidates_targeted_def split: prod.splits)

text \<open>C17. The candidates are the first \<open>cap\<close> of an order of the targets. If the breaker lets some target
  through, the order lists exactly those it lets through, once each, by ascending priority and
  saturated targets last within a priority, whatever the policy. If it refuses all, the order lists
  all targets, the one whose cool-off ends first in front, priority breaking ties.\<close>

theorem router_candidates_ordered:
  assumes "src_targets model = Some srcs" and "0 < cap"
    and "breaker_snapshot cb redis clock alloc (md_name model) 0 srcs = (cb1, allowed)"
    and "open_untils cb1 (\<lambda>i. clock (length srcs + i)) (md_name model) 0 srcs = (cb2, us)"
  shows "\<exists>idx. snd (snd (model_router_select_candidates g cb redis clock alloc lt junk model cap)) =
      Some (map ((!) srcs) (take (nat cap) idx)) \<and> distinct idx \<and>
    (if True \<in> set allowed
     then set idx = {i. i < length srcs \<and> allowed ! i} \<and> sorted_wrt (cand_le (g_target_slots g) srcs) idx
     else set idx = {i. i < length srcs} \<and> sorted_wrt (fallback_le srcs us) idx)"
proof (cases "True \<in> set allowed")
  case True
  let ?idx = "all_tiers (g_target_slots g) lt junk model srcs allowed (g_rr_counter g) (sorted_prios srcs)"
  have "snd (snd (model_router_select_candidates g cb redis clock alloc lt junk model cap)) =
      Some (map ((!) srcs) (take (nat cap) ?idx))"
    using select_allowed [OF assms(1-3) True, of g lt junk] by auto
  with all_tiers_set [of "sorted_prios srcs"] all_tiers_sorted [of "sorted_prios srcs"] sorted_prios_props [of srcs] True
  show ?thesis by (intro exI [of _ ?idx]) auto
next
  case False
  have "length us = length srcs" using open_untils_length assms(4) by (metis snd_conv)
  from fallback_order_props [OF this] False assms
  show ?thesis
    by (intro exI [of _ "fallback_order srcs us"])
       (simp add: model_router_select_candidates_def model_router_select_candidates_targeted_def)
qed

text \<open>A witness: two targets of one tier, the first saturated.\<close>

definition demo_target :: "string \<Rightarrow> int \<Rightarrow> int \<Rightarrow> upstream_target" where
  "demo_target ep w m = \<lparr>ut_provider = ''openai'', ut_endpoint = ep, ut_upstream_key_ref = [], ut_upstream_key = [],
     ut_weight = w, ut_priority = 0, ut_max_concurrent = m\<rparr>"

definition demo_model :: "string \<Rightarrow> model_rec" where
  "demo_model policy = \<lparr>md_name = ''m'', md_provider = [], md_endpoint = [], md_upstream_key_ref = [],
     md_default_params_json = [], md_enabled = True, md_upstream_key = [], md_n_targets = 2,
     md_targets = [demo_target ''a'' 1 1, demo_target ''b'' 1 0], md_lb_policy = policy, md_pricing_json = [],
     md_system_prompt = [], md_prompt_mode = 0, md_hedged_delay_ms = 0, md_hedge_budget_pct = 0,
     md_hedged_enabled = False, md_max_concurrent = 0, md_default_thinking_budget = 0, md_supports_reasoning = False,
     md_tag_emulation_default = False\<rparr>"

lemma demo_src: "src_targets (demo_model policy) = Some [demo_target ''a'' 1 1, demo_target ''b'' 1 0]"
  by (simp add: demo_model_def demo_target_def src_targets_def MAX_TARGETS_PER_MODEL_def normal_target_def numeral_2_eq_2)

theorem router_candidates_ordered_witness:
  "\<exists>idx. snd (snd (model_router_select_candidates \<lparr>g_target_slots = [\<lparr>ts_endpoint = ''a'', ts_in_flight = 1, ts_in_use = True\<rparr>], g_rr_counter = 0\<rparr>
        None (\<lambda>a k f c. None) (\<lambda>i. 0) (\<lambda>i. True) [] (\<lambda>i. 0) (demo_model ''priority'') 8)) =
      Some (map ((!) [demo_target ''a'' 1 1, demo_target ''b'' 1 0]) (take 8 idx)) \<and> distinct idx \<and> set idx = {0, 1} \<and>
    sorted_wrt (cand_le [\<lparr>ts_endpoint = ''a'', ts_in_flight = 1, ts_in_use = True\<rparr>] [demo_target ''a'' 1 1, demo_target ''b'' 1 0]) idx"
proof -
  have b: "breaker_snapshot None (\<lambda>a k f c. None) (\<lambda>i. 0) (\<lambda>i. True) (md_name (demo_model ''priority'')) 0
      [demo_target ''a'' 1 1, demo_target ''b'' 1 0] = (None, [True, True])" by simp
  have u: "open_untils None (\<lambda>i. 0) (md_name (demo_model ''priority'')) 0 [demo_target ''a'' 1 1, demo_target ''b'' 1 0] =
      (None, [0, 0])" by simp
  have e: "{i. i < length [demo_target ''a'' 1 1, demo_target ''b'' 1 0] \<and> [True, True] ! i} = {0, 1}"
    by (auto simp: less_Suc_eq)
  from router_candidates_ordered [OF demo_src _ b u, of 8 "\<lparr>g_target_slots = [\<lparr>ts_endpoint = ''a'', ts_in_flight = 1, ts_in_use = True\<rparr>], g_rr_counter = 0\<rparr>"]
  show ?thesis unfolding e by simp
qed

section \<open>Round robin\<close>

text \<open>The first candidates of \<open>n\<close> selections in a row.\<close>

fun rr_firsts :: "latency_tracker \<Rightarrow> (nat \<Rightarrow> int) \<Rightarrow> model_rec \<Rightarrow> int \<Rightarrow> router_globals \<Rightarrow> nat \<Rightarrow> upstream_target option list" where
  "rr_firsts lt junk model cap g 0 = []"
| "rr_firsts lt junk model cap g (Suc n) =
     (case model_router_select_candidates g None (\<lambda>a k f c. None) (\<lambda>i. 0) (\<lambda>i. True) lt junk model cap of
        (g', cb, out) \<Rightarrow> map_option hd out # rr_firsts lt junk model cap g' n)"

lemma breaker_snapshot_none: "breaker_snapshot None redis clock alloc name i ts = (None, replicate (length ts) True)"
  by (induction ts arbitrary: i) auto

lemma distinct_prios_same: "set ps \<subseteq> {p} \<Longrightarrow> distinct_prios [p] ps = [p]"
  by (induction ps) auto

lemma rr_select:
  assumes "src_targets model = Some srcs" "length srcs > 1" "0 < cap" "md_lb_policy model = ''round_robin''"
    and "\<forall>t \<in> set srcs. ut_priority t = p \<and> \<not> is_saturated (g_target_slots g) t"
  shows "model_router_select_candidates g None redis clock alloc lt junk model cap =
    (g\<lparr>g_rr_counter := g_rr_counter g + 1\<rparr>, None,
     Some (take (nat cap) (rotate (unat (g_rr_counter g) mod length srcs) srcs)))"
proof -
  have sp: "sorted_prios srcs = [p]"
  proof -
    obtain t ts where t: "srcs = t # ts" using assms(2) by (cases srcs) auto
    have "distinct_prios [p] (map ut_priority ts) = [p]"
      by (rule distinct_prios_same) (use assms(5) t in auto)
    then show ?thesis using assms(5) t by (simp add: sorted_prios_def)
  qed
  let ?al = "replicate (length srcs) True"
  have f: "filter (\<lambda>i. ut_priority (srcs ! i) = p \<and> ?al ! i) [0..<length srcs] = [0..<length srcs]"
    using assms(5) by (simp add: filter_id_conv)
  have u: "filter (\<lambda>i. is_saturated (g_target_slots g) (srcs ! i)) [0..<length srcs] = []"
    using assms(5) by (simp add: filter_empty_conv)
  have o: "tier_order (g_target_slots g) lt junk model srcs ?al (g_rr_counter g) p =
      (g_rr_counter g + 1, rotate (unat (g_rr_counter g) mod length srcs) [0..<length srcs])"
    using assms(2) map_mod_rotate [of "[0..<length srcs]" "unat (g_rr_counter g) mod length srcs"]
    unfolding tier_order_def f u Let_def lb_order_def assms(4)
    by (simp only: length_map length_upt) auto
  have m: "map ((!) srcs) (rotate k [0..<length srcs]) = rotate k srcs" for k
    by (simp add: rotate_map [symmetric] map_nth)
  have "True \<in> set ?al" using assms(2) by (cases srcs) auto
  then show ?thesis
    using assms(1,3) o sp
    by (simp add: model_router_select_candidates_def model_router_select_candidates_targeted_def
        breaker_snapshot_none take_map m [symmetric])
qed

text \<open>Round robin is fair: while the counter does not wrap, any \<open>n\<close> selections in a row for a model of \<open>n\<close>
  healthy, unsaturated targets of one priority put each target in front exactly once.\<close>

theorem router_round_robin_fair:
  assumes "src_targets model = Some srcs" and "length srcs > 1" and "0 < cap" and "md_lb_policy model = ''round_robin''"
    and "\<forall>t \<in> set srcs. ut_priority t = p \<and> \<not> is_saturated (g_target_slots g) t"
    and "unat (g_rr_counter g) + length srcs < 2 ^ 64"
  shows "mset (rr_firsts lt junk model cap g (length srcs)) = mset (map Some srcs)"
proof -
  let ?n = "length srcs"
  have *: "rr_firsts lt junk model cap h m = map (\<lambda>j. Some (srcs ! ((unat (g_rr_counter h) + j) mod ?n))) [0..<m]"
    if "g_target_slots h = g_target_slots g" "unat (g_rr_counter h) + m < 2 ^ 64" for h m
    using that
  proof (induction m arbitrary: h)
    case (Suc m)
    let ?h = "h\<lparr>g_rr_counter := g_rr_counter h + 1\<rparr>"
    have w: "unat (g_rr_counter ?h) = Suc (unat (g_rr_counter h))"
      using Suc.prems(2) by (simp add: unat_word_ariths unat_of_nat)
    have s: "model_router_select_candidates h None (\<lambda>a k f c. None) (\<lambda>i. 0) (\<lambda>i. True) lt junk model cap =
        (?h, None, Some (take (nat cap) (rotate (unat (g_rr_counter h) mod ?n) srcs)))"
      using rr_select [of model srcs cap p h] assms(1-5) Suc.prems(1) by simp
    have "take (nat cap) (rotate (unat (g_rr_counter h) mod ?n) srcs) \<noteq> []" using assms(2,3) by auto
    then have "hd (take (nat cap) (rotate (unat (g_rr_counter h) mod ?n) srcs)) = srcs ! (unat (g_rr_counter h) mod ?n)"
      using assms(2,3) by (simp add: hd_conv_nth nth_rotate)
    with s Suc.IH [of ?h] Suc.prems w show ?case
      by (simp add: upt_conv_Cons map_Suc_upt [symmetric] comp_def del: upt_Suc)
  qed simp
  have "rr_firsts lt junk model cap g ?n = map Some (rotate (unat (g_rr_counter g)) srcs)"
    unfolding map_mod_rotate [symmetric] using * [OF refl assms(6)] by simp
  then show ?thesis by (metis mset_map mset_rotate_eq)
qed

theorem router_round_robin_fair_witness:
  "mset (rr_firsts [] (\<lambda>i. 0) (demo_model ''round_robin'') 8 \<lparr>g_target_slots = [], g_rr_counter = 7\<rparr>
      (length [demo_target ''a'' 1 1, demo_target ''b'' 1 0])) =
    mset (map Some [demo_target ''a'' 1 1, demo_target ''b'' 1 0])"
proof (rule router_round_robin_fair [OF demo_src])
  show "\<forall>t \<in> set [demo_target ''a'' 1 1, demo_target ''b'' 1 0].
      ut_priority t = 0 \<and> \<not> is_saturated (g_target_slots \<lparr>g_target_slots = [], g_rr_counter = 7\<rparr>) t"
    by (simp add: demo_target_def is_saturated_def model_router_get_in_flight_def st_find_def)
qed (simp_all add: demo_model_def)

section \<open>Requests in flight\<close>

definition slot_count :: "target_slot list \<Rightarrow> string \<Rightarrow> int option" where
  "slot_count slots ep = map_option ts_in_flight (st_view ts_in_use ts_endpoint slots ep)"

abbreviation slots_ok :: "target_slot list \<Rightarrow> bool" where
  "slots_ok \<equiv> st_ok ts_in_use ts_endpoint"

datatype fl_op = FAcquire upstream_target | FRelease upstream_target

text \<open>A run of whole operations, with the number of requests each endpoint really serves: an acquired slot
  counts until it is released.\<close>

fun fl_run :: "target_slot list \<Rightarrow> (string \<Rightarrow> int) \<Rightarrow> fl_op list \<Rightarrow> target_slot list \<times> (string \<Rightarrow> int)" where
  "fl_run slots held [] = (slots, held)"
| "fl_run slots held (FAcquire t # ops) =
     (case model_router_acquire_target slots t of
        (slots', rc) \<Rightarrow>
          fl_run slots' (if rc = 0 then held(ut_endpoint t := held (ut_endpoint t) + 1) else held) ops)"
| "fl_run slots held (FRelease t # ops) =
     fl_run (model_router_release_target slots t) (held(ut_endpoint t := held (ut_endpoint t) - 1)) ops"

text \<open>Callers release what they have acquired.\<close>

fun fl_legal :: "target_slot list \<Rightarrow> (string \<Rightarrow> int) \<Rightarrow> fl_op list \<Rightarrow> bool" where
  "fl_legal slots held [] = True"
| "fl_legal slots held (FAcquire t # ops) =
     (case model_router_acquire_target slots t of
        (slots', rc) \<Rightarrow>
          fl_legal slots' (if rc = 0 then held(ut_endpoint t := held (ut_endpoint t) + 1) else held) ops)"
| "fl_legal slots held (FRelease t # ops) =
     (0 < held (ut_endpoint t) \<and>
      fl_legal (model_router_release_target slots t) (held(ut_endpoint t := held (ut_endpoint t) - 1)) ops)"

fun fl_target :: "fl_op \<Rightarrow> upstream_target" where
  "fl_target (FAcquire t) = t"
| "fl_target (FRelease t) = t"

definition count_of :: "target_slot list \<Rightarrow> string \<Rightarrow> int" where
  "count_of slots ep = (case slot_count slots ep of None \<Rightarrow> 0 | Some n \<Rightarrow> n)"

text \<open>The invariant: the table counts what the endpoints serve, and names only known endpoints.\<close>

definition fl_inv :: "string set \<Rightarrow> target_slot list \<Rightarrow> (string \<Rightarrow> int) \<Rightarrow> bool" where
  "fl_inv E slots held \<longleftrightarrow> slots_ok slots \<and> dom (slot_count slots) \<subseteq> E \<and> length slots = MR_MAX_CONCURRENT_TARGETS \<and>
     (\<forall>ep. count_of slots ep = held ep \<and> 0 \<le> held ep)"

lemma count_of_upd: "slot_count s' = (slot_count s)(ep \<mapsto> n) \<Longrightarrow> count_of s' = (count_of s)(ep := n)"
  by (rule ext) (simp add: count_of_def)

lemma slot_count_dom_card:
  assumes "slots_ok slots"
  shows "card (dom (slot_count slots)) = st_count ts_in_use slots"
proof -
  have "dom (slot_count slots) = set (map ts_endpoint (filter ts_in_use slots))"
    using st_view_iff [OF assms] by (force simp: slot_count_def)
  also have "card \<dots> = length (map ts_endpoint (filter ts_in_use slots))"
    using assms by (intro distinct_card) (simp add: st_ok_def)
  finally show ?thesis by (simp add: st_count_def)
qed

lemma slot_view_update:
  assumes "slots_ok slots" "slot_find slots ep = Some i"
  shows "slots_ok (slots[i := (slots ! i)\<lparr>ts_in_flight := n\<rparr>]) \<and>
    slot_count (slots[i := (slots ! i)\<lparr>ts_in_flight := n\<rparr>]) = (slot_count slots)(ep \<mapsto> n) \<and>
    slot_find (slots[i := (slots ! i)\<lparr>ts_in_flight := n\<rparr>]) ep = Some i"
proof -
  let ?y = "(slots ! i)\<lparr>ts_in_flight := n\<rparr>"
  have d: "i < length slots" "ts_in_use (slots ! i)" "ts_endpoint (slots ! i) = ep" using st_findD [OF assms(2)] by simp_all
  have "find_idx (\<lambda>s. ts_in_use s \<and> ts_endpoint s = ep) (slots[i := ?y]) = find_idx (\<lambda>s. ts_in_use s \<and> ts_endpoint s = ep) slots"
    by (rule find_idx_update) (use d in auto)
  with st_update [of ts_in_use ts_endpoint slots ep i ?y] assms d show ?thesis
    by (auto simp: slot_count_def st_find_def)
qed

lemma slot_count_find:
  "slot_count slots ep = map_option (\<lambda>i. ts_in_flight (slots ! i)) (slot_find slots ep)"
  by (simp add: slot_count_def st_view_def option.map_comp comp_def)

lemma find_or_create_view:
  assumes "fl_inv E slots held" "ep \<in> E" "ep \<noteq> []" "length ep < 512" "finite E" "card E \<le> MR_MAX_CONCURRENT_TARGETS"
  shows "\<exists>slots' i. find_or_create_slot slots ep = (slots', Some i) \<and> fl_inv E slots' held \<and>
    slot_find slots' ep = Some i \<and> ts_in_flight (slots' ! i) = held ep"
proof (cases "slot_find slots ep")
  case (Some i)
  have "count_of slots ep = held ep" using assms(1) by (simp add: fl_inv_def)
  then have "held ep = ts_in_flight (slots ! i)" by (simp add: count_of_def slot_count_find Some)
  then show ?thesis using Some assms(1,3) by (simp add: find_or_create_slot_def)
next
  case None
  have ok: "slots_ok slots" using assms(1) by (simp add: fl_inv_def)
  have v: "st_view ts_in_use ts_endpoint slots ep = None" using None by (simp add: st_find_iff)
  have "dom (slot_count slots) \<subseteq> E - {ep}" using assms(1) v by (auto simp: fl_inv_def slot_count_def)
  then have "card (dom (slot_count slots)) \<le> card (E - {ep})" using assms(5) by (simp add: card_mono)
  also have "\<dots> < card E" using assms(2,5) by (rule card_Diff1_less [rotated])
  finally have "st_count ts_in_use slots < length slots"
    using assms(1,6) slot_count_dom_card [OF ok] by (simp add: fl_inv_def)
  then obtain i where i: "st_free_slot ts_in_use slots = Some i" using st_full [of ts_in_use slots] by fastforce
  let ?y = "\<lparr>ts_endpoint = ep, ts_in_flight = 0, ts_in_use = True\<rparr>"
  have a: "slots_ok (slots[i := ?y])" "st_view ts_in_use ts_endpoint (slots[i := ?y]) = (st_view ts_in_use ts_endpoint slots)(ep \<mapsto> ?y)"
    using st_alloc [of ts_in_use ts_endpoint slots i ?y, OF ok i] v by simp_all
  have il: "i < length slots" using i unfolding st_free_slot_def by (rule find_idx_in_range)
  have "slot_find (slots[i := ?y]) ep = Some i"
    by (rule st_find_unique [OF a(1)]) (use il in simp_all)
  moreover have "find_or_create_slot slots ep = (slots[i := ?y], Some i)"
    using None i assms(3,4) by (simp add: find_or_create_slot_def)
  moreover have h: "held ep = 0"
  proof -
    have "count_of slots ep = held ep" using assms(1) by (simp add: fl_inv_def)
    then show ?thesis using v by (simp add: count_of_def slot_count_def)
  qed
  moreover have "fl_inv E (slots[i := ?y]) held"
  proof -
    have "slot_count (slots[i := ?y]) = (slot_count slots)(ep \<mapsto> 0)"
      by (rule ext) (simp add: slot_count_def a(2))
    then show ?thesis using assms(1,2) a(1) h count_of_upd [of "slots[i := ?y]" slots ep 0] by (auto simp: fl_inv_def)
  qed
  ultimately show ?thesis using il by simp
qed

lemma fl_inv_update:
  assumes "fl_inv E slots held" "slot_find slots ep = Some i" "0 \<le> n"
  shows "fl_inv E (slots[i := (slots ! i)\<lparr>ts_in_flight := n\<rparr>]) (held(ep := n))"
proof -
  have ok: "slots_ok slots" using assms(1) by (simp add: fl_inv_def)
  have "ep \<in> E" using assms(1,2) by (auto simp: fl_inv_def slot_count_find)
  with slot_view_update [OF ok assms(2), of n] count_of_upd [of _ slots ep n] assms(1,3) show ?thesis
    by (auto simp: fl_inv_def)
qed

lemma acquire_exact:
  assumes "fl_inv E slots held" "ut_endpoint t \<in> E" "ut_endpoint t \<noteq> []" "length (ut_endpoint t) < 512" "finite E"
    "card E \<le> MR_MAX_CONCURRENT_TARGETS"
  shows "\<exists>slots'. model_router_acquire_target slots t =
      (slots', if ut_max_concurrent t > 0 \<and> held (ut_endpoint t) \<ge> ut_max_concurrent t then -1 else 0) \<and>
    fl_inv E slots' (if ut_max_concurrent t > 0 \<and> held (ut_endpoint t) \<ge> ut_max_concurrent t then held
      else held(ut_endpoint t := held (ut_endpoint t) + 1))"
proof -
  from find_or_create_view [OF assms] obtain s1 i where s1: "find_or_create_slot slots (ut_endpoint t) = (s1, Some i)"
      "fl_inv E s1 held" "slot_find s1 (ut_endpoint t) = Some i" "ts_in_flight (s1 ! i) = held (ut_endpoint t)"
    by blast
  have "0 \<le> held (ut_endpoint t) + 1" using assms(1) by (simp add: fl_inv_def)
  from fl_inv_update [OF s1(2,3) this] s1 assms(3) show ?thesis
    by (simp add: model_router_acquire_target_def acquire_cas_def Let_def)
qed

lemma release_exact:
  assumes "fl_inv E slots held" "0 < held (ut_endpoint t)" "ut_endpoint t \<noteq> []"
  shows "fl_inv E (model_router_release_target slots t) (held(ut_endpoint t := held (ut_endpoint t) - 1))"
proof -
  have "slot_count slots (ut_endpoint t) = Some (held (ut_endpoint t))"
    using assms(1,2) by (auto simp: fl_inv_def count_of_def split: option.splits dest!: spec [of _ "ut_endpoint t"])
  then obtain i where i: "slot_find slots (ut_endpoint t) = Some i" "ts_in_flight (slots ! i) = held (ut_endpoint t)"
    by (auto simp: slot_count_find)
  have il: "i < length slots" using st_findD [OF i(1)] by simp
  have "model_router_release_target slots t = slots[i := (slots ! i)\<lparr>ts_in_flight := held (ut_endpoint t) - 1\<rparr>]"
  proof (cases "held (ut_endpoint t) \<le> 1")
    case True
    then have "held (ut_endpoint t) - 1 = 0" using assms(2) by simp
    then show ?thesis
      using True i il assms(3) by (simp add: model_router_release_target_def release_sub_def release_store_def Let_def)
  next
    case False
    then show ?thesis using i assms(3) by (simp add: model_router_release_target_def release_sub_def Let_def)
  qed
  with fl_inv_update [OF assms(1) i(1), of "held (ut_endpoint t) - 1"] assms(2) show ?thesis by simp
qed

lemma fl_run_exact:
  assumes "finite E" "card E \<le> MR_MAX_CONCURRENT_TARGETS" "fl_inv E slots held"
    and "\<forall>x \<in> set ops. ut_endpoint (fl_target x) \<in> E \<and> ut_endpoint (fl_target x) \<noteq> [] \<and> length (ut_endpoint (fl_target x)) < 512"
    and "fl_legal slots held ops" "0 < m" "held ep \<le> m"
    and "\<forall>x \<in> set ops. ut_endpoint (fl_target x) = ep \<longrightarrow> ut_max_concurrent (fl_target x) = m"
  shows "case fl_run slots held ops of (slots', held') \<Rightarrow> fl_inv E slots' held' \<and> held' ep \<le> m"
  using assms(3-8)
proof (induction ops arbitrary: slots held)
  case (Cons x ops)
  show ?case
  proof (cases x)
    case (FAcquire t)
    from acquire_exact [OF Cons.prems(1) _ _ _ assms(1,2), of t] Cons.prems(2) FAcquire
    obtain s1 h1 where s1: "model_router_acquire_target slots t =
        (s1, if ut_max_concurrent t > 0 \<and> held (ut_endpoint t) \<ge> ut_max_concurrent t then -1 else 0)" "fl_inv E s1 h1"
        and h1: "h1 = (if ut_max_concurrent t > 0 \<and> held (ut_endpoint t) \<ge> ut_max_concurrent t then held
           else held(ut_endpoint t := held (ut_endpoint t) + 1))" by auto
    have t: "ut_endpoint t = ep \<longrightarrow> ut_max_concurrent t = m" using Cons.prems(6) FAcquire by simp
    have "h1 ep \<le> m" using t Cons.prems(4,5) h1 by (cases "ut_endpoint t = ep") auto
    moreover obtain rc where rc: "model_router_acquire_target slots t = (s1, rc)"
        "h1 = (if rc = 0 then held(ut_endpoint t := held (ut_endpoint t) + 1) else held)"
      using s1(1) unfolding h1 by (cases "ut_max_concurrent t > 0 \<and> held (ut_endpoint t) \<ge> ut_max_concurrent t") auto
    moreover have "fl_legal s1 h1 ops" "fl_run slots held (x # ops) = fl_run s1 h1 ops"
      using Cons.prems(3) unfolding FAcquire rc(2) fl_legal.simps fl_run.simps rc(1) prod.case by simp_all
    ultimately show ?thesis using Cons.IH [OF s1(2)] Cons.prems(2,4,6) by simp
  next
    case (FRelease t)
    have "0 < held (ut_endpoint t)" "ut_endpoint t \<noteq> []" using Cons.prems FRelease by auto
    note r = release_exact [OF Cons.prems(1) this]
    obtain h1 where h1: "h1 = held(ut_endpoint t := held (ut_endpoint t) - 1)" by simp
    have "h1 ep \<le> m" "fl_legal (model_router_release_target slots t) h1 ops"
        "fl_run slots held (x # ops) = fl_run (model_router_release_target slots t) h1 ops"
      using Cons.prems(3,5) unfolding FRelease fl_legal.simps fl_run.simps h1 by (cases "ut_endpoint t = ep"; simp)+
    with Cons.IH [OF r [folded h1]] Cons.prems(2,4,6) show ?thesis by simp
  qed
qed simp

lemma fl_inv_reset:
  assumes "length slots = MR_MAX_CONCURRENT_TARGETS"
  shows "fl_inv E (model_router_reset_concurrency slots) (\<lambda>ep. 0)"
proof -
  have f: "filter ts_in_use (model_router_reset_concurrency slots) = []"
    by (simp add: model_router_reset_concurrency_def filter_empty_conv)
  then have ok: "slots_ok (model_router_reset_concurrency slots)" by (simp add: st_ok_def)
  have "slot_count (model_router_reset_concurrency slots) ep = None" for ep
    using st_view_none_iff [OF ok, of ep] f by (auto simp: slot_count_def filter_empty_conv)
  with ok assms show ?thesis by (auto simp: fl_inv_def count_of_def model_router_reset_concurrency_def)
qed

text \<open>C31. After a reset, whatever acquires and releases happen, each of them as a whole and none within another, with
  endpoint names of less than 512 characters, at most 256 endpoints, one limit per endpoint, and callers that release
  only what they hold: the count of an endpoint is the number of its requests
  that are running, and never more than its limit. A release that runs beside an acquire breaks the limit, see
  \<open>router_release_race\<close>.\<close>

theorem router_in_flight_exact:
  assumes "length slots = MR_MAX_CONCURRENT_TARGETS" and "finite E" and "card E \<le> MR_MAX_CONCURRENT_TARGETS"
    and "\<forall>x \<in> set ops. ut_endpoint (fl_target x) \<in> E \<and> ut_endpoint (fl_target x) \<noteq> [] \<and> length (ut_endpoint (fl_target x)) < 512"
    and "fl_legal (model_router_reset_concurrency slots) (\<lambda>ep. 0) ops"
    and "\<forall>x \<in> set ops. ut_endpoint (fl_target x) = ep \<longrightarrow> ut_max_concurrent (fl_target x) = m" and "0 < m" and "ep \<noteq> []"
    and "fl_run (model_router_reset_concurrency slots) (\<lambda>ep. 0) ops = (slots', held)"
  shows "model_router_get_in_flight slots' ep = held ep \<and> 0 \<le> held ep \<and> held ep \<le> m"
proof -
  have i: "fl_inv E slots' held" "held ep \<le> m"
    using fl_run_exact [OF assms(2,3) fl_inv_reset [OF assms(1)] assms(4,5,7) _ assms(6)] assms(7,9) by auto
  have "count_of slots' ep = held ep" "0 \<le> held ep" using i(1) by (simp_all add: fl_inv_def)
  moreover have "model_router_get_in_flight slots' ep = max 0 (count_of slots' ep)"
    using assms(8) by (auto simp: model_router_get_in_flight_def count_of_def slot_count_find Let_def split: option.splits)
  ultimately show ?thesis using i(2) by simp
qed

theorem router_in_flight_exact_witness:
  "\<exists>slots' held. fl_run (model_router_reset_concurrency (replicate 256 \<lparr>ts_endpoint = [], ts_in_flight = 0, ts_in_use = False\<rparr>))
      (\<lambda>ep. 0) [FAcquire (demo_target ''a'' 1 1), FAcquire (demo_target ''a'' 1 1)] = (slots', held) \<and>
    model_router_get_in_flight slots' ''a'' = held ''a'' \<and> held ''a'' \<le> 1"
proof -
  let ?s = "replicate 256 \<lparr>ts_endpoint = [], ts_in_flight = 0, ts_in_use = False\<rparr>"
  let ?x = "[FAcquire (demo_target ''a'' 1 1), FAcquire (demo_target ''a'' 1 1)]"
  obtain slots' held where r: "fl_run (model_router_reset_concurrency ?s) (\<lambda>ep. 0) ?x = (slots', held)" by (metis surj_pair)
  have "fl_legal (model_router_reset_concurrency ?s) (\<lambda>ep. 0) ?x" by (simp split: prod.splits)
  from router_in_flight_exact [OF _ _ _ _ this _ _ _ r, of "{''a''}" "''a''" 1] r show ?thesis
    by (auto simp: MR_MAX_CONCURRENT_TARGETS_def demo_target_def)
qed

text \<open>A release is two atomic steps, and they race with an acquire: when the last running request of an
  endpoint with limit 1 ends, a request that starts between the two steps is forgotten, so another
  one is admitted beside it.\<close>

theorem router_release_race:
  assumes "slots_ok slots" and "slot_count slots (ut_endpoint t) = Some 1" and "ut_max_concurrent t = 1" and "ut_endpoint t \<noteq> []"
    and "release_sub slots t = (s1, pending)"
    and "model_router_acquire_target s1 t = (s2, rc2)"
  shows "\<exists>i. pending = Some i \<and> rc2 = 0 \<and> slot_count s2 (ut_endpoint t) = Some 1 \<and>
    slot_count (release_store s2 i) (ut_endpoint t) = Some 0 \<and> snd (model_router_acquire_target (release_store s2 i) t) = 0"
proof -
  from assms(2) obtain i where i: "slot_find slots (ut_endpoint t) = Some i" "ts_in_flight (slots ! i) = 1"
    by (auto simp: slot_count_find)
  have s1: "s1 = slots[i := (slots ! i)\<lparr>ts_in_flight := 0\<rparr>]" "pending = Some i"
    using assms(4,5) i by (simp_all add: release_sub_def Let_def)
  note u1 = slot_view_update [OF assms(1) i(1), of 0, folded s1(1)]
  have il: "i < length s1" "ts_in_flight (s1 ! i) = 0" using st_findD [OF i(1)] s1(1) by simp_all
  have s2: "s2 = s1[i := (s1 ! i)\<lparr>ts_in_flight := 1\<rparr>]" "rc2 = 0"
    using assms(3,4,6) u1 il by (simp_all add: model_router_acquire_target_def find_or_create_slot_def acquire_cas_def)
  have u2: "slots_ok s2 \<and> slot_count s2 = (slot_count s1)(ut_endpoint t \<mapsto> 1) \<and> slot_find s2 (ut_endpoint t) = Some i"
    using slot_view_update [of s1 "ut_endpoint t" i 1] u1 unfolding s2(1) by blast
  let ?s3 = "release_store s2 i"
  have u3: "slots_ok ?s3 \<and> slot_count ?s3 = (slot_count s2)(ut_endpoint t \<mapsto> 0) \<and> slot_find ?s3 (ut_endpoint t) = Some i"
    using slot_view_update [of s2 "ut_endpoint t" i 0] u2 unfolding release_store_def by blast
  have "ts_in_flight (?s3 ! i) = 0" using st_findD [of ts_in_use ts_endpoint s2 _ i] u2 by (auto simp: release_store_def)
  then have "snd (model_router_acquire_target ?s3 t) = 0"
    using u3 assms(3,4) by (simp add: model_router_acquire_target_def find_or_create_slot_def acquire_cas_def)
  with s1(2) s2(2) u2 u3 show ?thesis by simp
qed

theorem router_release_race_witness:
  "\<exists>i. snd (release_sub [\<lparr>ts_endpoint = ''a'', ts_in_flight = 1, ts_in_use = True\<rparr>] (demo_target ''a'' 1 1)) = Some i \<and>
    snd (model_router_acquire_target (release_store (fst (model_router_acquire_target
      (fst (release_sub [\<lparr>ts_endpoint = ''a'', ts_in_flight = 1, ts_in_use = True\<rparr>] (demo_target ''a'' 1 1)))
      (demo_target ''a'' 1 1))) i) (demo_target ''a'' 1 1)) = 0"
proof -
  let ?s = "[\<lparr>ts_endpoint = ''a'', ts_in_flight = 1, ts_in_use = True\<rparr>]" and ?t = "demo_target ''a'' 1 1"
  have a: "slots_ok ?s" "slot_count ?s (ut_endpoint ?t) = Some 1" "ut_max_concurrent ?t = 1" "ut_endpoint ?t \<noteq> []"
    by (simp_all add: st_ok_def slot_count_find st_find_def demo_target_def)
  from router_release_race [OF a prod.collapse [symmetric] prod.collapse [symmetric]] show ?thesis by auto
qed

end
