(* ===== verification/Router_Breaker.thy ===== *)
theory Router_Breaker
  imports Router_Props Breaker_Props
begin

text \<open>
  The selection of candidates and the local circuit breaker together: a selection asks the breaker
  about every target, and each question takes the probe of a target that is due for one, whether or
  not the request will be sent there.
\<close>

definition cb_local :: "circuit_breaker \<Rightarrow> bool" where
  "cb_local b \<longleftrightarrow> cb_inv b \<and> \<not> cb_pool b"

definition probing :: "cb_entry \<Rightarrow> bool" where
  "probing e \<longleftrightarrow> ce_state e = CB_HALF_OPEN \<and> ce_half_open_probe_active e"

definition probe_due :: "cb_entry \<Rightarrow> int \<Rightarrow> bool" where
  "probe_due e now \<longleftrightarrow> ce_state (cb_advance e now) = CB_HALF_OPEN \<and> \<not> ce_half_open_probe_active (cb_advance e now)"

definition serving :: "circuit_breaker \<Rightarrow> string \<times> string \<Rightarrow> bool" where
  "serving b k \<longleftrightarrow> (case cb_view b k of None \<Rightarrow> True | Some e \<Rightarrow> ce_state e = CB_CLOSED \<or> ce_state e = CB_SLA_DEGRADED)"

lemma allow_step:
  assumes "cb_local b" "cb_short (name, ep)"
  shows "\<exists>b'. cb_allow_request b redis now True (Some name) (Some ep) = (b', fst (cb_allow_entry (cb_eff b (name, ep) now))) \<and>
    cb_local b' \<and> cb_view b' = (cb_view b)((name, ep) \<mapsto> snd (cb_allow_entry (cb_eff b (name, ep) now)))"
proof -
  have "cb_get_or_create b True (Some name) (Some ep) \<noteq> None"
    by (simp add: cb_get_or_create_def Let_def split: option.splits)
  from cb_allow_local_view [OF _ assms(2) this, of now] assms(1) obtain b' where
    "cb_allow_local b now True name ep = (b', fst (cb_allow_entry (cb_eff b (name, ep) now)))" "cb_inv b'" "cb_params_eq b b'"
    "cb_view b' = (cb_view b)((name, ep) \<mapsto> snd (cb_allow_entry (cb_eff b (name, ep) now)))"
    by (auto simp: cb_local_def)
  with assms(1) cb_params_eqD(3) [of b b'] show ?thesis by (auto simp: cb_allow_request_def cb_local_def)
qed

text \<open>An entry that refuses every question, and stays as it is: open within its cool-off, or probing.\<close>

definition refuses :: "cb_entry \<Rightarrow> int \<Rightarrow> bool" where
  "refuses e now \<longleftrightarrow> cb_allow_entry (cb_advance e now) = (False, e)"

lemma probing_refuses: "probing e \<Longrightarrow> refuses e now"
  by (simp add: refuses_def cb_advance_def cb_cooloff_expired_def probing_def cb_allow_entry_def)

lemma open_refuses: "ce_state e = CB_OPEN \<Longrightarrow> now < ce_open_until e \<Longrightarrow> refuses e now"
  by (simp add: refuses_def cb_advance_def cb_cooloff_expired_def cb_allow_entry_def)

lemma eff_refuses: "cb_view b k = Some e \<Longrightarrow> refuses e now \<Longrightarrow> cb_allow_entry (cb_eff b k now) = (False, e)"
  by (simp add: cb_eff_def refuses_def)

lemma eff_due:
  "cb_view b k = Some e \<Longrightarrow> probe_due e now \<Longrightarrow>
   probing (snd (cb_allow_entry (cb_eff b k now)))"
  by (simp add: cb_eff_def probe_due_def probing_def cb_allow_entry_def)

lemma eff_serving:
  assumes "serving b k"
  shows "fst (cb_allow_entry (cb_eff b k now)) \<and>
    (ce_state (snd (cb_allow_entry (cb_eff b k now))) = CB_CLOSED \<or> ce_state (snd (cb_allow_entry (cb_eff b k now))) = CB_SLA_DEGRADED)"
  using assms
  by (cases "cb_view b k")
     (auto simp: serving_def cb_eff_def cb_advance_def cb_cooloff_expired_def cb_allow_entry_def cb_fresh_def cb_new_entry_def)

text \<open>The snapshot, with the breaker present and no allocation failure, unfolds to one question at a time.\<close>

abbreviation snap where
  "snap b redis clock name i ts \<equiv> breaker_snapshot (Some b) redis clock (\<lambda>j. True) name i ts"

definition targets_short :: "string \<Rightarrow> upstream_target list \<Rightarrow> bool" where
  "targets_short name ts \<longleftrightarrow> (\<forall>t \<in> set ts. cb_short (name, ut_endpoint t))"

lemma snap_Cons:
  assumes "cb_local b" "targets_short name (t # ts)"
  shows "\<exists>b'. cb_local b' \<and>
    cb_view b' = (cb_view b)((name, ut_endpoint t) \<mapsto> snd (cb_allow_entry (cb_eff b (name, ut_endpoint t) (clock i)))) \<and>
    snap b redis clock name i (t # ts) =
      (fst (snap b' redis clock name (Suc i) ts),
       fst (cb_allow_entry (cb_eff b (name, ut_endpoint t) (clock i))) # snd (snap b' redis clock name (Suc i) ts))"
proof -
  from allow_step [OF assms(1), of name "ut_endpoint t" redis "clock i"] assms(2) obtain b' where
    "cb_allow_request b redis (clock i) True (Some name) (Some (ut_endpoint t)) =
       (b', fst (cb_allow_entry (cb_eff b (name, ut_endpoint t) (clock i))))"
    "cb_local b'" "cb_view b' = (cb_view b)((name, ut_endpoint t) \<mapsto> snd (cb_allow_entry (cb_eff b (name, ut_endpoint t) (clock i))))"
    by (auto simp: targets_short_def)
  then show ?thesis by (intro exI [of _ b']) (simp add: Let_def split: prod.splits)
qed

lemma targets_short_tl: "targets_short name (t # ts) \<Longrightarrow> targets_short name ts"
  by (simp add: targets_short_def)

lemma snap_refuses:
  assumes "cb_local b" "targets_short name ts" "cb_view b (name, ep) = Some e" "\<forall>j. refuses e (clock j)"
  shows "\<exists>b'. fst (snap b redis clock name i ts) = Some b' \<and> cb_local b' \<and> cb_view b' (name, ep) = Some e \<and>
    (\<forall>j < length ts. ut_endpoint (ts ! j) = ep \<longrightarrow> \<not> snd (snap b redis clock name i ts) ! j)"
  using assms(1-3)
proof (induction ts arbitrary: b i)
  case (Cons t ts)
  from snap_Cons [OF Cons.prems(1,2), of clock i redis] obtain b1 where b1: "cb_local b1"
    "cb_view b1 = (cb_view b)((name, ut_endpoint t) \<mapsto> snd (cb_allow_entry (cb_eff b (name, ut_endpoint t) (clock i))))"
    "snap b redis clock name i (t # ts) = (fst (snap b1 redis clock name (Suc i) ts),
       fst (cb_allow_entry (cb_eff b (name, ut_endpoint t) (clock i))) # snd (snap b1 redis clock name (Suc i) ts))" by blast
  have v: "cb_view b1 (name, ep) = Some e"
    using b1(2) Cons.prems(3) eff_refuses [OF Cons.prems(3), of "clock i"] assms(4) by (cases "ut_endpoint t = ep") auto
  from Cons.IH [OF b1(1) targets_short_tl [OF Cons.prems(2)] v, of "Suc i"] obtain b' where b':
    "fst (snap b1 redis clock name (Suc i) ts) = Some b'" "cb_local b'" "cb_view b' (name, ep) = Some e"
    "\<forall>j < length ts. ut_endpoint (ts ! j) = ep \<longrightarrow> \<not> snd (snap b1 redis clock name (Suc i) ts) ! j" by blast
  have "\<not> (fst (cb_allow_entry (cb_eff b (name, ut_endpoint t) (clock i))) # snd (snap b1 redis clock name (Suc i) ts)) ! j"
    if "j < length (t # ts)" "ut_endpoint ((t # ts) ! j) = ep" for j
    using that b'(4) eff_refuses [OF Cons.prems(3), of "clock i"] assms(4) by (cases j) auto
  then show ?case using b'(1-3) b1(3) by (intro exI [of _ b']) (simp only: fst_conv snd_conv simp_thms, blast)
qed simp

lemma snap_serving:
  assumes "cb_local b" "targets_short name ts" "serving b (name, ep)"
  shows "\<exists>b'. fst (snap b redis clock name i ts) = Some b' \<and> serving b' (name, ep) \<and>
    (\<forall>j < length ts. ut_endpoint (ts ! j) = ep \<longrightarrow> snd (snap b redis clock name i ts) ! j)"
  using assms
proof (induction ts arbitrary: b i)
  case (Cons t ts)
  from snap_Cons [OF Cons.prems(1,2), of clock i redis] obtain b1 where b1: "cb_local b1"
    "cb_view b1 = (cb_view b)((name, ut_endpoint t) \<mapsto> snd (cb_allow_entry (cb_eff b (name, ut_endpoint t) (clock i))))"
    "snap b redis clock name i (t # ts) = (fst (snap b1 redis clock name (Suc i) ts),
       fst (cb_allow_entry (cb_eff b (name, ut_endpoint t) (clock i))) # snd (snap b1 redis clock name (Suc i) ts))" by blast
  have v: "serving b1 (name, ep)"
    using b1(2) Cons.prems(3) eff_serving [OF Cons.prems(3), of "clock i"] by (cases "ut_endpoint t = ep") (auto simp: serving_def)
  from Cons.IH [OF b1(1) targets_short_tl [OF Cons.prems(2)] v, of "Suc i"] obtain b' where b':
    "fst (snap b1 redis clock name (Suc i) ts) = Some b'" "serving b' (name, ep)"
    "\<forall>j < length ts. ut_endpoint (ts ! j) = ep \<longrightarrow> snd (snap b1 redis clock name (Suc i) ts) ! j" by blast
  have "(fst (cb_allow_entry (cb_eff b (name, ut_endpoint t) (clock i))) # snd (snap b1 redis clock name (Suc i) ts)) ! j"
    if "j < length (t # ts)" "ut_endpoint ((t # ts) ! j) = ep" for j
    using that b'(3) eff_serving [OF Cons.prems(3), of "clock i"] by (cases j) auto
  then show ?case using b'(1-2) b1(3) by (intro exI [of _ b']) (simp only: fst_conv snd_conv simp_thms, blast)
qed simp

lemma snap_due:
  assumes "cb_local b" "targets_short name ts" "cb_view b (name, ep) = Some e" "\<forall>j. probe_due e (clock j)" "ep \<in> ut_endpoint ` set ts"
  shows "\<exists>b' e'. fst (snap b redis clock name i ts) = Some b' \<and> cb_local b' \<and> cb_view b' (name, ep) = Some e' \<and> probing e'"
  using assms
proof (induction ts arbitrary: b i)
  case (Cons t ts)
  from snap_Cons [OF Cons.prems(1,2), of clock i redis] obtain b1 where b1: "cb_local b1"
    "cb_view b1 = (cb_view b)((name, ut_endpoint t) \<mapsto> snd (cb_allow_entry (cb_eff b (name, ut_endpoint t) (clock i))))"
    "fst (snap b redis clock name i (t # ts)) = fst (snap b1 redis clock name (Suc i) ts)" by (metis fst_conv)
  note s = targets_short_tl [OF Cons.prems(2)]
  show ?case
  proof (cases "ut_endpoint t = ep")
    case True
    have "probing (snd (cb_allow_entry (cb_eff b (name, ep) (clock i))))"
      using eff_due [OF Cons.prems(3)] Cons.prems(4) by blast
    then show ?thesis
      using snap_refuses [OF b1(1) s, of ep _ clock redis "Suc i"] True b1(2,3) probing_refuses by fastforce
  next
    case False
    with Cons.IH [OF b1(1) s, of "Suc i"] b1(2,3) Cons.prems(3-5) show ?thesis by auto
  qed
qed simp

section \<open>A model for the witnesses\<close>

lemma cb_demo_other: "k \<noteq> (''gpt'', ''eu'') \<Longrightarrow> cb_view (cb_demo st) k = None"
proof -
  assume k: "k \<noteq> (''gpt'', ''eu'')"
  have "cb_short (''gpt'', ''eu'')" by (simp add: cb_short_def)
  from cb_override_state_view [OF cb_created(1) this cb_get_or_create_ok, of 100 st]
  show ?thesis using k by (auto simp: cb_demo_def cb_created)
qed

definition demo_route :: model_rec where
  "demo_route = (demo_model ''priority'')\<lparr>md_name := ''gpt'', md_targets := [demo_target ''us'' 1 0, demo_target ''eu'' 1 0]\<rparr>"

lemma demo_route_facts:
  "src_targets demo_route = Some [demo_target ''us'' 1 0, demo_target ''eu'' 1 0]"
  "cb_local (cb_demo st)" "targets_short (md_name demo_route) [demo_target ''us'' 1 0, demo_target ''eu'' 1 0]"
  "''us'' \<in> ut_endpoint ` set [demo_target ''us'' 1 0, demo_target ''eu'' 1 0]"
  "serving (cb_demo st) (md_name demo_route, ''us'')"
  "''eu'' \<in> ut_endpoint ` set [demo_target ''us'' 1 0, demo_target ''eu'' 1 0]"
  "cb_view (cb_demo st) (md_name demo_route, ''eu'') = Some (cb_override_entry 30 100 st (cb_fresh (''gpt'', ''eu'')))"
  by (simp_all add: demo_route_def demo_model_def demo_target_def src_targets_def MAX_TARGETS_PER_MODEL_def normal_target_def
      numeral_2_eq_2 cb_local_def cb_demo_facts targets_short_def cb_short_def serving_def cb_demo_other)

section \<open>Selections\<close>

lemma select_with_serving:
  assumes "src_targets model = Some srcs" "0 < cap" "cb_local b" "targets_short (md_name model) srcs"
    and "ep0 \<in> ut_endpoint ` set srcs" "serving b (md_name model, ep0)"
  shows "\<exists>g' b' out. model_router_select_candidates g (Some b) redis clock (\<lambda>j. True) lt junk model cap = (g', Some b', Some out) \<and>
    fst (snap b redis clock (md_name model) 0 srcs) = Some b' \<and> serving b' (md_name model, ep0) \<and>
    (\<forall>t \<in> set out. \<exists>j < length srcs. t = srcs ! j \<and> snd (snap b redis clock (md_name model) 0 srcs) ! j)"
proof -
  obtain cb1 allowed where s: "snap b redis clock (md_name model) 0 srcs = (cb1, allowed)" by (metis surj_pair)
  from snap_serving [OF assms(3,4,6), of redis clock 0] s obtain b' where b': "cb1 = Some b'" "serving b' (md_name model, ep0)"
    "\<forall>j < length srcs. ut_endpoint (srcs ! j) = ep0 \<longrightarrow> allowed ! j" by auto
  have len: "length allowed = length srcs" using breaker_snapshot_length s by (metis snd_conv)
  obtain j where "j < length srcs" "ut_endpoint (srcs ! j) = ep0" using assms(5) by (metis image_iff in_set_conv_nth)
  then have "True \<in> set allowed" using b'(3) len by (metis nth_mem)
  from select_allowed [OF assms(1,2) s this, of g lt junk] obtain g' where g':
    "model_router_select_candidates g (Some b) redis clock (\<lambda>j. True) lt junk model cap =
       (g', cb1, Some (map ((!) srcs) (take (nat cap)
         (all_tiers (g_target_slots g) lt junk model srcs allowed (g_rr_counter g) (sorted_prios srcs)))))" by blast
  have "i < length srcs \<and> allowed ! i"
    if "i \<in> set (take (nat cap) (all_tiers (g_target_slots g) lt junk model srcs allowed (g_rr_counter g) (sorted_prios srcs)))" for i
    using that all_tiers_set [of "sorted_prios srcs"] sorted_prios_props [of srcs] by (auto dest: in_set_takeD)
  then show ?thesis using g' b'(1,2) s by auto
qed

text \<open>While another target of the model is served, a target whose breaker is open is never offered, and asking
  about it does not change its entry.\<close>

theorem router_skips_open_target:
  assumes "src_targets model = Some srcs" and "0 < cap" and "cb_local b" and "targets_short (md_name model) srcs"
    and "ep0 \<in> ut_endpoint ` set srcs" and "serving b (md_name model, ep0)"
    and "cb_view b (md_name model, ep) = Some e" and "ce_state e = CB_OPEN" and "\<forall>j. clock j < ce_open_until e"
  shows "\<exists>g' b' out. model_router_select_candidates g (Some b) redis clock (\<lambda>j. True) lt junk model cap = (g', Some b', Some out) \<and>
    ep \<notin> ut_endpoint ` set out \<and> cb_view b' (md_name model, ep) = Some e"
proof -
  have "\<forall>j. refuses e (clock j)" using open_refuses assms(8,9) by blast
  from snap_refuses [OF assms(3,4,7) this, of redis 0] select_with_serving [OF assms(1-6), of g redis clock lt junk]
  show ?thesis by fastforce
qed

theorem router_skips_open_target_witness:
  "\<exists>g' b' out. model_router_select_candidates \<lparr>g_target_slots = [], g_rr_counter = 0\<rparr> (Some (cb_demo CB_OPEN)) (\<lambda>a k f c. None)
      (\<lambda>j. 129) (\<lambda>j. True) [] (\<lambda>i. 0) demo_route 8 = (g', Some b', Some out) \<and> ''eu'' \<notin> ut_endpoint ` set out"
  using router_skips_open_target [OF demo_route_facts(1) _ demo_route_facts(2-5,7), of 8 CB_OPEN "\<lambda>j. 129"]
  by (fastforce simp: cb_demo_eval)

text \<open>Later activity: more selections, and successes reported for other targets.\<close>

datatype sel_op = Select "nat \<Rightarrow> int" | Succeed string

definition sel_do ::
  "cb_redis \<Rightarrow> latency_tracker \<Rightarrow> (nat \<Rightarrow> int) \<Rightarrow> model_rec \<Rightarrow> int \<Rightarrow> router_globals \<times> circuit_breaker option \<Rightarrow> sel_op \<Rightarrow>
   (router_globals \<times> circuit_breaker option) \<times> upstream_target list" where
  "sel_do redis lt junk model cap s x =
     (case x of
        Select clock \<Rightarrow>
          (case model_router_select_candidates (fst s) (snd s) redis clock (\<lambda>j. True) lt junk model cap of
             (g, cb, out) \<Rightarrow> ((g, cb), case out of None \<Rightarrow> [] | Some ts \<Rightarrow> ts))
      | Succeed ep \<Rightarrow> ((fst s, map_option (\<lambda>b. cb_record_success b (Some (md_name model)) (Some ep)) (snd s)), []))"

fun sel_offers ::
  "cb_redis \<Rightarrow> latency_tracker \<Rightarrow> (nat \<Rightarrow> int) \<Rightarrow> model_rec \<Rightarrow> int \<Rightarrow> router_globals \<times> circuit_breaker option \<Rightarrow> sel_op list \<Rightarrow>
   upstream_target list" where
  "sel_offers redis lt junk model cap s [] = []"
| "sel_offers redis lt junk model cap s (x # xs) =
     snd (sel_do redis lt junk model cap s x) @ sel_offers redis lt junk model cap (fst (sel_do redis lt junk model cap s x)) xs"

definition stranded :: "circuit_breaker \<Rightarrow> model_rec \<Rightarrow> string \<Rightarrow> string \<Rightarrow> bool" where
  "stranded b model ep ep0 \<longleftrightarrow> cb_local b \<and> serving b (md_name model, ep0) \<and>
     (\<exists>e. cb_view b (md_name model, ep) = Some e \<and> probing e)"

lemma success_keeps_stranded:
  assumes "stranded b model ep ep0" "ep' \<noteq> ep"
  shows "stranded (cb_record_success b (Some (md_name model)) (Some ep')) model ep ep0"
proof (cases "cb_view b (md_name model, ep')")
  case None
  then have "cb_find_entry b (Some (md_name model)) (Some ep') = None" by (simp add: cb_view_def)
  then have "cb_record_success b (Some (md_name model)) (Some ep') = b" by (simp add: cb_record_success_def)
  then show ?thesis using assms(1) by simp
next
  case (Some e)
  note v = cb_record_success_view [OF _ Some]
  have "ce_state (cb_success_entry e) = CB_CLOSED \<or> ce_state (cb_success_entry e) = CB_SLA_DEGRADED" if "ep' = ep0"
    using assms(1) Some that by (auto simp: stranded_def serving_def cb_success_entry_def Let_def)
  then show ?thesis
    using v assms cb_params_eqD(3) [of b "cb_record_success b (Some (md_name model)) (Some ep')"]
    by (cases "ep' = ep0") (auto simp: stranded_def cb_local_def serving_def)
qed

lemma stranded_never_offered:
  assumes "src_targets model = Some srcs" "0 < cap" "targets_short (md_name model) srcs" "ep0 \<in> ut_endpoint ` set srcs"
  shows "stranded b model ep ep0 \<Longrightarrow> Succeed ep \<notin> set xs \<Longrightarrow>
    ep \<notin> ut_endpoint ` set (sel_offers redis lt junk model cap (g, Some b) xs)"
proof (induction xs arbitrary: g b)
  case (Cons x xs)
  from Cons.prems(1) obtain e where st: "cb_local b" "serving b (md_name model, ep0)"
    "cb_view b (md_name model, ep) = Some e" "probing e" by (auto simp: stranded_def)
  show ?case
  proof (cases x)
    case (Select clock)
    have "\<forall>j. refuses e (clock j)" using probing_refuses st(4) by blast
    from snap_refuses [OF st(1) assms(3) st(3) this, of redis 0]
      select_with_serving [OF assms(1,2) st(1) assms(3,4) st(2), of g redis clock lt junk] st(4)
    obtain g' b' out where s: "model_router_select_candidates g (Some b) redis clock (\<lambda>j. True) lt junk model cap = (g', Some b', Some out)"
      "ep \<notin> ut_endpoint ` set out" "stranded b' model ep ep0" by (fastforce simp: stranded_def)
    from Cons.IH [OF s(3), of g'] Cons.prems(2) s(1,2) Select show ?thesis by (auto simp: sel_do_def)
  next
    case (Succeed ep')
    from Cons.IH [OF success_keeps_stranded [OF Cons.prems(1)], of ep' g] Cons.prems(2) Succeed show ?thesis
      by (auto simp: sel_do_def)
  qed
qed simp

text \<open>A probe taken and not used is lost: when a target is due for its probe and the request goes to another
  target, the selection has marked the probe as running; no later selection offers the target again,
  however much time passes and however many requests succeed, until a result is reported for it.\<close>

theorem router_strands_probe:
  assumes "src_targets model = Some srcs" and "0 < cap" and "cb_local b" and "targets_short (md_name model) srcs"
    and "ep0 \<in> ut_endpoint ` set srcs" and "serving b (md_name model, ep0)"
    and "ep \<in> ut_endpoint ` set srcs" and "cb_view b (md_name model, ep) = Some e" and "\<forall>j. probe_due e (clock j)"
    and "Succeed ep \<notin> set xs"
  shows "\<exists>g' b' out. model_router_select_candidates g (Some b) redis clock (\<lambda>j. True) lt junk model cap = (g', Some b', Some out) \<and>
    ep \<notin> ut_endpoint ` set (sel_offers redis lt junk model cap (g', Some b') xs)"
proof -
  from snap_due [OF assms(3,4,8,9,7), of redis 0] select_with_serving [OF assms(1-6), of g redis clock lt junk]
  obtain g' b' out where s: "model_router_select_candidates g (Some b) redis clock (\<lambda>j. True) lt junk model cap = (g', Some b', Some out)"
    "stranded b' model ep ep0" by (auto simp: stranded_def)
  from stranded_never_offered [OF assms(1,2,4,5) s(2) assms(10)] s(1) show ?thesis by blast
qed

theorem router_strands_probe_witness:
  "\<exists>g' b' out. model_router_select_candidates \<lparr>g_target_slots = [], g_rr_counter = 0\<rparr> (Some (cb_demo CB_OPEN)) (\<lambda>a k f c. None)
      (\<lambda>j. 130) (\<lambda>j. True) [] (\<lambda>i. 0) demo_route 8 = (g', Some b', Some out) \<and>
    ''eu'' \<notin> ut_endpoint ` set (sel_offers (\<lambda>a k f c. None) [] (\<lambda>i. 0) demo_route 8 (g', Some b') [Succeed ''us'', Select (\<lambda>j. 100000)])"
proof (rule router_strands_probe [OF demo_route_facts(1) _ demo_route_facts(2-7)])
  show "\<forall>j. probe_due (cb_override_entry 30 100 CB_OPEN (cb_fresh (''gpt'', ''eu''))) 130"
    by (simp add: cb_demo_eval probe_due_def cb_advance_def cb_cooloff_expired_def)
qed simp_all

end
