(* ===== verification/Cache_Key.thy ===== *)
theory Cache_Key
  imports Decimal
begin

text \<open>
  \<open>response_cache_fingerprint\<close> of \<^verbatim>\<open>src/policy/response_cache.c\<close>: the key under which a response
  is cached, the SHA-256 of a text built from the request in a buffer of 16384 bytes. jansson and
  SHA-256 are parameters; a result \<open>None\<close> of the building steps is a write outside the buffer.
\<close>

section \<open>Parameters\<close>

text \<open>What the code asks of a JSON value; lookups accept NULL as jansson's do.\<close>

record 'j json_api =
  jo_loadb :: "string \<Rightarrow> 'j option"
  jo_is_object :: "'j \<Rightarrow> bool"
  jo_get :: "'j option \<Rightarrow> string \<Rightarrow> 'j option"
  jo_string :: "'j option \<Rightarrow> string option"
  jo_number :: "'j option \<Rightarrow> real option"
  jo_array :: "'j option \<Rightarrow> 'j list option"

section \<open>The buffer\<close>

definition FP_BUF :: nat where "FP_BUF = 16384"

text \<open>What has been written and the offset, which counts also what \<open>snprintf\<close> had no room for.\<close>

type_synonym fp_state = "string \<times> nat"

definition fp_snprintf :: "string \<Rightarrow> fp_state \<Rightarrow> fp_state option" where
  "fp_snprintf s st =
     (if snd st \<le> FP_BUF then Some (fst st @ take (FP_BUF - snd st - 1) s, snd st + length s) else None)"

definition fp_putc :: "char \<Rightarrow> fp_state \<Rightarrow> fp_state option" where
  "fp_putc c st = (if snd st < FP_BUF then Some (fst st @ [c], snd st + 1) else None)"

section \<open>The parts of the text\<close>

definition fp_number :: "'j json_api \<Rightarrow> string \<Rightarrow> 'j option \<Rightarrow> fp_state \<Rightarrow> fp_state option" where
  "fp_number api label j st =
     (case jo_number api j of
        Some x \<Rightarrow> if snd st < FP_BUF - 32 then fp_snprintf (label @ '':'' @ fixed_str 2 x @ ''|'') st else Some st
      | None \<Rightarrow> Some st)"

definition fp_system :: "'j json_api \<Rightarrow> 'j option \<Rightarrow> fp_state \<Rightarrow> fp_state option" where
  "fp_system api j st =
     (case jo_string api j of
        Some s \<Rightarrow> if snd st < FP_BUF - 64 then fp_snprintf (''sys:'' @ s @ ''|'') st else Some st
      | None \<Rightarrow> Some st)"

fun fp_parts :: "'j json_api \<Rightarrow> nat \<Rightarrow> 'j list \<Rightarrow> fp_state \<Rightarrow> fp_state option" where
  "fp_parts api pidx [] st = Some st"
| "fp_parts api pidx (part # ps) st = do {
     st1 \<leftarrow> (if jo_is_object api part then
               (case jo_string api (jo_get api (Some part) ''text'') of
                  Some pt \<Rightarrow> if snd st < FP_BUF - 128
                             then fp_snprintf (''part['' @ nat_str pidx @ '']:'' @ pt @ ''|'') st else Some st
                | None \<Rightarrow> Some st)
             else Some st);
     fp_parts api (Suc pidx) ps st1
   }"

definition fp_role :: "'j json_api \<Rightarrow> nat \<Rightarrow> 'j \<Rightarrow> fp_state \<Rightarrow> fp_state option" where
  "fp_role api idx m st =
     (case jo_string api (jo_get api (Some m) ''role'') of
        Some role \<Rightarrow> if snd st < FP_BUF - 128
                     then fp_snprintf (''msg['' @ nat_str idx @ '']:'' @ role @ ''='') st else Some st
      | None \<Rightarrow> Some st)"

definition fp_content_of :: "'j json_api \<Rightarrow> 'j \<Rightarrow> 'j option" where
  "fp_content_of api m =
     (case jo_get api (Some m) ''content'' of Some c \<Rightarrow> Some c | None \<Rightarrow> jo_get api (Some m) ''parts'')"

definition fp_content :: "'j json_api \<Rightarrow> 'j option \<Rightarrow> fp_state \<Rightarrow> fp_state option" where
  "fp_content api content st =
     (case (if snd st < FP_BUF - 128 then jo_string api content else None) of
        Some cstr \<Rightarrow>
          let clen = (if length cstr > 256 then 256 else length cstr)
          in if snd st + clen < FP_BUF - 10
             then Some (fst st @ take clen cstr @ ''|'', snd st + clen + 1) else Some st
      | None \<Rightarrow>
          (case jo_array api content of
             Some ps \<Rightarrow> fp_parts api 0 ps st
           | None \<Rightarrow> Some st))"

text \<open>The loop over the messages: \<open>continue\<close> skips the test that ends it early.\<close>

fun fp_messages :: "'j json_api \<Rightarrow> nat \<Rightarrow> 'j list \<Rightarrow> fp_state \<Rightarrow> fp_state option" where
  "fp_messages api idx [] st = Some st"
| "fp_messages api idx (m # ms) st =
     (if \<not> jo_is_object api m then fp_messages api (Suc idx) ms st
      else do {
        st1 \<leftarrow> fp_role api idx m st;
        st2 \<leftarrow> fp_content api (fp_content_of api m) st1;
        if snd st2 \<ge> FP_BUF - 256 then Some st2 else fp_messages api (Suc idx) ms st2
      })"

fun fp_tool_names :: "'j json_api \<Rightarrow> 'j list \<Rightarrow> fp_state \<Rightarrow> fp_state option" where
  "fp_tool_names api [] st = Some st"
| "fp_tool_names api (tool # ts) st = do {
     st1 \<leftarrow> (let fnc = jo_get api (Some tool) ''function'';
                 fname = jo_string api (jo_get api (if fnc \<noteq> None then fnc else Some tool) ''name'')
             in case fname of
                  Some n \<Rightarrow> if snd st < FP_BUF - 64 then fp_snprintf (n @ '','') st else Some st
                | None \<Rightarrow> Some st);
     fp_tool_names api ts st1
   }"

definition fp_tools :: "'j json_api \<Rightarrow> 'j option \<Rightarrow> fp_state \<Rightarrow> fp_state option" where
  "fp_tools api j st =
     (case jo_array api j of
        Some ts \<Rightarrow>
          if snd st < FP_BUF - 128 then do {
            st1 \<leftarrow> fp_snprintf ''tools:'' st;
            st2 \<leftarrow> fp_tool_names api ts st1;
            fp_putc CHR ''|'' st2
          } else Some st
      | None \<Rightarrow> Some st)"

definition fp_messages_of :: "'j json_api \<Rightarrow> 'j \<Rightarrow> 'j list option" where
  "fp_messages_of api doc =
     (let msgs = jo_get api (Some doc) ''messages'';
          msgs = (if jo_array api msgs = None then jo_get api (Some doc) ''contents'' else msgs)
      in jo_array api msgs)"

text \<open>The text of a request; the terminator at the end must lie inside the buffer.\<close>

definition fp_text :: "'j json_api \<Rightarrow> string \<Rightarrow> 'j \<Rightarrow> string option" where
  "fp_text api model doc = do {
     st1 \<leftarrow> fp_snprintf (''model:'' @ map to_lower (take 63 model) @ ''|'') ([], 0);
     st2 \<leftarrow> fp_number api ''temp'' (jo_get api (Some doc) ''temperature'') st1;
     st3 \<leftarrow> fp_number api ''topp'' (jo_get api (Some doc) ''top_p'') st2;
     st4 \<leftarrow> fp_system api (jo_get api (Some doc) ''system'') st3;
     st5 \<leftarrow> (case fp_messages_of api doc of Some ms \<Rightarrow> fp_messages api 0 ms st4 | None \<Rightarrow> Some st4);
     st6 \<leftarrow> fp_tools api (jo_get api (Some doc) ''tools'') st5;
     (if snd st6 < FP_BUF then Some (fst st6) else None)
   }"

definition sha_hex :: "(string \<Rightarrow> 8 word list) \<Rightarrow> string \<Rightarrow> string" where
  "sha_hex sha s = concat (map hex2 (take 32 (sha s)))"

text \<open>The key, or the inner \<open>None\<close> for the result -1; an empty body counts as none.\<close>

definition response_cache_fingerprint ::
  "'j json_api \<Rightarrow> (string \<Rightarrow> 8 word list) \<Rightarrow> string option \<Rightarrow> string option \<Rightarrow> string option option" where
  "response_cache_fingerprint api sha model json_body =
     (case model of
        None \<Rightarrow> Some None
      | Some m \<Rightarrow>
          if cstr_or_empty json_body = [] then Some (Some (sha_hex sha m))
          else (case jo_loadb api (cstr_or_empty json_body) of
                  None \<Rightarrow> Some None
                | Some doc \<Rightarrow>
                    if \<not> jo_is_object api doc then Some None
                    else map_option (\<lambda>t. Some (sha_hex sha t)) (fp_text api m doc)))"

section \<open>Requests with the same key\<close>

text \<open>Two messages the fingerprint cannot tell apart: the same role, and contents that agree in the first 256
  characters.\<close>

definition fp_same_msg :: "'j json_api \<Rightarrow> 'j \<Rightarrow> 'j \<Rightarrow> bool" where
  "fp_same_msg api a b \<longleftrightarrow> jo_is_object api a \<and> jo_is_object api b \<and>
     jo_string api (jo_get api (Some a) ''role'') = jo_string api (jo_get api (Some b) ''role'') \<and>
     (\<exists>x y. jo_string api (fp_content_of api a) = Some x \<and> jo_string api (fp_content_of api b) = Some y \<and>
        take 256 x = take 256 y) \<and>
     jo_array api (fp_content_of api a) = jo_array api (fp_content_of api b)"

lemma fp_content_prefix:
  assumes "jo_string api a = Some x" "jo_string api b = Some y" "take 256 x = take 256 y" "jo_array api a = jo_array api b"
  shows "fp_content api a st = fp_content api b st"
proof -
  have c: "(if length z > 256 then 256 else length z) = length (take 256 z)"
      "take (length (take 256 z)) z = take 256 z" for z :: string
    by (simp_all add: min_def)
  show ?thesis unfolding fp_content_def assms(1,2,4) Let_def c
    by (cases "snd st < FP_BUF - 128") (simp_all only: if_True if_False option.case assms(3))
qed

lemma fp_messages_prefix:
  "list_all2 (fp_same_msg api) ms ns \<Longrightarrow> fp_messages api idx ms st = fp_messages api idx ns st"
proof (induction ms ns arbitrary: idx st rule: list_all2_induct)
  case (Cons a as b bs)
  from Cons.hyps(1) obtain x y where xy: "jo_string api (fp_content_of api a) = Some x" "jo_string api (fp_content_of api b) = Some y"
    "take 256 x = take 256 y" "jo_array api (fp_content_of api a) = jo_array api (fp_content_of api b)"
    by (auto simp: fp_same_msg_def)
  have r: "fp_role api idx a st = fp_role api idx b st" using Cons.hyps(1) by (simp add: fp_same_msg_def fp_role_def)
  have o: "jo_is_object api a" "jo_is_object api b" using Cons.hyps(1) by (simp_all add: fp_same_msg_def)
  show ?case using r o Cons.IH fp_content_prefix [OF xy] by (simp cong: if_cong)
qed simp

text \<open>Two requests get the same key, whatever the hash function, when they differ only in fields the
  fingerprint does not read (such as the limit of tokens, the seed or the response format) and in what
  their messages say after the first 256 characters: the cached answer to one is served for the other.\<close>

theorem cache_key_ignores_long_content:
  assumes "jo_loadb api body1 = Some d1" and "jo_loadb api body2 = Some d2" and "body1 \<noteq> []" and "body2 \<noteq> []"
    and "jo_is_object api d1" and "jo_is_object api d2"
    and "\<forall>f \<in> {''temperature'', ''top_p'', ''system'', ''tools''}. jo_get api (Some d1) f = jo_get api (Some d2) f"
    and "fp_messages_of api d1 = Some ms" and "fp_messages_of api d2 = Some ns" and "list_all2 (fp_same_msg api) ms ns"
  shows "response_cache_fingerprint api sha (Some model) (Some body1) = response_cache_fingerprint api sha (Some model) (Some body2)"
proof -
  have "fp_text api model d1 = fp_text api model d2"
    using assms(7) fp_messages_prefix [OF assms(10)] unfolding fp_text_def assms(8,9) by simp
  with assms(1-6) show ?thesis by (simp add: response_cache_fingerprint_def)
qed

section \<open>Writes past the buffer\<close>

lemma fp_full:
  assumes "FP_BUF \<le> snd st"
  shows "fp_number api label j st = Some st" "fp_role api idx m st = Some st" "fp_parts api pidx ps st = Some st"
    "fp_tools api j st = Some st"
proof -
  have l: "\<not> snd st < FP_BUF - 32" "\<not> snd st < FP_BUF - 128" using assms by (simp_all add: FP_BUF_def)
  show "fp_number api label j st = Some st" "fp_role api idx m st = Some st" "fp_tools api j st = Some st"
    using l by (simp_all add: fp_number_def fp_role_def fp_tools_def split: option.splits)
  show "fp_parts api pidx ps st = Some st"
    using l by (induction ps arbitrary: pidx) (simp_all split: option.splits)
qed

lemma fp_full_messages:
  assumes "FP_BUF \<le> snd st"
  shows "fp_messages api idx ms st = Some st"
proof (induction ms arbitrary: idx)
  case (Cons m ms)
  have "fp_content api c st = Some st" for c
    using assms by (simp add: fp_content_def fp_full(3) [OF assms] FP_BUF_def split: option.splits)
  moreover have "FP_BUF - 256 \<le> snd st" using assms by simp
  ultimately show ?case using Cons by (simp add: fp_full(2) [OF assms])
qed simp

text \<open>A request whose system prompt has 16384 characters or more makes the fingerprint write outside its
  buffer: the offset counts all of the prompt, and the terminator is stored there.\<close>

theorem cache_key_overruns_buffer:
  assumes "jo_loadb api body = Some d" and "body \<noteq> []" and "jo_is_object api d"
    and "jo_number api (jo_get api (Some d) ''temperature'') = None" and "jo_number api (jo_get api (Some d) ''top_p'') = None"
    and "jo_string api (jo_get api (Some d) ''system'') = Some s" and "16384 \<le> length s"
  shows "response_cache_fingerprint api sha (Some model) (Some body) = None"
proof -
  let ?m = "''model:'' @ map to_lower (take 63 model) @ ''|''"
  obtain n where n: "length ?m = n" "n \<le> 70" by simp
  obtain t1 where t1: "fp_snprintf ?m ([], 0) = Some (t1, n)" using n(1) by (simp add: fp_snprintf_def del: length_append)
  obtain t4 where t4: "fp_system api (jo_get api (Some d) ''system'') (t1, n) = Some (t4, n + length s + 5)"
    using n(2) assms(6) by (simp add: fp_system_def fp_snprintf_def FP_BUF_def)
  let ?st = "(t4, n + length s + 5)"
  have full: "FP_BUF \<le> snd ?st" using assms(7) by (simp add: FP_BUF_def)
  have "fp_text api model d = None"
    unfolding fp_text_def t1 using assms(4,5) t4 full
    by (simp add: fp_number_def fp_full_messages [OF full] fp_full(4) [OF full] del: length_append split: option.splits)
  with assms(1-3) show ?thesis by (simp add: response_cache_fingerprint_def)
qed

section \<open>Witnesses\<close>

text \<open>A small JSON library: a body of two characters stands for a chat request whose one message has 256 copies
  of the first and then the second one; a body of one for a request with a long system prompt.\<close>

datatype demo_json = DStr string | DArr "demo_json list" | DObj "(string \<times> demo_json) list"

fun demo_doc :: "string \<Rightarrow> demo_json option" where
  "demo_doc [a, b] = Some (DObj [(''messages'', DArr [DObj [(''role'', DStr ''user''), (''content'', DStr (replicate 256 a @ [b]))]])])"
| "demo_doc [a] = Some (DObj [(''system'', DStr (replicate 16384 a))])"
| "demo_doc _ = None"

definition demo_api :: "demo_json json_api" where
  "demo_api = \<lparr>jo_loadb = demo_doc, jo_is_object = (\<lambda>j. case j of DObj _ \<Rightarrow> True | _ \<Rightarrow> False),
     jo_get = (\<lambda>j k. case j of Some (DObj fs) \<Rightarrow> map_of fs k | _ \<Rightarrow> None),
     jo_string = (\<lambda>j. case j of Some (DStr s) \<Rightarrow> Some s | _ \<Rightarrow> None), jo_number = (\<lambda>j. None),
     jo_array = (\<lambda>j. case j of Some (DArr xs) \<Rightarrow> Some xs | _ \<Rightarrow> None)\<rparr>"

theorem cache_key_ignores_long_content_witness:
  "response_cache_fingerprint demo_api (\<lambda>s. []) (Some ''m'') (Some ''ab'') =
     response_cache_fingerprint demo_api (\<lambda>s. []) (Some ''m'') (Some ''ac'')"
proof -
  have m: "fp_messages_of demo_api (DObj [(''messages'', DArr ms)]) = Some ms" for ms
    by (simp add: fp_messages_of_def demo_api_def)
  have d: "jo_loadb demo_api [a, b] = Some (DObj [(''messages'', DArr [DObj [(''role'', DStr ''user''), (''content'', DStr (replicate 256 a @ [b]))]])])" for a b
    by (simp add: demo_api_def)
  have t: "take 256 (replicate 256 a @ [b]) = replicate 256 a" for a b :: char by simp
  show ?thesis
    by (rule cache_key_ignores_long_content [OF d d _ _ _ _ _ m m])
       (simp_all add: demo_api_def fp_same_msg_def fp_content_of_def t del: take_append)
qed

theorem cache_key_overruns_buffer_witness:
  "response_cache_fingerprint demo_api (\<lambda>s. []) (Some ''m'') (Some ''a'') = None"
proof -
  obtain s where s: "s = replicate 16384 CHR ''a''" by blast
  have l: "16384 \<le> length s" unfolding s length_replicate by (rule order_refl)
  have d: "demo_doc ''a'' = Some (DObj [(''system'', DStr s)])" unfolding s by (rule demo_doc.simps)
  show ?thesis
    by (rule cache_key_overruns_buffer [OF _ _ _ _ _ _ l, where d = "DObj [(''system'', DStr s)]"])
       (simp_all add: demo_api_def d del: demo_doc.simps)
qed

end
