(* ===== verification/Response_Cache.thy ===== *)
theory Response_Cache
  imports Prelude
begin

text \<open>
  The store of \<^verbatim>\<open>src/policy/response_cache.c\<close>: 16 shards of hash chains and recency lists over
  entries that readers pin by a reference count. Entries and bodies live in a memory of their own;
  a chain or recency list is the list of the addresses it links, most recent first. A result \<open>None\<close>
  is an access to freed memory or a loop that does not end. Every operation runs under the lock of
  its shard, a release runs without. Counters of hits and misses are natural numbers.
\<close>

section \<open>State\<close>

definition CACHE_SHARDS_COUNT :: nat where "CACHE_SHARDS_COUNT = 16"
definition CACHE_BUCKETS_PER_SHARD :: nat where "CACHE_BUCKETS_PER_SHARD = 1024"

record cache_entry =
  en_cache_key :: string
  en_model :: string
  en_response_body :: nat
  en_response_len :: nat
  en_status_code :: int
  en_prompt_tokens :: int
  en_completion_tokens :: int
  en_cost_usd :: real
  en_created_at :: int
  en_expires_at :: int
  en_ref_count :: int

record cache_shard =
  sh_buckets :: "nat list list"
  sh_lru :: "nat list"
  sh_count :: nat
  sh_bytes_used :: nat
  sh_max_count :: nat
  sh_max_bytes :: nat
  sh_hits :: nat
  sh_misses :: nat

text \<open>The memory: entries, bodies, and the next address never used.\<close>

record cache_mem =
  cm_entries :: "nat \<Rightarrow> cache_entry option"
  cm_bodies :: "nat \<Rightarrow> string option"
  cm_brk :: nat

record response_cache =
  rc_shards :: "cache_shard list"
  rc_enabled :: bool
  rc_default_ttl_sec :: int
  rc_total_max_bytes :: nat
  rc_total_max_entries :: nat
  rc_saved_prompt_tokens :: "64 word"
  rc_saved_completion_tokens :: "64 word"
  rc_saved_cost_usd :: real
  rc_mem :: cache_mem

section \<open>Shards and chains\<close>

text \<open>The value of a hex digit, 0 for any other character.\<close>

definition hex_value :: "char \<Rightarrow> nat" where
  "hex_value c =
     (let n = of_char c in
      if 48 \<le> n \<and> n \<le> 57 then n - 48
      else if 97 \<le> n \<and> n \<le> 102 then n - 97 + 10
      else if 65 \<le> n \<and> n \<le> 70 then n - 65 + 10 else 0)"

definition shard_index :: "string \<Rightarrow> nat" where
  "shard_index key =
     (case key of
        c0 # c1 # rest \<Rightarrow> (hex_value c0 * 16 + hex_value c1) mod CACHE_SHARDS_COUNT
      | _ \<Rightarrow> 0)"

definition bucket_index :: "string \<Rightarrow> nat" where
  "bucket_index key = unat (djb2 5381 key) mod CACHE_BUCKETS_PER_SHARD"

definition lru_remove :: "cache_shard \<Rightarrow> nat \<Rightarrow> cache_shard" where
  "lru_remove s a = s\<lparr>sh_lru := remove1 a (sh_lru s)\<rparr>"

definition lru_push_head :: "cache_shard \<Rightarrow> nat \<Rightarrow> cache_shard" where
  "lru_push_head s a = s\<lparr>sh_lru := a # sh_lru s\<rparr>"

definition bucket_remove :: "cache_shard \<Rightarrow> nat \<Rightarrow> nat \<Rightarrow> cache_shard" where
  "bucket_remove s b a = s\<lparr>sh_buckets := (sh_buckets s)[b := remove1 a (sh_buckets s ! b)]\<rparr>"

text \<open>The walk along a chain: the first entry with the key.\<close>

fun chain_find :: "cache_mem \<Rightarrow> string \<Rightarrow> nat list \<Rightarrow> nat option option" where
  "chain_find m key [] = Some None"
| "chain_find m key (a # as) =
     (case cm_entries m a of
        None \<Rightarrow> None
      | Some e \<Rightarrow> if en_cache_key e = key then Some (Some a) else chain_find m key as)"

text \<open>Freeing an entry and its body.\<close>

definition free_entry :: "cache_mem \<Rightarrow> nat \<Rightarrow> cache_entry \<Rightarrow> cache_mem" where
  "free_entry m a e = m\<lparr>cm_entries := (cm_entries m)(a := None), cm_bodies := (cm_bodies m)(en_response_body e := None)\<rparr>"

definition destroy_entry_internal :: "cache_mem \<Rightarrow> nat \<Rightarrow> cache_mem option" where
  "destroy_entry_internal m a =
     (case cm_entries m a of
        None \<Rightarrow> None
      | Some e \<Rightarrow>
          if en_ref_count e \<le> 0 then Some (free_entry m a e)
          else Some (m\<lparr>cm_entries := (cm_entries m)(a \<mapsto> e\<lparr>en_status_code := -1\<rparr>)\<rparr>))"

text \<open>Taking an entry out of its chain and the recency list, with the counts.\<close>

definition unlink_entry :: "cache_shard \<Rightarrow> nat \<Rightarrow> nat \<Rightarrow> nat \<Rightarrow> cache_shard" where
  "unlink_entry s b a len =
     (let s1 = lru_remove (bucket_remove s b a) a;
          s2 = s1\<lparr>sh_count := (if sh_count s1 > 0 then sh_count s1 - 1 else sh_count s1)\<rparr>
      in s2\<lparr>sh_bytes_used := (if sh_bytes_used s2 \<ge> len then sh_bytes_used s2 - len else 0)\<rparr>)"

definition evict_one_lru_locked :: "cache_mem \<Rightarrow> cache_shard \<Rightarrow> (cache_mem \<times> cache_shard) option" where
  "evict_one_lru_locked m s =
     (if sh_lru s = [] then Some (m, s)
      else let victim = last (sh_lru s) in
           case cm_entries m victim of
             None \<Rightarrow> None
           | Some e \<Rightarrow>
               map_option (\<lambda>m'. (m', unlink_entry s (bucket_index (en_cache_key e)) victim (en_response_len e)))
                 (destroy_entry_internal m victim))"

definition response_cache_new :: "bool \<Rightarrow> nat \<Rightarrow> nat \<Rightarrow> int \<Rightarrow> response_cache option" where
  "response_cache_new alloc_ok max_bytes max_entries default_ttl_sec =
     (if \<not> alloc_ok then None
      else let tmb = (if max_bytes > 0 then max_bytes else 128 * 1024 * 1024);
               tme = (if max_entries > 0 then max_entries else 20000);
               smb = (if tmb div CACHE_SHARDS_COUNT = 0 then 1024 * 1024 else tmb div CACHE_SHARDS_COUNT);
               sme = (if tme div CACHE_SHARDS_COUNT = 0 then 100 else tme div CACHE_SHARDS_COUNT)
           in Some \<lparr>rc_shards = replicate CACHE_SHARDS_COUNT
                      \<lparr>sh_buckets = replicate CACHE_BUCKETS_PER_SHARD [], sh_lru = [], sh_count = 0, sh_bytes_used = 0,
                       sh_max_count = sme, sh_max_bytes = smb, sh_hits = 0, sh_misses = 0\<rparr>,
                    rc_enabled = True, rc_default_ttl_sec = (if default_ttl_sec > 0 then default_ttl_sec else 3600),
                    rc_total_max_bytes = tmb, rc_total_max_entries = tme, rc_saved_prompt_tokens = 0,
                    rc_saved_completion_tokens = 0, rc_saved_cost_usd = 0,
                    rc_mem = \<lparr>cm_entries = Map.empty, cm_bodies = Map.empty, cm_brk = 0\<rparr>\<rparr>)"

definition put_shard :: "response_cache \<Rightarrow> nat \<Rightarrow> cache_mem \<Rightarrow> cache_shard \<Rightarrow> response_cache" where
  "put_shard rc i m s = rc\<lparr>rc_shards := (rc_shards rc)[i := s], rc_mem := m\<rparr>"

section \<open>Lookup and release\<close>

definition response_cache_get :: "response_cache \<Rightarrow> string option \<Rightarrow> int \<Rightarrow> (response_cache \<times> nat option) option" where
  "response_cache_get rc key now =
     (case key of
        None \<Rightarrow> Some (rc, None)
      | Some k \<Rightarrow>
          if \<not> rc_enabled rc \<or> k = [] then Some (rc, None)
          else let i = shard_index k; s = rc_shards rc ! i; b = bucket_index k; m = rc_mem rc in
            case chain_find m k (sh_buckets s ! b) of
              None \<Rightarrow> None
            | Some None \<Rightarrow> Some (put_shard rc i m (s\<lparr>sh_misses := sh_misses s + 1\<rparr>), None)
            | Some (Some a) \<Rightarrow>
                (case cm_entries m a of
                   None \<Rightarrow> None
                 | Some e \<Rightarrow>
                     if now \<ge> en_expires_at e then
                       map_option
                         (\<lambda>m'. (put_shard rc i m' ((unlink_entry s b a (en_response_len e))\<lparr>sh_misses := sh_misses s + 1\<rparr>), None))
                         (destroy_entry_internal m a)
                     else
                       (let s1 = lru_push_head (lru_remove s a) a;
                            m1 = m\<lparr>cm_entries := (cm_entries m)(a \<mapsto> e\<lparr>en_ref_count := en_ref_count e + 1\<rparr>)\<rparr>
                        in Some ((put_shard rc i m1 (s1\<lparr>sh_hits := sh_hits s1 + 1\<rparr>))
                                   \<lparr>rc_saved_prompt_tokens := rc_saved_prompt_tokens rc + word_of_int (en_prompt_tokens e),
                                    rc_saved_completion_tokens := rc_saved_completion_tokens rc + word_of_int (en_completion_tokens e),
                                    rc_saved_cost_usd := rc_saved_cost_usd rc + en_cost_usd e\<rparr>, Some a))))"

text \<open>A release is two atomic steps: the subtraction, with the previous count, and the look at the status.\<close>

definition release_entry_sub :: "cache_mem \<Rightarrow> nat \<Rightarrow> (cache_mem \<times> int) option" where
  "release_entry_sub m a =
     (case cm_entries m a of
        None \<Rightarrow> None
      | Some e \<Rightarrow> Some (m\<lparr>cm_entries := (cm_entries m)(a \<mapsto> e\<lparr>en_ref_count := en_ref_count e - 1\<rparr>)\<rparr>, en_ref_count e))"

definition release_entry_check :: "cache_mem \<Rightarrow> nat \<Rightarrow> int \<Rightarrow> cache_mem option" where
  "release_entry_check m a prev =
     (if prev \<le> 1 then
        (case cm_entries m a of
           None \<Rightarrow> None
         | Some e \<Rightarrow> if en_status_code e = -1 then Some (free_entry m a e) else Some m)
      else Some m)"

definition response_cache_release_entry :: "response_cache \<Rightarrow> nat \<Rightarrow> response_cache option" where
  "response_cache_release_entry rc a =
     (case release_entry_sub (rc_mem rc) a of
        None \<Rightarrow> None
      | Some (m, prev) \<Rightarrow> map_option (\<lambda>m'. rc\<lparr>rc_mem := m'\<rparr>) (release_entry_check m a prev))"

text \<open>What a reader that has loaded the pointer to the body reads.\<close>

definition read_body :: "cache_mem \<Rightarrow> nat \<Rightarrow> string option" where
  "read_body m p = cm_bodies m p"

section \<open>Insertion\<close>

text \<open>The loop that makes room.\<close>

partial_function (option) evict_loop :: "nat \<Rightarrow> cache_mem \<Rightarrow> cache_shard \<Rightarrow> (cache_mem \<times> cache_shard) option" where
  "evict_loop len m s =
     (if sh_count s \<ge> sh_max_count s \<or> (sh_bytes_used s + len > sh_max_bytes s \<and> sh_count s > 0)
      then (case evict_one_lru_locked m s of None \<Rightarrow> None | Some (m', s') \<Rightarrow> evict_loop len m' s')
      else Some (m, s))"

text \<open>Replacing the body and the data of an entry that has the key.\<close>

definition update_entry ::
  "cache_mem \<Rightarrow> cache_shard \<Rightarrow> nat \<Rightarrow> cache_entry \<Rightarrow> string \<Rightarrow> int \<Rightarrow> int \<Rightarrow> real \<Rightarrow> int \<Rightarrow> int \<Rightarrow> (cache_mem \<times> cache_shard) option" where
  "update_entry m s a e body prompt_tokens completion_tokens cost_usd now ttl =
     (let p = cm_brk m;
          s1 = (if sh_bytes_used s \<ge> en_response_len e then s\<lparr>sh_bytes_used := sh_bytes_used s - en_response_len e\<rparr> else s);
          e1 = e\<lparr>en_response_body := p, en_response_len := length body, en_status_code := 200,
                 en_prompt_tokens := prompt_tokens, en_completion_tokens := completion_tokens, en_cost_usd := cost_usd,
                 en_created_at := now, en_expires_at := now + ttl\<rparr>;
          s2 = lru_push_head (lru_remove (s1\<lparr>sh_bytes_used := sh_bytes_used s1 + length body\<rparr>) a) a
      in if cm_bodies m (en_response_body e) = None then None
         else Some (m\<lparr>cm_entries := (cm_entries m)(a \<mapsto> e1),
                      cm_bodies := (cm_bodies m)(en_response_body e := None, p \<mapsto> body), cm_brk := p + 1\<rparr>, s2))"

definition insert_entry ::
  "cache_mem \<Rightarrow> cache_shard \<Rightarrow> string \<Rightarrow> string option \<Rightarrow> string \<Rightarrow> int \<Rightarrow> int \<Rightarrow> real \<Rightarrow> int \<Rightarrow> int \<Rightarrow> cache_mem \<times> cache_shard" where
  "insert_entry m s key model body prompt_tokens completion_tokens cost_usd now ttl =
     (let a = cm_brk m; p = a + 1; b = bucket_index key;
          e = \<lparr>en_cache_key = cstr_copy 65 key, en_model = cstr_copy 64 (cstr_or_empty model), en_response_body = p,
               en_response_len = length body, en_status_code = 200, en_prompt_tokens = prompt_tokens,
               en_completion_tokens = completion_tokens, en_cost_usd = cost_usd, en_created_at = now,
               en_expires_at = now + ttl, en_ref_count = 0\<rparr>;
          s1 = lru_push_head (s\<lparr>sh_buckets := (sh_buckets s)[b := a # (sh_buckets s ! b)]\<rparr>) a
      in (m\<lparr>cm_entries := (cm_entries m)(a \<mapsto> e), cm_bodies := (cm_bodies m)(p \<mapsto> body), cm_brk := p + 1\<rparr>,
          s1\<lparr>sh_count := sh_count s1 + 1, sh_bytes_used := sh_bytes_used s1 + length body\<rparr>))"

text \<open>\<open>body_ok\<close> and \<open>entry_ok\<close> are the allocations.\<close>

definition response_cache_set ::
  "response_cache \<Rightarrow> bool \<Rightarrow> bool \<Rightarrow> string option \<Rightarrow> string option \<Rightarrow> string option \<Rightarrow> int \<Rightarrow> int \<Rightarrow> real \<Rightarrow> int \<Rightarrow> int \<Rightarrow>
   (response_cache \<times> int) option" where
  "response_cache_set rc entry_ok body_ok key model body prompt_tokens completion_tokens cost_usd ttl_sec now =
     (case (key, body) of
        (Some k, Some t) \<Rightarrow>
          if \<not> rc_enabled rc \<or> t = [] then Some (rc, -1)
          else if length t > 1024 * 1024 then Some (rc, -1)
          else let i = shard_index k; s = rc_shards rc ! i; b = bucket_index k; m = rc_mem rc;
                   ttl = (if ttl_sec > 0 then ttl_sec else rc_default_ttl_sec rc) in
            (case chain_find m k (sh_buckets s ! b) of
               None \<Rightarrow> None
             | Some (Some a) \<Rightarrow>
                 (case cm_entries m a of
                    None \<Rightarrow> None
                  | Some e \<Rightarrow>
                      if \<not> body_ok then Some (rc, -1)
                      else map_option (\<lambda>(m', s'). (put_shard rc i m' s', 0))
                             (update_entry m s a e t prompt_tokens completion_tokens cost_usd now ttl))
             | Some None \<Rightarrow>
                 (case evict_loop (length t) m s of
                    None \<Rightarrow> None
                  | Some (m1, s1) \<Rightarrow>
                      if \<not> entry_ok \<or> \<not> body_ok then Some (put_shard rc i m1 s1, -1)
                      else (case insert_entry m1 s1 k model t prompt_tokens completion_tokens cost_usd now ttl of
                              (m2, s2) \<Rightarrow> Some (put_shard rc i m2 s2, 0))))
      | _ \<Rightarrow> Some (rc, -1))"

section \<open>Purge\<close>

definition purge_matches :: "string option \<Rightarrow> cache_entry \<Rightarrow> bool" where
  "purge_matches model e \<longleftrightarrow> cstr_or_empty model = [] \<or> en_model e = cstr_or_empty model"

text \<open>The walk along chain \<open>b\<close>, with the totals so far.\<close>

fun purge_chain ::
  "string option \<Rightarrow> nat \<Rightarrow> nat list \<Rightarrow> cache_mem \<Rightarrow> cache_shard \<Rightarrow> nat \<Rightarrow> nat \<Rightarrow> (cache_mem \<times> cache_shard \<times> nat \<times> nat) option" where
  "purge_chain model b [] m s purged freed = Some (m, s, purged, freed)"
| "purge_chain model b (a # as) m s purged freed =
     (case cm_entries m a of
        None \<Rightarrow> None
      | Some e \<Rightarrow>
          if purge_matches model e then
            (let s1 = lru_remove (bucket_remove s b a) a;
                 s2 = s1\<lparr>sh_count := (if sh_count s1 > 0 then sh_count s1 - 1 else sh_count s1)\<rparr>;
                 s3 = (if sh_bytes_used s2 \<ge> en_response_len e
                       then s2\<lparr>sh_bytes_used := sh_bytes_used s2 - en_response_len e\<rparr> else s2)
             in case destroy_entry_internal m a of
                  None \<Rightarrow> None
                | Some m' \<Rightarrow> purge_chain model b as m' s3 (purged + 1) (freed + en_response_len e))
          else purge_chain model b as m s purged freed)"

fun purge_buckets ::
  "string option \<Rightarrow> nat list \<Rightarrow> cache_mem \<Rightarrow> cache_shard \<Rightarrow> nat \<Rightarrow> nat \<Rightarrow> (cache_mem \<times> cache_shard \<times> nat \<times> nat) option" where
  "purge_buckets model [] m s purged freed = Some (m, s, purged, freed)"
| "purge_buckets model (b # bs) m s purged freed =
     (case purge_chain model b (sh_buckets s ! b) m s purged freed of
        None \<Rightarrow> None
      | Some (m', s', p', f') \<Rightarrow> purge_buckets model bs m' s' p' f')"

fun purge_shards :: "string option \<Rightarrow> nat list \<Rightarrow> response_cache \<Rightarrow> nat \<Rightarrow> nat \<Rightarrow> (response_cache \<times> nat \<times> nat) option" where
  "purge_shards model [] rc purged freed = Some (rc, purged, freed)"
| "purge_shards model (i # is) rc purged freed =
     (case purge_buckets model [0..<CACHE_BUCKETS_PER_SHARD] (rc_mem rc) (rc_shards rc ! i) purged freed of
        None \<Rightarrow> None
      | Some (m', s', p', f') \<Rightarrow> purge_shards model is (put_shard rc i m' s') p' f')"

definition response_cache_purge :: "response_cache \<Rightarrow> string option \<Rightarrow> (response_cache \<times> nat \<times> nat) option" where
  "response_cache_purge rc model = purge_shards model [0..<CACHE_SHARDS_COUNT] rc 0 0"

section \<open>Statistics\<close>

text \<open>The totals of the statistics: entries, bytes, hits, misses and the rate of hits in percent.\<close>

definition response_cache_totals :: "response_cache \<Rightarrow> nat \<times> nat \<times> nat \<times> nat \<times> real" where
  "response_cache_totals rc =
     (let hits = sum_list (map sh_hits (rc_shards rc)); misses = sum_list (map sh_misses (rc_shards rc))
      in (sum_list (map sh_count (rc_shards rc)), sum_list (map sh_bytes_used (rc_shards rc)), hits, misses,
          if hits + misses > 0 then real hits / real (hits + misses) * 100 else 0))"

end
