(* ===== verification/Cache_Props.thy ===== *)
theory Cache_Props
  imports Response_Cache "HOL-Library.Multiset"
begin

text \<open>
  Properties of the response cache: no operation touches freed memory or fails to end, the counts
  of a shard are exact, nothing leaks, a hit is the last response stored for its key; and the two
  ways in which a reader that runs beside an operation reads freed memory.
\<close>

section \<open>Shards\<close>

definition key_at :: "cache_mem \<Rightarrow> nat \<Rightarrow> string" where
  "key_at m a = en_cache_key (the (cm_entries m a))"

definition len_at :: "cache_mem \<Rightarrow> nat \<Rightarrow> nat" where
  "len_at m a = en_response_len (the (cm_entries m a))"

text \<open>A linked entry is live, belongs to the shard and is in the chain of its key.\<close>

definition entry_ok :: "cache_mem \<Rightarrow> nat \<Rightarrow> cache_shard \<Rightarrow> nat \<Rightarrow> bool" where
  "entry_ok m i s a \<longleftrightarrow> (\<exists>e. cm_entries m a = Some e \<and> en_status_code e \<noteq> -1 \<and> shard_index (en_cache_key e) = i \<and>
     a \<in> set (sh_buckets s ! bucket_index (en_cache_key e)))"

definition shard_ok :: "cache_mem \<Rightarrow> nat \<Rightarrow> cache_shard \<Rightarrow> bool" where
  "shard_ok m i s \<longleftrightarrow>
     length (sh_buckets s) = CACHE_BUCKETS_PER_SHARD \<and> 1 \<le> sh_max_count s \<and> distinct (sh_lru s) \<and>
     distinct (concat (sh_buckets s)) \<and> set (concat (sh_buckets s)) = set (sh_lru s) \<and>
     (\<forall>a \<in> set (sh_lru s). entry_ok m i s a) \<and> inj_on (key_at m) (set (sh_lru s)) \<and>
     sh_count s = length (sh_lru s) \<and> sh_bytes_used s = sum_list (map (len_at m) (sh_lru s)) \<and>
     sh_count s \<le> sh_max_count s"

lemma bucket_index_less [simp]: "bucket_index k < CACHE_BUCKETS_PER_SHARD"
  by (simp add: bucket_index_def CACHE_BUCKETS_PER_SHARD_def)

lemma shard_index_less [simp]: "shard_index k < CACHE_SHARDS_COUNT"
  by (simp add: shard_index_def CACHE_SHARDS_COUNT_def split: list.splits)

text \<open>Replacing one chain.\<close>

lemma concat_update_mset:
  assumes "b < length bs"
  shows "mset (concat (bs[b := xs])) + mset (bs ! b) = mset (concat bs) + mset xs"
proof -
  have "concat bs = concat (take b bs) @ bs ! b @ concat (drop (Suc b) bs)"
    using id_take_nth_drop [OF assms] by (metis concat.simps(2) concat_append)
  then show ?thesis by (simp add: upd_conv_take_nth_drop [OF assms])
qed

lemma concat_remove:
  assumes "b < length bs" "a \<in> set (bs ! b)" "distinct (concat bs)"
  shows "distinct (concat (bs[b := remove1 a (bs ! b)])) \<and> set (concat (bs[b := remove1 a (bs ! b)])) = set (concat bs) - {a}"
proof -
  have c: "mset (bs ! b) = add_mset a (mset (remove1 a (bs ! b)))" using assms(2) by simp
  have "add_mset a (mset (concat (bs[b := remove1 a (bs ! b)]))) = mset (concat bs)"
    using concat_update_mset [OF assms(1), of "remove1 a (bs ! b)"] unfolding c by simp
  then have m: "mset (concat (bs[b := remove1 a (bs ! b)])) = mset (remove1 a (concat bs))"
    unfolding mset_remove1 by (metis add_mset_remove_trivial)
  have "set (concat (bs[b := remove1 a (bs ! b)])) = set (remove1 a (concat bs))" by (metis m set_mset_mset)
  then show ?thesis using mset_eq_imp_distinct_iff [OF m] assms(3) by simp
qed

lemma concat_cons:
  assumes "b < length bs" "a \<notin> set (concat bs)" "distinct (concat bs)"
  shows "distinct (concat (bs[b := a # bs ! b])) \<and> set (concat (bs[b := a # bs ! b])) = insert a (set (concat bs))"
proof -
  have "mset (concat (bs[b := a # bs ! b])) = add_mset a (mset (concat bs))"
    using concat_update_mset [OF assms(1), of "a # bs ! b"] by simp
  then have m: "mset (concat (bs[b := a # bs ! b])) = mset (a # concat bs)" by simp
  have "set (concat (bs[b := a # bs ! b])) = set (a # concat bs)" by (metis m set_mset_mset)
  then show ?thesis using mset_eq_imp_distinct_iff [OF m] assms(2,3) by simp
qed

text \<open>Finding a key.\<close>

lemma chain_find_total:
  "\<forall>a \<in> set as. cm_entries m a \<noteq> None \<Longrightarrow>
   (chain_find m k as = Some None \<and> (\<forall>a \<in> set as. key_at m a \<noteq> k)) \<or>
   (\<exists>a \<in> set as. chain_find m k as = Some (Some a) \<and> key_at m a = k)"
  by (induction m k as rule: chain_find.induct) (auto simp: key_at_def split: option.splits)

lemma shard_entry:
  assumes "shard_ok m i s" "a \<in> set (sh_lru s)"
  obtains e where "cm_entries m a = Some e" "en_status_code e \<noteq> -1" "shard_index (en_cache_key e) = i"
    "a \<in> set (sh_buckets s ! bucket_index (en_cache_key e))"
  using assms by (auto simp: shard_ok_def entry_ok_def)

lemma chain_subset:
  assumes "shard_ok m i s" "b < CACHE_BUCKETS_PER_SHARD"
  shows "set (sh_buckets s ! b) \<subseteq> set (sh_lru s)"
proof -
  have "set (sh_buckets s ! b) \<subseteq> set (concat (sh_buckets s))" using assms by (auto simp: shard_ok_def)
  then show ?thesis using assms(1) by (simp add: shard_ok_def)
qed

lemma shard_find:
  assumes "shard_ok m i s"
  shows "(chain_find m k (sh_buckets s ! bucket_index k) = Some None \<and> (\<forall>a \<in> set (sh_lru s). key_at m a \<noteq> k)) \<or>
    (\<exists>a \<in> set (sh_lru s). chain_find m k (sh_buckets s ! bucket_index k) = Some (Some a) \<and> key_at m a = k)"
proof -
  let ?c = "sh_buckets s ! bucket_index k"
  have sub: "set ?c \<subseteq> set (sh_lru s)" by (rule chain_subset [OF assms]) simp
  have ent: "\<forall>a \<in> set ?c. cm_entries m a \<noteq> None" using sub shard_entry [OF assms] by (metis option.distinct(1) subsetD)
  have "a \<in> set ?c" if "a \<in> set (sh_lru s)" "key_at m a = k" for a
    using that shard_entry [OF assms that(1)] by (metis key_at_def option.sel)
  with chain_find_total [OF ent, of k] sub show ?thesis by blast
qed

text \<open>The shard depends on the memory only through the keys, lengths and liveness of its entries.\<close>

definition same_entry :: "cache_mem \<Rightarrow> cache_mem \<Rightarrow> nat \<Rightarrow> bool" where
  "same_entry m m' a \<longleftrightarrow> (\<exists>e e'. cm_entries m a = Some e \<and> cm_entries m' a = Some e' \<and>
     en_cache_key e' = en_cache_key e \<and> en_response_len e' = en_response_len e \<and> en_status_code e' \<noteq> -1)"

lemma shard_ok_cong:
  assumes "shard_ok m i s" "\<forall>a \<in> set (sh_lru s). same_entry m m' a"
  shows "shard_ok m' i s"
proof -
  have k: "key_at m' a = key_at m a" "len_at m' a = len_at m a" if "a \<in> set (sh_lru s)" for a
    using assms(2) that by (auto simp: same_entry_def key_at_def len_at_def)
  have "entry_ok m' i s a" if "a \<in> set (sh_lru s)" for a
    using assms that by (force simp: shard_ok_def entry_ok_def same_entry_def)
  moreover have "inj_on (key_at m') (set (sh_lru s))" using assms(1) k(1) by (simp add: shard_ok_def cong: inj_on_cong)
  moreover have "sum_list (map (len_at m') (sh_lru s)) = sum_list (map (len_at m) (sh_lru s))"
    using k(2) by (simp cong: map_cong)
  ultimately show ?thesis using assms(1) by (simp add: shard_ok_def)
qed

text \<open>Moving an entry to the front, taking one out, putting one in.\<close>

lemma touch_ok:
  assumes "shard_ok m i s" "a \<in> set (sh_lru s)"
  shows "shard_ok m i (lru_push_head (lru_remove s a) a) \<and> set (sh_lru (lru_push_head (lru_remove s a) a)) = set (sh_lru s)"
proof -
  let ?l = "a # remove1 a (sh_lru s)"
  have l: "distinct ?l" "set ?l = set (sh_lru s)" "length ?l = length (sh_lru s)"
      "sum_list (map (len_at m) ?l) = sum_list (map (len_at m) (sh_lru s))"
    using assms by (auto simp: shard_ok_def length_remove1 sum_list_map_remove1 [of a "sh_lru s"] intro: Suc_pred length_pos_if_in_set)
  then show ?thesis using assms(1) unfolding shard_ok_def entry_ok_def lru_push_head_def lru_remove_def
    by (simp del: set_remove1_eq length_remove1 add: insert_absorb)
qed

lemma unlink_ok:
  assumes "shard_ok m i s" "a \<in> set (sh_lru s)" "cm_entries m a = Some e"
  shows "shard_ok m i (unlink_entry s (bucket_index (en_cache_key e)) a (en_response_len e)) \<and>
    sh_lru (unlink_entry s (bucket_index (en_cache_key e)) a (en_response_len e)) = remove1 a (sh_lru s)"
proof -
  let ?b = "bucket_index (en_cache_key e)"
  let ?s = "unlink_entry s ?b a (en_response_len e)"
  have n: "length (sh_buckets s) = CACHE_BUCKETS_PER_SHARD" "distinct (concat (sh_buckets s))" "distinct (sh_lru s)"
      "set (concat (sh_buckets s)) = set (sh_lru s)" "sh_count s = length (sh_lru s)"
      "sh_bytes_used s = sum_list (map (len_at m) (sh_lru s))" using assms(1) by (simp_all add: shard_ok_def)
  have ab: "a \<in> set (sh_buckets s ! ?b)" using shard_entry [OF assms(1,2)] assms(3) by (metis option.sel)
  note c = concat_remove [OF _ ab n(2), unfolded n(1), OF bucket_index_less]
  have sum: "sum_list (map (len_at m) (sh_lru s)) = en_response_len e + sum_list (map (len_at m) (remove1 a (sh_lru s)))"
    using sum_list_map_remove1 [OF assms(2), of "len_at m"] assms(3) by (simp add: len_at_def)
  have f: "sh_buckets ?s = (sh_buckets s)[?b := remove1 a (sh_buckets s ! ?b)]" "sh_lru ?s = remove1 a (sh_lru s)"
      "sh_count ?s = length (remove1 a (sh_lru s))" "sh_bytes_used ?s = sum_list (map (len_at m) (remove1 a (sh_lru s)))"
      "sh_max_count ?s = sh_max_count s"
    using n(5,6) sum assms(2) by (auto simp: unlink_entry_def lru_remove_def bucket_remove_def Let_def length_remove1)
  have "entry_ok m i ?s x" if "x \<in> set (remove1 a (sh_lru s))" for x
  proof -
    have x: "x \<in> set (sh_lru s)" "x \<noteq> a" using that n(3) by auto
    from shard_entry [OF assms(1) x(1)] obtain e' where e': "cm_entries m x = Some e'" "en_status_code e' \<noteq> -1"
      "shard_index (en_cache_key e') = i" "x \<in> set (sh_buckets s ! bucket_index (en_cache_key e'))" by blast
    then have "x \<in> set (sh_buckets ?s ! bucket_index (en_cache_key e'))"
      using x(2) n(1) unfolding f(1) by (cases "bucket_index (en_cache_key e') = ?b") (simp_all add: nth_list_update)
    with e' show ?thesis by (auto simp: entry_ok_def)
  qed
  moreover have "inj_on (key_at m) (set (remove1 a (sh_lru s)))"
    using assms(1) n(3) by (auto simp: shard_ok_def intro: inj_on_subset)
  moreover have "set (concat (sh_buckets ?s)) = set (remove1 a (sh_lru s))" "distinct (concat (sh_buckets ?s))"
    using c n(3,4) unfolding f(1) by simp_all
  moreover have "length (remove1 a (sh_lru s)) \<le> sh_max_count s"
    using assms(1) n(5) by (auto simp: shard_ok_def length_remove1)
  ultimately show ?thesis using assms(1) n f by (simp add: shard_ok_def del: set_concat)
qed

section \<open>The memory\<close>

definition body_at :: "cache_mem \<Rightarrow> nat \<Rightarrow> nat" where
  "body_at m a = en_response_body (the (cm_entries m a))"

text \<open>What readers hold, and what was last stored for a key with its time of expiry, are kept beside the
  cache. Entries out of the chains are tombstones that a reader holds; every entry has a body of its
  own and there is no other body.\<close>

type_synonym held = "nat \<Rightarrow> nat"
type_synonym latest = "string \<Rightarrow> (string \<times> int) option"

definition entry_inv :: "cache_mem \<Rightarrow> nat set \<Rightarrow> held \<Rightarrow> nat \<Rightarrow> cache_entry \<Rightarrow> bool" where
  "entry_inv m L held a e \<longleftrightarrow> a < cm_brk m \<and> en_response_body e < cm_brk m \<and> en_ref_count e = int (held a) \<and>
     (a \<notin> L \<longrightarrow> en_status_code e = -1 \<and> 0 < held a)"

definition latest_inv :: "cache_mem \<Rightarrow> latest \<Rightarrow> nat \<Rightarrow> bool" where
  "latest_inv m latest a \<longleftrightarrow> (\<exists>e t. cm_entries m a = Some e \<and> cm_bodies m (en_response_body e) = Some t \<and>
     en_response_len e = length t \<and> latest (en_cache_key e) = Some (t, en_expires_at e))"

definition mem_ok :: "cache_mem \<Rightarrow> nat set \<Rightarrow> held \<Rightarrow> latest \<Rightarrow> bool" where
  "mem_ok m L held latest \<longleftrightarrow>
     (\<forall>a e. cm_entries m a = Some e \<longrightarrow> entry_inv m L held a e) \<and> (\<forall>a. cm_entries m a = None \<longrightarrow> held a = 0) \<and>
     inj_on (body_at m) (dom (cm_entries m)) \<and> dom (cm_bodies m) = body_at m ` dom (cm_entries m) \<and>
     (\<forall>a \<in> L. latest_inv m latest a)"

lemma mem_okD:
  assumes "mem_ok m L held latest" "cm_entries m a = Some e"
  shows "entry_inv m L held a e" "cm_bodies m (en_response_body e) \<noteq> None"
    "\<And>b f. cm_entries m b = Some f \<Longrightarrow> en_response_body f = en_response_body e \<Longrightarrow> b = a"
proof -
  show "entry_inv m L held a e" using assms by (simp add: mem_ok_def)
  have "en_response_body e = body_at m a" "a \<in> dom (cm_entries m)" using assms(2) by (auto simp: body_at_def)
  then have "en_response_body e \<in> dom (cm_bodies m)" using assms(1) by (auto simp: mem_ok_def)
  then show "cm_bodies m (en_response_body e) \<noteq> None" by auto
  fix b f
  assume "cm_entries m b = Some f" "en_response_body f = en_response_body e"
  with assms show "b = a" unfolding mem_ok_def by (metis body_at_def domI inj_onD option.sel)
qed

lemma free_entry_ok:
  assumes "mem_ok m L held latest" "cm_entries m a = Some e" "held a = 0"
  shows "mem_ok (free_entry m a e) (L - {a}) held latest"
proof -
  let ?m = "free_entry m a e"
  have E: "cm_entries ?m = (cm_entries m)(a := None)" "cm_bodies ?m = (cm_bodies m)(en_response_body e := None)" "cm_brk ?m = cm_brk m"
    by (simp_all add: free_entry_def)
  have b: "body_at ?m x = body_at m x" if "x \<noteq> a" for x using that by (simp add: body_at_def E)
  have d: "dom (cm_entries ?m) = dom (cm_entries m) - {a}" by (simp add: E)
  have inj: "inj_on (body_at m) (dom (cm_entries m))" using assms(1) by (simp add: mem_ok_def)
  have "body_at ?m ` dom (cm_entries ?m) = body_at m ` (dom (cm_entries m) - {a})" unfolding d using b by (intro image_cong) auto
  also have "\<dots> = body_at m ` dom (cm_entries m) - {body_at m a}" using inj assms(2) by (auto simp: inj_on_def)
  finally have img: "body_at ?m ` dom (cm_entries ?m) = dom (cm_bodies ?m)"
    using assms(1,2) by (simp add: mem_ok_def E body_at_def)
  have "inj_on (body_at ?m) (dom (cm_entries ?m))" unfolding d using inj b by (auto simp: inj_on_def)
  moreover have "latest_inv ?m latest x" if "x \<in> L - {a}" for x
  proof -
    have "latest_inv m latest x" using assms(1) that by (simp add: mem_ok_def)
    then show ?thesis using mem_okD(3) [OF assms(1,2)] that by (auto simp: latest_inv_def E)
  qed
  moreover have "entry_inv ?m (L - {a}) held x f" if "cm_entries ?m x = Some f" for x f
    using that mem_okD(1) [OF assms(1), of x f] by (auto simp: entry_inv_def E split: if_splits)
  moreover have "held x = 0" if "cm_entries ?m x = None" for x
    using that assms(1,3) by (auto simp: mem_ok_def E split: if_splits)
  ultimately show ?thesis using img unfolding mem_ok_def by blast
qed

text \<open>Changing an entry in place, without its body.\<close>

lemma entry_update_ok:
  assumes "mem_ok m L held latest" "cm_entries m a = Some e" "en_response_body e' = en_response_body e"
    and "entry_inv m L' held' a e'" "\<And>x. x \<noteq> a \<Longrightarrow> held' x = held x" "L' \<subseteq> L" "L - {a} \<subseteq> L'"
    and "a \<in> L' \<Longrightarrow> en_cache_key e' = en_cache_key e \<and> en_response_len e' = en_response_len e \<and> en_expires_at e' = en_expires_at e"
  shows "mem_ok (m\<lparr>cm_entries := (cm_entries m)(a \<mapsto> e')\<rparr>) L' held' latest"
proof -
  let ?m = "m\<lparr>cm_entries := (cm_entries m)(a \<mapsto> e')\<rparr>"
  have b: "body_at ?m = body_at m" using assms(2,3) by (auto simp: body_at_def)
  have d: "dom (cm_entries ?m) = dom (cm_entries m)" using assms(2) by auto
  have "latest_inv ?m latest x" if "x \<in> L'" for x
  proof -
    have "latest_inv m latest x" using assms(1,6) that by (auto simp: mem_ok_def)
    then show ?thesis using assms(2,3,8) that by (cases "x = a") (auto simp: latest_inv_def)
  qed
  moreover have "entry_inv ?m L' held' x f" if "cm_entries ?m x = Some f" for x f
    using that mem_okD(1) [OF assms(1), of x f] assms(4,5,7) by (cases "x = a") (auto simp: entry_inv_def)
  moreover have "held' x = 0" if "cm_entries ?m x = None" for x
    using that assms(1,5) by (cases "x = a") (auto simp: mem_ok_def)
  ultimately show ?thesis using assms(1) b d by (simp add: mem_ok_def)
qed

lemma destroy_ok:
  assumes "mem_ok m L held latest" "cm_entries m a = Some e" "a \<in> L"
  shows "\<exists>m'. destroy_entry_internal m a = Some m' \<and> mem_ok m' (L - {a}) held latest \<and>
    (\<forall>x. x \<noteq> a \<longrightarrow> cm_entries m' x = cm_entries m x)"
proof (cases "en_ref_count e \<le> 0")
  case True
  then have "held a = 0" using mem_okD(1) [OF assms(1,2)] by (simp add: entry_inv_def)
  from free_entry_ok [OF assms(1,2) this] True assms(2) show ?thesis
    by (simp add: destroy_entry_internal_def) (simp add: free_entry_def)
next
  case False
  have "entry_inv m (L - {a}) held a (e\<lparr>en_status_code := -1\<rparr>)"
    using mem_okD(1) [OF assms(1,2)] False by (simp add: entry_inv_def)
  from entry_update_ok [OF assms(1,2) _ this] False assms(2) show ?thesis
    by (auto simp: destroy_entry_internal_def)
qed

section \<open>One shard and the rest\<close>

text \<open>A shard together with the entries \<open>R\<close> that other shards link.\<close>

definition world :: "nat \<Rightarrow> nat set \<Rightarrow> held \<Rightarrow> latest \<Rightarrow> cache_mem \<Rightarrow> cache_shard \<Rightarrow> bool" where
  "world i R held latest m s \<longleftrightarrow> shard_ok m i s \<and> mem_ok m (R \<union> set (sh_lru s)) held latest \<and>
     (\<forall>a \<in> R. shard_index (key_at m a) \<noteq> i)"

lemma world_disjoint: "world i R held latest m s \<Longrightarrow> a \<in> R \<Longrightarrow> a \<notin> set (sh_lru s)"
  by (metis key_at_def option.sel shard_entry world_def)

definition frame :: "nat set \<Rightarrow> cache_mem \<Rightarrow> cache_mem \<Rightarrow> bool" where
  "frame R m m' \<longleftrightarrow> (\<forall>a \<in> R. cm_entries m' a = cm_entries m a)"

lemma frame_trans: "frame R m m' \<Longrightarrow> frame R m' m'' \<Longrightarrow> frame R m m''"
  by (simp add: frame_def)

lemma frame_same: "frame (set (sh_lru s)) m m' \<Longrightarrow> shard_ok m i s \<Longrightarrow> shard_ok m' i s"
proof (rule shard_ok_cong)
  assume f: "frame (set (sh_lru s)) m m'" and sh: "shard_ok m i s"
  show "\<forall>a \<in> set (sh_lru s). same_entry m m' a"
  proof
    fix a
    assume a: "a \<in> set (sh_lru s)"
    obtain e where "cm_entries m a = Some e" "en_status_code e \<noteq> -1" by (rule shard_entry [OF sh a])
    with f a show "same_entry m m' a" by (simp add: frame_def same_entry_def)
  qed
qed

lemma unlink_destroy_world:
  assumes "world i R held latest m s" "a \<in> set (sh_lru s)" "cm_entries m a = Some e"
  shows "\<exists>m'. destroy_entry_internal m a = Some m' \<and>
    world i R held latest m' (unlink_entry s (bucket_index (en_cache_key e)) a (en_response_len e)) \<and>
    sh_lru (unlink_entry s (bucket_index (en_cache_key e)) a (en_response_len e)) = remove1 a (sh_lru s) \<and>
    frame (- {a}) m m'"
proof -
  let ?s = "unlink_entry s (bucket_index (en_cache_key e)) a (en_response_len e)"
  have sh: "shard_ok m i s" and mm: "mem_ok m (R \<union> set (sh_lru s)) held latest" using assms(1) by (simp_all add: world_def)
  have dl: "distinct (sh_lru s)" using sh by (simp add: shard_ok_def)
  have aR: "a \<notin> R" using world_disjoint [OF assms(1)] assms(2) by blast
  note u = unlink_ok [OF sh assms(2,3)]
  obtain m' where m': "destroy_entry_internal m a = Some m'" "mem_ok m' (R \<union> set (sh_lru s) - {a}) held latest"
    "frame (- {a}) m m'" using destroy_ok [OF mm assms(3)] assms(2) by (auto simp: frame_def)
  have L: "R \<union> set (sh_lru s) - {a} = R \<union> set (sh_lru ?s)" using u dl aR by auto
  have "frame (set (sh_lru ?s)) m m'" using m'(3) u dl by (auto simp: frame_def)
  with frame_same u have "shard_ok m' i ?s" by blast
  moreover have "key_at m' x = key_at m x" if "x \<in> R" for x
  proof -
    have "x \<noteq> a" using that aR by blast
    then show ?thesis using m'(3) by (simp add: key_at_def frame_def)
  qed
  ultimately have "world i R held latest m' ?s" using assms(1) m'(2) unfolding L by (simp add: world_def)
  with m' u show ?thesis by blast
qed

lemma unlink_counts:
  "sh_max_count (unlink_entry s b a n) = sh_max_count s" "sh_max_bytes (unlink_entry s b a n) = sh_max_bytes s"
  "sh_count (unlink_entry s b a n) = sh_count s - 1"
  by (simp_all add: unlink_entry_def Let_def lru_remove_def bucket_remove_def)

lemma evict_one_world:
  assumes "world i R held latest m s" "sh_lru s \<noteq> []"
  shows "\<exists>m' s'. evict_one_lru_locked m s = Some (m', s') \<and> world i R held latest m' s' \<and> frame R m m' \<and>
    sh_count s' < sh_count s \<and> sh_max_count s' = sh_max_count s \<and> set (sh_lru s') \<subseteq> set (sh_lru s) \<and> frame (set (sh_lru s')) m m'"
proof -
  let ?v = "last (sh_lru s)"
  have v: "?v \<in> set (sh_lru s)" using assms(2) by simp
  have sh: "shard_ok m i s" using assms(1) by (simp add: world_def)
  from shard_entry [OF sh v] obtain e where e: "cm_entries m ?v = Some e" by blast
  from unlink_destroy_world [OF assms(1) v e] obtain m' where m': "destroy_entry_internal m ?v = Some m'"
    "world i R held latest m' (unlink_entry s (bucket_index (en_cache_key e)) ?v (en_response_len e))"
    "sh_lru (unlink_entry s (bucket_index (en_cache_key e)) ?v (en_response_len e)) = remove1 ?v (sh_lru s)" "frame (- {?v}) m m'"
    by blast
  have "distinct (sh_lru s)" "sh_count s = length (sh_lru s)" using sh by (simp_all add: shard_ok_def)
  moreover have "?v \<notin> R" using world_disjoint [OF assms(1)] v by blast
  moreover have "0 < length (sh_lru s)" using assms(2) by simp
  ultimately show ?thesis
    using m' assms(2) e set_remove1_subset [of ?v "sh_lru s"]
    by (auto simp: evict_one_lru_locked_def unlink_counts frame_def)
qed

lemma evict_loop_world:
  "world i R held latest m s \<Longrightarrow>
   \<exists>m' s'. evict_loop len m s = Some (m', s') \<and> world i R held latest m' s' \<and> frame R m m' \<and>
     sh_count s' < sh_max_count s' \<and> set (sh_lru s') \<subseteq> set (sh_lru s) \<and> frame (set (sh_lru s')) m m'"
proof (induction "sh_count s" arbitrary: m s rule: less_induct)
  case less
  have sh: "1 \<le> sh_max_count s" "sh_count s = length (sh_lru s)" using less.prems by (simp_all add: world_def shard_ok_def)
  show ?case
  proof (cases "sh_count s \<ge> sh_max_count s \<or> (sh_bytes_used s + len > sh_max_bytes s \<and> sh_count s > 0)")
    case True
    then have "sh_lru s \<noteq> []" using sh by auto
    from evict_one_world [OF less.prems this] obtain m1 s1 where 1: "evict_one_lru_locked m s = Some (m1, s1)"
      "world i R held latest m1 s1" "frame R m m1" "sh_count s1 < sh_count s" "set (sh_lru s1) \<subseteq> set (sh_lru s)"
      "frame (set (sh_lru s1)) m m1" by blast
    from less.hyps [OF 1(4,2)] obtain m2 s2 where 2: "evict_loop len m1 s1 = Some (m2, s2)" "world i R held latest m2 s2"
      "frame R m1 m2" "sh_count s2 < sh_max_count s2" "set (sh_lru s2) \<subseteq> set (sh_lru s1)" "frame (set (sh_lru s2)) m1 m2" by blast
    have "evict_loop len m s = Some (m2, s2)" using True 1(1) 2(1) by (subst evict_loop.simps) simp
    moreover have "frame (set (sh_lru s2)) m m2" using 1(6) 2(5,6) by (auto simp: frame_def)
    ultimately show ?thesis using 1 2 frame_trans by blast
  next
    case False
    then have "evict_loop len m s = Some (m, s)" by (subst evict_loop.simps) (simp only: if_False)
    with False less.prems show ?thesis by (auto simp: frame_def)
  qed
qed

text \<open>A hit: one more reader.\<close>

lemma hit_world:
  assumes "world i R held latest m s" "a \<in> set (sh_lru s)" "cm_entries m a = Some e"
  shows "world i R (held(a := held a + 1)) latest (m\<lparr>cm_entries := (cm_entries m)(a \<mapsto> e\<lparr>en_ref_count := en_ref_count e + 1\<rparr>)\<rparr>)
      ((lru_push_head (lru_remove s a) a)\<lparr>sh_hits := h\<rparr>) \<and>
    frame R m (m\<lparr>cm_entries := (cm_entries m)(a \<mapsto> e\<lparr>en_ref_count := en_ref_count e + 1\<rparr>)\<rparr>)"
proof -
  let ?e = "e\<lparr>en_ref_count := en_ref_count e + 1\<rparr>"
  let ?m = "m\<lparr>cm_entries := (cm_entries m)(a \<mapsto> ?e)\<rparr>"
  let ?s = "lru_push_head (lru_remove s a) a"
  have sh: "shard_ok m i s" and mm: "mem_ok m (R \<union> set (sh_lru s)) held latest" using assms(1) by (simp_all add: world_def)
  note t = touch_ok [OF sh assms(2)]
  have aR: "a \<notin> R" using world_disjoint [OF assms(1)] assms(2) by blast
  have "\<forall>x \<in> set (sh_lru ?s). same_entry m ?m x"
  proof
    fix x
    assume "x \<in> set (sh_lru ?s)"
    then obtain f where "cm_entries m x = Some f" "en_status_code f \<noteq> -1" using shard_entry [OF sh] t by metis
    then show "same_entry m ?m x" using assms(3) by (auto simp: same_entry_def)
  qed
  with shard_ok_cong t have "shard_ok ?m i ?s" by blast
  then have "shard_ok ?m i (?s\<lparr>sh_hits := h\<rparr>)" by (simp add: shard_ok_def entry_ok_def)
  moreover have "mem_ok ?m (R \<union> set (sh_lru s)) (held(a := held a + 1)) latest"
    by (rule entry_update_ok [OF mm assms(3)])
       (use mem_okD(1) [OF mm assms(3)] assms(2) in \<open>auto simp: entry_inv_def\<close>)
  moreover have "\<forall>x \<in> R. shard_index (key_at ?m x) \<noteq> i" using assms(1,3) by (auto simp: world_def key_at_def)
  ultimately show ?thesis using t aR by (simp add: world_def frame_def)
qed

text \<open>A new body for an entry.\<close>

lemma new_body_ok:
  assumes "mem_ok m L held latest" "cm_entries m a = Some e" "a \<in> L" "k = en_cache_key e"
    and "e' = e\<lparr>en_response_body := cm_brk m, en_response_len := length t, en_status_code := st,
           en_prompt_tokens := pt, en_completion_tokens := ct, en_cost_usd := c, en_created_at := now, en_expires_at := x\<rparr>"
    and "m' = m\<lparr>cm_entries := (cm_entries m)(a \<mapsto> e'), cm_bodies := (cm_bodies m)(en_response_body e := None, cm_brk m \<mapsto> t),
           cm_brk := cm_brk m + 1\<rparr>"
    and "\<forall>y \<in> L - {a}. key_at m y \<noteq> k"
  shows "mem_ok m' L held (latest(k \<mapsto> (t, x)))"
proof -
  have E: "cm_entries m' = (cm_entries m)(a \<mapsto> e')" "cm_bodies m' = (cm_bodies m)(en_response_body e := None, cm_brk m \<mapsto> t)"
      "cm_brk m' = cm_brk m + 1" using assms(6) by simp_all
  have e': "en_response_body e' = cm_brk m" "en_ref_count e' = en_ref_count e" "en_cache_key e' = k" "en_response_len e' = length t"
      "en_expires_at e' = x" using assms(4,5) by simp_all
  have old: "en_response_body f < cm_brk m" if "cm_entries m y = Some f" for y f
    using mem_okD(1) [OF assms(1) that] by (simp add: entry_inv_def)
  have b: "body_at m' y = (if y = a then cm_brk m else body_at m y)" for y by (simp add: body_at_def E e')
  have bo: "body_at m y \<noteq> cm_brk m" if "y \<in> dom (cm_entries m)" for y using old that by (fastforce simp: body_at_def)
  have d: "dom (cm_entries m') = dom (cm_entries m)" using assms(2) by (auto simp: E)
  have inj: "inj_on (body_at m) (dom (cm_entries m))" using assms(1) by (simp add: mem_ok_def)
  have "inj_on (body_at m') (dom (cm_entries m'))"
    unfolding d using inj bo unfolding inj_on_def b by metis
  moreover have "dom (cm_bodies m') = body_at m' ` dom (cm_entries m')"
  proof -
    have "body_at m' ` dom (cm_entries m') = insert (cm_brk m) (body_at m ` (dom (cm_entries m) - {a}))"
      unfolding d using assms(2) by (auto simp: b image_iff)
    also have "body_at m ` (dom (cm_entries m) - {a}) = body_at m ` dom (cm_entries m) - {body_at m a}"
      using inj assms(2) by (auto simp: inj_on_def)
    also have "\<dots> = dom (cm_bodies m) - {en_response_body e}" using assms(1,2) by (simp add: mem_ok_def body_at_def)
    finally have "body_at m' ` dom (cm_entries m') = insert (cm_brk m) (dom (cm_bodies m) - {en_response_body e})" .
    moreover have "dom (cm_bodies m') = insert (cm_brk m) (dom (cm_bodies m) - {en_response_body e})"
      using old [OF assms(2)] unfolding E(2) by auto
    ultimately show ?thesis by simp
  qed
  moreover have "latest_inv m' (latest(k \<mapsto> (t, x))) y" if "y \<in> L" for y
  proof (cases "y = a")
    case True
    then show ?thesis by (simp add: latest_inv_def E e')
  next
    case False
    have "latest_inv m latest y" using assms(1) that by (simp add: mem_ok_def)
    then obtain f t' where f: "cm_entries m y = Some f" "cm_bodies m (en_response_body f) = Some t'"
      "en_response_len f = length t'" "latest (en_cache_key f) = Some (t', en_expires_at f)" by (auto simp: latest_inv_def)
    have "en_response_body f \<noteq> en_response_body e" using mem_okD(3) [OF assms(1,2) f(1)] False by blast
    moreover have "en_cache_key f \<noteq> k" using assms(7) that False f(1) by (metis DiffI key_at_def option.sel singletonD)
    ultimately show ?thesis using f old [OF f(1)] False by (simp add: latest_inv_def E)
  qed
  moreover have "entry_inv m' L held y f" if "cm_entries m' y = Some f" for y f
    using that mem_okD(1) [OF assms(1), of y] assms(2,3) e' mem_okD(1) [OF assms(1,2)]
    by (cases "y = a") (force simp: entry_inv_def E)+
  moreover have "held y = 0" if "cm_entries m' y = None" for y
    using that assms(1) by (auto simp: mem_ok_def E split: if_splits)
  ultimately show ?thesis unfolding mem_ok_def by blast
qed

lemma update_world:
  assumes "world i R held latest m s" "a \<in> set (sh_lru s)" "cm_entries m a = Some e"
  shows "\<exists>m' s'. update_entry m s a e t pt ct c now ttl = Some (m', s') \<and>
    world i R held (latest(en_cache_key e \<mapsto> (t, now + ttl))) m' s' \<and> frame R m m'"
proof -
  let ?k = "en_cache_key e"
  obtain e' where e': "e' = e\<lparr>en_response_body := cm_brk m, en_response_len := length t, en_status_code := 200,
      en_prompt_tokens := pt, en_completion_tokens := ct, en_cost_usd := c, en_created_at := now, en_expires_at := now + ttl\<rparr>" by simp
  obtain m' where m': "m' = m\<lparr>cm_entries := (cm_entries m)(a \<mapsto> e'),
      cm_bodies := (cm_bodies m)(en_response_body e := None, cm_brk m \<mapsto> t), cm_brk := cm_brk m + 1\<rparr>" by simp
  have sh: "shard_ok m i s" and mm: "mem_ok m (R \<union> set (sh_lru s)) held latest" using assms(1) by (simp_all add: world_def)
  have aR: "a \<notin> R" using world_disjoint [OF assms(1)] assms(2) by blast
  have ki: "shard_index ?k = i" using shard_entry [OF sh assms(2)] assms(3) by (metis option.sel)
  have other: "\<forall>y \<in> R \<union> set (sh_lru s) - {a}. key_at m y \<noteq> ?k"
  proof
    fix y
    assume y: "y \<in> R \<union> set (sh_lru s) - {a}"
    show "key_at m y \<noteq> ?k"
    proof (cases "y \<in> R")
      case True
      then show ?thesis using assms(1) ki by (auto simp: world_def)
    next
      case False
      then have "y \<in> set (sh_lru s)" "y \<noteq> a" using y by auto
      moreover have "inj_on (key_at m) (set (sh_lru s))" using sh by (simp add: shard_ok_def)
      ultimately have "key_at m y \<noteq> key_at m a" using assms(2) by (meson inj_onD)
      then show ?thesis using assms(3) by (simp add: key_at_def)
    qed
  qed
  have mm': "mem_ok m' (R \<union> set (sh_lru s)) held (latest(?k \<mapsto> (t, now + ttl)))"
    by (rule new_body_ok [OF mm assms(3) _ refl e' m' other]) (use assms(2) in simp)
  let ?s0 = "lru_push_head (lru_remove s a) a"
  note tc = touch_ok [OF sh assms(2)]
  obtain l where l: "sh_lru ?s0 = a # l" "l = remove1 a (sh_lru s)" by (simp add: lru_push_head_def lru_remove_def)
  have dl: "a \<notin> set l" using sh l(2) by (simp add: shard_ok_def)
  have sum: "sh_bytes_used s = en_response_len e + sum_list (map (len_at m) l)"
    using sum_list_map_remove1 [OF assms(2), of "len_at m"] sh assms(3) l(2) by (simp add: len_at_def shard_ok_def)
  let ?s = "?s0\<lparr>sh_bytes_used := sh_bytes_used s - en_response_len e + length t\<rparr>"
  have keys: "key_at m' y = key_at m y" for y using assms(3) e' by (simp add: m' key_at_def)
  have "map (len_at m') l = map (len_at m) l" using dl by (auto simp: m' len_at_def)
  then have lens: "sum_list (map (len_at m') l) = sum_list (map (len_at m) l)" by (rule arg_cong)
  have la: "len_at m' a = length t" using e' by (simp add: m' len_at_def)
  have "entry_ok m' i ?s y" if "y \<in> set (sh_lru s)" for y
  proof -
    have "entry_ok m i s y" using sh that by (simp add: shard_ok_def)
    then show ?thesis using assms(3) e' by (auto simp: m' entry_ok_def lru_push_head_def lru_remove_def)
  qed
  moreover have "sh_bytes_used ?s = sum_list (map (len_at m') (sh_lru ?s))" using sum lens la l(1) by simp
  moreover have "inj_on (key_at m') (set (sh_lru s))" using sh keys by (simp add: shard_ok_def cong: inj_on_cong)
  ultimately have "shard_ok m' i ?s" using tc unfolding shard_ok_def by simp
  moreover have "frame R m m'" using aR by (auto simp: m' frame_def)
  moreover have "update_entry m s a e t pt ct c now ttl = Some (m', ?s)"
    using mem_okD(2) [OF mm assms(3)] sum
    by (simp add: update_entry_def Let_def m' e' lru_push_head_def lru_remove_def)
  moreover have "\<forall>y \<in> R. shard_index (key_at m' y) \<noteq> i" using assms(1) keys by (simp add: world_def)
  ultimately show ?thesis using mm' tc by (auto simp: world_def)
qed

text \<open>A new entry.\<close>

lemma insert_world:
  assumes "world i R held latest m s" "\<forall>a \<in> set (sh_lru s). key_at m a \<noteq> k" "shard_index k = i" "length k < 65"
    "sh_count s < sh_max_count s" "insert_entry m s k md t pt ct c now ttl = (m', s')"
  shows "world i R held (latest(k \<mapsto> (t, now + ttl))) m' s' \<and> frame R m m'"
proof -
  let ?a = "cm_brk m" and ?b = "bucket_index k"
  obtain e where e: "e = \<lparr>en_cache_key = k, en_model = cstr_copy 64 (cstr_or_empty md), en_response_body = ?a + 1,
      en_response_len = length t, en_status_code = 200, en_prompt_tokens = pt, en_completion_tokens = ct, en_cost_usd = c,
      en_created_at = now, en_expires_at = now + ttl, en_ref_count = 0\<rparr>" by simp
  have m': "cm_entries m' = (cm_entries m)(?a \<mapsto> e)" "cm_bodies m' = (cm_bodies m)(?a + 1 \<mapsto> t)" "cm_brk m' = ?a + 2"
    and s': "sh_lru s' = ?a # sh_lru s" "sh_buckets s' = (sh_buckets s)[?b := ?a # sh_buckets s ! ?b]"
      "sh_count s' = sh_count s + 1" "sh_bytes_used s' = sh_bytes_used s + length t" "sh_max_count s' = sh_max_count s"
    using assms(4,6) e by (auto simp: insert_entry_def Let_def lru_push_head_def)
  have e': "en_cache_key e = k" "en_response_body e = ?a + 1" "en_response_len e = length t" "en_status_code e = 200"
      "en_ref_count e = 0" "en_expires_at e = now + ttl" by (simp_all add: e)
  have sh: "shard_ok m i s" and mm: "mem_ok m (R \<union> set (sh_lru s)) held latest" using assms(1) by (simp_all add: world_def)
  have old: "y < ?a" "en_response_body f < ?a" if "cm_entries m y = Some f" for y f
    using mem_okD(1) [OF mm that] by (simp_all add: entry_inv_def)
  have a0: "cm_entries m ?a = None" using old(1) by (metis less_irrefl not_None_eq)
  have h0: "held ?a = 0" using mm a0 by (simp add: mem_ok_def)
  have sub: "set (sh_lru s) \<subseteq> dom (cm_entries m)" using shard_entry [OF sh] by (metis domI subsetI)
  have R: "R \<subseteq> dom (cm_entries m)" using mm by (auto simp: mem_ok_def latest_inv_def)
  have al: "?a \<notin> set (sh_lru s)" "?a \<notin> R" using sub R a0 by auto
  have keys: "key_at m' y = key_at m y" "len_at m' y = len_at m y" if "y \<noteq> ?a" for y using that by (simp_all add: m' key_at_def len_at_def)
  have new: "key_at m' ?a = k" "len_at m' ?a = length t" by (simp_all add: m' key_at_def len_at_def e')
  have nb: "length (sh_buckets s) = CACHE_BUCKETS_PER_SHARD" "distinct (concat (sh_buckets s))"
      "set (concat (sh_buckets s)) = set (sh_lru s)" using sh by (simp_all add: shard_ok_def)
  note cc = concat_cons [OF _ _ nb(2), of ?b ?a, unfolded nb(1,3), OF bucket_index_less al(1)]
  have "entry_ok m' i s' y" if "y \<in> set (sh_lru s')" for y
  proof (cases "y = ?a")
    case True
    then show ?thesis using nb(1) assms(3) by (simp add: entry_ok_def m' s' e')
  next
    case False
    then have "entry_ok m i s y" using that sh s'(1) by (auto simp: shard_ok_def)
    then obtain f where f: "cm_entries m y = Some f" "en_status_code f \<noteq> -1" "shard_index (en_cache_key f) = i"
      "y \<in> set (sh_buckets s ! bucket_index (en_cache_key f))" by (auto simp: entry_ok_def)
    have "y \<in> set (sh_buckets s' ! bucket_index (en_cache_key f))"
      using f(4) nb(1) unfolding s'(2) by (cases "bucket_index (en_cache_key f) = ?b") simp_all
    then show ?thesis using f False by (auto simp: entry_ok_def m')
  qed
  moreover have "inj_on (key_at m') (set (sh_lru s'))"
  proof -
    have "inj_on (key_at m') (set (sh_lru s))"
      using sh keys(1) al(1) by (simp add: shard_ok_def inj_on_def) metis
    moreover have "key_at m' ?a \<notin> key_at m' ` set (sh_lru s)" using assms(2) keys(1) al(1) new(1) by (metis imageE)
    ultimately show ?thesis by (auto simp: s'(1))
  qed
  moreover have "sh_bytes_used s' = sum_list (map (len_at m') (sh_lru s'))"
  proof -
    have "map (len_at m') (sh_lru s) = map (len_at m) (sh_lru s)" using keys(2) al(1) by (intro map_cong refl) metis
    then have "sum_list (map (len_at m') (sh_lru s)) = sum_list (map (len_at m) (sh_lru s))" by (rule arg_cong)
    then show ?thesis using sh by (simp add: shard_ok_def s'(1,4) new(2))
  qed
  moreover have "set (concat (sh_buckets s')) = set (sh_lru s')" "distinct (concat (sh_buckets s'))"
    using cc unfolding s'(1,2) by simp_all
  ultimately have "shard_ok m' i s'" using sh assms(5) al(1) s' by (simp add: shard_ok_def del: set_concat)
  moreover have "mem_ok m' (R \<union> set (sh_lru s')) held (latest(k \<mapsto> (t, now + ttl)))"
  proof -
    have b: "body_at m' y = (if y = ?a then ?a + 1 else body_at m y)" for y by (simp add: body_at_def m' e')
    have bo: "body_at m y < ?a" if "y \<in> dom (cm_entries m)" for y using old(2) that by (auto simp: body_at_def)
    have d: "dom (cm_entries m') = insert ?a (dom (cm_entries m))" by (simp add: m')
    have inj: "inj_on (body_at m) (dom (cm_entries m))" "dom (cm_bodies m) = body_at m ` dom (cm_entries m)"
      using mm by (simp_all add: mem_ok_def)
    have ne: "y \<noteq> ?a" if "y \<in> dom (cm_entries m)" for y using that a0 by auto
    have "body_at m' ` dom (cm_entries m) = body_at m ` dom (cm_entries m)" using ne b by (intro image_cong) auto
    moreover have "body_at m' ?a = ?a + 1" by (simp add: b)
    ultimately have "dom (cm_bodies m') = body_at m' ` dom (cm_entries m')" unfolding d image_insert by (simp add: m' inj(2))
    moreover have "inj_on (body_at m') (dom (cm_entries m'))"
    proof -
      have "inj_on (body_at m') (dom (cm_entries m))" using inj(1) ne unfolding inj_on_def b by metis
      moreover have "body_at m' ?a \<notin> body_at m' ` (dom (cm_entries m) - {?a})"
      proof
        assume "body_at m' ?a \<in> body_at m' ` (dom (cm_entries m) - {?a})"
        then obtain y where y: "body_at m' ?a = body_at m' y" "y \<in> dom (cm_entries m) - {?a}" by (rule imageE)
        then have "body_at m y = ?a + 1" by (simp add: b)
        then show False using bo [of y] y(2) by simp
      qed
      ultimately show ?thesis unfolding d by simp
    qed
    moreover have "latest_inv m' (latest(k \<mapsto> (t, now + ttl))) y" if "y \<in> R \<union> set (sh_lru s')" for y
    proof (cases "y = ?a")
      case True
      then show ?thesis by (simp add: latest_inv_def m' e')
    next
      case False
      then have yL: "y \<in> R \<union> set (sh_lru s)" using that s'(1) by auto
      then have "latest_inv m latest y" using mm by (simp add: mem_ok_def)
      then obtain f t' where f: "cm_entries m y = Some f" "cm_bodies m (en_response_body f) = Some t'"
        "en_response_len f = length t'" "latest (en_cache_key f) = Some (t', en_expires_at f)" by (auto simp: latest_inv_def)
      have "en_cache_key f \<noteq> k"
        using yL f(1) assms(1-3) by (auto simp: world_def key_at_def)
      then show ?thesis using f old(2) [OF f(1)] False by (simp add: latest_inv_def m')
    qed
    moreover have "entry_inv m' (R \<union> set (sh_lru s')) held y f" if "cm_entries m' y = Some f" for y f
    proof (cases "y = ?a")
      case True
      then have "f = e" using that by (simp add: m'(1))
      then show ?thesis using True h0 by (simp add: entry_inv_def m'(3) e' s'(1))
    next
      case False
      then show ?thesis using that mem_okD(1) [OF mm, of y f] by (simp add: entry_inv_def m' s'(1))
    qed
    moreover have "held y = 0" if "cm_entries m' y = None" for y
      using that mm by (auto simp: mem_ok_def m' split: if_splits)
    ultimately show ?thesis unfolding mem_ok_def by blast
  qed
  moreover have "\<forall>y \<in> R. shard_index (key_at m' y) \<noteq> i" using assms(1) keys(1) al(2) by (metis world_def)
  moreover have "frame R m m'" using al(2) by (auto simp: frame_def m'(1))
  ultimately show ?thesis by (simp add: world_def)
qed

text \<open>Purging a chain, and all chains.\<close>

definition matching :: "cache_mem \<Rightarrow> string option \<Rightarrow> nat \<Rightarrow> bool" where
  "matching m model a \<longleftrightarrow> purge_matches model (the (cm_entries m a))"

lemma purge_chain_world:
  "world i R held latest m s \<Longrightarrow> set as \<subseteq> set (sh_lru s) \<Longrightarrow> distinct as \<Longrightarrow>
   \<forall>a \<in> set as. bucket_index (key_at m a) = b \<Longrightarrow>
   \<exists>m' s' p' f'. purge_chain model b as m s p f = Some (m', s', p', f') \<and> world i R held latest m' s' \<and> frame R m m' \<and>
     set (sh_lru s') = set (sh_lru s) - {a \<in> set as. matching m model a} \<and> frame (set (sh_lru s')) m m'"
proof (induction as arbitrary: m s p f)
  case (Cons a as)
  have sh: "shard_ok m i s" using Cons.prems(1) by (simp add: world_def)
  have al: "a \<in> set (sh_lru s)" using Cons.prems(2) by simp
  from shard_entry [OF sh al] obtain e where e: "cm_entries m a = Some e" by blast
  have eb: "bucket_index (en_cache_key e) = b" using Cons.prems(4) e by (simp add: key_at_def)
  show ?case
  proof (cases "purge_matches model e")
    case False
    have 0: "set as \<subseteq> set (sh_lru s)" "distinct as" "\<forall>x \<in> set as. bucket_index (key_at m x) = b" using Cons.prems by auto
    have "purge_chain model b (a # as) m s p f = purge_chain model b as m s p f" using e False by simp
    moreover have "{x \<in> set (a # as). matching m model x} = {x \<in> set as. matching m model x}"
      using e False by (auto simp: matching_def)
    ultimately show ?thesis using Cons.IH [OF Cons.prems(1) 0, of p f] by simp
  next
    case True
    let ?s = "unlink_entry s b a (en_response_len e)"
    have le: "en_response_len e \<le> sh_bytes_used s"
      using sum_list_map_remove1 [OF al, of "len_at m"] sh e by (simp add: shard_ok_def len_at_def)
    from unlink_destroy_world [OF Cons.prems(1) al e] eb obtain m1 where m1: "destroy_entry_internal m a = Some m1"
      "world i R held latest m1 ?s" "sh_lru ?s = remove1 a (sh_lru s)" "frame (- {a}) m m1" by blast
    have dl: "distinct (sh_lru s)" using sh by (simp add: shard_ok_def)
    have L: "set (sh_lru ?s) = set (sh_lru s) - {a}" using m1(3) dl by simp
    have ne: "x \<noteq> a" if "x \<in> set as" for x using Cons.prems(3) that by auto
    have same: "cm_entries m1 x = cm_entries m x" if "x \<noteq> a" for x using m1(4) that by (simp add: frame_def)
    have 0: "set as \<subseteq> set (sh_lru ?s)" "distinct as" "\<forall>x \<in> set as. bucket_index (key_at m1 x) = b"
      using Cons.prems(2-4) L ne same by (auto simp: key_at_def)
    from Cons.IH [OF m1(2) 0, of "p + 1" "f + en_response_len e"] obtain m' s' p' f' where r: "purge_chain model b as m1 ?s (p + 1) (f + en_response_len e) = Some (m', s', p', f')"
      "world i R held latest m' s'" "frame R m1 m'" "set (sh_lru s') = set (sh_lru ?s) - {x \<in> set as. matching m1 model x}"
      "frame (set (sh_lru s')) m1 m'" by blast
    have step: "purge_chain model b (a # as) m s p f = purge_chain model b as m1 ?s (p + 1) (f + en_response_len e)"
      using e True m1(1) le by (simp add: unlink_entry_def Let_def lru_remove_def bucket_remove_def)
    have "set (sh_lru s') = set (sh_lru s) - {x \<in> set (a # as). matching m model x}"
      using r(4) L True e ne same by (auto simp: matching_def)
    moreover have "frame (set (sh_lru s')) m m'" using r(4,5) L same by (auto simp: frame_def)
    moreover have "frame R m m'"
    proof -
      have "x \<noteq> a" if "x \<in> R" for x using world_disjoint [OF Cons.prems(1) that] al by blast
      then have "frame R m m1" using same by (simp add: frame_def)
      with r(3) show ?thesis using frame_trans by blast
    qed
    ultimately show ?thesis using r(1,2) unfolding step by blast
  qed
qed (auto simp: frame_def)

lemma chain_keys:
  assumes "shard_ok m i s" "b < CACHE_BUCKETS_PER_SHARD" "a \<in> set (sh_buckets s ! b)"
  shows "bucket_index (key_at m a) = b"
proof (rule ccontr)
  assume ne: "bucket_index (key_at m a) \<noteq> b"
  have "a \<in> set (sh_lru s)" using chain_subset [OF assms(1,2)] assms(3) by blast
  then have a2: "a \<in> set (sh_buckets s ! bucket_index (key_at m a))"
    using shard_entry [OF assms(1)] by (metis key_at_def option.sel)
  have n: "length (sh_buckets s) = CACHE_BUCKETS_PER_SHARD" "distinct (concat (sh_buckets s))" using assms(1) by (simp_all add: shard_ok_def)
  define b2 where "b2 = bucket_index (key_at m a)"
  have "set (concat ((sh_buckets s)[b := remove1 a (sh_buckets s ! b)])) = set (concat (sh_buckets s)) - {a}"
    using concat_remove [OF _ assms(3) n(2)] assms(2) n(1) by simp
  moreover have "a \<in> set ((sh_buckets s)[b := remove1 a (sh_buckets s ! b)] ! b2)" using a2 ne by (simp add: b2_def)
  moreover have "b2 < length ((sh_buckets s)[b := remove1 a (sh_buckets s ! b)])" using n(1) by (simp add: b2_def)
  ultimately show False by (metis Diff_iff UN_I nth_mem set_concat singletonI)
qed

lemma purge_buckets_world:
  "world i R held latest m s \<Longrightarrow> \<forall>b \<in> set bs. b < CACHE_BUCKETS_PER_SHARD \<Longrightarrow>
   \<exists>m' s' p' f'. purge_buckets model bs m s p f = Some (m', s', p', f') \<and> world i R held latest m' s' \<and> frame R m m' \<and>
     set (sh_lru s') = set (sh_lru s) - {a \<in> set (sh_lru s). bucket_index (key_at m a) \<in> set bs \<and> matching m model a} \<and>
     frame (set (sh_lru s')) m m'"
proof (induction bs arbitrary: m s p f)
  case (Cons b bs)
  have sh: "shard_ok m i s" using Cons.prems(1) by (simp add: world_def)
  let ?c = "sh_buckets s ! b"
  have b: "b < CACHE_BUCKETS_PER_SHARD" using Cons.prems(2) by simp
  have dc: "distinct ?c" using sh b by (metis distinct_concat_iff nth_mem shard_ok_def)
  have cset: "set ?c = {a \<in> set (sh_lru s). bucket_index (key_at m a) = b}"
    using chain_subset [OF sh b] chain_keys [OF sh b] shard_entry [OF sh] by (auto simp: key_at_def) (metis option.sel)
  from purge_chain_world [OF Cons.prems(1) _ dc, of b model p f] cset obtain m1 s1 p1 f1 where 1:
    "purge_chain model b ?c m s p f = Some (m1, s1, p1, f1)" "world i R held latest m1 s1" "frame R m m1"
    "set (sh_lru s1) = set (sh_lru s) - {a \<in> set ?c. matching m model a}" "frame (set (sh_lru s1)) m m1" by fastforce
  from Cons.IH [OF 1(2), of p1 f1] Cons.prems(2) obtain m2 s2 p2 f2 where 2:
    "purge_buckets model bs m1 s1 p1 f1 = Some (m2, s2, p2, f2)" "world i R held latest m2 s2" "frame R m1 m2"
    "set (sh_lru s2) = set (sh_lru s1) - {a \<in> set (sh_lru s1). bucket_index (key_at m1 a) \<in> set bs \<and> matching m1 model a}"
    "frame (set (sh_lru s2)) m1 m2" by auto
  have same: "key_at m1 a = key_at m a" "matching m1 model a = matching m model a" if "a \<in> set (sh_lru s1)" for a
    using 1(5) that by (auto simp: frame_def key_at_def matching_def)
  have "set (sh_lru s2) = set (sh_lru s) - {a \<in> set (sh_lru s). bucket_index (key_at m a) \<in> set (b # bs) \<and> matching m model a}"
    using 2(4) same 1(4) cset by auto
  moreover have "frame (set (sh_lru s2)) m m2" using 1(5) 2(4,5) by (auto simp: frame_def)
  ultimately show ?case using 1 2 frame_trans [OF 1(3) 2(3)] by simp
qed (auto simp: frame_def)

section \<open>The whole cache\<close>

definition linked :: "response_cache \<Rightarrow> nat set" where
  "linked rc = (\<Union>s \<in> set (rc_shards rc). set (sh_lru s))"

definition cache_inv :: "response_cache \<Rightarrow> held \<Rightarrow> latest \<Rightarrow> bool" where
  "cache_inv rc held latest \<longleftrightarrow> length (rc_shards rc) = CACHE_SHARDS_COUNT \<and>
     (\<forall>i < CACHE_SHARDS_COUNT. shard_ok (rc_mem rc) i (rc_shards rc ! i)) \<and> mem_ok (rc_mem rc) (linked rc) held latest"

lemma linked_nth: "a \<in> linked rc \<longleftrightarrow> (\<exists>i < length (rc_shards rc). a \<in> set (sh_lru (rc_shards rc ! i)))"
  unfolding linked_def by (metis UN_iff in_set_conv_nth)

definition rest :: "response_cache \<Rightarrow> nat \<Rightarrow> nat set" where
  "rest rc i = linked rc - set (sh_lru (rc_shards rc ! i))"

lemma cache_world:
  assumes "cache_inv rc held latest" "i < CACHE_SHARDS_COUNT"
  shows "world i (rest rc i) held latest (rc_mem rc) (rc_shards rc ! i)"
proof -
  have n: "length (rc_shards rc) = CACHE_SHARDS_COUNT" using assms(1) by (simp add: cache_inv_def)
  have "rest rc i \<union> set (sh_lru (rc_shards rc ! i)) = linked rc"
    using assms(2) n linked_nth [of _ rc] by (auto simp: rest_def)
  moreover have "shard_index (key_at (rc_mem rc) a) \<noteq> i" if "a \<in> rest rc i" for a
  proof -
    from that n obtain j where j: "j < CACHE_SHARDS_COUNT" "a \<in> set (sh_lru (rc_shards rc ! j))" "a \<notin> set (sh_lru (rc_shards rc ! i))"
      by (auto simp: rest_def linked_nth)
    have "shard_ok (rc_mem rc) j (rc_shards rc ! j)" using assms(1) j(1) by (simp add: cache_inv_def)
    then have "shard_index (key_at (rc_mem rc) a) = j" using j(2) by (metis key_at_def option.sel shard_entry)
    then show ?thesis using j by auto
  qed
  ultimately show ?thesis using assms by (simp add: world_def cache_inv_def)
qed

lemma world_cache:
  assumes "cache_inv rc held latest" "i < CACHE_SHARDS_COUNT" "world i (rest rc i) held' latest' m' s'" "frame (rest rc i) (rc_mem rc) m'"
  shows "cache_inv (put_shard rc i m' s') held' latest' \<and> linked (put_shard rc i m' s') = rest rc i \<union> set (sh_lru s')"
proof -
  have n: "length (rc_shards rc) = CACHE_SHARDS_COUNT" using assms(1) by (simp add: cache_inv_def)
  have j: "set (sh_lru (rc_shards rc ! j)) \<subseteq> rest rc i" if "j < CACHE_SHARDS_COUNT" "j \<noteq> i" for j
  proof
    fix a
    assume a: "a \<in> set (sh_lru (rc_shards rc ! j))"
    have "shard_ok (rc_mem rc) j (rc_shards rc ! j)" "shard_ok (rc_mem rc) i (rc_shards rc ! i)"
      using assms(1,2) that(1) by (simp_all add: cache_inv_def)
    then have "a \<notin> set (sh_lru (rc_shards rc ! i))" using a that(2) by (metis option.sel shard_entry)
    then show "a \<in> rest rc i" using a that(1) n by (auto simp: rest_def linked_nth)
  qed
  have L: "linked (put_shard rc i m' s') = rest rc i \<union> set (sh_lru s')"
  proof (rule set_eqI)
    fix a
    have "a \<in> linked (put_shard rc i m' s') \<longleftrightarrow>
        a \<in> set (sh_lru s') \<or> (\<exists>j < CACHE_SHARDS_COUNT. j \<noteq> i \<and> a \<in> set (sh_lru (rc_shards rc ! j)))"
      using n assms(2) by (auto simp: linked_nth put_shard_def nth_list_update)
    also have "\<dots> \<longleftrightarrow> a \<in> rest rc i \<union> set (sh_lru s')"
      using j n by (auto simp: rest_def linked_nth)
    finally show "a \<in> linked (put_shard rc i m' s') \<longleftrightarrow> a \<in> rest rc i \<union> set (sh_lru s')" .
  qed
  have "shard_ok m' j (rc_shards (put_shard rc i m' s') ! j)" if "j < CACHE_SHARDS_COUNT" for j
  proof (cases "j = i")
    case True
    then show ?thesis using assms(2,3) n by (simp add: put_shard_def world_def)
  next
    case False
    have "frame (set (sh_lru (rc_shards rc ! j))) (rc_mem rc) m'" using assms(4) j [OF that False] by (auto simp: frame_def)
    moreover have "shard_ok (rc_mem rc) j (rc_shards rc ! j)" using assms(1) that by (simp add: cache_inv_def)
    ultimately show ?thesis using False frame_same by (simp add: put_shard_def)
  qed
  then show ?thesis using assms(3) n L by (simp add: cache_inv_def put_shard_def world_def)
qed

lemma cache_new_inv:
  assumes "response_cache_new True mb me ttl = Some rc"
  shows "cache_inv rc (\<lambda>a. 0) Map.empty"
proof -
  have e: "\<forall>s \<in> set (rc_shards rc). sh_lru s = []" "length (rc_shards rc) = CACHE_SHARDS_COUNT"
      "rc_mem rc = \<lparr>cm_entries = Map.empty, cm_bodies = Map.empty, cm_brk = 0\<rparr>"
    using assms by (auto simp: response_cache_new_def Let_def)
  have "shard_ok (rc_mem rc) i (rc_shards rc ! i)" if "i < CACHE_SHARDS_COUNT" for i
    using assms that by (auto simp: response_cache_new_def Let_def shard_ok_def CACHE_SHARDS_COUNT_def)
  moreover have "linked rc = {}" using e(1) by (simp add: linked_def)
  ultimately show ?thesis using e(2,3) by (simp add: cache_inv_def mem_ok_def)
qed

text \<open>Only the shards and the memory matter.\<close>

lemma cache_inv_cong:
  "rc_shards rc' = rc_shards rc \<Longrightarrow> rc_mem rc' = rc_mem rc \<Longrightarrow> cache_inv rc' held latest = cache_inv rc held latest"
  by (simp add: cache_inv_def linked_def)

text \<open>The operations.\<close>

lemma get_inv:
  assumes "cache_inv rc held latest"
  shows "\<exists>rc' r. response_cache_get rc key now = Some (rc', r) \<and>
    (case r of
       None \<Rightarrow> cache_inv rc' held latest
     | Some a \<Rightarrow> cache_inv rc' (held(a := held a + 1)) latest \<and>
         (\<exists>k e t. key = Some k \<and> cm_entries (rc_mem rc') a = Some e \<and> cm_bodies (rc_mem rc') (en_response_body e) = Some t \<and>
            latest k = Some (t, en_expires_at e) \<and> now < en_expires_at e))"
proof (cases "key = None \<or> \<not> rc_enabled rc \<or> key = Some []")
  case True
  then show ?thesis using assms by (auto simp: response_cache_get_def split: option.splits)
next
  case False
  then obtain k where k: "key = Some k" "k \<noteq> []" "rc_enabled rc" by auto
  let ?i = "shard_index k" and ?m = "rc_mem rc"
  let ?s = "rc_shards rc ! ?i"
  note w = cache_world [OF assms shard_index_less [of k]]
  have sh: "shard_ok ?m ?i ?s" using w by (simp add: world_def)
  have ent: "cache_inv (put_shard rc ?i ?m (?s\<lparr>sh_misses := x\<rparr>)) held latest" for x
  proof -
    have "world ?i (rest rc ?i) held latest ?m (?s\<lparr>sh_misses := x\<rparr>)" using w by (simp add: world_def shard_ok_def entry_ok_def)
    from world_cache [OF assms shard_index_less this] show ?thesis by (simp add: frame_def)
  qed
  consider (miss) "chain_find ?m k (sh_buckets ?s ! bucket_index k) = Some None"
    | (found) a where "chain_find ?m k (sh_buckets ?s ! bucket_index k) = Some (Some a)" "a \<in> set (sh_lru ?s)" "key_at ?m a = k"
    using shard_find [OF sh, of k] by blast
  then show ?thesis
  proof cases
    case miss
    then show ?thesis using k ent by (simp add: response_cache_get_def Let_def)
  next
    case found
    from shard_entry [OF sh found(2)] obtain e where e: "cm_entries ?m a = Some e" by blast
    have ek: "en_cache_key e = k" using found(3) e by (simp add: key_at_def)
    show ?thesis
    proof (cases "now \<ge> en_expires_at e")
      case True
      from unlink_destroy_world [OF w found(2) e] obtain m' where m': "destroy_entry_internal ?m a = Some m'"
        "world ?i (rest rc ?i) held latest m' (unlink_entry ?s (bucket_index k) a (en_response_len e))" "frame (- {a}) ?m m'"
        by (auto simp: ek)
      let ?s' = "(unlink_entry ?s (bucket_index k) a (en_response_len e))\<lparr>sh_misses := sh_misses ?s + 1\<rparr>"
      have "world ?i (rest rc ?i) held latest m' ?s'" using m'(2) by (simp add: world_def shard_ok_def entry_ok_def)
      moreover have "frame (rest rc ?i) ?m m'" using m'(3) found(2) by (auto simp: frame_def rest_def)
      ultimately have "cache_inv (put_shard rc ?i m' ?s') held latest" using world_cache [OF assms shard_index_less] by blast
      then show ?thesis using k found(1) e True m'(1) by (simp add: response_cache_get_def Let_def)
    next
      case False
      let ?m' = "?m\<lparr>cm_entries := (cm_entries ?m)(a \<mapsto> e\<lparr>en_ref_count := en_ref_count e + 1\<rparr>)\<rparr>"
      let ?s1 = "lru_push_head (lru_remove ?s a) a"
      let ?rc = "put_shard rc ?i ?m' (?s1\<lparr>sh_hits := sh_hits ?s1 + 1\<rparr>)"
      from hit_world [OF w found(2) e] world_cache [OF assms shard_index_less [of k]]
      have inv: "cache_inv ?rc (held(a := held a + 1)) latest" by blast
      have "latest_inv ?m latest a" using w found(2) by (simp add: world_def mem_ok_def)
      then obtain t where t: "cm_bodies ?m (en_response_body e) = Some t" "latest k = Some (t, en_expires_at e)"
        using e ek by (auto simp: latest_inv_def)
      let ?rc' = "?rc\<lparr>rc_saved_prompt_tokens := rc_saved_prompt_tokens rc + word_of_int (en_prompt_tokens e),
          rc_saved_completion_tokens := rc_saved_completion_tokens rc + word_of_int (en_completion_tokens e),
          rc_saved_cost_usd := rc_saved_cost_usd rc + en_cost_usd e\<rparr>"
      have "response_cache_get rc key now = Some (?rc', Some a)"
        using k found(1) e False by (simp add: response_cache_get_def Let_def)
      moreover have "cache_inv ?rc' (held(a := held a + 1)) latest" by (rule iffD2 [OF cache_inv_cong inv]) simp_all
      moreover have "cm_entries (rc_mem ?rc') a = Some (e\<lparr>en_ref_count := en_ref_count e + 1\<rparr>)" "cm_bodies (rc_mem ?rc') = cm_bodies ?m"
        by (simp_all add: put_shard_def)
      ultimately show ?thesis using t k(1) False
        by (intro exI [of _ ?rc'] exI [of _ "Some a"]) (simp del: fun_upd_apply)
    qed
  qed
qed

lemma release_inv:
  assumes "cache_inv rc held latest" "0 < held a"
  shows "\<exists>rc'. response_cache_release_entry rc a = Some rc' \<and> cache_inv rc' (held(a := held a - 1)) latest"
proof -
  let ?m = "rc_mem rc" and ?h = "held(a := held a - 1)"
  have mm: "mem_ok ?m (linked rc) held latest" using assms(1) by (simp add: cache_inv_def)
  obtain e where e: "cm_entries ?m a = Some e" using mm assms(2) by (cases "cm_entries ?m a") (auto simp: mem_ok_def)
  note ei = mem_okD(1) [OF mm e]
  let ?e = "e\<lparr>en_ref_count := en_ref_count e - 1\<rparr>"
  let ?m1 = "?m\<lparr>cm_entries := (cm_entries ?m)(a \<mapsto> ?e)\<rparr>"
  have sub: "release_entry_sub ?m a = Some (?m1, int (held a))" using e ei by (simp add: release_entry_sub_def entry_inv_def)
  have live: "en_status_code e \<noteq> -1" if "a \<in> linked rc"
  proof -
    from that assms(1) obtain i where "i < CACHE_SHARDS_COUNT" "a \<in> set (sh_lru (rc_shards rc ! i))"
      "shard_ok ?m i (rc_shards rc ! i)" by (auto simp: linked_nth cache_inv_def)
    then show ?thesis using e by (metis option.sel shard_entry)
  qed
  have shards: "shard_ok m' i (rc_shards rc ! i)"
    if "i < CACHE_SHARDS_COUNT" "\<And>x. x \<in> linked rc \<Longrightarrow> cm_entries m' x = cm_entries ?m1 x" for m' i
  proof (rule shard_ok_cong)
    show sh: "shard_ok ?m i (rc_shards rc ! i)" using assms(1) that(1) by (simp add: cache_inv_def)
    show "\<forall>x \<in> set (sh_lru (rc_shards rc ! i)). same_entry ?m m' x"
    proof
      fix x
      assume x: "x \<in> set (sh_lru (rc_shards rc ! i))"
      then have "x \<in> linked rc" using that(1) assms(1) by (auto simp: linked_nth cache_inv_def)
      then have "cm_entries m' x = cm_entries ?m1 x" by (rule that(2))
      moreover obtain f where "cm_entries ?m x = Some f" "en_status_code f \<noteq> -1" by (rule shard_entry [OF sh x])
      ultimately show "same_entry ?m m' x" using e by (auto simp: same_entry_def)
    qed
  qed
  show ?thesis
  proof (cases "held a = 1 \<and> en_status_code e = -1")
    case True
    let ?m2 = "free_entry ?m1 a ?e"
    have un: "a \<notin> linked rc" using live True by blast
    have m2: "?m2 = free_entry ?m a e" by (simp add: free_entry_def)
    have "mem_ok ?m2 (linked rc) ?h latest"
    proof -
      have ei': "entry_inv ?m2 (linked rc) ?h x f" if "cm_entries ?m2 x = Some f" for x f
        using that mem_okD(1) [OF mm, of x f] by (auto simp: entry_inv_def free_entry_def split: if_splits)
      have h: "?h x = 0" if "cm_entries ?m2 x = None" for x
        using that mm True by (auto simp: mem_ok_def free_entry_def split: if_splits)
      have d: "dom (cm_entries ?m2) = dom (cm_entries ?m) - {a}" "dom (cm_bodies ?m2) = dom (cm_bodies ?m) - {body_at ?m a}"
        using e by (auto simp: free_entry_def body_at_def)
      have b: "body_at ?m2 x = body_at ?m x" if "x \<noteq> a" for x using that by (simp add: body_at_def free_entry_def)
      have inj: "inj_on (body_at ?m) (dom (cm_entries ?m))" "dom (cm_bodies ?m) = body_at ?m ` dom (cm_entries ?m)"
        using mm by (simp_all add: mem_ok_def)
      have "body_at ?m2 ` (dom (cm_entries ?m) - {a}) = body_at ?m ` (dom (cm_entries ?m) - {a})" using b by (intro image_cong) auto
      also have "\<dots> = body_at ?m ` dom (cm_entries ?m) - {body_at ?m a}" using inj(1) e by (auto simp: inj_on_def)
      finally have img: "dom (cm_bodies ?m2) = body_at ?m2 ` dom (cm_entries ?m2)" unfolding d inj(2) by simp
      have inj2: "inj_on (body_at ?m2) (dom (cm_entries ?m2))" unfolding d using inj(1) b by (auto simp: inj_on_def)
      have "latest_inv ?m2 latest x" if "x \<in> linked rc" for x
      proof -
        have "latest_inv ?m latest x" "x \<noteq> a" using mm that un by (auto simp: mem_ok_def)
        then show ?thesis using mem_okD(3) [OF mm e] by (auto simp: latest_inv_def free_entry_def)
      qed
      with ei' h img inj2 show ?thesis unfolding mem_ok_def by blast
    qed
    moreover have "cm_entries ?m2 x = cm_entries ?m1 x" if "x \<in> linked rc" for x using that un by (auto simp: free_entry_def)
    ultimately have "cache_inv (rc\<lparr>rc_mem := ?m2\<rparr>) ?h latest"
      using assms(1) shards [of _ ?m2] by (simp add: cache_inv_def linked_def)
    moreover have "response_cache_release_entry rc a = Some (rc\<lparr>rc_mem := ?m2\<rparr>)"
      using sub True by (simp add: response_cache_release_entry_def release_entry_check_def)
    ultimately show ?thesis by blast
  next
    case False
    have "mem_ok ?m1 (linked rc) ?h latest"
      by (rule entry_update_ok [OF mm e])
         (use ei False assms(2) in \<open>auto simp: entry_inv_def\<close>)
    then have "cache_inv (rc\<lparr>rc_mem := ?m1\<rparr>) ?h latest"
      using assms(1) shards [of _ ?m1] by (simp add: cache_inv_def linked_def)
    moreover have "response_cache_release_entry rc a = Some (rc\<lparr>rc_mem := ?m1\<rparr>)"
      using sub False assms(2) by (auto simp: response_cache_release_entry_def release_entry_check_def)
    ultimately show ?thesis by blast
  qed
qed

lemma set_inv:
  assumes "cache_inv rc held latest" "\<And>k. key = Some k \<Longrightarrow> length k < 65"
  shows "\<exists>rc' r. response_cache_set rc ent_ok body_ok key model body pt ct c ttl_sec now = Some (rc', r) \<and>
    (if r = 0 then \<exists>k t. key = Some k \<and> body = Some t \<and>
       cache_inv rc' held (latest(k \<mapsto> (t, now + (if ttl_sec > 0 then ttl_sec else rc_default_ttl_sec rc))))
     else cache_inv rc' held latest)"
proof (cases "\<exists>k t. key = Some k \<and> body = Some t \<and> rc_enabled rc \<and> t \<noteq> [] \<and> length t \<le> 1024 * 1024")
  case False
  then have "response_cache_set rc ent_ok body_ok key model body pt ct c ttl_sec now = Some (rc, -1)"
    by (auto simp: response_cache_set_def split: option.splits)
  then show ?thesis using assms(1) by simp
next
  case True
  then obtain k t where k: "key = Some k" "body = Some t" "rc_enabled rc" "t \<noteq> []" "\<not> length t > 1024 * 1024" by force
  let ?i = "shard_index k" and ?m = "rc_mem rc"
  let ?s = "rc_shards rc ! ?i"
  define ttl where "ttl = (if ttl_sec > 0 then ttl_sec else rc_default_ttl_sec rc)"
  have big: "\<not> 1048576 < length t" using k(5) by simp
  note sets = response_cache_set_def Let_def ttl_def [symmetric] k big
  note w = cache_world [OF assms(1) shard_index_less [of k]]
  have sh: "shard_ok ?m ?i ?s" using w by (simp add: world_def)
  note rtn = world_cache [OF assms(1) shard_index_less [of k]]
  consider (miss) "chain_find ?m k (sh_buckets ?s ! bucket_index k) = Some None" "\<forall>a \<in> set (sh_lru ?s). key_at ?m a \<noteq> k"
    | (found) a where "chain_find ?m k (sh_buckets ?s ! bucket_index k) = Some (Some a)" "a \<in> set (sh_lru ?s)" "key_at ?m a = k"
    using shard_find [OF sh, of k] by blast
  then show ?thesis
  proof cases
    case found
    from shard_entry [OF sh found(2)] obtain e where e: "cm_entries ?m a = Some e" by blast
    have ek: "en_cache_key e = k" using found(3) e by (simp add: key_at_def)
    show ?thesis
    proof (cases body_ok)
      case False
      then have "response_cache_set rc ent_ok body_ok key model body pt ct c ttl_sec now = Some (rc, -1)" using found(1) e by (simp add: sets)
      then show ?thesis using assms(1) by simp
    next
      case True
      from update_world [OF w found(2) e, of t pt ct c now ttl, unfolded ek] obtain m' s' where
        u: "update_entry ?m ?s a e t pt ct c now ttl = Some (m', s')"
        "world ?i (rest rc ?i) held (latest(k \<mapsto> (t, now + ttl))) m' s'" "frame (rest rc ?i) ?m m'" by blast
      have "cache_inv (put_shard rc ?i m' s') held (latest(k \<mapsto> (t, now + ttl)))" using rtn [OF u(2,3)] by blast
      moreover have "response_cache_set rc ent_ok body_ok key model body pt ct c ttl_sec now = Some (put_shard rc ?i m' s', 0)"
        using True found(1) e u(1) by (simp add: sets)
      ultimately show ?thesis unfolding ttl_def using k(1,2) by fastforce
    qed
  next
    case miss
    from evict_loop_world [OF w, of "length t"] obtain m1 s1 where l: "evict_loop (length t) ?m ?s = Some (m1, s1)"
      "world ?i (rest rc ?i) held latest m1 s1" "frame (rest rc ?i) ?m m1" "sh_count s1 < sh_max_count s1"
      "set (sh_lru s1) \<subseteq> set (sh_lru ?s)" "frame (set (sh_lru s1)) ?m m1" by blast
    show ?thesis
    proof (cases "ent_ok \<and> body_ok")
      case False
      then have "response_cache_set rc ent_ok body_ok key model body pt ct c ttl_sec now = Some (put_shard rc ?i m1 s1, -1)"
        using miss(1) l(1) by (auto simp: sets)
      then show ?thesis using rtn [OF l(2,3)] by simp
    next
      case True
      obtain m2 s2 where i: "insert_entry m1 s1 k model t pt ct c now ttl = (m2, s2)" by fastforce
      have "\<forall>a \<in> set (sh_lru s1). key_at m1 a \<noteq> k" using miss(2) l(5,6) by (auto simp: frame_def key_at_def)
      from insert_world [OF l(2) this refl assms(2) [OF k(1)] l(4) i] have
        "world ?i (rest rc ?i) held (latest(k \<mapsto> (t, now + ttl))) m2 s2" "frame (rest rc ?i) m1 m2" by blast+
      from rtn [OF this(1) frame_trans [OF l(3) this(2)]]
      have "cache_inv (put_shard rc ?i m2 s2) held (latest(k \<mapsto> (t, now + ttl)))" by blast
      moreover have "response_cache_set rc ent_ok body_ok key model body pt ct c ttl_sec now = Some (put_shard rc ?i m2 s2, 0)"
        using True miss(1) l(1) i by (simp add: sets)
      ultimately show ?thesis unfolding ttl_def using k(1,2) by fastforce
    qed
  qed
qed

text \<open>A purge takes out of the shards it visits the entries that match, and no other.\<close>

lemma purge_shards_inv:
  "cache_inv rc held latest \<Longrightarrow> \<forall>i \<in> set is. i < CACHE_SHARDS_COUNT \<Longrightarrow>
   \<exists>rc' p' f'. purge_shards model is rc p f = Some (rc', p', f') \<and> cache_inv rc' held latest \<and>
     linked rc' = linked rc - {a \<in> linked rc. shard_index (key_at (rc_mem rc) a) \<in> set is \<and> matching (rc_mem rc) model a} \<and>
     frame (linked rc') (rc_mem rc) (rc_mem rc')"
proof (induction "is" arbitrary: rc p f)
  case Nil
  then show ?case by (auto simp: frame_def)
next
  case (Cons i "is")
  let ?m = "rc_mem rc" and ?s = "rc_shards rc ! i" and ?bs = "[0..<CACHE_BUCKETS_PER_SHARD]"
  have i: "i < CACHE_SHARDS_COUNT" using Cons.prems(2) by simp
  note w = cache_world [OF Cons.prems(1) i]
  have sh: "shard_ok ?m i ?s" using w by (simp add: world_def)
  have "\<forall>b \<in> set ?bs. b < CACHE_BUCKETS_PER_SHARD" by simp
  from purge_buckets_world [OF w this, of model p f] obtain m1 s1 p1 f1 where 1:
    "purge_buckets model ?bs ?m ?s p f = Some (m1, s1, p1, f1)" "world i (rest rc i) held latest m1 s1" "frame (rest rc i) ?m m1"
    "set (sh_lru s1) = set (sh_lru ?s) - {a \<in> set (sh_lru ?s). bucket_index (key_at ?m a) \<in> set ?bs \<and> matching ?m model a}"
    "frame (set (sh_lru s1)) ?m m1" by blast
  let ?rc = "put_shard rc i m1 s1"
  have inv: "cache_inv ?rc held latest" and L: "linked ?rc = rest rc i \<union> set (sh_lru s1)"
    using world_cache [OF Cons.prems(1) i 1(2,3)] by auto
  from Cons.IH [OF inv, of p1 f1] Cons.prems(2) obtain rc' p' f' where 2: "purge_shards model is ?rc p1 f1 = Some (rc', p', f')"
    "cache_inv rc' held latest" "frame (linked rc') (rc_mem ?rc) (rc_mem rc')"
    "linked rc' = linked ?rc - {a \<in> linked ?rc. shard_index (key_at (rc_mem ?rc) a) \<in> set is \<and> matching (rc_mem ?rc) model a}"
    by auto
  have fr: "cm_entries (rc_mem ?rc) a = cm_entries ?m a" if "a \<in> linked ?rc" for a
    using that 1(3,5) L by (auto simp: frame_def put_shard_def)
  have same: "key_at (rc_mem ?rc) a = key_at ?m a" "matching (rc_mem ?rc) model a = matching ?m model a" if "a \<in> linked ?rc" for a
    using fr [OF that] by (simp_all add: key_at_def matching_def)
  have split: "linked rc = rest rc i \<union> set (sh_lru ?s)"
    using i Cons.prems(1) by (auto simp: rest_def linked_nth cache_inv_def)
  have here: "shard_index (key_at ?m a) = i" if "a \<in> set (sh_lru ?s)" for a
    using shard_entry [OF sh that] by (metis key_at_def option.sel)
  have there: "shard_index (key_at ?m a) \<noteq> i" if "a \<in> rest rc i" for a using w that by (simp add: world_def)
  have L1: "linked ?rc = linked rc - {a \<in> linked rc. shard_index (key_at ?m a) = i \<and> matching ?m model a}"
    unfolding L split 1(4) using here there by auto
  have "linked rc' = linked ?rc - {a \<in> linked ?rc. shard_index (key_at ?m a) \<in> set is \<and> matching ?m model a}"
    unfolding 2(4) by (auto simp: same)
  also have "\<dots> = linked rc - {a \<in> linked rc. shard_index (key_at ?m a) \<in> set (i # is) \<and> matching ?m model a}"
    unfolding L1 by auto
  finally have "linked rc' = linked rc - {a \<in> linked rc. shard_index (key_at ?m a) \<in> set (i # is) \<and> matching ?m model a}" .
  moreover have "frame (linked rc') ?m (rc_mem rc')" using 2(3,4) fr by (auto simp: frame_def)
  ultimately show ?case using 1(1) 2(1,2) by simp
qed

lemma purge_inv:
  assumes "cache_inv rc held latest"
  shows "\<exists>rc' p f. response_cache_purge rc model = Some (rc', p, f) \<and> cache_inv rc' held latest \<and>
    linked rc' = {a \<in> linked rc. \<not> matching (rc_mem rc) model a} \<and> frame (linked rc') (rc_mem rc) (rc_mem rc')"
proof -
  have "\<forall>i \<in> set [0..<CACHE_SHARDS_COUNT]. i < CACHE_SHARDS_COUNT" by simp
  from purge_shards_inv [OF assms this, of model 0 0] show ?thesis
    by (fastforce simp: response_cache_purge_def)
qed

end
