(* ===== verification/Cache_Keep.thy ===== *)
theory Cache_Keep
  imports Cache_Props
begin

text \<open>
  What an operation of the response cache leaves alone: an entry that a reader holds keeps its key, its
  body and the bytes of its body, unless the operation stores a new body under its key. The argument is
  about the memory only: entries have bodies of their own, and nothing with a positive count is freed.
\<close>

section \<open>Entries in memory\<close>

definition mem_sep :: "cache_mem \<Rightarrow> bool" where
  "mem_sep m \<longleftrightarrow>
     (\<forall>a b e f. cm_entries m a = Some e \<longrightarrow> cm_entries m b = Some f \<longrightarrow> en_response_body e = en_response_body f \<longrightarrow> a = b) \<and>
     (\<forall>a e. cm_entries m a = Some e \<longrightarrow> a < cm_brk m \<and> en_response_body e < cm_brk m)"

text \<open>\<open>X\<close> are the entries the operation may change.\<close>

definition kept :: "nat set \<Rightarrow> cache_mem \<Rightarrow> cache_mem \<Rightarrow> bool" where
  "kept X m m' \<longleftrightarrow> (\<forall>a e. a \<notin> X \<longrightarrow> cm_entries m a = Some e \<longrightarrow> 0 < en_ref_count e \<longrightarrow>
     (\<exists>e'. cm_entries m' a = Some e' \<and> 0 < en_ref_count e' \<and> en_cache_key e' = en_cache_key e \<and>
        en_response_body e' = en_response_body e \<and>
        cm_bodies m' (en_response_body e) = cm_bodies m (en_response_body e)))"

definition keeps :: "cache_mem \<Rightarrow> cache_mem \<Rightarrow> bool" where
  "keeps m m' \<longleftrightarrow> (mem_sep m \<longrightarrow> mem_sep m' \<and> kept {} m m')"

lemma kept_trans:
  assumes "kept X m m'" "kept X m' m''"
  shows "kept X m m''"
  unfolding kept_def
proof (intro allI impI)
  fix a e
  assume a: "a \<notin> X" "cm_entries m a = Some e" "0 < en_ref_count e"
  from assms(1)[unfolded kept_def, rule_format, OF a] obtain e1 where e1:
    "cm_entries m' a = Some e1" "0 < en_ref_count e1" "en_cache_key e1 = en_cache_key e"
    "en_response_body e1 = en_response_body e" "cm_bodies m' (en_response_body e) = cm_bodies m (en_response_body e)" by blast
  from assms(2)[unfolded kept_def, rule_format, OF a(1) e1(1,2)] e1 show
    "\<exists>e'. cm_entries m'' a = Some e' \<and> 0 < en_ref_count e' \<and> en_cache_key e' = en_cache_key e \<and>
       en_response_body e' = en_response_body e \<and> cm_bodies m'' (en_response_body e) = cm_bodies m (en_response_body e)" by auto
qed

lemma keeps_refl [simp]: "keeps m m"
  by (simp add: keeps_def kept_def)

lemma keeps_trans: "keeps m m' \<Longrightarrow> keeps m' m'' \<Longrightarrow> keeps m m''"
  using kept_trans by (auto simp: keeps_def)

lemma mem_ok_sep: "mem_ok m L held latest \<Longrightarrow> mem_sep m"
  unfolding mem_sep_def
proof (intro conjI allI impI)
  assume m: "mem_ok m L held latest"
  show "a = b" if "cm_entries m a = Some e" "cm_entries m b = Some f" "en_response_body e = en_response_body f" for a b e f
    by (rule mem_okD(3) [OF m that(2,1,3)])
  show "a < cm_brk m" "en_response_body e < cm_brk m" if "cm_entries m a = Some e" for a e
    using mem_okD(1) [OF m that] by (simp_all add: entry_inv_def)
qed

section \<open>Steps\<close>

text \<open>A change of the count or the status that leaves the count positive or started at none.\<close>

lemma keeps_mark:
  assumes "cm_entries m a = Some e" "en_response_body e' = en_response_body e" "en_cache_key e' = en_cache_key e"
    and "0 < en_ref_count e \<longrightarrow> 0 < en_ref_count e'"
  shows "keeps m (m\<lparr>cm_entries := (cm_entries m)(a \<mapsto> e')\<rparr>)"
proof -
  have "mem_sep (m\<lparr>cm_entries := (cm_entries m)(a \<mapsto> e')\<rparr>)" if "mem_sep m"
    using that assms(1,2) unfolding mem_sep_def by (auto split: if_splits)
  moreover have "kept {} m (m\<lparr>cm_entries := (cm_entries m)(a \<mapsto> e')\<rparr>)"
    using assms by (auto simp: kept_def)
  ultimately show ?thesis by (simp add: keeps_def)
qed

lemma kept_free:
  assumes "mem_sep m" "cm_entries m a = Some e"
  shows "mem_sep (free_entry m a e) \<and> kept {a} m (free_entry m a e)"
proof
  show "mem_sep (free_entry m a e)"
    using assms(1) unfolding mem_sep_def free_entry_def by (auto split: if_splits)
  have "en_response_body f \<noteq> en_response_body e" if "cm_entries m b = Some f" "b \<noteq> a" for b f
    using assms that unfolding mem_sep_def by metis
  then show "kept {a} m (free_entry m a e)" by (auto simp: kept_def free_entry_def)
qed

lemma keeps_destroy: "destroy_entry_internal m a = Some m' \<Longrightarrow> keeps m m'"
proof -
  assume d: "destroy_entry_internal m a = Some m'"
  then obtain e where e: "cm_entries m a = Some e" by (auto simp: destroy_entry_internal_def split: option.splits)
  show ?thesis
  proof (cases "en_ref_count e \<le> 0")
    case True
    with d e have m': "m' = free_entry m a e" by (simp add: destroy_entry_internal_def)
    have "kept {} m m'" if "kept {a} m m'"
      using that True e unfolding kept_def by (metis empty_iff insert_iff leD option.sel)
    with kept_free [OF _ e] show ?thesis by (auto simp: keeps_def m')
  next
    case False
    with d e keeps_mark [OF e, of "e\<lparr>en_status_code := -1\<rparr>"] show ?thesis by (auto simp: destroy_entry_internal_def)
  qed
qed

lemma keeps_evict_one: "evict_one_lru_locked m s = Some (m', s') \<Longrightarrow> keeps m m'"
  by (auto simp: evict_one_lru_locked_def Let_def dest: keeps_destroy split: if_splits option.splits)

lemma keeps_evict_loop: "evict_loop len m s = Some r \<Longrightarrow> keeps m (fst r)"
proof (erule evict_loop.raw_induct [where P = "\<lambda>len m s r. keeps m (fst r)", rotated])
  fix loop len m s and r :: "cache_mem \<times> cache_shard"
  assume ih: "\<And>len m s r. loop len m s = Some r \<Longrightarrow> keeps m (fst r)"
    and b: "(if sh_count s \<ge> sh_max_count s \<or> (sh_bytes_used s + len > sh_max_bytes s \<and> sh_count s > 0)
      then (case evict_one_lru_locked m s of None \<Rightarrow> None | Some (m', s') \<Rightarrow> loop len m' s')
      else Some (m, s)) = Some r"
  show "keeps m (fst r)"
  proof (cases "sh_count s \<ge> sh_max_count s \<or> (sh_bytes_used s + len > sh_max_bytes s \<and> sh_count s > 0)")
    case True
    with b obtain m1 s1 where 1: "evict_one_lru_locked m s = Some (m1, s1)" "loop len m1 s1 = Some r"
      by (auto split: option.splits)
    from keeps_evict_one [OF 1(1)] ih [OF 1(2)] show ?thesis by (rule keeps_trans)
  next
    case False
    with b have "r = (m, s)" by simp
    then show ?thesis by simp
  qed
qed

lemma keeps_purge_chain: "purge_chain model b as m s p f = Some r \<Longrightarrow> keeps m (fst r)"
proof (induction model b as m s p f rule: purge_chain.induct)
  case (2 model b a as m s p f)
  then obtain e where e: "cm_entries m a = Some e" by (auto split: option.splits)
  show ?case
  proof (cases "purge_matches model e")
    case True
    with 2(3) e obtain m' where m': "destroy_entry_internal m a = Some m'" by (auto simp: Let_def split: option.splits)
    have "keeps m' (fst r)" using 2(1)[OF e True refl refl refl m'] 2(3) e True m' by (simp add: Let_def)
    with keeps_destroy [OF m'] show ?thesis by (rule keeps_trans)
  next
    case False
    with 2(2)[OF e False] 2(3) e show ?thesis by simp
  qed
qed auto

lemma keeps_purge_buckets: "purge_buckets model bs m s p f = Some r \<Longrightarrow> keeps m (fst r)"
proof (induction model bs m s p f rule: purge_buckets.induct)
  case (2 model b bs m s p f)
  then obtain m1 s1 p1 f1 where 1: "purge_chain model b (sh_buckets s ! b) m s p f = Some (m1, s1, p1, f1)"
    "purge_buckets model bs m1 s1 p1 f1 = Some r" by (auto split: option.splits)
  from 2(1)[OF 1(1) refl refl refl 1(2)] keeps_purge_chain [OF 1(1)] show ?case by (auto intro: keeps_trans)
qed auto

lemma keeps_purge_shards: "purge_shards model is rc p f = Some r \<Longrightarrow> keeps (rc_mem rc) (rc_mem (fst r))"
proof (induction model "is" rc p f rule: purge_shards.induct)
  case (2 model i "is" rc p f)
  then obtain m1 s1 p1 f1 where 1:
    "purge_buckets model [0..<CACHE_BUCKETS_PER_SHARD] (rc_mem rc) (rc_shards rc ! i) p f = Some (m1, s1, p1, f1)"
    "purge_shards model is (put_shard rc i m1 s1) p1 f1 = Some r" by (auto split: option.splits)
  from 2(1)[OF 1(1) refl refl refl 1(2)] keeps_purge_buckets [OF 1(1)] show ?case
    by (auto simp: put_shard_def intro: keeps_trans)
qed auto

section \<open>Operations\<close>

lemma keeps_get: "response_cache_get rc key now = Some (rc', r) \<Longrightarrow> keeps (rc_mem rc) (rc_mem rc')"
  by (auto simp: response_cache_get_def Let_def put_shard_def intro!: keeps_mark dest: keeps_destroy
      split: option.splits if_splits)

lemma keeps_purge: "response_cache_purge rc model = Some (rc', p, f) \<Longrightarrow> keeps (rc_mem rc) (rc_mem rc')"
  using keeps_purge_shards [of model _ rc 0 0 "(rc', p, f)"] by (simp add: response_cache_purge_def)

lemma keeps_insert:
  assumes "insert_entry m s k md t pt ct c now ttl = (m', s')"
  shows "keeps m m'"
proof -
  have m': "\<exists>e. cm_entries m' = (cm_entries m)(cm_brk m \<mapsto> e) \<and> en_response_body e = cm_brk m + 1"
    "cm_bodies m' = (cm_bodies m)(cm_brk m + 1 \<mapsto> t)" "cm_brk m' = cm_brk m + 2"
    using assms by (auto simp: insert_entry_def Let_def)
  show ?thesis unfolding keeps_def
  proof
    assume s: "mem_sep m"
    from m' obtain e where e: "cm_entries m' = (cm_entries m)(cm_brk m \<mapsto> e)" "en_response_body e = cm_brk m + 1" by blast
    have old: "a < cm_brk m \<and> en_response_body f < cm_brk m" if "cm_entries m a = Some f" for a f
      using s that by (simp add: mem_sep_def)
    have sep: "a = b" if "cm_entries m a = Some f" "cm_entries m b = Some g" "en_response_body f = en_response_body g" for a b f g
      using s that unfolding mem_sep_def by metis
    have "mem_sep m'" unfolding mem_sep_def e(1) m'(3)
      by (auto split: if_splits simp: e(2) dest: sep old)
    moreover have "kept {} m m'" by (auto simp: kept_def e m'(2) dest: old)
    ultimately show "mem_sep m' \<and> kept {} m m'" ..
  qed
qed

lemma kept_update:
  assumes "mem_sep m" "cm_entries m a = Some e" "update_entry m s a e t pt ct c now ttl = Some (m', s')"
  shows "kept {a} m m'"
proof -
  have m': "\<exists>e'. cm_entries m' = (cm_entries m)(a \<mapsto> e')"
    "cm_bodies m' = (cm_bodies m)(en_response_body e := None, cm_brk m \<mapsto> t)"
    using assms(3) by (auto simp: update_entry_def Let_def split: if_splits)
  have "en_response_body f \<noteq> en_response_body e \<and> en_response_body f < cm_brk m" if "cm_entries m b = Some f" "b \<noteq> a" for b f
    using assms(1,2) that unfolding mem_sep_def by metis
  with m' show ?thesis by (fastforce simp: kept_def)
qed

lemma chain_find_key: "chain_find m k as = Some (Some a) \<Longrightarrow> \<exists>e. cm_entries m a = Some e \<and> en_cache_key e = k"
  by (induction m k as rule: chain_find.induct) (auto split: option.splits if_splits)

lemma kept_set:
  assumes "mem_sep (rc_mem rc)" "response_cache_set rc eo bo key model body pt ct c ttl now = Some (rc', r)"
  shows "kept {a. \<exists>e. cm_entries (rc_mem rc) a = Some e \<and> key = Some (en_cache_key e)} (rc_mem rc) (rc_mem rc')"
proof -
  let ?X = "{a. \<exists>e. cm_entries (rc_mem rc) a = Some e \<and> key = Some (en_cache_key e)}"
  have all: "kept ?X m m'" if "kept Y m m'" "Y \<subseteq> ?X" for m m' Y using that by (auto simp: kept_def)
  have triv: "kept ?X m m" for m by (simp add: kept_def)
  have k: "kept ?X (rc_mem rc) m'" if "keeps (rc_mem rc) m'" for m' using that assms(1) all [of "{}"] by (simp add: keeps_def)
  show ?thesis
  proof (cases "\<exists>k t. key = Some k \<and> body = Some t \<and> rc_enabled rc \<and> t \<noteq> [] \<and> \<not> 1048576 < length t")
    case False
    then have "rc' = rc" using assms(2) by (auto simp: response_cache_set_def split: option.splits if_splits)
    then show ?thesis by (simp add: triv)
  next
    case True
    then obtain k t where kt: "key = Some k" "body = Some t" "rc_enabled rc" "t \<noteq> []" "\<not> 1048576 < length t" by blast
    let ?s = "rc_shards rc ! shard_index k" and ?m = "rc_mem rc"
    from assms(2) kt obtain f where f: "chain_find ?m k (sh_buckets ?s ! bucket_index k) = Some f"
      by (auto simp: response_cache_set_def Let_def split: option.splits)
    show ?thesis
    proof (cases f)
      case None
      with assms(2) kt f obtain m1 s1 where ev: "evict_loop (length t) ?m ?s = Some (m1, s1)"
        by (auto simp: response_cache_set_def Let_def split: option.splits)
      have k1: "keeps ?m m1" using keeps_evict_loop [OF ev] by simp
      show ?thesis
      proof (cases "eo \<and> bo")
        case False
        with assms(2) kt f None ev have "rc_mem rc' = m1" by (auto simp: response_cache_set_def Let_def put_shard_def)
        with k [OF k1] show ?thesis by simp
      next
        case True
        obtain m2 s2 where ins: "insert_entry m1 s1 k model t pt ct c now (if ttl > 0 then ttl else rc_default_ttl_sec rc) = (m2, s2)"
          by fastforce
        with assms(2) kt f None ev True have "rc_mem rc' = m2" by (auto simp: response_cache_set_def Let_def put_shard_def)
        with k [OF keeps_trans [OF k1 keeps_insert [OF ins]]] show ?thesis by simp
      qed
    next
      case (Some a)
      from chain_find_key [OF f [unfolded Some]] obtain e where e: "cm_entries ?m a = Some e" "en_cache_key e = k" by blast
      then have a: "{a} \<subseteq> ?X" using kt(1) by auto
      show ?thesis
      proof (cases bo)
        case False
        with assms(2) kt f Some e have "rc' = rc" by (simp add: response_cache_set_def Let_def)
        then show ?thesis by (simp add: triv)
      next
        case True
        with assms(2) kt f Some e obtain m' s' where
          u: "update_entry ?m ?s a e t pt ct c now (if ttl > 0 then ttl else rc_default_ttl_sec rc) = Some (m', s')"
          "rc_mem rc' = m'"
          by (auto simp: response_cache_set_def Let_def put_shard_def)
        from all [OF kept_update [OF assms(1) e(1) u(1)] a] u(2) show ?thesis by simp
      qed
    qed
  qed
qed

text \<open>A release changes the count of its entry and frees at most that one.\<close>

lemma kept_release:
  assumes "mem_sep (rc_mem rc)" "response_cache_release_entry rc a = Some rc'"
    and "cm_entries (rc_mem rc) a = Some e" "en_ref_count e \<noteq> 1 \<or> X = {a}"
  shows "kept X (rc_mem rc) (rc_mem rc')"
proof -
  let ?m = "rc_mem rc" and ?e = "e\<lparr>en_ref_count := en_ref_count e - 1\<rparr>"
  let ?m1 = "?m\<lparr>cm_entries := (cm_entries ?m)(a \<mapsto> ?e)\<rparr>"
  have k1: "kept X ?m ?m1" using assms(3,4) by (auto simp: kept_def)
  have s1: "mem_sep ?m1" using assms(1,3) unfolding mem_sep_def by (auto split: if_splits)
  show ?thesis
  proof (cases "en_ref_count e \<le> 1 \<and> en_status_code e = -1")
    case False
    then have "rc_mem rc' = ?m1"
      using assms(2,3) by (auto simp: response_cache_release_entry_def release_entry_sub_def release_entry_check_def split: if_splits)
    with k1 show ?thesis by simp
  next
    case True
    then have m': "rc_mem rc' = free_entry ?m1 a ?e"
      using assms(2,3) by (auto simp: response_cache_release_entry_def release_entry_sub_def release_entry_check_def)
    have "kept {a} ?m1 (free_entry ?m1 a ?e)" using kept_free [OF s1, of a ?e] by simp
    moreover have "kept {a} ?m ?m1" using assms(3) by (auto simp: kept_def)
    ultimately have "kept {a} ?m (rc_mem rc')" unfolding m' by (rule kept_trans [rotated])
    moreover have "en_ref_count f \<le> 0" if "cm_entries ?m a = Some f" "X \<noteq> {a}" for f
      using that assms(3,4) True by auto
    ultimately show ?thesis unfolding kept_def by (metis leD singletonD)
  qed
qed

end
