(* ===== verification/Cache_Runs.thy ===== *)
theory Cache_Runs
  imports Cache_Keep
begin

text \<open>
  Runs of the response cache: every sequence of lookups, releases, insertions and purges from the new
  cache, with what readers hold and what was last stored for each key. A reader releases only what it
  holds, and keys have the 64 characters of a fingerprint at most.
\<close>

section \<open>Runs\<close>

datatype cache_op =
    CacheGet "string option" int
  | CacheRelease nat
  | CacheSet bool bool "string option" "string option" "string option" int int real int int
  | CachePurge "string option"

type_synonym cache_run = "response_cache \<times> held \<times> latest"

fun cache_legal :: "cache_run \<Rightarrow> cache_op \<Rightarrow> bool" where
  "cache_legal (rc, held, latest) (CacheRelease a) = (0 < held a)"
| "cache_legal w (CacheSet eo bo (Some k) model body pt ct c ttl now) = (length k < 65)"
| "cache_legal w _ = True"

fun cache_do :: "cache_run \<Rightarrow> cache_op \<Rightarrow> cache_run option" where
  "cache_do (rc, held, latest) (CacheGet key now) =
     (case response_cache_get rc key now of
        None \<Rightarrow> None
      | Some (rc', None) \<Rightarrow> Some (rc', held, latest)
      | Some (rc', Some a) \<Rightarrow> Some (rc', held(a := held a + 1), latest))"
| "cache_do (rc, held, latest) (CacheRelease a) =
     map_option (\<lambda>rc'. (rc', held(a := held a - 1), latest)) (response_cache_release_entry rc a)"
| "cache_do (rc, held, latest) (CacheSet eo bo key model body pt ct c ttl now) =
     (case response_cache_set rc eo bo key model body pt ct c ttl now of
        None \<Rightarrow> None
      | Some (rc', r) \<Rightarrow>
          Some (rc', held,
            if r = 0 then (case (key, body) of
                (Some k, Some t) \<Rightarrow> latest(k \<mapsto> (t, now + (if ttl > 0 then ttl else rc_default_ttl_sec rc)))
              | _ \<Rightarrow> latest) else latest))"
| "cache_do (rc, held, latest) (CachePurge model) =
     map_option (\<lambda>(rc', p, f). (rc', held, latest)) (response_cache_purge rc model)"

inductive cache_reach :: "nat \<Rightarrow> nat \<Rightarrow> int \<Rightarrow> cache_run \<Rightarrow> bool" for mb me ttl where
  new: "response_cache_new True mb me ttl = Some rc \<Longrightarrow> cache_reach mb me ttl (rc, \<lambda>a. 0, Map.empty)"
| step: "cache_reach mb me ttl w \<Longrightarrow> cache_legal w x \<Longrightarrow> cache_do w x = Some w' \<Longrightarrow> cache_reach mb me ttl w'"

fun run_inv :: "cache_run \<Rightarrow> bool" where
  "run_inv (rc, held, latest) = cache_inv rc held latest"

lemma cache_do_inv:
  assumes "run_inv w" "cache_legal w x"
  shows "\<exists>w'. cache_do w x = Some w' \<and> run_inv w'"
proof -
  obtain rc held latest where w: "w = (rc, held, latest)" by (cases w)
  have inv: "cache_inv rc held latest" using assms(1) w by simp
  show ?thesis
  proof (cases x)
    case (CacheGet key now)
    from get_inv [OF inv, of key now] obtain rc' r where "response_cache_get rc key now = Some (rc', r)"
      "case r of None \<Rightarrow> cache_inv rc' held latest | Some a \<Rightarrow> cache_inv rc' (held(a := held a + 1)) latest"
      by (auto split: option.splits simp del: fun_upd_apply)
    then show ?thesis by (cases r) (simp_all add: w CacheGet)
  next
    case (CacheRelease a)
    have "0 < held a" using assms(2) by (simp add: w CacheRelease)
    from release_inv [OF inv this] show ?thesis by (auto simp: w CacheRelease simp del: fun_upd_apply)
  next
    case (CacheSet eo bo key model body pt ct c ttl now)
    have "length k < 65" if "key = Some k" for k using assms(2) that by (simp add: w CacheSet)
    from set_inv [OF inv this, where ent_ok = eo and body_ok = bo and model = model and body = body and pt = pt and ct = ct
        and c = c and ttl_sec = ttl and now = now] obtain rc' r where
      r: "response_cache_set rc eo bo key model body pt ct c ttl now = Some (rc', r)"
      "if r = 0 then \<exists>k t. key = Some k \<and> body = Some t \<and>
         cache_inv rc' held (latest(k \<mapsto> (t, now + (if ttl > 0 then ttl else rc_default_ttl_sec rc))))
       else cache_inv rc' held latest" by blast
    show ?thesis
    proof (cases "r = 0")
      case True
      then show ?thesis using r by (auto simp: w CacheSet simp del: fun_upd_apply)
    next
      case False
      then show ?thesis using r by (simp add: w CacheSet)
    qed
  next
    case (CachePurge model)
    from purge_inv [OF inv, of model] show ?thesis by (auto simp: w CachePurge)
  qed
qed

lemma cache_reach_inv: "cache_reach mb me ttl w \<Longrightarrow> run_inv w"
proof (induction rule: cache_reach.induct)
  case (new rc)
  then show ?case using cache_new_inv by simp
next
  case (step w x w')
  then show ?case using cache_do_inv by fastforce
qed

lemma cache_reachD: "cache_reach mb me ttl (rc, held, latest) \<Longrightarrow> cache_inv rc held latest"
  using cache_reach_inv by fastforce

lemma cache_held_live:
  assumes "cache_inv rc held latest" "0 < held a"
  shows "\<exists>e t. cm_entries (rc_mem rc) a = Some e \<and> cm_bodies (rc_mem rc) (en_response_body e) = Some t"
proof -
  have mm: "mem_ok (rc_mem rc) (linked rc) held latest" using assms(1) by (simp add: cache_inv_def)
  obtain e where e: "cm_entries (rc_mem rc) a = Some e"
    using mm assms(2) by (cases "cm_entries (rc_mem rc) a") (auto simp: mem_ok_def)
  with mem_okD(2) [OF mm e] show ?thesis by auto
qed

section \<open>A first run\<close>

text \<open>The new cache, an entry stored in it, and a lookup of the entry.\<close>

definition fresh_cache :: response_cache where
  "fresh_cache = the (response_cache_new True 0 0 0)"

lemma fresh_cache: "response_cache_new True 0 0 0 = Some fresh_cache"
  by (simp add: fresh_cache_def response_cache_new_def)

lemma fresh_reach: "cache_reach 0 0 0 (fresh_cache, \<lambda>a. 0, Map.empty)"
  by (rule cache_reach.new) (rule fresh_cache)

lemma do_legal_reach:
  assumes "cache_reach mb me ttl w" "cache_legal w x"
  shows "\<exists>w'. cache_do w x = Some w' \<and> cache_reach mb me ttl w'"
  using cache_do_inv [OF cache_reach_inv [OF assms(1)] assms(2)] cache_reach.step [OF assms] by blast

lemma fresh_shard:
  assumes "i < CACHE_SHARDS_COUNT"
  shows "sh_lru (rc_shards fresh_cache ! i) = []" "b < CACHE_BUCKETS_PER_SHARD \<Longrightarrow> sh_buckets (rc_shards fresh_cache ! i) ! b = []"
    "length (rc_shards fresh_cache) = CACHE_SHARDS_COUNT" "rc_enabled fresh_cache"
    "rc_mem fresh_cache = \<lparr>cm_entries = Map.empty, cm_bodies = Map.empty, cm_brk = 0\<rparr>"
    "sh_count (rc_shards fresh_cache ! i) = 0" "0 < sh_max_count (rc_shards fresh_cache ! i)"
    "sh_bytes_used (rc_shards fresh_cache ! i) = 0" "sh_max_bytes (rc_shards fresh_cache ! i) = 8388608"
    "length (sh_buckets (rc_shards fresh_cache ! i)) = CACHE_BUCKETS_PER_SHARD"
  using assms by (simp_all add: fresh_cache_def response_cache_new_def Let_def CACHE_SHARDS_COUNT_def)


lemma stored_then_hit:
  fixes t :: string
  assumes "length k < 65" "k \<noteq> []" "t \<noteq> []" "length t \<le> 1024 * 1024"
  shows "\<exists>rc1 latest rc2 e. cache_reach 0 0 0 (rc1, \<lambda>a. 0, latest) \<and> response_cache_get rc1 (Some k) 1 = Some (rc2, Some 0) \<and>
    cache_reach 0 0 0 (rc2, (\<lambda>a. 0)(0 := 1), latest) \<and> 0 \<in> linked rc2"
proof -
  let ?i = "shard_index k" and ?b = "bucket_index k"
  let ?s = "rc_shards fresh_cache ! ?i" and ?m = "rc_mem fresh_cache"
  note f = fresh_shard [OF shard_index_less [of k]]
  obtain m1 s1 where ins: "insert_entry ?m ?s k None t 0 0 0 0 3600 = (m1, s1)" by fastforce
  let ?rc1 = "put_shard fresh_cache ?i m1 s1"
  have big: "\<not> 1048576 < length t" using assms(4) by simp
  have ev: "evict_loop (length t) ?m ?s = Some (?m, ?s)" 
    using f(7) by (subst evict_loop.simps) (simp add: f(5,6))
  have ttl: "rc_default_ttl_sec fresh_cache = 3600" by (simp add: fresh_cache_def response_cache_new_def)
  have 1: "response_cache_set fresh_cache True True (Some k) None (Some t) 0 0 0 0 0 = Some (?rc1, 0)"
    using assms(3) ev ins by (simp add: response_cache_set_def Let_def f(2,4) big ttl)
  let ?l = "Map.empty(k \<mapsto> (t, 3600))"
  have "cache_do (fresh_cache, \<lambda>a. 0, Map.empty) (CacheSet True True (Some k) None (Some t) 0 0 0 0 0) = Some (?rc1, \<lambda>a. 0, ?l)"
    by (simp add: 1 ttl)
  from cache_reach.step [OF fresh_reach _ this] assms(1) have r1: "cache_reach 0 0 0 (?rc1, \<lambda>a. 0, ?l)" by simp
  have m1: "\<exists>e. cm_entries m1 0 = Some e \<and> en_cache_key e = k \<and> en_expires_at e = 3600" "sh_buckets s1 ! ?b = [0]" "sh_lru s1 = [0]"
    using ins assms(1) f by (auto simp: insert_entry_def Let_def lru_push_head_def)
  then obtain e where e: "cm_entries m1 0 = Some e" "en_cache_key e = k" "en_expires_at e = 3600" by blast
  have sh: "rc_shards ?rc1 ! ?i = s1" "rc_mem ?rc1 = m1" "rc_enabled ?rc1" using f by (simp_all add: put_shard_def)
  have "\<exists>rc2. response_cache_get ?rc1 (Some k) 1 = Some (rc2, Some 0) \<and> 0 \<in> linked rc2"
    using assms(2) e m1(2,3) f(3)
    by (simp add: response_cache_get_def Let_def sh linked_nth)
       (auto simp: put_shard_def lru_push_head_def intro!: exI [of _ ?i])
  then obtain rc2 where 2: "response_cache_get ?rc1 (Some k) 1 = Some (rc2, Some 0)" "0 \<in> linked rc2" by blast
  have "cache_do (?rc1, \<lambda>a. 0, ?l) (CacheGet (Some k) 1) = Some (rc2, (\<lambda>a. 0)(0 := 0 + 1), ?l)" by (simp add: 2(1))
  from cache_reach.step [OF r1 _ this] have "cache_reach 0 0 0 (rc2, (\<lambda>a. 0)(0 := 1), ?l)" by simp
  with r1 2 show ?thesis by blast
qed

section \<open>What a hit gives\<close>

lemma get_hit:
  assumes "cache_inv rc held latest" "response_cache_get rc (Some k) now = Some (rc', Some a)"
  shows "k \<noteq> [] \<and> rc_enabled rc' \<and> a \<in> set (sh_lru (rc_shards rc' ! shard_index k)) \<and> key_at (rc_mem rc') a = k"
proof -
  let ?i = "shard_index k" and ?m = "rc_mem rc"
  let ?s = "rc_shards rc ! ?i"
  note w = cache_world [OF assms(1) shard_index_less [of k]]
  have sh: "shard_ok ?m ?i ?s" using w by (simp add: world_def)
  have len: "?i < length (rc_shards rc)" using assms(1) by (simp add: cache_inv_def)
  have k: "k \<noteq> []" "rc_enabled rc" using assms(2) by (auto simp: response_cache_get_def split: if_splits)
  consider (miss) "chain_find ?m k (sh_buckets ?s ! bucket_index k) = Some None"
    | (found) x where "chain_find ?m k (sh_buckets ?s ! bucket_index k) = Some (Some x)" "x \<in> set (sh_lru ?s)" "key_at ?m x = k"
    using shard_find [OF sh, of k] by blast
  then show ?thesis
  proof cases
    case miss
    then show ?thesis using assms(2) k by (simp add: response_cache_get_def Let_def)
  next
    case found
    from shard_entry [OF sh found(2)] obtain e where e: "cm_entries ?m x = Some e" by blast
    show ?thesis
      using assms(2) k found e len
      by (auto simp: response_cache_get_def Let_def put_shard_def lru_push_head_def key_at_def split: if_splits)
  qed
qed

text \<open>The key an operation stores a body under.\<close>

fun stores_under :: "cache_op \<Rightarrow> string option" where
  "stores_under (CacheSet eo bo key model body pt ct c ttl now) = key"
| "stores_under _ = None"

lemma cache_do_keeps:
  assumes "cache_inv rc held latest" "cache_do (rc, held, latest) x = Some (rc', held', latest')"
    and "cm_entries (rc_mem rc) a = Some e" "0 < held a" "0 < held' a" "stores_under x \<noteq> Some (en_cache_key e)"
  shows "\<exists>e'. cm_entries (rc_mem rc') a = Some e' \<and> en_cache_key e' = en_cache_key e \<and>
    en_response_body e' = en_response_body e \<and>
    cm_bodies (rc_mem rc') (en_response_body e) = cm_bodies (rc_mem rc) (en_response_body e)"
proof -
  have mm: "mem_ok (rc_mem rc) (linked rc) held latest" using assms(1) by (simp add: cache_inv_def)
  note sep = mem_ok_sep [OF mm]
  have cnt: "en_ref_count e = int (held a)" using mem_okD(1) [OF mm assms(3)] by (simp add: entry_inv_def)
  have "\<exists>X. a \<notin> X \<and> kept X (rc_mem rc) (rc_mem rc')"
  proof (cases x)
    case (CacheGet key now)
    with assms(2) obtain r where "response_cache_get rc key now = Some (rc', r)" by (auto split: option.splits)
    from keeps_get [OF this] sep show ?thesis by (auto simp: keeps_def)
  next
    case (CacheRelease b)
    with assms(2) have r: "response_cache_release_entry rc b = Some rc'" and h: "held' = held(b := held b - 1)" by auto
    from r obtain f where f: "cm_entries (rc_mem rc) b = Some f"
      by (auto simp: response_cache_release_entry_def release_entry_sub_def split: option.splits)
    show ?thesis
    proof (cases "b = a")
      case True
      with f assms(3,5) h cnt have "en_ref_count f \<noteq> 1" by auto
      with kept_release [OF sep r f, of "{}"] show ?thesis by auto
    next
      case False
      with kept_release [OF sep r f, of "{b}"] show ?thesis by auto
    qed
  next
    case (CacheSet eo bo key model body pt ct c ttl now)
    with assms(2) obtain r where "response_cache_set rc eo bo key model body pt ct c ttl now = Some (rc', r)"
      by (auto split: option.splits)
    from kept_set [OF sep this] show ?thesis
      by (intro exI conjI) (use assms(3,6) CacheSet in auto)
  next
    case (CachePurge model)
    with assms(2) obtain p f where "response_cache_purge rc model = Some (rc', p, f)" by auto
    from keeps_purge [OF this] sep show ?thesis by (auto simp: keeps_def)
  qed
  then show ?thesis using assms(3,4) cnt by (fastforce simp: kept_def)
qed

section \<open>Properties\<close>

text \<open>C15. Used one operation after the other, the cache is memory safe and total: from a new cache of any
  size every lookup, insertion, purge, and release of a held entry returns, that is, it follows no
  pointer to freed memory and its loops end. An entry that a reader holds stays allocated, with some
  allocated body; and the very body it had stays allocated with its bytes, whatever is evicted, expired,
  purged or released meanwhile, as long as nothing is stored under the entry's key. (An insertion under
  that key replaces the body and frees the old one under the reader, see
  \<open>cache_update_frees_held_body\<close>.)\<close>

theorem cache_memory_safe:
  assumes "cache_reach mb me ttl (rc, held, latest)"
  shows "(\<forall>x. cache_legal (rc, held, latest) x \<longrightarrow> cache_do (rc, held, latest) x \<noteq> None) \<and>
    (\<forall>a. 0 < held a \<longrightarrow> (\<exists>e t. cm_entries (rc_mem rc) a = Some e \<and> read_body (rc_mem rc) (en_response_body e) = Some t)) \<and>
    (\<forall>x rc' held' latest' a e. cache_do (rc, held, latest) x = Some (rc', held', latest') \<longrightarrow>
      cm_entries (rc_mem rc) a = Some e \<longrightarrow> 0 < held a \<longrightarrow> 0 < held' a \<longrightarrow> stores_under x \<noteq> Some (en_cache_key e) \<longrightarrow>
      (\<exists>e'. cm_entries (rc_mem rc') a = Some e' \<and> en_cache_key e' = en_cache_key e \<and>
         en_response_body e' = en_response_body e \<and>
         read_body (rc_mem rc') (en_response_body e) = read_body (rc_mem rc) (en_response_body e)))"
proof -
  have "cache_do (rc, held, latest) x \<noteq> None" if "cache_legal (rc, held, latest) x" for x
    using cache_do_inv [OF cache_reach_inv [OF assms] that] by auto
  moreover have "\<exists>e t. cm_entries (rc_mem rc) a = Some e \<and> read_body (rc_mem rc) (en_response_body e) = Some t" if "0 < held a" for a
    using cache_held_live [OF cache_reachD [OF assms] that] by (simp add: read_body_def)
  ultimately show ?thesis using cache_do_keeps [OF cache_reachD [OF assms]] unfolding read_body_def by blast
qed

text \<open>A purge while a reader holds the entry: its body is still there.\<close>

lemma cache_memory_safe_witness:
  "\<exists>rc held latest w e t. cache_reach 0 0 0 (rc, held, latest) \<and> cm_entries (rc_mem rc) 0 = Some e \<and>
     read_body (rc_mem rc) (en_response_body e) = Some t \<and> cache_do (rc, held, latest) (CacheRelease 0) \<noteq> None \<and>
     cache_do (rc, held, latest) (CachePurge None) = Some w \<and> read_body (rc_mem (fst w)) (en_response_body e) = Some t"
proof -
  obtain rc latest where r: "cache_reach 0 0 0 (rc, (\<lambda>a. 0)(0 := 1), latest)"
    using stored_then_hit [of "''ab''" "''x''"] by auto
  let ?h = "(\<lambda>a. 0)(0 := 1) :: held"
  note safe = cache_memory_safe [OF r]
  have l: "cache_legal (rc, ?h, latest) (CacheRelease 0)" "cache_legal (rc, ?h, latest) (CachePurge None)" "0 < ?h 0" by simp_all
  from safe l(3) obtain e t where e: "cm_entries (rc_mem rc) 0 = Some e" "read_body (rc_mem rc) (en_response_body e) = Some t" by blast
  from safe l(2) obtain w where w: "cache_do (rc, ?h, latest) (CachePurge None) = Some w" by blast
  then obtain rc' where rc': "w = (rc', ?h, latest)" by auto
  have "stores_under (CachePurge None) \<noteq> Some (en_cache_key e)" by simp
  with safe w rc' e l(3) have "read_body (rc_mem rc') (en_response_body e) = Some t" by metis
  moreover have "cache_do (rc, ?h, latest) (CacheRelease 0) \<noteq> None" using safe l(1) by blast
  ultimately show ?thesis using r e w rc' by (intro exI conjI) (assumption | simp)+
qed

text \<open>C16. A hit returns the response stored last under its key, not yet expired at the time of the
  lookup: after any run, the body read through the entry that a lookup returns is the body of the last
  successful insertion under that key, with the expiry that insertion set.\<close>

theorem cache_hit_is_latest:
  assumes "cache_reach mb me ttl (rc, held, latest)" "response_cache_get rc (Some k) now = Some (rc', Some a)"
  shows "\<exists>e t. cm_entries (rc_mem rc') a = Some e \<and> read_body (rc_mem rc') (en_response_body e) = Some t \<and>
    latest k = Some (t, en_expires_at e) \<and> now < en_expires_at e"
  using get_inv [OF cache_reachD [OF assms(1)], of "Some k" now] assms(2) by (auto simp: read_body_def)

lemma cache_hit_is_latest_witness:
  "\<exists>rc latest rc' e t. cache_reach 0 0 0 (rc, \<lambda>a. 0, latest) \<and> response_cache_get rc (Some ''ab'') 1 = Some (rc', Some 0) \<and>
     cm_entries (rc_mem rc') 0 = Some e \<and> latest ''ab'' = Some (t, en_expires_at e)"
proof -
  obtain rc latest rc' where r: "cache_reach 0 0 0 (rc, \<lambda>a. 0, latest)" "response_cache_get rc (Some ''ab'') 1 = Some (rc', Some 0)"
    using stored_then_hit [of "''ab''" "''x''"] by auto
  with cache_hit_is_latest [OF r] show ?thesis by blast
qed

text \<open>The statistics are exact and nothing leaks: after any run the number of entries reported is the
  number of entries linked in the shards, the bytes reported are the sum of the lengths of their bodies,
  no shard is over its number of entries, and the entries in memory are those linked and those that a
  reader holds.\<close>

theorem cache_counts_exact:
  assumes "cache_reach mb me ttl (rc, held, latest)"
  shows "fst (response_cache_totals rc) = card (linked rc) \<and>
    fst (snd (response_cache_totals rc)) = (\<Sum>a \<in> linked rc. len_at (rc_mem rc) a) \<and>
    (\<forall>s \<in> set (rc_shards rc). sh_count s \<le> sh_max_count s) \<and>
    dom (cm_entries (rc_mem rc)) = linked rc \<union> {a. 0 < held a}"
proof -
  let ?L = "\<lambda>i. set (sh_lru (rc_shards rc ! i))" and ?m = "rc_mem rc"
  have inv: "cache_inv rc held latest" by (rule cache_reachD [OF assms])
  have n: "length (rc_shards rc) = CACHE_SHARDS_COUNT" using inv by (simp add: cache_inv_def)
  have sh: "shard_ok ?m i (rc_shards rc ! i)" if "i < CACHE_SHARDS_COUNT" for i using inv that by (simp add: cache_inv_def)
  have U: "linked rc = (\<Union>i < CACHE_SHARDS_COUNT. ?L i)" using n by (auto simp: linked_nth)
  have dj: "?L i \<inter> ?L j = {}" if "i < CACHE_SHARDS_COUNT" "j < CACHE_SHARDS_COUNT" "i \<noteq> j" for i j
    using shard_entry [OF sh [OF that(1)]] shard_entry [OF sh [OF that(2)]] that(3) by (metis disjoint_iff option.sel)
  have cnt: "sh_count (rc_shards rc ! i) = card (?L i)" "sh_bytes_used (rc_shards rc ! i) = (\<Sum>a \<in> ?L i. len_at ?m a)"
    if "i < CACHE_SHARDS_COUNT" for i
    using sh [OF that] by (simp_all add: shard_ok_def distinct_card sum_list_distinct_conv_sum_set)
  have "sum_list (map sh_count (rc_shards rc)) = (\<Sum>i < CACHE_SHARDS_COUNT. card (?L i))"
    using cnt(1) n by (simp add: sum_list_sum_nth atLeast0LessThan)
  also have "\<dots> = card (linked rc)" unfolding U by (rule card_UN_disjoint [symmetric]) (use dj in auto)
  finally have 1: "sum_list (map sh_count (rc_shards rc)) = card (linked rc)" .
  have "sum_list (map sh_bytes_used (rc_shards rc)) = (\<Sum>i < CACHE_SHARDS_COUNT. \<Sum>a \<in> ?L i. len_at ?m a)"
    using cnt(2) n by (simp add: sum_list_sum_nth atLeast0LessThan)
  also have "\<dots> = (\<Sum>a \<in> linked rc. len_at ?m a)" unfolding U by (rule sum.UNION_disjoint [symmetric]) (use dj in auto)
  finally have 2: "sum_list (map sh_bytes_used (rc_shards rc)) = (\<Sum>a \<in> linked rc. len_at ?m a)" .
  have 3: "\<forall>s \<in> set (rc_shards rc). sh_count s \<le> sh_max_count s"
  proof
    fix s
    assume "s \<in> set (rc_shards rc)"
    then obtain i where "i < CACHE_SHARDS_COUNT" "s = rc_shards rc ! i" using n by (metis in_set_conv_nth)
    with sh [of i] show "sh_count s \<le> sh_max_count s" unfolding shard_ok_def by metis
  qed
  have mm: "mem_ok ?m (linked rc) held latest" using inv by (simp add: cache_inv_def)
  have "a \<in> linked rc \<or> 0 < held a" if "cm_entries ?m a = Some e" for a e
    using mem_okD(1) [OF mm that] by (auto simp: entry_inv_def)
  moreover have "a \<in> dom (cm_entries ?m)" if "0 < held a" for a using mm that by (fastforce simp: mem_ok_def)
  moreover have "a \<in> dom (cm_entries ?m)" if "a \<in> linked rc" for a using mm that by (auto simp: mem_ok_def latest_inv_def)
  ultimately have "dom (cm_entries ?m) = linked rc \<union> {a. 0 < held a}" by blast
  with 1 2 3 show ?thesis by (simp add: response_cache_totals_def Let_def)
qed

lemma cache_counts_exact_witness:
  "\<exists>rc held latest. cache_reach 0 0 0 (rc, held, latest) \<and> 0 \<in> linked rc \<and> fst (response_cache_totals rc) = card (linked rc)"
proof -
  obtain rc latest where r: "cache_reach 0 0 0 (rc, (\<lambda>a. 0)(0 := 1), latest)" "0 \<in> linked rc"
    using stored_then_hit [of "''ab''" "''x''"] by auto
  with cache_counts_exact [OF r(1)] show ?thesis by blast
qed

text \<open>C40. An insertion frees the body that a reader holds: after a lookup has returned an entry, an
  insertion under the same key by another worker succeeds, and the body whose address the reader has
  loaded is freed although it has not released the entry. The reference count protects the entry, not
  its body.\<close>

theorem cache_update_frees_held_body:
  assumes "cache_reach mb me ttl (rc, held, latest)" "response_cache_get rc (Some k) now = Some (rc1, Some a)"
    and "t \<noteq> []" "length t \<le> 1024 * 1024"
  shows "\<exists>e rc2. cm_entries (rc_mem rc1) a = Some e \<and> read_body (rc_mem rc1) (en_response_body e) \<noteq> None \<and>
    response_cache_set rc1 True True (Some k) model (Some t) pt ct c ttl_sec now' = Some (rc2, 0) \<and>
    read_body (rc_mem rc2) (en_response_body e) = None"
proof -
  have inv0: "cache_inv rc held latest" by (rule cache_reachD [OF assms(1)])
  have inv: "cache_inv rc1 (held(a := held a + 1)) latest" using get_inv [OF inv0, of "Some k" now] assms(2) by auto
  note h = get_hit [OF inv0 assms(2)]
  let ?i = "shard_index k" and ?m = "rc_mem rc1"
  let ?s = "rc_shards rc1 ! ?i"
  note w = cache_world [OF inv shard_index_less [of k]]
  have sh: "shard_ok ?m ?i ?s" and mm: "mem_ok ?m (rest rc1 ?i \<union> set (sh_lru ?s)) (held(a := held a + 1)) latest"
    using w by (simp_all add: world_def)
  obtain e where e: "cm_entries ?m a = Some e" using h by (metis shard_entry [OF sh])
  note ei = mem_okD [OF mm e]
  have "inj_on (key_at ?m) (set (sh_lru ?s))" using sh by (simp add: shard_ok_def)
  then have "chain_find ?m k (sh_buckets ?s ! bucket_index k) = Some (Some a)"
    using shard_find [OF sh, of k] h by (metis inj_onD)
  moreover from update_world [OF w _ e, of t pt ct c now' "if ttl_sec > 0 then ttl_sec else rc_default_ttl_sec rc1"] h
  obtain m' s' where u: "update_entry ?m ?s a e t pt ct c now' (if ttl_sec > 0 then ttl_sec else rc_default_ttl_sec rc1) = Some (m', s')"
    by blast
  moreover have "cm_bodies m' (en_response_body e) = None"
    using u ei(1) by (auto simp: update_entry_def Let_def entry_inv_def split: if_splits)
  moreover have "\<not> 1048576 < length t" using assms(4) by simp
  ultimately have "response_cache_set rc1 True True (Some k) model (Some t) pt ct c ttl_sec now' = Some (put_shard rc1 ?i m' s', 0)"
      "read_body (rc_mem (put_shard rc1 ?i m' s')) (en_response_body e) = None"
    using h e assms(3) by (simp_all add: response_cache_set_def Let_def read_body_def put_shard_def)
  then show ?thesis using e ei(2) by (auto simp: read_body_def)
qed

lemma cache_update_frees_held_body_witness:
  "\<exists>rc1 rc2 e. cm_entries (rc_mem rc1) 0 = Some e \<and>
     response_cache_set rc1 True True (Some ''ab'') None (Some ''y'') 0 0 0 0 2 = Some (rc2, 0) \<and>
     read_body (rc_mem rc2) (en_response_body e) = None"
proof -
  obtain rc latest rc1 where r: "cache_reach 0 0 0 (rc, \<lambda>a. 0, latest)" "response_cache_get rc (Some ''ab'') 1 = Some (rc1, Some 0)"
    using stored_then_hit [of "''ab''" "''x''"] by auto
  from cache_update_frees_held_body [OF r, of "''y''" None 0 0 0 0 2] show ?thesis by auto
qed

text \<open>The two steps of a release race with a purge: the release subtracts its reference and only then
  looks at the status of the entry. When the cache is purged in between, it finds the count 0 and frees
  the entry, and the release reads freed memory; without the purge the release ends as it should.\<close>

theorem cache_release_race:
  assumes "cache_reach mb me ttl (rc, held, latest)" "held a = 1" "a \<in> linked rc"
  shows "\<exists>m1 rc2 n b. release_entry_sub (rc_mem rc) a = Some (m1, 1) \<and> release_entry_check m1 a 1 \<noteq> None \<and>
    response_cache_purge (rc\<lparr>rc_mem := m1\<rparr>) None = Some (rc2, n, b) \<and> release_entry_check (rc_mem rc2) a 1 = None"
proof -
  have inv: "cache_inv rc held latest" by (rule cache_reachD [OF assms(1)])
  let ?m = "rc_mem rc"
  have mm: "mem_ok ?m (linked rc) held latest" using inv by (simp add: cache_inv_def)
  obtain e where e: "cm_entries ?m a = Some e" using mm assms(3) by (auto simp: mem_ok_def latest_inv_def)
  note ei = mem_okD(1) [OF mm e]
  have "en_status_code e \<noteq> -1"
  proof -
    from assms(3) inv obtain i where "a \<in> set (sh_lru (rc_shards rc ! i))" "shard_ok ?m i (rc_shards rc ! i)"
      by (auto simp: linked_nth cache_inv_def)
    then show ?thesis using e by (metis option.sel shard_entry)
  qed
  let ?m1 = "?m\<lparr>cm_entries := (cm_entries ?m)(a \<mapsto> e\<lparr>en_ref_count := en_ref_count e - 1\<rparr>)\<rparr>"
  have sub: "release_entry_sub ?m a = Some (?m1, 1)" using e ei assms(2) by (simp add: release_entry_sub_def entry_inv_def)
  have chk: "release_entry_check ?m1 a 1 \<noteq> None" by (simp add: release_entry_check_def)
  have "0 < held a" using assms(2) by simp
  from release_inv [OF inv this] obtain rc' where "response_cache_release_entry rc a = Some rc'"
    "cache_inv rc' (held(a := held a - 1)) latest" by blast
  moreover have "response_cache_release_entry rc a = Some (rc\<lparr>rc_mem := ?m1\<rparr>)"
    using sub \<open>en_status_code e \<noteq> -1\<close> by (simp add: response_cache_release_entry_def release_entry_check_def)
  ultimately have inv1: "cache_inv (rc\<lparr>rc_mem := ?m1\<rparr>) (held(a := 0)) latest" using assms(2) by simp
  from purge_inv [OF inv1, of None] obtain rc2 n b where p: "response_cache_purge (rc\<lparr>rc_mem := ?m1\<rparr>) None = Some (rc2, n, b)"
    "cache_inv rc2 (held(a := 0)) latest" "linked rc2 = {}"
    by (auto simp: matching_def purge_matches_def cstr_or_empty_def)
  have "cm_entries (rc_mem rc2) a = None"
  proof (cases "cm_entries (rc_mem rc2) a")
    case (Some f)
    have "mem_ok (rc_mem rc2) {} (held(a := 0)) latest" using p(2,3) by (simp add: cache_inv_def)
    from mem_okD(1) [OF this Some] show ?thesis by (simp add: entry_inv_def)
  qed
  then have "release_entry_check (rc_mem rc2) a 1 = None" by (simp add: release_entry_check_def)
  with sub chk p(1) show ?thesis by blast
qed

lemma cache_release_race_witness:
  "\<exists>rc m1 rc2 n b. release_entry_sub (rc_mem rc) 0 = Some (m1, 1) \<and>
     response_cache_purge (rc\<lparr>rc_mem := m1\<rparr>) None = Some (rc2, n, b) \<and> release_entry_check (rc_mem rc2) 0 1 = None"
proof -
  obtain rc latest where r: "cache_reach 0 0 0 (rc, (\<lambda>a. 0)(0 := 1), latest)" "0 \<in> linked rc"
    using stored_then_hit [of "''ab''" "''x''"] by auto
  have "((\<lambda>a. 0)(0 := 1)) 0 = (1::nat)" by simp
  from cache_release_race [OF r(1) this r(2)] show ?thesis by blast
qed

end
