(* ===== verification/Usage_Meter.thy ===== *)
theory Usage_Meter
  imports Rate_Limit
begin

text \<open>
  The usage meter of \<^verbatim>\<open>src/store/usage_meter.c\<close>: lifetime counters, a table of daily usage per key
  and model, a latency histogram per provider, and a ring of rows for the audit of single requests,
  which a worker writes to the store in batches. HdrHistogram, the registry of providers and the
  operations of the store are parameters. The indices of the ring are C ints: a result \<open>None\<close> of a
  recording is their overflow. The token counters (\<open>long\<close>) are integers.
\<close>

section \<open>State\<close>

definition UM_ACC_CAP :: nat where "UM_ACC_CAP = 4096"
definition UM_MAX_PROVS :: nat where "UM_MAX_PROVS = 16"
definition UM_REQ_CAP :: nat where "UM_REQ_CAP = 4096"
definition UM_REQ_BATCH :: nat where "UM_REQ_BATCH = 512"

record um_acc =
  ua_in_use :: bool
  ua_key_id :: int
  ua_model :: string
  ua_day :: int
  ua_requests :: int
  ua_prompt :: int
  ua_completion :: int
  ua_errors :: int
  ua_cached_prompt :: int

record usage_row =
  ur_key_id :: int
  ur_model_name :: string
  ur_day :: int
  ur_requests :: int
  ur_prompt_tokens :: int
  ur_completion_tokens :: int
  ur_errors :: int
  ur_cached_prompt_tokens :: int

record usage_request_row =
  uq_key_id :: int
  uq_model_name :: string
  uq_provider :: string
  uq_http_status :: int
  uq_prompt_tokens :: int
  uq_completion_tokens :: int
  uq_cached_prompt_tokens :: int
  uq_reasoning_tokens :: int
  uq_latency_ns :: "64 word"
  uq_ts :: int
  uq_guardrail_action :: string

record 'h um_prov =
  up_name :: string
  up_h :: "'h option"
  up_in_use :: bool

record 'h usage_meter =
  um_ps :: bool
  um_rl :: "ratelimit option"
  um_last_rollover_day :: int
  um_accs :: "um_acc list"
  um_provs :: "'h um_prov list"
  um_reqs :: int
  um_errs :: int
  um_toks :: int
  um_cached_toks :: int
  um_reasoning_toks :: int
  um_req_ring :: "usage_request_row list option"
  um_req_head :: int
  um_req_tail :: int
  um_req_dropped :: int

text \<open>HdrHistogram: what \<open>hdr_init\<close> gives, recording, the count, percentiles, the mean, and the
  recorded values with their cumulative counts in order.\<close>

record 'h hdr_api =
  hd_init :: "'h option"
  hd_record :: "'h \<Rightarrow> int \<Rightarrow> 'h"
  hd_total_count :: "'h \<Rightarrow> int"
  hd_value_at_percentile :: "'h \<Rightarrow> real \<Rightarrow> int"
  hd_mean :: "'h \<Rightarrow> real"
  hd_recorded :: "'h \<Rightarrow> (int \<times> int) list"

text \<open>The operations of the store, which may be missing: the result code of a call, and the rows that the database holds afterwards
  because of it.\<close>

record pg_flush_ops =
  po_flush_usage :: "(usage_row list \<Rightarrow> int \<times> usage_row list) option"
  po_flush_usage_requests :: "(usage_request_row list \<Rightarrow> int \<times> usage_request_row list) option"

section \<open>Writing to the database\<close>

text \<open>\<^verbatim>\<open>pq_flush_usage\<close> and \<^verbatim>\<open>pq_flush_requests\<close> of \<^verbatim>\<open>src/store/pg_store.c\<close>. What the database does in one write: whether the
  connection is up, whether \<^verbatim>\<open>BEGIN\<close> succeeds, the inserts by their number, and \<^verbatim>\<open>COMMIT\<close>. The results of \<^verbatim>\<open>BEGIN\<close> and
  \<^verbatim>\<open>COMMIT\<close> are not looked at. In a transaction the rows count when it is committed; without one every insert counts at
  once. The text of an insert of 64 rows always fits its buffer.\<close>

record pg_txn =
  pt_connected :: bool
  pt_begun :: bool
  pt_insert :: "nat \<Rightarrow> bool"
  pt_committed :: bool

definition FLUSH_USAGE_CHUNK :: nat where "FLUSH_USAGE_CHUNK = 64"

text \<open>The rows of the inserts until one fails, and whether all succeeded.\<close>

function pq_insert_chunks :: "(nat \<Rightarrow> bool) \<Rightarrow> nat \<Rightarrow> 'r list \<Rightarrow> 'r list \<times> bool" where
  "pq_insert_chunks ok i rows =
     (if rows = [] then ([], True)
      else if \<not> ok i then ([], False)
      else (case pq_insert_chunks ok (Suc i) (drop FLUSH_USAGE_CHUNK rows) of
              (rest, all_ok) \<Rightarrow> (take FLUSH_USAGE_CHUNK rows @ rest, all_ok)))"
  by pat_completeness auto
termination
  by (relation "measure (\<lambda>(ok, i, rows). length rows)") (auto simp: FLUSH_USAGE_CHUNK_def)

declare pq_insert_chunks.simps [simp del]

definition pq_flush :: "pg_txn \<Rightarrow> 'r list \<Rightarrow> int \<times> 'r list" where
  "pq_flush tx rows =
     (if rows = [] then (0, [])
      else if \<not> pt_connected tx then (-1, [])
      else (case pq_insert_chunks (pt_insert tx) 0 rows of
              (inserted, all_ok) \<Rightarrow>
                (if all_ok then 0 else -1,
                 if pt_begun tx then (if all_ok \<and> pt_committed tx then inserted else []) else inserted)))"

definition pq_flush_usage :: "pg_txn \<Rightarrow> usage_row list \<Rightarrow> int \<times> usage_row list" where
  "pq_flush_usage tx rows = pq_flush tx rows"

definition pq_flush_requests :: "pg_txn \<Rightarrow> usage_request_row list \<Rightarrow> int \<times> usage_request_row list" where
  "pq_flush_requests tx rows = pq_flush tx rows"

lemma pq_insert_all: "pq_insert_chunks ok i rows = (inserted, True) \<Longrightarrow> inserted = rows"
proof (induction ok i rows arbitrary: inserted rule: pq_insert_chunks.induct)
  case (1 ok i rows)
  then show ?case by (subst (asm) (2) pq_insert_chunks.simps) (auto split: if_splits prod.splits)
qed

text \<open>A write whose \<^verbatim>\<open>BEGIN\<close> and \<^verbatim>\<open>COMMIT\<close> succeed takes all rows or none.\<close>

lemma pq_flush_atomic:
  "pq_flush tx rows = (rc, stored) \<Longrightarrow> pt_begun tx \<Longrightarrow> pt_committed tx \<Longrightarrow> stored = (if rc = 0 then rows else [])"
  by (auto simp: pq_flush_def dest: pq_insert_all split: if_splits prod.splits)

text \<open>A write whose \<^verbatim>\<open>COMMIT\<close> fails reports success and takes nothing.\<close>

lemma pq_insert_true: "pq_insert_chunks (\<lambda>i. True) i rows = (rows, True)"
proof (induction rows arbitrary: i rule: length_induct)
  case (1 rows)
  then show ?case by (subst pq_insert_chunks.simps) (simp add: FLUSH_USAGE_CHUNK_def)
qed

lemma pq_flush_not_committed:
  "pt_connected tx \<Longrightarrow> pt_begun tx \<Longrightarrow> pt_insert tx = (\<lambda>i. True) \<Longrightarrow> \<not> pt_committed tx \<Longrightarrow> pq_flush tx rows = (0, [])"
  by (simp add: pq_flush_def pq_insert_true)

section \<open>Recording\<close>

definition empty_acc :: um_acc where
  "empty_acc = \<lparr>ua_in_use = False, ua_key_id = 0, ua_model = [], ua_day = 0, ua_requests = 0, ua_prompt = 0,
     ua_completion = 0, ua_errors = 0, ua_cached_prompt = 0\<rparr>"

definition usage_meter_new ::
  "'h hdr_api \<Rightarrow> bool \<Rightarrow> usage_request_row list option \<Rightarrow> bool \<Rightarrow> ratelimit option \<Rightarrow> int \<Rightarrow> 'h usage_meter option" where
  "usage_meter_new hdr alloc_ok ring ps rl now =
     (if \<not> alloc_ok then None
      else Some \<lparr>um_ps = ps, um_rl = rl, um_last_rollover_day = utc_midnight now, um_accs = replicate UM_ACC_CAP empty_acc,
                 um_provs = replicate UM_MAX_PROVS \<lparr>up_name = [], up_h = hd_init hdr, up_in_use = False\<rparr>,
                 um_reqs = 0, um_errs = 0, um_toks = 0, um_cached_toks = 0, um_reasoning_toks = 0,
                 um_req_ring = ring, um_req_head = 0, um_req_tail = 0, um_req_dropped = 0\<rparr>)"

text \<open>FNV-1a over the bytes of the key, lowest first, and of the model.\<close>

definition fnv_byte :: "64 word \<Rightarrow> 64 word \<Rightarrow> 64 word" where
  "fnv_byte h b = Bit_Operations.xor h b * 1099511628211"

definition key_bytes :: "int \<Rightarrow> 64 word list" where
  "key_bytes k = map (\<lambda>i. word_of_int (k div 256 ^ i mod 256)) [0..<8]"

definition acc_hash :: "int \<Rightarrow> string \<Rightarrow> 64 word" where
  "acc_hash key_id model =
     foldl fnv_byte (foldl fnv_byte 1469598103934665603 (key_bytes key_id)) (map (\<lambda>c. of_nat (of_char c)) model)"

text \<open>The slot of a provider: known, found by name, or the first one that is free.\<close>

definition prov_slot :: "(string \<Rightarrow> bool) \<Rightarrow> 'h um_prov list \<Rightarrow> string option \<Rightarrow> ('h um_prov list \<times> nat) option" where
  "prov_slot known provs p =
     (case p of
        None \<Rightarrow> None
      | Some name \<Rightarrow>
          if \<not> known name then None
          else (case find_idx (\<lambda>v. up_in_use v \<and> up_name v = name) provs of
                  Some i \<Rightarrow> Some (provs, i)
                | None \<Rightarrow>
                    (case find_idx (\<lambda>v. \<not> up_in_use v) provs of
                       Some i \<Rightarrow> Some (provs[i := (provs ! i)\<lparr>up_in_use := True, up_name := cstr_copy 32 name\<rparr>], i)
                     | None \<Rightarrow> None)))"

definition um_sample :: "'h hdr_api \<Rightarrow> (string \<Rightarrow> bool) \<Rightarrow> 'h um_prov list \<Rightarrow> string option \<Rightarrow> 64 word \<Rightarrow> 'h um_prov list" where
  "um_sample hdr known provs provider latency_ns =
     (case prov_slot known provs provider of
        None \<Rightarrow> provs
      | Some (provs', i) \<Rightarrow>
          (case up_h (provs' ! i) of
             Some h \<Rightarrow> if 0 < latency_ns then provs'[i := (provs' ! i)\<lparr>up_h := Some (hd_record hdr h (sint latency_ns))\<rparr>] else provs'
           | None \<Rightarrow> provs'))"

text \<open>The probe: the first slot that has the key and the model, or is free.\<close>

definition acc_stop :: "int \<Rightarrow> string \<Rightarrow> um_acc \<Rightarrow> bool" where
  "acc_stop key_id model a \<longleftrightarrow> (ua_in_use a \<and> ua_key_id a = key_id \<and> ua_model a = model) \<or> \<not> ua_in_use a"

definition acc_seek :: "um_acc list \<Rightarrow> int \<Rightarrow> string \<Rightarrow> nat option" where
  "acc_seek accs key_id model =
     (let slot = unat (acc_hash key_id model AND of_nat (UM_ACC_CAP - 1))
      in find (\<lambda>idx. acc_stop key_id model (accs ! idx)) (map (\<lambda>i. (slot + i) mod UM_ACC_CAP) [0..<UM_ACC_CAP]))"

definition acc_record :: "um_acc list \<Rightarrow> int \<Rightarrow> string \<Rightarrow> int \<Rightarrow> int \<Rightarrow> int \<Rightarrow> int \<Rightarrow> int \<Rightarrow> um_acc list" where
  "acc_record accs key_id model http_status prompt completion cached day =
     (case acc_seek accs key_id model of
        None \<Rightarrow> accs
      | Some idx \<Rightarrow>
          let a = accs ! idx; err = (if http_status \<ge> 500 then 1 else 0) in
          accs[idx :=
            (if ua_in_use a then
               a\<lparr>ua_day := day, ua_requests := ua_requests a + 1, ua_prompt := ua_prompt a + prompt,
                 ua_completion := ua_completion a + completion, ua_cached_prompt := ua_cached_prompt a + cached,
                 ua_errors := ua_errors a + err\<rparr>
             else
               \<lparr>ua_in_use = True, ua_key_id = key_id, ua_model = cstr_copy 128 model, ua_day = day, ua_requests = 1,
                ua_prompt = prompt, ua_completion = completion, ua_errors = err, ua_cached_prompt = cached\<rparr>)])"

text \<open>The ring: the row is written before it is known whether there is room.\<close>

definition um_ring_push :: "'h usage_meter \<Rightarrow> usage_request_row \<Rightarrow> 'h usage_meter option" where
  "um_ring_push um row =
     (case um_req_ring um of
        None \<Rightarrow> Some um
      | Some ring \<Rightarrow>
          let um1 = um\<lparr>um_req_ring := Some (ring[nat (um_req_tail um mod int UM_REQ_CAP) := row])\<rparr> in
          if um_req_tail um \<ge> 2147483647 then None
          else if um_req_tail um + 1 - um_req_head um > int UM_REQ_CAP
               then Some (um1\<lparr>um_req_dropped := um_req_dropped um + 1\<rparr>)
               else Some (um1\<lparr>um_req_tail := um_req_tail um + 1\<rparr>))"

definition request_row ::
  "int \<Rightarrow> int \<Rightarrow> string \<Rightarrow> int \<Rightarrow> int \<Rightarrow> int \<Rightarrow> int \<Rightarrow> int \<Rightarrow> 64 word \<Rightarrow> string option \<Rightarrow> string option \<Rightarrow> usage_request_row" where
  "request_row now key_id model http_status prompt completion cached reasoning latency_ns provider guardrail_action =
     \<lparr>uq_key_id = key_id, uq_model_name = cstr_copy 128 model, uq_provider = cstr_copy 32 (cstr_or_empty provider),
      uq_http_status = http_status, uq_prompt_tokens = prompt, uq_completion_tokens = completion,
      uq_cached_prompt_tokens = cached, uq_reasoning_tokens = reasoning, uq_latency_ns = latency_ns, uq_ts = now,
      uq_guardrail_action = cstr_copy 16 (cstr_or_empty guardrail_action)\<rparr>"

definition um_record_full ::
  "'h hdr_api \<Rightarrow> (string \<Rightarrow> bool) \<Rightarrow> 'h usage_meter \<Rightarrow> int \<Rightarrow> int \<Rightarrow> string \<Rightarrow> int \<Rightarrow> int \<Rightarrow> int \<Rightarrow> int \<Rightarrow> int \<Rightarrow> 64 word \<Rightarrow>
   string option \<Rightarrow> string option \<Rightarrow> 'h usage_meter option" where
  "um_record_full hdr known um now key_id model http_status prompt completion cached reasoning latency_ns provider guardrail_action =
     um_ring_push
       (um\<lparr>um_reqs := um_reqs um + 1, um_errs := um_errs um + (if http_status \<ge> 500 then 1 else 0),
           um_toks := um_toks um + (prompt + completion), um_cached_toks := um_cached_toks um + cached,
           um_reasoning_toks := um_reasoning_toks um + reasoning,
           um_provs := um_sample hdr known (um_provs um) provider latency_ns,
           um_accs := acc_record (um_accs um) key_id model http_status prompt completion cached (utc_midnight now)\<rparr>)
       (request_row now key_id model http_status prompt completion cached reasoning latency_ns provider guardrail_action)"

definition um_record_ext where
  "um_record_ext hdr known um now key_id model http_status prompt completion cached reasoning latency_ns provider =
     um_record_full hdr known um now key_id model http_status prompt completion cached reasoning latency_ns provider (Some [])"

definition um_record where
  "um_record hdr known um now key_id model http_status prompt completion cached latency_ns provider =
     um_record_ext hdr known um now key_id model http_status prompt completion cached 0 latency_ns provider"

section \<open>The daily usage goes to the store\<close>

definition row_of_acc :: "um_acc \<Rightarrow> usage_row" where
  "row_of_acc a =
     \<lparr>ur_key_id = ua_key_id a, ur_model_name = cstr_copy 128 (ua_model a), ur_day = ua_day a, ur_requests = ua_requests a,
      ur_prompt_tokens = ua_prompt a, ur_completion_tokens = ua_completion a, ur_errors = ua_errors a,
      ur_cached_prompt_tokens = ua_cached_prompt a\<rparr>"

definition clear_acc :: "um_acc \<Rightarrow> um_acc" where
  "clear_acc a = a\<lparr>ua_in_use := False, ua_requests := 0, ua_prompt := 0, ua_completion := 0, ua_cached_prompt := 0, ua_errors := 0\<rparr>"

text \<open>The loop that copies and clears the slots; it gives up, with the slots so far cleared, when the output is
  full.\<close>

fun drain_loop :: "nat \<Rightarrow> um_acc list \<Rightarrow> usage_row list \<Rightarrow> um_acc list \<times> usage_row list \<times> bool" where
  "drain_loop cap [] out = ([], out, True)"
| "drain_loop cap (a # as) out =
     (if ua_in_use a then
        if length out \<ge> cap then (a # as, out, False)
        else (case drain_loop cap as (out @ [row_of_acc a]) of (as', out', ok) \<Rightarrow> (clear_acc a # as', out', ok))
      else (case drain_loop cap as out of (as', out', ok) \<Rightarrow> (a # as', out', ok)))"

text \<open>The part under the lock: the rows handed to the caller, none when the loop gave up.\<close>

definition um_collect :: "'h usage_meter \<Rightarrow> nat \<Rightarrow> 'h usage_meter \<times> usage_row list \<times> int" where
  "um_collect um cap =
     (case drain_loop cap (um_accs um) [] of
        (accs, out, ok) \<Rightarrow> (um\<lparr>um_accs := accs\<rparr>, if ok then out else [], if ok then 0 else -1))"

text \<open>The result code, and the rows that the database takes.\<close>

definition um_flush :: "bool \<Rightarrow> pg_flush_ops option \<Rightarrow> usage_row list \<Rightarrow> int \<times> usage_row list" where
  "um_flush ps ops rows =
     (if rows \<noteq> [] \<and> ps then
        (case Option.bind ops po_flush_usage of
           Some flush \<Rightarrow> (case flush rows of (rc, stored) \<Rightarrow> (if rc \<noteq> 0 then -1 else 0, stored))
         | None \<Rightarrow> (0, []))
      else (0, []))"

definition um_drain :: "'h usage_meter \<Rightarrow> pg_flush_ops option \<Rightarrow> nat \<Rightarrow> 'h usage_meter \<times> usage_row list \<times> int \<times> usage_row list" where
  "um_drain um ops cap =
     (case um_collect um cap of
        (um', rows, rc) \<Rightarrow>
          if rc \<noteq> 0 then (um', rows, rc, [])
          else (case um_flush (um_ps um) ops rows of (rc', stored) \<Rightarrow> (um', rows, rc', stored)))"

definition acc_restore :: "um_acc list \<Rightarrow> usage_row \<Rightarrow> um_acc list option" where
  "acc_restore accs r =
     (case acc_seek accs (ur_key_id r) (ur_model_name r) of
        None \<Rightarrow> None
      | Some idx \<Rightarrow>
          let a = accs ! idx in
          Some (accs[idx :=
            (if ua_in_use a then
               a\<lparr>ua_requests := ua_requests a + ur_requests r, ua_prompt := ua_prompt a + ur_prompt_tokens r,
                 ua_completion := ua_completion a + ur_completion_tokens r,
                 ua_cached_prompt := ua_cached_prompt a + ur_cached_prompt_tokens r, ua_errors := ua_errors a + ur_errors r\<rparr>
             else
               \<lparr>ua_in_use = True, ua_key_id = ur_key_id r, ua_model = cstr_copy 128 (ur_model_name r), ua_day = ur_day r,
                ua_requests = ur_requests r, ua_prompt = ur_prompt_tokens r, ua_completion = ur_completion_tokens r,
                ua_errors = ur_errors r, ua_cached_prompt = ur_cached_prompt_tokens r\<rparr>)]))"

fun unflush_loop :: "um_acc list \<Rightarrow> usage_row list \<Rightarrow> um_acc list \<times> int" where
  "unflush_loop accs [] = (accs, 0)"
| "unflush_loop accs (r # rs) =
     (case acc_restore accs r of None \<Rightarrow> (accs, -1) | Some accs' \<Rightarrow> unflush_loop accs' rs)"

definition um_unflush :: "'h usage_meter \<Rightarrow> usage_row list \<Rightarrow> 'h usage_meter \<times> int" where
  "um_unflush um rows = (case unflush_loop (um_accs um) rows of (accs, rc) \<Rightarrow> (um\<lparr>um_accs := accs\<rparr>, rc))"

section \<open>The audit rows go to the store\<close>

definition um_drain_requests :: "'h usage_meter \<Rightarrow> nat \<Rightarrow> 'h usage_meter \<times> usage_request_row list" where
  "um_drain_requests um cap =
     (case um_req_ring um of
        None \<Rightarrow> (um, [])
      | Some ring \<Rightarrow>
          let n = min (um_req_tail um - um_req_head um) (int cap) in
          (um\<lparr>um_req_head := um_req_head um + n\<rparr>,
           map (\<lambda>i. ring ! nat ((um_req_head um + int i) mod int UM_REQ_CAP)) [0..<nat n]))"

definition um_requeue_requests :: "'h usage_meter \<Rightarrow> nat \<Rightarrow> 'h usage_meter" where
  "um_requeue_requests um n =
     (if um_req_ring um = None \<or> n = 0 then um
      else let head = um_req_head um - int n; first = um_req_tail um - int UM_REQ_CAP in
           if head < first
           then um\<lparr>um_req_head := first, um_req_dropped := um_req_dropped um + (first - head)\<rparr>
           else um\<lparr>um_req_head := head\<rparr>)"

text \<open>One batch: the result, and the rows that the store takes.\<close>

definition um_flush_request_batch ::
  "'h usage_meter \<Rightarrow> pg_flush_ops option \<Rightarrow> nat \<Rightarrow> 'h usage_meter \<times> int \<times> usage_request_row list" where
  "um_flush_request_batch um ops rcap =
     (if \<not> um_ps um \<or> um_req_ring um = None then (um, 0, [])
      else (case um_drain_requests um rcap of
              (um', rows) \<Rightarrow>
                if rows = [] then (um', 0, [])
                else (case Option.bind ops po_flush_usage_requests of
                        Some flush \<Rightarrow>
                          (case flush rows of
                             (rc, stored) \<Rightarrow>
                               if rc = 0 then (um', int (length rows), stored) else (um_requeue_requests um' (length rows), -1, stored))
                      | None \<Rightarrow> (um_requeue_requests um' (length rows), -1, []))))"

section \<open>The worker and the shutdown\<close>

lemma drain_requests_decreases:
  "um_drain_requests um cap = (um', rows) \<Longrightarrow> rows \<noteq> [] \<Longrightarrow>
   um_req_head um < um_req_tail um \<and> um_req_tail um' - um_req_head um' < um_req_tail um - um_req_head um"
  by (auto simp: um_drain_requests_def Let_def min_def split: option.splits if_splits)

lemma flush_batch_decreases:
  "um_flush_request_batch um ops rcap = (um', n, rows) \<Longrightarrow> 0 < n \<Longrightarrow>
   um_req_head um < um_req_tail um \<and> um_req_tail um' - um_req_head um' < um_req_tail um - um_req_head um"
  by (auto simp: um_flush_request_batch_def split: prod.splits if_splits option.splits dest: drain_requests_decreases)

text \<open>The loop over full batches.\<close>

function flush_batches :: "'h usage_meter \<Rightarrow> pg_flush_ops option \<Rightarrow> 'h usage_meter \<times> usage_request_row list" where
  "flush_batches um ops =
     (case um_flush_request_batch um ops UM_REQ_BATCH of
        (um', flushed, rows) \<Rightarrow>
          if flushed < int UM_REQ_BATCH then (um', rows)
          else (case flush_batches um' ops of (um'', rest) \<Rightarrow> (um'', rows @ rest)))"
  by pat_completeness auto
termination
  by (relation "measure (\<lambda>(um, ops). nat (um_req_tail um - um_req_head um))")
     (auto simp: UM_REQ_BATCH_def dest!: flush_batch_decreases [OF sym])

declare flush_batches.simps [simp del]

text \<open>One round of the worker at a time of day: the rollover of the limiter, the usage rows, the audit rows.\<close>

definition um_rollover :: "'h usage_meter \<Rightarrow> int \<Rightarrow> 'h usage_meter" where
  "um_rollover um now =
     (case um_rl um of
        Some rl \<Rightarrow>
          if utc_midnight now \<noteq> um_last_rollover_day um
          then um\<lparr>um_rl := Some (rl_reset_day rl (utc_midnight now)), um_last_rollover_day := utc_midnight now\<rparr> else um
      | None \<Rightarrow> um)"

definition worker_round ::
  "'h usage_meter \<Rightarrow> pg_flush_ops option \<Rightarrow> int \<Rightarrow> 'h usage_meter \<times> usage_row list \<times> usage_request_row list" where
  "worker_round um ops now =
     (case um_drain (um_rollover um now) ops UM_ACC_CAP of
        (um1, rows, rc, stored) \<Rightarrow>
          let um2 = (if rc \<noteq> 0 \<and> rows \<noteq> [] then fst (um_unflush um1 rows) else um1) in
          (case flush_batches um2 ops of (um3, reqs) \<Rightarrow> (um3, stored, reqs)))"

text \<open>The final drains of the shutdown, in batches of 256, with the rows that the store takes.\<close>

definition in_use_count :: "um_acc list \<Rightarrow> nat" where
  "in_use_count accs = length (filter ua_in_use accs)"

lemma drain_loop_count:
  "drain_loop cap accs out = (accs', out', ok) \<Longrightarrow>
   in_use_count accs' + length out' = in_use_count accs + length out"
proof (induction accs arbitrary: out accs' out' ok)
  case (Cons a as)
  then show ?case
    by (fastforce simp: in_use_count_def clear_acc_def split: if_splits prod.splits)
qed (simp add: in_use_count_def)

lemma collect_decreases:
  "um_collect um cap = (um', rows, rc) \<Longrightarrow> rows \<noteq> [] \<Longrightarrow> in_use_count (um_accs um') < in_use_count (um_accs um)"
  using drain_loop_count [of cap "um_accs um" "[]"] by (cases rows) (auto simp: um_collect_def split: prod.splits if_splits)

lemma um_drain_decreases:
  "um_drain um ops cap = (um', rows, rc, stored) \<Longrightarrow> rows \<noteq> [] \<Longrightarrow> in_use_count (um_accs um') < in_use_count (um_accs um)"
  by (auto simp: um_drain_def split: prod.splits if_splits dest!: collect_decreases)

function final_drain :: "'h usage_meter \<Rightarrow> pg_flush_ops option \<Rightarrow> 'h usage_meter \<times> usage_row list" where
  "final_drain um ops =
     (case um_drain um ops 256 of
        (um', rows, rc, stored) \<Rightarrow>
          if rc \<noteq> 0 \<or> rows = [] then (um', stored)
          else (case final_drain um' ops of (um'', rest) \<Rightarrow> (um'', stored @ rest)))"
  by pat_completeness auto
termination
  by (relation "measure (\<lambda>(um, ops). in_use_count (um_accs um))") (auto dest!: um_drain_decreases [OF sym])

declare final_drain.simps [simp del]

function final_requests :: "'h usage_meter \<Rightarrow> pg_flush_ops option \<Rightarrow> 'h usage_meter \<times> usage_request_row list" where
  "final_requests um ops =
     (case um_drain_requests um 256 of
        (um', rows) \<Rightarrow>
          if rows = [] then (um', [])
          else (case Option.bind ops po_flush_usage_requests of
                  Some flush \<Rightarrow>
                    (case flush rows of
                       (rc, stored) \<Rightarrow>
                         if rc \<noteq> 0 then (um', stored) else (case final_requests um' ops of (um'', rest) \<Rightarrow> (um'', stored @ rest)))
                | None \<Rightarrow> final_requests um' ops))"
  by pat_completeness auto
termination
  by (relation "measure (\<lambda>(um, ops). nat (um_req_tail um - um_req_head um))") (auto dest!: drain_requests_decreases [OF sym])

declare final_requests.simps [simp del]

text \<open>\<open>rreqs_ok\<close> is the allocation of the buffer for the audit rows.\<close>

definition usage_meter_free :: "'h usage_meter \<Rightarrow> pg_flush_ops option \<Rightarrow> bool \<Rightarrow> usage_row list \<times> usage_request_row list" where
  "usage_meter_free um ops rreqs_ok =
     (case final_drain um ops of
        (um1, stored) \<Rightarrow> (stored, if rreqs_ok \<and> um_ps um then snd (final_requests um1 ops) else []))"

section \<open>Reading\<close>

definition um_provider_names :: "'h usage_meter \<Rightarrow> nat \<Rightarrow> string list" where
  "um_provider_names um cap = take cap (map (\<lambda>v. cstr_copy 32 (up_name v)) (filter up_in_use (um_provs um)))"

text \<open>The last slot of the name with a histogram decides.\<close>

definition prov_last :: "'h um_prov list \<Rightarrow> string \<Rightarrow> ('h \<Rightarrow> bool) \<Rightarrow> ('h \<Rightarrow> 'b) \<Rightarrow> 'b \<Rightarrow> 'b" where
  "prov_last provs name P f v0 =
     foldl (\<lambda>v p. case up_h p of Some h \<Rightarrow> if up_in_use p \<and> up_name p = name \<and> P h then f h else v | None \<Rightarrow> v) v0 provs"

definition um_provider_sampled :: "'h hdr_api \<Rightarrow> 'h usage_meter \<Rightarrow> string \<Rightarrow> int" where
  "um_provider_sampled hdr um provider = prov_last (um_provs um) provider (\<lambda>h. True) (hd_total_count hdr) 0"

definition um_provider_percentile_ns :: "'h hdr_api \<Rightarrow> 'h usage_meter \<Rightarrow> string \<Rightarrow> real \<Rightarrow> int" where
  "um_provider_percentile_ns hdr um provider percentile =
     prov_last (um_provs um) provider (\<lambda>h. hd_total_count hdr h > 0) (\<lambda>h. hd_value_at_percentile hdr h percentile) 0"

definition um_provider_mean_ns :: "'h hdr_api \<Rightarrow> 'h usage_meter \<Rightarrow> string \<Rightarrow> real" where
  "um_provider_mean_ns hdr um provider =
     prov_last (um_provs um) provider (\<lambda>h. hd_total_count hdr h > 0) (hd_mean hdr) 0"

fun count_below :: "(int \<times> int) list \<Rightarrow> int \<Rightarrow> int \<Rightarrow> int" where
  "count_below [] le_ns v = v"
| "count_below ((x, n) # xs) le_ns v = (if x > le_ns then v else count_below xs le_ns n)"

definition um_provider_count_below_ns :: "'h hdr_api \<Rightarrow> 'h usage_meter \<Rightarrow> string \<Rightarrow> int \<Rightarrow> int" where
  "um_provider_count_below_ns hdr um provider le_ns =
     prov_last (um_provs um) provider (\<lambda>h. hd_total_count hdr h > 0) (\<lambda>h. count_below (hd_recorded hdr h) le_ns 0) 0"

end
