(* ===== verification/Usage_Props.thy ===== *)
theory Usage_Props
  imports Usage_Meter Ring
begin

text \<open>
  Properties of the usage meter: the accounts of the daily usage balance across recordings, drains,
  failed and successful writes; what a change of day and a shutdown do to them; and the audit ring as a
  bounded queue.
\<close>

section \<open>The probe\<close>

lemma UM_ACC_CAP_pos [simp]: "0 < UM_ACC_CAP"
  by (simp add: UM_ACC_CAP_def)

definition acc_home :: "int \<Rightarrow> string \<Rightarrow> nat" where
  "acc_home k m = unat (acc_hash k m AND of_nat (UM_ACC_CAP - 1))"

definition acc_is :: "int \<Rightarrow> string \<Rightarrow> um_acc \<Rightarrow> bool" where
  "acc_is k m a \<longleftrightarrow> ua_in_use a \<and> ua_key_id a = k \<and> ua_model a = m"

lemma acc_stop_iff: "acc_stop k m a \<longleftrightarrow> acc_is k m a \<or> \<not> ua_in_use a"
  by (simp add: acc_stop_def acc_is_def)

text \<open>The probe for a pair reaches slot \<open>i\<close> past slots of other pairs.\<close>

definition acc_reach :: "um_acc list \<Rightarrow> int \<Rightarrow> string \<Rightarrow> nat \<Rightarrow> bool" where
  "acc_reach accs k m i \<longleftrightarrow> (\<exists>d < UM_ACC_CAP. i = (acc_home k m + d) mod UM_ACC_CAP \<and>
     (\<forall>e < d. \<not> acc_stop k m (accs ! ((acc_home k m + e) mod UM_ACC_CAP))))"

lemma acc_seek_iff: "acc_seek accs k m = Some i \<longleftrightarrow> acc_reach accs k m i \<and> acc_stop k m (accs ! i)"
proof -
  have s: "acc_seek accs k m = find (\<lambda>idx. acc_stop k m (accs ! idx)) (map (\<lambda>i. (acc_home k m + i) mod UM_ACC_CAP) [0..<UM_ACC_CAP])"
    by (simp add: acc_seek_def acc_home_def Let_def)
  show ?thesis
    unfolding s find_Some_iff acc_reach_def by (auto simp: less_trans)
qed

lemma acc_seek_None: "acc_seek accs k m = None \<longleftrightarrow> (\<forall>i < UM_ACC_CAP. \<not> acc_stop k m (accs ! i))"
proof -
  have "set (map (\<lambda>i. (acc_home k m + i) mod UM_ACC_CAP) [0..<UM_ACC_CAP]) = {0..<UM_ACC_CAP}"
  proof (intro set_eqI iffI)
    fix i
    assume i: "i \<in> {0..<UM_ACC_CAP}"
    let ?h = "acc_home k m mod UM_ACC_CAP"
    let ?d = "(i + UM_ACC_CAP - ?h) mod UM_ACC_CAP"
    have "(acc_home k m + ?d) mod UM_ACC_CAP = (?h + (i + UM_ACC_CAP - ?h)) mod UM_ACC_CAP" by (simp add: mod_simps)
    also have "?h + (i + UM_ACC_CAP - ?h) = i + UM_ACC_CAP" using mod_less_divisor [OF UM_ACC_CAP_pos, of "acc_home k m"] by linarith
    also have "(i + UM_ACC_CAP) mod UM_ACC_CAP = i" using i by simp
    finally show "i \<in> set (map (\<lambda>i. (acc_home k m + i) mod UM_ACC_CAP) [0..<UM_ACC_CAP])"
      using mod_less_divisor [OF UM_ACC_CAP_pos] by (force intro: image_eqI [of _ _ ?d])
  qed auto
  then show ?thesis
    by (simp add: acc_seek_def acc_home_def Let_def find_None_iff)
qed

lemma acc_seek_less: "acc_seek accs k m = Some i \<Longrightarrow> i < UM_ACC_CAP"
  by (auto simp: acc_seek_iff acc_reach_def)

section \<open>The table\<close>

definition acc_wf :: "(int \<times> string) set \<Rightarrow> um_acc list \<Rightarrow> bool" where
  "acc_wf P accs \<longleftrightarrow> length accs = UM_ACC_CAP \<and>
     (\<forall>i < UM_ACC_CAP. ua_in_use (accs ! i) \<longrightarrow> acc_reach accs (ua_key_id (accs ! i)) (ua_model (accs ! i)) i \<and>
        (ua_key_id (accs ! i), ua_model (accs ! i)) \<in> P)"

lemma acc_wf_found:
  assumes "acc_wf P accs" "i < UM_ACC_CAP" "acc_is k m (accs ! i)"
  shows "acc_seek accs k m = Some i"
  using assms by (auto simp: acc_wf_def acc_seek_iff acc_stop_iff acc_is_def)

lemma acc_wf_unique:
  assumes "acc_wf P accs" "i < UM_ACC_CAP" "j < UM_ACC_CAP" "acc_is k m (accs ! i)" "acc_is k m (accs ! j)"
  shows "i = j"
  using acc_wf_found [OF assms(1,2,4)] acc_wf_found [OF assms(1,3,5)] by simp

lemma acc_seek_total:
  assumes "acc_wf P accs" "finite P" "card P \<le> UM_ACC_CAP" "(k, m) \<in> P"
  shows "\<exists>i. acc_seek accs k m = Some i"
proof (rule ccontr)
  assume "\<nexists>i. acc_seek accs k m = Some i"
  then have no: "\<forall>i < UM_ACC_CAP. \<not> acc_stop k m (accs ! i)" using acc_seek_None by fastforce
  let ?f = "\<lambda>i. (ua_key_id (accs ! i), ua_model (accs ! i))"
  have use: "ua_in_use (accs ! i)" if "i < UM_ACC_CAP" for i using no that by (auto simp: acc_stop_def)
  have "inj_on ?f {..<UM_ACC_CAP}"
  proof (rule inj_onI)
    fix i j
    assume ij: "i \<in> {..<UM_ACC_CAP}" "j \<in> {..<UM_ACC_CAP}" "?f i = ?f j"
    then show "i = j"
      using use by (intro acc_wf_unique [OF assms(1), of i j "fst (?f i)" "snd (?f i)"]) (auto simp: acc_is_def)
  qed
  moreover have "?f ` {..<UM_ACC_CAP} \<subseteq> P - {(k, m)}"
    using assms(1) use no by (auto simp: acc_wf_def acc_stop_def)
  ultimately have "UM_ACC_CAP \<le> card (P - {(k, m)})"
    using card_inj_on_le [of ?f "{..<UM_ACC_CAP}" "P - {(k, m)}"] assms(2) by simp
  moreover have "card (P - {(k, m)}) < card P" using assms(2,4) by (rule card_Diff1_less)
  ultimately show False using assms(3) by simp
qed

text \<open>Writing to the slot that the probe gives.\<close>

lemma acc_wf_write:
  assumes "acc_wf P accs" "acc_seek accs k m = Some i" "(k, m) \<in> P" "acc_is k m a"
  shows "acc_wf P (accs[i := a])"
proof -
  have len: "length accs = UM_ACC_CAP" using assms(1) by (simp add: acc_wf_def)
  have i: "i < UM_ACC_CAP" by (rule acc_seek_less [OF assms(2)])
  have r: "acc_reach accs k m i" "acc_stop k m (accs ! i)" using assms(2) by (simp_all add: acc_seek_iff)
  have keep: "acc_reach (accs[i := a]) k' m' j"
    if "acc_reach accs k' m' j" and o: "(k', m') = (k, m) \<Longrightarrow> j = i" for k' m' j
  proof -
    from that(1) obtain d where d: "d < UM_ACC_CAP" "j = (acc_home k' m' + d) mod UM_ACC_CAP"
      "\<forall>e < d. \<not> acc_stop k' m' (accs ! ((acc_home k' m' + e) mod UM_ACC_CAP))" by (auto simp: acc_reach_def)
    have "\<not> acc_stop k' m' (accs[i := a] ! ((acc_home k' m' + e) mod UM_ACC_CAP))" if "e < d" for e
    proof (cases "(acc_home k' m' + e) mod UM_ACC_CAP = i")
      case True
      have "(k', m') \<noteq> (k, m)"
      proof
        assume eq: "(k', m') = (k, m)"
        with True d(3) that have "\<not> acc_stop k m (accs ! i)" by auto
        with r(2) show False by simp
      qed
      then show ?thesis using True i len assms(4) by (auto simp: acc_stop_iff acc_is_def)
    next
      case False
      then show ?thesis using d(3) that by simp
    qed
    with d show ?thesis by (auto simp: acc_reach_def)
  qed
  have "acc_reach (accs[i := a]) (ua_key_id (accs[i := a] ! j)) (ua_model (accs[i := a] ! j)) j \<and>
      (ua_key_id (accs[i := a] ! j), ua_model (accs[i := a] ! j)) \<in> P"
    if j: "j < UM_ACC_CAP" "ua_in_use (accs[i := a] ! j)" for j
  proof (cases "j = i")
    case True
    then show ?thesis using assms(3,4) keep [OF r(1)] i len by (simp add: acc_is_def)
  next
    case False
    then have "ua_in_use (accs ! j)" using j by simp
    then have "acc_reach accs (ua_key_id (accs ! j)) (ua_model (accs ! j)) j" "(ua_key_id (accs ! j), ua_model (accs ! j)) \<in> P"
      using assms(1) j(1) by (auto simp: acc_wf_def)
    moreover have "(ua_key_id (accs ! j), ua_model (accs ! j)) \<noteq> (k, m)"
    proof
      assume "(ua_key_id (accs ! j), ua_model (accs ! j)) = (k, m)"
      with acc_wf_found [OF assms(1) j(1)] \<open>ua_in_use (accs ! j)\<close> assms(2) False show False by (auto simp: acc_is_def)
    qed
    ultimately have "acc_reach (accs[i := a]) (ua_key_id (accs ! j)) (ua_model (accs ! j)) j" "(ua_key_id (accs ! j), ua_model (accs ! j)) \<in> P"
      using keep by blast+
    then show ?thesis using False by simp
  qed
  then show ?thesis using len by (simp add: acc_wf_def)
qed

lemma acc_wf_empty: "length accs = UM_ACC_CAP \<Longrightarrow> \<forall>a \<in> set accs. \<not> ua_in_use a \<Longrightarrow> acc_wf P accs"
  by (simp add: acc_wf_def)

section \<open>The accounts\<close>

datatype um_field = Requests | Prompt | Completion | Errors | Cached

fun acc_get :: "um_field \<Rightarrow> um_acc \<Rightarrow> int" where
  "acc_get Requests a = ua_requests a"
| "acc_get Prompt a = ua_prompt a"
| "acc_get Completion a = ua_completion a"
| "acc_get Errors a = ua_errors a"
| "acc_get Cached a = ua_cached_prompt a"

fun row_get :: "um_field \<Rightarrow> usage_row \<Rightarrow> int" where
  "row_get Requests r = ur_requests r"
| "row_get Prompt r = ur_prompt_tokens r"
| "row_get Completion r = ur_completion_tokens r"
| "row_get Errors r = ur_errors r"
| "row_get Cached r = ur_cached_prompt_tokens r"

text \<open>What a request adds.\<close>

fun req_get :: "um_field \<Rightarrow> int \<Rightarrow> int \<Rightarrow> int \<Rightarrow> int \<Rightarrow> int" where
  "req_get Requests status prompt completion cached = 1"
| "req_get Prompt status prompt completion cached = prompt"
| "req_get Completion status prompt completion cached = completion"
| "req_get Errors status prompt completion cached = (if status \<ge> 500 then 1 else 0)"
| "req_get Cached status prompt completion cached = cached"

definition acc_part :: "um_field \<Rightarrow> int \<Rightarrow> string \<Rightarrow> um_acc \<Rightarrow> int" where
  "acc_part f k m a = (if acc_is k m a then acc_get f a else 0)"

definition in_table :: "um_field \<Rightarrow> int \<Rightarrow> string \<Rightarrow> um_acc list \<Rightarrow> int" where
  "in_table f k m accs = sum_list (map (acc_part f k m) accs)"

definition in_rows :: "um_field \<Rightarrow> int \<Rightarrow> string \<Rightarrow> usage_row list \<Rightarrow> int" where
  "in_rows f k m rows = sum_list (map (\<lambda>r. if ur_key_id r = k \<and> ur_model_name r = m then row_get f r else 0) rows)"

lemma in_rows_simps [simp]:
  "in_rows f k m [] = 0" "in_rows f k m (xs @ ys) = in_rows f k m xs + in_rows f k m ys"
  "in_rows f k m (r # rs) = (if ur_key_id r = k \<and> ur_model_name r = m then row_get f r else 0) + in_rows f k m rs"
  by (simp_all add: in_rows_def)

lemma sum_list_upd: "i < length xs \<Longrightarrow> sum_list (xs[i := x]) = sum_list xs + x - (xs ! i :: int)"
  by (induction xs arbitrary: i) (auto split: nat.splits)

lemma in_table_write:
  "i < length accs \<Longrightarrow> in_table f k m (accs[i := a]) = in_table f k m accs + acc_part f k m a - acc_part f k m (accs ! i)"
  unfolding in_table_def map_update by (subst sum_list_upd) simp_all

lemma in_table_empty: "\<forall>a \<in> set accs. \<not> ua_in_use a \<Longrightarrow> in_table f k m accs = 0"
  unfolding in_table_def by (induction accs) (auto simp: acc_part_def acc_is_def)

text \<open>A recording and a row put back go to the account of their pair.\<close>

lemma acc_record_ok:
  assumes "acc_wf P accs" "finite P" "card P \<le> UM_ACC_CAP" "(k, m) \<in> P" "length m < 128"
  shows "acc_wf P (acc_record accs k m st pr co ca day) \<and>
    in_table f k' m' (acc_record accs k m st pr co ca day) =
      in_table f k' m' accs + (if k' = k \<and> m' = m then req_get f st pr co ca else 0)"
proof -
  from acc_seek_total [OF assms(1-4)] obtain i where i: "acc_seek accs k m = Some i" by blast
  have len: "i < length accs" using acc_seek_less [OF i] assms(1) by (simp add: acc_wf_def)
  define a where "a = (if ua_in_use (accs ! i) then
      (accs ! i)\<lparr>ua_day := day, ua_requests := ua_requests (accs ! i) + 1, ua_prompt := ua_prompt (accs ! i) + pr,
        ua_completion := ua_completion (accs ! i) + co, ua_cached_prompt := ua_cached_prompt (accs ! i) + ca,
        ua_errors := ua_errors (accs ! i) + (if st \<ge> 500 then 1 else 0)\<rparr>
    else \<lparr>ua_in_use = True, ua_key_id = k, ua_model = cstr_copy 128 m, ua_day = day, ua_requests = 1, ua_prompt = pr,
        ua_completion = co, ua_errors = (if st \<ge> 500 then 1 else 0), ua_cached_prompt = ca\<rparr>)"
  have r: "acc_record accs k m st pr co ca day = accs[i := a]" by (simp add: acc_record_def i Let_def a_def)
  have stop: "acc_stop k m (accs ! i)" using i by (simp add: acc_seek_iff)
  then have isa: "acc_is k m a" using assms(5) by (auto simp: a_def acc_stop_def acc_is_def)
  have "acc_part f k' m' a - acc_part f k' m' (accs ! i) = (if k' = k \<and> m' = m then req_get f st pr co ca else 0)"
    using stop assms(5) by (cases f) (auto simp: acc_part_def acc_is_def acc_stop_def a_def)
  then show ?thesis using acc_wf_write [OF assms(1) i assms(4) isa] by (simp add: r in_table_write [OF len])
qed

lemma acc_restore_ok:
  assumes "acc_wf P accs" "finite P" "card P \<le> UM_ACC_CAP" "(ur_key_id r, ur_model_name r) \<in> P" "length (ur_model_name r) < 128"
  shows "\<exists>accs'. acc_restore accs r = Some accs' \<and> acc_wf P accs' \<and>
    (\<forall>f k m. in_table f k m accs' = in_table f k m accs + in_rows f k m [r])"
proof -
  let ?k = "ur_key_id r" and ?m = "ur_model_name r"
  from acc_seek_total [OF assms(1-4)] obtain i where i: "acc_seek accs ?k ?m = Some i" by blast
  have len: "i < length accs" using acc_seek_less [OF i] assms(1) by (simp add: acc_wf_def)
  define a where "a = (if ua_in_use (accs ! i) then
      (accs ! i)\<lparr>ua_requests := ua_requests (accs ! i) + ur_requests r, ua_prompt := ua_prompt (accs ! i) + ur_prompt_tokens r,
        ua_completion := ua_completion (accs ! i) + ur_completion_tokens r,
        ua_cached_prompt := ua_cached_prompt (accs ! i) + ur_cached_prompt_tokens r, ua_errors := ua_errors (accs ! i) + ur_errors r\<rparr>
    else \<lparr>ua_in_use = True, ua_key_id = ?k, ua_model = cstr_copy 128 ?m, ua_day = ur_day r, ua_requests = ur_requests r,
        ua_prompt = ur_prompt_tokens r, ua_completion = ur_completion_tokens r, ua_errors = ur_errors r,
        ua_cached_prompt = ur_cached_prompt_tokens r\<rparr>)"
  have r: "acc_restore accs r = Some (accs[i := a])" by (simp add: acc_restore_def i Let_def a_def)
  have stop: "acc_stop ?k ?m (accs ! i)" using i by (simp add: acc_seek_iff)
  then have isa: "acc_is ?k ?m a" using assms(5) by (auto simp: a_def acc_stop_def acc_is_def)
  have "acc_part f k m a - acc_part f k m (accs ! i) = in_rows f k m [r]" for f k m
    using stop assms(5) by (cases f) (auto simp: acc_part_def acc_is_def acc_stop_def a_def)
  then have "in_table f k m (accs[i := a]) = in_table f k m accs + in_rows f k m [r]" for f k m
    unfolding in_table_write [OF len] by (metis add_diff_eq)
  with acc_wf_write [OF assms(1) i assms(4) isa] r show ?thesis by blast
qed

lemma unflush_ok:
  assumes "acc_wf P accs" "finite P" "card P \<le> UM_ACC_CAP"
    and "\<forall>r \<in> set rows. (ur_key_id r, ur_model_name r) \<in> P \<and> length (ur_model_name r) < 128"
  shows "\<exists>accs'. unflush_loop accs rows = (accs', 0) \<and> acc_wf P accs' \<and>
    (\<forall>f k m. in_table f k m accs' = in_table f k m accs + in_rows f k m rows)"
  using assms(1,4)
proof (induction rows arbitrary: accs)
  case (Cons r rows)
  from acc_restore_ok [OF Cons.prems(1) assms(2,3), of r] Cons.prems(2) obtain accs1 where 1: "acc_restore accs r = Some accs1"
    "acc_wf P accs1" "\<forall>f k m. in_table f k m accs1 = in_table f k m accs + in_rows f k m [r]" by (auto simp del: in_rows_simps)
  from Cons.IH [OF 1(2)] Cons.prems(2) obtain accs' where 2: "unflush_loop accs1 rows = (accs', 0)" "acc_wf P accs'"
    "\<forall>f k m. in_table f k m accs' = in_table f k m accs1 + in_rows f k m rows" by auto
  with 1 show ?case by (intro exI [of _ accs']) auto
qed simp

text \<open>What a drain hands over, and when it gives up.\<close>

lemma drain_loop_all:
  "in_use_count accs + length out \<le> cap \<Longrightarrow>
   drain_loop cap accs out =
     (map (\<lambda>a. if ua_in_use a then clear_acc a else a) accs, out @ map row_of_acc (filter ua_in_use accs), True)"
  by (induction accs arbitrary: out) (auto simp: in_use_count_def)

lemma drain_loop_gives_up:
  "cap < in_use_count accs + length out \<Longrightarrow> length out \<le> cap \<Longrightarrow> \<exists>accs' out'. drain_loop cap accs out = (accs', out', False)"
proof (induction accs arbitrary: out)
  case (Cons a as)
  show ?case
  proof (cases "ua_in_use a")
    case True
    with Cons.prems Cons.IH [of "out @ [row_of_acc a]"] show ?thesis
      by (cases "length out \<ge> cap") (auto simp: in_use_count_def)
  next
    case False
    with Cons.prems Cons.IH [of out] show ?thesis by (auto simp: in_use_count_def)
  qed
qed (simp add: in_use_count_def)

lemma collect_ok:
  assumes "acc_wf P accs" "\<forall>(k, m) \<in> P. length m < 128" "accs = um_accs um"
  shows "\<exists>rows um'. um_collect um UM_ACC_CAP = (um', rows, 0) \<and> um' = um\<lparr>um_accs := um_accs um'\<rparr> \<and> acc_wf P (um_accs um') \<and>
    rows = map row_of_acc (filter ua_in_use accs) \<and>
    (\<forall>f k m. in_table f k m (um_accs um') = 0 \<and> in_rows f k m rows = in_table f k m accs) \<and>
    (\<forall>r \<in> set rows. (ur_key_id r, ur_model_name r) \<in> P \<and> length (ur_model_name r) < 128)"
proof -
  let ?rows = "map row_of_acc (filter ua_in_use accs)"
  let ?accs = "map (\<lambda>a. if ua_in_use a then clear_acc a else a) accs"
  have len: "length accs = UM_ACC_CAP" using assms(1) by (simp add: acc_wf_def)
  have "in_use_count accs + length [] \<le> UM_ACC_CAP" using len by (simp add: in_use_count_def) (metis length_filter_le)
  from drain_loop_all [OF this] have c: "um_collect um UM_ACC_CAP = (um\<lparr>um_accs := ?accs\<rparr>, ?rows, 0)"
    using assms(3) by (simp add: um_collect_def)
  have no: "\<forall>a \<in> set ?accs. \<not> ua_in_use a" by (auto simp: clear_acc_def)
  have P: "(ua_key_id a, ua_model a) \<in> P \<and> length (ua_model a) < 128" if "a \<in> set accs" "ua_in_use a" for a
    using assms(1,2) that by (fastforce simp: acc_wf_def in_set_conv_nth)
  have "in_rows f k m (map row_of_acc (filter ua_in_use xs)) = in_table f k m xs"
    if "set xs \<subseteq> set accs" for f k m xs
    using that P
    by (induction xs; cases f) (auto simp: in_table_def acc_part_def acc_is_def row_of_acc_def)
  moreover have "\<forall>r \<in> set ?rows. (ur_key_id r, ur_model_name r) \<in> P \<and> length (ur_model_name r) < 128"
    using P by (auto simp: row_of_acc_def)
  ultimately show ?thesis
    using c in_table_empty [OF no] acc_wf_empty [OF _ no, of P] len by simp
qed

section \<open>Runs\<close>

text \<open>A run of the table: the rows that the worker has taken out and not yet written, the rows written, and
  what was recorded, by field, key and model. The pairs of a key and a model come from a set. A write is one of \<open>pq_flush_usage\<close>, to a
  database whose \<^verbatim>\<open>BEGIN\<close> and \<^verbatim>\<open>COMMIT\<close> succeed: it fails when the connection is down or an insert fails.\<close>

inductive usage_reach ::
  "'h hdr_api \<Rightarrow> (string \<Rightarrow> bool) \<Rightarrow> (int \<times> string) set \<Rightarrow> 'h usage_meter \<Rightarrow> usage_row list \<Rightarrow> usage_row list \<Rightarrow>
   (um_field \<Rightarrow> int \<Rightarrow> string \<Rightarrow> int) \<Rightarrow> bool" for hdr known P where
  init: "usage_meter_new hdr True ring True rl now = Some um \<Longrightarrow> usage_reach hdr known P um [] [] (\<lambda>f k m. 0)"
| recorded: "usage_reach hdr known P um pend stored t \<Longrightarrow> (k, m) \<in> P \<Longrightarrow>
    um_record_full hdr known um now k m st pr co ca re lat prov ga = Some um' \<Longrightarrow>
    usage_reach hdr known P um' pend stored (\<lambda>f k' m'. t f k' m' + (if k' = k \<and> m' = m then req_get f st pr co ca else 0))"
| collected: "usage_reach hdr known P um [] stored t \<Longrightarrow> um_collect um UM_ACC_CAP = (um', rows, rc) \<Longrightarrow>
    usage_reach hdr known P um' rows stored t"
| written: "usage_reach hdr known P um pend stored t \<Longrightarrow> po_flush_usage ops = Some (pq_flush_usage tx) \<Longrightarrow> pt_begun tx \<Longrightarrow> pt_committed tx \<Longrightarrow>
    um_flush (um_ps um) (Some ops) pend = (0, rows) \<Longrightarrow> usage_reach hdr known P um [] (stored @ rows) t"
| failed: "usage_reach hdr known P um pend stored t \<Longrightarrow> po_flush_usage ops = Some (pq_flush_usage tx) \<Longrightarrow> pt_begun tx \<Longrightarrow> pt_committed tx \<Longrightarrow>
    um_flush (um_ps um) (Some ops) pend = (-1, rows) \<Longrightarrow> um_unflush um pend = (um', rc) \<Longrightarrow>
    usage_reach hdr known P um' [] (stored @ rows) t"

lemma record_accs:
  assumes "um_record_full hdr known um now k m st pr co ca re lat prov ga = Some um'"
  shows "um_accs um' = acc_record (um_accs um) k m st pr co ca (utc_midnight now)" "um_ps um' = um_ps um"
  using assms by (auto simp: um_record_full_def um_ring_push_def Let_def split: option.splits if_splits)

definition pairs_ok :: "(int \<times> string) set \<Rightarrow> bool" where
  "pairs_ok P \<longleftrightarrow> finite P \<and> card P \<le> UM_ACC_CAP \<and> (\<forall>(k, m) \<in> P. length m < 128)"

lemma usage_reach_inv:
  assumes "usage_reach hdr known P um pend stored t" "pairs_ok P"
  shows "acc_wf P (um_accs um) \<and> um_ps um \<and> (\<forall>r \<in> set pend. (ur_key_id r, ur_model_name r) \<in> P \<and> length (ur_model_name r) < 128) \<and>
    (\<forall>f k m. t f k m = in_table f k m (um_accs um) + in_rows f k m pend + in_rows f k m stored)"
  using assms(1)
proof (induction rule: usage_reach.induct)
  case (init ring rl now um)
  then have a: "um_accs um = replicate UM_ACC_CAP empty_acc" "um_ps um" by (auto simp: usage_meter_new_def)
  have no: "\<forall>a \<in> set (um_accs um). \<not> ua_in_use a" by (auto simp: a(1) empty_acc_def)
  then show ?case using acc_wf_empty [OF _ no] in_table_empty [OF no] a by simp
next
  case (recorded um pend stored t k m now st pr co ca re lat prov ga um')
  have "length m < 128" using assms(2) recorded.hyps(2) by (auto simp: pairs_ok_def)
  with acc_record_ok [of P "um_accs um" k m st pr co ca "utc_midnight now"] recorded assms(2) show ?case
    by (simp add: record_accs [OF recorded.hyps(3)] pairs_ok_def)
next
  case (collected um stored t um' rows rc)
  from collect_ok [of P "um_accs um" um] collected.IH assms(2) collected.hyps(2)
  have c: "um' = um\<lparr>um_accs := um_accs um'\<rparr>" "acc_wf P (um_accs um')"
    "\<forall>f k m. in_table f k m (um_accs um') = 0 \<and> in_rows f k m rows = in_table f k m (um_accs um)"
    "\<forall>r \<in> set rows. (ur_key_id r, ur_model_name r) \<in> P \<and> length (ur_model_name r) < 128"
    unfolding pairs_ok_def by auto
  have "um_ps um'" using collected.IH by (subst c(1)) simp
  with c(2-4) collected.IH show ?case by simp
next
  case (written um pend stored t ops tx rows)
  then have "rows = pend"
    by (auto simp: um_flush_def pq_flush_usage_def dest: pq_flush_atomic split: if_splits prod.splits)
  with written show ?case by simp
next
  case (failed um pend stored t ops tx rows um' rc)
  have none: "rows = []"
    using failed.hyps by (auto simp: um_flush_def pq_flush_usage_def dest: pq_flush_atomic split: if_splits prod.splits)
  from failed obtain accs where u: "unflush_loop (um_accs um) pend = (accs, 0)" "acc_wf P accs"
    "\<forall>f k m. in_table f k m accs = in_table f k m (um_accs um) + in_rows f k m pend"
    using unflush_ok [of P "um_accs um" pend] assms(2) by (auto simp: pairs_ok_def)
  then have "um' = um\<lparr>um_accs := accs\<rparr>" using failed.hyps(6) by (simp add: um_unflush_def)
  with u failed none show ?case by simp
qed

lemma push_defined:
  "um_req_tail um < 2147483647 \<Longrightarrow> \<exists>um'. um_ring_push um row = Some um' \<and> um_req_tail um' \<le> um_req_tail um + 1"
  by (auto simp: um_ring_push_def Let_def split: option.splits)

lemma record_defined:
  assumes "um_req_tail um < 2147483647"
  shows "\<exists>um'. um_record_full hdr known um now k m st pr co ca re lat prov ga = Some um' \<and> um_req_tail um' \<le> um_req_tail um + 1"
  unfolding um_record_full_def using push_defined [of "um\<lparr>um_reqs := x1, um_errs := x2, um_toks := x3,
    um_cached_toks := x4, um_reasoning_toks := x5, um_provs := x6, um_accs := x7\<rparr>" for x1 x2 x3 x4 x5 x6 x7] assms
  by simp

text \<open>The account of a pair is its slot.\<close>

lemma filter_unique:
  assumes "i < length xs" "Q (xs ! i)" "\<And>j. j < length xs \<Longrightarrow> Q (xs ! j) \<Longrightarrow> j = i"
  shows "filter Q xs = [xs ! i]"
proof -
  have "filter Q (take i xs) = []" "filter Q (drop (Suc i) xs) = []"
    using assms(3) by (auto simp: filter_empty_conv in_set_conv_nth) (metis add_Suc_right less_diff_conv add.commute n_not_Suc_n add_Suc not_add_less1 lessI)+
  then show ?thesis
    by (subst id_take_nth_drop [OF assms(1)]) (simp add: assms(2))
qed

lemma acc_record_at:
  assumes "acc_seek accs k m = Some i" "i < length accs" "length m < 128"
  shows "acc_is k m (acc_record accs k m st pr co ca day ! i) \<and> ua_day (acc_record accs k m st pr co ca day ! i) = day"
proof -
  have "acc_stop k m (accs ! i)" using assms(1) by (simp add: acc_seek_iff)
  then show ?thesis using assms by (auto simp: acc_record_def Let_def acc_stop_def acc_is_def)
qed

lemma in_table_filter: "in_table f k m accs = sum_list (map (acc_get f) (filter (acc_is k m) accs))"
  unfolding in_table_def by (induction accs) (auto simp: acc_part_def)

lemma filter_rows: "filter (\<lambda>r. ur_key_id r = k \<and> ur_model_name r = m) (map row_of_acc (filter ua_in_use accs)) =
    map row_of_acc (filter (acc_is k m) accs)" if "\<forall>a \<in> set accs. ua_in_use a \<longrightarrow> length (ua_model a) < 128"
  using that by (induction accs) (auto simp: acc_is_def row_of_acc_def)

section \<open>Properties of the accounts\<close>

text \<open>C27. No usage is lost or counted twice while the gateway runs, as long as the database begins and commits its
  transactions: after any interleaving of recorded requests with drains of the worker and with writes that
  succeed, or fail because the connection is down or an insert fails, every field recorded for a key and a
  model is the sum of what the table, the rows in the hands of the worker and the database have of it. It
  needs 4096 pairs of a key and a model at most, with names of less than 128 characters. What a \<^verbatim>\<open>COMMIT\<close>
  that fails does is stated below.\<close>

theorem usage_conserved:
  assumes "pairs_ok P" "usage_reach hdr known P um pend stored t"
  shows "t f k m = in_table f k m (um_accs um) + in_rows f k m pend + in_rows f k m stored"
  using usage_reach_inv [OF assms(2,1)] by blast

text \<open>A \<^verbatim>\<open>COMMIT\<close> that fails loses the usage: the write reports success, so that the round of the worker leaves nothing in the
  table, puts nothing back, and the database has nothing.\<close>

theorem usage_lost_without_commit:
  assumes "pairs_ok P" "acc_wf P (um_accs um)" "um_ps um" "um_rl um = None" "um_req_ring um = None"
    and "po_flush_usage ops = Some (pq_flush_usage tx)" "pt_connected tx" "pt_begun tx" "pt_insert tx = (\<lambda>i. True)" "\<not> pt_committed tx"
  shows "\<exists>um'. worker_round um (Some ops) now = (um', [], []) \<and> (\<forall>f k m. in_table f k m (um_accs um') = 0)"
proof -
  from collect_ok [OF assms(2), of um] assms(1) obtain um1 rows where
    c: "um_collect um UM_ACC_CAP = (um1, rows, 0)" "\<forall>f k m. in_table f k m (um_accs um1) = 0" "um1 = um\<lparr>um_accs := um_accs um1\<rparr>"
    unfolding pairs_ok_def by auto
  have "um_flush (um_ps um) (Some ops) rows = (0, [])"
    using pq_flush_not_committed [OF assms(7-10), of rows] assms(6) by (simp add: um_flush_def pq_flush_usage_def)
  moreover have "um_rollover um now = um" using assms(4) by (simp add: um_rollover_def)
  moreover have "um_req_ring um1 = None" by (subst c(3)) (simp add: assms(5))
  then have "flush_batches um1 (Some ops) = (um1, [])"
    by (subst flush_batches.simps) (simp add: um_flush_request_batch_def UM_REQ_BATCH_def)
  ultimately show ?thesis using c(1,2) by (simp add: worker_round_def um_drain_def)
qed

text \<open>Usage of one day is written as usage of the next: a request of a key and a model moves all that the
  table holds for them to its own day, also what was recorded before midnight and not yet written; the
  next drain has one row for the pair, of the day of this request, with everything in it.\<close>

theorem usage_moves_to_last_day:
  assumes "pairs_ok P" "usage_reach hdr known P um pend stored t" "(k, m) \<in> P"
    and "um_record_full hdr known um now k m st pr co ca re lat prov ga = Some um'"
  shows "\<exists>um'' rows r. um_collect um' UM_ACC_CAP = (um'', rows, 0) \<and>
    filter (\<lambda>r. ur_key_id r = k \<and> ur_model_name r = m) rows = [r] \<and> ur_day r = utc_midnight now \<and>
    (\<forall>f. row_get f r = in_table f k m (um_accs um) + req_get f st pr co ca)"
proof -
  let ?accs = "um_accs um'"
  have P: "finite P" "card P \<le> UM_ACC_CAP" "\<forall>(k, m) \<in> P. length m < 128" "length m < 128"
    using assms(1,3) by (auto simp: pairs_ok_def)
  have wf0: "acc_wf P (um_accs um)" using usage_reach_inv [OF assms(2,1)] by blast
  note rec = record_accs(1) [OF assms(4)]
  have wf: "acc_wf P ?accs" and tab: "in_table f k m ?accs = in_table f k m (um_accs um) + req_get f st pr co ca" for f
    using acc_record_ok [OF wf0 P(1,2) assms(3) P(4), of st pr co ca "utc_midnight now" f k m] unfolding rec by simp_all
  from acc_seek_total [OF wf0 P(1,2) assms(3)] obtain i where i: "acc_seek (um_accs um) k m = Some i" by blast
  have len: "i < length (um_accs um)" "length ?accs = UM_ACC_CAP" "i < UM_ACC_CAP"
    using acc_seek_less [OF i] wf0 wf by (simp_all add: acc_wf_def)
  have a: "acc_is k m (?accs ! i)" "ua_day (?accs ! i) = utc_midnight now"
    using acc_record_at [OF i len(1) P(4), of st pr co ca "utc_midnight now"] by (simp_all only: rec)
  have one: "filter (acc_is k m) ?accs = [?accs ! i]"
  proof (rule filter_unique)
    show "i < length ?accs" using len by simp
    show "acc_is k m (?accs ! i)" by (rule a(1))
    show "j = i" if "j < length ?accs" "acc_is k m (?accs ! j)" for j
      by (rule acc_wf_unique [OF wf _ len(3) that(2) a(1)]) (use that(1) len(2) in simp)
  qed
  have short: "\<forall>a \<in> set ?accs. ua_in_use a \<longrightarrow> length (ua_model a) < 128"
  proof (intro ballI impI)
    fix a
    assume "a \<in> set ?accs" "ua_in_use a"
    then have "(ua_key_id a, ua_model a) \<in> P" using wf by (auto simp: acc_wf_def in_set_conv_nth)
    with P(3) show "length (ua_model a) < 128" by auto
  qed
  from collect_ok [OF wf P(3) refl] obtain um'' where
    c: "um_collect um' UM_ACC_CAP = (um'', map row_of_acc (filter ua_in_use ?accs), 0)" by auto
  have "filter (\<lambda>r. ur_key_id r = k \<and> ur_model_name r = m) (map row_of_acc (filter ua_in_use ?accs)) = [row_of_acc (?accs ! i)]"
    unfolding filter_rows [OF short] one by simp
  moreover have "ur_day (row_of_acc (?accs ! i)) = utc_midnight now" using a(2) by (simp add: row_of_acc_def)
  moreover have "row_get f (row_of_acc (?accs ! i)) = in_table f k m (um_accs um) + req_get f st pr co ca" for f
    using tab [of f] unfolding in_table_filter [of f k m ?accs] one by (cases f) (simp_all add: row_of_acc_def)
  ultimately show ?thesis using c by blast
qed

text \<open>A shutdown with more than 256 pairs in the table loses all their usage: the first of the final
  drains takes the first 256 slots out of the table, finds its buffer too small, hands out no row and
  fails, which ends the loop; nothing is written to the store.\<close>

theorem usage_shutdown_loses_all:
  assumes "256 < in_use_count (um_accs um)"
  shows "fst (usage_meter_free um ops rreqs_ok) = []"
proof -
  from assms drain_loop_gives_up [of 256 "um_accs um" "[]"] obtain accs out where
    d: "drain_loop 256 (um_accs um) [] = (accs, out, False)" by auto
  then have "um_drain um ops 256 = (um\<lparr>um_accs := accs\<rparr>, [], -1, [])" by (simp add: um_drain_def um_collect_def)
  then have "final_drain um ops = (um\<lparr>um_accs := accs\<rparr>, [])" by (subst final_drain.simps) simp
  then show ?thesis by (simp add: usage_meter_free_def)
qed

section \<open>Witnesses\<close>

text \<open>A meter without histograms.\<close>

definition no_hdr :: "unit hdr_api" where
  "no_hdr = \<lparr>hd_init = None, hd_record = (\<lambda>h v. h), hd_total_count = (\<lambda>h. 0), hd_value_at_percentile = (\<lambda>h q. 0),
     hd_mean = (\<lambda>h. 0), hd_recorded = (\<lambda>h. [])\<rparr>"

lemma pairs_ok_one: "length m < 128 \<Longrightarrow> pairs_ok {(k, m)}"
  by (simp add: pairs_ok_def UM_ACC_CAP_def)

lemma one_request:
  "\<exists>um t. usage_reach no_hdr (\<lambda>p. True) {(1, ''m'')} um [] [] t \<and> t Requests 1 ''m'' = 1 \<and> um_req_tail um \<le> 1"
proof -
  obtain um where um: "usage_meter_new no_hdr True None True None 86000 = Some um" "um_req_tail um = 0"
    by (simp add: usage_meter_new_def)
  then have "um_req_tail um < 2147483647" by simp
  from record_defined [OF this] obtain um' where r: "um_record_full no_hdr (\<lambda>p. True) um 86000 1 ''m'' 200 5 7 0 0 0 None None = Some um'"
    "um_req_tail um' \<le> um_req_tail um + 1" by blast
  have "(1, ''m'') \<in> {(1, ''m'')}" by simp
  note s = usage_reach.recorded [OF usage_reach.init [OF um(1)] this r(1)]
  show ?thesis by (rule exI, rule exI, rule conjI, rule s) (use r(2) um(2) in simp)
qed

text \<open>The database is down, and up again.\<close>

definition txn :: "bool \<Rightarrow> bool \<Rightarrow> pg_txn" where
  "txn up commits = \<lparr>pt_connected = up, pt_begun = True, pt_insert = \<lambda>i. True, pt_committed = commits\<rparr>"

definition txn_ops :: "pg_txn \<Rightarrow> pg_flush_ops" where
  "txn_ops tx = \<lparr>po_flush_usage = Some (pq_flush_usage tx), po_flush_usage_requests = Some (pq_flush_requests tx)\<rparr>"

lemma txn_flush:
  "um_flush True (Some (txn_ops (txn False c))) rows = (if rows = [] then 0 else -1, [])"
  "um_flush True (Some (txn_ops (txn True True))) rows = (0, rows)"
  by (simp_all add: um_flush_def txn_ops_def pq_flush_usage_def pq_flush_def txn_def pq_insert_true)

text \<open>A request is recorded, drained, put back after a failed write, drained and written.\<close>

lemma usage_conserved_witness:
  "\<exists>(um :: unit usage_meter) stored t. usage_reach no_hdr (\<lambda>p. True) {(1, ''m'')} um [] stored t \<and> t Requests 1 ''m'' = 1 \<and>
     in_table Requests 1 ''m'' (um_accs um) = 0 \<and> in_rows Requests 1 ''m'' stored = 1"
proof -
  let ?P = "{(1, ''m'')} :: (int \<times> string) set"
  have P: "pairs_ok ?P" by (simp add: pairs_ok_one)
  have wf: "acc_wf ?P (um_accs u) \<and> um_ps u" if "usage_reach no_hdr (\<lambda>p. True) ?P u pend stored t" for u :: "unit usage_meter" and pend stored t
    using usage_reach_inv [OF that P] by blast
  have drain: "\<exists>um' rows. um_collect u UM_ACC_CAP = (um', rows, 0) \<and> in_rows Requests 1 ''m'' rows = in_table Requests 1 ''m'' (um_accs u) \<and>
      in_table Requests 1 ''m'' (um_accs um') = 0" if "usage_reach no_hdr (\<lambda>p. True) ?P u pend stored t" for u :: "unit usage_meter" and pend stored t
    using collect_ok [of ?P "um_accs u" u] wf [OF that] P unfolding pairs_ok_def by fastforce
  obtain um t where u: "usage_reach no_hdr (\<lambda>p. True) ?P um [] [] t" "t Requests 1 ''m'' = 1" using one_request by blast
  from usage_reach_inv [OF u(1) P] u(2) have "in_table Requests 1 ''m'' (um_accs um) = 1" by simp
  with drain [OF u(1)] obtain um1 rows where 1: "um_collect um UM_ACC_CAP = (um1, rows, 0)" "in_rows Requests 1 ''m'' rows = 1" by auto
  note r1 = usage_reach.collected [OF u(1) 1(1)]
  have ne: "rows \<noteq> []" using 1(2) by auto
  obtain um2 rc where 2: "um_unflush um1 rows = (um2, rc)" by fastforce
  have f: "um_flush (um_ps um1) (Some (txn_ops (txn False True))) rows = (-1, [])" using wf [OF r1] ne by (simp add: txn_flush)
  have r2: "usage_reach no_hdr (\<lambda>p. True) ?P um2 [] [] t"
    using usage_reach.failed [OF r1 _ _ _ f 2, of "txn False True"] by (simp add: txn_ops_def txn_def)
  from drain [OF r2] obtain um3 rows3 where 3: "um_collect um2 UM_ACC_CAP = (um3, rows3, 0)" "in_table Requests 1 ''m'' (um_accs um3) = 0" by blast
  note r3 = usage_reach.collected [OF r2 3(1)]
  have w: "um_flush (um_ps um3) (Some (txn_ops (txn True True))) rows3 = (0, rows3)" using wf [OF r3] by (simp add: txn_flush)
  have r4: "usage_reach no_hdr (\<lambda>p. True) ?P um3 [] rows3 t"
    using usage_reach.written [OF r3 _ _ _ w, of "txn True True"] by (simp add: txn_ops_def txn_def)
  from usage_conserved [OF P r4, of Requests 1 "''m''"] u(2) 3(2) have "in_rows Requests 1 ''m'' rows3 = 1" by simp
  with r4 u(2) 3(2) show ?thesis by blast
qed

text \<open>The commit fails.\<close>

lemma usage_lost_without_commit_witness:
  "\<exists>(um :: unit usage_meter) um'. in_table Requests 1 ''m'' (um_accs um) = 1 \<and>
     worker_round um (Some (txn_ops (txn True False))) 86500 = (um', [], []) \<and> in_table Requests 1 ''m'' (um_accs um') = 0"
proof -
  obtain um t where u: "usage_reach no_hdr (\<lambda>p. True) {(1, ''m'')} um [] [] t" "t Requests 1 ''m'' = 1" using one_request by blast
  have P: "pairs_ok {(1, ''m'')}" by (simp add: pairs_ok_one)
  let ?um = "um\<lparr>um_rl := None, um_req_ring := None\<rparr>"
  have i: "acc_wf {(1, ''m'')} (um_accs ?um)" "um_ps ?um" "in_table Requests 1 ''m'' (um_accs ?um) = 1"
    using usage_reach_inv [OF u(1) P] u(2) by auto
  have "\<exists>um'. worker_round ?um (Some (txn_ops (txn True False))) 86500 = (um', [], []) \<and> (\<forall>f k m. in_table f k m (um_accs um') = 0)"
    by (rule usage_lost_without_commit [OF P i(1,2), where tx = "txn True False"]) (simp_all add: txn_ops_def txn_def)
  with i(3) show ?thesis by blast
qed

text \<open>A request shortly before midnight and one after it.\<close>

lemma usage_moves_to_last_day_witness:
  "\<exists>(um :: unit usage_meter) um'' rows r. um_collect um UM_ACC_CAP = (um'', rows, 0) \<and> r \<in> set rows \<and>
     ur_day r = 86400 \<and> row_get Requests r = 2"
proof -
  obtain um t where u: "usage_reach no_hdr (\<lambda>p. True) {(1, ''m'')} um [] [] t" "t Requests 1 ''m'' = 1" "um_req_tail um \<le> 1"
    using one_request by blast
  have P: "pairs_ok {(1, ''m'')}" by (simp add: pairs_ok_one)
  have "um_req_tail um < 2147483647" using u(3) by simp
  from record_defined [OF this] obtain um' where r: "um_record_full no_hdr (\<lambda>p. True) um 86410 1 ''m'' 200 5 7 0 0 0 None None = Some um'" by blast
  have "(1, ''m'') \<in> {(1, ''m'')}" by simp
  from usage_moves_to_last_day [OF P u(1) this r] obtain um'' rows r where
    c: "um_collect um' UM_ACC_CAP = (um'', rows, 0)" "filter (\<lambda>r. ur_key_id r = 1 \<and> ur_model_name r = ''m'') rows = [r]"
    "ur_day r = utc_midnight 86410" "\<forall>f. row_get f r = in_table f 1 ''m'' (um_accs um) + req_get f 200 5 7 0" by blast
  have "in_table Requests 1 ''m'' (um_accs um) = 1" using usage_reach_inv [OF u(1) P] u(2) by simp
  moreover have "r \<in> set rows" using c(2) by (metis filter_is_subset list.set_intros(1) subsetD)
  ultimately show ?thesis using c(1,3) spec [OF c(4), of Requests]
    by (intro exI [of _ um'] exI [of _ um''] exI [of _ rows] exI [of _ r]) (simp add: utc_midnight_def)
qed

lemma usage_shutdown_loses_all_witness:
  "\<exists>um :: unit usage_meter. in_use_count (um_accs um) = 300 \<and>
     fst (usage_meter_free um (Some \<lparr>po_flush_usage = Some (\<lambda>rows. (0, rows)), po_flush_usage_requests = Some (\<lambda>rows. (0, rows))\<rparr>) True) = []"
proof -
  obtain um0 :: "unit usage_meter" where "usage_meter_new no_hdr True None True None 0 = Some um0"
    by (simp add: usage_meter_new_def)
  define um where "um = um0\<lparr>um_accs := replicate 300 (empty_acc\<lparr>ua_in_use := True\<rparr>)\<rparr>"
  have c: "in_use_count (um_accs um) = 300" by (simp add: um_def in_use_count_def)
  then have "256 < in_use_count (um_accs um)" by simp
  from usage_shutdown_loses_all [OF this, of "Some \<lparr>po_flush_usage = Some (\<lambda>rows. (0, rows)), po_flush_usage_requests = Some (\<lambda>rows. (0, rows))\<rparr>" True] c show ?thesis by blast
qed

end
