(* ===== verification/Usage_Ring.thy ===== *)
theory Usage_Ring
  imports Usage_Meter Ring
begin

text \<open>
  The ring of audit rows of the usage meter as a queue: recordings append while there is room, a drain
  takes from the front, rows put back after a failed write are in front again, and what a recording does
  when the ring is full.
\<close>

section \<open>The ring as a queue\<close>

definition row_at :: "'h usage_meter \<Rightarrow> int \<Rightarrow> usage_request_row" where
  "row_at um i = the (um_req_ring um) ! nat (i mod int UM_REQ_CAP)"

definition audit_rows :: "'h usage_meter \<Rightarrow> usage_request_row list" where
  "audit_rows um = map (row_at um) [um_req_head um..um_req_tail um - 1]"

definition ring_wf :: "'h usage_meter \<Rightarrow> bool" where
  "ring_wf um \<longleftrightarrow> (\<exists>ring. um_req_ring um = Some ring \<and> length ring = UM_REQ_CAP) \<and>
     0 \<le> um_req_head um \<and> um_req_head um \<le> um_req_tail um \<and> um_req_tail um - um_req_head um \<le> int UM_REQ_CAP"

lemma UM_REQ_CAP_pos [simp]: "0 < UM_REQ_CAP"
  by (simp add: UM_REQ_CAP_def)

lemma length_audit_rows: "ring_wf um \<Longrightarrow> int (length (audit_rows um)) = um_req_tail um - um_req_head um"
  by (simp add: audit_rows_def ring_wf_def)

lemma nth_audit_rows: "ring_wf um \<Longrightarrow> j < length (audit_rows um) \<Longrightarrow> audit_rows um ! j = row_at um (um_req_head um + int j)"
  by (simp add: audit_rows_def ring_wf_def)

text \<open>Two positions of the ring less than its size apart are different slots.\<close>

lemma same_slot:
  assumes "nat (i mod int UM_REQ_CAP) = nat (t mod int UM_REQ_CAP)" "t - int UM_REQ_CAP < i" "i \<le> t"
  shows "i = t"
proof -
  have "i mod int UM_REQ_CAP = t mod int UM_REQ_CAP" using assms(1) by (simp add: nat_eq_iff)
  then have "int UM_REQ_CAP dvd t - i" by (metis mod_eq_dvd_iff)
  with assms(2,3) show ?thesis using zdvd_imp_le [of "int UM_REQ_CAP" "t - i"] by linarith
qed

lemma slot_less: "nat (i mod int UM_REQ_CAP) < UM_REQ_CAP"
  by (simp add: nat_less_iff)

section \<open>Pushing\<close>

lemma push_room:
  assumes "ring_wf um" "um_req_tail um < 2147483647" "um_req_tail um - um_req_head um < int UM_REQ_CAP"
  shows "\<exists>um'. um_ring_push um r = Some um' \<and> ring_wf um' \<and> um_req_head um' = um_req_head um \<and>
    um_req_tail um' = um_req_tail um + 1 \<and> um_req_dropped um' = um_req_dropped um \<and> row_at um' (um_req_tail um) = r \<and>
    (\<forall>i. um_req_tail um - int UM_REQ_CAP < i \<and> i < um_req_tail um \<longrightarrow> row_at um' i = row_at um i)"
proof -
  from assms(1) obtain ring where ring: "um_req_ring um = Some ring" "length ring = UM_REQ_CAP" by (auto simp: ring_wf_def)
  let ?t = "um_req_tail um"
  let ?um = "um\<lparr>um_req_ring := Some (ring[nat (?t mod int UM_REQ_CAP) := r]), um_req_tail := ?t + 1\<rparr>"
  have "um_ring_push um r = Some ?um" using ring assms by (simp add: um_ring_push_def Let_def)
  moreover have "row_at ?um ?t = r" using ring slot_less [of ?t] by (simp add: row_at_def)
  moreover have "row_at ?um i = row_at um i" if "?t - int UM_REQ_CAP < i" "i < ?t" for i
  proof -
    have "nat (i mod int UM_REQ_CAP) \<noteq> nat (?t mod int UM_REQ_CAP)" using same_slot [of i ?t] that by auto
    then show ?thesis by (simp add: row_at_def ring)
  qed
  ultimately show ?thesis using assms ring by (intro exI [of _ ?um]) (auto simp: ring_wf_def)
qed

lemma push_full:
  assumes "ring_wf um" "um_req_tail um < 2147483647" "um_req_tail um - um_req_head um = int UM_REQ_CAP"
  shows "\<exists>um'. um_ring_push um r = Some um' \<and> audit_rows um' = r # tl (audit_rows um) \<and> um_req_dropped um' = um_req_dropped um + 1"
proof -
  from assms(1) obtain ring where ring: "um_req_ring um = Some ring" "length ring = UM_REQ_CAP" by (auto simp: ring_wf_def)
  let ?t = "um_req_tail um" and ?h = "um_req_head um"
  let ?um = "um\<lparr>um_req_ring := Some (ring[nat (?t mod int UM_REQ_CAP) := r]), um_req_dropped := um_req_dropped um + 1\<rparr>"
  have "um_ring_push um r = Some ?um" using ring assms(2,3) by (simp add: um_ring_push_def Let_def)
  moreover have "audit_rows ?um = r # tl (audit_rows um)"
  proof -
    have "0 < int UM_REQ_CAP" by simp
    then have ht: "?t = ?h + int UM_REQ_CAP" "?h \<le> ?t - 1" using assms(3) by linarith+
    have h: "row_at ?um ?h = r" using slot_less [of ?h] ring ht(1) by (simp add: row_at_def)
    have "row_at ?um i = row_at um i" if "?h < i" "i < ?t" for i
    proof -
      have "nat (i mod int UM_REQ_CAP) \<noteq> nat (?t mod int UM_REQ_CAP)" using same_slot [of i ?t] that ht(1) by auto
      then show ?thesis by (simp add: row_at_def ring)
    qed
    then have "map (row_at ?um) [?h + 1..?t - 1] = map (row_at um) [?h + 1..?t - 1]" by (intro map_cong) auto
    with h show ?thesis by (simp add: audit_rows_def upto_rec1 [OF ht(2)])
  qed
  ultimately show ?thesis by auto
qed

text \<open>Several rows.\<close>

fun ring_pushes :: "'h usage_meter \<Rightarrow> usage_request_row list \<Rightarrow> 'h usage_meter option" where
  "ring_pushes um [] = Some um"
| "ring_pushes um (r # rs) = Option.bind (um_ring_push um r) (\<lambda>um'. ring_pushes um' rs)"

lemma pushes_room:
  assumes "ring_wf um" "um_req_tail um + int (length rs) \<le> 2147483647"
    and "um_req_tail um + int (length rs) - um_req_head um \<le> int UM_REQ_CAP"
  shows "\<exists>um'. ring_pushes um rs = Some um' \<and> ring_wf um' \<and> um_req_head um' = um_req_head um \<and>
    um_req_tail um' = um_req_tail um + int (length rs) \<and> um_req_dropped um' = um_req_dropped um \<and>
    (\<forall>i. um_req_tail um' - int UM_REQ_CAP \<le> i \<and> i < um_req_tail um \<longrightarrow> row_at um' i = row_at um i) \<and>
    (\<forall>j < length rs. row_at um' (um_req_tail um + int j) = rs ! j)"
  using assms
proof (induction rs arbitrary: um)
  case (Cons r rs)
  have "um_req_tail um < 2147483647" "um_req_tail um - um_req_head um < int UM_REQ_CAP" using Cons.prems(2,3) by simp_all
  from push_room [OF Cons.prems(1) this, of r] obtain um1 where 1: "um_ring_push um r = Some um1" "ring_wf um1"
    "um_req_head um1 = um_req_head um" "um_req_tail um1 = um_req_tail um + 1" "um_req_dropped um1 = um_req_dropped um"
    "row_at um1 (um_req_tail um) = r"
    "\<And>i. um_req_tail um - int UM_REQ_CAP < i \<Longrightarrow> i < um_req_tail um \<Longrightarrow> row_at um1 i = row_at um i" by blast
  have "um_req_tail um1 + int (length rs) \<le> 2147483647" "um_req_tail um1 + int (length rs) - um_req_head um1 \<le> int UM_REQ_CAP"
    using Cons.prems(2,3) 1(3,4) by simp_all
  from Cons.IH [OF 1(2) this] obtain um' where 2: "ring_pushes um1 rs = Some um'" "ring_wf um'" "um_req_head um' = um_req_head um1"
    "um_req_tail um' = um_req_tail um1 + int (length rs)" "um_req_dropped um' = um_req_dropped um1"
    "\<And>i. um_req_tail um' - int UM_REQ_CAP \<le> i \<Longrightarrow> i < um_req_tail um1 \<Longrightarrow> row_at um' i = row_at um1 i"
    "\<And>j. j < length rs \<Longrightarrow> row_at um' (um_req_tail um1 + int j) = rs ! j" by blast
  have cap: "um_req_tail um' - int UM_REQ_CAP \<le> um_req_head um'" "um_req_head um \<le> um_req_tail um"
    using 2(2) Cons.prems(1) by (simp_all add: ring_wf_def)
  have "row_at um' i = row_at um i" if "um_req_tail um' - int UM_REQ_CAP \<le> i" "i < um_req_tail um" for i
    using 2(6) [of i] 1(7) [of i] that 1(4) 2(4) by simp
  moreover have "row_at um' (um_req_tail um + int j) = (r # rs) ! j" if "j < length (r # rs)" for j
  proof (cases j)
    case 0
    have "um_req_tail um' - int UM_REQ_CAP \<le> um_req_tail um" using cap 2(3) 1(3) by simp
    then show ?thesis using 0 2(6) [of "um_req_tail um"] 1(4,6) by simp
  next
    case (Suc j')
    then show ?thesis using 2(7) [of j'] that 1(4) by (simp add: algebra_simps)
  qed
  ultimately show ?case using 1(1,3-5) 2 by auto
qed auto

section \<open>Draining and putting back\<close>

lemma drain_requests_ok:
  assumes "ring_wf um"
  shows "\<exists>um'. um_drain_requests um cap = (um', take cap (audit_rows um)) \<and> ring_wf um' \<and>
    audit_rows um' = drop cap (audit_rows um) \<and> um_req_tail um' = um_req_tail um \<and> um_req_dropped um' = um_req_dropped um \<and>
    um_req_head um' = um_req_head um + int (length (take cap (audit_rows um))) \<and> row_at um' = row_at um"
proof -
  from assms obtain ring where ring: "um_req_ring um = Some ring" "length ring = UM_REQ_CAP" by (auto simp: ring_wf_def)
  define n where "n = min (um_req_tail um - um_req_head um) (int cap)"
  have n: "0 \<le> n" "n \<le> um_req_tail um - um_req_head um" using assms by (auto simp: n_def ring_wf_def)
  let ?um = "um\<lparr>um_req_head := um_req_head um + n\<rparr>"
  have wf: "ring_wf ?um" using assms n by (auto simp: ring_wf_def)
  have row: "row_at ?um = row_at um" by (simp add: fun_eq_iff row_at_def)
  have len: "int (length (take cap (audit_rows um))) = n"
    using length_audit_rows [OF assms] by (simp add: n_def min_def)
  have l: "length (audit_rows um) = nat (um_req_tail um - um_req_head um)" using length_audit_rows [OF assms] by simp
  have "map (\<lambda>i. ring ! nat ((um_req_head um + int i) mod int UM_REQ_CAP)) [0..<nat n] = take cap (audit_rows um)"
  proof (rule nth_equalityI)
    show "length (map (\<lambda>i. ring ! nat ((um_req_head um + int i) mod int UM_REQ_CAP)) [0..<nat n]) = length (take cap (audit_rows um))"
      using len by simp
    fix j
    assume "j < length (map (\<lambda>i. ring ! nat ((um_req_head um + int i) mod int UM_REQ_CAP)) [0..<nat n])"
    then have j: "j < nat n" by simp
    then have "j < length (audit_rows um)" "j < cap" using len by auto
    then show "map (\<lambda>i. ring ! nat ((um_req_head um + int i) mod int UM_REQ_CAP)) [0..<nat n] ! j = take cap (audit_rows um) ! j"
      using j nth_audit_rows [OF assms] ring by (simp add: row_at_def)
  qed
  moreover have "audit_rows ?um = drop cap (audit_rows um)"
  proof (rule nth_equalityI)
    show ll: "length (audit_rows ?um) = length (drop cap (audit_rows um))"
      using length_audit_rows [OF wf] length_audit_rows [OF assms] by (auto simp: n_def)
    fix j
    assume j: "j < length (audit_rows ?um)"
    then have c: "cap + j < length (audit_rows um)" using ll by simp
    then have "n = int cap" using length_audit_rows [OF assms] by (simp add: n_def)
    then show "audit_rows ?um ! j = drop cap (audit_rows um) ! j"
      using nth_audit_rows [OF wf j] nth_audit_rows [OF assms c] c unfolding row by (simp add: add.assoc)
  qed
  ultimately show ?thesis using wf len row ring
    by (intro exI [of _ ?um]) (simp add: um_drain_requests_def Let_def n_def [symmetric])
qed

section \<open>Properties\<close>

text \<open>Audit rows survive a failed write in order: when rows are drained, others recorded while the
  write is under way and the write fails, the ring holds afterwards the latest 4096 of all rows, those put
  back before the new ones, and the drop counter has gone up by exactly the number of rows that no longer
  fit.\<close>

theorem audit_requeue_keeps_order:
  assumes "ring_wf um" "um_drain_requests um n = (um1, rows)"
    and "length (audit_rows um1) + length new \<le> UM_REQ_CAP" "um_req_tail um + int (length new) \<le> 2147483647"
  shows "rows = take n (audit_rows um) \<and>
    (\<exists>um2. ring_pushes um1 new = Some um2 \<and>
       audit_rows (um_requeue_requests um2 (length rows)) = last_n UM_REQ_CAP (audit_rows um @ new) \<and>
       um_req_dropped (um_requeue_requests um2 (length rows)) =
         um_req_dropped um + int (length (audit_rows um @ new) - UM_REQ_CAP))"
proof -
  from drain_requests_ok [OF assms(1), of n] assms(2) have d: "rows = take n (audit_rows um)" "ring_wf um1"
    "audit_rows um1 = drop n (audit_rows um)" "um_req_tail um1 = um_req_tail um" "um_req_dropped um1 = um_req_dropped um"
    "um_req_head um1 = um_req_head um + int (length rows)" "row_at um1 = row_at um" by auto
  have "um_req_tail um1 + int (length new) \<le> 2147483647" using assms(4) d(4) by simp
  moreover have "um_req_tail um1 + int (length new) - um_req_head um1 \<le> int UM_REQ_CAP"
    using assms(3) length_audit_rows [OF d(2)] by linarith
  ultimately obtain um2 where p: "ring_pushes um1 new = Some um2" "ring_wf um2" "um_req_head um2 = um_req_head um1"
    "um_req_tail um2 = um_req_tail um + int (length new)" "um_req_dropped um2 = um_req_dropped um"
    "\<And>i. um_req_tail um2 - int UM_REQ_CAP \<le> i \<Longrightarrow> i < um_req_tail um \<Longrightarrow> row_at um2 i = row_at um i"
    "\<And>j. j < length new \<Longrightarrow> row_at um2 (um_req_tail um + int j) = new ! j"
    using pushes_room [OF d(2), of new] unfolding d(4,5,7) by blast
  let ?um = "um_requeue_requests um2 (length rows)" and ?all = "audit_rows um @ new"
  define h where "h = max (um_req_head um) (um_req_tail um2 - int UM_REQ_CAP)"
  have ht: "um_req_head um \<le> um_req_tail um" "0 \<le> um_req_head um" using assms(1) by (simp_all add: ring_wf_def)
  have len: "int (length ?all) = um_req_tail um2 - um_req_head um" using length_audit_rows [OF assms(1)] p(4) by simp
  have lt: "um_req_tail um2 - int UM_REQ_CAP \<le> um_req_head um2" using p(2) by (simp add: ring_wf_def)
  have q: "um_req_head ?um = h" "um_req_tail ?um = um_req_tail um2" "um_req_ring ?um = um_req_ring um2"
    "um_req_dropped ?um = um_req_dropped um + (h - um_req_head um)"
    using p(2,3,5) d(6) lt by (auto simp: um_requeue_requests_def Let_def h_def ring_wf_def)
  have wf: "ring_wf ?um" using p(2) q ht lt d(6) p(3) unfolding ring_wf_def h_def by auto
  have row: "row_at ?um = row_at um2" by (simp add: fun_eq_iff row_at_def q(3))
  define k where "k = length ?all - UM_REQ_CAP"
  have k: "h = um_req_head um + int k" using len by (simp add: h_def k_def max_def of_nat_diff)
  have "audit_rows ?um = last_n UM_REQ_CAP ?all"
  proof (rule nth_equalityI)
    show ll: "length (audit_rows ?um) = length (last_n UM_REQ_CAP ?all)"
      using length_audit_rows [OF wf] q(1,2) len k k_def by simp
    fix j
    assume j: "j < length (audit_rows ?um)"
    then have jk: "k + j < length ?all" using length_audit_rows [OF wf] q(1,2) len k by linarith
    have i: "um_req_tail um2 - int UM_REQ_CAP \<le> h + int j" by (simp add: h_def)
    have "row_at um2 (h + int j) = ?all ! (k + j)"
    proof (cases "k + j < length (audit_rows um)")
      case True
      then have "h + int j < um_req_tail um" using length_audit_rows [OF assms(1)] k by linarith
      then show ?thesis using p(6) [OF i] nth_audit_rows [OF assms(1) True] True k by (simp add: nth_append add.assoc)
    next
      case False
      define j' where "j' = k + j - length (audit_rows um)"
      have e: "h + int j = um_req_tail um + int j'" using False length_audit_rows [OF assms(1)] k by (simp add: j'_def)
      have "j' < length new" using jk False by (simp add: j'_def)
      then have "row_at um2 (h + int j) = new ! j'" unfolding e by (rule p(7))
      then show ?thesis using False by (simp add: nth_append j'_def)
    qed
    moreover have "last_n UM_REQ_CAP ?all ! j = ?all ! (k + j)" 
      unfolding last_n_def k_def [symmetric] by (rule nth_drop) (use jk in simp)
    ultimately show "audit_rows ?um ! j = last_n UM_REQ_CAP ?all ! j" using nth_audit_rows [OF wf j] q(1) row by simp
  qed
  with d(1) p(1) q(4) k k_def show ?thesis by auto
qed

text \<open>A full ring loses its oldest row, not the new one: when 4096 rows wait for the store, a further
  request counts as dropped, yet its row is stored over the oldest row waiting, and the next drain hands
  it out first, before rows recorded earlier.\<close>

theorem audit_full_ring_overwrites_oldest:
  assumes "ring_wf um" "length (audit_rows um) = UM_REQ_CAP" "um_req_tail um < 2147483647"
  shows "\<exists>um'. um_record_full hdr known um now k m st pr co ca re lat prov ga = Some um' \<and>
    audit_rows um' = request_row now k m st pr co ca re lat prov ga # tl (audit_rows um) \<and>
    um_req_dropped um' = um_req_dropped um + 1"
proof -
  have "um_req_tail um - um_req_head um = int UM_REQ_CAP" using length_audit_rows [OF assms(1)] assms(2) by simp
  moreover obtain um0 where um0: "um_record_full hdr known um now k m st pr co ca re lat prov ga =
      um_ring_push um0 (request_row now k m st pr co ca re lat prov ga)"
    "um_req_ring um0 = um_req_ring um" "um_req_head um0 = um_req_head um" "um_req_tail um0 = um_req_tail um"
    "um_req_dropped um0 = um_req_dropped um"
    by (simp add: um_record_full_def)
  moreover have "row_at um0 = row_at um" using um0(2) by (simp add: fun_eq_iff row_at_def)
  ultimately show ?thesis
    using push_full [of um0 "request_row now k m st pr co ca re lat prov ga"] assms(1,3)
    by (simp add: ring_wf_def audit_rows_def)
qed

section \<open>Witnesses\<close>

definition blank_row :: usage_request_row where
  "blank_row = request_row 0 0 [] 0 0 0 0 0 0 None None"

definition demo_meter :: "int \<Rightarrow> unit usage_meter" where
  "demo_meter n = \<lparr>um_ps = True, um_rl = None, um_last_rollover_day = 0, um_accs = [], um_provs = [], um_reqs = 0, um_errs = 0,
     um_toks = 0, um_cached_toks = 0, um_reasoning_toks = 0, um_req_ring = Some (replicate UM_REQ_CAP blank_row),
     um_req_head = 0, um_req_tail = n, um_req_dropped = 0\<rparr>"

lemma demo_meter: "0 \<le> n \<Longrightarrow> n \<le> int UM_REQ_CAP \<Longrightarrow> ring_wf (demo_meter n) \<and> length (audit_rows (demo_meter n)) = nat n"
  by (simp add: demo_meter_def ring_wf_def audit_rows_def)

lemma audit_requeue_keeps_order_witness:
  "\<exists>um1 um2. um_drain_requests (demo_meter 10) 4 = (um1, take 4 (audit_rows (demo_meter 10))) \<and>
     ring_pushes um1 [blank_row] = Some um2 \<and> length (audit_rows (um_requeue_requests um2 4)) = 11"
proof -
  have wf: "ring_wf (demo_meter 10)" "length (audit_rows (demo_meter 10)) = 10"
    using demo_meter [of 10] by (simp_all add: UM_REQ_CAP_def)
  from drain_requests_ok [OF wf(1), of 4] obtain um1 where
    d: "um_drain_requests (demo_meter 10) 4 = (um1, take 4 (audit_rows (demo_meter 10)))"
    "audit_rows um1 = drop 4 (audit_rows (demo_meter 10))" by blast
  have "length (audit_rows um1) + length [blank_row] \<le> UM_REQ_CAP" using d(2) wf(2) by (simp add: UM_REQ_CAP_def)
  moreover have "um_req_tail (demo_meter 10) + int (length [blank_row]) \<le> 2147483647" by (simp add: demo_meter_def)
  ultimately obtain um2 where "ring_pushes um1 [blank_row] = Some um2"
    "audit_rows (um_requeue_requests um2 (length (take 4 (audit_rows (demo_meter 10))))) = last_n UM_REQ_CAP (audit_rows (demo_meter 10) @ [blank_row])"
    using audit_requeue_keeps_order [OF wf(1) d(1)] by blast
  with d(1) wf(2) show ?thesis by (intro exI [of _ um1] exI [of _ um2]) (simp add: UM_REQ_CAP_def)
qed

lemma audit_full_ring_overwrites_oldest_witness:
  "\<exists>um'. um_record_full hdr known (demo_meter 4096) 7 1 ''m'' 200 0 0 0 0 0 None None = Some um' \<and>
     hd (audit_rows um') = request_row 7 1 ''m'' 200 0 0 0 0 0 None None \<and> um_req_dropped um' = 1"
proof -
  have wf: "ring_wf (demo_meter 4096)" "length (audit_rows (demo_meter 4096)) = UM_REQ_CAP"
    using demo_meter [of 4096] by (simp_all add: UM_REQ_CAP_def)
  have "um_req_tail (demo_meter 4096) < 2147483647" "um_req_dropped (demo_meter 4096) = 0" by (simp_all add: demo_meter_def)
  with audit_full_ring_overwrites_oldest [OF wf this(1), of hdr known 7 1 "''m''" 200 0 0 0 0 0 None None] show ?thesis by auto
qed

end
