(* ===== verification/Redis_Pool.thy ===== *)
theory Redis_Pool
  imports Prelude "HOL-Library.Multiset"
begin

text \<open>
  The pool of Redis connections of \<^verbatim>\<open>src/store/redis_pool.c\<close>. An acquisition and a release are several
  atomic steps around the lock, and the connection is checked, reconnected or opened between them, so
  each step is a definition, and a run of the pool is a list of events of any number of threads. A
  connection is a number, given out by \<^verbatim>\<open>redis_connect_url\<close> in increasing order; whether a connection has
  failed, and whether a reconnection or a connection succeeds, is the choice of the event.
\<close>

section \<open>The pool\<close>

record redis_pool =
  rp_url :: string
  rp_capacity :: nat
  rp_timeout_ms :: int
  rp_count :: int
  rp_idle_count :: nat
  rp_stack :: "nat option list"

text \<open>\<open>conn\<close> is the result of the first connection.\<close>

definition redis_pool_create :: "string option \<Rightarrow> int \<Rightarrow> int \<Rightarrow> nat option \<Rightarrow> redis_pool option" where
  "redis_pool_create url pool_size timeout_ms conn =
     (case url of
        None \<Rightarrow> None
      | Some u \<Rightarrow>
          if u = [] \<or> pool_size \<le> 0 then None
          else let size = (if pool_size > 512 then 512 else pool_size);
                   timeout = (if timeout_ms \<le> 0 then 100 else timeout_ms)
               in (case conn of
                     None \<Rightarrow> None
                   | Some c \<Rightarrow> Some \<lparr>rp_url = cstr_copy 512 u, rp_capacity = nat size, rp_timeout_ms = timeout,
                       rp_count = 1, rp_idle_count = 1, rp_stack = (replicate (nat size) None)[0 := Some c]\<rparr>))"

definition redis_pool_capacity :: "redis_pool option \<Rightarrow> nat" where
  "redis_pool_capacity p = (case p of None \<Rightarrow> 0 | Some q \<Rightarrow> rp_capacity q)"

text \<open>The first critical section of \<^verbatim>\<open>redis_pool_acquire\<close>: wait, take an idle connection, or open a new one.\<close>

datatype pool_take = Pool_Wait | Pool_Idle "nat option" | Pool_New

definition pool_must_wait :: "redis_pool \<Rightarrow> bool" where
  "pool_must_wait p \<longleftrightarrow> rp_idle_count p = 0 \<and> rp_count p \<ge> int (rp_capacity p)"

definition pool_acquire_take :: "redis_pool \<Rightarrow> redis_pool \<times> pool_take" where
  "pool_acquire_take p =
     (if pool_must_wait p then (p, Pool_Wait)
      else if rp_idle_count p > 0
      then (p\<lparr>rp_idle_count := rp_idle_count p - 1\<rparr>, Pool_Idle (rp_stack p ! (rp_idle_count p - 1)))
      else (p\<lparr>rp_count := rp_count p + 1\<rparr>, Pool_New))"

text \<open>The critical section after a failed reconnection or connection.\<close>

definition pool_drop_count :: "redis_pool \<Rightarrow> redis_pool" where
  "pool_drop_count p = p\<lparr>rp_count := rp_count p - 1\<rparr>"

text \<open>The last critical section of \<^verbatim>\<open>redis_pool_release\<close>; false when the connection is freed.\<close>

definition pool_release_put :: "redis_pool \<Rightarrow> nat \<Rightarrow> redis_pool \<times> bool" where
  "pool_release_put p c =
     (if rp_idle_count p < rp_capacity p
      then (p\<lparr>rp_stack := (rp_stack p)[rp_idle_count p := Some c], rp_idle_count := rp_idle_count p + 1\<rparr>, True)
      else (pool_drop_count p, False))"

section \<open>Runs\<close>

text \<open>The pool, the connections taken and not yet checked, the threads that open a counted connection,
  the threads that open one after a failed reconnection, the connections handed out, those being
  released, and the next connection.\<close>

record pool_sys =
  ps_pool :: redis_pool
  ps_checking :: "nat list"
  ps_opening :: nat
  ps_reopening :: nat
  ps_held :: "nat list"
  ps_releasing :: "nat list"
  ps_next :: nat

datatype pool_event =
    Ev_Take
  | Ev_Check_Ok nat
  | Ev_Check_Failed nat
  | Ev_Reopened bool
  | Ev_Opened bool
  | Ev_Release nat
  | Ev_Release_Failed nat
  | Ev_Release_Put nat

definition pool_do_take :: "pool_sys \<Rightarrow> pool_sys option" where
  "pool_do_take s =
     (case pool_acquire_take (ps_pool s) of
        (p, Pool_Wait) \<Rightarrow> Some s
      | (p, Pool_Idle c) \<Rightarrow> (case c of None \<Rightarrow> None | Some c \<Rightarrow> Some (s\<lparr>ps_pool := p, ps_checking := c # ps_checking s\<rparr>))
      | (p, Pool_New) \<Rightarrow> Some (s\<lparr>ps_pool := p, ps_opening := ps_opening s + 1\<rparr>))"

text \<open>\<open>None\<close> is an event that cannot happen, or a NULL connection taken from the stack.\<close>

fun pool_do :: "pool_event \<Rightarrow> pool_sys \<Rightarrow> pool_sys option" where
  "pool_do Ev_Take s = pool_do_take s"
| "pool_do (Ev_Check_Ok c) s =
     (if c \<in> set (ps_checking s)
      then Some (s\<lparr>ps_checking := remove1 c (ps_checking s), ps_held := c # ps_held s\<rparr>) else None)"
| "pool_do (Ev_Check_Failed c) s =
     (if c \<in> set (ps_checking s)
      then Some (s\<lparr>ps_checking := remove1 c (ps_checking s), ps_pool := pool_drop_count (ps_pool s),
        ps_reopening := ps_reopening s + 1\<rparr>) else None)"
| "pool_do (Ev_Reopened ok) s =
     (if ps_reopening s = 0 then None
      else if ok then Some (s\<lparr>ps_reopening := ps_reopening s - 1, ps_held := ps_next s # ps_held s, ps_next := ps_next s + 1\<rparr>)
      else Some (s\<lparr>ps_reopening := ps_reopening s - 1\<rparr>))"
| "pool_do (Ev_Opened ok) s =
     (if ps_opening s = 0 then None
      else if ok then Some (s\<lparr>ps_opening := ps_opening s - 1, ps_held := ps_next s # ps_held s, ps_next := ps_next s + 1\<rparr>)
      else Some (s\<lparr>ps_opening := ps_opening s - 1, ps_pool := pool_drop_count (ps_pool s)\<rparr>))"
| "pool_do (Ev_Release c) s =
     (if c \<in> set (ps_held s)
      then Some (s\<lparr>ps_held := remove1 c (ps_held s), ps_releasing := c # ps_releasing s\<rparr>) else None)"
| "pool_do (Ev_Release_Failed c) s =
     (if c \<in> set (ps_releasing s)
      then Some (s\<lparr>ps_releasing := remove1 c (ps_releasing s), ps_pool := pool_drop_count (ps_pool s)\<rparr>) else None)"
| "pool_do (Ev_Release_Put c) s =
     (if c \<in> set (ps_releasing s)
      then Some (s\<lparr>ps_releasing := remove1 c (ps_releasing s), ps_pool := fst (pool_release_put (ps_pool s) c)\<rparr>) else None)"

fun pool_run :: "pool_event list \<Rightarrow> pool_sys \<Rightarrow> pool_sys option" where
  "pool_run [] s = Some s"
| "pool_run (e # es) s = (case pool_do e s of None \<Rightarrow> None | Some t \<Rightarrow> pool_run es t)"

definition pool_start :: "redis_pool \<Rightarrow> pool_sys" where
  "pool_start p = \<lparr>ps_pool = p, ps_checking = [], ps_opening = 0, ps_reopening = 0, ps_held = [], ps_releasing = [], ps_next = 1\<rparr>"

lemma pool_run_append:
  "pool_run (es @ fs) s = (case pool_run es s of None \<Rightarrow> None | Some t \<Rightarrow> pool_run fs t)"
  by (induction es arbitrary: s) (simp_all split: option.split)

section \<open>The invariant\<close>

definition pool_idle :: "redis_pool \<Rightarrow> nat option list" where
  "pool_idle p = take (rp_idle_count p) (rp_stack p)"

text \<open>The connections that exist, by where they are.\<close>

definition pool_conns :: "pool_sys \<Rightarrow> nat option list" where
  "pool_conns s = pool_idle (ps_pool s) @ map Some (ps_checking s @ ps_held s @ ps_releasing s)"

text \<open>Open connections, and those being opened.\<close>

definition pool_open :: "pool_sys \<Rightarrow> nat" where
  "pool_open s = length (pool_conns s) + ps_opening s + ps_reopening s"

definition pool_inv :: "pool_sys \<Rightarrow> bool" where
  "pool_inv s \<longleftrightarrow> length (rp_stack (ps_pool s)) = rp_capacity (ps_pool s) \<and>
     rp_idle_count (ps_pool s) \<le> rp_capacity (ps_pool s) \<and> distinct (pool_conns s) \<and>
     (\<forall>c \<in> set (pool_conns s). \<exists>n. c = Some n \<and> n < ps_next s) \<and>
     rp_count (ps_pool s) \<le> int (rp_capacity (ps_pool s))"

lemma distinct_submset:
  assumes "mset ys \<subseteq># mset xs" "distinct xs"
  shows "distinct ys"
  unfolding distinct_count_atmost_1
proof
  fix a
  from assms(1) have "count (mset ys) a \<le> count (mset xs) a" by (rule mset_subset_eq_count)
  also from assms(2) have "\<dots> \<le> 1" by (simp add: distinct_count_atmost_1)
  finally have le: "count (mset ys) a \<le> 1" .
  show "count (mset ys) a = (if a \<in> set ys then 1 else 0)"
  proof (cases "a \<in> set ys")
    case True
    then have "0 < count (mset ys) a" by simp
    with le have "count (mset ys) a = 1" by linarith
    with True show ?thesis by simp
  qed simp
qed

text \<open>An event moves or frees connections, or adds a new one.\<close>

definition conns_step :: "pool_sys \<Rightarrow> pool_sys \<Rightarrow> bool" where
  "conns_step s t \<longleftrightarrow>
     (mset (pool_conns t) \<subseteq># mset (pool_conns s) \<and> ps_next t = ps_next s) \<or>
     (mset (pool_conns t) = add_mset (Some (ps_next s)) (mset (pool_conns s)) \<and> ps_next t = ps_next s + 1)"

lemma pool_conns_mset:
  "mset (pool_conns s) = mset (pool_idle (ps_pool s)) +
     image_mset Some (mset (ps_checking s) + mset (ps_held s) + mset (ps_releasing s))"
  by (simp add: pool_conns_def)

lemma mset_remove1_Some: "c \<in> set xs \<Longrightarrow> add_mset (Some c) (image_mset Some (mset xs - {#c#})) = image_mset Some (mset xs)"
  by (metis image_mset_add_mset insert_DiffM set_mset_mset)

lemma submset_remove1_Some: "image_mset Some (M - {#c#}) \<subseteq># image_mset Some M"
  by (rule image_mset_subseteq_mono) simp

lemma pool_idle_pop:
  assumes "0 < rp_idle_count p" "rp_idle_count p \<le> length (rp_stack p)"
  shows "pool_idle p = pool_idle (p\<lparr>rp_idle_count := rp_idle_count p - 1\<rparr>) @ [rp_stack p ! (rp_idle_count p - 1)]"
  using assms take_Suc_conv_app_nth [of "rp_idle_count p - 1" "rp_stack p"] by (simp add: pool_idle_def)

lemma pool_idle_push:
  assumes "rp_idle_count p < length (rp_stack p)"
  shows "pool_idle (p\<lparr>rp_stack := (rp_stack p)[rp_idle_count p := Some c], rp_idle_count := rp_idle_count p + 1\<rparr>) =
    pool_idle p @ [Some c]"
  using assms by (simp add: pool_idle_def take_Suc_conv_app_nth)

lemma pool_idle_drop [simp]: "pool_idle (pool_drop_count p) = pool_idle p"
  by (simp add: pool_idle_def pool_drop_count_def)

lemma pool_drop_count_sel [simp]:
  "rp_stack (pool_drop_count p) = rp_stack p" "rp_capacity (pool_drop_count p) = rp_capacity p"
  "rp_idle_count (pool_drop_count p) = rp_idle_count p" "rp_count (pool_drop_count p) = rp_count p - 1"
  by (simp_all add: pool_drop_count_def)

lemma size_conns: "length (pool_conns s) =
   rp_idle_count (ps_pool s) + length (ps_checking s) + length (ps_held s) + length (ps_releasing s)"
  if "rp_idle_count (ps_pool s) \<le> length (rp_stack (ps_pool s))"
  using that by (simp add: pool_conns_def pool_idle_def)

text \<open>The shape of the pool is kept.\<close>

definition pool_shape :: "pool_sys \<Rightarrow> bool" where
  "pool_shape s \<longleftrightarrow> length (rp_stack (ps_pool s)) = rp_capacity (ps_pool s) \<and>
     rp_idle_count (ps_pool s) \<le> rp_capacity (ps_pool s) \<and> rp_count (ps_pool s) \<le> int (rp_capacity (ps_pool s))"

lemma pool_inv_shape: "pool_inv s \<Longrightarrow> pool_shape s"
  by (simp add: pool_inv_def pool_shape_def)

text \<open>Failed checks: each lets one connection be opened that is not counted.\<close>

definition ev_drop :: "pool_event \<Rightarrow> nat" where
  "ev_drop e = (case e of Ev_Check_Failed c \<Rightarrow> 1 | _ \<Rightarrow> 0)"

definition pool_accounts :: "pool_sys \<Rightarrow> pool_event \<Rightarrow> pool_sys \<Rightarrow> bool" where
  "pool_accounts s e t \<longleftrightarrow> pool_shape t \<and> rp_capacity (ps_pool t) = rp_capacity (ps_pool s) \<and>
     int (pool_open t) - rp_count (ps_pool t) \<le> int (pool_open s) - rp_count (ps_pool s) + int (ev_drop e)"

lemma length_remove1_int: "c \<in> set xs \<Longrightarrow> int (length (remove1 c xs)) = int (length xs) - 1"
  by (induction xs) auto

lemma pool_take_accounts:
  assumes "pool_shape s" "pool_do_take s = Some t"
  shows "pool_accounts s Ev_Take t"
  using assms
  by (auto simp: pool_do_take_def pool_acquire_take_def pool_must_wait_def pool_accounts_def pool_shape_def pool_open_def
      size_conns ev_drop_def split: if_splits option.splits)

lemma pool_do_accounts:
  assumes "pool_shape s" "pool_do e s = Some t"
  shows "pool_accounts s e t"
proof (cases e)
  case Ev_Take
  with assms pool_take_accounts show ?thesis by simp
qed (use assms in \<open>auto simp: pool_release_put_def pool_accounts_def pool_shape_def pool_open_def
      size_conns ev_drop_def length_remove1_int split: if_splits\<close>)

lemma pool_take_conns:
  assumes "pool_inv s" "pool_do_take s = Some t"
  shows "conns_step s t"
proof (cases "pool_must_wait (ps_pool s) \<or> rp_idle_count (ps_pool s) = 0")
  case True
  with assms(2) have "pool_conns t = pool_conns s" "ps_next t = ps_next s"
    by (auto simp: pool_do_take_def pool_acquire_take_def pool_conns_def pool_idle_def split: if_splits)
  then show ?thesis by (simp add: conns_step_def)
next
  case False
  then have "0 < rp_idle_count (ps_pool s)" by simp
  moreover from assms(1) have "rp_idle_count (ps_pool s) \<le> length (rp_stack (ps_pool s))" by (simp add: pool_inv_def)
  ultimately have "mset (pool_idle (ps_pool s)) = add_mset (rp_stack (ps_pool s) ! (rp_idle_count (ps_pool s) - 1))
      (mset (pool_idle ((ps_pool s)\<lparr>rp_idle_count := rp_idle_count (ps_pool s) - 1\<rparr>)))"
    by (subst pool_idle_pop) simp_all
  with False assms(2) show ?thesis
    by (auto simp: pool_do_take_def pool_acquire_take_def conns_step_def pool_conns_mset split: option.splits)
qed

lemma pool_do_conns:
  assumes "pool_inv s" "pool_do e s = Some t"
  shows "conns_step s t"
proof (cases e)
  case Ev_Take
  with assms pool_take_conns show ?thesis by simp
next
  case (Ev_Release_Put c)
  have "mset (pool_idle (fst (pool_release_put (ps_pool s) c))) \<subseteq># add_mset (Some c) (mset (pool_idle (ps_pool s)))"
    using assms(1) pool_idle_push [of "ps_pool s" c] by (auto simp: pool_release_put_def pool_inv_def)
  then have "mset (pool_idle (fst (pool_release_put (ps_pool s) c))) + image_mset Some (mset (ps_releasing s) - {#c#}) \<subseteq>#
      add_mset (Some c) (mset (pool_idle (ps_pool s))) + image_mset Some (mset (ps_releasing s) - {#c#})"
    by (rule mset_subset_eq_mono_add) simp
  moreover have c: "c \<in> set (ps_releasing s)" using assms(2) Ev_Release_Put by (auto split: if_splits)
  ultimately have "mset (pool_idle (fst (pool_release_put (ps_pool s) c))) + image_mset Some (mset (ps_releasing s) - {#c#}) \<subseteq>#
      mset (pool_idle (ps_pool s)) + image_mset Some (mset (ps_releasing s))"
    by (simp flip: mset_remove1_Some [OF c])
  moreover have "t = s\<lparr>ps_releasing := remove1 c (ps_releasing s), ps_pool := fst (pool_release_put (ps_pool s) c)\<rparr>"
    using assms(2) Ev_Release_Put c by simp
  ultimately show ?thesis by (simp add: conns_step_def pool_conns_mset)
qed (use assms in \<open>auto simp: conns_step_def pool_conns_mset mset_remove1_Some submset_remove1_Some split: if_splits\<close>)

lemma conns_step_inv:
  assumes "pool_inv s" "conns_step s t" "pool_shape t"
  shows "pool_inv t"
proof -
  have u: "distinct (pool_conns s)" "\<forall>c \<in> set (pool_conns s). \<exists>n. c = Some n \<and> n < ps_next s"
    using assms(1) by (simp_all add: pool_inv_def)
  from assms(2) have "distinct (pool_conns t) \<and> (\<forall>c \<in> set (pool_conns t). \<exists>n. c = Some n \<and> n < ps_next t)"
    unfolding conns_step_def
  proof
    assume a: "mset (pool_conns t) \<subseteq># mset (pool_conns s) \<and> ps_next t = ps_next s"
    then have "set (pool_conns t) \<subseteq> set (pool_conns s)" by (metis set_mset_mono set_mset_mset)
    with a u distinct_submset show ?thesis by (metis subset_iff)
  next
    assume a: "mset (pool_conns t) = add_mset (Some (ps_next s)) (mset (pool_conns s)) \<and> ps_next t = ps_next s + 1"
    then have m: "mset (pool_conns t) = mset (Some (ps_next s) # pool_conns s)" by simp
    have "Some (ps_next s) \<notin> set (pool_conns s)" using u(2) by auto
    then have "distinct (pool_conns t)" using u(1) mset_eq_imp_distinct_iff [OF m] by simp
    moreover have "set (pool_conns t) = insert (Some (ps_next s)) (set (pool_conns s))" using mset_eq_setD [OF m] by simp
    ultimately show ?thesis using a u(2) less_SucI by auto
  qed
  with assms(3) show ?thesis by (simp add: pool_inv_def pool_shape_def)
qed

lemma pool_do_inv: "pool_inv s \<Longrightarrow> pool_do e s = Some t \<Longrightarrow> pool_inv t"
  using conns_step_inv pool_do_conns pool_do_accounts pool_inv_shape unfolding pool_accounts_def by blast

definition run_drops :: "pool_event list \<Rightarrow> nat" where
  "run_drops es = sum_list (map ev_drop es)"

lemma pool_run_inv:
  "pool_inv s \<Longrightarrow> pool_run es s = Some t \<Longrightarrow> pool_inv t \<and> rp_capacity (ps_pool t) = rp_capacity (ps_pool s) \<and>
     int (pool_open t) - rp_count (ps_pool t) \<le> int (pool_open s) - rp_count (ps_pool s) + int (run_drops es)"
proof (induction es arbitrary: s)
  case (Cons e es)
  then obtain u where u: "pool_do e s = Some u" "pool_run es u = Some t" by (auto split: option.splits)
  from pool_do_accounts [OF pool_inv_shape [OF Cons.prems(1)] u(1)]
  have "rp_capacity (ps_pool u) = rp_capacity (ps_pool s)"
    "int (pool_open u) - rp_count (ps_pool u) \<le> int (pool_open s) - rp_count (ps_pool s) + int (ev_drop e)"
    by (simp_all add: pool_accounts_def)
  with Cons.IH [OF pool_do_inv [OF Cons.prems(1) u(1)] u(2)] show ?case by (simp add: run_drops_def)
qed (simp add: run_drops_def)

lemma pool_start_inv:
  assumes "redis_pool_create url n timeout (Some 0) = Some p"
  shows "pool_inv (pool_start p) \<and> pool_open (pool_start p) = 1 \<and> rp_count p = 1 \<and> 0 < rp_capacity p"
proof -
  from assms obtain k where n: "0 < k" "p = \<lparr>rp_url = rp_url p, rp_capacity = k, rp_timeout_ms = rp_timeout_ms p,
      rp_count = 1, rp_idle_count = 1, rp_stack = (replicate k None)[0 := Some 0]\<rparr>"
    by (auto simp: redis_pool_create_def Let_def split: option.splits if_splits)
  then obtain m where m: "k = Suc m" by (cases k) auto
  have "pool_idle p = [Some 0]" by (subst n(2)) (simp add: pool_idle_def m)
  then have "pool_conns (pool_start p) = [Some 0]" by (simp add: pool_conns_def pool_start_def)
  moreover have "rp_capacity p = k" "rp_stack p = (replicate k None)[0 := Some 0]" "rp_idle_count p = 1" "rp_count p = 1"
    by (subst n(2), simp)+
  ultimately show ?thesis using n(1) by (simp add: pool_inv_def pool_open_def) (simp add: pool_start_def)
qed

section \<open>Properties\<close>

text \<open>C28. Whatever the threads do, no connection is handed to two of them or is idle while one uses it, the
  stack is never written or read outside, and there are never more connections than the capacity and
  the number of connections that failed their check.\<close>

theorem redis_pool_exclusive:
  assumes "redis_pool_create url n timeout (Some 0) = Some p" "pool_run es (pool_start p) = Some s"
  shows "distinct (pool_idle (ps_pool s) @ map Some (ps_checking s @ ps_held s @ ps_releasing s)) \<and>
    rp_idle_count (ps_pool s) \<le> length (rp_stack (ps_pool s)) \<and>
    pool_open s \<le> rp_capacity p + run_drops es"
proof -
  note start = pool_start_inv [OF assms(1)]
  from pool_run_inv [OF conjunct1 [OF start] assms(2)]
  have inv: "pool_inv s" and cap: "rp_capacity (ps_pool s) = rp_capacity p"
    and acc: "int (pool_open s) - rp_count (ps_pool s) \<le> int (run_drops es)"
    using start by (simp_all add: pool_start_def)
  from inv have "rp_count (ps_pool s) \<le> int (rp_capacity (ps_pool s))" by (simp add: pool_inv_def)
  with acc cap have "pool_open s \<le> rp_capacity p + run_drops es" by simp
  with inv show ?thesis unfolding pool_inv_def pool_conns_def by simp
qed


text \<open>A pool of two; two threads hold its connections.\<close>

lemma redis_pool_exclusive_witness:
  "2 \<le> rp_capacity (the (redis_pool_create (Some ''r'') 2 0 (Some 0))) \<and>
    rp_idle_count (ps_pool (the (pool_run [Ev_Take, Ev_Take, Ev_Opened True, Ev_Check_Ok 0]
      (pool_start (the (redis_pool_create (Some ''r'') 2 0 (Some 0))))))) \<le> 2"
proof -
  let ?p = "the (redis_pool_create (Some ''r'') 2 0 (Some 0))"
  let ?es = "[Ev_Take, Ev_Take, Ev_Opened True, Ev_Check_Ok 0]"
  have 1: "redis_pool_create (Some ''r'') 2 0 (Some 0) = Some ?p" by code_simp
  have 2: "pool_run ?es (pool_start ?p) = Some (the (pool_run ?es (pool_start ?p)))" by code_simp
  have "length (rp_stack (ps_pool (the (pool_run ?es (pool_start ?p))))) = 2" by code_simp
  moreover have "pool_open (the (pool_run ?es (pool_start ?p))) = 2" "run_drops ?es = 0" by code_simp+
  ultimately show ?thesis using redis_pool_exclusive [OF 1 2] by simp
qed

text \<open>A round that loses a count.\<close>

definition pool_rest :: "pool_sys \<Rightarrow> nat \<Rightarrow> bool" where
  "pool_rest s c \<longleftrightarrow> ps_checking s = [] \<and> ps_opening s = 0 \<and> ps_reopening s = 0 \<and> ps_held s = [] \<and> ps_releasing s = [] \<and>
     rp_idle_count (ps_pool s) = 1 \<and> rp_stack (ps_pool s) ! 0 = Some c \<and>
     length (rp_stack (ps_pool s)) = rp_capacity (ps_pool s) \<and> 0 < rp_capacity (ps_pool s)"

definition lose_round :: "nat \<Rightarrow> nat \<Rightarrow> pool_event list" where
  "lose_round c n = [Ev_Take, Ev_Check_Failed c, Ev_Reopened True, Ev_Release n, Ev_Release_Put n]"

lemma lose_round_run:
  assumes "pool_rest s c"
  shows "\<exists>t. pool_run (lose_round c (ps_next s)) s = Some t \<and> pool_rest t (ps_next s) \<and>
    rp_count (ps_pool t) = rp_count (ps_pool s) - 1 \<and> rp_capacity (ps_pool t) = rp_capacity (ps_pool s)"
  using assms by (auto simp: lose_round_def pool_rest_def pool_do_take_def pool_acquire_take_def pool_must_wait_def
      pool_release_put_def)

lemma lose_rounds_run:
  "pool_rest s c \<Longrightarrow> \<exists>es t d. pool_run es s = Some t \<and> run_drops es = k \<and> pool_rest t d \<and>
    rp_count (ps_pool t) = rp_count (ps_pool s) - int k \<and> rp_capacity (ps_pool t) = rp_capacity (ps_pool s)"
proof (induction k arbitrary: s c)
  case 0
  then show ?case by (intro exI [of _ "[]"] exI [of _ s] exI [of _ c]) (simp add: run_drops_def)
next
  case (Suc k)
  from lose_round_run [OF Suc.prems] obtain u where u: "pool_run (lose_round c (ps_next s)) s = Some u"
    "pool_rest u (ps_next s)" "rp_count (ps_pool u) = rp_count (ps_pool s) - 1"
    "rp_capacity (ps_pool u) = rp_capacity (ps_pool s)" by blast
  from Suc.IH [OF u(2)] obtain es t d where t: "pool_run es u = Some t" "run_drops es = k" "pool_rest t d"
    "rp_count (ps_pool t) = rp_count (ps_pool u) - int k" "rp_capacity (ps_pool t) = rp_capacity (ps_pool u)" by blast
  have "pool_run (lose_round c (ps_next s) @ es) s = Some t" using u(1) t(1) by (simp add: pool_run_append)
  moreover have "run_drops (lose_round c (ps_next s) @ es) = Suc k" using t(2) by (simp add: run_drops_def lose_round_def ev_drop_def)
  moreover have "rp_count (ps_pool t) = rp_count (ps_pool s) - int (Suc k)" "rp_capacity (ps_pool t) = rp_capacity (ps_pool s)"
    using t(4,5) u(3,4) by simp_all
  ultimately show ?case using t(3) by blast
qed

lemma open_run:
  "rp_idle_count (ps_pool s) = 0 \<Longrightarrow> rp_count (ps_pool s) + int m \<le> int (rp_capacity (ps_pool s)) \<Longrightarrow> ps_opening s = 0 \<Longrightarrow>
    \<exists>es t. pool_run es s = Some t \<and> run_drops es = 0 \<and> length (ps_held t) = length (ps_held s) + m"
proof (induction m arbitrary: s)
  case 0
  then show ?case by (intro exI [of _ "[]"] exI [of _ s]) (simp add: run_drops_def)
next
  case (Suc m)
  from Suc.prems obtain u where u: "pool_run [Ev_Take, Ev_Opened True] s = Some u" "rp_idle_count (ps_pool u) = 0"
    "rp_count (ps_pool u) = rp_count (ps_pool s) + 1" "ps_opening u = 0" "length (ps_held u) = Suc (length (ps_held s))"
    "rp_capacity (ps_pool u) = rp_capacity (ps_pool s)"
    by (auto simp: pool_do_take_def pool_acquire_take_def pool_must_wait_def)
  with Suc.IH [of u] Suc.prems obtain es t where "pool_run es u = Some t" "run_drops es = 0"
    "length (ps_held t) = length (ps_held u) + m" by auto
  then have "pool_run ([Ev_Take, Ev_Opened True] @ es) s = Some t \<and> run_drops ([Ev_Take, Ev_Opened True] @ es) = 0 \<and>
      length (ps_held t) = length (ps_held s) + Suc m"
    using u unfolding pool_run_append by (simp add: run_drops_def ev_drop_def)
  then show ?case by blast
qed

text \<open>The limit of the pool is not kept: every connection that fails its check in an acquisition, and is
  replaced by a new one, raises the number of connections in use at once by one, for ever.\<close>

theorem redis_pool_limit_lost:
  assumes "redis_pool_create url n timeout (Some 0) = Some p"
  shows "\<exists>es s. pool_run es (pool_start p) = Some s \<and> run_drops es = k \<and> length (ps_held s) = rp_capacity p + k"
proof -
  note start = pool_start_inv [OF assms]
  from assms have "pool_rest (pool_start p) 0"
    by (auto simp: redis_pool_create_def pool_rest_def pool_start_def Let_def nth_list_update split: option.splits if_splits)
  from lose_rounds_run [OF this, of k] obtain es u d where u: "pool_run es (pool_start p) = Some u" "run_drops es = k"
    "pool_rest u d" "rp_count (ps_pool u) = 1 - int k" "rp_capacity (ps_pool u) = rp_capacity p"
    using start by (auto simp: pool_start_def)
  from u(3) obtain v where v: "pool_run [Ev_Take, Ev_Check_Ok d] u = Some v" "ps_held v = [d]"
    "rp_idle_count (ps_pool v) = 0" "rp_count (ps_pool v) = rp_count (ps_pool u)"
    "rp_capacity (ps_pool v) = rp_capacity (ps_pool u)" "ps_opening v = 0"
    by (auto simp: pool_rest_def pool_do_take_def pool_acquire_take_def pool_must_wait_def)
  obtain fs t where t: "pool_run fs v = Some t" "run_drops fs = 0" "length (ps_held t) = 1 + (rp_capacity p + k - 1)"
    using open_run [OF v(3) _ v(6), of "rp_capacity p + k - 1"] v u start by auto
  have "pool_run (es @ [Ev_Take, Ev_Check_Ok d] @ fs) (pool_start p) = Some t"
    using u(1) v(1) t(1) unfolding pool_run_append by simp
  moreover have "run_drops (es @ [Ev_Take, Ev_Check_Ok d] @ fs) = k"
    using u(2) t(2) by (simp add: run_drops_def ev_drop_def)
  moreover have "length (ps_held t) = rp_capacity p + k" using t(3) start by simp
  ultimately show ?thesis by blast
qed

text \<open>Four connections of a pool of one.\<close>

lemma redis_pool_limit_lost_witness:
  "\<exists>es s. pool_run es (pool_start (the (redis_pool_create (Some ''r'') 1 0 (Some 0)))) = Some s \<and> length (ps_held s) = 4"
proof -
  let ?p = "the (redis_pool_create (Some ''r'') 1 0 (Some 0))"
  have "redis_pool_create (Some ''r'') 1 0 (Some 0) = Some ?p" by code_simp
  from redis_pool_limit_lost [OF this, of 3] obtain es s where
    s: "pool_run es (pool_start ?p) = Some s" "length (ps_held s) = rp_capacity ?p + 3" by blast
  moreover have "rp_capacity ?p = 1" by code_simp
  ultimately have "length (ps_held s) = 4" by simp
  with s(1) show ?thesis by blast
qed

end
