(* ===== verification/Hedged.thy ===== *)
theory Hedged
  imports Latency_Tracker
begin

text \<open>
  The hedged call of \<^verbatim>\<open>src/upstream/upstream_hedged.c\<close>: a coordinator starts a worker for the primary
  target, after a delay a second one for the secondary target, and returns the answer of the first to
  succeed. The three threads share a control block with a reference count. Each critical section, and
  each part of a worker outside one, is a definition; the relation \<open>race_step\<close> interleaves them. What
  libcurl delivers to a worker, the success of allocations and of thread creation, and the clock are
  choices of the steps. An access to the control block after it was freed sets \<open>hs_bad\<close>.
\<close>

section \<open>Requests\<close>

definition HEDGED_MAX_EXTRA_HEADERS :: nat where "HEDGED_MAX_EXTRA_HEADERS = 16"
definition RESP_MAX_LEN :: nat where "RESP_MAX_LEN = 32 * 1024 * 1024"

text \<open>The fixed arrays of strings hold a bounded copy; a header is a name and a value, each may be NULL. An array
  of headers has 16 places, those the list does not hold are NULL; the number of headers is a field of its own,
  which the code nowhere compares with the size of the array.\<close>

record endpoint_spec =
  es_url :: string
  es_key :: string
  es_endpoint :: string
  es_payload :: "string option"
  es_extra_headers :: "(string option \<times> string option) list"
  es_n_extra_headers :: int

record call_params =
  cp_model :: "string option"
  cp_primary :: endpoint_spec
  cp_secondary :: endpoint_spec
  cp_has_secondary :: bool
  cp_payload :: "string option"
  cp_timeout_ms :: int
  cp_delay_ms :: int
  cp_budget_pct :: int

record worker_ctx =
  wc_url :: string
  wc_key :: string
  wc_payload :: "string option"
  wc_extra_headers :: "(string option \<times> string option) list"
  wc_n_extra_headers :: int
  wc_timeout_ms :: int

definition header_at :: "(string option \<times> string option) list \<Rightarrow> nat \<Rightarrow> string option \<times> string option" where
  "header_at hs i = (if i < length hs then hs ! i else (None, None))"

text \<open>\<open>payload_ok\<close> is the allocation of the payload. At most 16 headers are copied, the number is copied as it is.\<close>

definition worker_ctx_create :: "bool \<Rightarrow> endpoint_spec \<Rightarrow> call_params \<Rightarrow> worker_ctx" where
  "worker_ctx_create payload_ok spec params =
     (let p = (case es_payload spec of Some b \<Rightarrow> Some b | None \<Rightarrow> cp_payload params)
      in \<lparr>wc_url = cstr_copy 1024 (es_url spec), wc_key = cstr_copy 1024 (es_key spec),
          wc_payload = (case p of None \<Rightarrow> None | Some b \<Rightarrow> if b = [] \<or> \<not> payload_ok then None else Some b),
          wc_extra_headers = map (header_at (es_extra_headers spec))
            [0..<min (nat (es_n_extra_headers spec)) HEDGED_MAX_EXTRA_HEADERS],
          wc_n_extra_headers = es_n_extra_headers spec,
          wc_timeout_ms = (if cp_timeout_ms params > 0 then cp_timeout_ms params else 60000)\<rparr>)"

text \<open>The request headers of \<^verbatim>\<open>hedged_worker_run\<close>. \<open>None\<close> is a read outside the array of headers.\<close>

definition is_auth_header :: "string \<Rightarrow> bool" where
  "is_auth_header n \<longleftrightarrow> map to_lower n \<in> {''authorization'', ''x-api-key'', ''x-goog-api-key''}"

fun extra_lines ::
  "(string option \<times> string option) list \<Rightarrow> nat list \<Rightarrow> bool \<Rightarrow> string list \<Rightarrow> (bool \<times> string list) option" where
  "extra_lines hs [] has_auth hdrs = Some (has_auth, hdrs)"
| "extra_lines hs (i # is') has_auth hdrs =
     (if i \<ge> HEDGED_MAX_EXTRA_HEADERS then None
      else case header_at hs i of
        (Some n, Some v) \<Rightarrow> extra_lines hs is' (is_auth_header n \<or> has_auth) (hdrs @ [cstr_copy 1024 (n @ '': '' @ v)])
      | _ \<Rightarrow> extra_lines hs is' has_auth hdrs)"

definition worker_headers :: "worker_ctx \<Rightarrow> string list option" where
  "worker_headers ctx =
     (case extra_lines (wc_extra_headers ctx) [0..<nat (wc_n_extra_headers ctx)] False [] of
        None \<Rightarrow> None
      | Some (has_auth, hdrs) \<Rightarrow> Some (
          (if \<not> has_auth \<and> wc_key ctx \<noteq> [] then hdrs @ [cstr_copy 1080 (''Authorization: Bearer '' @ wc_key ctx)] else hdrs) @
          [''Content-Type: application/json'', ''Accept: application/json'']))"

text \<open>\<open>worker_ctx_free\<close> frees the pairs below the number; \<open>None\<close> as above.\<close>

fun free_headers :: "nat list \<Rightarrow> unit option" where
  "free_headers [] = Some ()"
| "free_headers (i # is') = (if i \<ge> HEDGED_MAX_EXTRA_HEADERS then None else free_headers is')"

definition worker_ctx_free :: "worker_ctx \<Rightarrow> unit option" where
  "worker_ctx_free ctx = free_headers [0..<nat (wc_n_extra_headers ctx)]"

text \<open>Phases 1 and 2: whether to hedge, and after which delay. \<open>lt\<close> is \<open>None\<close> without a latency tracker.\<close>

definition hedge_eligible :: "latency_tracker option \<Rightarrow> call_params \<Rightarrow> latency_tracker option \<times> bool" where
  "hedge_eligible lt params =
     (if cp_has_secondary params \<and> es_url (cp_secondary params) \<noteq> []
      then (case lt of
              None \<Rightarrow> (None, True)
            | Some t \<Rightarrow>
                (case latency_tracker_hedge_admitted t (cp_model params)
                   (if cp_budget_pct params > 0 \<and> cp_budget_pct params \<le> 100 then cp_budget_pct params else 15) of
                   (t', ok) \<Rightarrow> (Some t', ok)))
      else (lt, False))"

definition hedge_delay :: "latency_tracker option \<Rightarrow> call_params \<Rightarrow> int" where
  "hedge_delay lt params =
     (let d = (case lt of
                 Some t \<Rightarrow>
                   if cp_delay_ms params \<le> 0
                   then let ep = (if es_endpoint (cp_primary params) \<noteq> [] then es_endpoint (cp_primary params)
                                  else es_url (cp_primary params));
                            p95 = sint (latency_tracker_get_p95_ms t (cp_model params) (Some ep))
                        in (if p95 < 50 then 50 else if p95 > 5000 then 5000 else p95)
                   else cp_delay_ms params
               | None \<Rightarrow> cp_delay_ms params)
      in if d \<le> 0 then 1000 else d)"

section \<open>The control block\<close>

record race_ctrl =
  rc_ref_count :: int
  rc_winning_idx :: int
  rc_cancel_flags :: "nat \<Rightarrow> bool"
  rc_done :: "nat \<Rightarrow> bool"
  rc_http_status :: "nat \<Rightarrow> int"
  rc_rc :: "nat \<Rightarrow> int"
  rc_resp_body :: "nat \<Rightarrow> string option"
  rc_lat_ns :: "nat \<Rightarrow> int"

definition race_ctrl_new :: race_ctrl where
  "race_ctrl_new = \<lparr>rc_ref_count = 1, rc_winning_idx = -1, rc_cancel_flags = (\<lambda>_. False), rc_done = (\<lambda>_. False),
     rc_http_status = (\<lambda>_. 0), rc_rc = (\<lambda>_. 0), rc_resp_body = (\<lambda>_. None), rc_lat_ns = (\<lambda>_. 0)\<rparr>"

text \<open>The length of a body; a NULL body has length 0.\<close>

definition resp_len :: "race_ctrl \<Rightarrow> nat \<Rightarrow> nat" where
  "resp_len c i = length (cstr_or_empty (rc_resp_body c i))"

text \<open>\<^verbatim>\<open>hedged_write_cb\<close>: \<open>None\<close> aborts the transfer.\<close>

definition hedged_write_cb :: "bool \<Rightarrow> nat \<Rightarrow> string \<Rightarrow> race_ctrl \<Rightarrow> race_ctrl option" where
  "hedged_write_cb realloc_ok idx chunk c =
     (if rc_cancel_flags c idx \<or> resp_len c idx + length chunk \<ge> RESP_MAX_LEN \<or> \<not> realloc_ok then None
      else Some (c\<lparr>rc_resp_body := (rc_resp_body c)(idx := Some (cstr_or_empty (rc_resp_body c idx) @ chunk))\<rparr>))"

datatype curl_code = CURLE_OK | CURLE_OPERATION_TIMEDOUT | Curl_other

text \<open>Step 4 of a worker.\<close>

definition worker_finish :: "nat \<Rightarrow> curl_code \<Rightarrow> int \<Rightarrow> int \<Rightarrow> race_ctrl \<Rightarrow> race_ctrl" where
  "worker_finish idx code status lat c =
     (let rc = (case code of CURLE_OK \<Rightarrow> 0 | CURLE_OPERATION_TIMEDOUT \<Rightarrow> -110 | Curl_other \<Rightarrow> -502);
          c1 = c\<lparr>rc_http_status := (rc_http_status c)(idx := status), rc_lat_ns := (rc_lat_ns c)(idx := lat),
                 rc_rc := (rc_rc c)(idx := rc), rc_done := (rc_done c)(idx := True)\<rparr>
      in if rc = 0 \<and> status = 200 \<and> rc_winning_idx c1 = -1
         then c1\<lparr>rc_winning_idx := int idx, rc_cancel_flags := (rc_cancel_flags c1)(1 - idx := True)\<rparr>
         else c1)"

text \<open>A worker whose libcurl session could not be created.\<close>

definition worker_no_session :: "nat \<Rightarrow> race_ctrl \<Rightarrow> race_ctrl" where
  "worker_no_session idx c = c\<lparr>rc_rc := (rc_rc c)(idx := -502), rc_done := (rc_done c)(idx := True)\<rparr>"

record call_result =
  cr_status :: int
  cr_body :: "string option"
  cr_body_len :: nat
  cr_winning_target_idx :: nat
  cr_latency_ns :: int
  cr_rc :: int

text \<open>Phase 6: the result of target \<open>i\<close>; its body goes to the caller.\<close>

definition take_result :: "nat \<Rightarrow> race_ctrl \<Rightarrow> race_ctrl \<times> call_result" where
  "take_result i c =
     (c\<lparr>rc_resp_body := (rc_resp_body c)(i := None)\<rparr>,
      \<lparr>cr_status = rc_http_status c i, cr_body = rc_resp_body c i, cr_body_len = resp_len c i,
       cr_winning_target_idx = i, cr_latency_ns = rc_lat_ns c i, cr_rc = rc_rc c i\<rparr>)"

definition cancel_loser :: "bool \<Rightarrow> race_ctrl \<Rightarrow> race_ctrl" where
  "cancel_loser secondary_started c =
     (if rc_winning_idx c = 0 \<and> secondary_started then c\<lparr>rc_cancel_flags := (rc_cancel_flags c)(1 := True)\<rparr>
      else if rc_winning_idx c = 1 then c\<lparr>rc_cancel_flags := (rc_cancel_flags c)(0 := True)\<rparr>
      else c)"

definition harvest :: "bool \<Rightarrow> race_ctrl \<Rightarrow> race_ctrl \<times> call_result" where
  "harvest secondary_started c0 =
     (let c = cancel_loser secondary_started c0 in
      if rc_winning_idx c = 1 then take_result 1 c
      else if rc_winning_idx c = 0 \<or> rc_done c 0 then take_result 0 c
      else if secondary_started \<and> rc_done c 1 then take_result 1 c
      else (c, \<lparr>cr_status = 0, cr_body = None, cr_body_len = 0, cr_winning_target_idx = 0, cr_latency_ns = 0, cr_rc = -502\<rparr>))"

text \<open>The conditions the coordinator waits for.\<close>

definition wait1_over :: "race_ctrl \<Rightarrow> bool" where
  "wait1_over c \<longleftrightarrow> rc_done c 0 \<or> rc_winning_idx c \<noteq> -1"

definition wait2_over :: "bool \<Rightarrow> race_ctrl \<Rightarrow> bool" where
  "wait2_over secondary_started c \<longleftrightarrow> rc_winning_idx c \<noteq> -1 \<or> (rc_done c 0 \<and> (\<not> secondary_started \<or> rc_done c 1))"

section \<open>The threads\<close>

datatype worker_pc =
    W_None
  | W_Start
  | W_Transfer "string list"
  | W_Store curl_code int int
  | W_Stored
  | W_Destroy
  | W_End

datatype coord_pc = C_Start | C_Sleep1 | C_Sleep2 | C_Harvested | C_Destroy | C_End

text \<open>\<open>hs_ctrl\<close> is \<open>None\<close> when the block is freed, \<open>hs_ctx i\<close> the context of worker \<open>i\<close>; \<open>hs_received\<close> is
  what libcurl has delivered to each worker and was stored.\<close>

record hedge_sys =
  hs_ctrl :: "race_ctrl option"
  hs_coord :: coord_pc
  hs_signal :: bool
  hs_worker :: "nat \<Rightarrow> worker_pc"
  hs_ctx :: "nat \<Rightarrow> worker_ctx option"
  hs_secondary_started :: bool
  hs_was_hedged :: bool
  hs_result :: "call_result option"
  hs_received :: "nat \<Rightarrow> string"
  hs_lt :: "latency_tracker option"
  hs_bad :: bool

definition set_worker :: "nat \<Rightarrow> worker_pc \<Rightarrow> hedge_sys \<Rightarrow> hedge_sys" where
  "set_worker i pc s = s\<lparr>hs_worker := (hs_worker s)(i := pc)\<rparr>"

definition on_ctrl :: "hedge_sys \<Rightarrow> (race_ctrl \<Rightarrow> hedge_sys) \<Rightarrow> hedge_sys" where
  "on_ctrl s f = (case hs_ctrl s of None \<Rightarrow> s\<lparr>hs_bad := True\<rparr> | Some c \<Rightarrow> f c)"

text \<open>\<^verbatim>\<open>ctrl_release\<close>: the critical section, and the freeing.\<close>

definition ctrl_unref :: "race_ctrl \<Rightarrow> race_ctrl \<times> bool" where
  "ctrl_unref c = (c\<lparr>rc_ref_count := rc_ref_count c - 1\<rparr>, rc_ref_count c - 1 \<le> 0)"

definition ctrl_free :: "hedge_sys \<Rightarrow> hedge_sys" where
  "ctrl_free s = on_ctrl s (\<lambda>c. s\<lparr>hs_ctrl := None\<rparr>)"

text \<open>\<^verbatim>\<open>upstream_call_hedged\<close> up to the first wait; \<open>Inl\<close> is a return without a call.\<close>

definition hedge_begin :: "latency_tracker option \<Rightarrow> bool \<Rightarrow> bool \<Rightarrow> bool \<Rightarrow> bool \<Rightarrow> call_params \<Rightarrow> int + hedge_sys" where
  "hedge_begin lt ctrl_ok ctx_ok payload_ok create_ok params =
     (if \<not> ctrl_ok \<or> \<not> ctx_ok \<or> \<not> create_ok then Inl (-502)
      else Inr \<lparr>hs_ctrl = Some (race_ctrl_new\<lparr>rc_ref_count := 2\<rparr>), hs_coord = C_Start, hs_signal = False,
        hs_worker = (\<lambda>_. W_None)(0 := W_Start), hs_ctx = (\<lambda>_. None)(0 := Some (worker_ctx_create payload_ok (cp_primary params) params)),
        hs_secondary_started = False, hs_was_hedged = False, hs_result = None, hs_received = (\<lambda>_. []), hs_lt = lt, hs_bad = False\<rparr>)"

text \<open>Phase 5.\<close>

definition hedge_dispatch :: "bool \<Rightarrow> bool \<Rightarrow> bool \<Rightarrow> bool \<Rightarrow> call_params \<Rightarrow> race_ctrl \<Rightarrow> hedge_sys \<Rightarrow> hedge_sys" where
  "hedge_dispatch should_hedge ctx_ok payload_ok create_ok params c s =
     (if rc_winning_idx c = -1 \<and> should_hedge \<and> ctx_ok
      then (let s1 = s\<lparr>hs_was_hedged := True,
                        hs_lt := map_option (\<lambda>t. latency_tracker_record_hedge t (cp_model params)) (hs_lt s)\<rparr>
            in (if create_ok
                then s1\<lparr>hs_ctrl := Some (c\<lparr>rc_ref_count := rc_ref_count c + 1\<rparr>), hs_worker := (hs_worker s)(1 := W_Start),
                        hs_ctx := (hs_ctx s)(1 := Some (worker_ctx_create payload_ok (cp_secondary params) params)),
                        hs_secondary_started := True\<rparr>
                else s1))
      else s)"

text \<open>The second wait: harvest, or sleep.\<close>

definition hedge_wait2 :: "hedge_sys \<Rightarrow> hedge_sys" where
  "hedge_wait2 s = on_ctrl s (\<lambda>c.
     if wait2_over (hs_secondary_started s) c
     then (case harvest (hs_secondary_started s) c of
             (c', r) \<Rightarrow> s\<lparr>hs_ctrl := Some c', hs_result := Some r, hs_coord := C_Harvested\<rparr>)
     else s\<lparr>hs_coord := C_Sleep2, hs_signal := False\<rparr>)"

text \<open>The first wait; \<open>timeout\<close> ends it.\<close>

definition hedge_wait1 :: "bool \<Rightarrow> bool \<Rightarrow> bool \<Rightarrow> bool \<Rightarrow> bool \<Rightarrow> call_params \<Rightarrow> hedge_sys \<Rightarrow> hedge_sys" where
  "hedge_wait1 timeout should_hedge ctx_ok payload_ok create_ok params s = on_ctrl s (\<lambda>c.
     if wait1_over c \<or> timeout then hedge_wait2 (hedge_dispatch should_hedge ctx_ok payload_ok create_ok params c s)
     else s\<lparr>hs_coord := C_Sleep1, hs_signal := False\<rparr>)"

definition coord_unref :: "hedge_sys \<Rightarrow> hedge_sys" where
  "coord_unref s = on_ctrl s (\<lambda>c. case ctrl_unref c of
     (c', was_last) \<Rightarrow> s\<lparr>hs_ctrl := Some c', hs_coord := (if was_last then C_Destroy else C_End)\<rparr>)"

definition worker_unref :: "nat \<Rightarrow> hedge_sys \<Rightarrow> hedge_sys" where
  "worker_unref i s = on_ctrl s (\<lambda>c. case ctrl_unref c of
     (c', was_last) \<Rightarrow> set_worker i (if was_last then W_Destroy else W_End) (s\<lparr>hs_ctrl := Some c', hs_ctx := (hs_ctx s)(i := None)\<rparr>))"

definition worker_store :: "nat \<Rightarrow> curl_code \<Rightarrow> int \<Rightarrow> int \<Rightarrow> hedge_sys \<Rightarrow> hedge_sys" where
  "worker_store i code status lat s = on_ctrl s (\<lambda>c.
     set_worker i W_Stored (s\<lparr>hs_ctrl := Some (worker_finish i code status lat c), hs_signal := True\<rparr>))"

definition worker_fail :: "nat \<Rightarrow> hedge_sys \<Rightarrow> hedge_sys" where
  "worker_fail i s = on_ctrl s (\<lambda>c.
     set_worker i W_Stored (s\<lparr>hs_ctrl := Some (worker_no_session i c), hs_signal := True\<rparr>))"

text \<open>A delivery of libcurl; the transfer ends when it is refused.\<close>

definition worker_receive :: "bool \<Rightarrow> nat \<Rightarrow> string \<Rightarrow> string list \<Rightarrow> int \<Rightarrow> int \<Rightarrow> hedge_sys \<Rightarrow> hedge_sys" where
  "worker_receive realloc_ok i chunk chunks status lat s = on_ctrl s (\<lambda>c.
     case hedged_write_cb realloc_ok i chunk c of
       None \<Rightarrow> set_worker i (W_Store Curl_other status lat) s
     | Some c' \<Rightarrow> set_worker i (W_Transfer chunks)
         (s\<lparr>hs_ctrl := Some c', hs_received := (hs_received s)(i := hs_received s i @ chunk)\<rparr>))"

text \<open>\<^verbatim>\<open>hedged_xferinfo_cb\<close>.\<close>

definition worker_poll :: "nat \<Rightarrow> string list \<Rightarrow> int \<Rightarrow> int \<Rightarrow> hedge_sys \<Rightarrow> hedge_sys" where
  "worker_poll i chunks status lat s = on_ctrl s (\<lambda>c.
     set_worker i (if rc_cancel_flags c i then W_Store Curl_other status lat else W_Transfer chunks) s)"

end
