(* ===== verification/Hedged_Props.thy ===== *)
theory Hedged_Props
  imports Hedged
begin

text \<open>
  The threads of a hedged call interleaved: no thread uses the control block after it is freed, the
  caller gets the answer of the first target to succeed, and every run ends with all threads done and
  the block freed once.
\<close>

section \<open>Steps\<close>

text \<open>\<open>sh\<close> and \<open>params\<close> are fixed for a call. libcurl may end a transfer with an error at any time, and
  with success after all chunks; a transfer it starts has a finite number of them. A wakeup without a signal
  only repeats the test of a sleeping thread and is left out.\<close>

inductive race_step :: "bool \<Rightarrow> call_params \<Rightarrow> hedge_sys \<Rightarrow> hedge_sys \<Rightarrow> bool" for sh params where
  coord_start: "hs_coord s = C_Start \<Longrightarrow> race_step sh params s (hedge_wait1 False sh a b d params s)"
| coord_wake1: "hs_coord s = C_Sleep1 \<Longrightarrow> hs_signal s \<Longrightarrow> race_step sh params s (hedge_wait1 False sh a b d params s)"
| coord_timeout: "hs_coord s = C_Sleep1 \<Longrightarrow> race_step sh params s (hedge_wait1 True sh a b d params s)"
| coord_wake2: "hs_coord s = C_Sleep2 \<Longrightarrow> hs_signal s \<Longrightarrow> race_step sh params s (hedge_wait2 s)"
| coord_release: "hs_coord s = C_Harvested \<Longrightarrow> race_step sh params s (coord_unref s)"
| coord_free: "hs_coord s = C_Destroy \<Longrightarrow> race_step sh params s (ctrl_free (s\<lparr>hs_coord := C_End\<rparr>))"
| worker_no_curl: "hs_worker s i = W_Start \<Longrightarrow> race_step sh params s (worker_fail i s)"
| worker_begin: "hs_worker s i = W_Start \<Longrightarrow> race_step sh params s (set_worker i (W_Transfer chunks) s)"
| worker_chunk: "hs_worker s i = W_Transfer (chunk # chunks) \<Longrightarrow>
    race_step sh params s (worker_receive ok i chunk chunks status lat s)"
| worker_cancelled: "hs_worker s i = W_Transfer chunks \<Longrightarrow> hs_ctrl s = Some c \<Longrightarrow> rc_cancel_flags c i \<Longrightarrow>
    race_step sh params s (worker_poll i chunks status lat s)"
| worker_error: "hs_worker s i = W_Transfer chunks \<Longrightarrow> code \<noteq> CURLE_OK \<Longrightarrow>
    race_step sh params s (set_worker i (W_Store code status lat) s)"
| worker_complete: "hs_worker s i = W_Transfer [] \<Longrightarrow>
    race_step sh params s (set_worker i (W_Store CURLE_OK status lat) s)"
| worker_store: "hs_worker s i = W_Store code status lat \<Longrightarrow> race_step sh params s (worker_store i code status lat s)"
| worker_release: "hs_worker s i = W_Stored \<Longrightarrow> race_step sh params s (worker_unref i s)"
| worker_free: "hs_worker s i = W_Destroy \<Longrightarrow> race_step sh params s (ctrl_free (set_worker i W_End s))"

definition race_run :: "bool \<Rightarrow> call_params \<Rightarrow> hedge_sys \<Rightarrow> hedge_sys \<Rightarrow> bool" where
  "race_run sh params = (race_step sh params)\<^sup>*\<^sup>*"

section \<open>The invariant\<close>

definition w_active :: "worker_pc \<Rightarrow> bool" where
  "w_active pc \<longleftrightarrow> pc \<noteq> W_None \<and> pc \<noteq> W_Destroy \<and> pc \<noteq> W_End"

definition w_past :: "worker_pc \<Rightarrow> bool" where
  "w_past pc \<longleftrightarrow> pc = W_Stored \<or> pc = W_Destroy \<or> pc = W_End"

definition c_active :: "coord_pc \<Rightarrow> bool" where
  "c_active pc \<longleftrightarrow> pc \<noteq> C_Destroy \<and> pc \<noteq> C_End"

text \<open>The holders of a reference, and the threads about to free the block.\<close>

definition holders :: "hedge_sys \<Rightarrow> int" where
  "holders s = of_bool (c_active (hs_coord s)) + of_bool (w_active (hs_worker s 0)) + of_bool (w_active (hs_worker s 1))"

definition freeing :: "hedge_sys \<Rightarrow> int" where
  "freeing s = of_bool (hs_coord s = C_Destroy) + of_bool (hs_worker s 0 = W_Destroy) + of_bool (hs_worker s 1 = W_Destroy)"

definition refs_ok :: "hedge_sys \<Rightarrow> bool" where
  "refs_ok s \<longleftrightarrow> \<not> hs_bad s \<and> (\<forall>i>1. hs_worker s i = W_None) \<and> hs_worker s 0 \<noteq> W_None \<and>
     (case hs_ctrl s of
        None \<Rightarrow> holders s = 0 \<and> freeing s = 0
      | Some c \<Rightarrow> rc_ref_count c = holders s \<and> (if holders s = 0 then freeing s = 1 else freeing s = 0))"

lemma worker_idx: "refs_ok s \<Longrightarrow> hs_worker s i \<noteq> W_None \<Longrightarrow> i = 0 \<or> i = 1"
  unfolding refs_ok_def by (metis One_nat_def less_one linorder_neqE_nat)

lemma holders_zero: "holders s = 0 \<longleftrightarrow>
    \<not> c_active (hs_coord s) \<and> \<not> w_active (hs_worker s 0) \<and> \<not> w_active (hs_worker s 1)"
  by (cases "c_active (hs_coord s)"; cases "w_active (hs_worker s 0)"; cases "w_active (hs_worker s 1)")
     (simp_all add: holders_def)

lemma freeing_zero: "freeing s = 0 \<longleftrightarrow>
    hs_coord s \<noteq> C_Destroy \<and> hs_worker s 0 \<noteq> W_Destroy \<and> hs_worker s 1 \<noteq> W_Destroy"
  by (cases "hs_coord s = C_Destroy"; cases "hs_worker s 0 = W_Destroy"; cases "hs_worker s 1 = W_Destroy")
     (simp_all add: freeing_def)

lemma refs_ok_ctrl:
  assumes "refs_ok s" "c_active (hs_coord s) \<or> hs_coord s = C_Destroy \<or> w_active (hs_worker s i) \<or> hs_worker s i = W_Destroy"
  obtains c where "hs_ctrl s = Some c" "rc_ref_count c = holders s" "if holders s = 0 then freeing s = 1 else freeing s = 0"
proof (cases "hs_ctrl s")
  case None
  with assms(1) have "holders s = 0" "freeing s = 0" by (simp_all add: refs_ok_def)
  moreover have "w_active (hs_worker s i) \<or> hs_worker s i = W_Destroy \<Longrightarrow> i = 0 \<or> i = 1"
    using worker_idx [OF assms(1), of i] by (auto simp: w_active_def)
  ultimately show ?thesis using assms(2) by (auto simp: holders_zero freeing_zero)
qed (use assms(1) that in \<open>auto simp: refs_ok_def\<close>)

lemma set_worker_sel [simp]:
  "hs_ctrl (set_worker i pc s) = hs_ctrl s" "hs_coord (set_worker i pc s) = hs_coord s"
  "hs_signal (set_worker i pc s) = hs_signal s" "hs_worker (set_worker i pc s) = (hs_worker s)(i := pc)"
  "hs_ctx (set_worker i pc s) = hs_ctx s" "hs_secondary_started (set_worker i pc s) = hs_secondary_started s"
  "hs_result (set_worker i pc s) = hs_result s" "hs_received (set_worker i pc s) = hs_received s"
  "hs_bad (set_worker i pc s) = hs_bad s"
  by (simp_all add: set_worker_def)

lemma on_ctrl_Some [simp]: "hs_ctrl s = Some c \<Longrightarrow> on_ctrl s f = f c"
  by (simp add: on_ctrl_def)

text \<open>A worker that moves from one active point to another keeps the counts.\<close>

lemma set_worker_counts:
  assumes "i = 0 \<or> i = 1" "w_active (hs_worker s i)" "w_active pc"
  shows "holders (set_worker i pc s) = holders s" "freeing (set_worker i pc s) = freeing s"
  using assms by (auto simp: holders_def freeing_def w_active_def)

lemma counts_cong:
  "hs_coord t = hs_coord s \<Longrightarrow> hs_worker t = hs_worker s \<Longrightarrow> holders t = holders s \<and> freeing t = freeing s"
  by (simp add: holders_def freeing_def)

text \<open>The counts after a thread has released its reference, and after one has freed the block.\<close>

lemma worker_unref_counts:
  assumes "i = 0 \<or> i = 1" "w_active (hs_worker s i)" "\<not> w_active pc" "freeing s = 0"
  shows "holders (set_worker i pc s) = holders s - 1" "freeing (set_worker i pc s) = of_bool (pc = W_Destroy)"
  using assms(1-3) assms(4) [unfolded freeing_zero] by (auto simp: holders_def freeing_def)

text \<open>What the threads know of the block: who is done, who has won, and what has been received.\<close>

definition succeeded :: "race_ctrl \<Rightarrow> nat \<Rightarrow> bool" where
  "succeeded c i \<longleftrightarrow> rc_done c i \<and> rc_rc c i = 0 \<and> rc_http_status c i = 200"

definition win_ok :: "race_ctrl \<Rightarrow> bool" where
  "win_ok c \<longleftrightarrow> (if rc_winning_idx c = -1 then \<forall>i. \<not> succeeded c i else \<exists>i. rc_winning_idx c = int i \<and> succeeded c i)"

definition race_ok :: "hedge_sys \<Rightarrow> race_ctrl \<Rightarrow> bool" where
  "race_ok s c \<longleftrightarrow> (\<forall>i. rc_done c i = w_past (hs_worker s i)) \<and> win_ok c \<and>
     (hs_result s = None \<longrightarrow> (\<forall>i. cstr_or_empty (rc_resp_body c i) = hs_received s i)) \<and>
     (hs_coord s = C_Sleep2 \<and> \<not> hs_signal s \<longrightarrow> \<not> wait2_over (hs_secondary_started s) c)"

lemma win_ok_cong:
  "rc_winning_idx c' = rc_winning_idx c \<Longrightarrow> (\<And>i. succeeded c' i = succeeded c i) \<Longrightarrow> win_ok c \<Longrightarrow> win_ok c'"
  by (simp add: win_ok_def)

lemma wait2_over_cong:
  "rc_winning_idx c' = rc_winning_idx c \<Longrightarrow> rc_done c' = rc_done c \<Longrightarrow> wait2_over b c' = wait2_over b c"
  by (simp add: wait2_over_def)

text \<open>Finishing makes a worker the winner when it is the first to succeed.\<close>

lemma worker_finish_sel [simp]:
  "rc_done (worker_finish i code status lat c) = (rc_done c)(i := True)"
  "rc_resp_body (worker_finish i code status lat c) = rc_resp_body c"
  "rc_ref_count (worker_finish i code status lat c) = rc_ref_count c"
  by (simp_all add: worker_finish_def Let_def)

lemma worker_finish_succeeded:
  "succeeded (worker_finish i code status lat c) j \<longleftrightarrow> (if j = i then code = CURLE_OK \<and> status = 200 else succeeded c j)"
  by (cases code) (simp_all add: worker_finish_def Let_def succeeded_def)

lemma worker_finish_winning:
  "rc_winning_idx (worker_finish i code status lat c) =
     (if code = CURLE_OK \<and> status = 200 \<and> rc_winning_idx c = -1 then int i else rc_winning_idx c)"
  by (cases code) (simp_all add: worker_finish_def Let_def)

lemma win_ok_finish:
  assumes "win_ok c" "\<not> rc_done c i"
  shows "win_ok (worker_finish i code status lat c)"
proof (cases "rc_winning_idx c = -1")
  case True
  with assms(1) have "\<forall>j. \<not> succeeded c j" by (simp add: win_ok_def)
  with True show ?thesis unfolding win_ok_def worker_finish_succeeded worker_finish_winning by auto
next
  case False
  with assms(1) obtain k where k: "rc_winning_idx c = int k" "succeeded c k" by (auto simp: win_ok_def)
  with assms(2) have "k \<noteq> i" by (auto simp: succeeded_def)
  with k False show ?thesis unfolding win_ok_def worker_finish_succeeded worker_finish_winning by auto
qed

definition hedge_inv :: "hedge_sys \<Rightarrow> bool" where
  "hedge_inv s \<longleftrightarrow> refs_ok s \<and> (\<forall>i. hs_ctx s i = None \<longleftrightarrow> \<not> w_active (hs_worker s i)) \<and>
     (hs_secondary_started s \<longleftrightarrow> hs_worker s 1 \<noteq> W_None) \<and>
     (hs_coord s \<in> {C_Start, C_Sleep1} \<longrightarrow> hs_worker s 1 = W_None) \<and>
     (hs_result s = None \<longleftrightarrow> hs_coord s \<in> {C_Start, C_Sleep1, C_Sleep2}) \<and>
     (\<forall>c. hs_ctrl s = Some c \<longrightarrow> race_ok s c)"

text \<open>A worker moves between active points and may change the block.\<close>

lemma refs_move:
  assumes "refs_ok s" "w_active (hs_worker s i)" "w_active pc" "hs_ctrl s = Some c"
    and "hs_worker t = (hs_worker s)(i := pc)" "hs_coord t = hs_coord s" "hs_bad t = hs_bad s"
    and "hs_ctrl t = Some c'" "rc_ref_count c' = rc_ref_count c"
  shows "refs_ok t"
proof -
  have i: "i = 0 \<or> i = 1" using worker_idx [OF assms(1)] assms(2) by (auto simp: w_active_def)
  have "holders t = holders (set_worker i pc s)" "freeing t = freeing (set_worker i pc s)"
    using counts_cong [of t "set_worker i pc s"] assms(5,6) by simp_all
  then have "holders t = holders s" "freeing t = freeing s" using set_worker_counts [OF i assms(2,3)] by simp_all
  with assms i show ?thesis by (auto simp: refs_ok_def w_active_def)
qed

lemma inv_move:
  assumes "hedge_inv s" "w_active (hs_worker s i)" "w_active pc" "hs_ctrl s = Some c"
    and "hs_worker t = (hs_worker s)(i := pc)" "hs_coord t = hs_coord s" "hs_bad t = hs_bad s"
    and "hs_ctrl t = Some c'" "rc_ref_count c' = rc_ref_count c"
    and "hs_ctx t = hs_ctx s" "hs_secondary_started t = hs_secondary_started s" "hs_result t = hs_result s"
    and "race_ok t c'"
  shows "hedge_inv t"
proof -
  have r: "refs_ok s" using assms(1) by (simp add: hedge_inv_def)
  have i: "i = 0 \<or> i = 1" using worker_idx [OF r] assms(2) by (auto simp: w_active_def)
  show ?thesis using assms refs_move [OF r assms(2-9)] i by (auto simp: hedge_inv_def w_active_def)
qed

lemma active_ctrl:
  assumes "hedge_inv s" "w_active (hs_worker s i)"
  obtains c where "hs_ctrl s = Some c" "race_ok s c"
proof -
  from assms(1) have "refs_ok s" by (simp add: hedge_inv_def)
  from refs_ok_ctrl [OF this, of i] assms that show ?thesis by (auto simp: hedge_inv_def)
qed

text \<open>A move that leaves the block as it is.\<close>

lemma inv_set_worker:
  assumes "hedge_inv s" "w_active (hs_worker s i)" "w_active pc" "w_past pc = w_past (hs_worker s i)"
  shows "hedge_inv (set_worker i pc s)"
proof -
  from active_ctrl [OF assms(1,2)] obtain c where c: "hs_ctrl s = Some c" "race_ok s c" by blast
  from c(2) assms(4) have "race_ok (set_worker i pc s) c" by (auto simp: race_ok_def)
  from inv_move [OF assms(1-3) c(1) _ _ _ _ _ _ _ _ this] c(1) show ?thesis by simp
qed

lemma inv_receive:
  assumes "hedge_inv s" "hs_worker s i = W_Transfer (chunk # chunks)"
  shows "hedge_inv (worker_receive ok i chunk chunks status lat s)"
proof -
  have a: "w_active (hs_worker s i)" by (simp add: assms(2) w_active_def)
  from active_ctrl [OF assms(1) a] obtain c where c: "hs_ctrl s = Some c" "race_ok s c" by blast
  show ?thesis
  proof (cases "hedged_write_cb ok i chunk c")
    case None
    with inv_set_worker [OF assms(1) a, of "W_Store Curl_other status lat"] c assms(2) show ?thesis
      by (simp add: worker_receive_def w_active_def w_past_def)
  next
    case (Some c')
    let ?t = "set_worker i (W_Transfer chunks)
         (s\<lparr>hs_ctrl := Some c', hs_received := (hs_received s)(i := hs_received s i @ chunk)\<rparr>)"
    from Some have c': "c' = c\<lparr>rc_resp_body := (rc_resp_body c)(i := Some (cstr_or_empty (rc_resp_body c i) @ chunk))\<rparr>"
      by (auto simp: hedged_write_cb_def split: if_splits)
    have sel: "rc_winning_idx c' = rc_winning_idx c" "rc_done c' = rc_done c" "rc_ref_count c' = rc_ref_count c"
      "rc_resp_body c' = (rc_resp_body c)(i := Some (cstr_or_empty (rc_resp_body c i) @ chunk))" by (simp_all add: c')
    have "win_ok c'" by (rule win_ok_cong [of _ c]) (use c(2) in \<open>simp_all add: sel(1) succeeded_def c' race_ok_def\<close>)
    then have "race_ok ?t c'" using c(2) assms(2) wait2_over_cong [OF sel(1,2)]
      by (simp add: race_ok_def sel w_past_def)
    from inv_move [where pc = "W_Transfer chunks", OF assms(1) a _ c(1) _ _ _ _ _ _ _ _ this] have "hedge_inv ?t"
      by (simp add: w_active_def sel)
    with Some c show ?thesis by (simp add: worker_receive_def)
  qed
qed

lemma inv_poll:
  assumes "hedge_inv s" "hs_worker s i = W_Transfer chunks"
  shows "hedge_inv (worker_poll i chunks status lat s)"
proof -
  have a: "w_active (hs_worker s i)" by (simp add: assms(2) w_active_def)
  from active_ctrl [OF assms(1) a] obtain c where c: "hs_ctrl s = Some c" "race_ok s c" by blast
  with inv_set_worker [OF assms(1) a] assms(2) show ?thesis by (simp add: worker_poll_def w_active_def w_past_def)
qed

lemma inv_store:
  assumes "hedge_inv s" "hs_worker s i = W_Store code status lat"
  shows "hedge_inv (worker_store i code status lat s)"
proof -
  have a: "w_active (hs_worker s i)" by (simp add: assms(2) w_active_def)
  from active_ctrl [OF assms(1) a] obtain c where c: "hs_ctrl s = Some c" "race_ok s c" by blast
  let ?c = "worker_finish i code status lat c"
  let ?t = "set_worker i W_Stored (s\<lparr>hs_ctrl := Some ?c, hs_signal := True\<rparr>)"
  have nd: "\<not> rc_done c i" using c(2) assms(2) by (simp add: race_ok_def w_past_def)
  have "race_ok ?t ?c"
    using c(2) win_ok_finish [OF _ nd] by (simp add: race_ok_def w_past_def)
  from inv_move [where pc = W_Stored, OF assms(1) a _ c(1) _ _ _ _ _ _ _ _ this] have "hedge_inv ?t" by (simp add: w_active_def)
  with c show ?thesis by (simp add: worker_store_def)
qed

lemma inv_fail:
  assumes "hedge_inv s" "hs_worker s i = W_Start"
  shows "hedge_inv (worker_fail i s)"
proof -
  have a: "w_active (hs_worker s i)" by (simp add: assms(2) w_active_def)
  from active_ctrl [OF assms(1) a] obtain c where c: "hs_ctrl s = Some c" "race_ok s c" by blast
  let ?c = "worker_no_session i c"
  let ?t = "set_worker i W_Stored (s\<lparr>hs_ctrl := Some ?c, hs_signal := True\<rparr>)"
  have nd: "\<not> rc_done c i" using c(2) assms(2) by (simp add: race_ok_def w_past_def)
  have "win_ok ?c" by (rule win_ok_cong [of _ c]) (use c(2) nd in \<open>auto simp: worker_no_session_def succeeded_def race_ok_def\<close>)
  then have "race_ok ?t ?c" using c(2) by (simp add: race_ok_def w_past_def worker_no_session_def)
  from inv_move [where pc = W_Stored, OF assms(1) a _ c(1) _ _ _ _ _ _ _ _ this] have "hedge_inv ?t"
    by (simp add: w_active_def worker_no_session_def)
  with c show ?thesis by (simp add: worker_fail_def)
qed

text \<open>A reference given back, and the block freed.\<close>

lemma refs_ok_unrefD:
  assumes "refs_ok s" "hs_ctrl s = Some c" "rc_ref_count c = holders s" "0 < holders s" "hs_bad t = hs_bad s"
    and "hs_ctrl t = Some c'" "rc_ref_count c' = rc_ref_count c - 1" "holders t = holders s - 1"
    and "freeing t = of_bool (rc_ref_count c - 1 \<le> 0)" "\<forall>i>1. hs_worker t i = W_None" "hs_worker t 0 \<noteq> W_None"
  shows "refs_ok t"
  using assms by (simp add: refs_ok_def)

lemma holders_pos:
  "c_active (hs_coord s) \<or> (w_active (hs_worker s i) \<and> (i = 0 \<or> i = 1)) \<Longrightarrow> 0 < holders s"
  by (cases "c_active (hs_coord s)"; cases "w_active (hs_worker s 0)"; cases "w_active (hs_worker s 1)")
     (auto simp: holders_def)

lemma inv_worker_unref:
  assumes "hedge_inv s" "hs_worker s i = W_Stored"
  shows "hedge_inv (worker_unref i s)"
proof -
  have r: "refs_ok s" using assms(1) by (simp add: hedge_inv_def)
  have a: "w_active (hs_worker s i)" by (simp add: assms(2) w_active_def)
  have i: "i = 0 \<or> i = 1" using worker_idx [OF r, of i] assms(2) by simp
  from refs_ok_ctrl [OF r, of i] a obtain c where c: "hs_ctrl s = Some c" "rc_ref_count c = holders s"
    "if holders s = 0 then freeing s = 1 else freeing s = 0" by blast
  have pos: "0 < holders s" using holders_pos [of s i] a i by blast
  then have f: "freeing s = 0" using c(3) by simp
  define pc where "pc = (if rc_ref_count c - 1 \<le> 0 then W_Destroy else W_End)"
  define c' where "c' = c\<lparr>rc_ref_count := rc_ref_count c - 1\<rparr>"
  define t where "t = set_worker i pc (s\<lparr>hs_ctrl := Some c', hs_ctx := (hs_ctx s)(i := None)\<rparr>)"
  have t: "worker_unref i s = t" using c(1) by (simp add: worker_unref_def ctrl_unref_def t_def pc_def c'_def)
  have npc: "\<not> w_active pc" "w_past pc" "pc \<noteq> W_None" by (simp_all add: pc_def w_active_def w_past_def)
  have "holders t = holders (set_worker i pc s)" "freeing t = freeing (set_worker i pc s)"
    using counts_cong [of t "set_worker i pc s"] by (simp_all add: t_def)
  then have "holders t = holders s - 1" "freeing t = of_bool (pc = W_Destroy)"
    using worker_unref_counts [OF i a npc(1) f] by simp_all
  moreover have "(pc = W_Destroy) = (rc_ref_count c - 1 \<le> 0)" by (simp add: pc_def)
  ultimately have "refs_ok t"
    by (intro refs_ok_unrefD [OF r c(1,2) pos, of _ c']) (use i npc r in \<open>auto simp: t_def c'_def refs_ok_def\<close>)
  moreover have "race_ok t c'"
  proof -
    have "race_ok s c" using assms(1) c(1) by (simp add: hedge_inv_def)
    moreover have "win_ok c' = win_ok c" by (simp add: win_ok_def succeeded_def c'_def)
    moreover have "wait2_over b c' = wait2_over b c" for b by (rule wait2_over_cong) (simp_all add: c'_def)
    moreover have "rc_done c' = rc_done c" "rc_resp_body c' = rc_resp_body c" by (simp_all add: c'_def)
    ultimately show ?thesis using assms(2) npc(2) by (simp add: race_ok_def t_def w_past_def)
  qed
  ultimately show ?thesis using assms npc i unfolding t by (auto simp: hedge_inv_def t_def w_active_def)
qed

lemma inv_coord_unref:
  assumes "hedge_inv s" "hs_coord s = C_Harvested"
  shows "hedge_inv (coord_unref s)"
proof -
  have r: "refs_ok s" using assms(1) by (simp add: hedge_inv_def)
  have a: "c_active (hs_coord s)" by (simp add: assms(2) c_active_def)
  from refs_ok_ctrl [OF r] a obtain c where c: "hs_ctrl s = Some c" "rc_ref_count c = holders s"
    "if holders s = 0 then freeing s = 1 else freeing s = 0" by blast
  have pos: "0 < holders s" using holders_pos [of s] a by blast
  then have f: "freeing s = 0" using c(3) by simp
  define pc where "pc = (if rc_ref_count c - 1 \<le> 0 then C_Destroy else C_End)"
  define c' where "c' = c\<lparr>rc_ref_count := rc_ref_count c - 1\<rparr>"
  define t where "t = s\<lparr>hs_ctrl := Some c', hs_coord := pc\<rparr>"
  have t: "coord_unref s = t" using c(1) by (simp add: coord_unref_def ctrl_unref_def t_def pc_def c'_def)
  have "holders t = holders s - 1" "freeing t = of_bool (pc = C_Destroy)"
    using a f [unfolded freeing_zero] by (simp_all add: holders_def freeing_def t_def pc_def c_active_def)
  moreover have "(pc = C_Destroy) = (rc_ref_count c - 1 \<le> 0)" by (simp add: pc_def)
  ultimately have "refs_ok t"
    by (intro refs_ok_unrefD [OF r c(1,2) pos, of _ c']) (use r in \<open>auto simp: t_def c'_def refs_ok_def\<close>)
  moreover have "race_ok t c'"
  proof -
    have "race_ok s c" using assms(1) c(1) by (simp add: hedge_inv_def)
    moreover have "win_ok c' = win_ok c" by (simp add: win_ok_def succeeded_def c'_def)
    ultimately show ?thesis by (simp add: race_ok_def t_def pc_def) (simp add: c'_def)
  qed
  ultimately show ?thesis using assms unfolding t by (auto simp: hedge_inv_def t_def pc_def)
qed

lemma refs_ok_free:
  assumes "refs_ok s" "holders t = holders s" "freeing s = 1" "freeing t = 0"
    and "hs_ctrl t = None" "hs_bad t = hs_bad s" "\<forall>i>1. hs_worker t i = W_None" "hs_worker t 0 \<noteq> W_None"
  shows "refs_ok t"
  using assms by (auto simp: refs_ok_def split: option.splits if_splits)

lemma inv_coord_free:
  assumes "hedge_inv s" "hs_coord s = C_Destroy"
  shows "hedge_inv (ctrl_free (s\<lparr>hs_coord := C_End\<rparr>))"
proof -
  have r: "refs_ok s" using assms(1) by (simp add: hedge_inv_def)
  from refs_ok_ctrl [OF r] assms(2) obtain c where c: "hs_ctrl s = Some c"
    "if holders s = 0 then freeing s = 1 else freeing s = 0" by blast
  have nz: "freeing s \<noteq> 0" using assms(2) by (simp add: freeing_zero)
  with c(2) have f: "freeing s = 1" by (auto split: if_splits)
  let ?t = "s\<lparr>hs_coord := C_End, hs_ctrl := None\<rparr>"
  have "freeing ?t = freeing s - 1" "holders ?t = holders s" using assms(2) by (simp_all add: freeing_def holders_def c_active_def)
  then have "refs_ok ?t" by (intro refs_ok_free [OF r _ f]) (use f r in \<open>simp_all add: refs_ok_def\<close>)
  moreover have "ctrl_free (s\<lparr>hs_coord := C_End\<rparr>) = ?t" using c(1) by (simp add: ctrl_free_def)
  ultimately show ?thesis using assms by (simp add: hedge_inv_def)
qed

lemma inv_worker_free:
  assumes "hedge_inv s" "hs_worker s i = W_Destroy"
  shows "hedge_inv (ctrl_free (set_worker i W_End s))"
proof -
  have r: "refs_ok s" using assms(1) by (simp add: hedge_inv_def)
  have i: "i = 0 \<or> i = 1" using worker_idx [OF r, of i] assms(2) by simp
  from refs_ok_ctrl [OF r, of i] assms(2) obtain c where c: "hs_ctrl s = Some c"
    "if holders s = 0 then freeing s = 1 else freeing s = 0" by blast
  have nz: "freeing s \<noteq> 0" using assms(2) i by (auto simp: freeing_zero)
  with c(2) have f: "freeing s = 1" by (auto split: if_splits)
  let ?t = "(set_worker i W_End s)\<lparr>hs_ctrl := None\<rparr>"
  have "freeing ?t = freeing s - 1" "holders ?t = holders s" using assms(2) i
    by (auto simp: freeing_def holders_def w_active_def)
  then have "refs_ok ?t" by (intro refs_ok_free [OF r _ f]) (use f r i in \<open>auto simp: refs_ok_def\<close>)
  moreover have "ctrl_free (set_worker i W_End s) = ?t" using c(1) by (simp add: ctrl_free_def)
  ultimately show ?thesis using assms i by (auto simp: hedge_inv_def w_active_def)
qed

text \<open>The coordinator at its waits. \<open>wait2_state\<close> is where the second wait is entered.\<close>

definition wait2_state :: "hedge_sys \<Rightarrow> race_ctrl \<Rightarrow> bool" where
  "wait2_state s c \<longleftrightarrow> hs_ctrl s = Some c \<and> hs_coord s \<in> {C_Start, C_Sleep1, C_Sleep2} \<and> refs_ok s \<and> hs_result s = None \<and>
     (\<forall>i. hs_ctx s i = None \<longleftrightarrow> \<not> w_active (hs_worker s i)) \<and> (hs_secondary_started s \<longleftrightarrow> hs_worker s 1 \<noteq> W_None) \<and>
     (\<forall>i. rc_done c i = w_past (hs_worker s i)) \<and> win_ok c \<and> (\<forall>i. cstr_or_empty (rc_resp_body c i) = hs_received s i)"

lemma inv_wait2_state:
  assumes "hedge_inv s" "hs_coord s \<in> {C_Start, C_Sleep1, C_Sleep2}"
  obtains c where "wait2_state s c"
proof -
  have r: "refs_ok s" using assms(1) by (simp add: hedge_inv_def)
  have "c_active (hs_coord s)" using assms(2) by (auto simp: c_active_def)
  with refs_ok_ctrl [OF r] obtain c where c: "hs_ctrl s = Some c" by blast
  then have "race_ok s c" using assms(1) by (simp add: hedge_inv_def)
  moreover have "hs_result s = None" using assms by (simp add: hedge_inv_def)
  ultimately have "wait2_state s c" using assms r c unfolding wait2_state_def hedge_inv_def race_ok_def by blast
  then show ?thesis by (rule that)
qed

text \<open>A move of the coordinator between its waits, and to the harvest.\<close>

lemma refs_coord_move:
  assumes "refs_ok s" "c_active (hs_coord s)" "c_active pc" "hs_ctrl s = Some c" "hs_coord t = pc"
    and "hs_worker t = hs_worker s" "hs_bad t = hs_bad s" "hs_ctrl t = Some c'" "rc_ref_count c' = rc_ref_count c"
  shows "refs_ok t"
proof -
  have "holders t = holders s" "freeing t = freeing s"
    using assms(2,3,5,6) by (auto simp: holders_def freeing_def c_active_def)
  with assms show ?thesis by (simp add: refs_ok_def)
qed

lemma harvest_ctrl:
  "rc_ref_count (fst (harvest b c)) = rc_ref_count c \<and> rc_done (fst (harvest b c)) = rc_done c \<and>
   rc_winning_idx (fst (harvest b c)) = rc_winning_idx c \<and> rc_rc (fst (harvest b c)) = rc_rc c \<and>
   rc_http_status (fst (harvest b c)) = rc_http_status c"
  by (simp add: harvest_def cancel_loser_def take_result_def Let_def)

lemma inv_wait2:
  assumes "wait2_state s c"
  shows "hedge_inv (hedge_wait2 s)"
proof -
  have c: "hs_ctrl s = Some c" and r: "refs_ok s" and a: "c_active (hs_coord s)"
    using assms by (auto simp: wait2_state_def c_active_def)
  show ?thesis
  proof (cases "wait2_over (hs_secondary_started s) c")
    case False
    let ?t = "s\<lparr>hs_coord := C_Sleep2, hs_signal := False\<rparr>"
    have "refs_ok ?t" by (rule refs_coord_move [OF r a _ c, of C_Sleep2 _ c]) (simp_all add: c c_active_def)
    moreover have "race_ok ?t c" using assms False by (simp add: wait2_state_def race_ok_def)
    ultimately have "hedge_inv ?t" using assms c by (simp add: hedge_inv_def wait2_state_def)
    with False c show ?thesis by (simp add: hedge_wait2_def)
  next
    case True
    obtain c' res where h: "harvest (hs_secondary_started s) c = (c', res)" by fastforce
    note hc = harvest_ctrl [of "hs_secondary_started s" c, unfolded h fst_conv]
    let ?t = "s\<lparr>hs_ctrl := Some c', hs_result := Some res, hs_coord := C_Harvested\<rparr>"
    have "refs_ok ?t" by (rule refs_coord_move [OF r a _ c, of C_Harvested _ c']) (simp_all add: hc c_active_def)
    moreover have "win_ok c'" by (rule win_ok_cong [of _ c]) (use assms hc in \<open>simp_all add: wait2_state_def succeeded_def\<close>)
    then have "race_ok ?t c'" using assms hc by (simp add: wait2_state_def race_ok_def)
    ultimately have "hedge_inv ?t" using assms by (simp add: hedge_inv_def wait2_state_def)
    with True c h show ?thesis by (simp add: hedge_wait2_def)
  qed
qed

lemma dispatch_wait2_state:
  assumes "wait2_state s c" "hs_worker s 1 = W_None"
  shows "\<exists>c'. wait2_state (hedge_dispatch sh a b d params c s) c' \<and> rc_winning_idx c' = rc_winning_idx c"
proof (cases "rc_winning_idx c = -1 \<and> sh \<and> a \<and> d")
  case False
  let ?t = "hedge_dispatch sh a b d params c s"
  have t: "hs_ctrl ?t = hs_ctrl s" "hs_worker ?t = hs_worker s" "hs_coord ?t = hs_coord s" "hs_bad ?t = hs_bad s"
    "hs_result ?t = hs_result s" "hs_secondary_started ?t = hs_secondary_started s" "hs_received ?t = hs_received s"
    "hs_ctx ?t = hs_ctx s"
    using False by (auto simp: hedge_dispatch_def Let_def)
  have "refs_ok ?t = refs_ok s" 
    unfolding refs_ok_def t conjunct1 [OF counts_cong [OF t(3,2)]] conjunct2 [OF counts_cong [OF t(3,2)]] ..
  then have "wait2_state ?t c" using assms(1) unfolding wait2_state_def t by simp
  then show ?thesis by blast
next
  case True
  let ?c = "c\<lparr>rc_ref_count := rc_ref_count c + 1\<rparr>"
  let ?t = "hedge_dispatch sh a b d params c s"
  have t: "hs_ctrl ?t = Some ?c" "hs_worker ?t = (hs_worker s)(1 := W_Start)" "hs_coord ?t = hs_coord s"
    "hs_bad ?t = hs_bad s" "hs_result ?t = hs_result s" "hs_secondary_started ?t" "hs_received ?t = hs_received s"
    "\<forall>i. hs_ctx ?t i = None \<longleftrightarrow> i \<noteq> 1 \<and> hs_ctx s i = None"
    using True by (simp_all add: hedge_dispatch_def Let_def)
  have "holders ?t = holders s + 1" "freeing ?t = freeing s"
    using assms(2) t(2,3) by (simp_all add: holders_def freeing_def w_active_def)
  moreover have "0 < holders s" using assms(1) holders_pos [of s] by (auto simp: wait2_state_def c_active_def)
  moreover have "rc_ref_count c = holders s \<and> freeing s = 0"
    using assms(1) calculation(3) unfolding wait2_state_def refs_ok_def by (auto split: if_splits)
  moreover have "\<not> hs_bad s \<and> (\<forall>i>1. hs_worker s i = W_None) \<and> hs_worker s 0 \<noteq> W_None"
    using assms(1) unfolding wait2_state_def refs_ok_def by blast
  ultimately have "refs_ok ?t" using t by (simp add: refs_ok_def)
  moreover have "win_ok ?c" by (rule win_ok_cong [of _ c]) (use assms(1) in \<open>simp_all add: wait2_state_def succeeded_def\<close>)
  ultimately have "wait2_state ?t ?c" using assms t by (auto simp: wait2_state_def w_active_def w_past_def)
  then show ?thesis by (intro exI [of _ ?c]) simp
qed

lemma inv_wait1:
  assumes "hedge_inv s" "hs_coord s \<in> {C_Start, C_Sleep1}"
  shows "hedge_inv (hedge_wait1 timeout sh a b d params s)"
proof -
  from inv_wait2_state [OF assms(1)] assms(2) obtain c where c: "wait2_state s c" by blast
  have none: "hs_worker s 1 = W_None" using assms unfolding hedge_inv_def by blast
  show ?thesis
  proof (cases "wait1_over c \<or> timeout")
    case True
    from dispatch_wait2_state [OF c none] obtain c' where "wait2_state (hedge_dispatch sh a b d params c s) c'" by blast
    from inv_wait2 [OF this] True c show ?thesis by (simp add: hedge_wait1_def wait2_state_def)
  next
    case False
    let ?t = "s\<lparr>hs_coord := C_Sleep1, hs_signal := False\<rparr>"
    have h: "hs_ctrl s = Some c" "refs_ok s" "c_active (hs_coord s)" using c by (auto simp: wait2_state_def c_active_def)
    have "refs_ok ?t" by (rule refs_coord_move [OF h(2,3) _ h(1), of C_Sleep1 _ c]) (simp_all add: h c_active_def)
    then have "hedge_inv ?t" using c none by (simp add: hedge_inv_def wait2_state_def race_ok_def)
    with False h show ?thesis by (simp add: hedge_wait1_def)
  qed
qed

lemma race_step_inv:
  assumes "race_step sh params s t" "hedge_inv s"
  shows "hedge_inv t"
  using assms
proof cases
  case (coord_wake2)
  with assms(2) inv_wait2_state [OF assms(2)] inv_wait2 show ?thesis by (metis insert_iff)
qed (auto intro: inv_wait1 inv_coord_unref inv_coord_free inv_fail inv_receive inv_poll inv_store inv_worker_unref
    inv_worker_free inv_set_worker simp: w_active_def w_past_def)

lemma hedge_begin_inv:
  assumes "hedge_begin lt a b d e params = Inr s"
  shows "hedge_inv s"
proof -
  let ?c = "race_ctrl_new\<lparr>rc_ref_count := 2\<rparr>"
  from assms have s: "s = \<lparr>hs_ctrl = Some ?c, hs_coord = C_Start, hs_signal = False,
        hs_worker = (\<lambda>_. W_None)(0 := W_Start), hs_ctx = (\<lambda>_. None)(0 := Some (worker_ctx_create d (cp_primary params) params)),
        hs_secondary_started = False, hs_was_hedged = False, hs_result = None, hs_received = (\<lambda>_. []), hs_lt = lt, hs_bad = False\<rparr>"
    by (auto simp: hedge_begin_def split: if_splits)
  have "win_ok ?c" by (simp add: win_ok_def succeeded_def race_ctrl_new_def)
  then show ?thesis unfolding s
    by (auto simp: hedge_inv_def refs_ok_def holders_def freeing_def c_active_def w_active_def w_past_def race_ok_def
        race_ctrl_new_def)
qed

lemma race_run_inv: "race_run sh params s t \<Longrightarrow> hedge_inv s \<Longrightarrow> hedge_inv t"
  unfolding race_run_def by (induction rule: rtranclp_induct) (auto intro: race_step_inv)

section \<open>The result\<close>

text \<open>The outcome of target \<open>i\<close> in the block.\<close>

definition outcome :: "nat \<Rightarrow> race_ctrl \<Rightarrow> call_result" where
  "outcome i c = snd (take_result i c)"

definition winner :: "race_ctrl \<Rightarrow> nat" where
  "winner c = (if rc_winning_idx c = 1 then 1 else 0)"

lemma winning_range:
  assumes "wait2_state s c"
  shows "rc_winning_idx c \<in> {-1, 0, 1}"
proof (cases "rc_winning_idx c = -1")
  case False
  with assms obtain i where i: "rc_winning_idx c = int i" "succeeded c i" by (auto simp: wait2_state_def win_ok_def)
  with assms have "hs_worker s i \<noteq> W_None" by (auto simp: wait2_state_def succeeded_def w_past_def)
  with worker_idx assms i show ?thesis by (auto simp: wait2_state_def)
qed simp

lemma harvest_outcome:
  assumes "wait2_over b c" "rc_winning_idx c \<in> {-1, 0, 1}"
  shows "snd (harvest b c) = outcome (winner c) c"
  using assms by (auto simp: harvest_def cancel_loser_def Let_def outcome_def take_result_def winner_def wait2_over_def
      resp_len_def)

lemma wait2_result:
  assumes "wait2_state s c" "hs_result (hedge_wait2 s) = Some r"
  shows "wait2_over (hs_secondary_started s) c \<and> r = outcome (winner c) c"
proof -
  have c: "hs_ctrl s = Some c" "hs_result s = None" using assms(1) by (simp_all add: wait2_state_def)
  then have w: "wait2_over (hs_secondary_started s) c"
    using assms(2) by (cases "wait2_over (hs_secondary_started s) c") (simp_all add: hedge_wait2_def)
  with c assms(2) harvest_outcome [OF w winning_range [OF assms(1)]] show ?thesis
    by (simp add: hedge_wait2_def split: prod.splits)
qed

lemma worker_steps_result:
  "hs_result (worker_fail i s) = hs_result s" "hs_result (worker_receive ok i chunk chunks status lat s) = hs_result s"
  "hs_result (worker_poll i chunks status lat s) = hs_result s" "hs_result (worker_store i code status lat s) = hs_result s"
  "hs_result (worker_unref i s) = hs_result s" "hs_result (ctrl_free s) = hs_result s" "hs_result (coord_unref s) = hs_result s"
  by (simp_all add: worker_fail_def worker_receive_def worker_poll_def worker_store_def worker_unref_def ctrl_free_def
      coord_unref_def on_ctrl_def split: option.split prod.split)

text \<open>The step that gives the result, and the block before it.\<close>

lemma wait1_result:
  assumes "hedge_inv s" "hs_coord s \<in> {C_Start, C_Sleep1}" "hs_result (hedge_wait1 timeout sh a b d params s) = Some r"
  shows "\<exists>c. hs_ctrl s = Some c \<and> wait2_over (hs_secondary_started s) c \<and> r = outcome (winner c) c"
proof -
  from inv_wait2_state [OF assms(1)] assms(2) obtain c where c: "wait2_state s c" by blast
  have none: "hs_worker s 1 = W_None" using assms(1,2) unfolding hedge_inv_def by blast
  let ?d = "hedge_dispatch sh a b d params c s"
  have go: "wait1_over c \<or> timeout" and res: "hs_result (hedge_wait2 ?d) = Some r"
    using assms(3) c by (auto simp: hedge_wait1_def wait2_state_def split: if_splits)
  from dispatch_wait2_state [OF c none, of sh a b d params] obtain c' where c': "wait2_state ?d c'"
    "rc_winning_idx c' = rc_winning_idx c" by blast
  note w = wait2_result [OF c'(1) res]
  have n1: "\<not> rc_done c 1" using c none by (simp add: wait2_state_def w_past_def)
  have nd: "\<not> (rc_winning_idx c = -1 \<and> sh \<and> a \<and> d)"
  proof
    assume x: "rc_winning_idx c = -1 \<and> sh \<and> a \<and> d"
    then have "hs_secondary_started ?d" "hs_worker ?d 1 = W_Start" by (simp_all add: hedge_dispatch_def Let_def)
    moreover have "\<not> rc_done c' 1" using c'(1) calculation(2) by (simp add: wait2_state_def w_past_def)
    ultimately show False using w c'(2) x by (simp add: wait2_over_def)
  qed
  then have "hs_ctrl ?d = hs_ctrl s" "hs_secondary_started ?d = hs_secondary_started s"
    by (auto simp: hedge_dispatch_def Let_def)
  with c c' w show ?thesis by (auto simp: wait2_state_def)
qed

lemma step_result:
  assumes "race_step sh params s t" "hedge_inv s" "hs_result s = None" "hs_result t = Some r"
  shows "\<exists>c. hs_ctrl s = Some c \<and> wait2_over (hs_secondary_started s) c \<and> r = outcome (winner c) c"
  using assms(1)
proof cases
  case (coord_start a b d)
  with wait1_result [OF assms(2), of False sh a b d params r] assms(4) show ?thesis by simp
next
  case (coord_wake1 a b d)
  with wait1_result [OF assms(2), of False sh a b d params r] assms(4) show ?thesis by simp
next
  case (coord_timeout a b d)
  with wait1_result [OF assms(2), of True sh a b d params r] assms(4) show ?thesis by simp
next
  case coord_wake2
  from inv_wait2_state [OF assms(2)] coord_wake2(2) obtain c where c: "wait2_state s c" by blast
  with wait2_result [OF c] coord_wake2(1) assms(4) show ?thesis by (auto simp: wait2_state_def)
qed (use assms(3,4) in \<open>auto simp: worker_steps_result\<close>)

lemma run_stepI: "race_run sh params s t \<Longrightarrow> race_step sh params t u \<Longrightarrow> race_run sh params s u"
  unfolding race_run_def by (rule rtranclp.rtrancl_into_rtrancl)

section \<open>The first success\<close>

text \<open>Target \<open>i\<close> has won with body \<open>b\<close>; or the caller has been given that.\<close>

definition has_won :: "nat \<Rightarrow> string \<Rightarrow> hedge_sys \<Rightarrow> bool" where
  "has_won i b s \<longleftrightarrow> (case hs_result s of
      None \<Rightarrow> (\<exists>c. hs_ctrl s = Some c \<and> rc_winning_idx c = int i \<and> rc_rc c i = 0 \<and> rc_http_status c i = 200) \<and>
        w_past (hs_worker s i) \<and> hs_received s i = b
    | Some r \<Rightarrow> cr_winning_target_idx r = i \<and> cr_rc r = 0 \<and> cr_status r = 200 \<and> cstr_or_empty (cr_body r) = b)"

lemma won_None:
  "hs_result s = None \<Longrightarrow> has_won i b s \<longleftrightarrow>
    (\<exists>c. hs_ctrl s = Some c \<and> rc_winning_idx c = int i \<and> rc_rc c i = 0 \<and> rc_http_status c i = 200) \<and>
        w_past (hs_worker s i) \<and> hs_received s i = b"
  by (simp add: has_won_def)

lemma outcome_sel [simp]:
  "cr_winning_target_idx (outcome i c) = i" "cr_rc (outcome i c) = rc_rc c i" "cr_status (outcome i c) = rc_http_status c i"
  "cr_body (outcome i c) = rc_resp_body c i"
  by (simp_all add: outcome_def take_result_def)

lemma won_worker:
  assumes "hedge_inv s" "hs_result s = None" "has_won i b s" "w_active (hs_worker s j)" "hs_ctrl s = Some c"
    and "hs_result t = None" "hs_ctrl t = Some c'" "rc_winning_idx c' = rc_winning_idx c"
    and "rc_rc c' i = rc_rc c i" "rc_http_status c' i = rc_http_status c i" "w_past (hs_worker t i)"
    and "hs_received t i = hs_received s i"
  shows "has_won i b t"
  using assms by (auto simp: won_None)

lemma wait2_won:
  assumes "wait2_state s c" "has_won i b s"
  shows "has_won i b (hedge_wait2 s)"
proof -
  have c: "hs_ctrl s = Some c" "hs_result s = None" using assms(1) by (simp_all add: wait2_state_def)
  with assms(2) have w: "rc_winning_idx c = int i" "rc_rc c i = 0" "rc_http_status c i = 200" "w_past (hs_worker s i)"
    "hs_received s i = b" by (auto simp: won_None)
  then have "wait2_over (hs_secondary_started s) c" by (simp add: wait2_over_def)
  moreover obtain c' r where "harvest (hs_secondary_started s) c = (c', r)" by fastforce
  ultimately have r: "hs_result (hedge_wait2 s) = Some r" using c by (simp add: hedge_wait2_def)
  from wait2_result [OF assms(1) this] have "r = outcome (winner c) c" by simp
  moreover have "winner c = i" using w(1) winning_range [OF assms(1)] by (auto simp: winner_def)
  moreover have "cstr_or_empty (rc_resp_body c i) = b" using assms(1) w(5) by (simp add: wait2_state_def)
  ultimately show ?thesis using r w by (simp add: has_won_def)
qed

lemma wait1_won:
  assumes "hedge_inv s" "hs_coord s \<in> {C_Start, C_Sleep1}" "has_won i b s"
  shows "has_won i b (hedge_wait1 timeout sh a d e params s)"
proof -
  from inv_wait2_state [OF assms(1)] assms(2) obtain c where c: "wait2_state s c" by blast
  then have h: "hs_ctrl s = Some c" "hs_result s = None" by (simp_all add: wait2_state_def)
  with assms(3) have w: "rc_winning_idx c = int i" by (auto simp: won_None)
  then have "hedge_dispatch sh a d e params c s = s" "wait1_over c" by (auto simp: hedge_dispatch_def wait1_over_def)
  with wait2_won [OF c assms(3)] h show ?thesis by (simp add: hedge_wait1_def)
qed

lemma won_set_worker:
  assumes "has_won i b s" "hs_result s = None" "w_past pc \<or> j \<noteq> i"
  shows "has_won i b (set_worker j pc s)"
  using assms by (auto simp: won_None)

lemma not_past_not_won: "has_won i b s \<Longrightarrow> hs_result s = None \<Longrightarrow> \<not> w_past (hs_worker s j) \<Longrightarrow> j \<noteq> i"
  by (auto simp: won_None)

lemma won_move:
  "has_won i b s \<Longrightarrow> hs_result s = None \<Longrightarrow> \<not> w_past (hs_worker s j) \<Longrightarrow> has_won i b (set_worker j pc s)"
  using won_set_worker not_past_not_won by blast

lemma step_won:
  assumes "race_step sh params s t" "hedge_inv s" "has_won i b s"
  shows "has_won i b t"
proof (cases "hs_result s")
  case (Some r)
  then have late: "hs_coord s \<in> {C_Harvested, C_Destroy, C_End}" using assms(2) by (cases "hs_coord s") (auto simp: hedge_inv_def)
  have "hs_result t = hs_result s" using assms(1) by cases (use late in \<open>auto simp: worker_steps_result\<close>)
  with Some assms(3) show ?thesis by (simp add: has_won_def)
next
  case None
  then have early: "hs_coord s \<in> {C_Start, C_Sleep1, C_Sleep2}" using assms(2) by (auto simp: hedge_inv_def)
  from inv_wait2_state [OF assms(2) this] obtain c where c: "wait2_state s c" by blast
  then have h: "hs_ctrl s = Some c" by (simp add: wait2_state_def)
  have win: "rc_winning_idx c = int i" "rc_rc c i = 0" "rc_http_status c i = 200" using None assms(3) h by (simp_all add: won_None)
  show ?thesis using assms(1)
  proof cases
    case (worker_no_curl j)
    then have "j \<noteq> i" using not_past_not_won [OF assms(3) None, of j] by (simp add: w_past_def)
    with worker_no_curl None assms(3) h show ?thesis by (simp add: won_None worker_fail_def worker_no_session_def)
  next
    case (worker_chunk j chunk chunks ok status lat)
    then have "j \<noteq> i" using not_past_not_won [OF assms(3) None, of j] by (simp add: w_past_def)
    with worker_chunk None assms(3) h show ?thesis
      by (auto simp: won_None worker_receive_def hedged_write_cb_def split: if_splits)
  next
    case (worker_store j code status lat)
    then have "j \<noteq> i" using not_past_not_won [OF assms(3) None, of j] by (simp add: w_past_def)
    moreover have "rc_winning_idx (worker_finish j code status lat c) = int i"
      "rc_rc (worker_finish j code status lat c) i = rc_rc c i"
      "rc_http_status (worker_finish j code status lat c) i = rc_http_status c i"
      using win calculation by (simp_all add: worker_finish_winning) (simp_all add: worker_finish_def Let_def)
    ultimately show ?thesis using worker_store None assms(3) h by (simp add: won_None worker_store_def)
  next
    case (worker_release j)
    then show ?thesis using None assms(3) h by (auto simp: won_None worker_unref_def ctrl_unref_def w_past_def)
  next
    case (worker_free j)
    have "refs_ok s" "0 < holders s" using c holders_pos [of s] by (auto simp: wait2_state_def c_active_def)
    then have "freeing s = 0" using h by (simp add: refs_ok_def)
    moreover have "j = 0 \<or> j = 1" using worker_idx [OF \<open>refs_ok s\<close>, of j] worker_free by simp
    ultimately show ?thesis using worker_free by (auto simp: freeing_zero)
  next
    case coord_wake2
    with wait2_won [OF c assms(3)] show ?thesis by simp
  qed (use assms early None h not_past_not_won in \<open>auto intro!: wait1_won won_move simp: worker_poll_def w_past_def\<close>)
qed

lemma run_won:
  "race_run sh params s t \<Longrightarrow> hedge_inv s \<Longrightarrow> has_won i b s \<Longrightarrow> has_won i b t"
  unfolding race_run_def
proof (induction rule: rtranclp_induct)
  case (step t u)
  moreover have "hedge_inv t" using step race_run_inv by (auto simp: race_run_def)
  ultimately show ?case using step_won by blast
qed

section \<open>Termination\<close>

text \<open>Every step but the delivery of a chunk lowers the weight of the threads; a delivery shortens a
  transfer.\<close>

definition w_weight :: "worker_pc \<Rightarrow> nat" where
  "w_weight pc = (case pc of W_None \<Rightarrow> 0 | W_Start \<Rightarrow> 10 | W_Transfer cs \<Rightarrow> 8 | W_Store a b c \<Rightarrow> 6 | W_Stored \<Rightarrow> 4 | W_Destroy \<Rightarrow> 2 | W_End \<Rightarrow> 0)"

definition c_weight :: "coord_pc \<Rightarrow> nat" where
  "c_weight pc = (case pc of C_Start \<Rightarrow> 40 | C_Sleep1 \<Rightarrow> 30 | C_Sleep2 \<Rightarrow> 12 | C_Harvested \<Rightarrow> 8 | C_Destroy \<Rightarrow> 4 | C_End \<Rightarrow> 0)"

definition race_weight :: "hedge_sys \<Rightarrow> nat" where
  "race_weight s = c_weight (hs_coord s) + w_weight (hs_worker s 0) + w_weight (hs_worker s 1) + of_bool (hs_signal s)"

definition w_chunks :: "worker_pc \<Rightarrow> nat" where
  "w_chunks pc = (case pc of W_Transfer cs \<Rightarrow> length cs | _ \<Rightarrow> 0)"

definition race_chunks :: "hedge_sys \<Rightarrow> nat" where
  "race_chunks s = w_chunks (hs_worker s 0) + w_chunks (hs_worker s 1)"

lemma set_worker_weight:
  assumes "i = 0 \<or> i = 1"
  shows "race_weight (set_worker i pc s) + w_weight (hs_worker s i) = race_weight s + w_weight pc"
  using assms by (auto simp: race_weight_def)

lemma wait2_weight:
  assumes "hs_ctrl s = Some c"
  shows "race_weight (hedge_wait2 s) \<le> 12 + w_weight (hs_worker s 0) + w_weight (hs_worker s 1) + of_bool (hs_signal s) \<and>
    (hs_coord s = C_Sleep2 \<and> hs_signal s \<longrightarrow> race_weight (hedge_wait2 s) < race_weight s)"
proof -
  obtain c' r where "harvest (hs_secondary_started s) c = (c', r)" by fastforce
  with assms show ?thesis by (simp add: hedge_wait2_def race_weight_def c_weight_def)
qed

lemma wait1_weight:
  assumes "hs_ctrl s = Some c" "hs_worker s 1 = W_None" "hs_coord s = C_Start \<or> (hs_coord s = C_Sleep1 \<and> (timeout \<or> hs_signal s))"
  shows "race_weight (hedge_wait1 timeout sh a b d params s) < race_weight s"
proof (cases "wait1_over c \<or> timeout")
  case True
  let ?d = "hedge_dispatch sh a b d params c s"
  have "\<exists>c'. hs_ctrl ?d = Some c'" "hs_worker ?d 0 = hs_worker s 0" "hs_signal ?d = hs_signal s"
    "w_weight (hs_worker ?d 1) \<le> 10"
    using assms(1,2) by (auto simp: hedge_dispatch_def Let_def w_weight_def)
  then have "race_weight (hedge_wait2 ?d) \<le> 22 + w_weight (hs_worker s 0) + of_bool (hs_signal s)"
    using wait2_weight [of ?d] by fastforce
  moreover have "30 + w_weight (hs_worker s 0) + of_bool (hs_signal s) \<le> race_weight s"
    using assms(3) by (auto simp: race_weight_def c_weight_def)
  ultimately show ?thesis using True assms(1) by (simp add: hedge_wait1_def)
next
  case False
  with assms show ?thesis by (auto simp: hedge_wait1_def race_weight_def c_weight_def)
qed

lemma receive_weight:
  assumes "hs_worker s i = W_Transfer (chunk # chunks)" "i = 0 \<or> i = 1" "hs_ctrl s = Some c"
  shows "race_weight (worker_receive ok i chunk chunks status lat s) < race_weight s \<or>
    (race_weight (worker_receive ok i chunk chunks status lat s) = race_weight s \<and>
     race_chunks (worker_receive ok i chunk chunks status lat s) < race_chunks s)"
  using assms by (auto simp: worker_receive_def race_weight_def race_chunks_def w_weight_def w_chunks_def split: option.splits)

lemma step_weight:
  assumes "race_step sh params s t" "hedge_inv s"
  shows "race_weight t < race_weight s \<or> (race_weight t = race_weight s \<and> race_chunks t < race_chunks s)"
proof -
  have r: "refs_ok s" using assms(2) by (simp add: hedge_inv_def)
  note ctrl = refs_ok_ctrl [OF r]
  have none: "hs_coord s = C_Start \<or> hs_coord s = C_Sleep1 \<Longrightarrow> hs_worker s 1 = W_None"
    using assms(2) by (auto simp: hedge_inv_def)
  show ?thesis using assms(1)
  proof cases
    case (coord_start a b d)
    with ctrl obtain c where "hs_ctrl s = Some c" by (auto simp: c_active_def)
    with wait1_weight [OF this none] coord_start show ?thesis by blast
  next
    case (coord_wake1 a b d)
    with ctrl obtain c where "hs_ctrl s = Some c" by (auto simp: c_active_def)
    with wait1_weight [OF this none] coord_wake1 show ?thesis by blast
  next
    case (coord_timeout a b d)
    with ctrl obtain c where "hs_ctrl s = Some c" by (auto simp: c_active_def)
    with wait1_weight [OF this none] coord_timeout show ?thesis by blast
  next
    case coord_wake2
    with ctrl obtain c where "hs_ctrl s = Some c" by (auto simp: c_active_def)
    with wait2_weight [OF this] coord_wake2 show ?thesis by blast
  next
    case coord_release
    with ctrl obtain c where "hs_ctrl s = Some c" by (auto simp: c_active_def)
    with coord_release show ?thesis by (simp add: coord_unref_def ctrl_unref_def race_weight_def c_weight_def)
  next
    case coord_free
    with ctrl obtain c where "hs_ctrl s = Some c" by auto
    with coord_free show ?thesis by (simp add: ctrl_free_def race_weight_def c_weight_def)
  next
    case (worker_chunk i chunk chunks ok status lat)
    with ctrl [of i] obtain c where c: "hs_ctrl s = Some c" by (auto simp: w_active_def)
    have "i = 0 \<or> i = 1" using worker_idx [OF r, of i] worker_chunk by simp
    from receive_weight [OF worker_chunk(2) this c] worker_chunk(1) show ?thesis by simp
  next
    case (worker_no_curl i)
    with ctrl [of i] obtain c where c: "hs_ctrl s = Some c" by (auto simp: w_active_def)
    have "i = 0 \<or> i = 1" using worker_idx [OF r, of i] worker_no_curl by simp
    with c worker_no_curl show ?thesis by (auto simp: worker_fail_def race_weight_def w_weight_def)
  next
    case (worker_begin i chunks)
    have "i = 0 \<or> i = 1" using worker_idx [OF r, of i] worker_begin by simp
    with worker_begin show ?thesis by (auto simp: race_weight_def w_weight_def)
  next
    case (worker_cancelled i chunks c status lat)
    have "i = 0 \<or> i = 1" using worker_idx [OF r, of i] worker_cancelled by simp
    with worker_cancelled show ?thesis by (auto simp: worker_poll_def race_weight_def w_weight_def)
  next
    case (worker_error i chunks code status lat)
    have "i = 0 \<or> i = 1" using worker_idx [OF r, of i] worker_error by simp
    with worker_error show ?thesis by (auto simp: race_weight_def w_weight_def)
  next
    case (worker_complete i status lat)
    have "i = 0 \<or> i = 1" using worker_idx [OF r, of i] worker_complete by simp
    with worker_complete show ?thesis by (auto simp: race_weight_def w_weight_def)
  next
    case (worker_store i code status lat)
    with ctrl [of i] obtain c where c: "hs_ctrl s = Some c" by (auto simp: w_active_def)
    have "i = 0 \<or> i = 1" using worker_idx [OF r, of i] worker_store by simp
    with c worker_store show ?thesis by (auto simp: worker_store_def race_weight_def w_weight_def)
  next
    case (worker_release i)
    with ctrl [of i] obtain c where c: "hs_ctrl s = Some c" by (auto simp: w_active_def)
    have "i = 0 \<or> i = 1" using worker_idx [OF r, of i] worker_release by simp
    with c worker_release show ?thesis by (auto simp: worker_unref_def ctrl_unref_def race_weight_def w_weight_def)
  next
    case (worker_free i)
    with ctrl [of i] obtain c where c: "hs_ctrl s = Some c" by auto
    have "i = 0 \<or> i = 1" using worker_idx [OF r, of i] worker_free by simp
    with c worker_free show ?thesis by (auto simp: ctrl_free_def race_weight_def w_weight_def)
  qed
qed

text \<open>A thread that is not at its end can go on, or another one can.\<close>

lemma step_worker_exists:
  assumes "hs_worker s i \<notin> {W_None, W_End}"
  shows "\<exists>t. race_step sh params s t"
proof (cases "hs_worker s i")
  case (W_Transfer chunks)
  then show ?thesis using worker_error [of s i chunks Curl_other] by blast
qed (use assms in \<open>blast intro: worker_no_curl worker_store worker_release worker_free\<close>)+

lemma stuck_ended:
  assumes "hedge_inv s" "\<nexists>t. race_step sh params s t"
  shows "hs_coord s = C_End \<and> (\<forall>i. hs_worker s i \<in> {W_None, W_End})"
proof -
  have w: "\<forall>i. hs_worker s i \<in> {W_None, W_End}" using step_worker_exists assms(2) by blast
  have "hs_coord s = C_End"
  proof (cases "hs_coord s")
    case C_Sleep2
    with inv_wait2_state [OF assms(1)] obtain c where c: "wait2_state s c" by blast
    have "\<not> hs_signal s" using assms(2) C_Sleep2 coord_wake2 by blast
    moreover have "race_ok s c" using assms(1) c by (simp add: hedge_inv_def wait2_state_def)
    ultimately have "\<not> wait2_over (hs_secondary_started s) c" using C_Sleep2 by (simp add: race_ok_def)
    moreover have "hs_worker s 0 \<noteq> W_None" using c by (simp add: wait2_state_def refs_ok_def)
    then have "rc_done c 0" using c w by (auto simp: wait2_state_def w_past_def)
    moreover have "hs_secondary_started s \<Longrightarrow> rc_done c 1" using c w by (auto simp: wait2_state_def w_past_def)
    ultimately show ?thesis by (auto simp: wait2_over_def)
  qed (use assms(2) in \<open>blast intro: coord_start coord_timeout coord_release coord_free\<close>)+
  with w show ?thesis by simp
qed

lemma ended_freed:
  assumes "hedge_inv s"
  shows "hs_ctrl s = None \<longleftrightarrow> hs_coord s = C_End \<and> (\<forall>i. hs_worker s i \<in> {W_None, W_End})"
proof -
  have r: "refs_ok s" using assms by (simp add: hedge_inv_def)
  have "\<forall>i>1. hs_worker s i = W_None" using r by (simp add: refs_ok_def)
  then have "(\<forall>i. hs_worker s i \<in> {W_None, W_End}) \<longleftrightarrow> hs_worker s 0 \<in> {W_None, W_End} \<and> hs_worker s 1 \<in> {W_None, W_End}"
    by (metis One_nat_def insertI1 less_one linorder_neqE_nat)
  moreover have "holders s = 0 \<and> freeing s = 0 \<longleftrightarrow>
      hs_coord s = C_End \<and> hs_worker s 0 \<in> {W_None, W_End} \<and> hs_worker s 1 \<in> {W_None, W_End}"
    by (auto simp: holders_zero freeing_zero c_active_def w_active_def)
  moreover have "hs_ctrl s = None \<longleftrightarrow> holders s = 0 \<and> freeing s = 0"
    using r by (auto simp: refs_ok_def split: option.splits if_splits)
  ultimately show ?thesis by blast
qed

lemma race_run_refl: "race_run sh params s s"
  by (simp add: race_run_def)

text \<open>The number of extra headers: up to 16 the request is built and the context freed; above, both loops leave the
  array. No caller under \<^verbatim>\<open>src/\<close> passes more than eight.\<close>

lemma extra_lines_bounds:
  "extra_lines hs is' has_auth hdrs = None \<longleftrightarrow> \<not> (\<forall>i\<in>set is'. i < HEDGED_MAX_EXTRA_HEADERS)"
  by (induction hs is' has_auth hdrs rule: extra_lines.induct) (auto split: option.splits prod.splits simp: not_less)

lemma free_headers_bounds:
  "free_headers is' = None \<longleftrightarrow> \<not> (\<forall>i\<in>set is'. i < HEDGED_MAX_EXTRA_HEADERS)"
  by (induction is') (auto simp: not_less)

lemma headers_below: "(\<forall>i\<in>set [0..<nat n]. i < HEDGED_MAX_EXTRA_HEADERS) \<longleftrightarrow> n \<le> 16"
proof -
  have "(\<forall>i\<in>set [0..<nat n]. i < HEDGED_MAX_EXTRA_HEADERS) \<longleftrightarrow> nat n \<le> 16"
    unfolding HEDGED_MAX_EXTRA_HEADERS_def set_upt atLeastLessThan_iff Ball_def
    by (meson le_less_trans less_irrefl not_le zero_le less_le_trans)
  thus ?thesis by (simp add: nat_le_iff)
qed

lemma worker_headers_overread:
  "worker_headers (worker_ctx_create ok spec params) = None \<longleftrightarrow> es_n_extra_headers spec > 16"
  "worker_ctx_free (worker_ctx_create ok spec params) = None \<longleftrightarrow> es_n_extra_headers spec > 16"
proof -
  let ?ctx = "worker_ctx_create ok spec params"
  have n: "wc_n_extra_headers ?ctx = es_n_extra_headers spec" by (simp add: worker_ctx_create_def Let_def)
  show "worker_headers ?ctx = None \<longleftrightarrow> es_n_extra_headers spec > 16"
    using extra_lines_bounds [of "wc_extra_headers ?ctx" "[0..<nat (es_n_extra_headers spec)]" False "[]"]
    unfolding headers_below by (auto simp: worker_headers_def n not_le split: option.splits prod.splits)
  show "worker_ctx_free ?ctx = None \<longleftrightarrow> es_n_extra_headers spec > 16"
    unfolding worker_ctx_free_def n free_headers_bounds headers_below by (simp add: not_le)
qed

text \<open>A call for the witnesses below.\<close>

definition sample_params :: call_params where
  "sample_params =
     (let e = \<lparr>es_url = ''u'', es_key = ''k'', es_endpoint = ''e'', es_payload = None, es_extra_headers = [], es_n_extra_headers = 0\<rparr>
      in \<lparr>cp_model = Some ''m'', cp_primary = e, cp_secondary = e, cp_has_secondary = False, cp_payload = Some ''p'',
          cp_timeout_ms = 0, cp_delay_ms = 0, cp_budget_pct = 0\<rparr>)"

definition sample_start :: hedge_sys where
  "sample_start = projr (hedge_begin None True True True True sample_params)"

lemma sample_begin: "hedge_begin None True True True True sample_params = Inr sample_start"
  by (simp add: sample_start_def hedge_begin_def)

lemma sample_start_sel:
  "hs_worker sample_start = (\<lambda>_. W_None)(0 := W_Start)" "hs_coord sample_start = C_Start"
  "hs_ctrl sample_start = Some (race_ctrl_new\<lparr>rc_ref_count := 2\<rparr>)" "hs_secondary_started sample_start = False"
  "hs_result sample_start = None" "hs_received sample_start = (\<lambda>_. [])"
  by (simp_all add: sample_start_def hedge_begin_def)

text \<open>The primary answers with a status; then the coordinator takes the result.\<close>

definition sample_answer :: "int \<Rightarrow> hedge_sys" where
  "sample_answer status =
     worker_store 0 CURLE_OK status 5 (set_worker 0 (W_Store CURLE_OK status 5)
       (worker_receive True 0 ''ok'' [] 0 0 (set_worker 0 (W_Transfer [''ok'']) sample_start)))"

lemma sample_answer_run: "race_run False sample_params sample_start (sample_answer status)"
proof -
  let ?s1 = "set_worker 0 (W_Transfer [''ok'']) sample_start"
  let ?s2 = "worker_receive True 0 ''ok'' [] 0 0 ?s1"
  let ?s3 = "set_worker 0 (W_Store CURLE_OK status 5) ?s2"
  have "race_step False sample_params sample_start ?s1" by (rule worker_begin) (simp add: sample_start_sel)
  moreover have "race_step False sample_params ?s1 ?s2" by (rule worker_chunk) simp
  moreover have "hs_worker ?s2 0 = W_Transfer []"
    by (simp add: worker_receive_def on_ctrl_def sample_start_sel hedged_write_cb_def race_ctrl_new_def resp_len_def RESP_MAX_LEN_def)
  then have "race_step False sample_params ?s2 ?s3" by (rule worker_complete)
  moreover have "race_step False sample_params ?s3 (sample_answer status)" unfolding sample_answer_def by (rule worker_store) simp
  ultimately show ?thesis by (rule run_stepI [OF run_stepI [OF run_stepI [OF run_stepI [OF race_run_refl]]]])
qed

lemma sample_answer_sel:
  "hs_ctrl (sample_answer status) = Some (worker_finish 0 CURLE_OK status 5
     (race_ctrl_new\<lparr>rc_ref_count := 2, rc_resp_body := (\<lambda>_. None)(0 := Some ''ok'')\<rparr>))"
  "hs_coord (sample_answer status) = C_Start" "hs_result (sample_answer status) = None"
  "hs_received (sample_answer status) 0 = ''ok''" "hs_secondary_started (sample_answer status) = False"
  by (simp_all add: sample_answer_def worker_store_def worker_receive_def on_ctrl_def sample_start_sel hedged_write_cb_def
      race_ctrl_new_def resp_len_def RESP_MAX_LEN_def)

definition sample_result :: "int \<Rightarrow> hedge_sys" where
  "sample_result status = hedge_wait1 False False True True True sample_params (sample_answer status)"

lemma sample_result_step: "race_step False sample_params (sample_answer status) (sample_result status)"
  unfolding sample_result_def by (rule coord_start) (simp add: sample_answer_sel)

lemma sample_result_sel: "hs_result (sample_result status) = Some (outcome 0 (the (hs_ctrl (sample_answer status))))"
proof -
  let ?c = "the (hs_ctrl (sample_answer status))"
  have c: "hs_ctrl (sample_answer status) = Some ?c" by (simp add: sample_answer_sel)
  have w: "rc_winning_idx ?c = 0 \<or> rc_winning_idx ?c = -1" "rc_done ?c 0"
    by (simp_all add: sample_answer_sel worker_finish_winning race_ctrl_new_def)
  then have w2: "wait2_over False ?c" by (simp add: wait2_over_def)
  have wr: "rc_winning_idx ?c \<in> {-1, 0, 1}" using w(1) by blast
  obtain c' where h: "harvest False ?c = (c', outcome 0 ?c)"
    using harvest_outcome [OF w2 wr] w(1) by (cases "harvest False ?c") (auto simp: winner_def)
  show ?thesis
    using c w2 w(2) h by (simp add: sample_result_def hedge_wait1_def wait1_over_def hedge_dispatch_def hedge_wait2_def sample_answer_sel)
qed

section \<open>Properties\<close>

text \<open>C12. In every interleaving of a call no thread uses the control block after it was freed, a worker has its
  context exactly while it runs, and the block is freed exactly when all threads are done.\<close>

theorem hedged_memory_safe:
  assumes "hedge_begin lt ctrl_ok ctx_ok payload_ok create_ok params = Inr s0" "race_run sh params s0 s"
  shows "\<not> hs_bad s \<and> (\<forall>i. hs_ctx s i \<noteq> None \<longleftrightarrow> w_active (hs_worker s i)) \<and>
    (hs_ctrl s = None \<longleftrightarrow> hs_coord s = C_End \<and> (\<forall>i. hs_worker s i \<in> {W_None, W_End}))"
proof -
  have inv: "hedge_inv s" by (rule race_run_inv [OF assms(2) hedge_begin_inv [OF assms(1)]])
  then have "\<not> hs_bad s" "\<forall>i. hs_ctx s i \<noteq> None \<longleftrightarrow> w_active (hs_worker s i)"
    by (simp_all add: hedge_inv_def refs_ok_def)
  with ended_freed [OF inv] show ?thesis by (intro conjI)
qed

text \<open>A call with a primary target only; its worker cannot create a session.\<close>

lemma hedged_memory_safe_witness:
  "\<not> hs_bad (worker_fail 0 sample_start) \<and> hs_ctrl (worker_fail 0 sample_start) \<noteq> None"
proof -
  have "hs_worker sample_start 0 = W_Start" "hs_coord sample_start = C_Start" by (simp_all add: sample_start_sel)
  then have "race_run False sample_params sample_start (worker_fail 0 sample_start)"
    by (intro run_stepI [OF race_run_refl] worker_no_curl)
  note safe = hedged_memory_safe [OF sample_begin this]
  have "hs_coord (worker_fail 0 sample_start) \<noteq> C_End" by (simp add: worker_fail_def on_ctrl_def sample_start_sel)
  with safe show ?thesis by simp
qed

text \<open>C13. The caller gets the answer of the first target to succeed: once target \<open>i\<close> has answered with status 200
  and no other target has, whatever the threads do after that, a result that is given is the answer of \<open>i\<close>,
  with the whole body it has received.\<close>

theorem hedged_first_success_wins:
  assumes "hedge_begin lt ctrl_ok ctx_ok payload_ok create_ok params = Inr s0" "race_run sh params s0 s"
    and "hs_result s = None" "hs_ctrl s = Some c" "succeeded c i" "\<forall>j. j \<noteq> i \<longrightarrow> \<not> succeeded c j"
    and "race_run sh params s t" "hs_result t = Some r"
  shows "cr_winning_target_idx r = i \<and> cr_rc r = 0 \<and> cr_status r = 200 \<and> cstr_or_empty (cr_body r) = hs_received s i"
proof -
  have inv: "hedge_inv s" by (rule race_run_inv [OF assms(2) hedge_begin_inv [OF assms(1)]])
  with assms(4) have "race_ok s c" by (simp add: hedge_inv_def)
  with assms(5,6) have "rc_winning_idx c = int i" "w_past (hs_worker s i)"
    by (auto simp: race_ok_def win_ok_def succeeded_def split: if_splits)
  then have "has_won i (hs_received s i) s" using assms(3-5) by (simp add: won_None succeeded_def)
  from run_won [OF assms(7) inv this] assms(8) show ?thesis by (simp add: has_won_def)
qed

text \<open>The primary answers with 200; the caller gets it.\<close>

lemma hedged_first_success_wins_witness:
  "cr_status (the (hs_result (sample_result 200))) = 200 \<and> cstr_or_empty (cr_body (the (hs_result (sample_result 200)))) = ''ok''"
proof -
  let ?c = "the (hs_ctrl (sample_answer 200))"
  have c: "hs_ctrl (sample_answer 200) = Some ?c" by (simp add: sample_answer_sel)
  have s: "succeeded ?c 0" "\<forall>j. j \<noteq> 0 \<longrightarrow> \<not> succeeded ?c j"
    by (simp_all add: sample_answer_sel worker_finish_succeeded) (simp add: succeeded_def race_ctrl_new_def)
  have t: "race_run False sample_params (sample_answer 200) (sample_result 200)"
    by (rule run_stepI [OF race_run_refl sample_result_step])
  from hedged_first_success_wins [OF sample_begin sample_answer_run sample_answer_sel(3) c s t sample_result_sel]
  show ?thesis by (simp add: sample_result_sel sample_answer_sel(4))
qed

text \<open>A call fails only when every target that was started has failed, and then it reports the primary.\<close>

theorem hedged_failure_is_complete:
  assumes "hedge_begin lt ctrl_ok ctx_ok payload_ok create_ok params = Inr s0" "race_run sh params s0 s"
    and "race_step sh params s t" "hs_result s = None" "hs_result t = Some r"
    and "\<not> (cr_rc r = 0 \<and> cr_status r = 200)"
  shows "w_past (hs_worker s 0) \<and> (hs_worker s 1 = W_None \<or> w_past (hs_worker s 1)) \<and>
    (\<exists>c. hs_ctrl s = Some c \<and> (\<forall>i. \<not> succeeded c i) \<and> cr_rc r = rc_rc c 0 \<and> cr_status r = rc_http_status c 0) \<and>
    cr_winning_target_idx r = 0"
proof -
  have inv: "hedge_inv s" by (rule race_run_inv [OF assms(2) hedge_begin_inv [OF assms(1)]])
  from step_result [OF assms(3) inv assms(4,5)] obtain c where c: "hs_ctrl s = Some c"
    "wait2_over (hs_secondary_started s) c" "r = outcome (winner c) c" by blast
  from inv assms(4) have "hs_coord s \<in> {C_Start, C_Sleep1, C_Sleep2}" by (auto simp: hedge_inv_def)
  from inv_wait2_state [OF inv this] obtain c1 where c1: "wait2_state s c1" by blast
  then have "hs_ctrl s = Some c1" by (simp add: wait2_state_def)
  with c(1) c1 have w: "wait2_state s c" by simp
  have "rc_winning_idx c = -1"
  proof (rule ccontr)
    assume n: "rc_winning_idx c \<noteq> -1"
    have "win_ok c" using w by (simp add: wait2_state_def)
    with n obtain i where i: "rc_winning_idx c = int i" "succeeded c i" by (auto simp: win_ok_def)
    moreover have "winner c = i" using i(1) winning_range [OF w] by (auto simp: winner_def)
    ultimately show False using c(3) assms(6) by (simp add: succeeded_def)
  qed
  moreover have "win_ok c" using w by (simp add: wait2_state_def)
  then have "\<forall>i. \<not> succeeded c i" using calculation by (simp add: win_ok_def)
  moreover have "winner c = 0" using calculation(1) by (simp add: winner_def)
  moreover have "rc_done c 0" "hs_secondary_started s \<longrightarrow> rc_done c 1"
    using c(2) calculation(1) by (simp_all add: wait2_over_def)
  then have "w_past (hs_worker s 0)" "hs_worker s 1 \<noteq> W_None \<longrightarrow> w_past (hs_worker s 1)"
    using w by (simp_all add: wait2_state_def)
  then have "w_past (hs_worker s 0)" "hs_worker s 1 = W_None \<or> w_past (hs_worker s 1)" by blast+
  ultimately show ?thesis using c(1,3) by simp
qed

text \<open>The primary answers with 500 and no other target was started.\<close>

lemma hedged_failure_is_complete_witness:
  "cr_winning_target_idx (the (hs_result (sample_result 500))) = 0 \<and> w_past (hs_worker (sample_answer 500) 0)"
proof -
  let ?r = "outcome 0 (the (hs_ctrl (sample_answer 500)))"
  have "\<not> (cr_rc ?r = 0 \<and> cr_status ?r = 200)"
    by (simp add: sample_answer_sel worker_finish_def Let_def)
  from hedged_failure_is_complete [OF sample_begin sample_answer_run sample_result_step sample_answer_sel(3) sample_result_sel this]
  show ?thesis by (simp add: sample_result_sel)
qed

text \<open>C14. A call ends: no interleaving goes on for ever, and when no thread can go on every thread has ended, the
  caller has its result and the block is freed.\<close>

theorem hedged_call_returns:
  assumes "hedge_begin lt ctrl_ok ctx_ok payload_ok create_ok params = Inr s0"
  shows "wf {(t, s). race_run sh params s0 s \<and> race_step sh params s t} \<and>
    (\<forall>s. race_run sh params s0 s \<longrightarrow> (\<nexists>t. race_step sh params s t) \<longrightarrow>
      hs_coord s = C_End \<and> (\<forall>i. hs_worker s i \<in> {W_None, W_End}) \<and> hs_result s \<noteq> None \<and> hs_ctrl s = None)"
proof -
  have inv: "race_run sh params s0 s \<Longrightarrow> hedge_inv s" for s
    using race_run_inv hedge_begin_inv [OF assms] by blast
  have "{(t, s). race_run sh params s0 s \<and> race_step sh params s t} \<subseteq> measures [race_weight, race_chunks]"
  proof clarify
    fix t s
    assume "race_run sh params s0 s" "race_step sh params s t"
    from step_weight [OF this(2) inv [OF this(1)]] show "(t, s) \<in> measures [race_weight, race_chunks]" by auto
  qed
  then have "wf {(t, s). race_run sh params s0 s \<and> race_step sh params s t}" by (rule wf_subset [rotated]) simp
  moreover have "hs_coord s = C_End \<and> (\<forall>i. hs_worker s i \<in> {W_None, W_End}) \<and> hs_result s \<noteq> None \<and> hs_ctrl s = None"
    if "race_run sh params s0 s" "\<nexists>t. race_step sh params s t" for s
    using stuck_ended [OF inv [OF that(1)] that(2)] ended_freed [OF inv [OF that(1)]] inv [OF that(1)]
    by (simp add: hedge_inv_def)
  ultimately show ?thesis by blast
qed

text \<open>The sample call.\<close>

lemma hedged_call_returns_witness:
  "wf {(t, s). race_run False sample_params sample_start s \<and> race_step False sample_params s t}"
  using hedged_call_returns [OF sample_begin, of False] by blast

end
