(* ===== verification/Gate.thy ===== *)
theory Gate
  imports Auth_Key Rate_Limit Budget Ip_Ban Usage_Meter Event_Bus
begin

text \<open>
  The admission and the settlement of a request in \<^verbatim>\<open>src/core/aigate_core.c\<close>: the calls into the key
  resolution, the limiter, the budgets, the ban table, the usage meter, the event bus and the audit
  log, in the order of the code. A component the gateway runs without is \<open>None\<close>. What is outside (the
  store, Redis, SHA-256, clocks, allocations) is in \<open>gate_in\<close>, so that a call is a function. Spans of
  the tracer and the bodies of the error replies are left out.
\<close>

section \<open>The gateway\<close>

text \<open>The event of the audit log and the row for the cold store.\<close>

datatype audit_severity = AUDIT_SEV_INFO | AUDIT_SEV_WARN | AUDIT_SEV_VIOLATION | AUDIT_SEV_ERROR

definition audit_severity_str :: "audit_severity \<Rightarrow> string" where
  "audit_severity_str sev = (case sev of
     AUDIT_SEV_INFO \<Rightarrow> ''INFO'' | AUDIT_SEV_WARN \<Rightarrow> ''WARN'' | AUDIT_SEV_VIOLATION \<Rightarrow> ''VIOLATION'' | AUDIT_SEV_ERROR \<Rightarrow> ''ERROR'')"

text \<open>\<^verbatim>\<open>severity >= AUDIT_SEV_VIOLATION\<close>\<close>

definition sev_violation :: "audit_severity \<Rightarrow> bool" where
  "sev_violation sev \<longleftrightarrow> sev = AUDIT_SEV_VIOLATION \<or> sev = AUDIT_SEV_ERROR"

record gate_audit =
  ga_trace_id :: string
  ga_timestamp_ms :: int
  ga_key_id :: int
  ga_client_ip :: string
  ga_model :: string
  ga_routed_model :: string
  ga_fallback_reason :: string
  ga_provider :: string
  ga_http_status :: int
  ga_prompt_tokens :: int
  ga_completion_tokens :: int
  ga_latency_ns :: int
  ga_ttft_ns :: int
  ga_severity :: audit_severity
  ga_violation_type :: string
  ga_rule_detail :: string
  ga_prompt_snapshot :: "string option"

record violation_rec =
  vr_trace_id :: string
  vr_tenant_id :: string
  vr_client_ip :: string
  vr_model :: string
  vr_routed_model :: string
  vr_severity :: string
  vr_rule_tag :: string
  vr_http_status :: int
  vr_ttft_ms :: int
  vr_total_latency_ms :: int
  vr_fallback_reason :: string
  vr_prompt_snapshot :: "string option"
  vr_completion_snapshot :: "string option"

text \<open>\<open>gw_audit\<close> holds what was handed to the logger, \<open>gw_store\<close> the rows inserted in the store.\<close>

record 'h gateway =
  gw_keys :: auth_cache
  gw_rl :: "ratelimit option"
  gw_be :: "budget_mgr option"
  gw_ban :: "ip_ban_table option"
  gw_um :: "'h usage_meter option"
  gw_eb :: "event_bus option"
  gw_audit :: "gate_audit list option"
  gw_max_prompt_len :: nat
  gw_store :: "violation_rec list option"

record gate_in =
  gi_sha :: "string \<Rightarrow> string option"
  gi_keys :: "string \<Rightarrow> key_lookup"
  gi_dup_ok :: bool
  gi_copy_ok :: bool
  gi_put_ok :: bool
  gi_neg_ok :: bool
  gi_eval :: redis_eval
  gi_get :: redis_get
  gi_rl_ok :: bool
  gi_budget_ok :: bool
  gi_ban_ok :: bool
  gi_snapshot_ok :: bool
  gi_mono_ns :: "64 word"
  gi_wall_ms :: nat
  gi_now :: int

record gate_req =
  gq_bearer :: "string option"
  gq_client_ip :: "string option"
  gq_trace_id :: string

datatype gate_out = Gate_Pass key_rec | Gate_Refuse int string "int option"

section \<open>Records of a request\<close>

text \<open>The token counts of the audit and the milliseconds of a violation are \<^verbatim>\<open>uint32_t\<close>.\<close>

definition c_uint32 :: "int \<Rightarrow> int" where
  "c_uint32 n = n mod 2 ^ 32"

definition audit_event_set_prompt :: "bool \<Rightarrow> string option \<Rightarrow> nat \<Rightarrow> string option" where
  "audit_event_set_prompt ok prompt max_len =
     (case prompt of None \<Rightarrow> None | Some p \<Rightarrow> if max_len = 0 \<or> \<not> ok then None else Some (take max_len p))"

definition audit_event_of ::
  "gate_in \<Rightarrow> nat \<Rightarrow> string option \<Rightarrow> string option \<Rightarrow> int \<Rightarrow> string option \<Rightarrow> string option \<Rightarrow> string option \<Rightarrow> int \<Rightarrow> int \<Rightarrow> int \<Rightarrow>
   int \<Rightarrow> int \<Rightarrow> audit_severity \<Rightarrow> string \<Rightarrow> string \<Rightarrow> string \<Rightarrow> string option \<Rightarrow> gate_audit" where
  "audit_event_of gi max_len trace_id client_ip key_id model routed_model provider status ptok ctok lat ttft sev vtype detail
     fallback prompt =
     \<lparr>ga_trace_id = cstr_copy 64 (cstr_or_empty trace_id), ga_timestamp_ms = int (gi_wall_ms gi), ga_key_id = key_id,
      ga_client_ip = cstr_copy 48 (cstr_or_empty client_ip), ga_model = cstr_copy 64 (cstr_or_empty model),
      ga_routed_model = (if cstr_or_empty routed_model \<noteq> [] then cstr_copy 64 (cstr_or_empty routed_model)
                         else cstr_copy 64 (cstr_or_empty model)),
      ga_fallback_reason = cstr_copy 32 fallback, ga_provider = cstr_copy 32 (cstr_or_empty provider),
      ga_http_status = status, ga_prompt_tokens = c_uint32 ptok, ga_completion_tokens = c_uint32 ctok, ga_latency_ns = lat, ga_ttft_ns = ttft,
      ga_severity = sev, ga_violation_type = cstr_copy 32 vtype, ga_rule_detail = cstr_copy 128 detail,
      ga_prompt_snapshot = (if sev_violation sev \<and> cstr_or_empty prompt \<noteq> []
        then audit_event_set_prompt (gi_snapshot_ok gi) prompt (min (length (cstr_or_empty prompt)) max_len) else None)\<rparr>"

definition violation_of ::
  "gate_in \<Rightarrow> string option \<Rightarrow> string option \<Rightarrow> int \<Rightarrow> string option \<Rightarrow> string option \<Rightarrow> int \<Rightarrow> int \<Rightarrow> int \<Rightarrow> audit_severity \<Rightarrow>
   string \<Rightarrow> string \<Rightarrow> string \<Rightarrow> string option \<Rightarrow> violation_rec" where
  "violation_of gi trace_id client_ip key_id model routed_model status lat ttft sev vtype detail fallback prompt =
     \<lparr>vr_trace_id = cstr_copy 64 (cstr_or_empty trace_id),
      vr_tenant_id = cstr_copy 64 (if key_id > 0 then ''key#'' @ int_str key_id else ''default''),
      vr_client_ip = cstr_copy 48 (cstr_or_empty client_ip), vr_model = cstr_copy 64 (cstr_or_empty model),
      vr_routed_model = cstr_copy 64 (case routed_model of Some r \<Rightarrow> r | None \<Rightarrow> cstr_or_empty model),
      vr_severity = cstr_copy 16 (audit_severity_str sev), vr_rule_tag = cstr_copy 64 vtype, vr_http_status = status,
      vr_ttft_ms = c_uint32 (ttft div 1000000), vr_total_latency_ms = c_uint32 (lat div 1000000), vr_fallback_reason = cstr_copy 32 fallback,
      vr_prompt_snapshot = (if cstr_or_empty prompt \<noteq> [] \<and> gi_snapshot_ok gi then prompt else None),
      vr_completion_snapshot = (if detail \<noteq> [] then Some detail else None)\<rparr>"

definition aigate_record_audit_ex ::
  "gate_in \<Rightarrow> 'h gateway \<Rightarrow> string option \<Rightarrow> string option \<Rightarrow> int \<Rightarrow> string option \<Rightarrow> string option \<Rightarrow> string option \<Rightarrow> int \<Rightarrow> int \<Rightarrow> int \<Rightarrow>
   int \<Rightarrow> int \<Rightarrow> audit_severity \<Rightarrow> string \<Rightarrow> string \<Rightarrow> string \<Rightarrow> string option \<Rightarrow> 'h gateway" where
  "aigate_record_audit_ex gi gw trace_id client_ip key_id model routed_model provider status ptok ctok lat ttft sev vtype detail
     fallback prompt =
     gw\<lparr>gw_audit := map_option (\<lambda>l. l @ [audit_event_of gi (gw_max_prompt_len gw) trace_id client_ip key_id model routed_model
            provider status ptok ctok lat ttft sev vtype detail fallback prompt]) (gw_audit gw),
        gw_store := (if sev_violation sev
          then map_option (\<lambda>l. l @ [violation_of gi trace_id client_ip key_id model routed_model status lat ttft sev vtype detail
                 fallback prompt]) (gw_store gw)
          else gw_store gw)\<rparr>"

definition aigate_record_audit ::
  "gate_in \<Rightarrow> 'h gateway \<Rightarrow> string option \<Rightarrow> string option \<Rightarrow> int \<Rightarrow> string option \<Rightarrow> string option \<Rightarrow> int \<Rightarrow> int \<Rightarrow> int \<Rightarrow>
   int \<Rightarrow> int \<Rightarrow> audit_severity \<Rightarrow> string \<Rightarrow> string \<Rightarrow> string option \<Rightarrow> 'h gateway" where
  "aigate_record_audit gi gw trace_id client_ip key_id model provider status ptok ctok lat ttft sev vtype detail prompt =
     aigate_record_audit_ex gi gw trace_id client_ip key_id model model provider status ptok ctok lat ttft sev vtype detail []
       prompt"

text \<open>\<open>hdr\<close> and \<open>known\<close> are the histogram library and the registry of providers of the meter.\<close>

definition record_usage_and_event ::
  "'h hdr_api \<Rightarrow> (string \<Rightarrow> bool) \<Rightarrow> gate_in \<Rightarrow> 'h gateway \<Rightarrow> int \<Rightarrow> string \<Rightarrow> int \<Rightarrow> int \<Rightarrow> int \<Rightarrow> int \<Rightarrow> int \<Rightarrow> 64 word \<Rightarrow>
   string option \<Rightarrow> string option \<Rightarrow> real \<Rightarrow> 'h gateway option" where
  "record_usage_and_event hdr known gi gw key_id model status ptok ctok cached reasoning lat provider guardrail_act cost = do {
     um \<leftarrow> (case gw_um gw of
              None \<Rightarrow> Some None
            | Some u \<Rightarrow> map_option Some (um_record_full hdr known u (gi_now gi) key_id model status ptok ctok cached reasoning lat
                provider guardrail_act));
     Some (gw\<lparr>gw_um := um,
              gw_eb := map_option (\<lambda>b. event_bus_publish_request b key_id (Some model) provider status (unat lat) ptok ctok cost
                guardrail_act (gi_now gi)) (gw_eb gw)\<rparr>)
   }"

section \<open>Admission\<close>

definition aigate_core_handle_canary_hit ::
  "gate_in \<Rightarrow> 'h gateway \<Rightarrow> string option \<Rightarrow> int \<Rightarrow> string option \<Rightarrow> 'h gateway" where
  "aigate_core_handle_canary_hit gi gw client_ip key_id model =
     (let ev = \<lparr>ga_trace_id = [], ga_timestamp_ms = gi_now gi * 1000, ga_key_id = key_id,
            ga_client_ip = cstr_copy 48 (cstr_or_empty client_ip), ga_model = cstr_copy 64 (cstr_or_empty model),
            ga_routed_model = [], ga_fallback_reason = [], ga_provider = [], ga_http_status = 401, ga_prompt_tokens = 0,
            ga_completion_tokens = 0, ga_latency_ns = 0, ga_ttft_ns = 0, ga_severity = AUDIT_SEV_ERROR,
            ga_violation_type = ''canary_token'', ga_rule_detail = ''Honey-token utilized; source IP automatically banned'',
            ga_prompt_snapshot = None\<rparr>
      in gw\<lparr>gw_ban := (if cstr_or_empty client_ip \<noteq> []
              then map_option (\<lambda>t. fst (ip_ban_table_ban t (gi_now gi) (gi_ban_ok gi) client_ip 3600
                     (Some ''canary_token_compromised''))) (gw_ban gw)
              else gw_ban gw),
            gw_audit := map_option (\<lambda>l. l @ [ev]) (gw_audit gw)\<rparr>)"

text \<open>The gates. \<open>Inl\<close> is the reply of a gate that refuses, with the value of \<^verbatim>\<open>Retry-After\<close>.\<close>

definition gate_auth :: "gate_in \<Rightarrow> gate_req \<Rightarrow> 'h gateway \<Rightarrow> ('h gateway \<times> (gate_out + key_rec)) option" where
  "gate_auth gi q gw = do {
     (akc, rc, out) \<leftarrow> auth_key_resolve (gw_keys gw) (gi_sha gi) (gi_keys gi) (gi_now gi) (gi_dup_ok gi) (gi_copy_ok gi)
       (gi_put_ok gi) (gi_neg_ok gi) (gq_bearer q);
     let gw1 = gw\<lparr>gw_keys := akc\<rparr>;
     (case (rc = 0, out) of
        (True, Some r) \<Rightarrow> Some (gw1, Inr r)
      | _ \<Rightarrow> Some (if rc = -4
                  then aigate_core_handle_canary_hit gi gw1 (gq_client_ip q) (case out of Some r \<Rightarrow> kr_key_id r | None \<Rightarrow> 0)
                         (Some ''canary'')
                  else gw1, Inl (Gate_Refuse 401 ''auth_error'' None)))
   }"

definition retry_after_s :: "int \<Rightarrow> int" where
  "retry_after_s ms = (let s = (ms + 999) div 1000 in if s < 1 then 1 else s)"

definition gate_qps :: "gate_in \<Rightarrow> key_rec \<Rightarrow> 'h gateway \<Rightarrow> ('h gateway \<times> gate_out option) option" where
  "gate_qps gi k gw = do {
     (rl, rc, retry) \<leftarrow> rl_allow_request (gw_rl gw) (gi_eval gi) (gi_rl_ok gi) (gi_mono_ns gi) (gi_wall_ms gi) (kr_key_id k)
       (kr_rate_qps k);
     let hint = (case retry of Some r \<Rightarrow> r | None \<Rightarrow> 0);
     Some (gw\<lparr>gw_rl := rl\<rparr>,
       if rc = 0 then None
       else if hint = -1 then Some (Gate_Refuse 503 ''server_error'' None)
       else Some (Gate_Refuse 429 ''rate_limit'' (Some (retry_after_s hint))))
   }"

definition gate_quota :: "gate_in \<Rightarrow> key_rec \<Rightarrow> 'h gateway \<Rightarrow> ('h gateway \<times> gate_out option) option" where
  "gate_quota gi k gw =
     (if kr_daily_token_quota k > 0 then do {
        (rl, left) \<leftarrow> rl_remaining_daily (gw_rl gw) (gi_get gi) (gi_rl_ok gi) (gi_now gi) (kr_key_id k) (kr_daily_token_quota k);
        Some (gw\<lparr>gw_rl := rl\<rparr>,
          if left = LONG_MIN then Some (Gate_Refuse 503 ''server_error'' None)
          else if left \<le> 0
          then Some (Gate_Refuse 429 ''daily_quota_exceeded'' (Some (gi_now gi - gi_now gi mod 86400 + 86400 - gi_now gi)))
          else None)
      }
      else Some (gw, None))"

definition gate_budget :: "gate_in \<Rightarrow> key_rec \<Rightarrow> 'h gateway \<Rightarrow> 'h gateway \<times> gate_out option" where
  "gate_budget gi k gw =
     (case gw_be gw of
        None \<Rightarrow> (gw, None)
      | Some be \<Rightarrow>
          (case budget_enforce_check be (gi_now gi) (kr_key_id k) (kr_group_id k) (kr_monthly_cost_budget k)
                  (kr_monthly_token_budget k) 0 of
             (be', None) \<Rightarrow> (gw\<lparr>gw_be := Some be'\<rparr>, None)
           | (be', Some e) \<Rightarrow> (gw\<lparr>gw_be := Some be'\<rparr>, Some (Gate_Refuse 429 ''budget_exceeded'' None))))"

definition gate_request :: "gate_in \<Rightarrow> gate_req \<Rightarrow> 'h gateway \<Rightarrow> ('h gateway \<times> gate_out) option" where
  "gate_request gi q gw = do {
     (gw1, a) \<leftarrow> gate_auth gi q gw;
     (case a of
        Inl refusal \<Rightarrow> Some (gw1, refusal)
      | Inr k \<Rightarrow> do {
          (gw2, r2) \<leftarrow> gate_qps gi k gw1;
          (case r2 of
             Some refusal \<Rightarrow> Some (gw2, refusal)
           | None \<Rightarrow> do {
               (gw3, r3) \<leftarrow> gate_quota gi k gw2;
               (case r3 of
                  Some refusal \<Rightarrow> Some (gw3, refusal)
                | None \<Rightarrow> (case gate_budget gi k gw3 of
                            (gw4, Some refusal) \<Rightarrow> Some (gw4, refusal)
                          | (gw4, None) \<Rightarrow> Some (gw4, Gate_Pass k)))
             })
        })
   }"

section \<open>Settlement\<close>

text \<open>What is charged for a request that has been answered.\<close>

record settlement =
  sm_key :: key_rec
  sm_model :: string
  sm_status :: int
  sm_ptok :: int
  sm_ctok :: int
  sm_cached :: int
  sm_lat :: "64 word"
  sm_provider :: string
  sm_cost :: real
  sm_guardrail_act :: string

definition settle_success ::
  "'h hdr_api \<Rightarrow> (string \<Rightarrow> bool) \<Rightarrow> gate_in \<Rightarrow> gate_req \<Rightarrow> settlement \<Rightarrow> 'h gateway \<Rightarrow> 'h gateway option" where
  "settle_success hdr known gi q sm gw = do {
     let k = sm_key sm;
     let tokens = sm_ptok sm + sm_ctok sm;
     gw1 \<leftarrow> record_usage_and_event hdr known gi gw (kr_key_id k) (sm_model sm) (sm_status sm) (sm_ptok sm) (sm_ctok sm)
       (sm_cached sm) 0 (sm_lat sm) (Some (sm_provider sm)) (Some (sm_guardrail_act sm)) (sm_cost sm);
     let gw2 = gw1\<lparr>gw_be := map_option (\<lambda>b. budget_enforce_record b (gi_now gi) (gi_budget_ok gi) (kr_key_id k) (kr_group_id k)
       (sm_cost sm) tokens) (gw_be gw1)\<rparr>;
     gw3 \<leftarrow> (if tokens > 0
             then map_option (\<lambda>(rl, rc). gw2\<lparr>gw_rl := rl\<rparr>)
                    (rl_reserve_tokens (gw_rl gw2) (gi_eval gi) (gi_rl_ok gi) (gi_now gi) (kr_key_id k) (kr_daily_token_quota k) tokens)
             else Some gw2);
     Some (aigate_record_audit gi gw3 (Some (gq_trace_id q)) (gq_client_ip q) (kr_key_id k) (Some (sm_model sm))
       (Some (sm_provider sm)) (sm_status sm) (c_uint32 (sm_ptok sm)) (c_uint32 (sm_ctok sm)) (uint (sm_lat sm)) 0
       (if sm_status sm < 400 then AUDIT_SEV_INFO else if sm_status sm = 429 then AUDIT_SEV_WARN else AUDIT_SEV_ERROR)
       [] [] None)
   }"

end
