(* ===== verification/Gate_Props.thy ===== *)
theory Gate_Props
  imports Gate Rate_Props Budget_Props
begin

text \<open>
  Admissions and settlements of any requests, one after the other: what an admitted request
  carries, and what a canary key does. The limiter is the local one.
\<close>

section \<open>Runs\<close>

datatype gate_event = Ge_Admit gate_in gate_req | Ge_Settle gate_in gate_req settlement

fun gate_do :: "'h hdr_api \<Rightarrow> (string \<Rightarrow> bool) \<Rightarrow> gate_event \<Rightarrow> 'h gateway \<Rightarrow> 'h gateway option" where
  "gate_do hdr known (Ge_Admit gi q) gw = map_option fst (gate_request gi q gw)"
| "gate_do hdr known (Ge_Settle gi q sm) gw = settle_success hdr known gi q sm gw"

fun gate_run :: "'h hdr_api \<Rightarrow> (string \<Rightarrow> bool) \<Rightarrow> gate_event list \<Rightarrow> 'h gateway \<Rightarrow> 'h gateway option" where
  "gate_run hdr known [] gw = Some gw"
| "gate_run hdr known (e # es) gw = Option.bind (gate_do hdr known e gw) (gate_run hdr known es)"

text \<open>An event of the month \<open>ym\<close>, whose allocations succeed, with a store that answers only records with \<open>Q\<close>.\<close>

fun ev_input :: "gate_event \<Rightarrow> gate_in" where
  "ev_input (Ge_Admit gi q) = gi"
| "ev_input (Ge_Settle gi q sm) = gi"

definition input_ok :: "(string \<Rightarrow> key_rec \<Rightarrow> bool) \<Rightarrow> int \<Rightarrow> gate_in \<Rightarrow> bool" where
  "input_ok Q ym gi \<longleftrightarrow> (\<forall>h r. gi_keys gi h = KeyHit r \<longrightarrow> Q h r) \<and> gi_rl_ok gi \<and> gi_budget_ok gi \<and>
     get_current_year_month (gi_now gi) = ym"

fun ev_tokens_ok :: "gate_event \<Rightarrow> bool" where
  "ev_tokens_ok (Ge_Admit gi q) \<longleftrightarrow> True"
| "ev_tokens_ok (Ge_Settle gi q sm) \<longleftrightarrow> 0 \<le> sm_ptok sm + sm_ctok sm"

text \<open>What has been charged to a key.\<close>

fun ev_tokens :: "int \<Rightarrow> gate_event \<Rightarrow> int" where
  "ev_tokens k (Ge_Admit gi q) = 0"
| "ev_tokens k (Ge_Settle gi q sm) = (if kr_key_id (sm_key sm) = k then sm_ptok sm + sm_ctok sm else 0)"

fun ev_cost :: "int \<Rightarrow> gate_event \<Rightarrow> real" where
  "ev_cost k (Ge_Admit gi q) = 0"
| "ev_cost k (Ge_Settle gi q sm) = (if kr_key_id (sm_key sm) = k then sm_cost sm else 0)"

definition charged_tokens :: "gate_event list \<Rightarrow> int \<Rightarrow> int" where
  "charged_tokens es k = sum_list (map (ev_tokens k) es)"

definition charged_cost :: "gate_event list \<Rightarrow> int \<Rightarrow> real" where
  "charged_cost es k = sum_list (map (ev_cost k) es)"

section \<open>The invariant\<close>

text \<open>The three stateful parts agree with what has been charged: \<open>T\<close> and \<open>C\<close>.\<close>

definition keys_part :: "(string \<Rightarrow> key_rec \<Rightarrow> bool) \<Rightarrow> auth_cache \<Rightarrow> bool" where
  "keys_part Q akc \<longleftrightarrow> ac_inv akc \<and> (\<forall>b \<in> set (lru_abs (ac_recs akc)). Q (fst b) (snd b))"

definition rl_part :: "(int \<Rightarrow> int) \<Rightarrow> ratelimit option \<Rightarrow> bool" where
  "rl_part T rlo \<longleftrightarrow> (\<exists>rl. rlo = Some rl \<and> rl_inv rl \<and> \<not> rl_pool rl \<and> (\<forall>k. rb_daily_used (rl_eff rl k) = T k))"

definition be_part :: "int \<Rightarrow> (int \<Rightarrow> int) \<Rightarrow> (int \<Rightarrow> real) \<Rightarrow> budget_mgr option \<Rightarrow> bool" where
  "be_part ym T C beo \<longleftrightarrow> (\<exists>be. beo = Some be \<and> bm_ok be \<and> bm_current_ym be = ym \<and>
     (\<forall>k > 0. ks_spent_tokens (key_entry be k) = T k \<and> ks_spent_cost (key_entry be k) = C k))"

definition gate_inv :: "(string \<Rightarrow> key_rec \<Rightarrow> bool) \<Rightarrow> int \<Rightarrow> (int \<Rightarrow> int) \<Rightarrow> (int \<Rightarrow> real) \<Rightarrow> 'h gateway \<Rightarrow> bool" where
  "gate_inv Q ym T C gw \<longleftrightarrow> keys_part Q (gw_keys gw) \<and> rl_part T (gw_rl gw) \<and> be_part ym T C (gw_be gw)"

text \<open>The limiter.\<close>

lemma rl_pool_keeps:
  assumes "rl_inv rl"
  shows "rl_allow_request_local rl al now key qps = Some (rl', x) \<Longrightarrow> rl_pool rl' = rl_pool rl"
    "rl_remaining_daily_local rl al key quota = Some (rl', y) \<Longrightarrow> rl_pool rl' = rl_pool rl"
    "rl_reserve_tokens_local rl al key quota n = Some (rl', z) \<Longrightarrow> rl_pool rl' = rl_pool rl"
  using rl_found [OF assms, of al key]
  by (auto simp: rl_allow_request_local_def rl_remaining_daily_local_def rl_reserve_tokens_local_def rl_conf_eq_def
      rl_set_def Let_def case_prod_unfold)

lemma rl_eff_upd: "rl_view rl' = (rl_view rl)(key \<mapsto> x) \<Longrightarrow> rl_eff rl' k = (if k = key then x else rl_eff rl k)"
  by (simp add: rl_eff_def)

lemma allow_keeps_used: "rb_daily_used (snd (snd (rb_allow qps now x))) = rb_daily_used x"
  by (simp add: rb_allow_def rb_take_def rb_refill_def Let_def)

lemma allow_part:
  assumes "rl_part T rlo"
  obtains rl' rc retry where "rl_allow_request rlo ev True tick wall key qps = Some (Some rl', rc, retry)" "rl_part T (Some rl')"
proof -
  from assms obtain rl where rl: "rlo = Some rl" "rl_inv rl" "\<not> rl_pool rl" "\<forall>k. rb_daily_used (rl_eff rl k) = T k"
    by (auto simp: rl_part_def)
  from rl_allow_view [OF rl(2), of True tick key qps] obtain rl' where r: "rl_allow_request_local rl True tick key qps =
      Some (rl', fst (rb_allow qps tick (rl_eff rl key)), fst (snd (rb_allow qps tick (rl_eff rl key))))" "rl_inv rl'"
    "rl_view rl' = (rl_view rl)(key \<mapsto> snd (snd (rb_allow qps tick (rl_eff rl key))))" by auto
  have "rl_part T (Some rl')"
    using r(2) rl rl_pool_keeps(1) [OF rl(2) r(1)] rl_eff_upd [OF r(3)] by (simp add: rl_part_def allow_keeps_used)
  with r(1) rl(1,3) show ?thesis by (intro that) (simp_all add: rl_allow_request_def)
qed

lemma remaining_part:
  assumes "rl_part T rlo"
  obtains rl' where "rl_remaining_daily rlo get True wall key quota =
      Some (Some rl', if quota \<le> 0 then LONG_MAX else quota - T key)" "rl_part T (Some rl')"
proof -
  from assms obtain rl where rl: "rlo = Some rl" "rl_inv rl" "\<not> rl_pool rl" "\<forall>k. rb_daily_used (rl_eff rl k) = T k"
    by (auto simp: rl_part_def)
  from rl_remaining_view [OF rl(2), of True key quota] obtain rl' where r: "rl_remaining_daily_local rl True key quota =
      Some (rl', if quota \<le> 0 then LONG_MAX else quota - rb_daily_used (rl_eff rl key))" "rl_inv rl'"
    "rl_view rl' = (rl_view rl)(key \<mapsto> rl_eff rl key)" by auto
  have "rl_part T (Some rl')"
    using r(2) rl rl_pool_keeps(2) [OF rl(2) r(1)] rl_eff_upd [OF r(3)] by (simp add: rl_part_def)
  with r(1) rl show ?thesis by (intro that) (simp_all add: rl_remaining_daily_def)
qed

lemma reserve_part:
  assumes "rl_part T rlo"
  obtains rl' rc where "rl_reserve_tokens rlo ev True wall key quota n = Some (Some rl', rc)" "rl_part (T(key := T key + n)) (Some rl')"
proof -
  from assms obtain rl where rl: "rlo = Some rl" "rl_inv rl" "\<not> rl_pool rl" "\<forall>k. rb_daily_used (rl_eff rl k) = T k"
    by (auto simp: rl_part_def)
  from rl_reserve_view [OF rl(2), of True key quota n] obtain rl' where r: "rl_reserve_tokens_local rl True key quota n =
      Some (rl', quota_rc quota (rb_daily_used (rl_eff rl key) + n))" "rl_inv rl'"
    "rl_view rl' = (rl_view rl)(key \<mapsto> (rl_eff rl key)\<lparr>rb_daily_used := rb_daily_used (rl_eff rl key) + n\<rparr>)" by auto
  have "rl_part (T(key := T key + n)) (Some rl')"
    using r(2) rl rl_pool_keeps(3) [OF rl(2) r(1)] rl_eff_upd [OF r(3)] by (simp add: rl_part_def)
  with r(1) rl show ?thesis by (intro that) (simp_all add: rl_reserve_tokens_def)
qed

text \<open>The budgets: a check keeps the records, and passes only below the limits.\<close>

lemma publish_part [simp]:
  "bm_keys (budget_event_of k g e be) = bm_keys be" "bm_groups (budget_event_of k g e be) = bm_groups be"
  "bm_current_ym (budget_event_of k g e be) = bm_current_ym be"
  by (cases e; simp add: budget_publish_def)+

lemma check_part:
  assumes "be_part ym T C (Some be)" "get_current_year_month now = ym"
    and "budget_enforce_check be now k g kcb ktb gcb = (be', r)"
  shows "be_part ym T C (Some be') \<and> (r = None \<longrightarrow> 0 < k \<longrightarrow> (kcb > 0 \<longrightarrow> C k < kcb) \<and> (ktb > 0 \<longrightarrow> T k < ktb))"
proof -
  have be: "bm_ok be" "bm_current_ym be = ym" "\<forall>k > 0. ks_spent_tokens (key_entry be k) = T k \<and> ks_spent_cost (key_entry be k) = C k"
    using assms(1) by (auto simp: be_part_def)
  have roll: "budget_rollover be now = be" using be(2) assms(2) by (simp add: rollover_same)
  have "bm_keys be' = bm_keys be \<and> bm_groups be' = bm_groups be \<and> bm_current_ym be' = bm_current_ym be"
    using assms(3) by (auto simp: budget_enforce_check_def Let_def roll split: option.splits)
  then have 1: "be_part ym T C (Some be')" using be by (simp add: be_part_def bm_ok_def key_entry_def key_view_def)
  have "(kcb > 0 \<longrightarrow> C k < kcb) \<and> (ktb > 0 \<longrightarrow> T k < ktb)" if "r = None" "0 < k"
  proof (cases "kcb > 0 \<or> ktb > 0")
    case True
    with assms(3) that have "budget_check_key (key_view be k) kcb ktb = None"
      by (auto simp: budget_enforce_check_def Let_def roll key_view_def split: option.splits)
    moreover have "ks_spent_tokens (key_entry be k) = T k" "ks_spent_cost (key_entry be k) = C k" using be(3) that(2) by simp_all
    ultimately show ?thesis
      by (cases "key_view be k") (auto simp: budget_check_key_def key_entry_def split: if_splits)
  qed auto
  with 1 show ?thesis by blast
qed

lemma record_part:
  assumes "be_part ym T C (Some be)" "get_current_year_month now = ym"
  shows "be_part ym (T(k := T k + n)) (C(k := C k + c)) (Some (budget_enforce_record be now True k g c n))"
proof -
  have be: "bm_ok be" "bm_current_ym be = ym" "\<forall>k > 0. ks_spent_tokens (key_entry be k) = T k \<and> ks_spent_cost (key_entry be k) = C k"
    using assms(1) by (auto simp: be_part_def)
  from record_view [OF be(1), of now k g c n] be assms(2) show ?thesis by (auto simp: be_part_def)
qed

section \<open>Admission and settlement keep it\<close>

lemma canary_hit_sel [simp]:
  "gw_keys (aigate_core_handle_canary_hit gi gw ip k m) = gw_keys gw"
  "gw_rl (aigate_core_handle_canary_hit gi gw ip k m) = gw_rl gw"
  "gw_be (aigate_core_handle_canary_hit gi gw ip k m) = gw_be gw"
  by (simp_all add: aigate_core_handle_canary_hit_def Let_def)

text \<open>A key that passed the first gate.\<close>

definition key_live :: "(string \<Rightarrow> key_rec \<Rightarrow> bool) \<Rightarrow> gate_in \<Rightarrow> gate_req \<Rightarrow> key_rec \<Rightarrow> bool" where
  "key_live Q gi q k \<longleftrightarrow> (\<exists>b hash. gq_bearer q = Some b \<and> gi_sha gi b = Some hash \<and> Q hash k) \<and>
     \<not> kr_revoked k \<and> \<not> kr_is_canary k \<and> (kr_has_expiry k \<longrightarrow> gi_now gi \<le> kr_expires_at k)"

lemma gate_auth_ok:
  assumes "keys_part Q (gw_keys gw)" "\<forall>h r. gi_keys gi h = KeyHit r \<longrightarrow> Q h r"
  shows "\<exists>gw' a. gate_auth gi q gw = Some (gw', a) \<and> keys_part Q (gw_keys gw') \<and> gw_rl gw' = gw_rl gw \<and> gw_be gw' = gw_be gw \<and>
    (\<forall>k. a = Inr k \<longrightarrow> key_live Q gi q k) \<and> (\<forall>r. a = Inl r \<longrightarrow> r = Gate_Refuse 401 ''auth_error'' None)"
proof -
  from auth_key_resolve_ok [of "gw_keys gw" "gi_keys gi" "\<lambda>(h, r). Q h r" "gi_sha gi" "gi_now gi" "gi_dup_ok gi" "gi_copy_ok gi"
      "gi_put_ok gi" "gi_neg_ok gi" "gq_bearer q"] assms
  obtain akc rc out where r: "auth_key_resolve (gw_keys gw) (gi_sha gi) (gi_keys gi) (gi_now gi) (gi_dup_ok gi) (gi_copy_ok gi)
       (gi_put_ok gi) (gi_neg_ok gi) (gq_bearer q) = Some (akc, rc, out)" "keys_part Q akc"
    "rc = 0 \<longrightarrow> (\<exists>b hash k. gq_bearer q = Some b \<and> gi_sha gi b = Some hash \<and> out = Some k \<and> Q hash k \<and> key_outcome k (gi_now gi) = 0)"
    by (fastforce simp: keys_part_def case_prod_unfold)
  show ?thesis
  proof (cases "rc = 0")
    case True
    with r(3) obtain k where k: "out = Some k" "key_live Q gi q k"
      by (auto simp: key_live_def key_outcome_def split: if_splits)
    with True r(1,2) show ?thesis by (simp add: gate_auth_def Let_def)
  next
    case False
    with r(1,2) show ?thesis by (simp add: gate_auth_def Let_def)
  qed
qed

text \<open>What the last two gates check.\<close>

definition within_limits :: "(int \<Rightarrow> int) \<Rightarrow> (int \<Rightarrow> real) \<Rightarrow> key_rec \<Rightarrow> bool" where
  "within_limits T C k \<longleftrightarrow> (kr_daily_token_quota k > 0 \<longrightarrow> T (kr_key_id k) < kr_daily_token_quota k) \<and>
     (0 < kr_key_id k \<longrightarrow> (kr_monthly_cost_budget k > 0 \<longrightarrow> C (kr_key_id k) < kr_monthly_cost_budget k) \<and>
        (kr_monthly_token_budget k > 0 \<longrightarrow> T (kr_key_id k) < kr_monthly_token_budget k))"

lemma gate_qps_ok:
  assumes "rl_part T (gw_rl gw)" "gi_rl_ok gi"
  shows "\<exists>gw' a. gate_qps gi k gw = Some (gw', a) \<and> rl_part T (gw_rl gw') \<and> gw_keys gw' = gw_keys gw \<and> gw_be gw' = gw_be gw \<and>
    a \<noteq> Some (Gate_Pass k')"
proof -
  from allow_part [OF assms(1)] obtain rl' rc retry where
    "rl_allow_request (gw_rl gw) (gi_eval gi) True (gi_mono_ns gi) (gi_wall_ms gi) (kr_key_id k) (kr_rate_qps k) =
      Some (Some rl', rc, retry)" "rl_part T (Some rl')" .
  with assms(2) show ?thesis by (simp add: gate_qps_def Let_def)
qed

lemma gate_quota_ok:
  assumes "rl_part T (gw_rl gw)" "gi_rl_ok gi"
  shows "\<exists>gw' a. gate_quota gi k gw = Some (gw', a) \<and> rl_part T (gw_rl gw') \<and> gw_keys gw' = gw_keys gw \<and> gw_be gw' = gw_be gw \<and>
    a \<noteq> Some (Gate_Pass k') \<and> (a = None \<longrightarrow> kr_daily_token_quota k > 0 \<longrightarrow> T (kr_key_id k) < kr_daily_token_quota k)"
proof (cases "kr_daily_token_quota k > 0")
  case True
  from remaining_part [OF assms(1)] obtain rl' where
    "rl_remaining_daily (gw_rl gw) (gi_get gi) True (gi_now gi) (kr_key_id k) (kr_daily_token_quota k) =
      Some (Some rl', if kr_daily_token_quota k \<le> 0 then LONG_MAX else kr_daily_token_quota k - T (kr_key_id k))"
    "rl_part T (Some rl')" .
  with True assms(2) show ?thesis by (simp add: gate_quota_def Let_def)
next
  case False
  with assms(1) show ?thesis by (simp add: gate_quota_def)
qed

lemma gate_budget_ok:
  assumes "be_part ym T C (gw_be gw)" "get_current_year_month (gi_now gi) = ym"
  shows "\<exists>gw' a. gate_budget gi k gw = (gw', a) \<and> be_part ym T C (gw_be gw') \<and> gw_keys gw' = gw_keys gw \<and> gw_rl gw' = gw_rl gw \<and>
    a \<noteq> Some (Gate_Pass k') \<and> (a = None \<longrightarrow> 0 < kr_key_id k \<longrightarrow>
      (kr_monthly_cost_budget k > 0 \<longrightarrow> C (kr_key_id k) < kr_monthly_cost_budget k) \<and>
        (kr_monthly_token_budget k > 0 \<longrightarrow> T (kr_key_id k) < kr_monthly_token_budget k))"
proof -
  from assms(1) obtain be where be: "gw_be gw = Some be" by (auto simp: be_part_def)
  obtain be' r where c: "budget_enforce_check be (gi_now gi) (kr_key_id k) (kr_group_id k) (kr_monthly_cost_budget k)
      (kr_monthly_token_budget k) 0 = (be', r)" by fastforce
  from check_part [OF assms(1) [unfolded be] assms(2) c] be c show ?thesis by (cases r) (simp_all add: gate_budget_def)
qed

lemma gate_request_ok:
  assumes "gate_inv Q ym T C gw" "input_ok Q ym gi"
  shows "\<exists>gw' out. gate_request gi q gw = Some (gw', out) \<and> gate_inv Q ym T C gw' \<and>
    (\<forall>k. out = Gate_Pass k \<longrightarrow> key_live Q gi q k \<and> within_limits T C k)"
proof -
  have i: "keys_part Q (gw_keys gw)" "rl_part T (gw_rl gw)" "be_part ym T C (gw_be gw)"
    "\<forall>h r. gi_keys gi h = KeyHit r \<longrightarrow> Q h r" "gi_rl_ok gi" "get_current_year_month (gi_now gi) = ym"
    using assms by (simp_all add: gate_inv_def input_ok_def)
  from gate_auth_ok [where q = q, OF i(1,4)] obtain gw1 a where a: "gate_auth gi q gw = Some (gw1, a)" "keys_part Q (gw_keys gw1)"
    "gw_rl gw1 = gw_rl gw" "gw_be gw1 = gw_be gw" "\<forall>k. a = Inr k \<longrightarrow> key_live Q gi q k"
    "\<forall>r. a = Inl r \<longrightarrow> r = Gate_Refuse 401 ''auth_error'' None" by blast
  show ?thesis
  proof (cases a)
    case (Inl r)
    with a i show ?thesis by (simp add: gate_request_def gate_inv_def)
  next
    case (Inr k)
    from gate_qps_ok [of T gw1 gi k] a(3) i(2,5) obtain gw2 b where b: "gate_qps gi k gw1 = Some (gw2, b)" "rl_part T (gw_rl gw2)"
      "gw_keys gw2 = gw_keys gw1" "gw_be gw2 = gw_be gw1" "\<forall>k'. b \<noteq> Some (Gate_Pass k')"
      by (metis option.inject prod.inject)
    show ?thesis
    proof (cases b)
      case (Some r)
      with a b i Inr show ?thesis by (auto simp: gate_request_def gate_inv_def)
    next
      case None
      from gate_quota_ok [of T gw2 gi k] b(2) i(5) obtain gw3 c where c: "gate_quota gi k gw2 = Some (gw3, c)" "rl_part T (gw_rl gw3)"
        "gw_keys gw3 = gw_keys gw2" "gw_be gw3 = gw_be gw2" "\<forall>k'. c \<noteq> Some (Gate_Pass k')"
        "c = None \<longrightarrow> kr_daily_token_quota k > 0 \<longrightarrow> T (kr_key_id k) < kr_daily_token_quota k"
        by (metis option.inject prod.inject)
      show ?thesis
      proof (cases c)
        case (Some r)
        with a b c i Inr None show ?thesis by (auto simp: gate_request_def gate_inv_def)
      next
        case None': None
        from gate_budget_ok [of ym T C gw3 gi k] a(4) b(4) c(4) i(3,6) obtain gw4 d where
          d: "gate_budget gi k gw3 = (gw4, d)" "be_part ym T C (gw_be gw4)" "gw_keys gw4 = gw_keys gw3" "gw_rl gw4 = gw_rl gw3"
            "\<forall>k'. d \<noteq> Some (Gate_Pass k')"
            "d = None \<longrightarrow> 0 < kr_key_id k \<longrightarrow> (kr_monthly_cost_budget k > 0 \<longrightarrow> C (kr_key_id k) < kr_monthly_cost_budget k) \<and>
               (kr_monthly_token_budget k > 0 \<longrightarrow> T (kr_key_id k) < kr_monthly_token_budget k)"
          by (metis prod.inject)
        have g: "gate_request gi q gw = Some (gw4, case d of Some r \<Rightarrow> r | None \<Rightarrow> Gate_Pass k)"
          using a(1) b(1) c(1) d(1) Inr None None' by (cases d) (simp_all add: gate_request_def)
        moreover have "gate_inv Q ym T C gw4" using a b c d by (simp add: gate_inv_def)
        moreover have "key_live Q gi q k" using a(5) Inr by simp
        moreover have "within_limits T C k" if "d = None"
          using that c(6) None' d(6) by (simp add: within_limits_def)
        ultimately show ?thesis using d(5) by (cases d) auto
      qed
    qed
  qed
qed

lemma settle_ok:
  assumes "gate_inv Q ym T C gw" "input_ok Q ym gi" "0 \<le> sm_ptok sm + sm_ctok sm"
    and "settle_success hdr known gi q sm gw = Some gw'"
  shows "gate_inv Q ym (\<lambda>k. T k + ev_tokens k (Ge_Settle gi q sm)) (\<lambda>k. C k + ev_cost k (Ge_Settle gi q sm)) gw'"
proof -
  let ?k = "kr_key_id (sm_key sm)" and ?n = "sm_ptok sm + sm_ctok sm"
  have i: "rl_part T (gw_rl gw)" "be_part ym T C (gw_be gw)" "gi_rl_ok gi" "gi_budget_ok gi" "get_current_year_month (gi_now gi) = ym"
    using assms(1,2) by (simp_all add: gate_inv_def input_ok_def)
  from i(2) obtain be where be: "gw_be gw = Some be" by (auto simp: be_part_def)
  from record_part [OF i(2) [unfolded be] i(5)] have b: "be_part ym (T(?k := T ?k + ?n)) (C(?k := C ?k + sm_cost sm))
      (Some (budget_enforce_record be (gi_now gi) True ?k (kr_group_id (sm_key sm)) (sm_cost sm) ?n))" .
  from reserve_part [OF i(1)] obtain rl' rc where r: "rl_reserve_tokens (gw_rl gw) (gi_eval gi) True (gi_now gi) ?k
      (kr_daily_token_quota (sm_key sm)) ?n = Some (Some rl', rc)" "rl_part (T(?k := T ?k + ?n)) (Some rl')" .
  have "gw_keys gw' = gw_keys gw \<and> gw_be gw' = Some (budget_enforce_record be (gi_now gi) True ?k (kr_group_id (sm_key sm)) (sm_cost sm) ?n) \<and>
      gw_rl gw' = (if ?n > 0 then Some rl' else gw_rl gw)"
    using assms(4) be r(1) i(3,4)
    by (auto simp: settle_success_def record_usage_and_event_def aigate_record_audit_def aigate_record_audit_ex_def Let_def
        split: bind_splits option.splits if_splits)
  moreover have "T(?k := T ?k + ?n) = (\<lambda>k. T k + ev_tokens k (Ge_Settle gi q sm))"
    "C(?k := C ?k + sm_cost sm) = (\<lambda>k. C k + ev_cost k (Ge_Settle gi q sm))" by (simp_all add: fun_eq_iff)
  moreover have "?n = 0 \<Longrightarrow> T(?k := T ?k + ?n) = T" by simp
  ultimately show ?thesis using b r(2) i(1) assms(1,3) by (cases "?n = 0") (simp_all add: gate_inv_def)
qed

lemma gate_run_inv:
  assumes "gate_run hdr known es gw = Some gw'" "gate_inv Q ym T C gw"
    and "\<forall>e \<in> set es. input_ok Q ym (ev_input e) \<and> ev_tokens_ok e"
  shows "gate_inv Q ym (\<lambda>k. T k + charged_tokens es k) (\<lambda>k. C k + charged_cost es k) gw'"
  using assms
proof (induction es arbitrary: gw T C)
  case Nil
  then show ?case by (simp add: charged_tokens_def charged_cost_def)
next
  case (Cons e es)
  from Cons.prems(1) obtain gw1 where g: "gate_do hdr known e gw = Some gw1" "gate_run hdr known es gw1 = Some gw'"
    by (auto split: bind_splits)
  have ok: "input_ok Q ym (ev_input e)" "ev_tokens_ok e" using Cons.prems(3) by simp_all
  have "gate_inv Q ym (\<lambda>k. T k + ev_tokens k e) (\<lambda>k. C k + ev_cost k e) gw1"
  proof (cases e)
    case (Ge_Admit gi q)
    with gate_request_ok [OF Cons.prems(2), of gi q] ok g(1) show ?thesis by auto
  next
    case (Ge_Settle gi q sm)
    with settle_ok [OF Cons.prems(2), of gi sm hdr known q gw1] ok g(1) show ?thesis by simp
  qed
  from Cons.IH [OF g(2) this] Cons.prems(3) show ?case
    by (simp add: charged_tokens_def charged_cost_def add.assoc)
qed

section \<open>Properties\<close>

lemma gate_start_inv:
  assumes "auth_key_init True neg_ok = Some (gw_keys gw)" "gw_rl gw = ratelimit_new True"
    and "gw_be gw = budget_enforce_create True store t0"
  shows "gate_inv Q (get_current_year_month t0) (\<lambda>_. 0) (\<lambda>_. 0) gw"
proof -
  from assms(1) obtain l where l: "lru_new 4096 True = Some l" "gw_keys gw = \<lparr>ac_recs = l, ac_neg = lru_new 256 neg_ok\<rparr>"
    by (auto simp: auth_key_init_def)
  with lru_new_refines [OF l(1)] have "lru_abs (ac_recs (gw_keys gw)) = []" by simp
  with auth_key_init_inv [OF assms(1)] have "keys_part Q (gw_keys gw)" by (simp add: keys_part_def)
  moreover obtain rl where "ratelimit_new True = Some rl" by (simp add: ratelimit_new_def)
  with ratelimit_new_ok [OF this] assms(2) have "rl_part (\<lambda>_. 0) (gw_rl gw)"
    by (simp add: rl_part_def rl_eff_def rl_fresh_def rb_zero_def)
  moreover have "be_part (get_current_year_month t0) (\<lambda>_. 0) (\<lambda>_. 0) (gw_be gw)"
    using assms(3) kst.empty_ok gst.empty_ok
    by (auto simp: budget_enforce_create_def be_part_def bm_ok_def key_entry_def key_view_def)
  ultimately show ?thesis by (simp add: gate_inv_def)
qed

text \<open>A key that no cache knows is decided by the store.\<close>

lemma fresh_resolve:
  assumes "ac_inv akc" "pos_known akc hash = None" "\<not> neg_known akc hash" "sha b = Some hash" "b \<noteq> []"
    and "store hash = KeyHit r" "key_outcome r now = 0 \<or> key_outcome r now = -4"
  shows "\<exists>akc'. auth_key_resolve akc sha store now True True p n (Some b) = Some (akc', key_outcome r now, Some r)"
proof -
  from assms(1) have "lru_inv (ac_recs akc)" by (simp add: ac_inv_def)
  from lru.get_total [OF this, of hash] assms(2) obtain l where l: "lru_get (ac_recs akc) hash = Some (l, None)" "lru_inv l"
    by (auto simp: pos_known_def)
  let ?a = "akc\<lparr>ac_recs := l\<rparr>"
  have "ac_inv ?a" "\<not> neg_known ?a hash" using assms(1,3) l by (auto simp: ac_inv_def neg_known_def)
  with auth_key_load_ok [of ?a store hash "\<lambda>b. b = (hash, r) \<or> True" now True True p n] obtain akc2 rc out where
    "auth_key_load ?a hash store now True True p n = Some (akc2, rc, out)" "rc = key_outcome r now"
    using assms(6) by auto
  moreover have "out = Some r"
    using calculation assms(6,7) by (auto simp: auth_key_load_def Let_def split: bind_splits if_splits)
  ultimately show ?thesis using l(1) assms(4,5) by (simp add: auth_key_resolve_def)
qed

text \<open>A gateway and a request for the witnesses.\<close>

definition demo_in :: "key_rec \<Rightarrow> gate_in" where
  "demo_in k = \<lparr>gi_sha = Some, gi_keys = (\<lambda>h. KeyHit k), gi_dup_ok = True, gi_copy_ok = True, gi_put_ok = True, gi_neg_ok = True,
     gi_eval = (\<lambda>_ _. None), gi_get = (\<lambda>_. None), gi_rl_ok = True, gi_budget_ok = True, gi_ban_ok = True, gi_snapshot_ok = True,
     gi_mono_ns = 1, gi_wall_ms = 400000, gi_now = 400\<rparr>"

definition demo_req :: gate_req where
  "demo_req = \<lparr>gq_bearer = Some ''k'', gq_client_ip = Some ''10.0.0.1'', gq_trace_id = ''t''\<rparr>"

definition demo_gateway :: "auth_cache \<Rightarrow> unit gateway" where
  "demo_gateway akc = \<lparr>gw_keys = akc, gw_rl = ratelimit_new True, gw_be = budget_enforce_create True False 0,
     gw_ban = ip_ban_table_create True, gw_um = None, gw_eb = None, gw_audit = Some [], gw_max_prompt_len = 10, gw_store = None\<rparr>"

lemma demo_auth:
  assumes "auth_key_init True True = Some akc" "key_outcome k 400 = 0 \<or> key_outcome k 400 = -4"
  shows "\<exists>akc'. auth_key_resolve (gw_keys (demo_gateway akc)) (gi_sha (demo_in k)) (gi_keys (demo_in k)) (gi_now (demo_in k))
     (gi_dup_ok (demo_in k)) (gi_copy_ok (demo_in k)) (gi_put_ok (demo_in k)) (gi_neg_ok (demo_in k)) (gq_bearer demo_req) =
     Some (akc', key_outcome k 400, Some k)"
  using fresh_resolve [of akc "''k''" Some "''k''" "\<lambda>h. KeyHit k" k 400 True True] auth_key_init_inv [OF assms(1)] assms(2)
  by (simp add: demo_gateway_def demo_in_def demo_req_def)

definition limited_key :: key_rec where
  "limited_key = demo_key\<lparr>kr_daily_token_quota := 100\<rparr>"

lemma demo_pass:
  assumes "auth_key_init True True = Some akc"
  shows "\<exists>gw'. gate_request (demo_in limited_key) demo_req (demo_gateway akc) = Some (gw', Gate_Pass limited_key)"
proof -
  have k: "key_outcome limited_key 400 = 0" by (simp add: key_outcome_def limited_key_def demo_key_def)
  let ?gi = "demo_in limited_key"
  from demo_auth [OF assms, of limited_key] k obtain akc' where
    "gate_auth ?gi demo_req (demo_gateway akc) = Some ((demo_gateway akc)\<lparr>gw_keys := akc'\<rparr>, Inr limited_key)"
    by (auto simp: gate_auth_def Let_def)
  moreover obtain rl where rl: "ratelimit_new True = Some rl" by (simp add: ratelimit_new_def)
  note r0 = ratelimit_new_ok [OF rl]
  have a: "fst (rb_allow 5 1 (rl_eff rl 7)) = 0" "fst (snd (rb_allow 5 1 (rl_eff rl 7))) = None"
    using r0 by (simp_all add: rb_allow_def rb_take_def rb_refill_def rl_eff_def rl_fresh_def rb_zero_def)
  from rl_allow_view [of rl True 1 7 5, unfolded a] r0 obtain rl1 where rl1: "rl_allow_request_local rl True 1 7 5 = Some (rl1, 0, None)"
    "rl_inv rl1" "rl_view rl1 = (rl_view rl)(7 \<mapsto> snd (snd (rb_allow 5 1 (rl_eff rl 7))))"
    by blast
  have p1: "\<not> rl_pool rl1" using rl_pool_keeps(1) [OF _ rl1(1)] r0 by simp
  have u: "rb_daily_used (rl_eff rl1 7) = 0"
    using rl_eff_upd [OF rl1(3), of 7] r0 by (simp add: allow_keeps_used rl_eff_def rl_fresh_def rb_zero_def)
  from rl_remaining_view [OF rl1(2), of True 7 100] u obtain rl2 where "rl_remaining_daily_local rl1 True 7 100 = Some (rl2, 100)" by auto
  moreover obtain be where be: "budget_enforce_create True False 0 = Some be" by (simp add: budget_enforce_create_def)
  have "snd (budget_enforce_check be 400 7 0 0 0 0) = None" by (simp add: budget_enforce_check_def Let_def)
  then obtain be' where "budget_enforce_check be 400 7 0 0 0 0 = (be', None)" by (metis prod.collapse)
  ultimately show ?thesis using rl r0 rl1 p1 be
    by (simp add: gate_request_def gate_qps_def gate_quota_def gate_budget_def demo_gateway_def demo_in_def limited_key_def
        demo_key_def rl_allow_request_def rl_remaining_daily_def Let_def LONG_MIN_def)
qed

text \<open>C1. After any admissions and settlements of any requests since the start of the gateway, a request that is
  admitted carries a key that the store has returned for its hash and that is live, and what has been
  charged to this key so far is below each limit the key has: its daily tokens, its monthly cost and
  its monthly tokens. No admission, refused or not, is charged.\<close>

theorem gate_admits_only_within_limits:
  assumes "auth_key_init True neg_ok = Some (gw_keys gw0)" "gw_rl gw0 = ratelimit_new True"
    and "gw_be gw0 = budget_enforce_create True store t0"
    and "\<forall>e \<in> set es. input_ok Q (get_current_year_month t0) (ev_input e) \<and> ev_tokens_ok e"
    and "gate_run hdr known es gw0 = Some gw" "input_ok Q (get_current_year_month t0) gi"
    and "gate_request gi q gw = Some (gw', Gate_Pass k)" "0 < kr_key_id k"
  shows "(\<exists>b hash. gq_bearer q = Some b \<and> gi_sha gi b = Some hash \<and> Q hash k) \<and>
    \<not> kr_revoked k \<and> \<not> kr_is_canary k \<and> (kr_has_expiry k \<longrightarrow> gi_now gi \<le> kr_expires_at k) \<and>
    (kr_daily_token_quota k > 0 \<longrightarrow> charged_tokens es (kr_key_id k) < kr_daily_token_quota k) \<and>
    (kr_monthly_cost_budget k > 0 \<longrightarrow> charged_cost es (kr_key_id k) < kr_monthly_cost_budget k) \<and>
    (kr_monthly_token_budget k > 0 \<longrightarrow> charged_tokens es (kr_key_id k) < kr_monthly_token_budget k)"
proof -
  from gate_run_inv [OF assms(5) gate_start_inv [OF assms(1-3)] assms(4)]
  have "gate_inv Q (get_current_year_month t0) (charged_tokens es) (charged_cost es) gw" by simp
  from gate_request_ok [OF this assms(6), of q] assms(7)
  have "key_live Q gi q k" "within_limits (charged_tokens es) (charged_cost es) k" by auto
  with assms(8) show ?thesis by (simp add: key_live_def within_limits_def)
qed

text \<open>The first request of a key with a quota of 100 tokens.\<close>

lemma gate_admits_only_within_limits_witness:
  "\<exists>akc gw'. gate_request (demo_in limited_key) demo_req (demo_gateway akc) = Some (gw', Gate_Pass limited_key) \<and>
    charged_tokens [] (kr_key_id limited_key) < kr_daily_token_quota limited_key"
proof -
  from auth_init_ex obtain akc where akc: "auth_key_init True True = Some akc" by blast
  from demo_pass [OF akc] obtain gw' where p: "gate_request (demo_in limited_key) demo_req (demo_gateway akc) = Some (gw', Gate_Pass limited_key)" ..
  have s: "auth_key_init True True = Some (gw_keys (demo_gateway akc))" "gw_rl (demo_gateway akc) = ratelimit_new True"
    "gw_be (demo_gateway akc) = budget_enforce_create True False 0" by (simp_all add: demo_gateway_def akc)
  have "get_current_year_month 400 = get_current_year_month 0" by code_simp
  then have i: "input_ok (\<lambda>h r. r = limited_key) (get_current_year_month 0) (demo_in limited_key)"
    by (simp add: input_ok_def demo_in_def)
  have q: "0 < kr_key_id limited_key" "0 < kr_daily_token_quota limited_key" by (simp_all add: limited_key_def demo_key_def)
  have n: "\<forall>e \<in> set []. input_ok (\<lambda>h r. r = limited_key) (get_current_year_month 0) (ev_input e) \<and> ev_tokens_ok e" by simp
  have r: "gate_run undefined (\<lambda>_. True) [] (demo_gateway akc) = Some (demo_gateway akc)" by simp
  from gate_admits_only_within_limits [OF s n r i p q(1)] p q(2) show ?thesis by blast
qed

text \<open>A canary key is refused, and from then on the address it came from is banned for an hour, whatever
  else happens to other addresses; the limiter and the budgets are not touched.\<close>

theorem gate_bans_canary_address:
  assumes "auth_key_resolve (gw_keys gw) (gi_sha gi) (gi_keys gi) (gi_now gi) (gi_dup_ok gi) (gi_copy_ok gi) (gi_put_ok gi)
      (gi_neg_ok gi) (gq_bearer q) = Some (akc, -4, out)"
    and "gw_ban gw = Some t" "ipt_ok t" "gq_client_ip q = Some a" "ip_short a" "gi_ban_ok gi"
    and "\<forall>oper \<in> set ops. ip_short (ip_op_addr oper) \<and> \<not> ip_op_changes oper a"
  shows "\<exists>gw' t'. gate_request gi q gw = Some (gw', Gate_Refuse 401 ''auth_error'' None) \<and> gw_rl gw' = gw_rl gw \<and>
    gw_be gw' = gw_be gw \<and> gw_ban gw' = Some t' \<and>
    (fst (snd (ip_ban_table_is_banned (foldl ip_do t' ops) now (Some a) cap)) \<longleftrightarrow> now < gi_now gi + 3600)"
proof -
  let ?gw = "aigate_core_handle_canary_hit gi (gw\<lparr>gw_keys := akc\<rparr>) (gq_client_ip q)
    (case out of Some r \<Rightarrow> kr_key_id r | None \<Rightarrow> 0) (Some ''canary'')"
  let ?ban = "ip_ban_table_ban t (gi_now gi) True (Some a) 3600 (Some ''canary_token_compromised'')"
  have "gate_request gi q gw = Some (?gw, Gate_Refuse 401 ''auth_error'' None)"
    using assms(1) by (simp add: gate_request_def gate_auth_def Let_def)
  moreover have "a \<noteq> []" using assms(5) by (auto simp: ip_short_def)
  then have "gw_ban ?gw = Some (fst ?ban)" using assms(2,4,6) by (simp add: aigate_core_handle_canary_hit_def Let_def)
  moreover from ban_view [OF assms(3,5), of True "gi_now gi" 3600 "Some ''canary_token_compromised''"] obtain t' e where
    b: "?ban = (t', 0)" "ipt_ok t'" "ipt_view t' a = Some e" "ib_expires_at e = gi_now gi + 3600" by auto
  from ip_run_keeps [OF b(2) assms(7)] b(3,4)
  have k: "ipt_ok (foldl ip_do t' ops)" "map_option ib_expires_at (ipt_view (foldl ip_do t' ops) a) = Some (gi_now gi + 3600)" by simp_all
  from is_banned_view [OF k(1) \<open>a \<noteq> []\<close>, of now cap] k(2)
  have "fst (snd (ip_ban_table_is_banned (foldl ip_do t' ops) now (Some a) cap)) \<longleftrightarrow> now < gi_now gi + 3600"
    by (auto split: option.splits)
  ultimately show ?thesis using b(1) by (intro exI [of _ ?gw] exI [of _ t']) simp
qed

text \<open>The address of a request with a canary key.\<close>

lemma gate_bans_canary_address_witness:
  "\<exists>akc gw' t'. gate_request (demo_in (demo_key\<lparr>kr_is_canary := True\<rparr>)) demo_req (demo_gateway akc) =
      Some (gw', Gate_Refuse 401 ''auth_error'' None) \<and> gw_ban gw' = Some t' \<and>
    fst (snd (ip_ban_table_is_banned (foldl ip_do t' [IpUnban ''10.0.0.2'']) 3999 (Some ''10.0.0.1'') 64))"
proof -
  let ?k = "demo_key\<lparr>kr_is_canary := True\<rparr>"
  have k: "key_outcome ?k 400 = -4" by (simp add: key_outcome_def)
  from auth_init_ex obtain akc where akc: "auth_key_init True True = Some akc" by blast
  from demo_auth [OF akc, of ?k] k obtain akc' where a: "auth_key_resolve (gw_keys (demo_gateway akc)) (gi_sha (demo_in ?k))
      (gi_keys (demo_in ?k)) (gi_now (demo_in ?k)) (gi_dup_ok (demo_in ?k)) (gi_copy_ok (demo_in ?k)) (gi_put_ok (demo_in ?k))
      (gi_neg_ok (demo_in ?k)) (gq_bearer demo_req) = Some (akc', -4, Some ?k)" by auto
  have t: "gw_ban (demo_gateway akc) = Some (the (ip_ban_table_create True))"
    by (simp add: demo_gateway_def ip_ban_table_create_def)
  have o: "\<forall>oper \<in> set [IpUnban ''10.0.0.2'']. ip_short (ip_op_addr oper) \<and> \<not> ip_op_changes oper ''10.0.0.1''"
    by (simp add: ip_short_def)
  have d: "gq_client_ip demo_req = Some ''10.0.0.1''" "ip_short ''10.0.0.1''" "gi_ban_ok (demo_in ?k)" "gi_now (demo_in ?k) = 400"
    by (simp_all add: demo_req_def ip_short_def demo_in_def)
  from gate_bans_canary_address [OF a t ip_table_created d(1-3) o, of 3999 64] show ?thesis unfolding d(4) by auto
qed

end
