(* ===== verification/Pii_Text.thy ===== *)
theory Pii_Text
  imports Decimal
begin

text \<open>
  The recognition and replacement of personal data in \<^verbatim>\<open>src/policy/guardrails.c\<close>: the patterns that
  \<open>guardrails_create\<close> compiles, \<open>regexec\<close> with POSIX leftmost-longest matching for the operators they
  use, the checksums, the masks, the session map of placeholders and the passes over a text. A text is a C string;
  \<open>ok n\<close> is the allocation of \<open>n\<close> bytes.
\<close>

section \<open>Kinds of data\<close>

datatype pii_type =
  PII_TYPE_PHONE | PII_TYPE_ID_CARD | PII_TYPE_BANK_CARD | PII_TYPE_EMAIL | PII_TYPE_API_KEY | PII_TYPE_IP_ADDRESS

datatype pii_action =
  PII_ACTION_OFF | PII_ACTION_ANONYMIZE_RESTORE | PII_ACTION_MASK_PARTIAL | PII_ACTION_REDACT_TAG | PII_ACTION_BLOCK

fun action_rank :: "pii_action \<Rightarrow> nat" where
  "action_rank PII_ACTION_OFF = 0"
| "action_rank PII_ACTION_ANONYMIZE_RESTORE = 1"
| "action_rank PII_ACTION_MASK_PARTIAL = 2"
| "action_rank PII_ACTION_REDACT_TAG = 3"
| "action_rank PII_ACTION_BLOCK = 4"

fun pii_tag :: "pii_type \<Rightarrow> string" where
  "pii_tag PII_TYPE_PHONE = ''PHONE''"
| "pii_tag PII_TYPE_ID_CARD = ''ID_CARD''"
| "pii_tag PII_TYPE_BANK_CARD = ''BANK_CARD''"
| "pii_tag PII_TYPE_EMAIL = ''EMAIL''"
| "pii_tag PII_TYPE_API_KEY = ''API_KEY''"
| "pii_tag PII_TYPE_IP_ADDRESS = ''IP''"

record pii_rule =
  pii_enabled :: bool
  pii_rule_action :: pii_action

type_synonym pii_config = "pii_type \<Rightarrow> pii_rule"

text \<open>The configuration of a new engine.\<close>

fun default_pii_config :: pii_config where
  "default_pii_config PII_TYPE_PHONE = \<lparr>pii_enabled = True, pii_rule_action = PII_ACTION_ANONYMIZE_RESTORE\<rparr>"
| "default_pii_config PII_TYPE_ID_CARD = \<lparr>pii_enabled = True, pii_rule_action = PII_ACTION_ANONYMIZE_RESTORE\<rparr>"
| "default_pii_config PII_TYPE_BANK_CARD = \<lparr>pii_enabled = True, pii_rule_action = PII_ACTION_MASK_PARTIAL\<rparr>"
| "default_pii_config PII_TYPE_EMAIL = \<lparr>pii_enabled = True, pii_rule_action = PII_ACTION_ANONYMIZE_RESTORE\<rparr>"
| "default_pii_config PII_TYPE_API_KEY = \<lparr>pii_enabled = True, pii_rule_action = PII_ACTION_BLOCK\<rparr>"
| "default_pii_config PII_TYPE_IP_ADDRESS = \<lparr>pii_enabled = False, pii_rule_action = PII_ACTION_REDACT_TAG\<rparr>"

section \<open>Regular expressions\<close>

text \<open>Characters of a class repeated between \<open>lo\<close> and \<open>hi\<close> times, sequence and alternative: what the patterns use.\<close>

datatype rx = Run "char \<Rightarrow> bool" nat "nat option" | Seq rx rx | Alt rx rx

text \<open>The lengths of the prefixes that match.\<close>

fun rx_lens :: "rx \<Rightarrow> string \<Rightarrow> nat list" where
  "rx_lens (Run P lo hi) s =
     (let n = length (takeWhile P s) in [lo..<Suc (case hi of None \<Rightarrow> n | Some h \<Rightarrow> min h n)])"
| "rx_lens (Seq a b) s = concat (map (\<lambda>m. map ((+) m) (rx_lens b (drop m s))) (rx_lens a s))"
| "rx_lens (Alt a b) s = rx_lens a s @ rx_lens b s"

text \<open>The leftmost match and the longest one there, as offsets.\<close>

definition regexec :: "rx \<Rightarrow> string \<Rightarrow> (nat \<times> nat) option" where
  "regexec re s =
     (case find_idx (\<lambda>i. rx_lens re (drop i s) \<noteq> []) [0..<Suc (length s)] of
        None \<Rightarrow> None
      | Some i \<Rightarrow> Some (i, i + Max (set (rx_lens re (drop i s)))))"

definition is_upper :: "char \<Rightarrow> bool" where
  "is_upper c \<longleftrightarrow> (let n = (of_char c :: nat) in 65 \<le> n \<and> n \<le> 90)"

definition is_lower :: "char \<Rightarrow> bool" where
  "is_lower c \<longleftrightarrow> (let n = (of_char c :: nat) in 97 \<le> n \<and> n \<le> 122)"

definition is_alnum :: "char \<Rightarrow> bool" where
  "is_alnum c \<longleftrightarrow> is_digit c \<or> is_upper c \<or> is_lower c"

definition in_range :: "char \<Rightarrow> char \<Rightarrow> char \<Rightarrow> bool" where
  "in_range a b c \<longleftrightarrow> (of_char a :: nat) \<le> of_char c \<and> (of_char c :: nat) \<le> of_char b"

fun rx_str :: "string \<Rightarrow> rx" where
  "rx_str [] = Run (\<lambda>_. False) 0 (Some 0)"
| "rx_str [c] = Run ((=) c) 1 (Some 1)"
| "rx_str (c # cs) = Seq (Run ((=) c) 1 (Some 1)) (rx_str cs)"

definition one :: "(char \<Rightarrow> bool) \<Rightarrow> rx" where
  "one P = Run P 1 (Some 1)"

definition re_api_key :: rx where
  "re_api_key =
     Alt (Seq (rx_str ''sk-'') (Run is_alnum 20 None))
       (Alt (Seq (rx_str ''aig_'') (Run is_alnum 20 None)) (Seq (rx_str ''ghp_'') (Run is_alnum 20 None)))"

definition re_email :: rx where
  "re_email =
     Seq (Run (\<lambda>c. is_alnum c \<or> c \<in> {CHR ''.'', CHR ''_'', CHR ''%'', CHR ''+'', CHR ''-''}) 1 None)
       (Seq (rx_str ''@'')
         (Seq (Run (\<lambda>c. is_alnum c \<or> c \<in> {CHR ''.'', CHR ''-''}) 1 None)
           (Seq (rx_str ''.'') (Run (\<lambda>c. is_upper c \<or> is_lower c) 2 None))))"

definition re_id_card :: rx where
  "re_id_card =
     Seq (one (in_range (CHR ''1'') (CHR ''9''))) (Seq (Run is_digit 5 (Some 5))
       (Seq (Alt (rx_str ''18'') (Alt (rx_str ''19'') (rx_str ''20''))) (Seq (Run is_digit 2 (Some 2))
         (Seq (Alt (Seq (rx_str ''0'') (one (in_range (CHR ''1'') (CHR ''9''))))
                 (Seq (rx_str ''1'') (one (in_range (CHR ''0'') (CHR ''2'')))))
           (Seq (Alt (Seq (rx_str ''0'') (one (in_range (CHR ''1'') (CHR ''9''))))
                   (Alt (Seq (one (\<lambda>c. c = CHR ''1'' \<or> c = CHR ''2'')) (one is_digit))
                     (Seq (rx_str ''3'') (one (\<lambda>c. c = CHR ''0'' \<or> c = CHR ''1'')))))
             (Seq (Run is_digit 3 (Some 3)) (one (\<lambda>c. is_digit c \<or> c = CHR ''X'' \<or> c = CHR ''x''))))))))"

definition re_phone :: rx where
  "re_phone = Seq (rx_str ''1'') (Seq (one (in_range (CHR ''3'') (CHR ''9''))) (Run is_digit 9 (Some 9)))"

definition re_bank_card :: rx where
  "re_bank_card = Run is_digit 13 (Some 19)"

definition re_ip :: rx where
  "re_ip =
     Seq (Run is_digit 1 (Some 3)) (Seq (rx_str ''.'') (Seq (Run is_digit 1 (Some 3)) (Seq (rx_str ''.'')
       (Seq (Run is_digit 1 (Some 3)) (Seq (rx_str ''.'') (Run is_digit 1 (Some 3)))))))"

fun pii_regex :: "pii_type \<Rightarrow> rx" where
  "pii_regex PII_TYPE_PHONE = re_phone"
| "pii_regex PII_TYPE_ID_CARD = re_id_card"
| "pii_regex PII_TYPE_BANK_CARD = re_bank_card"
| "pii_regex PII_TYPE_EMAIL = re_email"
| "pii_regex PII_TYPE_API_KEY = re_api_key"
| "pii_regex PII_TYPE_IP_ADDRESS = re_ip"

section \<open>Checksums\<close>

text \<open>The sum over the digits from the last one on, every second one doubled.\<close>

fun luhn_sum :: "bool \<Rightarrow> string \<Rightarrow> nat" where
  "luhn_sum alternate [] = 0"
| "luhn_sum alternate (c # cs) =
     (let n = digit_val c;
          m = (if alternate then (if 2 * n > 9 then 2 * n mod 10 + 1 else 2 * n) else n)
      in m + luhn_sum (\<not> alternate) cs)"

definition guardrails_validate_luhn :: "string \<Rightarrow> bool" where
  "guardrails_validate_luhn digits \<longleftrightarrow>
     13 \<le> length digits \<and> length digits \<le> 19 \<and> list_all is_digit digits \<and> luhn_sum False (rev digits) mod 10 = 0"

definition id_weights :: "nat list" where
  "id_weights = [7, 9, 10, 5, 8, 4, 2, 1, 6, 3, 7, 9, 10, 5, 8, 4, 2]"

definition id_check_chars :: string where
  "id_check_chars = ''10X98765432''"

definition guardrails_validate_id_card_mod11 :: "string \<Rightarrow> bool" where
  "guardrails_validate_id_card_mod11 s \<longleftrightarrow>
     length s = 18 \<and> list_all is_digit (take 17 s) \<and>
     (if s ! 17 = CHR ''x'' then CHR ''X'' else s ! 17) =
       id_check_chars ! (sum_list (map2 (\<lambda>c w. digit_val c * w) (take 17 s) id_weights) mod 11)"

section \<open>Masks\<close>

definition last_chars :: "nat \<Rightarrow> string \<Rightarrow> string" where
  "last_chars n s = drop (length s - n) s"

definition guardrails_mask_partial_phone :: "string \<Rightarrow> nat \<Rightarrow> string" where
  "guardrails_mask_partial_phone s out_sz = cstr_copy out_sz
     (if length s = 11 then take 3 s @ ''****'' @ drop 7 s
      else if length s > 7 then take 3 s @ ''****'' @ last_chars 4 s
      else ''[PHONE]'')"

definition guardrails_mask_partial_id_card :: "string \<Rightarrow> nat \<Rightarrow> string" where
  "guardrails_mask_partial_id_card s out_sz = cstr_copy out_sz
     (if length s = 18 then take 6 s @ ''********'' @ drop 14 s else ''[ID_CARD]'')"

definition guardrails_mask_partial_bank_card :: "string \<Rightarrow> nat \<Rightarrow> string" where
  "guardrails_mask_partial_bank_card s out_sz = cstr_copy out_sz
     (if length s \<ge> 10 then take 6 s @ ''******'' @ last_chars 4 s else ''[BANK_CARD]'')"

definition guardrails_mask_partial_email :: "string \<Rightarrow> nat \<Rightarrow> string" where
  "guardrails_mask_partial_email s out_sz = cstr_copy out_sz
     (let user = takeWhile (\<lambda>c. c \<noteq> CHR ''@'') s; dom = dropWhile (\<lambda>c. c \<noteq> CHR ''@'') s
      in if dom \<noteq> [] \<and> user \<noteq> [] then
           (if length user \<ge> 2 then [s ! 0] @ ''***'' @ [s ! (length user - 1)] @ dom else [s ! 0] @ ''***'' @ dom)
         else ''[EMAIL]'')"

definition guardrails_mask_partial_api_key :: "string \<Rightarrow> nat \<Rightarrow> string" where
  "guardrails_mask_partial_api_key s out_sz = cstr_copy out_sz
     (if take 8 s = ''sk-proj-'' \<and> length s > 12 then ''sk-proj-******'' @ last_chars 4 s
      else if take 3 s = ''sk-'' \<and> length s > 7 then ''sk-******'' @ last_chars 4 s
      else if take 4 s = ''ghp_'' \<and> length s > 8 then ''ghp_******'' @ last_chars 4 s
      else if length s > 8 then take 4 s @ ''******'' @ last_chars 4 s
      else ''[API_KEY]'')"

text \<open>The text before the second dot.\<close>

definition guardrails_mask_partial_ip :: "string \<Rightarrow> nat \<Rightarrow> string" where
  "guardrails_mask_partial_ip s out_sz = cstr_copy out_sz
     (let a = takeWhile (\<lambda>c. c \<noteq> CHR ''.'') s; r = dropWhile (\<lambda>c. c \<noteq> CHR ''.'') s
      in if r \<noteq> [] \<and> CHR ''.'' \<in> set (tl r)
         then a @ ''.'' @ takeWhile (\<lambda>c. c \<noteq> CHR ''.'') (tl r) @ ''.*.*'' else ''[IP]'')"

fun mask_partial :: "pii_type \<Rightarrow> string \<Rightarrow> nat \<Rightarrow> string" where
  "mask_partial PII_TYPE_PHONE = guardrails_mask_partial_phone"
| "mask_partial PII_TYPE_ID_CARD = guardrails_mask_partial_id_card"
| "mask_partial PII_TYPE_BANK_CARD = guardrails_mask_partial_bank_card"
| "mask_partial PII_TYPE_EMAIL = guardrails_mask_partial_email"
| "mask_partial PII_TYPE_API_KEY = guardrails_mask_partial_api_key"
| "mask_partial PII_TYPE_IP_ADDRESS = guardrails_mask_partial_ip"

section \<open>The session map\<close>

record pii_entry =
  pe_placeholder :: string
  pe_original :: string
  pe_type :: pii_type

definition PII_MAX_SESSION_ENTRIES :: nat where "PII_MAX_SESSION_ENTRIES = 64"

text \<open>The entries in use; the token of the text, if there is one.\<close>

definition placeholder_of :: "pii_type \<Rightarrow> nat \<Rightarrow> string" where
  "placeholder_of ty n = ''['' @ pii_tag ty @ ''_'' @ nat_str n @ '']''"

definition pii_session_map_get_or_create :: "pii_entry list \<Rightarrow> pii_type \<Rightarrow> string \<Rightarrow> pii_entry list \<times> string option" where
  "pii_session_map_get_or_create m ty original =
     (if original = [] then (m, None)
      else case find (\<lambda>e. pe_original e = original) m of
        Some e \<Rightarrow> (m, Some (pe_placeholder e))
      | None \<Rightarrow>
          (if length m \<ge> PII_MAX_SESSION_ENTRIES then (m, None)
           else let tok = cstr_copy 32 (placeholder_of ty (1 + length (filter (\<lambda>e. pe_type e = ty) m)))
                in (m @ [\<lparr>pe_placeholder = tok, pe_original = cstr_copy 128 original, pe_type = ty\<rparr>], Some tok)))"

definition pii_session_map_lookup_token :: "pii_entry list \<Rightarrow> string \<Rightarrow> string option" where
  "pii_session_map_lookup_token m tok =
     (if tok = [] then None else map_option pe_original (find (\<lambda>e. pe_placeholder e = tok) m))"

end
