(* ===== verification/Pii_Replace.thy ===== *)
theory Pii_Replace
  imports Pii_Text
begin

text \<open>
  \<open>replace_entity_regex\<close> of \<^verbatim>\<open>src/policy/guardrails.c\<close>, the pass over a text for one kind of data, and the
  passes of \<open>guardrails_transform_pii_text\<close> and \<open>guardrails_mask_pii_text\<close>. The loop has fuel; the
  length of the text and one more is enough for the patterns of the code.
\<close>

section \<open>One round\<close>

text \<open>\<open>sscanf(s, "%d.%d.%d.%d")\<close> on a match of the address pattern, whose parts are digits.\<close>

fun split_dots :: "string \<Rightarrow> string list" where
  "split_dots [] = [[]]"
| "split_dots (c # cs) =
     (if c = CHR ''.'' then [] # split_dots cs
      else case split_dots cs of p # ps \<Rightarrow> (c # p) # ps | [] \<Rightarrow> [[c]])"

definition ip_in_range :: "string \<Rightarrow> bool" where
  "ip_in_range s \<longleftrightarrow> (let ps = split_dots s in length ps = 4 \<and> list_all (\<lambda>p. p \<noteq> [] \<and> digits_val p \<le> 255) ps)"

text \<open>What a round does with the text at the cursor: it copies the rest, copies some bytes, or has found data
  between two offsets.\<close>

datatype pii_step = Copy_Rest | Copy nat | Found nat nat

definition id_char :: "char \<Rightarrow> bool" where
  "id_char c \<longleftrightarrow> is_digit c \<or> c = CHR ''X'' \<or> c = CHR ''x''"

definition pii_classify :: "rx \<Rightarrow> pii_type \<Rightarrow> bool \<Rightarrow> bool \<Rightarrow> string \<Rightarrow> pii_step" where
  "pii_classify re ty boundary checksum cursor =
     (case regexec re cursor of
        None \<Rightarrow> Copy_Rest
      | Some (so, eo) \<Rightarrow>
          (let mstr = take (eo - so) (drop so cursor); after = drop eo cursor
           in if boundary \<and> ((so > 0 \<and> is_digit (cursor ! (so - 1))) \<or> (after \<noteq> [] \<and> is_digit (hd after)))
              then Copy (eo + length (takeWhile is_digit after))
              else if eo - so \<ge> 128 then Copy (so + 1)
              else if checksum \<and> ty = PII_TYPE_ID_CARD \<and> \<not> guardrails_validate_id_card_mod11 mstr
              then Copy (eo + length (takeWhile id_char after))
              else if checksum \<and> ty = PII_TYPE_BANK_CARD \<and> \<not> guardrails_validate_luhn mstr
              then Copy (eo + length (takeWhile is_digit after))
              else if checksum \<and> ty = PII_TYPE_IP_ADDRESS \<and> \<not> ip_in_range mstr then Copy eo
              else Found so eo))"

text \<open>The replacement, with the session map afterwards.\<close>

definition pii_replacement :: "pii_type \<Rightarrow> pii_action \<Rightarrow> pii_entry list option \<Rightarrow> string \<Rightarrow> pii_entry list option \<times> string" where
  "pii_replacement ty action m mstr =
     (let redacted = ''['' @ pii_tag ty @ '']''
      in case action of
           PII_ACTION_ANONYMIZE_RESTORE \<Rightarrow>
             (case m of
                None \<Rightarrow> (None, redacted)
              | Some es \<Rightarrow>
                  (case pii_session_map_get_or_create es ty mstr of
                     (es', Some tok) \<Rightarrow> (Some es', cstr_copy 128 tok)
                   | (es', None) \<Rightarrow> (Some es', redacted)))
         | PII_ACTION_MASK_PARTIAL \<Rightarrow> (m, mask_partial ty mstr 128)
         | PII_ACTION_REDACT_TAG \<Rightarrow> (m, redacted)
         | PII_ACTION_BLOCK \<Rightarrow> (m, cstr_copy 128 mstr)
         | PII_ACTION_OFF \<Rightarrow> (m, cstr_copy 128 mstr))"

section \<open>A pass\<close>

text \<open>The text written, the capacity of its buffer, whether anything was found, the map and the severest action.\<close>

record pii_state =
  ps_out :: string
  ps_cap :: nat
  ps_any :: bool
  ps_map :: "pii_entry list option"
  ps_action :: pii_action

text \<open>Appending \<open>s\<close>, with room for \<open>s\<close> and the NUL.\<close>

definition pii_append :: "(nat \<Rightarrow> bool) \<Rightarrow> string \<Rightarrow> pii_state \<Rightarrow> pii_state buf_result" where
  "pii_append ok s st =
     (let need = length (ps_out st) + length s
      in if need + 1 > ps_cap st \<and> \<not> ok (need + 64) then Buf_Oom
         else let cap = (if need + 1 > ps_cap st then need + 64 else ps_cap st)
              in (case buf_write cap (ps_out st) s of
                    None \<Rightarrow> Buf_Overrun
                  | Some out \<Rightarrow> Buf_Done (st\<lparr>ps_out := out, ps_cap := cap\<rparr>)))"

text \<open>The loop; the second component is \<open>Buf_Oom\<close> when a reallocation fails, with the state at that moment.\<close>

fun pii_loop ::
  "nat \<Rightarrow> (nat \<Rightarrow> bool) \<Rightarrow> rx \<Rightarrow> pii_type \<Rightarrow> pii_action \<Rightarrow> bool \<Rightarrow> bool \<Rightarrow> string \<Rightarrow> pii_state \<Rightarrow> (pii_state \<times> unit buf_result) option" where
  "pii_loop 0 ok re ty action boundary checksum cursor st = None"
| "pii_loop (Suc n) ok re ty action boundary checksum cursor st =
     (if cursor = [] then Some (st, Buf_Done ())
      else case pii_classify re ty boundary checksum cursor of
        Copy_Rest \<Rightarrow>
          (case pii_append ok cursor st of
             Buf_Done st' \<Rightarrow> Some (st', Buf_Done ()) | Buf_Oom \<Rightarrow> Some (st, Buf_Oom) | Buf_Overrun \<Rightarrow> Some (st, Buf_Overrun))
      | Copy k \<Rightarrow>
          (case pii_append ok (take k cursor) st of
             Buf_Done st' \<Rightarrow> pii_loop n ok re ty action boundary checksum (drop k cursor) st'
           | Buf_Oom \<Rightarrow> Some (st, Buf_Oom) | Buf_Overrun \<Rightarrow> Some (st, Buf_Overrun))
      | Found so eo \<Rightarrow>
          (let act = (if action_rank action > action_rank (ps_action st) then action else ps_action st) in
           case pii_replacement ty action (ps_map st) (take (eo - so) (drop so cursor)) of (m, repl) \<Rightarrow>
             (let st1 = st\<lparr>ps_map := m, ps_action := act\<rparr>
              in case pii_append ok (take so cursor @ repl) st1 of
                   Buf_Done st' \<Rightarrow> pii_loop n ok re ty action boundary checksum (drop eo cursor) (st'\<lparr>ps_any := True\<rparr>)
                 | Buf_Oom \<Rightarrow> Some (st1, Buf_Oom) | Buf_Overrun \<Rightarrow> Some (st1, Buf_Overrun))))"

text \<open>What flows through the passes: the text (NULL when it cannot be copied), the map, the severest action and
  whether a pass has changed the text.\<close>

record pii_flow =
  pf_text :: "string option"
  pf_map :: "pii_entry list option"
  pf_action :: pii_action
  pf_changed :: bool

definition cstrdup :: "(nat \<Rightarrow> bool) \<Rightarrow> string \<Rightarrow> string option" where
  "cstrdup ok s = (if ok (length s + 1) then Some s else None)"

definition replace_entity_regex ::
  "(nat \<Rightarrow> bool) \<Rightarrow> pii_type \<Rightarrow> pii_action \<Rightarrow> bool \<Rightarrow> bool \<Rightarrow> pii_flow \<Rightarrow> pii_flow buf_result option" where
  "replace_entity_regex ok ty action boundary checksum fl =
     (case pf_text fl of
        None \<Rightarrow> Some (Buf_Done fl)
      | Some src \<Rightarrow>
          (let dup = fl\<lparr>pf_text := cstrdup ok src\<rparr>
           in if action = PII_ACTION_OFF \<or> \<not> ok (length src + 128) then Some (Buf_Done dup)
              else case pii_loop (Suc (length src)) ok (pii_regex ty) ty action boundary checksum src
                       \<lparr>ps_out = [], ps_cap = length src + 128, ps_any = False, ps_map = pf_map fl, ps_action = pf_action fl\<rparr> of
                None \<Rightarrow> None
              | Some (st, res) \<Rightarrow>
                  (let dup' = dup\<lparr>pf_map := ps_map st, pf_action := ps_action st\<rparr>
                   in case res of
                        Buf_Overrun \<Rightarrow> Some Buf_Overrun
                      | Buf_Oom \<Rightarrow> Some (Buf_Done dup')
                      | Buf_Done _ \<Rightarrow>
                          (case buf_write (ps_cap st) (ps_out st) [CHR 0x00] of
                             None \<Rightarrow> Some Buf_Overrun
                           | Some _ \<Rightarrow>
                               Some (Buf_Done (if ps_any st then dup'\<lparr>pf_text := Some (ps_out st), pf_changed := True\<rparr> else dup'))))))"

section \<open>The passes\<close>

type_synonym pii_pass = "pii_type \<times> pii_action \<times> bool \<times> bool"

fun pii_passes :: "(nat \<Rightarrow> bool) \<Rightarrow> pii_pass list \<Rightarrow> pii_flow \<Rightarrow> pii_flow buf_result option" where
  "pii_passes ok [] fl = Some (Buf_Done fl)"
| "pii_passes ok ((ty, action, boundary, checksum) # ps) fl =
     (case replace_entity_regex ok ty action boundary checksum fl of
        Some (Buf_Done fl') \<Rightarrow> pii_passes ok ps fl'
      | r \<Rightarrow> r)"

definition rule_action :: "pii_config \<Rightarrow> pii_type \<Rightarrow> pii_action" where
  "rule_action cfg ty = (if pii_enabled (cfg ty) then pii_rule_action (cfg ty) else PII_ACTION_OFF)"

definition transform_passes :: "pii_config \<Rightarrow> pii_pass list" where
  "transform_passes cfg =
     [(PII_TYPE_API_KEY, rule_action cfg PII_TYPE_API_KEY, False, True),
      (PII_TYPE_EMAIL, rule_action cfg PII_TYPE_EMAIL, False, True),
      (PII_TYPE_ID_CARD, rule_action cfg PII_TYPE_ID_CARD, True, True),
      (PII_TYPE_BANK_CARD, rule_action cfg PII_TYPE_BANK_CARD, True, True),
      (PII_TYPE_PHONE, rule_action cfg PII_TYPE_PHONE, True, True),
      (PII_TYPE_IP_ADDRESS, rule_action cfg PII_TYPE_IP_ADDRESS, True, True)]"

text \<open>The text is NULL when nothing was found.\<close>

definition pii_result :: "pii_flow \<Rightarrow> pii_flow" where
  "pii_result fl = (if pf_changed fl then fl else fl\<lparr>pf_text := None\<rparr>)"

definition guardrails_transform_pii_text ::
  "(nat \<Rightarrow> bool) \<Rightarrow> pii_config \<Rightarrow> string \<Rightarrow> pii_entry list option \<Rightarrow> pii_flow buf_result option" where
  "guardrails_transform_pii_text ok cfg input m =
     (if input = [] then Some (Buf_Done \<lparr>pf_text = None, pf_map = m, pf_action = PII_ACTION_OFF, pf_changed = False\<rparr>)
      else case pii_passes ok (transform_passes cfg)
               \<lparr>pf_text = Some input, pf_map = m, pf_action = PII_ACTION_OFF, pf_changed = False\<rparr> of
        Some (Buf_Done fl) \<Rightarrow> Some (Buf_Done (pii_result fl))
      | r \<Rightarrow> r)"

definition mask_passes :: "pii_pass list" where
  "mask_passes =
     [(PII_TYPE_API_KEY, PII_ACTION_REDACT_TAG, False, False),
      (PII_TYPE_EMAIL, PII_ACTION_REDACT_TAG, False, False),
      (PII_TYPE_ID_CARD, PII_ACTION_REDACT_TAG, True, False),
      (PII_TYPE_PHONE, PII_ACTION_REDACT_TAG, True, False),
      (PII_TYPE_BANK_CARD, PII_ACTION_REDACT_TAG, True, False)]"

definition guardrails_mask_pii_text :: "(nat \<Rightarrow> bool) \<Rightarrow> string \<Rightarrow> pii_flow buf_result option" where
  "guardrails_mask_pii_text ok input =
     (if input = [] then Some (Buf_Done \<lparr>pf_text = None, pf_map = None, pf_action = PII_ACTION_OFF, pf_changed = False\<rparr>)
      else case pii_passes ok mask_passes
               \<lparr>pf_text = Some input, pf_map = None, pf_action = PII_ACTION_OFF, pf_changed = False\<rparr> of
        Some (Buf_Done fl) \<Rightarrow> Some (Buf_Done (pii_result fl))
      | r \<Rightarrow> r)"

end
