(* ===== verification/Pii_Match.thy ===== *)
theory Pii_Match
  imports Pii_Replace "HOL-Library.Sublist"
begin

text \<open>
  Facts about the matcher that hold for every pattern, read off its syntax: the characters a match is
  made of, its shortest length, a kind of character it must have. A pass ends within its fuel and its
  buffer.
\<close>

section \<open>Matches\<close>

lemma find_idx_upt:
  "find_idx P [0..<n] = Some i \<Longrightarrow> i < n \<and> P i \<and> (\<forall>j<i. \<not> P j)"
  using find_idx_Some [of P "[0..<n]" i] by (auto simp: nth_upt)

lemma rx_lens_le: "n \<in> set (rx_lens re s) \<Longrightarrow> n \<le> length s"
proof (induction re s arbitrary: n rule: rx_lens.induct)
  case (1 P lo hi s)
  have "length (takeWhile P s) \<le> length s" by (rule length_takeWhile_le)
  with 1 show ?case by (auto simp: Let_def split: option.splits)
next
  case (2 a b s)
  then obtain m k where m: "m \<in> set (rx_lens a s)" "k \<in> set (rx_lens b (drop m s))" "n = m + k" by auto
  from "2.IH"(1) [OF m(1)] "2.IH"(2) [OF m(1,2)] m(3) show ?case by simp
next
  case (3 a b s)
  then show ?case by auto
qed

fun rx_chars :: "rx \<Rightarrow> char \<Rightarrow> bool" where
  "rx_chars (Run P lo hi) c = P c"
| "rx_chars (Seq a b) c = (rx_chars a c \<or> rx_chars b c)"
| "rx_chars (Alt a b) c = (rx_chars a c \<or> rx_chars b c)"

lemma take_add_set: "c \<in> set (take (m + k) s) \<Longrightarrow> c \<in> set (take m s) \<or> c \<in> set (take k (drop m s))"
  by (simp add: take_add)

lemma rx_lens_chars: "n \<in> set (rx_lens re s) \<Longrightarrow> c \<in> set (take n s) \<Longrightarrow> rx_chars re c"
proof (induction re s arbitrary: n c rule: rx_lens.induct)
  case (1 P lo hi s)
  then have "n \<le> length (takeWhile P s)" by (auto simp: Let_def split: option.splits)
  then have "take n s = take n (takeWhile P s)" by (metis takeWhile_eq_take take_take min.absorb1)
  with 1(2) have "c \<in> set (takeWhile P s)" by (metis in_set_takeD)
  then show ?case by (auto dest: set_takeWhileD)
next
  case (2 a b s)
  then obtain m k where m: "m \<in> set (rx_lens a s)" "k \<in> set (rx_lens b (drop m s))" "n = m + k" by auto
  from take_add_set [of c m k s] "2.prems"(2) m(3) "2.IH"(1) [OF m(1)] "2.IH"(2) [OF m(1,2)] show ?case by auto
next
  case (3 a b s)
  then show ?case by auto
qed

fun rx_min :: "rx \<Rightarrow> nat" where
  "rx_min (Run P lo hi) = lo"
| "rx_min (Seq a b) = rx_min a + rx_min b"
| "rx_min (Alt a b) = min (rx_min a) (rx_min b)"

lemma rx_lens_min: "n \<in> set (rx_lens re s) \<Longrightarrow> rx_min re \<le> n"
proof (induction re s arbitrary: n rule: rx_lens.induct)
  case (2 a b s)
  then obtain m k where m: "m \<in> set (rx_lens a s)" "k \<in> set (rx_lens b (drop m s))" "n = m + k" by auto
  from "2.IH"(1) [OF m(1)] "2.IH"(2) [OF m(1,2)] m(3) show ?case by simp
qed (auto simp: Let_def min_le_iff_disj)

text \<open>Every match has a character with \<open>P\<close>.\<close>

fun rx_has :: "(char \<Rightarrow> bool) \<Rightarrow> rx \<Rightarrow> bool" where
  "rx_has P (Run Q lo hi) = (0 < lo \<and> (\<forall>c. Q c \<longrightarrow> P c))"
| "rx_has P (Seq a b) = (rx_has P a \<or> rx_has P b)"
| "rx_has P (Alt a b) = (rx_has P a \<and> rx_has P b)"

lemma rx_lens_has: "n \<in> set (rx_lens re s) \<Longrightarrow> rx_has P re \<Longrightarrow> \<exists>c \<in> set (take n s). P c"
proof (induction re s arbitrary: n rule: rx_lens.induct)
  case (1 Q lo hi s)
  then have n: "0 < n" by (auto simp: Let_def)
  moreover have "n \<le> length s" by (rule rx_lens_le [OF 1(1)])
  ultimately have c: "s ! 0 \<in> set (take n s)" by (cases s) (auto simp: take_Cons')
  from rx_lens_chars [OF 1(1) c] 1(2) c show ?case by auto
next
  case (2 a b s)
  then obtain m k where m: "m \<in> set (rx_lens a s)" "k \<in> set (rx_lens b (drop m s))" "n = m + k" by auto
  have "set (take n s) = set (take m s) \<union> set (take k (drop m s))" using m(3) by (simp add: take_add)
  with "2.IH"(1) [OF m(1)] "2.IH"(2) [OF m(1,2)] "2.prems"(2) show ?case by auto
next
  case (3 a b s)
  then show ?case by auto
qed

lemma regexec_Some:
  assumes "regexec re s = Some (so, eo)"
  shows "so \<le> length s" "so \<le> eo" "eo \<le> length s" "eo - so \<in> set (rx_lens re (drop so s))"
    and "i < so \<Longrightarrow> rx_lens re (drop i s) = []"
    and "n \<in> set (rx_lens re (drop so s)) \<Longrightarrow> so + n \<le> eo"
proof -
  from assms obtain i where i: "find_idx (\<lambda>i. rx_lens re (drop i s) \<noteq> []) [0..<Suc (length s)] = Some i"
    "so = i" "eo = i + Max (set (rx_lens re (drop i s)))"
    by (auto simp: regexec_def simp del: upt_Suc split: option.splits)
  note f = find_idx_upt [OF i(1)]
  then have ne: "set (rx_lens re (drop so s)) \<noteq> {}" using i(2) by simp
  have mx: "eo = so + Max (set (rx_lens re (drop so s)))" using i(2,3) by simp
  have inm: "Max (set (rx_lens re (drop so s))) \<in> set (rx_lens re (drop so s))" by (rule Max_in [OF finite_set ne])
  show so: "so \<le> length s" "so \<le> eo" using f i(2) mx by auto
  show "eo - so \<in> set (rx_lens re (drop so s))" using inm mx by simp
  show "eo \<le> length s" using rx_lens_le [OF inm] mx so(1) by simp
  show "i < so \<Longrightarrow> rx_lens re (drop i s) = []" for i using f i(2) by auto
  show "n \<in> set (rx_lens re (drop so s)) \<Longrightarrow> so + n \<le> eo" using mx Max_ge [OF finite_set, of n "rx_lens re (drop so s)"] by simp
qed

lemma regexec_None: "regexec re s = None \<Longrightarrow> i \<le> length s \<Longrightarrow> rx_lens re (drop i s) = []"
  unfolding regexec_def
  using find_idx_None [of "\<lambda>i. rx_lens re (drop i s) \<noteq> []" "[0..<Suc (length s)]"]
  by (auto simp del: upt_Suc split: option.splits)

lemma regexec_min: "regexec re s = Some (so, eo) \<Longrightarrow> so + rx_min re \<le> eo"
  using rx_lens_min [OF regexec_Some(4)] regexec_Some(2) by fastforce

section \<open>The patterns of the code\<close>

lemma rx_min_regex: "rx_min (pii_regex ty) > 0"
  by (cases ty) (simp_all add: re_phone_def re_id_card_def re_bank_card_def re_email_def re_api_key_def re_ip_def one_def)

section \<open>A round\<close>

lemma classify_Copy:
  assumes "pii_classify re ty boundary checksum cursor = Copy k" "0 < rx_min re"
  shows "0 < k" "k \<le> length cursor"
proof -
  from assms(1) obtain so eo where m: "regexec re cursor = Some (so, eo)"
    by (auto simp: pii_classify_def split: option.splits)
  note R = regexec_Some [OF m] regexec_min [OF m]
  have t: "eo + length (takeWhile P (drop eo cursor)) \<le> length cursor" for P
    using length_takeWhile_le [of P "drop eo cursor"] R(3) by simp
  have "k \<in> {eo + length (takeWhile is_digit (drop eo cursor)), so + 1, eo + length (takeWhile id_char (drop eo cursor)), eo}"
    using assms(1) m by (auto simp: pii_classify_def Let_def split: if_splits)
  then show "0 < k" "k \<le> length cursor" using R assms(2) t by auto
qed

lemma classify_Found:
  assumes "pii_classify re ty boundary checksum cursor = Found so eo"
  shows "regexec re cursor = Some (so, eo)" "eo - so < 128"
  using assms by (auto simp: pii_classify_def Let_def split: option.splits if_splits)

lemma pii_append_room:
  "length (ps_out st) < ps_cap st \<Longrightarrow>
    pii_append ok s st = Buf_Oom \<and> \<not> (\<forall>n. ok n) \<or>
    (\<exists>cap. pii_append ok s st = Buf_Done (st\<lparr>ps_out := ps_out st @ s, ps_cap := cap\<rparr>) \<and> length (ps_out st @ s) < cap)"
  by (cases "length (ps_out st) + length s + 1 > ps_cap st")
    (auto simp: pii_append_def Let_def buf_write_def intro: exI [of _ "ps_cap st"])

text \<open>A pass ends within its fuel, and writes within its buffer.\<close>

lemma pii_loop_total:
  assumes "0 < rx_min re" "length cursor < n" "length (ps_out st) < ps_cap st"
  shows "\<exists>st' r. pii_loop n ok re ty action boundary checksum cursor st = Some (st', r) \<and> r \<noteq> Buf_Overrun \<and>
    length (ps_out st') < ps_cap st' \<and> ((\<forall>n. ok n) \<longrightarrow> r = Buf_Done ())"
  using assms
proof (induction n ok re ty action boundary checksum cursor st rule: pii_loop.induct)
  case (1 ok re ty action boundary checksum cursor st)
  then show ?case by simp
next
  case (2 n ok re ty action boundary checksum cursor st)
  note room = pii_append_room
  show ?case
  proof (cases "cursor = []")
    case True
    with 2(5) show ?thesis by simp
  next
    case ne: False
    show ?thesis
    proof (cases "pii_classify re ty boundary checksum cursor")
      case Copy_Rest
      from room [OF 2(5), of ok cursor] show ?thesis
      proof (elim disjE exE conjE)
        assume "pii_append ok cursor st = Buf_Oom" "\<not> (\<forall>n. ok n)"
        with ne Copy_Rest 2(5) show ?thesis by auto
      next
        fix cap assume "pii_append ok cursor st = Buf_Done (st\<lparr>ps_out := ps_out st @ cursor, ps_cap := cap\<rparr>)" "length (ps_out st @ cursor) < cap"
        with ne Copy_Rest show ?thesis by auto
      qed
    next
      case (Copy k)
      note k = classify_Copy [OF Copy 2(3)]
      from room [OF 2(5), of ok "take k cursor"] show ?thesis
      proof (elim disjE exE conjE)
        assume "pii_append ok (take k cursor) st = Buf_Oom" "\<not> (\<forall>n. ok n)"
        with ne Copy 2(5) show ?thesis by auto
      next
        fix cap assume a: "pii_append ok (take k cursor) st = Buf_Done (st\<lparr>ps_out := ps_out st @ take k cursor, ps_cap := cap\<rparr>)"
          "length (ps_out st @ take k cursor) < cap"
        have "length (drop k cursor) < n" using k ne 2(4) by (cases cursor) auto
        from 2(1) [OF ne Copy a(1) 2(3) this] a(2) ne Copy a(1) show ?thesis by simp
      qed
    next
      case (Found so eo)
      note f = classify_Found [OF Found]
      note R = regexec_Some [OF f(1)] regexec_min [OF f(1)]
      let ?act = "if action_rank action > action_rank (ps_action st) then action else ps_action st"
      obtain m repl where rp: "pii_replacement ty action (ps_map st) (take (eo - so) (drop so cursor)) = (m, repl)" by fastforce
      let ?st1 = "st\<lparr>ps_map := m, ps_action := ?act\<rparr>"
      have "length (ps_out ?st1) < ps_cap ?st1" using 2(5) by simp
      from room [OF this, of ok "take so cursor @ repl"] show ?thesis
      proof (elim disjE exE conjE)
        assume "pii_append ok (take so cursor @ repl) ?st1 = Buf_Oom" "\<not> (\<forall>n. ok n)"
        with ne Found rp 2(5) show ?thesis by (auto simp: Let_def)
      next
        fix cap assume a: "pii_append ok (take so cursor @ repl) ?st1 =
            Buf_Done (?st1\<lparr>ps_out := ps_out ?st1 @ (take so cursor @ repl), ps_cap := cap\<rparr>)"
          "length (ps_out ?st1 @ (take so cursor @ repl)) < cap"
        have "length (drop eo cursor) < n" using R 2(3,4) ne by (cases cursor) auto
        from 2(2) [OF ne Found refl rp [symmetric] refl a(1) 2(3) this] a(2) ne Found rp a(1) show ?thesis by (simp add: Let_def)
      qed
    qed
  qed
qed

end
