(* ===== verification/Pii_Restore.thy ===== *)
theory Pii_Restore
  imports Pii_Text
begin

text \<open>
  Putting personal data back into a response: \<open>guardrails_restore_pii_text\<close> on a whole text and the
  sliding window of \<open>guardrails_stream_filter_feed\<close> and \<open>_flush\<close> on a stream
  (\<^verbatim>\<open>src/policy/guardrails.c\<close>), and the part of \<open>stream_cache_acc_write\<close> that writes the filtered chunks to the
  client (\<^verbatim>\<open>src/core/aigate_core.c\<close>).
\<close>

section \<open>Placeholders in a text\<close>

definition word_char :: "char \<Rightarrow> bool" where
  "word_char c \<longleftrightarrow> is_alnum c \<or> c = CHR ''_''"

text \<open>The offset of the bracket that closes the one at the start of \<open>s\<close>, within 32 bytes.\<close>

definition close_at :: "string \<Rightarrow> nat option" where
  "close_at s =
     (let t = take 31 (tl s); n = length (takeWhile word_char t)
      in if n < length t \<and> t ! n = CHR '']'' then Some (n + 1) else None)"

text \<open>A known placeholder at the start of \<open>s\<close>: its original and the text behind it.\<close>

definition token_at :: "pii_entry list \<Rightarrow> string \<Rightarrow> (string \<times> string) option" where
  "token_at m s =
     (case s of
        CHR ''['' # _ \<Rightarrow>
          (case close_at s of
             None \<Rightarrow> None
           | Some k \<Rightarrow>
               (case pii_session_map_lookup_token m (take (k + 1) s) of
                  None \<Rightarrow> None
                | Some orig \<Rightarrow> Some (orig, drop (k + 1) s)))
      | _ \<Rightarrow> None)"

lemma close_at_bound: "close_at s = Some k \<Longrightarrow> 0 < k \<and> k < length s \<and> k < 32"
  by (auto simp: close_at_def Let_def split: if_splits)

lemma token_at_shorter: "token_at m s = Some (orig, rest) \<Longrightarrow> length rest < length s"
  by (auto simp: token_at_def dest: close_at_bound split: list.splits char.splits bool.splits option.splits)

section \<open>A whole text\<close>

function restore_loop :: "(nat \<Rightarrow> bool) \<Rightarrow> pii_entry list \<Rightarrow> nat \<Rightarrow> bool \<Rightarrow> string \<Rightarrow> string \<Rightarrow> (string \<times> bool) buf_result" where
  "restore_loop ok m cap changed out s =
     (case s of
        [] \<Rightarrow> (case buf_write cap out [CHR 0x00] of None \<Rightarrow> Buf_Overrun | Some _ \<Rightarrow> Buf_Done (out, changed))
      | c # cs \<Rightarrow>
          (case token_at m s of
             Some (orig, rest) \<Rightarrow>
               (let need = length out + length orig; grown = need + 1 > cap in
                if grown \<and> \<not> ok (need + 128) then Buf_Oom
                else let cap' = (if grown then need + 128 else cap)
                     in (case buf_write cap' out orig of
                           None \<Rightarrow> Buf_Overrun
                         | Some out' \<Rightarrow> restore_loop ok m cap' True out' rest))
           | None \<Rightarrow>
               (let grown = length out + 2 > cap in
                if grown \<and> \<not> ok (length out + 128) then Buf_Oom
                else let cap' = (if grown then length out + 128 else cap)
                     in (case buf_write cap' out [c] of
                           None \<Rightarrow> Buf_Overrun
                         | Some out' \<Rightarrow> restore_loop ok m cap' changed out' cs))))"
  by pat_completeness auto
termination
  by (relation "measure (\<lambda>(ok, m, cap, changed, out, s). length s)") (auto dest: token_at_shorter)

declare restore_loop.simps [simp del]

text \<open>NULL unless something was restored.\<close>

definition guardrails_restore_pii_text :: "(nat \<Rightarrow> bool) \<Rightarrow> string \<Rightarrow> pii_entry list \<Rightarrow> string option buf_result" where
  "guardrails_restore_pii_text ok resp m =
     (if resp = [] \<or> m = [] \<or> \<not> ok (length resp + 256) then Buf_Done None
      else case restore_loop ok m (length resp + 256) False [] resp of
        Buf_Overrun \<Rightarrow> Buf_Overrun
      | Buf_Oom \<Rightarrow> Buf_Done None
      | Buf_Done (out, changed) \<Rightarrow> Buf_Done (if changed then Some out else None))"

section \<open>A stream\<close>

record pii_stream_filter =
  sf_map :: "pii_entry list"
  sf_win :: string

definition guardrails_stream_filter_init :: "pii_entry list \<Rightarrow> pii_stream_filter" where
  "guardrails_stream_filter_init m = \<lparr>sf_map = m, sf_win = []\<rparr>"

text \<open>Writing bytes as long as there is room: the others are dropped.\<close>

definition put_bounded :: "nat \<Rightarrow> string \<Rightarrow> string \<Rightarrow> string" where
  "put_bounded cap out s = take cap (out @ s)"

text \<open>An open bracket with nothing behind it but characters of a placeholder, within the window.\<close>

definition pending_token :: "string \<Rightarrow> bool" where
  "pending_token s \<longleftrightarrow> list_all word_char (take 31 (tl s)) \<and> length s < 32"

function feed_loop :: "pii_entry list \<Rightarrow> nat \<Rightarrow> string \<Rightarrow> string \<Rightarrow> string \<times> string" where
  "feed_loop m cap out s =
     (case s of
        [] \<Rightarrow> (out, [])
      | c # cs \<Rightarrow>
          (case token_at m s of
             Some (orig, rest) \<Rightarrow> feed_loop m cap (put_bounded cap out orig) rest
           | None \<Rightarrow>
               (if c = CHR ''['' \<and> close_at s = None \<and> pending_token s then (out, s)
                else feed_loop m cap (put_bounded cap out [c]) cs)))"
  by pat_completeness auto
termination
  by (relation "measure (\<lambda>(m, cap, out, s). length s)") (auto dest: token_at_shorter)

declare feed_loop.simps [simp del]

definition guardrails_stream_filter_feed :: "pii_stream_filter \<Rightarrow> string \<Rightarrow> nat \<Rightarrow> pii_stream_filter \<times> string" where
  "guardrails_stream_filter_feed sf chunk out_cap =
     (if out_cap = 0 \<or> chunk = [] then (sf, [])
      else if sf_map sf = [] then (sf, take out_cap chunk)
      else case feed_loop (sf_map sf) out_cap [] (sf_win sf @ chunk) of (out, win) \<Rightarrow> (sf\<lparr>sf_win := win\<rparr>, out))"

definition guardrails_stream_filter_flush :: "pii_stream_filter \<Rightarrow> nat \<Rightarrow> pii_stream_filter \<times> string" where
  "guardrails_stream_filter_flush sf out_cap =
     (if out_cap = 0 then (sf, []) else (sf\<lparr>sf_win := []\<rparr>, take out_cap (sf_win sf)))"

section \<open>Writing to the client\<close>

text \<open>The writes downstream for a chunk and its end flag. \<open>ok n\<close> is the allocation of a buffer beyond the 4096 bytes
  on the stack; without it the chunk goes out as it is.\<close>

definition acc_forward :: "(nat \<Rightarrow> bool) \<Rightarrow> pii_stream_filter \<Rightarrow> string \<Rightarrow> bool \<Rightarrow> pii_stream_filter \<times> (string \<times> bool) list" where
  "acc_forward ok sf chunk fin =
     (if sf_map sf = [] then (sf, [(chunk, fin)])
      else let needed = length chunk + 128 in
        if needed > 4096 \<and> \<not> ok needed then (sf, [(chunk, fin)])
        else case guardrails_stream_filter_feed sf chunk needed of (sf1, out) \<Rightarrow>
          (let w1 = (if out \<noteq> [] then [(out, fin \<and> sf_win sf1 = [])] else [])
           in if fin \<and> sf_win sf1 \<noteq> []
              then (case guardrails_stream_filter_flush sf1 64 of (sf2, rest) \<Rightarrow> (sf2, w1 @ [(rest, True)]))
              else (sf1, w1)))"

end
