(* ===== verification/Pii_Stream.thy ===== *)
theory Pii_Stream
  imports Pii_Restore
begin

text \<open>
  The restored text as a function of the response (\<open>restore_spec\<close>): the buffer of the code computes it,
  and the windowed stream computes it chunk by chunk exactly when the buffers of its caller are large enough, which they
  are not always.
\<close>

section \<open>The specification\<close>

function restore_spec :: "pii_entry list \<Rightarrow> string \<Rightarrow> string" where
  "restore_spec m s =
     (case s of
        [] \<Rightarrow> []
      | c # cs \<Rightarrow> (case token_at m s of Some (orig, rest) \<Rightarrow> orig @ restore_spec m rest | None \<Rightarrow> c # restore_spec m cs))"
  by pat_completeness auto
termination
  by (relation "measure (\<lambda>(m, s). length s)") (auto dest: token_at_shorter)

declare restore_spec.simps [simp del]

lemma restore_spec_Nil [simp]: "restore_spec m [] = []"
  by (subst restore_spec.simps) simp

lemma restore_spec_char: "token_at m (c # cs) = None \<Longrightarrow> restore_spec m (c # cs) = c # restore_spec m cs"
  by (subst restore_spec.simps) simp

lemma restore_spec_token: "token_at m s = Some (orig, rest) \<Longrightarrow> restore_spec m s = orig @ restore_spec m rest"
  by (subst restore_spec.simps) (auto simp: token_at_def split: list.splits)

lemma token_at_other: "c \<noteq> CHR ''['' \<Longrightarrow> token_at m (c # cs) = None"
  by (auto simp: token_at_def split: char.splits bool.splits)

lemma token_at_closed: "token_at m s = Some p \<Longrightarrow> close_at s \<noteq> None"
  by (auto simp: token_at_def split: list.splits char.splits bool.splits option.splits)

lemma token_at_open:
  "token_at m (CHR ''['' # cs) =
     (case close_at (CHR ''['' # cs) of
        None \<Rightarrow> None
      | Some k \<Rightarrow> map_option (\<lambda>orig. (orig, drop (k + 1) (CHR ''['' # cs)))
          (pii_session_map_lookup_token m (take (k + 1) (CHR ''['' # cs))))"
  by (auto simp: token_at_def split: option.splits)

section \<open>More text behind\<close>

lemma takeWhile_stop: "length (takeWhile P xs) < length xs \<Longrightarrow> takeWhile P (xs @ ys) = takeWhile P xs"
  by (metis nat_neq_iff takeWhile_append1 takeWhile_eq_all_conv)

lemma take_tl_append: "s \<noteq> [] \<Longrightarrow> take n (tl (s @ t)) = take n (tl s) @ take (n - length (tl s)) t"
  by simp

lemma close_at_Some_append: "close_at s = Some k \<Longrightarrow> close_at (s @ t) = Some k"
proof -
  assume c: "close_at s = Some k"
  let ?t = "take 31 (tl s)"
  let ?n = "length (takeWhile word_char ?t)"
  have n: "?n < length ?t" "?t ! ?n = CHR '']''" "k = ?n + 1" using c by (auto simp: close_at_def Let_def split: if_splits)
  have "s \<noteq> []" using n(1) by auto
  then have e: "take 31 (tl (s @ t)) = ?t @ take (31 - length (tl s)) t" by (rule take_tl_append)
  have "takeWhile word_char (take 31 (tl (s @ t))) = takeWhile word_char ?t" unfolding e by (rule takeWhile_stop [OF n(1)])
  moreover have "?n < length (take 31 (tl (s @ t)))" "take 31 (tl (s @ t)) ! ?n = CHR '']''"
    unfolding e using n(1,2) by (simp_all only: length_append nth_append if_True trans_less_add1)
  ultimately show ?thesis using n(3) by (simp only: close_at_def Let_def if_True simp_thms)
qed

lemma close_at_None_append:
  assumes "close_at s = None" "s \<noteq> []" "\<not> pending_token s"
  shows "close_at (s @ t) = None"
proof -
  let ?t = "take 31 (tl s)"
  let ?n = "length (takeWhile word_char ?t)"
  have e: "take 31 (tl (s @ t)) = ?t @ take (31 - length (tl s)) t" by (rule take_tl_append [OF assms(2)])
  show ?thesis
  proof (cases "?n < length ?t")
    case True
    with assms(1) have "?t ! ?n \<noteq> CHR '']''" by (auto simp: close_at_def Let_def)
    moreover have "takeWhile word_char (take 31 (tl (s @ t))) = takeWhile word_char ?t" unfolding e by (rule takeWhile_stop [OF True])
    moreover have "take 31 (tl (s @ t)) ! ?n = ?t ! ?n" unfolding e using True by (simp only: nth_append if_True)
    ultimately show ?thesis by (simp only: close_at_def Let_def if_False simp_thms)
  next
    case False
    then have all: "takeWhile word_char ?t = ?t"
      using length_takeWhile_le [of word_char ?t] by (metis le_neq_implies_less nth_length_takeWhile takeWhile_eq_take take_all_iff order_refl)
    then have "list_all word_char ?t" by (metis list_all_iff set_takeWhileD)
    with assms(3) have "31 \<le> length (tl s)" using assms(2) by (auto simp: pending_token_def)
    then have "take 31 (tl (s @ t)) = ?t" unfolding e by simp
    with assms(1) show ?thesis by (simp only: close_at_def Let_def)
  qed
qed

lemma token_at_append:
  assumes "s \<noteq> []" "hd s = CHR ''['' \<and> close_at s = None \<longrightarrow> \<not> pending_token s"
  shows "token_at m (s @ t) = map_option (\<lambda>(orig, rest). (orig, rest @ t)) (token_at m s)"
proof (cases "hd s = CHR ''[''")
  case False
  with assms(1) show ?thesis by (cases s) (simp_all add: token_at_other)
next
  case True
  then obtain cs where s: "s = CHR ''['' # cs" using assms(1) by (cases s) auto
  show ?thesis
  proof (cases "close_at s")
    case None
    with assms True have "close_at (s @ t) = None" by (auto intro: close_at_None_append)
    with None s show ?thesis by (simp add: token_at_open)
  next
    case (Some k)
    note c = close_at_Some_append [OF Some, of t] close_at_bound [OF Some]
    then have "k \<le> length cs" using s by simp
    with c(1) Some s show ?thesis by (simp add: token_at_open option.map_comp comp_def)
  qed
qed

section \<open>The stream\<close>

text \<open>What a feed gives without a bound on the output.\<close>

function feed_spec :: "pii_entry list \<Rightarrow> string \<Rightarrow> string \<times> string" where
  "feed_spec m s =
     (case s of
        [] \<Rightarrow> ([], [])
      | c # cs \<Rightarrow>
          (case token_at m s of
             Some (orig, rest) \<Rightarrow> (case feed_spec m rest of (o1, w) \<Rightarrow> (orig @ o1, w))
           | None \<Rightarrow>
               (if c = CHR ''['' \<and> close_at s = None \<and> pending_token s then ([], s)
                else case feed_spec m cs of (o1, w) \<Rightarrow> (c # o1, w))))"
  by pat_completeness auto
termination
  by (relation "measure (\<lambda>(m, s). length s)") (auto dest: token_at_shorter)

declare feed_spec.simps [simp del]

lemma put_bounded_take: "take cap (put_bounded cap out x @ y) = take cap (out @ x @ y)"
  by (cases "length (out @ x) \<le> cap") (auto simp: put_bounded_def min_def)

lemma feed_spec_Nil [simp]: "feed_spec m [] = ([], [])"
  by (subst feed_spec.simps) simp

lemma feed_loop_Nil [simp]: "feed_loop m cap out [] = (out, [])"
  by (subst feed_loop.simps) simp

lemma feed_cases:
  obtains (Nil) "s = []"
  | (Token) c cs orig rest where "s = c # cs" "token_at m s = Some (orig, rest)"
      "\<And>cap out. feed_loop m cap out s = feed_loop m cap (put_bounded cap out orig) rest"
      "feed_spec m s = (orig @ fst (feed_spec m rest), snd (feed_spec m rest))"
  | (Stop) cs where "s = CHR ''['' # cs" "token_at m s = None" "close_at s = None" "pending_token s"
      "\<And>cap out. feed_loop m cap out s = (out, s)" "feed_spec m s = ([], s)"
  | (Char) c cs where "s = c # cs" "token_at m s = None" "\<not> (c = CHR ''['' \<and> close_at s = None \<and> pending_token s)"
      "\<And>cap out. feed_loop m cap out s = feed_loop m cap (put_bounded cap out [c]) cs"
      "feed_spec m s = (c # fst (feed_spec m cs), snd (feed_spec m cs))"
proof (cases s)
  case Nil
  then show thesis by (rule that(1))
next
  case (Cons c cs)
  show thesis
  proof (cases "token_at m s")
    case (Some p)
    obtain orig rest where p: "p = (orig, rest)" by (cases p)
    show thesis
    proof (rule that(2) [OF Cons])
      show "token_at m s = Some (orig, rest)" using Some p by simp
      show "feed_loop m cap out s = feed_loop m cap (put_bounded cap out orig) rest" for cap out
        by (subst feed_loop.simps) (simp only: Cons Some [unfolded Cons] p list.case option.case prod.case)
      show "feed_spec m s = (orig @ fst (feed_spec m rest), snd (feed_spec m rest))"
        by (subst feed_spec.simps) (simp only: Cons Some [unfolded Cons] p list.case option.case prod.case split_beta fst_conv snd_conv)
    qed
  next
    case None
    show thesis
    proof (cases "c = CHR ''['' \<and> close_at s = None \<and> pending_token s")
      case True
      have s: "s = CHR ''['' # cs" using True Cons by simp
      have n: "token_at m (CHR ''['' # cs) = None" "close_at (CHR ''['' # cs) = None" "pending_token (CHR ''['' # cs)"
        using True None s by metis+
      show thesis
      proof (rule that(3) [of cs])
        show "s = CHR ''['' # cs" using True Cons by simp
        show "token_at m s = None" by (rule None)
        show "close_at s = None" "pending_token s" using True by blast+
        show "feed_loop m cap out s = (out, s)" for cap out
          by (subst feed_loop.simps) (simp only: s n list.case option.case simp_thms if_True)
        show "feed_spec m s = ([], s)"
          by (subst feed_spec.simps) (simp only: s n list.case option.case simp_thms if_True)
      qed
    next
      case False
      show thesis
      proof (rule that(4) [OF Cons None False])
        show "feed_loop m cap out s = feed_loop m cap (put_bounded cap out [c]) cs" for cap out
          by (subst feed_loop.simps) (simp only: Cons None [unfolded Cons] False [unfolded Cons] list.case option.case simp_thms if_False)
        show "feed_spec m s = (c # fst (feed_spec m cs), snd (feed_spec m cs))"
          by (subst feed_spec.simps) (simp only: Cons None [unfolded Cons] False [unfolded Cons] list.case option.case simp_thms if_False split_beta)
      qed
    qed
  qed
qed

lemma feed_loop_spec: "feed_loop m cap out s = (take cap (out @ fst (feed_spec m s)), snd (feed_spec m s))" if "length out \<le> cap"
  using that
proof (induction "length s" arbitrary: s out rule: less_induct)
  case less
  have l: "length (put_bounded cap out x) \<le> cap" for x by (simp add: put_bounded_def)
  show ?case
  proof (cases rule: feed_cases [where s = s and m = m])
    case Nil
    with less.prems show ?thesis by simp
  next
    case (Token c cs orig rest)
    from less.hyps [OF token_at_shorter [OF Token(2)] l] show ?thesis
      unfolding Token(3,4) by (simp only: put_bounded_take fst_conv snd_conv)
  next
    case (Stop cs)
    with less.prems show ?thesis by simp
  next
    case (Char c cs)
    have "length cs < length s" using Char(1) by simp
    from less.hyps [OF this l] show ?thesis
      unfolding Char(4,5) by (simp only: put_bounded_take fst_conv snd_conv append_Cons append_Nil)
  qed
qed

lemma feed_spec_restore: "restore_spec m (s @ t) = fst (feed_spec m s) @ restore_spec m (snd (feed_spec m s) @ t)"
proof (induction "length s" arbitrary: s rule: less_induct)
  case less
  show ?case
  proof (cases rule: feed_cases [where s = s and m = m])
    case (Token c cs orig rest)
    have "token_at m (s @ t) = Some (orig, rest @ t)"
      using token_at_append [of s m t] Token(2) token_at_closed [OF Token(2)] Token(1)
      by (metis (no_types, lifting) case_prod_conv list.distinct(1) option.map(2))
    from restore_spec_token [OF this] less.hyps [OF token_at_shorter [OF Token(2)]] show ?thesis unfolding Token(4) by simp
  next
    case (Char c cs)
    have "hd s = CHR ''['' \<and> close_at s = None \<longrightarrow> \<not> pending_token s" using Char(1,3) by (metis list.sel(1))
    from token_at_append [OF _ this, of m t] have "token_at m (s @ t) = None" using Char(1,2) by simp
    then have "restore_spec m (s @ t) = c # restore_spec m (cs @ t)" unfolding Char(1) append_Cons by (rule restore_spec_char)
    with less.hyps [of cs] Char(1,5) show ?thesis by simp
  qed simp_all
qed

text \<open>What waits in the window.\<close>

definition window_ok :: "string \<Rightarrow> bool" where
  "window_ok w \<longleftrightarrow> w = [] \<or> (hd w = CHR ''['' \<and> close_at w = None \<and> list_all word_char (tl w) \<and> length w < 32)"

lemma feed_spec_window: "window_ok (snd (feed_spec m s))"
proof (induction "length s" arbitrary: s rule: less_induct)
  case less
  show ?case
  proof (cases rule: feed_cases [where s = s and m = m])
    case (Token c cs orig rest)
    with less.hyps [OF token_at_shorter [OF Token(2)]] show ?thesis by simp
  next
    case (Stop cs)
    note p = Stop(4) [unfolded pending_token_def Stop(1) list.sel]
    have "take 31 cs = cs" using p by simp
    then have "list_all word_char cs" using p by metis
    with p Stop(1,3,6) show ?thesis by (simp add: window_ok_def)
  qed (use less.hyps in \<open>simp_all add: window_ok_def\<close>)
qed

lemma restore_spec_plain: "CHR ''['' \<notin> set s \<Longrightarrow> restore_spec m s = s"
proof (induction s)
  case (Cons c cs)
  then have "token_at m (c # cs) = None" by (intro token_at_other) auto
  with Cons show ?case by (simp add: restore_spec_char)
qed simp

lemma restore_spec_window: "window_ok w \<Longrightarrow> restore_spec m w = w"
proof (cases w)
  case (Cons c cs)
  assume w: "window_ok w"
  with Cons have c: "c = CHR ''[''" "close_at (c # cs) = None" "list_all word_char cs" by (auto simp: window_ok_def)
  have "\<not> word_char CHR ''[''" by code_simp
  with c(3) have "CHR ''['' \<notin> set cs" by (auto simp: list_all_iff)
  then have "restore_spec m cs = cs" by (rule restore_spec_plain)
  moreover have "token_at m (c # cs) = None" using c(1,2) by (simp add: token_at_open)
  ultimately show ?thesis using Cons by (simp add: restore_spec_char)
qed simp

lemma restore_spec_empty: "restore_spec [] s = s"
proof (induction s)
  case (Cons c cs)
  have "token_at [] (c # cs) = None"
    by (auto simp: token_at_def pii_session_map_lookup_token_def split: char.splits bool.splits option.splits)
  with Cons show ?case by (simp add: restore_spec_char)
qed simp

text \<open>
  A placeholder taken out of the text: it is an entry of the map and ends with a closing bracket. So the
  output is longer than the input by at most the growth of an entry for every closing bracket.
\<close>

definition grows_by :: "pii_entry list \<Rightarrow> nat \<Rightarrow> bool" where
  "grows_by m d \<longleftrightarrow> (\<forall>e \<in> set m. length (pe_original e) \<le> length (pe_placeholder e) + d)"

lemma close_at_bracket: "close_at s = Some k \<Longrightarrow> s ! k = CHR '']''"
proof -
  assume c: "close_at s = Some k"
  let ?n = "length (takeWhile word_char (take 31 (tl s)))"
  have n: "?n < length (take 31 (tl s))" "take 31 (tl s) ! ?n = CHR '']''" "k = ?n + 1"
    using c by (auto simp: close_at_def Let_def split: if_splits)
  then have "s \<noteq> []" "tl s ! ?n = CHR '']''" by auto
  with n(3) show ?thesis by (cases s) simp_all
qed

lemma token_at_parts:
  assumes "token_at m s = Some (orig, rest)" "grows_by m d"
  shows "\<exists>p. s = p @ rest \<and> length orig \<le> length p + d \<and> CHR '']'' \<in> set p"
proof -
  from assms(1) obtain k e where k: "close_at s = Some k" "rest = drop (k + 1) s" "e \<in> set m"
    "pe_placeholder e = take (k + 1) s" "orig = pe_original e"
  proof -
    from assms(1) obtain cs where s: "s = CHR ''['' # cs"
      by (cases s) (auto simp: token_at_def split: char.splits bool.splits)
    with assms(1) obtain k where k: "close_at s = Some k" "rest = drop (k + 1) s"
      "pii_session_map_lookup_token m (take (k + 1) s) = Some orig"
      by (auto simp: token_at_open split: option.splits)
    from k(3) obtain e where "find (\<lambda>e. pe_placeholder e = take (k + 1) s) m = Some e" "orig = pe_original e"
      by (auto simp: pii_session_map_lookup_token_def split: if_splits)
    then have "e \<in> set m" "pe_placeholder e = take (k + 1) s" by (auto simp: find_Some_iff)
    with k \<open>orig = _\<close> show thesis by (intro that)
  qed
  from close_at_bound [OF k(1)] close_at_bracket [OF k(1)] have "CHR '']'' \<in> set (take (k + 1) s)"
    by (auto simp: in_set_conv_nth intro!: exI [of _ k])
  moreover have "length orig \<le> length (take (k + 1) s) + d" using assms(2) k(3-5) by (auto simp: grows_by_def)
  ultimately show ?thesis using k(2) by (metis append_take_drop_id)
qed

lemma feed_spec_growth:
  "grows_by m d \<Longrightarrow>
    length (fst (feed_spec m s)) + length (snd (feed_spec m s)) \<le> length s + d * count_list s CHR '']''"
proof (induction "length s" arbitrary: s rule: less_induct)
  case less
  show ?case
  proof (cases rule: feed_cases [where s = s and m = m])
    case (Token c cs orig rest)
    from token_at_parts [OF Token(2) less.prems] obtain p where
      p: "s = p @ rest" "length orig \<le> length p + d" "CHR '']'' \<in> set p" by blast
    then have "1 \<le> count_list p CHR '']''" by (metis Suc_leI count_list_0_iff gr0I One_nat_def)
    then have "d * 1 \<le> d * count_list p CHR '']''" by (rule mult_le_mono2)
    then have "length orig \<le> length p + d * count_list p CHR '']''" using p(2) by linarith
    with p(1) less.hyps [OF token_at_shorter [OF Token(2)] less.prems] show ?thesis
      unfolding Token(4) by (simp add: algebra_simps)
  next
    case (Char c cs)
    with less.hyps [of cs] less.prems show ?thesis by (simp add: algebra_simps)
  qed simp_all
qed

lemma window_no_close: "window_ok w \<Longrightarrow> count_list w CHR '']'' = 0 \<and> length w \<le> 31"
proof -
  assume w: "window_ok w"
  have "\<not> word_char CHR '']''" by code_simp
  with w have "CHR '']'' \<notin> set w" by (cases w) (auto simp: window_ok_def list_all_iff)
  with w show ?thesis by (auto simp: window_ok_def count_list_0_iff)
qed

section \<open>The stream of a response\<close>

text \<open>What the caller writes to the client for the chunks of a response, the last of which ends it.\<close>

fun forward_all :: "(nat \<Rightarrow> bool) \<Rightarrow> pii_stream_filter \<Rightarrow> string list \<Rightarrow> (string \<times> bool) list" where
  "forward_all ok sf [] = []"
| "forward_all ok sf (c # cs) =
     (case acc_forward ok sf c (cs = []) of (sf', ws) \<Rightarrow> ws @ forward_all ok sf' cs)"

definition client_text :: "(string \<times> bool) list \<Rightarrow> string" where
  "client_text ws = concat (map fst ws)"

text \<open>The buffer of the caller has 128 bytes more than the chunk.\<close>

fun chunks_fit :: "pii_entry list \<Rightarrow> string \<Rightarrow> string list \<Rightarrow> bool" where
  "chunks_fit m w [] = True"
| "chunks_fit m w (c # cs) \<longleftrightarrow>
     (c = [] \<or> length (fst (feed_spec m (w @ c))) \<le> length c + 128) \<and>
     chunks_fit m (if c = [] then w else snd (feed_spec m (w @ c))) cs"

lemma client_text_simps [simp]:
  "client_text [] = []" "client_text ((t, b) # ws) = t @ client_text ws"
  "client_text (vs @ ws) = client_text vs @ client_text ws"
  by (simp_all add: client_text_def)

lemma feed_bounded:
  assumes "sf_map sf \<noteq> []" "c \<noteq> []" "0 < cap"
  shows "guardrails_stream_filter_feed sf c cap =
    (sf\<lparr>sf_win := snd (feed_spec (sf_map sf) (sf_win sf @ c))\<rparr>,
     take cap (fst (feed_spec (sf_map sf) (sf_win sf @ c))))"
  using assms feed_loop_spec [of "[]" cap "sf_map sf" "sf_win sf @ c"]
  by (simp add: guardrails_stream_filter_feed_def)

text \<open>One chunk: the bytes that fit, then the window when the response ends.\<close>

lemma acc_forward_text:
  assumes "sf_map sf \<noteq> []" "4096 < length c + 128 \<longrightarrow> ok (length c + 128)" "window_ok (sf_win sf)"
  defines "o1 \<equiv> if c = [] then [] else fst (feed_spec (sf_map sf) (sf_win sf @ c))"
    and "w1 \<equiv> if c = [] then sf_win sf else snd (feed_spec (sf_map sf) (sf_win sf @ c))"
  shows "\<exists>sf' ws. acc_forward ok sf c fin = (sf', ws) \<and> sf_map sf' = sf_map sf \<and>
    (\<not> fin \<longrightarrow> sf_win sf' = w1 \<and> client_text ws = take (length c + 128) o1) \<and>
    (fin \<longrightarrow> client_text ws = take (length c + 128) o1 @ w1)"
proof -
  have f: "guardrails_stream_filter_feed sf c (length c + 128) = (sf\<lparr>sf_win := w1\<rparr>, take (length c + 128) o1)"
  proof (cases "c = []")
    case True
    then show ?thesis by (simp add: guardrails_stream_filter_feed_def o1_def w1_def)
  next
    case False
    with feed_bounded [OF assms(1) False, of "length c + 128"] show ?thesis by (simp add: o1_def w1_def)
  qed
  have "window_ok w1" using assms(3) feed_spec_window by (simp add: w1_def)
  then have "length w1 \<le> 64" using window_no_close by fastforce
  then show ?thesis
    using assms(1,2) f
    by (cases "take (length c + 128) o1 = []")
      (auto simp: acc_forward_def guardrails_stream_filter_flush_def Let_def simp del: take_eq_Nil)
qed

lemma forward_all_text:
  assumes "sf_map sf \<noteq> []" "\<forall>c \<in> set cs. 4096 < length c + 128 \<longrightarrow> ok (length c + 128)"
    and "window_ok (sf_win sf)" "cs \<noteq> []"
  shows "length (client_text (forward_all ok sf cs)) \<le> length (restore_spec (sf_map sf) (sf_win sf @ concat cs)) \<and>
    (if chunks_fit (sf_map sf) (sf_win sf) cs
     then client_text (forward_all ok sf cs) = restore_spec (sf_map sf) (sf_win sf @ concat cs)
     else length (client_text (forward_all ok sf cs)) < length (restore_spec (sf_map sf) (sf_win sf @ concat cs)))"
  using assms
proof (induction cs arbitrary: sf)
  case (Cons c cs)
  let ?m = "sf_map sf" and ?n = "length c + 128"
  define o1 where "o1 = (if c = [] then [] else fst (feed_spec ?m (sf_win sf @ c)))"
  define w1 where "w1 = (if c = [] then sf_win sf else snd (feed_spec ?m (sf_win sf @ c)))"
  have w1: "window_ok w1" using Cons.prems(3) feed_spec_window by (simp add: w1_def)
  from acc_forward_text [OF Cons.prems(1) _ Cons.prems(3), of c ok "cs = []"] Cons.prems(2) obtain sf' ws where
    sf': "acc_forward ok sf c (cs = []) = (sf', ws)" "sf_map sf' = ?m"
    "cs \<noteq> [] \<Longrightarrow> sf_win sf' = w1 \<and> client_text ws = take ?n o1" "cs = [] \<Longrightarrow> client_text ws = take ?n o1 @ w1"
    unfolding o1_def w1_def by auto
  have r: "restore_spec ?m (sf_win sf @ concat (c # cs)) = o1 @ restore_spec ?m (w1 @ concat cs)"
    using feed_spec_restore [of ?m "sf_win sf @ c" "concat cs"] by (cases "c = []") (simp_all add: o1_def w1_def)
  have fit: "chunks_fit ?m (sf_win sf) (c # cs) \<longleftrightarrow> length o1 \<le> ?n \<and> chunks_fit ?m w1 cs"
    by (simp add: o1_def w1_def)
  show ?case
  proof (cases "cs = []")
    case True
    then show ?thesis
      unfolding fit r using sf'(1,4) restore_spec_window [OF w1] by (simp add: min_def)
  next
    case False
    then have win: "sf_win sf' = w1" "client_text ws = take ?n o1" using sf'(3) by auto
    have "window_ok (sf_win sf')" "sf_map sf' \<noteq> []"
      "\<forall>c \<in> set cs. 4096 < length c + 128 \<longrightarrow> ok (length c + 128)" using win w1 sf'(2) Cons.prems by auto
    from Cons.IH [OF this(2,3,1) False] show ?thesis
      unfolding fit r using sf'(1,2) win by (simp add: min_def split: if_splits)
  qed
qed simp

lemma forward_all_no_map:
  "sf_map sf = [] \<Longrightarrow> client_text (forward_all ok sf cs) = concat cs"
  by (induction cs arbitrary: sf) (simp_all add: acc_forward_def)

lemma chunks_fit_growth:
  assumes "grows_by m d" "window_ok w" "\<forall>c \<in> set cs. d * count_list c CHR '']'' \<le> 97"
  shows "chunks_fit m w cs"
  using assms(2,3)
proof (induction cs arbitrary: w)
  case (Cons c cs)
  from window_no_close [OF Cons.prems(1)] Cons.prems(2) feed_spec_growth [OF assms(1), of "w @ c"]
  have "length (fst (feed_spec m (w @ c))) \<le> length c + 128" by simp
  with Cons feed_spec_window show ?case by simp
qed simp

text \<open>C9. A response restored chunk by chunk, with the buffers its caller gives (128 bytes more than the chunk, which
  are at hand): the client gets the text that restoring the whole response gives, a placeholder split
  between chunks included, exactly if no chunk's output outgrows its buffer. That is so for every cutting into
  chunks in which the closing brackets of a chunk, times the most bytes an original is longer than its
  placeholder, make at most 97.\<close>

theorem pii_stream_equals_whole:
  assumes "cs \<noteq> []" "\<forall>c \<in> set cs. 4096 < length c + 128 \<longrightarrow> ok (length c + 128)"
  shows "(client_text (forward_all ok (guardrails_stream_filter_init m) cs) = restore_spec m (concat cs) \<longleftrightarrow>
      chunks_fit m [] cs) \<and>
    (\<forall>d. (\<forall>e \<in> set m. length (pe_original e) \<le> length (pe_placeholder e) + d) \<longrightarrow>
      (\<forall>c \<in> set cs. d * count_list c CHR '']'' \<le> 97) \<longrightarrow> chunks_fit m [] cs)"
proof (intro conjI allI impI)
  fix d
  assume "\<forall>e \<in> set m. length (pe_original e) \<le> length (pe_placeholder e) + d" "\<forall>c \<in> set cs. d * count_list c CHR '']'' \<le> 97"
  then show "chunks_fit m [] cs" by (intro chunks_fit_growth [of m d]) (simp_all add: grows_by_def window_ok_def)
next
  let ?sf = "guardrails_stream_filter_init m"
  show "client_text (forward_all ok ?sf cs) = restore_spec m (concat cs) \<longleftrightarrow> chunks_fit m [] cs"
  proof (cases "m = []")
    case True
    have "chunks_fit [] [] cs" by (rule chunks_fit_growth [of _ 0]) (simp_all add: grows_by_def window_ok_def)
    with True forward_all_no_map [of ?sf ok cs] show ?thesis
      by (simp add: restore_spec_empty guardrails_stream_filter_init_def)
  next
    case False
    with forward_all_text [of ?sf cs ok] assms show ?thesis
      by (auto simp: guardrails_stream_filter_init_def window_ok_def split: if_splits)
  qed
qed

definition sample_map :: "pii_entry list" where
  "sample_map = [\<lparr>pe_placeholder = ''[PHONE_1]'', pe_original = ''13812345678'', pe_type = PII_TYPE_PHONE\<rparr>]"

lemma pii_stream_equals_whole_witness:
  "client_text (forward_all (\<lambda>_. False) (guardrails_stream_filter_init sample_map) [''call [PHO'', ''NE_1] now'', []]) =
    ''call 13812345678 now''"
proof -
  have r: "restore_spec sample_map ''call [PHONE_1] now'' = ''call 13812345678 now''" by code_simp
  have "\<forall>c \<in> set [''call [PHO'', ''NE_1] now'', []]. 4096 < length c + 128 \<longrightarrow> False" by simp
  moreover have "\<forall>e \<in> set sample_map. length (pe_original e) \<le> length (pe_placeholder e) + 2" by (simp add: sample_map_def)
  moreover have "\<forall>c \<in> set [''call [PHO'', ''NE_1] now'', []]. 2 * count_list c CHR '']'' \<le> 97" by simp
  ultimately have "client_text (forward_all (\<lambda>_. False) (guardrails_stream_filter_init sample_map) [''call [PHO'', ''NE_1] now'', []]) =
      restore_spec sample_map (concat [''call [PHO'', ''NE_1] now'', []])"
    using pii_stream_equals_whole [of "[''call [PHO'', ''NE_1] now'', []]" "\<lambda>_. False" sample_map] by blast
  then show ?thesis using r by simp
qed

section \<open>The whole text in its buffer\<close>

lemma restore_loop_correct:
  assumes "length out < cap"
  shows "restore_loop ok m cap changed out s = Buf_Oom \<and> \<not> (\<forall>n. ok n) \<or>
    (\<exists>ch. restore_loop ok m cap changed out s = Buf_Done (out @ restore_spec m s, ch) \<and>
      (changed \<longrightarrow> ch) \<and> (\<not> ch \<longrightarrow> restore_spec m s = s))"
  using assms
proof (induction "length s" arbitrary: s cap changed out rule: less_induct)
  case less
  show ?case
  proof (cases s)
    case Nil
    have "restore_loop ok m cap changed out [] = Buf_Done (out, changed)"
      using less.prems by (subst restore_loop.simps) (simp add: buf_write_def)
    with Nil show ?thesis by auto
  next
    case (Cons c cs)
    show ?thesis
    proof (cases "token_at m s")
      case None
      let ?grown = "length out + 2 > cap"
      let ?cap = "if ?grown then length out + 128 else cap"
      have room: "length (out @ [c]) < ?cap" using less.prems by auto
      then have w: "buf_write ?cap out [c] = Some (out @ [c])" by (simp add: buf_write_def)
      show ?thesis
      proof (cases "?grown \<and> \<not> ok (length out + 128)")
        case True
        have "restore_loop ok m cap changed out s = Buf_Oom"
          by (subst restore_loop.simps) (simp only: Cons None [unfolded Cons] list.case option.case Let_def True simp_thms if_True)
        with True show ?thesis by blast
      next
        case False
        have l: "restore_loop ok m cap changed out s = restore_loop ok m ?cap changed (out @ [c]) cs"
          by (subst restore_loop.simps) (simp only: Cons None [unfolded Cons] list.case option.case Let_def False if_False w)
        have "length cs < length s" using Cons by simp
        from less.hyps [OF this room, of changed] restore_spec_char [OF None [unfolded Cons]]
        show ?thesis unfolding l unfolding Cons by (elim disjE exE conjE) simp_all
      qed
    next
      case (Some p)
      obtain orig rest where p: "p = (orig, rest)" by (cases p)
      let ?need = "length out + length orig"
      let ?grown = "?need + 1 > cap"
      let ?cap = "if ?grown then ?need + 128 else cap"
      have room: "length (out @ orig) < ?cap" by auto
      then have w: "buf_write ?cap out orig = Some (out @ orig)" by (simp add: buf_write_def)
      show ?thesis
      proof (cases "?grown \<and> \<not> ok (?need + 128)")
        case True
        have "restore_loop ok m cap changed out s = Buf_Oom"
          by (subst restore_loop.simps) (simp only: Cons Some [unfolded Cons] p list.case option.case prod.case Let_def True simp_thms if_True)
        with True show ?thesis by blast
      next
        case False
        have l: "restore_loop ok m cap changed out s = restore_loop ok m ?cap True (out @ orig) rest"
          by (subst restore_loop.simps) (simp only: Cons Some [unfolded Cons] p list.case option.case prod.case Let_def False if_False w)
        from less.hyps [OF token_at_shorter [OF Some [unfolded p]] room, of True] restore_spec_token [OF Some [unfolded p]]
        show ?thesis unfolding l by (elim disjE exE conjE) (simp_all, blast)
      qed
    qed
  qed
qed

lemma restore_text_cases:
  obtains r where "guardrails_restore_pii_text ok resp m = Buf_Done r" "r = None \<or> r = Some (restore_spec m resp)"
    "r = None \<Longrightarrow> \<forall>n. ok n \<Longrightarrow> restore_spec m resp = resp"
proof -
  consider "resp = [] \<or> m = []" | "resp \<noteq> []" "m \<noteq> []" "\<not> ok (length resp + 256)"
    | "resp \<noteq> []" "m \<noteq> []" "ok (length resp + 256)" by blast
  then show thesis
  proof cases
    case 1
    with restore_spec_empty that [of None] show thesis by (auto simp: guardrails_restore_pii_text_def)
  next
    case 2
    with that [of None] show thesis by (auto simp: guardrails_restore_pii_text_def)
  next
    case 3
    have "length ([] :: string) < length resp + 256" by simp
    from restore_loop_correct [OF this, of ok m False resp]
    obtain r where "guardrails_restore_pii_text ok resp m = Buf_Done r" "r = None \<or> r = Some (restore_spec m resp)"
      "r = None \<Longrightarrow> \<forall>n. ok n \<Longrightarrow> restore_spec m resp = resp"
      using 3 by (elim disjE exE conjE) (auto simp: guardrails_restore_pii_text_def)
    then show thesis by (rule that)
  qed
qed

text \<open>C35. Restoring a response never writes outside the buffer, whichever allocations fail; the caller gets the text with
  every known placeholder replaced, or nothing, and when memory is at hand it gets nothing only if the
  response needs no change.\<close>

theorem pii_restore_exact:
  "\<exists>r. guardrails_restore_pii_text ok resp m = Buf_Done r \<and> (r = None \<or> r = Some (restore_spec m resp)) \<and>
    ((\<forall>n. ok n) \<longrightarrow> (case r of None \<Rightarrow> resp | Some s \<Rightarrow> s) = restore_spec m resp)"
  by (rule restore_text_cases [of ok resp m]) auto

lemma pii_restore_exact_witness:
  "guardrails_restore_pii_text (\<lambda>_. True) ''[PHONE_1] [PHONE_2]'' sample_map = Buf_Done (Some ''13812345678 [PHONE_2]'')"
proof -
  obtain r where r: "guardrails_restore_pii_text (\<lambda>_. True) ''[PHONE_1] [PHONE_2]'' sample_map = Buf_Done r"
    "(case r of None \<Rightarrow> ''[PHONE_1] [PHONE_2]'' | Some s \<Rightarrow> s) = restore_spec sample_map ''[PHONE_1] [PHONE_2]''"
    using pii_restore_exact [of "\<lambda>_. True" "''[PHONE_1] [PHONE_2]''" sample_map] by auto
  moreover have "restore_spec sample_map ''[PHONE_1] [PHONE_2]'' = ''13812345678 [PHONE_2]''" by code_simp
  ultimately show ?thesis by (cases r) simp_all
qed

section \<open>The caller\<close>

text \<open>The end of a stream that comes as an empty chunk is not passed on while the session has placeholders and the window is
  empty: nothing is written to the client.\<close>

theorem pii_stream_end_lost:
  "snd (acc_forward ok (guardrails_stream_filter_init (e # es)) [] True) = [] \<and>
   snd (acc_forward ok (guardrails_stream_filter_init []) [] True) = [([], True)]"
  by (simp add: acc_forward_def guardrails_stream_filter_feed_def guardrails_stream_filter_init_def Let_def)

definition long_mail :: string where
  "long_mail = replicate 60 (CHR ''a'') @ ''@example.org''"

definition mail_map :: "pii_entry list" where
  "mail_map = [\<lparr>pe_placeholder = ''[EMAIL_1]'', pe_original = long_mail, pe_type = PII_TYPE_EMAIL\<rparr>]"

text \<open>The caller's buffer has 128 bytes more than the chunk: a chunk that names the same address four times is cut off, and the
  bytes that have no room are lost.\<close>

theorem pii_stream_drops_text:
  "\<exists>sf w. acc_forward (\<lambda>_. True) (guardrails_stream_filter_init mail_map) (concat (replicate 4 ''[EMAIL_1]'')) True = (sf, [(w, True)]) \<and>
    restore_spec mail_map (concat (replicate 4 ''[EMAIL_1]'')) = concat (replicate 4 long_mail) \<and>
    sf_win sf = [] \<and> length w = 164 \<and> length (concat (replicate 4 long_mail)) = 288"
proof -
  have f: "feed_spec mail_map (concat (replicate 4 ''[EMAIL_1]'')) = (concat (replicate 4 long_mail), [])" by code_simp
  have r: "restore_spec mail_map (concat (replicate 4 ''[EMAIL_1]'')) = concat (replicate 4 long_mail)"
    using feed_spec_restore [of mail_map "concat (replicate 4 ''[EMAIL_1]'')" "[]"] f by simp
  have l: "length long_mail = 72" by code_simp
  have "feed_loop mail_map 164 [] (concat (replicate 4 ''[EMAIL_1]'')) = (take 164 (concat (replicate 4 long_mail)), [])"
    using feed_loop_spec [of "[]" 164 mail_map "concat (replicate 4 ''[EMAIL_1]'')"] f by simp
  moreover have "length (concat (replicate 4 ''[EMAIL_1]'')) = 36" by code_simp
  moreover have "mail_map \<noteq> []" "concat (replicate 4 ''[EMAIL_1]'') \<noteq> []" "concat (replicate 4 long_mail) \<noteq> []"
    by (simp_all add: mail_map_def long_mail_def numeral_eq_Suc)
  moreover have "length (concat (replicate 4 long_mail)) = 288" using l by (simp add: numeral_eq_Suc)
  ultimately show ?thesis
    using r by (simp add: acc_forward_def guardrails_stream_filter_feed_def guardrails_stream_filter_init_def Let_def
        del: replicate.simps concat.simps)
qed

end
