(* ===== verification/Pii_Roundtrip.thy ===== *)
theory Pii_Roundtrip
  imports Pii_Match Pii_Stream
begin

text \<open>
  Anonymising a text and restoring the result gives the text back. A text with placeholders \<open>renders\<close>
  the text without them; every round of a pass keeps what the text renders, because a match contains
  no bracket and is no part of a placeholder, so that it never cuts one.
\<close>

section \<open>Placeholders\<close>

lemma word_char_facts: "is_digit c \<Longrightarrow> word_char c" "is_upper c \<Longrightarrow> word_char c" "word_char CHR ''_''"
  by (simp_all add: word_char_def is_alnum_def)

lemma not_word_bracket: "\<not> word_char CHR ''[''" "\<not> word_char CHR '']''"
  by code_simp+

lemma pii_tag_word: "list_all word_char (pii_tag ty)"
  by (cases ty) (simp_all add: word_char_def is_alnum_def is_upper_def is_digit_def is_lower_def)

lemma length_pii_tag: "length (pii_tag ty) \<le> 9"
  by (cases ty) simp_all

lemma length_nat_str_64: "n \<le> 64 \<Longrightarrow> length (nat_str n) \<le> 2"
  by (rule length_nat_str) simp_all

lemma placeholder_words: "list_all word_char (pii_tag ty @ ''_'' @ nat_str n)"
  using pii_tag_word [of ty] nat_str_digits [of n] word_char_facts by (auto simp: list_all_iff)

lemma length_placeholder: "n \<le> 64 \<Longrightarrow> length (placeholder_of ty n) < 32"
  using length_pii_tag [of ty] length_nat_str_64 [of n] by (simp add: placeholder_of_def)

lemma placeholder_inj: "placeholder_of ty n = placeholder_of ty' n' \<Longrightarrow> n = n'"
proof -
  assume "placeholder_of ty n = placeholder_of ty' n'"
  then have "rev (placeholder_of ty n) = rev (placeholder_of ty' n')" by simp
  then have "rev (nat_str n) @ CHR ''_'' # rev (pii_tag ty) = rev (nat_str n') @ CHR ''_'' # rev (pii_tag ty')"
    by (simp add: placeholder_of_def)
  moreover have "\<not> is_digit CHR ''_''" by code_simp
  then have "CHR ''_'' \<notin> set (rev (nat_str k))" for k using nat_str_digits [of k] by (auto simp: list_all_iff)
  ultimately have "nat_str n = nat_str n'" using append_sep_inj by (metis rev_rev_ident)
  then show "n = n'" by (rule nat_str_inj)
qed

lemma placeholder_inj_type: "placeholder_of ty n = placeholder_of ty' n' \<Longrightarrow> ty = ty'"
proof -
  assume a: "placeholder_of ty n = placeholder_of ty' n'"
  from placeholder_inj [OF a] a have "pii_tag ty = pii_tag ty'" by (simp add: placeholder_of_def)
  then show "ty = ty'" by (cases ty; cases ty') simp_all
qed

section \<open>The session map\<close>

definition type_count :: "pii_type \<Rightarrow> pii_entry list \<Rightarrow> nat" where
  "type_count ty m = length (filter (\<lambda>e. pe_type e = ty) m)"

definition wf_map :: "pii_entry list \<Rightarrow> bool" where
  "wf_map m \<longleftrightarrow> length m \<le> 64 \<and>
     (\<forall>i<length m. pe_placeholder (m ! i) = placeholder_of (pe_type (m ! i)) (1 + type_count (pe_type (m ! i)) (take i m)) \<and>
        pe_original (m ! i) \<noteq> [] \<and> length (pe_original (m ! i)) < 128)"

lemma type_count_le: "type_count ty m \<le> length m"
  by (simp add: type_count_def)

lemma wf_map_Nil [simp]: "wf_map []"
  by (simp add: wf_map_def)

lemma wf_map_entry:
  assumes "wf_map m" "e \<in> set m"
  shows "\<exists>n \<le> 64. pe_placeholder e = placeholder_of (pe_type e) n" and "pe_original e \<noteq> []" "length (pe_original e) < 128"
proof -
  obtain i where i: "i < length m" "m ! i = e" using assms(2) by (metis in_set_conv_nth)
  have "type_count (pe_type e) (take i m) \<le> i" using type_count_le [of "pe_type e" "take i m"] i(1) by simp
  then have "1 + type_count (pe_type e) (take i m) \<le> 64" using assms(1) i by (auto simp: wf_map_def)
  with assms(1) i show "\<exists>n \<le> 64. pe_placeholder e = placeholder_of (pe_type e) n"
    and "pe_original e \<noteq> []" "length (pe_original e) < 128" unfolding wf_map_def by blast+
qed

lemma type_count_less: "i < j \<Longrightarrow> j \<le> length m \<Longrightarrow> type_count (pe_type (m ! i)) (take i m) < type_count (pe_type (m ! i)) (take j m)"
proof -
  assume a: "i < j" "j \<le> length m"
  then have "take j m = take i m @ m ! i # take (j - Suc i) (drop (Suc i) m)"
    using id_take_nth_drop [of i "take j m"] by (simp add: min_def drop_take)
  then show ?thesis by (simp add: type_count_def)
qed

lemma wf_map_distinct:
  assumes "wf_map m" "i < length m" "j < length m" "pe_placeholder (m ! i) = pe_placeholder (m ! j)"
  shows "i = j"
proof -
  have p: "pe_placeholder (m ! k) = placeholder_of (pe_type (m ! k)) (1 + type_count (pe_type (m ! k)) (take k m))" if "k < length m" for k
    using assms(1) that by (simp add: wf_map_def)
  have "type_count (pe_type (m ! i)) (take i m) = type_count (pe_type (m ! j)) (take j m)" "pe_type (m ! i) = pe_type (m ! j)"
    using assms(2-4) p [OF assms(2)] p [OF assms(3)] placeholder_inj placeholder_inj_type by (metis add_left_cancel)+
  with type_count_less [of i j m] type_count_less [of j i m] assms(2,3) show ?thesis
    by (metis less_imp_le less_irrefl nat_neq_iff)
qed

lemma wf_map_lookup:
  assumes "wf_map m" "e \<in> set m"
  shows "pii_session_map_lookup_token m (pe_placeholder e) = Some (pe_original e)"
proof -
  have ne: "pe_placeholder e \<noteq> []" using wf_map_entry(1) [OF assms] by (auto simp: placeholder_of_def)
  obtain i where i: "i < length m" "m ! i = e" using assms(2) by (metis in_set_conv_nth)
  have "find (\<lambda>e'. pe_placeholder e' = pe_placeholder e) m = Some e"
    unfolding find_Some_iff using i wf_map_distinct [OF assms(1)] by (metis less_irrefl less_trans)
  with ne show ?thesis by (simp add: pii_session_map_lookup_token_def)
qed

text \<open>A new entry.\<close>

lemma wf_map_add:
  assumes wf: "wf_map m" and room: "length m < 64" and orig: "original \<noteq> []" "length original < 128"
  shows "wf_map (m @ [\<lparr>pe_placeholder = placeholder_of ty (1 + type_count ty m), pe_original = original, pe_type = ty\<rparr>])"
  using assms by (auto simp: wf_map_def nth_append less_Suc_eq)

lemma get_or_create_cases:
  assumes "wf_map m" "original \<noteq> []" "length original < 128" "pii_session_map_get_or_create m ty original = (m', r)"
  shows "(m' = m \<and> r = None \<and> 64 \<le> length m) \<or>
    (wf_map m' \<and> prefix m m' \<and> (\<exists>e \<in> set m'. pe_original e = original \<and> r = Some (pe_placeholder e)))"
proof (cases "find (\<lambda>e. pe_original e = original) m")
  case (Some e)
  then have "e \<in> set m" "pe_original e = original" by (auto simp: find_Some_iff)
  with Some assms show ?thesis by (auto simp: pii_session_map_get_or_create_def)
next
  case None
  show ?thesis
  proof (cases "64 \<le> length m")
    case True
    with None assms show ?thesis by (simp add: pii_session_map_get_or_create_def PII_MAX_SESSION_ENTRIES_def)
  next
    case False
    let ?tok = "placeholder_of ty (1 + type_count ty m)"
    let ?e = "\<lparr>pe_placeholder = ?tok, pe_original = original, pe_type = ty\<rparr>"
    have "1 + type_count ty m \<le> 64" using False type_count_le [of ty m] by simp
    from length_placeholder [OF this, of ty] have "cstr_copy 32 ?tok = ?tok" by simp
    with None False assms have "m' = m @ [?e]" "r = Some ?tok"
      by (auto simp: pii_session_map_get_or_create_def PII_MAX_SESSION_ENTRIES_def type_count_def Let_def)
    with wf_map_add [OF assms(1) _ assms(2,3), of ty] False show ?thesis by auto
  qed
qed

section \<open>Rendering\<close>

inductive renders :: "pii_entry list \<Rightarrow> string \<Rightarrow> string \<Rightarrow> bool" for m where
  renders_Nil: "renders m [] []"
| renders_char: "c \<noteq> CHR ''['' \<Longrightarrow> renders m s r \<Longrightarrow> renders m (c # s) (c # r)"
| renders_token: "e \<in> set m \<Longrightarrow> renders m s r \<Longrightarrow> renders m (pe_placeholder e @ s) (pe_original e @ r)"

lemma renders_mono: "renders m s r \<Longrightarrow> set m \<subseteq> set m' \<Longrightarrow> renders m' s r"
  by (induction rule: renders.induct) (auto intro: renders.intros)

lemma renders_append: "renders m s r \<Longrightarrow> renders m t q \<Longrightarrow> renders m (s @ t) (r @ q)"
  by (induction rule: renders.induct) (auto intro: renders.intros)

lemma renders_plain: "CHR ''['' \<notin> set s \<Longrightarrow> renders m s s"
  by (induction s) (auto intro: renders.intros)

lemma close_at_placeholder:
  assumes "n \<le> 64"
  shows "close_at (placeholder_of ty n @ s) = Some (length (placeholder_of ty n) - 1)"
proof -
  obtain w where w: "w = pii_tag ty @ ''_'' @ nat_str n" by blast
  have l: "length w < 31" using length_placeholder [OF assms, of ty] w by (simp add: placeholder_of_def)
  have p: "placeholder_of ty n @ s = CHR ''['' # w @ CHR '']'' # s" using w by (simp add: placeholder_of_def)
  then have t: "take 31 (tl (placeholder_of ty n @ s)) = w @ take (31 - length w) (CHR '']'' # s)" using l by simp
  moreover have u: "take (31 - length w) (CHR '']'' # s) = CHR '']'' # take (30 - length w) s"
    using l by (simp add: take_Cons')
  ultimately have t': "take 31 (tl (placeholder_of ty n @ s)) = w @ CHR '']'' # take (30 - length w) s" by metis
  have "takeWhile word_char (w @ CHR '']'' # take (30 - length w) s) = w"
    using placeholder_words [of ty n] not_word_bracket(2) w by (simp add: list_all_iff takeWhile_append)
  then have "length (takeWhile word_char (take 31 (tl (placeholder_of ty n @ s)))) = length w" unfolding t' by (simp only:)
  moreover have "length w < length (take 31 (tl (placeholder_of ty n @ s)))" unfolding t' by simp
  moreover have "take 31 (tl (placeholder_of ty n @ s)) ! length w = CHR '']''" unfolding t' by (rule nth_append_length)
  ultimately have "close_at (placeholder_of ty n @ s) = Some (length w + 1)" unfolding close_at_def Let_def by presburger
  then show ?thesis using w by (simp add: placeholder_of_def)
qed

lemma token_at_placeholder:
  assumes "wf_map m" "e \<in> set m"
  shows "token_at m (pe_placeholder e @ s) = Some (pe_original e, s)"
proof -
  obtain n where n: "n \<le> 64" "pe_placeholder e = placeholder_of (pe_type e) n" using wf_map_entry(1) [OF assms] by blast
  let ?p = "pe_placeholder e"
  obtain r where hd: "?p = CHR ''['' # r" using n(2) by (simp add: placeholder_of_def)
  have c: "close_at (?p @ s) = Some (length ?p - 1)" using close_at_placeholder [OF n(1)] n(2) by simp
  have l: "length ?p - 1 + 1 = length ?p" using hd by simp
  have "token_at m (?p @ s) = map_option (\<lambda>orig. (orig, drop (length ?p) (?p @ s))) (pii_session_map_lookup_token m (take (length ?p) (?p @ s)))"
    using c l hd token_at_open [of m "r @ s"] by simp
  then show ?thesis using wf_map_lookup [OF assms] by simp
qed

lemma renders_restore: "renders m s r \<Longrightarrow> wf_map m \<Longrightarrow> restore_spec m s = r"
proof (induction rule: renders.induct)
  case (renders_char c s r)
  then show ?case using restore_spec_char [OF token_at_other] by simp
next
  case (renders_token e s r)
  then show ?case using restore_spec_token [OF token_at_placeholder] by simp
qed simp

section \<open>Cutting a text around a match\<close>

definition whole_match :: "string \<Rightarrow> bool" where
  "whole_match x \<longleftrightarrow> x \<noteq> [] \<and> CHR ''['' \<notin> set x \<and> CHR '']'' \<notin> set x \<and> (\<forall>ty n. n \<le> 64 \<longrightarrow> \<not> sublist x (placeholder_of ty n))"

lemma renders_drop_plain: "renders m (x @ b) r \<Longrightarrow> wf_map m \<Longrightarrow> CHR ''['' \<notin> set x \<Longrightarrow> \<exists>rb. r = x @ rb \<and> renders m b rb"
proof (induction x arbitrary: r)
  case Nil
  then show ?case by simp
next
  case (Cons c x)
  from Cons.prems(1) show ?case
  proof (cases rule: renders.cases)
    case (renders_char c' s q)
    with Cons.IH [of q] Cons.prems(2,3) show ?thesis by auto
  next
    case (renders_token e s q)
    then obtain n where "pe_placeholder e = placeholder_of (pe_type e) n" using wf_map_entry(1) [OF Cons.prems(2)] by blast
    with renders_token Cons.prems(3) show ?thesis by (simp add: placeholder_of_def)
  qed simp
qed

lemma append_split:
  assumes "p @ s = a @ c"
  shows "(\<exists>a'. a = p @ a' \<and> s = a' @ c) \<or> (\<exists>p2. p = a @ p2 \<and> p2 \<noteq> [] \<and> p2 @ s = c)"
  using assms [unfolded append_eq_append_conv2] by (metis append_Nil append_Nil2)

lemma renders_split:
  assumes "renders m s r" "wf_map m" "s = a @ x @ b" "whole_match x"
  shows "\<exists>ra rb. renders m a ra \<and> renders m b rb \<and> r = ra @ x @ rb"
  using assms
proof (induction arbitrary: a rule: renders.induct)
  case renders_Nil
  then show ?case by (simp add: whole_match_def)
next
  case (renders_char c s r)
  show ?case
  proof (cases a)
    case Nil
    with renders_char have "renders m (x @ b) (c # r)" by (metis append_Nil renders.renders_char)
    from renders_drop_plain [OF this renders_char.prems(1)] renders_char.prems(3) obtain rb where "c # r = x @ rb" "renders m b rb"
      by (auto simp: whole_match_def)
    with Nil show ?thesis by (auto intro: renders.intros)
  next
    case (Cons c' a')
    with renders_char.prems have "s = a' @ x @ b" "c' = c" by simp_all
    with renders_char.IH [OF renders_char.prems(1) _ renders_char.prems(3)] obtain ra rb
      where "renders m a' ra" "renders m b rb" "r = ra @ x @ rb" by blast
    with Cons \<open>c' = c\<close> renders_char.hyps(1) show ?thesis
      by (intro exI [of _ "c # ra"] exI [of _ rb]) (auto intro: renders.intros)
  qed
next
  case (renders_token e s r)
  let ?p = "pe_placeholder e"
  obtain n where n: "n \<le> 64" "?p = placeholder_of (pe_type e) n" using wf_map_entry(1) [OF renders_token.prems(1) renders_token.hyps(1)] by blast
  obtain w where w: "?p = CHR ''['' # w @ [CHR '']'']" using n(2) by (simp add: placeholder_of_def)
  from append_split [OF renders_token.prems(2)] consider
      (behind) a' where "a = ?p @ a'" "s = a' @ x @ b"
    | (inside) p2 where "?p = a @ p2" "p2 \<noteq> []" "p2 @ s = x @ b"
    by blast
  then show ?case
  proof cases
    case behind
    with renders_token.IH [OF renders_token.prems(1) _ renders_token.prems(3)] obtain ra rb
      where "renders m a' ra" "renders m b rb" "r = ra @ x @ rb" by blast
    with behind(1) renders_token.hyps(1) show ?thesis
      by (intro exI [of _ "pe_original e @ ra"] exI [of _ rb]) (auto intro: renders.intros)
  next
    case inside
    have "last ?p = CHR '']''" using w by simp
    then have l: "last p2 = CHR '']''" using inside(1,2) by simp
    from inside(3) consider t where "x = p2 @ t" | t where "p2 = x @ t" by (auto simp: append_eq_append_conv2)
    then show ?thesis
    proof cases
      case 1
      with l inside(2) have "CHR '']'' \<in> set x" by (metis Un_iff last_in_set set_append)
      with renders_token.prems(3) show ?thesis by (simp add: whole_match_def)
    next
      case 2
      with inside(1) n(2) have "sublist x (placeholder_of (pe_type e) n)" by (auto simp: sublist_def)
      with n(1) renders_token.prems(3) show ?thesis by (auto simp: whole_match_def)
    qed
  qed
qed

section \<open>Matches of the patterns\<close>

definition token_char :: "char \<Rightarrow> bool" where
  "token_char c \<longleftrightarrow> is_upper c \<or> is_digit c \<or> c = CHR ''_'' \<or> c = CHR ''['' \<or> c = CHR '']''"

lemma placeholder_chars: "list_all token_char (placeholder_of ty n)"
proof -
  have "list_all token_char (pii_tag ty)" by (cases ty) (simp_all add: token_char_def is_upper_def)
  moreover have "list_all token_char (nat_str n)" using nat_str_digits [of n] by (auto simp: list_all_iff token_char_def)
  ultimately show ?thesis by (simp add: placeholder_of_def token_char_def)
qed

lemma placeholder_few_digits: "n \<le> 64 \<Longrightarrow> length (filter id_char (placeholder_of ty n)) \<le> 2"
proof -
  assume n: "n \<le> 64"
  have "filter id_char (pii_tag ty) = []" by (cases ty) (simp_all add: id_char_def is_digit_def)
  moreover have "length (filter id_char (nat_str n)) \<le> 2" using length_filter_le length_nat_str_64 [OF n] order_trans by blast
  ultimately show ?thesis by (simp add: placeholder_of_def id_char_def is_digit_def)
qed

lemma sublist_filter_length: "sublist x p \<Longrightarrow> list_all P x \<Longrightarrow> length x \<le> length (filter P p)"
  by (auto simp: sublist_def list_all_iff)

text \<open>A match of an address, a key or an e-mail has a character that no placeholder has; the other matches are long rows of digits.\<close>

lemma regex_kinds:
  "rx_has (\<lambda>c. \<not> token_char c) (pii_regex ty) \<or> 11 \<le> rx_min (pii_regex ty) \<and> (\<forall>c. rx_chars (pii_regex ty) c \<longrightarrow> id_char c)"
proof -
  have t: "\<not> token_char CHR ''@''" "\<not> token_char CHR ''.''" "\<not> token_char CHR ''s''" "\<not> token_char CHR ''a''" "\<not> token_char CHR ''g''"
    by (simp_all add: token_char_def is_upper_def is_digit_def)
  have "11 \<le> rx_min re_phone \<and> (\<forall>c. rx_chars re_phone c \<longrightarrow> id_char c)"
    by (auto simp: re_phone_def one_def in_range_def id_char_def is_digit_def)
  moreover have "11 \<le> rx_min re_id_card \<and> (\<forall>c. rx_chars re_id_card c \<longrightarrow> id_char c)"
    by (auto simp: re_id_card_def one_def in_range_def id_char_def is_digit_def)
  moreover have "11 \<le> rx_min re_bank_card \<and> (\<forall>c. rx_chars re_bank_card c \<longrightarrow> id_char c)"
    by (auto simp: re_bank_card_def id_char_def)
  moreover have "rx_has (\<lambda>c. \<not> token_char c) re_email" using t by (simp add: re_email_def)
  moreover have "rx_has (\<lambda>c. \<not> token_char c) re_ip" using t by (simp add: re_ip_def)
  moreover have "rx_has (\<lambda>c. \<not> token_char c) re_api_key" using t by (simp add: re_api_key_def)
  ultimately show ?thesis by (cases ty) simp_all
qed

lemma regex_no_bracket: "\<not> rx_chars (pii_regex ty) CHR ''['' \<and> \<not> rx_chars (pii_regex ty) CHR '']''"
  by (cases ty) (simp_all add: re_phone_def re_id_card_def re_bank_card_def re_email_def re_api_key_def re_ip_def one_def
      in_range_def is_alnum_def is_digit_def is_upper_def is_lower_def)

lemma regexec_whole_match:
  assumes "regexec (pii_regex ty) s = Some (so, eo)"
  shows "whole_match (take (eo - so) (drop so s))"
proof -
  let ?x = "take (eo - so) (drop so s)"
  note R = regexec_Some [OF assms]
  have len: "length ?x = eo - so" using R(1-3) by simp
  have mn: "rx_min (pii_regex ty) \<le> eo - so" by (rule rx_lens_min [OF R(4)])
  have ch: "rx_chars (pii_regex ty) c" if "c \<in> set ?x" for c by (rule rx_lens_chars [OF R(4) that])
  have ne: "?x \<noteq> []" using len mn rx_min_regex [of ty] by (metis le_zero_eq less_irrefl list.size(3))
  have sub: "\<not> sublist ?x (placeholder_of ty' n)" if n: "n \<le> 64" for ty' n
  proof
    assume sb: "sublist ?x (placeholder_of ty' n)"
    from regex_kinds [of ty] show False
    proof
      assume "rx_has (\<lambda>c. \<not> token_char c) (pii_regex ty)"
      from rx_lens_has [OF R(4) this] obtain c where "c \<in> set ?x" "\<not> token_char c" by blast
      moreover have "set ?x \<subseteq> set (placeholder_of ty' n)" using sb by (rule set_mono_sublist)
      ultimately show False using placeholder_chars [of ty' n] by (auto simp: list_all_iff)
    next
      assume d: "11 \<le> rx_min (pii_regex ty) \<and> (\<forall>c. rx_chars (pii_regex ty) c \<longrightarrow> id_char c)"
      then have "list_all id_char ?x" using ch by (auto simp: list_all_iff)
      from sublist_filter_length [OF sb this] placeholder_few_digits [OF n, of ty'] len mn d show False by simp
    qed
  qed
  have "CHR ''['' \<notin> set ?x" "CHR '']'' \<notin> set ?x" using ch regex_no_bracket [of ty] by metis+
  with ne sub show ?thesis unfolding whole_match_def by blast
qed

section \<open>A pass\<close>

lemma whole_match_append: "whole_match x \<Longrightarrow> CHR ''['' \<notin> set y \<Longrightarrow> CHR '']'' \<notin> set y \<Longrightarrow> whole_match (x @ y)"
proof -
  assume a: "whole_match x" "CHR ''['' \<notin> set y" "CHR '']'' \<notin> set y"
  have "sublist x p" if "sublist (x @ y) p" for p
    using that unfolding sublist_def by (metis append.assoc)
  with a show ?thesis by (auto simp: whole_match_def)
qed

lemma takeWhile_no_bracket:
  assumes "\<not> P CHR ''[''" "\<not> P CHR '']''"
  shows "CHR ''['' \<notin> set (takeWhile P s)" "CHR '']'' \<notin> set (takeWhile P s)"
  using assms by (auto dest: set_takeWhileD)

text \<open>Copying some bytes cuts no placeholder.\<close>

lemma classify_Copy_cases:
  "pii_classify re ty boundary checksum cursor = Copy k \<Longrightarrow> regexec re cursor = Some (so, eo) \<Longrightarrow>
    k = eo + length (takeWhile is_digit (drop eo cursor)) \<or> k = so + 1 \<or>
    k = eo + length (takeWhile id_char (drop eo cursor)) \<or> k = eo"
  by (simp add: pii_classify_def Let_def split: if_splits)

lemma copy_splits:
  assumes c: "pii_classify (pii_regex ty) ty boundary checksum cursor = Copy k" and r: "renders m cursor q" and wf: "wf_map m"
  shows "\<exists>qa qb. renders m (take k cursor) qa \<and> renders m (drop k cursor) qb \<and> q = qa @ qb"
proof -
  from c obtain so eo where m: "regexec (pii_regex ty) cursor = Some (so, eo)"
    by (auto simp: pii_classify_def split: option.splits)
  note R = regexec_Some [OF m]
  let ?x = "take (eo - so) (drop so cursor)"
  note wm = regexec_whole_match [OF m]
  have longer: ?thesis if y: "y = takeWhile P (drop eo cursor)" "\<not> P CHR ''[''" "\<not> P CHR '']''" "k = eo + length y" for y P
  proof -
    have "cursor = take so cursor @ (?x @ y) @ drop k cursor"
    proof -
      have "drop eo cursor = y @ drop (length y) (drop eo cursor)" unfolding y(1) by (metis append_eq_conv_conj takeWhile_dropWhile_id)
      moreover have "cursor = take so cursor @ ?x @ drop eo cursor" using R(2) by (metis append.assoc append_take_drop_id le_add_diff_inverse take_add)
      ultimately show ?thesis using y(4) by (simp add: add.commute)
    qed
    moreover have "whole_match (?x @ y)" using whole_match_append [OF wm] takeWhile_no_bracket [of P] y(1-3) by simp
    ultimately obtain qa qb where s: "renders m (take so cursor) qa" "renders m (drop k cursor) qb" "q = qa @ (?x @ y) @ qb"
      using renders_split [OF r wf] by metis
    have "renders m (?x @ y) (?x @ y)" using \<open>whole_match (?x @ y)\<close> unfolding whole_match_def by (blast intro: renders_plain)
    with s(1) have "renders m (take so cursor @ ?x @ y) (qa @ ?x @ y)" by (metis renders_append)
    moreover have "take k cursor = take so cursor @ ?x @ y"
      using \<open>cursor = take so cursor @ (?x @ y) @ drop k cursor\<close> by (metis append.assoc append_same_eq append_take_drop_id)
    ultimately show ?thesis using s(2,3) by (intro exI [of _ "qa @ ?x @ y"] exI [of _ qb]) simp
  qed
  have d: "\<not> is_digit CHR ''[''" "\<not> is_digit CHR '']''" "\<not> id_char CHR ''[''" "\<not> id_char CHR '']''"
    by (simp_all add: is_digit_def id_char_def)
  from classify_Copy_cases [OF c m] show ?thesis
  proof (elim disjE)
    assume "k = eo + length (takeWhile is_digit (drop eo cursor))"
    from longer [OF refl d(1,2) this] show ?thesis .
  next
    assume "k = eo + length (takeWhile id_char (drop eo cursor))"
    from longer [OF refl d(3,4) this] show ?thesis .
  next
    assume "k = eo"
    moreover have "takeWhile (\<lambda>_. False) (drop eo cursor) = []" by (cases "drop eo cursor") simp_all
    ultimately have "k = eo + length (takeWhile (\<lambda>_. False) (drop eo cursor))" by simp
    from longer [OF refl _ _ this] show ?thesis by simp
  next
    assume k: "k = so + 1"
    have "cursor = take so cursor @ ?x @ drop eo cursor" using R(2) by (metis append.assoc append_take_drop_id le_add_diff_inverse take_add)
    from renders_split [OF r wf this wm] obtain qa qb
      where s: "renders m (take so cursor) qa" "renders m (drop eo cursor) qb" "q = qa @ ?x @ qb" by blast
    obtain h x' where x: "?x = h # x'" using wm by (cases ?x) (auto simp: whole_match_def)
    have nb: "CHR ''['' \<notin> set (h # x')" using wm unfolding whole_match_def x by blast
    have cur: "cursor = take so cursor @ [h] @ (x' @ drop eo cursor)"
      using \<open>cursor = take so cursor @ ?x @ drop eo cursor\<close> x by simp
    have ls: "length (take so cursor) = so" using R(1) by simp
    have "take k cursor = take so cursor @ [h]"
      unfolding k by (metis append.assoc append_eq_conv_conj cur length_append_singleton ls Suc_eq_plus1)
    moreover have "drop k cursor = x' @ drop eo cursor"
      unfolding k by (metis append.assoc append_eq_conv_conj cur length_append_singleton ls Suc_eq_plus1)
    moreover have "renders m (take so cursor @ [h]) (qa @ [h])" using s(1) nb by (intro renders_append renders_plain) auto
    moreover have "renders m (x' @ drop eo cursor) (x' @ qb)" using s(2) nb by (intro renders_append renders_plain) auto
    ultimately show ?thesis using s(3) x by auto
  qed
qed

text \<open>The map only grows.\<close>

lemma pii_replacement_map:
  "pii_replacement ty action (Some m) x = (m', repl) \<Longrightarrow> \<exists>es. m' = Some (m @ es)"
  by (auto simp: pii_replacement_def pii_session_map_get_or_create_def Let_def split: pii_action.splits option.splits if_splits)

lemma pii_append_frame: "pii_append ok s st = Buf_Done st' \<Longrightarrow> ps_map st' = ps_map st \<and> ps_any st' = ps_any st \<and> ps_out st' = ps_out st @ s"
  by (auto simp: pii_append_def Let_def buf_write_def split: if_splits)

lemma pii_loop_map:
  "pii_loop n ok re ty action boundary checksum cursor st = Some (st', r) \<Longrightarrow> ps_map st = Some m \<Longrightarrow> \<exists>es. ps_map st' = Some (m @ es)"
proof (induction n ok re ty action boundary checksum cursor st arbitrary: m rule: pii_loop.induct)
  case (2 n ok re ty action boundary checksum cursor st)
  show ?case
  proof (cases "cursor = []")
    case True
    with 2(3,4) show ?thesis by auto
  next
    case ne: False
    show ?thesis
    proof (cases "pii_classify re ty boundary checksum cursor")
      case Copy_Rest
      with ne 2(3,4) show ?thesis by (auto split: buf_result.splits dest: pii_append_frame)
    next
      case (Copy k)
      show ?thesis
      proof (cases "pii_append ok (take k cursor) st")
        case (Buf_Done st1)
        with ne Copy 2(3) have "pii_loop n ok re ty action boundary checksum (drop k cursor) st1 = Some (st', r)" by simp
        from 2(1) [OF ne Copy Buf_Done this] pii_append_frame [OF Buf_Done] 2(4) show ?thesis by simp
      qed (use ne Copy 2(3,4) in auto)
    next
      case (Found so eo)
      obtain m1 repl where rp: "pii_replacement ty action (ps_map st) (take (eo - so) (drop so cursor)) = (m1, repl)" by fastforce
      with 2(4) obtain es where es: "m1 = Some (m @ es)" using pii_replacement_map by metis
      let ?st1 = "st\<lparr>ps_map := m1, ps_action := if action_rank action > action_rank (ps_action st) then action else ps_action st\<rparr>"
      show ?thesis
      proof (cases "pii_append ok (take so cursor @ repl) ?st1")
        case (Buf_Done st2)
        with ne Found rp 2(3)
        have "pii_loop n ok re ty action boundary checksum (drop eo cursor) (st2\<lparr>ps_any := True\<rparr>) = Some (st', r)" by (simp add: Let_def)
        from 2(2) [OF ne Found refl rp [symmetric] refl Buf_Done this, of "m @ es"] pii_append_frame [OF Buf_Done] es show ?thesis by auto
      qed (use ne Found rp es 2(3) in \<open>auto simp: Let_def\<close>)
    qed
  qed
qed simp

text \<open>Replacing a match by its placeholder.\<close>

lemma anonymize_match:
  assumes wf: "wf_map m" and x: "x \<noteq> []" "length x < 128"
    and rp: "pii_replacement ty PII_ACTION_ANONYMIZE_RESTORE (Some m) x = (Some m', repl)" and room: "length m' < 64"
  shows "wf_map m' \<and> set m \<subseteq> set m' \<and> renders m' repl x"
proof -
  obtain m1 t where g: "pii_session_map_get_or_create m ty x = (m1, t)" by fastforce
  from get_or_create_cases [OF wf x g] show ?thesis
  proof (elim disjE conjE bexE)
    assume "m1 = m" "t = None" "64 \<le> length m"
    with g rp room show ?thesis by (simp add: pii_replacement_def)
  next
    fix e assume e: "wf_map m1" "prefix m m1" "e \<in> set m1" "pe_original e = x" "t = Some (pe_placeholder e)"
    obtain k where k: "k \<le> 64" "pe_placeholder e = placeholder_of (pe_type e) k" using wf_map_entry(1) [OF e(1,3)] by blast
    have "length (pe_placeholder e) < 32" using length_placeholder [OF k(1)] k(2) by simp
    with g rp e(5) have "m' = m1" "repl = pe_placeholder e" by (simp_all add: pii_replacement_def)
    moreover have "renders m1 (pe_placeholder e) x"
      using renders.renders_token [OF e(3) renders.renders_Nil] e(4) by simp
    ultimately show ?thesis using e(1,2) set_mono_prefix by auto
  qed
qed

lemma pii_loop_renders:
  assumes "pii_loop n ok (pii_regex ty) ty PII_ACTION_ANONYMIZE_RESTORE boundary checksum cursor st = Some (st', Buf_Done ())"
    and "ps_map st = Some m" "ps_map st' = Some m'" "length m' < 64" "wf_map m"
    and "renders m (ps_out st) q1" "renders m cursor q2"
  shows "wf_map m' \<and> set m \<subseteq> set m' \<and> renders m' (ps_out st') (q1 @ q2)"
  using assms
proof (induction n arbitrary: cursor st m q1 q2)
  case (Suc n)
  note wf = Suc.prems(5)
  show ?case
  proof (cases "cursor = []")
    case True
    with Suc.prems(1-3) have "st' = st" "m' = m" by auto
    moreover have "q2 = []" using renders_restore [OF Suc.prems(7) wf] True by simp
    ultimately show ?thesis using wf Suc.prems(6) by simp
  next
    case ne: False
    show ?thesis
    proof (cases "pii_classify (pii_regex ty) ty boundary checksum cursor")
      case Copy_Rest
      with ne Suc.prems(1) have "pii_append ok cursor st = Buf_Done st'" by (auto split: buf_result.splits)
      with pii_append_frame [of ok cursor st st'] Suc.prems(2,3) wf renders_append [OF Suc.prems(6,7)] show ?thesis by auto
    next
      case (Copy k)
      with ne Suc.prems(1) obtain st1 where st1: "pii_append ok (take k cursor) st = Buf_Done st1"
        "pii_loop n ok (pii_regex ty) ty PII_ACTION_ANONYMIZE_RESTORE boundary checksum (drop k cursor) st1 = Some (st', Buf_Done ())"
        by (auto split: buf_result.splits)
      note fr = pii_append_frame [OF st1(1)]
      obtain qa qb where q: "renders m (take k cursor) qa" "renders m (drop k cursor) qb" "q2 = qa @ qb"
        using copy_splits [OF Copy Suc.prems(7) wf] by blast
      have "renders m (ps_out st1) (q1 @ qa)" using renders_append [OF Suc.prems(6) q(1)] fr by simp
      from Suc.IH [OF st1(2) _ Suc.prems(3,4) wf this q(2)] fr Suc.prems(2) q(3) show ?thesis by simp
    next
      case (Found so eo)
      let ?x = "take (eo - so) (drop so cursor)"
      note f = classify_Found [OF Found]
      note R = regexec_Some [OF f(1)]
      have wm: "whole_match ?x" by (rule regexec_whole_match [OF f(1)])
      have x: "?x \<noteq> []" "length ?x < 128" using wm f(2) by (auto simp: whole_match_def)
      obtain m1 repl where rp: "pii_replacement ty PII_ACTION_ANONYMIZE_RESTORE (Some m) ?x = (Some m1, repl)"
        using pii_replacement_map by (metis surj_pair)
      let ?st1 = "st\<lparr>ps_map := Some m1,
        ps_action := if action_rank PII_ACTION_ANONYMIZE_RESTORE > action_rank (ps_action st) then PII_ACTION_ANONYMIZE_RESTORE else ps_action st\<rparr>"
      obtain st2 where st2: "pii_append ok (take so cursor @ repl) ?st1 = Buf_Done st2"
        "pii_loop n ok (pii_regex ty) ty PII_ACTION_ANONYMIZE_RESTORE boundary checksum (drop eo cursor) (st2\<lparr>ps_any := True\<rparr>) = Some (st', Buf_Done ())"
        using ne Found Suc.prems(1,2) rp by (auto simp: Let_def split: buf_result.splits)
      note fr = pii_append_frame [OF st2(1)]
      have m2: "ps_map (st2\<lparr>ps_any := True\<rparr>) = Some m1" using fr by simp
      obtain es where "m' = m1 @ es" using pii_loop_map [OF st2(2) m2] Suc.prems(3) by auto
      then have "length m1 < 64" using Suc.prems(4) by simp
      note an = anonymize_match [OF wf x rp this]
      have cur: "cursor = take so cursor @ ?x @ drop eo cursor" using R(2) by (metis append.assoc append_take_drop_id le_add_diff_inverse take_add)
      obtain qa qb where q: "renders m (take so cursor) qa" "renders m (drop eo cursor) qb" "q2 = qa @ ?x @ qb"
        using renders_split [OF Suc.prems(7) wf cur wm] by blast
      have mono: "renders m1 s r" if "renders m s r" for s r using renders_mono [OF that] an by blast
      have "renders m1 (ps_out (st2\<lparr>ps_any := True\<rparr>)) ((q1 @ qa) @ ?x)"
        using fr renders_append [OF renders_append [OF mono [OF Suc.prems(6)] mono [OF q(1)]]] an by simp
      from Suc.IH [OF st2(2) m2 Suc.prems(3,4) _ this mono [OF q(2)]] an q(3) show ?thesis by auto
    qed
  qed
qed simp

section \<open>All passes\<close>

definition anonymous_action :: "pii_action \<Rightarrow> bool" where
  "anonymous_action a \<longleftrightarrow> a = PII_ACTION_OFF \<or> a = PII_ACTION_ANONYMIZE_RESTORE"

text \<open>What holds between two passes: the text of the flow renders the original one.\<close>

definition flow_renders :: "pii_flow \<Rightarrow> string \<Rightarrow> bool" where
  "flow_renders fl input \<longleftrightarrow> (\<exists>m s. pf_map fl = Some m \<and> pf_text fl = Some s \<and> (length m < 64 \<longrightarrow> wf_map m \<and> renders m s input))"

lemma replace_entity_renders:
  assumes fl: "flow_renders fl input" and ok: "\<forall>n. ok n" and act: "anonymous_action action"
  shows "\<exists>fl'. replace_entity_regex ok ty action boundary checksum fl = Some (Buf_Done fl') \<and> flow_renders fl' input \<and>
    (\<not> pf_changed fl' \<longrightarrow> pf_text fl' = pf_text fl \<and> \<not> pf_changed fl)"
proof -
  obtain m s where fl': "pf_map fl = Some m" "pf_text fl = Some s" "length m < 64 \<longrightarrow> wf_map m \<and> renders m s input"
    using fl by (auto simp: flow_renders_def)
  have dup: "cstrdup ok s = Some s" using ok by (simp add: cstrdup_def)
  show ?thesis
  proof (cases "action = PII_ACTION_OFF")
    case True
    then have "replace_entity_regex ok ty action boundary checksum fl = Some (Buf_Done (fl\<lparr>pf_text := Some s\<rparr>))"
      using fl'(2) dup by (simp add: replace_entity_regex_def Let_def)
    moreover have "fl\<lparr>pf_text := Some s\<rparr> = fl" using fl'(2) by simp
    ultimately show ?thesis using fl by simp
  next
    case False
    with act have act': "action = PII_ACTION_ANONYMIZE_RESTORE" by (simp add: anonymous_action_def)
    let ?st = "\<lparr>ps_out = [], ps_cap = length s + 128, ps_any = False, ps_map = pf_map fl, ps_action = pf_action fl\<rparr>"
    have room: "length (ps_out ?st) < ps_cap ?st" by simp
    from pii_loop_total [OF rx_min_regex [of ty] _ room, of s "Suc (length s)" ok ty action boundary checksum] ok
    obtain st' where st': "pii_loop (Suc (length s)) ok (pii_regex ty) ty action boundary checksum s ?st = Some (st', Buf_Done ())"
      "length (ps_out st') < ps_cap st'" by auto
    have mp: "ps_map ?st = Some m" using fl'(1) by simp
    obtain es where es: "ps_map st' = Some (m @ es)" using pii_loop_map [OF st'(1) mp] by blast
    have w: "buf_write (ps_cap st') (ps_out st') [CHR 0x00] = Some (ps_out st' @ [CHR 0x00])" using st'(2) by (simp add: buf_write_def)
    let ?fl = "fl\<lparr>pf_text := Some s, pf_map := ps_map st', pf_action := ps_action st'\<rparr>"
    let ?fl' = "if ps_any st' then ?fl\<lparr>pf_text := Some (ps_out st'), pf_changed := True\<rparr> else ?fl"
    have r: "replace_entity_regex ok ty action boundary checksum fl = Some (Buf_Done ?fl')"
      using False fl'(2) dup ok st'(1) w by (simp add: replace_entity_regex_def Let_def)
    have keep: "renders (m @ es) (ps_out st') input \<and> wf_map (m @ es) \<and> renders (m @ es) s input" if l: "length (m @ es) < 64"
    proof -
      have a: "wf_map m" "renders m s input" using fl'(3) l by simp_all
      have "renders m (ps_out ?st) []" by (simp add: renders.renders_Nil)
      from pii_loop_renders [OF st'(1) [unfolded act'] mp es l a(1) this a(2)]
      have "wf_map (m @ es)" "renders (m @ es) (ps_out st') input" by simp_all
      moreover have "renders (m @ es) s input" by (rule renders_mono [OF a(2)]) simp
      ultimately show ?thesis by blast
    qed
    have "flow_renders ?fl' input" using keep es by (auto simp: flow_renders_def)
    moreover have "\<not> pf_changed ?fl' \<longrightarrow> pf_text ?fl' = pf_text fl \<and> \<not> pf_changed fl" using fl'(2) by simp
    ultimately show ?thesis using r by blast
  qed
qed

lemma pii_passes_render:
  assumes "flow_renders fl input" "\<forall>n. ok n" "\<forall>p \<in> set ps. anonymous_action (fst (snd p))"
  shows "\<exists>fl'. pii_passes ok ps fl = Some (Buf_Done fl') \<and> flow_renders fl' input \<and>
    (\<not> pf_changed fl' \<longrightarrow> pf_text fl' = pf_text fl \<and> \<not> pf_changed fl)"
  using assms
proof (induction ps arbitrary: fl)
  case Nil
  then show ?case by auto
next
  case (Cons p ps)
  obtain ty action boundary checksum where p: "p = (ty, action, boundary, checksum)" by (cases p)
  have act: "anonymous_action action" using Cons.prems(3) p by simp
  from replace_entity_renders [OF Cons.prems(1,2) act, of ty boundary checksum] obtain fl1
    where fl1: "replace_entity_regex ok ty action boundary checksum fl = Some (Buf_Done fl1)" "flow_renders fl1 input"
      "\<not> pf_changed fl1 \<longrightarrow> pf_text fl1 = pf_text fl \<and> \<not> pf_changed fl" by blast
  from Cons.IH [OF fl1(2) Cons.prems(2)] Cons.prems(3) obtain fl2
    where "pii_passes ok ps fl1 = Some (Buf_Done fl2)" "flow_renders fl2 input"
      "\<not> pf_changed fl2 \<longrightarrow> pf_text fl2 = pf_text fl1 \<and> \<not> pf_changed fl1" by auto
  with fl1(1,3) p show ?case by auto
qed

text \<open>C8. Anonymisation can be undone: when the rules that are on anonymise and memory is at hand, the passes over a text without an
  opening bracket end with a text, and restoring that text with the session map gives the original one,
  unless the map of the session has filled up.\<close>

theorem pii_roundtrip:
  assumes "\<forall>ty. anonymous_action (rule_action cfg ty)" "\<forall>n. ok n" "CHR ''['' \<notin> set input" "wf_map m"
  shows "\<exists>fl m'. guardrails_transform_pii_text ok cfg input (Some m) = Some (Buf_Done fl) \<and> pf_map fl = Some m' \<and>
    (length m' < 64 \<longrightarrow> restore_spec m' (case pf_text fl of Some s \<Rightarrow> s | None \<Rightarrow> input) = input)"
proof (cases "input = []")
  case True
  then show ?thesis by (simp add: guardrails_transform_pii_text_def)
next
  case False
  let ?fl = "\<lparr>pf_text = Some input, pf_map = Some m, pf_action = PII_ACTION_OFF, pf_changed = False\<rparr>"
  have "flow_renders ?fl input" using assms(4) renders_plain [OF assms(3)] by (simp add: flow_renders_def)
  moreover have "\<forall>p \<in> set (transform_passes cfg). anonymous_action (fst (snd p))" using assms(1) by (simp add: transform_passes_def)
  ultimately obtain fl' where fl': "pii_passes ok (transform_passes cfg) ?fl = Some (Buf_Done fl')" "flow_renders fl' input"
    "\<not> pf_changed fl' \<longrightarrow> pf_text fl' = Some input" using pii_passes_render [of ?fl input ok "transform_passes cfg"] assms(2) by auto
  obtain m' s where m': "pf_map fl' = Some m'" "pf_text fl' = Some s" "length m' < 64 \<longrightarrow> wf_map m' \<and> renders m' s input"
    using fl'(2) by (auto simp: flow_renders_def)
  have "guardrails_transform_pii_text ok cfg input (Some m) = Some (Buf_Done (pii_result fl'))"
    using False fl'(1) by (simp add: guardrails_transform_pii_text_def)
  moreover have "pf_map (pii_result fl') = Some m'" using m'(1) by (simp add: pii_result_def)
  moreover have "(case pf_text (pii_result fl') of Some s \<Rightarrow> s | None \<Rightarrow> input) = s"
    using m'(2) fl'(3) by (simp add: pii_result_def)
  ultimately show ?thesis using m'(3) renders_restore by auto
qed

definition anonymous_config :: pii_config where
  "anonymous_config = (\<lambda>_. \<lparr>pii_enabled = True, pii_rule_action = PII_ACTION_ANONYMIZE_RESTORE\<rparr>)"

lemma pii_roundtrip_witness:
  "\<exists>fl m'. guardrails_transform_pii_text (\<lambda>_. True) anonymous_config ''mail a.b@x.org'' (Some []) = Some (Buf_Done fl) \<and>
    pf_map fl = Some m' \<and> (length m' < 64 \<longrightarrow> restore_spec m' (case pf_text fl of Some s \<Rightarrow> s | None \<Rightarrow> ''mail a.b@x.org'') = ''mail a.b@x.org'')"
  using pii_roundtrip [of anonymous_config "\<lambda>_. True" "''mail a.b@x.org''" "[]"]
  by (simp add: anonymous_config_def rule_action_def anonymous_action_def)

end
