(* ===== verification/Pii_Detect.thy ===== *)
theory Pii_Detect
  imports Pii_Match
begin

text \<open>
  What the passes cannot miss and what they do: a telephone or card number between other characters than
  digits is always noticed; a key of more than 127 characters and the project keys that the masks know are not.
\<close>

section \<open>Noticing\<close>

lemma pii_append_any: "pii_append ok s st = Buf_Done st' \<Longrightarrow> ps_any st' = ps_any st"
  by (auto simp: pii_append_def Let_def buf_write_def split: if_splits)

lemma pii_loop_any:
  "pii_loop n ok re ty action boundary checksum cursor st = Some (st', r) \<Longrightarrow> ps_any st \<Longrightarrow> ps_any st'"
proof (induction n ok re ty action boundary checksum cursor st rule: pii_loop.induct)
  case (2 n ok re ty action boundary checksum cursor st)
  show ?case
  proof (cases "cursor = []")
    case True
    with 2(3,4) show ?thesis by auto
  next
    case ne: False
    show ?thesis
    proof (cases "pii_classify re ty boundary checksum cursor")
      case Copy_Rest
      with ne 2(3,4) show ?thesis by (auto split: buf_result.splits dest: pii_append_any)
    next
      case (Copy k)
      show ?thesis
      proof (cases "pii_append ok (take k cursor) st")
        case (Buf_Done st1)
        with ne Copy 2(3) have "pii_loop n ok re ty action boundary checksum (drop k cursor) st1 = Some (st', r)" by simp
        from 2(1) [OF ne Copy Buf_Done this] pii_append_any [OF Buf_Done] 2(4) show ?thesis by simp
      qed (use ne Copy 2(3,4) in auto)
    next
      case (Found so eo)
      obtain m1 repl where rp: "pii_replacement ty action (ps_map st) (take (eo - so) (drop so cursor)) = (m1, repl)" by fastforce
      let ?st1 = "st\<lparr>ps_map := m1, ps_action := if action_rank action > action_rank (ps_action st) then action else ps_action st\<rparr>"
      show ?thesis
      proof (cases "pii_append ok (take so cursor @ repl) ?st1")
        case (Buf_Done st2)
        with ne Found rp 2(3)
        have "pii_loop n ok re ty action boundary checksum (drop eo cursor) (st2\<lparr>ps_any := True\<rparr>) = Some (st', r)" by (simp add: Let_def)
        from 2(2) [OF ne Found refl rp [symmetric] refl Buf_Done this] show ?thesis by simp
      qed (use ne Found rp 2(3,4) in \<open>auto simp: Let_def\<close>)
    qed
  qed
qed simp

text \<open>A number that the pass accepts as a whole: it is what the pattern matches there, and its checksum holds.\<close>

definition number_of :: "pii_type \<Rightarrow> string \<Rightarrow> bool" where
  "number_of ty p \<longleftrightarrow> list_all is_digit p \<and>
     (ty = PII_TYPE_PHONE \<and> rx_lens re_phone p \<noteq> [] \<and> length p = 11 \<or>
      ty = PII_TYPE_BANK_CARD \<and> guardrails_validate_luhn p)"

definition no_digit_at_end :: "string \<Rightarrow> bool" where
  "no_digit_at_end a \<longleftrightarrow> a = [] \<or> \<not> is_digit (last a)"

definition no_digit_at_start :: "string \<Rightarrow> bool" where
  "no_digit_at_start b \<longleftrightarrow> b = [] \<or> \<not> is_digit (hd b)"

lemma lens_Seq: "n \<in> set (rx_lens (Seq a b) s) \<longleftrightarrow> (\<exists>m k. m \<in> set (rx_lens a s) \<and> k \<in> set (rx_lens b (drop m s)) \<and> n = m + k)"
  by auto

lemma lens_Alt: "n \<in> set (rx_lens (Alt a b) s) \<longleftrightarrow> n \<in> set (rx_lens a s) \<or> n \<in> set (rx_lens b s)"
  by auto

lemma lens_exact: "n \<in> set (rx_lens (Run P k (Some k)) s) \<longleftrightarrow> n = k \<and> k \<le> length (takeWhile P s)"
  by (auto simp: Let_def)

lemma lens_from: "n \<in> set (rx_lens (Run P k None) s) \<longleftrightarrow> k \<le> n \<and> n \<le> length (takeWhile P s)"
  by (auto simp: Let_def)

lemma lens_Nil_iff: "rx_lens re s = [] \<longleftrightarrow> (\<forall>n. n \<notin> set (rx_lens re s))"
  by (cases "rx_lens re s") auto

lemmas lens_rules = lens_Seq lens_Alt lens_exact lens_from

declare rx_lens.simps [simp del]

lemma phone_lens: "n \<in> set (rx_lens re_phone s) \<Longrightarrow> n = 11"
  by (auto simp: re_phone_def one_def lens_rules)

lemma phone_lens_iff:
  "11 \<in> set (rx_lens re_phone (c1 # c2 # q)) \<longleftrightarrow> c1 = CHR ''1'' \<and> in_range (CHR ''3'') (CHR ''9'') c2 \<and> 9 \<le> length (takeWhile is_digit q)"
  by (auto simp: re_phone_def one_def lens_rules)

lemma phone_lens_append:
  assumes "rx_lens re_phone p \<noteq> []" "list_all is_digit p" "length p = 11"
  shows "11 \<in> set (rx_lens re_phone (p @ b))"
proof -
  obtain c1 c2 q where p: "p = c1 # c2 # q" "length q = 9" using assms(3) by (auto simp: length_Suc_conv numeral_eq_Suc)
  have q: "takeWhile is_digit (q @ b) = q @ takeWhile is_digit b" using assms(2) p by (simp add: list_all_iff takeWhile_append)
  obtain n where n: "n \<in> set (rx_lens re_phone p)" using assms(1) lens_Nil_iff by metis
  with phone_lens [OF n] have "11 \<in> set (rx_lens re_phone (c1 # c2 # q))" using p(1) by metis
  then have "11 \<in> set (rx_lens re_phone (c1 # c2 # (q @ b)))" unfolding phone_lens_iff q using p(2) by simp
  then show ?thesis using p(1) by simp
qed

lemma number_lens:
  assumes "number_of ty p" "no_digit_at_start b"
  shows "length p \<in> set (rx_lens (pii_regex ty) (p @ b)) \<and> (\<forall>n \<in> set (rx_lens (pii_regex ty) (p @ b)). n \<le> length p) \<and>
    0 < length p \<and> length p < 128"
proof -
  have d: "list_all is_digit p" using assms(1) by (simp add: number_of_def)
  have tw: "takeWhile is_digit (p @ b) = p"
    using d assms(2) by (cases b) (auto simp: no_digit_at_start_def list_all_iff takeWhile_append)
  from assms(1) consider "ty = PII_TYPE_PHONE" "rx_lens re_phone p \<noteq> []" "length p = 11"
    | "ty = PII_TYPE_BANK_CARD" "guardrails_validate_luhn p" by (auto simp: number_of_def)
  then show ?thesis
  proof cases
    case 1
    have "\<forall>n \<in> set (rx_lens re_phone (p @ b)). n \<le> length p" using phone_lens 1(3) by (metis order_refl)
    with phone_lens_append [OF 1(2) d 1(3), of b] 1(1,3) show ?thesis by simp
  next
    case 2
    then have "13 \<le> length p \<and> length p \<le> 19" by (simp_all add: guardrails_validate_luhn_def)
    moreover from this have "p \<noteq> []" by auto
    ultimately show ?thesis using 2(1) tw by (simp add: re_bank_card_def rx_lens.simps Let_def)
  qed
qed

lemma number_chars: "number_of ty p \<Longrightarrow> rx_chars (pii_regex ty) c \<Longrightarrow> is_digit c"
  by (auto simp: number_of_def re_phone_def re_bank_card_def one_def in_range_def is_digit_def)

lemma number_classify:
  assumes num: "number_of ty p" and b: "no_digit_at_start b" and a: "no_digit_at_end a"
  shows "pii_classify (pii_regex ty) ty boundary checksum (a @ p @ b) = Found (length a) (length a + length p) \<or>
    (\<exists>so eo a'. pii_classify (pii_regex ty) ty boundary checksum (a @ p @ b) = Found so eo \<and> so \<le> eo \<and> eo \<le> length a \<and>
      drop eo (a @ p @ b) = a' @ p @ b \<and> a = take eo a @ a' \<and> no_digit_at_end a') \<or>
    (\<exists>k a'. pii_classify (pii_regex ty) ty boundary checksum (a @ p @ b) = Copy k \<and> k \<le> length a \<and>
      drop k (a @ p @ b) = a' @ p @ b \<and> a = take k a @ a' \<and> no_digit_at_end a')"
proof -
  let ?s = "a @ p @ b"
  note L = number_lens [OF num b]
  have ne: "rx_lens (pii_regex ty) (drop (length a) ?s) \<noteq> []" using L by auto
  obtain so eo where m: "regexec (pii_regex ty) ?s = Some (so, eo)"
    using ne regexec_None [of "pii_regex ty" ?s "length a"] by (cases "regexec (pii_regex ty) ?s") auto
  note R = regexec_Some [OF m]
  have le: "so \<le> length a" using R(5) [of "length a"] ne by (meson not_le)
  show ?thesis
  proof (cases "so = length a")
    case True
    have e: "eo = length a + length p"
      using R(4) R(6) [of "length p"] L R(2) True by (auto simp: le_antisym)
    have "\<not> (0 < so \<and> is_digit (?s ! (so - 1)))"
      using a True by (cases "a = []") (auto simp: no_digit_at_end_def nth_append last_conv_nth)
    with e have "pii_classify (pii_regex ty) ty boundary checksum ?s = Found so eo"
      using m True b num L by (auto simp: pii_classify_def Let_def number_of_def no_digit_at_start_def)
    with e True show ?thesis by simp
  next
    case False
    then have lt: "so < length a" using le by simp
    then have la: "a \<noteq> []" "\<not> is_digit (a ! (length a - 1))"
      using a by (cases "a = []"; auto simp: no_digit_at_end_def last_conv_nth)+
    have digits: "is_digit (?s ! i)" if "so \<le> i" "i < eo" for i
    proof -
      have "?s ! i = drop so ?s ! (i - so)" using that(1) R(1) nth_drop [of so ?s "i - so"] by (metis le_add_diff_inverse)
      also have "\<dots> \<in> set (take (eo - so) (drop so ?s))" using that R(3)
        by (metis diff_less_mono in_set_conv_nth length_drop length_take min.absorb2 diff_le_mono nth_take)
      finally show ?thesis using rx_lens_chars [OF R(4)] number_chars [OF num] by blast
    qed
    have eo: "eo \<le> length a - 1"
    proof (rule ccontr)
      assume "\<not> eo \<le> length a - 1"
      then have "is_digit (?s ! (length a - 1))" using digits [of "length a - 1"] lt by simp
      with la show False by (simp add: nth_append)
    qed
    have tw: "length (takeWhile is_digit (drop eo ?s)) \<le> length a - 1 - eo"
    proof (rule ccontr)
      assume "\<not> ?thesis"
      then have l: "length a - 1 - eo < length (takeWhile is_digit (drop eo ?s))" by simp
      have "takeWhile is_digit (drop eo ?s) ! (length a - 1 - eo) = drop eo ?s ! (length a - 1 - eo)" by (rule takeWhile_nth [OF l])
      also have "\<dots> = ?s ! (length a - 1)" using eo R(3) nth_drop [of eo ?s "length a - 1 - eo"] by (metis le_add_diff_inverse)
      also have "\<dots> = a ! (length a - 1)" using la(1) by (simp add: nth_append)
      finally show False using l la(2) by (metis nth_mem set_takeWhileD)
    qed
    have rest: "\<exists>a'. drop k ?s = a' @ p @ b \<and> a = take k a @ a' \<and> no_digit_at_end a'" if "k \<le> length a" for k
    proof -
      have "drop k ?s = drop k a @ p @ b" using that by simp
      moreover have "no_digit_at_end (drop k a)" using a that unfolding no_digit_at_end_def by (cases "k = length a") auto
      ultimately show ?thesis by (metis append_take_drop_id)
    qed
    have "ty \<noteq> PII_TYPE_ID_CARD" "ty \<noteq> PII_TYPE_IP_ADDRESS" using num by (auto simp: number_of_def)
    then consider "pii_classify (pii_regex ty) ty boundary checksum ?s = Found so eo"
      | "pii_classify (pii_regex ty) ty boundary checksum ?s = Copy (eo + length (takeWhile is_digit (drop eo ?s)))"
      | "pii_classify (pii_regex ty) ty boundary checksum ?s = Copy (so + 1)"
      unfolding pii_classify_def by (simp only: m option.case prod.case Let_def) presburger
    then show ?thesis
    proof cases
      case 1
      have "eo \<le> length a" "so \<le> eo" using eo R(2) by simp_all
      from rest [OF this(1)] 1 this show ?thesis by blast
    next
      case 2
      have "eo + length (takeWhile is_digit (drop eo ?s)) \<le> length a" using tw eo by simp
      from rest [OF this] this 2 show ?thesis by blast
    next
      case 3
      have "so + 1 \<le> length a" using lt by simp
      from rest [OF this] this 3 show ?thesis by blast
    qed
  qed
qed

text \<open>
  What a pass makes of a text, as pairs of a part of the text and what is written for it: the part itself, or its
  replacement.
\<close>

definition pass_parts :: "pii_type \<Rightarrow> pii_action \<Rightarrow> (string \<times> string) list \<Rightarrow> string \<Rightarrow> string \<Rightarrow> bool" where
  "pass_parts ty action parts s out \<longleftrightarrow>
     concat (map fst parts) = s \<and> concat (map snd parts) = out \<and>
     (\<forall>(x, y) \<in> set parts. y = x \<or> (\<exists>m m'. pii_replacement ty action m x = (m', y)))"

lemma pass_parts_Nil [simp]: "pass_parts ty action [] [] []"
  by (simp add: pass_parts_def)

lemma pass_parts_keep: "pass_parts ty action parts s out \<Longrightarrow> pass_parts ty action ((x, x) # parts) (x @ s) (x @ out)"
  by (auto simp: pass_parts_def)

lemma pass_parts_replace:
  "pii_replacement ty action m x = (m', y) \<Longrightarrow> pass_parts ty action parts s out \<Longrightarrow>
    pass_parts ty action ((x, y) # parts) (x @ s) (y @ out)"
  by (auto simp: pass_parts_def)

lemma pii_append_out: "pii_append ok s st = Buf_Done st' \<Longrightarrow> ps_out st' = ps_out st @ s"
  by (auto simp: pii_append_def Let_def buf_write_def split: if_splits)

lemma pii_loop_parts:
  "pii_loop n ok re ty action boundary checksum cursor st = Some (st', Buf_Done ()) \<Longrightarrow>
    \<exists>parts out. ps_out st' = ps_out st @ out \<and> pass_parts ty action parts cursor out"
proof (induction n arbitrary: cursor st)
  case (Suc n)
  show ?case
  proof (cases "cursor = []")
    case True
    with Suc.prems have "ps_out st' = ps_out st @ []" by simp
    with True show ?thesis using pass_parts_Nil by blast
  next
    case ne: False
    show ?thesis
    proof (cases "pii_classify re ty boundary checksum cursor")
      case Copy_Rest
      with ne Suc.prems have "pii_append ok cursor st = Buf_Done st'" by (auto split: buf_result.splits)
      from pii_append_out [OF this] pass_parts_keep [OF pass_parts_Nil, of ty action cursor] show ?thesis by auto
    next
      case (Copy k)
      with ne Suc.prems obtain st1 where st1: "pii_append ok (take k cursor) st = Buf_Done st1"
        "pii_loop n ok re ty action boundary checksum (drop k cursor) st1 = Some (st', Buf_Done ())" by (auto split: buf_result.splits)
      from Suc.IH [OF st1(2)] obtain parts out where "ps_out st' = ps_out st1 @ out" "pass_parts ty action parts (drop k cursor) out" by blast
      with pii_append_out [OF st1(1)] pass_parts_keep [of ty action parts "drop k cursor" out "take k cursor"] show ?thesis by auto
    next
      case (Found so eo)
      let ?x = "take (eo - so) (drop so cursor)"
      obtain m1 repl where rp: "pii_replacement ty action (ps_map st) ?x = (m1, repl)" by fastforce
      let ?st1 = "st\<lparr>ps_map := m1, ps_action := if action_rank action > action_rank (ps_action st) then action else ps_action st\<rparr>"
      obtain st2 where st2: "pii_append ok (take so cursor @ repl) ?st1 = Buf_Done st2"
        "pii_loop n ok re ty action boundary checksum (drop eo cursor) (st2\<lparr>ps_any := True\<rparr>) = Some (st', Buf_Done ())"
        using ne Found Suc.prems rp by (auto simp: Let_def split: buf_result.splits)
      from Suc.IH [OF st2(2)] obtain parts out where o: "ps_out st' = ps_out st2 @ out" "pass_parts ty action parts (drop eo cursor) out" by auto
      have "cursor = take so cursor @ ?x @ drop eo cursor"
        using classify_Found(1) [OF Found] regexec_Some(2) by (metis append.assoc append_take_drop_id le_add_diff_inverse take_add)
      with pass_parts_keep [OF pass_parts_replace [OF rp o(2)], of "take so cursor"] pii_append_out [OF st2(1)] o(1)
      show ?thesis by (intro exI [of _ "(take so cursor, take so cursor) # (?x, repl) # parts"] exI [of _ "take so cursor @ repl @ out"]) auto
    qed
  qed
qed simp

text \<open>A number between other characters is a part of its own, and is replaced.\<close>

definition number_replaced :: "pii_type \<Rightarrow> pii_action \<Rightarrow> string \<Rightarrow> string \<Rightarrow> string \<Rightarrow> string \<Rightarrow> bool" where
  "number_replaced ty action a p b out \<longleftrightarrow>
     (\<exists>pa pb oa ob r m m'. out = oa @ r @ ob \<and> pass_parts ty action pa a oa \<and> pass_parts ty action pb b ob \<and>
        pii_replacement ty action m p = (m', r))"

lemma number_replaced_before:
  assumes "number_replaced ty action a' p b out" "pass_parts ty action pa a oa"
  shows "number_replaced ty action (a @ a') p b (oa @ out)"
proof -
  from assms(1) obtain pa' pb oa' ob r m m' where 1: "out = oa' @ r @ ob" "pass_parts ty action pa' a' oa'"
    "pass_parts ty action pb b ob" "pii_replacement ty action m p = (m', r)" by (auto simp: number_replaced_def)
  have "pass_parts ty action (pa @ pa') (a @ a') (oa @ oa')" using 1(2) assms(2) by (auto simp: pass_parts_def)
  with 1 show ?thesis unfolding number_replaced_def by (metis append.assoc)
qed

lemma pii_loop_number:
  assumes "number_of ty p" "no_digit_at_start b" "\<forall>n. ok n"
    and "pii_loop n ok (pii_regex ty) ty action boundary checksum (a @ p @ b) st = Some (st', Buf_Done ())" "no_digit_at_end a"
    and "length (ps_out st) < ps_cap st"
  shows "ps_any st' \<and> (\<exists>out. ps_out st' = ps_out st @ out \<and> number_replaced ty action a p b out)"
  using assms(4-6)
proof (induction n arbitrary: a st)
  case (Suc n)
  let ?s = "a @ p @ b"
  have ne: "?s \<noteq> []" using number_lens [OF assms(1,2)] by auto
  obtain s where s: "s = ?s" by blast
  note loop = Suc.prems(1) [folded s] and ne = ne [folded s]
  have found: "\<exists>m1 repl st2. pii_replacement ty action (ps_map st) (take (eo - so) (drop so s)) = (m1, repl) \<and>
      ps_out st2 = ps_out st @ take so s @ repl \<and> ps_any st2 \<and> length (ps_out st2) < ps_cap st2 \<and>
      pii_loop n ok (pii_regex ty) ty action boundary checksum (drop eo s) st2 = Some (st', Buf_Done ())"
    if f: "pii_classify (pii_regex ty) ty boundary checksum s = Found so eo" for so eo
  proof -
    obtain m1 repl where rp: "pii_replacement ty action (ps_map st) (take (eo - so) (drop so s)) = (m1, repl)" by fastforce
    let ?st1 = "st\<lparr>ps_map := m1, ps_action := if action_rank action > action_rank (ps_action st) then action else ps_action st\<rparr>"
    have "length (ps_out ?st1) < ps_cap ?st1" using Suc.prems(3) by simp
    from pii_append_room [OF this, of ok "take so s @ repl"] assms(3) obtain st2
      where st2: "pii_append ok (take so s @ repl) ?st1 = Buf_Done st2" "length (ps_out st2) < ps_cap st2" by auto
    with ne f rp loop
    have "pii_loop n ok (pii_regex ty) ty action boundary checksum (drop eo s) (st2\<lparr>ps_any := True\<rparr>) = Some (st', Buf_Done ())" by (simp add: Let_def)
    with rp st2(2) pii_append_out [OF st2(1)] show ?thesis by (intro exI [of _ m1] exI [of _ repl] exI [of _ "st2\<lparr>ps_any := True\<rparr>"]) simp
  qed
  from number_classify [OF assms(1,2) Suc.prems(2), of boundary checksum, folded s] show ?case
  proof (elim disjE exE conjE)
    assume f: "pii_classify (pii_regex ty) ty boundary checksum s = Found (length a) (length a + length p)"
    from found [OF f] s obtain m1 repl st2 where 1: "pii_replacement ty action (ps_map st) p = (m1, repl)"
      "ps_out st2 = ps_out st @ a @ repl" "ps_any st2"
      "pii_loop n ok (pii_regex ty) ty action boundary checksum b st2 = Some (st', Buf_Done ())" by auto
    from pii_loop_parts [OF 1(4)] obtain parts ob where "ps_out st' = ps_out st2 @ ob" "pass_parts ty action parts b ob" by blast
    moreover have "number_replaced ty action a p b (a @ repl @ ob)" if "pass_parts ty action parts b ob"
      using that 1(1) pass_parts_keep [OF pass_parts_Nil, of ty action a] unfolding number_replaced_def by fastforce
    ultimately show ?thesis using 1(2,3) pii_loop_any [OF 1(4)] by auto
  next
    fix so eo a'
    assume f: "pii_classify (pii_regex ty) ty boundary checksum s = Found so eo" "so \<le> eo" "eo \<le> length a" "drop eo s = a' @ p @ b"
      "a = take eo a @ a'" "no_digit_at_end a'"
    from found [OF f(1)] f(4) obtain m1 repl st2 where 1: "pii_replacement ty action (ps_map st) (take (eo - so) (drop so s)) = (m1, repl)"
      "ps_out st2 = ps_out st @ take so s @ repl" "length (ps_out st2) < ps_cap st2"
      "pii_loop n ok (pii_regex ty) ty action boundary checksum (a' @ p @ b) st2 = Some (st', Buf_Done ())" by auto
    from Suc.IH [OF 1(4) f(6) 1(3)] obtain out where o: "ps_any st'" "ps_out st' = ps_out st2 @ out" "number_replaced ty action a' p b out" by blast
    have "take eo a = take so s @ take (eo - so) (drop so s)" using s f(2,3) by (simp add: take_add [symmetric])
    moreover have "pass_parts ty action [(take so s, take so s), (take (eo - so) (drop so s), repl)]
        (take so s @ take (eo - so) (drop so s)) (take so s @ repl)"
      using pass_parts_keep [OF pass_parts_replace [OF 1(1) pass_parts_Nil], of "take so s"] by simp
    note number_replaced_before [OF o(3) this]
    ultimately have "number_replaced ty action (take eo a @ a') p b ((take so s @ repl) @ out)" by (simp only:)
    with o(1,2) 1(2) f(5) show ?thesis by simp
  next
    fix k a'
    assume c: "pii_classify (pii_regex ty) ty boundary checksum s = Copy k" "k \<le> length a" "drop k s = a' @ p @ b"
      "a = take k a @ a'" "no_digit_at_end a'"
    from pii_append_room [OF Suc.prems(3), of ok "take k s"] assms(3) obtain st2
      where st2: "pii_append ok (take k s) st = Buf_Done st2" "length (ps_out st2) < ps_cap st2" by auto
    with ne c loop have "pii_loop n ok (pii_regex ty) ty action boundary checksum (a' @ p @ b) st2 = Some (st', Buf_Done ())" by simp
    from Suc.IH [OF this c(5) st2(2)] obtain out where o: "ps_any st'" "ps_out st' = ps_out st2 @ out" "number_replaced ty action a' p b out" by blast
    have "take k s = take k a" using s c(2) by simp
    with o pii_append_out [OF st2(1)] number_replaced_before [OF o(3) pass_parts_keep [OF pass_parts_Nil], of "take k a"] c(4)
    show ?thesis by auto
  qed
qed simp

text \<open>A pass changes the text or leaves it as it is.\<close>

lemma replace_entity_total:
  assumes ok: "\<forall>n. ok n" and s: "pf_text fl = Some s"
  shows "\<exists>fl'. replace_entity_regex ok ty action boundary checksum fl = Some (Buf_Done fl') \<and> (\<exists>s'. pf_text fl' = Some s') \<and>
    (pf_changed fl \<longrightarrow> pf_changed fl') \<and> (\<not> pf_changed fl' \<longrightarrow> pf_text fl' = Some s) \<and>
    (\<forall>a p b. action \<noteq> PII_ACTION_OFF \<and> s = a @ p @ b \<and> number_of ty p \<and> no_digit_at_end a \<and> no_digit_at_start b \<longrightarrow>
      pf_changed fl' \<and> (\<exists>out. pf_text fl' = Some out \<and> number_replaced ty action a p b out))"
proof -
  have dup: "cstrdup ok s = Some s" using ok by (simp add: cstrdup_def)
  show ?thesis
  proof (cases "action = PII_ACTION_OFF")
    case True
    then show ?thesis using s dup by (simp add: replace_entity_regex_def Let_def)
  next
    case False
    let ?st = "\<lparr>ps_out = [], ps_cap = length s + 128, ps_any = False, ps_map = pf_map fl, ps_action = pf_action fl\<rparr>"
    have room: "length (ps_out ?st) < ps_cap ?st" by simp
    from pii_loop_total [OF rx_min_regex [of ty] _ room, of s "Suc (length s)" ok ty action boundary checksum] ok
    obtain st' where st': "pii_loop (Suc (length s)) ok (pii_regex ty) ty action boundary checksum s ?st = Some (st', Buf_Done ())"
      "length (ps_out st') < ps_cap st'" by auto
    have w: "buf_write (ps_cap st') (ps_out st') [CHR 0x00] = Some (ps_out st' @ [CHR 0x00])" using st'(2) by (simp add: buf_write_def)
    let ?fl = "fl\<lparr>pf_text := Some s, pf_map := ps_map st', pf_action := ps_action st'\<rparr>"
    let ?fl' = "if ps_any st' then ?fl\<lparr>pf_text := Some (ps_out st'), pf_changed := True\<rparr> else ?fl"
    have r: "replace_entity_regex ok ty action boundary checksum fl = Some (Buf_Done ?fl')"
      using False s dup ok st'(1) w by (simp add: replace_entity_regex_def Let_def)
    have "ps_any st' \<and> number_replaced ty action a p b (ps_out st')"
      if n: "s = a @ p @ b" "number_of ty p" "no_digit_at_end a" "no_digit_at_start b" for a p b
      using pii_loop_number [OF n(2,4) ok _ n(3) room] st'(1) n(1) by fastforce
    then show ?thesis using r by (intro exI [of _ ?fl']) auto
  qed
qed

lemma pii_passes_number:
  assumes ok: "\<forall>n. ok n" and s: "pf_text fl = Some s"
    and num: "s = a @ p @ b" "number_of ty p" "no_digit_at_end a" "no_digit_at_start b"
    and pass: "(\<exists>action boundary checksum. (ty, action, boundary, checksum) \<in> set ps \<and> action \<noteq> PII_ACTION_OFF) \<or> pf_changed fl"
  shows "\<exists>fl'. pii_passes ok ps fl = Some (Buf_Done fl') \<and> pf_changed fl' \<and> pf_text fl' \<noteq> None"
proof -
  have "\<exists>fl'. pii_passes ok ps fl = Some (Buf_Done fl') \<and> pf_changed fl' \<and> pf_text fl' \<noteq> None"
    if "pf_text fl = Some s \<or> pf_changed fl" "\<exists>s'. pf_text fl = Some s'" "pass_on ps \<or> pf_changed fl"
      "pass_on = (\<lambda>ps. \<exists>action boundary checksum. (ty, action, boundary, checksum) \<in> set ps \<and> action \<noteq> PII_ACTION_OFF)" for pass_on fl
    using that
  proof (induction ps arbitrary: fl)
    case Nil
    then show ?case by auto
  next
    case (Cons q ps)
    obtain ty1 action boundary checksum where q: "q = (ty1, action, boundary, checksum)" by (cases q)
    obtain s1 where s1: "pf_text fl = Some s1" using Cons.prems(2) by blast
    from replace_entity_total [OF ok s1, of ty1 action boundary checksum] obtain fl1 where fl1:
      "replace_entity_regex ok ty1 action boundary checksum fl = Some (Buf_Done fl1)" "\<exists>s'. pf_text fl1 = Some s'"
      "pf_changed fl \<longrightarrow> pf_changed fl1" "\<not> pf_changed fl1 \<longrightarrow> pf_text fl1 = Some s1"
      "\<forall>a p b. action \<noteq> PII_ACTION_OFF \<and> s1 = a @ p @ b \<and> number_of ty1 p \<and> no_digit_at_end a \<and> no_digit_at_start b \<longrightarrow> pf_changed fl1"
      by blast
    have "pf_text fl1 = Some s \<or> pf_changed fl1" using fl1(3,4) s1 Cons.prems(1) by auto
    moreover have "pass_on ps \<or> pf_changed fl1"
    proof (cases "pf_changed fl")
      case False
      with Cons.prems(1,3) s1 have "s1 = s" "pass_on (q # ps)" by simp_all
      then show ?thesis
      proof (cases "ty1 = ty \<and> action \<noteq> PII_ACTION_OFF")
        case True
        with fl1(5) num \<open>s1 = s\<close> show ?thesis by blast
      next
        case False
        with \<open>pass_on (q # ps)\<close> q Cons.prems(4) show ?thesis by auto
      qed
    qed (use fl1(3) in simp)
    ultimately obtain fl' where "pii_passes ok ps fl1 = Some (Buf_Done fl')" "pf_changed fl'" "pf_text fl' \<noteq> None"
      using Cons.IH [of fl1] fl1(2) Cons.prems(4) by blast
    with fl1(1) q show ?case by simp
  qed
  from this [of fl "\<lambda>ps. \<exists>action boundary checksum. (ty, action, boundary, checksum) \<in> set ps \<and> action \<noteq> PII_ACTION_OFF"] s pass
  show ?thesis by blast
qed

text \<open>C34. A telephone number, or a card number with a valid checksum, that stands between other characters than digits is found by
  its pass wherever it stands, whatever else the text holds: if memory is at hand, the pass writes the replacement of the
  number in its place, between what it makes of the text before and of the text behind it. So if its rule is on, the
  passes together report a change of every text with such a number.\<close>

theorem pii_number_noticed:
  assumes "\<forall>n. ok n" "number_of ty p" "no_digit_at_end a" "no_digit_at_start b"
  shows "(\<forall>action boundary checksum fl. action \<noteq> PII_ACTION_OFF \<longrightarrow> pf_text fl = Some (a @ p @ b) \<longrightarrow>
      (\<exists>fl' pa pb oa ob repl m m'. replace_entity_regex ok ty action boundary checksum fl = Some (Buf_Done fl') \<and> pf_changed fl' \<and>
        pf_text fl' = Some (oa @ repl @ ob) \<and> pass_parts ty action pa a oa \<and> pass_parts ty action pb b ob \<and>
        pii_replacement ty action m p = (m', repl))) \<and>
    (rule_action cfg ty \<noteq> PII_ACTION_OFF \<longrightarrow>
      (\<exists>fl. guardrails_transform_pii_text ok cfg (a @ p @ b) m = Some (Buf_Done fl) \<and> pf_changed fl \<and> pf_text fl \<noteq> None))"
proof (intro conjI allI impI)
  fix action boundary checksum and fl :: pii_flow
  assume "action \<noteq> PII_ACTION_OFF" "pf_text fl = Some (a @ p @ b)"
  with replace_entity_total [OF assms(1) this(2), of ty action boundary checksum] assms(2-4) obtain fl' out where
    "replace_entity_regex ok ty action boundary checksum fl = Some (Buf_Done fl')" "pf_changed fl'" "pf_text fl' = Some out"
    "number_replaced ty action a p b out" by blast
  then show "\<exists>fl' pa pb oa ob repl m m'. replace_entity_regex ok ty action boundary checksum fl = Some (Buf_Done fl') \<and> pf_changed fl' \<and>
        pf_text fl' = Some (oa @ repl @ ob) \<and> pass_parts ty action pa a oa \<and> pass_parts ty action pb b ob \<and>
        pii_replacement ty action m p = (m', repl)"
    unfolding number_replaced_def by blast
next
  assume on: "rule_action cfg ty \<noteq> PII_ACTION_OFF"
  let ?fl = "\<lparr>pf_text = Some (a @ p @ b), pf_map = m, pf_action = PII_ACTION_OFF, pf_changed = False\<rparr>"
  have "\<exists>action boundary checksum. (ty, action, boundary, checksum) \<in> set (transform_passes cfg) \<and> action \<noteq> PII_ACTION_OFF"
    using assms(2) on by (auto simp: transform_passes_def number_of_def)
  then obtain fl where fl: "pii_passes ok (transform_passes cfg) ?fl = Some (Buf_Done fl)" "pf_changed fl" "pf_text fl \<noteq> None"
    using pii_passes_number [OF assms(1) _ refl assms(2-4), of ?fl "transform_passes cfg"] by auto
  have "a @ p @ b \<noteq> []" using number_lens [OF assms(2,4)] by auto
  with fl show "\<exists>fl. guardrails_transform_pii_text ok cfg (a @ p @ b) m = Some (Buf_Done fl) \<and> pf_changed fl \<and> pf_text fl \<noteq> None"
    by (simp add: guardrails_transform_pii_text_def pii_result_def)
qed

text \<open>A second number behind another one.\<close>

lemma pii_number_noticed_witness:
  "\<exists>fl oa ob pa pb. replace_entity_regex (\<lambda>_. True) PII_TYPE_PHONE PII_ACTION_REDACT_TAG True True
      \<lparr>pf_text = Some ''13900000000, 13812345678!'', pf_map = None, pf_action = PII_ACTION_OFF, pf_changed = False\<rparr> =
    Some (Buf_Done fl) \<and> pf_text fl = Some (oa @ ''[PHONE]'' @ ob) \<and>
    pass_parts PII_TYPE_PHONE PII_ACTION_REDACT_TAG pa ''13900000000, '' oa \<and> pass_parts PII_TYPE_PHONE PII_ACTION_REDACT_TAG pb ''!'' ob"
proof -
  have n: "number_of PII_TYPE_PHONE ''13812345678''" by code_simp
  have e: "no_digit_at_end ''13900000000, ''" "no_digit_at_start ''!''" by (simp_all add: no_digit_at_end_def no_digit_at_start_def is_digit_def)
  let ?fl = "\<lparr>pf_text = Some ''13900000000, 13812345678!'', pf_map = None, pf_action = PII_ACTION_OFF, pf_changed = False\<rparr> :: pii_flow"
  have t: "PII_ACTION_REDACT_TAG \<noteq> PII_ACTION_OFF" "pf_text ?fl = Some (''13900000000, '' @ ''13812345678'' @ ''!'')" by simp_all
  from pii_number_noticed [of "\<lambda>_. True" PII_TYPE_PHONE "''13812345678''" "''13900000000, ''" "''!''" default_pii_config None, OF _ n e] t
  obtain fl pa pb oa ob repl m m' where
    "replace_entity_regex (\<lambda>_. True) PII_TYPE_PHONE PII_ACTION_REDACT_TAG True True ?fl = Some (Buf_Done fl)"
    "pf_text fl = Some (oa @ repl @ ob)" "pass_parts PII_TYPE_PHONE PII_ACTION_REDACT_TAG pa ''13900000000, '' oa"
    "pass_parts PII_TYPE_PHONE PII_ACTION_REDACT_TAG pb ''!'' ob"
    "pii_replacement PII_TYPE_PHONE PII_ACTION_REDACT_TAG m ''13812345678'' = (m', repl)" by blast
  moreover from this(5) have "repl = ''[PHONE]''" by (simp add: pii_replacement_def)
  ultimately show ?thesis by blast
qed

section \<open>Keys that are not noticed\<close>

lemma lens_str: "n \<in> set (rx_lens (rx_str (c # d # s)) (e # t)) \<longleftrightarrow> c = e \<and> (\<exists>k. k \<in> set (rx_lens (rx_str (d # s)) t) \<and> n = Suc k)"
  by (auto simp: lens_rules)

lemma lens_str1: "n \<in> set (rx_lens (rx_str [c]) (e # t)) \<longleftrightarrow> c = e \<and> n = Suc 0"
  by (auto simp: lens_rules)

lemma api_first: "rx_lens re_api_key (c # s) \<noteq> [] \<Longrightarrow> c \<in> {CHR ''s'', CHR ''a'', CHR ''g''}"
  unfolding lens_Nil_iff re_api_key_def lens_Alt lens_Seq lens_str by blast

lemma api_empty [simp]: "rx_lens re_api_key [] = []"
  by (simp add: re_api_key_def rx_lens.simps)

lemma api_alnum: "list_all is_alnum s \<Longrightarrow> rx_lens re_api_key s = []"
proof (rule ccontr)
  assume a: "list_all is_alnum s" "rx_lens re_api_key s \<noteq> []"
  then obtain n where n: "n \<in> set (rx_lens re_api_key s)" by (cases "rx_lens re_api_key s") auto
  have "\<not> is_alnum CHR ''-''" "\<not> is_alnum CHR ''_''" by (simp_all add: is_alnum_def is_digit_def is_upper_def is_lower_def)
  then have "rx_has (\<lambda>c. \<not> is_alnum c) re_api_key" by (simp add: re_api_key_def)
  from rx_lens_has [OF n this] obtain c where "c \<in> set s" "\<not> is_alnum c" by (meson in_set_takeD)
  with a(1) show False by (simp add: list_all_iff)
qed

lemma regexec_NoneI: "(\<And>i. i \<le> length s \<Longrightarrow> rx_lens re (drop i s) = []) \<Longrightarrow> regexec re s = None"
  unfolding regexec_def using find_idx_None [of "\<lambda>i. rx_lens re (drop i s) \<noteq> []" "[0..<Suc (length s)]"]
  by (auto simp del: upt_Suc simp: less_Suc_eq_le split: option.splits)

text \<open>A prefix whose rests all miss, and an alphanumeric text behind it.\<close>

lemma api_regexec_None:
  assumes "list_all is_alnum w" "\<And>i. i < length u \<Longrightarrow> rx_lens re_api_key (drop i u @ w) = []"
  shows "regexec re_api_key (u @ w) = None"
proof (rule regexec_NoneI)
  fix i
  have "list_all is_alnum (drop (i - length u) w)" using assms(1) by (auto simp: list_all_iff dest: in_set_dropD)
  then show "rx_lens re_api_key (drop i (u @ w)) = []" using assms(2) [of i] api_alnum by (cases "i < length u") simp_all
qed

lemma alnum_letters: "is_alnum CHR ''p''" "is_alnum CHR ''r''" "is_alnum CHR ''o''" "is_alnum CHR ''j''" "\<not> is_alnum CHR ''-''"
  by (simp_all add: is_alnum_def is_digit_def is_upper_def is_lower_def)

lemma api_sk:
  "n \<in> set (rx_lens re_api_key (''sk-'' @ w)) \<longleftrightarrow> 23 \<le> n \<and> n \<le> 3 + length (takeWhile is_alnum w)"
proof -
  have "n \<in> set (rx_lens re_api_key (''sk-'' @ w)) \<longleftrightarrow> n \<in> set (rx_lens (Seq (rx_str ''sk-'') (Run is_alnum 20 None)) (''sk-'' @ w))"
    unfolding re_api_key_def lens_Alt lens_Seq append_Cons lens_str by auto
  also have "\<dots> \<longleftrightarrow> (\<exists>k. 20 \<le> k \<and> k \<le> length (takeWhile is_alnum w) \<and> n = 3 + k)"
    unfolding lens_Seq append_Cons lens_str lens_str1 lens_from by auto
  also have "\<dots> \<longleftrightarrow> 23 \<le> n \<and> n \<le> 3 + length (takeWhile is_alnum w)"
    by (auto intro: exI [of _ "n - 3"])
  finally show ?thesis .
qed

lemma api_other: "c \<notin> {CHR ''s'', CHR ''a'', CHR ''g''} \<Longrightarrow> rx_lens re_api_key (c # s) = []"
  using api_first by blast

lemma project_key_None: "list_all is_alnum w \<Longrightarrow> regexec re_api_key (''sk-proj-'' @ w) = None"
proof (rule api_regexec_None)
  fix i assume i: "i < length ''sk-proj-''"
  have tw: "takeWhile is_alnum (''proj-'' @ w) = ''proj''" using alnum_letters by simp
  have first: "rx_lens re_api_key (''sk-'' @ ''proj-'' @ w) = []"
    unfolding lens_Nil_iff api_sk tw by simp
  have "i = 0 \<or> i = 1 \<or> i = 2 \<or> i = 3 \<or> i = 4 \<or> i = 5 \<or> i = 6 \<or> i = 7" using i by auto
  then show "rx_lens re_api_key (drop i ''sk-proj-'' @ w) = []"
    using first by (elim disjE) (simp_all add: api_other)
qed

lemma long_key_lens: "list_all is_alnum w \<Longrightarrow> set (rx_lens re_api_key (''sk-'' @ w)) = {23..3 + length w}"
proof -
  assume "list_all is_alnum w"
  then have tw: "takeWhile is_alnum w = w" by (simp add: takeWhile_eq_all_conv list_all_iff)
  show ?thesis by (rule set_eqI) (simp only: api_sk tw atLeastAtMost_iff)
qed

lemma regexec_first: "rx_lens re s \<noteq> [] \<Longrightarrow> regexec re s = Some (0, Max (set (rx_lens re s)))"
proof -
  assume "rx_lens re s \<noteq> []"
  then have "find_idx (\<lambda>i. rx_lens re (drop i s) \<noteq> []) [0..<Suc (length s)] = Some 0" by (simp add: upt_conv_Cons del: upt_Suc)
  then show ?thesis by (simp add: regexec_def del: upt_Suc)
qed

lemma long_key_classify:
  assumes "list_all is_alnum w" "125 \<le> length w"
  shows "pii_classify re_api_key PII_TYPE_API_KEY False True (''sk-'' @ w) = Copy 1"
    and "pii_classify re_api_key PII_TYPE_API_KEY False True (''k-'' @ w) = Copy_Rest"
proof -
  have S: "set (rx_lens re_api_key (''sk-'' @ w)) = {23..3 + length w}" by (rule long_key_lens [OF assms(1)])
  have "23 \<in> set (rx_lens re_api_key (''sk-'' @ w))" unfolding S using assms(2) by simp
  then have "rx_lens re_api_key (''sk-'' @ w) \<noteq> []" by (metis empty_iff empty_set)
  moreover have "Max {23..3 + length w} = 3 + length w" using assms(2) by (intro Max_eqI) auto
  ultimately have "regexec re_api_key (''sk-'' @ w) = Some (0, 3 + length w)" using regexec_first S by metis
  then show "pii_classify re_api_key PII_TYPE_API_KEY False True (''sk-'' @ w) = Copy 1"
    using assms(2) by (simp add: pii_classify_def Let_def)
  have "regexec re_api_key (''k-'' @ w) = None"
  proof (rule api_regexec_None [OF assms(1)])
    fix i assume "i < length ''k-''"
    then have "i = 0 \<or> i = 1" by auto
    then show "rx_lens re_api_key (drop i ''k-'' @ w) = []" by (elim disjE) (simp_all add: api_other)
  qed
  then show "pii_classify re_api_key PII_TYPE_API_KEY False True (''k-'' @ w) = Copy_Rest" by (simp add: pii_classify_def)
qed

text \<open>Two kinds of keys pass the key pattern unnoticed, so that a rule that blocks keys lets them through: the project keys that the mask
  for keys has a case for, and any key of 128 characters or more, which the loop skips because it does not
  fit its buffer for matches.\<close>

theorem pii_api_key_blind_spots:
  assumes "list_all is_alnum w" "\<forall>n. ok n"
  shows "regexec re_api_key (''sk-proj-'' @ w) = None \<and>
    (125 \<le> length w \<longrightarrow>
      replace_entity_regex ok PII_TYPE_API_KEY PII_ACTION_BLOCK False True
        \<lparr>pf_text = Some (''sk-'' @ w), pf_map = m, pf_action = PII_ACTION_OFF, pf_changed = False\<rparr> =
      Some (Buf_Done \<lparr>pf_text = Some (''sk-'' @ w), pf_map = m, pf_action = PII_ACTION_OFF, pf_changed = False\<rparr>))"
proof (intro conjI impI)
  show "regexec re_api_key (''sk-proj-'' @ w) = None" by (rule project_key_None [OF assms(1)])
next
  assume l: "125 \<le> length w"
  let ?st = "\<lparr>ps_out = [], ps_cap = length (''sk-'' @ w) + 128, ps_any = False, ps_map = m, ps_action = PII_ACTION_OFF\<rparr>"
  note c = long_key_classify [OF assms(1) l]
  have t: "take 1 (''sk-'' @ w) = ''s''" "drop 1 (''sk-'' @ w) = ''k-'' @ w" by simp_all
  obtain k where k: "length (''sk-'' @ w) = Suc k" by simp
  have a1: "pii_append ok ''s'' ?st = Buf_Done (?st\<lparr>ps_out := ''s''\<rparr>)" by (simp add: pii_append_def buf_write_def)
  have a2: "pii_append ok (''k-'' @ w) (?st\<lparr>ps_out := ''s''\<rparr>) = Buf_Done (?st\<lparr>ps_out := ''sk-'' @ w\<rparr>)" by (simp add: pii_append_def buf_write_def)
  have "pii_loop (Suc (Suc k)) ok re_api_key PII_TYPE_API_KEY PII_ACTION_BLOCK False True (''sk-'' @ w) ?st =
      pii_loop (Suc k) ok re_api_key PII_TYPE_API_KEY PII_ACTION_BLOCK False True (''k-'' @ w) (?st\<lparr>ps_out := ''s''\<rparr>)"
    by (subst pii_loop.simps(2)) (simp only: c(1) pii_step.case t a1 buf_result.case, simp)
  also have "\<dots> = Some (?st\<lparr>ps_out := ''sk-'' @ w\<rparr>, Buf_Done ())"
    by (subst pii_loop.simps(2)) (simp only: c(2) pii_step.case a2 buf_result.case, simp)
  finally have loop: "pii_loop (Suc (length (''sk-'' @ w))) ok re_api_key PII_TYPE_API_KEY PII_ACTION_BLOCK False True (''sk-'' @ w) ?st =
      Some (?st\<lparr>ps_out := ''sk-'' @ w\<rparr>, Buf_Done ())" unfolding k .
  show "replace_entity_regex ok PII_TYPE_API_KEY PII_ACTION_BLOCK False True
        \<lparr>pf_text = Some (''sk-'' @ w), pf_map = m, pf_action = PII_ACTION_OFF, pf_changed = False\<rparr> =
      Some (Buf_Done \<lparr>pf_text = Some (''sk-'' @ w), pf_map = m, pf_action = PII_ACTION_OFF, pf_changed = False\<rparr>)"
    using loop assms(2) by (simp add: replace_entity_regex_def cstrdup_def Let_def buf_write_def)
qed

lemma pii_api_key_blind_spots_witness:
  "regexec re_api_key (''sk-proj-'' @ replicate 200 (CHR ''a'')) = None \<and>
   replace_entity_regex (\<lambda>_. True) PII_TYPE_API_KEY PII_ACTION_BLOCK False True
     \<lparr>pf_text = Some (''sk-'' @ replicate 200 (CHR ''a'')), pf_map = None, pf_action = PII_ACTION_OFF, pf_changed = False\<rparr> =
   Some (Buf_Done \<lparr>pf_text = Some (''sk-'' @ replicate 200 (CHR ''a'')), pf_map = None, pf_action = PII_ACTION_OFF, pf_changed = False\<rparr>)"
proof -
  have "list_all is_alnum (replicate 200 (CHR ''a''))"
    by (auto simp: list_all_iff is_alnum_def is_lower_def is_digit_def is_upper_def)
  moreover have "125 \<le> length (replicate 200 (CHR ''a''))" by (simp only: length_replicate)
  ultimately show ?thesis using pii_api_key_blind_spots [of "replicate 200 (CHR ''a'')" "\<lambda>_. True" None] by blast
qed

end
