(* ===== verification/Ac_Trie.thy ===== *)
theory Ac_Trie
  imports Prelude "HOL-Library.Sublist"
begin

text \<open>
  The keyword automaton of \<^verbatim>\<open>src/policy/guardrails.c\<close> (\<open>ac_trie_t\<close>): a trie in an array of nodes,
  whose missing transitions are filled in by a breadth-first pass so that a search reads one
  transition per byte. A transition is \<open>None\<close> for the -1 of the code; reading a node through it is an access
  outside the array, and makes the result of the pass or of the search \<open>None\<close>.
\<close>

section \<open>Nodes\<close>

record ac_node =
  ac_next :: "char \<Rightarrow> nat option"
  ac_fail :: nat
  ac_keyword :: "string option"

record ac_trie =
  ac_nodes :: "ac_node list"
  ac_cap :: nat

definition AC_INIT_CAP :: nat where "AC_INIT_CAP = 256"

definition ac_empty_node :: ac_node where
  "ac_empty_node = \<lparr>ac_next = \<lambda>_. None, ac_fail = 0, ac_keyword = None\<rparr>"

definition ac_trie_create :: ac_trie where
  "ac_trie_create = \<lparr>ac_nodes = [ac_empty_node], ac_cap = AC_INIT_CAP\<rparr>"

section \<open>Insertion\<close>

definition set_next :: "ac_node list \<Rightarrow> nat \<Rightarrow> char \<Rightarrow> nat \<Rightarrow> ac_node list" where
  "set_next ns i c j = ns[i := (ns ! i)\<lparr>ac_next := (ac_next (ns ! i))(c \<mapsto> j)\<rparr>]"

text \<open>The loop over the bytes; \<open>ok n\<close> is the reallocation to \<open>n\<close> nodes, which stops the insertion when it fails.\<close>

fun ac_walk :: "(nat \<Rightarrow> bool) \<Rightarrow> ac_trie \<Rightarrow> nat \<Rightarrow> string \<Rightarrow> ac_trie \<times> nat option" where
  "ac_walk ok t i [] = (t, Some i)"
| "ac_walk ok t i (c # cs) =
     (case ac_next (ac_nodes t ! i) c of
        Some j \<Rightarrow> ac_walk ok t j cs
      | None \<Rightarrow>
          (let n = length (ac_nodes t)
           in if n \<ge> ac_cap t \<and> \<not> ok (2 * ac_cap t) then (t, None)
              else ac_walk ok
                (t\<lparr>ac_nodes := set_next (ac_nodes t @ [ac_empty_node]) i c n,
                   ac_cap := (if n \<ge> ac_cap t then 2 * ac_cap t else ac_cap t)\<rparr>) n cs))"

text \<open>\<open>dup_ok\<close> is the allocation of the copy of the keyword.\<close>

definition ac_trie_insert :: "(nat \<Rightarrow> bool) \<Rightarrow> bool \<Rightarrow> ac_trie \<Rightarrow> string \<Rightarrow> ac_trie \<times> bool" where
  "ac_trie_insert ok dup_ok t keyword =
     (if keyword = [] then (t, False)
      else case ac_walk ok t 0 keyword of
        (t', None) \<Rightarrow> (t', False)
      | (t', Some i) \<Rightarrow>
          (if ac_keyword (ac_nodes t' ! i) \<noteq> None then (t', True)
           else if \<not> dup_ok then (t', False)
           else (t'\<lparr>ac_nodes := (ac_nodes t')[i := (ac_nodes t' ! i)\<lparr>ac_keyword := Some keyword\<rparr>]\<rparr>, True)))"

section \<open>Failure links\<close>

definition all_bytes :: "char list" where
  "all_bytes = map char_of [0..<256::nat]"

text \<open>The nodes, what is left of the queue and how many have been put into it; the queue has a slot per node.\<close>

type_synonym ac_bfs = "ac_node list \<times> nat list \<times> nat"

definition ac_push :: "nat \<Rightarrow> ac_bfs \<Rightarrow> ac_bfs option" where
  "ac_push u s = (case s of (ns, q, k) \<Rightarrow> if k < length ns then Some (ns, q @ [u], k + 1) else None)"

fun ac_root_row :: "char list \<Rightarrow> ac_bfs \<Rightarrow> ac_bfs option" where
  "ac_root_row [] s = Some s"
| "ac_root_row (c # cs) (ns, q, k) =
     (case ac_next (ns ! 0) c of
        Some u \<Rightarrow> do { s \<leftarrow> ac_push u (ns[u := (ns ! u)\<lparr>ac_fail := 0\<rparr>], q, k); ac_root_row cs s }
      | None \<Rightarrow> ac_root_row cs (set_next ns 0 c 0, q, k))"

text \<open>The child \<open>u\<close> gets its failure link \<open>f\<close>, and the keyword of \<open>f\<close> when it has none of its own and the copy succeeds.\<close>

definition ac_link :: "(nat \<Rightarrow> bool) \<Rightarrow> nat \<Rightarrow> nat \<Rightarrow> ac_node list \<Rightarrow> ac_node list" where
  "ac_link dup u f ns =
     (let ns1 = ns[u := (ns ! u)\<lparr>ac_fail := f\<rparr>]
      in if ac_keyword (ns1 ! u) = None \<and> ac_keyword (ns1 ! f) \<noteq> None \<and> dup u
         then ns1[u := (ns1 ! u)\<lparr>ac_keyword := ac_keyword (ns1 ! f)\<rparr>] else ns1)"

fun ac_row :: "(nat \<Rightarrow> bool) \<Rightarrow> nat \<Rightarrow> char list \<Rightarrow> ac_bfs \<Rightarrow> ac_bfs option" where
  "ac_row dup r [] s = Some s"
| "ac_row dup r (c # cs) (ns, q, k) =
     (case ac_next (ns ! r) c of
        Some u \<Rightarrow>
          do {
            f \<leftarrow> ac_next (ns ! ac_fail (ns ! r)) c;
            s \<leftarrow> ac_push u (ac_link dup u f ns, q, k);
            ac_row dup r cs s
          }
      | None \<Rightarrow>
          (case ac_next (ns ! ac_fail (ns ! r)) c of
             Some j \<Rightarrow> ac_row dup r cs (set_next ns r c j, q, k)
           | None \<Rightarrow> ac_row dup r cs (ns, q, k)))"

lemma ac_link_length [simp]: "length (ac_link dup u f ns) = length ns"
  by (simp add: ac_link_def Let_def)

lemma set_next_length [simp]: "length (set_next ns i c j) = length ns"
  by (simp add: set_next_def)

lemma ac_push_Some: "ac_push u (ns, q, k) = Some s \<longleftrightarrow> k < length ns \<and> s = (ns, q @ [u], k + 1)"
  by (auto simp: ac_push_def)

text \<open>What bounds the pass: the slots that are left and the nodes that wait.\<close>

definition ac_left :: "ac_bfs \<Rightarrow> nat" where
  "ac_left s = (case s of (ns, q, k) \<Rightarrow> length ns - k + length q)"

lemma ac_row_left: "ac_row dup r cs s = Some s' \<Longrightarrow> ac_left s' = ac_left s"
proof (induction dup r cs s rule: ac_row.induct)
  case (2 dup r c cs ns q k)
  from "2.prems" "2.IH" show ?case
    by (auto simp: ac_left_def ac_push_Some split: option.splits bind_splits)
qed simp

function ac_bfs_loop :: "(nat \<Rightarrow> bool) \<Rightarrow> ac_bfs \<Rightarrow> ac_node list option" where
  "ac_bfs_loop dup (ns, [], k) = Some ns"
| "ac_bfs_loop dup (ns, r # q, k) =
     (case ac_row dup r all_bytes (ns, q, k) of
        None \<Rightarrow> None
      | Some s \<Rightarrow> ac_bfs_loop dup s)"
  by pat_completeness auto
termination
  by (relation "measure (\<lambda>(dup, s). ac_left s)") (auto dest!: ac_row_left simp: ac_left_def split: prod.splits)

text \<open>\<open>queue_ok\<close> is the allocation of the queue. The result is the trie and whether the pass was made.\<close>

definition ac_trie_build_failure_links :: "bool \<Rightarrow> (nat \<Rightarrow> bool) \<Rightarrow> ac_trie \<Rightarrow> (ac_trie \<times> bool) option" where
  "ac_trie_build_failure_links queue_ok dup t =
     (if length (ac_nodes t) \<le> 1 then Some (t, True)
      else if \<not> queue_ok then Some (t, False)
      else do {
        s \<leftarrow> ac_root_row all_bytes (ac_nodes t, [], 0);
        ns \<leftarrow> ac_bfs_loop dup s;
        Some (t\<lparr>ac_nodes := ns\<rparr>, True)
      })"

section \<open>Search\<close>

fun ac_scan :: "ac_node list \<Rightarrow> nat \<Rightarrow> string \<Rightarrow> string option option" where
  "ac_scan ns i [] = Some None"
| "ac_scan ns i (c # cs) =
     (case ac_next (ns ! i) c of
        None \<Rightarrow> None
      | Some j \<Rightarrow> (case ac_keyword (ns ! j) of Some k \<Rightarrow> Some (Some k) | None \<Rightarrow> ac_scan ns j cs))"

definition ac_trie_search :: "ac_trie \<Rightarrow> string \<Rightarrow> string option option" where
  "ac_trie_search t body = (if length (ac_nodes t) \<le> 1 then Some None else ac_scan (ac_nodes t) 0 body)"

end
