(* ===== verification/Prompt_Template.thy ===== *)
theory Prompt_Template
  imports Cache_Key Budget
begin

text \<open>
  The prompt templates of \<^verbatim>\<open>src/policy/prompt_template.c\<close>: the variables of a template are expanded
  into a growing buffer, and the text is put into the system message of a chat request, a JSON
  document. The JSON library is a parameter; its values are immutable here, so a change of a message
  through a borrowed pointer is a change of the array and of the document that hold it.
\<close>

section \<open>The JSON library\<close>

text \<open>What the code asks beyond reading: \<^verbatim>\<open>json_dumps\<close>, \<^verbatim>\<open>json_string\<close>, \<^verbatim>\<open>json_object\<close>, \<^verbatim>\<open>json_object_set_new\<close> (which
  leaves the object when the value is NULL), an array with other elements, and \<^verbatim>\<open>json_object_del\<close>.\<close>

record 'j json_lib = "'j json_api" +
  jl_dumps :: "'j \<Rightarrow> string option"
  jl_string :: "string \<Rightarrow> 'j option"
  jl_object :: "'j option"
  jl_set :: "'j \<Rightarrow> string \<Rightarrow> 'j option \<Rightarrow> 'j"
  jl_array :: "'j list \<Rightarrow> 'j"

text \<open>The documented behaviour that the properties rely on.\<close>

definition json_laws :: "'j json_lib \<Rightarrow> bool" where
  "json_laws L \<longleftrightarrow>
     (\<forall>j k v k'. jo_is_object L j \<longrightarrow> jo_is_object L (jl_set L j k (Some v)) \<and>
        jo_get L (Some (jl_set L j k (Some v))) k' = (if k' = k then Some v else jo_get L (Some j) k')) \<and>
     (\<forall>j k. jl_set L j k None = j) \<and>
     (\<forall>xs. jo_array L (Some (jl_array L xs)) = Some xs) \<and>
     (\<forall>s v. jl_string L s = Some v \<longrightarrow> jo_string L (Some v) = Some s) \<and>
     (\<forall>v. jl_object L = Some v \<longrightarrow> jo_is_object L v \<and> (\<forall>k. jo_get L (Some v) k = None)) \<and>
     (\<forall>k. jo_get L None k = None) \<and> jo_string L None = None \<and> jo_array L None = None"

section \<open>Modes\<close>

datatype prompt_inject_mode = PROMPT_MODE_PREPEND | PROMPT_MODE_APPEND | PROMPT_MODE_OVERRIDE

definition prompt_mode_from_str :: "string option \<Rightarrow> prompt_inject_mode" where
  "prompt_mode_from_str str =
     (let s = map to_lower (cstr_or_empty str)
      in if s = ''append'' then PROMPT_MODE_APPEND
         else if s = ''override'' then PROMPT_MODE_OVERRIDE
         else PROMPT_MODE_PREPEND)"

definition prompt_mode_to_str :: "prompt_inject_mode \<Rightarrow> string" where
  "prompt_mode_to_str mode =
     (case mode of PROMPT_MODE_APPEND \<Rightarrow> ''append'' | PROMPT_MODE_OVERRIDE \<Rightarrow> ''override'' | PROMPT_MODE_PREPEND \<Rightarrow> ''prepend'')"

record prompt_template =
  pt_system_template :: "string option"
  pt_mode :: prompt_inject_mode
  pt_prefix_user_prompt :: "string option"
  pt_suffix_user_prompt :: "string option"

section \<open>Variables\<close>

text \<open>\<^verbatim>\<open>strftime\<close> with \<open>%Y-%m-%d\<close> and \<open>%H:%M:%S\<close>.\<close>

definition two_digits :: "int \<Rightarrow> string" where
  "two_digits n = pad_left 2 (int_str n)"

definition date_str :: "int \<Rightarrow> string" where
  "date_str now = (case civil now of (y, mon, d) \<Rightarrow> int_str y @ ''-'' @ two_digits mon @ ''-'' @ two_digits d)"

definition time_str :: "int \<Rightarrow> string" where
  "time_str now =
     (let s = now mod 86400
      in two_digits (s div 3600) @ '':'' @ two_digits (s mod 3600 div 60) @ '':'' @ two_digits (s mod 60))"

text \<open>The replacement of a variable; an unknown one has none.\<close>

definition var_value :: "int \<Rightarrow> string option \<Rightarrow> string option \<Rightarrow> string \<Rightarrow> string option" where
  "var_value now model key_name var =
     (if var = ''date'' then Some (date_str now)
      else if var = ''time'' then Some (time_str now)
      else if var = ''timestamp'' then Some (int_str now)
      else if var = ''model'' then Some (cstr_or_empty model)
      else if var = ''key_name'' then Some (cstr_or_empty key_name)
      else None)"

text \<open>The variable at the start of \<open>p\<close>, if there is one, with its replacement and the text behind it.\<close>

definition placeholder :: "(string \<Rightarrow> string option) \<Rightarrow> string \<Rightarrow> (string \<times> string) option" where
  "placeholder val p =
     (case p of
        CHR ''$'' # CHR ''{'' # rest \<Rightarrow>
          (if CHR ''}'' \<in> set rest
           then (case val (takeWhile (\<lambda>c. c \<noteq> CHR ''}'') rest) of
                   Some rep \<Rightarrow> Some (rep, tl (dropWhile (\<lambda>c. c \<noteq> CHR ''}'') rest))
                 | None \<Rightarrow> None)
           else None)
      | _ \<Rightarrow> None)"

lemma placeholder_shorter: "placeholder val p = Some (rep, rest) \<Longrightarrow> length rest < length p"
proof -
  assume a: "placeholder val p = Some (rep, rest)"
  then obtain r where p: "p = CHR ''$'' # CHR ''{'' # r" "rest = tl (dropWhile (\<lambda>c. c \<noteq> CHR ''}'') r)"
    by (auto simp: placeholder_def split: list.splits char.splits bool.splits if_splits option.splits)
  have "length (dropWhile (\<lambda>c. c \<noteq> CHR ''}'') r) \<le> length r" by (rule length_dropWhile_le)
  with p show ?thesis by simp
qed

section \<open>The buffer\<close>

text \<open>The loop that doubles the buffer until there is room; \<open>ok n\<close> is the reallocation to \<open>n\<close> bytes.\<close>

function grow :: "(nat \<Rightarrow> bool) \<Rightarrow> nat \<Rightarrow> nat \<Rightarrow> nat option" where
  "grow ok need cap =
     (if 0 < cap \<and> need + 1 \<ge> cap then (if ok (2 * cap) then grow ok need (2 * cap) else None) else Some cap)"
  by pat_completeness auto
termination
  by (relation "measure (\<lambda>(ok, need, cap). need + 2 - cap)") auto

declare grow.simps [simp del]

function expand_loop :: "(string \<Rightarrow> string option) \<Rightarrow> (nat \<Rightarrow> bool) \<Rightarrow> nat \<Rightarrow> string \<Rightarrow> string \<Rightarrow> string buf_result" where
  "expand_loop val ok cap out p =
     (case p of
        [] \<Rightarrow> (case buf_write cap out [CHR 0x00] of None \<Rightarrow> Buf_Overrun | Some _ \<Rightarrow> Buf_Done out)
      | c # cs \<Rightarrow>
          (case placeholder val p of
             Some (rep, rest) \<Rightarrow>
               (case grow ok (length out + length rep) cap of
                  None \<Rightarrow> Buf_Oom
                | Some cap' \<Rightarrow>
                    (case buf_write cap' out rep of
                       None \<Rightarrow> Buf_Overrun
                     | Some out' \<Rightarrow> expand_loop val ok cap' out' rest))
           | None \<Rightarrow>
               (if length out + 2 \<ge> cap \<and> \<not> ok (2 * cap) then Buf_Oom
                else let cap' = (if length out + 2 \<ge> cap then 2 * cap else cap)
                     in (case buf_write cap' out [c] of
                           None \<Rightarrow> Buf_Overrun
                         | Some out' \<Rightarrow> expand_loop val ok cap' out' cs))))"
  by pat_completeness auto
termination
  by (relation "measure (\<lambda>(val, ok, cap, out, p). length p)") (auto dest: placeholder_shorter)

declare expand_loop.simps [simp del]

text \<open>\<open>alloc_ok\<close> is the first allocation.\<close>

definition prompt_template_expand_vars ::
  "bool \<Rightarrow> (nat \<Rightarrow> bool) \<Rightarrow> int \<Rightarrow> string option \<Rightarrow> string option \<Rightarrow> string option \<Rightarrow> string option buf_result" where
  "prompt_template_expand_vars alloc_ok ok now tmpl model key_name =
     (case tmpl of
        None \<Rightarrow> Buf_Done None
      | Some t \<Rightarrow>
          if \<not> alloc_ok then Buf_Done None
          else (case expand_loop (var_value now model key_name) ok (length t + 256) [] t of
                  Buf_Overrun \<Rightarrow> Buf_Overrun
                | Buf_Oom \<Rightarrow> Buf_Done None
                | Buf_Done s \<Rightarrow> Buf_Done (Some s)))"

section \<open>Applying a template\<close>

definition has_role :: "'j json_lib \<Rightarrow> string \<Rightarrow> 'j \<Rightarrow> bool" where
  "has_role L role m \<longleftrightarrow> jo_is_object L m \<and> jo_string L (jo_get L (Some m) ''role'') = Some role"

definition set_string :: "'j json_lib \<Rightarrow> 'j \<Rightarrow> string \<Rightarrow> string \<Rightarrow> 'j" where
  "set_string L j k s = jl_set L j k (jl_string L s)"

definition combined_content :: "prompt_inject_mode \<Rightarrow> string \<Rightarrow> string \<Rightarrow> string" where
  "combined_content mode expanded orig =
     (case mode of
        PROMPT_MODE_OVERRIDE \<Rightarrow> expanded
      | PROMPT_MODE_APPEND \<Rightarrow> orig @ [CHR 0x0A, CHR 0x0A] @ expanded
      | PROMPT_MODE_PREPEND \<Rightarrow> expanded @ [CHR 0x0A, CHR 0x0A] @ orig)"

text \<open>The system message; \<open>None\<close> when the text cannot be allocated.\<close>

definition apply_system :: "'j json_lib \<Rightarrow> bool \<Rightarrow> prompt_inject_mode \<Rightarrow> string \<Rightarrow> 'j list \<Rightarrow> 'j list option" where
  "apply_system L comb_ok mode expanded msgs =
     (case find_idx (has_role L ''system'') msgs of
        Some i \<Rightarrow>
          (if mode \<noteq> PROMPT_MODE_OVERRIDE \<and> \<not> comb_ok then None
           else let orig = cstr_or_empty (jo_string L (jo_get L (Some (msgs ! i)) ''content''))
                in Some (msgs[i := set_string L (msgs ! i) ''content'' (combined_content mode expanded orig)]))
      | None \<Rightarrow>
          (case jl_object L of
             None \<Rightarrow> Some msgs
           | Some obj \<Rightarrow> Some (set_string L (set_string L obj ''role'' ''system'') ''content'' expanded # msgs)))"

text \<open>The last message of the user.\<close>

definition last_user :: "'j json_lib \<Rightarrow> 'j list \<Rightarrow> nat option" where
  "last_user L msgs =
     (case find_idx (has_role L ''user'') (rev msgs) of None \<Rightarrow> None | Some i \<Rightarrow> Some (length msgs - 1 - i))"

definition apply_user :: "'j json_lib \<Rightarrow> bool \<Rightarrow> string option \<Rightarrow> string option \<Rightarrow> 'j list \<Rightarrow> 'j list" where
  "apply_user L ubuf_ok pre suf msgs =
     (if pre = None \<and> suf = None then msgs
      else case last_user L msgs of
             None \<Rightarrow> msgs
           | Some i \<Rightarrow>
               (case jo_string L (jo_get L (Some (msgs ! i)) ''content'') of
                  None \<Rightarrow> msgs
                | Some orig \<Rightarrow>
                    if ubuf_ok
                    then msgs[i := set_string L (msgs ! i) ''content'' (cstr_or_empty pre @ orig @ cstr_or_empty suf)]
                    else msgs))"

record apply_in =
  ai_now :: int
  ai_expand_ok :: bool
  ai_grow_ok :: "nat \<Rightarrow> bool"
  ai_combined_ok :: bool
  ai_user_ok :: bool

text \<open>The document afterwards, and the new text (\<open>None\<close> is the return value -1); \<open>None\<close> is a write outside
  a buffer.\<close>

definition prompt_template_apply ::
  "'j json_lib \<Rightarrow> apply_in \<Rightarrow> prompt_template \<Rightarrow> string option \<Rightarrow> string option \<Rightarrow> 'j \<Rightarrow> ('j \<times> string option) option" where
  "prompt_template_apply L ai tmpl model key_name jbody =
     (if \<not> jo_is_object L jbody \<or> cstr_or_empty (pt_system_template tmpl) = [] then Some (jbody, None)
      else case prompt_template_expand_vars (ai_expand_ok ai) (ai_grow_ok ai) (ai_now ai) (pt_system_template tmpl) model key_name of
        Buf_Overrun \<Rightarrow> None
      | Buf_Oom \<Rightarrow> Some (jbody, None)
      | Buf_Done None \<Rightarrow> Some (jbody, None)
      | Buf_Done (Some expanded) \<Rightarrow>
          (case jo_array L (jo_get L (Some jbody) ''messages'') of
             None \<Rightarrow> Some (jbody, None)
           | Some msgs \<Rightarrow>
               (case apply_system L (ai_combined_ok ai) (pt_mode tmpl) expanded msgs of
                  None \<Rightarrow> Some (jbody, None)
                | Some msgs1 \<Rightarrow>
                    let msgs2 = apply_user L (ai_user_ok ai) (pt_prefix_user_prompt tmpl) (pt_suffix_user_prompt tmpl) msgs1;
                        jbody2 = jl_set L jbody ''messages'' (Some (jl_array L msgs2))
                    in Some (jbody2, jl_dumps L jbody2))))"

end
