(* ===== verification/Guardrails.thy ===== *)
theory Guardrails
  imports Ac_Trie Pii_Replace Prompt_Template
begin

text \<open>
  The guardrails engine of \<^verbatim>\<open>src/policy/guardrails.c\<close>: loading its rules into the two keyword automata and the
  table of webhooks, and the inspection of a request body, first for keywords and then for personal data in the
  places of a chat request that hold text. \<^verbatim>\<open>json_loads\<close> is \<open>jo_loadb\<close> of the JSON library. A change of a message in place is
  a change of the array and of the document that hold it.
\<close>

section \<open>Rules\<close>

record guardrail_rule =
  gl_id :: int
  gl_rule_type :: string
  gl_pattern :: string
  gl_action :: string
  gl_enabled :: bool
  gl_webhook_secret :: string
  gl_timeout_ms :: int
  gl_fail_mode :: string
  gl_phase :: string

record guardrail_webhook_rule =
  wh_id :: int
  wh_url :: string
  wh_secret :: string
  wh_timeout_ms :: int
  wh_fail_mode :: string
  wh_phase :: string

definition MAX_WEBHOOK_RULES :: nat where "MAX_WEBHOOK_RULES = 16"

record guardrails_ctx =
  gr_block :: ac_trie
  gr_exempt :: ac_trie
  gr_pii_cfg :: pii_config
  gr_webhooks :: "guardrail_webhook_rule list"

definition guardrails_create :: guardrails_ctx where
  "guardrails_create =
     \<lparr>gr_block = ac_trie_create, gr_exempt = ac_trie_create, gr_pii_cfg = default_pii_config, gr_webhooks = []\<rparr>"

definition guardrails_set_pii_config :: "guardrails_ctx \<Rightarrow> pii_config \<Rightarrow> guardrails_ctx" where
  "guardrails_set_pii_config g cfg = g\<lparr>gr_pii_cfg := cfg\<rparr>"

definition webhook_of_rule :: "guardrail_rule \<Rightarrow> guardrail_webhook_rule" where
  "webhook_of_rule r =
     \<lparr>wh_id = gl_id r,
      wh_url = cstr_copy 512 (gl_pattern r),
      wh_secret = cstr_copy 256 (gl_webhook_secret r),
      wh_timeout_ms = (if gl_timeout_ms r > 0 then gl_timeout_ms r else 500),
      wh_fail_mode = cstr_copy 16 (if gl_fail_mode r \<noteq> [] then gl_fail_mode r else ''open''),
      wh_phase = cstr_copy 16 (if gl_phase r \<noteq> [] then gl_phase r else ''inbound'')\<rparr>"

text \<open>The allocations of a reload: growing a trie, copying a keyword, the two queues, copying an inherited keyword.\<close>

record load_heap =
  lh_create :: bool
  lh_grow :: "nat \<Rightarrow> bool"
  lh_keyword :: "string \<Rightarrow> bool"
  lh_block_queue :: bool
  lh_exempt_queue :: bool
  lh_inherit :: "nat \<Rightarrow> bool"

type_synonym load_state = "ac_trie \<times> ac_trie \<times> guardrail_webhook_rule list"

definition load_insert :: "load_heap \<Rightarrow> ac_trie \<Rightarrow> string \<Rightarrow> ac_trie" where
  "load_insert h t pattern = fst (ac_trie_insert (lh_grow h) (lh_keyword h pattern) t pattern)"

definition load_rule :: "load_heap \<Rightarrow> load_state \<Rightarrow> guardrail_rule \<Rightarrow> load_state" where
  "load_rule h st r =
     (case st of (block, exempt, hooks) \<Rightarrow>
        if \<not> gl_enabled r then st
        else if gl_rule_type r = ''webhook''
        then (block, exempt, if length hooks < MAX_WEBHOOK_RULES then hooks @ [webhook_of_rule r] else hooks)
        else if gl_rule_type r = ''keyword'' \<or> gl_action r = ''block'' then (load_insert h block (gl_pattern r), exempt, hooks)
        else if gl_rule_type r = ''exempt'' then (block, load_insert h exempt (gl_pattern r), hooks)
        else st)"

text \<open>The engine afterwards and whether the rules were replaced; what \<open>ac_trie_build_failure_links\<close> returns is not looked at.\<close>

definition guardrails_load_rules :: "load_heap \<Rightarrow> guardrails_ctx \<Rightarrow> guardrail_rule list \<Rightarrow> (guardrails_ctx \<times> bool) option" where
  "guardrails_load_rules h g rules =
     (if \<not> lh_create h then Some (g, False)
      else case foldl (load_rule h) (ac_trie_create, ac_trie_create, []) rules of (block, exempt, hooks) \<Rightarrow>
        do {
          b \<leftarrow> ac_trie_build_failure_links (lh_block_queue h) (lh_inherit h) block;
          e \<leftarrow> ac_trie_build_failure_links (lh_exempt_queue h) (lh_inherit h) exempt;
          Some (g\<lparr>gr_block := fst b, gr_exempt := fst e, gr_webhooks := hooks\<rparr>, True)
        })"

section \<open>Texts in a document\<close>

text \<open>What a scan ends with: a fault of a text pass, data that blocks the request, or the value with the changes,
  whether it has any, and the session map.\<close>

datatype 'a scan = Scan_Fault | Scan_Blocked "pii_entry list option" | Scan_Ok 'a bool "pii_entry list option"

definition scan_text :: "(nat \<Rightarrow> bool) \<Rightarrow> pii_config \<Rightarrow> string \<Rightarrow> pii_entry list option \<Rightarrow> string option scan" where
  "scan_text ok cfg s m =
     (case guardrails_transform_pii_text ok cfg s m of
        Some (Buf_Done fl) \<Rightarrow>
          (if pf_action fl = PII_ACTION_BLOCK then Scan_Blocked (pf_map fl)
           else Scan_Ok (if pf_changed fl then pf_text fl else None) (pf_changed fl \<and> pf_text fl \<noteq> None) (pf_map fl))
      | _ \<Rightarrow> Scan_Fault)"

text \<open>The string \<open>s\<close> at \<open>key\<close> of \<open>obj\<close>.\<close>

definition scan_field ::
  "'j json_lib \<Rightarrow> (nat \<Rightarrow> bool) \<Rightarrow> pii_config \<Rightarrow> string \<Rightarrow> string \<Rightarrow> 'j \<Rightarrow> pii_entry list option \<Rightarrow> 'j scan" where
  "scan_field L ok cfg key s obj m =
     (case scan_text ok cfg s m of
        Scan_Fault \<Rightarrow> Scan_Fault
      | Scan_Blocked m' \<Rightarrow> Scan_Blocked m'
      | Scan_Ok None ch m' \<Rightarrow> Scan_Ok obj False m'
      | Scan_Ok (Some s') ch m' \<Rightarrow> Scan_Ok (set_string L obj key s') True m')"

text \<open>A member that is a string, or no text.\<close>

definition scan_member :: "'j json_lib \<Rightarrow> (nat \<Rightarrow> bool) \<Rightarrow> pii_config \<Rightarrow> string \<Rightarrow> 'j \<Rightarrow> pii_entry list option \<Rightarrow> 'j scan" where
  "scan_member L ok cfg key obj m =
     (case jo_string L (jo_get L (Some obj) key) of
        None \<Rightarrow> Scan_Ok obj False m
      | Some s \<Rightarrow> scan_field L ok cfg key s obj m)"

definition scan_part :: "'j json_lib \<Rightarrow> (nat \<Rightarrow> bool) \<Rightarrow> pii_config \<Rightarrow> 'j \<Rightarrow> pii_entry list option \<Rightarrow> 'j scan" where
  "scan_part L ok cfg part m = (if jo_is_object L part then scan_member L ok cfg ''text'' part m else Scan_Ok part False m)"

fun scan_list :: "('j \<Rightarrow> pii_entry list option \<Rightarrow> 'j scan) \<Rightarrow> 'j list \<Rightarrow> pii_entry list option \<Rightarrow> 'j list scan" where
  "scan_list f [] m = Scan_Ok [] False m"
| "scan_list f (x # xs) m =
     (case f x m of
        Scan_Fault \<Rightarrow> Scan_Fault
      | Scan_Blocked m1 \<Rightarrow> Scan_Blocked m1
      | Scan_Ok x' ch1 m1 \<Rightarrow>
          (case scan_list f xs m1 of
             Scan_Fault \<Rightarrow> Scan_Fault
           | Scan_Blocked m2 \<Rightarrow> Scan_Blocked m2
           | Scan_Ok xs' ch2 m2 \<Rightarrow> Scan_Ok (x' # xs') (ch1 \<or> ch2) m2))"

text \<open>The elements of the array at \<open>key\<close>, if there is one.\<close>

definition scan_array ::
  "'j json_lib \<Rightarrow> ('j \<Rightarrow> pii_entry list option \<Rightarrow> 'j scan) \<Rightarrow> string \<Rightarrow> 'j \<Rightarrow> pii_entry list option \<Rightarrow> 'j scan" where
  "scan_array L f key obj m =
     (case jo_array L (jo_get L (Some obj) key) of
        None \<Rightarrow> Scan_Ok obj False m
      | Some xs \<Rightarrow>
          (case scan_list f xs m of
             Scan_Fault \<Rightarrow> Scan_Fault
           | Scan_Blocked m' \<Rightarrow> Scan_Blocked m'
           | Scan_Ok xs' ch m' \<Rightarrow> Scan_Ok (if ch then jl_set L obj key (Some (jl_array L xs')) else obj) ch m'))"

definition scan_message :: "'j json_lib \<Rightarrow> (nat \<Rightarrow> bool) \<Rightarrow> pii_config \<Rightarrow> 'j \<Rightarrow> pii_entry list option \<Rightarrow> 'j scan" where
  "scan_message L ok cfg msg m =
     (if \<not> jo_is_object L msg then Scan_Ok msg False m
      else case jo_string L (jo_get L (Some msg) ''content'') of
        Some s \<Rightarrow> scan_field L ok cfg ''content'' s msg m
      | None \<Rightarrow> scan_array L (scan_part L ok cfg) ''content'' msg m)"

definition scan_contents_item :: "'j json_lib \<Rightarrow> (nat \<Rightarrow> bool) \<Rightarrow> pii_config \<Rightarrow> 'j \<Rightarrow> pii_entry list option \<Rightarrow> 'j scan" where
  "scan_contents_item L ok cfg item m =
     (if jo_is_object L item then scan_array L (scan_part L ok cfg) ''parts'' item m else Scan_Ok item False m)"

text \<open>The four places of a document, one after the other.\<close>

definition scan_steps :: "'j json_lib \<Rightarrow> (nat \<Rightarrow> bool) \<Rightarrow> pii_config \<Rightarrow> ('j \<Rightarrow> pii_entry list option \<Rightarrow> 'j scan) list" where
  "scan_steps L ok cfg =
     [scan_array L (scan_message L ok cfg) ''messages'',
      scan_member L ok cfg ''prompt'',
      scan_member L ok cfg ''system'',
      scan_array L (scan_contents_item L ok cfg) ''contents'']"

fun scan_chain :: "('j \<Rightarrow> pii_entry list option \<Rightarrow> 'j scan) list \<Rightarrow> 'j \<Rightarrow> bool \<Rightarrow> pii_entry list option \<Rightarrow> 'j scan" where
  "scan_chain [] j ch m = Scan_Ok j ch m"
| "scan_chain (f # fs) j ch m =
     (case f j m of
        Scan_Fault \<Rightarrow> Scan_Fault
      | Scan_Blocked m1 \<Rightarrow> Scan_Blocked m1
      | Scan_Ok j1 ch1 m1 \<Rightarrow> scan_chain fs j1 (ch \<or> ch1) m1)"

section \<open>Inspection\<close>

datatype guardrails_action = GUARDRAILS_PASS | GUARDRAILS_MASKED | GUARDRAILS_BLOCKED

record inspect_result =
  in_action :: guardrails_action
  in_reason :: string
  in_body :: "string option"
  in_map :: "pii_entry list option"

definition inspect_pass :: "pii_entry list option \<Rightarrow> inspect_result" where
  "inspect_pass m = \<lparr>in_action = GUARDRAILS_PASS, in_reason = [], in_body = None, in_map = m\<rparr>"

definition inspect_blocked :: "string \<Rightarrow> pii_entry list option \<Rightarrow> inspect_result" where
  "inspect_blocked reason m = \<lparr>in_action = GUARDRAILS_BLOCKED, in_reason = cstr_copy 128 reason, in_body = None, in_map = m\<rparr>"

definition inspect_masked :: "string \<Rightarrow> pii_entry list option \<Rightarrow> inspect_result" where
  "inspect_masked s m = \<lparr>in_action = GUARDRAILS_MASKED, in_reason = [], in_body = Some s, in_map = m\<rparr>"

text \<open>The search for personal data.\<close>

definition inspect_pii ::
  "'j json_lib \<Rightarrow> (nat \<Rightarrow> bool) \<Rightarrow> pii_config \<Rightarrow> string \<Rightarrow> pii_entry list option \<Rightarrow> inspect_result option" where
  "inspect_pii L ok cfg body m =
     (case (case jo_loadb L body of Some doc \<Rightarrow> if jo_is_object L doc then Some doc else None | None \<Rightarrow> None) of
        Some doc \<Rightarrow>
          (case scan_chain (scan_steps L ok cfg) doc False m of
             Scan_Fault \<Rightarrow> None
           | Scan_Blocked m' \<Rightarrow> Some (inspect_blocked ''sensitive_data_blocked'' m')
           | Scan_Ok doc' ch m' \<Rightarrow>
               Some (if ch then (case jl_dumps L doc' of Some s \<Rightarrow> inspect_masked s m' | None \<Rightarrow> inspect_pass m')
                     else inspect_pass m'))
      | None \<Rightarrow>
          (case scan_text ok cfg body m of
             Scan_Fault \<Rightarrow> None
           | Scan_Blocked m' \<Rightarrow> Some (inspect_blocked ''sensitive_data_blocked'' m')
           | Scan_Ok None ch m' \<Rightarrow> Some (inspect_pass m')
           | Scan_Ok (Some s) ch m' \<Rightarrow> Some (inspect_masked s m')))"

definition guardrails_inspect_inbound_with_pii ::
  "'j json_lib \<Rightarrow> (nat \<Rightarrow> bool) \<Rightarrow> guardrails_ctx \<Rightarrow> string \<Rightarrow> pii_entry list option \<Rightarrow> inspect_result option" where
  "guardrails_inspect_inbound_with_pii L ok g body m =
     (if body = [] then Some (inspect_pass m)
      else do {
        hit \<leftarrow> ac_trie_search (gr_block g) body;
        exempt \<leftarrow> (case hit of None \<Rightarrow> Some None | Some _ \<Rightarrow> ac_trie_search (gr_exempt g) body);
        (case (hit, exempt) of
           (Some kw, None) \<Rightarrow> Some (inspect_blocked kw m)
         | _ \<Rightarrow> inspect_pii L ok (gr_pii_cfg g) body m)
      })"

definition guardrails_inspect_inbound ::
  "'j json_lib \<Rightarrow> (nat \<Rightarrow> bool) \<Rightarrow> guardrails_ctx \<Rightarrow> string \<Rightarrow> inspect_result option" where
  "guardrails_inspect_inbound L ok g body = guardrails_inspect_inbound_with_pii L ok g body None"

end
