(* ===== verification/Webhook.thy ===== *)
theory Webhook
  imports Guardrails
begin

text \<open>
  The external moderation of \<^verbatim>\<open>src/policy/guardrails.c\<close>: what is sent to a webhook, what its answer or its failure
  decides, and the chain of webhooks over a request or a response. The HTTP client is a parameter,
  \<open>post rule text\<close>, whose answer says whether the transfer succeeded, the status and the body; the
  log is left out. \<^verbatim>\<open>strdup\<close> and the response buffer are taken to succeed.
\<close>

section \<open>Parameters\<close>

record 'j hook_lib = "'j json_lib" +
  jl_integer :: "int \<Rightarrow> 'j option"
  jl_null :: "'j option"

record http_answer =
  ha_ok :: bool
  ha_code :: int
  ha_body :: "string option"

text \<open>\<open>curl_easy_init\<close>, the POST and the time.\<close>

record hook_env =
  he_init :: bool
  he_post :: "guardrail_webhook_rule \<Rightarrow> string \<Rightarrow> http_answer"
  he_now :: int

section \<open>One webhook\<close>

definition webhook_request ::
  "'j hook_lib \<Rightarrow> hook_env \<Rightarrow> string \<Rightarrow> string \<Rightarrow> int \<Rightarrow> string \<Rightarrow> 'j option \<Rightarrow> string option" where
  "webhook_request L env phase model key_id content messages =
     (case jl_object L of
        None \<Rightarrow> None
      | Some o0 \<Rightarrow>
          (let L' = json_lib.truncate L;
               o1 = set_string L' o0 ''phase'' phase;
               o2 = set_string L' o1 ''model'' model;
               o3 = jl_set L o2 ''key_id'' (jl_integer L key_id);
               o4 = set_string L' o3 ''content'' content;
               o5 = jl_set L o4 ''messages'' (case messages of Some ms \<Rightarrow> Some ms | None \<Rightarrow> jl_null L);
               o6 = jl_set L o5 ''timestamp'' (jl_integer L (he_now env))
           in jl_dumps L o6))"

text \<open>What a webhook decides: a masked text, if it gives one, and the reason when it blocks. A failure blocks if
  the rule is closed.\<close>

record hook_result =
  hr_action :: guardrails_action
  hr_masked :: "string option"
  hr_reason :: "string option"

definition hook_pass :: hook_result where
  "hook_pass = \<lparr>hr_action = GUARDRAILS_PASS, hr_masked = None, hr_reason = None\<rparr>"

definition hook_block :: "string \<Rightarrow> hook_result" where
  "hook_block reason = \<lparr>hr_action = GUARDRAILS_BLOCKED, hr_masked = None, hr_reason = Some (cstr_copy 128 reason)\<rparr>"

definition hook_failed :: "guardrail_webhook_rule \<Rightarrow> string \<Rightarrow> hook_result" where
  "hook_failed rule reason = (if map to_lower (wh_fail_mode rule) = ''closed'' then hook_block reason else hook_pass)"

definition hook_answer :: "'j hook_lib \<Rightarrow> 'j \<Rightarrow> hook_result" where
  "hook_answer L resp =
     (let act = map to_lower (case jo_string L (jo_get L (Some resp) ''action'') of Some s \<Rightarrow> s | None \<Rightarrow> ''pass'')
      in if act = ''block''
         then hook_block (case jo_string L (jo_get L (Some resp) ''reason'') of Some s \<Rightarrow> s | None \<Rightarrow> ''content_policy_violation'')
         else if act = ''mask''
         then (case jo_string L (jo_get L (Some resp) ''masked_content'') of
                 Some s \<Rightarrow> \<lparr>hr_action = GUARDRAILS_MASKED, hr_masked = Some s, hr_reason = None\<rparr>
               | None \<Rightarrow> hook_pass)
         else hook_pass)"

definition execute_single_webhook ::
  "'j hook_lib \<Rightarrow> hook_env \<Rightarrow> guardrail_webhook_rule \<Rightarrow> string \<Rightarrow> string \<Rightarrow> int \<Rightarrow> string \<Rightarrow> 'j option \<Rightarrow> hook_result" where
  "execute_single_webhook L env rule phase model key_id content messages =
     (case webhook_request L env phase model key_id content messages of
        None \<Rightarrow> hook_pass
      | Some req \<Rightarrow>
          if \<not> he_init env then hook_failed rule ''moderation_curl_init_failed''
          else let a = he_post env rule req
               in if \<not> ha_ok a \<or> ha_code a < 200 \<or> ha_code a \<ge> 300 then hook_failed rule ''moderation_webhook_unavailable''
                  else (case jo_loadb L (cstr_or_empty (ha_body a)) of
                          None \<Rightarrow> hook_failed rule ''moderation_webhook_invalid_response''
                        | Some resp \<Rightarrow>
                            if jo_is_object L resp then hook_answer L resp
                            else hook_failed rule ''moderation_webhook_invalid_response''))"

section \<open>The text of a request\<close>

text \<open>The text of the first part that has one.\<close>

definition first_part_text :: "'j json_lib \<Rightarrow> 'j list \<Rightarrow> string option" where
  "first_part_text L parts =
     (case find_idx (\<lambda>p. jo_string L (jo_get L (Some p) ''text'') \<noteq> None) parts of
        None \<Rightarrow> None
      | Some i \<Rightarrow> jo_string L (jo_get L (Some (parts ! i)) ''text''))"

fun first_some :: "('a \<Rightarrow> 'b option) \<Rightarrow> 'a list \<Rightarrow> 'b option" where
  "first_some f [] = None"
| "first_some f (x # xs) = (case f x of Some y \<Rightarrow> Some y | None \<Rightarrow> first_some f xs)"

text \<open>The text of a message, if it is of the user.\<close>

definition user_text :: "'j json_lib \<Rightarrow> 'j \<Rightarrow> string option" where
  "user_text L m =
     (if has_role L ''user'' m
      then (case jo_string L (jo_get L (Some m) ''content'') of
              Some s \<Rightarrow> Some s
            | None \<Rightarrow> (case jo_array L (jo_get L (Some m) ''content'') of Some parts \<Rightarrow> first_part_text L parts | None \<Rightarrow> None))
      else None)"

definition item_text :: "'j json_lib \<Rightarrow> 'j \<Rightarrow> string option" where
  "item_text L item = (case jo_array L (jo_get L (Some item) ''parts'') of Some parts \<Rightarrow> first_part_text L parts | None \<Rightarrow> None)"

text \<open>The text and the array of messages.\<close>

definition extract_inbound_info :: "'j json_lib \<Rightarrow> 'j option \<Rightarrow> string \<Rightarrow> string \<times> 'j option" where
  "extract_inbound_info L doc raw =
     (case (case doc of Some d \<Rightarrow> if jo_is_object L d then Some d else None | None \<Rightarrow> None) of
        None \<Rightarrow> (raw, None)
      | Some d \<Rightarrow>
          (let msgs = jo_get L (Some d) ''messages'';
               out_msgs = (if jo_array L msgs = None then None else msgs)
           in case first_some (user_text L) (rev (case jo_array L msgs of Some xs \<Rightarrow> xs | None \<Rightarrow> [])) of
                Some s \<Rightarrow> (s, out_msgs)
              | None \<Rightarrow>
                  (case jo_string L (jo_get L (Some d) ''prompt'') of
                     Some s \<Rightarrow> (s, out_msgs)
                   | None \<Rightarrow>
                       (case first_some (item_text L) (rev (case jo_array L (jo_get L (Some d) ''contents'') of Some xs \<Rightarrow> xs | None \<Rightarrow> [])) of
                          Some s \<Rightarrow> (s, out_msgs)
                        | None \<Rightarrow> (raw, out_msgs)))))"

text \<open>The masked text in the place of the last message of the user, or of the last message; in the prompt; in the first part of
  the last item.\<close>

definition mask_messages :: "'j json_lib \<Rightarrow> string \<Rightarrow> 'j list \<Rightarrow> 'j list option" where
  "mask_messages L masked msgs =
     (case last_user L msgs of
        Some i \<Rightarrow> Some (msgs[i := set_string L (msgs ! i) ''content'' masked])
      | None \<Rightarrow>
          (let i = length msgs - 1
           in if msgs \<noteq> [] \<and> jo_is_object L (msgs ! i)
              then Some (msgs[i := set_string L (msgs ! i) ''content'' masked]) else None))"

definition mask_contents :: "'j json_lib \<Rightarrow> string \<Rightarrow> 'j list \<Rightarrow> 'j list option" where
  "mask_contents L masked items =
     (if items = [] then None
      else let i = length items - 1; item = items ! i
           in (case jo_array L (jo_get L (Some item) ''parts'') of
                 Some (p # ps) \<Rightarrow>
                   (if jo_is_object L p
                    then Some (items[i := jl_set L item ''parts'' (Some (jl_array L (set_string L p ''text'' masked # ps)))])
                    else None)
               | _ \<Rightarrow> None))"

definition mask_array :: "'j json_lib \<Rightarrow> string \<Rightarrow> ('j list \<Rightarrow> 'j list option) \<Rightarrow> 'j \<Rightarrow> 'j option" where
  "mask_array L key f d =
     (case jo_array L (jo_get L (Some d) key) of
        None \<Rightarrow> None
      | Some xs \<Rightarrow> map_option (\<lambda>ys. jl_set L d key (Some (jl_array L ys))) (f xs))"

definition apply_inbound_mask :: "'j json_lib \<Rightarrow> string \<Rightarrow> string \<Rightarrow> string" where
  "apply_inbound_mask L body masked =
     (case (case jo_loadb L body of Some d \<Rightarrow> if jo_is_object L d then Some d else None | None \<Rightarrow> None) of
        None \<Rightarrow> masked
      | Some d \<Rightarrow>
          (let d' = (case mask_array L ''messages'' (mask_messages L masked) d of
                       Some d1 \<Rightarrow> d1
                     | None \<Rightarrow>
                         if jo_get L (Some d) ''prompt'' \<noteq> None then set_string L d ''prompt'' masked
                         else (case mask_array L ''contents'' (mask_contents L masked) d of Some d1 \<Rightarrow> d1 | None \<Rightarrow> d))
           in case jl_dumps L d' of Some s \<Rightarrow> s | None \<Rightarrow> masked))"

section \<open>The text of a response\<close>

definition extract_outbound_content :: "'j json_lib \<Rightarrow> 'j option \<Rightarrow> string \<Rightarrow> string" where
  "extract_outbound_content L doc body =
     (case (case doc of Some d \<Rightarrow> if jo_is_object L d then jo_array L (jo_get L (Some d) ''choices'') else None | None \<Rightarrow> None) of
        Some (c # cs) \<Rightarrow>
          (if jo_is_object L c
           then (case (case jo_get L (Some c) ''message'' of
                         Some msg \<Rightarrow> if jo_is_object L msg then jo_string L (jo_get L (Some msg) ''content'') else None
                       | None \<Rightarrow> None) of
                   Some s \<Rightarrow> s
                 | None \<Rightarrow> (case jo_string L (jo_get L (Some c) ''text'') of Some s \<Rightarrow> s | None \<Rightarrow> body))
           else body)
      | _ \<Rightarrow> body)"

definition mask_choice :: "'j json_lib \<Rightarrow> string \<Rightarrow> 'j \<Rightarrow> 'j" where
  "mask_choice L masked c =
     (case (case jo_get L (Some c) ''message'' of Some msg \<Rightarrow> if jo_is_object L msg then Some msg else None | None \<Rightarrow> None) of
        Some msg \<Rightarrow> jl_set L c ''message'' (Some (set_string L msg ''content'' masked))
      | None \<Rightarrow> (if jo_get L (Some c) ''text'' \<noteq> None then set_string L c ''text'' masked else c))"

definition apply_outbound_mask :: "'j json_lib \<Rightarrow> string \<Rightarrow> string \<Rightarrow> string" where
  "apply_outbound_mask L body masked =
     (case (case jo_loadb L body of Some d \<Rightarrow> if jo_is_object L d then Some d else None | None \<Rightarrow> None) of
        None \<Rightarrow> masked
      | Some d \<Rightarrow>
          (let d' = (case jo_array L (jo_get L (Some d) ''choices'') of
                       Some (c # cs) \<Rightarrow>
                         (if jo_is_object L c then jl_set L d ''choices'' (Some (jl_array L (mask_choice L masked c # cs))) else d)
                     | _ \<Rightarrow> d)
           in case jl_dumps L d' of Some s \<Rightarrow> s | None \<Rightarrow> masked))"

section \<open>The chain\<close>

definition in_phase :: "string \<Rightarrow> guardrail_webhook_rule \<Rightarrow> bool" where
  "in_phase phase r \<longleftrightarrow> map to_lower (wh_phase r) = phase \<or> map to_lower (wh_phase r) = ''both''"

text \<open>The body as the webhooks leave it; \<open>run rule body\<close> asks one of them and \<open>put body text\<close> puts a masked text into the body. The
  reason is that of the last webhook that wrote one.\<close>

record hooks_result =
  hs_action :: guardrails_action
  hs_body :: "string option"
  hs_reason :: string

fun run_webhooks ::
  "(guardrail_webhook_rule \<Rightarrow> string \<Rightarrow> hook_result) \<Rightarrow> (string \<Rightarrow> string \<Rightarrow> string) \<Rightarrow> guardrail_webhook_rule list \<Rightarrow> string \<Rightarrow> bool \<Rightarrow> hooks_result" where
  "run_webhooks run put [] body masked =
     (if masked then \<lparr>hs_action = GUARDRAILS_MASKED, hs_body = Some body, hs_reason = []\<rparr>
      else \<lparr>hs_action = GUARDRAILS_PASS, hs_body = None, hs_reason = []\<rparr>)"
| "run_webhooks run put (r # rs) body masked =
     (let h = run r body
      in if hr_action h = GUARDRAILS_BLOCKED
         then \<lparr>hs_action = GUARDRAILS_BLOCKED, hs_body = None, hs_reason = cstr_or_empty (hr_reason h)\<rparr>
         else case (hr_action h, hr_masked h) of
           (GUARDRAILS_MASKED, Some s) \<Rightarrow> run_webhooks run put rs (put body s) True
         | _ \<Rightarrow> run_webhooks run put rs body masked)"

definition guardrails_inspect_webhook_inbound ::
  "'j hook_lib \<Rightarrow> hook_env \<Rightarrow> guardrails_ctx \<Rightarrow> string \<Rightarrow> int \<Rightarrow> string \<Rightarrow> hooks_result" where
  "guardrails_inspect_webhook_inbound L env g model key_id raw =
     (if raw = [] then \<lparr>hs_action = GUARDRAILS_PASS, hs_body = None, hs_reason = []\<rparr>
      else run_webhooks
        (\<lambda>r body. case extract_inbound_info (json_lib.truncate L) (jo_loadb L body) body of
            (content, msgs) \<Rightarrow> execute_single_webhook L env r ''inbound'' model key_id content msgs)
        (apply_inbound_mask (json_lib.truncate L))
        (filter (in_phase ''inbound'') (gr_webhooks g)) raw False)"

definition guardrails_inspect_webhook_outbound ::
  "'j hook_lib \<Rightarrow> hook_env \<Rightarrow> guardrails_ctx \<Rightarrow> string \<Rightarrow> int \<Rightarrow> string \<Rightarrow> hooks_result" where
  "guardrails_inspect_webhook_outbound L env g model key_id body =
     (if body = [] then \<lparr>hs_action = GUARDRAILS_PASS, hs_body = None, hs_reason = []\<rparr>
      else run_webhooks
        (\<lambda>r body. execute_single_webhook L env r ''outbound'' model key_id
            (extract_outbound_content (json_lib.truncate L) (jo_loadb L body) body) None)
        (apply_outbound_mask (json_lib.truncate L))
        (filter (in_phase ''outbound'') (gr_webhooks g)) body False)"

end
