(* ===== verification/Filter_Chain.thy ===== *)
theory Filter_Chain
  imports Webhook Pii_Restore Jailbreak Threat_Whitelist
begin

text \<open>
  The filters of \<^verbatim>\<open>src/policy/filter_chain.c\<close> that a chat request and its response go through: guardrails and webhooks,
  the jailbreak detector with its whitelist, the prompt template and the plugins; on the way back the
  webhooks, the restoring of personal data, the watermark and the plugins. The Lua runtime and the
  watermark are arguments. What is written to the client, metered and audited is a list of effects.
\<close>

section \<open>Requests\<close>

datatype filter_action = FILTER_CONTINUE | FILTER_STOP

datatype fc_effect =
  Fx_Error int string string
| Fx_Usage int
| Fx_Audit string string
| Fx_Json int string

text \<open>Whether \<open>model\<close> points into the parsed body (\<open>fq_model_borrowed\<close>), and whether that body has been released meanwhile.\<close>

record 'j filter_req =
  fq_raw :: string
  fq_guardrails_enabled :: bool
  fq_key_id :: int
  fq_key_name :: string
  fq_key_prompt :: string
  fq_key_mode :: int
  fq_route_prompt :: string
  fq_route_mode :: int
  fq_watermark_enabled :: bool
  fq_jbody :: "'j option"
  fq_model :: string
  fq_model_borrowed :: bool
  fq_model_dangling :: bool
  fq_eff :: string
  fq_sanitized :: "string option"
  fq_map :: "pii_entry list"
  fq_act :: string
  fq_status :: int
  fq_effects :: "fc_effect list"

text \<open>What a plugin run decides about a request, given the model and the body.\<close>

record lua_reply =
  lr_abort :: bool
  lr_status :: int
  lr_abort_body :: "string option"
  lr_model :: "string option"
  lr_body :: "string option"
  lr_new_status :: int

record fc_env =
  fe_ok :: "nat \<Rightarrow> bool"
  fe_now :: int
  fe_hooks :: hook_env
  fe_engine :: "guardrails_ctx option"
  fe_whitelist :: "threat_whitelist option"
  fe_detect_ok :: bool
  fe_apply :: apply_in
  fe_plugins :: "(string \<Rightarrow> string \<Rightarrow> lua_reply) option"
  fe_response_plugins :: "(string \<Rightarrow> int \<Rightarrow> string \<Rightarrow> lua_reply) option"
  fe_watermark :: "string \<Rightarrow> string option"

definition fq_emit :: "fc_effect list \<Rightarrow> 'j filter_req \<Rightarrow> 'j filter_req" where
  "fq_emit fx q = q\<lparr>fq_effects := fq_effects q @ fx\<rparr>"

text \<open>A new body, which replaces the one a filter made before.\<close>

definition set_body :: "string \<Rightarrow> 'j filter_req \<Rightarrow> 'j filter_req" where
  "set_body s q = q\<lparr>fq_sanitized := Some s, fq_eff := s\<rparr>"

section \<open>The request\<close>

definition reason_or :: "string \<Rightarrow> string \<Rightarrow> string" where
  "reason_or s d = (if s \<noteq> [] then s else d)"

definition policy_block :: "string \<Rightarrow> string \<Rightarrow> string \<Rightarrow> string \<Rightarrow> string \<Rightarrow> fc_effect list" where
  "policy_block code msg detail tag reason =
     [Fx_Error 400 code (cstr_copy 256 (msg @ detail)), Fx_Usage 400, Fx_Audit tag reason]"

text \<open>A text that masks the body.\<close>

definition take_mask :: "guardrails_action \<Rightarrow> string option \<Rightarrow> 'j filter_req \<Rightarrow> 'j filter_req" where
  "take_mask act body q =
     (case (act, body) of (GUARDRAILS_MASKED, Some s) \<Rightarrow> (set_body s q)\<lparr>fq_act := ''masked''\<rparr> | _ \<Rightarrow> q)"

text \<open>The first level, keywords and personal data, and the second, the webhooks, which see the body as the first left it.\<close>

definition filter_local :: "'j hook_lib \<Rightarrow> fc_env \<Rightarrow> guardrails_ctx \<Rightarrow> 'j filter_req \<Rightarrow> ('j filter_req \<times> filter_action) option" where
  "filter_local L env g q =
     (case guardrails_inspect_inbound_with_pii (json_lib.truncate L) (fe_ok env) g (fq_raw q) (Some (fq_map q)) of
        None \<Rightarrow> None
      | Some res \<Rightarrow>
          (let q1 = q\<lparr>fq_map := (case in_map res of Some m \<Rightarrow> m | None \<Rightarrow> fq_map q)\<rparr>;
               rule = reason_or (in_reason res) ''blocked content''
           in Some (if in_action res = GUARDRAILS_BLOCKED
                    then (fq_emit (policy_block ''content_policy_violation'' ''Blocked by safety guardrail rule: '' rule ''guardrail_block'' rule) q1,
                          FILTER_STOP)
                    else (take_mask (in_action res) (in_body res) q1, FILTER_CONTINUE))))"

definition filter_webhooks :: "'j hook_lib \<Rightarrow> fc_env \<Rightarrow> guardrails_ctx \<Rightarrow> 'j filter_req \<Rightarrow> 'j filter_req \<times> filter_action" where
  "filter_webhooks L env g q =
     (let wh = guardrails_inspect_webhook_inbound L (fe_hooks env) g (fq_model q) (fq_key_id q) (fq_eff q);
          why = reason_or (hs_reason wh) ''content_policy_violation''
      in if hs_action wh = GUARDRAILS_BLOCKED
         then (fq_emit (policy_block ''content_policy_violation'' ''Blocked by external moderation webhook: '' why ''guardrail_block'' why) q, FILTER_STOP)
         else (take_mask (hs_action wh) (hs_body wh) q, FILTER_CONTINUE))"

definition filter_guardrails :: "'j hook_lib \<Rightarrow> fc_env \<Rightarrow> 'j filter_req \<Rightarrow> ('j filter_req \<times> filter_action) option" where
  "filter_guardrails L env q0 =
     (let q = q0\<lparr>fq_sanitized := None, fq_eff := fq_raw q0\<rparr>
      in if \<not> fq_guardrails_enabled q \<or> fq_raw q = [] then Some (q, FILTER_CONTINUE)
         else case fe_engine env of
           None \<Rightarrow> Some (q, FILTER_CONTINUE)
         | Some g \<Rightarrow>
             (case filter_local L env g q of
                Some (q1, FILTER_CONTINUE) \<Rightarrow> Some (filter_webhooks L env g q1)
              | r \<Rightarrow> r))"

definition whitelisted :: "fc_env \<Rightarrow> 'j filter_req \<Rightarrow> string \<Rightarrow> bool" where
  "whitelisted env q tag =
     (case fe_whitelist env of
        None \<Rightarrow> False
      | Some tw \<Rightarrow> fst (threat_whitelist_is_bypassed tw (fe_now env) (word_of_int (fq_key_id q)) (Some (fq_model q)) (Some tag)))"

definition filter_jailbreak :: "fc_env \<Rightarrow> 'j filter_req \<Rightarrow> 'j filter_req \<times> filter_action" where
  "filter_jailbreak env q =
     (if \<not> fq_guardrails_enabled q \<or> fq_eff q = [] then (q, FILTER_CONTINUE)
      else let res = jailbreak_detector_inspect (fe_detect_ok env) (fq_eff q)
           in case jr_action res of
                JAILBREAK_ACTION_BLOCK \<Rightarrow>
                  (if whitelisted env q (jr_rule_tag res) then (q\<lparr>fq_act := ''whitelisted''\<rparr>, FILTER_CONTINUE)
                   else (fq_emit
                     [Fx_Error 400 ''adversarial_injection_detected''
                        (cstr_copy 256 (''Blocked by safety guardrail: adversarial injection detected ('' @
                           reason_or (jr_rule_tag res) ''jailbreak'' @ '')'')),
                      Fx_Usage 400, Fx_Audit ''jailbreak_detected'' (reason_or (jr_reason res) ''adversarial prompt injection'')] q,
                     FILTER_STOP))
              | JAILBREAK_ACTION_FLAG \<Rightarrow> (q\<lparr>fq_act := ''flagged''\<rparr>, FILTER_CONTINUE)
              | JAILBREAK_ACTION_PASS \<Rightarrow> (q, FILTER_CONTINUE))"

text \<open>The cast of a stored number to the enumeration; other numbers act as the first mode.\<close>

definition mode_of_int :: "int \<Rightarrow> prompt_inject_mode" where
  "mode_of_int n = (if n = 1 then PROMPT_MODE_APPEND else if n = 2 then PROMPT_MODE_OVERRIDE else PROMPT_MODE_PREPEND)"

text \<open>The template of the key, or of the route.\<close>

definition request_template :: "'j filter_req \<Rightarrow> prompt_template option" where
  "request_template q =
     (if fq_key_prompt q \<noteq> [] then Some \<lparr>pt_system_template = Some (fq_key_prompt q), pt_mode = mode_of_int (fq_key_mode q),
          pt_prefix_user_prompt = None, pt_suffix_user_prompt = None\<rparr>
      else if fq_route_prompt q \<noteq> [] then Some \<lparr>pt_system_template = Some (fq_route_prompt q), pt_mode = mode_of_int (fq_route_mode q),
          pt_prefix_user_prompt = None, pt_suffix_user_prompt = None\<rparr>
      else None)"

definition filter_prompt_template :: "'j hook_lib \<Rightarrow> fc_env \<Rightarrow> 'j filter_req \<Rightarrow> ('j filter_req \<times> filter_action) option" where
  "filter_prompt_template L env q =
     (case (request_template q, fq_jbody q) of
        (Some tmpl, Some j) \<Rightarrow>
          (case prompt_template_apply (json_lib.truncate L) (fe_apply env) tmpl (Some (fq_model q)) (Some (fq_key_name q)) j of
             None \<Rightarrow> None
           | Some (j', out) \<Rightarrow>
               (let q1 = q\<lparr>fq_jbody := Some j'\<rparr>
                in Some (case out of Some s \<Rightarrow> set_body s q1 | None \<Rightarrow> q1, FILTER_CONTINUE)))
      | _ \<Rightarrow> Some (q, FILTER_CONTINUE))"

text \<open>The plugins: they see the body as it stands and may end the request, change its model or replace its body, which is parsed again; the
  old document is released.\<close>

definition filter_lua_plugins_inbound :: "'j hook_lib \<Rightarrow> fc_env \<Rightarrow> 'j filter_req \<Rightarrow> 'j filter_req \<times> filter_action" where
  "filter_lua_plugins_inbound L env q =
     (case fe_plugins env of
        None \<Rightarrow> (q, FILTER_CONTINUE)
      | Some run \<Rightarrow>
          (let body = (if fq_eff q \<noteq> [] then fq_eff q
                       else case fq_jbody q of Some j \<Rightarrow> cstr_or_empty (jl_dumps L j) | None \<Rightarrow> []);
               res = run (fq_model q) body
           in if lr_abort res
              then (fq_emit [Fx_Json (if lr_status res > 0 then lr_status res else 403)
                               (case lr_abort_body res of Some s \<Rightarrow> s | None \<Rightarrow> ''{\"error\":\"aborted by plugin\"}'')] q, FILTER_STOP)
              else
                let q1 = (case lr_model res of
                            Some m \<Rightarrow> if m \<noteq> [] then q\<lparr>fq_model := cstr_copy 64 m, fq_model_borrowed := False\<rparr> else q
                          | None \<Rightarrow> q);
                    q2 = (case lr_body res of
                            Some s \<Rightarrow> (set_body s q1)\<lparr>fq_jbody := jo_loadb L s,
                                fq_model_dangling := fq_model_dangling q1 \<or> (fq_model_borrowed q1 \<and> fq_jbody q1 \<noteq> None)\<rparr>
                          | None \<Rightarrow> q1)
                in (q2, FILTER_CONTINUE)))"

definition filter_chain_execute_inbound :: "'j hook_lib \<Rightarrow> fc_env \<Rightarrow> 'j filter_req \<Rightarrow> ('j filter_req \<times> filter_action) option" where
  "filter_chain_execute_inbound L env q =
     (case filter_guardrails L env q of
        Some (q1, FILTER_CONTINUE) \<Rightarrow>
          (case filter_jailbreak env q1 of
             (q2, FILTER_CONTINUE) \<Rightarrow>
               (case filter_prompt_template L env q2 of
                  Some (q3, FILTER_CONTINUE) \<Rightarrow> Some (filter_lua_plugins_inbound L env q3)
                | r \<Rightarrow> r)
           | r \<Rightarrow> Some r)
      | r \<Rightarrow> r)"

section \<open>The response\<close>

text \<open>The text of a block that may be marked.\<close>

definition block_text :: "'j json_lib \<Rightarrow> 'j \<Rightarrow> string option" where
  "block_text L b =
     (if \<not> jo_is_object L b \<or> jo_string L (jo_get L (Some b) ''type'') = Some ''thinking'' then None
      else case jo_string L (jo_get L (Some b) ''text'') of Some (c # s) \<Rightarrow> Some (c # s) | _ \<Rightarrow> None)"

text \<open>The first block that can be marked.\<close>

fun mark_blocks :: "'j json_lib \<Rightarrow> (string \<Rightarrow> string option) \<Rightarrow> 'j list \<Rightarrow> 'j list option" where
  "mark_blocks L wm [] = None"
| "mark_blocks L wm (b # bs) =
     (case (case block_text L b of Some s \<Rightarrow> wm s | None \<Rightarrow> None) of
        Some s' \<Rightarrow> Some (set_string L b ''text'' s' # bs)
      | None \<Rightarrow> map_option ((#) b) (mark_blocks L wm bs))"

definition mark_choice :: "'j json_lib \<Rightarrow> (string \<Rightarrow> string option) \<Rightarrow> 'j \<Rightarrow> 'j option" where
  "mark_choice L wm d =
     (case jo_array L (jo_get L (Some d) ''choices'') of
        Some (c # cs) \<Rightarrow>
          (if jo_is_object L c
           then (case jo_get L (Some c) ''message'' of
                   Some msg \<Rightarrow>
                     (if jo_is_object L msg
                      then (case jo_string L (jo_get L (Some msg) ''content'') of
                              Some (h # t) \<Rightarrow>
                                map_option (\<lambda>s. jl_set L d ''choices''
                                    (Some (jl_array L (jl_set L c ''message'' (Some (set_string L msg ''content'' s)) # cs))))
                                  (wm (h # t))
                            | _ \<Rightarrow> None)
                      else None)
                 | None \<Rightarrow> None)
           else None)
      | _ \<Rightarrow> None)"

definition mark_content :: "'j json_lib \<Rightarrow> (string \<Rightarrow> string option) \<Rightarrow> 'j \<Rightarrow> 'j option" where
  "mark_content L wm d =
     (case jo_array L (jo_get L (Some d) ''content'') of
        Some bs \<Rightarrow> map_option (\<lambda>bs'. jl_set L d ''content'' (Some (jl_array L bs'))) (mark_blocks L wm bs)
      | None \<Rightarrow> None)"

definition mark_response :: "'j json_lib \<Rightarrow> (string \<Rightarrow> string option) \<Rightarrow> string \<Rightarrow> string option" where
  "mark_response L wm body =
     (case jo_loadb L body of
        None \<Rightarrow> None
      | Some d \<Rightarrow>
          (if \<not> jo_is_object L d then None
           else case (case mark_choice L wm d of Some d' \<Rightarrow> Some d' | None \<Rightarrow> mark_content L wm d) of
             Some d' \<Rightarrow> jl_dumps L d'
           | None \<Rightarrow> None))"

definition filter_lua_plugins_outbound ::
  "fc_env \<Rightarrow> 'j filter_req \<Rightarrow> string \<Rightarrow> string option \<Rightarrow> 'j filter_req \<times> filter_action \<times> string option" where
  "filter_lua_plugins_outbound env q resp out =
     (case fe_response_plugins env of
        None \<Rightarrow> (q, FILTER_CONTINUE, out)
      | Some run \<Rightarrow>
          (let res = run (fq_model q) (if fq_status q \<noteq> 0 then fq_status q else 200) (case out of Some s \<Rightarrow> s | None \<Rightarrow> resp)
           in if lr_abort res
              then (fq_emit [Fx_Json (if lr_status res > 0 then lr_status res else 403)
                               (case lr_abort_body res of Some s \<Rightarrow> s | None \<Rightarrow> ''{\"error\":\"aborted by plugin\"}'')] q, FILTER_STOP, out)
              else (if lr_new_status res \<noteq> 0 then q\<lparr>fq_status := lr_new_status res\<rparr> else q,
                    FILTER_CONTINUE, case lr_body res of Some s \<Rightarrow> Some s | None \<Rightarrow> out)))"

text \<open>The request, the decision and the new body, if there is one; \<open>None\<close> is a write outside a buffer.\<close>

definition filter_chain_execute_outbound ::
  "'j hook_lib \<Rightarrow> fc_env \<Rightarrow> 'j filter_req \<Rightarrow> string \<Rightarrow> ('j filter_req \<times> filter_action \<times> string option) option" where
  "filter_chain_execute_outbound L env q resp =
     (if resp = [] then Some (q, FILTER_CONTINUE, None)
      else
        let wh = (case fe_engine env of
                    Some g \<Rightarrow> if fq_guardrails_enabled q
                      then guardrails_inspect_webhook_outbound L (fe_hooks env) g (fq_model q) (fq_key_id q) resp
                      else \<lparr>hs_action = GUARDRAILS_PASS, hs_body = None, hs_reason = []\<rparr>
                  | None \<Rightarrow> \<lparr>hs_action = GUARDRAILS_PASS, hs_body = None, hs_reason = []\<rparr>);
            why = reason_or (hs_reason wh) ''prohibited_content''
        in if hs_action wh = GUARDRAILS_BLOCKED
           then Some (fq_emit (policy_block ''content_policy_violation'' ''Response blocked by external moderation webhook: '' why
                  ''guardrail_block_outbound'' why) q, FILTER_STOP, None)
           else case (hs_action wh, hs_body wh) of
             (GUARDRAILS_MASKED, Some s) \<Rightarrow> Some (q\<lparr>fq_act := ''masked''\<rparr>, FILTER_CONTINUE, Some s)
           | _ \<Rightarrow>
               (case guardrails_restore_pii_text (fe_ok env) resp (fq_map q) of
                  Buf_Done restored \<Rightarrow>
                    (let cur = (case restored of Some s \<Rightarrow> s | None \<Rightarrow> resp);
                         marked = (if fq_watermark_enabled q then mark_response (json_lib.truncate L) (fe_watermark env) cur else None);
                         out = (case marked of Some s \<Rightarrow> Some s | None \<Rightarrow> restored)
                     in Some (filter_lua_plugins_outbound env q resp out))
                | _ \<Rightarrow> None))"

end
