(* ===== verification/Ac_Props.thy ===== *)
theory Ac_Props
  imports Ac_Trie
begin

text \<open>
  What the keyword automaton finds. The nodes of a trie stand for strings: \<open>ws ! i\<close> is the path to node
  \<open>i\<close>. After the breadth-first pass the automaton is, having read \<open>v\<close>, in the node of the longest suffix
  of \<open>v\<close> that is a path (\<open>lsuf\<close>), and the node has a keyword iff a keyword ends there.
\<close>

section \<open>Bytes\<close>

lemma set_all_bytes [simp]: "set all_bytes = UNIV"
  by (simp only: all_bytes_def set_map set_upt UNIV_char_of_nat [symmetric])

lemma distinct_all_bytes [simp]: "distinct all_bytes"
  unfolding all_bytes_def distinct_map by (auto intro!: inj_onI simp: char_of_eq_iff)

section \<open>The longest suffix in a set\<close>

fun lsuf :: "string set \<Rightarrow> string \<Rightarrow> string" where
  "lsuf S [] = []"
| "lsuf S (c # v) = (if c # v \<in> S then c # v else lsuf S v)"

definition paths :: "string set \<Rightarrow> bool" where
  "paths S \<longleftrightarrow> [] \<in> S \<and> (\<forall>w c. w @ [c] \<in> S \<longrightarrow> w \<in> S)"

lemma lsuf_in: "[] \<in> S \<Longrightarrow> lsuf S v \<in> S"
  by (induction v) auto

lemma lsuf_suffix: "suffix (lsuf S v) v"
  by (induction v) (auto simp: suffix_ConsI)

lemma lsuf_longest: "suffix x v \<Longrightarrow> x \<in> S \<Longrightarrow> suffix x (lsuf S v)"
  by (induction v) (auto simp: suffix_Cons)

lemma lsuf_self [simp]: "v \<in> S \<Longrightarrow> lsuf S v = v"
  by (cases v) auto

lemma lsuf_length: "length (lsuf S v) \<le> length v"
  using lsuf_suffix suffix_length_le by blast

lemma suffix_snocE: "suffix x (v @ [c]) \<Longrightarrow> x = [] \<or> (\<exists>y. x = y @ [c] \<and> suffix y v)"
  by (simp add: suffix_snoc)

lemma lsuf_snoc:
  assumes "paths S"
  shows "lsuf S (v @ [c]) = lsuf S (lsuf S v @ [c])"
proof (rule suffix_order.antisym)
  have nil: "[] \<in> S" using assms by (simp add: paths_def)
  let ?x = "lsuf S (v @ [c])"
  have "?x = [] \<or> (\<exists>y. ?x = y @ [c] \<and> suffix y v)" by (rule suffix_snocE [OF lsuf_suffix])
  then have "suffix ?x (lsuf S v @ [c])"
  proof
    assume "\<exists>y. ?x = y @ [c] \<and> suffix y v"
    then obtain y where y: "?x = y @ [c]" "suffix y v" by blast
    have "y @ [c] \<in> S" using lsuf_in [OF nil, of "v @ [c]"] y(1) by simp
    then have "y \<in> S" using assms by (auto simp: paths_def)
    with y show ?thesis by (simp add: lsuf_longest)
  qed simp
  then show "suffix ?x (lsuf S (lsuf S v @ [c]))" by (rule lsuf_longest [OF _ lsuf_in [OF nil]])
next
  have nil: "[] \<in> S" using assms by (simp add: paths_def)
  have "suffix (lsuf S v @ [c]) (v @ [c])" by (simp add: lsuf_suffix)
  then have "suffix (lsuf S (lsuf S v @ [c])) (v @ [c])" by (rule suffix_order.trans [OF lsuf_suffix])
  then show "suffix (lsuf S (lsuf S v @ [c])) (lsuf S (v @ [c]))" by (rule lsuf_longest [OF _ lsuf_in [OF nil]])
qed

text \<open>A node other than the root: its link.\<close>

lemma lsuf_tl_snoc:
  assumes "paths S" "w \<noteq> []"
  shows "lsuf S (tl (w @ [c])) = lsuf S (lsuf S (tl w) @ [c])"
  using lsuf_snoc [OF assms(1), of "tl w" c] assms(2) by simp

lemma lsuf_drop_first: "w \<notin> S \<Longrightarrow> lsuf S w = lsuf S (tl w)"
  by (cases w) auto

section \<open>Paths of nodes\<close>

text \<open>The index of a path.\<close>

definition ix :: "string list \<Rightarrow> string \<Rightarrow> nat" where
  "ix ws w = the (find_idx ((=) w) ws)"

lemma ix_in: "w \<in> set ws \<Longrightarrow> ix ws w < length ws \<and> ws ! ix ws w = w"
proof -
  assume "w \<in> set ws"
  then obtain i where "find_idx ((=) w) ws = Some i" using find_idx_None [of "(=) w" ws] by (cases "find_idx ((=) w) ws") auto
  then show ?thesis using find_idx_Some [of "(=) w" ws i] by (simp add: ix_def)
qed

lemma ix_nth: "distinct ws \<Longrightarrow> i < length ws \<Longrightarrow> ix ws (ws ! i) = i"
  by (metis ix_in nth_eq_iff_index_eq nth_mem)

definition trie_inv :: "string list \<Rightarrow> string set \<Rightarrow> ac_node list \<Rightarrow> bool" where
  "trie_inv ws K ns \<longleftrightarrow>
     length ns = length ws \<and> distinct ws \<and> ws \<noteq> [] \<and> ws ! 0 = [] \<and> paths (set ws) \<and> K \<subseteq> set ws \<and> [] \<notin> K \<and>
     (\<forall>i<length ws. \<forall>c. ac_next (ns ! i) c = (if ws ! i @ [c] \<in> set ws then Some (ix ws (ws ! i @ [c])) else None)) \<and>
     (\<forall>i<length ws. ac_keyword (ns ! i) = (if ws ! i \<in> K then Some (ws ! i) else None)) \<and>
     ac_fail (ns ! 0) = 0"

lemma trie_invD:
  assumes "trie_inv ws K ns"
  shows "length ns = length ws" "distinct ws" "ws \<noteq> []" "ws ! 0 = []" "paths (set ws)" "K \<subseteq> set ws" "[] \<notin> K"
    and "i < length ws \<Longrightarrow> ac_next (ns ! i) c = (if ws ! i @ [c] \<in> set ws then Some (ix ws (ws ! i @ [c])) else None)"
    and "i < length ws \<Longrightarrow> ac_keyword (ns ! i) = (if ws ! i \<in> K then Some (ws ! i) else None)"
    and "ac_fail (ns ! 0) = 0"
  using assms unfolding trie_inv_def by blast+

lemma trie_inv_create: "trie_inv [[]] {} (ac_nodes ac_trie_create)"
  by (simp add: trie_inv_def ac_trie_create_def ac_empty_node_def paths_def)

section \<open>Insertion\<close>

lemma ix_append: "distinct (ws @ [w]) \<Longrightarrow> ix (ws @ [w]) x = (if x = w then length ws else if x \<in> set ws then ix ws x else ix (ws @ [w]) x)"
proof -
  assume d: "distinct (ws @ [w])"
  show ?thesis
  proof (cases "x = w")
    case True
    with ix_nth [OF d, of "length ws"] show ?thesis by simp
  next
    case False
    show ?thesis
    proof (cases "x \<in> set ws")
      case True
      from ix_in [OF True] ix_nth [OF d, of "ix ws x"] have "ix (ws @ [w]) x = ix ws x" by (simp add: nth_append)
      with False True show ?thesis by simp
    qed (use False in simp)
  qed
qed

lemma trie_inv_extend:
  assumes inv: "trie_inv ws K ns" and i: "i < length ws" and new: "ws ! i @ [c] \<notin> set ws"
  shows "trie_inv (ws @ [ws ! i @ [c]]) K (set_next (ns @ [ac_empty_node]) i c (length ns))"
proof -
  let ?w = "ws ! i @ [c]"
  let ?ws = "ws @ [?w]"
  let ?ns = "set_next (ns @ [ac_empty_node]) i c (length ns)"
  note I = trie_invD [OF inv]
  have d: "distinct ?ws" using I(2) new by simp
  have wi: "ws ! i \<in> set ws" using i by simp
  have p: "paths (set ?ws)" using I(5) wi by (auto simp: paths_def)
  have nolong: "?w @ [e] \<notin> set ?ws" for e
  proof -
    have "?w @ [e] \<in> set ws \<Longrightarrow> ?w \<in> set ws" using I(5) unfolding paths_def by blast
    moreover have "?w @ [e] \<noteq> ?w" by simp
    ultimately show ?thesis using new by auto
  qed
  have step: "ac_next (?ns ! j) e = (if ?ws ! j @ [e] \<in> set ?ws then Some (ix ?ws (?ws ! j @ [e])) else None)"
    if j: "j < length ?ws" for j e
  proof (cases "j = length ws")
    case True
    then have "ac_next (?ns ! j) e = None" using i I(1) by (simp add: set_next_def nth_append ac_empty_node_def)
    with True nolong [of e] show ?thesis by simp
  next
    case False
    with j have jl: "j < length ws" by simp
    show ?thesis
    proof (cases "j = i \<and> e = c")
      case True
      then have "ac_next (?ns ! j) e = Some (length ws)" using i I(1) by (simp add: set_next_def nth_append)
      with True jl show ?thesis using ix_append [OF d, of ?w] by (simp add: nth_append)
    next
      case False
      have ne: "ws ! j @ [e] \<noteq> ?w" using False ix_nth [OF I(2) jl] ix_nth [OF I(2) i] by auto
      have "ac_next (?ns ! j) e = ac_next (ns ! j) e" using False jl i I(1) by (auto simp: set_next_def nth_append nth_list_update)
      also have "\<dots> = (if ws ! j @ [e] \<in> set ws then Some (ix ws (ws ! j @ [e])) else None)" by (rule I(8) [OF jl])
      finally have n: "ac_next (?ns ! j) e = (if ws ! j @ [e] \<in> set ws then Some (ix ws (ws ! j @ [e])) else None)" .
      have "?ws ! j = ws ! j" using jl by (simp add: nth_append)
      moreover have "ws ! j @ [e] \<in> set ?ws \<longleftrightarrow> ws ! j @ [e] \<in> set ws" using ne by auto
      moreover have "ws ! j @ [e] \<in> set ws \<Longrightarrow> ix ?ws (ws ! j @ [e]) = ix ws (ws ! j @ [e])"
        using ne by (subst ix_append [OF d]) (simp only: if_True if_False)
      ultimately show ?thesis using n by presburger
    qed
  qed
  have kw: "ac_keyword (?ns ! j) = (if ?ws ! j \<in> K then Some (?ws ! j) else None)" if j: "j < length ?ws" for j
  proof (cases "j = length ws")
    case True
    with I(1) i new I(6) show ?thesis by (auto simp: set_next_def nth_append ac_empty_node_def)
  next
    case False
    with j have jl: "j < length ws" by simp
    have "ac_keyword (?ns ! j) = ac_keyword (ns ! j)" using jl i I(1) by (auto simp: set_next_def nth_append nth_list_update)
    with I(9) [OF jl] jl show ?thesis by (simp add: nth_append)
  qed
  have "length ?ns = length ?ws" using I(1) by simp
  moreover have "?ws ! 0 = []" using I(3,4) by (simp add: nth_append)
  moreover have "ac_fail (?ns ! 0) = 0" using i I(1,10) by (cases i) (auto simp: set_next_def nth_append ac_empty_node_def)
  ultimately show ?thesis unfolding trie_inv_def using d p step kw I(6,7) by auto
qed

lemma ac_walk_inv:
  assumes "ac_walk ok t i cs = (t', r)" "trie_inv ws K (ac_nodes t)" "i < length ws"
  shows "\<exists>ws'. trie_inv ws' K (ac_nodes t') \<and>
    (case r of Some j \<Rightarrow> j < length ws' \<and> ws' ! j = ws ! i @ cs | None \<Rightarrow> \<not> (\<forall>n. ok n))"
  using assms
proof (induction ok t i cs arbitrary: ws rule: ac_walk.induct)
  case (1 ok t i)
  then show ?case by auto
next
  case (2 ok t i c cs)
  note I = trie_invD [OF 2(4)]
  show ?case
  proof (cases "ac_next (ac_nodes t ! i) c")
    case (Some j)
    with I(8) [OF 2(5), of c] have w: "ws ! i @ [c] \<in> set ws" "j = ix ws (ws ! i @ [c])" by (auto split: if_splits)
    from ix_in [OF w(1)] w(2) have j: "j < length ws" "ws ! j = ws ! i @ [c]" by auto
    have "ac_walk ok t j cs = (t', r)" using 2(3) Some by simp
    from 2(2) [OF Some this 2(4) j(1)] show ?thesis unfolding j(2) append_assoc append_Cons append_Nil .
  next
    case None
    with I(8) [OF 2(5), of c] have w: "ws ! i @ [c] \<notin> set ws" by (auto split: if_splits)
    show ?thesis
    proof (cases "length (ac_nodes t) \<ge> ac_cap t \<and> \<not> ok (2 * ac_cap t)")
      case True
      with 2(3) None have "t' = t" "r = None" by (auto simp: Let_def)
      with True 2(4) show ?thesis by auto
    next
      case False
      let ?ws = "ws @ [ws ! i @ [c]]"
      let ?t = "t\<lparr>ac_nodes := set_next (ac_nodes t @ [ac_empty_node]) i c (length (ac_nodes t)),
                   ac_cap := (if length (ac_nodes t) \<ge> ac_cap t then 2 * ac_cap t else ac_cap t)\<rparr>"
      have w': "ac_walk ok ?t (length (ac_nodes t)) cs = (t', r)" using 2(3) None False by (simp add: Let_def)
      have inv: "trie_inv ?ws K (ac_nodes ?t)" using trie_inv_extend [OF 2(4,5) w] by simp
      have l: "length (ac_nodes t) < length ?ws" "?ws ! length (ac_nodes t) = ws ! i @ [c]" using I(1) by simp_all
      from 2(1) [OF None refl False w' inv l(1)] show ?thesis unfolding l(2) append_assoc append_Cons append_Nil .
    qed
  qed
qed

lemma trie_inv_keyword:
  assumes inv: "trie_inv ws K ns" and i: "i < length ws" "ws ! i = k" "k \<noteq> []"
  shows "trie_inv ws (insert k K) (ns[i := (ns ! i)\<lparr>ac_keyword := Some k\<rparr>])"
proof -
  note I = trie_invD [OF inv]
  have "ac_keyword (ns[i := (ns ! i)\<lparr>ac_keyword := Some k\<rparr>] ! j) = (if ws ! j \<in> insert k K then Some (ws ! j) else None)"
    if j: "j < length ws" for j
    using I(9) [OF j] i I(1,2) j nth_eq_iff_index_eq [OF I(2) j i(1)] by (auto simp: nth_list_update)
  moreover have "ac_next (ns[i := (ns ! i)\<lparr>ac_keyword := Some k\<rparr>] ! j) = ac_next (ns ! j)" if "j < length ws" for j
    using that I(1) i(1) by (simp add: nth_list_update)
  moreover have "ac_fail (ns[i := (ns ! i)\<lparr>ac_keyword := Some k\<rparr>] ! 0) = 0" using I(1,10) i(1) by (cases i) simp_all
  ultimately show ?thesis using I i unfolding trie_inv_def by auto
qed

lemma trie_inv_insert_old: "trie_inv ws K ns \<Longrightarrow> i < length ws \<Longrightarrow> ac_keyword (ns ! i) \<noteq> None \<Longrightarrow> ws ! i = k \<Longrightarrow> insert k K = K"
  using trie_invD(9) by (fastforce split: if_splits)

text \<open>An insertion adds its keyword or, when memory runs out, nothing.\<close>

definition ac_keywords :: "string set \<Rightarrow> ac_trie \<Rightarrow> bool" where
  "ac_keywords K t \<longleftrightarrow> (\<exists>ws. trie_inv ws K (ac_nodes t))"

lemma ac_insert_keywords:
  assumes "ac_keywords K t" "ac_trie_insert ok dup_ok t k = (t', res)"
  shows "ac_keywords (if res then insert k K else K) t'"
    and "k \<noteq> [] \<Longrightarrow> \<forall>n. ok n \<Longrightarrow> dup_ok \<Longrightarrow> res"
proof -
  obtain ws where inv: "trie_inv ws K (ac_nodes t)" using assms(1) by (auto simp: ac_keywords_def)
  note I = trie_invD [OF inv]
  have "ac_keywords (if res then insert k K else K) t' \<and> (k \<noteq> [] \<and> (\<forall>n. ok n) \<and> dup_ok \<longrightarrow> res)"
  proof (cases "k = []")
    case True
    with assms show ?thesis by (auto simp: ac_trie_insert_def)
  next
    case False
    obtain t1 r where w: "ac_walk ok t 0 k = (t1, r)" by (cases "ac_walk ok t 0 k")
    from ac_walk_inv [OF w inv] I(3) obtain ws' where ws': "trie_inv ws' K (ac_nodes t1)"
      "case r of Some j \<Rightarrow> j < length ws' \<and> ws' ! j = ws ! 0 @ k | None \<Rightarrow> \<not> (\<forall>n. ok n)" by auto
    show ?thesis
    proof (cases r)
      case None
      with assms(2) w False ws' show ?thesis by (auto simp: ac_trie_insert_def ac_keywords_def)
    next
      case (Some i)
      with ws'(2) I(4) have i: "i < length ws'" "ws' ! i = k" by auto
      consider "ac_keyword (ac_nodes t1 ! i) \<noteq> None" | "ac_keyword (ac_nodes t1 ! i) = None" "dup_ok"
        | "ac_keyword (ac_nodes t1 ! i) = None" "\<not> dup_ok" by blast
      then show ?thesis
      proof cases
        case 1
        with assms(2) w Some False have "t' = t1" "res" by (auto simp: ac_trie_insert_def)
        with trie_inv_insert_old [OF ws'(1) i(1) 1 i(2)] ws'(1) show ?thesis by (auto simp: ac_keywords_def)
      next
        case 2
        with assms(2) w Some False
        have r: "t' = t1\<lparr>ac_nodes := (ac_nodes t1)[i := (ac_nodes t1 ! i)\<lparr>ac_keyword := Some k\<rparr>]\<rparr>" "res"
          by (auto simp: ac_trie_insert_def)
        have "trie_inv ws' (insert k K) (ac_nodes t')" unfolding r using trie_inv_keyword [OF ws'(1) i False] by simp
        with r(2) show ?thesis by (auto simp: ac_keywords_def)
      next
        case 3
        with assms(2) w Some False have "t' = t1" "\<not> res" by (auto simp: ac_trie_insert_def)
        with ws'(1) 3 show ?thesis by (auto simp: ac_keywords_def)
      qed
    qed
  qed
  then show "ac_keywords (if res then insert k K else K) t'"
    and "k \<noteq> [] \<Longrightarrow> \<forall>n. ok n \<Longrightarrow> dup_ok \<Longrightarrow> res" by auto
qed

end
