(* ===== verification/Ac_Search.thy ===== *)
theory Ac_Search
  imports Ac_Props
begin

text \<open>
  The breadth-first pass makes an automaton of the trie, and the search over it finds a keyword iff one
  occurs. \<open>Done\<close> is the set of transitions that the pass has settled; a node is visited when the
  transition into it is settled, and the queue holds the visited nodes whose own row is not.
\<close>

section \<open>The state of the pass\<close>

definition visited :: "string list \<Rightarrow> (nat \<times> char) set \<Rightarrow> nat \<Rightarrow> bool" where
  "visited ws Done i \<longleftrightarrow> ws ! i = [] \<or> (\<exists>p c. p < length ws \<and> ws ! i = ws ! p @ [c] \<and> (p, c) \<in> Done)"

definition kw_good :: "string set \<Rightarrow> string \<Rightarrow> string option \<Rightarrow> bool" where
  "kw_good K w k \<longleftrightarrow> (case k of None \<Rightarrow> \<forall>x \<in> K. \<not> suffix x w | Some x \<Rightarrow> x \<in> K \<and> suffix x w)"

definition ac_base :: "string list \<Rightarrow> string set \<Rightarrow> bool" where
  "ac_base ws K \<longleftrightarrow> distinct ws \<and> ws \<noteq> [] \<and> ws ! 0 = [] \<and> paths (set ws) \<and> K \<subseteq> set ws \<and> [] \<notin> K"

definition bfs_inv :: "string list \<Rightarrow> string set \<Rightarrow> (nat \<times> char) set \<Rightarrow> ac_node list \<Rightarrow> bool" where
  "bfs_inv ws K Done ns \<longleftrightarrow>
     length ns = length ws \<and>
     (\<forall>i<length ws. \<forall>c. ac_next (ns ! i) c =
        (if (i, c) \<in> Done \<or> ws ! i @ [c] \<in> set ws then Some (ix ws (lsuf (set ws) (ws ! i @ [c]))) else None)) \<and>
     (\<forall>i<length ws. visited ws Done i \<longrightarrow>
        ac_fail (ns ! i) = ix ws (lsuf (set ws) (tl (ws ! i))) \<and> kw_good K (ws ! i) (ac_keyword (ns ! i))) \<and>
     (\<forall>i<length ws. \<not> visited ws Done i \<longrightarrow> ac_keyword (ns ! i) = (if ws ! i \<in> K then Some (ws ! i) else None))"

lemma bfs_invD:
  assumes "bfs_inv ws K Done ns"
  shows "length ns = length ws"
    and "i < length ws \<Longrightarrow> ac_next (ns ! i) c =
      (if (i, c) \<in> Done \<or> ws ! i @ [c] \<in> set ws then Some (ix ws (lsuf (set ws) (ws ! i @ [c]))) else None)"
    and "i < length ws \<Longrightarrow> visited ws Done i \<Longrightarrow> ac_fail (ns ! i) = ix ws (lsuf (set ws) (tl (ws ! i)))"
    and "i < length ws \<Longrightarrow> visited ws Done i \<Longrightarrow> kw_good K (ws ! i) (ac_keyword (ns ! i))"
    and "i < length ws \<Longrightarrow> \<not> visited ws Done i \<Longrightarrow> ac_keyword (ns ! i) = (if ws ! i \<in> K then Some (ws ! i) else None)"
  using assms unfolding bfs_inv_def by blast+

lemma ac_baseD:
  assumes "ac_base ws K"
  shows "distinct ws" "ws \<noteq> []" "ws ! 0 = []" "paths (set ws)" "K \<subseteq> set ws" "[] \<notin> K" "[] \<in> set ws"
  using assms unfolding ac_base_def paths_def by blast+

lemma nth_eq_base: "ac_base ws K \<Longrightarrow> i < length ws \<Longrightarrow> j < length ws \<Longrightarrow> ws ! i = ws ! j \<longleftrightarrow> i = j"
  using ac_baseD(1) nth_eq_iff_index_eq by blast

lemma lsuf_ix: "ac_base ws K \<Longrightarrow> ix ws (lsuf (set ws) v) < length ws \<and> ws ! ix ws (lsuf (set ws) v) = lsuf (set ws) v"
  by (rule ix_in) (rule lsuf_in, rule ac_baseD(7))

text \<open>Settling a transition visits its target, if that is a node of its own.\<close>

lemma visited_insert:
  assumes "ac_base ws K" "i < length ws" "r < length ws"
  shows "visited ws (insert (r, c) Done) i \<longleftrightarrow> visited ws Done i \<or> ws ! i = ws ! r @ [c]"
  using assms(3) unfolding visited_def by auto

lemma not_visited_child:
  assumes "ac_base ws K" "i < length ws" "r < length ws" "(r, c) \<notin> Done" "ws ! i = ws ! r @ [c]"
  shows "\<not> visited ws Done i"
  using assms nth_eq_base [OF assms(1)] unfolding visited_def by auto

section \<open>One transition\<close>

lemma bfs_inv_missing:
  assumes base: "ac_base ws K" and inv: "bfs_inv ws K Done ns" and r: "r < length ws"
    and new: "ws ! r @ [c] \<notin> set ws"
  shows "bfs_inv ws K (insert (r, c) Done) (set_next ns r c (ix ws (lsuf (set ws) (ws ! r @ [c]))))"
proof -
  let ?ns = "set_next ns r c (ix ws (lsuf (set ws) (ws ! r @ [c])))"
  note I = bfs_invD [OF inv]
  have v: "visited ws (insert (r, c) Done) i \<longleftrightarrow> visited ws Done i" if "i < length ws" for i
  proof -
    have "ws ! i \<noteq> ws ! r @ [c]" using new that by (metis nth_mem)
    with visited_insert [OF base that r] show ?thesis by simp
  qed
  have same: "ac_fail (?ns ! i) = ac_fail (ns ! i)" "ac_keyword (?ns ! i) = ac_keyword (ns ! i)" if "i < length ws" for i
    using that r I(1) by (auto simp: set_next_def nth_list_update)
  have nx: "ac_next (?ns ! i) e =
      (if (i, e) \<in> insert (r, c) Done \<or> ws ! i @ [e] \<in> set ws then Some (ix ws (lsuf (set ws) (ws ! i @ [e]))) else None)"
    if i: "i < length ws" for i e
  proof (cases "i = r \<and> e = c")
    case True
    then show ?thesis using r I(1) by (simp add: set_next_def)
  next
    case False
    then have "ac_next (?ns ! i) e = ac_next (ns ! i) e" using i r I(1) by (auto simp: set_next_def nth_list_update)
    moreover have "(i, e) \<in> insert (r, c) Done \<longleftrightarrow> (i, e) \<in> Done" using False by auto
    ultimately show ?thesis using I(2) [OF i, of e] by simp
  qed
  have len: "length ?ns = length ws" using I(1) by simp
  show ?thesis unfolding bfs_inv_def using len nx same v I(3-5) by simp
qed

lemma kw_good_link:
  assumes base: "ac_base ws K" and w: "w \<in> set ws" "w \<noteq> []"
    and f: "kw_good K (lsuf (set ws) (tl w)) kf"
  shows "kw_good K w (if w \<in> K then Some w else kf)"
proof (cases "w \<in> K")
  case False
  show ?thesis
  proof (cases kf)
    case None
    have "\<not> suffix x w" if x: "x \<in> K" for x
    proof
      assume "suffix x w"
      with x False w(2) have "suffix x (tl w)" by (cases w) (auto simp: suffix_Cons)
      moreover have "x \<in> set ws" using x ac_baseD(5) [OF base] by blast
      ultimately have "suffix x (lsuf (set ws) (tl w))" by (rule lsuf_longest)
      with f None x show False by (simp add: kw_good_def)
    qed
    with False None show ?thesis by (simp add: kw_good_def)
  next
    case (Some x)
    with f have x: "x \<in> K" "suffix x (lsuf (set ws) (tl w))" by (simp_all add: kw_good_def)
    have "suffix x (tl w)" by (rule suffix_order.trans [OF x(2) lsuf_suffix])
    then have "suffix x w" using w(2) by (cases w) (simp_all add: suffix_ConsI)
    with x(1) Some False show ?thesis by (simp add: kw_good_def)
  qed
qed (simp add: kw_good_def)

lemma ac_link_facts:
  assumes "u < length ns" "f < length ns" "u \<noteq> f" "\<forall>n. dup n"
  shows "ac_next (ac_link dup u f ns ! i) = ac_next (ns ! i)"
    and "ac_fail (ac_link dup u f ns ! i) = (if i = u then f else ac_fail (ns ! i))"
    and "ac_keyword (ac_link dup u f ns ! i) =
      (if i = u \<and> ac_keyword (ns ! u) = None then ac_keyword (ns ! f) else ac_keyword (ns ! i))"
  using assms by (auto simp: ac_link_def Let_def nth_list_update split: if_splits)

lemma bfs_inv_child:
  assumes base: "ac_base ws K" and inv: "bfs_inv ws K Done ns" and r: "r < length ws"
    and fresh: "(r, c) \<notin> Done" and u: "u < length ws" "ws ! u = ws ! r @ [c]"
    and f: "f = ix ws (lsuf (set ws) (tl (ws ! u)))" "visited ws Done f" and dup: "\<forall>n. dup n"
  shows "bfs_inv ws K (insert (r, c) Done) (ac_link dup u f ns)"
proof -
  let ?ns = "ac_link dup u f ns"
  note I = bfs_invD [OF inv]
  have wf: "f < length ws" "ws ! f = lsuf (set ws) (tl (ws ! u))" using lsuf_ix [OF base] f(1) by simp_all
  have nv: "\<not> visited ws Done u" by (rule not_visited_child [OF base u(1) r fresh u(2)])
  then have ne: "u \<noteq> f" using f(2) by auto
  note L = ac_link_facts [of u ns f dup, unfolded I(1), OF u(1) wf(1) ne dup]
  have kwu: "kw_good K (ws ! u) (ac_keyword (?ns ! u))"
  proof -
    have "kw_good K (ws ! u) (if ws ! u \<in> K then Some (ws ! u) else ac_keyword (ns ! f))"
      using kw_good_link [OF base nth_mem [OF u(1)]] u(2) I(4) [OF wf(1) f(2)] wf(2) by simp
    moreover have "ac_keyword (?ns ! u) = (if ws ! u \<in> K then Some (ws ! u) else ac_keyword (ns ! f))"
      using L(3) [of u] I(5) [OF u(1) nv] by simp
    ultimately show ?thesis by simp
  qed
  have v: "visited ws (insert (r, c) Done) i \<longleftrightarrow> visited ws Done i \<or> i = u" if "i < length ws" for i
    using visited_insert [OF base that r] nth_eq_base [OF base that u(1)] u(2) by simp
  have nx: "ac_next (?ns ! i) e =
      (if (i, e) \<in> insert (r, c) Done \<or> ws ! i @ [e] \<in> set ws then Some (ix ws (lsuf (set ws) (ws ! i @ [e]))) else None)"
    if i: "i < length ws" for i e
  proof -
    have "(i, e) \<in> insert (r, c) Done \<or> ws ! i @ [e] \<in> set ws \<longleftrightarrow> (i, e) \<in> Done \<or> ws ! i @ [e] \<in> set ws"
      using u by (metis insertE insertI2 nth_mem prod.inject)
    with I(2) [OF i, of e] L(1) show ?thesis by simp
  qed
  have len: "length ?ns = length ws" using I(1) by simp
  show ?thesis unfolding bfs_inv_def
  proof (intro conjI allI impI)
    fix i assume i: "i < length ws" "visited ws (insert (r, c) Done) i"
    show "ac_fail (?ns ! i) = ix ws (lsuf (set ws) (tl (ws ! i)))"
      using L(2) [of i] f(1) v [OF i(1)] i I(3) [OF i(1)] by auto
    show "kw_good K (ws ! i) (ac_keyword (?ns ! i))"
      using L(3) [of i] kwu v [OF i(1)] i I(4) [OF i(1)] by (cases "i = u") auto
  next
    fix i assume i: "i < length ws" "\<not> visited ws (insert (r, c) Done) i"
    then show "ac_keyword (?ns ! i) = (if ws ! i \<in> K then Some (ws ! i) else None)"
      using L(3) [of i] v [OF i(1)] I(5) [OF i(1)] by simp
  qed (use len nx in blast)+
qed

section \<open>A row\<close>

text \<open>The children that a row puts into the queue.\<close>

definition row_children :: "string list \<Rightarrow> nat \<Rightarrow> char list \<Rightarrow> nat list" where
  "row_children ws r cs = map (\<lambda>c. ix ws (ws ! r @ [c])) (filter (\<lambda>c. ws ! r @ [c] \<in> set ws) cs)"

definition queued :: "string list \<Rightarrow> (nat \<times> char) set \<Rightarrow> nat" where
  "queued ws Done = card {i. i < length ws \<and> visited ws Done i}"

lemma queued_child:
  assumes base: "ac_base ws K" and r: "r < length ws" and fresh: "(r, c) \<notin> Done" and u: "u < length ws" "ws ! u = ws ! r @ [c]"
  shows "queued ws (insert (r, c) Done) = Suc (queued ws Done)" and "queued ws Done < length ws"
proof -
  let ?V = "{i. i < length ws \<and> visited ws Done i}"
  have u': "u \<notin> ?V" using not_visited_child [OF base u(1) r fresh u(2)] by simp
  have "{i. i < length ws \<and> visited ws (insert (r, c) Done) i} = insert u ?V"
    using visited_insert [OF base _ r] nth_eq_base [OF base _ u(1)] u by auto
  then show "queued ws (insert (r, c) Done) = Suc (queued ws Done)" using u' by (simp add: queued_def)
  have "?V \<subset> {..<length ws}" using u' u(1) by auto
  then show "queued ws Done < length ws" unfolding queued_def using psubset_card_mono [of "{..<length ws}" ?V] by simp
qed

lemma queued_missing:
  assumes base: "ac_base ws K" and r: "r < length ws" and new: "ws ! r @ [c] \<notin> set ws"
  shows "queued ws (insert (r, c) Done) = queued ws Done"
proof -
  have "visited ws (insert (r, c) Done) i \<longleftrightarrow> visited ws Done i" if "i < length ws" for i
  proof -
    have "ws ! i \<noteq> ws ! r @ [c]" using new that by (metis nth_mem)
    with visited_insert [OF base that r] show ?thesis by simp
  qed
  then show ?thesis unfolding queued_def by (metis (mono_tags, lifting) Collect_cong)
qed

lemma insert_row: "insert (r, c) Done \<union> {r} \<times> set cs = Done \<union> {r} \<times> set (c # cs)"
  by auto

lemma visited_mono: "visited ws Done i \<Longrightarrow> Done \<subseteq> Done' \<Longrightarrow> visited ws Done' i"
  unfolding visited_def by blast

text \<open>The root: its links are the root.\<close>

lemma ac_link_root: "ac_keyword (ns ! 0) = None \<Longrightarrow> u \<noteq> 0 \<Longrightarrow> ac_link dup u 0 ns = ns[u := (ns ! u)\<lparr>ac_fail := 0\<rparr>]"
  by (simp add: ac_link_def Let_def)

lemma ac_root_row_inv:
  assumes base: "ac_base ws K" and inv: "bfs_inv ws K Done ns" and k: "Suc k = queued ws Done"
    and cs: "distinct cs" "\<forall>c \<in> set cs. (0, c) \<notin> Done"
  shows "\<exists>ns' k'. ac_root_row cs (ns, q, k) = Some (ns', q @ row_children ws 0 cs, k') \<and>
    bfs_inv ws K (Done \<union> {0} \<times> set cs) ns' \<and> Suc k' = queued ws (Done \<union> {0} \<times> set cs)"
  using inv k cs
proof (induction cs arbitrary: ns q k Done)
  case Nil
  then show ?case by (simp add: row_children_def)
next
  case (Cons c cs)
  note B = ac_baseD [OF base]
  have l0: "0 < length ws" using B(2) by simp
  note I = bfs_invD [OF Cons.prems(1)]
  have fresh: "(0, c) \<notin> Done" using Cons.prems(4) by simp
  have rest: "distinct cs" "\<forall>c' \<in> set cs. (0, c') \<notin> insert (0, c) Done" using Cons.prems(3,4) by auto
  have i0: "ix ws [] = 0" using ix_nth [OF B(1) l0] B(3) by simp
  have vis0: "visited ws Done 0" using B(3) by (simp add: visited_def)
  show ?case
  proof (cases "[c] \<in> set ws")
    case True
    let ?u = "ix ws [c]"
    have u: "?u < length ws" "ws ! ?u = ws ! 0 @ [c]" using ix_in [OF True] B(3) by simp_all
    have nx: "ac_next (ns ! 0) c = Some ?u" using I(2) [OF l0, of c] True B(3) by simp
    have kw0: "ac_keyword (ns ! 0) = None"
      using I(4) [OF l0 vis0] B(3,6) by (cases "ac_keyword (ns ! 0)") (simp_all add: kw_good_def)
    have u0: "?u \<noteq> 0" using u(2) B(3) by (metis append_self_conv2 not_Cons_self2)
    have inv': "bfs_inv ws K (insert (0, c) Done) (ac_link (\<lambda>_. True) ?u 0 ns)"
      by (rule bfs_inv_child [OF base Cons.prems(1) l0 fresh u _ vis0]) (simp_all add: u(2) B(3) i0)
    have push: "k < length ws" using Cons.prems(2) queued_child(2) [OF base l0 fresh u] by simp
    have k': "Suc (k + 1) = queued ws (insert (0, c) Done)" using queued_child(1) [OF base l0 fresh u] Cons.prems(2) by simp
    have row: "ac_root_row (c # cs) (ns, q, k) = ac_root_row cs (ac_link (\<lambda>_. True) ?u 0 ns, q @ [?u], k + 1)"
      using nx push I(1) ac_link_root [OF kw0 u0, of "\<lambda>_. True"] by (simp add: ac_push_def)
    have ch: "q @ row_children ws 0 (c # cs) = (q @ [?u]) @ row_children ws 0 cs" using True B(3) by (simp add: row_children_def)
    from Cons.IH [OF inv' k' rest, of "q @ [?u]"] show ?thesis unfolding row ch insert_row .
  next
    case False
    have nx: "ac_next (ns ! 0) c = None" using I(2) [OF l0, of c] False fresh B(3) by simp
    have "lsuf (set ws) (ws ! 0 @ [c]) = []" using False B(3) by simp
    with bfs_inv_missing [OF base Cons.prems(1) l0, of c] False B(3) i0
    have inv': "bfs_inv ws K (insert (0, c) Done) (set_next ns 0 c 0)" by simp
    have k': "Suc k = queued ws (insert (0, c) Done)" using queued_missing [OF base l0, of c] False B(3) Cons.prems(2) by simp
    have row: "ac_root_row (c # cs) (ns, q, k) = ac_root_row cs (set_next ns 0 c 0, q, k)" using nx by simp
    have ch: "row_children ws 0 (c # cs) = row_children ws 0 cs" using False B(3) by (simp add: row_children_def)
    from Cons.IH [OF inv' k' rest, of q] show ?thesis unfolding row ch insert_row .
  qed
qed

text \<open>Another node: the row of its link is settled, and so are the links into all shorter paths.\<close>

lemma ac_row_inv:
  assumes base: "ac_base ws K" and dup: "\<forall>n. dup n" and inv: "bfs_inv ws K Done ns" and k: "Suc k = queued ws Done"
    and cs: "distinct cs" "\<forall>c \<in> set cs. (r, c) \<notin> Done"
    and r: "r < length ws" "ws ! r \<noteq> []" "visited ws Done r"
    and link: "\<forall>c. (ix ws (lsuf (set ws) (tl (ws ! r))), c) \<in> Done"
    and short: "\<forall>i<length ws. length (ws ! i) \<le> length (ws ! r) \<longrightarrow> visited ws Done i"
  shows "\<exists>ns' k'. ac_row dup r cs (ns, q, k) = Some (ns', q @ row_children ws r cs, k') \<and>
    bfs_inv ws K (Done \<union> {r} \<times> set cs) ns' \<and> Suc k' = queued ws (Done \<union> {r} \<times> set cs)"
  using inv k cs r(3) link short
proof (induction cs arbitrary: ns q k Done)
  case Nil
  then show ?case by (simp add: row_children_def)
next
  case (Cons c cs)
  note B = ac_baseD [OF base]
  note I = bfs_invD [OF Cons.prems(1)]
  let ?S = "set ws"
  let ?f = "ix ws (lsuf ?S (tl (ws ! r)))"
  let ?j = "ix ws (lsuf ?S (tl (ws ! r @ [c])))"
  have f: "?f < length ws" "ws ! ?f = lsuf ?S (tl (ws ! r))" using lsuf_ix [OF base] by simp_all
  have fail: "ac_fail (ns ! r) = ?f" by (rule I(3) [OF r(1) Cons.prems(5)])
  have j: "ac_next (ns ! ?f) c = Some ?j"
    using I(2) [OF f(1), of c] Cons.prems(6) f(2) lsuf_tl_snoc [OF B(4) r(2), of c] by simp
  have fresh: "(r, c) \<notin> Done" using Cons.prems(4) by simp
  have rest: "distinct cs" "\<forall>c' \<in> set cs. (r, c') \<notin> insert (r, c) Done" using Cons.prems(3,4) by auto
  have mono: "visited ws (insert (r, c) Done) r"
    "\<forall>e. (?f, e) \<in> insert (r, c) Done"
    "\<forall>i<length ws. length (ws ! i) \<le> length (ws ! r) \<longrightarrow> visited ws (insert (r, c) Done) i"
    using Cons.prems(5-7) visited_mono [OF _ subset_insertI] by blast+
  show ?case
  proof (cases "ws ! r @ [c] \<in> set ws")
    case True
    let ?u = "ix ws (ws ! r @ [c])"
    have u: "?u < length ws" "ws ! ?u = ws ! r @ [c]" using ix_in [OF True] by simp_all
    have nx: "ac_next (ns ! r) c = Some ?u" using I(2) [OF r(1), of c] True by simp
    have "length (ws ! ?j) \<le> length (ws ! r)"
      using lsuf_ix [OF base, of "tl (ws ! r @ [c])"] lsuf_length [of ?S "tl (ws ! r @ [c])"] by simp
    then have vj: "visited ws Done ?j" using Cons.prems(7) lsuf_ix [OF base] by blast
    have inv': "bfs_inv ws K (insert (r, c) Done) (ac_link dup ?u ?j ns)"
      by (rule bfs_inv_child [OF base Cons.prems(1) r(1) fresh u _ vj dup]) (simp add: u(2))
    have push: "k < length ws" using Cons.prems(2) queued_child(2) [OF base r(1) fresh u] by simp
    have k': "Suc (k + 1) = queued ws (insert (r, c) Done)" using queued_child(1) [OF base r(1) fresh u] Cons.prems(2) by simp
    have row: "ac_row dup r (c # cs) (ns, q, k) = ac_row dup r cs (ac_link dup ?u ?j ns, q @ [?u], k + 1)"
      using nx push I(1) fail j by (simp add: ac_push_def)
    have ch: "q @ row_children ws r (c # cs) = (q @ [?u]) @ row_children ws r cs" using True by (simp add: row_children_def)
    from Cons.IH [OF inv' k' rest mono, of "q @ [?u]"] show ?thesis unfolding row ch insert_row .
  next
    case False
    have nx: "ac_next (ns ! r) c = None" using I(2) [OF r(1), of c] False fresh by simp
    have "lsuf ?S (ws ! r @ [c]) = lsuf ?S (tl (ws ! r @ [c]))" by (rule lsuf_drop_first [OF False])
    with bfs_inv_missing [OF base Cons.prems(1) r(1), of c] False
    have inv': "bfs_inv ws K (insert (r, c) Done) (set_next ns r c ?j)" by simp
    have k': "Suc k = queued ws (insert (r, c) Done)" using queued_missing [OF base r(1), of c] False Cons.prems(2) by simp
    have row: "ac_row dup r (c # cs) (ns, q, k) = ac_row dup r cs (set_next ns r c ?j, q, k)" using nx fail j by simp
    have ch: "row_children ws r (c # cs) = row_children ws r cs" using False by (simp add: row_children_def)
    from Cons.IH [OF inv' k' rest mono, of q] show ?thesis unfolding row ch insert_row .
  qed
qed

section \<open>The pass\<close>

text \<open>\<open>D\<close> is the set of nodes whose row is settled.\<close>

definition loop_inv :: "string list \<Rightarrow> nat set \<Rightarrow> nat list \<Rightarrow> bool" where
  "loop_inv ws D q \<longleftrightarrow>
     0 \<in> D \<and> D \<union> set q = {i. i < length ws \<and> visited ws (D \<times> UNIV) i} \<and> D \<inter> set q = {} \<and> distinct q \<and>
     sorted (map (\<lambda>i. length (ws ! i)) q) \<and> (\<forall>i \<in> D. \<forall>j \<in> set q. length (ws ! i) \<le> length (ws ! j))"

lemma loop_invD:
  assumes "loop_inv ws D q"
  shows "0 \<in> D" "D \<union> set q = {i. i < length ws \<and> visited ws (D \<times> UNIV) i}" "D \<inter> set q = {}" "distinct q"
    "sorted (map (\<lambda>i. length (ws ! i)) q)" "i \<in> D \<Longrightarrow> j \<in> set q \<Longrightarrow> length (ws ! i) \<le> length (ws ! j)"
  using assms unfolding loop_inv_def by blast+

lemma row_children_set:
  assumes "ac_base ws K" "i < length ws"
  shows "i \<in> set (row_children ws r all_bytes) \<longleftrightarrow> (\<exists>c. ws ! i = ws ! r @ [c])"
proof
  assume "i \<in> set (row_children ws r all_bytes)"
  then obtain c where c: "ws ! r @ [c] \<in> set ws" "i = ix ws (ws ! r @ [c])" by (auto simp: row_children_def)
  show "\<exists>c. ws ! i = ws ! r @ [c]" using ix_in [OF c(1)] c(2) by auto
next
  assume "\<exists>c. ws ! i = ws ! r @ [c]"
  then obtain c where c: "ws ! i = ws ! r @ [c]" by blast
  then have "ws ! r @ [c] \<in> set ws" using assms(2) by (metis nth_mem)
  moreover have "i = ix ws (ws ! r @ [c])" using ix_nth [OF ac_baseD(1) [OF assms(1)] assms(2)] c by simp
  ultimately show "i \<in> set (row_children ws r all_bytes)" by (auto simp: row_children_def)
qed

lemma row_children_range: "i \<in> set (row_children ws r cs) \<Longrightarrow> i < length ws"
  by (auto simp: row_children_def ix_in)

lemma distinct_row_children: "ac_base ws K \<Longrightarrow> distinct cs \<Longrightarrow> distinct (row_children ws r cs)"
proof (induction cs)
  case (Cons c cs)
  have "ix ws (ws ! r @ [c]) \<notin> set (row_children ws r cs)" if "ws ! r @ [c] \<in> set ws"
  proof
    assume "ix ws (ws ! r @ [c]) \<in> set (row_children ws r cs)"
    then obtain e where e: "e \<in> set cs" "ws ! r @ [e] \<in> set ws" "ix ws (ws ! r @ [c]) = ix ws (ws ! r @ [e])"
      by (auto simp: row_children_def)
    have "ws ! r @ [c] = ws ! r @ [e]" using ix_in [OF that] ix_in [OF e(2)] e(3) by metis
    then have "c = e" by simp
    with e(1) Cons.prems(2) show False by simp
  qed
  with Cons show ?case by (simp add: row_children_def)
qed (simp add: row_children_def)

lemma shorter_settled:
  assumes base: "ac_base ws K" and L: "loop_inv ws D q" and q: "\<forall>j \<in> set q. n \<le> length (ws ! j)"
  shows "i < length ws \<Longrightarrow> length (ws ! i) < n \<Longrightarrow> i \<in> D"
proof (induction "length (ws ! i)" arbitrary: i)
  case 0
  then have "i = 0" using nth_eq_base [OF base 0(2), of 0] ac_baseD(2,3) [OF base] by simp
  with loop_invD(1) [OF L] show ?case by simp
next
  case (Suc m)
  then obtain w c where w: "ws ! i = w @ [c]" by (metis append_butlast_last_id list.size(3) nat.simps(3))
  have "w \<in> set ws" using ac_baseD(4) [OF base] w Suc(3) nth_mem unfolding paths_def by metis
  then have p: "ix ws w < length ws" "ws ! ix ws w = w" using ix_in by simp_all
  have "ix ws w \<in> D" by (rule Suc(1)) (use p w Suc(2,4) in simp_all)
  then have "visited ws (D \<times> UNIV) i" unfolding visited_def using p w by auto
  then have "i \<in> D \<union> set q" using loop_invD(2) [OF L] Suc(3) by simp
  with q Suc(4) show ?case by auto
qed

lemma loop_inv_step:
  assumes base: "ac_base ws K" and L: "loop_inv ws D (r # q)"
  shows "loop_inv ws (insert r D) (q @ row_children ws r all_bytes)"
proof -
  note I = loop_invD [OF L]
  let ?ch = "row_children ws r all_bytes"
  let ?D = "insert r D"
  have r: "r < length ws" using I(2) by auto
  have vis: "visited ws (?D \<times> UNIV) i \<longleftrightarrow> visited ws (D \<times> UNIV) i \<or> i \<in> set ?ch" if "i < length ws" for i
    using row_children_set [OF base that, of r] r unfolding visited_def by blast
  have U: "?D \<union> set (q @ ?ch) = {i. i < length ws \<and> visited ws (?D \<times> UNIV) i}"
  proof -
    have "?D \<union> set (q @ ?ch) = (D \<union> set (r # q)) \<union> set ?ch" by auto
    with I(2) vis row_children_range [of _ ws r all_bytes] show ?thesis by auto
  qed
  have new: "i \<notin> D \<union> set (r # q)" if ch: "i \<in> set ?ch" for i
  proof -
    have i: "i < length ws" by (rule row_children_range [OF ch])
    obtain c where c: "ws ! i = ws ! r @ [c]" using row_children_set [OF base i, of r] ch by auto
    have "(r, c) \<notin> D \<times> UNIV" using I(3) by auto
    from not_visited_child [OF base i r this c] I(2) show ?thesis by blast
  qed
  have chlen: "length (ws ! i) = Suc (length (ws ! r))" if "i \<in> set ?ch" for i
    using row_children_set [OF base row_children_range [OF that], of r] that by auto
  have qlen: "length (ws ! j) \<le> Suc (length (ws ! r))" if j: "j \<in> set q" for j
  proof -
    have jv: "j < length ws" "visited ws (D \<times> UNIV) j" "j \<notin> D" using I(2,3) j by auto
    have "j \<noteq> 0" using jv(3) I(1) by metis
    then have "ws ! j \<noteq> []" using nth_eq_base [OF base jv(1), of 0] ac_baseD(2,3) [OF base] by simp
    with jv(2) obtain p c where p: "ws ! j = ws ! p @ [c]" "p \<in> D" unfolding visited_def by auto
    from I(6) [OF p(2), of r] p(1) show ?thesis by simp
  qed
  have "D \<inter> set (r # q) = {}" by (rule I(3))
  then have "?D \<inter> set (q @ ?ch) = {}" using new I(4) by auto
  moreover have "distinct (q @ ?ch)"
    using I(4) distinct_row_children [OF base distinct_all_bytes, of r] new by auto
  moreover have "sorted (map (\<lambda>i. length (ws ! i)) (q @ ?ch))"
  proof -
    have "sorted (map (\<lambda>i. length (ws ! i)) ?ch)" by (rule sorted_iff_nth_mono [THEN iffD2]) (simp add: chlen)
    then show ?thesis using I(5) qlen chlen by (simp add: sorted_append)
  qed
  moreover have "length (ws ! i) \<le> length (ws ! j)" if "i \<in> ?D" "j \<in> set (q @ ?ch)" for i j
  proof -
    have "length (ws ! i) \<le> length (ws ! r)" using that(1) I(6) [of i r] by auto
    moreover have "length (ws ! r) \<le> length (ws ! j)" using that(2) I(5) chlen by auto
    ultimately show ?thesis by simp
  qed
  ultimately show ?thesis unfolding loop_inv_def using U I(1) by blast
qed

text \<open>An automaton whose rows are all settled.\<close>

definition ac_complete :: "string list \<Rightarrow> string set \<Rightarrow> ac_node list \<Rightarrow> bool" where
  "ac_complete ws K ns \<longleftrightarrow>
     ac_base ws K \<and>
     (\<forall>i<length ws. \<forall>c. ac_next (ns ! i) c = Some (ix ws (lsuf (set ws) (ws ! i @ [c])))) \<and>
     (\<forall>i<length ws. kw_good K (ws ! i) (ac_keyword (ns ! i)))"

lemma ac_bfs_loop_complete:
  assumes "ac_base ws K" "\<forall>n. dup n" "bfs_inv ws K (D \<times> UNIV) (fst s)" "loop_inv ws D (fst (snd s))"
    and "Suc (snd (snd s)) = queued ws (D \<times> UNIV)"
  shows "\<exists>ns'. ac_bfs_loop dup s = Some ns' \<and> length ns' = length ws \<and> ac_complete ws K ns'"
  using assms
proof (induction dup s arbitrary: D rule: ac_bfs_loop.induct)
  case (1 dup ns k)
  have inv: "bfs_inv ws K (D \<times> UNIV) ns" and L: "loop_inv ws D []" using 1 by simp_all
  note I = bfs_invD [OF inv]
  have all: "i \<in> D" if "i < length ws" for i
    using shorter_settled [OF 1(1) L, of "Suc (length (ws ! i))" i] that by simp
  have "visited ws (D \<times> UNIV) i" if "i < length ws" for i using all [OF that] loop_invD(2) [OF L] by auto
  then have "ac_complete ws K ns" unfolding ac_complete_def using 1(1) I(2,4) all by auto
  with I(1) show ?case by simp
next
  case (2 dup ns r q k)
  have base: "ac_base ws K" and dup: "\<forall>n. dup n" and inv: "bfs_inv ws K (D \<times> UNIV) ns" and L: "loop_inv ws D (r # q)"
    and k: "Suc k = queued ws (D \<times> UNIV)" using "2.prems" by simp_all
  note I = loop_invD [OF L]
  have r: "r < length ws" "visited ws (D \<times> UNIV) r" "r \<notin> D" using I(2,3) by auto
  have "r \<noteq> 0" using r(3) I(1) by metis
  then have wr: "ws ! r \<noteq> []" using nth_eq_base [OF base r(1), of 0] ac_baseD(2,3) [OF base] by simp
  have mini: "\<forall>j \<in> set (r # q). length (ws ! r) \<le> length (ws ! j)" using I(5) by auto
  let ?f = "ix ws (lsuf (set ws) (tl (ws ! r)))"
  have f: "?f < length ws" "length (ws ! ?f) < length (ws ! r)"
    using lsuf_ix [OF base, of "tl (ws ! r)"] lsuf_length [of "set ws" "tl (ws ! r)"] wr by (cases "ws ! r"; simp)+
  have link: "\<forall>c. (?f, c) \<in> D \<times> UNIV" using shorter_settled [OF base L mini f] by simp
  have short: "\<forall>i<length ws. length (ws ! i) \<le> length (ws ! r) \<longrightarrow> visited ws (D \<times> UNIV) i"
  proof (intro allI impI)
    fix i assume i: "i < length ws" "length (ws ! i) \<le> length (ws ! r)"
    show "visited ws (D \<times> UNIV) i"
    proof (cases "ws ! i")
      case Nil
      then show ?thesis by (simp add: visited_def)
    next
      case (Cons a v)
      then obtain w c where w: "ws ! i = w @ [c]" by (metis append_butlast_last_id list.distinct(1))
      have "w \<in> set ws" using ac_baseD(4) [OF base] w i(1) nth_mem unfolding paths_def by metis
      then have p: "ix ws w < length ws" "ws ! ix ws w = w" using ix_in by simp_all
      have "ix ws w \<in> D" by (rule shorter_settled [OF base L mini p(1)]) (use p w i(2) in simp)
      then show ?thesis unfolding visited_def using p w by auto
    qed
  qed
  have fresh: "\<forall>c \<in> set all_bytes. (r, c) \<notin> D \<times> UNIV" using r(3) by simp
  from ac_row_inv [OF base dup inv k distinct_all_bytes fresh r(1) wr r(2) link short, of q]
  obtain ns' k' where row: "ac_row dup r all_bytes (ns, q, k) = Some (ns', q @ row_children ws r all_bytes, k')"
    and inv': "bfs_inv ws K (D \<times> UNIV \<union> {r} \<times> UNIV) ns'" and k': "Suc k' = queued ws (D \<times> UNIV \<union> {r} \<times> UNIV)"
    by auto
  have D': "D \<times> UNIV \<union> {r} \<times> UNIV = insert r D \<times> (UNIV :: char set)" by auto
  from 2(1) [OF row base dup] inv' k' loop_inv_step [OF base L] show ?case unfolding D' by (simp add: row)
qed

lemma trie_inv_base: "trie_inv ws K ns \<Longrightarrow> ac_base ws K"
  unfolding trie_inv_def ac_base_def by blast

lemma trie_inv_bfs:
  assumes "trie_inv ws K ns"
  shows "bfs_inv ws K {} ns"
proof -
  note T = trie_invD [OF assms]
  have z: "visited ws {} i \<longleftrightarrow> i = 0" if "i < length ws" for i
    using nth_eq_base [OF trie_inv_base [OF assms] that, of 0] T(3,4) by (simp add: visited_def)
  have "ix ws [] = 0" using ix_nth [OF T(2), of 0] T(3,4) by simp
  then have "ac_fail (ns ! 0) = ix ws (lsuf (set ws) (tl (ws ! 0)))" using T(4,10) by simp
  moreover have "kw_good K (ws ! 0) (ac_keyword (ns ! 0))" using T(9) [of 0] T(3,4,7) by (auto simp: kw_good_def)
  ultimately show ?thesis unfolding bfs_inv_def using T(1,8,9) z by auto
qed

lemma loop_inv_start:
  assumes base: "ac_base ws K"
  shows "loop_inv ws {0} (row_children ws 0 all_bytes)"
proof -
  note B = ac_baseD [OF base]
  have "visited ws ({} \<times> UNIV) i \<longleftrightarrow> i = 0" if "i < length ws" for i
    using nth_eq_base [OF base that, of 0] B(2,3) by (simp add: visited_def)
  then have vis: "visited ws ({0} \<times> UNIV) i \<longleftrightarrow> i = 0 \<or> i \<in> set (row_children ws 0 all_bytes)" if "i < length ws" for i
    using row_children_set [OF base that, of 0] that B(2) unfolding visited_def by auto
  have "{i. i < length ws \<and> visited ws ({0} \<times> UNIV) i} = {0} \<union> set (row_children ws 0 all_bytes)"
    using vis row_children_range [of _ ws 0 all_bytes] B(2) by auto
  moreover have ch: "length (ws ! i) = 1" if "i \<in> set (row_children ws 0 all_bytes)" for i
    using row_children_set [OF base row_children_range [OF that], of 0] that B(3) by auto
  moreover have "0 \<notin> set (row_children ws 0 all_bytes)" using ch B(3) by fastforce
  moreover have "sorted (map (\<lambda>i. length (ws ! i)) (row_children ws 0 all_bytes))"
    by (rule sorted_iff_nth_mono [THEN iffD2]) (simp add: ch)
  ultimately show ?thesis
    unfolding loop_inv_def using distinct_row_children [OF base distinct_all_bytes, of 0] B(3) by auto
qed

lemma ac_build_complete:
  assumes keys: "ac_keywords K t" and dup: "\<forall>n. dup n" and more: "1 < length (ac_nodes t)"
  shows "\<exists>t' ws. ac_trie_build_failure_links True dup t = Some (t', True) \<and>
    length (ac_nodes t') = length (ac_nodes t) \<and> ac_complete ws K (ac_nodes t')"
proof -
  obtain ws where inv: "trie_inv ws K (ac_nodes t)" using keys by (auto simp: ac_keywords_def)
  have base: "ac_base ws K" by (rule trie_inv_base [OF inv])
  have "{i. i < length ws \<and> visited ws {} i} = {0}"
    using nth_eq_base [OF base _, of _ 0] ac_baseD(2,3) [OF base] by (auto simp: visited_def)
  then have "Suc 0 = queued ws {}" by (simp add: queued_def)
  from ac_root_row_inv [OF base trie_inv_bfs [OF inv] this distinct_all_bytes, of "[]"]
  obtain ns k where row: "ac_root_row all_bytes (ac_nodes t, [], 0) = Some (ns, row_children ws 0 all_bytes, k)"
    and b: "bfs_inv ws K ({0} \<times> UNIV) ns" "Suc k = queued ws ({0} \<times> UNIV)" by auto
  from ac_bfs_loop_complete [OF base dup, of "{0}" "(ns, row_children ws 0 all_bytes, k)"] b loop_inv_start [OF base]
  obtain ns' where l: "ac_bfs_loop dup (ns, row_children ws 0 all_bytes, k) = Some ns'" "length ns' = length ws" "ac_complete ws K ns'"
    by auto
  have "ac_trie_build_failure_links True dup t = Some (t\<lparr>ac_nodes := ns'\<rparr>, True)"
    using more row l(1) by (simp add: ac_trie_build_failure_links_def)
  with l(2,3) trie_invD(1) [OF inv] show ?thesis by auto
qed

section \<open>Search\<close>

text \<open>Whether a keyword ends at the end of \<open>v\<close>.\<close>

definition ends_keyword :: "string set \<Rightarrow> string \<Rightarrow> bool" where
  "ends_keyword K v \<longleftrightarrow> (\<exists>x \<in> K. suffix x v)"

lemma ends_keyword_lsuf: "ac_base ws K \<Longrightarrow> ends_keyword K (lsuf (set ws) v) \<longleftrightarrow> ends_keyword K v"
  unfolding ends_keyword_def using ac_baseD(5) lsuf_longest lsuf_suffix suffix_order.trans by (metis subsetD)

lemma ac_run_correct:
  assumes "ac_complete ws K ns" "i < length ws" "ws ! i = lsuf (set ws) v"
  shows "\<exists>res. ac_scan ns i cs = Some res \<and>
    (case res of
       None \<Rightarrow> \<forall>p. p \<noteq> [] \<and> prefix p cs \<longrightarrow> \<not> ends_keyword K (v @ p)
     | Some k \<Rightarrow> k \<in> K \<and> (\<exists>p. p \<noteq> [] \<and> prefix p cs \<and> suffix k (v @ p) \<and>
         (\<forall>p'. p' \<noteq> [] \<and> strict_prefix p' p \<longrightarrow> \<not> ends_keyword K (v @ p'))))"
  using assms(2,3)
proof (induction cs arbitrary: i v)
  case Nil
  then show ?case by simp
next
  case (Cons c cs)
  have base: "ac_base ws K" using assms(1) by (simp add: ac_complete_def)
  let ?j = "ix ws (lsuf (set ws) (v @ [c]))"
  have nx: "ac_next (ns ! i) c = Some ?j"
    using assms(1) Cons.prems lsuf_snoc [OF ac_baseD(4) [OF base], of v c] by (simp add: ac_complete_def)
  have j: "?j < length ws" "ws ! ?j = lsuf (set ws) (v @ [c])" using lsuf_ix [OF base] by simp_all
  have good: "kw_good K (ws ! ?j) (ac_keyword (ns ! ?j))" using assms(1) j(1) unfolding ac_complete_def by blast
  show ?case
  proof (cases "ac_keyword (ns ! ?j)")
    case (Some k)
    with good j(2) have k: "k \<in> K" "suffix k (lsuf (set ws) (v @ [c]))" by (simp_all add: kw_good_def)
    have "suffix k (v @ [c])" by (rule suffix_order.trans [OF k(2) lsuf_suffix])
    moreover have "\<not> strict_prefix p' [c]" if "p' \<noteq> []" for p' :: string
      using that by (cases p') (auto simp: strict_prefix_def)
    ultimately have "\<exists>p. p \<noteq> [] \<and> prefix p (c # cs) \<and> suffix k (v @ p) \<and>
        (\<forall>p'. p' \<noteq> [] \<and> strict_prefix p' p \<longrightarrow> \<not> ends_keyword K (v @ p'))"
      by (intro exI [of _ "[c]"]) auto
    with k(1) show ?thesis using nx Some by simp
  next
    case None
    have stop: "\<not> ends_keyword K (v @ [c])"
      using good None ends_keyword_lsuf [OF base, of "v @ [c]"] j(2) by (simp add: kw_good_def ends_keyword_def)
    from Cons.IH [OF j] obtain res where res: "ac_scan ns ?j cs = Some res"
      "case res of
         None \<Rightarrow> \<forall>p. p \<noteq> [] \<and> prefix p cs \<longrightarrow> \<not> ends_keyword K ((v @ [c]) @ p)
       | Some k \<Rightarrow> k \<in> K \<and> (\<exists>p. p \<noteq> [] \<and> prefix p cs \<and> suffix k ((v @ [c]) @ p) \<and>
           (\<forall>p'. p' \<noteq> [] \<and> strict_prefix p' p \<longrightarrow> \<not> ends_keyword K ((v @ [c]) @ p')))" by blast
    have run: "ac_scan ns i (c # cs) = Some res" using nx None res(1) by simp
    show ?thesis
    proof (cases res)
      case None
      have "\<not> ends_keyword K (v @ p)" if p: "p \<noteq> []" "prefix p (c # cs)" for p
      proof (cases "tl p = []")
        case True
        with p have "p = [c]" by (cases p) auto
        with stop show ?thesis by simp
      next
        case False
        with p obtain q where q: "p = c # q" "q \<noteq> []" "prefix q cs" by (cases p) auto
        with res(2) None have "\<not> ends_keyword K ((v @ [c]) @ q)" by simp
        with q(1) show ?thesis by simp
      qed
      with run None show ?thesis by simp
    next
      case (Some k)
      with res(2) obtain p where p: "k \<in> K" "p \<noteq> []" "prefix p cs" "suffix k (v @ c # p)"
        "\<And>p'. p' \<noteq> [] \<Longrightarrow> strict_prefix p' p \<Longrightarrow> \<not> ends_keyword K (v @ c # p')" by auto
      have "\<not> ends_keyword K (v @ p')" if p': "p' \<noteq> []" "strict_prefix p' (c # p)" for p'
      proof (cases "tl p' = []")
        case True
        with p' have "p' = [c]" by (cases p') (auto simp: strict_prefix_def)
        with stop show ?thesis by simp
      next
        case False
        with p' obtain q where q: "p' = c # q" "q \<noteq> []" "strict_prefix q p" by (cases p') (auto simp: strict_prefix_def)
        with p(5) show ?thesis by simp
      qed
      with p(1-4) have "\<exists>p. p \<noteq> [] \<and> prefix p (c # cs) \<and> suffix k (v @ p) \<and>
        (\<forall>p'. p' \<noteq> [] \<and> strict_prefix p' p \<longrightarrow> \<not> ends_keyword K (v @ p'))" by (intro exI [of _ "c # p"]) auto
      with p(1) run Some show ?thesis by simp
    qed
  qed
qed

lemma sublist_ends: "x \<noteq> [] \<Longrightarrow> sublist x s \<longleftrightarrow> (\<exists>p. p \<noteq> [] \<and> prefix p s \<and> suffix x p)"
  unfolding sublist_altdef by (metis suffix_bot.extremum_unique)

text \<open>What the search over the automaton of a set of keywords finds.\<close>

definition search_finds :: "string set \<Rightarrow> string \<Rightarrow> string option \<Rightarrow> bool" where
  "search_finds K body res \<longleftrightarrow>
     (case res of None \<Rightarrow> \<forall>k \<in> K. \<not> sublist k body | Some k \<Rightarrow> k \<in> K \<and> sublist k body)"

lemma ac_search_complete:
  assumes "ac_keywords K t" "\<forall>n. dup n"
  shows "\<exists>t' res. ac_trie_build_failure_links True dup t = Some (t', True) \<and>
    ac_trie_search t' body = Some res \<and> search_finds K body res"
proof (cases "1 < length (ac_nodes t)")
  case True
  from ac_build_complete [OF assms True] obtain t' ws where
    t': "ac_trie_build_failure_links True dup t = Some (t', True)" "length (ac_nodes t') = length (ac_nodes t)"
    "ac_complete ws K (ac_nodes t')" by blast
  have base: "ac_base ws K" using t'(3) by (simp add: ac_complete_def)
  note B = ac_baseD [OF base]
  have "0 < length ws" "ws ! 0 = lsuf (set ws) []" using B(2,3) by simp_all
  from ac_run_correct [OF t'(3) this, of body, unfolded append_Nil] obtain res where res: "ac_scan (ac_nodes t') 0 body = Some res"
    "case res of None \<Rightarrow> \<forall>p. p \<noteq> [] \<and> prefix p body \<longrightarrow> \<not> ends_keyword K p
     | Some k \<Rightarrow> k \<in> K \<and> (\<exists>p. p \<noteq> [] \<and> prefix p body \<and> suffix k p \<and>
         (\<forall>p'. p' \<noteq> [] \<and> strict_prefix p' p \<longrightarrow> \<not> ends_keyword K p'))" by blast
  have "search_finds K body res"
  proof (cases res)
    case None
    have "\<not> sublist k body" if "k \<in> K" for k
    proof -
      have "k \<noteq> []" using that B(6) by metis
      then show ?thesis using res(2) None that sublist_ends [of k body] by (auto simp: ends_keyword_def)
    qed
    with None show ?thesis by (simp add: search_finds_def)
  next
    case (Some k)
    with res(2) have k: "k \<in> K" "\<exists>p. p \<noteq> [] \<and> prefix p body \<and> suffix k p" by auto
    have "k \<noteq> []" using k(1) B(6) by metis
    with k Some sublist_ends [of k body] show ?thesis by (simp add: search_finds_def)
  qed
  with t'(1,2) res(1) True show ?thesis by (simp add: ac_trie_search_def)
next
  case False
  obtain ws where inv: "trie_inv ws K (ac_nodes t)" using assms(1) by (auto simp: ac_keywords_def)
  note T = trie_invD [OF inv]
  have "ws = [[]]" using False T(1,3,4) by (cases ws) auto
  with T(6,7) have "K = {}" by auto
  with False show ?thesis by (simp add: ac_trie_build_failure_links_def ac_trie_search_def search_finds_def)
qed

end
