(* ===== verification/Prompt_Props.thy ===== *)
theory Prompt_Props
  imports Prompt_Template "HOL-Library.AList"
begin

text \<open>
  The expansion of a template is what its variables say, within its buffer; applying a template
  changes the system message and nothing else. \<open>jval_lib\<close> is an instance of the JSON library on
  finite trees, on which the properties are tried.
\<close>

section \<open>Expansion\<close>

text \<open>The text without a buffer.\<close>

function expand_spec :: "(string \<Rightarrow> string option) \<Rightarrow> string \<Rightarrow> string" where
  "expand_spec val p =
     (case p of
        [] \<Rightarrow> []
      | c # cs \<Rightarrow> (case placeholder val p of Some (rep, rest) \<Rightarrow> rep @ expand_spec val rest | None \<Rightarrow> c # expand_spec val cs))"
  by pat_completeness auto
termination
  by (relation "measure (\<lambda>(val, p). length p)") (auto dest: placeholder_shorter)

declare expand_spec.simps [simp del]

lemma expand_spec_text: "placeholder val (c # cs) = None \<Longrightarrow> expand_spec val (c # cs) = c # expand_spec val cs"
  by (subst expand_spec.simps) simp

lemma expand_spec_var: "placeholder val (c # cs) = Some (rep, rest) \<Longrightarrow> expand_spec val (c # cs) = rep @ expand_spec val rest"
  by (subst expand_spec.simps) simp

lemma grow_room: "grow ok need cap = Some cap' \<Longrightarrow> 0 < cap \<Longrightarrow> need + 1 < cap' \<and> cap \<le> cap'"
proof (induction ok need cap rule: grow.induct)
  case (1 ok need cap)
  show ?case
  proof (cases "need + 1 \<ge> cap")
    case True
    with 1(2,3) have "ok (2 * cap)" "grow ok need (2 * cap) = Some cap'"
      by (simp_all add: grow.simps [of ok need cap] split: if_splits)
    with 1(1) True 1(3) show ?thesis by fastforce
  next
    case False
    with 1(2,3) show ?thesis by (simp add: grow.simps [of ok need cap])
  qed
qed

lemma grow_total: "(\<forall>n. ok n) \<Longrightarrow> \<exists>cap'. grow ok need cap = Some cap'"
proof (induction ok need cap rule: grow.induct)
  case (1 ok need cap)
  show ?case
  proof (cases "0 < cap \<and> need + 1 \<ge> cap")
    case True
    with 1(2) have "grow ok need cap = grow ok need (2 * cap)" by (subst grow.simps) (metis (full_types))
    with 1 True show ?thesis by metis
  next
    case False
    then have "grow ok need cap = Some cap" by (subst grow.simps) (simp only: if_False)
    then show ?thesis by simp
  qed
qed

lemma expand_loop_correct:
  assumes "length out < cap" "256 \<le> cap"
  shows "expand_loop val ok cap out p \<in> {Buf_Done (out @ expand_spec val p), Buf_Oom} \<and>
    ((\<forall>n. ok n) \<longrightarrow> expand_loop val ok cap out p = Buf_Done (out @ expand_spec val p))"
  using assms
proof (induction val ok cap out p rule: expand_loop.induct)
  case (1 val ok cap out p)
  show ?case
  proof (cases p)
    case Nil
    have "expand_loop val ok cap out [] = Buf_Done out"
      using 1(3) by (simp add: expand_loop.simps [of val ok cap out "[]"] buf_write_def)
    moreover have "expand_spec val [] = []" by (simp add: expand_spec.simps [of val "[]"])
    ultimately show ?thesis unfolding Nil by (metis append_Nil2 insertI1)
  next
    case (Cons c cs)
    show ?thesis
    proof (cases "placeholder val p")
      case None
      let ?cap = "if length out + 2 \<ge> cap then 2 * cap else cap"
      have room: "length out + 2 \<le> ?cap" "length (out @ [c]) < ?cap" "256 \<le> ?cap" using 1(3,4) by auto
      have w: "buf_write ?cap out [c] = Some (out @ [c])" using room(1) by (simp add: buf_write_def)
      have e: "expand_spec val p = c # expand_spec val cs" using None Cons by (simp add: expand_spec_text)
      show ?thesis
      proof (cases "length out + 2 \<ge> cap \<and> \<not> ok (2 * cap)")
        case True
        have "expand_loop val ok cap out p = Buf_Oom"
          by (subst expand_loop.simps) (simp only: Cons list.case None [unfolded Cons] option.case True simp_thms if_True)
        with True show ?thesis by blast
      next
        case False
        have l: "expand_loop val ok cap out p = expand_loop val ok ?cap (out @ [c]) cs"
          by (subst expand_loop.simps) (simp only: Cons list.case None [unfolded Cons] option.case False if_False Let_def w)
        show ?thesis using 1(1) [OF Cons None False refl w room(2,3)] unfolding l e append_assoc append_Cons append_Nil .
      qed
    next
      case (Some pr)
      obtain rep rest where pr: "pr = (rep, rest)" by (cases pr)
      have e: "expand_spec val p = rep @ expand_spec val rest" using Some pr Cons by (simp add: expand_spec_var)
      show ?thesis
      proof (cases "grow ok (length out + length rep) cap")
        case None
        then have "\<not> (\<forall>n. ok n)" using grow_total [of ok "length out + length rep" cap] by auto
        moreover have "expand_loop val ok cap out p = Buf_Oom"
          by (subst expand_loop.simps) (simp only: Cons list.case Some [unfolded Cons] pr option.case prod.case None)
        ultimately show ?thesis by blast
      next
        case g: (Some cap')
        from grow_room [OF g] 1(3) have room: "length out + length rep + 1 < cap'" "cap \<le> cap'" by simp_all
        have w: "buf_write cap' out rep = Some (out @ rep)" using room by (simp add: buf_write_def)
        have l: "expand_loop val ok cap out p = expand_loop val ok cap' (out @ rep) rest"
          by (subst expand_loop.simps) (simp only: Cons list.case Some [unfolded Cons] pr option.case prod.case g w)
        have "length (out @ rep) < cap'" "256 \<le> cap'" using room 1(4) by auto
        then show ?thesis using 1(2) [OF Cons Some pr [symmetric] g w] unfolding l e append_assoc by blast
      qed
    qed
  qed
qed

text \<open>The expansion of a template never writes outside its buffer, whatever the values of the variables and
  whichever reallocations fail; it gives the template with every known variable replaced once, the
  replacement not read again, or nothing when memory runs out.\<close>

theorem prompt_expand_correct:
  "prompt_template_expand_vars alloc_ok ok now (Some t) model key_name \<in>
     {Buf_Done (Some (expand_spec (var_value now model key_name) t)), Buf_Done None} \<and>
   (alloc_ok \<and> (\<forall>n. ok n) \<longrightarrow>
     prompt_template_expand_vars alloc_ok ok now (Some t) model key_name =
       Buf_Done (Some (expand_spec (var_value now model key_name) t)))"
  using expand_loop_correct [of "[]" "length t + 256" "var_value now model key_name" ok t]
  by (auto simp: prompt_template_expand_vars_def)

text \<open>A template with two variables and an unknown one.\<close>

lemma prompt_expand_correct_witness:
  "prompt_template_expand_vars True (\<lambda>_. True) 86399 (Some ''${model} at ${time} ${x}'') (Some ''gpt'') None =
     Buf_Done (Some ''gpt at 23:59:59 ${x}'')"
proof -
  have "expand_spec (var_value 86399 (Some ''gpt'') None) ''${model} at ${time} ${x}'' = ''gpt at 23:59:59 ${x}''" by code_simp
  with prompt_expand_correct [of True "\<lambda>_. True" 86399 "''${model} at ${time} ${x}''" "Some ''gpt''" None] show ?thesis by simp
qed

section \<open>Applying a template\<close>

lemma json_laws_set:
  "json_laws L \<Longrightarrow> jo_is_object L j \<Longrightarrow>
    jo_is_object L (jl_set L j k (Some v)) \<and> jo_get L (Some (jl_set L j k (Some v))) k' = (if k' = k then Some v else jo_get L (Some j) k')"
  unfolding json_laws_def by blast

lemma json_laws_array: "json_laws L \<Longrightarrow> jo_array L (Some (jl_array L xs)) = Some xs"
  unfolding json_laws_def by blast

lemma json_laws_string: "json_laws L \<Longrightarrow> jl_string L s = Some v \<Longrightarrow> jo_string L (Some v) = Some s"
  unfolding json_laws_def by blast

lemma json_laws_object: "json_laws L \<Longrightarrow> jl_object L = Some v \<Longrightarrow> jo_is_object L v"
  unfolding json_laws_def by blast

text \<open>
  With memory at hand. \<^verbatim>\<open>json_string\<close> succeeds on valid UTF-8 and fails on other bytes: it takes ASCII texts,
  every text that a document holds, and a text made of two that it takes.
\<close>

definition ascii_text :: "string \<Rightarrow> bool" where
  "ascii_text s \<longleftrightarrow> list_all (\<lambda>c. (of_char c :: nat) < 128) s"

definition json_total :: "'j json_lib \<Rightarrow> bool" where
  "json_total L \<longleftrightarrow> json_laws L \<and> jl_object L \<noteq> None \<and>
     (\<forall>s. ascii_text s \<longrightarrow> jl_string L s \<noteq> None) \<and>
     (\<forall>j s. jo_string L j = Some s \<longrightarrow> jl_string L s \<noteq> None) \<and>
     (\<forall>a b. jl_string L a \<noteq> None \<longrightarrow> jl_string L b \<noteq> None \<longrightarrow> jl_string L (a @ b) \<noteq> None)"

lemma json_totalD:
  assumes "json_total L"
  shows "json_laws L" "jl_object L \<noteq> None" "ascii_text s \<Longrightarrow> jl_string L s \<noteq> None"
    "jo_string L j = Some s \<Longrightarrow> jl_string L s \<noteq> None"
    "jl_string L a \<noteq> None \<Longrightarrow> jl_string L b \<noteq> None \<Longrightarrow> jl_string L (a @ b) \<noteq> None"
  using assms unfolding json_total_def by blast+

lemma ascii_words [simp]:
  "ascii_text []" "ascii_text ''system''" "ascii_text ''text''" "ascii_text ''ephemeral''" "ascii_text [CHR 0x0A, CHR 0x0A]"
  by (simp_all add: ascii_text_def)

lemma set_string_facts:
  assumes "json_total L" "jo_is_object L j" "jl_string L s \<noteq> None"
  shows "jo_is_object L (set_string L j k s)"
    and "jo_string L (jo_get L (Some (set_string L j k s)) k) = Some s"
    and "k' \<noteq> k \<Longrightarrow> jo_get L (Some (set_string L j k s)) k' = jo_get L (Some j) k'"
proof -
  from assms obtain v where v: "jl_string L s = Some v" "json_laws L" using json_totalD(1) by blast
  then show "jo_is_object L (set_string L j k s)"
    and "jo_string L (jo_get L (Some (set_string L j k s)) k) = Some s"
    and "k' \<noteq> k \<Longrightarrow> jo_get L (Some (set_string L j k s)) k' = jo_get L (Some j) k'"
    using json_laws_set [OF v(2) assms(2)] json_laws_string [OF v(2,1)] by (simp_all add: set_string_def)
qed

text \<open>What a template makes of the messages.\<close>

definition system_rewritten :: "'j json_lib \<Rightarrow> prompt_inject_mode \<Rightarrow> string \<Rightarrow> 'j list \<Rightarrow> 'j list \<Rightarrow> bool" where
  "system_rewritten L mode expanded msgs msgs' \<longleftrightarrow>
     (case find_idx (has_role L ''system'') msgs of
        None \<Rightarrow> tl msgs' = msgs \<and> msgs' \<noteq> [] \<and> has_role L ''system'' (hd msgs') \<and>
          jo_string L (jo_get L (Some (hd msgs')) ''content'') = Some expanded
      | Some i \<Rightarrow> msgs' = msgs[i := msgs' ! i] \<and>
          jo_string L (jo_get L (Some (msgs' ! i)) ''content'') =
            Some (combined_content mode expanded (cstr_or_empty (jo_string L (jo_get L (Some (msgs ! i)) ''content'')))) \<and>
          (\<forall>k. k \<noteq> ''content'' \<longrightarrow> jo_get L (Some (msgs' ! i)) k = jo_get L (Some (msgs ! i)) k))"

lemma apply_system_rewrites:
  assumes "json_total L" "jl_string L expanded \<noteq> None"
  obtains msgs' where "apply_system L True mode expanded msgs = Some msgs'" "system_rewritten L mode expanded msgs msgs'"
proof (cases "find_idx (has_role L ''system'') msgs")
  case None
  from json_totalD(1,2) [OF assms(1)] obtain obj where obj: "jl_object L = Some obj" "json_laws L" by blast
  let ?r = "set_string L obj ''role'' ''system''"
  let ?m = "set_string L ?r ''content'' expanded"
  have sy: "jl_string L ''system'' \<noteq> None" using json_totalD(3) [OF assms(1)] by simp
  note r = set_string_facts [OF assms(1) json_laws_object [OF obj(2,1)] sy, where k = "''role''"]
  note m = set_string_facts [OF assms(1) r(1) assms(2), where k = "''content''"]
  have "system_rewritten L mode expanded msgs (?m # msgs)"
    using m(1,2) m(3) [of "''role''"] r(2) by (simp add: system_rewritten_def None has_role_def)
  with that [of "?m # msgs"] show thesis by (simp add: apply_system_def None obj(1))
next
  case (Some i)
  then have i: "i < length msgs" and o1: "jo_is_object L (msgs ! i)" using find_idx_holds [OF Some] by (auto simp: has_role_def)
  let ?c = "combined_content mode expanded (cstr_or_empty (jo_string L (jo_get L (Some (msgs ! i)) ''content'')))"
  let ?ms = "msgs[i := set_string L (msgs ! i) ''content'' ?c]"
  have "jl_string L (cstr_or_empty (jo_string L (jo_get L (Some (msgs ! i)) ''content''))) \<noteq> None"
    using json_totalD(3) [OF assms(1), of "[]"] json_totalD(4) [OF assms(1)] by (auto simp: cstr_or_empty_def split: option.split)
  then have "jl_string L ?c \<noteq> None"
    using assms(2) json_totalD(3) [OF assms(1), of "[CHR 0x0A, CHR 0x0A]"]
    by (simp only: combined_content_def split: prompt_inject_mode.split) (intro conjI impI json_totalD(5) [OF assms(1)]; simp)
  then have "system_rewritten L mode expanded msgs ?ms"
    using set_string_facts [OF assms(1) o1, where k = "''content''" and s = ?c] i by (simp add: system_rewritten_def Some)
  with that [of ?ms] show thesis by (simp add: apply_system_def Some Let_def)
qed

lemma template_applied:
  assumes "json_total L" "jo_is_object L jbody" "jo_array L (jo_get L (Some jbody) ''messages'') = Some msgs"
    and "pt_system_template tmpl = Some t" "t \<noteq> []" "pt_prefix_user_prompt tmpl = None" "pt_suffix_user_prompt tmpl = None"
    and "ai_expand_ok ai" "\<forall>n. ai_grow_ok ai n" "ai_combined_ok ai"
    and "jl_string L (expand_spec (var_value (ai_now ai) model key_name) t) \<noteq> None"
  obtains msgs' where "system_rewritten L (pt_mode tmpl) (expand_spec (var_value (ai_now ai) model key_name) t) msgs msgs'"
    "prompt_template_apply L ai tmpl model key_name jbody =
       (let j = jl_set L jbody ''messages'' (Some (jl_array L msgs')) in Some (j, jl_dumps L j))"
proof -
  let ?e = "expand_spec (var_value (ai_now ai) model key_name) t"
  have e: "prompt_template_expand_vars True (ai_grow_ok ai) (ai_now ai) (Some t) model key_name = Buf_Done (Some ?e)"
    using expand_loop_correct [of "[]" "length t + 256" "var_value (ai_now ai) model key_name" "ai_grow_ok ai" t] assms(9)
    by (simp add: prompt_template_expand_vars_def)
  obtain msgs' where m: "apply_system L True (pt_mode tmpl) ?e msgs = Some msgs'" "system_rewritten L (pt_mode tmpl) ?e msgs msgs'"
    by (rule apply_system_rewrites [OF assms(1,11)])
  have "prompt_template_apply L ai tmpl model key_name jbody =
       (let j = jl_set L jbody ''messages'' (Some (jl_array L msgs')) in Some (j, jl_dumps L j))"
    using assms(2-8,10) e m(1) by (simp add: prompt_template_apply_def apply_user_def Let_def)
  with m(2) show thesis by (rule that)
qed

text \<open>Whatever happens to the allocations, the buffer of the expansion is not left.\<close>

lemma template_safe: "prompt_template_apply L ai tmpl model key_name jbody \<noteq> None"
proof -
  have "prompt_template_expand_vars a ok now (Some t) model key_name \<noteq> Buf_Overrun" for a ok now t
    using expand_loop_correct [of "[]" "length t + 256" "var_value now model key_name" ok t] by (auto simp: prompt_template_expand_vars_def)
  then show ?thesis
    by (cases "pt_system_template tmpl") (auto simp: prompt_template_apply_def Let_def split: option.splits buf_result.splits)
qed

text \<open>Applying a template without affixes, with memory at hand and a text that JSON can hold, changes the request in one place: its first system
  message gets the expanded template before, after or instead of its text and keeps its other members; without a
  system message one is put in front; every other message and member of the request is as it was, and the text
  returned is that document's.\<close>

theorem prompt_template_rewrites_system_only:
  assumes "json_total L" "jo_is_object L jbody"
    and "jo_array L (jo_get L (Some jbody) ''messages'') = Some msgs"
    and "pt_system_template tmpl = Some t" "t \<noteq> []"
    and "pt_prefix_user_prompt tmpl = None" "pt_suffix_user_prompt tmpl = None"
    and "ai_expand_ok ai" "\<forall>n. ai_grow_ok ai n" "ai_combined_ok ai"
    and "jl_string L (expand_spec (var_value (ai_now ai) model key_name) t) \<noteq> None"
  shows "\<exists>jbody' msgs'.
    prompt_template_apply L ai tmpl model key_name jbody = Some (jbody', jl_dumps L jbody') \<and>
    jo_array L (jo_get L (Some jbody') ''messages'') = Some msgs' \<and>
    system_rewritten L (pt_mode tmpl) (expand_spec (var_value (ai_now ai) model key_name) t) msgs msgs' \<and>
    (\<forall>k. k \<noteq> ''messages'' \<longrightarrow> jo_get L (Some jbody') k = jo_get L (Some jbody) k)"
proof -
  from template_applied [OF assms] obtain msgs' where m:
    "system_rewritten L (pt_mode tmpl) (expand_spec (var_value (ai_now ai) model key_name) t) msgs msgs'"
    "prompt_template_apply L ai tmpl model key_name jbody =
       (let j = jl_set L jbody ''messages'' (Some (jl_array L msgs')) in Some (j, jl_dumps L j))" by blast
  moreover have laws: "json_laws L" using assms(1) by (simp add: json_total_def)
  ultimately show ?thesis
    using json_laws_set [OF laws assms(2), of "''messages''"] json_laws_array [OF laws] by (auto simp: Let_def)
qed

section \<open>An instance\<close>

text \<open>JSON trees without numbers; the serialiser is left out of what the witness looks at.\<close>

datatype jval = JStr string | JArr "jval list" | JObj "(string \<times> jval) list"

definition jval_lib :: "jval json_lib" where
  "jval_lib = \<lparr>jo_loadb = (\<lambda>_. None),
     jo_is_object = (\<lambda>j. case j of JObj _ \<Rightarrow> True | _ \<Rightarrow> False),
     jo_get = (\<lambda>j k. case j of Some (JObj kvs) \<Rightarrow> map_of kvs k | _ \<Rightarrow> None),
     jo_string = (\<lambda>j. case j of Some (JStr s) \<Rightarrow> Some s | _ \<Rightarrow> None),
     jo_number = (\<lambda>_. None),
     jo_array = (\<lambda>j. case j of Some (JArr xs) \<Rightarrow> Some xs | _ \<Rightarrow> None),
     jl_dumps = (\<lambda>_. Some ''{}''),
     jl_string = (\<lambda>s. Some (JStr s)),
     jl_object = Some (JObj []),
     jl_set = (\<lambda>j k v. case (j, v) of (JObj kvs, Some x) \<Rightarrow> JObj (AList.update k x kvs) | _ \<Rightarrow> j),
     jl_array = JArr\<rparr>"

lemma jval_lib_total: "json_total jval_lib"
  by (auto simp: json_total_def json_laws_def jval_lib_def update_conv split: jval.splits option.splits)

lemma prompt_template_rewrites_system_only_witness:
  "\<exists>jbody' msgs'.
    prompt_template_apply jval_lib \<lparr>ai_now = 0, ai_expand_ok = True, ai_grow_ok = \<lambda>_. True, ai_combined_ok = True, ai_user_ok = True\<rparr>
      \<lparr>pt_system_template = Some ''be kind'', pt_mode = PROMPT_MODE_APPEND, pt_prefix_user_prompt = None, pt_suffix_user_prompt = None\<rparr>
      None None (JObj [(''messages'', JArr [JObj [(''role'', JStr ''user'')]])]) = Some (jbody', Some ''{}'') \<and>
    jo_array jval_lib (jo_get jval_lib (Some jbody') ''messages'') = Some msgs' \<and> length msgs' = 2"
proof -
  have none: "\<not> has_role jval_lib ''system'' (JObj [(''role'', JStr ''user'')])" by code_simp
  let ?ai = "\<lparr>ai_now = 0, ai_expand_ok = True, ai_grow_ok = \<lambda>_. True, ai_combined_ok = True, ai_user_ok = True\<rparr>"
  let ?t = "\<lparr>pt_system_template = Some ''be kind'', pt_mode = PROMPT_MODE_APPEND, pt_prefix_user_prompt = None, pt_suffix_user_prompt = None\<rparr>"
  let ?b = "JObj [(''messages'', JArr [JObj [(''role'', JStr ''user'')]])]"
  have "jo_is_object jval_lib ?b"
    "jo_array jval_lib (jo_get jval_lib (Some ?b) ''messages'') = Some [JObj [(''role'', JStr ''user'')]]"
    by (simp_all add: jval_lib_def)
  moreover have "jl_string jval_lib x \<noteq> None" for x by (simp add: jval_lib_def)
  moreover note prompt_template_rewrites_system_only [OF jval_lib_total, of ?b _ ?t "''be kind''" ?ai None None]
  ultimately
  obtain jbody' msgs' where
    a: "prompt_template_apply jval_lib ?ai ?t None None ?b = Some (jbody', jl_dumps jval_lib jbody')"
    and b: "jo_array jval_lib (jo_get jval_lib (Some jbody') ''messages'') = Some msgs'"
    and c: "tl msgs' = [JObj [(''role'', JStr ''user'')]]" "msgs' \<noteq> []"
    by (fastforce simp: system_rewritten_def none)
  have "jl_dumps jval_lib jbody' = Some ''{}''" by (simp add: jval_lib_def)
  moreover have "length msgs' = 2" using c by (cases msgs') auto
  ultimately show ?thesis using a b by metis
qed

end
