(* ===== verification/Guardrails_Props.thy ===== *)
theory Guardrails_Props
  imports Webhook Ac_Search Pii_Match Prompt_Props
begin

text \<open>
  What the guardrails engine decides: a loaded rule set blocks a body iff a blocked keyword occurs in it
  and no exempt one does; the scan for personal data ends without a fault whatever memory it
  gets; when the moderation service is down, the webhooks
  block exactly when one of them is closed on failure.
\<close>

section \<open>The keyword rules\<close>

definition load_heap_ok :: "load_heap \<Rightarrow> bool" where
  "load_heap_ok h \<longleftrightarrow> lh_create h \<and> (\<forall>n. lh_grow h n) \<and> (\<forall>s. lh_keyword h s) \<and> lh_block_queue h \<and> lh_exempt_queue h \<and>
     (\<forall>n. lh_inherit h n)"

definition is_block_rule :: "guardrail_rule \<Rightarrow> bool" where
  "is_block_rule r \<longleftrightarrow> gl_enabled r \<and> gl_rule_type r \<noteq> ''webhook'' \<and> (gl_rule_type r = ''keyword'' \<or> gl_action r = ''block'')"

definition is_exempt_rule :: "guardrail_rule \<Rightarrow> bool" where
  "is_exempt_rule r \<longleftrightarrow> gl_enabled r \<and> gl_rule_type r = ''exempt'' \<and> gl_action r \<noteq> ''block''"

text \<open>The keywords of the rules: their patterns, as far as they are not empty.\<close>

definition rule_words :: "(guardrail_rule \<Rightarrow> bool) \<Rightarrow> guardrail_rule list \<Rightarrow> string set" where
  "rule_words P rules = {gl_pattern r | r. r \<in> set rules \<and> P r \<and> gl_pattern r \<noteq> []}"

lemma rule_words_Nil [simp]: "rule_words P [] = {}"
  by (simp add: rule_words_def)

lemma rule_words_Cons:
  "rule_words P (r # rs) = (if P r \<and> gl_pattern r \<noteq> [] then insert (gl_pattern r) (rule_words P rs) else rule_words P rs)"
  by (auto simp: rule_words_def)

lemma ac_keywords_create: "ac_keywords {} ac_trie_create"
  using trie_inv_create by (auto simp: ac_keywords_def)

lemma load_insert_keywords:
  assumes "load_heap_ok h" "ac_keywords K t"
  shows "ac_keywords (if p = [] then K else insert p K) (load_insert h t p)"
proof -
  obtain t' res where i: "ac_trie_insert (lh_grow h) (lh_keyword h p) t p = (t', res)" by fastforce
  have "res = (p \<noteq> [])"
    using ac_insert_keywords(2) [OF assms(2) i] assms(1) i by (auto simp: load_heap_ok_def ac_trie_insert_def)
  with ac_insert_keywords(1) [OF assms(2) i] i show ?thesis by (auto simp: load_insert_def)
qed

lemma load_rules_keywords:
  assumes "load_heap_ok h" "ac_keywords K block" "ac_keywords E exempt"
    and "foldl (load_rule h) (block, exempt, hooks) rules = (block', exempt', hooks')"
  shows "ac_keywords (K \<union> rule_words is_block_rule rules) block' \<and> ac_keywords (E \<union> rule_words is_exempt_rule rules) exempt'"
  using assms(2-4)
proof (induction rules arbitrary: block exempt hooks K E)
  case Nil
  then show ?case by (simp add: rule_words_def)
next
  case (Cons r rules)
  obtain b1 e1 h1 where s: "load_rule h (block, exempt, hooks) r = (b1, e1, h1)" by (cases "load_rule h (block, exempt, hooks) r")
  let ?K = "if is_block_rule r \<and> gl_pattern r \<noteq> [] then insert (gl_pattern r) K else K"
  let ?E = "if is_exempt_rule r \<and> gl_pattern r \<noteq> [] then insert (gl_pattern r) E else E"
  have "ac_keywords ?K b1"
    using s Cons.prems(1) load_insert_keywords [OF assms(1) Cons.prems(1), of "gl_pattern r"]
    by (auto simp: load_rule_def is_block_rule_def split: if_splits)
  moreover have "ac_keywords ?E e1"
    using s Cons.prems(2) load_insert_keywords [OF assms(1) Cons.prems(2), of "gl_pattern r"]
    by (auto simp: load_rule_def is_exempt_rule_def split: if_splits)
  moreover have "foldl (load_rule h) (b1, e1, h1) rules = (block', exempt', hooks')" using Cons.prems(3) s by simp
  ultimately have "ac_keywords (?K \<union> rule_words is_block_rule rules) block' \<and> ac_keywords (?E \<union> rule_words is_exempt_rule rules) exempt'"
    by (rule Cons.IH)
  moreover have "?K \<union> rule_words is_block_rule rules = K \<union> rule_words is_block_rule (r # rules)"
    by (auto simp: rule_words_def)
  moreover have "?E \<union> rule_words is_exempt_rule rules = E \<union> rule_words is_exempt_rule (r # rules)"
    by (auto simp: rule_words_def)
  ultimately show ?case by simp
qed

text \<open>Whether some keyword of a set occurs in a body.\<close>

definition occurs :: "string set \<Rightarrow> string \<Rightarrow> bool" where
  "occurs K body \<longleftrightarrow> (\<exists>k \<in> K. sublist k body)"

lemma search_finds_iff: "search_finds K body res \<Longrightarrow> res \<noteq> None \<longleftrightarrow> occurs K body"
  by (cases res) (auto simp: search_finds_def occurs_def)

text \<open>The engine after a reload with memory at hand, and its searches.\<close>

lemma loaded_search:
  assumes "load_heap_ok h"
  obtains g' rb re where "guardrails_load_rules h g rules = Some (g', True)" "gr_pii_cfg g' = gr_pii_cfg g"
    "ac_trie_search (gr_block g') body = Some rb" "search_finds (rule_words is_block_rule rules) body rb"
    "ac_trie_search (gr_exempt g') body = Some re" "search_finds (rule_words is_exempt_rule rules) body re"
proof -
  obtain block exempt hooks where f: "foldl (load_rule h) (ac_trie_create, ac_trie_create, []) rules = (block, exempt, hooks)"
    by (cases "foldl (load_rule h) (ac_trie_create, ac_trie_create, []) rules")
  from load_rules_keywords [OF assms(1) ac_keywords_create ac_keywords_create f]
  have k: "ac_keywords (rule_words is_block_rule rules) block" "ac_keywords (rule_words is_exempt_rule rules) exempt" by simp_all
  have inh: "\<forall>n. lh_inherit h n" using assms(1) by (simp add: load_heap_ok_def)
  from ac_search_complete [OF k(1) inh, of body] obtain b rb where b:
    "ac_trie_build_failure_links True (lh_inherit h) block = Some (b, True)" "ac_trie_search b body = Some rb"
    "search_finds (rule_words is_block_rule rules) body rb" by blast
  from ac_search_complete [OF k(2) inh, of body] obtain e re where e:
    "ac_trie_build_failure_links True (lh_inherit h) exempt = Some (e, True)" "ac_trie_search e body = Some re"
    "search_finds (rule_words is_exempt_rule rules) body re" by blast
  let ?g = "g\<lparr>gr_block := b, gr_exempt := e, gr_webhooks := hooks\<rparr>"
  have "guardrails_load_rules h g rules = Some (?g, True)"
    using assms(1) f b(1) e(1) by (simp add: guardrails_load_rules_def load_heap_ok_def)
  with that [of ?g rb re] b(2,3) e(2,3) show thesis by simp
qed

text \<open>The decision of the engine after a search.\<close>

lemma inspect_of_search:
  assumes "ac_trie_search (gr_block g) body = Some rb" "search_finds B body rb"
    and "ac_trie_search (gr_exempt g) body = Some re" "search_finds E body re" "body \<noteq> []"
  shows "if occurs B body \<and> \<not> occurs E body
    then \<exists>kw \<in> B. sublist kw body \<and> guardrails_inspect_inbound_with_pii L ok g body m = Some (inspect_blocked kw m)
    else guardrails_inspect_inbound_with_pii L ok g body m = inspect_pii L ok (gr_pii_cfg g) body m"
proof -
  have "guardrails_inspect_inbound_with_pii L ok g body m =
      (case (rb, case rb of None \<Rightarrow> None | Some _ \<Rightarrow> re) of
         (Some kw, None) \<Rightarrow> Some (inspect_blocked kw m) | _ \<Rightarrow> inspect_pii L ok (gr_pii_cfg g) body m)"
    using assms(1,3,5) by (auto simp: guardrails_inspect_inbound_with_pii_def split: option.splits)
  then show ?thesis
    using search_finds_iff [OF assms(2)] search_finds_iff [OF assms(4)] assms(2) by (cases rb; cases re) (auto simp: search_finds_def)
qed

text \<open>C4. After its rules were loaded with memory at hand, the engine blocks a body for its words exactly when the pattern of an
  enabled blocking rule occurs in it and the pattern of no enabled exempt rule does; the reason it gives is
  such a pattern, cut to its buffer. Every other body goes to the scan for personal data.\<close>

theorem guardrails_keywords_exact:
  assumes "load_heap_ok h" "body \<noteq> []"
  shows "\<exists>g'. guardrails_load_rules h g rules = Some (g', True) \<and>
    (if occurs (rule_words is_block_rule rules) body \<and> \<not> occurs (rule_words is_exempt_rule rules) body
     then \<exists>kw \<in> rule_words is_block_rule rules. sublist kw body \<and>
       guardrails_inspect_inbound_with_pii L ok g' body m = Some (inspect_blocked kw m)
     else guardrails_inspect_inbound_with_pii L ok g' body m = inspect_pii L ok (gr_pii_cfg g) body m)"
proof -
  from loaded_search [OF assms(1), of g rules body] obtain g' rb re where l:
    "guardrails_load_rules h g rules = Some (g', True)" "gr_pii_cfg g' = gr_pii_cfg g"
    "ac_trie_search (gr_block g') body = Some rb" "search_finds (rule_words is_block_rule rules) body rb"
    "ac_trie_search (gr_exempt g') body = Some re" "search_finds (rule_words is_exempt_rule rules) body re" by blast
  from inspect_of_search [OF l(3-6) assms(2), of L ok m] l(1,2) show ?thesis by auto
qed

definition full_heap :: load_heap where
  "full_heap = \<lparr>lh_create = True, lh_grow = \<lambda>_. True, lh_keyword = \<lambda>_. True, lh_block_queue = True, lh_exempt_queue = True, lh_inherit = \<lambda>_. True\<rparr>"

definition sample_rule :: "string \<Rightarrow> string \<Rightarrow> string \<Rightarrow> guardrail_rule" where
  "sample_rule ty act pattern = \<lparr>gl_id = 1, gl_rule_type = ty, gl_pattern = pattern, gl_action = act, gl_enabled = True,
     gl_webhook_secret = [], gl_timeout_ms = 0, gl_fail_mode = [], gl_phase = []\<rparr>"

lemma guardrails_keywords_exact_witness:
  "\<exists>g'. guardrails_load_rules full_heap guardrails_create [sample_rule ''keyword'' ''block'' ''bomb'', sample_rule ''exempt'' ''exempt'' ''museum''] =
      Some (g', True) \<and>
    guardrails_inspect_inbound_with_pii jval_lib (\<lambda>_. True) g' ''a bomb'' None = Some (inspect_blocked ''bomb'' None)"
proof -
  let ?rules = "[sample_rule ''keyword'' ''block'' ''bomb'', sample_rule ''exempt'' ''exempt'' ''museum'']"
  have w: "rule_words is_block_rule ?rules = {''bomb''}" "rule_words is_exempt_rule ?rules = {''museum''}"
    by (simp_all add: rule_words_Cons is_block_rule_def is_exempt_rule_def sample_rule_def)
  have "sublist ''bomb'' ''a bomb''" by (simp add: sublist_Cons_right)
  moreover have "\<not> sublist ''museum'' ''a bomb''" by (simp add: sublist_Cons_right)
  moreover have "load_heap_ok full_heap" by (simp add: load_heap_ok_def full_heap_def)
  ultimately show ?thesis
    using guardrails_keywords_exact [of full_heap "''a bomb''" guardrails_create ?rules jval_lib "\<lambda>_. True" None] by (auto simp: w occurs_def)
qed

section \<open>The scan has no faults\<close>

lemma replace_entity_safe:
  "\<exists>fl'. replace_entity_regex ok ty action boundary checksum fl = Some (Buf_Done fl')"
proof (cases "pf_text fl")
  case None
  then show ?thesis by (simp add: replace_entity_regex_def)
next
  case (Some s)
  let ?st = "\<lparr>ps_out = [], ps_cap = length s + 128, ps_any = False, ps_map = pf_map fl, ps_action = pf_action fl\<rparr>"
  have room: "length (ps_out ?st) < ps_cap ?st" by simp
  from pii_loop_total [OF rx_min_regex [of ty] _ room, of s "Suc (length s)" ok ty action boundary checksum]
  obtain st' r where st': "pii_loop (Suc (length s)) ok (pii_regex ty) ty action boundary checksum s ?st = Some (st', r)"
    "r \<noteq> Buf_Overrun" "length (ps_out st') < ps_cap st'" by auto
  have "buf_write (ps_cap st') (ps_out st') [CHR 0x00] = Some (ps_out st' @ [CHR 0x00])" using st'(3) by (simp add: buf_write_def)
  with st'(1,2) Some show ?thesis by (cases r) (auto simp: replace_entity_regex_def Let_def)
qed

lemma pii_passes_safe: "\<exists>fl'. pii_passes ok ps fl = Some (Buf_Done fl')"
proof (induction ps arbitrary: fl)
  case (Cons p ps)
  obtain ty action boundary checksum where p: "p = (ty, action, boundary, checksum)" by (cases p)
  obtain fl1 where "replace_entity_regex ok ty action boundary checksum fl = Some (Buf_Done fl1)" using replace_entity_safe by blast
  with Cons.IH [of fl1] p show ?case by simp
qed simp

lemma transform_safe: "\<exists>fl. guardrails_transform_pii_text ok cfg s m = Some (Buf_Done fl)"
proof (cases "s = []")
  case False
  obtain fl where "pii_passes ok (transform_passes cfg) \<lparr>pf_text = Some s, pf_map = m, pf_action = PII_ACTION_OFF, pf_changed = False\<rparr> = Some (Buf_Done fl)"
    using pii_passes_safe by blast
  with False show ?thesis by (simp add: guardrails_transform_pii_text_def)
qed (simp add: guardrails_transform_pii_text_def)

lemma scan_text_safe: "scan_text ok cfg s m \<noteq> Scan_Fault"
  using transform_safe [of ok cfg s m] by (auto simp: scan_text_def split: if_splits)

lemma scan_field_safe: "scan_field L ok cfg key s obj m \<noteq> Scan_Fault"
  using scan_text_safe [of ok cfg s m] by (auto simp: scan_field_def split: scan.splits option.splits)

lemma scan_member_safe: "scan_member L ok cfg key obj m \<noteq> Scan_Fault"
  by (simp add: scan_member_def scan_field_safe split: option.splits)

lemma scan_list_safe: "(\<And>x m. f x m \<noteq> Scan_Fault) \<Longrightarrow> scan_list f xs m \<noteq> Scan_Fault"
  by (induction xs arbitrary: m) (auto split: scan.splits)

lemma scan_array_safe: "(\<And>x m. f x m \<noteq> Scan_Fault) \<Longrightarrow> scan_array L f key obj m \<noteq> Scan_Fault"
  using scan_list_safe [of f] by (auto simp: scan_array_def split: option.splits scan.splits)

lemma scan_part_safe: "scan_part L ok cfg x m \<noteq> Scan_Fault"
  by (simp add: scan_part_def scan_member_safe)

lemma scan_message_safe: "scan_message L ok cfg x m \<noteq> Scan_Fault"
  using scan_array_safe [of "scan_part L ok cfg", OF scan_part_safe]
  by (simp add: scan_message_def scan_field_safe split: option.splits)

lemma scan_contents_item_safe: "scan_contents_item L ok cfg x m \<noteq> Scan_Fault"
  using scan_array_safe [of "scan_part L ok cfg", OF scan_part_safe] by (simp add: scan_contents_item_def)

lemma scan_steps_safe: "f \<in> set (scan_steps L ok cfg) \<Longrightarrow> f j m \<noteq> Scan_Fault"
  using scan_array_safe [of "scan_message L ok cfg", OF scan_message_safe]
    scan_array_safe [of "scan_contents_item L ok cfg", OF scan_contents_item_safe]
  by (auto simp: scan_steps_def scan_member_safe)

lemma scan_chain_safe: "(\<And>f j m. f \<in> set fs \<Longrightarrow> f j m \<noteq> Scan_Fault) \<Longrightarrow> scan_chain fs j ch m \<noteq> Scan_Fault"
  by (induction fs arbitrary: j ch m) (auto split: scan.splits)

lemma scan_steps_chain_safe: "scan_chain (scan_steps L ok cfg) j ch m \<noteq> Scan_Fault"
  by (rule scan_chain_safe) (rule scan_steps_safe)

lemma inspect_pii_not_None: "inspect_pii L ok cfg body m \<noteq> None"
  using scan_text_safe [of ok cfg body m] by (auto simp: inspect_pii_def scan_steps_chain_safe split: option.splits scan.splits)

text \<open>The scan of a body for personal data always ends with a decision and never leaves its buffers, whatever the body, the JSON
  library, the configuration, the session map and the allocations that fail.\<close>

theorem guardrails_pii_scan_safe:
  "\<exists>res. inspect_pii L ok cfg body m = Some res"
  using inspect_pii_not_None [of L ok cfg body m] by auto

section \<open>Webhooks that fail\<close>

definition closed_hook :: "guardrail_webhook_rule \<Rightarrow> bool" where
  "closed_hook r \<longleftrightarrow> map to_lower (wh_fail_mode r) = ''closed''"

text \<open>No request can be sent, or no answer is a success.\<close>

definition hooks_down :: "hook_env \<Rightarrow> bool" where
  "hooks_down env \<longleftrightarrow> \<not> he_init env \<or> (\<forall>r s. let a = he_post env r s in \<not> ha_ok a \<or> ha_code a < 200 \<or> 300 \<le> ha_code a)"

lemma run_webhooks_down:
  assumes "\<And>r body. run r body = hook_failed r reason"
  shows "hs_action (run_webhooks run put rs body False) = (if \<exists>r \<in> set rs. closed_hook r then GUARDRAILS_BLOCKED else GUARDRAILS_PASS)"
  by (induction rs) (auto simp: assms hook_failed_def closed_hook_def hook_block_def hook_pass_def Let_def)

lemma execute_down:
  assumes "hooks_down env" "webhook_request L env phase model key_id content msgs \<noteq> None"
  shows "execute_single_webhook L env r phase model key_id content msgs =
    hook_failed r (if he_init env then ''moderation_webhook_unavailable'' else ''moderation_curl_init_failed'')"
  using assms by (auto simp: execute_single_webhook_def hooks_down_def Let_def split: option.splits)

text \<open>When the moderation service cannot be reached, or answers with an error, and the documents for it can be built, a request and a response are
  blocked exactly if one of the webhooks of that phase is closed on failure; otherwise they pass unchanged.\<close>

theorem webhook_outage:
  assumes "hooks_down env" "\<And>phase content msgs. webhook_request L env phase model key_id content msgs \<noteq> None" "body \<noteq> []"
  shows "hs_action (guardrails_inspect_webhook_inbound L env g model key_id body) =
      (if \<exists>r \<in> set (gr_webhooks g). in_phase ''inbound'' r \<and> closed_hook r then GUARDRAILS_BLOCKED else GUARDRAILS_PASS) \<and>
    hs_action (guardrails_inspect_webhook_outbound L env g model key_id body) =
      (if \<exists>r \<in> set (gr_webhooks g). in_phase ''outbound'' r \<and> closed_hook r then GUARDRAILS_BLOCKED else GUARDRAILS_PASS)"
proof -
  let ?reason = "if he_init env then ''moderation_webhook_unavailable'' else ''moderation_curl_init_failed''"
  note ex = execute_down [OF assms(1,2)]
  have "hs_action (guardrails_inspect_webhook_inbound L env g model key_id body) =
      (if \<exists>r \<in> set (filter (in_phase ''inbound'') (gr_webhooks g)). closed_hook r then GUARDRAILS_BLOCKED else GUARDRAILS_PASS)"
    unfolding guardrails_inspect_webhook_inbound_def using assms(3)
    by (simp only: if_False, intro run_webhooks_down [where reason = ?reason]) (simp add: ex split: prod.splits)
  moreover have "hs_action (guardrails_inspect_webhook_outbound L env g model key_id body) =
      (if \<exists>r \<in> set (filter (in_phase ''outbound'') (gr_webhooks g)). closed_hook r then GUARDRAILS_BLOCKED else GUARDRAILS_PASS)"
    unfolding guardrails_inspect_webhook_outbound_def using assms(3)
    by (simp only: if_False, intro run_webhooks_down [where reason = ?reason]) (simp add: ex)
  ultimately show ?thesis by auto
qed

definition jval_hooks :: "jval hook_lib" where
  "jval_hooks = json_lib.extend jval_lib \<lparr>jl_integer = \<lambda>_. Some (JStr ''0''), jl_null = Some (JStr ''null'')\<rparr>"

lemma jval_hooks_request: "webhook_request jval_hooks env phase model key_id content msgs \<noteq> None"
  by (simp add: webhook_request_def jval_hooks_def jval_lib_def json_lib.defs json_api.defs Let_def)

definition sample_hook :: "string \<Rightarrow> guardrail_webhook_rule" where
  "sample_hook mode = \<lparr>wh_id = 1, wh_url = ''http://mod'', wh_secret = [], wh_timeout_ms = 500, wh_fail_mode = mode, wh_phase = ''both''\<rparr>"

lemma webhook_outage_witness:
  "hs_action (guardrails_inspect_webhook_inbound jval_hooks \<lparr>he_init = True, he_post = \<lambda>_ _. \<lparr>ha_ok = False, ha_code = 0, ha_body = None\<rparr>, he_now = 0\<rparr>
      (guardrails_create\<lparr>gr_webhooks := [sample_hook ''open'', sample_hook ''Closed'']\<rparr>) ''gpt'' 1 ''hello'') = GUARDRAILS_BLOCKED"
proof -
  let ?env = "\<lparr>he_init = True, he_post = \<lambda>_ _. \<lparr>ha_ok = False, ha_code = 0, ha_body = None\<rparr>, he_now = 0\<rparr>"
  let ?g = "guardrails_create\<lparr>gr_webhooks := [sample_hook ''open'', sample_hook ''Closed'']\<rparr>"
  have "hooks_down ?env" by (simp add: hooks_down_def)
  moreover have "in_phase ''inbound'' (sample_hook ''Closed'') \<and> closed_hook (sample_hook ''Closed'')"
    by code_simp
  ultimately show ?thesis
    using webhook_outage [of ?env jval_hooks "''gpt''" 1 "''hello''" ?g] jval_hooks_request by simp
qed

end
