(* ===== verification/Filter_Props.thy ===== *)
theory Filter_Props
  imports Filter_Chain Guardrails_Props Pii_Stream
begin

text \<open>
  The filter chain as a whole: a request that is stopped has had one answer and a request that goes on has had none; a
  blocked keyword stops it; a template replaces what the guardrails masked; a response comes back
  with its placeholders restored.
\<close>

section \<open>One answer\<close>

definition is_answer :: "fc_effect \<Rightarrow> bool" where
  "is_answer e = (case e of Fx_Error _ _ _ \<Rightarrow> True | Fx_Json _ _ \<Rightarrow> True | _ \<Rightarrow> False)"

text \<open>What a filter may do to the effects: nothing if the request goes on, one answer among them if it stops.\<close>

definition answered :: "'j filter_req \<Rightarrow> 'j filter_req \<times> filter_action \<Rightarrow> bool" where
  "answered q r \<longleftrightarrow> (\<exists>fx. fq_effects (fst r) = fq_effects q @ fx \<and>
     (case snd r of FILTER_STOP \<Rightarrow> length (filter is_answer fx) = 1 | FILTER_CONTINUE \<Rightarrow> fx = []))"

lemma answered_same: "fq_effects q' = fq_effects q \<Longrightarrow> answered q (q', FILTER_CONTINUE)"
  by (simp add: answered_def)

lemma answered_emit: "fq_effects q1 = fq_effects q \<Longrightarrow> length (filter is_answer fx) = 1 \<Longrightarrow> answered q (fq_emit fx q1, FILTER_STOP)"
  by (simp add: answered_def fq_emit_def)

lemma answered_trans: "answered q (q1, FILTER_CONTINUE) \<Longrightarrow> answered q1 r \<Longrightarrow> answered q r"
  by (simp add: answered_def)

lemma set_body_effects [simp]: "fq_effects (set_body s q) = fq_effects q"
  by (simp add: set_body_def)

lemma answered_policy_block: "fq_effects q1 = fq_effects q \<Longrightarrow> answered q (fq_emit (policy_block c m d t r) q1, FILTER_STOP)"
  by (rule answered_emit) (simp_all add: policy_block_def is_answer_def)

lemma jailbreak_answered: "answered q (filter_jailbreak env q)"
  unfolding filter_jailbreak_def Let_def
  by (auto intro!: answered_same answered_emit simp: is_answer_def split: jailbreak_action.splits)

lemma template_answered: "\<exists>q'. filter_prompt_template L env q = Some (q', FILTER_CONTINUE) \<and> fq_effects q' = fq_effects q"
proof (cases "request_template q")
  case None
  then show ?thesis by (simp add: filter_prompt_template_def)
next
  case t: (Some tmpl)
  show ?thesis
  proof (cases "fq_jbody q")
    case None
    with t show ?thesis by (simp add: filter_prompt_template_def)
  next
    case (Some j)
    have "prompt_template_apply (json_lib.truncate L) (fe_apply env) tmpl (Some (fq_model q)) (Some (fq_key_name q)) j \<noteq> None"
      by (rule template_safe)
    then obtain r where "prompt_template_apply (json_lib.truncate L) (fe_apply env) tmpl (Some (fq_model q)) (Some (fq_key_name q)) j = Some r"
      by auto
    with t Some show ?thesis by (cases r; cases "snd r") (simp_all add: filter_prompt_template_def Let_def)
  qed
qed

lemma take_mask_effects [simp]: "fq_effects (take_mask a b q) = fq_effects q"
  by (simp add: take_mask_def split: guardrails_action.splits option.splits)

lemma webhooks_answered: "answered q (filter_webhooks L env g q)"
  unfolding filter_webhooks_def Let_def by (auto intro: answered_same answered_policy_block)

lemma local_answered: "filter_local L env g q = Some r \<Longrightarrow> answered q r"
  unfolding filter_local_def Let_def by (auto intro!: answered_same answered_policy_block split: option.splits)

lemma plugins_answered: "answered q (filter_lua_plugins_inbound L env q)"
proof (cases "fe_plugins env")
  case None
  then show ?thesis by (simp add: filter_lua_plugins_inbound_def answered_same)
next
  case (Some run)
  let ?body = "if fq_eff q \<noteq> [] then fq_eff q else case fq_jbody q of Some j \<Rightarrow> cstr_or_empty (jl_dumps L j) | None \<Rightarrow> []"
  show ?thesis
  proof (cases "lr_abort (run (fq_model q) ?body)")
    case True
    with Some show ?thesis by (simp add: filter_lua_plugins_inbound_def Let_def answered_emit is_answer_def)
  next
    case False
    with Some show ?thesis
      by (simp add: filter_lua_plugins_inbound_def Let_def answered_def split: option.splits)
  qed
qed

text \<open>The chain after the guardrails.\<close>

definition after_guardrails :: "'j hook_lib \<Rightarrow> fc_env \<Rightarrow> 'j filter_req \<Rightarrow> ('j filter_req \<times> filter_action) option" where
  "after_guardrails L env q1 =
     (case filter_jailbreak env q1 of
        (q2, FILTER_CONTINUE) \<Rightarrow>
          (case filter_prompt_template L env q2 of
             Some (q3, FILTER_CONTINUE) \<Rightarrow> Some (filter_lua_plugins_inbound L env q3)
           | r \<Rightarrow> r)
      | r \<Rightarrow> Some r)"

lemma after_guardrails_answered: "\<exists>r. after_guardrails L env q = Some r \<and> answered q r"
proof -
  obtain q2 a where j: "filter_jailbreak env q = (q2, a)" by fastforce
  have a2: "answered q (q2, a)" using jailbreak_answered [of q env] j by simp
  show ?thesis
  proof (cases a)
    case FILTER_STOP
    with j a2 show ?thesis by (simp add: after_guardrails_def)
  next
    case FILTER_CONTINUE
    obtain q3 where t: "filter_prompt_template L env q2 = Some (q3, FILTER_CONTINUE)" "fq_effects q3 = fq_effects q2"
      using template_answered by blast
    have "answered q (q3, FILTER_CONTINUE)" using answered_trans [OF a2 [unfolded FILTER_CONTINUE] answered_same [OF t(2)]] .
    from answered_trans [OF this plugins_answered] j t(1) FILTER_CONTINUE show ?thesis by (simp add: after_guardrails_def)
  qed
qed

lemma execute_inbound:
  "filter_chain_execute_inbound L env q =
     (case filter_guardrails L env q of Some (q1, FILTER_CONTINUE) \<Rightarrow> after_guardrails L env q1 | r \<Rightarrow> r)"
  unfolding filter_chain_execute_inbound_def after_guardrails_def by (rule refl)

definition engine_loaded :: "fc_env \<Rightarrow> load_heap \<Rightarrow> guardrails_ctx \<Rightarrow> guardrail_rule list \<Rightarrow> bool" where
  "engine_loaded env h g rules \<longleftrightarrow> load_heap_ok h \<and> (\<exists>g'. fe_engine env = Some g' \<and> guardrails_load_rules h g rules = Some (g', True))"

lemma engine_inspects:
  assumes "engine_loaded env h g rules" "body \<noteq> []" "fe_engine env = Some g'"
  shows "if occurs (rule_words is_block_rule rules) body \<and> \<not> occurs (rule_words is_exempt_rule rules) body
    then \<exists>kw \<in> rule_words is_block_rule rules. sublist kw body \<and> guardrails_inspect_inbound_with_pii L ok g' body m = Some (inspect_blocked kw m)
    else guardrails_inspect_inbound_with_pii L ok g' body m = inspect_pii L ok (gr_pii_cfg g') body m"
proof -
  from assms(1) have "load_heap_ok h" by (simp add: engine_loaded_def)
  from loaded_search [OF this, of g rules body] obtain g1 rb re where l:
    "guardrails_load_rules h g rules = Some (g1, True)"
    "ac_trie_search (gr_block g1) body = Some rb" "search_finds (rule_words is_block_rule rules) body rb"
    "ac_trie_search (gr_exempt g1) body = Some re" "search_finds (rule_words is_exempt_rule rules) body re" by blast
  have eq: "g1 = g'" using l(1) assms(1,3) by (simp add: engine_loaded_def)
  show ?thesis by (rule inspect_of_search [OF l(2-5) [unfolded eq] assms(2)])
qed

lemma engine_safe:
  assumes "engine_loaded env h g rules" "body \<noteq> []" "fe_engine env = Some g'"
  shows "guardrails_inspect_inbound_with_pii L ok g' body m \<noteq> None"
  using engine_inspects [OF assms, of L ok m] inspect_pii_not_None [of L ok "gr_pii_cfg g'" body m] by (auto split: if_splits)

lemma local_total:
  "guardrails_inspect_inbound_with_pii (json_lib.truncate L) (fe_ok env) g (fq_raw q) (Some (fq_map q)) \<noteq> None \<Longrightarrow> filter_local L env g q \<noteq> None"
  by (auto simp: filter_local_def Let_def)

text \<open>C5. With an engine whose rules were loaded with memory at hand, the chain of a request always ends; when it lets the request go on,
  nothing was written to the client, metered or audited; when it stops the request, the client got exactly
  one answer.\<close>

theorem filter_chain_one_answer:
  assumes "engine_loaded env h g rules"
  shows "\<exists>q' act fx. filter_chain_execute_inbound L env q = Some (q', act) \<and> fq_effects q' = fq_effects q @ fx \<and>
    (case act of FILTER_CONTINUE \<Rightarrow> fx = [] | FILTER_STOP \<Rightarrow> length (filter is_answer fx) = 1)"
proof -
  obtain g' where g': "fe_engine env = Some g'" using assms by (auto simp: engine_loaded_def)
  let ?q = "q\<lparr>fq_sanitized := None, fq_eff := fq_raw q\<rparr>"
  have "\<exists>r. filter_guardrails L env q = Some r \<and> answered q r"
  proof (cases "fq_guardrails_enabled q \<and> fq_raw q \<noteq> []")
    case False
    then show ?thesis by (auto simp: filter_guardrails_def intro!: answered_same)
  next
    case True
    then have "fq_raw ?q \<noteq> []" by simp
    have "filter_local L env g' ?q \<noteq> None" by (rule local_total) (rule engine_safe [OF assms \<open>fq_raw ?q \<noteq> []\<close> g'])
    then obtain q1 a where l: "filter_local L env g' ?q = Some (q1, a)" by fastforce
    have a: "answered q (q1, a)" using local_answered [OF l] by (simp add: answered_def)
    show ?thesis
    proof (cases a)
      case FILTER_STOP
      with l a g' True show ?thesis by (simp add: filter_guardrails_def Let_def)
    next
      case FILTER_CONTINUE
      with l g' True answered_trans [OF a [unfolded FILTER_CONTINUE] webhooks_answered] show ?thesis by (simp add: filter_guardrails_def Let_def)
    qed
  qed
  then obtain q1 a where f: "filter_guardrails L env q = Some (q1, a)" "answered q (q1, a)" by auto
  obtain r where r: "filter_chain_execute_inbound L env q = Some r" "answered q r"
  proof (cases a)
    case FILTER_STOP
    with f that show thesis by (simp add: execute_inbound)
  next
    case FILTER_CONTINUE
    obtain r where r: "after_guardrails L env q1 = Some r" "answered q1 r" using after_guardrails_answered by blast
    with f FILTER_CONTINUE that [of r] answered_trans [of q q1 r] show thesis by (simp add: execute_inbound)
  qed
  from r(2) show ?thesis unfolding answered_def using r(1) by (cases r; cases "snd r") auto
qed

text \<open>C36. A request under guardrails whose body holds the pattern of an enabled blocking rule and of no exempt one is
  stopped by the chain: the client gets an error 400, which is metered and audited with a pattern that occurs in the body, and no later
  filter runs.\<close>

theorem filter_chain_blocks_keywords:
  assumes "engine_loaded env h g rules" "fq_guardrails_enabled q" "fq_raw q \<noteq> []"
    and "occurs (rule_words is_block_rule rules) (fq_raw q)" "\<not> occurs (rule_words is_exempt_rule rules) (fq_raw q)"
  shows "\<exists>q' kw. filter_chain_execute_inbound L env q = Some (q', FILTER_STOP) \<and>
    kw \<in> rule_words is_block_rule rules \<and> sublist kw (fq_raw q) \<and>
    fq_effects q' = fq_effects q @ policy_block ''content_policy_violation'' ''Blocked by safety guardrail rule: ''
       (reason_or (cstr_copy 128 kw) ''blocked content'') ''guardrail_block'' (reason_or (cstr_copy 128 kw) ''blocked content'')"
proof -
  obtain g' where g': "fe_engine env = Some g'" using assms(1) by (auto simp: engine_loaded_def)
  let ?q = "q\<lparr>fq_sanitized := None, fq_eff := fq_raw q\<rparr>"
  from engine_inspects [OF assms(1,3) g', of "json_lib.truncate L" "fe_ok env" "Some (fq_map q)"] assms(4,5)
  obtain kw where kw: "kw \<in> rule_words is_block_rule rules" "sublist kw (fq_raw q)"
    "guardrails_inspect_inbound_with_pii (json_lib.truncate L) (fe_ok env) g' (fq_raw q) (Some (fq_map q)) = Some (inspect_blocked kw (Some (fq_map q)))"
    by auto
  then obtain q' where q': "filter_local L env g' ?q = Some (q', FILTER_STOP)"
    "fq_effects q' = fq_effects q @ policy_block ''content_policy_violation'' ''Blocked by safety guardrail rule: ''
       (reason_or (cstr_copy 128 kw) ''blocked content'') ''guardrail_block'' (reason_or (cstr_copy 128 kw) ''blocked content'')"
    by (simp add: filter_local_def inspect_blocked_def fq_emit_def Let_def)
  have "filter_guardrails L env q = Some (q', FILTER_STOP)" using q'(1) assms(2,3) g' by (simp add: filter_guardrails_def Let_def)
  then have "filter_chain_execute_inbound L env q = Some (q', FILTER_STOP)" by (simp add: execute_inbound)
  with kw(1,2) q'(2) show ?thesis by blast
qed

section \<open>The template after the guardrails\<close>

text \<open>What the filters before the template leave alone.\<close>

definition same_document :: "'j filter_req \<Rightarrow> 'j filter_req \<Rightarrow> bool" where
  "same_document q q' \<longleftrightarrow> fq_jbody q' = fq_jbody q \<and> fq_model q' = fq_model q \<and> fq_key_name q' = fq_key_name q \<and>
     request_template q' = request_template q"

lemma same_document_take_mask: "same_document q (take_mask a b q)"
  by (simp add: same_document_def take_mask_def set_body_def request_template_def split: guardrails_action.splits option.splits)

lemma same_document_trans: "same_document q q1 \<Longrightarrow> same_document q1 q2 \<Longrightarrow> same_document q q2"
  by (simp add: same_document_def)

lemma same_document_webhooks: "filter_webhooks L env g q = (q', FILTER_CONTINUE) \<Longrightarrow> same_document q q'"
  by (auto simp: filter_webhooks_def Let_def same_document_take_mask split: if_splits)

lemma same_document_local:
  assumes "filter_local L env g q = Some (q', FILTER_CONTINUE)"
  shows "same_document q q'"
proof -
  from assms obtain res where res: "guardrails_inspect_inbound_with_pii (json_lib.truncate L) (fe_ok env) g (fq_raw q) (Some (fq_map q)) = Some res"
    by (auto simp: filter_local_def split: option.splits)
  with assms have q': "q' = take_mask (in_action res) (in_body res) (q\<lparr>fq_map := (case in_map res of Some m \<Rightarrow> m | None \<Rightarrow> fq_map q)\<rparr>)"
    by (simp add: filter_local_def Let_def split: if_splits)
  have "same_document q (q\<lparr>fq_map := (case in_map res of Some m \<Rightarrow> m | None \<Rightarrow> fq_map q)\<rparr>)"
    by (simp add: same_document_def request_template_def)
  from same_document_trans [OF this same_document_take_mask] show ?thesis unfolding q' .
qed

lemma same_document_guardrails:
  assumes "filter_guardrails L env q = Some (q', FILTER_CONTINUE)"
  shows "same_document q q'"
proof -
  let ?q = "q\<lparr>fq_sanitized := None, fq_eff := fq_raw q\<rparr>"
  have s: "same_document q ?q" by (simp add: same_document_def request_template_def)
  show ?thesis
  proof (cases "\<exists>g q1. filter_local L env g ?q = Some (q1, FILTER_CONTINUE) \<and> filter_webhooks L env g q1 = (q', FILTER_CONTINUE)")
    case True
    then obtain g q1 where "filter_local L env g ?q = Some (q1, FILTER_CONTINUE)" "filter_webhooks L env g q1 = (q', FILTER_CONTINUE)" by blast
    then show ?thesis using same_document_trans [OF s same_document_trans [OF same_document_local same_document_webhooks]] by blast
  next
    case False
    with assms have "q' = ?q"
      by (auto simp: filter_guardrails_def Let_def split: if_splits option.splits prod.splits filter_action.splits)
    with s show ?thesis by simp
  qed
qed

lemma same_document_jailbreak: "filter_jailbreak env q = (q', FILTER_CONTINUE) \<Longrightarrow> same_document q q'"
  by (auto simp: filter_jailbreak_def Let_def same_document_def request_template_def split: if_splits jailbreak_action.splits)

text \<open>C26. When the key or the route has a template whose expansion is text that JSON can hold, what the guardrails and the webhooks masked is sent upstream nevertheless: the body that goes
  on is the text of the document that was parsed from the original body, with every message of the client as it came and only the system message
  rewritten.\<close>

theorem template_undoes_masking:
  assumes "json_total (json_lib.truncate L)" "fq_jbody q = Some j" "jo_is_object L j"
    and "jo_array L (jo_get L (Some j) ''messages'') = Some msgs" "request_template q = Some tmpl"
    and "ai_expand_ok (fe_apply env)" "\<forall>n. ai_grow_ok (fe_apply env) n" "ai_combined_ok (fe_apply env)" "fe_plugins env = None"
    and "\<And>d. jl_dumps L d \<noteq> None"
    and "filter_chain_execute_inbound L env q = Some (q', FILTER_CONTINUE)"
    and "jl_string L (expand_spec (var_value (ai_now (fe_apply env)) (Some (fq_model q)) (Some (fq_key_name q)))
      (cstr_or_empty (pt_system_template tmpl))) \<noteq> None"
  shows "\<exists>j' msgs'. jl_dumps L j' = Some (fq_eff q') \<and> jo_array L (jo_get L (Some j') ''messages'') = Some msgs' \<and>
    system_rewritten (json_lib.truncate L) (pt_mode tmpl)
      (expand_spec (var_value (ai_now (fe_apply env)) (Some (fq_model q)) (Some (fq_key_name q))) (cstr_or_empty (pt_system_template tmpl))) msgs msgs'"
proof -
  let ?L = "json_lib.truncate L"
  have sel: "jo_is_object ?L = jo_is_object L" "jo_array ?L = jo_array L" "jo_get ?L = jo_get L" "jl_dumps ?L = jl_dumps L" "jl_string ?L = jl_string L"
    by (simp_all add: json_lib.truncate_def)
  obtain q1 where g: "filter_guardrails L env q = Some (q1, FILTER_CONTINUE)" and a: "after_guardrails L env q1 = Some (q', FILTER_CONTINUE)"
    using assms(11) by (auto simp: execute_inbound split: option.splits prod.splits filter_action.splits)
  obtain q2 where f: "filter_jailbreak env q1 = (q2, FILTER_CONTINUE)" and t: "filter_prompt_template L env q2 = Some (q', FILTER_CONTINUE)"
    using a assms(9) by (auto simp: after_guardrails_def filter_lua_plugins_inbound_def split: option.splits prod.splits filter_action.splits)
  have same: "same_document q q2" using same_document_trans same_document_guardrails [OF g] same_document_jailbreak [OF f] by blast
  obtain tm where tm: "pt_system_template tmpl = Some tm" "tm \<noteq> []" "pt_prefix_user_prompt tmpl = None" "pt_suffix_user_prompt tmpl = None"
    using assms(5) by (auto simp: request_template_def split: if_splits)
  obtain msgs' where m: "system_rewritten ?L (pt_mode tmpl) (expand_spec (var_value (ai_now (fe_apply env)) (Some (fq_model q)) (Some (fq_key_name q))) tm) msgs msgs'"
    "prompt_template_apply ?L (fe_apply env) tmpl (Some (fq_model q)) (Some (fq_key_name q)) j =
       (let j' = jl_set ?L j ''messages'' (Some (jl_array ?L msgs')) in Some (j', jl_dumps ?L j'))"
  proof (rule template_applied [OF assms(1) _ _ tm(1,2,3,4) assms(6,7,8)])
    show "jo_is_object ?L j" "jo_array ?L (jo_get ?L (Some j) ''messages'') = Some msgs" using assms(3,4) sel by simp_all
    show "jl_string ?L (expand_spec (var_value (ai_now (fe_apply env)) (Some (fq_model q)) (Some (fq_key_name q))) tm) \<noteq> None"
      using assms(12) tm(1) sel by simp
  qed (rule that)
  let ?j = "jl_set ?L j ''messages'' (Some (jl_array ?L msgs'))"
  obtain s where s: "jl_dumps L ?j = Some s" using assms(10) by blast
  have "fq_eff q' = s"
    using t same m(2) s assms(2,5) by (auto simp: filter_prompt_template_def same_document_def Let_def sel set_body_def split: option.splits)
  moreover have laws: "json_laws ?L" using assms(1) by (simp add: json_total_def)
  moreover have "jo_array ?L (jo_get ?L (Some ?j) ''messages'') = Some msgs'"
    using json_laws_set [OF laws, of j "''messages''" "jl_array ?L msgs'" "''messages''"] json_laws_array [OF laws] assms(3) sel by simp
  ultimately show ?thesis using s m(1) tm(1) sel by auto
qed

section \<open>The response\<close>

text \<open>A response that no webhook blocks, without watermark and plugins and with memory at hand, goes to the client with every placeholder
  of the session restored; but if a webhook masked it, the client gets the text of the webhook as it is, with the placeholders in it.\<close>

theorem filter_outbound_restores:
  assumes "resp \<noteq> []" "\<not> fq_watermark_enabled q" "fe_response_plugins env = None" "\<forall>n. fe_ok env n"
    and "wh = (case fe_engine env of
      Some g \<Rightarrow> if fq_guardrails_enabled q then guardrails_inspect_webhook_outbound L (fe_hooks env) g (fq_model q) (fq_key_id q) resp
        else \<lparr>hs_action = GUARDRAILS_PASS, hs_body = None, hs_reason = []\<rparr>
    | None \<Rightarrow> \<lparr>hs_action = GUARDRAILS_PASS, hs_body = None, hs_reason = []\<rparr>)"
    and "hs_action wh \<noteq> GUARDRAILS_BLOCKED"
  shows "\<exists>q' out. filter_chain_execute_outbound L env q resp = Some (q', FILTER_CONTINUE, out) \<and> fq_effects q' = fq_effects q \<and>
    (case out of Some s \<Rightarrow> s | None \<Rightarrow> resp) =
      (case (hs_action wh, hs_body wh) of (GUARDRAILS_MASKED, Some s) \<Rightarrow> s | _ \<Rightarrow> restore_spec (fq_map q) resp)"
proof (cases "\<exists>s. hs_action wh = GUARDRAILS_MASKED \<and> hs_body wh = Some s")
  case True
  with assms show ?thesis by (auto simp: filter_chain_execute_outbound_def Let_def)
next
  case False
  obtain r where r: "guardrails_restore_pii_text (fe_ok env) resp (fq_map q) = Buf_Done r" "r = None \<or> r = Some (restore_spec (fq_map q) resp)"
    "r = None \<Longrightarrow> \<forall>n. fe_ok env n \<Longrightarrow> restore_spec (fq_map q) resp = resp"
    by (rule restore_text_cases [of "fe_ok env" resp "fq_map q"]) blast
  have "filter_chain_execute_outbound L env q resp = Some (q, FILTER_CONTINUE, r)"
    using False assms r(1) by (cases "hs_action wh"; cases "hs_body wh"; cases r)
      (auto simp: filter_chain_execute_outbound_def filter_lua_plugins_outbound_def Let_def)
  moreover have "(case (hs_action wh, hs_body wh) of (GUARDRAILS_MASKED, Some s) \<Rightarrow> s | _ \<Rightarrow> restore_spec (fq_map q) resp) = restore_spec (fq_map q) resp"
    using False by (cases "hs_action wh"; cases "hs_body wh") auto
  ultimately show ?thesis using r(2,3) assms(4) by auto
qed

section \<open>Instances\<close>

definition sample_rules :: "guardrail_rule list" where
  "sample_rules = [sample_rule ''keyword'' ''block'' ''bomb'', sample_rule ''exempt'' ''exempt'' ''museum'']"

lemma sample_rules_words:
  "rule_words is_block_rule sample_rules = {''bomb''}" "rule_words is_exempt_rule sample_rules = {''museum''}"
  by (simp_all add: sample_rules_def rule_words_Cons is_block_rule_def is_exempt_rule_def sample_rule_def)

lemma full_heap_ok: "load_heap_ok full_heap"
  by (simp add: load_heap_ok_def full_heap_def)

text \<open>No plugin, and memory at hand.\<close>

definition plain_env :: "guardrails_ctx option \<Rightarrow> http_answer \<Rightarrow> fc_env" where
  "plain_env engine answer = \<lparr>fe_ok = \<lambda>_. True, fe_now = 0,
     fe_hooks = \<lparr>he_init = True, he_post = \<lambda>_ _. answer, he_now = 0\<rparr>,
     fe_engine = engine,
     fe_whitelist = None, fe_detect_ok = True,
     fe_apply = \<lparr>ai_now = 0, ai_expand_ok = True, ai_grow_ok = \<lambda>_. True, ai_combined_ok = True, ai_user_ok = True\<rparr>,
     fe_plugins = None, fe_response_plugins = None, fe_watermark = \<lambda>_. None\<rparr>"

definition no_answer :: http_answer where
  "no_answer = \<lparr>ha_ok = False, ha_code = 0, ha_body = None\<rparr>"

abbreviation sample_env :: fc_env where
  "sample_env \<equiv> plain_env (map_option fst (guardrails_load_rules full_heap guardrails_create sample_rules)) no_answer"

lemma sample_env_loaded: "engine_loaded sample_env full_heap guardrails_create sample_rules"
proof -
  obtain g' where "guardrails_load_rules full_heap guardrails_create sample_rules = Some (g', True)"
    by (rule loaded_search [OF full_heap_ok]) blast
  then show ?thesis by (simp add: engine_loaded_def full_heap_ok plain_env_def)
qed

definition sample_request :: "string \<Rightarrow> jval option \<Rightarrow> jval filter_req" where
  "sample_request body doc = \<lparr>fq_raw = body, fq_guardrails_enabled = True, fq_key_id = 7, fq_key_name = ''k'', fq_key_prompt = ''be kind'',
     fq_key_mode = 0, fq_route_prompt = [], fq_route_mode = 0, fq_watermark_enabled = False, fq_jbody = doc, fq_model = ''gpt'',
     fq_model_borrowed = True, fq_model_dangling = False, fq_eff = [], fq_sanitized = None, fq_map = [], fq_act = [], fq_status = 0, fq_effects = []\<rparr>"

lemma filter_chain_one_answer_witness:
  "\<exists>q' act. filter_chain_execute_inbound jval_hooks sample_env (sample_request ''hello'' None) = Some (q', act) \<and>
     (act = FILTER_CONTINUE \<longrightarrow> fq_effects q' = [])"
  using filter_chain_one_answer [OF sample_env_loaded, of jval_hooks "sample_request ''hello'' None"]
  by (fastforce simp: sample_request_def)

lemma filter_chain_blocks_keywords_witness:
  "\<exists>q'. filter_chain_execute_inbound jval_hooks sample_env (sample_request ''a bomb'' None) = Some (q', FILTER_STOP) \<and>
     fq_effects q' = [Fx_Error 400 ''content_policy_violation'' ''Blocked by safety guardrail rule: bomb'', Fx_Usage 400,
       Fx_Audit ''guardrail_block'' ''bomb'']"
proof -
  have q: "fq_guardrails_enabled (sample_request ''a bomb'' None)" "fq_raw (sample_request ''a bomb'' None) = ''a bomb''"
    "fq_effects (sample_request ''a bomb'' None) = []" by (simp_all add: sample_request_def)
  have o: "occurs (rule_words is_block_rule sample_rules) ''a bomb''" "\<not> occurs (rule_words is_exempt_rule sample_rules) ''a bomb''"
    by (simp_all add: sample_rules_words occurs_def sublist_Cons_right)
  have e: "policy_block ''content_policy_violation'' ''Blocked by safety guardrail rule: '' (reason_or (cstr_copy 128 ''bomb'') ''blocked content'')
       ''guardrail_block'' (reason_or (cstr_copy 128 ''bomb'') ''blocked content'') =
     [Fx_Error 400 ''content_policy_violation'' ''Blocked by safety guardrail rule: bomb'', Fx_Usage 400, Fx_Audit ''guardrail_block'' ''bomb'']"
    by code_simp
  from filter_chain_blocks_keywords [OF sample_env_loaded q(1), of jval_hooks] o q
  obtain q' kw where r: "filter_chain_execute_inbound jval_hooks sample_env (sample_request ''a bomb'' None) = Some (q', FILTER_STOP)"
    "kw \<in> rule_words is_block_rule sample_rules"
    "fq_effects q' = policy_block ''content_policy_violation'' ''Blocked by safety guardrail rule: '' (reason_or (cstr_copy 128 kw) ''blocked content'')
       ''guardrail_block'' (reason_or (cstr_copy 128 kw) ''blocked content'')" by auto
  have "kw = ''bomb''" using r(2) by (simp add: sample_rules_words)
  with r(1,3) e show ?thesis by simp
qed

definition mask_hooks :: "jval hook_lib" where
  "mask_hooks = jval_hooks\<lparr>jo_loadb := \<lambda>s. if s = ''M'' then Some (JObj [(''action'', JStr ''mask''), (''masked_content'', JStr ''***'')]) else None\<rparr>"

definition mask_env :: fc_env where
  "mask_env = plain_env (Some (guardrails_create\<lparr>gr_webhooks := [sample_hook ''open'']\<rparr>)) \<lparr>ha_ok = True, ha_code = 200, ha_body = Some ''M''\<rparr>"

definition secret_doc :: jval where
  "secret_doc = JObj [(''messages'', JArr [JObj [(''role'', JStr ''user''), (''content'', JStr ''secret'')]])]"

lemma mask_hooks_total: "json_total (json_lib.truncate mask_hooks)"
  by (auto simp: json_total_def json_laws_def mask_hooks_def jval_hooks_def jval_lib_def json_lib.defs json_api.defs update_conv split: jval.splits option.splits)

lemma masked: "map_option (\<lambda>(q, a). (fq_act q, a)) (filter_chain_execute_inbound mask_hooks mask_env (sample_request ''secret'' (Some secret_doc))) =
   Some (''masked'', FILTER_CONTINUE)"
  by code_simp

text \<open>A webhook masks the message of the user; the message goes upstream.\<close>

lemma template_undoes_masking_witness:
  "\<exists>q' j' m. filter_chain_execute_inbound mask_hooks mask_env (sample_request ''secret'' (Some secret_doc)) = Some (q', FILTER_CONTINUE) \<and>
     fq_act q' = ''masked'' \<and> jl_dumps mask_hooks j' = Some (fq_eff q') \<and>
     jo_array mask_hooks (jo_get mask_hooks (Some j') ''messages'') = Some [m, JObj [(''role'', JStr ''user''), (''content'', JStr ''secret'')]]"
proof -
  obtain q' where q': "filter_chain_execute_inbound mask_hooks mask_env (sample_request ''secret'' (Some secret_doc)) = Some (q', FILTER_CONTINUE)"
    "fq_act q' = ''masked''" using masked by auto
  have d: "jo_is_object mask_hooks secret_doc"
    "jo_array mask_hooks (jo_get mask_hooks (Some secret_doc) ''messages'') = Some [JObj [(''role'', JStr ''user''), (''content'', JStr ''secret'')]]"
    by code_simp+
  obtain tmpl where t: "request_template (sample_request ''secret'' (Some secret_doc)) = Some tmpl"
    by (simp add: request_template_def sample_request_def)
  have e: "ai_expand_ok (fe_apply mask_env)" "\<forall>n. ai_grow_ok (fe_apply mask_env) n" "ai_combined_ok (fe_apply mask_env)" "fe_plugins mask_env = None"
    "\<And>d. jl_dumps mask_hooks d \<noteq> None"
    by (simp_all add: mask_env_def plain_env_def mask_hooks_def jval_hooks_def jval_lib_def json_lib.defs)
  have b: "fq_jbody (sample_request ''secret'' (Some secret_doc)) = Some secret_doc" by (simp add: sample_request_def)
  have js: "jl_string mask_hooks s \<noteq> None" for s
    by (simp add: mask_hooks_def jval_hooks_def jval_lib_def json_lib.defs)
  from template_undoes_masking [OF mask_hooks_total b d t e q'(1) js] obtain j' msgs' where j: "jl_dumps mask_hooks j' = Some (fq_eff q')"
    "jo_array mask_hooks (jo_get mask_hooks (Some j') ''messages'') = Some msgs'"
    and r: "system_rewritten (json_lib.truncate mask_hooks) (pt_mode tmpl)
      (expand_spec (var_value (ai_now (fe_apply mask_env)) (Some (fq_model (sample_request ''secret'' (Some secret_doc))))
        (Some (fq_key_name (sample_request ''secret'' (Some secret_doc))))) (cstr_or_empty (pt_system_template tmpl)))
      [JObj [(''role'', JStr ''user''), (''content'', JStr ''secret'')]] msgs'" by blast
  have "\<not> has_role (json_lib.truncate mask_hooks) ''system'' (JObj [(''role'', JStr ''user''), (''content'', JStr ''secret'')])" by code_simp
  with r have "msgs' \<noteq> []" "tl msgs' = [JObj [(''role'', JStr ''user''), (''content'', JStr ''secret'')]]"
    by (auto simp: system_rewritten_def)
  then obtain m where "msgs' = [m, JObj [(''role'', JStr ''user''), (''content'', JStr ''secret'')]]" by (cases msgs') auto
  with q' j show ?thesis by blast
qed

text \<open>A response that is restored.\<close>

lemma filter_outbound_restores_witness:
  "\<exists>q' out. filter_chain_execute_outbound jval_hooks (plain_env None no_answer)
      ((sample_request ''x'' None)\<lparr>fq_map := sample_map\<rparr>) ''call [PHONE_1] now'' = Some (q', FILTER_CONTINUE, out) \<and>
    (case out of Some s \<Rightarrow> s | None \<Rightarrow> ''call [PHONE_1] now'') = ''call 13812345678 now''"
proof -
  let ?q = "(sample_request ''x'' None)\<lparr>fq_map := sample_map\<rparr>"
  have "restore_spec sample_map ''call [PHONE_1] now'' = ''call 13812345678 now''" by code_simp
  moreover have "\<not> fq_watermark_enabled ?q" "fq_map ?q = sample_map" by (simp_all add: sample_request_def)
  moreover have "fe_response_plugins (plain_env None no_answer) = None" "\<forall>n. fe_ok (plain_env None no_answer) n" "fe_engine (plain_env None no_answer) = None"
    by (simp_all add: plain_env_def)
  ultimately show ?thesis
    using filter_outbound_restores [of "''call [PHONE_1] now''" ?q "plain_env None no_answer" _ jval_hooks] by fastforce
qed

end
