(* ===== verification/Watermark.thy ===== *)
theory Watermark
  imports Prelude
begin

unbundle bit_operations_syntax

text \<open>
  The watermark of \<^verbatim>\<open>src/policy/watermark_engine.c\<close>: a frame of 19 bytes with a checksum is written as 76 invisible
  characters into a text, at sentence ends that are far enough apart, and read back; and the marking of a stream
  of events. Allocation is an argument. A buffer that \<^verbatim>\<open>strstr\<close> searches is taken to end with a NUL byte.
\<close>

section \<open>The frame\<close>

definition WATERMARK_MAGIC_BYTE :: "8 word" where "WATERMARK_MAGIC_BYTE = 0x57"
definition WATERMARK_FRAME_BYTES :: nat where "WATERMARK_FRAME_BYTES = 19"
definition WATERMARK_FRAME_SYMBOLS :: nat where "WATERMARK_FRAME_SYMBOLS = 76"
definition WATERMARK_UTF8_BYTES :: nat where "WATERMARK_UTF8_BYTES = WATERMARK_FRAME_SYMBOLS * 3"

record watermark_payload =
  wp_timestamp :: "32 word"
  wp_key_id :: "32 word"
  wp_short_trace :: "64 word"
  wp_crc_valid :: bool

text \<open>The polynomial 0x1021, one bit and one byte at a time.\<close>

definition crc_shift :: "16 word \<Rightarrow> 16 word" where
  "crc_shift crc = (if crc AND 0x8000 \<noteq> 0 then push_bit 1 crc XOR 0x1021 else push_bit 1 crc)"

definition crc16_ccitt :: "8 word list \<Rightarrow> 16 word" where
  "crc16_ccitt bs = foldl (\<lambda>crc b. (crc_shift ^^ 8) (crc XOR push_bit 8 (ucast b))) 0xFFFF bs"

definition byte_at :: "nat \<Rightarrow> 'a::len word \<Rightarrow> 8 word" where
  "byte_at s w = ucast (drop_bit s w AND 0xFF)"

definition frame_body :: "watermark_payload \<Rightarrow> 8 word list" where
  "frame_body p =
     WATERMARK_MAGIC_BYTE # map (\<lambda>s. byte_at s (wp_timestamp p)) [24, 16, 8, 0] @ map (\<lambda>s. byte_at s (wp_key_id p)) [24, 16, 8, 0] @
     map (\<lambda>i. byte_at (56 - i * 8) (wp_short_trace p)) [0..<8]"

definition frame_of :: "watermark_payload \<Rightarrow> 8 word list" where
  "frame_of p = (let crc = crc16_ccitt (frame_body p) in frame_body p @ [byte_at 8 crc, byte_at 0 crc])"

section \<open>Invisible characters\<close>

definition ZW_SYMBOLS :: "string list" where
  "ZW_SYMBOLS =
     [[CHR 0xE2, CHR 0x80, CHR 0x8B], [CHR 0xE2, CHR 0x80, CHR 0x8C], [CHR 0xE2, CHR 0x80, CHR 0x8D], [CHR 0xEF, CHR 0xBB, CHR 0xBF]]"

definition byte_symbols :: "8 word \<Rightarrow> nat list" where
  "byte_symbols b = map (\<lambda>s. unat (drop_bit s b AND 3)) [6, 4, 2, 0]"

definition encode_frame_symbols :: "8 word list \<Rightarrow> string" where
  "encode_frame_symbols frame = concat (map (\<lambda>k. ZW_SYMBOLS ! k) (concat (map byte_symbols frame)))"

definition encode_payload_to_utf8 :: "watermark_payload \<Rightarrow> string" where
  "encode_payload_to_utf8 p = encode_frame_symbols (frame_of p)"

section \<open>Anchors\<close>

definition wide_anchors :: "string set" where
  "wide_anchors = {[CHR 0xE3, CHR 0x80, CHR 0x82], [CHR 0xEF, CHR 0xBC, CHR 0x81], [CHR 0xEF, CHR 0xBC, CHR 0x9F], [CHR 0xEF, CHR 0xBC, CHR 0x9B]}"

definition wm_digit :: "char \<Rightarrow> bool" where
  "wm_digit c \<longleftrightarrow> (let n = (of_char c :: nat) in 48 \<le> n \<and> n \<le> 57)"

text \<open>The length of the sentence end at the start of the text, if there is one.\<close>

definition is_punctuation_anchor :: "string \<Rightarrow> nat option" where
  "is_punctuation_anchor s =
     (case s of
        [] \<Rightarrow> None
      | c # cs \<Rightarrow>
          (if c = CHR ''?'' \<or> c = CHR ''!'' \<or> c = CHR '';'' \<or> c = CHR 0x0A then Some 1
           else if c = CHR ''.'' then (if cs \<noteq> [] \<and> wm_digit (hd cs) then None else Some 1)
           else if take 3 s \<in> wide_anchors then Some 3
           else None))"

lemma anchor_pos: "is_punctuation_anchor s = Some adv \<Longrightarrow> 0 < adv \<and> s \<noteq> []"
  by (auto simp: is_punctuation_anchor_def split: list.splits if_splits)

definition MAX_ANCHORS :: nat where "MAX_ANCHORS = 256"

text \<open>The positions of the tiles; \<open>i\<close> is where \<open>s\<close> starts.\<close>

function collect_anchors :: "nat \<Rightarrow> nat \<Rightarrow> nat \<Rightarrow> nat \<Rightarrow> string \<Rightarrow> nat list" where
  "collect_anchors min_interval n last_pos i s =
     (case s of
        [] \<Rightarrow> []
      | c # cs \<Rightarrow>
          (case is_punctuation_anchor s of
             Some adv \<Rightarrow>
               (if i + adv - last_pos \<ge> min_interval \<and> n < MAX_ANCHORS
                then (i + adv) # collect_anchors min_interval (Suc n) (i + adv) (i + adv) (drop adv s)
                else collect_anchors min_interval n last_pos (i + adv) (drop adv s))
           | None \<Rightarrow> collect_anchors min_interval n last_pos (Suc i) cs))"
  by pat_completeness auto
termination
  by (relation "measure (\<lambda>(_, _, _, _, s). length s)") (auto dest: anchor_pos)

declare collect_anchors.simps [simp del]

text \<open>The text with a tile at each position.\<close>

fun insert_tiles :: "string \<Rightarrow> nat \<Rightarrow> nat list \<Rightarrow> string \<Rightarrow> string" where
  "insert_tiles wm src_pos [] s = s"
| "insert_tiles wm src_pos (a # as) s = take (a - src_pos) s @ wm @ insert_tiles wm a as (drop (a - src_pos) s)"

definition watermark_inject_multi_tile :: "bool \<Rightarrow> string \<Rightarrow> watermark_payload \<Rightarrow> nat \<Rightarrow> string option" where
  "watermark_inject_multi_tile alloc_ok s p min_interval =
     (let found = collect_anchors (max 20 min_interval) 0 0 0 s;
          anchors = (if found = [] then [length s] else found)
      in if alloc_ok then Some (insert_tiles (encode_payload_to_utf8 p) 0 anchors s) else None)"

definition watermark_inject :: "bool \<Rightarrow> string \<Rightarrow> watermark_payload \<Rightarrow> string option" where
  "watermark_inject alloc_ok s p = watermark_inject_multi_tile alloc_ok s p 100"

section \<open>Reading\<close>

definition symbol_at :: "string \<Rightarrow> nat option" where
  "symbol_at s = find_idx (\<lambda>z. z = take 3 s) ZW_SYMBOLS"

function extract_symbols :: "string \<Rightarrow> nat list" where
  "extract_symbols s =
     (case s of
        [] \<Rightarrow> []
      | c # cs \<Rightarrow> (case symbol_at s of Some k \<Rightarrow> k # extract_symbols (drop 3 s) | None \<Rightarrow> extract_symbols cs))"
  by pat_completeness auto
termination
  by (relation "measure length") auto

declare extract_symbols.simps [simp del]

definition byte_of_symbols :: "nat list \<Rightarrow> 8 word" where
  "byte_of_symbols ks =
     push_bit 6 (of_nat (ks ! 0)) OR push_bit 4 (of_nat (ks ! 1)) OR push_bit 2 (of_nat (ks ! 2)) OR of_nat (ks ! 3)"

definition frame_of_symbols :: "nat list \<Rightarrow> 8 word list" where
  "frame_of_symbols ks = map (\<lambda>b. byte_of_symbols (drop (b * 4) ks)) [0..<WATERMARK_FRAME_BYTES]"

definition be_word :: "8 word list \<Rightarrow> 'a::len word" where
  "be_word bs = foldl (\<lambda>st b. push_bit 8 st OR ucast b) 0 bs"

definition payload_of_frame :: "8 word list \<Rightarrow> watermark_payload option" where
  "payload_of_frame f =
     (if f ! 0 \<noteq> WATERMARK_MAGIC_BYTE then None
      else if push_bit 8 (ucast (f ! 17)) OR ucast (f ! 18) \<noteq> crc16_ccitt (take 17 f) then None
      else Some \<lparr>wp_timestamp = push_bit 24 (ucast (f ! 1)) OR push_bit 16 (ucast (f ! 2)) OR push_bit 8 (ucast (f ! 3)) OR ucast (f ! 4),
             wp_key_id = push_bit 24 (ucast (f ! 5)) OR push_bit 16 (ucast (f ! 6)) OR push_bit 8 (ucast (f ! 7)) OR ucast (f ! 8),
             wp_short_trace = be_word (take 8 (drop 9 f)), wp_crc_valid = True\<rparr>)"

text \<open>The window over the symbols; \<open>cap\<close> is how many payloads may still be found.\<close>

function decode_frames :: "nat \<Rightarrow> nat list \<Rightarrow> watermark_payload list" where
  "decode_frames cap ks =
     (if length ks < WATERMARK_FRAME_SYMBOLS \<or> cap = 0 then []
      else case payload_of_frame (frame_of_symbols ks) of
        Some p \<Rightarrow> p # decode_frames (cap - 1) (drop WATERMARK_FRAME_SYMBOLS ks)
      | None \<Rightarrow> decode_frames cap (tl ks))"
  by pat_completeness auto
termination
  by (relation "measure (\<lambda>(_, ks). length ks)") (auto simp: WATERMARK_FRAME_SYMBOLS_def)

declare decode_frames.simps [simp del]

definition watermark_decode_all :: "bool \<Rightarrow> string \<Rightarrow> nat \<Rightarrow> watermark_payload list option" where
  "watermark_decode_all alloc_ok s cap =
     (if length s < 3 \<or> cap = 0 \<or> \<not> alloc_ok then None
      else let ks = extract_symbols s
           in if length ks < WATERMARK_FRAME_SYMBOLS then None
              else case decode_frames cap ks of [] \<Rightarrow> None | ps \<Rightarrow> Some ps)"

definition watermark_decode :: "bool \<Rightarrow> string \<Rightarrow> watermark_payload option" where
  "watermark_decode alloc_ok s = map_option hd (watermark_decode_all alloc_ok s 1)"

section \<open>Streams\<close>

record stream_watermark_state =
  sw_payload :: watermark_payload
  sw_wm :: string
  sw_enabled :: bool
  sw_tile_injected :: bool
  sw_chars :: nat
  sw_min_interval :: nat
  sw_format :: string

definition no_payload :: watermark_payload where
  "no_payload = \<lparr>wp_timestamp = 0, wp_key_id = 0, wp_short_trace = 0, wp_crc_valid = False\<rparr>"

definition watermark_stream_init :: "watermark_payload option \<Rightarrow> string option \<Rightarrow> nat \<Rightarrow> stream_watermark_state" where
  "watermark_stream_init payload format min_interval =
     \<lparr>sw_payload = (case payload of Some p \<Rightarrow> p | None \<Rightarrow> no_payload),
      sw_wm = (case payload of Some p \<Rightarrow> encode_payload_to_utf8 p | None \<Rightarrow> replicate WATERMARK_UTF8_BYTES (CHR 0x00)),
      sw_enabled = (payload \<noteq> None), sw_tile_injected = False, sw_chars = 0,
      sw_min_interval = (if min_interval > 0 then min_interval else 100),
      sw_format = (if cstr_or_empty format \<noteq> [] then cstr_copy 16 (cstr_or_empty format) else ''openai'')\<rparr>"

text \<open>\<^verbatim>\<open>strstr(in_buf, pat)\<close>\<close>

definition chunk_strstr :: "string \<Rightarrow> string \<Rightarrow> nat option" where
  "chunk_strstr buf pat = strstr_from (takeWhile (\<lambda>c. c \<noteq> CHR 0x00) buf) pat 0"

definition is_anthropic :: "stream_watermark_state \<Rightarrow> bool" where
  "is_anthropic st \<longleftrightarrow> sw_format st = ''anthropic''"

definition is_stream_end :: "stream_watermark_state \<Rightarrow> string \<Rightarrow> bool \<Rightarrow> bool" where
  "is_stream_end st buf is_final \<longleftrightarrow>
     is_final \<or> chunk_strstr buf ''data: [DONE]'' \<noteq> None \<or> (is_anthropic st \<and> chunk_strstr buf ''message_stop'' \<noteq> None)"

definition nl :: string where "nl = [CHR 0x0A]"

definition synth_event :: "stream_watermark_state \<Rightarrow> string" where
  "synth_event st =
     cstr_copy 512 (if is_anthropic st
       then ''event: content_block_delta'' @ nl @ ''data: {\"type\":\"content_block_delta\",\"index\":0,\"delta\":{\"type\":\"text_delta\",\"text\":\"''
         @ sw_wm st @ ''\"}}'' @ nl @ nl
       else ''data: {\"choices\":[{\"index\":0,\"delta\":{\"content\":\"'' @ sw_wm st @ ''\"}}]}'' @ nl @ nl)"

text \<open>The text behind the opening quote of the first value of the chunk.\<close>

definition value_start :: "stream_watermark_state \<Rightarrow> string \<Rightarrow> nat option" where
  "value_start st buf =
     (case (if is_anthropic st then map_option ((+) 8) (chunk_strstr buf ''\"text\":\"'')
            else map_option ((+) 11) (chunk_strstr buf ''\"content\":\"'')) of
        Some v \<Rightarrow> if v < length buf then Some v else None
      | None \<Rightarrow> None)"

text \<open>The search for a sentence end in the value; \<open>chars\<close> grows by the whole offset \<open>i\<close> at each of them. \<open>prev\<close> is the character
  before \<open>s\<close>. The place behind the sentence end, if there is one, and the counter.\<close>

fun scan_value :: "nat \<Rightarrow> nat \<Rightarrow> nat \<Rightarrow> char option \<Rightarrow> string \<Rightarrow> nat option \<times> nat" where
  "scan_value min_interval chars i prev [] = (None, chars)"
| "scan_value min_interval chars i prev (c # cs) =
     (if c = CHR 0x22 \<and> prev \<noteq> Some (CHR 0x5C) then (None, chars)
      else case is_punctuation_anchor (c # cs) of
        Some adv \<Rightarrow>
          (if chars + i \<ge> min_interval then (Some (i + adv), chars + i)
           else scan_value min_interval (chars + i) (Suc i) (Some c) cs)
      | None \<Rightarrow> scan_value min_interval chars (Suc i) (Some c) cs)"

text \<open>The state and the place in the chunk for a tile.\<close>

definition find_place :: "stream_watermark_state \<Rightarrow> string \<Rightarrow> stream_watermark_state \<times> nat option" where
  "find_place st buf =
     (case value_start st buf of
        None \<Rightarrow> (st, None)
      | Some v \<Rightarrow>
          (case scan_value (sw_min_interval st) (sw_chars st) 0 None (drop v buf) of
             (Some k, chars) \<Rightarrow> (st\<lparr>sw_chars := chars\<rparr>, Some (v + k))
           | (None, chars) \<Rightarrow> (st\<lparr>sw_chars := chars + (length buf - v)\<rparr>, None)))"

definition put_out :: "nat \<Rightarrow> stream_watermark_state \<Rightarrow> string \<Rightarrow> stream_watermark_state \<times> string option" where
  "put_out out_cap st s = (st, if length s > out_cap then None else Some s)"

text \<open>The new state and the output; \<open>None\<close> is -1.\<close>

definition watermark_stream_feed :: "stream_watermark_state \<Rightarrow> string \<Rightarrow> bool \<Rightarrow> nat \<Rightarrow> stream_watermark_state \<times> string option" where
  "watermark_stream_feed st buf is_final out_cap =
     (if \<not> sw_enabled st then put_out out_cap st buf
      else if is_stream_end st buf is_final \<and> \<not> sw_tile_injected st
      then (let st1 = st\<lparr>sw_tile_injected := True\<rparr>
            in case chunk_strstr buf (if is_anthropic st then ''event: message_stop'' else ''data: [DONE]'') of
                 Some k \<Rightarrow> put_out out_cap st1 (take k buf @ synth_event st @ drop k buf)
               | None \<Rightarrow> put_out out_cap st1 (buf @ synth_event st))
      else case find_place st buf of
        (st1, Some k) \<Rightarrow>
          (if length buf + WATERMARK_UTF8_BYTES > out_cap then (st1, None)
           else (st1\<lparr>sw_chars := 0, sw_tile_injected := True\<rparr>, Some (take k buf @ sw_wm st @ drop k buf)))
      | (st1, None) \<Rightarrow> put_out out_cap st1 buf)"

end
