(* ===== verification/Watermark_Props.thy ===== *)
theory Watermark_Props
  imports Watermark "HOL-Library.Sublist"
begin

text \<open>
  What the watermark promises: a text with tiles shows the same and gives the payload back once for each tile; a chunk of a stream
  is changed by one insertion at most, and a stream that has ended carries a tile.
\<close>

section \<open>Bits\<close>

lemma bit_and_255: "bit (x AND 0xFF) n \<longleftrightarrow> n < 8 \<and> bit x n" for x :: "'a::len word"
proof -
  have e: "(0xFF :: 'a word) = mask 8" by (simp add: mask_eq_exp_minus_1)
  show ?thesis unfolding e bit_and_iff bit_mask_iff by (auto dest: bit_imp_le_length)
qed

lemma bit_and_3: "bit (x AND 3) n \<longleftrightarrow> n < 2 \<and> bit x n" for x :: "'a::len word"
proof -
  have e: "(3 :: 'a word) = mask 2" by (simp add: mask_eq_exp_minus_1)
  show ?thesis unfolding e bit_and_iff bit_mask_iff by (auto dest: bit_imp_le_length)
qed

lemma bit_byte_at: "bit (byte_at s w) n \<longleftrightarrow> n < 8 \<and> bit w (s + n)"
  by (auto simp: byte_at_def bit_ucast_iff bit_and_255 bit_drop_bit_eq)

lemma byte_of_byte_symbols:
  "push_bit 6 (of_nat (unat (drop_bit 6 b AND 3))) OR push_bit 4 (of_nat (unat (drop_bit 4 b AND 3))) OR
    push_bit 2 (of_nat (unat (drop_bit 2 b AND 3))) OR of_nat (unat (b AND 3)) = b" (is "?l = b") for b :: "8 word"
proof (rule bit_word_eqI)
  fix n :: nat assume "n < LENGTH(8)"
  have e: "Suc (Suc (n - 2)) = n" if "2 \<le> n" using that by simp
  from \<open>n < LENGTH(8)\<close> consider "n < 2" | "2 \<le> n \<and> n < 4" | "4 \<le> n \<and> n < 6" | "6 \<le> n \<and> n < 8" by force
  then show "bit ?l n = bit b n"
    unfolding of_nat_unat ucast_id bit_or_iff bit_push_bit_iff bit_and_3 bit_drop_bit_eq by cases (auto simp: e)
qed

lemma bytes_32: "push_bit 24 (ucast (byte_at 24 w)) OR push_bit 16 (ucast (byte_at 16 w)) OR push_bit 8 (ucast (byte_at 8 w)) OR ucast (byte_at 0 w) = w"
  (is "?l = w") for w :: "32 word"
proof (rule bit_word_eqI)
  fix n :: nat assume n: "n < LENGTH(32)"
  then consider "n < 8" | "8 \<le> n \<and> n < 16" | "16 \<le> n \<and> n < 24" | "24 \<le> n \<and> n < 32" by force
  then show "bit ?l n = bit w n"
    by cases (auto simp: bit_or_iff bit_push_bit_iff bit_ucast_iff bit_byte_at)
qed

lemma bytes_16: "push_bit 8 (ucast (byte_at 8 w)) OR ucast (byte_at 0 w) = w" (is "?l = w") for w :: "16 word"
proof (rule bit_word_eqI)
  fix n :: nat assume n: "n < LENGTH(16)"
  then consider "n < 8" | "8 \<le> n \<and> n < 16" by force
  then show "bit ?l n = bit w n"
    by cases (auto simp: bit_or_iff bit_push_bit_iff bit_ucast_iff bit_byte_at)
qed

text \<open>Horner's scheme over the highest bytes.\<close>

lemma be_word_snoc: "be_word (bs @ [b]) = push_bit 8 (be_word bs) OR ucast b"
  by (simp add: be_word_def)

lemma be_word_bytes: "k \<le> 8 \<Longrightarrow> be_word (map (\<lambda>i. byte_at (56 - i * 8) w) [0..<k]) = (drop_bit (64 - k * 8) w :: 64 word)"
proof (induction k)
  case 0
  have "drop_bit 64 w = 0" by (rule bit_word_eqI) (auto simp: bit_drop_bit_eq dest: bit_imp_le_length)
  then show ?case by (simp add: be_word_def)
next
  case (Suc k)
  have "be_word (map (\<lambda>i. byte_at (56 - i * 8) w) [0..<Suc k]) =
      push_bit 8 (drop_bit (64 - k * 8) w) OR (ucast (byte_at (56 - k * 8) w) :: 64 word)"
    using Suc by (simp add: be_word_snoc)
  also have "\<dots> = drop_bit (56 - k * 8) w" (is "?l = ?r")
  proof (rule bit_word_eqI)
    fix n :: nat assume n: "n < LENGTH(64)"
    show "bit ?l n = bit ?r n"
    proof (cases "n < 8")
      case True
      then show ?thesis by (simp add: bit_or_iff bit_push_bit_iff bit_ucast_iff bit_byte_at bit_drop_bit_eq)
    next
      case False
      then have e: "64 - k * 8 + (n - 8) = 56 - k * 8 + n" using Suc.prems by simp
      show ?thesis using False n by (simp add: bit_or_iff bit_push_bit_iff bit_ucast_iff bit_byte_at bit_drop_bit_eq e)
    qed
  qed
  also have "56 - k * 8 = 64 - Suc k * 8" by simp
  finally show ?case .
qed

lemma be_word_64: "be_word (map (\<lambda>i. byte_at (56 - i * 8) w) [0..<8]) = w" for w :: "64 word"
  using be_word_bytes [of 8 w] by simp

section \<open>The frame\<close>

lemma length_frame: "length (frame_body p) = 17" "length (frame_of p) = 19"
  by (simp_all add: frame_body_def frame_of_def Let_def)

lemma payload_of_frame_of: "payload_of_frame (frame_of p) = Some (p\<lparr>wp_crc_valid := True\<rparr>)"
proof -
  let ?crc = "crc16_ccitt (frame_body p)"
  have body: "frame_body p = [WATERMARK_MAGIC_BYTE, byte_at 24 (wp_timestamp p), byte_at 16 (wp_timestamp p), byte_at 8 (wp_timestamp p), byte_at 0 (wp_timestamp p),
      byte_at 24 (wp_key_id p), byte_at 16 (wp_key_id p), byte_at 8 (wp_key_id p), byte_at 0 (wp_key_id p)] @ map (\<lambda>i. byte_at (56 - i * 8) (wp_short_trace p)) [0..<8]"
    by (simp add: frame_body_def)
  have f: "frame_of p = frame_body p @ [byte_at 8 ?crc, byte_at 0 ?crc]" by (simp add: frame_of_def Let_def)
  have n: "frame_of p ! i = frame_body p ! i" if "i < 17" for i using that length_frame(1) [of p] by (simp add: f nth_append)
  have c: "frame_of p ! 17 = byte_at 8 ?crc" "frame_of p ! 18 = byte_at 0 ?crc" "take 17 (frame_of p) = frame_body p"
    using length_frame(1) [of p] by (simp_all add: f nth_append)
  have t: "take 8 (drop 9 (frame_of p)) = map (\<lambda>i. byte_at (56 - i * 8) (wp_short_trace p)) [0..<8]" by (simp add: f body)
  show ?thesis
    unfolding payload_of_frame_def c t be_word_64 bytes_16 by (simp add: n body bytes_32 del: upt_Suc)
qed

lemma length_byte_symbols [simp]: "length (byte_symbols b) = 4"
  by (simp add: byte_symbols_def)

lemma byte_of_symbols_append: "byte_of_symbols (byte_symbols b @ ks) = b"
  using byte_of_byte_symbols [of b] by (simp add: byte_of_symbols_def byte_symbols_def)

lemma drop_symbols: "i \<le> length bs \<Longrightarrow> drop (i * 4) (concat (map byte_symbols bs) @ ks) = concat (map byte_symbols (drop i bs)) @ ks"
proof (induction bs arbitrary: i)
  case (Cons b bs)
  then show ?case by (cases i) auto
qed simp

lemma frame_of_symbols_append: "length bs = 19 \<Longrightarrow> frame_of_symbols (concat (map byte_symbols bs) @ ks) = bs"
proof -
  assume l: "length bs = 19"
  have "byte_of_symbols (drop (i * 4) (concat (map byte_symbols bs) @ ks)) = bs ! i" if "i < 19" for i
  proof -
    have "drop i bs = bs ! i # drop (Suc i) bs" using that l by (simp add: Cons_nth_drop_Suc)
    with drop_symbols [of i bs ks] that l show ?thesis by (simp only: list.map concat.simps append.assoc byte_of_symbols_append less_imp_le)
  qed
  then have "frame_of_symbols (concat (map byte_symbols bs) @ ks) = map (\<lambda>i. bs ! i) [0..<19]"
    by (simp add: frame_of_symbols_def WATERMARK_FRAME_BYTES_def)
  with l show ?thesis by (metis map_nth)
qed

text \<open>The symbols of a tile.\<close>

definition tile_symbols :: "watermark_payload \<Rightarrow> nat list" where
  "tile_symbols p = concat (map byte_symbols (frame_of p))"

lemma length_tile_symbols: "length (tile_symbols p) = 76"
proof -
  have "length (concat (map byte_symbols bs)) = 4 * length bs" for bs by (induction bs) auto
  then show ?thesis by (simp add: tile_symbols_def length_frame)
qed

lemma decode_tiles: "decode_frames cap (concat (replicate n (tile_symbols p))) = replicate (min cap n) (p\<lparr>wp_crc_valid := True\<rparr>)"
proof (induction n arbitrary: cap)
  case 0
  then show ?case by (subst decode_frames.simps) (simp add: WATERMARK_FRAME_SYMBOLS_def)
next
  case (Suc n)
  show ?case
  proof (cases cap)
    case 0
    then show ?thesis by (subst decode_frames.simps) simp
  next
    case c: (Suc k)
    let ?r = "concat (replicate n (tile_symbols p))"
    have "payload_of_frame (frame_of_symbols (tile_symbols p @ ?r)) = Some (p\<lparr>wp_crc_valid := True\<rparr>)"
      by (simp add: tile_symbols_def frame_of_symbols_append length_frame payload_of_frame_of)
    with c show ?thesis
      using Suc.IH [of k] length_tile_symbols [of p] by (subst decode_frames.simps) (simp add: WATERMARK_FRAME_SYMBOLS_def)
  qed
qed

section \<open>Tiles in a text\<close>

text \<open>The text without the invisible characters.\<close>

function visible :: "string \<Rightarrow> string" where
  "visible s =
     (case s of
        [] \<Rightarrow> []
      | c # cs \<Rightarrow> (case symbol_at s of Some k \<Rightarrow> visible (drop 3 s) | None \<Rightarrow> c # visible cs))"
  by pat_completeness auto
termination
  by (relation "measure length") auto

declare visible.simps [simp del]

definition no_symbols :: "string \<Rightarrow> bool" where
  "no_symbols s \<longleftrightarrow> (\<forall>i. symbol_at (drop i s) = None)"

lemma symbol_at_cases:
  "symbol_at s = (if take 3 s = ZW_SYMBOLS ! 0 then Some 0 else if take 3 s = ZW_SYMBOLS ! 1 then Some 1
     else if take 3 s = ZW_SYMBOLS ! 2 then Some 2 else if take 3 s = ZW_SYMBOLS ! 3 then Some 3 else None)"
  by (auto simp: symbol_at_def ZW_SYMBOLS_def)

lemma symbol_at_symbol: "k < 4 \<Longrightarrow> symbol_at (ZW_SYMBOLS ! k @ s) = Some k"
proof -
  assume "k < 4"
  then have "k \<in> {0, 1, 2, 3}" by auto
  then show ?thesis by (auto simp: symbol_at_cases ZW_SYMBOLS_def)
qed

lemma length_symbol: "k < 4 \<Longrightarrow> length (ZW_SYMBOLS ! k) = 3"
proof -
  assume "k < 4"
  then have "k \<in> {0, 1, 2, 3}" by auto
  then show ?thesis by (auto simp: ZW_SYMBOLS_def)
qed

lemma no_symbols_Cons: "no_symbols (c # s) \<Longrightarrow> no_symbols s \<and> symbol_at (c # s) = None"
proof -
  assume a: "no_symbols (c # s)"
  have "symbol_at (drop i s) = None" for i using spec [OF a [unfolded no_symbols_def], of "Suc i"] by simp
  moreover have "symbol_at (c # s) = None" using spec [OF a [unfolded no_symbols_def], of 0] by simp
  ultimately show ?thesis by (simp add: no_symbols_def)
qed

lemma no_symbols_drop: "no_symbols s \<Longrightarrow> no_symbols (drop n s)"
  by (simp add: no_symbols_def)

lemma symbol_at_take: "symbol_at (take n s) = None" if "symbol_at s = None"
proof (cases "n < 3")
  case True
  then have "length (take 3 (take n s)) < 3" by simp
  then have "take 3 (take n s) \<noteq> ZW_SYMBOLS ! k" if "k < 4" for k using length_symbol [OF that] by (metis less_irrefl_nat)
  then show ?thesis by (simp add: symbol_at_cases)
next
  case False
  then have "take 3 (take n s) = take 3 s" by (simp add: min_def)
  with that show ?thesis by (simp add: symbol_at_def)
qed

lemma no_symbols_take: "no_symbols s \<Longrightarrow> no_symbols (take n s)"
  by (simp add: no_symbols_def drop_take symbol_at_take)

text \<open>No symbol spans the border between a text and a symbol behind it.\<close>

lemma symbol_at_border:
  assumes "symbol_at u = None" "u \<noteq> []" "k < 4"
  shows "symbol_at (u @ ZW_SYMBOLS ! k @ v) = None"
proof -
  from assms(3) have k: "k \<in> {0, 1, 2, 3}" by auto
  consider a where "u = [a]" | a b where "u = [a, b]" | a b c u' where "u = a # b # c # u'"
    using assms(2) by (metis list.exhaust)
  then show ?thesis
  proof cases
    case 1
    with k show ?thesis by (auto simp: symbol_at_cases ZW_SYMBOLS_def)
  next
    case 2
    with k show ?thesis by (auto simp: symbol_at_cases ZW_SYMBOLS_def)
  next
    case 3
    then have "take 3 (u @ ZW_SYMBOLS ! k @ v) = take 3 u" by simp
    with assms(1) show ?thesis by (simp only: symbol_at_def)
  qed
qed

lemma extract_None: "symbol_at (c # s) = None \<Longrightarrow> extract_symbols (c # s) = extract_symbols s"
  by (subst extract_symbols.simps) simp

lemma visible_None: "symbol_at (c # s) = None \<Longrightarrow> visible (c # s) = c # visible s"
  by (subst visible.simps) simp

lemma symbol_at_nonempty: "symbol_at s = Some k \<Longrightarrow> s \<noteq> []"
  by (auto simp: symbol_at_cases ZW_SYMBOLS_def)

lemma extract_Some: "symbol_at s = Some k \<Longrightarrow> extract_symbols s = k # extract_symbols (drop 3 s)"
  using symbol_at_nonempty [of s k] by (subst extract_symbols.simps) (auto split: list.splits)

lemma visible_Some: "symbol_at s = Some k \<Longrightarrow> visible s = visible (drop 3 s)"
  using symbol_at_nonempty [of s k] by (subst visible.simps) (auto split: list.splits)

lemma extract_symbol: "k < 4 \<Longrightarrow> extract_symbols (ZW_SYMBOLS ! k @ s) = k # extract_symbols s"
  using extract_Some [OF symbol_at_symbol [of k s]] by (simp add: length_symbol)

lemma visible_symbol: "k < 4 \<Longrightarrow> visible (ZW_SYMBOLS ! k @ s) = visible s"
  using visible_Some [OF symbol_at_symbol [of k s]] by (simp add: length_symbol)

lemma length_extract: "length (extract_symbols s) \<le> length s"
proof (induction "length s" arbitrary: s rule: less_induct)
  case less
  show ?case
  proof (cases s)
    case Nil
    then show ?thesis by (simp add: extract_symbols.simps [of "[]"])
  next
    case (Cons c cs)
    show ?thesis
    proof (cases "symbol_at s")
      case None
      with less [of cs] Cons show ?thesis by (simp add: extract_None)
    next
      case (Some k)
      have "length (extract_symbols (drop 3 s)) \<le> length (drop 3 s)" by (rule less) (simp add: Cons)
      with Cons show ?thesis unfolding extract_Some [OF Some] by simp
    qed
  qed
qed

lemma plain_text: "no_symbols u \<Longrightarrow> extract_symbols u = [] \<and> visible u = u"
proof (induction u)
  case Nil
  then show ?case by (simp add: extract_symbols.simps [of "[]"] visible.simps [of "[]"])
next
  case (Cons c u)
  with no_symbols_Cons [OF Cons.prems] show ?case by (simp add: extract_None visible_None)
qed

lemma plain_before_symbol:
  "no_symbols u \<Longrightarrow> k < 4 \<Longrightarrow> extract_symbols (u @ ZW_SYMBOLS ! k @ v) = k # extract_symbols v \<and> visible (u @ ZW_SYMBOLS ! k @ v) = u @ visible v"
proof (induction u)
  case Nil
  then show ?case by (simp add: extract_symbol visible_symbol)
next
  case (Cons c u)
  note n = no_symbols_Cons [OF Cons.prems(1)]
  have "symbol_at (c # u @ ZW_SYMBOLS ! k @ v) = None" using symbol_at_border [of "c # u" k v] n Cons.prems(2) by simp
  with Cons n show ?case by (simp add: extract_None visible_None)
qed

lemma symbols_then: "\<forall>k \<in> set ks. k < 4 \<Longrightarrow>
   extract_symbols (concat (map (\<lambda>k. ZW_SYMBOLS ! k) ks) @ v) = ks @ extract_symbols v \<and>
   visible (concat (map (\<lambda>k. ZW_SYMBOLS ! k) ks) @ v) = visible v"
  by (induction ks) (simp_all add: extract_symbol visible_symbol)

lemma and_3_less: "unat (w AND 3 :: 8 word) < 4"
proof -
  have "w AND 3 \<le> (3 :: 8 word)" by (rule word_and_le1)
  then have "unat (w AND 3) \<le> unat (3 :: 8 word)" by (simp only: word_le_nat_alt)
  then show ?thesis by simp
qed

lemma tile_symbols_less: "\<forall>k \<in> set (tile_symbols p). k < 4"
  by (auto simp: tile_symbols_def byte_symbols_def and_3_less)

lemma encode_tile: "encode_payload_to_utf8 p = concat (map (\<lambda>k. ZW_SYMBOLS ! k) (tile_symbols p))"
  by (simp add: encode_payload_to_utf8_def encode_frame_symbols_def tile_symbols_def)

lemma plain_before_tile:
  assumes "no_symbols u"
  shows "extract_symbols (u @ encode_payload_to_utf8 p @ v) = tile_symbols p @ extract_symbols v \<and>
    visible (u @ encode_payload_to_utf8 p @ v) = u @ visible v"
proof -
  obtain k ks where t: "tile_symbols p = k # ks" using length_tile_symbols [of p] by (cases "tile_symbols p") auto
  with tile_symbols_less [of p] have k: "k < 4" "\<forall>k \<in> set ks. k < 4" by simp_all
  have "encode_payload_to_utf8 p = ZW_SYMBOLS ! k @ concat (map (\<lambda>k. ZW_SYMBOLS ! k) ks)" by (simp add: encode_tile t)
  then show ?thesis using plain_before_symbol [OF assms k(1)] symbols_then [OF k(2)] by (simp add: t)
qed

lemma tiles_in_text:
  assumes "no_symbols s"
  shows "extract_symbols (insert_tiles (encode_payload_to_utf8 p) q as s) = concat (replicate (length as) (tile_symbols p)) \<and>
    visible (insert_tiles (encode_payload_to_utf8 p) q as s) = s"
  using assms
proof (induction as arbitrary: q s)
  case Nil
  then show ?case by (simp add: plain_text)
next
  case (Cons a as)
  from Cons.IH [OF no_symbols_drop [OF Cons.prems]] plain_before_tile [OF no_symbols_take [OF Cons.prems]]
  show ?case by simp
qed

lemma decode_all_found:
  assumes "76 \<le> length (extract_symbols m)" "0 < cap" "decode_frames cap (extract_symbols m) = replicate n q" "0 < n"
  shows "watermark_decode_all True m cap = Some (replicate n q)"
proof -
  have "3 \<le> length m" using assms(1) length_extract [of m] by linarith
  moreover obtain k where "n = Suc k" using assms(4) gr0_implies_Suc by blast
  ultimately show ?thesis using assms(1-3) by (simp add: watermark_decode_all_def WATERMARK_FRAME_SYMBOLS_def Let_def)
qed

text \<open>C20. A watermark can be read back: a text without invisible characters gets as many tiles as it has sentence ends that are far
  enough apart, one at least; the marked text shows the same as the original; and the reader gets the payload once for each
  tile, with a valid checksum, as far as it has room.\<close>

theorem watermark_roundtrip:
  assumes "no_symbols s" "0 < cap"
  shows "\<exists>marked n. watermark_inject_multi_tile True s p min_interval = Some marked \<and>
    n = max 1 (length (collect_anchors (max 20 min_interval) 0 0 0 s)) \<and> visible marked = s \<and>
    watermark_decode_all True marked cap = Some (replicate (min cap n) (p\<lparr>wp_crc_valid := True\<rparr>))"
proof -
  let ?found = "collect_anchors (max 20 min_interval) 0 0 0 s"
  let ?as = "if ?found = [] then [length s] else ?found"
  let ?m = "insert_tiles (encode_payload_to_utf8 p) 0 ?as s"
  have n: "length ?as = max 1 (length ?found)" by (cases ?found) auto
  note t = tiles_in_text [OF assms(1), of p 0 ?as]
  have l: "76 \<le> length (extract_symbols ?m)"
    using t n length_tile_symbols [of p] by (simp add: length_concat sum_list_replicate)
  have d: "decode_frames cap (extract_symbols ?m) = replicate (min cap (length ?as)) (p\<lparr>wp_crc_valid := True\<rparr>)"
    using t by (simp only: decode_tiles)
  have "0 < min cap (length ?as)" using assms(2) n by simp
  from decode_all_found [OF l assms(2) d this] have "watermark_decode_all True ?m cap = Some (replicate (min cap (length ?as)) (p\<lparr>wp_crc_valid := True\<rparr>))" .
  with t n show ?thesis by (simp only: watermark_inject_multi_tile_def Let_def) auto
qed

definition sample_payload :: watermark_payload where
  "sample_payload = \<lparr>wp_timestamp = 1700000000, wp_key_id = 42, wp_short_trace = 0xdeadbeef, wp_crc_valid = False\<rparr>"

lemma no_symbols_ascii: "\<forall>c \<in> set s. c \<noteq> CHR 0xE2 \<and> c \<noteq> CHR 0xEF \<Longrightarrow> no_symbols s"
  unfolding no_symbols_def
proof
  fix i
  assume a: "\<forall>c \<in> set s. c \<noteq> CHR 0xE2 \<and> c \<noteq> CHR 0xEF"
  have "take 3 (drop i s) \<noteq> a # t" if "a = CHR 0xE2 \<or> a = CHR 0xEF" for a t
  proof
    assume "take 3 (drop i s) = a # t"
    then have "a \<in> set s" by (metis in_set_dropD in_set_takeD list.set_intros(1))
    with a that show False by blast
  qed
  then show "symbol_at (drop i s) = None" by (simp add: symbol_at_cases ZW_SYMBOLS_def)
qed

text \<open>A text with one sentence, which is too short for a tile of its own.\<close>

lemma watermark_roundtrip_witness:
  "\<exists>marked. watermark_inject True ''Hello.'' sample_payload = Some marked \<and> visible marked = ''Hello.'' \<and>
     watermark_decode True marked = Some (sample_payload\<lparr>wp_crc_valid := True\<rparr>)"
proof -
  have "no_symbols ''Hello.''" by (rule no_symbols_ascii) simp
  then show ?thesis
    using watermark_roundtrip [of "''Hello.''" 1 sample_payload 100]
    by (auto simp: watermark_inject_def watermark_decode_def Suc_le_eq)
qed

section \<open>Streams\<close>

text \<open>The outputs for a row of chunks; the caller gives each a buffer with 1024 bytes to spare.\<close>

fun stream_outputs :: "stream_watermark_state \<Rightarrow> (string \<times> bool) list \<Rightarrow> string option list" where
  "stream_outputs st [] = []"
| "stream_outputs st ((buf, fin) # cs) =
     (case watermark_stream_feed st buf fin (length buf + 1024) of (st', out) \<Rightarrow> out # stream_outputs st' cs)"

text \<open>A chunk as it came, or with one insertion that holds the tile.\<close>

definition chunk_marked :: "string \<Rightarrow> string \<Rightarrow> string \<Rightarrow> bool" where
  "chunk_marked wm buf out \<longleftrightarrow> out = buf \<or> (\<exists>a x b. buf = a @ b \<and> out = a @ x @ b \<and> sublist wm x)"

lemma length_tile: "length (encode_payload_to_utf8 p) = 228"
proof -
  have "\<forall>k \<in> set ks. k < 4 \<Longrightarrow> length (concat (map (\<lambda>k. ZW_SYMBOLS ! k) ks)) = 3 * length ks" for ks
    by (induction ks) (auto simp: length_symbol)
  from this [OF tile_symbols_less] show ?thesis by (simp add: encode_tile length_tile_symbols)
qed

lemma synth_event_tile:
  assumes "length (sw_wm st) = 228"
  shows "sublist (sw_wm st) (synth_event st) \<and> length (synth_event st) < 512"
proof -
  obtain a b where e: "synth_event st = cstr_copy 512 (a @ sw_wm st @ b)" and l: "length a + length b < 200"
  proof (cases "is_anthropic st")
    case True
    show thesis
      by (rule that [of "''event: content_block_delta'' @ nl @ ''data: {\"type\":\"content_block_delta\",\"index\":0,\"delta\":{\"type\":\"text_delta\",\"text\":\"''" "''\"}}'' @ nl @ nl"])
        (simp_all add: synth_event_def True nl_def)
  next
    case False
    show thesis
      by (rule that [of "''data: {\"choices\":[{\"index\":0,\"delta\":{\"content\":\"''" "''\"}}]}'' @ nl @ nl"])
        (simp_all add: synth_event_def False nl_def)
  qed
  have "length (a @ sw_wm st @ b) < 512" using l assms by simp
  then have "synth_event st = a @ sw_wm st @ b" using e by simp
  moreover have "sublist (sw_wm st) (a @ sw_wm st @ b)" by (rule sublist_appendI)
  ultimately show ?thesis using \<open>length (a @ sw_wm st @ b) < 512\<close> by simp
qed

lemma insertion_marked: "sublist wm x \<Longrightarrow> chunk_marked wm buf (take k buf @ x @ drop k buf) \<and> sublist wm (take k buf @ x @ drop k buf)"
proof -
  assume a: "sublist wm x"
  have "sublist x (take k buf @ x @ drop k buf)" by (rule sublist_appendI)
  with a have "sublist wm (take k buf @ x @ drop k buf)" by (rule sublist_order.order_trans)
  moreover have "chunk_marked wm buf (take k buf @ x @ drop k buf)"
    unfolding chunk_marked_def using a by (metis append_take_drop_id)
  ultimately show ?thesis by simp
qed

lemma find_place_keeps:
  "find_place st buf = (st', k) \<Longrightarrow> sw_wm st' = sw_wm st \<and> sw_enabled st' = sw_enabled st \<and> sw_format st' = sw_format st \<and>
     sw_tile_injected st' = sw_tile_injected st"
  by (auto simp: find_place_def split: option.splits prod.splits)

text \<open>One chunk: it is marked at most once, the mark is remembered, and no end of a stream goes by without one.\<close>

lemma feed_marks:
  assumes "sw_enabled st" "length (sw_wm st) = 228"
  obtains st' out where "watermark_stream_feed st buf fin (length buf + 1024) = (st', Some out)" "chunk_marked (sw_wm st) buf out"
    "sw_wm st' = sw_wm st" "sw_enabled st'" "sw_format st' = sw_format st"
    "sw_tile_injected st' \<longleftrightarrow> sw_tile_injected st \<or> sublist (sw_wm st) out \<and> out \<noteq> buf"
    "is_stream_end st buf fin \<Longrightarrow> sw_tile_injected st'"
proof -
  let ?wm = "sw_wm st"
  have ne: "x \<noteq> [] \<Longrightarrow> take k buf @ x @ drop k buf \<noteq> buf" for x k
    by (metis append_eq_append_conv append_self_conv2 append_take_drop_id)
  note e = synth_event_tile [OF assms(2)]
  have s: "synth_event st \<noteq> []" using e assms(2) by (metis list.size(3) sublist_length_le le_zero_eq numeral_neq_zero zero_neq_numeral)
  show thesis
  proof (cases "is_stream_end st buf fin \<and> \<not> sw_tile_injected st")
    case True
    obtain k where k: "watermark_stream_feed st buf fin (length buf + 1024) = put_out (length buf + 1024) (st\<lparr>sw_tile_injected := True\<rparr>) (take k buf @ synth_event st @ drop k buf)"
    proof (cases "chunk_strstr buf (if is_anthropic st then ''event: message_stop'' else ''data: [DONE]'')")
      case None
      with True assms(1) that [of "length buf"] show thesis by (simp add: watermark_stream_feed_def)
    next
      case (Some k)
      with True assms(1) that [of k] show thesis by (simp add: watermark_stream_feed_def)
    qed
    have "length (take k buf @ synth_event st @ drop k buf) \<le> length buf + 1024" using e by (cases "k \<le> length buf") (auto simp: min_def)
    with k have f: "watermark_stream_feed st buf fin (length buf + 1024) = (st\<lparr>sw_tile_injected := True\<rparr>, Some (take k buf @ synth_event st @ drop k buf))"
      by (simp add: put_out_def)
    show thesis
      using insertion_marked [of ?wm "synth_event st" buf k] e ne [OF s] assms(1) by (intro that [OF f]) auto
  next
    case False
    obtain st1 r where p: "find_place st buf = (st1, r)" by fastforce
    note keep = find_place_keeps [OF p]
    show thesis
    proof (cases r)
      case None
      with p False assms(1) have f: "watermark_stream_feed st buf fin (length buf + 1024) = (st1, Some buf)"
        by (auto simp: watermark_stream_feed_def put_out_def)
      show thesis using keep False assms(1) by (intro that [OF f]) (auto simp: chunk_marked_def)
    next
      case (Some k)
      with p False assms(1) have f: "watermark_stream_feed st buf fin (length buf + 1024) =
          (st1\<lparr>sw_chars := 0, sw_tile_injected := True\<rparr>, Some (take k buf @ ?wm @ drop k buf))"
        using keep by (auto simp: watermark_stream_feed_def WATERMARK_UTF8_BYTES_def WATERMARK_FRAME_SYMBOLS_def)
      have "?wm \<noteq> []" using assms(2) by auto
      then show thesis
        using insertion_marked [of ?wm ?wm buf k] ne [of ?wm k] keep assms(1) by (intro that [OF f]) auto
    qed
  qed
qed

definition ends_stream :: "string \<Rightarrow> string \<times> bool \<Rightarrow> bool" where
  "ends_stream format chunk \<longleftrightarrow> snd chunk \<or> chunk_strstr (fst chunk) ''data: [DONE]'' \<noteq> None \<or>
     (format = ''anthropic'' \<and> chunk_strstr (fst chunk) ''message_stop'' \<noteq> None)"

lemma is_stream_end_ends: "is_stream_end st buf fin \<longleftrightarrow> ends_stream (sw_format st) (buf, fin)"
  by (simp add: is_stream_end_def ends_stream_def is_anthropic_def)

lemma stream_outputs_marked:
  assumes "sw_enabled st" "length (sw_wm st) = 228"
  shows "list_all2 (\<lambda>c out. \<exists>s. out = Some s \<and> chunk_marked (sw_wm st) (fst c) s) cs (stream_outputs st cs) \<and>
    (\<not> sw_tile_injected st \<and> (\<exists>c \<in> set cs. ends_stream (sw_format st) c) \<longrightarrow> (\<exists>s. Some s \<in> set (stream_outputs st cs) \<and> sublist (sw_wm st) s))"
  using assms
proof (induction cs arbitrary: st)
  case (Cons c cs)
  obtain buf fin where c: "c = (buf, fin)" by (cases c)
  obtain st' out where f: "watermark_stream_feed st buf fin (length buf + 1024) = (st', Some out)" "chunk_marked (sw_wm st) buf out"
    "sw_wm st' = sw_wm st" "sw_enabled st'" "sw_format st' = sw_format st"
    "sw_tile_injected st' \<longleftrightarrow> sw_tile_injected st \<or> sublist (sw_wm st) out \<and> out \<noteq> buf"
    "is_stream_end st buf fin \<Longrightarrow> sw_tile_injected st'"
    by (rule feed_marks [OF Cons.prems]) blast
  have "length (sw_wm st') = 228" using f(3) Cons.prems(2) by simp
  from Cons.IH [OF f(4) this] f show ?case unfolding c is_stream_end_ends by auto
qed simp

text \<open>C21. Whatever the chunks of a marked stream are, each is handed on with all its bytes in their order, as it came or
  with one insertion that holds the tile; and a stream whose end was seen has handed on a tile.\<close>

theorem watermark_stream_marks:
  assumes "st = watermark_stream_init (Some p) format min_interval"
  shows "list_all2 (\<lambda>c out. \<exists>s. out = Some s \<and> chunk_marked (encode_payload_to_utf8 p) (fst c) s) cs (stream_outputs st cs) \<and>
    ((\<exists>c \<in> set cs. ends_stream (sw_format st) c) \<longrightarrow> (\<exists>s. Some s \<in> set (stream_outputs st cs) \<and> sublist (encode_payload_to_utf8 p) s))"
proof -
  have "sw_enabled st" "sw_wm st = encode_payload_to_utf8 p" "\<not> sw_tile_injected st" by (simp_all add: assms watermark_stream_init_def)
  with stream_outputs_marked [of st cs] show ?thesis by (simp add: length_tile)
qed

lemma watermark_stream_marks_witness:
  "\<exists>s. Some s \<in> set (stream_outputs (watermark_stream_init (Some sample_payload) None 0) [(''data: x'', False), (''data: [DONE]'', True)]) \<and>
     sublist (encode_payload_to_utf8 sample_payload) s"
  using watermark_stream_marks [OF refl, where p = sample_payload and format = None and min_interval = 0 and cs = "[(''data: x'', False), (''data: [DONE]'', True)]"]
  by (simp add: ends_stream_def)

end
