(* ===== verification/Compressor.thy ===== *)
theory Compressor
  imports Prompt_Template Ring
begin

text \<open>
  The prompt compressor of \<^verbatim>\<open>src/policy/prompt_compressor.c\<close>: the token estimate, the clean-up of white space, the
  pruning of sentences, the choice of the messages that are kept, the cache of snapshots, and the choice of a rule in
  \<^verbatim>\<open>aigate_handle_request\<close>. \<^verbatim>\<open>double\<close> values are real numbers; \<open>ok n\<close> is an allocation of \<open>n\<close> bytes.
\<close>

section \<open>Characters\<close>

definition byte_of :: "char \<Rightarrow> nat" where
  "byte_of c = of_char c"

definition is_punct :: "char \<Rightarrow> bool" where
  "is_punct c \<longleftrightarrow> (let n = byte_of c in (33 \<le> n \<and> n \<le> 47) \<or> (58 \<le> n \<and> n \<le> 64) \<or> (91 \<le> n \<and> n \<le> 96) \<or> (123 \<le> n \<and> n \<le> 126))"

text \<open>The needle is a literal.\<close>

definition str_has_substr :: "string \<Rightarrow> string \<Rightarrow> bool" where
  "str_has_substr s needle \<longleftrightarrow> strstr_from s needle 0 \<noteq> None"

section \<open>Token estimate\<close>

fun count_tokens :: "nat \<Rightarrow> nat \<Rightarrow> bool \<Rightarrow> string \<Rightarrow> nat \<times> nat" where
  "count_tokens words mb in_word [] = ((if in_word then Suc words else words), mb)"
| "count_tokens words mb in_word (c # cs) =
     (if byte_of c \<ge> 128 then count_tokens words (if byte_of c \<ge> 192 then Suc mb else mb) False cs
      else if is_space c \<or> is_punct c
      then count_tokens ((if in_word then Suc words else words) + (if is_punct c then 1 else 0)) mb False cs
      else count_tokens words mb True cs)"

definition compressor_estimate_tokens :: "string \<Rightarrow> nat" where
  "compressor_estimate_tokens s =
     (if s = [] then 0
      else case count_tokens 0 0 False s of (words, mb) \<Rightarrow> let est = words * 13 div 10 + mb in if est > 0 then est else 1)"

section \<open>White space\<close>

definition NL :: char where "NL = CHR 0x0A"

definition fence :: string where "fence = [CHR 0x60, CHR 0x60, CHR 0x60]"

text \<open>\<open>room\<close> is what may still be written, \<open>prev\<close> the character read before.\<close>

function sanitize_loop :: "bool \<Rightarrow> nat \<Rightarrow> char option \<Rightarrow> bool \<Rightarrow> nat \<Rightarrow> bool \<Rightarrow> string \<Rightarrow> string" where
  "sanitize_loop preserve_code room prev in_code newlines in_run s =
     (if room = 0 then []
      else case s of
        [] \<Rightarrow> []
      | c # cs \<Rightarrow>
          (if preserve_code \<and> (prev = None \<or> prev = Some NL) \<and> take 3 s = fence
           then take room fence @ sanitize_loop preserve_code (room - 3) (Some (CHR 0x60)) (\<not> in_code) 0 False (drop 3 s)
           else if in_code then c # sanitize_loop preserve_code (room - 1) (Some c) in_code newlines in_run cs
           else if c = CHR 0x0D then sanitize_loop preserve_code room (Some c) in_code newlines in_run cs
           else if c = NL
           then (if Suc newlines \<le> 2 then NL # sanitize_loop preserve_code (room - 1) (Some c) in_code (Suc newlines) False cs
                 else sanitize_loop preserve_code room (Some c) in_code (Suc newlines) False cs)
           else if c = CHR '' '' \<or> c = CHR 0x09
           then (if \<not> in_run then CHR '' '' # sanitize_loop preserve_code (room - 1) (Some c) in_code 0 True cs
                 else sanitize_loop preserve_code room (Some c) in_code 0 True cs)
           else c # sanitize_loop preserve_code (room - 1) (Some c) in_code 0 False cs))"
  by pat_completeness auto
termination
  by (relation "measure (\<lambda>(_, _, _, _, _, _, s). length s)") auto

declare sanitize_loop.simps [simp del]

definition compressor_sanitize_whitespace :: "string \<Rightarrow> nat \<Rightarrow> bool \<Rightarrow> string" where
  "compressor_sanitize_whitespace s dst_cap preserve_code = sanitize_loop preserve_code (dst_cap - 1) None False 0 False s"

section \<open>Sentences\<close>

definition MAX_SENTENCES :: nat where "MAX_SENTENCES = 128"

definition wide_ends :: "string set" where
  "wide_ends = {[CHR 0xE3, CHR 0x80, CHR 0x82], [CHR 0xEF, CHR 0xBC, CHR 0x81], [CHR 0xEF, CHR 0xBC, CHR 0x9F]}"

text \<open>The first sentence of a text and the rest.\<close>

fun next_sentence :: "string \<Rightarrow> string \<times> string" where
  "next_sentence [] = ([], [])"
| "next_sentence (c # cs) =
     (if c = CHR ''.'' \<or> c = CHR ''!'' \<or> c = CHR ''?'' \<or> c = NL then ([c], cs)
      else if take 3 (c # cs) \<in> wide_ends then (take 3 (c # cs), drop 3 (c # cs))
      else case next_sentence cs of (s, rest) \<Rightarrow> (c # s, rest))"

lemma next_sentence_append: "next_sentence s = (a, b) \<Longrightarrow> s = a @ b"
proof (induction s arbitrary: a b)
  case (Cons c cs)
  obtain a' b' where n: "next_sentence cs = (a', b')" by fastforce
  consider "c = CHR ''.'' \<or> c = CHR ''!'' \<or> c = CHR ''?'' \<or> c = NL"
    | "\<not> (c = CHR ''.'' \<or> c = CHR ''!'' \<or> c = CHR ''?'' \<or> c = NL)" "take 3 (c # cs) \<in> wide_ends"
    | "\<not> (c = CHR ''.'' \<or> c = CHR ''!'' \<or> c = CHR ''?'' \<or> c = NL)" "take 3 (c # cs) \<notin> wide_ends" by blast
  then show ?case
  proof cases
    case 1
    with Cons.prems show ?thesis by auto
  next
    case 2
    then have "next_sentence (c # cs) = (take 3 (c # cs), drop 3 (c # cs))" by simp
    with Cons.prems show ?thesis by (metis append_take_drop_id prod.inject)
  next
    case 3
    with Cons.prems n Cons.IH [OF n] show ?thesis by auto
  qed
qed simp

lemma next_sentence_pos: "s \<noteq> [] \<Longrightarrow> fst (next_sentence s) \<noteq> []"
  by (cases s) (auto split: prod.splits)

lemma dropWhile_shorter: "dropWhile P s = c # cs \<Longrightarrow> length (snd (next_sentence (dropWhile P s))) < length s"
proof -
  assume d: "dropWhile P s = c # cs"
  obtain a b where n: "next_sentence (dropWhile P s) = (a, b)" by fastforce
  have "a \<noteq> []" using next_sentence_pos [of "dropWhile P s"] d n by simp
  moreover have "dropWhile P s = a @ b" by (rule next_sentence_append [OF n])
  moreover have "length (dropWhile P s) \<le> length s" by (rule length_dropWhile_le)
  ultimately show ?thesis using n by (cases a) auto
qed

text \<open>The first \<open>n\<close> sentences, without the white space before each.\<close>

fun split_sentences :: "nat \<Rightarrow> string \<Rightarrow> string list" where
  "split_sentences 0 s = []"
| "split_sentences (Suc n) s =
     (case dropWhile is_space s of
        [] \<Rightarrow> []
      | c # cs \<Rightarrow> (case next_sentence (c # cs) of (a, b) \<Rightarrow> a # split_sentences n b))"

record sentence =
  se_text :: string
  se_protected :: bool
  se_keep :: bool
  se_score :: real

definition key_terms :: "string list" where
  "key_terms = [''{{PII_'', ''must'', ''json'', ''schema'', ''format'', [CHR 0xE5, CHR 0xBF, CHR 0x85, CHR 0xE9, CHR 0xA1, CHR 0xBB],
     [CHR 0xE7, CHR 0xA6, CHR 0x81, CHR 0xE6, CHR 0xAD, CHR 0xA2]]"

definition fillers :: "string list" where
  "fillers = [''As an AI'', ''as an ai'', ''pleased to assist'', ''feel free to ask'',
     [CHR 0xE5, CHR 0xBE, CHR 0x88, CHR 0xE9, CHR 0xAB, CHR 0x98, CHR 0xE5, CHR 0x85, CHR 0xB4, CHR 0xE4, CHR 0xB8, CHR 0xBA, CHR 0xE6, CHR 0x82, CHR 0xA8],
     [CHR 0xE4, CHR 0xBD, CHR 0x9C, CHR 0xE4, CHR 0xB8, CHR 0xBA, CHR 0x41, CHR 0x49]]"

definition classify_sentence :: "string \<Rightarrow> sentence" where
  "classify_sentence s =
     \<lparr>se_text = s, se_protected = list_ex (str_has_substr s) key_terms, se_keep = False,
      se_score = (if list_ex (str_has_substr s) fillers then 1 / 10 else 1)\<rparr>"

definition protect_at :: "nat \<Rightarrow> sentence list \<Rightarrow> sentence list" where
  "protect_at i ss = (if se_score (ss ! i) > 1 / 2 then ss[i := (ss ! i)\<lparr>se_protected := True\<rparr>] else ss)"

definition protect_ends :: "sentence list \<Rightarrow> sentence list" where
  "protect_ends ss = (if length ss > 2 then protect_at (length ss - 1) (protect_at 0 ss) else ss)"

definition kept_length :: "sentence list \<Rightarrow> nat" where
  "kept_length ss = sum_list (map (\<lambda>s. length (se_text s)) (filter se_keep ss))"

text \<open>The first of the best sentences that are not kept yet.\<close>

definition best_sentence :: "sentence list \<Rightarrow> nat option" where
  "best_sentence ss =
     foldl (\<lambda>best i. if \<not> se_keep (ss ! i) \<and> (case best of None \<Rightarrow> se_score (ss ! i) > -1 | Some j \<Rightarrow> se_score (ss ! i) > se_score (ss ! j))
                     then Some i else best) None [0..<length ss]"

lemma best_sentence_range: "best_sentence ss = Some i \<Longrightarrow> i < length ss \<and> \<not> se_keep (ss ! i)"
proof -
  let ?f = "\<lambda>best i. if \<not> se_keep (ss ! i) \<and> (case best of None \<Rightarrow> se_score (ss ! i) > -1 | Some j \<Rightarrow> se_score (ss ! i) > se_score (ss ! j)) then Some i else best"
  have "foldl ?f b is = Some i \<Longrightarrow> set is \<subseteq> {0..<length ss} \<Longrightarrow> b = Some i \<or> i < length ss \<and> \<not> se_keep (ss ! i)" for b "is"
    by (induction "is" arbitrary: b) (auto split: if_splits)
  from this [of None "[0..<length ss]"] show "best_sentence ss = Some i \<Longrightarrow> ?thesis" by (simp add: best_sentence_def)
qed

function choose_sentences :: "nat \<Rightarrow> sentence list \<Rightarrow> sentence list" where
  "choose_sentences target ss =
     (if kept_length ss \<ge> target then ss
      else case best_sentence ss of
        None \<Rightarrow> ss
      | Some i \<Rightarrow> choose_sentences target (ss[i := (ss ! i)\<lparr>se_keep := True\<rparr>]))"
  by pat_completeness auto
termination
proof (relation "measure (\<lambda>(_, ss). length (filter (\<lambda>s. \<not> se_keep s) ss))", goal_cases)
  case (2 target ss i)
  note r = best_sentence_range [OF 2(2)]
  have "ss = take i ss @ ss ! i # drop (Suc i) ss"
    using r by (simp add: id_take_nth_drop)
  then have "filter (\<lambda>s. \<not> se_keep s) ss = filter (\<lambda>s. \<not> se_keep s) (take i ss @ ss ! i # drop (Suc i) ss)"
    by simp
  then have "length (filter (\<lambda>s. \<not> se_keep s) (ss[i := (ss ! i)\<lparr>se_keep := True\<rparr>])) < length (filter (\<lambda>s. \<not> se_keep s) ss)"
    using r by (simp add: upd_conv_take_nth_drop)
  then show ?case by simp
qed simp

declare choose_sentences.simps [simp del]

text \<open>The kept sentences in a buffer of \<open>cap\<close> bytes, with a blank between them where there is none.\<close>

definition put_sentence :: "nat \<Rightarrow> string \<Rightarrow> string \<Rightarrow> string" where
  "put_sentence cap out s =
     (let out1 = (if out \<noteq> [] \<and> length out + 1 < cap \<and> last out \<noteq> NL \<and> last out \<noteq> CHR '' '' then out @ '' '' else out)
      in out1 @ take (cap - 1 - length out1) s)"

definition join_sentences :: "nat \<Rightarrow> sentence list \<Rightarrow> string" where
  "join_sentences cap ss = foldl (put_sentence cap) [] (map se_text (filter se_keep ss))"

definition compressor_prune_sentence_density :: "string \<Rightarrow> real \<Rightarrow> nat \<Rightarrow> string" where
  "compressor_prune_sentence_density s ratio dst_cap =
     (if ratio \<le> 0 \<or> ratio \<ge> 1 then take (dst_cap - 1) s
      else let ss = protect_ends (map classify_sentence (split_sentences MAX_SENTENCES s));
               target = max 1 (nat \<lfloor>real (length s) * ratio\<rfloor>)
           in join_sentences dst_cap (choose_sentences target (map (\<lambda>x. x\<lparr>se_keep := se_protected x\<rparr>) ss)))"

section \<open>Messages\<close>

datatype compressor_level = COMPRESS_LEVEL_OFF | COMPRESS_LEVEL_MODERATE | COMPRESS_LEVEL_AGGRESSIVE

record compressor_rule =
  cr_id :: string
  cr_model_pattern :: string
  cr_enabled :: bool
  cr_level :: compressor_level
  cr_min_tokens :: nat
  cr_max_history_turns :: nat
  cr_target_ratio :: real
  cr_preserve_system :: bool
  cr_preserve_code :: bool
  cr_preserve_tools :: bool
  cr_created_at :: int
  cr_updated_at :: int

definition msg_role :: "'j json_lib \<Rightarrow> 'j \<Rightarrow> string option" where
  "msg_role L m = jo_string L (jo_get L (Some m) ''role'')"

definition last_user_idx :: "string option list \<Rightarrow> nat option" where
  "last_user_idx roles =
     (case find_idx (\<lambda>r. r = Some ''user'') (rev roles) of None \<Rightarrow> None | Some i \<Rightarrow> Some (length roles - 1 - i))"

definition keep_question :: "string option list \<Rightarrow> bool list" where
  "keep_question roles = map (\<lambda>i. last_user_idx roles = Some i) [0..<length roles]"

definition is_instruction :: "string option \<Rightarrow> bool" where
  "is_instruction r \<longleftrightarrow> r = Some ''system'' \<or> r = Some ''developer''"

definition keep_system :: "bool \<Rightarrow> string option list \<Rightarrow> bool list \<Rightarrow> bool list" where
  "keep_system preserve roles keep =
     (let n = length (takeWhile is_instruction roles) in map (\<lambda>i. keep ! i \<or> (preserve \<and> i < n)) [0..<length roles])"

text \<open>From the newest message backwards.\<close>

fun keep_turns :: "nat \<Rightarrow> nat \<Rightarrow> (string option \<times> bool) list \<Rightarrow> bool list" where
  "keep_turns max_turns turns [] = []"
| "keep_turns max_turns turns ((r, k) # rs) =
     (if k then True # keep_turns max_turns turns rs
      else if (r = Some ''assistant'' \<or> r = Some ''user'' \<or> r = Some ''tool'') \<and> turns < max_turns
      then True # keep_turns max_turns (if r = Some ''user'' then Suc turns else turns) rs
      else False # keep_turns max_turns turns rs)"

definition keep_history :: "nat \<Rightarrow> string option list \<Rightarrow> bool list \<Rightarrow> bool list" where
  "keep_history max_turns roles keep =
     (let n = (case last_user_idx roles of Some i \<Rightarrow> i | None \<Rightarrow> length roles)
      in rev (keep_turns max_turns 0 (rev (zip (take n roles) (take n keep)))) @ drop n keep)"

text \<open>A tool message behind a kept message with tool calls.\<close>

fun keep_tools :: "(bool \<times> string option \<times> bool) list \<Rightarrow> bool list" where
  "keep_tools [] = []"
| "keep_tools [(tc, r, k)] = [k]"
| "keep_tools ((tc, r, k) # (tc', r', k') # ms) = k # keep_tools ((tc', r', k' \<or> (k \<and> tc \<and> r' = Some ''tool'')) # ms)"

definition has_tool_calls :: "'j json_lib \<Rightarrow> 'j \<Rightarrow> bool" where
  "has_tool_calls L m \<longleftrightarrow> jo_get L (Some m) ''tool_calls'' \<noteq> None"

definition kept_messages :: "'j json_lib \<Rightarrow> compressor_rule \<Rightarrow> 'j list \<Rightarrow> bool list" where
  "kept_messages L rule msgs =
     (let roles = map (msg_role L) msgs;
          keep = keep_history (cr_max_history_turns rule) roles (keep_system (cr_preserve_system rule) roles (keep_question roles))
      in if cr_preserve_tools rule then keep_tools (zip (map (has_tool_calls L) msgs) (zip roles keep)) else keep)"

definition compress_message :: "'j json_lib \<Rightarrow> (nat \<Rightarrow> bool) \<Rightarrow> compressor_rule \<Rightarrow> 'j \<Rightarrow> 'j" where
  "compress_message L ok rule m =
     (case jo_string L (jo_get L (Some m) ''content'') of
        None \<Rightarrow> m
      | Some s \<Rightarrow>
          (if \<not> ok (length s + 1) then m
           else let t = compressor_sanitize_whitespace s (length s + 1) (cr_preserve_code rule)
                in set_string L m ''content''
                     (if cr_level rule = COMPRESS_LEVEL_AGGRESSIVE \<and> msg_role L m = Some ''assistant'' \<and> length t > 120 \<and> ok (length t + 1)
                      then compressor_prune_sentence_density t (cr_target_ratio rule) (length t + 1) else t)))"

record compressor_result =
  co_compressed :: bool
  co_original_tokens :: nat
  co_compressed_tokens :: nat
  co_saved_tokens :: nat
  co_compression_ratio :: real
  co_elapsed_us :: nat
  co_payload :: "string option"

definition no_compression :: "nat \<Rightarrow> nat \<Rightarrow> compressor_result" where
  "no_compression tokens us =
     \<lparr>co_compressed = False, co_original_tokens = tokens, co_compressed_tokens = 0, co_saved_tokens = 0, co_compression_ratio = 0,
      co_elapsed_us = us, co_payload = None\<rparr>"

text \<open>The document with the messages that are kept.\<close>

definition compress_document :: "'j json_lib \<Rightarrow> (nat \<Rightarrow> bool) \<Rightarrow> compressor_rule \<Rightarrow> 'j \<Rightarrow> 'j list \<Rightarrow> 'j" where
  "compress_document L ok rule doc msgs =
     jl_set L doc ''messages'' (Some (jl_array L
       (map (\<lambda>(m, k). compress_message L ok rule m) (filter snd (zip msgs (kept_messages L rule msgs))))))"

definition prompt_compressor_process_payload ::
  "'j json_lib \<Rightarrow> (nat \<Rightarrow> bool) \<Rightarrow> nat \<Rightarrow> string \<Rightarrow> compressor_rule \<Rightarrow> bool \<times> compressor_result" where
  "prompt_compressor_process_payload L ok us payload rule =
     (let orig = compressor_estimate_tokens payload
      in if payload = [] then (False, no_compression 0 0)
         else if \<not> cr_enabled rule \<or> cr_level rule = COMPRESS_LEVEL_OFF then (True, no_compression 0 0)
         else if orig < cr_min_tokens rule then (True, no_compression orig 0)
         else case jo_loadb L payload of
           None \<Rightarrow> (False, no_compression orig 0)
         | Some doc \<Rightarrow>
             (if \<not> jo_is_object L doc then (False, no_compression orig 0)
              else case jo_array L (jo_get L (Some doc) ''messages'') of
                None \<Rightarrow> (True, no_compression orig 0)
              | Some msgs \<Rightarrow>
                  (if msgs = [] then (True, no_compression orig 0)
                   else if \<not> ok (length msgs) then (False, no_compression orig 0)
                   else case jl_dumps L (compress_document L ok rule doc msgs) of
                     None \<Rightarrow> (True, no_compression orig us)
                   | Some s \<Rightarrow>
                       (let comp = compressor_estimate_tokens s
                        in if comp < orig
                           then (True, \<lparr>co_compressed = True, co_original_tokens = orig, co_compressed_tokens = comp,
                                  co_saved_tokens = orig - comp, co_compression_ratio = real comp / real orig,
                                  co_elapsed_us = us, co_payload = Some s\<rparr>)
                           else (True, no_compression orig us)))))"

section \<open>Rules\<close>

definition compressor_rule_match :: "compressor_rule \<Rightarrow> string \<Rightarrow> nat \<Rightarrow> bool" where
  "compressor_rule_match rule model tokens \<longleftrightarrow>
     (let pat = cr_model_pattern rule
      in cr_enabled rule \<and> tokens \<ge> cr_min_tokens rule \<and>
         (pat = ''*'' \<or> (pat \<noteq> [] \<and> last pat = CHR ''*'' \<and> take (length pat - 1) model = butlast pat) \<or> pat = model))"

text \<open>The rule of a request; \<open>hdr\<close> is the header that controls compression.\<close>

definition header_rule :: "compressor_level \<Rightarrow> compressor_rule" where
  "header_rule level =
     \<lparr>cr_id = [], cr_model_pattern = [], cr_enabled = True, cr_level = level, cr_min_tokens = 0, cr_max_history_turns = 6, cr_target_ratio = 6 / 10,
      cr_preserve_system = True, cr_preserve_code = True, cr_preserve_tools = True, cr_created_at = 0, cr_updated_at = 0\<rparr>"

definition choose_rule :: "compressor_rule list \<Rightarrow> string option \<Rightarrow> string \<Rightarrow> nat \<Rightarrow> compressor_rule option" where
  "choose_rule rules hdr model tokens =
     (case find (\<lambda>r. compressor_rule_match r model tokens) rules of
        Some r \<Rightarrow> Some (if hdr = Some ''aggressive'' then r\<lparr>cr_level := COMPRESS_LEVEL_AGGRESSIVE\<rparr>
                        else if hdr = Some ''moderate'' then r\<lparr>cr_level := COMPRESS_LEVEL_MODERATE\<rparr> else r)
      | None \<Rightarrow>
          (if hdr = Some ''aggressive'' then Some (header_rule COMPRESS_LEVEL_AGGRESSIVE)
           else if hdr = Some ''moderate'' then Some (header_rule COMPRESS_LEVEL_MODERATE) else None))"

text \<open>The body that goes on, and the measures if it was compressed.\<close>

definition compress_request ::
  "'j json_lib \<Rightarrow> (nat \<Rightarrow> bool) \<Rightarrow> nat \<Rightarrow> compressor_rule list \<Rightarrow> string option \<Rightarrow> string \<Rightarrow> string \<Rightarrow> string \<times> compressor_result option" where
  "compress_request L ok us rules hdr model body =
     (if body = [] \<or> hdr = Some ''off'' \<or> hdr = Some ''none'' then (body, None)
      else case choose_rule rules hdr model (compressor_estimate_tokens body) of
        None \<Rightarrow> (body, None)
      | Some rule \<Rightarrow>
          (case prompt_compressor_process_payload L ok us body rule of
             (okay, res) \<Rightarrow>
               (case co_payload res of
                  Some s \<Rightarrow> if okay \<and> co_compressed res then (s, Some res) else (body, None)
                | None \<Rightarrow> (body, None))))"

section \<open>Snapshots\<close>

record compressor_snapshot =
  sn_req_id :: string
  sn_model :: string
  sn_timestamp :: int
  sn_original_tokens :: nat
  sn_compressed_tokens :: nat
  sn_saved_tokens :: nat
  sn_compression_ratio :: real
  sn_elapsed_us :: nat
  sn_prompt_preview :: string
  sn_orig_preview :: string
  sn_comp_preview :: string

record compressor_stats =
  cs_total_evaluated :: nat
  cs_total_compressed :: nat
  cs_total_orig_tokens :: nat
  cs_total_comp_tokens :: nat
  cs_total_saved_tokens :: nat
  cs_total_duration_us :: nat
  cs_estimated_cost_saved :: real

record compressor_cache =
  cc_items :: "compressor_snapshot list"
  cc_head :: nat
  cc_count :: nat
  cc_stats :: compressor_stats

definition empty_snapshot :: compressor_snapshot where
  "empty_snapshot = \<lparr>sn_req_id = [], sn_model = [], sn_timestamp = 0, sn_original_tokens = 0, sn_compressed_tokens = 0, sn_saved_tokens = 0,
     sn_compression_ratio = 0, sn_elapsed_us = 0, sn_prompt_preview = [], sn_orig_preview = [], sn_comp_preview = []\<rparr>"

definition compressor_cache_create :: "bool \<Rightarrow> nat \<Rightarrow> compressor_cache option" where
  "compressor_cache_create alloc_ok capacity =
     (if alloc_ok
      then Some \<lparr>cc_items = replicate (if capacity = 0 then 200 else capacity) empty_snapshot, cc_head = 0, cc_count = 0,
             cc_stats = \<lparr>cs_total_evaluated = 0, cs_total_compressed = 0, cs_total_orig_tokens = 0, cs_total_comp_tokens = 0,
               cs_total_saved_tokens = 0, cs_total_duration_us = 0, cs_estimated_cost_saved = 0\<rparr>\<rparr>
      else None)"

definition add_stats :: "compressor_snapshot \<Rightarrow> compressor_stats \<Rightarrow> compressor_stats" where
  "add_stats sn st =
     \<lparr>cs_total_evaluated = Suc (cs_total_evaluated st),
      cs_total_compressed = cs_total_compressed st + (if sn_saved_tokens sn > 0 then 1 else 0),
      cs_total_orig_tokens = cs_total_orig_tokens st + sn_original_tokens sn,
      cs_total_comp_tokens = cs_total_comp_tokens st + sn_compressed_tokens sn,
      cs_total_saved_tokens = cs_total_saved_tokens st + sn_saved_tokens sn,
      cs_total_duration_us = cs_total_duration_us st + sn_elapsed_us sn,
      cs_estimated_cost_saved = cs_estimated_cost_saved st + real (sn_saved_tokens sn) * (5 / 1000000)\<rparr>"

definition compressor_cache_record :: "compressor_cache \<Rightarrow> compressor_snapshot \<Rightarrow> compressor_cache" where
  "compressor_cache_record cc sn =
     cc\<lparr>cc_items := (cc_items cc)[cc_head cc := sn], cc_head := (cc_head cc + 1) mod length (cc_items cc),
        cc_count := (if cc_count cc < length (cc_items cc) then cc_count cc + 1 else cc_count cc), cc_stats := add_stats sn (cc_stats cc)\<rparr>"

definition compressor_cache_get_stats :: "compressor_cache \<Rightarrow> compressor_stats" where
  "compressor_cache_get_stats cc = cc_stats cc"

definition compressor_cache_get_snapshots :: "compressor_cache \<Rightarrow> nat \<Rightarrow> compressor_snapshot list" where
  "compressor_cache_get_snapshots cc max_count =
     (let cap = length (cc_items cc)
      in map (\<lambda>i. cc_items cc ! ((cc_head cc + cap - 1 - i) mod cap)) [0..<min (cc_count cc) max_count])"

interpretation compressor_log: ring_log compressor_cache_record cc_items cc_head cc_count
  by unfold_locales (simp_all add: compressor_cache_record_def)

end
