(* ===== verification/Compressor_Props.thy ===== *)
theory Compressor_Props
  imports Compressor Prompt_Props
begin

text \<open>
  What the compressor keeps of a request: the visible characters of a text, the last question with the latest turns before it,
  and not what comes after the question; and what the cache of snapshots shows.
\<close>

section \<open>White space\<close>

definition blank :: "char \<Rightarrow> bool" where
  "blank c \<longleftrightarrow> c = CHR '' '' \<or> c = CHR 0x09 \<or> c = NL \<or> c = CHR 0x0D"

definition inked :: "string \<Rightarrow> string" where
  "inked s = filter (\<lambda>c. \<not> blank c) s"

lemma inked_append [simp]: "inked (a @ b) = inked a @ inked b"
  by (simp add: inked_def)

text \<open>One round reads \<open>k\<close> characters and writes \<open>e\<close>.\<close>

lemma sanitize_fence:
  assumes "0 < room" "p" "prev = None \<or> prev = Some NL" "take 3 s = fence"
  shows "sanitize_loop p room prev ic n r s = take room fence @ sanitize_loop p (room - 3) (Some (CHR 0x60)) (\<not> ic) 0 False (drop 3 s)"
proof (cases s)
  case Nil
  with assms show ?thesis by (simp add: fence_def)
next
  case (Cons c cs)
  with assms show ?thesis by (subst sanitize_loop.simps) (simp only: list.case if_False if_True neq0_conv simp_thms less_not_refl2)
qed

lemma sanitize_plain:
  assumes "0 < room" "\<not> (p \<and> (prev = None \<or> prev = Some NL) \<and> take 3 (c # cs) = fence)"
  obtains e n' r' where "sanitize_loop p room prev ic n r (c # cs) = e @ sanitize_loop p (room - length e) (Some c) ic n' r' cs"
    "length e \<le> 1" "inked e = inked [c]"
proof -
  have "sanitize_loop p room prev ic n r (c # cs) =
    (if ic then c # sanitize_loop p (room - 1) (Some c) ic n r cs
     else if c = CHR 0x0D then sanitize_loop p room (Some c) ic n r cs
     else if c = NL
     then (if Suc n \<le> 2 then NL # sanitize_loop p (room - 1) (Some c) ic (Suc n) False cs
           else sanitize_loop p room (Some c) ic (Suc n) False cs)
     else if c = CHR '' '' \<or> c = CHR 0x09
     then (if \<not> r then CHR '' '' # sanitize_loop p (room - 1) (Some c) ic 0 True cs
           else sanitize_loop p room (Some c) ic 0 True cs)
     else c # sanitize_loop p (room - 1) (Some c) ic 0 False cs)" (is "_ = ?rhs")
    using assms by (subst sanitize_loop.simps) (simp only: list.case if_False if_True neq0_conv simp_thms less_not_refl2)
  moreover consider "ic \<or> \<not> blank c" | "\<not> ic" "c = CHR 0x0D" | "\<not> ic" "c = NL" "n < 2" | "\<not> ic" "c = NL" "\<not> n < 2"
    | "\<not> ic" "c = CHR '' '' \<or> c = CHR 0x09" "r" | "\<not> ic" "c = CHR '' '' \<or> c = CHR 0x09" "\<not> r"
    by (auto simp: blank_def)
  then have "\<exists>e n' r'. ?rhs = e @ sanitize_loop p (room - length e) (Some c) ic n' r' cs \<and> length e \<le> 1 \<and> inked e = inked [c]"
  proof cases
    case 1
    show ?thesis
    proof (cases ic)
      case True
      then show ?thesis by (intro exI [of _ "[c]"] exI [of _ n] exI [of _ r]) simp
    next
      case False
      with 1 show ?thesis by (intro exI [of _ "[c]"] exI [of _ 0] exI [of _ False]) (simp add: blank_def)
    qed
  next
    case 2
    then show ?thesis by (intro exI [of _ "[]"] exI [of _ n] exI [of _ r]) (simp add: inked_def blank_def)
  next
    case 3
    then show ?thesis by (intro exI [of _ "[NL]"] exI [of _ "Suc n"] exI [of _ False]) (simp add: NL_def)
  next
    case 4
    then show ?thesis by (intro exI [of _ "[]"] exI [of _ "Suc n"] exI [of _ False]) (simp add: inked_def blank_def NL_def)
  next
    case 5
    then show ?thesis by (intro exI [of _ "[]"] exI [of _ 0] exI [of _ True]) (auto simp add: inked_def blank_def NL_def)
  next
    case 6
    then show ?thesis by (intro exI [of _ "'' ''"] exI [of _ 0] exI [of _ True]) (auto simp add: inked_def blank_def NL_def)
  qed
  ultimately show thesis using that by metis
qed

lemma sanitize_step:
  assumes "0 < room" "s \<noteq> []"
  obtains k e prev' ic' n' r' where
    "sanitize_loop p room prev ic n r s = e @ sanitize_loop p (room - length e) prev' ic' n' r' (drop k s)"
    "0 < k" "k \<le> length s" "length e \<le> k" "length e \<le> room" "length s \<le> room \<longrightarrow> inked e = inked (take k s)"
proof (cases "p \<and> (prev = None \<or> prev = Some NL) \<and> take 3 s = fence")
  case True
  then have "length (take 3 s) = 3" by (simp add: fence_def)
  then have "3 \<le> length s" by simp
  moreover have "room - 3 = room - length (take room fence)" by (auto simp: fence_def min_def)
  moreover have "length s \<le> room \<longrightarrow> take room fence = take 3 s" using True \<open>3 \<le> length s\<close> by (simp add: fence_def)
  moreover have "length (take room fence) \<le> 3" "length (take room fence) \<le> room" by (simp_all add: fence_def)
  ultimately show thesis
    using that [of "take room fence" "Some (CHR 0x60)" "\<not> ic" 0 False 3] sanitize_fence [OF assms(1), of p prev s] True
    by (metis zero_less_numeral)
next
  case False
  from assms(2) obtain c cs where s: "s = c # cs" by (cases s) auto
  from sanitize_plain [OF assms(1) False [unfolded s]] obtain e n' r' where
    "sanitize_loop p room prev ic n r (c # cs) = e @ sanitize_loop p (room - length e) (Some c) ic n' r' cs"
    "length e \<le> 1" "inked e = inked [c]" by blast
  with that [of e "Some c" ic n' r' 1] assms(1) show thesis by (simp add: s)
qed

lemma sanitize_empty [simp]: "sanitize_loop p 0 prev ic n r s = []" "sanitize_loop p room prev ic n r [] = []"
  by (simp_all add: sanitize_loop.simps)

lemma length_sanitize_loop: "length (sanitize_loop p room prev ic n r s) \<le> min room (length s)"
proof (induction "length s" arbitrary: room prev ic n r s rule: less_induct)
  case less
  show ?case
  proof (cases "room = 0 \<or> s = []")
    case False
    then obtain k e prev' ic' n' r' where step:
      "sanitize_loop p room prev ic n r s = e @ sanitize_loop p (room - length e) prev' ic' n' r' (drop k s)"
      "0 < k" "k \<le> length s" "length e \<le> k" "length e \<le> room"
      using sanitize_step [of room s p prev ic n r] by (metis gr0I)
    then have "length (sanitize_loop p (room - length e) prev' ic' n' r' (drop k s)) \<le> min (room - length e) (length (drop k s))"
      by (intro less) simp
    with step(2-) show ?thesis unfolding step(1) length_append length_drop by linarith
  qed auto
qed

lemma inked_sanitize_loop: "length s \<le> room \<Longrightarrow> inked (sanitize_loop p room prev ic n r s) = inked s"
proof (induction "length s" arbitrary: room prev ic n r s rule: less_induct)
  case less
  show ?case
  proof (cases "s = []")
    case False
    with less.prems obtain k e prev' ic' n' r' where step:
      "sanitize_loop p room prev ic n r s = e @ sanitize_loop p (room - length e) prev' ic' n' r' (drop k s)"
      "0 < k" "k \<le> length s" "length e \<le> k" "inked e = inked (take k s)"
      using sanitize_step [of room s p prev ic n r] by (metis gr0I le_zero_eq length_0_conv)
    with less.hyps [of "drop k s" "room - length e" prev' ic' n' r'] less.prems
    have "inked (sanitize_loop p room prev ic n r s) = inked (take k s) @ inked (drop k s)" by simp
    then show ?thesis by (metis append_take_drop_id inked_append)
  qed simp
qed

section \<open>Sentences\<close>

lemma length_put_sentence: "length out \<le> cap - Suc 0 \<Longrightarrow> length (put_sentence cap out s) \<le> cap - Suc 0"
  by (auto simp: put_sentence_def Let_def min_def)

lemma length_join: "length (join_sentences cap ss) \<le> cap - Suc 0"
proof -
  have "length out \<le> cap - Suc 0 \<Longrightarrow> length (foldl (put_sentence cap) out xs) \<le> cap - Suc 0" for out xs
    by (induction xs arbitrary: out) (simp_all add: length_put_sentence)
  then show ?thesis by (simp add: join_sentences_def)
qed

text \<open>C38. Cleaning the text of a message never leaves the buffer, which is as long as the text, and never changes what
  can be seen: the characters other than blanks, tabs and line ends are the same in the same order. Pruning sentences
  never leaves its buffer either.\<close>

theorem compressor_text_safe:
  "length (compressor_sanitize_whitespace s dst_cap code) \<le> min (dst_cap - 1) (length s) \<and>
   inked (compressor_sanitize_whitespace s (length s + 1) code) = inked s \<and>
   length (compressor_prune_sentence_density s ratio dst_cap) \<le> dst_cap - 1"
  using length_sanitize_loop [of code "dst_cap - 1" None False 0 False s] length_join [of dst_cap]
  by (simp add: compressor_sanitize_whitespace_def compressor_prune_sentence_density_def Let_def inked_sanitize_loop)

section \<open>Messages\<close>

lemma last_user_idx_Some:
  "last_user_idx roles = Some i \<Longrightarrow> i < length roles \<and> roles ! i = Some ''user'' \<and> (\<forall>j. i < j \<longrightarrow> j < length roles \<longrightarrow> roles ! j \<noteq> Some ''user'')"
proof -
  assume "last_user_idx roles = Some i"
  then obtain k where k: "find_idx (\<lambda>r. r = Some ''user'') (rev roles) = Some k" and i: "i = length roles - 1 - k"
    by (auto simp: last_user_idx_def split: option.splits)
  note f = find_idx_Some [OF k]
  have "roles ! j \<noteq> Some ''user''" if "i < j" "j < length roles" for j
  proof -
    have "length roles - Suc j < k" using that i f by auto
    with f have "rev roles ! (length roles - Suc j) \<noteq> Some ''user''" by blast
    with that show ?thesis by (simp add: rev_nth)
  qed
  with f i show ?thesis by (auto simp: rev_nth)
qed

lemma keep_question_nth [simp]: "length (keep_question roles) = length roles"
  "i < length roles \<Longrightarrow> keep_question roles ! i \<longleftrightarrow> last_user_idx roles = Some i"
  by (simp_all add: keep_question_def)

lemma keep_system_nth [simp]: "length (keep_system p roles keep) = length roles"
  "i < length roles \<Longrightarrow> keep_system p roles keep ! i \<longleftrightarrow> keep ! i \<or> (p \<and> i < length (takeWhile is_instruction roles))"
  by (simp_all add: keep_system_def Let_def)

definition windowed :: "string option \<Rightarrow> bool" where
  "windowed r \<longleftrightarrow> r = Some ''assistant'' \<or> r = Some ''user'' \<or> r = Some ''tool''"

lemma keep_turns_Cons:
  "keep_turns m t (x # rs) =
     (let b = snd x \<or> (windowed (fst x) \<and> t < m)
      in b # keep_turns m (if \<not> snd x \<and> b \<and> fst x = Some ''user'' then Suc t else t) rs)"
  by (cases x) (simp add: windowed_def)

lemma length_keep_turns [simp]: "length (keep_turns m t rs) = length rs"
  by (induction rs arbitrary: t) (simp_all add: keep_turns_Cons Let_def)

lemma keep_turns_keeps: "i < length rs \<Longrightarrow> snd (rs ! i) \<Longrightarrow> keep_turns m t rs ! i"
  by (induction rs arbitrary: t i) (auto simp: keep_turns_Cons Let_def nth_Cons split: nat.splits)

lemma keep_turns_room: "i < length rs \<Longrightarrow> keep_turns m t rs ! i \<Longrightarrow> \<not> snd (rs ! i) \<Longrightarrow> t < m"
proof (induction rs arbitrary: t i)
  case (Cons x rs)
  let ?t = "if \<not> snd x \<and> (snd x \<or> windowed (fst x) \<and> t < m) \<and> fst x = Some ''user'' then Suc t else t"
  show ?case
  proof (cases i)
    case 0
    with Cons.prems show ?thesis by (simp add: keep_turns_Cons Let_def)
  next
    case (Suc i')
    with Cons.prems have "?t < m" by (intro Cons.IH [of i']) (simp_all add: keep_turns_Cons Let_def)
    then show ?thesis by (simp split: if_splits)
  qed
qed simp

lemma keep_turns_window:
  "i < j \<Longrightarrow> j < length rs \<Longrightarrow> keep_turns m t rs ! j \<Longrightarrow> \<not> snd (rs ! j) \<Longrightarrow> windowed (fst (rs ! i)) \<Longrightarrow> keep_turns m t rs ! i"
proof (induction rs arbitrary: t i j)
  case (Cons x rs)
  have room: "t < m" by (rule keep_turns_room [OF Cons.prems(2-4)])
  show ?case
  proof (cases i)
    case 0
    with room Cons.prems(5) show ?thesis by (simp add: keep_turns_Cons Let_def)
  next
    case (Suc i')
    with Cons.prems obtain j' where "j = Suc j'" by (cases j) auto
    with Suc Cons.prems Cons.IH [of i' j'] show ?thesis by (simp add: keep_turns_Cons Let_def)
  qed
qed simp

lemma keep_turns_bound:
  "length (filter (\<lambda>((r, k), b). r = Some ''user'' \<and> \<not> k \<and> b) (zip rs (keep_turns m t rs))) \<le> m - t"
proof (induction rs arbitrary: t)
  case (Cons x rs)
  show ?case
  proof (cases "\<not> snd x \<and> fst x = Some ''user'' \<and> t < m")
    case True
    then have "Suc (m - Suc t) = m - t" by auto
    with True Cons.IH [of "Suc t"] show ?thesis by (cases x) (simp add: keep_turns_Cons Let_def windowed_def)
  next
    case False
    with Cons.IH [of t] show ?thesis by (cases x) (auto simp: keep_turns_Cons Let_def windowed_def)
  qed
qed simp

lemma length_keep_tools [simp]: "length (keep_tools ms) = length ms"
  by (induction ms rule: keep_tools.induct) auto

lemma keep_tools_0: "ms \<noteq> [] \<Longrightarrow> keep_tools ms ! 0 = snd (snd (ms ! 0))"
  by (induction ms rule: keep_tools.induct) auto

lemma keep_tools_Suc:
  "Suc j < length ms \<Longrightarrow> keep_tools ms ! Suc j \<longleftrightarrow>
     snd (snd (ms ! Suc j)) \<or> (keep_tools ms ! j \<and> fst (ms ! j) \<and> fst (snd (ms ! Suc j)) = Some ''tool'')"
proof (induction ms arbitrary: j rule: keep_tools.induct)
  case (3 tc r k tc' r' k' ms)
  show ?case
  proof (cases j)
    case 0
    then show ?thesis by (simp add: keep_tools_0)
  next
    case (Suc i)
    with 3(1) [of i] 3(2) show ?thesis by (cases i) simp_all
  qed
qed auto

text \<open>The flags of the messages before the last question, position by position.\<close>

lemma keep_history_nth:
  fixes roles m keep
  defines "n \<equiv> (case last_user_idx roles of Some i \<Rightarrow> i | None \<Rightarrow> length roles)"
  defines "rs \<equiv> rev (zip (take n roles) (take n keep))"
  assumes "length keep = length roles"
  shows "length (keep_history m roles keep) = length roles"
    and "j < n \<Longrightarrow> keep_history m roles keep ! j \<longleftrightarrow> keep_turns m 0 rs ! (n - Suc j)"
    and "n \<le> j \<Longrightarrow> j < length roles \<Longrightarrow> keep_history m roles keep ! j \<longleftrightarrow> keep ! j"
    and "n \<le> length roles" and "length rs = n"
    and "j < n \<Longrightarrow> rs ! (n - Suc j) = (roles ! j, keep ! j)"
proof -
  show n: "n \<le> length roles" using last_user_idx_Some [of roles] by (auto simp: n_def split: option.splits)
  with assms(3) show rs: "length rs = n" by (simp add: rs_def)
  have h: "keep_history m roles keep = rev (keep_turns m 0 rs) @ drop n keep" by (simp add: keep_history_def n_def rs_def Let_def)
  show "length (keep_history m roles keep) = length roles" using n rs assms(3) by (simp add: h)
  show "j < n \<Longrightarrow> keep_history m roles keep ! j \<longleftrightarrow> keep_turns m 0 rs ! (n - Suc j)"
    using rs by (simp add: h nth_append rev_nth)
  show "n \<le> j \<Longrightarrow> j < length roles \<Longrightarrow> keep_history m roles keep ! j \<longleftrightarrow> keep ! j"
    using n rs assms(3) by (simp add: h nth_append)
  show "j < n \<Longrightarrow> rs ! (n - Suc j) = (roles ! j, keep ! j)"
    using n assms(3) by (simp add: rs_def rev_nth)
qed

text \<open>The flags without the step for tools, and with it.\<close>

definition keep_all :: "'j json_lib \<Rightarrow> compressor_rule \<Rightarrow> 'j list \<Rightarrow> bool list" where
  "keep_all L rule msgs =
     (let roles = map (msg_role L) msgs
      in keep_history (cr_max_history_turns rule) roles (keep_system (cr_preserve_system rule) roles (keep_question roles)))"

lemma length_keep_all [simp]: "length (keep_all L rule msgs) = length msgs"
  by (simp add: keep_all_def Let_def keep_history_nth)

lemma length_kept [simp]: "length (kept_messages L rule msgs) = length msgs"
  using length_keep_all [of L rule msgs] by (simp add: kept_messages_def keep_all_def Let_def)

lemma kept_messages_eq:
  "kept_messages L rule msgs =
     (if cr_preserve_tools rule then keep_tools (zip (map (has_tool_calls L) msgs) (zip (map (msg_role L) msgs) (keep_all L rule msgs)))
      else keep_all L rule msgs)"
  by (simp add: kept_messages_def keep_all_def Let_def)

lemma kept_messages_Suc:
  assumes "Suc j < length msgs"
  shows "kept_messages L rule msgs ! Suc j \<longleftrightarrow> keep_all L rule msgs ! Suc j \<or>
     (cr_preserve_tools rule \<and> kept_messages L rule msgs ! j \<and> has_tool_calls L (msgs ! j) \<and> msg_role L (msgs ! Suc j) = Some ''tool'')"
proof -
  let ?ms = "zip (map (has_tool_calls L) msgs) (zip (map (msg_role L) msgs) (keep_all L rule msgs))"
  have "keep_tools ?ms ! Suc j \<longleftrightarrow> snd (snd (?ms ! Suc j)) \<or> (keep_tools ?ms ! j \<and> fst (?ms ! j) \<and> fst (snd (?ms ! Suc j)) = Some ''tool'')"
    using assms by (intro keep_tools_Suc) simp
  with assms show ?thesis by (simp add: kept_messages_eq)
qed

lemma kept_messages_0: "msgs \<noteq> [] \<Longrightarrow> kept_messages L rule msgs ! 0 \<longleftrightarrow> keep_all L rule msgs ! 0"
proof -
  assume "msgs \<noteq> []"
  let ?ms = "zip (map (has_tool_calls L) msgs) (zip (map (msg_role L) msgs) (keep_all L rule msgs))"
  from \<open>msgs \<noteq> []\<close> have "?ms \<noteq> []" by (metis length_0_conv length_keep_all length_map length_zip min.idem)
  from keep_tools_0 [OF this] \<open>msgs \<noteq> []\<close> show ?thesis by (simp add: kept_messages_eq)
qed

lemma kept_messages_ge: "j < length msgs \<Longrightarrow> keep_all L rule msgs ! j \<Longrightarrow> kept_messages L rule msgs ! j"
  by (cases j) (auto simp: kept_messages_Suc kept_messages_0)

lemma kept_messages_not_tool:
  "j < length msgs \<Longrightarrow> msg_role L (msgs ! j) \<noteq> Some ''tool'' \<Longrightarrow> kept_messages L rule msgs ! j \<longleftrightarrow> keep_all L rule msgs ! j"
  by (cases j) (auto simp: kept_messages_Suc kept_messages_0)

text \<open>With a question at \<open>i\<close>.\<close>

lemma prefix_role: "j < length (takeWhile is_instruction roles) \<Longrightarrow> is_instruction (roles ! j)"
  by (metis nth_mem set_takeWhileD takeWhile_nth)

lemma prefix_before: "i < length roles \<Longrightarrow> \<not> is_instruction (roles ! i) \<Longrightarrow> length (takeWhile is_instruction roles) \<le> i"
  using prefix_role [of i roles] by (meson not_less)

lemma keep_all_cases:
  fixes L :: "'j json_lib" and msgs :: "'j list" and rule :: compressor_rule
  assumes q: "last_user_idx (map (msg_role L) msgs) = Some i"
  defines "pre \<equiv> length (takeWhile is_instruction (map (msg_role L) msgs))"
  obtains rs where "length rs = i" "\<And>j. j < i \<Longrightarrow> rs ! (i - Suc j) = (msg_role L (msgs ! j), cr_preserve_system rule \<and> j < pre)"
    "\<And>j. j < i \<Longrightarrow> keep_all L rule msgs ! j \<longleftrightarrow> keep_turns (cr_max_history_turns rule) 0 rs ! (i - Suc j)"
    "\<And>j. i \<le> j \<Longrightarrow> j < length msgs \<Longrightarrow> keep_all L rule msgs ! j \<longleftrightarrow> j = i" "i < length msgs" "pre \<le> i"
proof -
  let ?roles = "map (msg_role L) msgs"
  let ?keep = "keep_system (cr_preserve_system rule) ?roles (keep_question ?roles)"
  let ?rs = "rev (zip (take i ?roles) (take i ?keep))"
  have i: "i < length msgs" "?roles ! i = Some ''user''" using last_user_idx_Some [OF q] by auto
  then have "\<not> is_instruction (?roles ! i)" by (simp add: is_instruction_def)
  with i have pre: "pre \<le> i" using prefix_before [of i ?roles] by (simp add: pre_def)
  have len: "length ?keep = length ?roles" by simp
  note h = keep_history_nth [OF len, unfolded q option.case]
  have k: "?keep ! j \<longleftrightarrow> i = j \<or> (cr_preserve_system rule \<and> j < pre)" if "j < length msgs" for j
    using that q by (simp add: pre_def)
  show thesis
  proof (rule that [of ?rs])
    show "length ?rs = i" by (rule h(5))
    show "?rs ! (i - Suc j) = (msg_role L (msgs ! j), cr_preserve_system rule \<and> j < pre)" if "j < i" for j
      using h(6) [OF that] k [of j] i(1) that by simp
    show "keep_all L rule msgs ! j \<longleftrightarrow> keep_turns (cr_max_history_turns rule) 0 ?rs ! (i - Suc j)" if "j < i" for j
      using h(2) [OF that] by (simp add: keep_all_def Let_def)
    show "keep_all L rule msgs ! j \<longleftrightarrow> j = i" if "i \<le> j" "j < length msgs" for j
      using h(3) [OF that(1)] k [of j] that pre by (auto simp: keep_all_def Let_def)
  qed (use i pre in auto)
qed

lemma question_kept: "last_user_idx (map (msg_role L) msgs) = Some i \<Longrightarrow> kept_messages L rule msgs ! i"
  by (rule keep_all_cases [of L msgs i rule]) (auto intro: kept_messages_ge)

lemma instructions_kept:
  assumes "last_user_idx (map (msg_role L) msgs) = Some i" "cr_preserve_system rule" "j < length (takeWhile is_instruction (map (msg_role L) msgs))"
  shows "kept_messages L rule msgs ! j"
proof (rule keep_all_cases [OF assms(1), of rule])
  fix rs
  assume rs: "length rs = i" "\<And>j. j < i \<Longrightarrow> rs ! (i - Suc j) = (msg_role L (msgs ! j), cr_preserve_system rule \<and> j < length (takeWhile is_instruction (map (msg_role L) msgs)))"
    "\<And>j. j < i \<Longrightarrow> keep_all L rule msgs ! j \<longleftrightarrow> keep_turns (cr_max_history_turns rule) 0 rs ! (i - Suc j)"
    "i < length msgs" "length (takeWhile is_instruction (map (msg_role L) msgs)) \<le> i"
  with assms have "j < i" by simp
  with rs assms(2,3) show ?thesis by (intro kept_messages_ge) (simp_all add: keep_turns_keeps)
qed

lemma history_window:
  assumes "last_user_idx (map (msg_role L) msgs) = Some i" "a < b" "b < i" "kept_messages L rule msgs ! a"
    and "msg_role L (msgs ! a) = Some ''user'' \<or> msg_role L (msgs ! a) = Some ''assistant''" "windowed (msg_role L (msgs ! b))"
  shows "kept_messages L rule msgs ! b"
proof (rule keep_all_cases [OF assms(1), of rule])
  fix rs
  let ?pre = "length (takeWhile is_instruction (map (msg_role L) msgs))"
  assume rs: "length rs = i" "\<And>j. j < i \<Longrightarrow> rs ! (i - Suc j) = (msg_role L (msgs ! j), cr_preserve_system rule \<and> j < ?pre)"
    "\<And>j. j < i \<Longrightarrow> keep_all L rule msgs ! j \<longleftrightarrow> keep_turns (cr_max_history_turns rule) 0 rs ! (i - Suc j)"
    "i < length msgs" "?pre \<le> i"
  have ai: "a < length msgs" using assms(2,3) rs by simp
  have "\<not> a < ?pre" using prefix_role [of a "map (msg_role L) msgs"] assms(5) ai by (auto simp: is_instruction_def)
  moreover have "keep_all L rule msgs ! a" using assms(4,5) kept_messages_not_tool [OF ai, of L rule] by auto
  moreover have "i - Suc b < i - Suc a" "i - Suc a < length rs" "a < i" using assms(2,3) rs(1) by simp_all
  ultimately have "keep_turns (cr_max_history_turns rule) 0 rs ! (i - Suc b)"
    using rs(2) [OF \<open>a < i\<close>] rs(2) [OF assms(3)] rs(3) [OF \<open>a < i\<close>] assms(6) keep_turns_window [of "i - Suc b" "i - Suc a" rs] by simp
  with assms(3) rs(4) rs(3) [OF assms(3)] show ?thesis by (intro kept_messages_ge) simp_all
qed

lemma turns_bounded:
  assumes "last_user_idx (map (msg_role L) msgs) = Some i"
  shows "card {j. j < i \<and> msg_role L (msgs ! j) = Some ''user'' \<and> kept_messages L rule msgs ! j} \<le> cr_max_history_turns rule"
proof (rule keep_all_cases [OF assms(1), of rule])
  fix rs
  let ?pre = "length (takeWhile is_instruction (map (msg_role L) msgs))" and ?m = "cr_max_history_turns rule"
  assume rs: "length rs = i" "\<And>j. j < i \<Longrightarrow> rs ! (i - Suc j) = (msg_role L (msgs ! j), cr_preserve_system rule \<and> j < ?pre)"
    "\<And>j. j < i \<Longrightarrow> keep_all L rule msgs ! j \<longleftrightarrow> keep_turns ?m 0 rs ! (i - Suc j)"
    "i < length msgs" "?pre \<le> i"
  let ?Q = "\<lambda>((r, k), b). r = Some ''user'' \<and> \<not> k \<and> b"
  let ?zs = "zip rs (keep_turns ?m 0 rs)"
  have "(\<lambda>j. i - Suc j) ` {j. j < i \<and> msg_role L (msgs ! j) = Some ''user'' \<and> kept_messages L rule msgs ! j} \<subseteq> {k. k < length ?zs \<and> ?Q (?zs ! k)}"
  proof (intro subsetI, clarify)
    fix j assume j: "j < i" "msg_role L (msgs ! j) = Some ''user''" "kept_messages L rule msgs ! j"
    then have "j < length msgs" using rs by simp
    with j have "keep_all L rule msgs ! j" "\<not> j < ?pre"
      using kept_messages_not_tool [of j msgs L rule] prefix_role [of j "map (msg_role L) msgs"] by (auto simp: is_instruction_def)
    with j rs show "i - Suc j < length ?zs \<and> ?Q (?zs ! (i - Suc j))" by simp
  qed
  then have "card ((\<lambda>j. i - Suc j) ` {j. j < i \<and> msg_role L (msgs ! j) = Some ''user'' \<and> kept_messages L rule msgs ! j}) \<le> length (filter ?Q ?zs)"
    unfolding length_filter_conv_card by (rule card_mono [rotated]) simp
  moreover have "inj_on (\<lambda>j. i - Suc j) {j. j < i \<and> msg_role L (msgs ! j) = Some ''user'' \<and> kept_messages L rule msgs ! j}"
    by (rule inj_onI) auto
  ultimately show ?thesis using keep_turns_bound [where rs = rs and m = ?m and t = 0] by (simp add: card_image)
qed

lemma behind_question:
  assumes "last_user_idx (map (msg_role L) msgs) = Some i" "i < j" "j < length msgs"
  shows "kept_messages L rule msgs ! j \<longleftrightarrow>
    cr_preserve_tools rule \<and> kept_messages L rule msgs ! (j - 1) \<and> has_tool_calls L (msgs ! (j - 1)) \<and> msg_role L (msgs ! j) = Some ''tool''"
proof (rule keep_all_cases [OF assms(1), of rule])
  assume "\<And>j. i \<le> j \<Longrightarrow> j < length msgs \<Longrightarrow> keep_all L rule msgs ! j \<longleftrightarrow> j = i"
  with assms have "\<not> keep_all L rule msgs ! j" by auto
  with assms(2,3) kept_messages_Suc [of "j - 1" msgs L rule] show ?thesis by simp
qed

text \<open>The messages of the new document.\<close>

definition new_messages :: "'j json_lib \<Rightarrow> (nat \<Rightarrow> bool) \<Rightarrow> compressor_rule \<Rightarrow> 'j list \<Rightarrow> 'j list" where
  "new_messages L ok rule msgs = map (\<lambda>j. compress_message L ok rule (msgs ! j)) (filter (\<lambda>j. kept_messages L rule msgs ! j) [0..<length msgs])"

lemma filter_zip_index: "length bs = length xs \<Longrightarrow> map fst (filter snd (zip xs bs)) = map ((!) xs) (filter ((!) bs) [0..<length xs])"
proof (induction xs bs rule: list_induct2')
  case (4 x xs b bs)
  have "[0..<length (x # xs)] = 0 # map Suc [0..<length xs]" by (simp add: map_Suc_upt upt_conv_Cons del: upt_Suc)
  with 4 show ?case by (simp add: filter_map o_def del: upt_Suc)
qed simp_all

lemma document_messages:
  assumes "json_total L" "jo_is_object L doc"
  shows "jo_array L (jo_get L (Some (compress_document L ok rule doc msgs)) ''messages'') = Some (new_messages L ok rule msgs)"
    and "k \<noteq> ''messages'' \<Longrightarrow> jo_get L (Some (compress_document L ok rule doc msgs)) k = jo_get L (Some doc) k"
proof -
  have laws: "json_laws L" using assms(1) by (simp add: json_total_def)
  have "map (\<lambda>(m, k). compress_message L ok rule m) (filter snd (zip msgs (kept_messages L rule msgs))) =
      map (compress_message L ok rule) (map fst (filter snd (zip msgs (kept_messages L rule msgs))))" by (simp add: case_prod_unfold)
  also have "\<dots> = new_messages L ok rule msgs" by (simp add: filter_zip_index new_messages_def)
  finally have m: "map (\<lambda>(m, k). compress_message L ok rule m) (filter snd (zip msgs (kept_messages L rule msgs))) = new_messages L ok rule msgs" .
  show "jo_array L (jo_get L (Some (compress_document L ok rule doc msgs)) ''messages'') = Some (new_messages L ok rule msgs)"
    and "k \<noteq> ''messages'' \<Longrightarrow> jo_get L (Some (compress_document L ok rule doc msgs)) k = jo_get L (Some doc) k"
    using json_laws_set [OF laws assms(2)] json_laws_array [OF laws] by (simp_all add: compress_document_def m)
qed

text \<open>C22. The compressed request has the kept messages in their order, each cleaned, and its other members as they were. The
  last message of the user is kept, so are the leading system messages when the rule preserves them; at most the
  configured number of earlier user messages is kept; and behind a kept message of a turn nothing of the history is left out.\<close>

theorem compressor_keeps_question:
  assumes "json_total L" "jo_is_object L doc" "last_user_idx (map (msg_role L) msgs) = Some i"
  shows "jo_array L (jo_get L (Some (compress_document L ok rule doc msgs)) ''messages'') = Some (new_messages L ok rule msgs) \<and>
    (\<forall>k. k \<noteq> ''messages'' \<longrightarrow> jo_get L (Some (compress_document L ok rule doc msgs)) k = jo_get L (Some doc) k) \<and>
    kept_messages L rule msgs ! i \<and>
    (cr_preserve_system rule \<longrightarrow> (\<forall>j < length (takeWhile is_instruction (map (msg_role L) msgs)). kept_messages L rule msgs ! j)) \<and>
    card {j. j < i \<and> msg_role L (msgs ! j) = Some ''user'' \<and> kept_messages L rule msgs ! j} \<le> cr_max_history_turns rule \<and>
    (\<forall>a b. a < b \<longrightarrow> b < i \<longrightarrow> kept_messages L rule msgs ! a \<longrightarrow>
       msg_role L (msgs ! a) = Some ''user'' \<or> msg_role L (msgs ! a) = Some ''assistant'' \<longrightarrow>
       windowed (msg_role L (msgs ! b)) \<longrightarrow> kept_messages L rule msgs ! b)"
proof (intro conjI allI impI)
  show "kept_messages L rule msgs ! b"
    if "a < b" "b < i" "kept_messages L rule msgs ! a" "msg_role L (msgs ! a) = Some ''user'' \<or> msg_role L (msgs ! a) = Some ''assistant''"
      "windowed (msg_role L (msgs ! b))" for a b
    by (rule history_window [OF assms(3) that])
  show "kept_messages L rule msgs ! j"
    if "cr_preserve_system rule" "j < length (takeWhile is_instruction (map (msg_role L) msgs))" for j
    by (rule instructions_kept [OF assms(3) that])
qed (rule document_messages [OF assms(1,2)] question_kept [OF assms(3)] turns_bounded [OF assms(3)] | assumption)+

lemma compressor_keeps_question_witness:
  "kept_messages jval_lib (header_rule COMPRESS_LEVEL_MODERATE)
     [JObj [(''role'', JStr ''system'')], JObj [(''role'', JStr ''user'')], JObj [(''role'', JStr ''assistant'')], JObj [(''role'', JStr ''user'')]] ! 3"
proof -
  let ?msgs = "[JObj [(''role'', JStr ''system'')], JObj [(''role'', JStr ''user'')], JObj [(''role'', JStr ''assistant'')], JObj [(''role'', JStr ''user'')]]"
  have "last_user_idx (map (msg_role jval_lib) ?msgs) = Some 3" by code_simp
  moreover have "jo_is_object jval_lib (JObj [])" by (simp add: jval_lib_def)
  ultimately show ?thesis
    using compressor_keeps_question [OF jval_lib_total, of "JObj []" ?msgs 3 "\<lambda>_. True" "header_rule COMPRESS_LEVEL_MODERATE"] by blast
qed

text \<open>C23. What follows the last message of the user is lost: unless a tool message comes right behind it, the compressed
  request ends with the question, so the calls of a model and the results of its tools, by which an agent goes on,
  are dropped from the request.\<close>

theorem compressor_drops_after_question:
  assumes "json_total L" "jo_is_object L doc" "last_user_idx (map (msg_role L) msgs) = Some i"
    and "Suc i < length msgs" "msg_role L (msgs ! Suc i) \<noteq> Some ''tool''"
  shows "\<exists>ms. jo_array L (jo_get L (Some (compress_document L ok rule doc msgs)) ''messages'') =
    Some (ms @ [compress_message L ok rule (msgs ! i)])"
proof -
  have "\<not> kept_messages L rule msgs ! j" if "i < j" "j < length msgs" for j
    using that
  proof (induction j rule: less_induct)
    case (less j)
    show ?case
    proof (cases "j = Suc i")
      case True
      with behind_question [OF assms(3) less.prems] assms(5) show ?thesis by simp
    next
      case False
      with less have "\<not> kept_messages L rule msgs ! (j - 1)" by simp
      with behind_question [OF assms(3) less.prems] show ?thesis by simp
    qed
  qed
  moreover have "[0..<length msgs] = [0..<i] @ i # [Suc i..<length msgs]"
    using assms(4) upt_add_eq_append [of 0 i "length msgs - i"] by (simp add: upt_conv_Cons del: upt_Suc)
  ultimately have "filter (\<lambda>j. kept_messages L rule msgs ! j) [0..<length msgs] = filter (\<lambda>j. kept_messages L rule msgs ! j) [0..<i] @ [i]"
    using question_kept [OF assms(3), of rule] by (simp add: filter_empty_conv)
  with document_messages(1) [OF assms(1,2), of ok rule msgs] show ?thesis by (simp add: new_messages_def)
qed

lemma compressor_drops_after_question_witness:
  "\<exists>ms. jo_array jval_lib (jo_get jval_lib (Some (compress_document jval_lib (\<lambda>_. True) (header_rule COMPRESS_LEVEL_MODERATE) (JObj [])
      [JObj [(''role'', JStr ''user'')], JObj [(''role'', JStr ''assistant''), (''tool_calls'', JArr [])], JObj [(''role'', JStr ''tool'')]])) ''messages'') =
    Some (ms @ [JObj [(''role'', JStr ''user'')]])"
proof -
  let ?msgs = "[JObj [(''role'', JStr ''user'')], JObj [(''role'', JStr ''assistant''), (''tool_calls'', JArr [])], JObj [(''role'', JStr ''tool'')]]"
  have "last_user_idx (map (msg_role jval_lib) ?msgs) = Some 0" "msg_role jval_lib (?msgs ! Suc 0) \<noteq> Some ''tool''" by code_simp+
  moreover have "jo_is_object jval_lib (JObj [])" by (simp add: jval_lib_def)
  moreover have "compress_message jval_lib (\<lambda>_. True) (header_rule COMPRESS_LEVEL_MODERATE) (?msgs ! 0) = JObj [(''role'', JStr ''user'')]"
    by (simp add: compress_message_def jval_lib_def)
  ultimately show ?thesis
    using compressor_drops_after_question [OF jval_lib_total, of "JObj []" ?msgs 0 "\<lambda>_. True" "header_rule COMPRESS_LEVEL_MODERATE"] by simp
qed

text \<open>A request is compressed only if its header does not forbid it and only if that makes it smaller: the body that goes
  on is either the one that came, or the text of the compressed document, for a rule that is enabled and is one of the
  configured ones unless the header asks for compression, with a smaller estimate than before.\<close>

theorem compressor_only_shrinks:
  "case compress_request L ok us rules hdr model body of
     (b, None) \<Rightarrow> b = body
   | (b, Some res) \<Rightarrow> co_payload res = Some b \<and> compressor_estimate_tokens b < compressor_estimate_tokens body \<and>
       co_saved_tokens res + co_compressed_tokens res = compressor_estimate_tokens body \<and> hdr \<noteq> Some ''off'' \<and> hdr \<noteq> Some ''none'' \<and>
       (\<exists>rule doc msgs. choose_rule rules hdr model (compressor_estimate_tokens body) = Some rule \<and>
          cr_enabled rule \<and> cr_level rule \<noteq> COMPRESS_LEVEL_OFF \<and>
          (hdr = Some ''aggressive'' \<or> hdr = Some ''moderate'' \<or> rule \<in> set rules \<and> compressor_rule_match rule model (compressor_estimate_tokens body)) \<and>
          jo_loadb L body = Some doc \<and> jo_array L (jo_get L (Some doc) ''messages'') = Some msgs \<and>
          jl_dumps L (compress_document L ok rule doc msgs) = Some b)"
proof (cases "snd (compress_request L ok us rules hdr model body)")
  case None
  then show ?thesis by (auto simp: compress_request_def Let_def split: option.splits prod.splits if_splits)
next
  case (Some res)
  then obtain rule where r: "choose_rule rules hdr model (compressor_estimate_tokens body) = Some rule" "hdr \<noteq> Some ''off''" "hdr \<noteq> Some ''none''"
    and p: "prompt_compressor_process_payload L ok us body rule = (True, res)" "co_compressed res"
      "compress_request L ok us rules hdr model body = (the (co_payload res), Some res)" "co_payload res \<noteq> None"
    by (auto simp: compress_request_def split: option.splits prod.splits if_splits)
  from p(1,2) obtain doc msgs s where d: "cr_enabled rule" "cr_level rule \<noteq> COMPRESS_LEVEL_OFF" "jo_loadb L body = Some doc"
      "jo_array L (jo_get L (Some doc) ''messages'') = Some msgs" "jl_dumps L (compress_document L ok rule doc msgs) = Some s"
      "compressor_estimate_tokens s < compressor_estimate_tokens body" "co_payload res = Some s"
      "co_saved_tokens res + co_compressed_tokens res = compressor_estimate_tokens body"
    by (auto simp: prompt_compressor_process_payload_def no_compression_def Let_def split: if_splits option.splits)
  have "hdr = Some ''aggressive'' \<or> hdr = Some ''moderate'' \<or> rule \<in> set rules \<and> compressor_rule_match rule model (compressor_estimate_tokens body)"
    using r(1) by (auto simp: choose_rule_def find_Some_iff split: option.splits if_splits)
  with r p(3) d show ?thesis by auto
qed

text \<open>What is written is made of the first 128 sentences.\<close>

lemma choose_text: "map se_text (choose_sentences target ss) = map se_text ss"
proof (induction target ss rule: choose_sentences.induct)
  case (1 target ss)
  have "map se_text (ss[i := (ss ! i)\<lparr>se_keep := True\<rparr>]) = map se_text ss" if "best_sentence ss = Some i" for i
    using best_sentence_range [OF that] by (simp add: map_update list_update_same_conv)
  with 1 show ?case by (subst choose_sentences.simps) (auto split: option.split)
qed

lemma protect_at_text: "map se_text (protect_at i ss) = map se_text ss"
  by (cases "i < length ss") (simp_all add: protect_at_def map_update list_update_same_conv list_update_beyond)

lemma protect_ends_text: "map se_text (protect_ends ss) = map se_text ss"
  by (simp add: protect_ends_def protect_at_text)

lemma set_put_sentence: "set (put_sentence cap out s) \<subseteq> insert (CHR '' '') (set out \<union> set s)"
  by (auto simp: put_sentence_def Let_def dest: in_set_takeD)

lemma set_join: "set (join_sentences cap ss) \<subseteq> insert (CHR '' '') (\<Union> (set ` set (map se_text ss)))"
proof -
  have "set (foldl (put_sentence cap) out xs) \<subseteq> insert (CHR '' '') (set out \<union> \<Union> (set ` set xs))" for out xs
  proof (induction xs arbitrary: out)
    case (Cons x xs)
    from Cons [of "put_sentence cap out x"] set_put_sentence [of cap out x] show ?case by auto
  qed auto
  from this [of "[]" "map se_text (filter se_keep ss)"] show ?thesis by (auto simp: join_sentences_def)
qed

lemma set_prune:
  assumes "0 < ratio" "ratio < 1"
  shows "set (compressor_prune_sentence_density s ratio cap) \<subseteq> insert (CHR '' '') (\<Union> (set ` set (split_sentences MAX_SENTENCES s)))"
proof -
  have keep: "map se_text (map (\<lambda>x. x\<lparr>se_keep := se_protected x\<rparr>) ss) = map se_text ss" for ss by simp
  have texts: "map se_text (map classify_sentence xs) = xs" for xs by (induction xs) (simp_all add: classify_sentence_def)
  from assms have "compressor_prune_sentence_density s ratio cap =
      join_sentences cap (choose_sentences (max 1 (nat \<lfloor>real (length s) * ratio\<rfloor>))
        (map (\<lambda>x. x\<lparr>se_keep := se_protected x\<rparr>) (protect_ends (map classify_sentence (split_sentences MAX_SENTENCES s)))))"
    by (simp add: compressor_prune_sentence_density_def Let_def)
  then show ?thesis by (simp only: set_join [THEN order_trans] choose_text keep protect_ends_text texts order_refl)
qed

text \<open>Pruning does not keep every instruction that it protects: blanks put between sentences push the last one out of
  the buffer, sentences after the 128th are dropped whatever they say, and a sentence with a placeholder in the form
  that the masking writes is not protected at all.\<close>

theorem compressor_prune_loses_instructions:
  "compressor_prune_sentence_density ''json!json!json!json!must!'' (1 / 2) 26 = ''json! json! json! json! m'' \<and>
   CHR ''n'' \<notin> set (compressor_prune_sentence_density (concat (replicate 128 ''Ok.'') @ ''must not.'') (9 / 10) cap) \<and>
   compressor_prune_sentence_density ''Yes. Call [PHONE_1] now. No.'' (1 / 4) 40 = ''Yes. No.''"
proof (intro conjI)
  show "compressor_prune_sentence_density ''json!json!json!json!must!'' (1 / 2) 26 = ''json! json! json! json! m''" by code_simp
  have "split_sentences MAX_SENTENCES (concat (replicate 128 ''Ok.'') @ ''must not.'') = replicate 128 ''Ok.''" by code_simp
  with set_prune [of "9 / 10" "concat (replicate 128 ''Ok.'') @ ''must not.''" cap]
  show "CHR ''n'' \<notin> set (compressor_prune_sentence_density (concat (replicate 128 ''Ok.'') @ ''must not.'') (9 / 10) cap)" by auto
  show "compressor_prune_sentence_density ''Yes. Call [PHONE_1] now. No.'' (1 / 4) 40 = ''Yes. No.''" by code_simp
qed

end
