(* ===== verification/Cache_Optimizer.thy ===== *)
theory Cache_Optimizer
  imports Compressor Decimal "HOL-Library.Multiset" "HOL-Library.List_Lexorder" "HOL-Library.Char_ord"
begin

text \<open>
  The optimiser of prompts for the caches of the providers, \<^verbatim>\<open>src/policy/cache_optimizer.c\<close>, and its use in
  \<^verbatim>\<open>aigate_handle_request\<close>: tools are put in the order of their names, a dynamic header of the system prompt is moved behind it, and
  cache marks for Anthropic are put into the document. \<^verbatim>\<open>qsort\<close> is a parameter, as its order of equal names is not
  specified; \<^verbatim>\<open>strcmp\<close> is the lexicographic order of the bytes.
\<close>

section \<open>Tools\<close>

definition ANTHROPIC_MAX_BREAKPOINTS :: nat where "ANTHROPIC_MAX_BREAKPOINTS = 4"

definition string_member :: "'j json_lib \<Rightarrow> 'j option \<Rightarrow> string \<Rightarrow> string option" where
  "string_member L j k = jo_string L (jo_get L j k)"

definition object_or_none :: "'j json_lib \<Rightarrow> 'j option \<Rightarrow> 'j option" where
  "object_or_none L j = (case j of Some x \<Rightarrow> if jo_is_object L x then Some x else None | None \<Rightarrow> None)"

definition tool_name :: "'j json_lib \<Rightarrow> 'j \<Rightarrow> string" where
  "tool_name L item =
     (case object_or_none L (Some item) of
        None \<Rightarrow> []
      | Some it \<Rightarrow>
          (case (case object_or_none L (jo_get L (Some it) ''function'') of Some fn \<Rightarrow> string_member L (Some fn) ''name'' | None \<Rightarrow> None) of
             Some n \<Rightarrow> n
           | None \<Rightarrow> cstr_or_empty (string_member L (Some it) ''name'')))"

type_synonym 'j tool_sort = "(string \<times> 'j) list \<Rightarrow> (string \<times> 'j) list"

text \<open>What the C standard says of \<^verbatim>\<open>qsort\<close>.\<close>

definition sort_law :: "'j tool_sort \<Rightarrow> bool" where
  "sort_law qsort \<longleftrightarrow> (\<forall>es. mset (qsort es) = mset es \<and> sorted (map fst (qsort es)))"

text \<open>The member that holds the tools.\<close>

definition tools_member :: "'j json_lib \<Rightarrow> 'j \<Rightarrow> (string \<times> 'j list) option" where
  "tools_member L doc =
     (case jo_array L (jo_get L (Some doc) ''tools'') of
        Some ts \<Rightarrow> Some (''tools'', ts)
      | None \<Rightarrow> map_option (Pair ''functions'') (jo_array L (jo_get L (Some doc) ''functions'')))"

definition cache_optimizer_sort_tools :: "'j json_lib \<Rightarrow> bool \<Rightarrow> 'j tool_sort \<Rightarrow> 'j \<Rightarrow> 'j \<times> bool" where
  "cache_optimizer_sort_tools L alloc_ok qsort doc =
     (if \<not> jo_is_object L doc then (doc, False)
      else case tools_member L doc of
        None \<Rightarrow> (doc, False)
      | Some (k, ts) \<Rightarrow>
          (let es = map (\<lambda>t. (tool_name L t, t)) ts
           in if length ts \<le> 1 \<or> \<not> alloc_ok \<or> sorted (map fst es) then (doc, False)
              else (jl_set L doc k (Some (jl_array L (map snd (qsort es)))), True)))"

section \<open>White space\<close>

definition cut_blanks :: "string \<Rightarrow> string" where
  "cut_blanks s = rev (dropWhile (\<lambda>c. c = CHR '' '' \<or> c = CHR 0x09) (rev s))"

fun normalize_loop :: "nat \<Rightarrow> nat \<Rightarrow> bool \<Rightarrow> string \<Rightarrow> string \<Rightarrow> string" where
  "normalize_loop out_sz newlines spaces out [] = out"
| "normalize_loop out_sz newlines spaces out (c # cs) =
     (if length out + 2 \<ge> out_sz then out
      else if c = CHR 0x0D then normalize_loop out_sz newlines spaces out cs
      else if c = NL
      then (if newlines < 2 then normalize_loop out_sz (Suc newlines) False (cut_blanks out @ [NL]) cs
            else normalize_loop out_sz newlines False (cut_blanks out) cs)
      else if c = CHR '' '' \<or> c = CHR 0x09
      then (if newlines > 0 then normalize_loop out_sz newlines spaces out cs
            else if \<not> spaces then normalize_loop out_sz newlines True (out @ '' '') cs
            else normalize_loop out_sz newlines spaces out cs)
      else normalize_loop out_sz 0 False (out @ [c]) cs)"

definition cache_optimizer_normalize_whitespace :: "string \<Rightarrow> nat \<Rightarrow> string" where
  "cache_optimizer_normalize_whitespace s out_sz =
     (if out_sz = 0 then []
      else cut_blanks (normalize_loop out_sz 0 False [] (dropWhile (\<lambda>c. c = CHR '' '' \<or> c = CHR 0x09 \<or> c = CHR 0x0D) s)))"

section \<open>Dynamic headers\<close>

definition ci_prefix :: "string \<Rightarrow> string \<Rightarrow> bool" where
  "ci_prefix p s \<longleftrightarrow> map to_lower (take (length p) s) = p"

definition is_dynamic_header_prefix :: "string \<Rightarrow> bool" where
  "is_dynamic_header_prefix s \<longleftrightarrow>
     length s \<ge> 8 \<and>
     (list_ex (\<lambda>p. ci_prefix p s) [''today is'', ''current date'', ''current time'', ''session id:'', ''session_id:'', ''session:'', ''request id:'', ''request_id:'']
      \<or> (length s \<ge> 10 \<and> list_all (\<lambda>i. is_digit (s ! i)) [0, 1, 2, 3, 5, 6, 8, 9] \<and> s ! 4 \<in> {CHR ''-'', CHR ''/''} \<and> s ! 7 \<in> {CHR ''-'', CHR ''/''}))"

text \<open>The first sentence or line, and what follows.\<close>

fun dynamic_end :: "string \<Rightarrow> string \<times> string" where
  "dynamic_end [] = ([], [])"
| "dynamic_end (c # cs) =
     (if c = NL then ([], c # cs)
      else if c = CHR ''.'' \<and> (cs = [] \<or> is_space (hd cs)) then ([c], cs)
      else (case dynamic_end cs of (a, b) \<Rightarrow> (c # a, b)))"

definition trim_end :: "string \<Rightarrow> string" where
  "trim_end s = rev (dropWhile (\<lambda>c. c = CHR ''.'' \<or> is_space c) (rev s))"

definition runtime_context :: "string \<Rightarrow> string \<Rightarrow> string" where
  "runtime_context static dyn = static @ [NL, NL] @ ''[Runtime Context: '' @ dyn @ '']'' @ [NL]"

definition cache_optimizer_sink_dynamic_system :: "string \<Rightarrow> nat \<Rightarrow> string option" where
  "cache_optimizer_sink_dynamic_system s out_sz =
     (let body = dropWhile is_space s
      in if s = [] \<or> out_sz = 0 \<or> \<not> is_dynamic_header_prefix body then None
         else case dynamic_end body of
           (head, rest) \<Rightarrow>
             (let dyn = trim_end head; static = dropWhile is_space rest; out = runtime_context static dyn
              in if dyn = [] \<or> static = [] \<or> length out \<ge> out_sz then None else Some out))"

section \<open>Cache marks\<close>

definition create_ephemeral_cache_control :: "'j json_lib \<Rightarrow> 'j option" where
  "create_ephemeral_cache_control L = map_option (\<lambda>j. set_string L j ''type'' ''ephemeral'') (jl_object L)"

text \<open>The cast to \<^verbatim>\<open>uint32_t\<close>.\<close>

definition estimate_tokens_len :: "nat \<Rightarrow> nat" where
  "estimate_tokens_len n = (n + 3) div 4 mod 2 ^ 32"

definition mark :: "'j json_lib \<Rightarrow> 'j \<Rightarrow> 'j" where
  "mark L j = jl_set L j ''cache_control'' (create_ephemeral_cache_control L)"

definition text_block :: "'j json_lib \<Rightarrow> string \<Rightarrow> 'j list" where
  "text_block L s =
     (case jl_object L of None \<Rightarrow> [] | Some b \<Rightarrow> [mark L (set_string L (set_string L b ''type'' ''text'') ''text'' s)])"

text \<open>The last element with a mark, if it is an object.\<close>

definition mark_last :: "'j json_lib \<Rightarrow> 'j list \<Rightarrow> 'j list option" where
  "mark_last L xs = (if xs \<noteq> [] \<and> jo_is_object L (last xs) then Some (butlast xs @ [mark L (last xs)]) else None)"

text \<open>The member \<open>k\<close> of an object, a text that is long enough or a list of blocks, with a mark.\<close>

definition mark_member :: "'j json_lib \<Rightarrow> nat \<Rightarrow> string \<Rightarrow> 'j \<Rightarrow> 'j option" where
  "mark_member L min_tokens k obj =
     (case jo_string L (jo_get L (Some obj) k) of
        Some s \<Rightarrow> if estimate_tokens_len (length s) \<ge> min_tokens then Some (jl_set L obj k (Some (jl_array L (text_block L s)))) else None
      | None \<Rightarrow>
          (case jo_array L (jo_get L (Some obj) k) of
             Some xs \<Rightarrow> map_option (\<lambda>ys. jl_set L obj k (Some (jl_array L ys))) (mark_last L xs)
           | None \<Rightarrow> None))"

definition mark_tools :: "'j json_lib \<Rightarrow> nat \<Rightarrow> 'j \<Rightarrow> 'j \<times> nat" where
  "mark_tools L min_tokens doc =
     (case (jo_get L (Some doc) ''tools'', jo_array L (jo_get L (Some doc) ''tools'')) of
        (Some tools, Some ts) \<Rightarrow>
          (case (jl_dumps L tools, mark_last L ts) of
             (Some d, Some ts') \<Rightarrow>
               (if estimate_tokens_len (length d) \<ge> min_tokens then (jl_set L doc ''tools'' (Some (jl_array L ts')), 1) else (doc, 0))
           | _ \<Rightarrow> (doc, 0))
      | _ \<Rightarrow> (doc, 0))"

definition mark_system :: "'j json_lib \<Rightarrow> nat \<Rightarrow> 'j \<times> nat \<Rightarrow> 'j \<times> nat" where
  "mark_system L min_tokens = (\<lambda>(doc, n).
     if n < ANTHROPIC_MAX_BREAKPOINTS
     then (case mark_member L min_tokens ''system'' doc of Some doc' \<Rightarrow> (doc', Suc n) | None \<Rightarrow> (doc, n))
     else (doc, n))"

text \<open>The first message of the role in the order \<open>ix\<close> that can be marked.\<close>

definition mark_message :: "'j json_lib \<Rightarrow> nat \<Rightarrow> string \<Rightarrow> nat list \<Rightarrow> 'j list \<times> nat \<Rightarrow> 'j list \<times> nat" where
  "mark_message L min_tokens role ix = (\<lambda>(msgs, n).
     if n < ANTHROPIC_MAX_BREAKPOINTS
     then (case find (\<lambda>i. msg_role L (msgs ! i) = Some role \<and> mark_member L min_tokens ''content'' (msgs ! i) \<noteq> None) ix of
             Some i \<Rightarrow> (msgs[i := the (mark_member L min_tokens ''content'' (msgs ! i))], Suc n)
           | None \<Rightarrow> (msgs, n))
     else (msgs, n))"

definition mark_messages :: "'j json_lib \<Rightarrow> nat \<Rightarrow> 'j list \<Rightarrow> nat \<Rightarrow> 'j list \<times> nat" where
  "mark_messages L min_tokens msgs n =
     (let r = mark_message L min_tokens ''system'' [0..<length msgs] (msgs, n)
      in if length msgs \<ge> 3 then mark_message L min_tokens ''assistant'' (rev [1..<length msgs - 1]) r else r)"

definition cache_optimizer_inject_anthropic_breakpoints :: "'j json_lib \<Rightarrow> 'j \<Rightarrow> nat \<Rightarrow> 'j \<times> nat" where
  "cache_optimizer_inject_anthropic_breakpoints L doc min_tokens =
     (if \<not> jo_is_object L doc then (doc, 0)
      else case mark_system L min_tokens (mark_tools L min_tokens doc) of
        (doc1, n1) \<Rightarrow>
          (case jo_array L (jo_get L (Some doc1) ''messages'') of
             None \<Rightarrow> (doc1, n1)
           | Some msgs \<Rightarrow>
               (case mark_messages L min_tokens msgs n1 of (msgs', n2) \<Rightarrow> (jl_set L doc1 ''messages'' (Some (jl_array L msgs')), n2))))"

section \<open>Rules\<close>

record cache_optimizer_rule =
  ou_id :: string
  ou_model_pattern :: string
  ou_enabled :: bool
  ou_sort_tools :: bool
  ou_sink_dynamic_system :: bool
  ou_inject_anthropic_breakpoints :: bool
  ou_min_tokens_threshold :: nat
  ou_created_at :: int
  ou_updated_at :: int

definition cache_optimizer_rule_matches :: "cache_optimizer_rule \<Rightarrow> string \<Rightarrow> bool" where
  "cache_optimizer_rule_matches rule model \<longleftrightarrow>
     (let pat = ou_model_pattern rule
      in ou_enabled rule \<and>
         (if pat = ''*'' then True
          else if pat \<noteq> [] \<and> last pat = CHR ''*'' then take (length pat - 1) model = butlast pat
          else pat = model))"

section \<open>The pass over a request\<close>

record cache_optimizer_result =
  or_optimized :: bool
  or_tools_sorted :: bool
  or_dynamic_sunk :: bool
  or_breakpoints_injected :: nat
  or_payload :: "string option"
  or_latency_us :: nat

text \<open>A text member with its dynamic header behind it.\<close>

definition sink_member :: "'j json_lib \<Rightarrow> (nat \<Rightarrow> bool) \<Rightarrow> string \<Rightarrow> 'j \<Rightarrow> 'j option" where
  "sink_member L ok k obj =
     (case jo_string L (jo_get L (Some obj) k) of
        None \<Rightarrow> None
      | Some s \<Rightarrow>
          (if s = [] \<or> \<not> ok (length s + 512) then None
           else map_option (set_string L obj k) (cache_optimizer_sink_dynamic_system s (length s + 512))))"

definition sink_messages :: "'j json_lib \<Rightarrow> (nat \<Rightarrow> bool) \<Rightarrow> 'j \<Rightarrow> 'j option" where
  "sink_messages L ok doc =
     (case jo_array L (jo_get L (Some doc) ''messages'') of
        None \<Rightarrow> None
      | Some msgs \<Rightarrow>
          (case find_idx (\<lambda>m. msg_role L m = Some ''system'') msgs of
             None \<Rightarrow> None
           | Some i \<Rightarrow> map_option (\<lambda>m. jl_set L doc ''messages'' (Some (jl_array L (msgs[i := m])))) (sink_member L ok ''content'' (msgs ! i))))"

definition or_else :: "'a option \<Rightarrow> 'a \<Rightarrow> 'a" where
  "or_else r d = (case r of Some x \<Rightarrow> x | None \<Rightarrow> d)"

definition sink_document :: "'j json_lib \<Rightarrow> (nat \<Rightarrow> bool) \<Rightarrow> 'j \<Rightarrow> 'j \<times> bool" where
  "sink_document L ok doc =
     (let m = sink_messages L ok doc; doc1 = or_else m doc; t = sink_member L ok ''system'' doc1
      in (or_else t doc1, m \<noteq> None \<or> t \<noteq> None))"

definition no_optimization :: cache_optimizer_result where
  "no_optimization = \<lparr>or_optimized = False, or_tools_sorted = False, or_dynamic_sunk = False, or_breakpoints_injected = 0, or_payload = None,
     or_latency_us = 0\<rparr>"

text \<open>The document after the three passes, and what they did.\<close>

definition optimize_document ::
  "'j json_lib \<Rightarrow> (nat \<Rightarrow> bool) \<Rightarrow> 'j tool_sort \<Rightarrow> cache_optimizer_rule \<Rightarrow> 'j \<Rightarrow> 'j \<times> bool \<times> bool \<times> nat" where
  "optimize_document L ok qsort rule doc =
     (let (d1, sorted_tools) = (if ou_sort_tools rule then cache_optimizer_sort_tools L (ok 0) qsort doc else (doc, False));
          (d2, sunk) = (if ou_sink_dynamic_system rule then sink_document L ok d1 else (d1, False));
          (d3, n) = (if ou_inject_anthropic_breakpoints rule
                     then cache_optimizer_inject_anthropic_breakpoints L d2 (ou_min_tokens_threshold rule) else (d2, 0))
      in (d3, sorted_tools, sunk, n))"

definition cache_optimizer_process_payload ::
  "'j json_lib \<Rightarrow> (nat \<Rightarrow> bool) \<Rightarrow> 'j tool_sort \<Rightarrow> nat \<Rightarrow> string \<Rightarrow> cache_optimizer_rule \<Rightarrow> bool \<times> cache_optimizer_result" where
  "cache_optimizer_process_payload L ok qsort us payload rule =
     (if payload = [] then (False, no_optimization)
      else case jo_loadb L payload of
        None \<Rightarrow> (False, no_optimization)
      | Some doc \<Rightarrow>
          (if \<not> jo_is_object L doc then (False, no_optimization)
           else case optimize_document L ok qsort rule doc of
             (doc', sorted_tools, sunk, n) \<Rightarrow>
               (let dumped = (if sorted_tools \<or> sunk \<or> n > 0 then jl_dumps L doc' else None)
                in (True, \<lparr>or_optimized = (dumped \<noteq> None), or_tools_sorted = sorted_tools, or_dynamic_sunk = sunk, or_breakpoints_injected = n,
                      or_payload = dumped, or_latency_us = us\<rparr>))))"

text \<open>The choice of the rule and the body that goes on; \<open>hdr\<close> is the header that controls the optimiser.\<close>

definition forced_rule :: cache_optimizer_rule where
  "forced_rule =
     \<lparr>ou_id = [], ou_model_pattern = [], ou_enabled = True, ou_sort_tools = True, ou_sink_dynamic_system = True,
      ou_inject_anthropic_breakpoints = True, ou_min_tokens_threshold = 1024, ou_created_at = 0, ou_updated_at = 0\<rparr>"

definition optimizer_rule :: "cache_optimizer_rule list \<Rightarrow> string option \<Rightarrow> string \<Rightarrow> cache_optimizer_rule option" where
  "optimizer_rule rules hdr model =
     (if hdr \<in> {Some ''off'', Some ''false'', Some ''no''} then None
      else case find (\<lambda>r. ou_enabled r \<and> cache_optimizer_rule_matches r model) rules of
        Some r \<Rightarrow> Some r
      | None \<Rightarrow> if hdr \<in> {Some ''on'', Some ''true'', Some ''auto'', Some ''force''} then Some forced_rule else None)"

definition optimize_request ::
  "'j json_lib \<Rightarrow> (nat \<Rightarrow> bool) \<Rightarrow> 'j tool_sort \<Rightarrow> nat \<Rightarrow> cache_optimizer_rule list \<Rightarrow> string option \<Rightarrow> string \<Rightarrow> string \<Rightarrow> string" where
  "optimize_request L ok qsort us rules hdr model body =
     (case optimizer_rule rules hdr model of
        None \<Rightarrow> body
      | Some rule \<Rightarrow>
          (case cache_optimizer_process_payload L ok qsort us body rule of
             (okay, res) \<Rightarrow> (case or_payload res of Some s \<Rightarrow> if okay \<and> or_optimized res then s else body | None \<Rightarrow> body)))"

section \<open>Snapshots\<close>

definition CACHE_OPTIMIZER_MAX_SNAPSHOTS :: nat where "CACHE_OPTIMIZER_MAX_SNAPSHOTS = 200"

record cache_optimizer_snapshot =
  os_req_id :: string
  os_model :: string
  os_timestamp :: int
  os_upstream_cache_hit :: bool
  os_prompt_tokens :: nat
  os_cached_tokens :: nat
  os_cost_savings_usd :: real
  os_latency_us :: nat
  os_breakpoints_count :: nat
  os_dynamic_sunk :: bool
  os_tools_sorted :: bool

record cache_optimizer_stats =
  ot_total_optimized_requests :: nat
  ot_upstream_cache_hit_requests :: nat
  ot_total_prompt_tokens :: nat
  ot_total_cached_tokens :: nat
  ot_total_savings_usd :: real
  ot_avg_latency_us :: nat

record cache_optimizer_cache =
  oc_items :: "cache_optimizer_snapshot list"
  oc_head :: nat
  oc_count :: nat
  oc_stats :: cache_optimizer_stats

definition no_snapshot :: cache_optimizer_snapshot where
  "no_snapshot = \<lparr>os_req_id = [], os_model = [], os_timestamp = 0, os_upstream_cache_hit = False, os_prompt_tokens = 0, os_cached_tokens = 0,
     os_cost_savings_usd = 0, os_latency_us = 0, os_breakpoints_count = 0, os_dynamic_sunk = False, os_tools_sorted = False\<rparr>"

definition cache_optimizer_cache_create :: "bool \<Rightarrow> nat \<Rightarrow> cache_optimizer_cache option" where
  "cache_optimizer_cache_create alloc_ok capacity =
     (if alloc_ok
      then Some \<lparr>oc_items = replicate (if capacity = 0 then CACHE_OPTIMIZER_MAX_SNAPSHOTS else capacity) no_snapshot, oc_head = 0, oc_count = 0,
             oc_stats = \<lparr>ot_total_optimized_requests = 0, ot_upstream_cache_hit_requests = 0, ot_total_prompt_tokens = 0,
               ot_total_cached_tokens = 0, ot_total_savings_usd = 0, ot_avg_latency_us = 0\<rparr>\<rparr>
      else None)"

definition add_optimizer_stats :: "cache_optimizer_snapshot \<Rightarrow> cache_optimizer_stats \<Rightarrow> cache_optimizer_stats" where
  "add_optimizer_stats sn st =
     (let n = Suc (ot_total_optimized_requests st)
      in \<lparr>ot_total_optimized_requests = n,
          ot_upstream_cache_hit_requests = ot_upstream_cache_hit_requests st + (if os_upstream_cache_hit sn then 1 else 0),
          ot_total_prompt_tokens = ot_total_prompt_tokens st + os_prompt_tokens sn,
          ot_total_cached_tokens = ot_total_cached_tokens st + os_cached_tokens sn,
          ot_total_savings_usd = ot_total_savings_usd st + os_cost_savings_usd sn,
          ot_avg_latency_us = (ot_avg_latency_us st * (n - 1) + os_latency_us sn) div n\<rparr>)"

definition cache_optimizer_cache_record :: "cache_optimizer_cache \<Rightarrow> cache_optimizer_snapshot \<Rightarrow> cache_optimizer_cache" where
  "cache_optimizer_cache_record oc sn =
     oc\<lparr>oc_items := (oc_items oc)[oc_head oc := sn], oc_head := (oc_head oc + 1) mod length (oc_items oc),
        oc_count := (if oc_count oc < length (oc_items oc) then oc_count oc + 1 else oc_count oc),
        oc_stats := add_optimizer_stats sn (oc_stats oc)\<rparr>"

definition cache_optimizer_cache_get_stats :: "cache_optimizer_cache \<Rightarrow> cache_optimizer_stats" where
  "cache_optimizer_cache_get_stats oc = oc_stats oc"

definition cache_optimizer_cache_get_snapshots :: "cache_optimizer_cache \<Rightarrow> nat \<Rightarrow> cache_optimizer_snapshot list" where
  "cache_optimizer_cache_get_snapshots oc max_snaps =
     (let cap = length (oc_items oc)
      in map (\<lambda>i. oc_items oc ! ((oc_head oc + cap - 1 - i) mod cap)) [0..<min (oc_count oc) max_snaps])"

interpretation optimizer_log: ring_log cache_optimizer_cache_record oc_items oc_head oc_count
  by unfold_locales (simp_all add: cache_optimizer_cache_record_def)

end
