(* ===== verification/Optimizer_Props.thy ===== *)
theory Optimizer_Props
  imports Cache_Optimizer Prompt_Props
begin

text \<open>
  What the optimiser does to a request: a canonical order of the tools, nothing lost of a dynamic header, marks that change no text.
\<close>

section \<open>Tools\<close>

lemma tools_array:
  assumes "json_total L" "jo_is_object L d" "tools_member L d = Some (k, ts)"
  shows "\<exists>ts'. jo_array L (jo_get L (Some (fst (cache_optimizer_sort_tools L True q d))) k) = Some ts' \<and>
    (sort_law q \<longrightarrow> mset ts' = mset ts \<and> sorted (map (tool_name L) ts'))"
proof (cases "length ts \<le> 1 \<or> sorted (map (tool_name L) ts)")
  case True
  then have "sorted (map (tool_name L) ts)" by (cases ts) auto
  moreover have "jo_array L (jo_get L (Some d) k) = Some ts" using assms(3) by (auto simp: tools_member_def split: option.splits)
  moreover have "cache_optimizer_sort_tools L True q d = (d, False)"
    using assms(2,3) True by (auto simp: cache_optimizer_sort_tools_def Let_def o_def)
  ultimately show ?thesis by auto
next
  case False
  let ?es = "map (\<lambda>t. (tool_name L t, t)) ts"
  have laws: "json_laws L" using assms(1) by (simp add: json_total_def)
  have "cache_optimizer_sort_tools L True q d = (jl_set L d k (Some (jl_array L (map snd (q ?es)))), True)"
    using assms(2,3) False by (auto simp: cache_optimizer_sort_tools_def Let_def o_def)
  then have arr: "jo_array L (jo_get L (Some (fst (cache_optimizer_sort_tools L True q d))) k) = Some (map snd (q ?es))"
    using json_laws_set [OF laws assms(2)] json_laws_array [OF laws] by simp
  have "mset (map snd (q ?es)) = mset ts \<and> sorted (map (tool_name L) (map snd (q ?es)))" if "sort_law q"
  proof
    from that have m: "mset (q ?es) = mset ?es" and s: "sorted (map fst (q ?es))" by (simp_all add: sort_law_def)
    have "mset (map snd (q ?es)) = image_mset snd (mset ?es)" by (simp add: m)
    also have "\<dots> = mset ts" by (simp add: multiset.map_comp o_def flip: mset_map)
    finally show "mset (map snd (q ?es)) = mset ts" .
    have "set (q ?es) = set ?es" using m by (metis set_mset_mset)
    then have "map (tool_name L) (map snd (q ?es)) = map fst (q ?es)" by (auto simp: map_eq_conv)
    with s show "sorted (map (tool_name L) (map snd (q ?es)))" by (simp only:)
  qed
  with arr show ?thesis by blast
qed

text \<open>C24. The order of the tools is canonical: two requests with the same tools, told apart by their names, have after the pass the
  same list of tools, in whatever order the clients sent them and whatever the sort does with equal names, so that the cache of
  the provider sees the same prefix.\<close>

theorem optimizer_tools_canonical:
  assumes "json_total L" "sort_law q" "jo_is_object L d1" "jo_is_object L d2"
    and "tools_member L d1 = Some (k, ts1)" "tools_member L d2 = Some (k, ts2)"
    and "mset ts1 = mset ts2" "inj_on (tool_name L) (set ts1)"
  shows "\<exists>ts. jo_array L (jo_get L (Some (fst (cache_optimizer_sort_tools L True q d1))) k) = Some ts \<and>
    jo_array L (jo_get L (Some (fst (cache_optimizer_sort_tools L True q d2))) k) = Some ts \<and>
    mset ts = mset ts1 \<and> sorted (map (tool_name L) ts)"
proof -
  from tools_array [OF assms(1,3,5), of q] assms(2) obtain a where
    a: "jo_array L (jo_get L (Some (fst (cache_optimizer_sort_tools L True q d1))) k) = Some a" "mset a = mset ts1" "sorted (map (tool_name L) a)" by blast
  from tools_array [OF assms(1,4,6), of q] assms(2) obtain b where
    b: "jo_array L (jo_get L (Some (fst (cache_optimizer_sort_tools L True q d2))) k) = Some b" "mset b = mset ts2" "sorted (map (tool_name L) b)" by blast
  have "sort_key (tool_name L) ts1 = a" "sort_key (tool_name L) ts1 = b"
    using sort_key_inj_key_eq [OF a(2) [symmetric] assms(8) a(3)] b assms(7,8) sort_key_inj_key_eq [of ts1 b] by auto
  with a b show ?thesis by simp
qed

lemma optimizer_tools_canonical_witness:
  "jo_array jval_lib (jo_get jval_lib (Some (fst (cache_optimizer_sort_tools jval_lib True (sort_key fst)
     (JObj [(''tools'', JArr [JObj [(''name'', JStr ''b'')], JObj [(''name'', JStr ''a'')]])])))) ''tools'') =
   jo_array jval_lib (jo_get jval_lib (Some (fst (cache_optimizer_sort_tools jval_lib True (sort_key fst)
     (JObj [(''tools'', JArr [JObj [(''name'', JStr ''a'')], JObj [(''name'', JStr ''b'')]])])))) ''tools'')"
proof -
  let ?a = "JObj [(''name'', JStr ''a'')]" and ?b = "JObj [(''name'', JStr ''b'')]"
  let ?d1 = "JObj [(''tools'', JArr [?b, ?a])]" and ?d2 = "JObj [(''tools'', JArr [?a, ?b])]"
  have law: "sort_law (sort_key fst :: jval tool_sort)" by (simp add: sort_law_def)
  have names: "tool_name jval_lib ?a = ''a''" "tool_name jval_lib ?b = ''b''" by code_simp+
  then have inj: "inj_on (tool_name jval_lib) (set [?b, ?a])" by (simp add: inj_on_def)
  have o: "jo_is_object jval_lib ?d1" "jo_is_object jval_lib ?d2" by (simp_all add: jval_lib_def)
  have m: "tools_member jval_lib ?d1 = Some (''tools'', [?b, ?a])" "tools_member jval_lib ?d2 = Some (''tools'', [?a, ?b])"
    by (simp_all add: tools_member_def jval_lib_def)
  from optimizer_tools_canonical [OF jval_lib_total law o m _ inj] show ?thesis by auto
qed

section \<open>Dynamic headers\<close>

lemma dynamic_end_append: "dynamic_end s = (a, b) \<Longrightarrow> s = a @ b"
  by (induction s arbitrary: a b) (auto split: if_splits prod.splits)

lemma trim_end_prefix: "\<exists>dots. s = trim_end s @ dots \<and> (\<forall>c \<in> set dots. c = CHR ''.'' \<or> is_space c)"
proof -
  let ?P = "\<lambda>c. c = CHR ''.'' \<or> is_space c"
  have "s = rev (takeWhile ?P (rev s) @ dropWhile ?P (rev s))" by simp
  then have "s = trim_end s @ rev (takeWhile ?P (rev s))" unfolding rev_append trim_end_def .
  moreover have "\<forall>c \<in> set (rev (takeWhile ?P (rev s))). ?P c" by (auto dest: set_takeWhileD)
  ultimately show ?thesis by blast
qed

text \<open>Moving a dynamic header loses nothing: the prompt is white space, the header, dots and white space, and the rest; the new
  prompt is the rest with the header in brackets behind it. The buffer that the caller allots is always large enough for it.\<close>

theorem optimizer_sink_keeps_text:
  "(case cache_optimizer_sink_dynamic_system s (length s + 512) of
     None \<Rightarrow> True
   | Some out \<Rightarrow> \<exists>ws dyn dots static. s = ws @ dyn @ dots @ static \<and> out = runtime_context static dyn \<and> dyn \<noteq> [] \<and> static \<noteq> [] \<and>
       (\<forall>c \<in> set (ws @ dots). c = CHR ''.'' \<or> is_space c)) \<and>
   (s \<noteq> [] \<and> is_dynamic_header_prefix (dropWhile is_space s) \<and> trim_end (fst (dynamic_end (dropWhile is_space s))) \<noteq> [] \<and>
     dropWhile is_space (snd (dynamic_end (dropWhile is_space s))) \<noteq> [] \<longleftrightarrow>
    cache_optimizer_sink_dynamic_system s (length s + 512) \<noteq> None)"
proof -
  let ?body = "dropWhile is_space s"
  obtain h rest where e: "dynamic_end ?body = (h, rest)" by fastforce
  let ?static = "dropWhile is_space rest"
  obtain dots where d: "h = trim_end h @ dots" "\<forall>c \<in> set dots. c = CHR ''.'' \<or> is_space c" using trim_end_prefix by blast
  have "s = takeWhile is_space s @ ?body" by simp
  also have "?body = h @ takeWhile is_space rest @ ?static" using dynamic_end_append [OF e] by simp
  finally have s: "s = takeWhile is_space s @ trim_end h @ (dots @ takeWhile is_space rest) @ ?static" using d(1) by (metis append.assoc)
  have len: "length (runtime_context ?static (trim_end h)) < length s + 512"
    using arg_cong [OF s, of length] length_dropWhile_le [of is_space rest] by (simp add: runtime_context_def)
  have eq: "cache_optimizer_sink_dynamic_system s (length s + 512) =
    (if s \<noteq> [] \<and> is_dynamic_header_prefix ?body \<and> trim_end h \<noteq> [] \<and> ?static \<noteq> [] then Some (runtime_context ?static (trim_end h)) else None)"
    using len by (simp add: cache_optimizer_sink_dynamic_system_def Let_def e)
  have "\<forall>c \<in> set (takeWhile is_space s @ dots @ takeWhile is_space rest). c = CHR ''.'' \<or> is_space c"
    using d(2) by (auto dest: set_takeWhileD)
  with s have "?static \<noteq> [] \<Longrightarrow> trim_end h \<noteq> [] \<Longrightarrow>
    \<exists>ws dyn dots static. s = ws @ dyn @ dots @ static \<and> runtime_context ?static (trim_end h) = runtime_context static dyn \<and> dyn \<noteq> [] \<and> static \<noteq> [] \<and>
       (\<forall>c \<in> set (ws @ dots). c = CHR ''.'' \<or> is_space c)"
    by (intro exI [of _ "takeWhile is_space s"] exI [of _ "trim_end h"] exI [of _ "dots @ takeWhile is_space rest"] exI [of _ ?static]) simp
  then show ?thesis unfolding eq e fst_conv snd_conv by auto
qed

section \<open>Marks\<close>

















section \<open>Snapshots\<close>

text \<open>C37. Both caches of snapshots show the newest entries first, as many as were asked for and as the cache holds, whatever was recorded: the
  latest of all the entries so far, each of them once.\<close>

theorem snapshots_show_latest:
  assumes "compressor_cache_create True n = Some cc" "cache_optimizer_cache_create True n = Some oc"
  shows "compressor_cache_get_snapshots (foldl compressor_cache_record cc cs) k = take k (rev (last_n (if n = 0 then 200 else n) cs)) \<and>
    cache_optimizer_cache_get_snapshots (foldl cache_optimizer_cache_record oc os) k = take k (rev (last_n (if n = 0 then 200 else n) os))"
proof
  let ?n = "if n = 0 then 200 else n"
  have n: "0 < ?n" by simp
  from assms(1) have cc: "cc = the (compressor_cache_create True n)" by simp
  have c: "cc_items cc = replicate ?n empty_snapshot" "cc_head cc = 0" "cc_count cc = 0"
    unfolding cc by (simp_all add: compressor_cache_create_def)
  have "compressor_cache_get_snapshots x k = ring_latest (cc_items x) (cc_head x) (cc_count x) k" for x
    by (simp only: compressor_cache_get_snapshots_def ring_latest_def Let_def)
  with compressor_log.latest_of_run [OF c(1) n c(2,3), of cs k]
  show "compressor_cache_get_snapshots (foldl compressor_cache_record cc cs) k = take k (rev (last_n ?n cs))" by (simp only:)
  from assms(2) have oc: "oc = the (cache_optimizer_cache_create True n)" by simp
  have o: "oc_items oc = replicate ?n no_snapshot" "oc_head oc = 0" "oc_count oc = 0"
    unfolding oc by (simp_all add: cache_optimizer_cache_create_def CACHE_OPTIMIZER_MAX_SNAPSHOTS_def)
  have "cache_optimizer_cache_get_snapshots x k = ring_latest (oc_items x) (oc_head x) (oc_count x) k" for x
    by (simp only: cache_optimizer_cache_get_snapshots_def ring_latest_def Let_def)
  with optimizer_log.latest_of_run [OF o(1) n o(2,3), of os k]
  show "cache_optimizer_cache_get_snapshots (foldl cache_optimizer_cache_record oc os) k = take k (rev (last_n ?n os))" by (simp only:)
qed

lemma snapshots_show_latest_witness:
  "\<exists>cc. compressor_cache_create True 2 = Some cc \<and>
     map sn_timestamp (compressor_cache_get_snapshots (foldl compressor_cache_record cc (map (\<lambda>t. empty_snapshot\<lparr>sn_timestamp := t\<rparr>) [1, 2, 3])) 9) = [3, 2]"
proof -
  obtain cc oc where c: "compressor_cache_create True 2 = Some cc" "cache_optimizer_cache_create True 2 = Some oc"
    by (simp add: compressor_cache_create_def cache_optimizer_cache_create_def)
  show ?thesis
    using snapshots_show_latest [OF c, of "map (\<lambda>t. empty_snapshot\<lparr>sn_timestamp := t\<rparr>) [1, 2, 3]" 9 "[]"] c(1) by (simp add: last_n_def)
qed

end
