(* ===== verification/Chat_Target.thy ===== *)
theory Chat_Target
  imports Gate Filter_Chain Shadow Model_Router Response_Cache Cache_Optimizer
begin

text \<open>
  The start of a chat request in \<^verbatim>\<open>src/core/aigate_core.c\<close> behind the admission: the model of the body, canary and
  service-level routing, the mirroring to a shadow model, the route and its candidates (\<^verbatim>\<open>resolve_chat_target\<close>), and what a
  request costs. The components are the modelled ones; what is outside of them is in \<open>chat_env\<close>, so that a
  request is a function. Headers, spans and metrics are left out.
\<close>

section \<open>The state\<close>

text \<open>The latency tracker is always there. \<open>ch_opt\<close> and \<open>ch_comp\<close> are the caches of snapshots.\<close>

record 'h chat_core =
  ch_gw :: "'h gateway"
  ch_cb :: "circuit_breaker option"
  ch_lt :: latency_tracker
  ch_globals :: router_globals
  ch_router :: model_router
  ch_cache :: "response_cache option"
  ch_shadow :: "shadow_engine option"
  ch_rules :: "shadow_rule list"
  ch_opt :: "cache_optimizer_cache option"
  ch_comp :: "compressor_cache option"

text \<open>The request. \<open>cq_fq\<close> is the part that the filters use.\<close>

record 'j chat_req =
  cq_fq :: "'j filter_req"
  cq_krec :: key_rec
  cq_client_ip :: "string option"
  cq_trace_id :: string
  cq_target_provider :: "string option"
  cq_cache_control :: "string option"
  cq_compress_control :: "string option"
  cq_prompt_cache_control :: "string option"
  cq_route :: "model_rec option"
  cq_candidates :: "upstream_target list"
  cq_cache_key :: string
  cq_bypass_cache :: bool
  cq_no_store :: bool
  cq_requested_model :: string
  cq_is_canary :: bool
  cq_routed_model :: string
  cq_fallback_reason :: string
  cq_has_shadow :: bool
  cq_eval_id :: string
  cq_opt_result :: cache_optimizer_result
  cq_degraded :: bool

text \<open>What \<^verbatim>\<open>resolve_chat_target\<close> gets from outside: environment, secrets and store of the router, the rolls of the rules, clocks and
  allocations.\<close>

record target_env =
  te_getenv :: "string \<Rightarrow> string option"
  te_decrypt :: "string \<Rightarrow> string option"
  te_store :: "string \<Rightarrow> model_rec option"
  te_canary_ok :: "nat \<Rightarrow> bool \<times> bool"
  te_canary_roll :: "nat \<Rightarrow> real"
  te_canary_clock :: "nat \<Rightarrow> nat \<Rightarrow> int"
  te_sla_now :: "int \<times> int"
  te_shadow_roll :: "nat \<Rightarrow> real"
  te_eval_rand :: "nat \<Rightarrow> nat"
  te_mono_us :: "64 word"
  te_body_ok :: bool
  te_route_ok :: "bool \<times> bool"
  te_redis :: cb_redis
  te_clock :: "nat \<Rightarrow> int"
  te_entry_ok :: "nat \<Rightarrow> bool"
  te_junk :: "nat \<Rightarrow> int"

definition PIPE_FORBIDDEN :: int where "PIPE_FORBIDDEN = 403"
definition PIPE_MODEL :: int where "PIPE_MODEL = 404"
definition PIPE_UPSTREAM :: int where "PIPE_UPSTREAM = 502"
definition PIPE_UNSUPPORTED :: int where "PIPE_UNSUPPORTED = 501"

definition write_error :: "int \<Rightarrow> string \<Rightarrow> string \<Rightarrow> 'j chat_req \<Rightarrow> 'j chat_req" where
  "write_error status code msg q = q\<lparr>cq_fq := fq_emit [Fx_Error status code msg] (cq_fq q)\<rparr>"

definition write_json :: "int \<Rightarrow> string \<Rightarrow> 'j chat_req \<Rightarrow> 'j chat_req" where
  "write_json status body q = q\<lparr>cq_fq := fq_emit [Fx_Json status body] (cq_fq q)\<rparr>"

definition set_model :: "string \<Rightarrow> 'j chat_req \<Rightarrow> 'j chat_req" where
  "set_model m q = q\<lparr>cq_fq := (cq_fq q)\<lparr>fq_model := m, fq_model_borrowed := False\<rparr>\<rparr>"

section \<open>Costs\<close>

text \<open>The prices per million tokens: input, output, the discount of cached tokens and the price of reasoning, if they are given.\<close>

definition first_member :: "'j json_lib \<Rightarrow> 'j \<Rightarrow> string \<Rightarrow> string \<Rightarrow> 'j option" where
  "first_member L jp a b = (case jo_get L (Some jp) a of Some v \<Rightarrow> Some v | None \<Rightarrow> jo_get L (Some jp) b)"

definition pricing_of :: "'j json_lib \<Rightarrow> model_rec \<Rightarrow> 'j option" where
  "pricing_of L route =
     (if md_pricing_json route = [] then None
      else case jo_loadb L (md_pricing_json route) of
        None \<Rightarrow> None
      | Some jp \<Rightarrow> if jo_is_object L jp then Some jp else None)"

definition or_number :: "'j json_lib \<Rightarrow> 'j \<Rightarrow> string \<Rightarrow> real \<Rightarrow> real" where
  "or_number L jp k d = (case jo_number L (jo_get L (Some jp) k) of Some x \<Rightarrow> x | None \<Rightarrow> d)"

definition calc_req_cost_ext :: "'j json_lib \<Rightarrow> model_rec \<Rightarrow> int \<Rightarrow> int \<Rightarrow> int \<Rightarrow> int \<Rightarrow> real" where
  "calc_req_cost_ext L route prompt completion cached reasoning =
     (case pricing_of L route of
        None \<Rightarrow> 0
      | Some jp \<Rightarrow>
          (case (jo_number L (first_member L jp ''in_mtok'' ''input_mtok''), jo_number L (first_member L jp ''out_mtok'' ''output_mtok'')) of
             (Some in_mtok, Some out_mtok) \<Rightarrow>
               (let cached_discount = or_number L jp ''cached_mtok_discount'' 1;
                    reasoning_mtok = or_number L jp ''reasoning_mtok'' out_mtok;
                    unhit_prompt = (if prompt \<ge> cached then prompt - cached else 0);
                    normal_completion = (if completion \<ge> reasoning then completion - reasoning else 0);
                    billed_reasoning = (if completion \<ge> reasoning then reasoning else completion)
                in (of_int unhit_prompt * in_mtok + of_int cached * in_mtok * cached_discount + of_int normal_completion * out_mtok +
                    of_int billed_reasoning * reasoning_mtok) / 1000000)
           | _ \<Rightarrow> 0))"

definition calc_req_cost :: "'j json_lib \<Rightarrow> model_rec \<Rightarrow> int \<Rightarrow> int \<Rightarrow> int \<Rightarrow> real" where
  "calc_req_cost L route prompt completion cached = calc_req_cost_ext L route prompt completion cached 0"

definition calc_cache_savings :: "'j json_lib \<Rightarrow> model_rec \<Rightarrow> int \<Rightarrow> real" where
  "calc_cache_savings L route cached =
     (if cached \<le> 0 then 0
      else case pricing_of L route of
        None \<Rightarrow> 0
      | Some jp \<Rightarrow>
          (case jo_number L (jo_get L (Some jp) ''in_mtok'') of
             None \<Rightarrow> 0
           | Some in_mtok \<Rightarrow>
               (let d = or_number L jp ''cached_mtok_discount'' (1 / 2); d1 = (if d > 1 then 1 else d); d2 = (if d1 < 0 then 0 else d1)
                in (of_int cached * in_mtok * (1 - d2)) / 1000000)))"

section \<open>The target\<close>

definition extract_prompt_snippet :: "'j json_lib \<Rightarrow> 'j option \<Rightarrow> nat \<Rightarrow> string" where
  "extract_prompt_snippet L jbody out_sz =
     (case jbody of
        None \<Rightarrow> []
      | Some d \<Rightarrow>
          (if \<not> jo_is_object L d then []
           else case first_some (\<lambda>m. if jo_is_object L m then jo_string L (jo_get L (Some m) ''content'') else None)
                       (rev (case jo_array L (jo_get L (Some d) ''messages'') of Some ms \<Rightarrow> ms | None \<Rightarrow> [])) of
             Some s \<Rightarrow> cstr_copy out_sz s
           | None \<Rightarrow> cstr_copy out_sz (cstr_or_empty (jo_string L (jo_get L (Some d) ''prompt'')))))"

text \<open>The rule that mirrors the request.\<close>

definition shadow_rule_for :: "(nat \<Rightarrow> real) \<Rightarrow> shadow_rule list \<Rightarrow> string \<Rightarrow> shadow_rule option" where
  "shadow_rule_for roll rules model =
     map_option ((!) rules)
       (find (\<lambda>i. sr_mode (rules ! i) = TRAFFIC_MODE_SHADOW \<and> sr_enabled (rules ! i) \<and> shadow_rule_matches (rules ! i) (Some model) None \<and>
                  shadow_rule_should_sample (rules ! i) (roll i)) [0..<length rules])"

text \<open>The pairing and the task; the body of the task is the one that came in.\<close>

definition submit_shadow :: "'j json_lib \<Rightarrow> target_env \<Rightarrow> shadow_rule \<Rightarrow> 'j chat_req \<Rightarrow> shadow_engine \<Rightarrow> 'j chat_req \<times> shadow_engine" where
  "submit_shadow L te r q eng =
     (let eid = cstr_or_empty (shadow_generate_eval_id (te_eval_rand te) 33);
          prev = extract_prompt_snippet L (fq_jbody (cq_fq q)) 256;
          eng1 = fst (shadow_engine_start_pairing eng (Some eid) (Some (cq_trace_id q)) (Some (sr_source_model r)) (Some (sr_target_model r))
            TRAFFIC_MODE_SHADOW (Some prev) (te_mono_us te));
          raw = fq_raw (cq_fq q);
          task = \<lparr>tk_eval_id = cstr_copy 33 eid, tk_trace_id = cstr_copy 33 (cq_trace_id q), tk_rule = r,
            tk_body_copy = (if raw \<noteq> [] \<and> te_body_ok te then Some raw else None), tk_prompt_preview = cstr_copy 256 prev,
            tk_timestamp_us = te_mono_us te\<rparr>
      in (q\<lparr>cq_has_shadow := True, cq_eval_id := eid\<rparr>, fst (shadow_engine_submit_task eng1 (Some task))))"

definition mirror_request :: "'j json_lib \<Rightarrow> target_env \<Rightarrow> 'j chat_req \<Rightarrow> 'h chat_core \<Rightarrow> 'h chat_core \<times> 'j chat_req" where
  "mirror_request L te q c =
     (case (ch_shadow c, if cq_is_canary q then None else shadow_rule_for (te_shadow_roll te) (ch_rules c) (fq_model (cq_fq q))) of
        (Some eng, Some r) \<Rightarrow> (case submit_shadow L te r q eng of (q1, eng1) \<Rightarrow> (c\<lparr>ch_shadow := Some eng1\<rparr>, q1))
      | _ \<Rightarrow> (c, q))"

definition read_model :: "'j json_lib \<Rightarrow> 'j chat_req \<Rightarrow> 'j chat_req" where
  "read_model L q =
     (let raw = fq_raw (cq_fq q); jbody = (if raw = [] then None else jo_loadb L raw)
      in q\<lparr>cq_fq := (cq_fq q)\<lparr>fq_jbody := jbody,
             fq_model := (case jbody of Some d \<Rightarrow> cstr_or_empty (jo_string L (jo_get L (Some d) ''model'')) | None \<Rightarrow> []),
             fq_model_borrowed := True\<rparr>\<rparr>)"

definition route_canary :: "target_env \<Rightarrow> 'j chat_req \<Rightarrow> 'h chat_core \<Rightarrow> ('h chat_core \<times> 'j chat_req) option" where
  "route_canary te q c = do {
     (mr, cb, hit) \<leftarrow> model_router_apply_canary (te_getenv te) (te_decrypt te) (te_store te) (te_canary_ok te) (te_canary_roll te)
       (te_canary_clock te) (ch_router c) (ch_cb c) (ch_rules c) (Some (fq_model (cq_fq q))) None 64;
     let c1 = c\<lparr>ch_router := mr, ch_cb := cb\<rparr>;
     Some (c1, case hit of
       Some (m, True, rid) \<Rightarrow> set_model (cstr_copy 64 m) (q\<lparr>cq_is_canary := True\<rparr>)
     | _ \<Rightarrow> q)
   }"

definition route_sla :: "target_env \<Rightarrow> 'j chat_req \<Rightarrow> 'h chat_core \<Rightarrow> 'h chat_core \<times> 'j chat_req" where
  "route_sla te q c =
     (case model_router_resolve_with_sla (ch_cb c) (fst (te_sla_now te)) (snd (te_sla_now te)) (Some (fq_model (cq_fq q))) 64 32 of
        (cb, rc, res) \<Rightarrow>
          (c\<lparr>ch_cb := cb\<rparr>, case (rc = 0, res) of
             (True, Some (m, True, reason)) \<Rightarrow>
               set_model (cstr_copy 64 m) (q\<lparr>cq_fallback_reason := cstr_copy 32 reason, cq_routed_model := cstr_copy 64 m\<rparr>)
           | _ \<Rightarrow> q))"

definition route_request :: "target_env \<Rightarrow> 'j chat_req \<Rightarrow> 'h chat_core \<Rightarrow> ('h chat_core \<times> 'j chat_req \<times> bool) option" where
  "route_request te q c = do {
     (mr, rc, route) \<leftarrow> model_router_resolve (ch_router c) (te_getenv te) (te_decrypt te) (te_store te) (fst (te_route_ok te))
       (snd (te_route_ok te)) (fq_model (cq_fq q));
     let c1 = c\<lparr>ch_router := mr\<rparr>;
     (case (if rc = 0 then route else None) of
        None \<Rightarrow> Some (c1, write_error PIPE_MODEL ''model_not_found'' ''model not found'' q, False)
      | Some r \<Rightarrow>
          (case model_router_select_candidates_targeted (ch_globals c1) (ch_cb c1) (te_redis te) (te_clock te) (te_entry_ok te) (ch_lt c1)
                  (te_junk te) r (cq_target_provider q) (int MAX_TARGETS_PER_MODEL) of
             (g, cb, cands) \<Rightarrow>
               (let c2 = c1\<lparr>ch_globals := g, ch_cb := cb\<rparr>;
                    q1 = q\<lparr>cq_route := Some r, cq_fq := (cq_fq q)\<lparr>fq_route_prompt := md_system_prompt r, fq_route_mode := md_prompt_mode r\<rparr>\<rparr>
                in case cands of
                     Some (t # ts) \<Rightarrow>
                       Some (c2, q1\<lparr>cq_candidates := t # ts, cq_fq := (cq_fq q1)\<lparr>fq_sanitized := None, fq_eff := fq_raw (cq_fq q1)\<rparr>\<rparr>, True)
                   | _ \<Rightarrow> Some (c2, write_error PIPE_MODEL ''no_healthy_upstream'' ''no upstream targets available for model'' q1, False))))
   }"

text \<open>Whether the request goes on; otherwise it has been answered. \<open>None\<close> is undefined behaviour of the route cache.\<close>

definition resolve_chat_target ::
  "'j json_lib \<Rightarrow> target_env \<Rightarrow> 'j chat_req \<Rightarrow> 'h chat_core \<Rightarrow> ('h chat_core \<times> 'j chat_req \<times> bool) option" where
  "resolve_chat_target L te q0 c = (
     let q = read_model L q0; m = fq_model (cq_fq q)
     in if m = [] \<or> \<not> key_allows_model (Some (cq_krec q)) (Some m)
        then Some (c, write_error PIPE_FORBIDDEN ''auth_error'' ''model not allowed for this key'' q, False)
        else do {
          (c1, q1) \<leftarrow> route_canary te (q\<lparr>cq_requested_model := cstr_copy 64 m\<rparr>) c;
          let (c2, q2) = route_sla te q1 c1;
          let (c3, q3) = mirror_request L te q2 c2;
          route_request te q3 c3
        })"

end
