(* ===== verification/Chat_Pipeline.thy ===== *)
theory Chat_Pipeline
  imports Chat_Target
begin

text \<open>
  The rest of a chat request: \<^verbatim>\<open>src/core/pipeline_chat.c\<close> with the look into the response cache and the replay of a hit, the reasoning quota,
  the loop over the candidates with its failover, and the accounts of an answer; and \<^verbatim>\<open>aigate_handle_request\<close> of
  \<^verbatim>\<open>src/core/aigate_core.c\<close>, which ties the parts together. The provider adapters and the calls to upstreams are arguments; a
  hedged call is its result and what it leaves of the latency tracker. What a call writes to the client is a list of effects.
\<close>

section \<open>What is outside\<close>

text \<open>An adapter is what it has: \<^verbatim>\<open>build_chat\<close> gives the address and the payload for a route and a body.\<close>

record adapter =
  ad_build_chat :: "(model_rec \<Rightarrow> string \<Rightarrow> (string \<times> string) option) option"
  ad_parses :: bool

record up_reply =
  up_urc :: int
  up_status :: int
  up_body :: "string option"
  up_lat :: "64 word"

record hedge_reply =
  hg_reply :: up_reply
  hg_second :: bool
  hg_tracker :: "latency_tracker \<Rightarrow> latency_tracker"

record parsed =
  pa_status :: int
  pa_body :: "string option"
  pa_ptok :: int
  pa_ctok :: int
  pa_cached :: int

text \<open>The events of a replay: the first, a piece of the text, the last.\<close>

datatype replay_chunk =
  Chunk_Role string string int
| Chunk_Piece string string int string
| Chunk_Finish string string int int int int

record 'j chat_env =
  xe_gi :: gate_in
  xe_known :: "string \<Rightarrow> bool"
  xe_find :: "string \<Rightarrow> adapter option"
  xe_parse :: "'j option \<Rightarrow> string \<Rightarrow> model_rec \<Rightarrow> string \<Rightarrow> string \<Rightarrow> int \<Rightarrow> parsed option"
  xe_call :: "nat \<Rightarrow> nat \<Rightarrow> string \<times> string \<Rightarrow> up_reply"
  xe_hedge :: "string \<times> string \<Rightarrow> string \<times> string \<Rightarrow> hedge_reply"
  xe_filter :: fc_env
  xe_target :: target_env
  xe_del :: "'j \<Rightarrow> string \<Rightarrow> 'j"
  xe_is_true :: "'j option \<Rightarrow> bool"
  xe_int :: "'j option \<Rightarrow> int option"
  xe_sha :: "string \<Rightarrow> 8 word list"
  xe_cache_ok :: "bool \<times> bool"
  xe_breaker_now :: "nat \<Rightarrow> int"
  xe_breaker_ok :: "nat \<Rightarrow> bool"
  xe_pack_chunk :: "replay_chunk \<Rightarrow> string option"
  xe_alloc_ok :: "nat \<Rightarrow> bool"
  xe_qsort :: "'j tool_sort"
  xe_us :: nat
  xe_comp_rules :: "compressor_rule list"
  xe_opt_rules :: "cache_optimizer_rule list"

section \<open>Accounts\<close>

text \<open>The model the records show; \<open>q\<close> after all rewrites.\<close>

definition cq_model :: "'j chat_req \<Rightarrow> string" where
  "cq_model q = fq_model (cq_fq q)"

definition meter ::
  "'h hdr_api \<Rightarrow> 'j chat_env \<Rightarrow> 'j chat_req \<Rightarrow> int \<Rightarrow> int \<Rightarrow> int \<Rightarrow> int \<Rightarrow> int \<Rightarrow> 64 word \<Rightarrow> string \<Rightarrow> real \<Rightarrow> 'h chat_core \<Rightarrow> 'h chat_core option" where
  "meter hdr xe q status ptok ctok cached reasoning lat provider cost c =
     map_option (\<lambda>gw. c\<lparr>ch_gw := gw\<rparr>)
       (record_usage_and_event hdr (xe_known xe) (xe_gi xe) (ch_gw c) (kr_key_id (cq_krec q)) (cq_model q) status ptok ctok cached reasoning lat
          (Some provider) (Some (fq_act (cq_fq q))) cost)"

definition severity_of :: "int \<Rightarrow> audit_severity" where
  "severity_of status = (if status < 400 then AUDIT_SEV_INFO else if status = 429 then AUDIT_SEV_WARN else AUDIT_SEV_ERROR)"

definition audit ::
  "'j chat_env \<Rightarrow> 'j chat_req \<Rightarrow> string \<Rightarrow> int \<Rightarrow> int \<Rightarrow> int \<Rightarrow> 64 word \<Rightarrow> audit_severity \<Rightarrow> string \<Rightarrow> string \<Rightarrow> 'h chat_core \<Rightarrow> 'h chat_core" where
  "audit xe q provider status ptok ctok lat sev vtype detail c =
     c\<lparr>ch_gw := aigate_record_audit (xe_gi xe) (ch_gw c) (Some (cq_trace_id q)) (cq_client_ip q) (kr_key_id (cq_krec q)) (Some (cq_model q))
         (Some provider) status ptok ctok (uint lat) 0 sev vtype detail None\<rparr>"

definition audit_routed ::
  "'j chat_env \<Rightarrow> 'j chat_req \<Rightarrow> string \<Rightarrow> int \<Rightarrow> int \<Rightarrow> int \<Rightarrow> 64 word \<Rightarrow> 'h chat_core \<Rightarrow> 'h chat_core" where
  "audit_routed xe q provider status ptok ctok lat c =
     c\<lparr>ch_gw := aigate_record_audit_ex (xe_gi xe) (ch_gw c) (Some (cq_trace_id q)) (cq_client_ip q) (kr_key_id (cq_krec q))
         (Some (reason_or (cq_requested_model q) (cq_model q))) (Some (reason_or (cq_routed_model q) (cq_model q)))
         (Some provider) status ptok ctok (uint lat) 0 (severity_of status) [] [] (cq_fallback_reason q) None\<rparr>"

definition record_spend :: "'j chat_env \<Rightarrow> 'j chat_req \<Rightarrow> real \<Rightarrow> int \<Rightarrow> 'h chat_core \<Rightarrow> 'h chat_core" where
  "record_spend xe q cost tokens c =
     c\<lparr>ch_gw := (ch_gw c)\<lparr>gw_be := map_option (\<lambda>b. budget_enforce_record b (gi_now (xe_gi xe)) (gi_budget_ok (xe_gi xe)) (kr_key_id (cq_krec q))
         (kr_group_id (cq_krec q)) cost tokens) (gw_be (ch_gw c))\<rparr>\<rparr>"

definition reserve :: "'j chat_env \<Rightarrow> 'j chat_req \<Rightarrow> int \<Rightarrow> 'h chat_core \<Rightarrow> 'h chat_core option" where
  "reserve xe q tokens c =
     (let gi = xe_gi xe; k = cq_krec q
      in map_option (\<lambda>(rl, rc). c\<lparr>ch_gw := (ch_gw c)\<lparr>gw_rl := rl\<rparr>\<rparr>)
           (rl_reserve_tokens (gw_rl (ch_gw c)) (gi_eval gi) (gi_rl_ok gi) (gi_now gi) (kr_key_id k) (kr_daily_token_quota k) tokens))"

definition reasoning_quota :: "'j chat_req \<Rightarrow> 'h chat_core \<Rightarrow> int" where
  "reasoning_quota q c =
     (let own = kr_daily_reasoning_quota (cq_krec q)
      in case gw_be (ch_gw c) of
           Some b \<Rightarrow> if own \<le> 0 \<and> kr_group_id (cq_krec q) > 0 then budget_enforce_get_group_reasoning_quota b (kr_group_id (cq_krec q)) else own
         | None \<Rightarrow> own)"

definition chat_record_tokens_and_reasoning :: "'j chat_env \<Rightarrow> 'j chat_req \<Rightarrow> int \<Rightarrow> int \<Rightarrow> 'h chat_core \<Rightarrow> 'h chat_core option" where
  "chat_record_tokens_and_reasoning xe q tokens reasoning c =
     (if gw_rl (ch_gw c) = None then Some c
      else do {
        c1 \<leftarrow> reserve xe q tokens c;
        if reasoning > 0
        then (let gi = xe_gi xe
              in map_option (\<lambda>(rl, rc). c1\<lparr>ch_gw := (ch_gw c1)\<lparr>gw_rl := rl\<rparr>\<rparr>)
                   (rl_reserve_reasoning_tokens (gw_rl (ch_gw c1)) (gi_eval gi) (gi_rl_ok gi) (gi_now gi) (kr_key_id (cq_krec q))
                      (reasoning_quota q c1) reasoning))
        else Some c1
      })"

section \<open>The reasoning quota\<close>

text \<open>The document without reasoning.\<close>

definition suppress_reasoning :: "'j hook_lib \<Rightarrow> ('j \<Rightarrow> string \<Rightarrow> 'j) \<Rightarrow> 'j \<Rightarrow> 'j" where
  "suppress_reasoning L del d =
     (let th = map_option (\<lambda>t. jl_set L (jl_set L t ''type'' (jl_string L ''enabled'')) ''budget_tokens'' (jl_integer L 0)) (jl_object L)
      in del (del (jl_set L d ''thinking'' th) ''reasoning_effort'') ''max_thinking_tokens'')"

definition degrade_request :: "'j hook_lib \<Rightarrow> 'j chat_env \<Rightarrow> 'j chat_req \<Rightarrow> 'j chat_req" where
  "degrade_request L xe q =
     (let q1 = q\<lparr>cq_degraded := True, cq_route := map_option (md_default_thinking_budget_update (\<lambda>_. 0)) (cq_route q)\<rparr>
      in case fq_jbody (cq_fq q) of
           None \<Rightarrow> q1
         | Some d \<Rightarrow>
             (if \<not> jo_is_object L d then q1
              else let d' = suppress_reasoning L (xe_del xe) d; f = (cq_fq q)\<lparr>fq_jbody := Some d'\<rparr>
                   in q1\<lparr>cq_fq := (case jl_dumps L d' of Some s \<Rightarrow> set_body s f | None \<Rightarrow> f)\<rparr>))"

definition chat_apply_reasoning_quota_and_degradation ::
  "'j hook_lib \<Rightarrow> 'j chat_env \<Rightarrow> 'j chat_req \<Rightarrow> 'h chat_core \<Rightarrow> ('h chat_core \<times> 'j chat_req) option" where
  "chat_apply_reasoning_quota_and_degradation L xe q c =
     (let quota = reasoning_quota q c; gi = xe_gi xe
      in if gw_rl (ch_gw c) = None \<or> cq_degraded q \<or> quota \<le> 0 then Some (c, q)
         else map_option (\<lambda>(rl, left). (c\<lparr>ch_gw := (ch_gw c)\<lparr>gw_rl := rl\<rparr>\<rparr>, if left > 0 then q else degrade_request L xe q))
                (rl_remaining_daily_reasoning (gw_rl (ch_gw c)) (gi_get gi) (gi_rl_ok gi) (gi_now gi) (kr_key_id (cq_krec q)) quota))"

section \<open>The response cache\<close>

text \<open>A text in pieces of 32 bytes.\<close>

function replay_pieces :: "string \<Rightarrow> string list" where
  "replay_pieces s = (if s = [] then [] else take 32 s # replay_pieces (drop 32 s))"
  by pat_completeness auto
termination
  by (relation "measure length") auto

declare replay_pieces.simps [simp del]

text \<open>A line is formatted in 2048 bytes, but written with its full length; reading behind the buffer is \<open>None\<close>.\<close>

definition replay_line :: "string option \<Rightarrow> string list option" where
  "replay_line chunk =
     (case chunk of
        None \<Rightarrow> Some []
      | Some j \<Rightarrow> (let line = ''data: '' @ j @ [NL, NL] in if length line > 2048 then None else if length line = 2048 then Some [take 2047 line @ [CHR 0x00]] else Some [line]))"

fun replay_lines :: "string option list \<Rightarrow> string list option" where
  "replay_lines [] = Some []"
| "replay_lines (x # xs) =
     (case (replay_line x, replay_lines xs) of (Some a, Some b) \<Rightarrow> Some (a @ b) | _ \<Rightarrow> None)"

text \<open>The members of a stored answer that the replay uses.\<close>

definition replay_content :: "'j json_lib \<Rightarrow> 'j option \<Rightarrow> string" where
  "replay_content L doc =
     (case jo_array L (jo_get L doc ''choices'') of
        Some (c # _) \<Rightarrow> cstr_or_empty (jo_string L (jo_get L (jo_get L (Some c) ''message'') ''content''))
      | _ \<Rightarrow> [])"

definition replay_events :: "'j json_lib \<Rightarrow> ('j option \<Rightarrow> int option) \<Rightarrow> string \<Rightarrow> cache_entry \<Rightarrow> string \<Rightarrow> replay_chunk list" where
  "replay_events L as_int model e body =
     (let doc = jo_loadb L body;
          ident = (case jo_string L (jo_get L doc ''id'') of Some s \<Rightarrow> s | None \<Rightarrow> ''chatcmpl-cache'');
          mdl = (case jo_string L (jo_get L doc ''model'') of Some s \<Rightarrow> s | None \<Rightarrow> model);
          created = (case as_int (jo_get L doc ''created'') of Some n \<Rightarrow> n | None \<Rightarrow> en_created_at e)
      in Chunk_Role ident mdl created # map (Chunk_Piece ident mdl created) (replay_pieces (replay_content L doc)) @
         [Chunk_Finish ident mdl created (c_int (en_prompt_tokens e)) (c_int (en_completion_tokens e)) (c_int (en_prompt_tokens e + en_completion_tokens e))])"

text \<open>What is written to the client, in order.\<close>

definition cache_stream_replay :: "'j json_lib \<Rightarrow> 'j chat_env \<Rightarrow> string \<Rightarrow> cache_entry \<Rightarrow> string \<Rightarrow> string list option" where
  "cache_stream_replay L xe model e body =
     map_option (\<lambda>ls. ls @ [''data: [DONE]'' @ [NL, NL]]) (replay_lines (map (xe_pack_chunk xe) (replay_events L (xe_int xe) model e body)))"

text \<open>The accounts of a hit, with a fixed latency.\<close>

definition charge_hit :: "'h hdr_api \<Rightarrow> 'j chat_env \<Rightarrow> 'j chat_req \<Rightarrow> cache_entry \<Rightarrow> bool \<Rightarrow> 'h chat_core \<Rightarrow> 'h chat_core option" where
  "charge_hit hdr xe q e audited c = do {
     c1 \<leftarrow> meter hdr xe q 200 (en_prompt_tokens e) (en_completion_tokens e) 0 0 100000 ''cache'' (en_cost_usd e) c;
     let c2 = (if audited then audit xe q ''cache'' 200 (en_prompt_tokens e) (en_completion_tokens e) 100000 AUDIT_SEV_INFO [] [] c1 else c1);
     reserve xe q (en_prompt_tokens e + en_completion_tokens e) (record_spend xe q (en_cost_usd e) (en_prompt_tokens e + en_completion_tokens e) c2)
   }"

definition has_word :: "string \<Rightarrow> string \<Rightarrow> bool" where
  "has_word s w \<longleftrightarrow> strstr_from s w 0 \<noteq> None"

definition read_cache_control :: "'j chat_req \<Rightarrow> 'j chat_req" where
  "read_cache_control q =
     (case cq_cache_control q of
        None \<Rightarrow> q
      | Some s \<Rightarrow>
          (let q1 = (if has_word s ''no-cache'' \<or> has_word s ''max-age=0'' \<or> s = ''true'' \<or> s = ''1'' then q\<lparr>cq_bypass_cache := True\<rparr> else q)
           in if has_word s ''no-store'' then q1\<lparr>cq_bypass_cache := True, cq_no_store := True\<rparr> else q1))"

text \<open>The fingerprint of the body as the filters left it. \<open>None\<close> is a write outside its buffer.\<close>

definition with_cache_key :: "'j hook_lib \<Rightarrow> 'j chat_env \<Rightarrow> 'j chat_req \<Rightarrow> 'h chat_core \<Rightarrow> 'j chat_req option" where
  "with_cache_key L xe q c =
     (if ch_cache c \<noteq> None \<and> \<not> cq_bypass_cache q
      then map_option (\<lambda>k. q\<lparr>cq_cache_key := cstr_or_empty k\<rparr>)
             (response_cache_fingerprint (json_api.truncate L) (xe_sha xe) (Some (cq_model q)) (Some (fq_eff (cq_fq q))))
      else Some q)"

text \<open>An entry that the request holds is answered from and released.\<close>

definition answer_hit ::
  "'h hdr_api \<Rightarrow> 'j hook_lib \<Rightarrow> 'j chat_env \<Rightarrow> 'j chat_req \<Rightarrow> bool \<Rightarrow> response_cache \<Rightarrow> nat \<Rightarrow> 'h chat_core \<Rightarrow> ('h chat_core \<times> 'j chat_req) option" where
  "answer_hit hdr L xe q streaming rc a c =
     (case cm_entries (rc_mem rc) a of
        None \<Rightarrow> None
      | Some e \<Rightarrow> do {
          body \<leftarrow> read_body (rc_mem rc) (en_response_body e);
          out \<leftarrow> (if streaming then map_option (\<lambda>ls. Fx_Json 200 (concat ls)) (cache_stream_replay (json_lib.truncate L) xe (cq_model q) e body)
                  else Some (Fx_Json 200 (take (en_response_len e) body)));
          c1 \<leftarrow> charge_hit hdr xe q e (\<not> streaming) c;
          rc1 \<leftarrow> response_cache_release_entry rc a;
          Some (c1\<lparr>ch_cache := Some rc1\<rparr>, q\<lparr>cq_fq := fq_emit [out] (cq_fq q)\<rparr>)
        })"

definition chat_builder :: "'j chat_env \<Rightarrow> upstream_target \<Rightarrow> (model_rec \<Rightarrow> string \<Rightarrow> (string \<times> string) option) option" where
  "chat_builder xe t = (case xe_find xe (ut_provider t) of Some a \<Rightarrow> ad_build_chat a | None \<Rightarrow> None)"

text \<open>Whether the request streams and whether it has been answered. A model whose document was released is read in any case: \<open>None\<close>.\<close>

definition prepare_chat_cache ::
  "'h hdr_api \<Rightarrow> 'j hook_lib \<Rightarrow> 'j chat_env \<Rightarrow> 'j chat_req \<Rightarrow> 'h chat_core \<Rightarrow> ('h chat_core \<times> 'j chat_req \<times> bool \<times> bool) option" where
  "prepare_chat_cache hdr L xe q0 c =
     (if \<not> list_ex (\<lambda>t. chat_builder xe t \<noteq> None) (cq_candidates q0)
      then Some (c, write_error PIPE_UNSUPPORTED ''unsupported_provider'' ''provider not supported by this build'' q0, False, True)
      else if fq_model_dangling (cq_fq q0) then None
      else let streaming = xe_is_true xe (jo_get L (fq_jbody (cq_fq q0)) ''stream'') in do {
        q \<leftarrow> with_cache_key L xe (read_cache_control q0) c;
        (case ch_cache c of
           None \<Rightarrow> Some (c, q, streaming, False)
         | Some rc \<Rightarrow>
             (if cq_cache_key q = [] then Some (c, q, streaming, False)
              else do {
                (rc1, hit) \<leftarrow> response_cache_get rc (Some (cq_cache_key q)) (gi_now (xe_gi xe));
                (case hit of
                   None \<Rightarrow> Some (c\<lparr>ch_cache := Some rc1\<rparr>, q, streaming, False)
                 | Some a \<Rightarrow> map_option (\<lambda>(c1, q1). (c1, q1, streaming, True)) (answer_hit hdr L xe q streaming rc1 a (c\<lparr>ch_cache := Some rc1\<rparr>)))
              }))
      })"

section \<open>Answers\<close>

definition fill_cur_route :: "model_rec \<Rightarrow> upstream_target \<Rightarrow> model_rec" where
  "fill_cur_route route t =
     route\<lparr>md_provider := take 31 (ut_provider t), md_endpoint := take 511 (ut_endpoint t), md_upstream_key := take 1023 (ut_upstream_key t)\<rparr>"

definition is_failover :: "int \<Rightarrow> int \<Rightarrow> bool" where
  "is_failover urc status \<longleftrightarrow> urc \<noteq> 0 \<or> status = 429 \<or> (status \<ge> 500 \<and> status \<le> 504)"

definition extract_reasoning_tokens_from_json :: "'j json_lib \<Rightarrow> ('j option \<Rightarrow> int option) \<Rightarrow> string \<Rightarrow> int" where
  "extract_reasoning_tokens_from_json L as_int body =
     (if body = [] then 0
      else case jo_loadb L body of
        None \<Rightarrow> 0
      | Some d \<Rightarrow>
          (case object_or_none L (jo_get L (Some d) ''usage'') of
             None \<Rightarrow> 0
           | Some u \<Rightarrow>
               (case object_or_none L (jo_get L (Some u) ''completion_tokens_details'') of
                  None \<Rightarrow> 0
                | Some det \<Rightarrow> (case as_int (jo_get L (Some det) ''reasoning_tokens'') of Some n \<Rightarrow> n | None \<Rightarrow> 0))))"

definition pos_part :: "int \<Rightarrow> nat" where
  "pos_part n = (if n > 0 then nat n mod 2 ^ 32 else 0)"

text \<open>The snapshot of the optimiser; its numbers of tokens are \<^verbatim>\<open>uint32_t\<close>.\<close>

definition handle_prompt_cache_accounting ::
  "'j json_lib \<Rightarrow> 'j chat_env \<Rightarrow> 'j chat_req \<Rightarrow> model_rec \<Rightarrow> int \<Rightarrow> int \<Rightarrow> 'h chat_core \<Rightarrow> 'h chat_core" where
  "handle_prompt_cache_accounting L xe q route ptok cached c =
     (let savings = (if pos_part cached > 0 then calc_cache_savings L route cached else 0); r = cq_opt_result q;
          snap = \<lparr>os_req_id = cstr_copy 37 (cq_trace_id q), os_model = cstr_copy 64 (cq_model q), os_timestamp = gi_now (xe_gi xe),
            os_upstream_cache_hit = pos_part cached > 0, os_prompt_tokens = pos_part ptok, os_cached_tokens = pos_part cached, os_cost_savings_usd = savings,
            os_latency_us = or_latency_us r, os_breakpoints_count = or_breakpoints_injected r, os_dynamic_sunk = or_dynamic_sunk r,
            os_tools_sorted = or_tools_sorted r\<rparr>
      in if or_optimized r \<or> pos_part cached > 0 then c\<lparr>ch_opt := map_option (\<lambda>oc. cache_optimizer_cache_record oc snap) (ch_opt c)\<rparr> else c)"

text \<open>Storing the answer under the key of the request.\<close>

definition store_answer :: "'j chat_env \<Rightarrow> 'j chat_req \<Rightarrow> parsed \<Rightarrow> string option \<Rightarrow> real \<Rightarrow> 'h chat_core \<Rightarrow> 'h chat_core option" where
  "store_answer xe q p body cost c =
     (case (ch_cache c, body) of
        (Some rc, Some s) \<Rightarrow>
          (if cq_cache_key q \<noteq> [] \<and> pa_status p = 200 \<and> \<not> cq_no_store q \<and> length s \<le> 1048576
           then map_option (\<lambda>(rc1, r). c\<lparr>ch_cache := Some rc1\<rparr>)
                  (response_cache_set rc (fst (xe_cache_ok xe)) (snd (xe_cache_ok xe)) (Some (cq_cache_key q)) (Some (cq_model q)) (Some s)
                     (pa_ptok p) (pa_ctok p) cost 0 (gi_now (xe_gi xe)))
           else Some c)
      | _ \<Rightarrow> Some c)"

definition report_primary :: "'j chat_req \<Rightarrow> 64 word \<Rightarrow> int \<Rightarrow> int \<Rightarrow> real \<Rightarrow> string option \<Rightarrow> 'h chat_core \<Rightarrow> 'h chat_core" where
  "report_primary q lat status tokens cost body c =
     (let ms = real (unat lat) / 1000000;
          d = \<lparr>sd_latency_ms = ms, sd_ttft_ms = ms, sd_http_status = status, sd_tokens = tokens, sd_cost_usd = cost,
            sd_resp_snippet = Some (cstr_copy 512 (cstr_or_empty body))\<rparr>
      in if cq_has_shadow q
         then c\<lparr>ch_shadow := map_option (\<lambda>eng. fst (shadow_engine_record_primary eng (Some (cq_eval_id q)) d)) (ch_shadow c)\<rparr> else c)"

text \<open>The filters of an answer: the request afterwards, whether it goes on, and the body.\<close>

definition filter_answer :: "'j hook_lib \<Rightarrow> 'j chat_env \<Rightarrow> 'j chat_req \<Rightarrow> parsed \<Rightarrow> ('j chat_req \<times> bool \<times> string option) option" where
  "filter_answer L xe q p =
     (if pa_status p \<noteq> 200 then Some (q, True, pa_body p)
      else map_option (\<lambda>(f, act, out). (q\<lparr>cq_fq := f\<rparr>, act = FILTER_CONTINUE, case out of Some s \<Rightarrow> Some s | None \<Rightarrow> pa_body p))
             (filter_chain_execute_outbound L (xe_filter xe) (cq_fq q) (cstr_or_empty (pa_body p))))"

text \<open>The accounts of a good answer. A hedged one (\<open>routed\<close> false) is audited without the routing and not reported to the shadow engine.\<close>

definition settle_answer ::
  "'h hdr_api \<Rightarrow> 'j json_lib \<Rightarrow> 'j chat_env \<Rightarrow> bool \<Rightarrow> model_rec \<Rightarrow> string \<Rightarrow> 64 word \<Rightarrow> 'j chat_req \<Rightarrow> parsed \<Rightarrow> string option \<Rightarrow> 'h chat_core \<Rightarrow>
   'h chat_core option" where
  "settle_answer hdr L xe routed route provider lat q p body c = do {
     let c1 = handle_prompt_cache_accounting L xe q route (pa_ptok p) (pa_cached p) c;
     let reasoning = extract_reasoning_tokens_from_json L (xe_int xe) (cstr_or_empty body);
     let cost = calc_req_cost_ext L route (pa_ptok p) (pa_ctok p) (pa_cached p) reasoning;
     let tokens = pa_ptok p + pa_ctok p;
     c2 \<leftarrow> meter hdr xe q (pa_status p) (pa_ptok p) (pa_ctok p) (pa_cached p) reasoning lat provider cost c1;
     let c3 = (if routed then audit_routed xe q provider (pa_status p) (pa_ptok p) (pa_ctok p) lat c2
               else audit xe q provider (pa_status p) (pa_ptok p) (pa_ctok p) lat (severity_of (pa_status p)) [] [] c2);
     c4 \<leftarrow> chat_record_tokens_and_reasoning xe q tokens reasoning (record_spend xe q cost tokens c3);
     let c5 = (if routed then report_primary q lat (pa_status p) tokens cost body c4 else c4);
     store_answer xe q p body cost c5
   }"

text \<open>A good answer of an upstream: it is parsed, filtered, charged, stored and written.\<close>

definition answer_success ::
  "'h hdr_api \<Rightarrow> 'j hook_lib \<Rightarrow> 'j chat_env \<Rightarrow> bool \<Rightarrow> model_rec \<Rightarrow> model_rec \<Rightarrow> string \<Rightarrow> up_reply \<Rightarrow> 64 word \<Rightarrow> 'j chat_req \<Rightarrow> 'h chat_core \<Rightarrow>
   ('h chat_core \<times> 'j chat_req) option" where
  "answer_success hdr L xe routed route cur provider u lat q c =
     (case xe_parse xe (fq_jbody (cq_fq q)) provider cur (cq_model q) (cstr_or_empty (up_body u)) (up_status u) of
        None \<Rightarrow> Some (c, write_error 502 ''upstream_error'' ''failed to parse upstream response'' q)
      | Some p \<Rightarrow>
          (case filter_answer L xe q p of
             None \<Rightarrow> None
           | Some (q1, goes_on, body) \<Rightarrow>
               (if \<not> goes_on then Some (c, q1)
                else map_option (\<lambda>c1. (c1, write_json (pa_status p) (cstr_or_empty body) q1))
                       (settle_answer hdr (json_lib.truncate L) xe routed route provider lat q1 p body c))))"

section \<open>The candidates\<close>

datatype verdict = V_Answered | V_Next | V_Saturated | V_Stop

definition acquire :: "upstream_target \<Rightarrow> 'h chat_core \<Rightarrow> 'h chat_core \<times> bool" where
  "acquire t c =
     (case model_router_acquire_target (g_target_slots (ch_globals c)) t of
        (slots, rc) \<Rightarrow> (c\<lparr>ch_globals := (ch_globals c)\<lparr>g_target_slots := slots\<rparr>\<rparr>, rc = 0))"

definition release :: "upstream_target \<Rightarrow> 'h chat_core \<Rightarrow> 'h chat_core" where
  "release t c = c\<lparr>ch_globals := (ch_globals c)\<lparr>g_target_slots := model_router_release_target (g_target_slots (ch_globals c)) t\<rparr>\<rparr>"

text \<open>The reply of a call. A call that fails leaves the status as it was, and one that is answered with an empty body hands out a
  literal, which the handler frees afterwards: \<open>None\<close>.\<close>

definition reply_of :: "int \<Rightarrow> up_reply \<Rightarrow> up_reply option" where
  "reply_of status u =
     (if up_urc u = 0 then if up_body u = Some [] then None else Some u else Some (u\<lparr>up_status := status, up_body := None\<rparr>))"

text \<open>The call, made again after a server error if there is only one candidate.\<close>

definition call_upstream :: "'j chat_env \<Rightarrow> 'j chat_req \<Rightarrow> nat \<Rightarrow> string \<times> string \<Rightarrow> up_reply option" where
  "call_upstream xe q ci msg =
     (case reply_of 0 (xe_call xe ci 0 msg) of
        None \<Rightarrow> None
      | Some u \<Rightarrow>
          (if length (cq_candidates q) = 1 \<and> up_urc u = 0 \<and> up_status u \<ge> 500
           then map_option (\<lambda>v. v\<lparr>up_lat := up_lat u + up_lat v\<rparr>) (reply_of (up_status u) (xe_call xe ci 1 msg))
           else Some u))"

definition note_latency :: "'j chat_req \<Rightarrow> upstream_target \<Rightarrow> 64 word \<Rightarrow> 'h chat_core \<Rightarrow> 'h chat_core" where
  "note_latency q t lat c =
     (if lat > 0 then c\<lparr>ch_lt := latency_tracker_record (ch_lt c) (Some (cq_model q)) (Some (ut_endpoint t)) lat\<rparr> else c)"

definition note_sla :: "'j chat_env \<Rightarrow> 'j chat_req \<Rightarrow> nat \<Rightarrow> upstream_target \<Rightarrow> 64 word \<Rightarrow> 'h chat_core \<Rightarrow> 'h chat_core" where
  "note_sla xe q ci t lat c =
     (let ms = unat lat div 1000000 mod 2 ^ 32
      in if lat > 0
         then c\<lparr>ch_cb := map_option (\<lambda>b. cb_record_sla_sample b (xe_breaker_now xe (2 * ci)) (xe_breaker_ok xe (2 * ci))
                (Some (reason_or (cq_requested_model q) (cq_model q))) (Some (ut_endpoint t)) ms ms) (ch_cb c)\<rparr> else c)"

definition note_success :: "'j chat_req \<Rightarrow> upstream_target \<Rightarrow> 'h chat_core \<Rightarrow> 'h chat_core" where
  "note_success q t c = c\<lparr>ch_cb := map_option (\<lambda>b. cb_record_success b (Some (cq_model q)) (Some (ut_endpoint t))) (ch_cb c)\<rparr>"

definition note_failure :: "'j chat_env \<Rightarrow> 'j chat_req \<Rightarrow> nat \<Rightarrow> upstream_target \<Rightarrow> int \<Rightarrow> 'h chat_core \<Rightarrow> 'h chat_core" where
  "note_failure xe q ci t status c =
     c\<lparr>ch_cb := map_option (\<lambda>b. cb_record_failure b (xe_breaker_now xe (2 * ci + 1)) (xe_breaker_ok xe (2 * ci + 1)) (Some (cq_model q))
         (Some (ut_endpoint t)) status) (ch_cb c)\<rparr>"

text \<open>The error of an upstream that is handed on.\<close>

definition surface_error ::
  "'h hdr_api \<Rightarrow> 'j chat_env \<Rightarrow> bool \<Rightarrow> string \<Rightarrow> int \<Rightarrow> string \<Rightarrow> 64 word \<Rightarrow> 'j chat_req \<Rightarrow> 'h chat_core \<Rightarrow> ('h chat_core \<times> 'j chat_req) option" where
  "surface_error hdr xe audited provider status body lat q c =
     map_option (\<lambda>c1. (if audited then audit xe q provider status 0 0 lat (if status = 429 then AUDIT_SEV_WARN else AUDIT_SEV_ERROR)
                         ''upstream_error'' ''upstream returned error'' c1 else c1, write_json status body q))
       (meter hdr xe q status 0 0 0 0 lat provider 0 c)"

text \<open>One candidate: the state, the request, the latency so far, the last provider that was tried, and how to go on.\<close>

type_synonym ('h, 'j) att = "'h chat_core \<times> 'j chat_req \<times> 64 word \<times> string"

definition sync_reply ::
  "'h hdr_api \<Rightarrow> 'j hook_lib \<Rightarrow> 'j chat_env \<Rightarrow> model_rec \<Rightarrow> nat \<Rightarrow> upstream_target \<Rightarrow> up_reply \<Rightarrow> 64 word \<Rightarrow> 'j chat_req \<Rightarrow> 'h chat_core \<Rightarrow>
   (('h, 'j) att \<times> verdict) option" where
  "sync_reply hdr L xe route ci t u lat q c =
     (if \<not> is_failover (up_urc u) (up_status u) \<and> up_status u < 400
      then map_option (\<lambda>(c1, q1). ((c1, q1, lat, ut_provider t), V_Answered))
             (answer_success hdr L xe True route (fill_cur_route route t) (ut_provider t) u lat q (note_success q t c))
      else let c1 = note_failure xe q ci t (up_status u) c
           in if \<not> is_failover (up_urc u) (up_status u)
              then (case up_body u of
                      Some s \<Rightarrow> map_option (\<lambda>(c2, q2). ((c2, q2, lat, ut_provider t), V_Answered))
                                 (surface_error hdr xe False (ut_provider t) (up_status u) s lat q c1)
                    | None \<Rightarrow> Some ((c1, q, lat, ut_provider t), V_Stop))
              else Some ((c1, q, lat, ut_provider t), V_Next))"

definition chat_adapter :: "'j chat_env \<Rightarrow> upstream_target \<Rightarrow> (model_rec \<Rightarrow> string \<Rightarrow> (string \<times> string) option) option" where
  "chat_adapter xe t = (case xe_find xe (ut_provider t) of Some a \<Rightarrow> if ad_parses a then ad_build_chat a else None | None \<Rightarrow> None)"

definition sync_attempt ::
  "'h hdr_api \<Rightarrow> 'j hook_lib \<Rightarrow> 'j chat_env \<Rightarrow> model_rec \<Rightarrow> nat \<Rightarrow> upstream_target \<Rightarrow> ('h, 'j) att \<Rightarrow> (('h, 'j) att \<times> verdict) option" where
  "sync_attempt hdr L xe route ci t = (\<lambda>(c, q, lat, prov).
     (case chat_adapter xe t of
        None \<Rightarrow> Some ((c, q, lat, prov), V_Next)
      | Some build \<Rightarrow>
          (case acquire t c of (c1, acquired) \<Rightarrow>
             if \<not> acquired then Some ((c1, q, lat, prov), V_Saturated)
             else case build (fill_cur_route route t) (fq_eff (cq_fq q)) of
                None \<Rightarrow> Some ((release t c1, q, lat, ut_provider t), V_Next)
              | Some msg \<Rightarrow>
                  (case call_upstream xe q ci msg of
                     None \<Rightarrow> None
                   | Some u \<Rightarrow>
                       (let c2 = note_sla xe q ci t (up_lat u) (note_latency q t (up_lat u) (release t c1))
                        in sync_reply hdr L xe route ci t u (lat + up_lat u) q c2)))))"

text \<open>The candidates from \<open>ci\<close> on; \<open>sat\<close> counts those that were saturated.\<close>

fun sync_loop ::
  "'h hdr_api \<Rightarrow> 'j hook_lib \<Rightarrow> 'j chat_env \<Rightarrow> model_rec \<Rightarrow> nat \<Rightarrow> nat \<Rightarrow> upstream_target list \<Rightarrow> ('h, 'j) att \<Rightarrow>
   (('h, 'j) att \<times> bool \<times> nat) option" where
  "sync_loop hdr L xe route ci sat [] a = Some (a, False, sat)"
| "sync_loop hdr L xe route ci sat (t # ts) a =
     (case sync_attempt hdr L xe route ci t a of
        None \<Rightarrow> None
      | Some (a1, V_Answered) \<Rightarrow> Some (a1, True, sat)
      | Some (a1, V_Next) \<Rightarrow> sync_loop hdr L xe route (Suc ci) sat ts a1
      | Some (a1, V_Saturated) \<Rightarrow> sync_loop hdr L xe route (Suc ci) (Suc sat) ts a1
      | Some (a1, V_Stop) \<Rightarrow> Some (a1, False, sat))"

section \<open>Hedging\<close>

text \<open>The first two candidates at once. The flag says that the request is answered; the number is where the loop starts.\<close>

definition hedged_reply ::
  "'h hdr_api \<Rightarrow> 'j hook_lib \<Rightarrow> 'j chat_env \<Rightarrow> model_rec \<Rightarrow> upstream_target \<Rightarrow> up_reply \<Rightarrow> 'j chat_req \<Rightarrow> 'h chat_core \<Rightarrow>
   (('h, 'j) att \<times> bool \<times> nat) option" where
  "hedged_reply hdr L xe route win u q c =
     (let urc = (if up_urc u = 0 \<and> up_body u \<noteq> None then 0 else -502); lat = up_lat u; c1 = note_latency q win lat c
      in if \<not> is_failover urc (up_status u) \<and> up_status u < 400
         then map_option (\<lambda>(c2, q2). ((c2, q2, lat, ut_provider win), True, 0))
                (answer_success hdr L xe False route route (ut_provider win) u lat q (note_success q win c1))
         else let c2 = note_failure xe q 0 win (up_status u) c1
              in case (is_failover urc (up_status u), up_body u) of
                   (False, Some s) \<Rightarrow>
                     map_option (\<lambda>(c3, q3). ((c3, q3, lat, ut_provider win), True, 0)) (surface_error hdr xe True (ut_provider win) (up_status u) s lat q c2)
                 | _ \<Rightarrow> Some ((c2, q, lat, ut_provider win), False, 2))"

definition hedged_attempt ::
  "'h hdr_api \<Rightarrow> 'j hook_lib \<Rightarrow> 'j chat_env \<Rightarrow> model_rec \<Rightarrow> ('h, 'j) att \<Rightarrow> (('h, 'j) att \<times> bool \<times> nat) option" where
  "hedged_attempt hdr L xe route = (\<lambda>(c, q, lat, prov).
     (case (md_hedged_enabled route, cq_candidates q) of
        (True, t0 # t1 # ts) \<Rightarrow>
          (case (chat_builder xe t0, chat_builder xe t1) of
             (Some b0, Some b1) \<Rightarrow>
               (let m0 = b0 (fill_cur_route route t0) (fq_eff (cq_fq q)); m1 = b1 (fill_cur_route route t1) (fq_eff (cq_fq q));
                    (c1, acq0) = acquire t0 c; (c2, acq1) = acquire t1 c1;
                    c3 = (if acq0 then release t0 c2 else c2); c4 = (if acq1 then release t1 c3 else c3)
                in case (m0, m1) of
                     (Some x0, Some x1) \<Rightarrow>
                       (if \<not> acq0 \<or> \<not> acq1 then Some ((c4, q, lat, prov), False, 0)
                        else let h = xe_hedge xe x0 x1
                             in hedged_reply hdr L xe route (if hg_second h then t1 else t0) (hg_reply h) q (c4\<lparr>ch_lt := hg_tracker h (ch_lt c4)\<rparr>))
                   | _ \<Rightarrow> Some ((c4, q, lat, prov), False, 0))
           | _ \<Rightarrow> Some ((c, q, lat, prov), False, 0))
      | _ \<Rightarrow> Some ((c, q, lat, prov), False, 0)))"

section \<open>The request\<close>

text \<open>When no candidate has answered.\<close>

definition answer_exhausted ::
  "'h hdr_api \<Rightarrow> 'j chat_env \<Rightarrow> bool \<Rightarrow> ('h, 'j) att \<Rightarrow> ('h chat_core \<times> 'j chat_req) option" where
  "answer_exhausted hdr xe saturated = (\<lambda>(c, q, lat, prov).
     if saturated
     then map_option (\<lambda>c1. (audit xe q prov 429 0 0 lat AUDIT_SEV_WARN ''rate_limit_exceeded'' ''upstream concurrency limit exceeded'' c1,
              write_error 429 ''rate_limit_error'' ''upstream concurrency limit exceeded'' q)) (meter hdr xe q 429 0 0 0 0 lat prov 0 c)
     else map_option (\<lambda>c1. (audit xe q prov PIPE_UPSTREAM 0 0 lat AUDIT_SEV_ERROR ''upstream_exhaustion'' ''upstream request failed'' c1,
              write_error PIPE_UPSTREAM ''upstream_error'' ''upstream request failed'' q)) (meter hdr xe q PIPE_UPSTREAM 0 0 0 0 lat prov 0 c))"

definition handle_chat_sync :: "'h hdr_api \<Rightarrow> 'j hook_lib \<Rightarrow> 'j chat_env \<Rightarrow> 'j chat_req \<Rightarrow> 'h chat_core \<Rightarrow> ('h chat_core \<times> 'j chat_req) option" where
  "handle_chat_sync hdr L xe q0 c0 = do {
     (c, q) \<leftarrow> chat_apply_reasoning_quota_and_degradation L xe q0 c0;
     route \<leftarrow> cq_route q;
     ((c1, q1, lat, prov), answered, start) \<leftarrow> hedged_attempt hdr L xe route (c, q, 0, md_provider route);
     if answered then Some (c1, q1)
     else do {
       ((c2, q2, lat2, prov2), answered2, sat) \<leftarrow> sync_loop hdr L xe route start 0 (drop start (cq_candidates q1)) (c1, q1, lat, prov);
       if answered2 then Some (c2, q2)
       else answer_exhausted hdr xe (sat > 0 \<and> sat = length (cq_candidates q2) - start) (c2, q2, lat2, prov2)
     }
   }"

text \<open>The compression of the body, with its snapshot.\<close>

definition compress_chat :: "'j json_lib \<Rightarrow> 'j chat_env \<Rightarrow> 'j chat_req \<Rightarrow> 'h chat_core \<Rightarrow> 'h chat_core \<times> 'j chat_req" where
  "compress_chat L xe q c =
     (case ch_comp c of
        None \<Rightarrow> (c, q)
      | Some cc \<Rightarrow>
          (case compress_request L (xe_alloc_ok xe) (xe_us xe) (xe_comp_rules xe) (cq_compress_control q) (cq_model q) (fq_eff (cq_fq q)) of
             (body, None) \<Rightarrow> (c, q)
           | (body, Some r) \<Rightarrow>
               (c\<lparr>ch_comp := Some (compressor_cache_record cc
                    \<lparr>sn_req_id = cstr_copy 37 (cq_trace_id q), sn_model = cstr_copy 64 (cq_model q), sn_timestamp = gi_now (xe_gi xe),
                     sn_original_tokens = co_original_tokens r, sn_compressed_tokens = co_compressed_tokens r, sn_saved_tokens = co_saved_tokens r,
                     sn_compression_ratio = co_compression_ratio r, sn_elapsed_us = co_elapsed_us r,
                     sn_prompt_preview = extract_prompt_snippet L (fq_jbody (cq_fq q)) 128, sn_orig_preview = take 511 (fq_raw (cq_fq q)),
                     sn_comp_preview = take 511 body\<rparr>)\<rparr>,
                q\<lparr>cq_fq := (cq_fq q)\<lparr>fq_eff := body\<rparr>\<rparr>)))"

definition optimize_chat :: "'j json_lib \<Rightarrow> 'j chat_env \<Rightarrow> 'j chat_req \<Rightarrow> 'j chat_req" where
  "optimize_chat L xe q =
     (case optimizer_rule (xe_opt_rules xe) (cq_prompt_cache_control q) (cq_model q) of
        None \<Rightarrow> q
      | Some rule \<Rightarrow>
          (case cache_optimizer_process_payload L (xe_alloc_ok xe) (xe_qsort xe) (xe_us xe) (fq_eff (cq_fq q)) rule of
             (okay, r) \<Rightarrow>
               (let q1 = q\<lparr>cq_opt_result := r\<rparr>
                in case or_payload r of
                     Some s \<Rightarrow> if okay \<and> or_optimized r then q1\<lparr>cq_fq := (cq_fq q1)\<lparr>fq_eff := s\<rparr>\<rparr> else q1
                   | None \<Rightarrow> q1)))"

text \<open>The body of \<^verbatim>\<open>/v1/chat/completions\<close> behind the admission; \<open>stream\<close> stands for \<^verbatim>\<open>handle_chat_stream\<close>.\<close>

definition handle_chat_request ::
  "'h hdr_api \<Rightarrow> 'j hook_lib \<Rightarrow> 'j chat_env \<Rightarrow> ('j chat_req \<Rightarrow> 'h chat_core \<Rightarrow> ('h chat_core \<times> 'j chat_req) option) \<Rightarrow> 'j chat_req \<Rightarrow> 'h chat_core \<Rightarrow>
   ('h chat_core \<times> 'j chat_req) option" where
  "handle_chat_request hdr L xe stream q0 c0 = do {
     let J = json_lib.truncate L;
     (c1, q1, resolved) \<leftarrow> resolve_chat_target J (xe_target xe) q0 c0;
     if \<not> resolved then Some (c1, q1)
     else do {
       (f, act) \<leftarrow> filter_chain_execute_inbound L (xe_filter xe) (cq_fq q1);
       let q2 = q1\<lparr>cq_fq := f\<rparr>;
       if act \<noteq> FILTER_CONTINUE then Some (c1, q2)
       else do {
         (c3, q3) \<leftarrow> chat_apply_reasoning_quota_and_degradation L xe q2 c1;
         (c4, q4, streaming, handled) \<leftarrow> prepare_chat_cache hdr L xe q3 c3;
         if handled then Some (c4, q4)
         else (let (c5, q5) = compress_chat J xe q4 c4; q6 = optimize_chat J xe q5
               in if streaming then stream q6 c5 else handle_chat_sync hdr L xe q6 c5)
       }
     }
   }"

end
