(* ===== verification/Chat_Props.thy ===== *)
theory Chat_Props
  imports Chat_Pipeline Filter_Props Router_Props Gate_Props
begin

text \<open>
  Properties of a chat request as a whole: it gets exactly one answer, it gives back the slots it takes, and it goes down its candidates to the
  first that answers; and where its parts work against each other.
\<close>

section \<open>One answer\<close>

definition answers :: "'j chat_req \<Rightarrow> nat" where
  "answers q = length (filter is_answer (fq_effects (cq_fq q)))"

lemma answers_error [simp]: "answers (write_error s code msg q) = Suc (answers q)"
  by (simp add: answers_def write_error_def fq_emit_def is_answer_def)

lemma answers_json [simp]: "answers (write_json s body q) = Suc (answers q)"
  by (simp add: answers_def write_json_def fq_emit_def is_answer_def)

lemma answered_count:
  "answered (cq_fq q) (f, act) \<Longrightarrow> answers (q\<lparr>cq_fq := f\<rparr>) = answers q + (if act = FILTER_STOP then 1 else 0)"
  by (cases act) (auto simp: answered_def answers_def)

lemma outbound_plugins_answered:
  "filter_lua_plugins_outbound env q resp out = (q', act, out') \<Longrightarrow> answered q (q', act)"
  unfolding filter_lua_plugins_outbound_def Let_def
  by (auto simp: is_answer_def intro!: answered_same answered_emit split: option.splits if_splits)

lemma outbound_answered: "filter_chain_execute_outbound L env q resp = Some (q', act, out) \<Longrightarrow> answered q (q', act)"
  unfolding filter_chain_execute_outbound_def Let_def
  by (auto intro: answered_same answered_policy_block outbound_plugins_answered
      split: if_splits guardrails_action.splits option.splits buf_result.splits)

lemma filter_answer_count:
  assumes "filter_answer L xe q p = Some (q1, goes_on, body)"
  shows "answers q1 = answers q + (if goes_on then 0 else 1)"
proof (cases "pa_status p = 200")
  case False
  with assms show ?thesis by (simp add: filter_answer_def)
next
  case True
  with assms obtain f act out where o: "filter_chain_execute_outbound L (xe_filter xe) (cq_fq q) (cstr_or_empty (pa_body p)) = Some (f, act, out)"
    "q1 = q\<lparr>cq_fq := f\<rparr>" "goes_on = (act = FILTER_CONTINUE)" by (auto simp: filter_answer_def)
  from answered_count [OF outbound_answered [OF o(1)]] o(2,3) show ?thesis by (cases act) simp_all
qed

lemma answer_success_count:
  assumes "answer_success hdr L xe routed route cur provider u lat q c = Some (c', q')"
  shows "answers q' = Suc (answers q)"
proof (cases "xe_parse xe (fq_jbody (cq_fq q)) provider cur (cq_model q) (cstr_or_empty (up_body u)) (up_status u)")
  case None
  with assms show ?thesis by (auto simp: answer_success_def)
next
  case (Some p)
  with assms obtain q1 goes_on body where f: "filter_answer L xe q p = Some (q1, goes_on, body)"
    by (auto simp: answer_success_def split: option.splits)
  from filter_answer_count [OF f] assms Some f show ?thesis by (cases goes_on) (auto simp: answer_success_def)
qed

lemma surface_error_count: "surface_error hdr xe audited provider status body lat q c = Some (c', q') \<Longrightarrow> answers q' = Suc (answers q)"
  by (auto simp: surface_error_def split: if_splits)

text \<open>An attempt that does not answer leaves the request as it was.\<close>

definition answered_if :: "bool \<Rightarrow> 'j chat_req \<Rightarrow> 'j chat_req \<Rightarrow> bool" where
  "answered_if a q q' \<longleftrightarrow> (if a then answers q' = Suc (answers q) else q' = q)"

lemma sync_reply_count:
  "sync_reply hdr L xe route ci t u lat q c = Some ((c', q', lat', prov), v) \<Longrightarrow> answered_if (v = V_Answered) q q'"
  by (auto simp: sync_reply_def Let_def answered_if_def dest: answer_success_count surface_error_count split: if_splits option.splits)

lemma sync_attempt_count:
  "sync_attempt hdr L xe route ci t (c, q, lat, prov) = Some ((c', q', lat', prov'), v) \<Longrightarrow> answered_if (v = V_Answered) q q'"
  by (auto simp: sync_attempt_def Let_def answered_if_def dest: sync_reply_count split: if_splits option.splits prod.splits)

lemma sync_loop_count:
  "sync_loop hdr L xe route ci sat ts (c, q, lat, prov) = Some ((c', q', lat', prov'), a, sat') \<Longrightarrow> answered_if a q q'"
proof (induction ts arbitrary: ci sat c q lat prov)
  case Nil
  then show ?case by (simp add: answered_if_def)
next
  case (Cons t ts)
  from Cons.prems obtain c1 q1 lat1 prov1 v where att: "sync_attempt hdr L xe route ci t (c, q, lat, prov) = Some ((c1, q1, lat1, prov1), v)"
    by (auto split: option.splits)
  show ?case
    using sync_attempt_count [OF att] Cons.prems att Cons.IH [of _ _ c1 q1 lat1 prov1] by (cases v) (auto simp: answered_if_def)
qed

lemma hedged_attempt_count:
  "hedged_attempt hdr L xe route (c, q, lat, prov) = Some ((c', q', lat', prov'), a, start) \<Longrightarrow> answered_if a q q'"
  unfolding hedged_attempt_def hedged_reply_def Let_def
  by (auto simp: answered_if_def dest: answer_success_count surface_error_count split: list.splits bool.splits option.splits prod.splits if_splits)

lemma exhausted_count: "answer_exhausted hdr xe saturated (c, q, lat, prov) = Some (c', q') \<Longrightarrow> answers q' = Suc (answers q)"
  by (auto simp: answer_exhausted_def split: if_splits)

lemma degrade_effects [simp]: "fq_effects (cq_fq (degrade_request L xe q)) = fq_effects (cq_fq q)"
  by (simp add: degrade_request_def Let_def set_body_def split: option.splits)

lemma apply_quota_count:
  "chat_apply_reasoning_quota_and_degradation L xe q c = Some (c', q') \<Longrightarrow> fq_effects (cq_fq q') = fq_effects (cq_fq q)"
  by (auto simp: chat_apply_reasoning_quota_and_degradation_def Let_def split: if_splits)

lemma chat_sync_count:
  assumes "handle_chat_sync hdr L xe q c = Some (c', q')"
  shows "answers q' = Suc (answers q)"
proof -
  from assms obtain c1 q1 where 1: "chat_apply_reasoning_quota_and_degradation L xe q c = Some (c1, q1)"
    by (auto simp: handle_chat_sync_def bind_eq_Some_conv)
  from assms 1 obtain route c2 q2 lat prov a start where 2: "hedged_attempt hdr L xe route (c1, q1, 0, md_provider route) = Some ((c2, q2, lat, prov), a, start)"
    "cq_route q1 = Some route" by (auto simp: handle_chat_sync_def bind_eq_Some_conv)
  have e: "answers q1 = answers q" using apply_quota_count [OF 1] by (simp add: answers_def)
  note h = hedged_attempt_count [OF 2(1)]
  show ?thesis
  proof (cases a)
    case True
    with assms 1 2 h e show ?thesis by (simp add: handle_chat_sync_def answered_if_def)
  next
    case False
    with assms 1 2 obtain c3 q3 lat3 prov3 b sat where 3:
      "sync_loop hdr L xe route start 0 (drop start (cq_candidates q2)) (c2, q2, lat, prov) = Some ((c3, q3, lat3, prov3), b, sat)"
      by (auto simp: handle_chat_sync_def bind_eq_Some_conv)
    from sync_loop_count [OF 3] assms 1 2 3 False h e show ?thesis
      by (auto simp: handle_chat_sync_def answered_if_def dest: exhausted_count split: if_splits)
  qed
qed

section \<open>The whole request\<close>

lemma webhooks_answeredD: "filter_webhooks L env g q = r \<Longrightarrow> answered q r"
  using webhooks_answered [of q L env g] by simp

lemma inbound_answered:
  assumes "filter_chain_execute_inbound L env q = Some r"
  shows "answered q r"
proof (cases "filter_guardrails L env q")
  case None
  with assms show ?thesis by (simp add: execute_inbound)
next
  case (Some g)
  obtain q1 a where g: "g = (q1, a)" by fastforce
  have ga: "answered q (q1, a)"
    using Some unfolding g filter_guardrails_def Let_def
    by (auto simp: answered_def dest!: local_answered webhooks_answeredD split: if_splits option.splits prod.splits filter_action.splits)
  show ?thesis
  proof (cases a)
    case FILTER_STOP
    with assms Some g ga show ?thesis by (simp add: execute_inbound)
  next
    case FILTER_CONTINUE
    obtain r' where r': "after_guardrails L env q1 = Some r'" "answered q1 r'" using after_guardrails_answered by blast
    with assms Some g FILTER_CONTINUE answered_trans [OF ga [unfolded FILTER_CONTINUE] r'(2)] show ?thesis by (simp add: execute_inbound)
  qed
qed


lemma set_model_effects [simp]: "fq_effects (cq_fq (set_model m q)) = fq_effects (cq_fq q)"
  by (simp add: set_model_def)

lemma canary_effects:
  assumes "route_canary te q c = Some (c', q')"
  shows "fq_effects (cq_fq q') = fq_effects (cq_fq q)"
proof -
  from assms obtain mr cb hit where h: "model_router_apply_canary (te_getenv te) (te_decrypt te) (te_store te) (te_canary_ok te) (te_canary_roll te)
       (te_canary_clock te) (ch_router c) (ch_cb c) (ch_rules c) (Some (fq_model (cq_fq q))) None 64 = Some (mr, cb, hit)"
    unfolding route_canary_def by (auto simp: bind_eq_Some_conv)
  with assms have "q' = (case hit of Some (m, True, rid) \<Rightarrow> set_model (cstr_copy 64 m) (q\<lparr>cq_is_canary := True\<rparr>) | _ \<Rightarrow> q)"
    by (simp add: route_canary_def Let_def)
  then show ?thesis by (simp split: option.splits prod.splits bool.splits)
qed

lemma sla_effects: "route_sla te q c = (c', q') \<Longrightarrow> fq_effects (cq_fq q') = fq_effects (cq_fq q)"
  by (auto simp: route_sla_def split: option.splits prod.splits bool.splits)

lemma mirror_effects: "mirror_request L te q c = (c', q') \<Longrightarrow> fq_effects (cq_fq q') = fq_effects (cq_fq q)"
  by (auto simp: mirror_request_def submit_shadow_def Let_def split: option.splits prod.splits if_splits)

lemma route_count:
  assumes "route_request te q c = Some (c', q', go)"
  shows "answers q' = answers q + (if go then 0 else 1)"
proof -
  from assms obtain mr rc route where r: "model_router_resolve (ch_router c) (te_getenv te) (te_decrypt te) (te_store te) (fst (te_route_ok te))
      (snd (te_route_ok te)) (fq_model (cq_fq q)) = Some (mr, rc, route)" by (auto simp: route_request_def bind_eq_Some_conv)
  show ?thesis
  proof (cases "if rc = 0 then route else None")
    case None
    with assms r show ?thesis by (auto simp: route_request_def)
  next
    case (Some rt)
    obtain g cb cands where s: "model_router_select_candidates_targeted (ch_globals c) (ch_cb c) (te_redis te) (te_clock te) (te_entry_ok te) (ch_lt c)
                  (te_junk te) rt (cq_target_provider q) (int MAX_TARGETS_PER_MODEL) = (g, cb, cands)" by (metis surj_pair)
    have e: "answers (q\<lparr>cq_route := rt', cq_fq := (cq_fq q)\<lparr>fq_route_prompt := a, fq_route_mode := m\<rparr>\<rparr>) = answers q" for rt' a m
      by (simp add: answers_def)
    show ?thesis
    proof (cases "cands = None \<or> cands = Some []")
      case True
      with assms r Some s e show ?thesis by (auto simp: route_request_def Let_def)
    next
      case False
      then obtain t ts where "cands = Some (t # ts)" by (cases cands; cases "the cands") auto
      with assms r Some s show ?thesis by (auto simp: route_request_def Let_def answers_def)
    qed
  qed
qed

lemma resolve_count:
  assumes "resolve_chat_target L te q c = Some (c', q', go)"
  shows "answers q' = answers q + (if go then 0 else 1)"
proof -
  let ?q = "read_model L q" and ?m = "fq_model (cq_fq (read_model L q))"
  have e: "answers ?q = answers q" by (simp add: read_model_def Let_def answers_def)
  show ?thesis
  proof (cases "?m = [] \<or> \<not> key_allows_model (Some (cq_krec ?q)) (Some ?m)")
    case True
    with assms e show ?thesis by (auto simp: resolve_chat_target_def Let_def)
  next
    case False
    with assms obtain c1 q1 where 1: "route_canary te (?q\<lparr>cq_requested_model := cstr_copy 64 ?m\<rparr>) c = Some (c1, q1)"
      by (auto simp: resolve_chat_target_def Let_def bind_eq_Some_conv)
    obtain c2 q2 where 2: "route_sla te q1 c1 = (c2, q2)" by fastforce
    obtain c3 q3 where 3: "mirror_request L te q2 c2 = (c3, q3)" by fastforce
    have "route_request te q3 c3 = Some (c', q', go)" using assms False 1 2 3 by (simp add: resolve_chat_target_def Let_def)
    from route_count [OF this] canary_effects [OF 1] sla_effects [OF 2] mirror_effects [OF 3] e show ?thesis by (simp add: answers_def)
  qed
qed

lemma answer_hitD:
  assumes "answer_hit hdr L xe q streaming rc a c = Some (c', q')"
  obtains e body out where "cm_entries (rc_mem rc) a = Some e" "read_body (rc_mem rc) (en_response_body e) = Some body"
    "out = (if streaming then map_option (\<lambda>ls. Fx_Json 200 (concat ls)) (cache_stream_replay (json_lib.truncate L) xe (cq_model q) e body)
       else Some (Fx_Json 200 (take (en_response_len e) body)))" "out \<noteq> None" "q' = q\<lparr>cq_fq := fq_emit [the out] (cq_fq q)\<rparr>"
proof -
  from assms obtain e where e: "cm_entries (rc_mem rc) a = Some e" by (cases "cm_entries (rc_mem rc) a") (simp_all add: answer_hit_def)
  from assms e obtain body where b: "read_body (rc_mem rc) (en_response_body e) = Some body"
    by (cases "read_body (rc_mem rc) (en_response_body e)") (simp_all add: answer_hit_def)
  define out where "out = (if streaming then map_option (\<lambda>ls. Fx_Json 200 (concat ls)) (cache_stream_replay (json_lib.truncate L) xe (cq_model q) e body)
       else Some (Fx_Json 200 (take (en_response_len e) body)))"
  from assms e b have r: "Option.bind out (\<lambda>o1. Option.bind (charge_hit hdr xe q e (\<not> streaming) c) (\<lambda>c1.
      Option.bind (response_cache_release_entry rc a) (\<lambda>rc1. Some (c1\<lparr>ch_cache := Some rc1\<rparr>, q\<lparr>cq_fq := fq_emit [o1] (cq_fq q)\<rparr>)))) = Some (c', q')"
    by (simp add: answer_hit_def out_def)
  then have "out \<noteq> None" "q' = q\<lparr>cq_fq := fq_emit [the out] (cq_fq q)\<rparr>" by (auto simp: bind_eq_Some_conv)
  with that [OF e b out_def] show ?thesis by blast
qed

lemma answer_hit_count:
  assumes "answer_hit hdr L xe q streaming rc a c = Some (c', q')"
  shows "answers q' = Suc (answers q)"
  using assms by (rule answer_hitD) (auto simp: answers_def fq_emit_def is_answer_def split: if_splits)

lemma cache_key_effects: "with_cache_key L xe q c = Some q' \<Longrightarrow> fq_effects (cq_fq q') = fq_effects (cq_fq q)"
  by (auto simp: with_cache_key_def split: if_splits)

lemma cache_control_effects [simp]: "fq_effects (cq_fq (read_cache_control q)) = fq_effects (cq_fq q)"
  by (simp add: read_cache_control_def Let_def split: option.splits)

text \<open>The cases of the look into the cache.\<close>

lemma prepare_cases:
  assumes "prepare_chat_cache hdr L xe q c = Some (c', q', streaming, handled)"
  obtains (unsupported) "handled" "q' = write_error PIPE_UNSUPPORTED ''unsupported_provider'' ''provider not supported by this build'' q" "c' = c"
    "\<not> list_ex (\<lambda>t. chat_builder xe t \<noteq> None) (cq_candidates q)"
  | (miss) "\<not> handled" "with_cache_key L xe (read_cache_control q) c = Some q'" "ch_gw c' = ch_gw c" "ch_globals c' = ch_globals c" "ch_shadow c' = ch_shadow c"
  | (hit) q1 rc rc1 a where "handled" "with_cache_key L xe (read_cache_control q) c = Some q1" "ch_cache c = Some rc" "cq_cache_key q1 \<noteq> []"
    "response_cache_get rc (Some (cq_cache_key q1)) (gi_now (xe_gi xe)) = Some (rc1, Some a)"
    "answer_hit hdr L xe q1 streaming rc1 a (c\<lparr>ch_cache := Some rc1\<rparr>) = Some (c', q')"
proof (cases "list_ex (\<lambda>t. chat_builder xe t \<noteq> None) (cq_candidates q)")
  case False
  with assms unsupported show ?thesis by (auto simp: prepare_chat_cache_def)
next
  case True
  with assms obtain q1 where q1: "with_cache_key L xe (read_cache_control q) c = Some q1"
    by (auto simp: prepare_chat_cache_def Let_def bind_eq_Some_conv split: if_splits)
  show ?thesis
  proof (cases "ch_cache c = None \<or> cq_cache_key q1 = []")
    case c: True
    with assms True q1 miss show ?thesis by (cases "ch_cache c") (auto simp: prepare_chat_cache_def Let_def split: if_splits)
  next
    case c: False
    then obtain rc where rc: "ch_cache c = Some rc" by auto
    with assms True q1 c obtain rc1 h where g: "response_cache_get rc (Some (cq_cache_key q1)) (gi_now (xe_gi xe)) = Some (rc1, h)"
      by (auto simp: prepare_chat_cache_def Let_def bind_eq_Some_conv split: if_splits)
    show ?thesis
    proof (cases h)
      case None
      with assms True q1 c rc g miss show ?thesis by (auto simp: prepare_chat_cache_def Let_def split: if_splits)
    next
      case (Some a)
      with assms True q1 c rc g hit [OF _ q1 rc] show ?thesis by (auto simp: prepare_chat_cache_def Let_def split: if_splits)
    qed
  qed
qed

lemma prepare_count:
  assumes "prepare_chat_cache hdr L xe q c = Some (c', q', streaming, handled)"
  shows "answers q' = answers q + (if handled then 1 else 0)"
  using assms
proof (cases rule: prepare_cases)
  case unsupported
  then show ?thesis by simp
next
  case miss
  from cache_key_effects [OF miss(2)] miss(1) show ?thesis by (simp add: answers_def)
next
  case (hit q1 rc rc1 a)
  from answer_hit_count [OF hit(6)] cache_key_effects [OF hit(2)] hit(1) show ?thesis by (simp add: answers_def)
qed

text \<open>A request streams when the document of its body says so, as the filters left it.\<close>

lemma cache_key_document: "with_cache_key L xe (read_cache_control q) c = Some q' \<Longrightarrow> fq_jbody (cq_fq q') = fq_jbody (cq_fq q)"
  by (auto simp: with_cache_key_def read_cache_control_def Let_def split: if_splits option.splits)

lemma prepare_streaming:
  assumes "prepare_chat_cache hdr L xe q c = Some (c', q', streaming, False)"
  shows "streaming = xe_is_true xe (jo_get L (fq_jbody (cq_fq q')) ''stream'')"
  using assms
proof (cases rule: prepare_cases)
  case miss
  have "streaming = xe_is_true xe (jo_get L (fq_jbody (cq_fq q)) ''stream'')"
    using assms by (auto simp: prepare_chat_cache_def Let_def bind_eq_Some_conv split: if_splits option.splits)
  with cache_key_document [OF miss(2)] show ?thesis by simp
qed simp_all

lemma compress_document_kept: "compress_chat L xe q c = (c', q') \<Longrightarrow> fq_jbody (cq_fq q') = fq_jbody (cq_fq q)"
  by (auto simp: compress_chat_def split: option.splits prod.splits)

lemma optimize_document_kept [simp]: "fq_jbody (cq_fq (optimize_chat L xe q)) = fq_jbody (cq_fq q)"
  by (simp add: optimize_chat_def Let_def split: option.splits prod.splits)

lemma compress_effects: "compress_chat L xe q c = (c', q') \<Longrightarrow> fq_effects (cq_fq q') = fq_effects (cq_fq q)"
  by (auto simp: compress_chat_def split: option.splits prod.splits)

lemma optimize_effects [simp]: "fq_effects (cq_fq (optimize_chat L xe q)) = fq_effects (cq_fq q)"
  by (simp add: optimize_chat_def Let_def split: option.splits prod.splits)

text \<open>C39. However a chat request ends, whether it is refused, stopped by a filter, answered from the cache, by the first upstream that replies well or
  by none, the client gets exactly one answer; only a request whose document asks for a stream is handed to the streaming handler, and then without an
  answer so far. Undefined behaviour on the way, as the empty body below, is excluded.\<close>

theorem chat_one_answer:
  assumes "handle_chat_request hdr L xe stream q c = Some (c', q')"
  shows "answers q' = Suc (answers q) \<or>
    (\<exists>c1 q1. stream q1 c1 = Some (c', q') \<and> xe_is_true xe (jo_get L (fq_jbody (cq_fq q1)) ''stream'') \<and> answers q1 = answers q)"
proof -
  from assms(1) obtain c1 q1 go where 1: "resolve_chat_target (json_lib.truncate L) (xe_target xe) q c = Some (c1, q1, go)"
    by (auto simp: handle_chat_request_def Let_def bind_eq_Some_conv)
  note n1 = resolve_count [OF 1]
  show ?thesis
  proof (cases go)
    case False
    with assms(1) 1 n1 show ?thesis by (simp add: handle_chat_request_def Let_def)
  next
    case True
    with assms(1) 1 obtain f act where 2: "filter_chain_execute_inbound L (xe_filter xe) (cq_fq q1) = Some (f, act)"
      by (auto simp: handle_chat_request_def Let_def bind_eq_Some_conv)
    let ?q2 = "q1\<lparr>cq_fq := f\<rparr>"
    note n2 = answered_count [OF inbound_answered [OF 2]]
    show ?thesis
    proof (cases act)
      case FILTER_STOP
      with assms(1) 1 2 True n1 n2 show ?thesis by (simp add: handle_chat_request_def Let_def)
    next
      case FILTER_CONTINUE
      with assms(1) 1 2 True obtain c3 q3 c4 q4 streaming handled where
        3: "chat_apply_reasoning_quota_and_degradation L xe ?q2 c1 = Some (c3, q3)"
        and 4: "prepare_chat_cache hdr L xe q3 c3 = Some (c4, q4, streaming, handled)"
        by (auto simp: handle_chat_request_def Let_def bind_eq_Some_conv)
      have n3: "answers q3 = answers ?q2" using apply_quota_count [OF 3] by (simp add: answers_def)
      note n4 = prepare_count [OF 4]
      obtain c5 q5 where 5: "compress_chat (json_lib.truncate L) xe q4 c4 = (c5, q5)" by fastforce
      have n5: "answers (optimize_chat (json_lib.truncate L) xe q5) = answers q4" using compress_effects [OF 5] by (simp add: answers_def)
      show ?thesis
      proof (cases handled)
        case h: True
        with assms(1) 1 2 3 4 True FILTER_CONTINUE n1 n2 n3 n4 show ?thesis by (simp add: handle_chat_request_def Let_def)
      next
        case h: False
        with assms(1) 1 2 3 4 5 True FILTER_CONTINUE
        have "(if streaming then stream (optimize_chat (json_lib.truncate L) xe q5) c5
               else handle_chat_sync hdr L xe (optimize_chat (json_lib.truncate L) xe q5) c5) = Some (c', q')"
          by (simp add: handle_chat_request_def Let_def)
        moreover have "streaming = xe_is_true xe (jo_get L (fq_jbody (cq_fq (optimize_chat (json_lib.truncate L) xe q5))) ''stream'')"
          using prepare_streaming [of hdr L xe q3 c3 c4 q4 streaming] 4 h compress_document_kept [OF 5] by simp
        moreover have "answers (optimize_chat (json_lib.truncate L) xe q5) = answers q" using n1 n2 n3 n4 n5 h True FILTER_CONTINUE by simp
        ultimately show ?thesis
          using chat_sync_count [of hdr L xe "optimize_chat (json_lib.truncate L) xe q5" c5 c' q'] by (cases streaming) auto
      qed
    qed
  qed
qed

section \<open>Slots\<close>

abbreviation slots :: "'h chat_core \<Rightarrow> target_slot list" where
  "slots c \<equiv> g_target_slots (ch_globals c)"

lemma meter_globals: "meter hdr xe q st pt ct ca re lat pr co c = Some c' \<Longrightarrow> ch_globals c' = ch_globals c"
  by (auto simp: meter_def)

lemma reserve_globals: "reserve xe q t c = Some c' \<Longrightarrow> ch_globals c' = ch_globals c"
  by (auto simp: reserve_def Let_def)

lemma record_tokens_globals: "chat_record_tokens_and_reasoning xe q t r c = Some c' \<Longrightarrow> ch_globals c' = ch_globals c"
  by (auto simp: chat_record_tokens_and_reasoning_def bind_eq_Some_conv Let_def dest!: reserve_globals split: if_splits)

lemma store_globals: "store_answer xe q p b co c = Some c' \<Longrightarrow> ch_globals c' = ch_globals c"
  by (auto simp: store_answer_def split: option.splits if_splits)

lemma small_globals [simp]:
  "ch_globals (handle_prompt_cache_accounting J xe q route pt ca c) = ch_globals c"
  "ch_globals (audit xe q pr st pt ct lat sev vt d c) = ch_globals c"
  "ch_globals (audit_routed xe q pr st pt ct lat c) = ch_globals c"
  "ch_globals (record_spend xe q co t c) = ch_globals c"
  "ch_globals (report_primary q lat st t co b c) = ch_globals c"
  "ch_globals (note_success q tg c) = ch_globals c"
  "ch_globals (note_failure xe q ci tg st c) = ch_globals c"
  "ch_globals (note_latency q tg lat c) = ch_globals c"
  "ch_globals (note_sla xe q ci tg lat c) = ch_globals c"
  by (simp_all add: handle_prompt_cache_accounting_def audit_def audit_routed_def record_spend_def report_primary_def note_success_def note_failure_def
      note_latency_def note_sla_def Let_def)

lemma settle_globals: "settle_answer hdr J xe routed route pr lat q p b c = Some c' \<Longrightarrow> ch_globals c' = ch_globals c"
  unfolding settle_answer_def Let_def
  by (auto simp: bind_eq_Some_conv dest!: meter_globals record_tokens_globals store_globals split: if_splits)

lemma answer_success_globals: "answer_success hdr L xe routed route cur pr u lat q c = Some (c', q') \<Longrightarrow> ch_globals c' = ch_globals c"
  by (auto simp: answer_success_def dest!: settle_globals split: option.splits if_splits)

lemma surface_error_globals: "surface_error hdr xe audited pr st b lat q c = Some (c', q') \<Longrightarrow> ch_globals c' = ch_globals c"
  by (auto simp: surface_error_def dest!: meter_globals split: if_splits)

lemma sync_reply_globals: "sync_reply hdr L xe route ci t u lat q c = Some ((c', q', lat', pr), v) \<Longrightarrow> ch_globals c' = ch_globals c"
  by (auto simp: sync_reply_def Let_def dest!: answer_success_globals surface_error_globals split: if_splits option.splits)

lemma hedged_reply_globals: "hedged_reply hdr L xe route win u q c = Some ((c', q', lat', pr), a, start) \<Longrightarrow> ch_globals c' = ch_globals c"
  by (auto simp: hedged_reply_def Let_def dest!: answer_success_globals surface_error_globals split: if_splits option.splits bool.splits)

text \<open>The targets of a request: at most as many endpoints as there are slots, each fitting its field.\<close>

definition known_targets :: "string set \<Rightarrow> upstream_target list \<Rightarrow> bool" where
  "known_targets E ts \<longleftrightarrow> finite E \<and> card E \<le> MR_MAX_CONCURRENT_TARGETS \<and>
     (\<forall>t \<in> set ts. ut_endpoint t \<in> E \<and> ut_endpoint t \<noteq> [] \<and> length (ut_endpoint t) < 512)"

lemma acquire_cases:
  assumes "acquire t c = (c', ok)" "fl_inv E (slots c) held" "known_targets E ts" "t \<in> set ts"
  shows "fl_inv E (slots c') (if ok then held(ut_endpoint t := held (ut_endpoint t) + 1) else held)"
proof -
  from assms(3,4) have t: "ut_endpoint t \<in> E" "ut_endpoint t \<noteq> []" "length (ut_endpoint t) < 512" "finite E" "card E \<le> MR_MAX_CONCURRENT_TARGETS"
    by (auto simp: known_targets_def)
  from acquire_exact [OF assms(2) t] assms(1) show ?thesis by (fastforce simp: acquire_def split: if_splits)
qed

lemma release_held:
  assumes "fl_inv E (slots c) held" "0 < held (ut_endpoint t)" "known_targets E ts" "t \<in> set ts"
  shows "fl_inv E (slots (release t c)) (held(ut_endpoint t := held (ut_endpoint t) - 1))"
  using release_exact [OF assms(1,2)] assms(3,4) by (simp add: release_def known_targets_def)

lemma held_nonneg: "fl_inv E s held \<Longrightarrow> 0 \<le> held ep"
  by (simp add: fl_inv_def)

lemma acquire_release:
  assumes "acquire t c = (c', True)" "fl_inv E (slots c) held" "known_targets E ts" "t \<in> set ts"
  shows "fl_inv E (slots (release t c')) held"
proof -
  have "fl_inv E (slots c') (held(ut_endpoint t := held (ut_endpoint t) + 1))" using acquire_cases [OF assms] by simp
  from release_held [OF this _ assms(3,4)] held_nonneg [OF assms(2), of "ut_endpoint t"] show ?thesis by simp
qed

lemma sync_attempt_slots:
  assumes "sync_attempt hdr L xe route ci t (c, q, lat, prov) = Some ((c', q', lat', prov'), v)"
    and "fl_inv E (slots c) held" "known_targets E ts" "t \<in> set ts"
  shows "fl_inv E (slots c') held"
proof (cases "chat_adapter xe t")
  case None
  with assms(1,2) show ?thesis by (simp add: sync_attempt_def)
next
  case (Some build)
  obtain c1 ok where a: "acquire t c = (c1, ok)" by fastforce
  show ?thesis
  proof (cases ok)
    case False
    with acquire_cases [OF a assms(2-4)] assms(1) Some a show ?thesis by (simp add: sync_attempt_def)
  next
    case True
    from assms(1) Some a True have "ch_globals c' = ch_globals (release t c1)"
      by (auto simp: sync_attempt_def Let_def dest!: sync_reply_globals split: option.splits)
    moreover have "acquire t c = (c1, True)" using a True by simp
    ultimately show ?thesis using acquire_release [OF _ assms(2-4)] by metis
  qed
qed

lemma sync_loop_slots:
  assumes "fl_inv E (slots c) held" "known_targets E all" "set ts \<subseteq> set all"
    and "sync_loop hdr L xe route ci sat ts (c, q, lat, prov) = Some ((c', q', lat', prov'), a, sat')"
  shows "fl_inv E (slots c') held"
  using assms
proof (induction ts arbitrary: ci sat c q lat prov)
  case (Cons t ts)
  from Cons.prems(4) obtain c1 q1 lat1 prov1 v where att: "sync_attempt hdr L xe route ci t (c, q, lat, prov) = Some ((c1, q1, lat1, prov1), v)"
    by (auto split: option.splits)
  have "fl_inv E (slots c1) held" using sync_attempt_slots [OF att Cons.prems(1,2)] Cons.prems(3) by simp
  with Cons.IH [of c1] Cons.prems att show ?case by (cases v) auto
qed simp

lemma both_released:
  assumes "acquire t0 c = (c1, a0)" "acquire t1 c1 = (c2, a1)" "fl_inv E (slots c) held" "known_targets E ts" "t0 \<in> set ts" "t1 \<in> set ts"
  defines "c3 \<equiv> (if a0 then release t0 c2 else c2)"
  shows "fl_inv E (slots (if a1 then release t1 c3 else c3)) held"
proof -
  define inc where "inc t a h = (if a then h(ut_endpoint t := h (ut_endpoint t) + 1) else h)" for t :: upstream_target and a and h :: "string \<Rightarrow> int"
  have h1: "fl_inv E (slots c1) (inc t0 a0 held)" using acquire_cases [OF assms(1,3,4,5)] by (simp add: inc_def)
  have h2: "fl_inv E (slots c2) (inc t1 a1 (inc t0 a0 held))" using acquire_cases [OF assms(2) h1 assms(4,6)] by (simp only: inc_def [of t1])
  note nn = held_nonneg [OF assms(3)]
  have h3: "fl_inv E (slots c3) (inc t1 a1 held)"
  proof (cases a0)
    case True
    have pos: "0 < inc t1 a1 (inc t0 a0 held) (ut_endpoint t0)" using nn [of "ut_endpoint t0"] True by (auto simp: inc_def)
    have eq: "(inc t1 a1 (inc t0 a0 held))(ut_endpoint t0 := inc t1 a1 (inc t0 a0 held) (ut_endpoint t0) - 1) = inc t1 a1 held"
      using True by (auto simp: inc_def fun_eq_iff)
    from release_held [OF h2 pos assms(4,5)] True show ?thesis unfolding eq by (simp add: c3_def)
  next
    case False
    with h2 show ?thesis by (simp add: c3_def inc_def)
  qed
  show ?thesis
  proof (cases a1)
    case True
    with release_held [OF h3 _ assms(4,6)] nn [of "ut_endpoint t1"] show ?thesis by (simp add: inc_def)
  next
    case False
    with h3 show ?thesis by (simp add: inc_def)
  qed
qed

lemma hedged_attempt_slots:
  assumes "hedged_attempt hdr L xe route (c, q, lat, prov) = Some ((c', q', lat', prov'), a, start)"
    and "fl_inv E (slots c) held" "known_targets E (cq_candidates q)"
  shows "fl_inv E (slots c') held"
proof (cases "\<exists>t0 t1 ts b0 b1. md_hedged_enabled route \<and> cq_candidates q = t0 # t1 # ts \<and> chat_builder xe t0 = Some b0 \<and> chat_builder xe t1 = Some b1")
  case False
  with assms(1,2) show ?thesis
    by (auto simp: hedged_attempt_def split: bool.splits list.splits option.splits)
next
  case True
  then obtain t0 t1 ts b0 b1 where h: "md_hedged_enabled route" "cq_candidates q = t0 # t1 # ts" "chat_builder xe t0 = Some b0"
    "chat_builder xe t1 = Some b1" by blast
  obtain c1 a0 where 0: "acquire t0 c = (c1, a0)" by fastforce
  obtain c2 a1 where 1: "acquire t1 c1 = (c2, a1)" by fastforce
  let ?c3 = "if a0 then release t0 c2 else c2"
  have "fl_inv E (slots (if a1 then release t1 ?c3 else ?c3)) held"
    using both_released [OF 0 1 assms(2,3)] h(2) by simp
  moreover have "ch_globals c' = ch_globals (if a1 then release t1 ?c3 else ?c3)"
    using assms(1) h 0 1 unfolding hedged_attempt_def
    by (auto simp: Let_def dest!: hedged_reply_globals split: option.splits if_splits)
  ultimately show ?thesis by simp
qed

lemma exhausted_globals: "answer_exhausted hdr xe saturated (c, q, lat, prov) = Some (c', q') \<Longrightarrow> ch_globals c' = ch_globals c"
  by (auto simp: answer_exhausted_def dest!: meter_globals split: if_splits)

lemma apply_quota_same:
  "chat_apply_reasoning_quota_and_degradation L xe q c = Some (c', q') \<Longrightarrow> ch_globals c' = ch_globals c \<and> cq_candidates q' = cq_candidates q"
  by (auto simp: chat_apply_reasoning_quota_and_degradation_def degrade_request_def Let_def split: if_splits option.splits)

text \<open>The slots of the upstreams are given back: however the calls of a request end, by an answer, by an error that is handed on, by saturation
  of one of the two hedged targets or by none, each endpoint counts as many requests in flight afterwards as before.\<close>

theorem chat_slots_balanced:
  assumes "handle_chat_sync hdr L xe q c = Some (c', q')"
    and "fl_inv E (slots c) held" "known_targets E (cq_candidates q)"
  shows "fl_inv E (slots c') held"
proof -
  from assms(1) obtain c1 q1 where 1: "chat_apply_reasoning_quota_and_degradation L xe q c = Some (c1, q1)"
    by (auto simp: handle_chat_sync_def bind_eq_Some_conv)
  from assms(1) 1 obtain route c2 q2 lat prov a start where 2: "hedged_attempt hdr L xe route (c1, q1, 0, md_provider route) = Some ((c2, q2, lat, prov), a, start)"
    "cq_route q1 = Some route" by (auto simp: handle_chat_sync_def bind_eq_Some_conv)
  have same: "ch_globals c1 = ch_globals c" "cq_candidates q1 = cq_candidates q" using apply_quota_same [OF 1] by simp_all
  have i2: "fl_inv E (slots c2) held" by (rule hedged_attempt_slots [OF 2(1)]) (use same assms(2,3) in simp_all)
  show ?thesis
  proof (cases a)
    case True
    with assms(1) 1 2 i2 show ?thesis by (simp add: handle_chat_sync_def)
  next
    case False
    have q2: "q2 = q1" using hedged_attempt_count [OF 2(1)] False by (simp add: answered_if_def)
    from assms(1) 1 2 False obtain c3 q3 lat3 prov3 b sat where 3:
      "sync_loop hdr L xe route start 0 (drop start (cq_candidates q2)) (c2, q2, lat, prov) = Some ((c3, q3, lat3, prov3), b, sat)"
      by (auto simp: handle_chat_sync_def bind_eq_Some_conv)
    have "fl_inv E (slots c3) held"
      by (rule sync_loop_slots [OF i2 assms(3) _ 3]) (use q2 same set_drop_subset in fastforce)
    moreover have "ch_globals c' = ch_globals c3"
      using assms(1) 1 2 3 False by (auto simp: handle_chat_sync_def dest!: exhausted_globals split: if_splits)
    ultimately show ?thesis by simp
  qed
qed

section \<open>Failover\<close>

text \<open>The candidate at position \<open>ci\<close> is asked for the message of its adapter and gives \<open>u\<close>.\<close>

definition asked :: "'j chat_env \<Rightarrow> model_rec \<Rightarrow> 'j chat_req \<Rightarrow> nat \<Rightarrow> upstream_target \<Rightarrow> up_reply \<Rightarrow> bool" where
  "asked xe route q ci t u \<longleftrightarrow>
     (\<exists>build msg. chat_adapter xe t = Some build \<and> build (fill_cur_route route t) (fq_eff (cq_fq q)) = Some msg \<and> call_upstream xe q ci msg = Some u)"

text \<open>The state after a call, and after calls that failed over.\<close>

definition called :: "'j chat_env \<Rightarrow> 'j chat_req \<Rightarrow> nat \<Rightarrow> upstream_target \<Rightarrow> up_reply \<Rightarrow> 'h chat_core \<Rightarrow> 'h chat_core" where
  "called xe q ci t u c = note_sla xe q ci t (up_lat u) (note_latency q t (up_lat u) (release t (fst (acquire t c))))"

fun failed_over :: "'j chat_env \<Rightarrow> 'j chat_req \<Rightarrow> nat \<Rightarrow> (upstream_target \<times> up_reply) list \<Rightarrow> 'h chat_core \<Rightarrow> 'h chat_core" where
  "failed_over xe q ci [] c = c"
| "failed_over xe q ci ((t, u) # us) c = failed_over xe q (Suc ci) us (note_failure xe q ci t (up_status u) (called xe q ci t u c))"

definition total_lat :: "(upstream_target \<times> up_reply) list \<Rightarrow> 64 word" where
  "total_lat us = sum_list (map (up_lat \<circ> snd) us)"

lemma acquire_unlimited:
  assumes "ut_max_concurrent t \<le> 0"
  shows "acquire t c = (fst (acquire t c), True)"
  using assms by (auto simp: acquire_def model_router_acquire_target_def acquire_cas_def Let_def split: prod.splits option.splits)

lemma asked_attempt:
  assumes "asked xe route q ci t u" "ut_max_concurrent t \<le> 0"
  shows "sync_attempt hdr L xe route ci t (c, q, lat, prov) = sync_reply hdr L xe route ci t u (lat + up_lat u) q (called xe q ci t u c)"
proof -
  from assms(1) obtain build msg where a: "chat_adapter xe t = Some build" "build (fill_cur_route route t) (fq_eff (cq_fq q)) = Some msg"
    "call_upstream xe q ci msg = Some u" by (auto simp: asked_def)
  from acquire_unlimited [OF assms(2), of c] obtain c1 where c1: "acquire t c = (c1, True)" by metis
  with a show ?thesis by (simp add: sync_attempt_def called_def Let_def)
qed

lemma failover_reply:
  assumes "is_failover (up_urc u) (up_status u)"
  shows "sync_reply hdr L xe route ci t u lat q c = Some ((note_failure xe q ci t (up_status u) c, q, lat, ut_provider t), V_Next)"
  using assms by (simp add: sync_reply_def Let_def)

lemma sync_loop_failed_over:
  assumes "\<forall>i < length us. asked xe route q (ci + i) (fst (us ! i)) (snd (us ! i)) \<and> is_failover (up_urc (snd (us ! i))) (up_status (snd (us ! i))) \<and>
    ut_max_concurrent (fst (us ! i)) \<le> 0"
  shows "\<exists>prov'. sync_loop hdr L xe route ci sat (map fst us @ ts) (c, q, lat, prov) =
    sync_loop hdr L xe route (ci + length us) sat ts (failed_over xe q ci us c, q, lat + total_lat us, prov')"
  using assms
proof (induction us arbitrary: ci c lat prov)
  case Nil
  then show ?case by (auto simp: total_lat_def)
next
  case (Cons a us)
  obtain t u where a: "a = (t, u)" by fastforce
  from Cons.prems have h: "asked xe route q ci t u" "is_failover (up_urc u) (up_status u)" "ut_max_concurrent t \<le> 0"
    by (auto simp: a dest: spec [of _ 0])
  have "\<forall>i < length us. asked xe route q (Suc ci + i) (fst (us ! i)) (snd (us ! i)) \<and> is_failover (up_urc (snd (us ! i))) (up_status (snd (us ! i))) \<and>
    ut_max_concurrent (fst (us ! i)) \<le> 0"
    using Cons.prems by (auto dest: spec [of _ "Suc _"])
  from Cons.IH [OF this, of "note_failure xe q ci t (up_status u) (called xe q ci t u c)" "lat + up_lat u" "ut_provider t"]
  show ?case
    by (simp add: a asked_attempt [OF h(1,3)] failover_reply [OF h(2)] total_lat_def add.assoc)
qed

text \<open>Failover goes down the candidates in their order: if those before a candidate fail over, by a failed call, by 429 or by 500 to 504, and that
  candidate replies well, then the request is answered from its reply and from no other, charged with the latency of all calls, with every failure
  recorded for the breaker and the success of the one that answered.\<close>

theorem chat_failover:
  assumes "cq_route q = Some route" "\<not> md_hedged_enabled route"
    and "gw_rl (ch_gw c) = None \<or> cq_degraded q \<or> reasoning_quota q c \<le> 0"
    and "cq_candidates q = map fst us @ t # ts"
    and "\<forall>i < length us. asked xe route q i (fst (us ! i)) (snd (us ! i)) \<and> is_failover (up_urc (snd (us ! i))) (up_status (snd (us ! i))) \<and>
      ut_max_concurrent (fst (us ! i)) \<le> 0"
    and "asked xe route q (length us) t u" "\<not> is_failover (up_urc u) (up_status u)" "up_status u < 400" "ut_max_concurrent t \<le> 0"
  shows "handle_chat_sync hdr L xe q c =
    answer_success hdr L xe True route (fill_cur_route route t) (ut_provider t) u (total_lat us + up_lat u) q
      (note_success q t (called xe q (length us) t u (failed_over xe q 0 us c)))"
proof -
  have 1: "chat_apply_reasoning_quota_and_degradation L xe q c = Some (c, q)"
    using assms(3) by (auto simp: chat_apply_reasoning_quota_and_degradation_def Let_def)
  have 2: "hedged_attempt hdr L xe route (c, q, 0, md_provider route) = Some ((c, q, 0, md_provider route), False, 0)"
    using assms(2) by (simp add: hedged_attempt_def)
  let ?c = "called xe q (length us) t u (failed_over xe q 0 us c)"
  let ?r = "answer_success hdr L xe True route (fill_cur_route route t) (ut_provider t) u (total_lat us + up_lat u) q (note_success q t ?c)"
  obtain prov' where l: "sync_loop hdr L xe route 0 0 (map fst us @ t # ts) (c, q, 0, md_provider route) =
      sync_loop hdr L xe route (length us) 0 (t # ts) (failed_over xe q 0 us c, q, total_lat us, prov')"
    using sync_loop_failed_over [of us xe route q 0 hdr L 0 "t # ts" c 0 "md_provider route"] assms(5) by auto
  have "sync_attempt hdr L xe route (length us) t (failed_over xe q 0 us c, q, total_lat us, prov') =
      map_option (\<lambda>(c1, q1). ((c1, q1, total_lat us + up_lat u, ut_provider t), V_Answered)) ?r"
    using asked_attempt [OF assms(6,9)] assms(7,8) by (simp add: sync_reply_def)
  with l have "sync_loop hdr L xe route 0 0 (map fst us @ t # ts) (c, q, 0, md_provider route) =
      map_option (\<lambda>(c1, q1). ((c1, q1, total_lat us + up_lat u, ut_provider t), True, 0)) ?r"
    by (cases ?r) auto
  with 1 2 assms(1,4) show ?thesis by (cases ?r) (auto simp: handle_chat_sync_def)
qed

text \<open>An upstream that answers with an empty body brings the gateway down: the client of upstreams hands out a literal for it, which the handler
  frees, whatever the status is.\<close>

theorem chat_empty_body_undefined:
  assumes "cq_route q = Some route" "\<not> md_hedged_enabled route"
    and "gw_rl (ch_gw c) = None \<or> cq_degraded q \<or> reasoning_quota q c \<le> 0"
    and "cq_candidates q = t # ts" "ut_max_concurrent t \<le> 0" "chat_adapter xe t = Some build"
    and "build (fill_cur_route route t) (fq_eff (cq_fq q)) = Some msg" "up_urc (xe_call xe 0 0 msg) = 0" "up_body (xe_call xe 0 0 msg) = Some []"
  shows "handle_chat_sync hdr L xe q c = None"
proof -
  from acquire_unlimited [OF assms(5), of c] obtain c1 where c1: "acquire t c = (c1, True)" by metis
  have "call_upstream xe q 0 msg = None" using assms(8,9) by (simp add: call_upstream_def reply_of_def)
  with c1 assms(6,7) have "sync_attempt hdr L xe route 0 t (c, q, 0, md_provider route) = None" by (simp add: sync_attempt_def)
  moreover have "chat_apply_reasoning_quota_and_degradation L xe q c = Some (c, q)"
    using assms(3) by (auto simp: chat_apply_reasoning_quota_and_degradation_def Let_def)
  moreover have "hedged_attempt hdr L xe route (c, q, 0, md_provider route) = Some ((c, q, 0, md_provider route), False, 0)"
    using assms(2) by (simp add: hedged_attempt_def)
  ultimately show ?thesis using assms(1,4) by (simp add: handle_chat_sync_def)
qed

section \<open>Instances\<close>

text \<open>A gateway with a router and nothing that could refuse an account, and one provider.\<close>

definition bare_gateway :: "auth_cache \<Rightarrow> unit gateway" where
  "bare_gateway akc = \<lparr>gw_keys = akc, gw_rl = None, gw_be = None, gw_ban = None, gw_um = None, gw_eb = None, gw_audit = Some [],
     gw_max_prompt_len = 10, gw_store = None\<rparr>"

definition sample_core :: "auth_cache \<Rightarrow> model_router \<Rightarrow> target_slot list \<Rightarrow> unit chat_core" where
  "sample_core akc mr ss = \<lparr>ch_gw = bare_gateway akc, ch_cb = None, ch_lt = [], ch_globals = \<lparr>g_target_slots = ss, g_rr_counter = 0\<rparr>,
     ch_router = mr, ch_cache = None, ch_shadow = None, ch_rules = [], ch_opt = None, ch_comp = None\<rparr>"

definition sample_route :: model_rec where
  "sample_route = (demo_model ''priority'')\<lparr>md_n_targets := 1, md_targets := [demo_target ''a'' 1 0]\<rparr>"

definition sample_target_env :: target_env where
  "sample_target_env = \<lparr>te_getenv = \<lambda>_. None, te_decrypt = \<lambda>_. None, te_store = \<lambda>m. if m = ''m'' then Some sample_route else None,
     te_canary_ok = \<lambda>_. (True, True), te_canary_roll = \<lambda>_. 0, te_canary_clock = \<lambda>_ _. 0, te_sla_now = (0, 0), te_shadow_roll = \<lambda>_. 0,
     te_eval_rand = \<lambda>_. 0, te_mono_us = 0, te_body_ok = True, te_route_ok = (True, True), te_redis = \<lambda>_ _ _ _. None, te_clock = \<lambda>_. 0,
     te_entry_ok = \<lambda>_. True, te_junk = \<lambda>_. 0\<rparr>"

definition sample_chat_env :: "(nat \<Rightarrow> up_reply) \<Rightarrow> fc_env \<Rightarrow> jval chat_env" where
  "sample_chat_env reply fenv = \<lparr>xe_gi = demo_in demo_key, xe_known = \<lambda>_. True,
     xe_find = \<lambda>p. Some \<lparr>ad_build_chat = Some (\<lambda>r b. Some (md_endpoint r, b)), ad_parses = True\<rparr>,
     xe_parse = \<lambda>_ _ _ _ b st. Some \<lparr>pa_status = st, pa_body = Some b, pa_ptok = 3, pa_ctok = 4, pa_cached = 0\<rparr>,
     xe_call = \<lambda>ci _ _. reply ci, xe_hedge = \<lambda>_ _. \<lparr>hg_reply = reply 0, hg_second = False, hg_tracker = id\<rparr>, xe_filter = fenv, xe_target = sample_target_env,
     xe_del = \<lambda>d k. (case d of JObj kvs \<Rightarrow> JObj (filter (\<lambda>(k', v). k' \<noteq> k) kvs) | _ \<Rightarrow> d), xe_is_true = \<lambda>_. False, xe_int = \<lambda>_. None,
     xe_sha = \<lambda>s. replicate 32 (of_nat (length s)), xe_cache_ok = (True, True), xe_breaker_now = \<lambda>_. 0, xe_breaker_ok = \<lambda>_. True,
     xe_pack_chunk = \<lambda>_. Some ''{}'', xe_alloc_ok = \<lambda>_. True, xe_qsort = \<lambda>xs. xs, xe_us = 0, xe_comp_rules = [], xe_opt_rules = []\<rparr>"

definition sample_chat :: "string \<Rightarrow> upstream_target list \<Rightarrow> jval chat_req" where
  "sample_chat body cands = \<lparr>cq_fq = (sample_request body None)\<lparr>fq_eff := body, fq_key_prompt := [], fq_guardrails_enabled := False, fq_model := ''m'', fq_model_borrowed := False\<rparr>,
     cq_krec = demo_key, cq_client_ip = None, cq_trace_id = ''t'', cq_target_provider = None, cq_cache_control = None, cq_compress_control = None,
     cq_prompt_cache_control = None, cq_route = Some sample_route, cq_candidates = cands, cq_cache_key = [], cq_bypass_cache = False,
     cq_no_store = False, cq_requested_model = ''m'', cq_is_canary = False, cq_routed_model = [], cq_fallback_reason = [], cq_has_shadow = False,
     cq_eval_id = [], cq_opt_result = \<lparr>or_optimized = False, or_tools_sorted = False, or_dynamic_sunk = False, or_breakpoints_injected = 0,
       or_payload = None, or_latency_us = 0\<rparr>, cq_degraded = False\<rparr>"

definition busy_then_ok :: "nat \<Rightarrow> up_reply" where
  "busy_then_ok ci = (if ci = 0 then \<lparr>up_urc = 0, up_status = 503, up_body = Some ''busy'', up_lat = 5\<rparr>
     else \<lparr>up_urc = 0, up_status = 200, up_body = Some ''hi'', up_lat = 7\<rparr>)"

abbreviation two_targets :: "upstream_target list" where
  "two_targets \<equiv> [demo_target ''a'' 1 0, demo_target ''b'' 1 0]"

text \<open>The state without the components that could refuse an account.\<close>

definition bare :: "'h chat_core \<Rightarrow> bool" where
  "bare c \<longleftrightarrow> gw_um (ch_gw c) = None \<and> gw_rl (ch_gw c) = None \<and> ch_cache c = None"

lemma bare_calls [simp]:
  "bare (release t c) = bare c" "bare (fst (acquire t c)) = bare c" "bare (note_success q t c) = bare c" "bare (note_failure xe q ci t st c) = bare c"
  "bare (called xe q ci t u c) = bare c"
  by (simp_all add: bare_def release_def acquire_def note_success_def note_failure_def called_def note_latency_def note_sla_def Let_def
      split: prod.splits)

lemma bare_failed_over [simp]: "bare (failed_over xe q ci us c) = bare c"
  by (induction us arbitrary: ci c) auto

lemma settle_bare:
  assumes "bare c"
  shows "\<exists>c'. settle_answer hdr J xe routed route pr lat q p b c = Some c'"
proof -
  have m: "\<exists>c'. meter hdr xe q st pt ct ca re lat pr co c = Some c' \<and> bare c'" if "bare c" for st pt ct ca re co and c :: "'a chat_core"
    using that by (auto simp: meter_def record_usage_and_event_def bare_def)
  have k: "bare (handle_prompt_cache_accounting J xe q route pt ca c) = bare c" "bare (audit xe q pr st pt ct lat sev vt d c) = bare c"
    "bare (audit_routed xe q pr st pt ct lat c) = bare c" "bare (record_spend xe q co n c) = bare c" "bare (report_primary q lat st n co b c) = bare c"
    for pt ca st ct sev vt d co n and c :: "'a chat_core"
    by (simp_all add: bare_def handle_prompt_cache_accounting_def audit_def audit_routed_def aigate_record_audit_def aigate_record_audit_ex_def record_spend_def
        report_primary_def Let_def)
  have t: "bare c \<Longrightarrow> chat_record_tokens_and_reasoning xe q n re c = Some c" "bare c \<Longrightarrow> store_answer xe q p b co c = Some c"
    for n re co and c :: "'a chat_core"
    by (simp_all add: bare_def chat_record_tokens_and_reasoning_def store_answer_def)
  have "bare (handle_prompt_cache_accounting J xe q route (pa_ptok p) (pa_cached p) c)" using assms k by simp
  then obtain c2 where c2: "meter hdr xe q (pa_status p) (pa_ptok p) (pa_ctok p) (pa_cached p) (extract_reasoning_tokens_from_json J (xe_int xe) (cstr_or_empty b)) lat pr
      (calc_req_cost_ext J route (pa_ptok p) (pa_ctok p) (pa_cached p) (extract_reasoning_tokens_from_json J (xe_int xe) (cstr_or_empty b)))
      (handle_prompt_cache_accounting J xe q route (pa_ptok p) (pa_cached p) c) = Some c2" "bare c2" using m by blast
  then show ?thesis by (simp add: settle_answer_def Let_def t k)
qed

abbreviation plain_chat_env :: "(nat \<Rightarrow> up_reply) \<Rightarrow> jval chat_env" where
  "plain_chat_env reply \<equiv> sample_chat_env reply (plain_env None no_answer)"

lemma sample_answer:
  assumes "bare c" "up_status u = 200" "up_body u = Some b" "b \<noteq> []" "fq_map (cq_fq q) = []" "\<not> fq_watermark_enabled (cq_fq q)"
  shows "\<exists>c'. answer_success hdr L (plain_chat_env reply) routed route cur pr u lat q c = Some (c', write_json 200 b q)"
proof -
  let ?p = "\<lparr>pa_status = 200, pa_body = Some b, pa_ptok = 3, pa_ctok = 4, pa_cached = 0\<rparr>"
  have "filter_answer L (plain_chat_env reply) q ?p = Some (q, True, Some b)"
    using assms by (simp add: filter_answer_def filter_chain_execute_outbound_def sample_chat_env_def plain_env_def
        guardrails_restore_pii_text_def filter_lua_plugins_outbound_def Let_def)
  moreover obtain c' where "settle_answer hdr (json_lib.truncate L) (plain_chat_env reply) routed route pr lat q ?p (Some b) c = Some c'"
    using settle_bare [OF assms(1)] by blast
  moreover have "xe_parse (plain_chat_env reply) d pr cur m (cstr_or_empty (up_body u)) (up_status u) = Some ?p" for d m
    using assms(2,3) by (simp add: sample_chat_env_def)
  ultimately show ?thesis by (simp add: answer_success_def)
qed

lemma sample_asked:
  assumes "reply_of 0 (reply ci) = Some u" "length (cq_candidates q) \<noteq> 1 \<or> up_urc u \<noteq> 0 \<or> up_status u < 500"
  shows "asked (plain_chat_env reply) route q ci t u"
  using assms by (auto simp: asked_def chat_adapter_def sample_chat_env_def call_upstream_def)

lemma sample_core_bare [simp]: "bare (sample_core akc mr ss)"
  by (simp add: bare_def sample_core_def bare_gateway_def)

lemma sample_chat_sel [simp]:
  "cq_candidates (sample_chat b cands) = cands" "cq_route (sample_chat b cands) = Some sample_route"
  "fq_map (cq_fq (sample_chat b cands)) = []" "\<not> fq_watermark_enabled (cq_fq (sample_chat b cands))" "fq_effects (cq_fq (sample_chat b cands)) = []"
  by (simp_all add: sample_chat_def sample_request_def)

lemma sample_unlimited [simp]: "gw_rl (ch_gw (sample_core akc mr ss)) = None" "\<not> md_hedged_enabled sample_route"
  by (simp_all add: sample_core_def bare_gateway_def sample_route_def demo_model_def)

abbreviation good_reply :: up_reply where
  "good_reply \<equiv> \<lparr>up_urc = 0, up_status = 200, up_body = Some ''hi'', up_lat = 7\<rparr>"

lemma sample_sync:
  assumes "bare c" "cq_route q = Some sample_route" "cq_candidates q = [demo_target ''a'' 1 0]" "fq_map (cq_fq q) = []" "\<not> fq_watermark_enabled (cq_fq q)"
  shows "\<exists>c'. handle_chat_sync hdr L (plain_chat_env (\<lambda>_. good_reply)) q c = Some (c', write_json 200 ''hi'' q)"
proof -
  let ?t = "demo_target ''a'' 1 0" and ?xe = "plain_chat_env (\<lambda>_. good_reply)"
  have a: "asked ?xe sample_route q 0 ?t good_reply" by (rule sample_asked) (simp_all add: reply_of_def)
  have "\<exists>c'. answer_success hdr L ?xe True sample_route (fill_cur_route sample_route ?t) (ut_provider ?t) good_reply 7 q
      (note_success q ?t (called ?xe q 0 ?t good_reply c)) = Some (c', write_json 200 ''hi'' q)"
    by (rule sample_answer) (simp_all add: assms)
  then obtain c' where c': "answer_success hdr L ?xe True sample_route (fill_cur_route sample_route ?t) (ut_provider ?t) good_reply 7 q
      (note_success q ?t (called ?xe q 0 ?t good_reply c)) = Some (c', write_json 200 ''hi'' q)" by blast
  have "sync_attempt hdr L ?xe sample_route 0 ?t (c, q, 0, md_provider sample_route) = Some ((c', write_json 200 ''hi'' q, 7, ut_provider ?t), V_Answered)"
    using asked_attempt [OF a, of hdr L c 0 "md_provider sample_route"] c' by (simp add: sync_reply_def is_failover_def demo_target_def)
  moreover have "chat_apply_reasoning_quota_and_degradation L ?xe q c = Some (c, q)"
    using assms(1) by (simp add: chat_apply_reasoning_quota_and_degradation_def bare_def)
  moreover have "hedged_attempt hdr L ?xe sample_route (c, q, 0, md_provider sample_route) = Some ((c, q, 0, md_provider sample_route), False, 0)"
    by (simp add: hedged_attempt_def)
  ultimately show ?thesis using assms by (simp add: handle_chat_sync_def)
qed

abbreviation sample_state :: "unit chat_core" where
  "sample_state \<equiv> sample_core (the (auth_key_init True True)) (the (model_router_new True True True False))
     (model_router_reset_concurrency (replicate MR_MAX_CONCURRENT_TARGETS \<lparr>ts_endpoint = [], ts_in_flight = 0, ts_in_use = False\<rparr>))"

lemma chat_slots_balanced_witness:
  "\<exists>c'. handle_chat_sync undefined jval_hooks (plain_chat_env (\<lambda>_. good_reply)) (sample_chat ''x'' [demo_target ''a'' 1 0]) sample_state =
      Some (c', write_json 200 ''hi'' (sample_chat ''x'' [demo_target ''a'' 1 0])) \<and> fl_inv {''a''} (slots c') (\<lambda>_. 0)"
proof -
  obtain c' where c': "handle_chat_sync undefined jval_hooks (plain_chat_env (\<lambda>_. good_reply)) (sample_chat ''x'' [demo_target ''a'' 1 0]) sample_state =
      Some (c', write_json 200 ''hi'' (sample_chat ''x'' [demo_target ''a'' 1 0]))"
    using sample_sync [of sample_state "sample_chat ''x'' [demo_target ''a'' 1 0]" undefined jval_hooks] by auto
  have "slots sample_state = model_router_reset_concurrency (replicate MR_MAX_CONCURRENT_TARGETS \<lparr>ts_endpoint = [], ts_in_flight = 0, ts_in_use = False\<rparr>)"
    by (simp add: sample_core_def)
  then have "fl_inv {''a''} (slots sample_state) (\<lambda>_. 0)" using fl_inv_reset by simp
  moreover have "known_targets {''a''} (cq_candidates (sample_chat ''x'' [demo_target ''a'' 1 0]))"
    by (simp add: known_targets_def demo_target_def MR_MAX_CONCURRENT_TARGETS_def)
  ultimately show ?thesis using chat_slots_balanced [OF c'] c' by blast
qed

text \<open>The first upstream is overloaded, the second answers.\<close>

definition busy_first :: "nat \<Rightarrow> up_reply" where
  "busy_first ci = (if ci = 0 then \<lparr>up_urc = 0, up_status = 503, up_body = Some ''busy'', up_lat = 5\<rparr> else good_reply)"

lemma chat_failover_witness:
  "\<exists>c'. handle_chat_sync undefined jval_hooks (plain_chat_env busy_first) (sample_chat ''x'' [demo_target ''a'' 1 0, demo_target ''b'' 1 0]) sample_state =
      Some (c', write_json 200 ''hi'' (sample_chat ''x'' [demo_target ''a'' 1 0, demo_target ''b'' 1 0]))"
proof -
  let ?q = "sample_chat ''x'' [demo_target ''a'' 1 0, demo_target ''b'' 1 0]" and ?m = "sample_route" and ?xe = "plain_chat_env busy_first"
  let ?u0 = "\<lparr>up_urc = 0, up_status = 503, up_body = Some ''busy'', up_lat = 5\<rparr>"
  have a: "asked ?xe ?m ?q 0 (demo_target ''a'' 1 0) ?u0" by (rule sample_asked) (simp_all add: reply_of_def busy_first_def)
  have b: "asked ?xe ?m ?q 1 (demo_target ''b'' 1 0) good_reply" by (rule sample_asked) (simp_all add: reply_of_def busy_first_def)
  let ?us = "[(demo_target ''a'' 1 0, ?u0)]" and ?t = "demo_target ''b'' 1 0"
  have f: "handle_chat_sync undefined jval_hooks ?xe ?q sample_state =
    answer_success undefined jval_hooks ?xe True ?m (fill_cur_route ?m ?t) (ut_provider ?t) good_reply (total_lat ?us + up_lat good_reply) ?q
      (note_success ?q ?t (called ?xe ?q (length ?us) ?t good_reply (failed_over ?xe ?q 0 ?us sample_state)))"
    by (rule chat_failover [where ts = "[]"]) (use a b in \<open>simp_all add: is_failover_def demo_target_def\<close>)
  show ?thesis unfolding f by (rule sample_answer) simp_all
qed

definition no_content :: up_reply where
  "no_content = \<lparr>up_urc = 0, up_status = 204, up_body = Some [], up_lat = 7\<rparr>"

lemma chat_empty_body_undefined_witness:
  "handle_chat_sync undefined jval_hooks (plain_chat_env (\<lambda>_. no_content)) (sample_chat ''x'' [demo_target ''a'' 1 0]) sample_state = None"
  by (rule chat_empty_body_undefined [where build = "\<lambda>r b. Some (md_endpoint r, b)" and route = "sample_route" and t = "demo_target ''a'' 1 0" and ts = "[]"])
    (simp_all add: demo_target_def chat_adapter_def sample_chat_env_def no_content_def)

text \<open>A request that goes all the way: routed, filtered, not in the cache, answered by the provider it names.\<close>

lemma sample_resolves:
  "\<exists>mr. model_router_resolve (the (model_router_new True True True False)) (\<lambda>_. None) (\<lambda>_. None)
     (\<lambda>m. if m = ''m'' then Some sample_route else None) True True ''m'' = Some (mr, 0, Some sample_route)"
proof -
  obtain l :: "model_rec lru" where l: "lru_new 1024 True = Some l" by (simp add: lru_new_def Let_def)
  from lru_new_refines [OF l] have i: "lru_inv l" "lru_abs l = []" by auto
  from lru.get_total [OF i(1), of "''m''"] i(2) obtain l1 where l1: "lru_get l ''m'' = Some (l1, None)" "lru_inv l1" by auto
  from lru.put_pred [OF l1(2), of "\<lambda>_. True" "''m''" "sample_route" True] obtain l2 ev where
    l2: "lru_put l1 ''m'' sample_route True = Some (l2, ev)" by auto
  have k: "resolve_key (\<lambda>_. None) (\<lambda>_. None) False sample_route = (sample_route, 0)"
    by (simp add: resolve_key_def sample_route_def demo_model_def harmonize_keys_def resolve_target_key_def MAX_TARGETS_PER_MODEL_def demo_target_def Let_def numeral_2_eq_2)
  show ?thesis using l l1 l2 k by (simp add: model_router_resolve_def model_router_new_def)
qed

lemma sample_select:
  "model_router_select_candidates_targeted g None redis clock alloc lt junk sample_route (Some ''openai'') (int MAX_TARGETS_PER_MODEL) =
     (g, None, Some [demo_target ''a'' 1 0])"
proof -
  have "src_targets sample_route = Some [demo_target ''a'' 1 0]"
    by (simp add: sample_route_def demo_model_def demo_target_def src_targets_def MAX_TARGETS_PER_MODEL_def normal_target_def)
  then show ?thesis
    by (simp add: model_router_select_candidates_targeted_def MAX_TARGETS_PER_MODEL_def demo_target_def)
qed

definition doc_hooks :: "jval hook_lib" where
  "doc_hooks = jval_hooks\<lparr>jo_loadb := \<lambda>_. Some (JObj [(''model'', JStr ''m'')])\<rparr>"

abbreviation named_chat :: "jval chat_req" where
  "named_chat \<equiv> (sample_chat ''x'' [])\<lparr>cq_target_provider := Some ''openai''\<rparr>"

lemma sample_resolve:
  "\<exists>c q. resolve_chat_target (json_lib.truncate doc_hooks) sample_target_env named_chat sample_state = Some (c, q, True) \<and> bare c \<and> ch_comp c = None \<and>
     cq_route q = Some sample_route \<and> cq_candidates q = [demo_target ''a'' 1 0] \<and> answers q = 0 \<and>
     cq_cache_control q = None \<and> cq_prompt_cache_control q = None \<and>
     cq_fq q = (cq_fq named_chat)\<lparr>fq_jbody := Some (JObj [(''model'', JStr ''m'')]), fq_model := ''m'', fq_model_borrowed := True, fq_eff := ''x''\<rparr>"
proof -
  obtain mr where mr: "model_router_resolve (the (model_router_new True True True False)) (\<lambda>_. None) (\<lambda>_. None)
     (\<lambda>m. if m = ''m'' then Some sample_route else None) True True ''m'' = Some (mr, 0, Some sample_route)" using sample_resolves by blast
  let ?q = "read_model (json_lib.truncate doc_hooks) named_chat"
  have m: "fq_model (cq_fq ?q) = ''m''"
    by (simp add: read_model_def doc_hooks_def jval_hooks_def jval_lib_def json_lib.defs sample_chat_def sample_request_def Let_def)
  have k: "key_allows_model (Some (cq_krec ?q)) (Some ''m'')" by (simp add: read_model_def sample_chat_def demo_key_def key_allows_model_def Let_def)
  have 1: "route_canary sample_target_env q sample_state = Some (sample_state, q)" for q :: "jval chat_req"
    by (simp add: route_canary_def sample_core_def model_router_apply_canary_def)
  have 2: "route_sla sample_target_env q sample_state = (sample_state, q)" for q :: "jval chat_req"
    by (simp add: route_sla_def sample_core_def model_router_resolve_with_sla_def)
  have 3: "mirror_request J sample_target_env q sample_state = (sample_state, q)" for J and q :: "jval chat_req"
    by (simp add: mirror_request_def sample_core_def)
  have 4: "route_request sample_target_env q sample_state = Some (sample_state\<lparr>ch_router := mr\<rparr>,
      q\<lparr>cq_route := Some sample_route, cq_candidates := [demo_target ''a'' 1 0],
        cq_fq := (cq_fq q)\<lparr>fq_route_prompt := [], fq_route_mode := 0, fq_sanitized := None, fq_eff := fq_raw (cq_fq q)\<rparr>\<rparr>, True)"
    if "fq_model (cq_fq q) = ''m''" "cq_target_provider q = Some ''openai''" for q :: "jval chat_req"
    using mr that
    by (simp add: route_request_def Let_def sample_target_env_def sample_core_def sample_select) (simp add: sample_route_def demo_model_def)
  have t: "cq_target_provider ?q = Some ''openai''" by (simp add: read_model_def Let_def)
  have e: "answers ?q = 0" "cq_cache_control ?q = None" "cq_prompt_cache_control ?q = None"
    by (simp_all add: read_model_def answers_def sample_chat_def sample_request_def Let_def)
  have f: "(cq_fq ?q)\<lparr>fq_route_prompt := [], fq_route_mode := 0, fq_sanitized := None, fq_eff := fq_raw (cq_fq ?q)\<rparr> =
      (cq_fq named_chat)\<lparr>fq_jbody := Some (JObj [(''model'', JStr ''m'')]), fq_model := ''m'', fq_model_borrowed := True, fq_eff := ''x''\<rparr>"
    by (simp add: read_model_def doc_hooks_def jval_hooks_def jval_lib_def json_lib.defs sample_chat_def sample_request_def Let_def)
  have s: "bare (sample_state\<lparr>ch_router := mr\<rparr>)" "ch_comp (sample_state\<lparr>ch_router := mr\<rparr>) = None"
    by (simp_all add: bare_def sample_core_def bare_gateway_def)
  have "resolve_chat_target (json_lib.truncate doc_hooks) sample_target_env named_chat sample_state =
      route_request sample_target_env (?q\<lparr>cq_requested_model := cstr_copy 64 ''m''\<rparr>) sample_state"
    using m k by (simp add: resolve_chat_target_def Let_def 1 2 3)
  then show ?thesis using 4 [of "?q\<lparr>cq_requested_model := cstr_copy 64 ''m''\<rparr>"] m t e s f by (simp add: answers_def)
qed

lemma sample_chain:
  "filter_chain_execute_inbound doc_hooks (plain_env None no_answer)
     ((cq_fq named_chat)\<lparr>fq_jbody := d, fq_model := ''m'', fq_model_borrowed := True, fq_eff := ''x''\<rparr>) =
   Some ((cq_fq named_chat)\<lparr>fq_jbody := d, fq_model := ''m'', fq_model_borrowed := True, fq_eff := ''x''\<rparr>, FILTER_CONTINUE)"
  by (simp add: filter_chain_execute_inbound_def filter_guardrails_def filter_jailbreak_def filter_prompt_template_def filter_lua_plugins_inbound_def
      request_template_def plain_env_def sample_chat_def sample_request_def)

lemma chat_one_answer_witness:
  "\<exists>c q. handle_chat_request undefined doc_hooks (plain_chat_env (\<lambda>_. good_reply)) (\<lambda>_ _. None) named_chat sample_state = Some (c, q) \<and> answers q = Suc (answers named_chat) \<and> fq_effects (cq_fq q) = [Fx_Json 200 ''hi'']"
proof -
  let ?xe = "plain_chat_env (\<lambda>_. good_reply)"
  let ?f = "(cq_fq named_chat)\<lparr>fq_jbody := Some (JObj [(''model'', JStr ''m'')]), fq_model := ''m'', fq_model_borrowed := True, fq_eff := ''x''\<rparr>"
  have x: "xe_target ?xe = sample_target_env" "xe_filter ?xe = plain_env None no_answer" by (simp_all add: sample_chat_env_def)
  obtain c q where 1: "resolve_chat_target (json_lib.truncate doc_hooks) sample_target_env named_chat sample_state = Some (c, q, True)"
    "bare c" "ch_comp c = None" "cq_route q = Some sample_route" "cq_candidates q = [demo_target ''a'' 1 0]" "answers q = 0" "cq_cache_control q = None"
    "cq_prompt_cache_control q = None" "cq_fq q = ?f"
    using sample_resolve by blast
  have 2: "filter_chain_execute_inbound doc_hooks (plain_env None no_answer) (cq_fq q) = Some (cq_fq q, FILTER_CONTINUE)"
    unfolding 1(9) by (rule sample_chain)
  have 3: "chat_apply_reasoning_quota_and_degradation doc_hooks ?xe q c = Some (c, q)"
    using 1(2) by (simp add: chat_apply_reasoning_quota_and_degradation_def bare_def)
  have "\<not> fq_model_dangling (cq_fq q)" unfolding 1(9) by (simp add: sample_chat_def sample_request_def)
  moreover have "list_ex (\<lambda>t. chat_builder ?xe t \<noteq> None) (cq_candidates q)" using 1(5) by (simp add: chat_builder_def sample_chat_env_def)
  moreover have "xe_is_true ?xe v = False" for v by (simp add: sample_chat_env_def)
  ultimately have 4: "prepare_chat_cache undefined doc_hooks ?xe q c = Some (c, q, False, False)"
    using 1(2,7) by (simp add: prepare_chat_cache_def read_cache_control_def with_cache_key_def bare_def Let_def)
  have 5: "compress_chat (json_lib.truncate doc_hooks) ?xe q c = (c, q)" using 1(3) by (simp add: compress_chat_def)
  have q: "optimize_chat (json_lib.truncate doc_hooks) ?xe q = q"
    using 1(8) by (simp add: optimize_chat_def optimizer_rule_def sample_chat_env_def)
  obtain c' where 6: "handle_chat_sync undefined doc_hooks ?xe q c = Some (c', write_json 200 ''hi'' q)"
    using sample_sync [OF 1(2,4,5), of undefined doc_hooks] 1(9) by (auto simp: sample_chat_def sample_request_def)
  have r: "handle_chat_request undefined doc_hooks ?xe (\<lambda>_ _. None) named_chat sample_state = Some (c', write_json 200 ''hi'' q)"
    using 1(1) 2 3 4 5 6 q unfolding handle_chat_request_def Let_def x by simp
  have "\<not> xe_is_true ?xe v" for v by (simp add: sample_chat_env_def)
  with chat_one_answer [OF r] r 1(9) show ?thesis
    by (auto simp: write_json_def fq_emit_def sample_chat_def sample_request_def)
qed

end
