(* ===== verification/Chat_Conflicts.thy ===== *)
theory Chat_Conflicts
  imports Chat_Props Cache_Runs
begin

text \<open>
  Where the parts of a chat request work against each other: the reasoning quota and the shadow engine against the filters, the cache against the
  anonymisation, the bill against the savings; and the replay of a stored answer.
\<close>

section \<open>Parts that work against each other\<close>

text \<open>The reasoning quota undoes the masking: when it is used up, the body that goes upstream is the text of the parsed original body, in which
  only the members on reasoning were changed, whatever the filters had made of the body before.\<close>

theorem reasoning_quota_undoes_masking:
  assumes "json_laws (json_lib.truncate L)" "jl_object L = Some th" "jl_string L ''enabled'' \<noteq> None"
    and "\<And>d k k'. jo_is_object L d \<Longrightarrow> jo_is_object L (xe_del xe d k) \<and> (k' \<noteq> k \<longrightarrow> jo_get L (Some (xe_del xe d k)) k' = jo_get L (Some d) k')"
    and "\<And>d. jl_dumps L d \<noteq> None"
    and "\<not> cq_degraded q" "0 < reasoning_quota q c" "gw_rl (ch_gw c) = Some r"
    and "rl_remaining_daily_reasoning (gw_rl (ch_gw c)) (gi_get (xe_gi xe)) (gi_rl_ok (xe_gi xe)) (gi_now (xe_gi xe)) (kr_key_id (cq_krec q))
      (reasoning_quota q c) = Some (rl, left)" "left \<le> 0"
    and "fq_jbody (cq_fq q) = Some d" "jo_is_object L d"
  shows "\<exists>c' q' d'. chat_apply_reasoning_quota_and_degradation L xe q c = Some (c', q') \<and> jl_dumps L d' = Some (fq_eff (cq_fq q')) \<and>
    (\<forall>k. k \<notin> {''thinking'', ''reasoning_effort'', ''max_thinking_tokens''} \<longrightarrow> jo_get L (Some d') k = jo_get L (Some d) k)"
proof -
  let ?L = "json_lib.truncate L"
  have sel: "jo_is_object ?L = jo_is_object L" "jo_get ?L = jo_get L" "jl_set ?L = jl_set L" by (simp_all add: json_lib.truncate_def)
  define d1 where "d1 = jl_set L d ''thinking'' (map_option (\<lambda>t. jl_set L (jl_set L t ''type'' (jl_string L ''enabled'')) ''budget_tokens'' (jl_integer L 0)) (jl_object L))"
  have d1: "jo_is_object L d1 \<and> (k \<noteq> ''thinking'' \<longrightarrow> jo_get L (Some d1) k = jo_get L (Some d) k)" for k
    using json_laws_set [OF assms(1), of d "''thinking''" _ k] assms(12) unfolding d1_def sel by (simp add: assms(2))
  define d' where "d' = suppress_reasoning L (xe_del xe) d"
  have d': "jo_get L (Some d') k = jo_get L (Some d) k" if "k \<notin> {''thinking'', ''reasoning_effort'', ''max_thinking_tokens''}" for k
  proof -
    have eq: "d' = xe_del xe (xe_del xe d1 ''reasoning_effort'') ''max_thinking_tokens''" by (simp add: d'_def suppress_reasoning_def d1_def)
    have "jo_is_object L (xe_del xe d1 ''reasoning_effort'')" using assms(4) d1 by blast
    with assms(4) d1 [of k] that show ?thesis unfolding eq by simp
  qed
  obtain s where s: "jl_dumps L d' = Some s" using assms(5) by blast
  have "fq_eff (cq_fq (degrade_request L xe q)) = s"
    using assms(11,12) s by (simp add: degrade_request_def Let_def set_body_def d'_def)
  moreover have "chat_apply_reasoning_quota_and_degradation L xe q c = Some (c\<lparr>ch_gw := (ch_gw c)\<lparr>gw_rl := rl\<rparr>\<rparr>, degrade_request L xe q)"
    using assms(6-10) by (simp add: chat_apply_reasoning_quota_and_degradation_def Let_def)
  ultimately show ?thesis using d' s by auto
qed

text \<open>What the cache of a provider saves is not what it takes off the bill: with prices but no discount for cached tokens, cached tokens cost as
  much as others, while half of their price is reported as saved.\<close>

theorem savings_not_in_cost:
  assumes "pricing_of L route = Some jp" "jo_number L (jo_get L (Some jp) ''in_mtok'') = Some i" "jo_get L (Some jp) ''in_mtok'' \<noteq> None"
    and "jo_number L (jo_get L (Some jp) ''cached_mtok_discount'') = None" "0 < i" "0 < cached" "cached \<le> prompt"
  shows "calc_req_cost L route prompt completion cached = calc_req_cost L route prompt completion 0 \<and>
    calc_cache_savings L route cached = of_int cached * i / 2000000 \<and> 0 < calc_cache_savings L route cached"
proof -
  have "calc_cache_savings L route cached = of_int cached * i / 2000000"
    using assms by (simp add: calc_cache_savings_def or_number_def Let_def)
  moreover have "0 < of_int cached * i / 2000000" using assms(5,6) by simp
  moreover have "first_member L jp ''in_mtok'' ''input_mtok'' = jo_get L (Some jp) ''in_mtok''"
    using assms(3) by (auto simp: first_member_def)
  then have "calc_req_cost L route prompt completion cached = calc_req_cost L route prompt completion 0"
    using assms by (simp add: calc_req_cost_def calc_req_cost_ext_def or_number_def Let_def algebra_simps split: option.splits)
  ultimately show ?thesis by simp
qed

lemma canary_shadow:
  assumes "route_canary te q c = Some (c', q')"
  shows "ch_shadow c' = ch_shadow c \<and> fq_raw (cq_fq q') = fq_raw (cq_fq q) \<and> cq_has_shadow q' = cq_has_shadow q"
proof -
  from assms obtain mr cb hit where h: "model_router_apply_canary (te_getenv te) (te_decrypt te) (te_store te) (te_canary_ok te) (te_canary_roll te)
       (te_canary_clock te) (ch_router c) (ch_cb c) (ch_rules c) (Some (fq_model (cq_fq q))) None 64 = Some (mr, cb, hit)"
    unfolding route_canary_def by (auto simp: bind_eq_Some_conv)
  with assms have "q' = (case hit of Some (m, True, rid) \<Rightarrow> set_model (cstr_copy 64 m) (q\<lparr>cq_is_canary := True\<rparr>) | _ \<Rightarrow> q)"
    "c' = c\<lparr>ch_router := mr, ch_cb := cb\<rparr>" by (simp_all add: route_canary_def Let_def)
  then show ?thesis by (simp add: set_model_def split: option.splits prod.splits bool.splits)
qed

lemma sla_shadow:
  "route_sla te q c = (c', q') \<Longrightarrow> ch_shadow c' = ch_shadow c \<and> fq_raw (cq_fq q') = fq_raw (cq_fq q) \<and> cq_has_shadow q' = cq_has_shadow q"
  by (auto simp: route_sla_def set_model_def split: option.splits prod.splits bool.splits)

lemma route_shadow:
  assumes "route_request te q c = Some (c', q', True)"
  shows "ch_shadow c' = ch_shadow c \<and> cq_has_shadow q' = cq_has_shadow q"
proof -
  from assms obtain mr rc route where r: "model_router_resolve (ch_router c) (te_getenv te) (te_decrypt te) (te_store te) (fst (te_route_ok te))
      (snd (te_route_ok te)) (fq_model (cq_fq q)) = Some (mr, rc, route)" by (auto simp: route_request_def bind_eq_Some_conv)
  then obtain rt where rt: "(if rc = 0 then route else None) = Some rt"
    using assms by (cases "if rc = 0 then route else None") (auto simp: route_request_def)
  obtain g cb cands where s: "model_router_select_candidates_targeted (ch_globals c) (ch_cb c) (te_redis te) (te_clock te) (te_entry_ok te) (ch_lt c)
                  (te_junk te) rt (cq_target_provider q) (int MAX_TARGETS_PER_MODEL) = (g, cb, cands)" by (metis surj_pair)
  from assms r rt s show ?thesis
    by (cases cands; cases "the cands") (auto simp: route_request_def Let_def)
qed

text \<open>A request that the guardrails stop has been sent on already: when it was chosen for a shadow model and the queue has room, its body, as it
  came in, is in the queue of the shadow engine before the filters see it, and stays there when they refuse it.\<close>

theorem shadow_gets_blocked_body:
  assumes "resolve_chat_target (json_lib.truncate L) (xe_target xe) q c = Some (c1, q1, True)" "\<not> cq_has_shadow q" "cq_has_shadow q1"
    and "ch_shadow c = Some eng" "sq_count (se_queue eng) < length (sq_items (se_queue eng))" "sq_tail (se_queue eng) < length (sq_items (se_queue eng))"
    and "fq_raw (cq_fq q) \<noteq> []" "te_body_ok (xe_target xe)"
    and "filter_chain_execute_inbound L (xe_filter xe) (cq_fq q1) = Some (f, FILTER_STOP)"
  shows "handle_chat_request hdr L xe stream q c = Some (c1, q1\<lparr>cq_fq := f\<rparr>) \<and>
    (\<exists>eng1 task. ch_shadow c1 = Some eng1 \<and> Some task \<in> set (sq_items (se_queue eng1)) \<and> tk_body_copy task = Some (fq_raw (cq_fq q)))"
proof
  let ?J = "json_lib.truncate L" and ?te = "xe_target xe"
  show "handle_chat_request hdr L xe stream q c = Some (c1, q1\<lparr>cq_fq := f\<rparr>)"
    using assms(1,9) by (simp add: handle_chat_request_def Let_def)
  let ?q = "read_model ?J q" and ?m = "fq_model (cq_fq (read_model ?J q))"
  have e: "cq_has_shadow ?q = cq_has_shadow q" "fq_raw (cq_fq ?q) = fq_raw (cq_fq q)" by (simp_all add: read_model_def Let_def)
  have ok: "\<not> (?m = [] \<or> \<not> key_allows_model (Some (cq_krec ?q)) (Some ?m))"
  proof
    assume "?m = [] \<or> \<not> key_allows_model (Some (cq_krec ?q)) (Some ?m)"
    with assms(1) show False by (simp add: resolve_chat_target_def Let_def)
  qed
  with assms(1) obtain d1 r1 where 1: "route_canary ?te (?q\<lparr>cq_requested_model := cstr_copy 64 ?m\<rparr>) c = Some (d1, r1)"
    by (auto simp: resolve_chat_target_def Let_def bind_eq_Some_conv)
  obtain d2 r2 where 2: "route_sla ?te r1 d1 = (d2, r2)" by fastforce
  obtain d3 r3 where 3: "mirror_request ?J ?te r2 d2 = (d3, r3)" by fastforce
  have 4: "route_request ?te r3 d3 = Some (c1, q1, True)" using assms(1) ok 1 2 3 by (simp add: resolve_chat_target_def Let_def)
  have r2: "ch_shadow d2 = Some eng" "fq_raw (cq_fq r2) = fq_raw (cq_fq q)" "\<not> cq_has_shadow r2"
    using canary_shadow [OF 1] sla_shadow [OF 2] assms(2,4) e by simp_all
  have r3: "cq_has_shadow r3" "ch_shadow c1 = ch_shadow d3" using route_shadow [OF 4] assms(3) by simp_all
  with 3 r2 obtain rule eng1 where s: "submit_shadow ?J ?te rule r2 eng = (r3, eng1)" "ch_shadow d3 = Some eng1"
    by (auto simp: mirror_request_def split: option.splits prod.splits)
  have "\<exists>task. sq_items (se_queue eng1) = (sq_items (se_queue eng))[sq_tail (se_queue eng) := Some task] \<and> tk_body_copy task = Some (fq_raw (cq_fq q))"
    using s(1) r2(2) assms(5,7,8)
    by (auto simp: submit_shadow_def Let_def shadow_engine_submit_task_def shadow_queue_push_def shadow_engine_start_pairing_def
        split: option.splits)
  then have "\<exists>task. Some task \<in> set (sq_items (se_queue eng1)) \<and> tk_body_copy task = Some (fq_raw (cq_fq q))"
    using set_update_memI [OF assms(6)] by metis
  with r3(2) s(2) show "\<exists>eng1 task. ch_shadow c1 = Some eng1 \<and> Some task \<in> set (sq_items (se_queue eng1)) \<and> tk_body_copy task = Some (fq_raw (cq_fq q))"
    by auto
qed

text \<open>What a lookup under a key reads is what was stored last under it.\<close>

lemma hit_body:
  assumes "cache_inv rc held latest" "latest k = Some (s, ex)" "response_cache_get rc (Some k) now = Some (rc1, Some a)"
    and "cm_entries (rc_mem rc1) a = Some e" "read_body (rc_mem rc1) (en_response_body e) = Some t"
  shows "take (en_response_len e) t = s"
proof -
  have i: "cache_inv rc1 (held(a := held a + 1)) latest" and l: "latest k = Some (t, en_expires_at e)"
    using get_inv [OF assms(1), of "Some k" now] assms(3-5) by (auto simp: read_body_def)
  from get_hit [OF assms(1,3)] have a: "a \<in> set (sh_lru (rc_shards rc1 ! shard_index k))" by simp
  have "length (rc_shards rc1) = CACHE_SHARDS_COUNT" using i by (simp add: cache_inv_def)
  with a shard_index_less [of k] have "a \<in> linked rc1" unfolding linked_nth by (intro exI [of _ "shard_index k"]) simp
  with i have "latest_inv (rc_mem rc1) latest a" by (simp add: cache_inv_def mem_ok_def)
  with assms(4,5) l assms(2) show ?thesis by (auto simp: latest_inv_def read_body_def)
qed

lemma fingerprint_length: "response_cache_fingerprint api sha m b = Some (Some k) \<Longrightarrow> length k < 65"
proof -
  have "length (concat (map hex2 xs)) = 2 * length xs" for xs by (induction xs) (simp_all add: hex2_def)
  then have "length (sha_hex sha x) < 65" for x by (simp add: sha_hex_def)
  then show "response_cache_fingerprint api sha m b = Some (Some k) \<Longrightarrow> length k < 65"
    by (auto simp: response_cache_fingerprint_def split: option.splits if_splits)
qed

lemma filter_answer_key: "filter_answer L xe q p = Some (q1, goes_on, body) \<Longrightarrow> cq_cache_key q1 = cq_cache_key q \<and> cq_no_store q1 = cq_no_store q"
  by (auto simp: filter_answer_def split: if_splits)

text \<open>The cache hands the personal data of one client to another: the key of an answer is made of the masked body, the answer is stored with the data
  of the client put back in, so that a request of anybody whose masked body is the same is answered with the text that was restored for the first.\<close>

theorem cache_shares_restored_answer:
  assumes "cache_inv rc held latest" "ch_cache c = Some rc"
    and "with_cache_key L xe q1 c0 = Some r1" "ch_cache c0 \<noteq> None" "\<not> cq_bypass_cache q1" "cq_cache_key r1 \<noteq> []"
    and "cq_cache_key r = cq_cache_key r1" "\<not> cq_no_store r" "filter_answer L xe r p = Some (r', True, Some s)" "pa_status p = 200" "length s \<le> 1048576"
    and "response_cache_set rc (fst (xe_cache_ok xe)) (snd (xe_cache_ok xe)) (Some (cq_cache_key r)) (Some (cq_model r')) (Some s) (pa_ptok p) (pa_ctok p)
      cost 0 (gi_now (xe_gi xe)) = Some (rc1, 0)"
    and "cq_model q2 = cq_model q1" "fq_eff (cq_fq q2) = fq_eff (cq_fq q1)" "xe_sha xe2 = xe_sha xe" "cq_cache_key q2 = []"
    and "list_ex (\<lambda>t. chat_builder xe2 t \<noteq> None) (cq_candidates q2)"
    and "prepare_chat_cache hdr L xe2 q2 (c\<lparr>ch_cache := Some rc1\<rparr>) = Some (c2, q2', False, True)"
  shows "store_answer xe r' p (Some s) cost c = Some (c\<lparr>ch_cache := Some rc1\<rparr>) \<and> fq_effects (cq_fq q2') = fq_effects (cq_fq q2) @ [Fx_Json 200 s]"
proof
  let ?k = "cq_cache_key r1"
  have k: "cq_cache_key r' = ?k" "\<not> cq_no_store r'" using filter_answer_key [OF assms(9)] assms(7,8) by simp_all
  show "store_answer xe r' p (Some s) cost c = Some (c\<lparr>ch_cache := Some rc1\<rparr>)"
    using assms(2,6,7,10-12) k by (simp add: store_answer_def)
  obtain fp where fp: "response_cache_fingerprint (json_api.truncate L) (xe_sha xe) (Some (cq_model q1)) (Some (fq_eff (cq_fq q1))) = Some fp"
    "?k = cstr_or_empty fp" using assms(3-5) by (auto simp: with_cache_key_def)
  with assms(6) have fp': "fp = Some ?k" by (cases fp) simp_all
  have "length ?k < 65" using fingerprint_length fp fp' by metis
  then obtain ex where inv: "cache_inv rc1 held (latest(?k \<mapsto> (s, ex)))"
    using set_inv [OF assms(1), of "Some ?k" "fst (xe_cache_ok xe)" "snd (xe_cache_ok xe)" "Some (cq_model r')" "Some s" "pa_ptok p" "pa_ctok p" cost 0
        "gi_now (xe_gi xe)"] assms(7,12) by auto
  from assms(18) show "fq_effects (cq_fq q2') = fq_effects (cq_fq q2) @ [Fx_Json 200 s]"
  proof (cases rule: prepare_cases)
    case unsupported
    with assms(17) show ?thesis by simp
  next
    case miss
    then show ?thesis by simp
  next
    case (hit q1x rcx rc2 a)
    have rcx: "rcx = rc1" using hit(3) by simp
    have same: "cq_model (read_cache_control q2) = cq_model q1" "fq_eff (cq_fq (read_cache_control q2)) = fq_eff (cq_fq q1)"
      "cq_cache_key (read_cache_control q2) = []"
      using assms(13,14,16) by (simp_all add: read_cache_control_def cq_model_def Let_def split: option.splits)
    have key: "cq_cache_key q1x = ?k"
    proof (cases "cq_bypass_cache (read_cache_control q2)")
      case True
      with hit(2,4) same(3) show ?thesis by (simp add: with_cache_key_def)
    next
      case False
      with hit(2) same(1,2) fp(1) fp' assms(15) show ?thesis by (auto simp: with_cache_key_def)
    qed
    obtain e body where e: "cm_entries (rc_mem rc2) a = Some e" "read_body (rc_mem rc2) (en_response_body e) = Some body"
      "q2' = q1x\<lparr>cq_fq := fq_emit [Fx_Json 200 (take (en_response_len e) body)] (cq_fq q1x)\<rparr>"
      by (rule answer_hitD [OF hit(6)]) (use that in auto)
    have "take (en_response_len e) body = s"
      by (rule hit_body [OF inv, of ?k s ex "gi_now (xe_gi xe2)" rc2 a]) (use hit(5) rcx key e in simp_all)
    with e(3) cache_key_effects [OF hit(2)] show ?thesis by (simp add: fq_emit_def)
  qed
qed

end
