(* ===== verification/Spec2Isabelle.thy ===== *)
theory Spec2Isabelle
  imports Lru_Cache Breaker_Sla Rate_Calls Redis_Scripts Ip_Ban Threat_Whitelist Budget_Props Latency_Tracker
    Auth_Key Audit_Evidence Event_Props Shadow_Props Router_Breaker Cache_Key Cache_Runs Usage_Props Usage_Ring Jailbreak Redis_Pool Hedged_Props Gate_Props
    Pii_Roundtrip Pii_Detect Filter_Props Watermark_Props Compressor_Props Optimizer_Props Chat_Conflicts
begin

text \<open>
  A verification of the policy core of the gateway.

  \<^bold>\<open>The program.\<close> \<^verbatim>\<open>src/src/\<close> is an HTTP gateway in front of language-model providers. A
  request is authenticated (\<^verbatim>\<open>policy/auth_key.c\<close>), checked against bans, quotas and budgets
  (\<^verbatim>\<open>ip_ban_table.c\<close>, \<^verbatim>\<open>ratelimit.c\<close>, \<^verbatim>\<open>budget_enforce.c\<close>), answered from the cache
  (\<^verbatim>\<open>response_cache.c\<close>) or routed to an upstream that is
  healthy (\<^verbatim>\<open>upstream/model_router.c\<close> over \<^verbatim>\<open>circuit_breaker.c\<close> and \<^verbatim>\<open>latency_tracker.c\<close>), mirrored to a
  shadow model (\<^verbatim>\<open>shadow.c\<close>), metered (\<^verbatim>\<open>store/usage_meter.c\<close>) and recorded in a signed audit log
  (\<^verbatim>\<open>observe/audit_hash_chain.c\<close>) and on the event bus (\<^verbatim>\<open>observe/event_bus.c\<close>). The admission that ties the first of these together is
  \<^verbatim>\<open>gate_request\<close> of \<^verbatim>\<open>core/aigate_core.c\<close>. The body of a chat request and its response pass the filters of
  \<^verbatim>\<open>policy/filter_chain.c\<close>: keywords, personal data and webhooks (\<^verbatim>\<open>guardrails.c\<close>), the jailbreak detector
  (\<^verbatim>\<open>jailbreak_detector.c\<close>), prompt templates (\<^verbatim>\<open>prompt_template.c\<close>) and plugins; the request is made shorter
  (\<^verbatim>\<open>prompt_compressor.c\<close>) and arranged for the caches of the providers (\<^verbatim>\<open>cache_optimizer.c\<close>), and a response can carry a
  watermark (\<^verbatim>\<open>watermark_engine.c\<close>). A call to an upstream may be hedged,
  that is sent to a second one when the first is slow (\<^verbatim>\<open>upstream/upstream_hedged.c\<close>). These components keep the state the gateway decides by; most
  guard it with one lock, so that their operations are atomic. Where an operation is several atomic
  steps, the steps are separate definitions. The connections of the Redis pool and the threads of a hedged call are
  interleaved in every way, and their properties hold for every interleaving. A waiting pop of the event bus is run with
  its two steps apart as long as every subscription has one thread, which is how the gateway uses the bus. The properties of the
  router and of the cache are about whole operations, one after the other; what a release of a target or of a cache entry does
  when another operation comes between its steps is shown by separate theorems, as is a pop whose subscription is
  replaced while it waits.

  \<^bold>\<open>Conventions.\<close> A C struct is a record, a handler a function from the state to the new state and
  the result. The clock, the outcome of an allocation, and the replies of Redis, the store,
  SHA-256, HMAC and the JSON library are arguments. A NULL string is \<open>None\<close>. Fixed-width
  arithmetic that can wrap is done on words; money and token amounts (\<open>double\<close>) are real numbers.
  Undefined behaviour is the result \<open>None\<close>, or the value \<open>Buf_Overrun\<close> of a write into a buffer. A JSON value is immutable: a change
  through a borrowed pointer is a change of the documents that hold it.

  \<^bold>\<open>Theories.\<close>
  \<^item> \<open>Prelude\<close>, \<open>Decimal\<close>, \<open>Ring\<close>, \<open>Exchange_Sort\<close>: bounded C strings, searches, hashes; decimal numerals;
    the ring buffers of the sample windows and queues; the sort of the sources.
  \<^item> \<open>Lru\<close>, \<open>Lru_Refine\<close>, \<open>Lru_Cache\<close>: \<^verbatim>\<open>common/lru.c\<close> on nodes and links, its refinement to
    a list of bindings, and the interface \<open>lru_cache\<close> that the other components use.
  \<^item> \<open>Entry_Table\<close>, \<open>Chain_Table\<close>, \<open>Slot_Table\<close>: the tables of the program, an entry found or made by
    its key, an array of chains, and an array of slots with an active flag.
  \<^item> \<open>Circuit_Breaker\<close>, \<open>Breaker_Laws\<close>, \<open>Breaker_Props\<close>, \<open>Breaker_Sla\<close>: the breaker, the laws of
    its entry table, its state machine, and the service-level window.
  \<^item> \<open>Rate_Limit\<close>, \<open>Rate_Table\<close>, \<open>Rate_Props\<close>, \<open>Rate_Calls\<close>: the limiter, its open-addressed table refined to a
    map for every sequence of calls with any Redis replies and failing allocations, admission bounds and quotas.
  \<^item> \<open>Redis_Scripts\<close>: the Lua scripts of \<^verbatim>\<open>store/redis_scripts.h\<close>.
  \<^item> \<open>Ip_Ban\<close>, \<open>Threat_Whitelist\<close>, \<open>Budget\<close>, \<open>Budget_Props\<close>, \<open>Latency_Tracker\<close>, \<open>Auth_Key\<close>: the
    components of the same names under \<^verbatim>\<open>policy/\<close>.
  \<^item> \<open>Audit_Chain\<close>, \<open>Audit_Props\<close>, \<open>Audit_Evidence\<close>: the audit chain, completeness of the
    verification, and what an accepted log is evidence of.
  \<^item> \<open>Event_Bus\<close>, \<open>Event_Props\<close>: subscribers and their queues, refined to a map of bounded queues with pops
    that wait, and the escaping of the payloads.
  \<^item> \<open>Shadow\<close>, \<open>Shadow_Props\<close>: rules, task queue, evaluation cache and the pairing of a primary request
    with its shadow.
  \<^item> \<open>Model_Router\<close>, \<open>Router_Props\<close>, \<open>Router_Breaker\<close>: routes and keys, the order of the candidates
    under every policy, the requests in flight, canary and degraded routing; and the selection
    together with the breaker.
  \<^item> \<open>Cache_Key\<close>, \<open>Response_Cache\<close>, \<open>Cache_Props\<close>, \<open>Cache_Keep\<close>, \<open>Cache_Runs\<close>: the fingerprint of a request and the
    buffer it is built in; the sharded store with its memory of entries and bodies; the invariant of
    one shard beside the rest and of the whole; what an operation leaves of the bodies; runs of the cache and its readers.
  \<^item> \<open>Usage_Meter\<close>, \<open>Usage_Props\<close>, \<open>Usage_Ring\<close>: the accumulators and the audit ring of the meter, the writes of
    \<^verbatim>\<open>store/pg_store.c\<close> that take them, conservation of what was recorded, a commit that fails, the shutdown, and the ring
    when it is full.
  \<^item> \<open>Redis_Pool\<close>: threads that take and give back connections; exclusive use and the limit.
  \<^item> \<open>Hedged\<close>, \<open>Hedged_Props\<close>: the two workers and the coordinator of a hedged call as a step relation; memory, results and
    termination under every interleaving.
  \<^item> \<open>Gate\<close>, \<open>Gate_Props\<close>: admission and settlement over the key cache, the limiter, the budgets and the ban table.
  \<^item> \<open>Prompt_Template\<close>, \<open>Prompt_Props\<close>: the JSON library as a parameter with its documented laws, the templates, and an
    instance of the library on finite trees.
  \<^item> \<open>Ac_Trie\<close>, \<open>Ac_Props\<close>, \<open>Ac_Search\<close>: the keyword automaton, the shape of the trie while it grows, and the
    breadth-first pass with the search, which finds a keyword exactly if one occurs.
  \<^item> \<open>Pii_Text\<close>, \<open>Pii_Replace\<close>, \<open>Pii_Match\<close>, \<open>Pii_Detect\<close>: patterns, checksums and masks of personal data; the pass that
    replaces matches, its totality, and what it notices.
  \<^item> \<open>Pii_Restore\<close>, \<open>Pii_Stream\<close>, \<open>Pii_Roundtrip\<close>: placeholders back to text, at once and in a stream; the round trip.
  \<^item> \<open>Guardrails\<close>, \<open>Webhook\<close>, \<open>Guardrails_Props\<close>: rules, the inspection of a request, the webhooks.
  \<^item> \<open>Jailbreak\<close>, \<open>Filter_Chain\<close>, \<open>Filter_Props\<close>: the detector; the chain of filters and what it does as a whole.
  \<^item> \<open>Watermark\<close>, \<open>Watermark_Props\<close>: the invisible frame, its tiles in a text, reading it back, and the marking of a stream.
  \<^item> \<open>Compressor\<close>, \<open>Compressor_Props\<close>: which messages and sentences of a request are kept, the rules, and the cache of snapshots.
  \<^item> \<open>Cache_Optimizer\<close>, \<open>Optimizer_Props\<close>: the order of the tools, dynamic headers, cache marks, and the snapshots, which like
    those of the compressor are a \<open>ring_log\<close>.
  \<^item> \<open>Chat_Target\<close>, \<open>Chat_Pipeline\<close>, \<open>Chat_Props\<close>, \<open>Chat_Conflicts\<close>: a chat request behind the admission over the
    components above, \<^verbatim>\<open>resolve_chat_target\<close> and the order of the parts in \<^verbatim>\<open>core/aigate_core.c\<close>, the cache, quota, failover and
    accounts of \<^verbatim>\<open>core/pipeline_chat.c\<close>; that it is answered once, gives its slots back and fails over in order; and where its
    parts work against each other.

  \<^bold>\<open>Termination.\<close> The walks along links in \<open>Lru\<close> are \<open>partial_function (option)\<close> and are proved to
  return on well-formed maps; loops that double a buffer or follow a text have a measure. The pass over personal data carries
  fuel, one more than the length of the text, which \<open>Pii_Match\<close> proves to be enough. The steps of a hedged call are well founded:
  every schedule ends, and at its end the caller has a result.

  \<^bold>\<open>Not modelled.\<close> Destructors that only release memory; the HTTP server, the admin API, the SQL
  statements but the two writes of usage, the provider formats, the Lua plugin interface, the streaming chat handler and the pipelines of the
  other request formats, which are calls into libraries around JSON documents. For a chat request the formats and calls of the providers are
  arguments.
\<close>

end
